(* ===== verification/Sensor_Prelude.thy ===== *)
theory Sensor_Prelude
  imports Main "HOL-Library.Word"
begin

text \<open>
  Shared vocabulary of the development: Rust's fallible results and panics, its machine
  integers with checked and saturating arithmetic, byte slices and little-endian fields,
  and the contracts (locales) that the components instantiate.

  Conventions. A Rust \<open>Result\<close> is \<open>Ok\<close> or \<open>Err\<close>; \<open>Panic\<close> is the outcome of an index or
  slice out of range, of \<open>unwrap\<close>/\<open>expect\<close> on nothing, and of an unchecked integer
  operation that overflows (the debug profile's behaviour; theorems show that it does not
  happen, so the release profile, which wraps, agrees). A method on \<open>&mut self\<close> takes the
  state and returns the result together with the state it leaves behind, on every path.
\<close>

unbundle bit_operations_syntax

section \<open>Results\<close>

datatype ('a, 'e) result = Ok 'a | Err 'e | Panic

text \<open>The \<open>?\<close> operator, and the combinators of \<open>Result\<close> and \<open>Option\<close> the sources use.\<close>

fun and_then :: "('a, 'e) result \<Rightarrow> ('a \<Rightarrow> ('b, 'e) result) \<Rightarrow> ('b, 'e) result" where
  "and_then (Ok x) f = f x"
| "and_then (Err e) f = Err e"
| "and_then Panic f = Panic"

fun map_err :: "('e \<Rightarrow> 'f) \<Rightarrow> ('a, 'e) result \<Rightarrow> ('a, 'f) result" where
  "map_err f (Ok x) = Ok x"
| "map_err f (Err e) = Err (f e)"
| "map_err f Panic = Panic"

fun map_ok :: "('a \<Rightarrow> 'b) \<Rightarrow> ('a, 'e) result \<Rightarrow> ('b, 'e) result" where
  "map_ok f (Ok x) = Ok (f x)"
| "map_ok f (Err e) = Err e"
| "map_ok f Panic = Panic"

fun ok_or :: "'a option \<Rightarrow> 'e \<Rightarrow> ('a, 'e) result" where
  "ok_or (Some x) e = Ok x"
| "ok_or None e = Err e"

fun expect :: "'a option \<Rightarrow> ('a, 'e) result" where
  "expect (Some x) = Ok x"
| "expect None = Panic"

text \<open>\<open>?\<close> inside a method on \<open>&mut self\<close>: an error leaves with the state reached so far.\<close>

type_synonym ('s, 'a, 'e) outcome = "('a, 'e) result \<times> 's"

fun try_with :: "('a, 'e) result \<Rightarrow> 's \<Rightarrow> ('a \<Rightarrow> ('s, 'b, 'e) outcome) \<Rightarrow> ('s, 'b, 'e) outcome" where
  "try_with (Ok x) s k = k x"
| "try_with (Err e) s k = (Err e, s)"
| "try_with Panic s k = (Panic, s)"

lemma and_then_cong [fundef_cong]:
  "m = m' \<Longrightarrow> (\<And>x. m' = Ok x \<Longrightarrow> f x = f' x) \<Longrightarrow> and_then m f = and_then m' f'"
  by (cases m') auto

named_theorems result_iffs \<open>when a result combinator returns a given outcome\<close>

lemma and_then_eq_Ok [result_iffs]: "and_then m f = Ok y \<longleftrightarrow> (\<exists>x. m = Ok x \<and> f x = Ok y)"
  by (cases m) auto

lemma and_then_eq_Err [result_iffs]:
  "and_then m f = Err e \<longleftrightarrow> m = Err e \<or> (\<exists>x. m = Ok x \<and> f x = Err e)"
  by (cases m) auto

lemma and_then_eq_Panic [result_iffs]:
  "and_then m f = Panic \<longleftrightarrow> m = Panic \<or> (\<exists>x. m = Ok x \<and> f x = Panic)"
  by (cases m) auto

lemma map_err_eq_Ok [result_iffs]: "map_err f m = Ok x \<longleftrightarrow> m = Ok x"
  by (cases m) auto

lemma map_err_eq_Err [result_iffs]: "map_err f m = Err e \<longleftrightarrow> (\<exists>e'. m = Err e' \<and> e = f e')"
  by (cases m) auto

lemma map_err_eq_Panic [result_iffs]: "map_err f m = Panic \<longleftrightarrow> m = Panic"
  by (cases m) auto

lemma map_ok_eq_Ok [result_iffs]: "map_ok f m = Ok y \<longleftrightarrow> (\<exists>x. m = Ok x \<and> y = f x)"
  by (cases m) auto

lemma map_ok_eq_Panic [result_iffs]: "map_ok f m = Panic \<longleftrightarrow> m = Panic"
  by (cases m) auto

lemma ok_or_eq_Ok [result_iffs]: "ok_or v e = Ok x \<longleftrightarrow> v = Some x"
  by (cases v) auto

lemma ok_or_eq_Err [result_iffs]: "ok_or v e = Err e' \<longleftrightarrow> v = None \<and> e' = e"
  by (cases v) auto

lemma ok_or_not_Panic [simp]: "ok_or v e \<noteq> Panic"
  by (cases v) auto

lemma try_with_eq_Ok [result_iffs]:
  "try_with r s k = (Ok y, s') \<longleftrightarrow> (\<exists>x. r = Ok x \<and> k x = (Ok y, s'))"
  by (cases r) auto

lemma try_with_eq_Err [result_iffs]:
  "try_with r s k = (Err e, s') \<longleftrightarrow> r = Err e \<and> s' = s \<or> (\<exists>x. r = Ok x \<and> k x = (Err e, s'))"
  by (cases r) auto

lemma try_with_eq_Panic [result_iffs]:
  "try_with r s k = (Panic, s') \<longleftrightarrow> r = Panic \<and> s' = s \<or> (\<exists>x. r = Ok x \<and> k x = (Panic, s'))"
  by (cases r) auto

lemma try_with_split:
  "P (try_with r s k) \<longleftrightarrow>
     (\<forall>x. r = Ok x \<longrightarrow> P (k x)) \<and> (\<forall>e. r = Err e \<longrightarrow> P (Err e, s)) \<and> (r = Panic \<longrightarrow> P (Panic, s))"
  by (cases r) auto

lemma try_with_ok_or:
  "try_with (ok_or v e) s k = (case v of Some x \<Rightarrow> k x | None \<Rightarrow> (Err e, s))"
  by (cases v) auto

lemma expect_eq_Ok [result_iffs]: "expect v = Ok x \<longleftrightarrow> v = Some x"
  by (cases v) auto

lemma expect_eq_Panic [result_iffs]: "expect v = Panic \<longleftrightarrow> v = None"
  by (cases v) auto

lemma expect_not_Err [simp]: "expect v \<noteq> Err e"
  by (cases v) auto

section \<open>Machine integers\<close>

type_synonym u8 = "8 word"
type_synonym u16 = "16 word"
type_synonym u32 = "32 word"
type_synonym u64 = "64 word"
type_synonym u128 = "128 word"

text \<open>Signed integers are the same words, read by \<^const>\<open>sint\<close>; \<open>usize\<close> is \<^typ>\<open>nat\<close>.\<close>

type_synonym i16 = "16 word"
type_synonym i32 = "32 word"
type_synonym usize = nat

definition checked_add :: "'a::len word \<Rightarrow> 'a word \<Rightarrow> 'a word option" where
  "checked_add a b = (if unat a + unat b < 2 ^ LENGTH('a) then Some (a + b) else None)"

definition checked_sub :: "'a::len word \<Rightarrow> 'a word \<Rightarrow> 'a word option" where
  "checked_sub a b = (if b \<le> a then Some (a - b) else None)"

definition checked_mul :: "'a::len word \<Rightarrow> 'a word \<Rightarrow> 'a word option" where
  "checked_mul a b = (if unat a * unat b < 2 ^ LENGTH('a) then Some (a * b) else None)"

definition saturating_sub :: "'a::len word \<Rightarrow> 'a word \<Rightarrow> 'a word" where
  "saturating_sub a b = (if b \<le> a then a - b else 0)"

definition saturating_add :: "'a::len word \<Rightarrow> 'a word \<Rightarrow> 'a word" where
  "saturating_add a b = (case checked_add a b of Some c \<Rightarrow> c | None \<Rightarrow> - 1)"

definition abs_diff :: "'a::len word \<Rightarrow> 'a word \<Rightarrow> 'a word" where
  "abs_diff a b = (if a < b then b - a else a - b)"

definition div_ceil :: "'a::len word \<Rightarrow> 'a word \<Rightarrow> 'a word" where
  "div_ceil a b = (if a mod b = 0 then a div b else a div b + 1)"

definition add_unchecked :: "'a::len word \<Rightarrow> 'a word \<Rightarrow> ('a word, 'e) result" where
  "add_unchecked a b = expect (checked_add a b)"

definition sub_unchecked :: "'a::len word \<Rightarrow> 'a word \<Rightarrow> ('a word, 'e) result" where
  "sub_unchecked a b = expect (checked_sub a b)"

definition u64_from :: "'a::len word \<Rightarrow> u64" where
  "u64_from x = ucast x"

text \<open>Checked arithmetic on a 64-bit \<open>usize\<close>.\<close>

definition usize_checked_add :: "usize \<Rightarrow> usize \<Rightarrow> usize option" where
  "usize_checked_add a b = (if a + b < 2 ^ 64 then Some (a + b) else None)"

definition usize_saturating_mul :: "usize \<Rightarrow> usize \<Rightarrow> usize" where
  "usize_saturating_mul a b = min (a * b) (2 ^ 64 - 1)"

named_theorems word_nat \<open>reading word operations as arithmetic on natural numbers\<close>

lemma checked_add_Some [word_nat]:
  "checked_add a b = Some c \<longleftrightarrow> unat c = unat a + unat b"
proof
  assume "checked_add a b = Some c"
  then show "unat c = unat a + unat b"
    by (auto simp: checked_add_def unat_word_ariths split: if_splits)
next
  assume c: "unat c = unat a + unat b"
  then have "unat a + unat b < 2 ^ LENGTH('a)"
    by (metis unsigned_less)
  moreover from this c have "a + b = c"
    by (metis mod_less unat_word_ariths(1) word_unat_eq_iff)
  ultimately show "checked_add a b = Some c"
    by (simp add: checked_add_def)
qed

lemma checked_add_None [word_nat]:
  "checked_add (a :: 'a::len word) b = None \<longleftrightarrow> 2 ^ LENGTH('a) \<le> unat a + unat b"
  by (auto simp: checked_add_def)

lemma checked_sub_Some [word_nat]:
  "checked_sub a b = Some c \<longleftrightarrow> unat a = unat c + unat b"
proof -
  have "b \<le> a \<Longrightarrow> unat (a - b) = unat a - unat b"
    by (rule unat_sub)
  then show ?thesis
    by (auto simp: checked_sub_def word_le_nat_alt word_unat_eq_iff unat_sub)
qed

lemma checked_sub_None [word_nat]: "checked_sub a b = None \<longleftrightarrow> unat a < unat b"
  by (auto simp: checked_sub_def word_le_nat_alt)

lemma checked_mul_Some [word_nat]:
  "checked_mul a b = Some c \<longleftrightarrow> unat c = unat a * unat b"
proof
  assume "checked_mul a b = Some c"
  then show "unat c = unat a * unat b"
    by (auto simp: checked_mul_def unat_word_ariths split: if_splits)
next
  assume c: "unat c = unat a * unat b"
  then have "unat a * unat b < 2 ^ LENGTH('a)"
    by (metis unsigned_less)
  moreover from this c have "a * b = c"
    by (metis mod_less unat_word_ariths(2) word_unat_eq_iff)
  ultimately show "checked_mul a b = Some c"
    by (simp add: checked_mul_def)
qed

lemma unat_saturating_sub [word_nat]: "unat (saturating_sub a b) = unat a - unat b"
  by (auto simp: saturating_sub_def unat_sub word_le_nat_alt)

lemma unat_abs_diff [word_nat]:
  "unat (abs_diff a b) = (unat a - unat b) + (unat b - unat a)"
  by (simp add: abs_diff_def unat_sub word_less_nat_alt word_le_nat_alt)

lemma unat_ucast_up [word_nat]:
  "LENGTH('a::len) \<le> LENGTH('b::len) \<Longrightarrow> unat (ucast (x :: 'a word) :: 'b word) = unat x"
  by (simp add: unsigned_ucast_eq take_bit_nat_eq_self_iff) (meson less_le_trans one_le_numeral power_increasing unsigned_less)

lemma unat_u64_from [simp]: "LENGTH('a::len) \<le> 64 \<Longrightarrow> unat (u64_from (x :: 'a word)) = unat x"
  by (simp add: u64_from_def unat_ucast_up)

lemma unat_eq_iff: "a = b \<longleftrightarrow> unat (a :: 'a::len word) = unat b"
  by (rule word_unat_eq_iff)

lemmas word_cmp_nat = word_less_nat_alt word_le_nat_alt unat_eq_iff

lemma ex_unat: "m < 2 ^ LENGTH('a::len) \<Longrightarrow> \<exists>c :: 'a word. unat c = m"
  by (rule exI [of _ "of_nat m"]) (simp add: unat_of_nat take_bit_nat_eq_self_iff)

lemma unat_u64_bound: "unat (x :: u64) < 18446744073709551616"
  using unsigned_less [of x, where ?'a = nat] by simp

lemma unat_u16_bound: "unat (x :: u16) < 65536"
  using unsigned_less [of x, where ?'a = nat] by simp

end
