(* ===== verification/Sensor_Bytes.thy ===== *)
theory Sensor_Bytes
  imports Sensor_Prelude
begin

text \<open>
  Byte slices and little-endian fields: Rust's \<open>xs[i]\<close>, \<open>xs[a..b]\<close>,
  \<open>out[a..b].copy_from_slice(src)\<close>, \<open>to_le_bytes\<close> and \<open>from_le_bytes\<close>, with the panics
  written out, and the lemmas that turn an encoder's sequence of copies into the
  concatenation of its fields and a decoder's reads back into those fields.
\<close>

type_synonym bytes = "u8 list"

section \<open>Indexing and slicing\<close>

definition index_at :: "'a list \<Rightarrow> nat \<Rightarrow> ('a, 'e) result" where
  "index_at xs i = (if i < length xs then Ok (xs ! i) else Panic)"

definition update_at :: "'a list \<Rightarrow> nat \<Rightarrow> 'a \<Rightarrow> ('a list, 'e) result" where
  "update_at xs i v = (if i < length xs then Ok (xs[i := v]) else Panic)"

definition sub :: "nat \<Rightarrow> nat \<Rightarrow> 'a list \<Rightarrow> 'a list" where
  "sub a b xs = take (b - a) (drop a xs)"

definition slice_at :: "'a list \<Rightarrow> nat \<Rightarrow> nat \<Rightarrow> ('a list, 'e) result" where
  "slice_at xs a b = (if a \<le> b \<and> b \<le> length xs then Ok (sub a b xs) else Panic)"

definition copy_at :: "nat \<Rightarrow> nat \<Rightarrow> 'a list \<Rightarrow> 'a list \<Rightarrow> ('a list, 'e) result" where
  "copy_at a b src out =
     (if a \<le> b \<and> b \<le> length out \<and> length src = b - a
      then Ok (take a out @ src @ drop b out) else Panic)"

text \<open>A run of \<open>out[a..b].copy_from_slice(src)\<close> statements, in order.\<close>

fun copy_fields :: "(nat \<times> nat \<times> 'a list) list \<Rightarrow> 'a list \<Rightarrow> ('a list, 'e) result" where
  "copy_fields [] out = Ok out"
| "copy_fields ((a, b, src) # fs) out = and_then (copy_at a b src out) (copy_fields fs)"

text \<open>The fields of a layout follow each other without holes from offset \<open>k\<close> to the end \<open>e\<close>.\<close>

fun contiguous :: "nat \<Rightarrow> nat \<Rightarrow> (nat \<times> nat \<times> 'a list) list \<Rightarrow> bool" where
  "contiguous k e [] = (k = e)"
| "contiguous k e ((a, b, src) # fs) = (a = k \<and> b = k + length src \<and> contiguous b e fs)"

lemma contiguous_le: "contiguous k e fs \<Longrightarrow> k \<le> e"
  by (induction k e fs rule: contiguous.induct) auto

lemma copy_fields_contiguous:
  assumes "contiguous k e fs" "e \<le> length out"
  shows "copy_fields fs out = Ok (take k out @ concat (map (\<lambda>(a, b, src). src) fs) @ drop e out)"
  using assms
proof (induction fs arbitrary: k out)
  case Nil
  then show ?case by simp
next
  case (Cons f fs)
  obtain a b src where f: "f = (a, b, src)" by (cases f)
  with Cons.prems have a: "a = k" and b: "b = k + length src" and c: "contiguous b e fs"
    by auto
  have be: "b \<le> e" by (rule contiguous_le [OF c])
  let ?out = "take k out @ src @ drop b out"
  have len: "length ?out = length out" using be b Cons.prems(2) by simp
  have "e \<le> length ?out" by (simp only: len Cons.prems(2))
  note step = Cons.IH [OF c this]
  moreover have "take b ?out = take k out @ src" using b be Cons.prems(2) by simp
  moreover have "drop e ?out = drop e out" using b be Cons.prems(2) by simp
  ultimately show ?case
    using a b be Cons.prems(2) by (simp add: f copy_at_def)
qed

lemma copy_fields_all:
  "contiguous 0 n fs \<Longrightarrow> n = length out \<Longrightarrow>
   copy_fields fs out = Ok (concat (map (\<lambda>(a, b, src). src) fs))"
  by (simp add: copy_fields_contiguous)

lemma copy_fields_append:
  "copy_fields (fs @ gs) out = and_then (copy_fields fs out) (copy_fields gs)"
proof (induction fs arbitrary: out)
  case Nil
  then show ?case by simp
next
  case (Cons f fs)
  obtain a b src where "f = (a, b, src)" by (cases f)
  then show ?case using Cons.IH by (cases "copy_at a b src out :: ('a list, 'b) result") auto
qed

lemma contiguous_append:
  "contiguous k e (fs @ gs) \<longleftrightarrow> (\<exists>m. contiguous k m fs \<and> contiguous m e gs)"
  by (induction k e fs rule: contiguous.induct) auto

declare copy_fields.simps [simp del]

text \<open>A literal list of fields carries its own bounds, so a run of copies evaluates.\<close>

fun fields_start :: "(nat \<times> nat \<times> 'a list) list \<Rightarrow> nat" where
  "fields_start [] = 0"
| "fields_start ((a, b, src) # fs) = a"

fun fields_end :: "(nat \<times> nat \<times> 'a list) list \<Rightarrow> nat" where
  "fields_end [] = 0"
| "fields_end [(a, b, src)] = b"
| "fields_end (f # g # fs) = fields_end (g # fs)"

lemma copy_fields_layout [simp]:
  "contiguous (fields_start fs) (fields_end fs) fs \<Longrightarrow> fields_end fs \<le> length out \<Longrightarrow>
   copy_fields fs out = Ok (take (fields_start fs) out @ concat (map (\<lambda>(a, b, src). src) fs) @
     drop (fields_end fs) out)"
  by (rule copy_fields_contiguous)

named_theorems slices \<open>reading slices of lists whose parts are known\<close>

lemma length_sub [simp]: "b \<le> length xs \<Longrightarrow> length (sub a b xs) = b - a"
  by (simp add: sub_def)

lemma slice_at_Ok [simp]: "a \<le> b \<Longrightarrow> b \<le> length xs \<Longrightarrow> slice_at xs a b = Ok (sub a b xs)"
  by (simp add: slice_at_def)

lemma index_at_Ok [simp]: "i < length xs \<Longrightarrow> index_at xs i = Ok (xs ! i)"
  by (simp add: index_at_def)

lemma update_at_Ok [simp]: "i < length xs \<Longrightarrow> update_at xs i v = Ok (xs[i := v])"
  by (simp add: update_at_def)

lemma sub_append [slices]:
  "sub a b (xs @ ys) = sub a (min b (length xs)) xs @ sub (a - length xs) (b - length xs) ys"
proof (cases "a \<le> length xs")
  case True
  then show ?thesis by (auto simp: sub_def min_def not_le)
next
  case False
  then show ?thesis by (auto simp: sub_def min_def)
qed

lemma sub_Suc_Cons [slices]: "sub (Suc a) (Suc b) (x # xs) = sub a b xs"
  by (simp add: sub_def)

lemma sub_numeral_Cons [slices]:
  "sub (numeral a) (numeral b) (x # xs) = sub (pred_numeral a) (pred_numeral b) xs"
  "sub 1 (numeral b) (x # xs) = sub 0 (pred_numeral b) xs"
  "sub (Suc 0) (numeral b) (x # xs) = sub 0 (pred_numeral b) xs"
  by (simp_all add: sub_def numeral_eq_Suc)

lemma sub_whole [slices]: "length xs \<le> b \<Longrightarrow> sub 0 b xs = xs"
  by (simp add: sub_def)

lemma sub_empty [slices]: "b \<le> a \<Longrightarrow> sub a b xs = []"
  by (simp add: sub_def)

lemma sub_sub [slices]: "b \<le> d - c \<Longrightarrow> sub a b (sub c d xs) = sub (c + a) (c + b) xs"
  by (cases "a \<le> b") (auto simp: sub_def take_drop add.commute min_def)

lemma sub_take [slices]: "b \<le> n \<Longrightarrow> sub a b (take n xs) = sub a b xs"
  by (cases "a \<le> b") (auto simp: sub_def take_drop min_def)

lemma sub_drop [slices]: "sub a b (drop n xs) = sub (n + a) (n + b) xs"
  by (simp add: sub_def add.commute)

text \<open>Adjacent slices of one list join, so a list is the join of the fields read from it.\<close>

named_theorems joins \<open>joining adjacent slices\<close>

lemma sub_join [joins]:
  assumes "a \<le> b" "b \<le> c"
  shows "sub a b xs @ sub b c xs = sub a c xs"
proof -
  have "c - a = (b - a) + (c - b)" using assms by simp
  then have "sub a c xs = take (b - a) (drop a xs) @ take (c - b) (drop (b - a) (drop a xs))"
    unfolding sub_def by (simp only: take_add)
  then show ?thesis using assms by (simp add: sub_def)
qed

lemma sub_join_append [joins]:
  "a \<le> b \<Longrightarrow> b \<le> c \<Longrightarrow> sub a b xs @ sub b c xs @ ys = sub a c xs @ ys"
  by (metis append.assoc sub_join)

lemma nth_as_sub: "i < length xs \<Longrightarrow> [xs ! i] = sub i (Suc i) xs"
  by (simp add: sub_def take_Suc_conv_app_nth hd_drop_conv_nth [symmetric] take_Suc)

lemma snoc_sub: "length xs = Suc n \<Longrightarrow> sub 0 n xs @ [xs ! n] = xs"
  by (simp add: sub_def flip: take_Suc_conv_app_nth)

lemma sub_snoc: "a \<le> b \<Longrightarrow> b < length xs \<Longrightarrow> sub a b xs @ xs ! b # ys = sub a (Suc b) xs @ ys"
  by (simp add: sub_def Suc_diff_le take_Suc_conv_app_nth)

lemma Cons_sub: "c = Suc a \<Longrightarrow> a < b \<Longrightarrow> a < length xs \<Longrightarrow> xs ! a # sub c b xs = sub a b xs"
  by (cases b) (simp_all add: sub_def Suc_diff_le flip: Cons_nth_drop_Suc)

lemma sub_full [joins]: "length xs \<le> n \<Longrightarrow> sub 0 n xs = xs"
  by (simp add: sub_def)

section \<open>Little-endian fields\<close>

definition to_le_bytes :: "nat \<Rightarrow> 'a::len word \<Rightarrow> bytes" where
  "to_le_bytes n x = map (\<lambda>i. ucast (drop_bit (8 * i) x)) [0..<n]"

fun from_le_bytes :: "bytes \<Rightarrow> 'a::len word" where
  "from_le_bytes [] = 0"
| "from_le_bytes (b # bs) = ucast b OR push_bit 8 (from_le_bytes bs)"

definition read_le :: "nat \<Rightarrow> bytes \<Rightarrow> nat \<Rightarrow> ('a::len word, 'e) result" where
  "read_le n input offset =
     and_then (slice_at input offset (offset + n)) (\<lambda>s. Ok (from_le_bytes s))"

definition read_u16 :: "bytes \<Rightarrow> nat \<Rightarrow> (u16, 'e) result" where
  "read_u16 = read_le 2"

definition read_u32 :: "bytes \<Rightarrow> nat \<Rightarrow> (u32, 'e) result" where
  "read_u32 = read_le 4"

definition read_u64 :: "bytes \<Rightarrow> nat \<Rightarrow> (u64, 'e) result" where
  "read_u64 = read_le 8"

lemma length_to_le_bytes [simp]: "length (to_le_bytes n x) = n"
  by (simp add: to_le_bytes_def)

lemma bit_from_le_bytes:
  "bit (from_le_bytes bs :: 'a::len word) i \<longleftrightarrow>
     i < LENGTH('a) \<and> i div 8 < length bs \<and> bit (bs ! (i div 8)) (i mod 8)"
proof (induction bs arbitrary: i)
  case Nil
  then show ?case by simp
next
  case (Cons b bs)
  show ?case
  proof (cases "i < 8")
    case True
    then show ?thesis by (auto simp: bit_simps Cons.IH)
  next
    case False
    then obtain j where j: "i = j + 8" by (metis add.commute le_add_diff_inverse not_less)
    have "\<not> bit b i" using False by (simp add: bit_word.rep_eq bit_simps not_less
          impossible_bit)
    moreover have "(j + 8) div 8 = Suc (j div 8)" by simp
    ultimately show ?thesis by (auto simp: j bit_simps Cons.IH)
  qed
qed

lemma bit_to_le_bytes:
  "j < n \<Longrightarrow> k < 8 \<Longrightarrow> bit (to_le_bytes n (x :: 'a::len word) ! j) k \<longleftrightarrow> bit x (8 * j + k)"
  by (auto simp: to_le_bytes_def bit_simps dest: bit_imp_le_length)

lemma from_to_le_bytes [simp]:
  assumes "LENGTH('a::len) \<le> 8 * n"
  shows "from_le_bytes (to_le_bytes n (x :: 'a word)) = x"
proof (rule bit_word_eqI)
  fix i assume i: "i < LENGTH('a)"
  with assms have "i div 8 < n" by simp
  then show "bit (from_le_bytes (to_le_bytes n x) :: 'a word) i = bit x i"
    using i by (simp add: bit_from_le_bytes bit_to_le_bytes)
qed

lemma to_from_le_bytes:
  assumes "length bs = n" "8 * n \<le> LENGTH('a::len)"
  shows "to_le_bytes n (from_le_bytes bs :: 'a word) = bs"
proof (rule nth_equalityI)
  show "length (to_le_bytes n (from_le_bytes bs :: 'a word)) = length bs" by (simp add: assms)
next
  fix j assume "j < length (to_le_bytes n (from_le_bytes bs :: 'a word))"
  then have j: "j < n" by simp
  show "to_le_bytes n (from_le_bytes bs :: 'a word) ! j = bs ! j"
  proof (rule bit_word_eqI)
    fix k assume "k < LENGTH(8)"
    then have k: "k < 8" by simp
    have "8 * j + k < LENGTH('a)" using assms(2) j k by simp
    then show "bit (to_le_bytes n (from_le_bytes bs :: 'a word) ! j) k = bit (bs ! j) k"
      using j k assms(1) by (simp add: bit_to_le_bytes bit_from_le_bytes)
  qed
qed

lemma read_le_Ok [simp]:
  "off + n \<le> length bs \<Longrightarrow> read_le n bs off = Ok (from_le_bytes (sub off (off + n) bs))"
  by (simp add: read_le_def)

lemmas read_defs = read_u16_def read_u32_def read_u64_def

end
