(* ===== verification/Sensor_Contracts.thy ===== *)
theory Sensor_Contracts
  imports Sensor_Bytes
begin

text \<open>
  The contracts the components of the host share, as locales: numeric codes of
  enumerations, codecs of wire payloads, and machines whose operations keep an invariant
  and never move a measured quantity backwards. Every component that promises one of
  them interprets the locale on its own definitions.
\<close>

section \<open>Numeric codes of enumerations\<close>

locale wire_code =
  fixes to_code :: "'v \<Rightarrow> 'c"
    and of_code :: "'c \<Rightarrow> ('v, 'e) result"
  assumes of_to: "of_code (to_code v) = Ok v"
    and to_of: "of_code c = Ok v \<Longrightarrow> to_code v = c"
    and no_panic: "of_code c \<noteq> Panic"
begin

lemma of_code_iff: "of_code c = Ok v \<longleftrightarrow> c = to_code v"
  using of_to to_of by auto

lemma to_code_inject: "to_code v = to_code w \<longleftrightarrow> v = w"
proof
  assume "to_code v = to_code w"
  then have "(Ok v :: ('v, 'e) result) = Ok w" by (metis of_to)
  then show "v = w" by simp
qed simp

lemma unknown_rejected: "c \<notin> range to_code \<Longrightarrow> \<exists>e. of_code c = Err e"
  using of_code_iff no_panic by (cases "of_code c") auto

end

text \<open>Enumerations whose reader returns an option, turned into an error by the caller.\<close>

locale option_code =
  fixes to_code :: "'v \<Rightarrow> 'c"
    and of_opt :: "'c \<Rightarrow> 'v option"
    and err :: "'c \<Rightarrow> 'e"
  assumes of_to_opt: "of_opt (to_code v) = Some v"
    and to_of_opt: "of_opt c = Some v \<Longrightarrow> to_code v = c"

sublocale option_code \<subseteq> wire_code to_code "\<lambda>c. ok_or (of_opt c) (err c)"
  by unfold_locales (auto simp: of_to_opt result_iffs dest: to_of_opt)

section \<open>Payload codecs\<close>

text \<open>
  An encoder that succeeds on the valid values, and a decoder that accepts exactly the bytes
  of valid values and never panics, whatever bytes arrive.
\<close>

locale codec =
  fixes encode :: "'m \<Rightarrow> (bytes, 'e) result"
    and decode :: "bytes \<Rightarrow> ('m, 'f) result"
    and valid :: "'m \<Rightarrow> bool"
  assumes encode_valid: "valid m \<Longrightarrow> \<exists>bs. encode m = Ok bs"
    and decode_encode: "valid m \<Longrightarrow> encode m = Ok bs \<Longrightarrow> decode bs = Ok m"
    and encode_decode: "decode bs = Ok m \<Longrightarrow> valid m \<and> encode m = Ok bs"
    and decode_no_panic: "decode bs \<noteq> Panic"
begin

lemma decode_iff: "decode bs = Ok m \<longleftrightarrow> valid m \<and> encode m = Ok bs"
  using decode_encode encode_decode by blast

lemma round_trip: "valid m \<Longrightarrow> \<exists>bs. encode m = Ok bs \<and> decode bs = Ok m"
  using encode_valid decode_encode by blast

lemma encode_inject: "valid m \<Longrightarrow> valid m' \<Longrightarrow> encode m = encode m' \<Longrightarrow> m = m'"
  by (metis decode_encode encode_valid result.inject(1))

lemma decode_inject: "decode bs = Ok m \<Longrightarrow> decode bs' = Ok m \<Longrightarrow> bs = bs'"
  by (metis encode_decode result.inject(1))

lemma unique_encoding: "valid m \<Longrightarrow> \<exists>!bs. decode bs = Ok m"
  using round_trip decode_inject by blast

end

text \<open>An encoder that also refuses every invalid value.\<close>

locale strict_codec = codec +
  assumes encode_invalid: "\<not> valid m \<Longrightarrow> \<exists>e. encode m = Err e"
begin

lemma encode_iff_decode: "encode m = Ok bs \<longleftrightarrow> decode bs = Ok m"
  by (metis decode_iff encode_invalid result.distinct(1))

lemma encode_no_panic: "encode m \<noteq> Panic"
  by (metis encode_valid encode_invalid result.distinct(3,5))

lemma encode_ok_iff: "(\<exists>bs. encode m = Ok bs) \<longleftrightarrow> valid m"
  using encode_valid encode_invalid by force

end

text \<open>Both directions follow once each function is characterised by the bytes of a value.\<close>

lemma strict_codecI:
  assumes e: "\<And>m bs. encode m = Ok bs \<longleftrightarrow> valid m \<and> bs = bytes_of m"
    and d: "\<And>bs m. decode bs = Ok m \<longleftrightarrow> valid m \<and> bs = bytes_of m"
    and "\<And>m. encode m \<noteq> Panic" "\<And>bs. decode bs \<noteq> Panic"
  shows "strict_codec encode decode valid"
proof
  show "\<exists>err. encode m = Err err" if "\<not> valid m" for m
    using that assms by (cases "encode m") auto
qed (use assms in auto)

section \<open>Machines with an invariant\<close>

locale invariant_machine =
  fixes step :: "'s \<Rightarrow> 'ev \<Rightarrow> 's"
    and inv :: "'s \<Rightarrow> bool"
  assumes step_inv: "inv s \<Longrightarrow> inv (step s ev)"
begin

lemma run_inv: "inv s \<Longrightarrow> inv (foldl step s evs)"
  by (induction evs arbitrary: s) (auto intro: step_inv)

end

text \<open>Machines in which every step also goes forward in some preorder.\<close>

locale forward_machine = invariant_machine +
  fixes before :: "'s \<Rightarrow> 's \<Rightarrow> bool"
  assumes before_refl: "before s s"
    and before_trans: "before s t \<Longrightarrow> before t u \<Longrightarrow> before s u"
    and step_before: "inv s \<Longrightarrow> before s (step s ev)"
begin

lemma run_before: "inv s \<Longrightarrow> before s (foldl step s evs)"
proof (induction evs arbitrary: s)
  case Nil
  then show ?case by (simp add: before_refl)
next
  case (Cons ev evs)
  then have "before s (step s ev)" "before (step s ev) (foldl step (step s ev) evs)"
    by (auto intro: step_before step_inv)
  then show ?case by (auto intro: before_trans)
qed

lemma run_prefix_before: "inv s \<Longrightarrow> before (foldl step s evs) (foldl step s (evs @ evs'))"
  using run_before [OF run_inv] by simp

end

end
