(* ===== verification/Core_Stream.thy ===== *)
theory Core_Stream
  imports Sensor_Contracts
begin

text \<open>
  The domain values of \<^verbatim>\<open>sensor-core\<close>: identities (\<^verbatim>\<open>identity.rs\<close>), exact sample rates
  (\<^verbatim>\<open>rate.rs\<close>), 24-bit sample axes (\<^verbatim>\<open>sample.rs\<close>), confirmed gaps (\<^verbatim>\<open>gap.rs\<close>) and
  continuity breaks (\<^verbatim>\<open>continuity.rs\<close>). The single-field structs \<open>BootEpoch\<close>,
  \<open>SampleSequence\<close>, \<open>SequenceCursor\<close>, \<open>SampleRate\<close> and \<open>SampleAxis\<close> are their word.
\<close>

section \<open>Identities\<close>

type_synonym BootEpoch = u64
type_synonym SampleSequence = u64
type_synonym SequenceCursor = u64

datatype HardwareId = HardwareId u8 u8 u8 u8 u8 u8 u8 u8

fun hardware_id_bytes :: "HardwareId \<Rightarrow> bytes" where
  "hardware_id_bytes (HardwareId a b c d e f g h) = [a, b, c, d, e, f, g, h]"

text \<open>\<open>HardwareId::from_bytes(slice.try_into().unwrap())\<close>: a slice of another length panics.\<close>

fun hardware_id_from_bytes :: "bytes \<Rightarrow> (HardwareId, 'e) result" where
  "hardware_id_from_bytes [a, b, c, d, e, f, g, h] = Ok (HardwareId a b c d e f g h)"
| "hardware_id_from_bytes _ = Panic"

record SampleIdentity =
  si_hardware_id :: HardwareId
  si_boot_epoch :: BootEpoch
  si_sequence :: SampleSequence

definition sample_sequence_checked_add :: "SampleSequence \<Rightarrow> u64 \<Rightarrow> SampleSequence option" where
  "sample_sequence_checked_add self count = checked_add self count"

definition next_sample :: "SequenceCursor \<Rightarrow> SampleSequence" where
  "next_sample self = self"

definition checked_advance :: "SequenceCursor \<Rightarrow> u64 \<Rightarrow> SequenceCursor option" where
  "checked_advance self count = checked_add self count"

lemma length_hardware_id_bytes [simp]: "length (hardware_id_bytes h) = 8"
  by (cases h) simp

lemma hardware_id_from_to [simp]: "hardware_id_from_bytes (hardware_id_bytes h) = Ok h"
  by (cases h) simp

lemma hardware_id_from_bytes_ex:
  "length bs = 8 \<Longrightarrow> \<exists>h. hardware_id_from_bytes bs = Ok h \<and> hardware_id_bytes h = bs"
  by (auto simp: numeral_eq_Suc length_Suc_conv)

lemma hardware_id_from_bytes_Ok:
  "hardware_id_from_bytes bs = Ok h \<Longrightarrow> hardware_id_bytes h = bs"
  by (induction bs rule: hardware_id_from_bytes.induct) auto

lemma hardware_id_from_bytes_no_panic [simp]:
  "length bs = 8 \<Longrightarrow> hardware_id_from_bytes bs \<noteq> Panic"
  by (auto simp: numeral_eq_Suc length_Suc_conv)

lemma hardware_id_bytes_inject: "hardware_id_bytes h = hardware_id_bytes h' \<longleftrightarrow> h = h'"
  by (cases h; cases h') auto

lemma checked_advance_Some: "checked_advance c n = Some d \<longleftrightarrow> unat d = unat c + unat n"
  by (simp add: checked_advance_def checked_add_Some)

lemma checked_advance_None: "checked_advance c n = None \<longleftrightarrow> 2 ^ 64 \<le> unat c + unat n"
  by (simp add: checked_advance_def checked_add_None)

section \<open>Sample rates\<close>

type_synonym SampleRate = u64

datatype SampleRateError = SRE_Zero | SRE_Overflow | SRE_ZeroDivisor | SRE_InexactDivision

definition HZ_4000 :: SampleRate where "HZ_4000 = 4000000000000"
definition HZ_2000 :: SampleRate where "HZ_2000 = 2000000000000"
definition HZ_1000 :: SampleRate where "HZ_1000 = 1000000000000"
definition HZ_500 :: SampleRate where "HZ_500 = 500000000000"
definition HZ_250 :: SampleRate where "HZ_250 = 250000000000"
definition HZ_125 :: SampleRate where "HZ_125 = 125000000000"
definition HZ_62_5 :: SampleRate where "HZ_62_5 = 62500000000"
definition HZ_31_25 :: SampleRate where "HZ_31_25 = 31250000000"
definition HZ_15_625 :: SampleRate where "HZ_15_625 = 15625000000"
definition HZ_7_8125 :: SampleRate where "HZ_7_8125 = 7812500000"
definition HZ_3_90625 :: SampleRate where "HZ_3_90625 = 3906250000"

lemmas rate_constants = HZ_4000_def HZ_2000_def HZ_1000_def HZ_500_def HZ_250_def HZ_125_def
  HZ_62_5_def HZ_31_25_def HZ_15_625_def HZ_7_8125_def HZ_3_90625_def

definition from_nanohertz :: "u64 \<Rightarrow> (SampleRate, SampleRateError) result" where
  "from_nanohertz value = (if value = 0 then Err SRE_Zero else Ok value)"

definition from_scaled :: "u64 \<Rightarrow> u64 \<Rightarrow> (SampleRate, SampleRateError) result" where
  "from_scaled factor value =
     (case checked_mul value factor of
        Some value' \<Rightarrow> from_nanohertz value'
      | None \<Rightarrow> Err SRE_Overflow)"

definition from_microhertz :: "u64 \<Rightarrow> (SampleRate, SampleRateError) result" where
  "from_microhertz = from_scaled 1000"

definition from_millihertz :: "u64 \<Rightarrow> (SampleRate, SampleRateError) result" where
  "from_millihertz = from_scaled 1000000"

definition from_hertz :: "u64 \<Rightarrow> (SampleRate, SampleRateError) result" where
  "from_hertz = from_scaled 1000000000"

text \<open>\<open>%\<close> and \<open>/\<close> by zero panic; a \<open>SampleRate\<close> is never zero.\<close>

definition exact_period_nanoseconds :: "SampleRate \<Rightarrow> (u64 option, 'e) result" where
  "exact_period_nanoseconds self =
     (if self = 0 then Panic
      else if (1000000000000000000 :: u64) mod self = 0
      then Ok (Some (1000000000000000000 div self)) else Ok None)"

definition divided_by :: "SampleRate \<Rightarrow> u32 \<Rightarrow> (SampleRate, SampleRateError) result" where
  "divided_by self divisor =
     (if divisor = 0 then Err SRE_ZeroDivisor
      else let divisor' = u64_from divisor in
        if self mod divisor' \<noteq> 0 then Err SRE_InexactDivision
        else from_nanohertz (self div divisor'))"

text \<open>An accepted rate is positive and is exactly the scaled value: nothing wraps.\<close>

lemma from_scaled_Ok:
  "from_scaled factor value = Ok r \<longleftrightarrow> unat r = unat value * unat factor \<and> r \<noteq> 0"
proof (cases "checked_mul value factor")
  case None
  then have "unat r \<noteq> unat value * unat factor" using checked_mul_Some [of "value" factor r] by simp
  then show ?thesis by (simp add: from_scaled_def None)
next
  case (Some c)
  then have "c = r \<longleftrightarrow> unat r = unat value * unat factor"
    by (auto simp: checked_mul_Some word_unat_eq_iff)
  moreover have "from_scaled factor value = Ok r \<longleftrightarrow> c = r \<and> r \<noteq> 0"
    by (auto simp: from_scaled_def Some from_nanohertz_def)
  ultimately show ?thesis by blast
qed

lemma divided_by_Ok:
  assumes "divided_by r d = Ok q"
  shows "unat q * unat d = unat r \<and> q \<noteq> 0"
proof -
  from assms have m: "r mod u64_from d = 0" and q: "q = r div u64_from d"
    and nz: "q \<noteq> 0"
    by (auto simp: divided_by_def Let_def from_nanohertz_def split: if_splits)
  from m have "unat (r mod u64_from d) = 0" by simp
  then have "unat r mod unat d = 0" by (simp add: unat_mod)
  moreover have "unat q = unat r div unat d"
    by (simp add: q unat_div)
  ultimately have "unat q * unat d = unat r" by auto
  with nz show ?thesis by simp
qed

lemma divided_by_iff:
  "divided_by r d = Ok q \<longleftrightarrow> unat q * unat d = unat r \<and> q \<noteq> 0 \<and> d \<noteq> 0"
proof
  assume "divided_by r d = Ok q"
  then show "unat q * unat d = unat r \<and> q \<noteq> 0 \<and> d \<noteq> 0"
    using divided_by_Ok [of r d q] by (auto simp: divided_by_def split: if_splits)
next
  assume h: "unat q * unat d = unat r \<and> q \<noteq> 0 \<and> d \<noteq> 0"
  then have d: "0 < unat d" by (simp add: unat_gt_0)
  have "unat (r mod u64_from d) = 0" using h by (simp add: unat_mod flip: h [THEN conjunct1])
  then have "r mod u64_from d = 0" by (simp only: unat_eq_0)
  moreover have "unat (r div u64_from d) = unat q" using d by (simp add: unat_div flip: h [THEN conjunct1])
  then have "r div u64_from d = q" by (simp only: word_unat_eq_iff)
  ultimately show "divided_by r d = Ok q" using h by (simp add: divided_by_def from_nanohertz_def Let_def)
qed

lemma divided_by_no_panic [simp]: "divided_by r d \<noteq> Panic"
  by (simp add: divided_by_def from_nanohertz_def Let_def)

lemma exact_period_nanoseconds_Ok:
  assumes "exact_period_nanoseconds r = Ok (Some p)"
  shows "unat p * unat r = 10 ^ 18"
proof -
  let ?K = "1000000000000000000 :: u64"
  from assms have m: "?K mod r = 0" and p: "p = ?K div r"
    by (auto simp: exact_period_nanoseconds_def split: if_splits)
  have k: "unat ?K = 10 ^ 18" by simp
  have "unat ?K mod unat r = 0" using m by (metis unat_0 unat_mod)
  moreover have "unat p = unat ?K div unat r" by (simp add: p unat_div)
  ultimately show ?thesis using k by (metis div_mult_mod_eq add.right_neutral)
qed

section \<open>Sample axes\<close>

type_synonym SampleAxis = i32

definition SAMPLE_AXIS_MIN :: int where "SAMPLE_AXIS_MIN = - 8388608"
definition SAMPLE_AXIS_MAX :: int where "SAMPLE_AXIS_MAX = 8388607"

datatype SampleAxisError = SampleAxisError i32

definition sample_axis_new :: "i32 \<Rightarrow> (SampleAxis, SampleAxisError) result" where
  "sample_axis_new value =
     (if sint value < SAMPLE_AXIS_MIN \<or> SAMPLE_AXIS_MAX < sint value
      then Err (SampleAxisError value) else Ok value)"

text \<open>What the private field of \<open>SampleAxis\<close> guarantees.\<close>

definition axis_ok :: "SampleAxis \<Rightarrow> bool" where
  "axis_ok a \<longleftrightarrow> SAMPLE_AXIS_MIN \<le> sint a \<and> sint a \<le> SAMPLE_AXIS_MAX"

lemma sample_axis_new_Ok: "sample_axis_new v = Ok a \<longleftrightarrow> a = v \<and> axis_ok v"
  by (auto simp: sample_axis_new_def axis_ok_def)

lemma sample_axis_new_no_panic [simp]: "sample_axis_new v \<noteq> Panic"
  by (simp add: sample_axis_new_def)

record SampleAxes =
  sa_x :: SampleAxis
  sa_y :: SampleAxis
  sa_z :: SampleAxis

section \<open>Confirmed gaps\<close>

datatype GapReason = UnknownDiscontinuity | SourceLoss | IngressOverflow | JournalOverflow

record Gap =
  gap_hardware_id :: HardwareId
  gap_boot_epoch :: BootEpoch
  gap_first_missing :: SampleSequence
  gap_missing_count :: u64
  gap_reason :: GapReason

datatype GapError = GE_Empty | GE_SequenceOverflow

definition gap_new ::
  "HardwareId \<Rightarrow> BootEpoch \<Rightarrow> SampleSequence \<Rightarrow> u64 \<Rightarrow> GapReason \<Rightarrow> (Gap, GapError) result" where
  "gap_new hardware_id boot_epoch first_missing missing_count reason =
     (if missing_count = 0 then Err GE_Empty
      else if sample_sequence_checked_add first_missing missing_count = None
      then Err GE_SequenceOverflow
      else Ok \<lparr>gap_hardware_id = hardware_id, gap_boot_epoch = boot_epoch,
               gap_first_missing = first_missing, gap_missing_count = missing_count,
               gap_reason = reason\<rparr>)"

definition last_missing :: "Gap \<Rightarrow> (SampleSequence, 'e) result" where
  "last_missing self =
     and_then (sub_unchecked (gap_missing_count self) 1)
       (\<lambda>n. expect (sample_sequence_checked_add (gap_first_missing self) n))"

text \<open>What the constructor of \<open>Gap\<close> establishes.\<close>

definition gap_ok :: "Gap \<Rightarrow> bool" where
  "gap_ok g \<longleftrightarrow> gap_missing_count g \<noteq> 0 \<and>
     unat (gap_first_missing g) + unat (gap_missing_count g) < 2 ^ 64"

lemma gap_new_Ok:
  "gap_new h b f n r = Ok g \<longleftrightarrow>
     g = \<lparr>gap_hardware_id = h, gap_boot_epoch = b, gap_first_missing = f,
          gap_missing_count = n, gap_reason = r\<rparr> \<and> gap_ok g"
  by (auto simp: gap_new_def gap_ok_def sample_sequence_checked_add_def checked_add_None)

lemma gap_new_no_panic [simp]: "gap_new h b f n r \<noteq> Panic"
  by (simp add: gap_new_def)

lemma last_missing_ok:
  assumes "gap_ok g"
  shows "\<exists>s. last_missing g = Ok s \<and>
    unat s + 1 = unat (gap_first_missing g) + unat (gap_missing_count g)"
proof -
  let ?n = "gap_missing_count g"
  have n: "?n \<noteq> 0" and b: "unat (gap_first_missing g) + unat ?n < 2 ^ 64"
    using assms by (auto simp: gap_ok_def)
  have "0 < unat ?n" using n by (simp add: unat_gt_0)
  then have one: "checked_sub ?n 1 = Some (?n - 1)" and d: "unat (?n - 1) = unat ?n - 1"
    using n by (auto simp: checked_sub_Some unat_minus_one)
  have "checked_add (gap_first_missing g) (?n - 1) \<noteq> None"
    using b d by (simp add: checked_add_None)
  then obtain s where s: "checked_add (gap_first_missing g) (?n - 1) = Some s" by auto
  then have "unat s + 1 = unat (gap_first_missing g) + unat ?n"
    using d \<open>0 < unat ?n\<close> by (simp add: checked_add_Some)
  with s one show ?thesis
    by (simp add: last_missing_def sub_unchecked_def sample_sequence_checked_add_def)
qed

section \<open>Continuity breaks\<close>

datatype ContinuityBreakReason =
  BreakUnknown | SensorOverflow | SensorReadUncertain | InvalidTiming | ProcessingReset

record ContinuityBreak =
  cb_hardware_id :: HardwareId
  cb_boot_epoch :: BootEpoch
  cb_at :: SequenceCursor
  cb_reason :: ContinuityBreakReason

datatype ContinuityBreakError = CBE_SequenceOverflow

definition continuity_break_new ::
  "HardwareId \<Rightarrow> BootEpoch \<Rightarrow> SequenceCursor \<Rightarrow> ContinuityBreakReason \<Rightarrow>
     (ContinuityBreak, ContinuityBreakError) result" where
  "continuity_break_new hardware_id boot_epoch at_cursor reason =
     (if checked_advance at_cursor 1 = None then Err CBE_SequenceOverflow
      else Ok \<lparr>cb_hardware_id = hardware_id, cb_boot_epoch = boot_epoch, cb_at = at_cursor,
               cb_reason = reason\<rparr>)"

definition continuity_break_end :: "ContinuityBreak \<Rightarrow> (SequenceCursor, 'e) result" where
  "continuity_break_end self = expect (checked_advance (cb_at self) 1)"

definition break_ok :: "ContinuityBreak \<Rightarrow> bool" where
  "break_ok b \<longleftrightarrow> unat (cb_at b) + 1 < 2 ^ 64"

lemma continuity_break_new_Ok:
  "continuity_break_new h e a r = Ok b \<longleftrightarrow>
     b = \<lparr>cb_hardware_id = h, cb_boot_epoch = e, cb_at = a, cb_reason = r\<rparr> \<and> break_ok b"
  by (auto simp: continuity_break_new_def break_ok_def checked_advance_None)

lemma continuity_break_new_no_panic [simp]: "continuity_break_new h e a r \<noteq> Panic"
  by (simp add: continuity_break_new_def)

lemma continuity_break_end_ok:
  assumes "break_ok b"
  shows "\<exists>c. continuity_break_end b = Ok c \<and> unat c = unat (cb_at b) + 1"
proof -
  have "checked_advance (cb_at b) 1 \<noteq> None"
    using assms by (simp add: break_ok_def checked_advance_None)
  then obtain c where "checked_advance (cb_at b) 1 = Some c" by auto
  moreover from this have "unat c = unat (cb_at b) + 1" by (simp add: checked_advance_Some)
  ultimately show ?thesis by (simp add: continuity_break_end_def)
qed

end
