(* ===== verification/Core_Delivery.thy ===== *)
theory Core_Delivery
  imports Core_Stream
begin

text \<open>
  The delivery cursors of one stream (\<^verbatim>\<open>sensor-core/src/delivery.rs\<close>): received, durable and
  released positions. The abstract view of a state is the set of sequence numbers that its
  cursors cover; the theorems show that accepted operations tile the received prefix
  exactly, that the three cursors stay nested, and that none of them ever moves back.
\<close>

section \<open>State and operations\<close>

record DeliveryCursors =
  dc_received :: SequenceCursor
  dc_durable :: SequenceCursor
  dc_released :: SequenceCursor

datatype CursorError =
  CE_EmptyChunk
| CE_EmptyGap
| CE_NonContiguous SampleSequence SampleSequence
| CE_SequenceOverflow
| CE_DurableRegression
| CE_DurableAheadOfReceived
| CE_ReleasedRegression
| CE_ReleasedAheadOfDurable

definition delivery_empty :: DeliveryCursors where
  "delivery_empty = \<lparr>dc_received = 0, dc_durable = 0, dc_released = 0\<rparr>"

definition delivery_new ::
  "SequenceCursor \<Rightarrow> SequenceCursor \<Rightarrow> SequenceCursor \<Rightarrow> (DeliveryCursors, CursorError) result" where
  "delivery_new received durable released =
     (if durable > received then Err CE_DurableAheadOfReceived
      else if released > durable then Err CE_ReleasedAheadOfDurable
      else Ok \<lparr>dc_received = received, dc_durable = durable, dc_released = released\<rparr>)"

definition accept_contiguous ::
  "DeliveryCursors \<Rightarrow> SampleSequence \<Rightarrow> u16 \<Rightarrow>
     (DeliveryCursors, SequenceCursor, CursorError) outcome" where
  "accept_contiguous self first count =
     (if count = 0 then (Err CE_EmptyChunk, self)
      else if first \<noteq> next_sample (dc_received self)
      then (Err (CE_NonContiguous (next_sample (dc_received self)) first), self)
      else try_with (ok_or (checked_advance (dc_received self) (u64_from count)) CE_SequenceOverflow)
             self (\<lambda>received. (Ok received, self\<lparr>dc_received := received\<rparr>)))"

definition account_gap ::
  "DeliveryCursors \<Rightarrow> SampleSequence \<Rightarrow> u64 \<Rightarrow>
     (DeliveryCursors, SequenceCursor, CursorError) outcome" where
  "account_gap self first count =
     (if count = 0 then (Err CE_EmptyGap, self)
      else if first \<noteq> next_sample (dc_received self)
      then (Err (CE_NonContiguous (next_sample (dc_received self)) first), self)
      else try_with (ok_or (checked_advance (dc_received self) count) CE_SequenceOverflow)
             self (\<lambda>received. (Ok received, self\<lparr>dc_received := received\<rparr>)))"

definition account_continuity_break ::
  "DeliveryCursors \<Rightarrow> SequenceCursor \<Rightarrow>
     (DeliveryCursors, SequenceCursor, CursorError) outcome" where
  "account_continuity_break self at_cursor =
     (if at_cursor \<noteq> dc_received self
      then (Err (CE_NonContiguous (next_sample (dc_received self)) (next_sample at_cursor)), self)
      else try_with (ok_or (checked_advance (dc_received self) 1) CE_SequenceOverflow)
             self (\<lambda>received. (Ok received, self\<lparr>dc_received := received\<rparr>)))"

definition mark_durable ::
  "DeliveryCursors \<Rightarrow> SequenceCursor \<Rightarrow> (DeliveryCursors, unit, CursorError) outcome" where
  "mark_durable self cursor =
     (if cursor < dc_durable self then (Err CE_DurableRegression, self)
      else if cursor > dc_received self then (Err CE_DurableAheadOfReceived, self)
      else (Ok (), self\<lparr>dc_durable := cursor\<rparr>))"

definition mark_released ::
  "DeliveryCursors \<Rightarrow> SequenceCursor \<Rightarrow> (DeliveryCursors, unit, CursorError) outcome" where
  "mark_released self cursor =
     (if cursor < dc_released self then (Err CE_ReleasedRegression, self)
      else if cursor > dc_durable self then (Err CE_ReleasedAheadOfDurable, self)
      else (Ok (), self\<lparr>dc_released := cursor\<rparr>))"

section \<open>Invariant and functional behaviour\<close>

definition delivery_ok :: "DeliveryCursors \<Rightarrow> bool" where
  "delivery_ok d \<longleftrightarrow> dc_released d \<le> dc_durable d \<and> dc_durable d \<le> dc_received d"

lemma delivery_new_Ok:
  "delivery_new r d l = Ok c \<longleftrightarrow>
     c = \<lparr>dc_received = r, dc_durable = d, dc_released = l\<rparr> \<and> delivery_ok c"
  by (auto simp: delivery_new_def delivery_ok_def not_less)

lemma delivery_empty_ok [simp]: "delivery_ok delivery_empty"
  by (simp add: delivery_ok_def delivery_empty_def)

text \<open>An operation returns the new cursor exactly when its range starts at the received
  cursor, is not empty and does not overflow; it then advances that cursor only.\<close>

lemmas delivery_defs = accept_contiguous_def account_gap_def account_continuity_break_def
  mark_durable_def mark_released_def

lemma accept_contiguous_Ok [result_iffs]:
  "accept_contiguous d first n = (Ok c, d') \<longleftrightarrow>
     n \<noteq> 0 \<and> first = dc_received d \<and> unat c = unat first + unat n \<and> d' = d\<lparr>dc_received := c\<rparr>"
  by (auto simp: delivery_defs next_sample_def result_iffs checked_advance_Some)

lemma account_gap_Ok [result_iffs]:
  "account_gap d first n = (Ok c, d') \<longleftrightarrow>
     n \<noteq> 0 \<and> first = dc_received d \<and> unat c = unat first + unat n \<and> d' = d\<lparr>dc_received := c\<rparr>"
  by (auto simp: delivery_defs next_sample_def result_iffs checked_advance_Some)

lemma account_continuity_break_Ok [result_iffs]:
  "account_continuity_break d at = (Ok c, d') \<longleftrightarrow>
     at = dc_received d \<and> unat c = unat at + 1 \<and> d' = d\<lparr>dc_received := c\<rparr>"
  by (auto simp: delivery_defs result_iffs checked_advance_Some)

lemma mark_durable_Ok [result_iffs]:
  "mark_durable d c = (Ok u, d') \<longleftrightarrow>
     dc_durable d \<le> c \<and> c \<le> dc_received d \<and> d' = d\<lparr>dc_durable := c\<rparr>"
  by (auto simp: delivery_defs not_less)

lemma mark_released_Ok [result_iffs]:
  "mark_released d c = (Ok u, d') \<longleftrightarrow>
     dc_released d \<le> c \<and> c \<le> dc_durable d \<and> d' = d\<lparr>dc_released := c\<rparr>"
  by (auto simp: delivery_defs not_less)

section \<open>Sequences of operations\<close>

datatype DeliveryOp =
  AcceptContiguous SampleSequence u16
| AccountGap SampleSequence u64
| AccountContinuityBreak SequenceCursor
| MarkDurable SequenceCursor
| MarkReleased SequenceCursor

text \<open>One operation of a session, with the sequence numbers it accounts for: none when it is
  refused.\<close>

fun delivery_apply :: "DeliveryCursors \<Rightarrow> DeliveryOp \<Rightarrow> (DeliveryCursors, (nat \<times> nat) list, CursorError) outcome"
  where
  "delivery_apply d (AcceptContiguous first n) =
     (case accept_contiguous d first n of
        (Ok c, d') \<Rightarrow> (Ok [(unat first, unat n)], d') | (Err e, d') \<Rightarrow> (Err e, d') | (Panic, d') \<Rightarrow> (Panic, d'))"
| "delivery_apply d (AccountGap first n) =
     (case account_gap d first n of
        (Ok c, d') \<Rightarrow> (Ok [(unat first, unat n)], d') | (Err e, d') \<Rightarrow> (Err e, d') | (Panic, d') \<Rightarrow> (Panic, d'))"
| "delivery_apply d (AccountContinuityBreak at) =
     (case account_continuity_break d at of
        (Ok c, d') \<Rightarrow> (Ok [(unat at, 1)], d') | (Err e, d') \<Rightarrow> (Err e, d') | (Panic, d') \<Rightarrow> (Panic, d'))"
| "delivery_apply d (MarkDurable c) =
     (case mark_durable d c of
        (Ok u, d') \<Rightarrow> (Ok [], d') | (Err e, d') \<Rightarrow> (Err e, d') | (Panic, d') \<Rightarrow> (Panic, d'))"
| "delivery_apply d (MarkReleased c) =
     (case mark_released d c of
        (Ok u, d') \<Rightarrow> (Ok [], d') | (Err e, d') \<Rightarrow> (Err e, d') | (Panic, d') \<Rightarrow> (Panic, d'))"

definition delivery_step :: "DeliveryCursors \<Rightarrow> DeliveryOp \<Rightarrow> DeliveryCursors" where
  "delivery_step d op = snd (delivery_apply d op)"

definition delivery_before :: "DeliveryCursors \<Rightarrow> DeliveryCursors \<Rightarrow> bool" where
  "delivery_before d d' \<longleftrightarrow> dc_received d \<le> dc_received d' \<and> dc_durable d \<le> dc_durable d' \<and>
     dc_released d \<le> dc_released d'"

lemma accept_contiguous_cases:
  "(\<exists>c. accept_contiguous d f n = (Ok c, d\<lparr>dc_received := c\<rparr>) \<and> f = dc_received d \<and>
        unat c = unat f + unat n) \<or> (\<exists>e. accept_contiguous d f n = (Err e, d))"
  by (auto simp: delivery_defs next_sample_def try_with_ok_or checked_advance_Some split: option.splits)

lemma account_gap_cases:
  "(\<exists>c. account_gap d f n = (Ok c, d\<lparr>dc_received := c\<rparr>) \<and> f = dc_received d \<and>
        unat c = unat f + unat n) \<or> (\<exists>e. account_gap d f n = (Err e, d))"
  by (auto simp: delivery_defs next_sample_def try_with_ok_or checked_advance_Some split: option.splits)

lemma account_continuity_break_cases:
  "(\<exists>c. account_continuity_break d f = (Ok c, d\<lparr>dc_received := c\<rparr>) \<and> f = dc_received d \<and>
        unat c = unat f + 1) \<or> (\<exists>e. account_continuity_break d f = (Err e, d))"
  by (auto simp: delivery_defs next_sample_def try_with_ok_or checked_advance_Some split: option.splits)

lemma delivery_apply_cases:
  obtains (refused) e where "delivery_apply d op = (Err e, d)"
  | (received) c n where "delivery_apply d op = (Ok [(unat (dc_received d), n)], d\<lparr>dc_received := c\<rparr>)"
      "unat c = unat (dc_received d) + n"
  | (durable) c where "delivery_apply d op = (Ok [], d\<lparr>dc_durable := c\<rparr>)"
      "dc_durable d \<le> c" "c \<le> dc_received d"
  | (released) c where "delivery_apply d op = (Ok [], d\<lparr>dc_released := c\<rparr>)"
      "dc_released d \<le> c" "c \<le> dc_durable d"
proof (cases op)
  case (AcceptContiguous f n)
  then show ?thesis using accept_contiguous_cases [of d f n] that(1,2) by auto
next
  case (AccountGap f n)
  then show ?thesis using account_gap_cases [of d f n] that(1,2) by auto
next
  case (AccountContinuityBreak f)
  then show ?thesis using account_continuity_break_cases [of d f] that(1,2) by auto
next
  case (MarkDurable c)
  then show ?thesis using that(1,3)
    by (cases "c < dc_durable d"; cases "dc_received d < c") (auto simp: mark_durable_def)
next
  case (MarkReleased c)
  then show ?thesis using that(1,4)
    by (cases "c < dc_released d"; cases "dc_durable d < c") (auto simp: mark_released_def)
qed

interpretation delivery: forward_machine delivery_step delivery_ok delivery_before
proof
  show "delivery_ok d \<Longrightarrow> delivery_ok (delivery_step d op)" for d op
    by (cases rule: delivery_apply_cases [of d op])
      (auto simp: delivery_step_def delivery_ok_def word_le_nat_alt)
  show "delivery_before d (delivery_step d op)" if "delivery_ok d" for d op
    by (cases rule: delivery_apply_cases [of d op])
      (auto simp: delivery_step_def delivery_before_def word_le_nat_alt)
qed (auto simp: delivery_before_def)

text \<open>The ranges accounted for by a whole session, in order.\<close>

fun delivery_log :: "DeliveryCursors \<Rightarrow> DeliveryOp list \<Rightarrow> (nat \<times> nat) list" where
  "delivery_log d [] = []"
| "delivery_log d (op # ops) =
     (case delivery_apply d op of (Ok rs, d') \<Rightarrow> rs @ delivery_log d' ops
                                | (_, d') \<Rightarrow> delivery_log d' ops)"

definition covers :: "(nat \<times> nat) list \<Rightarrow> nat list" where
  "covers rs = concat (map (\<lambda>(f, n). [f..<f + n]) rs)"

lemma covers_simps [simp]: "covers [] = []" "covers ((f, n) # rs) = [f..<f + n] @ covers rs"
  by (auto simp: covers_def)

lemma delivery_log_covers:
  "[0..<unat (dc_received d)] @ covers (delivery_log d ops) =
     [0..<unat (dc_received (foldl delivery_step d ops))]"
proof (induction ops arbitrary: d)
  case Nil
  then show ?case by simp
next
  case (Cons op ops)
  show ?case
  proof (cases rule: delivery_apply_cases [of d op])
    case (received c n)
    then have "[0..<unat (dc_received d)] @ [unat (dc_received d)..<unat (dc_received d) + n]
        = [0..<unat c]"
      by (simp add: upt_add_eq_append [symmetric])
    then show ?thesis
      using Cons.IH [of "d\<lparr>dc_received := c\<rparr>"] received(1)
      by (simp add: delivery_step_def flip: append_assoc)
  qed (use Cons.IH [of "delivery_step d op"] in \<open>simp_all add: delivery_step_def\<close>)
qed

text \<open>C27. Whatever operations a session performs, in whatever order, the chunks, gaps and
  continuity breaks it accounts for enumerate the sequence numbers below the received
  cursor one by one: none is skipped, none is counted twice, and none beyond it.\<close>

theorem delivery_accounts_exactly:
  "covers (delivery_log delivery_empty ops) =
     [0..<unat (dc_received (foldl delivery_step delivery_empty ops))]"
  using delivery_log_covers [of delivery_empty ops] by (simp add: delivery_empty_def)

text \<open>Throughout a session the cursors stay nested (nothing is released that is not
  durable, nothing durable that was not received) and no cursor ever moves backwards.\<close>

lemma delivery_cursors_nested_and_monotone:
  "delivery_ok (foldl delivery_step delivery_empty ops) \<and>
   delivery_before (foldl delivery_step delivery_empty ops)
     (foldl delivery_step delivery_empty (ops @ later))"
  using delivery.run_inv delivery.run_prefix_before by simp

text \<open>A refused operation leaves the cursors exactly as they were, and none panics.\<close>

theorem delivery_refusal_is_pure:
  "case delivery_apply d op of (Err e, d') \<Rightarrow> d' = d | (Ok rs, d') \<Rightarrow> delivery_before d d'
     | (Panic, d') \<Rightarrow> False"
  by (cases rule: delivery_apply_cases [of d op]) (auto simp: delivery_before_def word_le_nat_alt)

end
