(* ===== verification/Core_Time.thy ===== *)
theory Core_Time
  imports Core_Stream "HOL-Library.Signed_Division"
begin

text \<open>
  The clock model of \<^verbatim>\<open>sensor-core/src/time.rs\<close>: four-timestamp exchanges, the two-anchor
  online model of one boot epoch and its estimates. The theorems show that the recorded
  uncertainty really bounds the error of an observation, that a rejected observation leaves
  the model alone, that no reachable model panics, and what estimates return.
  \<open>i128\<close> values are integers with the range checks of the checked operations written out.
\<close>

section \<open>Observations\<close>

record ClockObservation =
  co_boot_epoch :: BootEpoch
  co_host_send_us :: u64
  co_node_receive_us :: u64
  co_node_send_us :: u64
  co_host_receive_us :: u64

datatype ClockObservationError =
  COE_ZeroBootEpoch | COE_HostClockRegressed | COE_NodeClockRegressed
| COE_ProcessingExceedsRoundTrip

definition clock_observation_new ::
  "BootEpoch \<Rightarrow> u64 \<Rightarrow> u64 \<Rightarrow> u64 \<Rightarrow> u64 \<Rightarrow> (ClockObservation, ClockObservationError) result" where
  "clock_observation_new boot_epoch host_send_us node_receive_us node_send_us host_receive_us =
     (if boot_epoch = 0 then Err COE_ZeroBootEpoch
      else if host_receive_us < host_send_us then Err COE_HostClockRegressed
      else if node_send_us < node_receive_us then Err COE_NodeClockRegressed
      else and_then (sub_unchecked host_receive_us host_send_us) (\<lambda>host_elapsed.
           and_then (sub_unchecked node_send_us node_receive_us) (\<lambda>node_processing.
             if node_processing > host_elapsed then Err COE_ProcessingExceedsRoundTrip
             else Ok \<lparr>co_boot_epoch = boot_epoch, co_host_send_us = host_send_us,
                      co_node_receive_us = node_receive_us, co_node_send_us = node_send_us,
                      co_host_receive_us = host_receive_us\<rparr>)))"

definition midpoint :: "u64 \<Rightarrow> u64 \<Rightarrow> (u64, 'e) result" where
  "midpoint first second =
     and_then (sub_unchecked second first) (\<lambda>d. add_unchecked first (d div 2))"

definition host_midpoint_us :: "ClockObservation \<Rightarrow> (u64, 'e) result" where
  "host_midpoint_us self = midpoint (co_host_send_us self) (co_host_receive_us self)"

definition node_midpoint_us :: "ClockObservation \<Rightarrow> (u64, 'e) result" where
  "node_midpoint_us self = midpoint (co_node_receive_us self) (co_node_send_us self)"

definition path_delay_us :: "ClockObservation \<Rightarrow> (u64, 'e) result" where
  "path_delay_us self =
     and_then (sub_unchecked (co_host_receive_us self) (co_host_send_us self)) (\<lambda>h.
     and_then (sub_unchecked (co_node_send_us self) (co_node_receive_us self)) (\<lambda>n.
       sub_unchecked h n))"

definition uncertainty_us :: "ClockObservation \<Rightarrow> (u64, 'e) result" where
  "uncertainty_us self = and_then (path_delay_us self) (\<lambda>d. Ok (div_ceil d 2))"

section \<open>Policy and model\<close>

record ClockModelPolicy =
  cp_max_observation_uncertainty_us :: u64
  cp_minimum_anchor_separation_us :: u64
  cp_maximum_drift_ppm :: u32
  cp_maximum_holdover_us :: u64

datatype ClockModelError =
  CME_InvalidPolicy | CME_ZeroBootEpoch | CME_BootEpochMismatch | CME_ObservationTooUncertain
| CME_NonMonotonicObservation | CME_DriftOutOfRange | CME_ModelNotLocked | CME_HoldoverExpired
| CME_ArithmeticOverflow

definition clock_policy_validate :: "ClockModelPolicy \<Rightarrow> (ClockModelPolicy, ClockModelError) result" where
  "clock_policy_validate self =
     (if cp_max_observation_uncertainty_us self = 0 \<or> cp_minimum_anchor_separation_us self = 0 \<or>
         cp_maximum_drift_ppm self = 0 \<or> cp_maximum_holdover_us self = 0
      then Err CME_InvalidPolicy else Ok self)"

record ClockAnchor =
  ca_node_us :: u64
  ca_host_us :: u64
  ca_uncertainty_us :: u64

definition clock_anchor_from :: "ClockObservation \<Rightarrow> (ClockAnchor, 'e) result" where
  "clock_anchor_from v =
     and_then (node_midpoint_us v) (\<lambda>n. and_then (host_midpoint_us v) (\<lambda>h.
     and_then (uncertainty_us v) (\<lambda>u.
       Ok \<lparr>ca_node_us = n, ca_host_us = h, ca_uncertainty_us = u\<rparr>)))"

datatype ClockModelState = Acquiring | Locked | Holdover

record ClockEstimate =
  ce_host_monotonic_us :: u64
  ce_uncertainty_us :: u64
  ce_state :: ClockModelState

record ClockModel =
  cm_boot_epoch :: BootEpoch
  cm_policy :: ClockModelPolicy
  cm_first :: "ClockAnchor option"
  cm_second :: "ClockAnchor option"

definition clock_model_new :: "BootEpoch \<Rightarrow> ClockModelPolicy \<Rightarrow> (ClockModel, ClockModelError) result" where
  "clock_model_new boot_epoch policy =
     (if boot_epoch = 0 then Err CME_ZeroBootEpoch
      else and_then (clock_policy_validate policy) (\<lambda>p.
        Ok \<lparr>cm_boot_epoch = boot_epoch, cm_policy = p, cm_first = None, cm_second = None\<rparr>))"

definition clock_model_state :: "ClockModel \<Rightarrow> ClockModelState" where
  "clock_model_state self = (if cm_second self \<noteq> None then Locked else Acquiring)"

definition u128_from :: "u64 \<Rightarrow> u128" where
  "u128_from x = ucast x"

definition u64_try_from_u128 :: "u128 \<Rightarrow> u64 option" where
  "u64_try_from_u128 x = (if unat x < 2 ^ 64 then Some (ucast x) else None)"

definition mul_div_ceil :: "u64 \<Rightarrow> u64 \<Rightarrow> u64 \<Rightarrow> (u64, ClockModelError) result" where
  "mul_div_ceil v multiplier divisor =
     and_then (ok_or (checked_mul (u128_from v) (u128_from multiplier)) CME_ArithmeticOverflow)
       (\<lambda>product. if divisor = 0 then Panic
          else ok_or (u64_try_from_u128 (div_ceil product (u128_from divisor)))
                 CME_ArithmeticOverflow)"

definition validate_drift :: "ClockAnchor \<Rightarrow> ClockAnchor \<Rightarrow> u32 \<Rightarrow> (unit, ClockModelError) result" where
  "validate_drift first second maximum_drift_ppm =
     and_then (sub_unchecked (ca_node_us second) (ca_node_us first)) (\<lambda>node_delta.
     and_then (sub_unchecked (ca_host_us second) (ca_host_us first)) (\<lambda>host_delta.
       let difference = abs_diff node_delta host_delta in
       and_then (mul_div_ceil node_delta (u64_from maximum_drift_ppm) 1000000) (\<lambda>allowed.
         if difference > allowed then Err CME_DriftOutOfRange else Ok ())))"

definition i128_checked :: "int \<Rightarrow> int option" where
  "i128_checked x = (if - (2 ^ 127) \<le> x \<and> x < 2 ^ 127 then Some x else None)"

definition u64_try_from_i128 :: "int \<Rightarrow> u64 option" where
  "u64_try_from_i128 x = (if 0 \<le> x \<and> x < 2 ^ 64 then Some (word_of_int x) else None)"

definition interpolate :: "ClockAnchor \<Rightarrow> ClockAnchor \<Rightarrow> u64 \<Rightarrow> (u64, ClockModelError) result" where
  "interpolate first second node_us =
     and_then (sub_unchecked (ca_node_us second) (ca_node_us first)) (\<lambda>node_delta.
     and_then (sub_unchecked (ca_host_us second) (ca_host_us first)) (\<lambda>host_delta.
       let relative = uint node_us - uint (ca_node_us first) in
       and_then (ok_or (i128_checked (relative * uint host_delta)) CME_ArithmeticOverflow) (\<lambda>product.
         if node_delta = 0 then Panic
         else and_then (ok_or (i128_checked (uint (ca_host_us first) + product sdiv uint node_delta))
                          CME_ArithmeticOverflow) (\<lambda>mapped.
                ok_or (u64_try_from_i128 mapped) CME_ArithmeticOverflow))))"

text \<open>\<open>observe\<close> and \<open>estimate\<close>.\<close>

definition observe ::
  "ClockModel \<Rightarrow> ClockObservation \<Rightarrow> (ClockModel, unit, ClockModelError) outcome" where
  "observe self observation =
     (if co_boot_epoch observation \<noteq> cm_boot_epoch self then (Err CME_BootEpochMismatch, self)
      else try_with (clock_anchor_from observation) self (\<lambda>candidate.
        if ca_uncertainty_us candidate > cp_max_observation_uncertainty_us (cm_policy self)
        then (Err CME_ObservationTooUncertain, self)
        else case cm_first self of
          None \<Rightarrow> (Ok (), self\<lparr>cm_first := Some candidate\<rparr>)
        | Some first \<Rightarrow>
            let latest = (case cm_second self of Some second \<Rightarrow> second | None \<Rightarrow> first) in
            if ca_node_us candidate \<le> ca_node_us latest \<or> ca_host_us candidate \<le> ca_host_us latest
            then (Err CME_NonMonotonicObservation, self)
            else if cm_second self = None
            then try_with (sub_unchecked (ca_node_us candidate) (ca_node_us first)) self (\<lambda>separation.
                if separation < cp_minimum_anchor_separation_us (cm_policy self)
                then (Ok (), if ca_uncertainty_us candidate < ca_uncertainty_us first
                             then self\<lparr>cm_first := Some candidate\<rparr> else self)
                else try_with (validate_drift first candidate (cp_maximum_drift_ppm (cm_policy self)))
                       self (\<lambda>_. (Ok (), self\<lparr>cm_first := Some first, cm_second := Some candidate\<rparr>)))
            else try_with (validate_drift latest candidate (cp_maximum_drift_ppm (cm_policy self)))
                   self (\<lambda>_. (Ok (), self\<lparr>cm_first := Some latest, cm_second := Some candidate\<rparr>))))"

definition distance_outside :: "ClockAnchor \<Rightarrow> ClockAnchor \<Rightarrow> u64 \<Rightarrow> (u64, 'e) result" where
  "distance_outside first second node_us =
     (if node_us < ca_node_us first then sub_unchecked (ca_node_us first) node_us
      else Ok (saturating_sub node_us (ca_node_us second)))"

definition estimate :: "ClockModel \<Rightarrow> u64 \<Rightarrow> (ClockEstimate, ClockModelError) result" where
  "estimate self node_us =
     (case (cm_first self, cm_second self) of
        (Some first, Some second) \<Rightarrow>
          and_then (distance_outside first second node_us) (\<lambda>outside_us.
            if outside_us > cp_maximum_holdover_us (cm_policy self) then Err CME_HoldoverExpired
            else and_then (interpolate first second node_us) (\<lambda>host_monotonic_us.
                 and_then (mul_div_ceil outside_us (u64_from (cp_maximum_drift_ppm (cm_policy self)))
                            1000000) (\<lambda>drift_growth.
                 and_then (ok_or (checked_add (max (ca_uncertainty_us first) (ca_uncertainty_us second))
                                    drift_growth) CME_ArithmeticOverflow) (\<lambda>uncertainty.
                   Ok \<lparr>ce_host_monotonic_us = host_monotonic_us, ce_uncertainty_us = uncertainty,
                       ce_state = (if outside_us = 0 then Locked else Holdover)\<rparr>))))
      | _ \<Rightarrow> Err CME_ModelNotLocked)"

section \<open>Observations are exact\<close>

definition observation_ok :: "ClockObservation \<Rightarrow> bool" where
  "observation_ok v \<longleftrightarrow> co_boot_epoch v \<noteq> 0 \<and>
     co_host_send_us v \<le> co_host_receive_us v \<and> co_node_receive_us v \<le> co_node_send_us v \<and>
     unat (co_node_send_us v) - unat (co_node_receive_us v) \<le>
       unat (co_host_receive_us v) - unat (co_host_send_us v)"

lemma sub_unchecked_Ok [result_iffs]: "sub_unchecked a b = Ok c \<longleftrightarrow> unat a = unat c + unat b"
  by (simp add: sub_unchecked_def result_iffs checked_sub_Some)

lemma sub_unchecked_le [simp]: "b \<le> a \<Longrightarrow> sub_unchecked a b = Ok (a - b)"
  by (simp add: sub_unchecked_def checked_sub_def)

lemma add_unchecked_Ok [result_iffs]: "add_unchecked a b = Ok c \<longleftrightarrow> unat c = unat a + unat b"
  by (simp add: add_unchecked_def result_iffs checked_add_Some)

lemma clock_observation_new_Ok:
  "clock_observation_new b s r t u = Ok v \<longleftrightarrow>
     v = \<lparr>co_boot_epoch = b, co_host_send_us = s, co_node_receive_us = r, co_node_send_us = t,
          co_host_receive_us = u\<rparr> \<and> observation_ok v"
  by (auto simp: clock_observation_new_def observation_ok_def not_less word_le_nat_alt
      word_less_nat_alt unat_sub)

lemma clock_observation_new_no_panic [simp]: "clock_observation_new b s r t u \<noteq> Panic"
  by (simp add: clock_observation_new_def not_less)

lemma midpoint_ok:
  assumes "a \<le> b"
  shows "\<exists>m. midpoint a b = Ok m \<and> unat m = unat a + (unat b - unat a) div 2"
proof -
  let ?h = "(b - a) div 2"
  have h: "unat ?h = (unat b - unat a) div 2" using assms by (simp add: unat_div unat_sub)
  have "unat a + unat ?h \<le> unat b" using assms by (simp add: h word_le_nat_alt)
  then have "unat a + unat ?h < 2 ^ 64" using unat_u64_bound [of b] by simp
  then obtain m where m: "checked_add a ?h = Some m" by (simp add: checked_add_def)
  then have "unat m = unat a + (unat b - unat a) div 2" by (simp add: checked_add_Some h)
  with m assms show ?thesis by (simp add: midpoint_def add_unchecked_def)
qed

lemma unat_div_ceil_two: "unat (div_ceil (d :: u64) 2) = (unat d + 1) div 2"
proof (cases "d mod 2 = 0")
  case True
  then have "unat (d mod 2) = 0" by simp
  then have "unat d mod 2 = 0" by (simp add: unat_mod)
  then show ?thesis using True by (simp add: div_ceil_def unat_div) presburger
next
  case False
  then have "unat (d mod 2) \<noteq> 0" by (simp add: unat_eq_0)
  then have o: "unat d mod 2 = 1" by (simp add: unat_mod)
  have "unat d div 2 + 1 < 18446744073709551616" using unat_u64_bound [of d] by linarith
  then have "unat (d div 2 + 1) = unat d div 2 + 1"
    by (simp add: unat_word_ariths unat_div del: Suc_eq_plus1)
  then show ?thesis using False o by (simp add: div_ceil_def) presburger
qed

lemma path_delay_ok:
  assumes "observation_ok v"
  shows "\<exists>d. path_delay_us v = Ok d \<and>
    unat d = (unat (co_host_receive_us v) - unat (co_host_send_us v)) -
             (unat (co_node_send_us v) - unat (co_node_receive_us v))"
  using assms
  by (auto simp: path_delay_us_def observation_ok_def word_le_nat_alt unat_sub)

lemma clock_anchor_from_ok:
  assumes "observation_ok v"
  shows "\<exists>c. clock_anchor_from v = Ok c \<and>
    unat (ca_node_us c) = unat (co_node_receive_us v) +
      (unat (co_node_send_us v) - unat (co_node_receive_us v)) div 2 \<and>
    unat (ca_host_us c) = unat (co_host_send_us v) +
      (unat (co_host_receive_us v) - unat (co_host_send_us v)) div 2 \<and>
    unat (ca_uncertainty_us c) = ((unat (co_host_receive_us v) - unat (co_host_send_us v)) -
             (unat (co_node_send_us v) - unat (co_node_receive_us v)) + 1) div 2"
proof -
  from assms have le: "co_host_send_us v \<le> co_host_receive_us v"
      "co_node_receive_us v \<le> co_node_send_us v" by (auto simp: observation_ok_def)
  obtain n h d where
    "midpoint (co_node_receive_us v) (co_node_send_us v) = (Ok n :: (u64, 'a) result)"
    "unat n = unat (co_node_receive_us v) + (unat (co_node_send_us v) - unat (co_node_receive_us v)) div 2"
    "midpoint (co_host_send_us v) (co_host_receive_us v) = (Ok h :: (u64, 'a) result)"
    "unat h = unat (co_host_send_us v) + (unat (co_host_receive_us v) - unat (co_host_send_us v)) div 2"
    "path_delay_us v = (Ok d :: (u64, 'a) result)"
    "unat d = (unat (co_host_receive_us v) - unat (co_host_send_us v)) -
              (unat (co_node_send_us v) - unat (co_node_receive_us v))"
    using midpoint_ok [OF le(1)] midpoint_ok [OF le(2)] path_delay_ok [OF assms] by metis
  then show ?thesis
    by (simp add: clock_anchor_from_def node_midpoint_us_def host_midpoint_us_def uncertainty_us_def
        unat_div_ceil_two)
qed

lemma midpoint_error:
  fixes t1 t2 t3 t4 :: nat and \<theta> :: int
  assumes "t1 \<le> t4" "t2 \<le> t3" "t3 - t2 \<le> t4 - t1"
    and "int t1 \<le> int t2 + \<theta>" "int t3 + \<theta> \<le> int t4"
  shows "\<bar>int (t1 + (t4 - t1) div 2) - (int (t2 + (t3 - t2) div 2) + \<theta>)\<bar>
    \<le> int ((t4 - t1 - (t3 - t2) + 1) div 2)"
proof -
  obtain p where p: "t3 = t2 + p" using assms(2) le_Suc_ex by blast
  have "t1 + p \<le> t4" using assms(1,3) p by simp
  then obtain d where d: "t4 = t1 + (p + d)" by (metis add.assoc le_Suc_ex)
  have "p div 2 + d div 2 \<le> (p + d) div 2" "(p + d) div 2 \<le> p div 2 + (d + 1) div 2"
    "d = d div 2 + (d + 1) div 2"
    by linarith+
  then show ?thesis using assms(4,5) by (simp add: p d) linarith
qed

text \<open>C28. The uncertainty of an observation is sound: for every offset \<open>\<theta>\<close> between the clocks
  that is consistent with causality (the request does not arrive before it was sent, nor
  the response), the anchor the model stores is within the recorded uncertainty of the truth.\<close>

theorem anchor_uncertainty_sound:
  assumes v: "clock_observation_new b t1 t2 t3 t4 = Ok v"
    and request: "uint t1 \<le> uint t2 + \<theta>"
    and response: "uint t3 + \<theta> \<le> uint t4"
  shows "\<exists>c. clock_anchor_from v = (Ok c :: (ClockAnchor, ClockModelError) result) \<and>
    \<bar>uint (ca_host_us c) - (uint (ca_node_us c) + \<theta>)\<bar> \<le> uint (ca_uncertainty_us c)"
proof -
  have o: "observation_ok v" and f: "co_host_send_us v = t1" "co_node_receive_us v = t2"
      "co_node_send_us v = t3" "co_host_receive_us v = t4"
    using v by (auto simp: clock_observation_new_Ok)
  obtain c where c: "clock_anchor_from v = (Ok c :: (ClockAnchor, ClockModelError) result)"
    and n: "unat (ca_node_us c) = unat t2 + (unat t3 - unat t2) div 2"
    and h: "unat (ca_host_us c) = unat t1 + (unat t4 - unat t1) div 2"
    and u: "unat (ca_uncertainty_us c) = ((unat t4 - unat t1) - (unat t3 - unat t2) + 1) div 2"
    using clock_anchor_from_ok [OF o] by (auto simp: f)
  have le: "unat t1 \<le> unat t4" "unat t2 \<le> unat t3" "unat t3 - unat t2 \<le> unat t4 - unat t1"
    using o by (auto simp: observation_ok_def f word_le_nat_alt)
  have "\<bar>int (unat (ca_host_us c)) - (int (unat (ca_node_us c)) + \<theta>)\<bar> \<le> int (unat (ca_uncertainty_us c))"
    unfolding n h u using le request response by (intro midpoint_error) simp_all
  with c show ?thesis by auto
qed

theorem anchor_uncertainty_sound_witness:
  "\<exists>c. clock_anchor_from \<lparr>co_boot_epoch = 1, co_host_send_us = 100, co_node_receive_us = 5020,
      co_node_send_us = 5030, co_host_receive_us = 151\<rparr> =
      (Ok c :: (ClockAnchor, ClockModelError) result) \<and>
    \<bar>uint (ca_host_us c) - (uint (ca_node_us c) + - 4900)\<bar> \<le> uint (ca_uncertainty_us c)"
  by (rule anchor_uncertainty_sound [of 1 100 5020 5030 151])
    (simp_all add: clock_observation_new_def sub_unchecked_def checked_sub_def)

section \<open>Invariant of the model\<close>

definition latest_anchor :: "ClockModel \<Rightarrow> ClockAnchor option" where
  "latest_anchor m = (case cm_second m of Some a \<Rightarrow> Some a | None \<Rightarrow> cm_first m)"

text \<open>The drift bound in exact arithmetic: the clocks disagree by at most the rounded-up share
  of parts per million.\<close>

definition drift_within :: "ClockAnchor \<Rightarrow> ClockAnchor \<Rightarrow> u32 \<Rightarrow> bool" where
  "drift_within a b ppm \<longleftrightarrow>
     (let n = unat (ca_node_us b) - unat (ca_node_us a);
          h = unat (ca_host_us b) - unat (ca_host_us a)
      in (n - h) + (h - n) \<le> (n * unat ppm + 999999) div 1000000)"

definition clock_policy_ok :: "ClockModelPolicy \<Rightarrow> bool" where
  "clock_policy_ok p \<longleftrightarrow> cp_max_observation_uncertainty_us p \<noteq> 0 \<and>
     cp_minimum_anchor_separation_us p \<noteq> 0 \<and> cp_maximum_drift_ppm p \<noteq> 0 \<and>
     cp_maximum_holdover_us p \<noteq> 0"

definition anchor_fits :: "ClockModelPolicy \<Rightarrow> ClockAnchor \<Rightarrow> bool" where
  "anchor_fits p a \<longleftrightarrow> ca_uncertainty_us a \<le> cp_max_observation_uncertainty_us p"

definition clock_model_ok :: "ClockModel \<Rightarrow> bool" where
  "clock_model_ok m \<longleftrightarrow> cm_boot_epoch m \<noteq> 0 \<and> clock_policy_ok (cm_policy m) \<and>
     (case (cm_first m, cm_second m) of
        (None, None) \<Rightarrow> True
      | (Some a, None) \<Rightarrow> anchor_fits (cm_policy m) a
      | (Some a, Some b) \<Rightarrow> anchor_fits (cm_policy m) a \<and> anchor_fits (cm_policy m) b \<and>
          ca_node_us a < ca_node_us b \<and> ca_host_us a < ca_host_us b \<and>
          drift_within a b (cp_maximum_drift_ppm (cm_policy m))
      | (None, Some b) \<Rightarrow> False)"

lemma clock_model_new_Ok:
  "clock_model_new b p = Ok m \<longleftrightarrow>
     m = \<lparr>cm_boot_epoch = b, cm_policy = p, cm_first = None, cm_second = None\<rparr> \<and> clock_model_ok m"
  by (auto simp: clock_model_new_def clock_policy_validate_def clock_model_ok_def clock_policy_ok_def)

lemma unat_div_ceil:
  assumes "b \<noteq> 0" "unat a div unat b + 1 < 2 ^ LENGTH('a)"
  shows "unat (div_ceil (a :: 'a::len word) b) = (unat a + unat b - 1) div unat b"
proof -
  have b: "0 < unat b" using assms(1) by (simp add: unat_gt_0)
  have z: "a mod b = 0 \<longleftrightarrow> unat a mod unat b = 0"
    by (metis unat_eq_0 unat_mod)
  have ceil: "(x + y - 1) div y = (if x mod y = 0 then x div y else x div y + 1)"
    if "0 < y" for x y :: nat
  proof -
    have "x + y - 1 = (x div y) * y + (x mod y + y - 1)" using that by simp
    then have "(x + y - 1) div y = x div y + (x mod y + y - 1) div y"
      using that by (metis div_mult_self3 add.commute less_numeral_extra(3))
    moreover have "(x mod y + y - 1) div y = (if x mod y = 0 then 0 else 1)"
      using that mod_less_divisor [OF that, of x]
      by (auto intro!: div_nat_eqI)
    ultimately show ?thesis by simp
  qed
  show ?thesis
    using assms(2) ceil [OF b] by (simp add: div_ceil_def z unat_div unat_word_ariths)
qed

lemma mul_div_ceil_million:
  "mul_div_ceil v k 1000000 =
     (let q = (unat v * unat k + 999999) div 1000000
      in if q < 2 ^ 64 then Ok (of_nat q) else Err CME_ArithmeticOverflow)"
proof -
  have u [simp]: "unat (u128_from x) = unat x" for x
    by (simp add: u128_from_def unat_ucast_up)
  have "unat v * unat k \<le> (2 ^ 64 - 1) * (2 ^ 64 - 1)"
    using unat_u64_bound [of v] unat_u64_bound [of k] by (intro mult_le_mono) simp_all
  then have b: "unat v * unat k < 2 ^ 128 - 2 ^ 64" by simp
  then obtain w where w: "checked_mul (u128_from v) (u128_from k) = Some w"
    and uw: "unat w = unat v * unat k"
    by (auto simp: checked_mul_def unat_word_ariths)
  have m: "u128_from 1000000 = 1000000" by (simp add: u128_from_def)
  have d: "unat (div_ceil w 1000000) = (unat v * unat k + 999999) div 1000000"
    using b by (subst unat_div_ceil) (simp_all add: uw)
  show ?thesis
    by (auto simp: mul_div_ceil_def w m u64_try_from_u128_def d Let_def unat_eq_iff
        unat_of_nat unsigned_ucast_eq take_bit_nat_def)
qed

lemma mul_div_ceil_no_panic [simp]: "mul_div_ceil v k 1000000 \<noteq> Panic"
  by (simp add: mul_div_ceil_million Let_def)

lemma mul_div_ceil_Ok:
  "mul_div_ceil v k 1000000 = Ok q \<Longrightarrow> unat q = (unat v * unat k + 999999) div 1000000"
  by (auto simp: mul_div_ceil_million Let_def unat_of_nat split: if_splits)

lemma validate_drift_ok:
  assumes "ca_node_us a < ca_node_us b" "ca_host_us a < ca_host_us b"
  shows "validate_drift a b ppm \<noteq> Panic"
    and "validate_drift a b ppm = Ok u \<Longrightarrow> drift_within a b ppm"
  using assms
  by (auto simp: validate_drift_def Let_def result_iffs drift_within_def unat_sub word_cmp_nat
      unat_abs_diff dest!: mul_div_ceil_Ok split: if_splits)

text \<open>The outcomes of \<open>observe\<close> on a well-formed model.\<close>

lemma observe_forward:
  assumes "clock_model_ok m" "clock_anchor_from v = (Ok c :: (ClockAnchor, ClockModelError) result)"
    and "co_boot_epoch v = cm_boot_epoch m" "anchor_fits (cm_policy m) c"
    and "latest_anchor m = Some a" "ca_node_us a < ca_node_us c" "ca_host_us a < ca_host_us c"
  shows "observe m v =
    (if cm_second m = None \<and> ca_node_us c - ca_node_us a < cp_minimum_anchor_separation_us (cm_policy m)
     then (Ok (), if ca_uncertainty_us c < ca_uncertainty_us a then m\<lparr>cm_first := Some c\<rparr> else m)
     else try_with (validate_drift a c (cp_maximum_drift_ppm (cm_policy m))) m
            (\<lambda>_. (Ok (), m\<lparr>cm_first := Some a, cm_second := Some c\<rparr>)))"
proof -
  have n: "(cp_max_observation_uncertainty_us (cm_policy m) < ca_uncertainty_us c) = False"
      "(ca_node_us c \<le> ca_node_us a) = False" "(ca_host_us c \<le> ca_host_us a) = False"
    using assms by (auto simp: anchor_fits_def)
  have "ca_node_us a \<le> ca_node_us c" using assms by simp
  then show ?thesis using assms(1,2,3,5)
    by (cases "cm_first m"; cases "cm_second m")
      (simp_all add: observe_def latest_anchor_def clock_model_ok_def n)
qed

lemma latest_anchor_fits:
  "clock_model_ok m \<Longrightarrow> latest_anchor m = Some a \<Longrightarrow> anchor_fits (cm_policy m) a"
  by (auto simp: clock_model_ok_def latest_anchor_def split: option.splits)

lemma observe_cases:
  assumes "clock_model_ok m" "observation_ok v"
  obtains (rejected) e where "observe m v = (Err e, m)"
  | (kept) "observe m v = (Ok (), m)"
  | (acquired) c where "observe m v = (Ok (), m\<lparr>cm_first := Some c\<rparr>)" "cm_second m = None"
      "anchor_fits (cm_policy m) c"
      "\<And>a. cm_first m = Some a \<Longrightarrow> ca_node_us a < ca_node_us c \<and> ca_host_us a < ca_host_us c"
  | (locked) a c where "latest_anchor m = Some a"
      "observe m v = (Ok (), m\<lparr>cm_first := Some a, cm_second := Some c\<rparr>)"
      "anchor_fits (cm_policy m) a" "anchor_fits (cm_policy m) c"
      "ca_node_us a < ca_node_us c" "ca_host_us a < ca_host_us c"
      "drift_within a c (cp_maximum_drift_ppm (cm_policy m))"
proof -
  obtain c where c: "clock_anchor_from v = (Ok c :: (ClockAnchor, ClockModelError) result)"
    using clock_anchor_from_ok [OF assms(2)] by metis
  consider (bad) "\<not> (co_boot_epoch v = cm_boot_epoch m \<and> anchor_fits (cm_policy m) c)"
    | (fresh) "co_boot_epoch v = cm_boot_epoch m" "anchor_fits (cm_policy m) c" "latest_anchor m = None"
    | (late) a where "co_boot_epoch v = cm_boot_epoch m" "anchor_fits (cm_policy m) c"
        "latest_anchor m = Some a" "\<not> (ca_node_us a < ca_node_us c \<and> ca_host_us a < ca_host_us c)"
    | (forward) a where "co_boot_epoch v = cm_boot_epoch m" "anchor_fits (cm_policy m) c"
        "latest_anchor m = Some a" "ca_node_us a < ca_node_us c" "ca_host_us a < ca_host_us c"
    by (cases "latest_anchor m") auto
  then show thesis
  proof cases
    case bad
    then have "\<exists>e. observe m v = (Err e, m)" by (auto simp: observe_def c anchor_fits_def)
    then show thesis using rejected by blast
  next
    case fresh
    then have "cm_first m = None" "cm_second m = None"
      by (auto simp: latest_anchor_def split: option.splits)
    with fresh show thesis
      by (intro acquired [of c]) (auto simp: observe_def c anchor_fits_def not_less)
  next
    case (late a)
    then have "observe m v = (Err CME_NonMonotonicObservation, m)"
      using assms(1)
      by (auto simp: observe_def c anchor_fits_def not_less latest_anchor_def clock_model_ok_def
          split: option.splits)
    then show thesis by (rule rejected)
  next
    case (forward a)
    note o = observe_forward [OF assms(1) c forward]
    note d = validate_drift_ok [OF forward(4,5), of "cp_maximum_drift_ppm (cm_policy m)"]
    show thesis
    proof (cases "cm_second m = None \<and>
        ca_node_us c - ca_node_us a < cp_minimum_anchor_separation_us (cm_policy m)")
      case True
      then have "cm_first m = Some a" using forward(3) by (simp add: latest_anchor_def)
      then show thesis
        using True o forward kept acquired [of c] by (cases "ca_uncertainty_us c < ca_uncertainty_us a") auto
    next
      case False
      then show thesis
        using o d rejected locked [of a c] forward latest_anchor_fits [OF assms(1) forward(3)]
        by (cases "validate_drift a c (cp_maximum_drift_ppm (cm_policy m))") auto
    qed
  qed
qed

lemma observe_ok:
  assumes "clock_model_ok m" "observation_ok v"
  shows "clock_model_ok (snd (observe m v))"
  using assms(1)
  by (cases rule: observe_cases [OF assms])
    (auto simp: clock_model_ok_def split: option.splits)

definition clock_step :: "ClockModel \<Rightarrow> ClockObservation \<Rightarrow> ClockModel" where
  "clock_step m v = (if observation_ok v then snd (observe m v) else m)"

definition clock_before :: "ClockModel \<Rightarrow> ClockModel \<Rightarrow> bool" where
  "clock_before m m' \<longleftrightarrow> cm_boot_epoch m' = cm_boot_epoch m \<and> cm_policy m' = cm_policy m \<and>
     (cm_second m \<noteq> None \<longrightarrow> cm_second m' \<noteq> None) \<and>
     (case latest_anchor m of None \<Rightarrow> True
      | Some a \<Rightarrow> (case latest_anchor m' of None \<Rightarrow> False
                   | Some b \<Rightarrow> ca_node_us a \<le> ca_node_us b \<and> ca_host_us a \<le> ca_host_us b))"

lemma clock_before_refl: "clock_before m m"
  by (auto simp: clock_before_def split: option.splits)

lemma observe_before:
  assumes "clock_model_ok m" "observation_ok v"
  shows "clock_before m (snd (observe m v))"
  by (cases rule: observe_cases [OF assms])
    (auto simp: clock_before_refl clock_before_def latest_anchor_def split: option.splits
      intro: less_imp_le)

interpretation clock: forward_machine clock_step clock_model_ok clock_before
proof
  show "clock_model_ok m \<Longrightarrow> clock_model_ok (clock_step m v)" for m v
    by (simp add: clock_step_def observe_ok)
  show "clock_model_ok m \<Longrightarrow> clock_before m (clock_step m v)" for m v
    by (simp add: clock_step_def observe_before clock_before_refl)
  show "clock_before m m'' " if "clock_before m m'" "clock_before m' m''" for m m' m''
    using that by (auto simp: clock_before_def split: option.splits)
qed (rule clock_before_refl)

text \<open>C29. \<open>observe\<close> on a model built by \<open>new\<close> and any number of earlier observations never
  panics, leaves the model alone when it rejects, keeps its invariant (both anchors within
  the uncertainty policy, strictly increasing on both clocks, drift within policy), never
  unlocks a locked model and never moves its latest anchor back on either clock.\<close>

theorem observe_safe:
  assumes "clock_model_new b p = Ok m0" and "observation_ok v"
  shows "case observe (foldl clock_step m0 vs) v of
     (Ok u, m') \<Rightarrow> clock_model_ok m' \<and> clock_before (foldl clock_step m0 vs) m'
   | (Err e, m') \<Rightarrow> m' = foldl clock_step m0 vs
   | (Panic, m') \<Rightarrow> False"
proof -
  have "clock_model_ok m0" using assms(1) clock_model_new_Ok by blast
  then have ok: "clock_model_ok (foldl clock_step m0 vs)" by (rule clock.run_inv)
  from observe_ok [OF ok assms(2)] observe_before [OF ok assms(2)] show ?thesis
    by (cases rule: observe_cases [OF ok assms(2)]) auto
qed

theorem observe_safe_witness:
  "case observe (foldl clock_step \<lparr>cm_boot_epoch = 1, cm_policy = \<lparr>cp_max_observation_uncertainty_us = 100,
       cp_minimum_anchor_separation_us = 1000000, cp_maximum_drift_ppm = 100,
       cp_maximum_holdover_us = 60000000\<rparr>, cm_first = None, cm_second = None\<rparr> [])
     \<lparr>co_boot_epoch = 1, co_host_send_us = 100, co_node_receive_us = 5020,
      co_node_send_us = 5030, co_host_receive_us = 151\<rparr> of
     (Ok u, m') \<Rightarrow> clock_model_ok m' \<and> clock_before (foldl clock_step \<lparr>cm_boot_epoch = 1, cm_policy = \<lparr>cp_max_observation_uncertainty_us = 100,
       cp_minimum_anchor_separation_us = 1000000, cp_maximum_drift_ppm = 100,
       cp_maximum_holdover_us = 60000000\<rparr>, cm_first = None, cm_second = None\<rparr> []) m'
   | (Err e, m') \<Rightarrow> m' = foldl clock_step \<lparr>cm_boot_epoch = 1, cm_policy = \<lparr>cp_max_observation_uncertainty_us = 100,
       cp_minimum_anchor_separation_us = 1000000, cp_maximum_drift_ppm = 100,
       cp_maximum_holdover_us = 60000000\<rparr>, cm_first = None, cm_second = None\<rparr> []
   | (Panic, m') \<Rightarrow> False"
  by (rule observe_safe [of 1 "\<lparr>cp_max_observation_uncertainty_us = 100,
       cp_minimum_anchor_separation_us = 1000000, cp_maximum_drift_ppm = 100,
       cp_maximum_holdover_us = 60000000\<rparr>"])
    (simp_all add: clock_model_new_def clock_policy_validate_def observation_ok_def)

section \<open>Estimates\<close>

text \<open>Rust's integer division truncates towards zero; it is monotone in the dividend.\<close>

lemma sdiv_mono:
  assumes "0 < l" "k \<le> k'"
  shows "(k :: int) sdiv l \<le> k' sdiv l"
proof -
  have pos: "x sdiv l = x div l" if "0 \<le> x" for x
    using assms(1) that by (cases "x = 0") (auto simp: signed_divide_int_def sgn_if)
  have neg: "x sdiv l = - (- x div l)" if "x \<le> 0" for x
    using assms(1) that by (cases "x = 0") (auto simp: signed_divide_int_def sgn_if)
  consider "0 \<le> k" | "k' \<le> 0" | "k < 0" "0 < k'" by linarith
  then show ?thesis
  proof cases
    case 1
    then show ?thesis using assms by (simp add: pos zdiv_mono1)
  next
    case 2
    then show ?thesis using assms by (simp add: neg zdiv_mono1)
  next
    case 3
    have "0 \<le> - k div l" "0 \<le> k' div l" using 3 assms by (auto simp: div_int_pos_iff)
    then show ?thesis using 3 by (simp add: neg pos)
  qed
qed

lemma sdiv_mult_self [simp]: "0 < l \<Longrightarrow> (l * k :: int) sdiv l = k"
  by (auto simp: signed_divide_int_def sgn_mult abs_mult sgn_if zero_less_mult_iff)

definition mapped_us :: "ClockAnchor \<Rightarrow> ClockAnchor \<Rightarrow> u64 \<Rightarrow> int" where
  "mapped_us a b t = uint (ca_host_us a) +
     ((uint t - uint (ca_node_us a)) * (uint (ca_host_us b) - uint (ca_host_us a)))
       sdiv (uint (ca_node_us b) - uint (ca_node_us a))"

lemma and_then_i128:
  "and_then (ok_or (i128_checked x) e) k = (case i128_checked x of None \<Rightarrow> Err e | Some _ \<Rightarrow> k x)"
  by (simp add: i128_checked_def)

lemma interpolate_eq:
  assumes "ca_node_us a < ca_node_us b" "ca_host_us a < ca_host_us b"
  shows "interpolate a b t =
    (case i128_checked ((uint t - uint (ca_node_us a)) * (uint (ca_host_us b) - uint (ca_host_us a))) of
       None \<Rightarrow> Err CME_ArithmeticOverflow
     | Some _ \<Rightarrow> (case i128_checked (mapped_us a b t) of None \<Rightarrow> Err CME_ArithmeticOverflow
         | Some x \<Rightarrow> ok_or (u64_try_from_i128 x) CME_ArithmeticOverflow))"
proof -
  have u: "uint (y - x) = uint y - uint x" if "x < y" for x y :: u64
    using that by (simp add: uint_sub_lem [THEN iffD1] word_le_def less_imp_le flip: word_le_def)
  have nz: "ca_node_us b - ca_node_us a \<noteq> 0" using assms by auto
  show ?thesis
    using assms
    by (simp add: interpolate_def Let_def u nz mapped_us_def and_then_i128 split: option.split)
      (auto simp: i128_checked_def split: if_splits)
qed

lemma mapped_us_mono:
  assumes "ca_node_us a < ca_node_us b" "ca_host_us a < ca_host_us b" "t \<le> t'"
  shows "mapped_us a b t \<le> mapped_us a b t'"
proof -
  have "uint (ca_node_us a) < uint (ca_node_us b)" "uint (ca_host_us a) < uint (ca_host_us b)"
    "uint t \<le> uint t'" using assms by (auto simp: word_less_def word_le_def)
  then show ?thesis unfolding mapped_us_def by (intro add_left_mono sdiv_mono mult_right_mono) auto
qed

lemma mapped_us_first: "mapped_us a b (ca_node_us a) = uint (ca_host_us a)"
  by (simp add: mapped_us_def signed_divide_int_def)

lemma mapped_us_second:
  assumes "ca_node_us a < ca_node_us b"
  shows "mapped_us a b (ca_node_us b) = uint (ca_host_us b)"
  using assms by (simp add: mapped_us_def word_less_def)

lemma interpolate_Ok:
  assumes "ca_node_us a < ca_node_us b" "ca_host_us a < ca_host_us b" "interpolate a b t = Ok h"
  shows "uint h = mapped_us a b t"
  using assms(3) unfolding interpolate_eq [OF assms(1,2)]
  by (auto simp: i128_checked_def u64_try_from_i128_def uint_word_of_int_eq take_bit_int_eq_self_iff
      split: option.splits if_splits)

lemma interpolate_no_panic:
  assumes "ca_node_us a < ca_node_us b" "ca_host_us a < ca_host_us b"
  shows "interpolate a b t \<noteq> Panic"
  by (auto simp: interpolate_eq [OF assms] split: option.splits)

lemma interpolate_between:
  assumes "ca_node_us a < ca_node_us b" "ca_host_us a < ca_host_us b"
    and "ca_node_us a \<le> t" "t \<le> ca_node_us b"
    and "(unat (ca_node_us b) - unat (ca_node_us a)) * (unat (ca_host_us b) - unat (ca_host_us a)) < 2 ^ 127"
  shows "\<exists>h. interpolate a b t = Ok h \<and> ca_host_us a \<le> h \<and> h \<le> ca_host_us b"
proof -
  have lo: "uint (ca_host_us a) \<le> mapped_us a b t"
    using mapped_us_mono [OF assms(1-3)] by (simp add: mapped_us_first)
  have hi: "mapped_us a b t \<le> uint (ca_host_us b)"
    using mapped_us_mono [OF assms(1,2,4)] by (simp add: mapped_us_second [OF assms(1)])
  let ?p = "(uint t - uint (ca_node_us a)) * (uint (ca_host_us b) - uint (ca_host_us a))"
  have d: "uint (ca_host_us a) < uint (ca_host_us b)" "uint (ca_node_us a) < uint (ca_node_us b)"
    "uint (ca_node_us a) \<le> uint t" "uint t \<le> uint (ca_node_us b)"
    using assms by (auto simp: word_less_def word_le_def)
  have "?p \<le> (uint (ca_node_us b) - uint (ca_node_us a)) * (uint (ca_host_us b) - uint (ca_host_us a))"
    using d by (intro mult_right_mono) auto
  also have "\<dots> = int ((unat (ca_node_us b) - unat (ca_node_us a)) *
      (unat (ca_host_us b) - unat (ca_host_us a)))"
    using assms(1,2) by (simp add: of_nat_diff word_less_nat_alt)
  also have "\<dots> < 2 ^ 127" using assms(5) by (metis of_nat_less_iff of_nat_numeral of_nat_power)
  finally have "?p < 2 ^ 127" .
  moreover have "0 \<le> ?p" using d by simp
  ultimately have p: "i128_checked ?p = Some ?p" by (simp add: i128_checked_def)
  have r: "0 \<le> mapped_us a b t" "mapped_us a b t < 2 ^ 64"
    using lo hi order_trans [OF uint_ge_0 [of "ca_host_us a"]] uint_lt2p [of "ca_host_us b"]
    by simp_all
  then have "interpolate a b t = Ok (word_of_int (mapped_us a b t))"
    by (simp add: interpolate_eq [OF assms(1,2)] p) (simp add: i128_checked_def u64_try_from_i128_def)
  moreover have "uint (word_of_int (mapped_us a b t) :: u64) = mapped_us a b t"
    using r by (simp add: uint_word_of_int_eq take_bit_int_eq_self_iff)
  ultimately show ?thesis using lo hi by (simp add: word_le_def)
qed

lemma distance_outside_ok:
  assumes "ca_node_us a < ca_node_us b"
  shows "\<exists>w. distance_outside a b t = Ok w \<and>
    unat w = (unat (ca_node_us a) - unat t) + (unat t - unat (ca_node_us b))"
  using assms by (cases "t < ca_node_us a")
    (simp_all add: distance_outside_def unat_sub unat_saturating_sub word_less_nat_alt word_le_nat_alt)

lemma estimate_Ok:
  assumes ok: "clock_model_ok m" and e: "estimate m t = Ok e"
  shows "\<exists>a b. cm_first m = Some a \<and> cm_second m = Some b \<and>
    uint (ce_host_monotonic_us e) = mapped_us a b t \<and>
    (let outside = (unat (ca_node_us a) - unat t) + (unat t - unat (ca_node_us b)) in
     outside \<le> unat (cp_maximum_holdover_us (cm_policy m)) \<and>
     unat (ce_uncertainty_us e) = max (unat (ca_uncertainty_us a)) (unat (ca_uncertainty_us b)) +
        (outside * unat (cp_maximum_drift_ppm (cm_policy m)) + 999999) div 1000000 \<and>
     (ce_state e = (if outside = 0 then Locked else Holdover)))"
proof -
  obtain a b where ab: "cm_first m = Some a" "cm_second m = Some b"
    using e by (auto simp: estimate_def split: option.splits)
  with ok have lt: "ca_node_us a < ca_node_us b" "ca_host_us a < ca_host_us b"
    by (auto simp: clock_model_ok_def)
  let ?out = "(unat (ca_node_us a) - unat t) + (unat t - unat (ca_node_us b))"
  obtain w where w: "distance_outside a b t = (Ok w :: (u64, ClockModelError) result)"
    and uw: "unat w = ?out"
    using distance_outside_ok [OF lt(1)] by metis
  have w0: "w = 0 \<longleftrightarrow> ?out = 0" by (simp only: uw [symmetric] unat_eq_0)
  have um: "unat (max x y) = max (unat x) (unat y)" for x y :: u64
    by (simp add: max_def word_le_nat_alt)
  from e uw show ?thesis
    by (auto simp: estimate_def w ab result_iffs Let_def w0 checked_add_Some um word_le_nat_alt
        not_less dest!: interpolate_Ok [OF lt] mul_div_ceil_Ok split: if_splits)
qed

lemma estimate_no_panic:
  assumes "clock_model_ok m"
  shows "estimate m t \<noteq> Panic"
proof -
  have "interpolate a b t \<noteq> Panic" if "cm_first m = Some a" "cm_second m = Some b" for a b
    using assms that by (intro interpolate_no_panic) (auto simp: clock_model_ok_def)
  then show ?thesis
    by (auto simp: estimate_def distance_outside_def result_iffs less_imp_le split: option.splits)
qed


text \<open>Between its two anchors a locked model always answers, with a host time between the
  anchors' host times, as long as the spans multiply to less than \<open>2^127\<close> (any two spans
  below 292,000 years do).\<close>

lemma estimate_available_between_anchors:
  assumes ok: "clock_model_ok m" and ab: "cm_first m = Some a" "cm_second m = Some b"
    and t: "ca_node_us a \<le> t" "t \<le> ca_node_us b"
    and span: "(unat (ca_node_us b) - unat (ca_node_us a)) *
      (unat (ca_host_us b) - unat (ca_host_us a)) < 2 ^ 127"
  shows "\<exists>e. estimate m t = Ok e \<and> ca_host_us a \<le> ce_host_monotonic_us e \<and>
    ce_host_monotonic_us e \<le> ca_host_us b \<and> ce_state e = Locked \<and>
    ce_uncertainty_us e = max (ca_uncertainty_us a) (ca_uncertainty_us b)"
proof -
  have lt: "ca_node_us a < ca_node_us b" "ca_host_us a < ca_host_us b"
    using ok ab by (auto simp: clock_model_ok_def)
  obtain h where h: "interpolate a b t = Ok h" "ca_host_us a \<le> h" "h \<le> ca_host_us b"
    using interpolate_between [OF lt t span] by auto
  have "\<not> t < ca_node_us a" "saturating_sub t (ca_node_us b) = 0"
    using t by (auto simp: word_unat_eq_iff unat_saturating_sub word_le_nat_alt word_less_nat_alt)
  then show ?thesis
    using h unat_u64_bound [of "max (ca_uncertainty_us a) (ca_uncertainty_us b)"]
    by (simp add: estimate_def distance_outside_def ab mul_div_ceil_million checked_add_def)
qed

section \<open>Instances\<close>

definition example_clock :: ClockModel where
  "example_clock = \<lparr>cm_boot_epoch = 1, cm_policy = \<lparr>cp_max_observation_uncertainty_us = 100,
       cp_minimum_anchor_separation_us = 1000000, cp_maximum_drift_ppm = 100,
       cp_maximum_holdover_us = 60000000\<rparr>,
     cm_first = Some \<lparr>ca_node_us = 1000000, ca_host_us = 7000000, ca_uncertainty_us = 10\<rparr>,
     cm_second = Some \<lparr>ca_node_us = 3000000, ca_host_us = 9000100, ca_uncertainty_us = 20\<rparr>\<rparr>"

lemma example_clock_ok: "clock_model_ok example_clock"
  by (simp add: example_clock_def clock_model_ok_def clock_policy_ok_def anchor_fits_def drift_within_def
      Let_def)

lemma example_estimates:
  "estimate example_clock 1000000 =
     Ok \<lparr>ce_host_monotonic_us = 7000000, ce_uncertainty_us = 20, ce_state = Locked\<rparr>"
  "estimate example_clock 5000000 =
     Ok \<lparr>ce_host_monotonic_us = 11000200, ce_uncertainty_us = 220, ce_state = Holdover\<rparr>"
  by (simp_all add: estimate_def example_clock_def distance_outside_def mul_div_ceil_million
      interpolate_def sub_unchecked_def checked_sub_def saturating_sub_def i128_checked_def
      u64_try_from_i128_def signed_divide_int_def checked_add_def u64_from_def)


end
