(* ===== verification/Framing_Crc.thy ===== *)
theory Framing_Crc
  imports Sensor_Bytes
begin

text \<open>
  The CRC-32C of \<^verbatim>\<open>sensor-protocol/src/framing.rs\<close>, computed bit by bit as the code does.
  One bit step is a linear bijection of the 32-bit register, so the register after four
  bytes is a bijection of those bytes: every error confined to four consecutive bytes of a
  checked body, its checksum included, is detected.
\<close>

section \<open>The computation\<close>

definition crc_bit :: "u32 \<Rightarrow> u32" where
  "crc_bit crc = (let mask = 0 - (crc AND 1) in drop_bit 1 crc XOR (0x82f63b78 AND mask))"

definition crc_byte :: "u32 \<Rightarrow> u8 \<Rightarrow> u32" where
  "crc_byte crc byte = (crc_bit ^^ 8) (crc XOR ucast byte)"

definition crc32c :: "bytes \<Rightarrow> u32" where
  "crc32c bs = NOT (foldl crc_byte (- 1) bs)"

section \<open>Linearity and injectivity\<close>

lemma xor_right_cancel: "x XOR a = y XOR a \<longleftrightarrow> x = (y :: 'a::len word)"
  by (auto simp: bit_eq_iff bit_xor_iff)

lemma xor_left_cancel: "a XOR x = a XOR y \<longleftrightarrow> x = (y :: 'a::len word)"
  by (auto simp: bit_eq_iff bit_xor_iff)

lemma xor_ones: "x XOR y = - 1 \<longleftrightarrow> NOT x = (y :: 'a::len word)"
proof -
  have "- 1 = x XOR NOT x" by (rule bit_word_eqI) (simp add: bit_simps)
  then show ?thesis by (metis xor_left_cancel)
qed

definition crc_poly :: u32 where "crc_poly = 0x82f63b78"

lemma crc_mask: "(0x82f63b78 :: u32) AND (0 - (c AND 1)) = (if bit c 0 then crc_poly else 0)"
proof -
  have "c AND 1 = (if bit c 0 then 1 else 0)"
    by (simp add: and_one_eq bit_0 odd_iff_mod_2_eq_one)
  then show ?thesis by (auto simp: crc_poly_def)
qed

lemma crc_bit_alt: "crc_bit c = drop_bit 1 c XOR (if bit c 0 then crc_poly else 0)"
  unfolding crc_bit_def Let_def crc_mask ..

lemma crc_bit_xor: "crc_bit (x XOR y) = crc_bit x XOR crc_bit y"
  by (rule bit_word_eqI) (auto simp: crc_bit_alt bit_simps)

lemma crc_bit_even: "\<not> bit y 0 \<Longrightarrow> crc_bit y = drop_bit 1 y"
  by (simp add: crc_bit_alt)

lemma bit_crc_poly_top: "bit crc_poly 31"
  by (simp add: crc_poly_def)

lemma crc_bit_top: "bit (crc_bit c) 31 \<longleftrightarrow> bit c 0"
  using bit_crc_poly_top by (auto simp: crc_bit_alt bit_simps impossible_bit)

lemma crc_bit_inj: "crc_bit x = crc_bit y \<Longrightarrow> x = y"
proof -
  assume eq: "crc_bit x = crc_bit y"
  then have b0: "bit x 0 \<longleftrightarrow> bit y 0" by (metis crc_bit_top)
  with eq have d: "drop_bit 1 x = drop_bit 1 y"
    by (simp add: crc_bit_alt xor_right_cancel)
  show "x = y"
  proof (rule bit_word_eqI)
    fix n assume "n < LENGTH(32)"
    show "bit x n = bit y n"
    proof (cases n)
      case 0
      then show ?thesis using b0 by simp
    next
      case (Suc m)
      have "bit (drop_bit 1 x) m = bit (drop_bit 1 y) m" by (simp only: d)
      then show ?thesis using Suc by (simp add: bit_simps)
    qed
  qed
qed

lemma crc_bits_xor: "(crc_bit ^^ n) (x XOR y) = (crc_bit ^^ n) x XOR (crc_bit ^^ n) y"
  by (induction n) (auto simp: crc_bit_xor)

lemma crc_bits_inj: "(crc_bit ^^ n) x = (crc_bit ^^ n) y \<Longrightarrow> x = y"
  by (induction n) (auto dest: crc_bit_inj)

lemma crc_bits_shift:
  assumes "\<And>i. i < n \<Longrightarrow> \<not> bit y i"
  shows "(crc_bit ^^ n) y = drop_bit n y"
  using assms
proof (induction n)
  case 0
  then show ?case by simp
next
  case (Suc n)
  then have "(crc_bit ^^ n) y = drop_bit n y" by simp
  moreover have "\<not> bit (drop_bit n y) 0" using Suc.prems [of n] by (simp add: bit_simps)
  ultimately show ?case by (simp add: crc_bit_even)
qed

section \<open>Four bytes at a time\<close>

lemma crc_bits_push:
  assumes "8 * k + 8 \<le> 32"
  shows "(crc_bit ^^ (8 * k)) x XOR ucast (b :: u8) = (crc_bit ^^ (8 * k)) (x XOR push_bit (8 * k) (ucast b))"
proof -
  have "(crc_bit ^^ (8 * k)) (push_bit (8 * k) (ucast b)) = drop_bit (8 * k) (push_bit (8 * k) (ucast b))"
    by (rule crc_bits_shift) (simp add: bit_simps)
  also have "\<dots> = ucast b"
    by (rule bit_word_eqI) (use assms in \<open>auto simp: bit_simps dest: bit_imp_le_length\<close>)
  finally show ?thesis by (simp add: crc_bits_xor)
qed

lemma crc_byte_push:
  assumes "8 * k + 8 \<le> 32"
  shows "crc_byte ((crc_bit ^^ (8 * k)) x) b =
    (crc_bit ^^ (8 * Suc k)) (x XOR push_bit (8 * k) (ucast b))"
  unfolding crc_byte_def crc_bits_push [OF assms] by (simp add: funpow_add)

lemma crc_four_bytes:
  assumes "length bs = 4"
  shows "foldl crc_byte s bs = (crc_bit ^^ 32) (s XOR from_le_bytes bs)"
proof -
  obtain a b c d where bs: "bs = [a, b, c, d]"
    using assms by (auto simp: numeral_eq_Suc length_Suc_conv)
  have f: "(from_le_bytes bs :: u32) =
      ucast a XOR push_bit 8 (ucast b) XOR push_bit 16 (ucast c) XOR push_bit 24 (ucast d)"
    by (rule bit_word_eqI) (auto simp: bs bit_simps dest: bit_imp_le_length)
  have "crc_byte s a = (crc_bit ^^ 8) (s XOR ucast a)" by (simp add: crc_byte_def)
  moreover have "crc_byte ((crc_bit ^^ 8) x) b = (crc_bit ^^ 16) (x XOR push_bit 8 (ucast b))" for x
    using crc_byte_push [of 1 x b] by simp
  moreover have "crc_byte ((crc_bit ^^ 16) x) c = (crc_bit ^^ 24) (x XOR push_bit 16 (ucast c))" for x
    using crc_byte_push [of 2 x c] by simp
  moreover have "crc_byte ((crc_bit ^^ 24) x) d = (crc_bit ^^ 32) (x XOR push_bit 24 (ucast d))" for x
    using crc_byte_push [of 3 x d] by simp
  ultimately have "foldl crc_byte s bs = (crc_bit ^^ 32)
      (s XOR ucast a XOR push_bit 8 (ucast b) XOR push_bit 16 (ucast c) XOR push_bit 24 (ucast d))"
    by (simp add: bs xor.assoc)
  then show ?thesis by (simp add: f xor.assoc)
qed

lemma crc_byte_inj: "crc_byte x b = crc_byte y b \<Longrightarrow> x = y"
  by (auto simp: crc_byte_def xor_right_cancel dest!: crc_bits_inj)

lemma foldl_crc_inj: "foldl crc_byte x bs = foldl crc_byte y bs \<Longrightarrow> x = y"
  by (induction bs arbitrary: x y) (auto dest: crc_byte_inj)

text \<open>A body followed by its little-endian CRC leaves a constant in the register, and only the
  right CRC does.\<close>

lemma crc_residue:
  assumes "length c = 4"
  shows "crc32c m = from_le_bytes c \<longleftrightarrow> foldl crc_byte (- 1) (m @ c) = (crc_bit ^^ 32) (- 1)"
proof -
  let ?s = "foldl crc_byte (- 1) m"
  have "foldl crc_byte (- 1) (m @ c) = (crc_bit ^^ 32) (- 1) \<longleftrightarrow> ?s XOR from_le_bytes c = - 1"
    using crc_bits_inj [of 32] by (auto simp: crc_four_bytes [OF assms])
  also have "\<dots> \<longleftrightarrow> NOT ?s = from_le_bytes c"
    by (rule xor_ones)
  finally show ?thesis by (simp add: crc32c_def)
qed

text \<open>Two checked bodies that differ only within four consecutive bytes are equal.\<close>

lemma crc_burst:
  assumes "length c = 4" "length c' = 4" "length d = 4" "length d' = 4"
    and "crc32c m = from_le_bytes c" "crc32c m' = from_le_bytes c'"
    and "m @ c = xs @ d @ ys" "m' @ c' = xs @ d' @ ys"
  shows "d = d'"
proof -
  have "foldl crc_byte (- 1) (xs @ d @ ys) = foldl crc_byte (- 1) (xs @ d' @ ys)"
    using assms by (metis crc_residue)
  then have "foldl crc_byte (foldl crc_byte (- 1) xs) d = foldl crc_byte (foldl crc_byte (- 1) xs) d'"
    by (auto dest: foldl_crc_inj)
  then have "(from_le_bytes d :: u32) = from_le_bytes d'"
    by (auto simp: crc_four_bytes assms(3,4) xor_left_cancel dest!: crc_bits_inj)
  moreover have "to_le_bytes 4 (from_le_bytes d :: u32) = d" "to_le_bytes 4 (from_le_bytes d' :: u32) = d'"
    using assms(3,4) by (auto intro: to_from_le_bytes)
  ultimately show ?thesis by metis
qed

end
