(* ===== verification/Framing_Cobs.thy ===== *)
theory Framing_Cobs
  imports Sensor_Contracts
begin

text \<open>
  Consistent overhead byte stuffing as \<^verbatim>\<open>sensor-protocol/src/framing.rs\<close> does it: index loops
  that write into fixed buffers. The encoder is shown to refine a recursive definition over
  blocks (\<open>cobs_blocks\<close>), and the decoder to invert it and never to panic.
\<close>

datatype FrameError =
  FE_PayloadTooLarge | FE_EncodedFrameTooLarge | FE_MalformedCobs | FE_FrameTooShort
| FE_UnsupportedVersion u8 | FE_InvalidRole u8 | FE_InvalidRoute | FE_CrcMismatch

definition HEADER_BYTES :: nat where "HEADER_BYTES = 10"
definition CRC_BYTES :: nat where "CRC_BYTES = 4"
definition MAX_PAYLOAD_BYTES :: nat where "MAX_PAYLOAD_BYTES = 512"
definition MAX_RAW_FRAME_BYTES :: nat where
  "MAX_RAW_FRAME_BYTES = HEADER_BYTES + MAX_PAYLOAD_BYTES + CRC_BYTES"
definition MAX_COBS_BODY_BYTES :: nat where
  "MAX_COBS_BODY_BYTES = MAX_RAW_FRAME_BYTES + (MAX_RAW_FRAME_BYTES + 253) div 254"
definition MAX_WIRE_FRAME_BYTES :: nat where
  "MAX_WIRE_FRAME_BYTES = MAX_COBS_BODY_BYTES + 1"

lemmas frame_sizes = HEADER_BYTES_def CRC_BYTES_def MAX_PAYLOAD_BYTES_def MAX_RAW_FRAME_BYTES_def
  MAX_COBS_BODY_BYTES_def MAX_WIRE_FRAME_BYTES_def

section \<open>The encoder\<close>

text \<open>The loop state of \<open>cobs_encode\<close>: the output buffer and the three local variables.\<close>

record CobsWriter =
  cw_output :: bytes
  cw_code_index :: nat
  cw_write_index :: nat
  cw_code :: u8

definition cobs_close_block :: "CobsWriter \<Rightarrow> (CobsWriter, FrameError) result" where
  "cobs_close_block w =
     and_then (update_at (cw_output w) (cw_code_index w) (cw_code w)) (\<lambda>output.
       Ok \<lparr>cw_output = output, cw_code_index = cw_write_index w,
           cw_write_index = cw_write_index w + 1, cw_code = 1\<rparr>)"

definition cobs_encode_byte :: "CobsWriter \<Rightarrow> u8 \<Rightarrow> (CobsWriter, FrameError) result" where
  "cobs_encode_byte w byte =
     (if byte = 0 then cobs_close_block w
      else and_then (update_at (cw_output w) (cw_write_index w) byte) (\<lambda>output.
           and_then (add_unchecked (cw_code w) 1) (\<lambda>code.
             let w' = w\<lparr>cw_output := output, cw_write_index := cw_write_index w + 1, cw_code := code\<rparr>
             in if code = 0xff then cobs_close_block w' else Ok w')))"

fun cobs_encode_loop :: "CobsWriter \<Rightarrow> bytes \<Rightarrow> (CobsWriter, FrameError) result" where
  "cobs_encode_loop w [] = Ok w"
| "cobs_encode_loop w (byte # input) =
     and_then (cobs_encode_byte w byte) (\<lambda>w'. cobs_encode_loop w' input)"

definition cobs_encode :: "bytes \<Rightarrow> bytes \<Rightarrow> (nat \<times> bytes, FrameError) result" where
  "cobs_encode input output =
     and_then (cobs_encode_loop \<lparr>cw_output = output, cw_code_index = 0, cw_write_index = 1,
                                 cw_code = 1\<rparr> input) (\<lambda>w.
     and_then (update_at (cw_output w) (cw_code_index w) (cw_code w)) (\<lambda>output'.
       Ok (cw_write_index w, output')))"

section \<open>The decoder\<close>

text \<open>One iteration of the \<open>while\<close> loop, from \<open>(read_index, write_index, output)\<close> to the next.\<close>

definition cobs_decode_block ::
  "bytes \<Rightarrow> nat \<times> nat \<times> bytes \<Rightarrow> (nat \<times> nat \<times> bytes, FrameError) result" where
  "cobs_decode_block input = (\<lambda>(read_index, write_index, output).
     and_then (index_at input read_index) (\<lambda>code.
       if code = 0 then Err FE_MalformedCobs
       else let read_index = read_index + 1; count = unat code - 1 in
         if read_index + count > length input \<or> write_index + count > length output
         then Err FE_MalformedCobs
         else and_then (slice_at input read_index (read_index + count)) (\<lambda>src.
              and_then (copy_at write_index (write_index + count) src output) (\<lambda>output.
              let read_index = read_index + count; write_index = write_index + count in
              if code \<noteq> 0xff \<and> read_index < length input
              then if write_index = length output then Err FE_MalformedCobs
                   else and_then (update_at output write_index 0) (\<lambda>output.
                          Ok (read_index, write_index + 1, output))
              else Ok (read_index, write_index, output)))))"

lemma cobs_decode_block_Ok:
  assumes "cobs_decode_block input (r, w, out) = Ok (r', w', out')"
  shows "r < r' \<and> r' \<le> length input \<and> length out' = length out \<and> w' \<le> length out"
  using assms
  by (auto simp: cobs_decode_block_def result_iffs Let_def copy_at_def slice_at_def index_at_def
      update_at_def split: if_splits)

function cobs_decode_loop ::
  "bytes \<Rightarrow> nat \<Rightarrow> nat \<Rightarrow> bytes \<Rightarrow> (nat \<times> bytes, FrameError) result" where
  "cobs_decode_loop input read_index write_index output =
     (if read_index < length input
      then and_then (cobs_decode_block input (read_index, write_index, output))
             (\<lambda>s. cobs_decode_loop input (fst s) (fst (snd s)) (snd (snd s)))
      else Ok (write_index, output))"
  by pat_completeness auto
termination
  by (relation "measure (\<lambda>(input, r, w, out). length input - r)")
    (auto dest!: cobs_decode_block_Ok)

declare cobs_decode_loop.simps [simp del]

definition cobs_decode :: "bytes \<Rightarrow> bytes \<Rightarrow> (nat \<times> bytes, FrameError) result" where
  "cobs_decode input output = cobs_decode_loop input 0 0 output"

section \<open>Reference definition\<close>

text \<open>The stuffed form of a body, block by block: \<open>pend\<close> holds the bytes since the last code.\<close>

fun cobs_blocks :: "bytes \<Rightarrow> bytes \<Rightarrow> bytes" where
  "cobs_blocks pend [] = of_nat (length pend + 1) # pend"
| "cobs_blocks pend (b # bs) =
     (if b = 0 then of_nat (length pend + 1) # pend @ cobs_blocks [] bs
      else if length pend = 253 then 255 # pend @ b # cobs_blocks [] bs
      else cobs_blocks (pend @ [b]) bs)"

definition stuffed :: "bytes \<Rightarrow> bytes" where
  "stuffed bs = cobs_blocks [] bs"

lemma unat_of_nat_u8: "n < 256 \<Longrightarrow> unat (of_nat n :: u8) = n"
  by (simp add: unat_of_nat)

lemma of_nat_u8_eq_0: "n < 256 \<Longrightarrow> (of_nat n :: u8) = 0 \<longleftrightarrow> n = 0"
proof -
  assume n: "n < 256"
  have "(of_nat n :: u8) = 0 \<longleftrightarrow> unat (of_nat n :: u8) = 0" by (rule unat_eq_0 [symmetric])
  then show "(of_nat n :: u8) = 0 \<longleftrightarrow> n = 0" by (simp only: unat_of_nat_u8 [OF n])
qed

lemma cobs_blocks_nonempty [simp]: "cobs_blocks pend bs \<noteq> []"
  by (induction pend bs rule: cobs_blocks.induct) auto

lemma cobs_blocks_nonzero:
  "length pend < 254 \<Longrightarrow> 0 \<notin> set pend \<Longrightarrow> 0 \<notin> set (cobs_blocks pend bs)"
proof (induction pend bs rule: cobs_blocks.induct)
  case (1 pend)
  then have "(of_nat (length pend + 1) :: u8) \<noteq> 0" by (subst of_nat_u8_eq_0) auto
  then show ?case using 1 by simp
next
  case (2 pend b bs)
  then have "(of_nat (length pend + 1) :: u8) \<noteq> 0" by (subst of_nat_u8_eq_0) auto
  then show ?case using 2 by auto
qed

lemma stuffed_nonzero: "0 \<notin> set (stuffed bs)"
  by (simp add: stuffed_def cobs_blocks_nonzero)

lemma length_cobs_blocks:
  "length pend < 254 \<Longrightarrow>
   length (cobs_blocks pend bs) \<le> length pend + length bs + 1 + (length pend + length bs) div 254"
proof (induction pend bs rule: cobs_blocks.induct)
  case (1 pend)
  then show ?case by simp
next
  case (2 pend b bs)
  show ?case
  proof (cases "b = 0 \<or> length pend = 253")
    case True
    then have "length (cobs_blocks pend (b # bs)) \<le>
        length pend + 1 + (if b = 0 then 0 else 1) + (length bs + 1 + length bs div 254)"
      using 2 by auto
    moreover have "length bs div 254 + (if b = 0 then 0 else 1) \<le> (length pend + Suc (length bs)) div 254"
    proof (cases "b = 0")
      case True
      then show ?thesis by (simp add: div_le_mono)
    next
      case False
      with \<open>b = 0 \<or> length pend = 253\<close> show ?thesis by simp
    qed
    ultimately show ?thesis by simp
  next
    case False
    then show ?thesis using 2 by auto
  qed
qed

section \<open>The encoder refines the reference\<close>

text \<open>The encoder's loop invariant: everything before the code index is final, the code index is
  a hole to be filled, and the pending block follows it.\<close>

definition writer_at :: "CobsWriter \<Rightarrow> bytes \<Rightarrow> bytes \<Rightarrow> bool" where
  "writer_at w fin pend \<longleftrightarrow> length fin = cw_code_index w \<and>
     cw_write_index w = cw_code_index w + 1 + length pend \<and>
     cw_code w = of_nat (length pend + 1) \<and> length pend \<le> 254 \<and>
     cw_code_index w < length (cw_output w) \<and>
     take (cw_code_index w) (cw_output w) = fin \<and>
     sub (cw_code_index w + 1) (cw_write_index w) (cw_output w) = pend"

lemma take_update_hole:
  assumes "i < length xs"
  shows "take (i + 1 + n) (xs[i := v]) = take i xs @ v # sub (i + 1) (i + 1 + n) xs"
proof -
  have "take (i + 1 + n) (xs[i := v]) = take (Suc i) (xs[i := v]) @ take n (drop (Suc i) (xs[i := v]))"
    using take_add [of "i + 1" n "xs[i := v]"] by simp
  moreover have "take (Suc i) (xs[i := v]) = take i xs @ [v]"
    using assms by (simp add: take_Suc_conv_app_nth)
  ultimately show ?thesis by (simp add: sub_def)
qed

lemma cobs_close_block_ok:
  assumes "writer_at w fin pend" "cw_write_index w < length (cw_output w)"
  shows "\<exists>w'. cobs_close_block w = Ok w' \<and>
    writer_at w' (fin @ of_nat (length pend + 1) # pend) [] \<and>
    length (cw_output w') = length (cw_output w)"
  using assms take_update_hole [of "cw_code_index w" "cw_output w" "length pend" "cw_code w"]
  by (auto simp: cobs_close_block_def writer_at_def sub_def)

lemma cobs_append_ok:
  assumes "writer_at w fin pend" "cw_write_index w < length (cw_output w)" "length pend < 254"
  shows "writer_at (w\<lparr>cw_output := (cw_output w)[cw_write_index w := b],
      cw_write_index := cw_write_index w + 1, cw_code := cw_code w + 1\<rparr>) fin (pend @ [b])"
proof -
  let ?i = "cw_code_index w"
  have w: "cw_write_index w = ?i + 1 + length pend" and p: "take (length pend) (drop (Suc ?i) (cw_output w)) = pend"
    using assms(1) by (auto simp: writer_at_def sub_def)
  have "take (Suc (length pend)) (drop (Suc ?i) ((cw_output w)[cw_write_index w := b])) = pend @ [b]"
    using assms(2) p by (simp add: w take_Suc_conv_app_nth drop_update_swap)
  then show ?thesis using assms by (auto simp: writer_at_def sub_def)
qed

lemma add_unchecked_u8 [simp]:
  "n < 255 \<Longrightarrow> add_unchecked (of_nat n :: u8) 1 = Ok (of_nat n + 1)"
  by (simp add: add_unchecked_def checked_add_def unat_of_nat)

lemma cobs_encode_byte_ok:
  assumes w: "writer_at w fin pend" and p: "length pend < 254"
    and room: "cw_write_index w + (if b \<noteq> 0 \<and> length pend = 253 then 1 else 0) < length (cw_output w)"
  shows "\<exists>w'. cobs_encode_byte w b = Ok w' \<and> length (cw_output w') = length (cw_output w) \<and>
    (if b = 0 then writer_at w' (fin @ of_nat (length pend + 1) # pend) []
     else if length pend = 253 then writer_at w' (fin @ 255 # pend @ [b]) []
     else writer_at w' fin (pend @ [b]))"
proof (cases "b = 0")
  case True
  then show ?thesis using cobs_close_block_ok [OF w] room by (auto simp: cobs_encode_byte_def)
next
  case False
  let ?w = "w\<lparr>cw_output := (cw_output w)[cw_write_index w := b],
      cw_write_index := cw_write_index w + 1, cw_code := cw_code w + 1\<rparr>"
  have code: "cw_code w = of_nat (length pend + 1)" using w by (simp add: writer_at_def)
  have room': "cw_write_index w < length (cw_output w)" using room by simp
  have a: "writer_at ?w fin (pend @ [b])" by (rule cobs_append_ok [OF w room' p])
  have full: "cw_code w + 1 = 255 \<longleftrightarrow> length pend = 253"
  proof -
    have "cw_code w + 1 = of_nat (length pend + 2)" by (simp add: code)
    then have "unat (cw_code w + 1) = length pend + 2" using p by (simp only: unat_of_nat_u8)
    moreover have "cw_code w + 1 = 255 \<longleftrightarrow> unat (cw_code w + 1) = unat (255 :: u8)"
      by (rule word_unat_eq_iff)
    ultimately show ?thesis by simp
  qed
  have inc: "add_unchecked (cw_code w) 1 = (Ok (cw_code w + 1) :: (u8, FrameError) result)"
    unfolding code using p by (intro add_unchecked_u8) simp
  have e: "cobs_encode_byte w b = (if length pend = 253 then cobs_close_block ?w else Ok ?w)"
    using False room' by (simp add: cobs_encode_byte_def inc Let_def full)
  show ?thesis
    using False e a cobs_close_block_ok [OF a] room by (cases "length pend = 253") auto
qed

lemma cobs_encode_loop_ok:
  assumes "writer_at w fin pend" "length pend < 254"
    and "length fin + length (cobs_blocks pend input) \<le> length (cw_output w)"
  shows "\<exists>w' fin' pend'. cobs_encode_loop w input = Ok w' \<and> writer_at w' fin' pend' \<and>
    length (cw_output w') = length (cw_output w) \<and>
    fin' @ of_nat (length pend' + 1) # pend' = fin @ cobs_blocks pend input"
  using assms
proof (induction input arbitrary: w fin pend)
  case Nil
  then show ?case by auto
next
  case (Cons b input)
  obtain n where n: "length (cobs_blocks [] input) = Suc n"
    by (cases "cobs_blocks [] input") auto
  have d: "length fin = cw_code_index w" "cw_write_index w = cw_code_index w + 1 + length pend"
    using Cons.prems(1) by (auto simp: writer_at_def)
  have long: "length xs < length (cobs_blocks xs ys)" for xs ys
    by (induction xs ys rule: cobs_blocks.induct) auto
  have room: "cw_write_index w + (if b \<noteq> 0 \<and> length pend = 253 then 1 else 0) < length (cw_output w)"
    using Cons.prems(3) d n long [of "pend @ [b]" input]
    by (auto split: if_splits)
  obtain w' where e: "cobs_encode_byte w b = Ok w'" and len: "length (cw_output w') = length (cw_output w)"
    and i: "if b = 0 then writer_at w' (fin @ of_nat (length pend + 1) # pend) []
     else if length pend = 253 then writer_at w' (fin @ 255 # pend @ [b]) []
     else writer_at w' fin (pend @ [b])"
    using cobs_encode_byte_ok [OF Cons.prems(1,2) room] by blast
  consider (zero) "b = 0" | (full) "b \<noteq> 0" "length pend = 253" | (more) "b \<noteq> 0" "length pend < 253"
    using Cons.prems(2) by linarith
  then show ?case
  proof cases
    case zero
    then show ?thesis
      using Cons.IH [of w' "fin @ of_nat (length pend + 1) # pend" "[]"] Cons.prems(3) i e len by simp
  next
    case full
    then show ?thesis
      using Cons.IH [of w' "fin @ 255 # pend @ [b]" "[]"] Cons.prems(3) i e len by simp
  next
    case more
    then show ?thesis
      using Cons.IH [of w' fin "pend @ [b]"] Cons.prems(3) i e len by simp
  qed
qed

lemma cobs_encode_stuffed:
  assumes "length (stuffed input) \<le> length output"
  shows "\<exists>output'. cobs_encode input output = Ok (length (stuffed input), output') \<and>
    length output' = length output \<and> take (length (stuffed input)) output' = stuffed input"
proof -
  let ?w = "\<lparr>cw_output = output, cw_code_index = 0, cw_write_index = 1, cw_code = 1\<rparr>"
  have "0 < length (stuffed input)" by (simp add: stuffed_def)
  then have "writer_at ?w [] []" using assms by (auto simp: writer_at_def sub_def)
  then obtain w fin pend where w: "cobs_encode_loop ?w input = Ok w" "writer_at w fin pend"
    "length (cw_output w) = length output" "fin @ of_nat (length pend + 1) # pend = stuffed input"
    using cobs_encode_loop_ok [of ?w "[]" "[]" input] assms by (auto simp: stuffed_def)
  let ?out = "(cw_output w)[cw_code_index w := cw_code w]"
  from w(2) have i: "cw_code_index w < length (cw_output w)" and wi: "cw_write_index w = cw_code_index w + 1 + length pend"
    and f: "length fin = cw_code_index w" by (auto simp: writer_at_def)
  have "take (cw_write_index w) ?out = stuffed input"
    using w(2) take_update_hole [OF i, of "length pend" "cw_code w"]
    by (auto simp: writer_at_def wi simp flip: w(4))
  moreover have "cw_write_index w = length (stuffed input)"
    using f wi by (simp flip: w(4))
  ultimately show ?thesis using w(1,3) i by (simp add: cobs_encode_def)
qed

section \<open>The decoder inverts the reference\<close>

lemma cobs_decode_block_at:
  assumes input: "input = pre @ of_nat (length blk + 1) # blk @ rest" and len: "length blk < 255"
    and room: "w + length blk + (if rest \<noteq> [] \<and> length blk < 254 then 1 else 0) \<le> length out"
  shows "\<exists>out'. cobs_decode_block input (length pre, w, out) =
      Ok (length pre + 1 + length blk, w + length blk + (if rest \<noteq> [] \<and> length blk < 254 then 1 else 0), out') \<and>
    length out' = length out \<and>
    take (w + length blk + (if rest \<noteq> [] \<and> length blk < 254 then 1 else 0)) out' =
      take w out @ blk @ (if rest \<noteq> [] \<and> length blk < 254 then [0] else [])"
proof -
  have u: "unat (of_nat (length blk + 1) :: u8) = length blk + 1"
    using len by (intro unat_of_nat_u8) simp
  have nz: "(of_nat (length blk + 1) :: u8) \<noteq> 0" using len by (subst of_nat_u8_eq_0) auto
  have ff: "(of_nat (length blk + 1) :: u8) = 255 \<longleftrightarrow> length blk = 254"
  proof -
    have "(of_nat (length blk + 1) :: u8) = 255 \<longleftrightarrow> unat (of_nat (length blk + 1) :: u8) = unat (255 :: u8)"
      by (rule word_unat_eq_iff)
    then show ?thesis by (simp only: u) simp
  qed
  obtain code :: u8 where c: "code = of_nat (length blk + 1)" by blast
  note u = u [folded c] and nz = nz [folded c] and ff = ff [folded c]
  have nth: "input ! length pre = code" and l: "length input = length pre + 1 + length blk + length rest"
    and s: "sub (length pre + 1) (length pre + 1 + length blk) input = blk"
    unfolding input c [symmetric] by (auto simp: sub_def)
  let ?o = "take w out @ blk @ drop (w + length blk) out"
  have w: "w + length blk \<le> length out" using room by simp
  have lo: "length ?o = length out" using w by simp
  show ?thesis
  proof (cases "rest \<noteq> [] \<and> length blk < 254")
    case True
    have "take (w + length blk + 1) (?o[w + length blk := 0]) = take w out @ blk @ [0]"
      using w room True by (simp add: take_Suc_conv_app_nth list_update_append)
    with True w room show ?thesis
      by (auto simp: cobs_decode_block_def nth l s [simplified] u nz ff Let_def copy_at_def)
  next
    case False
    then have "\<not> (code \<noteq> 255 \<and> length pre + 1 + length blk < length input)" using len ff l by auto
    with False w show ?thesis
      by (auto simp: cobs_decode_block_def nth l s [simplified] u nz Let_def copy_at_def)
  qed
qed

text \<open>The decoder's loop over the stuffed form of \<open>pend @ input\<close>.\<close>

lemma cobs_decode_loop_step:
  "cobs_decode_block input (r, w, out) = Ok (r', w', out') \<Longrightarrow> r < length input \<Longrightarrow>
   cobs_decode_loop input r w out = cobs_decode_loop input r' w' out'"
  by (simp add: cobs_decode_loop.simps [of input r])

lemma cobs_decode_loop_end: "length input \<le> r \<Longrightarrow> cobs_decode_loop input r w out = Ok (w, out)"
  by (simp add: cobs_decode_loop.simps)

lemma cobs_decode_loop_blocks:
  assumes "length pend < 254" "w + length pend + length bs \<le> length out"
  shows "\<exists>out'. cobs_decode_loop (pre @ cobs_blocks pend bs) (length pre) w out =
      Ok (w + length pend + length bs, out') \<and> length out' = length out \<and>
    take (w + length pend + length bs) out' = take w out @ pend @ bs"
  using assms
proof (induction pend bs arbitrary: pre w out rule: cobs_blocks.induct)
  case (1 pend)
  let ?in = "pre @ of_nat (length pend + 1) # pend @ []"
  obtain out' where "cobs_decode_block ?in (length pre, w, out) =
      Ok (length pre + 1 + length pend, w + length pend, out')" "length out' = length out"
      "take (w + length pend) out' = take w out @ pend"
    using cobs_decode_block_at [OF refl, of pend w "[]" out pre] 1 by auto
  then show ?case
    by (simp add: cobs_decode_loop_step cobs_decode_loop_end)
next
  case (2 pend b bs)
  consider (zero) "b = 0" | (full) "b \<noteq> 0" "length pend = 253" | (more) "b \<noteq> 0" "length pend \<noteq> 253"
    by linarith
  then show ?case
  proof cases
    case zero
    let ?pre = "pre @ of_nat (length pend + 1) # pend"
    let ?in = "pre @ of_nat (length pend + 1) # pend @ cobs_blocks [] bs"
    obtain out' where o: "cobs_decode_block ?in (length pre, w, out) =
        Ok (length pre + 1 + length pend, w + length pend + 1, out')" "length out' = length out"
        "take (w + length pend + 1) out' = take w out @ pend @ [0]"
      using cobs_decode_block_at [OF refl, of pend w "cobs_blocks [] bs" out pre] 2(4,5) by auto
    obtain out'' where "cobs_decode_loop (?pre @ cobs_blocks [] bs) (length ?pre) (w + length pend + 1) out' =
        Ok (w + length pend + 1 + length bs, out'')" "length out'' = length out'"
        "take (w + length pend + 1 + length bs) out'' = take (w + length pend + 1) out' @ bs"
      using 2(1) [OF zero, of "w + length pend + 1" out' ?pre] 2(5) o(2) by auto
    then show ?thesis
      using zero o(2,3) cobs_decode_loop_step [OF o(1)] by simp
  next
    case full
    let ?blk = "pend @ [b]"
    let ?pre = "pre @ 255 # ?blk"
    let ?in = "pre @ of_nat (length ?blk + 1) # ?blk @ cobs_blocks [] bs"
    have code: "(of_nat (length ?blk + 1) :: u8) = 255" using full by simp
    obtain out' where o: "cobs_decode_block ?in (length pre, w, out) =
        Ok (length pre + 1 + length ?blk, w + length ?blk, out')" "length out' = length out"
        "take (w + length ?blk) out' = take w out @ ?blk"
      using cobs_decode_block_at [OF refl, of ?blk w "cobs_blocks [] bs" out pre] 2(4,5) full by auto
    obtain out'' where "cobs_decode_loop (?pre @ cobs_blocks [] bs) (length ?pre) (w + length ?blk) out' =
        Ok (w + length ?blk + length bs, out'')" "length out'' = length out'"
        "take (w + length ?blk + length bs) out'' = take (w + length ?blk) out' @ bs"
      using 2(2) [OF full, of "w + length ?blk" out' ?pre] 2(5) o(2) by auto
    then show ?thesis
      using full o(2,3) cobs_decode_loop_step [OF o(1)] by (simp add: code ac_simps)
  next
    case more
    then show ?thesis using 2(3) [OF more, of w out pre] 2(4,5) by simp
  qed
qed

lemma cobs_decode_stuffed:
  assumes "length bs \<le> length out"
  shows "\<exists>out'. cobs_decode (stuffed bs) out = Ok (length bs, out') \<and>
    length out' = length out \<and> take (length bs) out' = bs"
  using cobs_decode_loop_blocks [of "[]" 0 bs out "[]"] assms
  by (simp add: cobs_decode_def stuffed_def)

text \<open>The decoder never panics and never reports more bytes than its buffer holds.\<close>

lemma cobs_decode_block_no_panic:
  assumes "r < length input" "w \<le> length out"
  shows "cobs_decode_block input (r, w, out) \<noteq> Panic"
proof -
  obtain n where n: "n = unat (input ! r) - Suc 0" by blast
  have "copy_at w (w + n) (sub (r + 1) (r + 1 + n) input) out = (Ok (take w out @
      sub (r + 1) (r + 1 + n) input @ drop (w + n) out) :: (bytes, FrameError) result)"
    if "r + 1 + n \<le> length input" "w + n \<le> length out"
    using that by (simp add: copy_at_def)
  with assms show ?thesis
    by (auto simp: cobs_decode_block_def Let_def simp flip: n)
qed

lemma cobs_decode_loop_safe:
  assumes "w \<le> length out"
  shows "cobs_decode_loop input r w out \<noteq> Panic \<and>
    (\<forall>n out'. cobs_decode_loop input r w out = Ok (n, out') \<longrightarrow> n \<le> length out \<and> length out' = length out)"
  using assms
proof (induction input r w out rule: cobs_decode_loop.induct)
  case (1 input r w out)
  show ?case
  proof (cases "r < length input")
    case True
    show ?thesis
    proof (cases "cobs_decode_block input (r, w, out)")
      case (Ok s)
      then have b: "fst (snd s) \<le> length (snd (snd s))" "length (snd (snd s)) = length out"
        using cobs_decode_block_Ok [of input r w out "fst s" "fst (snd s)" "snd (snd s)"] by auto
      have eq: "cobs_decode_loop input r w out =
          cobs_decode_loop input (fst s) (fst (snd s)) (snd (snd s))"
        by (rule cobs_decode_loop_step) (simp_all add: Ok True)
      from 1(1) [OF True Ok b(1)] show ?thesis unfolding eq b(2) .
    next
      case (Err e)
      then show ?thesis by (simp add: cobs_decode_loop.simps [of input r] True)
    next
      case Panic
      then show ?thesis using cobs_decode_block_no_panic [OF True 1(2)] by simp
    qed
  next
    case False
    then show ?thesis using 1(2) by (simp add: cobs_decode_loop_end)
  qed
qed

lemma cobs_decode_safe:
  "cobs_decode input out \<noteq> Panic"
  "cobs_decode input out = Ok (n, out') \<Longrightarrow> n \<le> length out \<and> length out' = length out"
  using cobs_decode_loop_safe [of 0 out input 0] by (auto simp: cobs_decode_def)

lemma length_stuffed:
  assumes "length bs \<le> MAX_RAW_FRAME_BYTES"
  shows "length (stuffed bs) \<le> MAX_COBS_BODY_BYTES"
proof -
  have "length bs div 254 \<le> 2" using assms by (simp add: frame_sizes)
  then show ?thesis
    using length_cobs_blocks [of "[]" bs] assms by (simp add: stuffed_def frame_sizes)
qed

text \<open>Byte stuffing: every body that fits a raw frame is encoded without a panic into a
  wire body of at most \<open>MAX_COBS_BODY_BYTES\<close> bytes with no zero byte in it, whatever the
  output buffer held before, and decoding that wire body gives the original bytes.\<close>

lemma cobs_round_trip:
  assumes "length bs \<le> MAX_RAW_FRAME_BYTES"
    and "length output = MAX_WIRE_FRAME_BYTES" "length raw = MAX_RAW_FRAME_BYTES"
  shows "\<exists>n output' raw'. cobs_encode bs output = Ok (n, output') \<and> length output' = length output \<and>
    n \<le> MAX_COBS_BODY_BYTES \<and> 0 \<notin> set (take n output') \<and>
    cobs_decode (take n output') raw = Ok (length bs, raw') \<and> take (length bs) raw' = bs"
proof -
  have n: "length (stuffed bs) \<le> MAX_COBS_BODY_BYTES" by (rule length_stuffed [OF assms(1)])
  then have "length (stuffed bs) \<le> length output" by (simp add: assms(2) MAX_WIRE_FRAME_BYTES_def)
  with n show ?thesis
    using cobs_encode_stuffed [of bs "output"] cobs_decode_stuffed [of bs raw] assms stuffed_nonzero [of bs]
    by auto
qed

text \<open>The decoder of a body never panics: whatever bytes arrive, it returns the number of
  decoded bytes, at most the size of its buffer, or reports malformed stuffing.\<close>

theorem cobs_decode_total:
  "(\<exists>n out'. cobs_decode input out = Ok (n, out') \<and> n \<le> length out \<and> length out' = length out) \<or>
   (\<exists>e. cobs_decode input out = Err e)"
  using cobs_decode_safe [of input out] by (cases "cobs_decode input out") auto

end
