(* ===== verification/Framing_Frame.thy ===== *)
theory Framing_Frame
  imports Framing_Crc Framing_Cobs
begin

text \<open>
  Frames and the incremental decoder of \<^verbatim>\<open>sensor-protocol/src/framing.rs\<close>: construction,
  encoding into a fixed buffer, decoding of a stuffed body, and the byte-at-a-time
  \<open>StreamDecoder\<close> with its overflow and discard states.
\<close>

section \<open>Frames\<close>

definition FRAMING_VERSION :: u8 where "FRAMING_VERSION = 3"
definition HOST_ADDRESS :: u8 where "HOST_ADDRESS = 0"
definition COMMISSIONING_ADDRESS :: u8 where "COMMISSIONING_ADDRESS = 254"
definition BROADCAST_ADDRESS :: u8 where "BROADCAST_ADDRESS = 255"

datatype FrameRole = Request | Response

fun frame_role_code :: "FrameRole \<Rightarrow> u8" where
  "frame_role_code Request = 1"
| "frame_role_code Response = 2"

definition frame_role_from_wire :: "u8 \<Rightarrow> (FrameRole, FrameError) result" where
  "frame_role_from_wire v =
     (if v = 1 then Ok Request else if v = 2 then Ok Response else Err (FE_InvalidRole v))"

interpretation frame_role: wire_code frame_role_code frame_role_from_wire
proof
  show "frame_role_from_wire (frame_role_code r) = Ok r" for r
    by (cases r) (simp_all add: frame_role_from_wire_def)
qed (auto simp: frame_role_from_wire_def split: if_splits)

record Frame =
  fr_role :: FrameRole
  fr_destination :: u8
  fr_source :: u8
  fr_service :: u8
  fr_message :: u8
  fr_transaction_id :: u32
  fr_payload_array :: bytes
  fr_payload_len :: nat

definition validate_route :: "FrameRole \<Rightarrow> u8 \<Rightarrow> u8 \<Rightarrow> (unit, FrameError) result" where
  "validate_route role destination source =
     (if (case role of
            Request \<Rightarrow> source = HOST_ADDRESS \<and> destination \<noteq> HOST_ADDRESS
          | Response \<Rightarrow> destination = HOST_ADDRESS \<and> source \<noteq> HOST_ADDRESS \<and>
                        source \<noteq> BROADCAST_ADDRESS)
      then Ok () else Err FE_InvalidRoute)"

definition frame_new ::
  "FrameRole \<Rightarrow> u8 \<Rightarrow> u8 \<Rightarrow> u8 \<Rightarrow> u8 \<Rightarrow> u32 \<Rightarrow> bytes \<Rightarrow> (Frame, FrameError) result" where
  "frame_new role destination source service message transaction_id payload =
     and_then (validate_route role destination source) (\<lambda>_.
       if length payload > MAX_PAYLOAD_BYTES then Err FE_PayloadTooLarge
       else and_then (copy_at 0 (length payload) payload (replicate MAX_PAYLOAD_BYTES 0)) (\<lambda>owned_payload.
         Ok \<lparr>fr_role = role, fr_destination = destination, fr_source = source, fr_service = service,
             fr_message = message, fr_transaction_id = transaction_id,
             fr_payload_array = owned_payload, fr_payload_len = length payload\<rparr>))"

definition frame_payload :: "Frame \<Rightarrow> (bytes, FrameError) result" where
  "frame_payload self = slice_at (fr_payload_array self) 0 (fr_payload_len self)"

text \<open>\<open>Frame::encode\<close>: the raw body is laid out in a zeroed buffer, then stuffed and delimited.\<close>

definition frame_encode :: "Frame \<Rightarrow> bytes \<Rightarrow> (nat \<times> bytes, FrameError) result" where
  "frame_encode self output =
     and_then (frame_payload self) (\<lambda>payload.
     and_then (copy_fields
       [(0, 1, [FRAMING_VERSION]), (1, 2, [frame_role_code (fr_role self)]),
        (2, 3, [fr_destination self]), (3, 4, [fr_source self]), (4, 5, [fr_service self]),
        (5, 6, [fr_message self]), (6, 10, to_le_bytes 4 (fr_transaction_id self)),
        (HEADER_BYTES, HEADER_BYTES + fr_payload_len self, payload)]
       (replicate MAX_RAW_FRAME_BYTES 0)) (\<lambda>raw.
     let crc_offset = HEADER_BYTES + fr_payload_len self in
     and_then (slice_at raw 0 crc_offset) (\<lambda>body.
     and_then (copy_at crc_offset (crc_offset + CRC_BYTES) (to_le_bytes 4 (crc32c body)) raw) (\<lambda>raw.
     and_then (slice_at raw 0 (crc_offset + CRC_BYTES)) (\<lambda>body.
     and_then (cobs_encode body output) (\<lambda>(encoded_len, output).
     and_then (update_at output encoded_len 0) (\<lambda>output.
       Ok (encoded_len + 1, output))))))))"

definition decode_body :: "bytes \<Rightarrow> (Frame, FrameError) result" where
  "decode_body encoded =
     and_then (cobs_decode encoded (replicate MAX_RAW_FRAME_BYTES 0)) (\<lambda>(raw_len, raw).
     if raw_len < HEADER_BYTES + CRC_BYTES then Err FE_FrameTooShort
     else and_then (index_at raw 0) (\<lambda>version.
       if version \<noteq> FRAMING_VERSION then Err (FE_UnsupportedVersion version)
       else and_then (index_at raw 1) (\<lambda>role_code.
            and_then (frame_role_from_wire role_code) (\<lambda>role.
            and_then (index_at raw 2) (\<lambda>destination.
            and_then (index_at raw 3) (\<lambda>source.
            and_then (validate_route role destination source) (\<lambda>_.
            let crc_offset = raw_len - CRC_BYTES in
            and_then (slice_at raw crc_offset raw_len) (\<lambda>expected_crc.
            and_then (slice_at raw 0 crc_offset) (\<lambda>body.
            if crc32c body \<noteq> from_le_bytes expected_crc then Err FE_CrcMismatch
            else and_then (slice_at raw 6 10) (\<lambda>transaction_id.
                 and_then (index_at raw 4) (\<lambda>service.
                 and_then (index_at raw 5) (\<lambda>message.
                 and_then (slice_at raw HEADER_BYTES crc_offset) (\<lambda>payload.
                   frame_new role destination source service message
                     (from_le_bytes transaction_id) payload)))))))))))))"

section \<open>The stream decoder\<close>

record StreamDecoder =
  sd_encoded :: bytes
  sd_encoded_len :: nat
  sd_discarding :: bool

definition stream_decoder_new :: StreamDecoder where
  "stream_decoder_new = \<lparr>sd_encoded = replicate MAX_COBS_BODY_BYTES 0, sd_encoded_len = 0,
                         sd_discarding = False\<rparr>"

text \<open>\<open>push\<close> returns an event or none; \<open>Panic\<close> stands for a panic of the call itself.\<close>

definition push :: "StreamDecoder \<Rightarrow> u8 \<Rightarrow>
    (StreamDecoder, (Frame, FrameError) result option, unit) outcome" where
  "push self byte =
     (if byte \<noteq> 0
      then if sd_discarding self then (Ok None, self)
           else if sd_encoded_len self = length (sd_encoded self)
           then (Ok None, self\<lparr>sd_encoded_len := 0, sd_discarding := True\<rparr>)
           else try_with (update_at (sd_encoded self) (sd_encoded_len self) byte) self (\<lambda>encoded.
             (Ok None, self\<lparr>sd_encoded := encoded, sd_encoded_len := sd_encoded_len self + 1\<rparr>))
      else if sd_discarding self
      then (Ok (Some (Err FE_EncodedFrameTooLarge)), self\<lparr>sd_discarding := False\<rparr>)
      else if sd_encoded_len self = 0 then (Ok None, self)
      else try_with (slice_at (sd_encoded self) 0 (sd_encoded_len self)) self (\<lambda>body.
        case decode_body body of
          Panic \<Rightarrow> (Panic, self)
        | event \<Rightarrow> (Ok (Some event), self\<lparr>sd_encoded_len := 0\<rparr>)))"

definition discard_partial :: "StreamDecoder \<Rightarrow> StreamDecoder" where
  "discard_partial self = self\<lparr>sd_encoded_len := 0, sd_discarding := False\<rparr>"

section \<open>Frames on the wire\<close>

text \<open>What \<open>Frame::new\<close> establishes, and the payload it stored.\<close>

definition frame_ok :: "Frame \<Rightarrow> bool" where
  "frame_ok f \<longleftrightarrow> validate_route (fr_role f) (fr_destination f) (fr_source f) = Ok () \<and>
     fr_payload_len f \<le> MAX_PAYLOAD_BYTES \<and> length (fr_payload_array f) = MAX_PAYLOAD_BYTES \<and>
     drop (fr_payload_len f) (fr_payload_array f) = replicate (MAX_PAYLOAD_BYTES - fr_payload_len f) 0"

definition payload_of :: "Frame \<Rightarrow> bytes" where
  "payload_of f = take (fr_payload_len f) (fr_payload_array f)"

definition header_of :: "Frame \<Rightarrow> bytes" where
  "header_of f = FRAMING_VERSION # frame_role_code (fr_role f) # fr_destination f # fr_source f #
     fr_service f # fr_message f # to_le_bytes 4 (fr_transaction_id f)"

definition raw_body :: "Frame \<Rightarrow> bytes" where
  "raw_body f = (header_of f @ payload_of f) @ to_le_bytes 4 (crc32c (header_of f @ payload_of f))"

definition wire_bytes :: "Frame \<Rightarrow> bytes" where
  "wire_bytes f = stuffed (raw_body f) @ [0]"

lemma validate_route_no_panic [simp]: "validate_route r d s \<noteq> Panic"
  by (simp add: validate_route_def)

lemma frame_new_Ok:
  "frame_new r d s v m t p = Ok f \<longleftrightarrow>
     f = \<lparr>fr_role = r, fr_destination = d, fr_source = s, fr_service = v, fr_message = m,
          fr_transaction_id = t, fr_payload_array = p @ replicate (MAX_PAYLOAD_BYTES - length p) 0,
          fr_payload_len = length p\<rparr> \<and>
     length p \<le> MAX_PAYLOAD_BYTES \<and> validate_route r d s = Ok ()"
  by (auto simp: frame_new_def result_iffs copy_at_def split: if_splits)

lemma frame_new_no_panic [simp]: "frame_new r d s v m t p \<noteq> Panic"
  by (auto simp: frame_new_def result_iffs copy_at_def)

lemma frame_new_ok: "frame_new r d s v m t p = Ok f \<Longrightarrow> frame_ok f \<and> payload_of f = p"
  by (auto simp: frame_new_Ok frame_ok_def payload_of_def)

lemma length_payload_of: "frame_ok f \<Longrightarrow> length (payload_of f) = fr_payload_len f"
  by (simp add: payload_of_def frame_ok_def)

lemma length_header_of [simp]: "length (header_of f) = 10"
  by (simp add: header_of_def)

lemma length_raw_body: "frame_ok f \<Longrightarrow> length (raw_body f) = 14 + fr_payload_len f"
  by (simp add: raw_body_def length_payload_of)

lemma length_raw_body_max: "frame_ok f \<Longrightarrow> length (raw_body f) \<le> MAX_RAW_FRAME_BYTES"
  by (simp add: length_raw_body frame_ok_def frame_sizes)

lemma frame_encode_ok:
  assumes f: "frame_ok f" and out: "length out = MAX_WIRE_FRAME_BYTES"
  shows "\<exists>out'. frame_encode f out = Ok (length (wire_bytes f), out') \<and>
    length out' = MAX_WIRE_FRAME_BYTES \<and> take (length (wire_bytes f)) out' = wire_bytes f"
proof -
  let ?n = "fr_payload_len f" and ?R = "replicate MAX_RAW_FRAME_BYTES (0 :: u8)"
  let ?fs = "[(0, 1, [FRAMING_VERSION]), (1, 2, [frame_role_code (fr_role f)]),
        (2, 3, [fr_destination f]), (3, 4, [fr_source f]), (4, 5, [fr_service f]),
        (5, 6, [fr_message f]), (6, 10, to_le_bytes 4 (fr_transaction_id f)),
        (HEADER_BYTES, HEADER_BYTES + ?n, payload_of f)]"
  let ?body = "header_of f @ payload_of f"
  have n: "?n \<le> 512" using f by (simp add: frame_ok_def frame_sizes)
  have p: "frame_payload f = Ok (payload_of f)"
    using f by (simp add: frame_payload_def payload_of_def frame_ok_def sub_def)
  have len: "length ?body = 10 + ?n" by (simp add: length_payload_of [OF f])
  have "contiguous 0 (10 + ?n) ?fs" by (simp add: frame_sizes length_payload_of [OF f])
  note c = copy_fields_contiguous [OF this, of ?R, where ?'b = FrameError]
  have c: "copy_fields ?fs ?R = (Ok (?body @ drop (10 + ?n) ?R) :: (bytes, FrameError) result)"
    using c n by (simp add: frame_sizes header_of_def)
  let ?crc = "to_le_bytes 4 (crc32c ?body)"
  have s: "slice_at (?body @ drop (10 + ?n) ?R) 0 (10 + ?n) = (Ok ?body :: (bytes, FrameError) result)"
    using n len by (simp add: slice_at_def sub_def frame_sizes)
  have k: "copy_at (10 + ?n) (10 + ?n + 4) ?crc (?body @ drop (10 + ?n) ?R) =
      (Ok (raw_body f @ drop (14 + ?n) ?R) :: (bytes, FrameError) result)"
    using n len by (simp add: copy_at_def frame_sizes raw_body_def)
  have r: "slice_at (raw_body f @ drop (14 + ?n) ?R) 0 (10 + ?n + 4) = (Ok (raw_body f) :: (bytes, FrameError) result)"
    using n len by (simp add: slice_at_def sub_def frame_sizes length_raw_body [OF f])
  have st: "length (stuffed (raw_body f)) < length out"
    using length_stuffed [OF length_raw_body_max [OF f]] by (simp add: out MAX_WIRE_FRAME_BYTES_def)
  then obtain out' where e: "cobs_encode (raw_body f) out = Ok (length (stuffed (raw_body f)), out')"
    and l: "length out' = length out" and t: "take (length (stuffed (raw_body f))) out' = stuffed (raw_body f)"
    using cobs_encode_stuffed [of "raw_body f" out] by auto
  have "frame_encode f out = Ok (length (stuffed (raw_body f)) + 1, out'[length (stuffed (raw_body f)) := 0])"
    unfolding frame_encode_def p using c s k r e st l
    by (simp add: HEADER_BYTES_def CRC_BYTES_def Let_def)
  then show ?thesis
    using st l t out by (simp add: wire_bytes_def take_Suc_conv_app_nth)
qed

section \<open>Decoding a body\<close>

text \<open>The checks of \<open>decode_body\<close> on the unstuffed bytes alone, without the buffer.\<close>

definition decode_raw :: "bytes \<Rightarrow> (Frame, FrameError) result" where
  "decode_raw raw =
     (if length raw < 14 then Err FE_FrameTooShort
      else if raw ! 0 \<noteq> FRAMING_VERSION then Err (FE_UnsupportedVersion (raw ! 0))
      else and_then (frame_role_from_wire (raw ! 1)) (\<lambda>role.
           and_then (validate_route role (raw ! 2) (raw ! 3)) (\<lambda>_.
           if crc32c (take (length raw - 4) raw) \<noteq> from_le_bytes (drop (length raw - 4) raw)
           then Err FE_CrcMismatch
           else frame_new role (raw ! 2) (raw ! 3) (raw ! 4) (raw ! 5) (from_le_bytes (sub 6 10 raw))
                  (sub 10 (length raw - 4) raw))))"

lemma decode_body_raw:
  assumes "cobs_decode enc (replicate MAX_RAW_FRAME_BYTES 0) = Ok (n, out)"
  shows "decode_body enc = decode_raw (take n out)"
proof -
  have n: "n \<le> 526" "length out = 526"
    using cobs_decode_safe(2) [OF assms] by (auto simp: frame_sizes)
  have i: "index_at out i = (Ok (out ! i) :: (u8, FrameError) result)" if "i < 526" for i
    using n that by simp
  have sl: "slice_at out a b = (Ok (sub a b out) :: (bytes, FrameError) result)" if "a \<le> b" "b \<le> 526" for a b
    using n that by simp
  have d: "drop (n - 4) (take n out) = sub (n - 4) n out" by (simp add: sub_def drop_take)
  have t: "sub 0 (n - 4) out = take (n - 4) (take n out)" by (simp add: sub_def)
  have l: "length (take n out) = n" using n by simp
  show ?thesis
  proof (cases "n < 14")
    case True
    then show ?thesis using l by (simp add: decode_body_def assms decode_raw_def HEADER_BYTES_def CRC_BYTES_def)
  next
    case False
    then show ?thesis
      using n l
      by (simp add: decode_body_def assms decode_raw_def i sl Let_def d t HEADER_BYTES_def CRC_BYTES_def
          sub_take cong: if_cong)
  qed
qed

lemma decode_body_stuffed:
  assumes "length bs \<le> MAX_RAW_FRAME_BYTES"
  shows "decode_body (stuffed bs) = decode_raw bs"
  using cobs_decode_stuffed [of bs "replicate MAX_RAW_FRAME_BYTES 0"] assms
  by (auto dest: decode_body_raw)

lemma decode_raw_no_panic [simp]: "decode_raw raw \<noteq> Panic"
  by (auto simp: decode_raw_def result_iffs frame_role.no_panic)

lemma decode_body_no_panic [simp]: "decode_body enc \<noteq> Panic"
proof (cases "cobs_decode enc (replicate MAX_RAW_FRAME_BYTES 0)")
  case (Ok r)
  then show ?thesis using decode_body_raw [of enc "fst r" "snd r"] by simp
next
  case (Err e)
  then show ?thesis by (simp add: decode_body_def)
next
  case Panic
  then show ?thesis using cobs_decode_safe(1) by blast
qed

lemma decode_raw_body:
  assumes "frame_ok f"
  shows "decode_raw (raw_body f) = Ok f"
proof -
  let ?b = "header_of f @ payload_of f"
  have l: "length (raw_body f) = 14 + fr_payload_len f" by (rule length_raw_body [OF assms])
  have b: "length ?b = 10 + fr_payload_len f" by (simp add: length_payload_of [OF assms])
  have t: "take (length (raw_body f) - 4) (raw_body f) = ?b"
    "drop (length (raw_body f) - 4) (raw_body f) = to_le_bytes 4 (crc32c ?b)"
    using b l by (simp_all add: raw_body_def)
  have h: "raw_body f ! 0 = FRAMING_VERSION" "raw_body f ! 1 = frame_role_code (fr_role f)"
    "raw_body f ! 2 = fr_destination f" "raw_body f ! 3 = fr_source f" "raw_body f ! 4 = fr_service f"
    "raw_body f ! 5 = fr_message f" "sub 6 10 (raw_body f) = to_le_bytes 4 (fr_transaction_id f)"
    by (simp_all add: raw_body_def header_of_def sub_def nth_append numeral_eq_Suc)
  have p: "sub 10 (length (raw_body f) - 4) (raw_body f) = payload_of f"
    using l b by (simp add: raw_body_def sub_def length_payload_of [OF assms])
  have v: "validate_route (fr_role f) (fr_destination f) (fr_source f) = Ok ()"
    "length (payload_of f) \<le> MAX_PAYLOAD_BYTES"
    using assms by (auto simp: frame_ok_def length_payload_of)
  have arr: "payload_of f @ replicate (MAX_PAYLOAD_BYTES - length (payload_of f)) 0 = fr_payload_array f"
    using assms by (simp add: length_payload_of [OF assms])
      (metis append_take_drop_id frame_ok_def payload_of_def)
  have "frame_new (fr_role f) (fr_destination f) (fr_source f) (fr_service f) (fr_message f)
      (fr_transaction_id f) (payload_of f) = Ok f"
    using v arr length_payload_of [OF assms] by (simp add: frame_new_Ok)
  then show ?thesis
    by (simp add: decode_raw_def l h h(2) [simplified] p [unfolded l, simplified] t [unfolded l, simplified]
        frame_role.of_to v)
qed

lemma decode_raw_Ok_crc:
  "decode_raw raw = Ok f \<Longrightarrow> 14 \<le> length raw \<and>
     crc32c (take (length raw - 4) raw) = from_le_bytes (drop (length raw - 4) raw) \<and> frame_ok f"
  by (auto simp: decode_raw_def result_iffs dest: frame_new_ok split: if_splits)

text \<open>C11. Frame round trip: every frame that \<open>Frame::new\<close> builds is encoded without a panic
  into at most \<open>MAX_WIRE_FRAME_BYTES\<close> bytes that end in the only zero byte, and decoding the
  bytes before it returns that very frame, with the payload it was built from.\<close>

theorem frame_round_trip:
  assumes "frame_new role destination source service message tid payload = Ok f"
    and "length out = MAX_WIRE_FRAME_BYTES"
  shows "\<exists>n out'. frame_encode f out = Ok (n + 1, out') \<and> n < MAX_WIRE_FRAME_BYTES \<and>
    0 \<notin> set (take n out') \<and> out' ! n = 0 \<and> decode_body (take n out') = Ok f \<and>
    frame_payload f = Ok payload"
proof -
  have f: "frame_ok f" "payload_of f = payload" using frame_new_ok [OF assms(1)] by auto
  obtain out' where e: "frame_encode f out = Ok (length (wire_bytes f), out')"
    and l: "length out' = MAX_WIRE_FRAME_BYTES" and t: "take (length (wire_bytes f)) out' = wire_bytes f"
    using frame_encode_ok [OF f(1) assms(2)] by auto
  let ?n = "length (stuffed (raw_body f))"
  have n: "length (wire_bytes f) = ?n + 1" by (simp add: wire_bytes_def)
  have lt: "?n < MAX_WIRE_FRAME_BYTES"
    using length_stuffed [OF length_raw_body_max [OF f(1)]] by (simp add: MAX_WIRE_FRAME_BYTES_def)
  have t': "take (?n + 1) out' = stuffed (raw_body f) @ [0]" using t by (simp add: wire_bytes_def)
  then have s: "take ?n out' = stuffed (raw_body f)" "out' ! ?n = 0"
    using lt l by (auto simp: take_Suc_conv_app_nth)
  have "decode_body (stuffed (raw_body f)) = Ok f"
    by (simp add: decode_body_stuffed [OF length_raw_body_max [OF f(1)]] decode_raw_body [OF f(1)])
  moreover have "frame_payload f = Ok payload"
    using f by (simp add: frame_payload_def payload_of_def frame_ok_def sub_def)
  ultimately show ?thesis using e n lt s stuffed_nonzero by metis
qed

theorem frame_round_trip_witness:
  "\<exists>f n out'. frame_new Request 7 0 2 3 0x12345678 [0, 1, 2] = Ok f \<and>
    frame_encode f (replicate MAX_WIRE_FRAME_BYTES 0) = Ok (n + 1, out') \<and>
    decode_body (take n out') = Ok f"
proof -
  have "\<exists>f. frame_new Request 7 0 2 3 0x12345678 [0, 1, 2] = Ok f"
    by (simp add: frame_new_Ok validate_route_def HOST_ADDRESS_def MAX_PAYLOAD_BYTES_def)
  then obtain f where "frame_new Request 7 0 2 3 0x12345678 [0, 1, 2] = Ok f" by blast
  then show ?thesis
    using frame_round_trip [of Request 7 0 2 3 "0x12345678" "[0, 1, 2]" f "replicate MAX_WIRE_FRAME_BYTES 0"]
    by auto
qed

text \<open>C12. Error detection: when any four consecutive bytes of a frame's body (header, payload or
  CRC) are replaced by different ones, the receiver rejects the frame.\<close>

theorem burst_errors_rejected:
  assumes f: "frame_new role destination source service message tid payload = Ok f"
    and good: "raw_body f = xs @ burst @ ys" and len: "length burst = 4" "length burst' = 4"
    and bad: "burst' \<noteq> burst"
  shows "\<exists>e. decode_body (stuffed (xs @ burst' @ ys)) = Err e"
proof (rule ccontr)
  let ?raw = "xs @ burst' @ ys"
  assume neg: "\<nexists>e. decode_body (stuffed (xs @ burst' @ ys)) = Err e"
  have ok: "frame_ok f" using frame_new_ok [OF f] by simp
  have lr: "length ?raw = length (raw_body f)" using good len by simp
  then have "decode_body (stuffed ?raw) = decode_raw ?raw"
    using length_raw_body_max [OF ok] by (intro decode_body_stuffed) simp
  with neg obtain g where "decode_raw ?raw = Ok g"
    by (cases "decode_raw ?raw") auto
  then have l: "14 \<le> length ?raw"
    and c: "crc32c (take (length ?raw - 4) ?raw) = from_le_bytes (drop (length ?raw - 4) ?raw)"
    by (auto dest!: decode_raw_Ok_crc)
  have c': "crc32c (take (length (raw_body f) - 4) (raw_body f)) =
      from_le_bytes (drop (length (raw_body f) - 4) (raw_body f))"
    using decode_raw_Ok_crc [OF decode_raw_body [OF ok]] by simp
  have four: "length (drop (length ?raw - 4) ?raw) = 4" "length (drop (length (raw_body f) - 4) (raw_body f)) = 4"
    using l lr by auto
  have "burst = burst'"
    by (rule crc_burst [OF four(2,1) len c' c]) (simp_all only: good append_take_drop_id)
  with bad show False by simp
qed

theorem burst_errors_rejected_witness:
  "\<exists>f. frame_new Request 7 0 2 3 5 [] = Ok f \<and>
     (\<exists>e. decode_body (stuffed ([] @ [3, 1, 9, 0] @ drop 4 (raw_body f))) = Err e)"
proof -
  have "\<exists>f. frame_new Request 7 0 2 3 5 [] = Ok f \<and> take 4 (raw_body f) = [3, 1, 7, 0]"
    by (simp add: frame_new_Ok validate_route_def HOST_ADDRESS_def raw_body_def header_of_def
        FRAMING_VERSION_def)
  then obtain f where f: "frame_new Request 7 0 2 3 5 [] = Ok f" and t: "take 4 (raw_body f) = [3, 1, 7, 0]"
    by blast
  have "raw_body f = [] @ [3, 1, 7, 0] @ drop 4 (raw_body f)"
    by (metis t append_Nil append_take_drop_id)
  then have "\<exists>e. decode_body (stuffed ([] @ [3, 1, 9, 0] @ drop 4 (raw_body f))) = Err e"
    by (intro burst_errors_rejected [OF f, of "[]" "[3, 1, 7, 0]" "drop 4 (raw_body f)" "[3, 1, 9, 0]"])
      simp_all
  with f show ?thesis by blast
qed

section \<open>The stream decoder refines its specification\<close>

text \<open>The abstract decoder: the bytes collected since the last delimiter, or nothing while an
  oversized frame is being skipped.\<close>

fun spec_push :: "bytes option \<Rightarrow> u8 \<Rightarrow> (Frame, FrameError) result option \<times> bytes option" where
  "spec_push (Some p) b =
     (if b \<noteq> 0 then (None, if length p = MAX_COBS_BODY_BYTES then None else Some (p @ [b]))
      else (if p = [] then None else Some (decode_body p), Some []))"
| "spec_push None b =
     (if b \<noteq> 0 then (None, None) else (Some (Err FE_EncodedFrameTooLarge), Some []))"

definition pending :: "StreamDecoder \<Rightarrow> bytes option" where
  "pending d = (if sd_discarding d then None else Some (take (sd_encoded_len d) (sd_encoded d)))"

definition decoder_ok :: "StreamDecoder \<Rightarrow> bool" where
  "decoder_ok d \<longleftrightarrow> length (sd_encoded d) = MAX_COBS_BODY_BYTES \<and> sd_encoded_len d \<le> MAX_COBS_BODY_BYTES \<and>
     (sd_discarding d \<longrightarrow> sd_encoded_len d = 0)"

lemma stream_decoder_new_ok: "decoder_ok stream_decoder_new" "pending stream_decoder_new = Some []"
  by (auto simp: stream_decoder_new_def decoder_ok_def pending_def)

lemma discard_partial_ok:
  "decoder_ok d \<Longrightarrow> decoder_ok (discard_partial d) \<and> pending (discard_partial d) = Some []"
  by (auto simp: discard_partial_def decoder_ok_def pending_def)

lemma push_refines:
  assumes "decoder_ok d"
  shows "\<exists>ev d'. push d b = (Ok ev, d') \<and> decoder_ok d' \<and> spec_push (pending d) b = (ev, pending d')"
proof (cases "sd_discarding d")
  case True
  then show ?thesis using assms by (auto simp: push_def decoder_ok_def pending_def)
next
  case False
  let ?p = "take (sd_encoded_len d) (sd_encoded d)"
  have p: "pending d = Some ?p" "length ?p = sd_encoded_len d" using False assms
    by (auto simp: pending_def decoder_ok_def)
  have e: "?p = [] \<longleftrightarrow> sd_encoded_len d = 0" using p(2) by (metis length_0_conv)
  consider (over) "b \<noteq> 0" "sd_encoded_len d = MAX_COBS_BODY_BYTES"
    | (store) "b \<noteq> 0" "sd_encoded_len d < MAX_COBS_BODY_BYTES" | (idle) "b = 0" "sd_encoded_len d = 0"
    | (frame) "b = 0" "sd_encoded_len d \<noteq> 0"
    using assms by (fastforce simp: decoder_ok_def)
  then show ?thesis
  proof cases
    case frame
    have s: "slice_at (sd_encoded d) 0 (sd_encoded_len d) = (Ok ?p :: (bytes, unit) result)"
      using assms by (simp add: decoder_ok_def sub_def)
    have "push d b = (Ok (Some (decode_body ?p)), d\<lparr>sd_encoded_len := 0\<rparr>)"
      using frame False s by (cases "decode_body ?p") (auto simp: push_def)
    then show ?thesis using frame False p e assms by (simp add: decoder_ok_def pending_def)
  qed (use False assms p e in \<open>auto simp: push_def decoder_ok_def pending_def take_Suc_conv_app_nth\<close>)
qed

text \<open>Feeding a whole byte string: the events in order, and the state reached.\<close>

fun push_all :: "StreamDecoder \<Rightarrow> bytes \<Rightarrow> (StreamDecoder, (Frame, FrameError) result list, unit) outcome" where
  "push_all d [] = (Ok [], d)"
| "push_all d (b # bs) =
     (case push d b of
        (Ok ev, d') \<Rightarrow> (case push_all d' bs of
            (Ok evs, d'') \<Rightarrow> (Ok ((case ev of None \<Rightarrow> [] | Some e \<Rightarrow> [e]) @ evs), d'')
          | (Err e, d'') \<Rightarrow> (Err e, d'') | (Panic, d'') \<Rightarrow> (Panic, d''))
      | (Err e, d') \<Rightarrow> (Err e, d') | (Panic, d') \<Rightarrow> (Panic, d'))"

fun spec_push_all :: "bytes option \<Rightarrow> bytes \<Rightarrow> (Frame, FrameError) result list \<times> bytes option" where
  "spec_push_all p [] = ([], p)"
| "spec_push_all p (b # bs) =
     (let (ev, p') = spec_push p b; (evs, p'') = spec_push_all p' bs
      in ((case ev of None \<Rightarrow> [] | Some e \<Rightarrow> [e]) @ evs, p''))"

lemma push_all_refines:
  "decoder_ok d \<Longrightarrow> \<exists>evs d'. push_all d bs = (Ok evs, d') \<and> decoder_ok d' \<and>
     spec_push_all (pending d) bs = (evs, pending d')"
proof (induction bs arbitrary: d)
  case Nil
  then show ?case by simp
next
  case (Cons b bs)
  obtain ev d1 where 1: "push d b = (Ok ev, d1)" "decoder_ok d1" "spec_push (pending d) b = (ev, pending d1)"
    using push_refines [OF Cons.prems] by blast
  obtain evs d2 where 2: "push_all d1 bs = (Ok evs, d2)" "decoder_ok d2"
    "spec_push_all (pending d1) bs = (evs, pending d2)"
    using Cons.IH [OF 1(2)] by blast
  show ?case using 1 2 by simp
qed

lemma spec_push_all_append:
  "spec_push_all p (xs @ ys) =
     (let (e1, p1) = spec_push_all p xs; (e2, p2) = spec_push_all p1 ys in (e1 @ e2, p2))"
  by (induction xs arbitrary: p) (auto simp: Let_def split: prod.splits)

lemma spec_push_all_body:
  "0 \<notin> set bs \<Longrightarrow> length p + length bs \<le> MAX_COBS_BODY_BYTES \<Longrightarrow>
   spec_push_all (Some p) bs = ([], Some (p @ bs))"
  by (induction bs arbitrary: p) auto

lemma spec_push_zero: "snd (spec_push p 0) = Some []"
  by (cases p) auto

lemma spec_wire:
  assumes "frame_ok f"
  shows "spec_push_all (Some []) (wire_bytes f) = ([Ok f], Some [])"
proof -
  have l: "length (raw_body f) \<le> MAX_RAW_FRAME_BYTES" by (rule length_raw_body_max [OF assms])
  have "spec_push_all (Some []) (stuffed (raw_body f)) = ([], Some (stuffed (raw_body f)))"
    using spec_push_all_body [OF stuffed_nonzero, of "[]"] length_stuffed [OF l] by simp
  moreover have "decode_body (stuffed (raw_body f)) = Ok f"
    by (simp add: decode_body_stuffed [OF l] decode_raw_body [OF assms])
  ultimately show ?thesis
    by (simp add: wire_bytes_def spec_push_all_append stuffed_def)
qed

lemma spec_wires:
  "(\<And>f. f \<in> set fs \<Longrightarrow> frame_ok f) \<Longrightarrow>
   spec_push_all (Some []) (concat (map wire_bytes fs)) = (map Ok fs, Some [])"
  by (induction fs) (auto simp: spec_push_all_append spec_wire)

text \<open>C9. Refinement: on every byte, the decoder with its fixed buffer, length and discard flag
  produces the event of the abstract decoder and moves to the corresponding state; it never
  panics, starting from \<open>new\<close> or after \<open>discard_partial\<close>, whatever bytes arrive.\<close>

theorem stream_decoder_refines:
  "\<exists>evs d. push_all stream_decoder_new bs = (Ok evs, d) \<and> decoder_ok d \<and>
     spec_push_all (Some []) bs = (evs, pending d) \<and> pending (discard_partial d) = Some []"
  using push_all_refines [OF stream_decoder_new_ok(1), of bs] discard_partial_ok
  by (auto simp: stream_decoder_new_ok(2))

text \<open>C10. Resynchronisation: after any noise at all, one delimiter brings the decoder back: the
  frames encoded after it are delivered completely, in order, and nothing else is.\<close>

theorem stream_resynchronises:
  assumes "\<And>f. f \<in> set fs \<Longrightarrow> frame_ok f"
  shows "\<exists>evs d. push_all stream_decoder_new (noise @ [0] @ concat (map wire_bytes fs)) =
      (Ok (evs @ map Ok fs), d) \<and> pending d = Some [] \<and>
    (\<exists>d'. push_all stream_decoder_new (noise @ [0]) = (Ok evs, d'))"
proof -
  obtain evs d where d: "push_all stream_decoder_new (noise @ [0]) = (Ok evs, d)"
    and s: "spec_push_all (Some []) (noise @ [0]) = (evs, pending d)"
    using push_all_refines [OF stream_decoder_new_ok(1), of "noise @ [0]"]
    by (auto simp: stream_decoder_new_ok(2))
  have "snd (spec_push_all (Some []) (noise @ [0])) = Some []"
    using spec_push_zero by (simp add: spec_push_all_append split: prod.splits) (metis snd_conv)
  with s have s': "spec_push_all (Some []) (noise @ [0]) = (evs, Some [])" by simp
  have "spec_push_all (Some []) ((noise @ [0]) @ concat (map wire_bytes fs)) = (evs @ map Ok fs, Some [])"
    using spec_wires [OF assms] unfolding spec_push_all_append [of _ "noise @ [0]"] s' by simp
  then show ?thesis
    using push_all_refines [OF stream_decoder_new_ok(1), of "(noise @ [0]) @ concat (map wire_bytes fs)"] d
    by (auto simp: stream_decoder_new_ok(2))
qed

theorem stream_resynchronises_witness:
  "\<exists>f evs d. frame_new Request 7 0 2 3 5 [1, 0, 2] = Ok f \<and>
     push_all stream_decoder_new ([9, 9] @ [0] @ concat (map wire_bytes [f])) = (Ok (evs @ map Ok [f]), d)"
proof -
  have "\<exists>f. frame_new Request 7 0 2 3 5 [1, 0, 2] = Ok f"
    by (simp add: frame_new_Ok validate_route_def HOST_ADDRESS_def MAX_PAYLOAD_BYTES_def)
  then obtain f where f: "frame_new Request 7 0 2 3 5 [1, 0, 2] = Ok f" by blast
  have "\<And>g. g \<in> set [f] \<Longrightarrow> frame_ok g" using frame_new_ok [OF f] by simp
  from stream_resynchronises [of "[f]" "[9, 9]", OF this] f show ?thesis by blast
qed

end
