(* ===== verification/Protocol_Measurement.thy ===== *)
theory Protocol_Measurement
  imports Core_Delivery
begin

text \<open>
  The measurement contract of \<^verbatim>\<open>sensor-protocol/src/measurement.rs\<close>: pull and release requests,
  stream states, sample chunk headers and evidence of gaps and continuity breaks, with the
  structural checks and the checks against the request that was sent.
\<close>

datatype MeasurementContractError =
  MCE_ZeroBootEpoch | MCE_ZeroJournalCapacity | MCE_ZeroSampleLimit | MCE_ReleaseAheadOfRequest
| MCE_StreamChanged | MCE_RequestedRangeUnavailable | MCE_UnexpectedFirstSequence
| MCE_EmptySampleChunk | MCE_SampleLimitExceeded | MCE_SequenceOverflow
| MCE_RetainedAheadOfProduced | MCE_ReleasedAheadOfProduced | MCE_ChunkAheadOfProduced
| MCE_FirstBeforeRetained | MCE_EmptyGap | MCE_GapBeforeRetained | MCE_GapAheadOfProduced
| MCE_InvalidExactGapReason | MCE_BreakBeforeRetained | MCE_BreakAheadOfProduced

record PullSamplesRequest =
  psr_boot_epoch :: BootEpoch
  psr_from :: SequenceCursor
  psr_release_before :: SequenceCursor
  psr_max_samples :: u16

definition pull_samples_request_new ::
  "BootEpoch \<Rightarrow> SequenceCursor \<Rightarrow> SequenceCursor \<Rightarrow> u16 \<Rightarrow>
     (PullSamplesRequest, MeasurementContractError) result" where
  "pull_samples_request_new boot_epoch from_cursor release_before max_samples =
     (if boot_epoch = 0 then Err MCE_ZeroBootEpoch
      else if max_samples = 0 then Err MCE_ZeroSampleLimit
      else if release_before > from_cursor then Err MCE_ReleaseAheadOfRequest
      else Ok \<lparr>psr_boot_epoch = boot_epoch, psr_from = from_cursor,
               psr_release_before = release_before, psr_max_samples = max_samples\<rparr>)"

record StreamState =
  ss_boot_epoch :: BootEpoch
  ss_retained_from :: SequenceCursor
  ss_produced :: SequenceCursor
  ss_released :: SequenceCursor
  ss_capacity_samples :: u32
  ss_overwritten_samples :: u64

definition stream_state_validate :: "StreamState \<Rightarrow> (StreamState, MeasurementContractError) result" where
  "stream_state_validate self =
     (if ss_boot_epoch self = 0 then Err MCE_ZeroBootEpoch
      else if ss_capacity_samples self = 0 then Err MCE_ZeroJournalCapacity
      else if ss_retained_from self > ss_produced self then Err MCE_RetainedAheadOfProduced
      else if ss_released self > ss_produced self then Err MCE_ReleasedAheadOfProduced
      else Ok self)"

record SampleChunkHeader =
  sch_boot_epoch :: BootEpoch
  sch_retained_from :: SequenceCursor
  sch_produced :: SequenceCursor
  sch_first :: SequenceCursor
  sch_sample_count :: u16

definition chunk_end :: "SampleChunkHeader \<Rightarrow> (SequenceCursor, MeasurementContractError) result" where
  "chunk_end self =
     ok_or (checked_advance (sch_first self) (u64_from (sch_sample_count self))) MCE_SequenceOverflow"

definition chunk_validate_structure ::
  "SampleChunkHeader \<Rightarrow> (SampleChunkHeader, MeasurementContractError) result" where
  "chunk_validate_structure self =
     (if sch_boot_epoch self = 0 then Err MCE_ZeroBootEpoch
      else if sch_retained_from self > sch_produced self then Err MCE_RetainedAheadOfProduced
      else if sch_sample_count self = 0 then Err MCE_EmptySampleChunk
      else if sch_first self < sch_retained_from self then Err MCE_FirstBeforeRetained
      else and_then (ok_or (checked_advance (sch_first self) (u64_from (sch_sample_count self)))
                       MCE_SequenceOverflow)
             (\<lambda>e. if e > sch_produced self then Err MCE_ChunkAheadOfProduced else Ok self))"

definition chunk_validate_for ::
  "SampleChunkHeader \<Rightarrow> PullSamplesRequest \<Rightarrow> (SampleChunkHeader, MeasurementContractError) result" where
  "chunk_validate_for self request =
     (if sch_boot_epoch self \<noteq> psr_boot_epoch request then Err MCE_StreamChanged
      else and_then (chunk_validate_structure self) (\<lambda>_.
        if psr_from request < sch_retained_from self then Err MCE_RequestedRangeUnavailable
        else if sch_first self \<noteq> psr_from request then Err MCE_UnexpectedFirstSequence
        else if sch_sample_count self > psr_max_samples request then Err MCE_SampleLimitExceeded
        else Ok self))"

definition chunk_more_available :: "SampleChunkHeader \<Rightarrow> (bool, MeasurementContractError) result" where
  "chunk_more_available self = and_then (chunk_end self) (\<lambda>e. Ok (e < sch_produced self))"

record GapEvidence =
  ge_boot_epoch :: BootEpoch
  ge_retained_from :: SequenceCursor
  ge_produced :: SequenceCursor
  ge_first_missing :: SequenceCursor
  ge_missing_count :: u64
  ge_reason :: GapReason

definition gap_evidence_end :: "GapEvidence \<Rightarrow> (SequenceCursor, MeasurementContractError) result" where
  "gap_evidence_end self =
     ok_or (checked_advance (ge_first_missing self) (ge_missing_count self)) MCE_SequenceOverflow"

definition gap_validate_structure :: "GapEvidence \<Rightarrow> (GapEvidence, MeasurementContractError) result" where
  "gap_validate_structure self =
     (if ge_boot_epoch self = 0 then Err MCE_ZeroBootEpoch
      else if ge_retained_from self > ge_produced self then Err MCE_RetainedAheadOfProduced
      else if ge_missing_count self = 0 then Err MCE_EmptyGap
      else if ge_reason self = JournalOverflow then Err MCE_InvalidExactGapReason
      else if ge_first_missing self < ge_retained_from self then Err MCE_GapBeforeRetained
      else and_then (gap_evidence_end self) (\<lambda>e.
             if e > ge_produced self then Err MCE_GapAheadOfProduced else Ok self))"

definition gap_validate_for ::
  "GapEvidence \<Rightarrow> PullSamplesRequest \<Rightarrow> (GapEvidence, MeasurementContractError) result" where
  "gap_validate_for self request =
     (if ge_boot_epoch self \<noteq> psr_boot_epoch request then Err MCE_StreamChanged
      else and_then (gap_validate_structure self) (\<lambda>_.
        if psr_from request < ge_retained_from self then Err MCE_RequestedRangeUnavailable
        else if ge_first_missing self \<noteq> psr_from request then Err MCE_UnexpectedFirstSequence
        else Ok self))"

record ContinuityBreakEvidence =
  cbe_boot_epoch :: BootEpoch
  cbe_retained_from :: SequenceCursor
  cbe_produced :: SequenceCursor
  cbe_at :: SequenceCursor
  cbe_reason :: ContinuityBreakReason

definition break_evidence_end ::
  "ContinuityBreakEvidence \<Rightarrow> (SequenceCursor, MeasurementContractError) result" where
  "break_evidence_end self = ok_or (checked_advance (cbe_at self) 1) MCE_SequenceOverflow"

definition break_validate_structure ::
  "ContinuityBreakEvidence \<Rightarrow> (ContinuityBreakEvidence, MeasurementContractError) result" where
  "break_validate_structure self =
     (if cbe_boot_epoch self = 0 then Err MCE_ZeroBootEpoch
      else if cbe_retained_from self > cbe_produced self then Err MCE_RetainedAheadOfProduced
      else if cbe_at self < cbe_retained_from self then Err MCE_BreakBeforeRetained
      else and_then (break_evidence_end self) (\<lambda>e.
             if e > cbe_produced self then Err MCE_BreakAheadOfProduced else Ok self))"

definition break_validate_for ::
  "ContinuityBreakEvidence \<Rightarrow> PullSamplesRequest \<Rightarrow>
     (ContinuityBreakEvidence, MeasurementContractError) result" where
  "break_validate_for self request =
     (if cbe_boot_epoch self \<noteq> psr_boot_epoch request then Err MCE_StreamChanged
      else and_then (break_validate_structure self) (\<lambda>_.
        if psr_from request < cbe_retained_from self then Err MCE_RequestedRangeUnavailable
        else if cbe_at self \<noteq> psr_from request then Err MCE_UnexpectedFirstSequence
        else Ok self))"

record ReleaseSamplesRequest =
  rsr_boot_epoch :: BootEpoch
  rsr_release_before :: SequenceCursor

definition release_samples_request_new ::
  "BootEpoch \<Rightarrow> SequenceCursor \<Rightarrow> (ReleaseSamplesRequest, MeasurementContractError) result" where
  "release_samples_request_new boot_epoch release_before =
     (if boot_epoch = 0 then Err MCE_ZeroBootEpoch
      else Ok \<lparr>rsr_boot_epoch = boot_epoch, rsr_release_before = release_before\<rparr>)"

section \<open>What the checks establish\<close>

definition pull_ok :: "PullSamplesRequest \<Rightarrow> bool" where
  "pull_ok r \<longleftrightarrow> psr_boot_epoch r \<noteq> 0 \<and> psr_max_samples r \<noteq> 0 \<and> psr_release_before r \<le> psr_from r"

definition stream_state_ok :: "StreamState \<Rightarrow> bool" where
  "stream_state_ok s \<longleftrightarrow> ss_boot_epoch s \<noteq> 0 \<and> ss_capacity_samples s \<noteq> 0 \<and>
     ss_retained_from s \<le> ss_produced s \<and> ss_released s \<le> ss_produced s"

definition chunk_header_ok :: "SampleChunkHeader \<Rightarrow> bool" where
  "chunk_header_ok h \<longleftrightarrow> sch_boot_epoch h \<noteq> 0 \<and> sch_sample_count h \<noteq> 0 \<and>
     sch_retained_from h \<le> sch_first h \<and>
     unat (sch_first h) + unat (sch_sample_count h) \<le> unat (sch_produced h)"

definition gap_evidence_ok :: "GapEvidence \<Rightarrow> bool" where
  "gap_evidence_ok g \<longleftrightarrow> ge_boot_epoch g \<noteq> 0 \<and> ge_missing_count g \<noteq> 0 \<and>
     ge_reason g \<noteq> JournalOverflow \<and> ge_retained_from g \<le> ge_first_missing g \<and>
     unat (ge_first_missing g) + unat (ge_missing_count g) \<le> unat (ge_produced g)"

definition break_evidence_ok :: "ContinuityBreakEvidence \<Rightarrow> bool" where
  "break_evidence_ok b \<longleftrightarrow> cbe_boot_epoch b \<noteq> 0 \<and> cbe_retained_from b \<le> cbe_at b \<and>
     unat (cbe_at b) + 1 \<le> unat (cbe_produced b)"

lemma pull_samples_request_new_Ok [result_iffs]:
  "pull_samples_request_new b f r n = Ok q \<longleftrightarrow>
     q = \<lparr>psr_boot_epoch = b, psr_from = f, psr_release_before = r, psr_max_samples = n\<rparr> \<and> pull_ok q"
  by (auto simp: pull_samples_request_new_def pull_ok_def not_less)

lemma stream_state_validate_Ok [result_iffs]:
  "stream_state_validate s = Ok t \<longleftrightarrow> t = s \<and> stream_state_ok s"
  by (auto simp: stream_state_validate_def stream_state_ok_def not_less)

lemma advance_within:
  "(\<exists>e. checked_advance f n = Some e \<and> e \<le> p) \<longleftrightarrow> unat f + unat n \<le> unat p"
proof
  assume "\<exists>e. checked_advance f n = Some e \<and> e \<le> p"
  then show "unat f + unat n \<le> unat p" by (auto simp: checked_advance_Some word_le_nat_alt)
next
  assume le: "unat f + unat n \<le> unat p"
  then have "checked_advance f n \<noteq> None" using unat_u64_bound [of p] by (simp add: checked_advance_None)
  then show "\<exists>e. checked_advance f n = Some e \<and> e \<le> p"
    using le by (auto simp: checked_advance_Some word_le_nat_alt)
qed

lemma advance_check_Ok:
  "and_then (ok_or (checked_advance f n) e) (\<lambda>c. if c > p then Err e' else Ok s) = Ok t \<longleftrightarrow>
     t = s \<and> unat f + unat n \<le> unat p"
  unfolding advance_within [symmetric] by (auto simp: result_iffs not_less split: if_splits)

lemmas advance_checks = advance_check_Ok [unfolded word_less_nat_alt]

lemma chunk_validate_structure_Ok [result_iffs]:
  "chunk_validate_structure h = Ok t \<longleftrightarrow> t = h \<and> chunk_header_ok h"
  by (auto simp: chunk_validate_structure_def chunk_header_ok_def advance_checks not_less
      word_le_nat_alt word_less_nat_alt)

lemma gap_validate_structure_Ok [result_iffs]:
  "gap_validate_structure g = Ok t \<longleftrightarrow> t = g \<and> gap_evidence_ok g"
  by (auto simp: gap_validate_structure_def gap_evidence_end_def gap_evidence_ok_def advance_checks
      not_less word_le_nat_alt word_less_nat_alt)

lemma break_validate_structure_Ok [result_iffs]:
  "break_validate_structure b = Ok t \<longleftrightarrow> t = b \<and> break_evidence_ok b"
  by (auto simp: break_validate_structure_def break_evidence_end_def break_evidence_ok_def
      advance_checks not_less word_le_nat_alt word_less_nat_alt)

lemma release_samples_request_new_Ok [result_iffs]:
  "release_samples_request_new b c = Ok q \<longleftrightarrow>
     b \<noteq> 0 \<and> q = \<lparr>rsr_boot_epoch = b, rsr_release_before = c\<rparr>"
  by (auto simp: release_samples_request_new_def)

lemma contract_no_panic [simp]:
  "pull_samples_request_new b f r n \<noteq> Panic" "stream_state_validate s \<noteq> Panic"
  "chunk_validate_structure h \<noteq> Panic" "gap_validate_structure g \<noteq> Panic"
  "break_validate_structure x \<noteq> Panic" "release_samples_request_new b c \<noteq> Panic"
  "chunk_end h \<noteq> Panic" "gap_evidence_end g \<noteq> Panic" "break_evidence_end x \<noteq> Panic"
  "chunk_validate_for h q \<noteq> Panic" "gap_validate_for g q \<noteq> Panic" "break_validate_for x q \<noteq> Panic"
  by (auto simp: pull_samples_request_new_def stream_state_validate_def chunk_validate_structure_def
      gap_validate_structure_def break_validate_structure_def release_samples_request_new_def chunk_end_def
      gap_evidence_end_def break_evidence_end_def chunk_validate_for_def gap_validate_for_def
      break_validate_for_def result_iffs)

lemma chunk_validate_for_Ok [result_iffs]:
  "chunk_validate_for h q = Ok t \<longleftrightarrow> t = h \<and> sch_boot_epoch h = psr_boot_epoch q \<and> chunk_header_ok h \<and>
     sch_first h = psr_from q \<and> sch_sample_count h \<le> psr_max_samples q"
  by (auto simp: chunk_validate_for_def result_iffs not_less chunk_header_ok_def)

lemma gap_validate_for_Ok [result_iffs]:
  "gap_validate_for g q = Ok t \<longleftrightarrow> t = g \<and> ge_boot_epoch g = psr_boot_epoch q \<and> gap_evidence_ok g \<and>
     ge_first_missing g = psr_from q"
  by (auto simp: gap_validate_for_def result_iffs not_less gap_evidence_ok_def)

lemma break_validate_for_Ok [result_iffs]:
  "break_validate_for b q = Ok t \<longleftrightarrow> t = b \<and> cbe_boot_epoch b = psr_boot_epoch q \<and> break_evidence_ok b \<and>
     cbe_at b = psr_from q"
  by (auto simp: break_validate_for_def result_iffs not_less break_evidence_ok_def)

lemma chunk_end_ok:
  "chunk_header_ok h \<Longrightarrow> \<exists>c. chunk_end h = Ok c \<and> c \<le> sch_produced h \<and>
     unat c = unat (sch_first h) + unat (sch_sample_count h)"
  using advance_within [of "sch_first h" "u64_from (sch_sample_count h)" "sch_produced h"]
  by (auto simp: chunk_header_ok_def chunk_end_def result_iffs checked_advance_Some)

text \<open>C25. A chunk, gap or continuity break that was validated against the request can always be
  accounted for by delivery cursors that stand where the request started, and advances them by
  exactly the range it describes, never past what the node says it has produced.\<close>

theorem validated_response_is_accountable:
  assumes "dc_received d = psr_from q"
  shows "(\<forall>h. chunk_validate_for h q = Ok h \<longrightarrow>
      (\<exists>c. accept_contiguous d (next_sample (sch_first h)) (sch_sample_count h) = (Ok c, d\<lparr>dc_received := c\<rparr>) \<and>
           c \<le> sch_produced h \<and> unat c = unat (psr_from q) + unat (sch_sample_count h))) \<and>
    (\<forall>g. gap_validate_for g q = Ok g \<longrightarrow>
      (\<exists>c. account_gap d (next_sample (ge_first_missing g)) (ge_missing_count g) = (Ok c, d\<lparr>dc_received := c\<rparr>) \<and>
           c \<le> ge_produced g \<and> unat c = unat (psr_from q) + unat (ge_missing_count g))) \<and>
    (\<forall>b. break_validate_for b q = Ok b \<longrightarrow>
      (\<exists>c. account_continuity_break d (cbe_at b) = (Ok c, d\<lparr>dc_received := c\<rparr>) \<and>
           c \<le> cbe_produced b \<and> unat c = unat (psr_from q) + 1))"
proof -
  have adv: "\<exists>c. unat c = m \<and> c \<le> p \<and> unat c = m" if "m \<le> unat p" for m and p :: u64
  proof -
    have "unat (of_nat m :: u64) = m" using that unat_u64_bound [of p] by (simp add: unat_of_nat)
    with that show ?thesis by (metis word_le_nat_alt)
  qed
  show ?thesis
    using assms
    by (auto simp: result_iffs next_sample_def chunk_header_ok_def gap_evidence_ok_def break_evidence_ok_def
        intro: adv)
qed

theorem validated_response_is_accountable_witness:
  "\<exists>c. accept_contiguous \<lparr>dc_received = 20, dc_durable = 12, dc_released = 7\<rparr> 20 5 =
     (Ok c, \<lparr>dc_received = c, dc_durable = 12, dc_released = 7\<rparr>)"
  using validated_response_is_accountable [of "\<lparr>dc_received = 20, dc_durable = 12, dc_released = 7\<rparr>"
      "\<lparr>psr_boot_epoch = 3, psr_from = 20, psr_release_before = 7, psr_max_samples = 8\<rparr>",
      THEN conjunct1, rule_format, of "\<lparr>sch_boot_epoch = 3, sch_retained_from = 7, sch_produced = 100,
        sch_first = 20, sch_sample_count = 5\<rparr>"]
  by (auto simp: chunk_validate_for_Ok chunk_header_ok_def next_sample_def)

end
