(* ===== verification/Protocol_Application.thy ===== *)
theory Protocol_Application
  imports Core_Stream
begin

text \<open>
  Shared vocabulary of the application protocol: services and response status
  (\<^verbatim>\<open>application.rs\<close>), protocol versions (\<^verbatim>\<open>version.rs\<close>) and the ADXL355 device profile
  (\<^verbatim>\<open>adxl355.rs\<close>). Every enumeration with numeric codes interprets a code contract. The
  floating-point conversion \<open>celsius\<close> is not modelled.
\<close>

section \<open>Services and response status\<close>

datatype ServiceId =
  SID_Identity | SID_Measurement | SID_Time | SID_Health | SID_Configuration | SID_Lifecycle
| SID_Diagnostics | SID_Commissioning | SID_Telemetry

fun service_code :: "ServiceId \<Rightarrow> u8" where
  "service_code SID_Identity = 1"
| "service_code SID_Measurement = 2"
| "service_code SID_Time = 3"
| "service_code SID_Health = 4"
| "service_code SID_Configuration = 5"
| "service_code SID_Lifecycle = 6"
| "service_code SID_Diagnostics = 7"
| "service_code SID_Commissioning = 8"
| "service_code SID_Telemetry = 9"

definition service_capability_bit :: "ServiceId \<Rightarrow> u32" where
  "service_capability_bit self = push_bit (unat (service_code self - 1)) 1"

datatype ResponseStatus =
  RS_Ok | RS_MalformedRequest | RS_UnsupportedService | RS_UnsupportedMessage | RS_WrongMode
| RS_Busy | RS_Conflict | RS_InvalidState | RS_InternalError

datatype ApplicationContractError = UnknownResponseStatus u8

fun response_status_code :: "ResponseStatus \<Rightarrow> u8" where
  "response_status_code RS_Ok = 0"
| "response_status_code RS_MalformedRequest = 1"
| "response_status_code RS_UnsupportedService = 2"
| "response_status_code RS_UnsupportedMessage = 3"
| "response_status_code RS_WrongMode = 4"
| "response_status_code RS_Busy = 5"
| "response_status_code RS_Conflict = 6"
| "response_status_code RS_InvalidState = 7"
| "response_status_code RS_InternalError = 8"

definition response_status_try_from :: "u8 \<Rightarrow> (ResponseStatus, ApplicationContractError) result" where
  "response_status_try_from v =
     (if v = 0 then Ok RS_Ok else if v = 1 then Ok RS_MalformedRequest
      else if v = 2 then Ok RS_UnsupportedService else if v = 3 then Ok RS_UnsupportedMessage
      else if v = 4 then Ok RS_WrongMode else if v = 5 then Ok RS_Busy
      else if v = 6 then Ok RS_Conflict else if v = 7 then Ok RS_InvalidState
      else if v = 8 then Ok RS_InternalError else Err (UnknownResponseStatus v))"

interpretation response_status: wire_code response_status_code response_status_try_from
proof
  show "response_status_try_from (response_status_code r) = Ok r" for r
    by (cases r) (simp_all add: response_status_try_from_def)
qed (auto simp: response_status_try_from_def split: if_splits)

text \<open>The first byte of every response: a missing or unknown status is an error of the caller's
  kind, and so is a status other than \<open>Ok\<close>.\<close>

definition expect_ok_status :: "'e \<Rightarrow> (u8 \<Rightarrow> 'e) \<Rightarrow> (ResponseStatus \<Rightarrow> 'e) \<Rightarrow> bytes \<Rightarrow> (unit, 'e) result" where
  "expect_ok_status missing unknown remote payload =
     and_then (ok_or (case payload of [] \<Rightarrow> None | v # _ \<Rightarrow> Some v) missing) (\<lambda>v.
     and_then (map_err (\<lambda>_. unknown v) (response_status_try_from v)) (\<lambda>status.
       if status = RS_Ok then Ok () else Err (remote status)))"

lemma expect_ok_status_Ok [simp]:
  "expect_ok_status m u r payload = Ok x \<longleftrightarrow> payload \<noteq> [] \<and> hd payload = 0"
  by (cases payload) (auto simp: expect_ok_status_def result_iffs response_status.of_code_iff)

lemma expect_ok_status_no_panic [simp]: "expect_ok_status m u r payload \<noteq> Panic"
  by (cases payload) (auto simp: expect_ok_status_def result_iffs response_status.no_panic)

text \<open>The stricter variant: an error status must stand alone, a success must have the expected
  length. Lengths are reported in the error.\<close>

definition require_success ::
  "(nat \<Rightarrow> 'e) \<Rightarrow> (u8 \<Rightarrow> 'e) \<Rightarrow> (ResponseStatus \<Rightarrow> 'e) \<Rightarrow> bytes \<Rightarrow> nat \<Rightarrow> (unit, 'e) result" where
  "require_success invalid_length unknown remote payload expected =
     and_then (ok_or (case payload of [] \<Rightarrow> None | v # _ \<Rightarrow> Some v) (invalid_length 0)) (\<lambda>raw.
     and_then (map_err (\<lambda>_. unknown raw) (response_status_try_from raw)) (\<lambda>status.
       if status \<noteq> RS_Ok
       then if length payload \<noteq> 1 then Err (invalid_length (length payload)) else Err (remote status)
       else if length payload \<noteq> expected then Err (invalid_length (length payload))
       else Ok ()))"

lemma require_success_Ok [simp]:
  "require_success i u r payload n = Ok x \<longleftrightarrow> payload \<noteq> [] \<and> hd payload = 0 \<and> length payload = n"
  by (cases payload) (auto simp: require_success_def result_iffs response_status.of_code_iff)

lemma require_success_no_panic [simp]: "require_success i u r payload n \<noteq> Panic"
  by (cases payload) (auto simp: require_success_def result_iffs response_status.no_panic)

section \<open>Protocol version\<close>

record ProtocolVersion =
  pv_framing :: u8
  pv_application :: u8

record ProtocolMismatch =
  pm_local :: ProtocolVersion
  pm_remote :: ProtocolVersion

definition check_compatible :: "ProtocolVersion \<Rightarrow> ProtocolVersion \<Rightarrow> (unit, ProtocolMismatch) result" where
  "check_compatible self remote =
     (if pv_framing self = pv_framing remote \<and> pv_application self = pv_application remote then Ok ()
      else Err \<lparr>pm_local = self, pm_remote = remote\<rparr>)"

definition LOCAL_PROTOCOL_VERSION :: ProtocolVersion where
  "LOCAL_PROTOCOL_VERSION = \<lparr>pv_framing = 3, pv_application = 5\<rparr>"

lemma check_compatible_Ok: "check_compatible v w = Ok u \<longleftrightarrow> v = w"
  by (auto simp: check_compatible_def)

lemma check_compatible_no_panic [simp]: "check_compatible v w \<noteq> Panic"
  by (simp add: check_compatible_def)

section \<open>ADXL355 device profile\<close>

type_synonym Adxl355TemperatureCode = u16
type_synonym Adxl355SampleCode = i32

datatype Adxl355TemperatureCodeError = Adxl355TemperatureCodeError u16
datatype Adxl355SampleCodeError = Adxl355SampleCodeError i32

definition adxl355_temperature_code_new :: "u16 \<Rightarrow> (Adxl355TemperatureCode, Adxl355TemperatureCodeError) result" where
  "adxl355_temperature_code_new v =
     (if v < 750 \<or> v > 2700 then Err (Adxl355TemperatureCodeError v) else Ok v)"

definition adxl355_sample_code_new :: "i32 \<Rightarrow> (Adxl355SampleCode, Adxl355SampleCodeError) result" where
  "adxl355_sample_code_new v =
     (if sint v < - 524288 \<or> sint v > 524287 then Err (Adxl355SampleCodeError v) else Ok v)"

text \<open>\<open>From<Adxl355SampleCode> for SampleAxis\<close>: the error branch is \<open>unreachable!\<close>.\<close>

definition sample_axis_from_code :: "Adxl355SampleCode \<Rightarrow> (SampleAxis, 'e) result" where
  "sample_axis_from_code v = (case sample_axis_new v of Ok a \<Rightarrow> Ok a | _ \<Rightarrow> Panic)"

datatype Adxl355Odr =
  Odr_Hz4000 | Odr_Hz2000 | Odr_Hz1000 | Odr_Hz500 | Odr_Hz250 | Odr_Hz125 | Odr_Hz62_5
| Odr_Hz31_25 | Odr_Hz15_625 | Odr_Hz7_8125 | Odr_Hz3_90625

fun odr_register_value :: "Adxl355Odr \<Rightarrow> u8" where
  "odr_register_value Odr_Hz4000 = 0"
| "odr_register_value Odr_Hz2000 = 1"
| "odr_register_value Odr_Hz1000 = 2"
| "odr_register_value Odr_Hz500 = 3"
| "odr_register_value Odr_Hz250 = 4"
| "odr_register_value Odr_Hz125 = 5"
| "odr_register_value Odr_Hz62_5 = 6"
| "odr_register_value Odr_Hz31_25 = 7"
| "odr_register_value Odr_Hz15_625 = 8"
| "odr_register_value Odr_Hz7_8125 = 9"
| "odr_register_value Odr_Hz3_90625 = 10"

definition odr_from_register_value :: "u8 \<Rightarrow> Adxl355Odr option" where
  "odr_from_register_value v =
     (if v = 0 then Some Odr_Hz4000 else if v = 1 then Some Odr_Hz2000
      else if v = 2 then Some Odr_Hz1000 else if v = 3 then Some Odr_Hz500
      else if v = 4 then Some Odr_Hz250 else if v = 5 then Some Odr_Hz125
      else if v = 6 then Some Odr_Hz62_5 else if v = 7 then Some Odr_Hz31_25
      else if v = 8 then Some Odr_Hz15_625 else if v = 9 then Some Odr_Hz7_8125
      else if v = 10 then Some Odr_Hz3_90625 else None)"

fun odr_sample_rate :: "Adxl355Odr \<Rightarrow> SampleRate" where
  "odr_sample_rate Odr_Hz4000 = HZ_4000"
| "odr_sample_rate Odr_Hz2000 = HZ_2000"
| "odr_sample_rate Odr_Hz1000 = HZ_1000"
| "odr_sample_rate Odr_Hz500 = HZ_500"
| "odr_sample_rate Odr_Hz250 = HZ_250"
| "odr_sample_rate Odr_Hz125 = HZ_125"
| "odr_sample_rate Odr_Hz62_5 = HZ_62_5"
| "odr_sample_rate Odr_Hz31_25 = HZ_31_25"
| "odr_sample_rate Odr_Hz15_625 = HZ_15_625"
| "odr_sample_rate Odr_Hz7_8125 = HZ_7_8125"
| "odr_sample_rate Odr_Hz3_90625 = HZ_3_90625"

definition odr_low_pass_corner :: "Adxl355Odr \<Rightarrow> (SampleRate, 'e) result" where
  "odr_low_pass_corner self = (case divided_by (odr_sample_rate self) 4 of Ok r \<Rightarrow> Ok r | _ \<Rightarrow> Panic)"

interpretation odr: option_code odr_register_value odr_from_register_value "\<lambda>v. v"
proof
  show "odr_from_register_value (odr_register_value r) = Some r" for r
    by (cases r) (simp_all add: odr_from_register_value_def)
qed (auto simp: odr_from_register_value_def split: if_splits)

text \<open>The two branches the source declares impossible are: every 20-bit code fits an axis and
  every ADXL355 rate is divisible by four.\<close>

lemma sample_axis_from_code_total:
  "adxl355_sample_code_new v = Ok c \<Longrightarrow> sample_axis_from_code c = Ok c \<and> axis_ok c"
  by (auto simp: adxl355_sample_code_new_def sample_axis_from_code_def sample_axis_new_def axis_ok_def
      SAMPLE_AXIS_MIN_def SAMPLE_AXIS_MAX_def split: if_splits)

lemma odr_low_pass_corner_total:
  "\<exists>q. odr_low_pass_corner odr = Ok q \<and> 4 * unat q = unat (odr_sample_rate odr)"
proof -
  have "\<exists>q. divided_by (odr_sample_rate odr) 4 = Ok q"
    by (cases odr) (simp_all add: divided_by_def rate_constants u64_from_def from_nanohertz_def)
  then obtain q where q: "divided_by (odr_sample_rate odr) 4 = Ok q" by blast
  with divided_by_Ok [OF q] show ?thesis by (simp add: odr_low_pass_corner_def)
qed

end
