(* ===== verification/Protocol_Measurement_Wire.thy ===== *)
theory Protocol_Measurement_Wire
  imports Protocol_Measurement Protocol_Application Framing_Cobs
begin

text \<open>
  The measurement payloads of \<^verbatim>\<open>sensor-protocol/src/measurement_wire.rs\<close>: pull and release
  requests, stream states, pull responses with their chunks of 24-bit samples, gaps and
  continuity breaks. Encoders write into the caller's buffer at the source's offsets.
\<close>

definition STREAM_STATE_FIELDS_BYTES :: nat where "STREAM_STATE_FIELDS_BYTES = 44"
definition STREAM_STATE_SUCCESS_BYTES :: nat where
  "STREAM_STATE_SUCCESS_BYTES = 1 + STREAM_STATE_FIELDS_BYTES"
definition PULL_REQUEST_BYTES :: nat where "PULL_REQUEST_BYTES = 26"
definition RELEASE_REQUEST_BYTES :: nat where "RELEASE_REQUEST_BYTES = 16"
definition CHUNK_FIXED_BYTES :: nat where "CHUNK_FIXED_BYTES = 66"
definition GAP_RESPONSE_BYTES :: nat where "GAP_RESPONSE_BYTES = 43"
definition CONTINUITY_BREAK_RESPONSE_BYTES :: nat where "CONTINUITY_BREAK_RESPONSE_BYTES = 35"
definition MAX_WIRE_CHUNK_SAMPLES :: nat where
  "MAX_WIRE_CHUNK_SAMPLES = (MAX_PAYLOAD_BYTES - CHUNK_FIXED_BYTES) div 9"

lemmas measurement_sizes = STREAM_STATE_FIELDS_BYTES_def STREAM_STATE_SUCCESS_BYTES_def
  PULL_REQUEST_BYTES_def RELEASE_REQUEST_BYTES_def CHUNK_FIXED_BYTES_def GAP_RESPONSE_BYTES_def
  CONTINUITY_BREAK_RESPONSE_BYTES_def MAX_WIRE_CHUNK_SAMPLES_def MAX_PAYLOAD_BYTES_def

definition TIMING_VALID :: u16 where "TIMING_VALID = 1"
definition TIMING_ESTIMATED :: u16 where "TIMING_ESTIMATED = 2"
definition TIMING_SENSOR_LOSS_NEARBY :: u16 where "TIMING_SENSOR_LOSS_NEARBY = 4"
definition TIMING_DRDY_RING_OVERFLOW :: u16 where "TIMING_DRDY_RING_OVERFLOW = 8"
definition TIMING_BINDING_MISMATCH :: u16 where "TIMING_BINDING_MISMATCH = 16"
definition KNOWN_TIMING_FLAGS :: u16 where
  "KNOWN_TIMING_FLAGS = TIMING_VALID OR TIMING_ESTIMATED OR TIMING_SENSOR_LOSS_NEARBY OR
     TIMING_DRDY_RING_OVERFLOW OR TIMING_BINDING_MISMATCH"

datatype MeasurementWireError =
  MWE_InvalidLength | MWE_UnknownResponseStatus u8 | MWE_RemoteError ResponseStatus
| MWE_UnknownResult u8 | MWE_UnknownTimingFlags u16 | MWE_ZeroTimingSegment
| MWE_ReversedTimingAnchors | MWE_InvalidSingleSampleTiming | MWE_CollapsedTimingAnchors
| MWE_ZeroConfigRevision | MWE_SampleCountMismatch | MWE_ChunkTooLarge | MWE_InvalidAxis
| MWE_InvalidGapReason | MWE_UnknownGapReason u8 | MWE_UnknownContinuityBreakReason u8
| MWE_Contract MeasurementContractError

datatype PullResultCode =
  PRC_SampleChunk | PRC_NoData | PRC_RangeUnavailable | PRC_StreamChanged | PRC_InvalidRelease
| PRC_Gap | PRC_ContinuityBreak

fun pull_result_code :: "PullResultCode \<Rightarrow> u8" where
  "pull_result_code PRC_SampleChunk = 0"
| "pull_result_code PRC_NoData = 1"
| "pull_result_code PRC_RangeUnavailable = 2"
| "pull_result_code PRC_StreamChanged = 3"
| "pull_result_code PRC_InvalidRelease = 4"
| "pull_result_code PRC_Gap = 5"
| "pull_result_code PRC_ContinuityBreak = 6"

definition pull_result_try_from :: "u8 \<Rightarrow> (PullResultCode, MeasurementWireError) result" where
  "pull_result_try_from v =
     (if v = 0 then Ok PRC_SampleChunk else if v = 1 then Ok PRC_NoData
      else if v = 2 then Ok PRC_RangeUnavailable else if v = 3 then Ok PRC_StreamChanged
      else if v = 4 then Ok PRC_InvalidRelease else if v = 5 then Ok PRC_Gap
      else if v = 6 then Ok PRC_ContinuityBreak else Err (MWE_UnknownResult v))"

interpretation pull_result: wire_code pull_result_code pull_result_try_from
proof
  show "pull_result_try_from (pull_result_code r) = Ok r" for r
    by (cases r) (simp_all add: pull_result_try_from_def)
qed (auto simp: pull_result_try_from_def split: if_splits)

record TimingEvidence =
  te_segment_id :: u32
  te_first_device_time_us :: u64
  te_last_device_time_us :: u64
  te_max_fit_residual_us :: u32
  te_quality_flags :: u16

definition timing_validate :: "TimingEvidence \<Rightarrow> u16 \<Rightarrow> (TimingEvidence, MeasurementWireError) result" where
  "timing_validate self sample_count =
     (if te_segment_id self = 0 then Err MWE_ZeroTimingSegment
      else if te_quality_flags self AND NOT KNOWN_TIMING_FLAGS \<noteq> 0
      then Err (MWE_UnknownTimingFlags (te_quality_flags self AND NOT KNOWN_TIMING_FLAGS))
      else if te_last_device_time_us self < te_first_device_time_us self
      then Err MWE_ReversedTimingAnchors
      else if te_quality_flags self AND TIMING_VALID \<noteq> 0 \<and> sample_count = 1 \<and>
              te_last_device_time_us self \<noteq> te_first_device_time_us self
      then Err MWE_InvalidSingleSampleTiming
      else if te_quality_flags self AND TIMING_VALID \<noteq> 0 \<and> sample_count > 1 \<and>
              te_last_device_time_us self = te_first_device_time_us self
      then Err MWE_CollapsedTimingAnchors
      else Ok self)"

record SampleChunk =
  sc_header :: SampleChunkHeader
  sc_config_revision :: u32
  sc_timing :: TimingEvidence
  sc_samples :: "SampleAxes list"

definition sample_chunk_validate :: "SampleChunk \<Rightarrow> (unit, MeasurementWireError) result" where
  "sample_chunk_validate self =
     and_then (map_err MWE_Contract (chunk_validate_structure (sc_header self))) (\<lambda>_.
       if sc_config_revision self = 0 then Err MWE_ZeroConfigRevision
       else if length (sc_samples self) \<noteq> unat (sch_sample_count (sc_header self))
       then Err MWE_SampleCountMismatch
       else if length (sc_samples self) > MAX_WIRE_CHUNK_SAMPLES then Err MWE_ChunkTooLarge
       else and_then (timing_validate (sc_timing self) (sch_sample_count (sc_header self))) (\<lambda>_. Ok ()))"

datatype PullResponse =
  PR_SampleChunk SampleChunk
| PR_NoData StreamState
| PR_RangeUnavailable StreamState
| PR_StreamChanged BootEpoch
| PR_InvalidRelease StreamState
| PR_Gap GapEvidence
| PR_ContinuityBreak ContinuityBreakEvidence

section \<open>Requests\<close>

definition require_length :: "bytes \<Rightarrow> nat \<Rightarrow> (unit, MeasurementWireError) result" where
  "require_length payload expected = (if length payload = expected then Ok () else Err MWE_InvalidLength)"

definition decode_ok_status :: "bytes \<Rightarrow> (unit, MeasurementWireError) result" where
  "decode_ok_status = expect_ok_status MWE_InvalidLength MWE_UnknownResponseStatus MWE_RemoteError"

definition encode_pull_request :: "PullSamplesRequest \<Rightarrow> (bytes, MeasurementWireError) result" where
  "encode_pull_request request =
     copy_fields [(0, 8, to_le_bytes 8 (psr_boot_epoch request)), (8, 16, to_le_bytes 8 (psr_from request)),
                  (16, 24, to_le_bytes 8 (psr_release_before request)),
                  (24, 26, to_le_bytes 2 (psr_max_samples request))]
       (replicate PULL_REQUEST_BYTES 0)"

definition decode_pull_request :: "bytes \<Rightarrow> (PullSamplesRequest, MeasurementWireError) result" where
  "decode_pull_request payload =
     and_then (require_length payload PULL_REQUEST_BYTES) (\<lambda>_.
     and_then (read_u64 payload 0) (\<lambda>boot_epoch.
     and_then (read_u64 payload 8) (\<lambda>from_cursor.
     and_then (read_u64 payload 16) (\<lambda>release_before.
     and_then (read_u16 payload 24) (\<lambda>max_samples.
       map_err MWE_Contract (pull_samples_request_new boot_epoch from_cursor release_before max_samples))))))"

definition encode_release_request :: "ReleaseSamplesRequest \<Rightarrow> (bytes, MeasurementWireError) result" where
  "encode_release_request request =
     copy_fields [(0, 8, to_le_bytes 8 (rsr_boot_epoch request)),
                  (8, 16, to_le_bytes 8 (rsr_release_before request))]
       (replicate RELEASE_REQUEST_BYTES 0)"

definition decode_release_request :: "bytes \<Rightarrow> (ReleaseSamplesRequest, MeasurementWireError) result" where
  "decode_release_request payload =
     and_then (require_length payload RELEASE_REQUEST_BYTES) (\<lambda>_.
     and_then (read_u64 payload 0) (\<lambda>boot_epoch.
     and_then (read_u64 payload 8) (\<lambda>release_before.
       map_err MWE_Contract (release_samples_request_new boot_epoch release_before))))"

section \<open>Stream states\<close>

text \<open>The fields are written at \<open>base\<close>, the start of the slice the caller passes.\<close>

definition stream_state_fields :: "nat \<Rightarrow> StreamState \<Rightarrow> (nat \<times> nat \<times> bytes) list" where
  "stream_state_fields base state =
     [(base, base + 8, to_le_bytes 8 (ss_boot_epoch state)),
      (base + 8, base + 16, to_le_bytes 8 (ss_retained_from state)),
      (base + 16, base + 24, to_le_bytes 8 (ss_produced state)),
      (base + 24, base + 32, to_le_bytes 8 (ss_released state)),
      (base + 32, base + 36, to_le_bytes 4 (ss_capacity_samples state)),
      (base + 36, base + 44, to_le_bytes 8 (ss_overwritten_samples state))]"

definition decode_stream_state_fields :: "bytes \<Rightarrow> (StreamState, MeasurementWireError) result" where
  "decode_stream_state_fields payload =
     and_then (require_length payload STREAM_STATE_FIELDS_BYTES) (\<lambda>_.
     and_then (read_u64 payload 0) (\<lambda>boot_epoch.
     and_then (read_u64 payload 8) (\<lambda>retained_from.
     and_then (read_u64 payload 16) (\<lambda>produced.
     and_then (read_u64 payload 24) (\<lambda>released.
     and_then (read_u32 payload 32) (\<lambda>capacity_samples.
     and_then (read_u64 payload 36) (\<lambda>overwritten_samples.
       map_err MWE_Contract (stream_state_validate
         \<lparr>ss_boot_epoch = boot_epoch, ss_retained_from = retained_from, ss_produced = produced,
          ss_released = released, ss_capacity_samples = capacity_samples,
          ss_overwritten_samples = overwritten_samples\<rparr>))))))))"

definition encode_stream_state_success :: "StreamState \<Rightarrow> (bytes, MeasurementWireError) result" where
  "encode_stream_state_success state =
     and_then (map_err MWE_Contract (stream_state_validate state)) (\<lambda>_.
       copy_fields ((0, 1, [response_status_code RS_Ok]) # stream_state_fields 1 state)
         (replicate STREAM_STATE_SUCCESS_BYTES 0))"

definition decode_stream_state_success :: "bytes \<Rightarrow> (StreamState, MeasurementWireError) result" where
  "decode_stream_state_success payload =
     and_then (decode_ok_status payload) (\<lambda>_.
     and_then (require_length payload STREAM_STATE_SUCCESS_BYTES) (\<lambda>_.
     and_then (slice_at payload 1 (length payload)) decode_stream_state_fields))"

section \<open>Samples, chunks and evidence\<close>

definition encode_i24 :: "SampleAxis \<Rightarrow> bytes" where
  "encode_i24 axis = take 3 (to_le_bytes 4 axis)"

definition decode_i24 :: "bytes \<Rightarrow> (SampleAxis, MeasurementWireError) result" where
  "decode_i24 input =
     and_then (index_at input 2) (\<lambda>high.
     and_then (index_at input 0) (\<lambda>b0. and_then (index_at input 1) (\<lambda>b1.
       map_err (\<lambda>_. MWE_InvalidAxis)
         (sample_axis_new (from_le_bytes [b0, b1, high, if high AND 0x80 = 0 then 0 else 0xff])))))"

definition sample_fields :: "nat \<Rightarrow> SampleAxes \<Rightarrow> (nat \<times> nat \<times> bytes) list" where
  "sample_fields index sample =
     (let offset = CHUNK_FIXED_BYTES + index * 9 in
      [(offset, offset + 3, encode_i24 (sa_x sample)),
       (offset + 3, offset + 6, encode_i24 (sa_y sample)),
       (offset + 6, offset + 9, encode_i24 (sa_z sample))])"

fun encode_samples :: "nat \<Rightarrow> SampleAxes list \<Rightarrow> bytes \<Rightarrow> (bytes, MeasurementWireError) result" where
  "encode_samples index [] output = Ok output"
| "encode_samples index (sample # samples) output =
     and_then (copy_fields (sample_fields index sample) output) (encode_samples (index + 1) samples)"

definition chunk_fields :: "SampleChunk \<Rightarrow> (nat \<times> nat \<times> bytes) list" where
  "chunk_fields chunk =
     [(2, 10, to_le_bytes 8 (sch_boot_epoch (sc_header chunk))),
      (10, 18, to_le_bytes 8 (sch_retained_from (sc_header chunk))),
      (18, 26, to_le_bytes 8 (sch_produced (sc_header chunk))),
      (26, 34, to_le_bytes 8 (sch_first (sc_header chunk))),
      (34, 36, to_le_bytes 2 (sch_sample_count (sc_header chunk))),
      (36, 40, to_le_bytes 4 (sc_config_revision chunk)),
      (40, 44, to_le_bytes 4 (te_segment_id (sc_timing chunk))),
      (44, 52, to_le_bytes 8 (te_first_device_time_us (sc_timing chunk))),
      (52, 60, to_le_bytes 8 (te_last_device_time_us (sc_timing chunk))),
      (60, 64, to_le_bytes 4 (te_max_fit_residual_us (sc_timing chunk))),
      (64, 66, to_le_bytes 2 (te_quality_flags (sc_timing chunk)))]"

definition encode_chunk :: "SampleChunk \<Rightarrow> bytes \<Rightarrow> (bytes, MeasurementWireError) result" where
  "encode_chunk chunk output =
     and_then (copy_fields (chunk_fields chunk) output) (encode_samples 0 (sc_samples chunk))"

fun decode_samples :: "bytes \<Rightarrow> nat \<Rightarrow> nat \<Rightarrow> (SampleAxes list, MeasurementWireError) result" where
  "decode_samples payload index 0 = Ok []"
| "decode_samples payload index (Suc remaining) =
     (let offset = CHUNK_FIXED_BYTES + index * 9 in
      and_then (slice_at payload offset (offset + 3)) (\<lambda>sx. and_then (decode_i24 sx) (\<lambda>x.
      and_then (slice_at payload (offset + 3) (offset + 6)) (\<lambda>sy. and_then (decode_i24 sy) (\<lambda>y.
      and_then (slice_at payload (offset + 6) (offset + 9)) (\<lambda>sz. and_then (decode_i24 sz) (\<lambda>z.
      and_then (decode_samples payload (index + 1) remaining) (\<lambda>samples.
        Ok (\<lparr>sa_x = x, sa_y = y, sa_z = z\<rparr> # samples)))))))))"

definition decode_chunk :: "bytes \<Rightarrow> (SampleChunk, MeasurementWireError) result" where
  "decode_chunk payload =
     (if length payload < CHUNK_FIXED_BYTES then Err MWE_InvalidLength
      else and_then (read_u16 payload 34) (\<lambda>count.
        let expected = CHUNK_FIXED_BYTES + unat count * 9 in
        and_then (require_length payload expected) (\<lambda>_.
        and_then (decode_samples payload 0 (unat count)) (\<lambda>samples.
        and_then (read_u64 payload 2) (\<lambda>boot_epoch.
        and_then (read_u64 payload 10) (\<lambda>retained_from.
        and_then (read_u64 payload 18) (\<lambda>produced.
        and_then (read_u64 payload 26) (\<lambda>first.
        and_then (read_u32 payload 36) (\<lambda>config_revision.
        and_then (read_u32 payload 40) (\<lambda>segment_id.
        and_then (read_u64 payload 44) (\<lambda>first_device_time_us.
        and_then (read_u64 payload 52) (\<lambda>last_device_time_us.
        and_then (read_u32 payload 60) (\<lambda>max_fit_residual_us.
        and_then (read_u16 payload 64) (\<lambda>quality_flags.
        let chunk = \<lparr>sc_header = \<lparr>sch_boot_epoch = boot_epoch, sch_retained_from = retained_from,
                        sch_produced = produced, sch_first = first, sch_sample_count = count\<rparr>,
                     sc_config_revision = config_revision,
                     sc_timing = \<lparr>te_segment_id = segment_id, te_first_device_time_us = first_device_time_us,
                        te_last_device_time_us = last_device_time_us,
                        te_max_fit_residual_us = max_fit_residual_us, te_quality_flags = quality_flags\<rparr>,
                     sc_samples = samples\<rparr>
        in and_then (sample_chunk_validate chunk) (\<lambda>_. Ok chunk)))))))))))))))"

fun gap_reason_code :: "GapReason \<Rightarrow> (u8, MeasurementWireError) result" where
  "gap_reason_code UnknownDiscontinuity = Ok 0"
| "gap_reason_code SourceLoss = Ok 1"
| "gap_reason_code IngressOverflow = Ok 2"
| "gap_reason_code JournalOverflow = Err MWE_InvalidGapReason"

definition gap_reason_of :: "u8 \<Rightarrow> (GapReason, MeasurementWireError) result" where
  "gap_reason_of v =
     (if v = 0 then Ok UnknownDiscontinuity else if v = 1 then Ok SourceLoss
      else if v = 2 then Ok IngressOverflow else Err (MWE_UnknownGapReason v))"

fun break_reason_code :: "ContinuityBreakReason \<Rightarrow> u8" where
  "break_reason_code BreakUnknown = 0"
| "break_reason_code SensorOverflow = 1"
| "break_reason_code SensorReadUncertain = 2"
| "break_reason_code InvalidTiming = 3"
| "break_reason_code ProcessingReset = 4"

definition break_reason_of :: "u8 \<Rightarrow> (ContinuityBreakReason, MeasurementWireError) result" where
  "break_reason_of v =
     (if v = 0 then Ok BreakUnknown else if v = 1 then Ok SensorOverflow
      else if v = 2 then Ok SensorReadUncertain else if v = 3 then Ok InvalidTiming
      else if v = 4 then Ok ProcessingReset else Err (MWE_UnknownContinuityBreakReason v))"

interpretation break_reason: wire_code break_reason_code break_reason_of
proof
  show "break_reason_of (break_reason_code r) = Ok r" for r
    by (cases r) (simp_all add: break_reason_of_def)
qed (auto simp: break_reason_of_def split: if_splits)

definition encode_gap :: "GapEvidence \<Rightarrow> bytes \<Rightarrow> (bytes, nat, MeasurementWireError) outcome" where
  "encode_gap gap output =
     try_with (map_err MWE_Contract (gap_validate_structure gap)) output (\<lambda>_.
     try_with (copy_fields
       [(1, 2, [pull_result_code PRC_Gap]), (2, 10, to_le_bytes 8 (ge_boot_epoch gap)),
        (10, 18, to_le_bytes 8 (ge_retained_from gap)), (18, 26, to_le_bytes 8 (ge_produced gap)),
        (26, 34, to_le_bytes 8 (ge_first_missing gap)), (34, 42, to_le_bytes 8 (ge_missing_count gap))]
       output) output (\<lambda>output.
     try_with (gap_reason_code (ge_reason gap)) output (\<lambda>code.
     try_with (copy_fields [(42, 43, [code])] output) output (\<lambda>output.
       (Ok GAP_RESPONSE_BYTES, output)))))"

definition decode_gap :: "bytes \<Rightarrow> (GapEvidence, MeasurementWireError) result" where
  "decode_gap payload =
     and_then (require_length payload GAP_RESPONSE_BYTES) (\<lambda>_.
     and_then (index_at payload 42) (\<lambda>code.
     and_then (gap_reason_of code) (\<lambda>reason.
     and_then (read_u64 payload 2) (\<lambda>boot_epoch.
     and_then (read_u64 payload 10) (\<lambda>retained_from.
     and_then (read_u64 payload 18) (\<lambda>produced.
     and_then (read_u64 payload 26) (\<lambda>first_missing.
     and_then (read_u64 payload 34) (\<lambda>missing_count.
       map_err MWE_Contract (gap_validate_structure
         \<lparr>ge_boot_epoch = boot_epoch, ge_retained_from = retained_from, ge_produced = produced,
          ge_first_missing = first_missing, ge_missing_count = missing_count, ge_reason = reason\<rparr>)))))))))"

definition encode_continuity_break ::
  "ContinuityBreakEvidence \<Rightarrow> bytes \<Rightarrow> (bytes, nat, MeasurementWireError) outcome" where
  "encode_continuity_break v output =
     try_with (map_err MWE_Contract (break_validate_structure v)) output (\<lambda>_.
     try_with (copy_fields
       [(1, 2, [pull_result_code PRC_ContinuityBreak]), (2, 10, to_le_bytes 8 (cbe_boot_epoch v)),
        (10, 18, to_le_bytes 8 (cbe_retained_from v)), (18, 26, to_le_bytes 8 (cbe_produced v)),
        (26, 34, to_le_bytes 8 (cbe_at v)), (34, 35, [break_reason_code (cbe_reason v)])]
       output) output (\<lambda>output. (Ok CONTINUITY_BREAK_RESPONSE_BYTES, output)))"

definition decode_continuity_break :: "bytes \<Rightarrow> (ContinuityBreakEvidence, MeasurementWireError) result" where
  "decode_continuity_break payload =
     and_then (require_length payload CONTINUITY_BREAK_RESPONSE_BYTES) (\<lambda>_.
     and_then (index_at payload 34) (\<lambda>code.
     and_then (break_reason_of code) (\<lambda>reason.
     and_then (read_u64 payload 2) (\<lambda>boot_epoch.
     and_then (read_u64 payload 10) (\<lambda>retained_from.
     and_then (read_u64 payload 18) (\<lambda>produced.
     and_then (read_u64 payload 26) (\<lambda>at_cursor.
       map_err MWE_Contract (break_validate_structure
         \<lparr>cbe_boot_epoch = boot_epoch, cbe_retained_from = retained_from, cbe_produced = produced,
          cbe_at = at_cursor, cbe_reason = reason\<rparr>))))))))"

definition encode_state_result ::
  "PullResultCode \<Rightarrow> StreamState \<Rightarrow> bytes \<Rightarrow> (bytes, nat, MeasurementWireError) outcome" where
  "encode_state_result code state output =
     try_with (map_err MWE_Contract (stream_state_validate state)) output (\<lambda>_.
     try_with (copy_fields ((1, 2, [pull_result_code code]) # stream_state_fields 2 state) output) output
       (\<lambda>output. (Ok 46, output)))"

definition decode_state_result :: "bytes \<Rightarrow> (StreamState, MeasurementWireError) result" where
  "decode_state_result payload =
     and_then (require_length payload 46) (\<lambda>_.
     and_then (slice_at payload 2 (length payload)) decode_stream_state_fields)"

section \<open>Pull responses\<close>

definition encode_pull_response ::
  "PullResponse \<Rightarrow> bytes \<Rightarrow> (bytes, nat, MeasurementWireError) outcome" where
  "encode_pull_response response output =
     try_with (copy_fields [(0, 1, [response_status_code RS_Ok])] output) output (\<lambda>output.
     case response of
       PR_SampleChunk chunk \<Rightarrow>
         try_with (sample_chunk_validate chunk) output (\<lambda>_.
         try_with (copy_fields [(1, 2, [pull_result_code PRC_SampleChunk])] output) output (\<lambda>output.
         try_with (encode_chunk chunk output) output (\<lambda>output.
           (Ok (CHUNK_FIXED_BYTES + length (sc_samples chunk) * 9), output))))
     | PR_NoData state \<Rightarrow> encode_state_result PRC_NoData state output
     | PR_RangeUnavailable state \<Rightarrow> encode_state_result PRC_RangeUnavailable state output
     | PR_StreamChanged epoch \<Rightarrow>
         if epoch = 0 then (Err (MWE_Contract MCE_ZeroBootEpoch), output)
         else try_with (copy_fields [(1, 2, [pull_result_code PRC_StreamChanged]),
                                     (2, 10, to_le_bytes 8 epoch)] output) output
                (\<lambda>output. (Ok 10, output))
     | PR_InvalidRelease state \<Rightarrow> encode_state_result PRC_InvalidRelease state output
     | PR_Gap gap \<Rightarrow> encode_gap gap output
     | PR_ContinuityBreak v \<Rightarrow> encode_continuity_break v output)"

definition decode_pull_fields :: "PullResultCode \<Rightarrow> bytes \<Rightarrow> (PullResponse, MeasurementWireError) result" where
  "decode_pull_fields code payload =
     (case code of
        PRC_SampleChunk \<Rightarrow> map_ok PR_SampleChunk (decode_chunk payload)
      | PRC_NoData \<Rightarrow> map_ok PR_NoData (decode_state_result payload)
      | PRC_RangeUnavailable \<Rightarrow> map_ok PR_RangeUnavailable (decode_state_result payload)
      | PRC_StreamChanged \<Rightarrow>
          and_then (require_length payload 10) (\<lambda>_.
          and_then (read_u64 payload 2) (\<lambda>epoch.
            if epoch = 0 then Err (MWE_Contract MCE_ZeroBootEpoch) else Ok (PR_StreamChanged epoch)))
      | PRC_InvalidRelease \<Rightarrow> map_ok PR_InvalidRelease (decode_state_result payload)
      | PRC_Gap \<Rightarrow> map_ok PR_Gap (decode_gap payload)
      | PRC_ContinuityBreak \<Rightarrow> map_ok PR_ContinuityBreak (decode_continuity_break payload))"

definition decode_pull_response :: "bytes \<Rightarrow> (PullResponse, MeasurementWireError) result" where
  "decode_pull_response payload =
     and_then (decode_ok_status payload) (\<lambda>_.
       if length payload < 2 then Err MWE_InvalidLength
       else and_then (index_at payload 1) (\<lambda>v. and_then (pull_result_try_from v) (\<lambda>code.
              decode_pull_fields code payload)))"

section \<open>Requests and states round trip\<close>

lemma require_length_Ok [result_iffs]: "require_length p n = Ok u \<longleftrightarrow> length p = n"
  by (auto simp: require_length_def)

lemma require_length_no_panic [simp]: "require_length p n \<noteq> Panic"
  by (simp add: require_length_def)

interpretation pull_request: codec encode_pull_request decode_pull_request pull_ok
proof
  fix m bs
  show "\<exists>bs. encode_pull_request m = Ok bs"
    by (simp add: encode_pull_request_def measurement_sizes)
  show "decode_pull_request bs = Ok m" if "pull_ok m" "encode_pull_request m = Ok bs"
  proof -
    have "bs = to_le_bytes 8 (psr_boot_epoch m) @ to_le_bytes 8 (psr_from m) @
        to_le_bytes 8 (psr_release_before m) @ to_le_bytes 2 (psr_max_samples m)"
      using that(2) by (simp add: encode_pull_request_def measurement_sizes)
    then show ?thesis
      using that(1) by (simp add: decode_pull_request_def require_length_def measurement_sizes read_defs
          slices result_iffs)
  qed
  show "pull_ok m \<and> encode_pull_request m = Ok bs" if "decode_pull_request bs = Ok m"
    using that
    by (auto simp: decode_pull_request_def measurement_sizes read_defs result_iffs require_length_def
        encode_pull_request_def to_from_le_bytes joins split: if_splits)
  show "decode_pull_request bs \<noteq> Panic"
    by (auto simp: decode_pull_request_def measurement_sizes read_defs result_iffs require_length_def)
qed

interpretation release_request: codec encode_release_request decode_release_request
  "\<lambda>r. rsr_boot_epoch r \<noteq> 0"
proof
  fix m bs
  show "\<exists>bs. encode_release_request m = Ok bs"
    by (simp add: encode_release_request_def measurement_sizes)
  show "decode_release_request bs = Ok m" if "rsr_boot_epoch m \<noteq> 0" "encode_release_request m = Ok bs"
  proof -
    have "bs = to_le_bytes 8 (rsr_boot_epoch m) @ to_le_bytes 8 (rsr_release_before m)"
      using that(2) by (simp add: encode_release_request_def measurement_sizes)
    then show ?thesis
      using that(1) by (simp add: decode_release_request_def require_length_def measurement_sizes read_defs
          slices result_iffs)
  qed
  show "rsr_boot_epoch m \<noteq> 0 \<and> encode_release_request m = Ok bs" if "decode_release_request bs = Ok m"
    using that
    by (auto simp: decode_release_request_def measurement_sizes read_defs result_iffs require_length_def
        encode_release_request_def to_from_le_bytes joins split: if_splits)
  show "decode_release_request bs \<noteq> Panic"
    by (auto simp: decode_release_request_def measurement_sizes read_defs result_iffs require_length_def)
qed

definition stream_state_bytes :: "StreamState \<Rightarrow> bytes" where
  "stream_state_bytes s = to_le_bytes 8 (ss_boot_epoch s) @ to_le_bytes 8 (ss_retained_from s) @
     to_le_bytes 8 (ss_produced s) @ to_le_bytes 8 (ss_released s) @
     to_le_bytes 4 (ss_capacity_samples s) @ to_le_bytes 8 (ss_overwritten_samples s)"

lemma length_stream_state_bytes [simp]: "length (stream_state_bytes s) = 44"
  by (simp add: stream_state_bytes_def)

lemma decode_stream_state_fields_Ok [result_iffs]:
  "decode_stream_state_fields bs = Ok s \<longleftrightarrow> stream_state_ok s \<and> bs = stream_state_bytes s"
proof
  assume "decode_stream_state_fields bs = Ok s"
  then show "stream_state_ok s \<and> bs = stream_state_bytes s"
    by (auto simp: decode_stream_state_fields_def measurement_sizes read_defs result_iffs require_length_def
        stream_state_bytes_def to_from_le_bytes joins split: if_splits)
next
  assume "stream_state_ok s \<and> bs = stream_state_bytes s"
  then show "decode_stream_state_fields bs = Ok s"
    by (simp add: decode_stream_state_fields_def measurement_sizes read_defs require_length_def
        stream_state_bytes_def slices result_iffs stream_state_ok_def)
qed

lemma decode_stream_state_fields_no_panic [simp]: "decode_stream_state_fields bs \<noteq> Panic"
  by (auto simp: decode_stream_state_fields_def measurement_sizes read_defs result_iffs require_length_def)

interpretation stream_state: strict_codec encode_stream_state_success decode_stream_state_success stream_state_ok
proof
  fix m bs
  have e: "encode_stream_state_success m = Ok (0 # stream_state_bytes m)" if "stream_state_ok m"
    using that by (simp add: encode_stream_state_success_def measurement_sizes stream_state_fields_def
        stream_state_bytes_def stream_state_validate_def stream_state_ok_def not_less)
  then show "\<exists>bs. encode_stream_state_success m = Ok bs" if "stream_state_ok m" using that by simp
  have d: "decode_stream_state_success bs = Ok m \<longleftrightarrow> stream_state_ok m \<and> bs = 0 # stream_state_bytes m"
    by (cases bs) (auto simp: decode_stream_state_success_def decode_ok_status_def measurement_sizes
        result_iffs require_length_def slice_at_def sub_def)
  show "decode_stream_state_success bs = Ok m" if "stream_state_ok m" "encode_stream_state_success m = Ok bs"
    using that e d by simp
  show "stream_state_ok m \<and> encode_stream_state_success m = Ok bs" if "decode_stream_state_success bs = Ok m"
    using that e d by simp
  show "decode_stream_state_success bs \<noteq> Panic"
    by (cases bs) (auto simp: decode_stream_state_success_def decode_ok_status_def measurement_sizes
        result_iffs require_length_def slice_at_def)
  show "\<exists>e. encode_stream_state_success m = Err e" if "\<not> stream_state_ok m"
    using that by (auto simp: encode_stream_state_success_def stream_state_validate_def stream_state_ok_def)
qed

section \<open>Samples\<close>

text \<open>A 24-bit axis is a word whose bits 23 to 31 agree.\<close>

lemma axis_ok_bits: "axis_ok a \<longleftrightarrow> (\<forall>n. 23 \<le> n \<longrightarrow> n < 32 \<longrightarrow> bit a n = bit a 23)"
proof -
  have "axis_ok a \<longleftrightarrow> signed_take_bit 23 (sint a) = sint a"
    by (auto simp: axis_ok_def SAMPLE_AXIS_MIN_def SAMPLE_AXIS_MAX_def signed_take_bit_int_eq_self_iff)
  also have "\<dots> \<longleftrightarrow> (\<forall>n. bit (sint a) (min 23 n) = bit (sint a) n)"
    by (simp add: bit_eq_iff bit_signed_take_bit_iff)
  also have "\<dots> \<longleftrightarrow> (\<forall>n. 23 \<le> n \<longrightarrow> n < 32 \<longrightarrow> bit a n = bit a 23)"
  proof
    assume h: "\<forall>n. bit (sint a) (min 23 n) = bit (sint a) n"
    show "\<forall>n. 23 \<le> n \<longrightarrow> n < 32 \<longrightarrow> bit a n = bit a 23"
    proof (intro allI impI)
      fix n :: nat assume "23 \<le> n" "n < 32"
      then show "bit a n = bit a 23" using h [rule_format, of n] by (simp add: bit_sint_iff min_def)
    qed
  next
    assume h: "\<forall>n. 23 \<le> n \<longrightarrow> n < 32 \<longrightarrow> bit a n = bit a 23"
    show "\<forall>n. bit (sint a) (min 23 n) = bit (sint a) n"
    proof
      fix n :: nat
      show "bit (sint a) (min 23 n) = bit (sint a) n"
        using h [rule_format, of n] h [rule_format, of 31]
        by (cases "n < 32"; cases "23 \<le> n") (auto simp: bit_sint_iff min_def dest: bit_imp_le_length)
    qed
  qed
  finally show ?thesis .
qed

lemma length_encode_i24 [simp]: "length (encode_i24 a) = 3"
  by (simp add: encode_i24_def)

lemma decode_i24_Ok:
  assumes "length s = 3"
  shows "\<exists>a. decode_i24 s = Ok a \<and> axis_ok a \<and> encode_i24 a = s"
proof -
  obtain b0 b1 b2 where s: "s = [b0, b1, b2]"
    using assms by (auto simp: numeral_eq_Suc length_Suc_conv)
  obtain sign :: u8 where sign: "sign = (if b2 AND 0x80 = 0 then 0 else 0xff)" by blast
  have "b2 AND 2 ^ 7 = 0 \<longleftrightarrow> \<not> bit b2 7" by (rule and_exp_eq_0_iff_not_bit)
  then have sb: "bit sign k = bit b2 7" if "k < 8" for k
    using that by (auto simp: sign bit_simps less_Suc_eq numeral_eq_Suc)
  obtain a :: i32 where a: "a = from_le_bytes [b0, b1, b2, sign]" by blast
  have bits: "bit a i = bit ([b0, b1, b2, sign] ! (i div 8)) (i mod 8)" if "i < 32" for i
  proof -
    have "i div 8 < length [b0, b1, b2, sign]" using that by simp
    then show ?thesis unfolding a bit_from_le_bytes using that by simp
  qed
  have "axis_ok a"
    unfolding axis_ok_bits
  proof (intro allI impI)
    fix n :: nat assume n: "23 \<le> n" "n < 32"
    show "bit a n = bit a 23"
    proof (cases "n = 23")
      case False
      then have d: "n div 8 = 3" using n by simp
      have "bit a n = bit sign (n mod 8)" using bits [OF n(2)] by (simp add: d)
      also have "\<dots> = bit b2 7" by (rule sb) simp
      also have "\<dots> = bit a 23" using bits [of 23] by simp
      finally show ?thesis .
    qed simp
  qed
  moreover have "to_le_bytes 4 a = [b0, b1, b2, sign]"
    unfolding a by (rule to_from_le_bytes) simp_all
  then have "encode_i24 a = s" by (simp add: encode_i24_def s)
  moreover have "decode_i24 s = map_err (\<lambda>_. MWE_InvalidAxis) (sample_axis_new a)"
    unfolding decode_i24_def s a sign by (simp add: index_at_def del: from_le_bytes.simps)
  then have "decode_i24 s = Ok a"
    using \<open>axis_ok a\<close> by (simp add: result_iffs sample_axis_new_Ok)
  ultimately show ?thesis by blast
qed

lemma encode_i24_inject:
  assumes "axis_ok a" "axis_ok b" "encode_i24 a = encode_i24 b"
  shows "a = b"
proof (rule bit_word_eqI)
  fix n assume "n < LENGTH(32)"
  then have n: "n < 32" by simp
  have low: "bit a i = bit b i" if "i < 24" for i
  proof -
    have j: "i div 8 < 3" "i mod 8 < 8" using that by auto
    have "take 3 (to_le_bytes 4 a) ! (i div 8) = take 3 (to_le_bytes 4 b) ! (i div 8)"
      using assms(3) by (simp add: encode_i24_def)
    then have "to_le_bytes 4 a ! (i div 8) = to_le_bytes 4 b ! (i div 8)" using j by simp
    then have "bit (to_le_bytes 4 a ! (i div 8)) (i mod 8) = bit (to_le_bytes 4 b ! (i div 8)) (i mod 8)"
      by simp
    then show ?thesis using j by (simp add: bit_to_le_bytes)
  qed
  show "bit a n = bit b n"
  proof (cases "n < 24")
    case True
    then show ?thesis by (rule low)
  next
    case False
    then have "bit a n = bit a 23" "bit b n = bit b 23" using n
      axis_ok_bits [THEN iffD1, OF assms(1), rule_format, of n]
      axis_ok_bits [THEN iffD1, OF assms(2), rule_format, of n] by simp_all
    then show ?thesis using low [of 23] by simp
  qed
qed

lemma decode_i24_iff:
  "length s = 3 \<Longrightarrow> decode_i24 s = Ok a \<longleftrightarrow> axis_ok a \<and> encode_i24 a = s"
  using decode_i24_Ok [of s] encode_i24_inject by fastforce

lemma decode_encode_i24 [simp]: "axis_ok a \<Longrightarrow> decode_i24 (encode_i24 a) = Ok a"
  by (simp add: decode_i24_iff)

definition axes_ok :: "SampleAxes \<Rightarrow> bool" where
  "axes_ok s \<longleftrightarrow> axis_ok (sa_x s) \<and> axis_ok (sa_y s) \<and> axis_ok (sa_z s)"

definition sample_bytes :: "SampleAxes \<Rightarrow> bytes" where
  "sample_bytes s = encode_i24 (sa_x s) @ encode_i24 (sa_y s) @ encode_i24 (sa_z s)"

lemma length_sample_bytes [simp]: "length (sample_bytes s) = 9"
  by (simp add: sample_bytes_def)

lemma length_samples_bytes [simp]: "length (concat (map sample_bytes ss)) = length ss * 9"
  by (induction ss) auto

text \<open>The two sample loops, over the bytes that start at sample \<open>i\<close>.\<close>

lemma encode_samples_ok:
  assumes "CHUNK_FIXED_BYTES + i * 9 + length ss * 9 \<le> length out"
  shows "encode_samples i ss out =
    Ok (take (CHUNK_FIXED_BYTES + i * 9) out @ concat (map sample_bytes ss) @
        drop (CHUNK_FIXED_BYTES + i * 9 + length ss * 9) out)"
  using assms
proof (induction ss arbitrary: i out)
  case Nil
  then show ?case by simp
next
  case (Cons x ss)
  let ?o = "CHUNK_FIXED_BYTES + i * 9"
  have c: "contiguous ?o (?o + 9) (sample_fields i x)"
    by (simp add: sample_fields_def Let_def)
  have "concat (map (\<lambda>(a, b, src). src) (sample_fields i x)) = sample_bytes x"
    by (simp add: sample_fields_def Let_def sample_bytes_def)
  then have "copy_fields (sample_fields i x) out =
      (Ok (take ?o out @ sample_bytes x @ drop (?o + 9) out) :: (bytes, MeasurementWireError) result)"
    using copy_fields_contiguous [OF c, of out] Cons.prems by simp
  moreover have "encode_samples (i + 1) ss (take ?o out @ sample_bytes x @ drop (?o + 9) out) =
      Ok (take ?o out @ sample_bytes x @ concat (map sample_bytes ss) @ drop (?o + 9 + length ss * 9) out)"
    using Cons.prems by (subst Cons.IH) (auto simp: ac_simps)
  ultimately show ?case by (simp add: ac_simps)
qed

lemma decode_samples_iff:
  assumes "CHUNK_FIXED_BYTES + i * 9 + n * 9 \<le> length p"
  shows "decode_samples p i n = Ok ss \<longleftrightarrow> length ss = n \<and> (\<forall>x\<in>set ss. axes_ok x) \<and>
    sub (CHUNK_FIXED_BYTES + i * 9) (CHUNK_FIXED_BYTES + i * 9 + n * 9) p = concat (map sample_bytes ss)"
  using assms
proof (induction n arbitrary: i ss)
  case 0
  then show ?case by (auto simp: slices)
next
  case (Suc n)
  obtain off where o: "off = CHUNK_FIXED_BYTES + i * 9" by blast
  have o': "CHUNK_FIXED_BYTES + (i + 1) * 9 = off + 9" by (simp add: o)
  have len: "off + 9 + n * 9 \<le> length p" using Suc.prems by (simp add: o)
  have IH: "decode_samples p (i + 1) n = Ok rest \<longleftrightarrow> length rest = n \<and> (\<forall>x\<in>set rest. axes_ok x) \<and>
      sub (off + 9) (off + 9 + n * 9) p = concat (map sample_bytes rest)" for rest
    using Suc.IH [of "i + 1" rest] len unfolding o' by simp
  have split: "sub off (off + Suc n * 9) p =
      sub off (off + 3) p @ sub (off + 3) (off + 6) p @ sub (off + 6) (off + 9) p @
      sub (off + 9) (off + 9 + n * 9) p"
    by (simp add: joins ac_simps)
  have d: "decode_samples p i (Suc n) = Ok ss \<longleftrightarrow>
      (\<exists>x y z rest. axis_ok x \<and> encode_i24 x = sub off (off + 3) p \<and> axis_ok y \<and>
         encode_i24 y = sub (off + 3) (off + 6) p \<and> axis_ok z \<and> encode_i24 z = sub (off + 6) (off + 9) p \<and>
         decode_samples p (i + 1) n = Ok rest \<and> ss = \<lparr>sa_x = x, sa_y = y, sa_z = z\<rparr> # rest)"
    using len by (auto simp: o [symmetric] Let_def result_iffs decode_i24_iff)
  show ?case
    unfolding d IH o [symmetric] split
  proof
    assume "\<exists>x y z rest. axis_ok x \<and> encode_i24 x = sub off (off + 3) p \<and> axis_ok y \<and>
         encode_i24 y = sub (off + 3) (off + 6) p \<and> axis_ok z \<and> encode_i24 z = sub (off + 6) (off + 9) p \<and>
         (length rest = n \<and> (\<forall>x\<in>set rest. axes_ok x) \<and>
          sub (off + 9) (off + 9 + n * 9) p = concat (map sample_bytes rest)) \<and>
         ss = \<lparr>sa_x = x, sa_y = y, sa_z = z\<rparr> # rest"
    then show "length ss = Suc n \<and> (\<forall>x\<in>set ss. axes_ok x) \<and>
        sub off (off + 3) p @ sub (off + 3) (off + 6) p @ sub (off + 6) (off + 9) p @
        sub (off + 9) (off + 9 + n * 9) p = concat (map sample_bytes ss)"
      by (auto simp: axes_ok_def sample_bytes_def)
  next
    assume r: "length ss = Suc n \<and> (\<forall>x\<in>set ss. axes_ok x) \<and>
        sub off (off + 3) p @ sub (off + 3) (off + 6) p @ sub (off + 6) (off + 9) p @
        sub (off + 9) (off + 9 + n * 9) p = concat (map sample_bytes ss)"
    then obtain x rest where ss: "ss = x # rest" by (auto simp: length_Suc_conv)
    with r len show "\<exists>x y z rest. axis_ok x \<and> encode_i24 x = sub off (off + 3) p \<and> axis_ok y \<and>
         encode_i24 y = sub (off + 3) (off + 6) p \<and> axis_ok z \<and> encode_i24 z = sub (off + 6) (off + 9) p \<and>
         (length rest = n \<and> (\<forall>x\<in>set rest. axes_ok x) \<and>
          sub (off + 9) (off + 9 + n * 9) p = concat (map sample_bytes rest)) \<and>
         ss = \<lparr>sa_x = x, sa_y = y, sa_z = z\<rparr> # rest"
      by (intro exI [of _ "sa_x x"] exI [of _ "sa_y x"] exI [of _ "sa_z x"] exI [of _ rest])
        (simp add: axes_ok_def sample_bytes_def append_eq_append_conv)
  qed
qed

lemma decode_samples_no_panic:
  "CHUNK_FIXED_BYTES + i * 9 + n * 9 \<le> length p \<Longrightarrow> decode_samples p i n \<noteq> Panic"
proof (induction n arbitrary: i)
  case 0
  then show ?case by simp
next
  case (Suc n)
  have "decode_i24 s \<noteq> Panic" if "length s = 3" for s using decode_i24_Ok [OF that] by auto
  then show ?case using Suc.IH [of "i + 1"] Suc.prems by (auto simp: Let_def result_iffs)
qed

section \<open>Responses\<close>

definition timing_ok :: "u16 \<Rightarrow> TimingEvidence \<Rightarrow> bool" where
  "timing_ok n t \<longleftrightarrow> te_segment_id t \<noteq> 0 \<and> te_quality_flags t AND NOT KNOWN_TIMING_FLAGS = 0 \<and>
     te_first_device_time_us t \<le> te_last_device_time_us t \<and>
     (te_quality_flags t AND TIMING_VALID \<noteq> 0 \<longrightarrow>
        (n = 1 \<longrightarrow> te_last_device_time_us t = te_first_device_time_us t) \<and>
        (n > 1 \<longrightarrow> te_first_device_time_us t < te_last_device_time_us t))"

definition sample_chunk_ok :: "SampleChunk \<Rightarrow> bool" where
  "sample_chunk_ok c \<longleftrightarrow> chunk_header_ok (sc_header c) \<and> sc_config_revision c \<noteq> 0 \<and>
     length (sc_samples c) = unat (sch_sample_count (sc_header c)) \<and>
     length (sc_samples c) \<le> MAX_WIRE_CHUNK_SAMPLES \<and>
     timing_ok (sch_sample_count (sc_header c)) (sc_timing c)"

fun pull_response_ok :: "PullResponse \<Rightarrow> bool" where
  "pull_response_ok (PR_SampleChunk c) = (sample_chunk_ok c \<and> (\<forall>x\<in>set (sc_samples c). axes_ok x))"
| "pull_response_ok (PR_NoData s) = stream_state_ok s"
| "pull_response_ok (PR_RangeUnavailable s) = stream_state_ok s"
| "pull_response_ok (PR_StreamChanged e) = (e \<noteq> 0)"
| "pull_response_ok (PR_InvalidRelease s) = stream_state_ok s"
| "pull_response_ok (PR_Gap g) = gap_evidence_ok g"
| "pull_response_ok (PR_ContinuityBreak b) = break_evidence_ok b"

lemma timing_validate_Ok [result_iffs]: "timing_validate t n = Ok u \<longleftrightarrow> u = t \<and> timing_ok n t"
  by (auto simp: timing_validate_def timing_ok_def)

lemma timing_validate_no_panic [simp]: "timing_validate t n \<noteq> Panic"
  by (simp add: timing_validate_def)

lemma sample_chunk_validate_Ok [result_iffs]: "sample_chunk_validate c = Ok u \<longleftrightarrow> sample_chunk_ok c"
  by (auto simp: sample_chunk_validate_def sample_chunk_ok_def result_iffs)

lemma sample_chunk_validate_no_panic [simp]: "sample_chunk_validate c \<noteq> Panic"
  by (auto simp: sample_chunk_validate_def result_iffs)

definition chunk_bytes :: "SampleChunk \<Rightarrow> bytes" where
  "chunk_bytes c = concat (map (\<lambda>(a, b, src). src) (chunk_fields c)) @ concat (map sample_bytes (sc_samples c))"

definition gap_bytes :: "GapEvidence \<Rightarrow> bytes" where
  "gap_bytes g = to_le_bytes 8 (ge_boot_epoch g) @ to_le_bytes 8 (ge_retained_from g) @
     to_le_bytes 8 (ge_produced g) @ to_le_bytes 8 (ge_first_missing g) @
     to_le_bytes 8 (ge_missing_count g) @
     [case ge_reason g of UnknownDiscontinuity \<Rightarrow> 0 | SourceLoss \<Rightarrow> 1 | _ \<Rightarrow> 2]"

definition break_bytes :: "ContinuityBreakEvidence \<Rightarrow> bytes" where
  "break_bytes b = to_le_bytes 8 (cbe_boot_epoch b) @ to_le_bytes 8 (cbe_retained_from b) @
     to_le_bytes 8 (cbe_produced b) @ to_le_bytes 8 (cbe_at b) @ [break_reason_code (cbe_reason b)]"

text \<open>The payload of a response: status, result code, fields.\<close>

fun pull_payload :: "PullResponse \<Rightarrow> bytes" where
  "pull_payload (PR_SampleChunk c) = 0 # 0 # chunk_bytes c"
| "pull_payload (PR_NoData s) = 0 # 1 # stream_state_bytes s"
| "pull_payload (PR_RangeUnavailable s) = 0 # 2 # stream_state_bytes s"
| "pull_payload (PR_StreamChanged e) = 0 # 3 # to_le_bytes 8 e"
| "pull_payload (PR_InvalidRelease s) = 0 # 4 # stream_state_bytes s"
| "pull_payload (PR_Gap g) = 0 # 5 # gap_bytes g"
| "pull_payload (PR_ContinuityBreak b) = 0 # 6 # break_bytes b"

lemma length_chunk_bytes: "length (chunk_bytes c) = 64 + length (sc_samples c) * 9"
  by (simp add: chunk_bytes_def chunk_fields_def)

lemma drop_past_header: "drop (66 + n) (a # b # xs) = drop (64 + n) xs"
proof -
  have "66 + n = Suc (Suc (64 + n))" by simp
  then show ?thesis by (simp only: drop_Suc_Cons)
qed

lemma encode_chunk_ok:
  assumes "length out = 510" "length (sc_samples c) \<le> 49"
  shows "encode_chunk c (a # b # out) = Ok (a # b # chunk_bytes c @ drop (64 + length (sc_samples c) * 9) out)"
proof -
  let ?fs = "concat (map (\<lambda>(a, b, src). src) (chunk_fields c))"
  have "copy_fields (chunk_fields c) (a # b # out) =
      (Ok (a # b # ?fs @ drop 64 out) :: (bytes, MeasurementWireError) result)"
    using assms(1) by (subst copy_fields_layout) (simp_all add: chunk_fields_def)
  moreover have "length ?fs = 64" by (simp add: chunk_fields_def)
  moreover have "encode_samples 0 (sc_samples c) (a # b # ?fs @ drop 64 out) =
      Ok (a # b # ?fs @ concat (map sample_bytes (sc_samples c)) @ drop (64 + length (sc_samples c) * 9) out)"
    using assms \<open>length ?fs = 64\<close> by (subst encode_samples_ok) (auto simp: CHUNK_FIXED_BYTES_def drop_past_header ac_simps)
  ultimately show ?thesis by (simp add: encode_chunk_def chunk_bytes_def)
qed

lemma split_first_two:
  assumes "length out = 512"
  obtains a b rest where "out = a # b # rest" "length rest = 510"
proof -
  obtain a xs where "out = a # xs" "length xs = 511" using assms by (cases out) auto
  moreover obtain b rest where "xs = b # rest" "length rest = 510" using calculation(2) by (cases xs) auto
  ultimately show ?thesis using that by simp
qed

lemma encode_pull_response_ok:
  assumes "length out = MAX_PAYLOAD_BYTES" "pull_response_ok r"
  shows "encode_pull_response r out =
    (Ok (length (pull_payload r)), pull_payload r @ drop (length (pull_payload r)) out)"
proof -
  obtain a b rest where out: "out = a # b # rest" and l: "length rest = 510"
    using assms(1) by (auto simp: MAX_PAYLOAD_BYTES_def elim: split_first_two)
  show ?thesis
  proof (cases r)
    case (PR_SampleChunk c)
    then have "sample_chunk_validate c = Ok ()" "length (sc_samples c) \<le> 49"
      using assms(2) by (auto simp: result_iffs sample_chunk_ok_def measurement_sizes)
    then show ?thesis
      using l by (simp add: PR_SampleChunk encode_pull_response_def out encode_chunk_ok length_chunk_bytes
          CHUNK_FIXED_BYTES_def drop_past_header)
  next
    case (PR_Gap g)
    then have "gap_validate_structure g = Ok g" using assms(2) by (simp add: result_iffs)
    then show ?thesis
      using l assms(2) PR_Gap by (cases "ge_reason g")
        (simp_all add: encode_pull_response_def out encode_gap_def gap_bytes_def measurement_sizes
          gap_evidence_ok_def)
  next
    case (PR_ContinuityBreak v)
    then have "break_validate_structure v = Ok v" using assms(2) by (simp add: result_iffs)
    then show ?thesis
      using l PR_ContinuityBreak
      by (simp add: encode_pull_response_def out encode_continuity_break_def break_bytes_def measurement_sizes)
  next
    case (PR_StreamChanged e)
    then show ?thesis using l assms(2) by (simp add: encode_pull_response_def out)
  next
    case (PR_NoData s)
    then have "stream_state_validate s = Ok s" using assms(2) by (simp add: result_iffs)
    then show ?thesis
      using l PR_NoData by (simp add: encode_pull_response_def out encode_state_result_def stream_state_fields_def
          stream_state_bytes_def)
  next
    case (PR_RangeUnavailable s)
    then have "stream_state_validate s = Ok s" using assms(2) by (simp add: result_iffs)
    then show ?thesis
      using l PR_RangeUnavailable by (simp add: encode_pull_response_def out encode_state_result_def
          stream_state_fields_def stream_state_bytes_def)
  next
    case (PR_InvalidRelease s)
    then have "stream_state_validate s = Ok s" using assms(2) by (simp add: result_iffs)
    then show ?thesis
      using l PR_InvalidRelease by (simp add: encode_pull_response_def out encode_state_result_def
          stream_state_fields_def stream_state_bytes_def)
  qed
qed

text \<open>The decoders accept exactly the payloads of valid values.\<close>

lemma gap_reason_codes:
  "gap_reason_of v = Ok r \<longleftrightarrow>
     r \<noteq> JournalOverflow \<and> v = (case r of UnknownDiscontinuity \<Rightarrow> 0 | SourceLoss \<Rightarrow> 1 | _ \<Rightarrow> 2)"
  "gap_reason_of v \<noteq> Panic"
  by (auto simp: gap_reason_of_def split: GapReason.splits)

lemma decode_gap_iff: "decode_gap (a # b # p) = Ok g \<longleftrightarrow> gap_evidence_ok g \<and> p = gap_bytes g"
proof
  assume "decode_gap (a # b # p) = Ok g"
  then show "gap_evidence_ok g \<and> p = gap_bytes g"
    using snoc_sub [of p 40]
    by (auto simp: decode_gap_def measurement_sizes read_defs result_iffs require_length_def gap_bytes_def
        gap_reason_codes to_from_le_bytes slices joins split: if_splits)
next
  assume g: "gap_evidence_ok g \<and> p = gap_bytes g"
  then have "gap_reason_of (case ge_reason g of UnknownDiscontinuity \<Rightarrow> 0 | SourceLoss \<Rightarrow> 1 | _ \<Rightarrow> 2) =
      Ok (ge_reason g)"
    by (simp add: gap_reason_codes gap_evidence_ok_def)
  with g show "decode_gap (a # b # p) = Ok g"
    by (simp add: decode_gap_def measurement_sizes read_defs require_length_def gap_bytes_def slices
        result_iffs gap_evidence_ok_def nth_append)
qed

lemma decode_continuity_break_iff:
  "decode_continuity_break (a # b # p) = Ok v \<longleftrightarrow> break_evidence_ok v \<and> p = break_bytes v"
proof
  assume "decode_continuity_break (a # b # p) = Ok v"
  then show "break_evidence_ok v \<and> p = break_bytes v"
    using snoc_sub [of p 32]
    by (auto simp: decode_continuity_break_def measurement_sizes read_defs result_iffs require_length_def
        break_bytes_def break_reason.of_code_iff to_from_le_bytes slices joins split: if_splits)
next
  assume "break_evidence_ok v \<and> p = break_bytes v"
  then show "decode_continuity_break (a # b # p) = Ok v"
    by (simp add: decode_continuity_break_def measurement_sizes read_defs require_length_def break_bytes_def
        slices result_iffs break_evidence_ok_def break_reason.of_to nth_append)
qed

lemma decode_state_result_iff:
  "decode_state_result (a # b # p) = Ok s \<longleftrightarrow> stream_state_ok s \<and> p = stream_state_bytes s"
  by (auto simp: decode_state_result_def result_iffs require_length_def slice_at_def sub_def)

lemma decode_samples_all:
  assumes "length p = 64 + n * 9"
  shows "decode_samples (a # b # p) 0 n = Ok ss \<longleftrightarrow> length ss = n \<and> (\<forall>x\<in>set ss. axes_ok x) \<and>
    drop 64 p = concat (map sample_bytes ss)"
proof -
  have "sub 66 (66 + n * 9) (a # b # p) = drop 64 p" using assms by (simp add: sub_def)
  then show ?thesis
    using decode_samples_iff [of 0 n "a # b # p" ss] assms by (simp add: CHUNK_FIXED_BYTES_def)
qed

lemma decode_chunk_iff:
  "decode_chunk (a # b # p) = Ok c \<longleftrightarrow>
     sample_chunk_ok c \<and> (\<forall>x\<in>set (sc_samples c). axes_ok x) \<and> p = chunk_bytes c"
proof
  assume d: "decode_chunk (a # b # p) = Ok c"
  have l: "length p = 64 + unat (sch_sample_count (sc_header c)) * 9" and v: "sample_chunk_ok c"
    and s: "decode_samples (a # b # p) 0 (unat (sch_sample_count (sc_header c))) = Ok (sc_samples c)"
    using d by (auto simp: decode_chunk_def CHUNK_FIXED_BYTES_def Let_def read_defs result_iffs
        require_length_def split: if_splits)
  have f: "concat (map (\<lambda>(a, b, src). src) (chunk_fields c)) = sub 0 64 p"
    using d l by (auto simp: decode_chunk_def CHUNK_FIXED_BYTES_def Let_def read_defs result_iffs slices
        chunk_fields_def to_from_le_bytes joins split: if_splits)
  have "p = sub 0 64 p @ drop 64 p" by (simp add: sub_def)
  then show "sample_chunk_ok c \<and> (\<forall>x\<in>set (sc_samples c). axes_ok x) \<and> p = chunk_bytes c"
    using v s f unfolding decode_samples_all [OF l] by (simp add: chunk_bytes_def)
next
  assume c: "sample_chunk_ok c \<and> (\<forall>x\<in>set (sc_samples c). axes_ok x) \<and> p = chunk_bytes c"
  let ?n = "unat (sch_sample_count (sc_header c))"
  have l: "length p = 64 + ?n * 9" using c by (simp add: length_chunk_bytes sample_chunk_ok_def)
  have "length (concat (map (\<lambda>(a, b, src). src) (chunk_fields c))) = 64" by (simp add: chunk_fields_def)
  then have "drop 64 p = concat (map sample_bytes (sc_samples c))" using c by (simp add: chunk_bytes_def)
  then have s: "decode_samples (a # b # p) 0 ?n = Ok (sc_samples c)"
    using c unfolding decode_samples_all [OF l] by (simp add: sample_chunk_ok_def)
  have p: "p = concat (map (\<lambda>(a, b, src). src) (chunk_fields c)) @ concat (map sample_bytes (sc_samples c))"
    using c by (simp add: chunk_bytes_def)
  have r: "sub 0 8 p = to_le_bytes 8 (sch_boot_epoch (sc_header c))"
    "sub 8 16 p = to_le_bytes 8 (sch_retained_from (sc_header c))"
    "sub 16 24 p = to_le_bytes 8 (sch_produced (sc_header c))"
    "sub 24 32 p = to_le_bytes 8 (sch_first (sc_header c))"
    "sub 32 34 p = to_le_bytes 2 (sch_sample_count (sc_header c))"
    "sub 34 38 p = to_le_bytes 4 (sc_config_revision c)"
    "sub 38 42 p = to_le_bytes 4 (te_segment_id (sc_timing c))"
    "sub 42 50 p = to_le_bytes 8 (te_first_device_time_us (sc_timing c))"
    "sub 50 58 p = to_le_bytes 8 (te_last_device_time_us (sc_timing c))"
    "sub 58 62 p = to_le_bytes 4 (te_max_fit_residual_us (sc_timing c))"
    "sub 62 64 p = to_le_bytes 2 (te_quality_flags (sc_timing c))"
    unfolding p by (simp_all add: chunk_fields_def slices)
  show "decode_chunk (a # b # p) = Ok c"
    using l s c [THEN conjunct1]
    by (simp add: decode_chunk_def CHUNK_FIXED_BYTES_def Let_def read_defs require_length_def slices r
        sample_chunk_validate_Ok and_then_eq_Ok sample_chunk_ok_def chunk_header_ok_def timing_ok_def)
qed

lemma decode_pull_fields_iff:
  "decode_pull_fields code (0 # pull_result_code code # p) = Ok r \<longleftrightarrow>
     pull_response_ok r \<and> pull_payload r = 0 # pull_result_code code # p"
proof (cases code)
  case PRC_StreamChanged
  then have "decode_pull_fields code (0 # 3 # p) = Ok r \<longleftrightarrow>
      (\<exists>x. x \<noteq> 0 \<and> r = PR_StreamChanged x \<and> p = to_le_bytes 8 x)"
    by (auto simp: decode_pull_fields_def result_iffs read_defs slices to_from_le_bytes joins
        require_length_def split: if_splits)
  then show ?thesis using PRC_StreamChanged by (cases r) auto
qed (cases r; auto simp: decode_pull_fields_def result_iffs decode_chunk_iff decode_gap_iff
    decode_state_result_iff decode_continuity_break_iff)+

lemma pull_payload_shape: "\<exists>code p. pull_payload r = 0 # pull_result_code code # p"
  by (cases r) (auto intro: exI [of _ PRC_SampleChunk] exI [of _ PRC_NoData] exI [of _ PRC_RangeUnavailable]
      exI [of _ PRC_StreamChanged] exI [of _ PRC_InvalidRelease] exI [of _ PRC_Gap]
      exI [of _ PRC_ContinuityBreak])

lemma decode_pull_response_eq:
  "decode_pull_response bs = Ok r \<longleftrightarrow>
     (\<exists>code p. bs = 0 # pull_result_code code # p \<and> decode_pull_fields code bs = Ok r)"
  by (cases bs; cases "tl bs")
    (auto simp: decode_pull_response_def decode_ok_status_def result_iffs pull_result.of_code_iff
      pull_result.to_code_inject)

lemma decode_pull_response_iff:
  "decode_pull_response bs = Ok r \<longleftrightarrow> pull_response_ok r \<and> bs = pull_payload r"
  unfolding decode_pull_response_eq using decode_pull_fields_iff pull_payload_shape [of r] by metis

lemma decode_pull_response_no_panic: "decode_pull_response bs \<noteq> Panic"
proof -
  have ns: "length bs = 66 + n * 9 \<Longrightarrow> decode_samples bs 0 n \<noteq> Panic" for n
    using decode_samples_no_panic [of 0 n bs] by (simp add: CHUNK_FIXED_BYTES_def)
  have "decode_pull_fields code bs \<noteq> Panic" if "2 \<le> length bs" for code
    using that
    by (cases code) (auto simp: decode_pull_fields_def result_iffs read_defs require_length_def decode_gap_def
        decode_continuity_break_def decode_state_result_def decode_chunk_def Let_def measurement_sizes
        gap_reason_codes break_reason.no_panic dest: ns)
  then show ?thesis
    by (auto simp: decode_pull_response_def decode_ok_status_def result_iffs pull_result.no_panic not_less)
qed

text \<open>The bytes a node sends for a response, from a zeroed buffer.\<close>

definition pull_response_bytes :: "PullResponse \<Rightarrow> (bytes, MeasurementWireError) result" where
  "pull_response_bytes r =
     (case encode_pull_response r (replicate MAX_PAYLOAD_BYTES 0) of
        (Ok n, out) \<Rightarrow> Ok (take n out) | (Err e, out) \<Rightarrow> Err e | (Panic, out) \<Rightarrow> Panic)"

lemma pull_response_bytes_ok: "pull_response_ok r \<Longrightarrow> pull_response_bytes r = Ok (pull_payload r)"
  by (simp add: pull_response_bytes_def encode_pull_response_ok)

interpretation pull_response: codec pull_response_bytes decode_pull_response pull_response_ok
  by unfold_locales
    (auto simp: pull_response_bytes_ok decode_pull_response_iff decode_pull_response_no_panic)

text \<open>C26. Pull responses: every valid response is written without a panic into the payload buffer,
  whatever it held before, within the framing limit, and decodes to itself; conversely every
  payload the host accepts is the encoding of a valid response, so no two payloads mean the same.\<close>

theorem pull_response_round_trip:
  assumes "pull_response_ok r" "length out = MAX_PAYLOAD_BYTES"
  shows "\<exists>n out'. encode_pull_response r out = (Ok n, out') \<and> n \<le> MAX_PAYLOAD_BYTES \<and>
    length out' = MAX_PAYLOAD_BYTES \<and> decode_pull_response (take n out') = Ok r \<and>
    (\<forall>bs. decode_pull_response bs = Ok r \<longleftrightarrow> bs = take n out')"
proof -
  have "length (pull_payload r) \<le> MAX_PAYLOAD_BYTES"
    using assms(1) by (cases r) (auto simp: length_chunk_bytes sample_chunk_ok_def measurement_sizes
        gap_bytes_def break_bytes_def)
  then show ?thesis
    using assms by (simp add: encode_pull_response_ok decode_pull_response_iff)
qed

theorem pull_response_round_trip_witness:
  "\<exists>n out'. encode_pull_response (PR_SampleChunk \<lparr>
       sc_header = \<lparr>sch_boot_epoch = 9, sch_retained_from = 0, sch_produced = 10, sch_first = 4, sch_sample_count = 1\<rparr>,
       sc_config_revision = 1,
       sc_timing = \<lparr>te_segment_id = 1, te_first_device_time_us = 5, te_last_device_time_us = 5,
         te_max_fit_residual_us = 0, te_quality_flags = 1\<rparr>,
       sc_samples = [\<lparr>sa_x = - 1, sa_y = 8388607, sa_z = - 8388608\<rparr>]\<rparr>) (replicate MAX_PAYLOAD_BYTES 7) = (Ok n, out')"
  using pull_response_round_trip [of "PR_SampleChunk \<lparr>
       sc_header = \<lparr>sch_boot_epoch = 9, sch_retained_from = 0, sch_produced = 10, sch_first = 4, sch_sample_count = 1\<rparr>,
       sc_config_revision = 1,
       sc_timing = \<lparr>te_segment_id = 1, te_first_device_time_us = 5, te_last_device_time_us = 5,
         te_max_fit_residual_us = 0, te_quality_flags = 1\<rparr>,
       sc_samples = [\<lparr>sa_x = - 1, sa_y = 8388607, sa_z = - 8388608\<rparr>]\<rparr>" "replicate MAX_PAYLOAD_BYTES 7"]
  by (auto simp: sample_chunk_ok_def chunk_header_ok_def timing_ok_def axes_ok_def axis_ok_def
      SAMPLE_AXIS_MIN_def SAMPLE_AXIS_MAX_def measurement_sizes KNOWN_TIMING_FLAGS_def TIMING_VALID_def
      TIMING_ESTIMATED_def TIMING_SENSOR_LOSS_NEARBY_def TIMING_DRDY_RING_OVERFLOW_def TIMING_BINDING_MISMATCH_def)

end
