(* ===== verification/Protocol_Identity.thy ===== *)
theory Protocol_Identity
  imports Protocol_Measurement_Wire
begin

text \<open>
  Node identity and capabilities (\<^verbatim>\<open>sensor-protocol/src/identity.rs\<close>): the two responses of the
  identity service, their validation, and the output-rate codes of the capability bitmap.
\<close>

definition IDENTITY_RESPONSE_BYTES :: nat where "IDENTITY_RESPONSE_BYTES = 24"
definition CAPABILITIES_RESPONSE_BYTES :: nat where "CAPABILITIES_RESPONSE_BYTES = 24"
definition CAPABILITIES_SCHEMA_VERSION :: u8 where "CAPABILITIES_SCHEMA_VERSION = 2"
definition KNOWN_OUTPUT_RATE_MASK :: u16 where "KNOWN_OUTPUT_RATE_MASK = 0x07ff"
definition IMPLEMENTED_OUTPUT_RATE_MASK :: u16 where "IMPLEMENTED_OUTPUT_RATE_MASK = 0x007e"
definition KNOWN_SERVICE_FLAGS :: u32 where "KNOWN_SERVICE_FLAGS = 0x000001ff"
definition XYZ_I24_WIRE_SAMPLE_BYTES :: nat where "XYZ_I24_WIRE_SAMPLE_BYTES = 9"

definition FEATURE_SAMPLE_JOURNAL :: u64 where "FEATURE_SAMPLE_JOURNAL = 1"
definition FEATURE_DRDY_TIMESTAMPS :: u64 where "FEATURE_DRDY_TIMESTAMPS = 2"
definition FEATURE_ATOMIC_CONFIG :: u64 where "FEATURE_ATOMIC_CONFIG = 4"
definition FEATURE_TRIAL_BOOT_CONFIRMATION :: u64 where "FEATURE_TRIAL_BOOT_CONFIRMATION = 8"
definition FEATURE_REMOTE_FIRMWARE_UPDATE :: u64 where "FEATURE_REMOTE_FIRMWARE_UPDATE = 16"
definition KNOWN_FEATURE_FLAGS :: u64 where
  "KNOWN_FEATURE_FLAGS = FEATURE_SAMPLE_JOURNAL OR FEATURE_DRDY_TIMESTAMPS OR FEATURE_ATOMIC_CONFIG OR
     FEATURE_TRIAL_BOOT_CONFIRMATION OR FEATURE_REMOTE_FIRMWARE_UPDATE"

lemmas feature_defs = FEATURE_SAMPLE_JOURNAL_def FEATURE_DRDY_TIMESTAMPS_def FEATURE_ATOMIC_CONFIG_def
  FEATURE_TRIAL_BOOT_CONFIRMATION_def FEATURE_REMOTE_FIRMWARE_UPDATE_def KNOWN_FEATURE_FLAGS_def
  KNOWN_SERVICE_FLAGS_def KNOWN_OUTPUT_RATE_MASK_def CAPABILITIES_SCHEMA_VERSION_def

section \<open>Output rates\<close>

datatype OutputRateCode =
  Rate_Hz4000 | Rate_Hz2000 | Rate_Hz1000 | Rate_Hz500 | Rate_Hz250 | Rate_Hz125 | Rate_Hz62_5
| Rate_Hz31_25 | Rate_Hz15_625 | Rate_Hz7_8125 | Rate_Hz3_90625

fun output_rate_code :: "OutputRateCode \<Rightarrow> u8" where
  "output_rate_code Rate_Hz4000 = 0"
| "output_rate_code Rate_Hz2000 = 1"
| "output_rate_code Rate_Hz1000 = 2"
| "output_rate_code Rate_Hz500 = 3"
| "output_rate_code Rate_Hz250 = 4"
| "output_rate_code Rate_Hz125 = 5"
| "output_rate_code Rate_Hz62_5 = 6"
| "output_rate_code Rate_Hz31_25 = 7"
| "output_rate_code Rate_Hz15_625 = 8"
| "output_rate_code Rate_Hz7_8125 = 9"
| "output_rate_code Rate_Hz3_90625 = 10"

definition rate_capability_bit :: "OutputRateCode \<Rightarrow> u16" where
  "rate_capability_bit self = push_bit (unat (output_rate_code self)) 1"

fun output_rate_sample_rate :: "OutputRateCode \<Rightarrow> SampleRate" where
  "output_rate_sample_rate Rate_Hz4000 = HZ_4000"
| "output_rate_sample_rate Rate_Hz2000 = HZ_2000"
| "output_rate_sample_rate Rate_Hz1000 = HZ_1000"
| "output_rate_sample_rate Rate_Hz500 = HZ_500"
| "output_rate_sample_rate Rate_Hz250 = HZ_250"
| "output_rate_sample_rate Rate_Hz125 = HZ_125"
| "output_rate_sample_rate Rate_Hz62_5 = HZ_62_5"
| "output_rate_sample_rate Rate_Hz31_25 = HZ_31_25"
| "output_rate_sample_rate Rate_Hz15_625 = HZ_15_625"
| "output_rate_sample_rate Rate_Hz7_8125 = HZ_7_8125"
| "output_rate_sample_rate Rate_Hz3_90625 = HZ_3_90625"

definition output_rate_from_wire :: "u8 \<Rightarrow> OutputRateCode option" where
  "output_rate_from_wire v =
     (if v = 0 then Some Rate_Hz4000 else if v = 1 then Some Rate_Hz2000
      else if v = 2 then Some Rate_Hz1000 else if v = 3 then Some Rate_Hz500
      else if v = 4 then Some Rate_Hz250 else if v = 5 then Some Rate_Hz125
      else if v = 6 then Some Rate_Hz62_5 else if v = 7 then Some Rate_Hz31_25
      else if v = 8 then Some Rate_Hz15_625 else if v = 9 then Some Rate_Hz7_8125
      else if v = 10 then Some Rate_Hz3_90625 else None)"

interpretation output_rate: option_code output_rate_code output_rate_from_wire "\<lambda>v. v"
proof
  show "output_rate_from_wire (output_rate_code r) = Some r" for r
    by (cases r) (simp_all add: output_rate_from_wire_def)
qed (auto simp: output_rate_from_wire_def split: if_splits)

lemma rate_capability_bit_known: "rate_capability_bit r AND NOT KNOWN_OUTPUT_RATE_MASK = 0"
  by (cases r) (simp_all add: rate_capability_bit_def KNOWN_OUTPUT_RATE_MASK_def)

section \<open>Identity\<close>

datatype IdentityContractError =
  ICE_InvalidPayloadLength | ICE_UnknownResponseStatus u8 | ICE_RemoteError ResponseStatus
| ICE_ZeroBootEpoch | ICE_InvalidNodeAddress | ICE_InvalidBoardRevision | ICE_ProtocolMismatch
| ICE_UnsupportedCapabilitiesSchema | ICE_InvalidMaxPayload | ICE_UnknownServiceBits
| ICE_MissingIdentityService | ICE_UnknownFeatureBits | ICE_InvalidFeatureCombination
| ICE_UnknownOutputRateBits | ICE_IncompleteMeasurementCapabilities | ICE_InvalidMaxSampleChunk

record FirmwareVersion =
  fw_major :: u8
  fw_minor :: u8
  fw_patch :: u8

record NodeIdentity =
  ni_hardware_id :: HardwareId
  ni_boot_epoch :: BootEpoch
  ni_node_address :: u8
  ni_board_revision :: u8
  ni_firmware :: FirmwareVersion
  ni_protocol :: ProtocolVersion

definition identity_decode_status :: "bytes \<Rightarrow> (ResponseStatus, IdentityContractError) result" where
  "identity_decode_status payload =
     and_then (ok_or (case payload of [] \<Rightarrow> None | v # _ \<Rightarrow> Some v) ICE_InvalidPayloadLength) (\<lambda>v.
       map_err (\<lambda>_. ICE_UnknownResponseStatus v) (response_status_try_from v))"

definition identity_validate :: "NodeIdentity \<Rightarrow> (NodeIdentity, IdentityContractError) result" where
  "identity_validate self =
     (if ni_boot_epoch self = 0 then Err ICE_ZeroBootEpoch
      else if \<not> (1 \<le> ni_node_address self \<and> ni_node_address self \<le> 253) then Err ICE_InvalidNodeAddress
      else if ni_board_revision self = 0 then Err ICE_InvalidBoardRevision
      else Ok self)"

definition identity_encode_success :: "NodeIdentity \<Rightarrow> (bytes, IdentityContractError) result" where
  "identity_encode_success self =
     and_then (identity_validate self) (\<lambda>_.
       copy_fields
         [(0, 1, [response_status_code RS_Ok]), (1, 9, hardware_id_bytes (ni_hardware_id self)),
          (9, 17, to_le_bytes 8 (ni_boot_epoch self)), (17, 18, [ni_node_address self]),
          (18, 19, [ni_board_revision self]), (19, 20, [fw_major (ni_firmware self)]),
          (20, 21, [fw_minor (ni_firmware self)]), (21, 22, [fw_patch (ni_firmware self)]),
          (22, 23, [pv_framing (ni_protocol self)]), (23, 24, [pv_application (ni_protocol self)])]
         (replicate IDENTITY_RESPONSE_BYTES 0))"

definition identity_decode :: "bytes \<Rightarrow> (NodeIdentity, IdentityContractError) result" where
  "identity_decode payload =
     and_then (identity_decode_status payload) (\<lambda>status.
       if status \<noteq> RS_Ok then Err (ICE_RemoteError status)
       else if length payload \<noteq> IDENTITY_RESPONSE_BYTES then Err ICE_InvalidPayloadLength
       else and_then (slice_at payload 1 9) (\<lambda>hw. and_then (hardware_id_from_bytes hw) (\<lambda>hardware_id.
            and_then (read_u64 payload 9) (\<lambda>boot_epoch.
            and_then (index_at payload 17) (\<lambda>node_address.
            and_then (index_at payload 18) (\<lambda>board_revision.
            and_then (index_at payload 19) (\<lambda>major.
            and_then (index_at payload 20) (\<lambda>minor.
            and_then (index_at payload 21) (\<lambda>patch.
            and_then (index_at payload 22) (\<lambda>framing.
            and_then (index_at payload 23) (\<lambda>application.
            let identity = \<lparr>ni_hardware_id = hardware_id, ni_boot_epoch = boot_epoch,
                 ni_node_address = node_address, ni_board_revision = board_revision,
                 ni_firmware = \<lparr>fw_major = major, fw_minor = minor, fw_patch = patch\<rparr>,
                 ni_protocol = \<lparr>pv_framing = framing, pv_application = application\<rparr>\<rparr>
            in and_then (identity_validate identity) (\<lambda>_. Ok identity))))))))))))"

definition require_local_protocol :: "NodeIdentity \<Rightarrow> (NodeIdentity, IdentityContractError) result" where
  "require_local_protocol self =
     and_then (map_err (\<lambda>_. ICE_ProtocolMismatch)
                 (check_compatible LOCAL_PROTOCOL_VERSION (ni_protocol self))) (\<lambda>_. Ok self)"

section \<open>Capabilities\<close>

record NodeCapabilities =
  nc_schema_version :: u8
  nc_service_flags :: u32
  nc_feature_flags :: u64
  nc_max_payload_bytes :: u16
  nc_journal_capacity_samples :: u32
  nc_output_rate_mask :: u16
  nc_max_sample_chunk_samples :: u16

definition supports_service :: "NodeCapabilities \<Rightarrow> ServiceId \<Rightarrow> bool" where
  "supports_service self service \<longleftrightarrow> nc_service_flags self AND service_capability_bit service \<noteq> 0"

definition supports_output_rate :: "NodeCapabilities \<Rightarrow> OutputRateCode \<Rightarrow> bool" where
  "supports_output_rate self rate \<longleftrightarrow> nc_output_rate_mask self AND rate_capability_bit rate \<noteq> 0"

definition validate_payload_contract ::
  "NodeCapabilities \<Rightarrow> bool \<Rightarrow> (NodeCapabilities, IdentityContractError) result" where
  "validate_payload_contract self require_update_feature_pair =
     (if nc_max_payload_bytes self = 0 \<or> unat (nc_max_payload_bytes self) > MAX_PAYLOAD_BYTES
      then Err ICE_InvalidMaxPayload
      else if nc_service_flags self AND NOT KNOWN_SERVICE_FLAGS \<noteq> 0 then Err ICE_UnknownServiceBits
      else if \<not> supports_service self SID_Identity then Err ICE_MissingIdentityService
      else if nc_feature_flags self AND NOT KNOWN_FEATURE_FLAGS \<noteq> 0 then Err ICE_UnknownFeatureBits
      else let trial_confirmation = (nc_feature_flags self AND FEATURE_TRIAL_BOOT_CONFIRMATION \<noteq> 0);
               remote_update = (nc_feature_flags self AND FEATURE_REMOTE_FIRMWARE_UPDATE \<noteq> 0) in
      if require_update_feature_pair \<and> trial_confirmation \<noteq> remote_update
      then Err ICE_InvalidFeatureCombination
      else if nc_output_rate_mask self AND NOT KNOWN_OUTPUT_RATE_MASK \<noteq> 0
      then Err ICE_UnknownOutputRateBits
      else if supports_service self SID_Measurement \<and>
              (nc_feature_flags self AND FEATURE_SAMPLE_JOURNAL = 0 \<or>
               nc_journal_capacity_samples self = 0 \<or> nc_output_rate_mask self = 0 \<or>
               nc_max_sample_chunk_samples self = 0)
      then Err ICE_IncompleteMeasurementCapabilities
      else and_then (ok_or (usize_checked_add CHUNK_FIXED_BYTES
                       (usize_saturating_mul (unat (nc_max_sample_chunk_samples self))
                          XYZ_I24_WIRE_SAMPLE_BYTES)) ICE_InvalidMaxSampleChunk) (\<lambda>chunk_bytes.
        if supports_service self SID_Measurement \<and>
           (unat (nc_max_sample_chunk_samples self) > MAX_WIRE_CHUNK_SAMPLES \<or>
            (ucast (nc_max_sample_chunk_samples self) :: u32) > nc_journal_capacity_samples self \<or>
            chunk_bytes > unat (nc_max_payload_bytes self))
        then Err ICE_InvalidMaxSampleChunk
        else Ok self))"

definition capabilities_validate :: "NodeCapabilities \<Rightarrow> (NodeCapabilities, IdentityContractError) result" where
  "capabilities_validate self =
     (if nc_schema_version self \<noteq> CAPABILITIES_SCHEMA_VERSION then Err ICE_UnsupportedCapabilitiesSchema
      else validate_payload_contract self True)"

definition capabilities_encode_success :: "NodeCapabilities \<Rightarrow> (bytes, IdentityContractError) result" where
  "capabilities_encode_success self =
     and_then (capabilities_validate self) (\<lambda>_.
       copy_fields
         [(0, 1, [response_status_code RS_Ok]), (1, 2, [nc_schema_version self]),
          (2, 6, to_le_bytes 4 (nc_service_flags self)), (6, 14, to_le_bytes 8 (nc_feature_flags self)),
          (14, 16, to_le_bytes 2 (nc_max_payload_bytes self)),
          (16, 20, to_le_bytes 4 (nc_journal_capacity_samples self)),
          (20, 22, to_le_bytes 2 (nc_output_rate_mask self)),
          (22, 24, to_le_bytes 2 (nc_max_sample_chunk_samples self))]
         (replicate CAPABILITIES_RESPONSE_BYTES 0))"

definition capabilities_decode_fields :: "bytes \<Rightarrow> (NodeCapabilities, IdentityContractError) result" where
  "capabilities_decode_fields payload =
     and_then (identity_decode_status payload) (\<lambda>status.
       if status \<noteq> RS_Ok then Err (ICE_RemoteError status)
       else if length payload \<noteq> CAPABILITIES_RESPONSE_BYTES then Err ICE_InvalidPayloadLength
       else and_then (index_at payload 1) (\<lambda>schema_version.
            and_then (read_u32 payload 2) (\<lambda>service_flags.
            and_then (read_u64 payload 6) (\<lambda>feature_flags.
            and_then (read_u16 payload 14) (\<lambda>max_payload_bytes.
            and_then (read_u32 payload 16) (\<lambda>journal_capacity_samples.
            and_then (read_u16 payload 20) (\<lambda>output_rate_mask.
            and_then (read_u16 payload 22) (\<lambda>max_sample_chunk_samples.
              Ok \<lparr>nc_schema_version = schema_version, nc_service_flags = service_flags,
                  nc_feature_flags = feature_flags, nc_max_payload_bytes = max_payload_bytes,
                  nc_journal_capacity_samples = journal_capacity_samples,
                  nc_output_rate_mask = output_rate_mask,
                  nc_max_sample_chunk_samples = max_sample_chunk_samples\<rparr>))))))))"

definition capabilities_decode :: "bytes \<Rightarrow> (NodeCapabilities, IdentityContractError) result" where
  "capabilities_decode payload = and_then (capabilities_decode_fields payload) capabilities_validate"

definition decode_schema_1_for_migration :: "bytes \<Rightarrow> (NodeCapabilities, IdentityContractError) result" where
  "decode_schema_1_for_migration payload =
     and_then (capabilities_decode_fields payload) (\<lambda>capabilities.
       if nc_schema_version capabilities \<noteq> 1 then Err ICE_UnsupportedCapabilitiesSchema
       else validate_payload_contract capabilities False)"

section \<open>Both responses are strict codecs\<close>

definition identity_ok :: "NodeIdentity \<Rightarrow> bool" where
  "identity_ok i \<longleftrightarrow> ni_boot_epoch i \<noteq> 0 \<and> 1 \<le> ni_node_address i \<and> ni_node_address i \<le> 253 \<and>
     ni_board_revision i \<noteq> 0"

lemma identity_validate_Ok [result_iffs]: "identity_validate i = Ok j \<longleftrightarrow> j = i \<and> identity_ok i"
  by (auto simp: identity_validate_def identity_ok_def)

lemma identity_validate_no_panic [simp]: "identity_validate i \<noteq> Panic"
  by (simp add: identity_validate_def)

lemma identity_decode_status_Ok [simp]:
  "identity_decode_status payload = Ok s \<longleftrightarrow> payload \<noteq> [] \<and> hd payload = response_status_code s"
  by (cases payload) (auto simp: identity_decode_status_def result_iffs response_status.of_code_iff)

lemma identity_decode_status_no_panic [simp]: "identity_decode_status payload \<noteq> Panic"
  by (auto simp: identity_decode_status_def result_iffs response_status.no_panic)

definition identity_payload :: "NodeIdentity \<Rightarrow> bytes" where
  "identity_payload i = 0 # hardware_id_bytes (ni_hardware_id i) @ to_le_bytes 8 (ni_boot_epoch i) @
     [ni_node_address i, ni_board_revision i, fw_major (ni_firmware i), fw_minor (ni_firmware i),
      fw_patch (ni_firmware i), pv_framing (ni_protocol i), pv_application (ni_protocol i)]"

lemma identity_encode_eq:
  "identity_encode_success i = and_then (identity_validate i) (\<lambda>_. Ok (identity_payload i))"
  by (simp add: identity_encode_success_def identity_payload_def IDENTITY_RESPONSE_BYTES_def)

lemma identity_decode_iff: "identity_decode bs = Ok i \<longleftrightarrow> identity_ok i \<and> bs = identity_payload i"
proof
  assume "identity_decode bs = Ok i"
  then show "identity_ok i \<and> bs = identity_payload i"
    by (cases bs) (auto simp: identity_decode_def IDENTITY_RESPONSE_BYTES_def Let_def read_defs result_iffs
        identity_payload_def to_from_le_bytes slices joins sub_snoc dest!: hardware_id_from_bytes_Ok
        split: if_splits)
next
  assume "identity_ok i \<and> bs = identity_payload i"
  then show "identity_decode bs = Ok i"
    by (simp add: identity_decode_def IDENTITY_RESPONSE_BYTES_def Let_def read_defs result_iffs
        identity_payload_def slices nth_append identity_ok_def)
qed

interpretation identity: strict_codec identity_encode_success identity_decode identity_ok
proof
  fix i bs
  show "\<exists>bs. identity_encode_success i = Ok bs" if "identity_ok i"
    using that by (auto simp: identity_encode_eq identity_validate_def identity_ok_def)
  show "identity_decode bs = Ok i" if "identity_ok i" "identity_encode_success i = Ok bs"
    using that by (auto simp: identity_encode_eq identity_decode_iff result_iffs)
  show "identity_ok i \<and> identity_encode_success i = Ok bs" if "identity_decode bs = Ok i"
    using that by (auto simp: identity_encode_eq identity_decode_iff result_iffs)
  show "identity_decode bs \<noteq> Panic"
    by (auto simp: identity_decode_def IDENTITY_RESPONSE_BYTES_def Let_def read_defs result_iffs)
  show "\<exists>e. identity_encode_success i = Err e" if "\<not> identity_ok i"
    using that by (auto simp: identity_encode_eq identity_validate_def identity_ok_def)
qed

text \<open>What validated capabilities promise to the rest of the host.\<close>

definition capability_contract :: "NodeCapabilities \<Rightarrow> bool \<Rightarrow> bool" where
  "capability_contract c pair \<longleftrightarrow>
     nc_max_payload_bytes c \<noteq> 0 \<and> unat (nc_max_payload_bytes c) \<le> MAX_PAYLOAD_BYTES \<and>
     nc_service_flags c AND NOT KNOWN_SERVICE_FLAGS = 0 \<and> supports_service c SID_Identity \<and>
     nc_feature_flags c AND NOT KNOWN_FEATURE_FLAGS = 0 \<and>
     (pair \<longrightarrow> (nc_feature_flags c AND FEATURE_TRIAL_BOOT_CONFIRMATION = 0) =
               (nc_feature_flags c AND FEATURE_REMOTE_FIRMWARE_UPDATE = 0)) \<and>
     nc_output_rate_mask c AND NOT KNOWN_OUTPUT_RATE_MASK = 0 \<and>
     (supports_service c SID_Measurement \<longrightarrow>
        nc_feature_flags c AND FEATURE_SAMPLE_JOURNAL \<noteq> 0 \<and> nc_output_rate_mask c \<noteq> 0 \<and>
        nc_max_sample_chunk_samples c \<noteq> 0 \<and> nc_journal_capacity_samples c \<noteq> 0 \<and>
        unat (nc_max_sample_chunk_samples c) \<le> MAX_WIRE_CHUNK_SAMPLES \<and>
        unat (nc_max_sample_chunk_samples c) \<le> unat (nc_journal_capacity_samples c) \<and>
        CHUNK_FIXED_BYTES + 9 * unat (nc_max_sample_chunk_samples c) \<le> unat (nc_max_payload_bytes c))"

definition capabilities_ok :: "NodeCapabilities \<Rightarrow> bool" where
  "capabilities_ok c \<longleftrightarrow> nc_schema_version c = CAPABILITIES_SCHEMA_VERSION \<and> capability_contract c True"

lemma chunk_bytes_no_overflow:
  "usize_checked_add CHUNK_FIXED_BYTES (usize_saturating_mul (unat (n :: u16)) XYZ_I24_WIRE_SAMPLE_BYTES) =
     Some (CHUNK_FIXED_BYTES + 9 * unat n)"
  using unat_u16_bound [of n]
  by (simp add: usize_checked_add_def usize_saturating_mul_def XYZ_I24_WIRE_SAMPLE_BYTES_def
      CHUNK_FIXED_BYTES_def min_def)

lemma validate_payload_contract_Ok [result_iffs]:
  "validate_payload_contract c pair = Ok d \<longleftrightarrow> d = c \<and> capability_contract c pair"
  by (auto simp: validate_payload_contract_def capability_contract_def chunk_bytes_no_overflow Let_def
      word_less_nat_alt unat_ucast_up not_less)

lemma validate_payload_contract_no_panic [simp]: "validate_payload_contract c pair \<noteq> Panic"
  by (simp add: validate_payload_contract_def chunk_bytes_no_overflow Let_def)

lemma capabilities_validate_Ok [result_iffs]: "capabilities_validate c = Ok d \<longleftrightarrow> d = c \<and> capabilities_ok c"
  by (auto simp: capabilities_validate_def capabilities_ok_def result_iffs)

lemma capabilities_validate_no_panic [simp]: "capabilities_validate c \<noteq> Panic"
  by (simp add: capabilities_validate_def)

definition capabilities_payload :: "NodeCapabilities \<Rightarrow> bytes" where
  "capabilities_payload c = 0 # nc_schema_version c # to_le_bytes 4 (nc_service_flags c) @
     to_le_bytes 8 (nc_feature_flags c) @ to_le_bytes 2 (nc_max_payload_bytes c) @
     to_le_bytes 4 (nc_journal_capacity_samples c) @ to_le_bytes 2 (nc_output_rate_mask c) @
     to_le_bytes 2 (nc_max_sample_chunk_samples c)"

lemma capabilities_encode_eq:
  "capabilities_encode_success c = and_then (capabilities_validate c) (\<lambda>_. Ok (capabilities_payload c))"
  by (simp add: capabilities_encode_success_def capabilities_payload_def CAPABILITIES_RESPONSE_BYTES_def)

lemma capabilities_decode_fields_iff:
  "capabilities_decode_fields bs = Ok c \<longleftrightarrow> bs = capabilities_payload c"
proof
  assume d: "capabilities_decode_fields bs = Ok c"
  then obtain p where "bs = 0 # bs ! 1 # p"
    by (cases bs; cases "tl bs") (auto simp: capabilities_decode_fields_def CAPABILITIES_RESPONSE_BYTES_def
        result_iffs split: if_splits)
  then obtain v where bs: "bs = 0 # v # p" by blast
  from d show "bs = capabilities_payload c"
    by (auto simp: bs capabilities_decode_fields_def CAPABILITIES_RESPONSE_BYTES_def read_defs result_iffs
        capabilities_payload_def to_from_le_bytes slices joins split: if_splits)
next
  assume "bs = capabilities_payload c"
  then show "capabilities_decode_fields bs = Ok c"
    by (simp add: capabilities_decode_fields_def CAPABILITIES_RESPONSE_BYTES_def read_defs result_iffs
        capabilities_payload_def slices)
qed

lemma capabilities_decode_fields_no_panic [simp]: "capabilities_decode_fields bs \<noteq> Panic"
  by (auto simp: capabilities_decode_fields_def CAPABILITIES_RESPONSE_BYTES_def read_defs result_iffs)

interpretation capabilities: strict_codec capabilities_encode_success capabilities_decode capabilities_ok
proof
  fix c bs
  show "\<exists>bs. capabilities_encode_success c = Ok bs" if "capabilities_ok c"
    using that by (auto simp: capabilities_encode_eq result_iffs)
  show "capabilities_decode bs = Ok c" if "capabilities_ok c" "capabilities_encode_success c = Ok bs"
    using that by (auto simp: capabilities_encode_eq capabilities_decode_def result_iffs
        capabilities_decode_fields_iff)
  show "capabilities_ok c \<and> capabilities_encode_success c = Ok bs" if "capabilities_decode bs = Ok c"
    using that by (auto simp: capabilities_encode_eq capabilities_decode_def result_iffs
        capabilities_decode_fields_iff)
  show "capabilities_decode bs \<noteq> Panic"
    by (auto simp: capabilities_decode_def result_iffs)
  show "\<exists>e. capabilities_encode_success c = Err e" if "\<not> capabilities_ok c"
    using that capabilities_validate_Ok [of c] by (cases "capabilities_validate c") (auto simp: capabilities_encode_eq)
qed

text \<open>Identity and capabilities: each encoder succeeds exactly on the valid values, the decoder
  accepts exactly their encodings (each value has one), no payload makes either panic, and a
  capabilities response that announces measurement promises a chunk size that fits both the
  wire format and the node's own payload limit.\<close>

lemma identity_and_capabilities_canonical:
  "(identity_encode_success i = Ok bs \<longleftrightarrow> identity_decode bs = Ok i) \<and>
   (capabilities_encode_success c = Ok cs \<longleftrightarrow> capabilities_decode cs = Ok c) \<and>
   identity_decode xs \<noteq> Panic \<and> capabilities_decode xs \<noteq> Panic \<and>
   (case capabilities_decode xs of
      Ok c \<Rightarrow> \<not> supports_service c SID_Measurement \<or>
        (0 < nc_max_sample_chunk_samples c \<and>
         unat (nc_max_sample_chunk_samples c) \<le> MAX_WIRE_CHUNK_SAMPLES \<and>
         CHUNK_FIXED_BYTES + 9 * unat (nc_max_sample_chunk_samples c) \<le> unat (nc_max_payload_bytes c))
    | _ \<Rightarrow> True)"
proof -
  have "capabilities_ok c" if "capabilities_decode xs = Ok c" for c
    using that by (simp add: capabilities.decode_iff)
  then show ?thesis
    by (auto simp: identity.encode_iff_decode capabilities.encode_iff_decode identity.decode_no_panic
        capabilities.decode_no_panic capabilities_ok_def capability_contract_def word_neq_0_conv
        split: result.split)
qed

end
