(* ===== verification/Protocol_Configuration.thy ===== *)
theory Protocol_Configuration
  imports Protocol_Identity
begin

text \<open>
  The configuration service of \<^verbatim>\<open>sensor-protocol/src/configuration_wire.rs\<close>: measurement
  configurations, the observed configuration of a node, and the apply, reset and validate
  messages.
\<close>

definition CONFIGURATION_SCHEMA_VERSION :: u8 where "CONFIGURATION_SCHEMA_VERSION = 1"
definition CONFIGURATION_VALUE_BYTES :: nat where "CONFIGURATION_VALUE_BYTES = 12"
definition OBSERVED_CONFIG_BYTES :: nat where "OBSERVED_CONFIG_BYTES = 18"
definition GET_CONFIG_RESPONSE_BYTES :: nat where "GET_CONFIG_RESPONSE_BYTES = 1 + OBSERVED_CONFIG_BYTES"
definition VALIDATE_CONFIG_RESPONSE_BYTES :: nat where "VALIDATE_CONFIG_RESPONSE_BYTES = 3"
definition APPLY_CONFIG_REQUEST_BYTES :: nat where
  "APPLY_CONFIG_REQUEST_BYTES = 8 + CONFIGURATION_VALUE_BYTES"
definition RESET_CONFIG_REQUEST_BYTES :: nat where "RESET_CONFIG_REQUEST_BYTES = 8"
definition CONFIG_OPERATION_RESPONSE_BYTES :: nat where
  "CONFIG_OPERATION_RESPONSE_BYTES = 1 + 4 + 1 + OBSERVED_CONFIG_BYTES + 8"

lemmas configuration_sizes = CONFIGURATION_SCHEMA_VERSION_def CONFIGURATION_VALUE_BYTES_def
  OBSERVED_CONFIG_BYTES_def GET_CONFIG_RESPONSE_BYTES_def VALIDATE_CONFIG_RESPONSE_BYTES_def
  APPLY_CONFIG_REQUEST_BYTES_def RESET_CONFIG_REQUEST_BYTES_def CONFIG_OPERATION_RESPONSE_BYTES_def

datatype ConfigurationWireError =
  CWE_InvalidLength nat | CWE_UnsupportedSchema u8 | CWE_UnknownOutputRate u8
| CWE_UnknownSensorOdr u8 | CWE_UnknownFilterProfile u8 | CWE_InvalidRange u8
| CWE_InvalidHighPassCorner u8 | CWE_InvalidFifoWatermark u8 | CWE_ZeroOperationId
| CWE_ZeroRevision | CWE_ZeroDecimationFactor | CWE_InconsistentObservedRate
| CWE_UnknownResponseStatus u8 | CWE_Remote ResponseStatus | CWE_UnknownValidationCode u8
| CWE_UnknownConfigField u8 | CWE_UnknownOperationCode u8

datatype DecimationFilterProfile =
  DF_Light | DF_Balanced | DF_Aggressive

fun filter_profile_code :: "DecimationFilterProfile \<Rightarrow> u8" where
  "filter_profile_code DF_Light = 0"
| "filter_profile_code DF_Balanced = 1"
| "filter_profile_code DF_Aggressive = 2"

definition filter_profile_from_wire :: "u8 \<Rightarrow> DecimationFilterProfile option" where
  "filter_profile_from_wire v =
     (if v = 0 then Some DF_Light else if v = 1 then Some DF_Balanced
      else if v = 2 then Some DF_Aggressive else None)"

interpretation filter_profile: option_code filter_profile_code filter_profile_from_wire "CWE_UnknownFilterProfile"
proof
  show "filter_profile_from_wire (filter_profile_code r) = Some r" for r
    by (cases r) (simp_all add: filter_profile_from_wire_def)
qed (auto simp: filter_profile_from_wire_def split: if_splits)

interpretation config_rate: option_code output_rate_code output_rate_from_wire CWE_UnknownOutputRate
  by unfold_locales (auto simp: output_rate.of_to_opt dest: output_rate.to_of_opt)

interpretation config_odr: option_code odr_register_value odr_from_register_value CWE_UnknownSensorOdr
  by unfold_locales (auto simp: odr.of_to_opt dest: odr.to_of_opt)

record MeasurementConfiguration =
  mc_output_rate :: OutputRateCode
  mc_range_g :: u8
  mc_high_pass_corner :: u8
  mc_filter_profile :: DecimationFilterProfile
  mc_fifo_watermark :: u8
  mc_offset_x :: i16
  mc_offset_y :: i16
  mc_offset_z :: i16

definition product_default :: MeasurementConfiguration where
  "product_default = \<lparr>mc_output_rate = Rate_Hz125, mc_range_g = 2, mc_high_pass_corner = 0,
     mc_filter_profile = DF_Balanced, mc_fifo_watermark = 30, mc_offset_x = 0, mc_offset_y = 0,
     mc_offset_z = 0\<rparr>"

definition configuration_validate ::
  "MeasurementConfiguration \<Rightarrow> (MeasurementConfiguration, ConfigurationWireError) result" where
  "configuration_validate self =
     (if \<not> (mc_range_g self = 2 \<or> mc_range_g self = 4 \<or> mc_range_g self = 8)
      then Err (CWE_InvalidRange (mc_range_g self))
      else if mc_high_pass_corner self > 7 then Err (CWE_InvalidHighPassCorner (mc_high_pass_corner self))
      else if \<not> (3 \<le> mc_fifo_watermark self \<and> mc_fifo_watermark self \<le> 96) \<or>
              mc_fifo_watermark self mod 3 \<noteq> 0
      then Err (CWE_InvalidFifoWatermark (mc_fifo_watermark self))
      else Ok self)"

record ObservedConfiguration =
  oc_revision :: u32
  oc_desired :: MeasurementConfiguration
  oc_sensor_odr :: Adxl355Odr
  oc_decimation_factor :: u8

definition observed_validate :: "ObservedConfiguration \<Rightarrow> (ObservedConfiguration, ConfigurationWireError) result" where
  "observed_validate self =
     and_then (configuration_validate (oc_desired self)) (\<lambda>_.
       if oc_revision self = 0 then Err CWE_ZeroRevision
       else if oc_decimation_factor self = 0 then Err CWE_ZeroDecimationFactor
       else case divided_by (odr_sample_rate (oc_sensor_odr self)) (ucast (oc_decimation_factor self)) of
          Panic \<Rightarrow> Panic
        | Err _ \<Rightarrow> Err CWE_InconsistentObservedRate
        | Ok rate \<Rightarrow> if rate \<noteq> output_rate_sample_rate (mc_output_rate (oc_desired self))
                     then Err CWE_InconsistentObservedRate else Ok self)"

datatype ConfigValidationCode =
  CV_Valid | CV_UnsupportedOutputRate | CV_InvalidRange | CV_InvalidHighPassCorner | CV_InvalidFilterProfile | CV_InvalidFifoWatermark | CV_InvalidOffset

fun validation_code :: "ConfigValidationCode \<Rightarrow> u8" where
  "validation_code CV_Valid = 0"
| "validation_code CV_UnsupportedOutputRate = 1"
| "validation_code CV_InvalidRange = 2"
| "validation_code CV_InvalidHighPassCorner = 3"
| "validation_code CV_InvalidFilterProfile = 4"
| "validation_code CV_InvalidFifoWatermark = 5"
| "validation_code CV_InvalidOffset = 6"

definition validation_from_wire :: "u8 \<Rightarrow> ConfigValidationCode option" where
  "validation_from_wire v =
     (if v = 0 then Some CV_Valid else if v = 1 then Some CV_UnsupportedOutputRate
      else if v = 2 then Some CV_InvalidRange
      else if v = 3 then Some CV_InvalidHighPassCorner
      else if v = 4 then Some CV_InvalidFilterProfile
      else if v = 5 then Some CV_InvalidFifoWatermark
      else if v = 6 then Some CV_InvalidOffset else None)"

interpretation validation: option_code validation_code validation_from_wire "CWE_UnknownValidationCode"
proof
  show "validation_from_wire (validation_code r) = Some r" for r
    by (cases r) (simp_all add: validation_from_wire_def)
qed (auto simp: validation_from_wire_def split: if_splits)

datatype ConfigField =
  CF_None | CF_OutputRate | CF_Range | CF_HighPassCorner | CF_FilterProfile | CF_FifoWatermark | CF_OffsetX | CF_OffsetY | CF_OffsetZ

fun config_field_code :: "ConfigField \<Rightarrow> u8" where
  "config_field_code CF_None = 0"
| "config_field_code CF_OutputRate = 1"
| "config_field_code CF_Range = 2"
| "config_field_code CF_HighPassCorner = 3"
| "config_field_code CF_FilterProfile = 4"
| "config_field_code CF_FifoWatermark = 5"
| "config_field_code CF_OffsetX = 6"
| "config_field_code CF_OffsetY = 7"
| "config_field_code CF_OffsetZ = 8"

definition config_field_from_wire :: "u8 \<Rightarrow> ConfigField option" where
  "config_field_from_wire v =
     (if v = 0 then Some CF_None else if v = 1 then Some CF_OutputRate
      else if v = 2 then Some CF_Range else if v = 3 then Some CF_HighPassCorner
      else if v = 4 then Some CF_FilterProfile else if v = 5 then Some CF_FifoWatermark
      else if v = 6 then Some CF_OffsetX else if v = 7 then Some CF_OffsetY
      else if v = 8 then Some CF_OffsetZ else None)"

interpretation config_field: option_code config_field_code config_field_from_wire "CWE_UnknownConfigField"
proof
  show "config_field_from_wire (config_field_code r) = Some r" for r
    by (cases r) (simp_all add: config_field_from_wire_def)
qed (auto simp: config_field_from_wire_def split: if_splits)

datatype ConfigOperationCode =
  CO_Applied | CO_RevisionConflict | CO_InvalidConfiguration | CO_StorageFailed | CO_SensorFailed | CO_RollbackFailed | CO_WrongMode

fun config_operation_code :: "ConfigOperationCode \<Rightarrow> u8" where
  "config_operation_code CO_Applied = 0"
| "config_operation_code CO_RevisionConflict = 1"
| "config_operation_code CO_InvalidConfiguration = 2"
| "config_operation_code CO_StorageFailed = 3"
| "config_operation_code CO_SensorFailed = 4"
| "config_operation_code CO_RollbackFailed = 5"
| "config_operation_code CO_WrongMode = 6"

definition config_operation_from_wire :: "u8 \<Rightarrow> ConfigOperationCode option" where
  "config_operation_from_wire v =
     (if v = 0 then Some CO_Applied else if v = 1 then Some CO_RevisionConflict
      else if v = 2 then Some CO_InvalidConfiguration
      else if v = 3 then Some CO_StorageFailed else if v = 4 then Some CO_SensorFailed
      else if v = 5 then Some CO_RollbackFailed else if v = 6 then Some CO_WrongMode else None)"

interpretation config_operation: option_code config_operation_code config_operation_from_wire "CWE_UnknownOperationCode"
proof
  show "config_operation_from_wire (config_operation_code r) = Some r" for r
    by (cases r) (simp_all add: config_operation_from_wire_def)
qed (auto simp: config_operation_from_wire_def split: if_splits)

record ConfigValidationResult =
  cvr_code :: ConfigValidationCode
  cvr_field :: ConfigField

record ConfigOperationRequest =
  cor_operation_id :: u32
  cor_expected_revision :: u32
  cor_configuration :: MeasurementConfiguration

record ConfigOperationResult =
  cop_operation_id :: u32
  cop_code :: ConfigOperationCode
  cop_observed :: ObservedConfiguration
  cop_effective_sample_seq :: u64

section \<open>Messages\<close>

definition encode_configuration :: "MeasurementConfiguration \<Rightarrow> (bytes, ConfigurationWireError) result" where
  "encode_configuration v =
     and_then (configuration_validate v) (\<lambda>_.
       copy_fields
         [(0, 1, [CONFIGURATION_SCHEMA_VERSION]), (1, 2, [output_rate_code (mc_output_rate v)]),
          (2, 3, [mc_range_g v]), (3, 4, [mc_high_pass_corner v]),
          (4, 5, [filter_profile_code (mc_filter_profile v)]), (5, 6, [mc_fifo_watermark v]),
          (6, 8, to_le_bytes 2 (mc_offset_x v)), (8, 10, to_le_bytes 2 (mc_offset_y v)),
          (10, 12, to_le_bytes 2 (mc_offset_z v))]
         (replicate CONFIGURATION_VALUE_BYTES 0))"

definition decode_configuration :: "bytes \<Rightarrow> (MeasurementConfiguration, ConfigurationWireError) result" where
  "decode_configuration payload =
     (if length payload \<noteq> CONFIGURATION_VALUE_BYTES then Err (CWE_InvalidLength (length payload))
      else and_then (index_at payload 0) (\<lambda>schema.
        if schema \<noteq> CONFIGURATION_SCHEMA_VERSION then Err (CWE_UnsupportedSchema schema)
        else and_then (index_at payload 1) (\<lambda>v1.
             and_then (ok_or (output_rate_from_wire v1) (CWE_UnknownOutputRate v1)) (\<lambda>output_rate.
             and_then (index_at payload 2) (\<lambda>range_g.
             and_then (index_at payload 3) (\<lambda>high_pass_corner.
             and_then (index_at payload 4) (\<lambda>v4.
             and_then (ok_or (filter_profile_from_wire v4) (CWE_UnknownFilterProfile v4)) (\<lambda>filter_profile.
             and_then (index_at payload 5) (\<lambda>fifo_watermark.
             and_then (read_u16 payload 6) (\<lambda>offset_x.
             and_then (read_u16 payload 8) (\<lambda>offset_y.
             and_then (read_u16 payload 10) (\<lambda>offset_z.
               configuration_validate
                 \<lparr>mc_output_rate = output_rate, mc_range_g = range_g, mc_high_pass_corner = high_pass_corner,
                  mc_filter_profile = filter_profile, mc_fifo_watermark = fifo_watermark,
                  mc_offset_x = offset_x, mc_offset_y = offset_y, mc_offset_z = offset_z\<rparr>))))))))))))"

definition validate_operation_ids :: "u32 \<Rightarrow> u32 \<Rightarrow> (unit, ConfigurationWireError) result" where
  "validate_operation_ids operation_id revision =
     (if operation_id = 0 then Err CWE_ZeroOperationId
      else if revision = 0 then Err CWE_ZeroRevision else Ok ())"

definition encode_apply_config_request :: "ConfigOperationRequest \<Rightarrow> (bytes, ConfigurationWireError) result" where
  "encode_apply_config_request request =
     and_then (validate_operation_ids (cor_operation_id request) (cor_expected_revision request)) (\<lambda>_.
     and_then (copy_fields [(0, 4, to_le_bytes 4 (cor_operation_id request)),
                            (4, 8, to_le_bytes 4 (cor_expected_revision request))]
                 (replicate APPLY_CONFIG_REQUEST_BYTES 0)) (\<lambda>out.
     and_then (encode_configuration (cor_configuration request)) (\<lambda>configuration.
       copy_fields [(8, APPLY_CONFIG_REQUEST_BYTES, configuration)] out)))"

definition decode_apply_config_request :: "bytes \<Rightarrow> (ConfigOperationRequest, ConfigurationWireError) result" where
  "decode_apply_config_request payload =
     (if length payload \<noteq> APPLY_CONFIG_REQUEST_BYTES then Err (CWE_InvalidLength (length payload))
      else and_then (read_u32 payload 0) (\<lambda>operation_id.
           and_then (read_u32 payload 4) (\<lambda>expected_revision.
           and_then (slice_at payload 8 (length payload)) (\<lambda>p. and_then (decode_configuration p) (\<lambda>configuration.
           and_then (validate_operation_ids operation_id expected_revision) (\<lambda>_.
             Ok \<lparr>cor_operation_id = operation_id, cor_expected_revision = expected_revision,
                 cor_configuration = configuration\<rparr>))))))"

definition encode_reset_config_request :: "u32 \<Rightarrow> u32 \<Rightarrow> (bytes, ConfigurationWireError) result" where
  "encode_reset_config_request operation_id expected_revision =
     and_then (validate_operation_ids operation_id expected_revision) (\<lambda>_.
       copy_fields [(0, 4, to_le_bytes 4 operation_id), (4, 8, to_le_bytes 4 expected_revision)]
         (replicate RESET_CONFIG_REQUEST_BYTES 0))"

definition decode_reset_config_request :: "bytes \<Rightarrow> (u32 \<times> u32, ConfigurationWireError) result" where
  "decode_reset_config_request payload =
     (if length payload \<noteq> RESET_CONFIG_REQUEST_BYTES then Err (CWE_InvalidLength (length payload))
      else and_then (read_u32 payload 0) (\<lambda>a. and_then (read_u32 payload 4) (\<lambda>b.
           and_then (validate_operation_ids a b) (\<lambda>_. Ok (a, b)))))"

text \<open>\<open>encode_observed\<close> fills the slice the caller hands it.\<close>

definition encode_observed :: "ObservedConfiguration \<Rightarrow> bytes \<Rightarrow> (bytes, ConfigurationWireError) result" where
  "encode_observed v output =
     and_then (observed_validate v) (\<lambda>_.
       if length output \<noteq> OBSERVED_CONFIG_BYTES then Err (CWE_InvalidLength (length output))
       else and_then (copy_fields [(0, 4, to_le_bytes 4 (oc_revision v))] output) (\<lambda>output.
            and_then (encode_configuration (oc_desired v)) (\<lambda>desired.
              copy_fields [(4, 16, desired), (16, 17, [odr_register_value (oc_sensor_odr v)]),
                           (17, 18, [oc_decimation_factor v])] output)))"

definition decode_observed :: "bytes \<Rightarrow> (ObservedConfiguration, ConfigurationWireError) result" where
  "decode_observed payload =
     (if length payload \<noteq> OBSERVED_CONFIG_BYTES then Err (CWE_InvalidLength (length payload))
      else and_then (read_u32 payload 0) (\<lambda>revision.
           and_then (slice_at payload 4 16) (\<lambda>p. and_then (decode_configuration p) (\<lambda>desired.
           and_then (index_at payload 16) (\<lambda>v16.
           and_then (ok_or (odr_from_register_value v16) (CWE_UnknownSensorOdr v16)) (\<lambda>sensor_odr.
           and_then (index_at payload 17) (\<lambda>decimation_factor.
             observed_validate \<lparr>oc_revision = revision, oc_desired = desired, oc_sensor_odr = sensor_odr,
                                oc_decimation_factor = decimation_factor\<rparr>)))))))"

definition configuration_require_success :: "bytes \<Rightarrow> nat \<Rightarrow> (unit, ConfigurationWireError) result" where
  "configuration_require_success = require_success CWE_InvalidLength CWE_UnknownResponseStatus CWE_Remote"

definition encode_get_config_response :: "ObservedConfiguration \<Rightarrow> (bytes, ConfigurationWireError) result" where
  "encode_get_config_response v =
     and_then (observed_validate v) (\<lambda>_.
     and_then (copy_fields [(0, 1, [response_status_code RS_Ok])] (replicate GET_CONFIG_RESPONSE_BYTES 0)) (\<lambda>out.
     and_then (slice_at out 1 (length out)) (\<lambda>s. and_then (encode_observed v s) (\<lambda>s.
       copy_fields [(1, length out, s)] out))))"

definition decode_get_config_response :: "bytes \<Rightarrow> (ObservedConfiguration, ConfigurationWireError) result" where
  "decode_get_config_response payload =
     and_then (configuration_require_success payload GET_CONFIG_RESPONSE_BYTES) (\<lambda>_.
     and_then (slice_at payload 1 (length payload)) decode_observed)"

definition encode_validate_config_response :: "ConfigValidationResult \<Rightarrow> bytes" where
  "encode_validate_config_response v =
     [response_status_code RS_Ok, validation_code (cvr_code v), config_field_code (cvr_field v)]"

definition decode_validate_config_response :: "bytes \<Rightarrow> (ConfigValidationResult, ConfigurationWireError) result" where
  "decode_validate_config_response payload =
     and_then (configuration_require_success payload VALIDATE_CONFIG_RESPONSE_BYTES) (\<lambda>_.
     and_then (index_at payload 1) (\<lambda>v1.
     and_then (ok_or (validation_from_wire v1) (CWE_UnknownValidationCode v1)) (\<lambda>code.
     and_then (index_at payload 2) (\<lambda>v2.
     and_then (ok_or (config_field_from_wire v2) (CWE_UnknownConfigField v2)) (\<lambda>field.
       Ok \<lparr>cvr_code = code, cvr_field = field\<rparr>)))))"

definition encode_config_operation_response :: "ConfigOperationResult \<Rightarrow> (bytes, ConfigurationWireError) result" where
  "encode_config_operation_response v =
     (if cop_operation_id v = 0 then Err CWE_ZeroOperationId
      else and_then (observed_validate (cop_observed v)) (\<lambda>_.
           and_then (copy_fields [(0, 1, [response_status_code RS_Ok]), (1, 5, to_le_bytes 4 (cop_operation_id v)),
                                  (5, 6, [config_operation_code (cop_code v)])]
                       (replicate CONFIG_OPERATION_RESPONSE_BYTES 0)) (\<lambda>out.
           and_then (slice_at out 6 24) (\<lambda>s. and_then (encode_observed (cop_observed v) s) (\<lambda>s.
             copy_fields [(6, 24, s), (24, 32, to_le_bytes 8 (cop_effective_sample_seq v))] out)))))"

definition decode_config_operation_response :: "bytes \<Rightarrow> (ConfigOperationResult, ConfigurationWireError) result" where
  "decode_config_operation_response payload =
     and_then (configuration_require_success payload CONFIG_OPERATION_RESPONSE_BYTES) (\<lambda>_.
     and_then (read_u32 payload 1) (\<lambda>operation_id.
     and_then (index_at payload 5) (\<lambda>v5.
     and_then (ok_or (config_operation_from_wire v5) (CWE_UnknownOperationCode v5)) (\<lambda>code.
     and_then (slice_at payload 6 24) (\<lambda>p. and_then (decode_observed p) (\<lambda>observed.
     and_then (read_u64 payload 24) (\<lambda>effective_sample_seq.
       if operation_id = 0 then Err CWE_ZeroOperationId
       else Ok \<lparr>cop_operation_id = operation_id, cop_code = code, cop_observed = observed,
                cop_effective_sample_seq = effective_sample_seq\<rparr>)))))))"

section \<open>Accepted values\<close>

definition configuration_ok :: "MeasurementConfiguration \<Rightarrow> bool" where
  "configuration_ok c \<longleftrightarrow> mc_range_g c \<in> {2, 4, 8} \<and> mc_high_pass_corner c \<le> 7 \<and>
     3 \<le> mc_fifo_watermark c \<and> mc_fifo_watermark c \<le> 96 \<and> mc_fifo_watermark c mod 3 = 0"

text \<open>The output rate is exactly the sensor rate divided by the decimation factor.\<close>

definition observed_ok :: "ObservedConfiguration \<Rightarrow> bool" where
  "observed_ok v \<longleftrightarrow> configuration_ok (oc_desired v) \<and> oc_revision v \<noteq> 0 \<and> oc_decimation_factor v \<noteq> 0 \<and>
     unat (output_rate_sample_rate (mc_output_rate (oc_desired v))) * unat (oc_decimation_factor v) =
       unat (odr_sample_rate (oc_sensor_odr v))"

lemma configuration_validate_Ok [result_iffs]: "configuration_validate c = Ok d \<longleftrightarrow> d = c \<and> configuration_ok c"
  by (auto simp: configuration_validate_def configuration_ok_def not_less)

lemma configuration_validate_no_panic [simp]: "configuration_validate c \<noteq> Panic"
  by (simp add: configuration_validate_def)

lemma output_rate_positive: "output_rate_sample_rate r \<noteq> 0"
  by (cases r) (simp_all add: rate_constants)

lemma observed_validate_Ok [result_iffs]: "observed_validate v = Ok w \<longleftrightarrow> w = v \<and> observed_ok v"
proof -
  let ?f = "oc_decimation_factor v" and ?r = "output_rate_sample_rate (mc_output_rate (oc_desired v))"
  let ?q = "divided_by (odr_sample_rate (oc_sensor_odr v)) (ucast ?f :: u32)"
  have u: "unat (ucast ?f :: u32) = unat ?f" by (simp add: unat_ucast_up)
  have z: "(ucast ?f :: u32) = 0 \<longleftrightarrow> ?f = 0" by (metis u unat_eq_0)
  have q: "?q = Ok ?r \<longleftrightarrow> unat ?r * unat ?f = unat (odr_sample_rate (oc_sensor_odr v)) \<and> ?f \<noteq> 0"
    using output_rate_positive by (simp add: divided_by_iff u z)
  have "observed_validate v = Ok w \<longleftrightarrow> configuration_ok (oc_desired v) \<and> oc_revision v \<noteq> 0 \<and> ?f \<noteq> 0 \<and>
      ?q = Ok ?r \<and> w = v"
    by (cases ?q) (auto simp: observed_validate_def result_iffs)
  then show ?thesis using q by (auto simp: observed_ok_def)
qed

lemma observed_validate_no_panic [simp]: "observed_validate v \<noteq> Panic"
  by (auto simp: observed_validate_def result_iffs split: result.splits)

lemma validate_operation_ids_Ok [result_iffs]: "validate_operation_ids a b = Ok u \<longleftrightarrow> a \<noteq> 0 \<and> b \<noteq> 0"
  by (auto simp: validate_operation_ids_def)

lemma validate_operation_ids_no_panic [simp]: "validate_operation_ids a b \<noteq> Panic"
  by (simp add: validate_operation_ids_def)

definition configuration_bytes :: "MeasurementConfiguration \<Rightarrow> bytes" where
  "configuration_bytes v = CONFIGURATION_SCHEMA_VERSION # output_rate_code (mc_output_rate v) # mc_range_g v #
     mc_high_pass_corner v # filter_profile_code (mc_filter_profile v) # mc_fifo_watermark v #
     to_le_bytes 2 (mc_offset_x v) @ to_le_bytes 2 (mc_offset_y v) @ to_le_bytes 2 (mc_offset_z v)"

definition observed_bytes :: "ObservedConfiguration \<Rightarrow> bytes" where
  "observed_bytes v = to_le_bytes 4 (oc_revision v) @ configuration_bytes (oc_desired v) @
     [odr_register_value (oc_sensor_odr v), oc_decimation_factor v]"

lemma length_configuration_bytes [simp]: "length (configuration_bytes v) = 12"
  by (simp add: configuration_bytes_def)

lemma length_observed_bytes [simp]: "length (observed_bytes v) = 18"
  by (simp add: observed_bytes_def)

lemmas configuration_code_iffs = config_rate.of_code_iff [simplified result_iffs]
  filter_profile.of_code_iff [simplified result_iffs] config_odr.of_code_iff [simplified result_iffs]
  config_operation.of_code_iff [simplified result_iffs] validation.of_code_iff [simplified result_iffs]
  config_field.of_code_iff [simplified result_iffs]

lemmas configuration_code_to = output_rate.of_to_opt filter_profile.of_to_opt odr.of_to_opt
  config_operation.of_to_opt validation.of_to_opt config_field.of_to_opt

lemma encode_configuration_eq:
  "encode_configuration v = and_then (configuration_validate v) (\<lambda>_. Ok (configuration_bytes v))"
  by (simp add: encode_configuration_def configuration_bytes_def configuration_sizes)

lemma six_bytes:
  assumes "length p = 12"
  obtains a b c d e f r where "p = a # b # c # d # e # f # r" "length r = 6"
proof -
  have "p = p ! 0 # p ! 1 # p ! 2 # p ! 3 # p ! 4 # p ! 5 # sub 6 12 p"
    using assms by (simp add: Cons_sub sub_full)
  moreover have "length (sub 6 12 p) = 6" using assms by simp
  ultimately show thesis by (rule that)
qed

lemma decode_configuration_iff:
  "decode_configuration p = Ok c \<longleftrightarrow> configuration_ok c \<and> p = configuration_bytes c"
proof
  assume d: "decode_configuration p = Ok c"
  then have "length p = 12" by (auto simp: decode_configuration_def configuration_sizes split: if_splits)
  then obtain x0 x1 x2 x3 x4 x5 r where p: "p = x0 # x1 # x2 # x3 # x4 # x5 # r" and r: "length r = 6"
    by (rule six_bytes)
  show "configuration_ok c \<and> p = configuration_bytes c"
    using d r unfolding p
    by (auto simp: decode_configuration_def configuration_sizes read_defs result_iffs
        configuration_code_iffs configuration_bytes_def to_from_le_bytes slices joins split: if_splits)
next
  assume "configuration_ok c \<and> p = configuration_bytes c"
  then show "decode_configuration p = Ok c"
    by (simp add: decode_configuration_def configuration_sizes read_defs result_iffs configuration_bytes_def
        slices nth_append configuration_code_to configuration_ok_def)
qed

lemma decode_configuration_no_panic [simp]: "decode_configuration p \<noteq> Panic"
  by (auto simp: decode_configuration_def configuration_sizes read_defs result_iffs)

lemma encode_observed_eq:
  "length out = 18 \<Longrightarrow>
   encode_observed v out = and_then (observed_validate v) (\<lambda>_. Ok (observed_bytes v))"
  by (cases "observed_validate v") (auto simp: encode_observed_def encode_configuration_eq
      observed_bytes_def configuration_sizes result_iffs observed_ok_def configuration_validate_Ok [THEN iffD2])

lemma decode_observed_iff: "decode_observed p = Ok v \<longleftrightarrow> observed_ok v \<and> p = observed_bytes v"
proof
  assume d: "decode_observed p = Ok v"
  then have l: "length p = 18" by (auto simp: decode_observed_def configuration_sizes split: if_splits)
  obtain A B x y where p: "p = A @ B @ [x, y]" and ls: "length A = 4" "length B = 12"
  proof
    show "p = sub 0 4 p @ sub 4 16 p @ [p ! 16, p ! 17]"
      using l by (simp add: joins sub_snoc)
  qed (use l in auto)
  show "observed_ok v \<and> p = observed_bytes v"
    using d ls unfolding p
    by (auto simp: decode_observed_def configuration_sizes read_defs result_iffs decode_configuration_iff
        configuration_code_iffs observed_bytes_def to_from_le_bytes slices nth_append split: if_splits)
next
  assume "observed_ok v \<and> p = observed_bytes v"
  then show "decode_observed p = Ok v"
    by (auto simp: decode_observed_def configuration_sizes read_defs result_iffs observed_bytes_def
        decode_configuration_iff slices nth_append configuration_code_to observed_ok_def)
qed

lemma decode_observed_no_panic [simp]: "decode_observed p \<noteq> Panic"
  by (auto simp: decode_observed_def configuration_sizes read_defs result_iffs)

section \<open>Message round trips\<close>

lemma configuration_require_success_Ok [result_iffs]:
  "configuration_require_success p n = Ok u \<longleftrightarrow> p \<noteq> [] \<and> hd p = 0 \<and> length p = n"
  by (simp add: configuration_require_success_def)

lemma configuration_require_success_no_panic [simp]: "configuration_require_success p n \<noteq> Panic"
  by (simp add: configuration_require_success_def)

definition apply_ok :: "ConfigOperationRequest \<Rightarrow> bool" where
  "apply_ok r \<longleftrightarrow> cor_operation_id r \<noteq> 0 \<and> cor_expected_revision r \<noteq> 0 \<and>
     configuration_ok (cor_configuration r)"

definition apply_bytes :: "ConfigOperationRequest \<Rightarrow> bytes" where
  "apply_bytes r = to_le_bytes 4 (cor_operation_id r) @ to_le_bytes 4 (cor_expected_revision r) @
     configuration_bytes (cor_configuration r)"

lemma encode_apply_iff: "encode_apply_config_request r = Ok p \<longleftrightarrow> apply_ok r \<and> p = apply_bytes r"
  by (auto simp: encode_apply_config_request_def apply_ok_def apply_bytes_def configuration_sizes
      encode_configuration_eq result_iffs)

lemma decode_apply_iff: "decode_apply_config_request p = Ok r \<longleftrightarrow> apply_ok r \<and> p = apply_bytes r"
proof
  assume d: "decode_apply_config_request p = Ok r"
  then have l: "length p = 20"
    by (auto simp: decode_apply_config_request_def configuration_sizes split: if_splits)
  obtain A B C where p: "p = A @ B @ C" and ls: "length A = 4" "length B = 4" "length C = 12"
  proof
    show "p = sub 0 4 p @ sub 4 8 p @ sub 8 20 p" using l by (simp add: joins)
  qed (use l in auto)
  show "apply_ok r \<and> p = apply_bytes r"
    using d ls unfolding p
    by (auto simp: decode_apply_config_request_def configuration_sizes read_defs result_iffs
        decode_configuration_iff apply_bytes_def apply_ok_def to_from_le_bytes slices split: if_splits)
next
  assume "apply_ok r \<and> p = apply_bytes r"
  then show "decode_apply_config_request p = Ok r"
    by (auto simp: decode_apply_config_request_def configuration_sizes read_defs result_iffs
        apply_bytes_def apply_ok_def decode_configuration_iff slices)
qed

interpretation apply_config: strict_codec encode_apply_config_request decode_apply_config_request apply_ok
  by (rule strict_codecI [OF encode_apply_iff decode_apply_iff])
    (auto simp: encode_apply_config_request_def decode_apply_config_request_def configuration_sizes
      read_defs result_iffs encode_configuration_eq)

lemma decode_reset_iff:
  "decode_reset_config_request p = Ok (a, b) \<longleftrightarrow>
   a \<noteq> 0 \<and> b \<noteq> 0 \<and> p = to_le_bytes 4 a @ to_le_bytes 4 b"
  by (auto simp: decode_reset_config_request_def configuration_sizes read_defs result_iffs
      to_from_le_bytes slices joins split: if_splits)

interpretation reset_config: strict_codec "\<lambda>(a, b). encode_reset_config_request a b"
  decode_reset_config_request "\<lambda>(a, b). a \<noteq> 0 \<and> b \<noteq> 0"
  by (rule strict_codecI [where bytes_of = "\<lambda>(a, b). to_le_bytes 4 a @ to_le_bytes 4 b"])
    (auto simp: encode_reset_config_request_def decode_reset_iff decode_reset_config_request_def
      configuration_sizes read_defs result_iffs slices joins to_from_le_bytes split: if_splits)

lemma encode_get_config_iff:
  "encode_get_config_response v = Ok p \<longleftrightarrow> observed_ok v \<and> p = 0 # observed_bytes v"
  by (auto simp: encode_get_config_response_def configuration_sizes encode_observed_eq result_iffs slices)

lemma decode_get_config_iff:
  "decode_get_config_response p = Ok v \<longleftrightarrow> observed_ok v \<and> p = 0 # observed_bytes v"
  by (cases p) (auto simp: decode_get_config_response_def configuration_sizes result_iffs
      decode_observed_iff slices)

interpretation get_config: strict_codec encode_get_config_response decode_get_config_response observed_ok
  by (rule strict_codecI [OF encode_get_config_iff decode_get_config_iff])
    (auto simp: encode_get_config_response_def decode_get_config_response_def configuration_sizes
      encode_observed_eq result_iffs)

interpretation validate_config: codec
  "\<lambda>v. Ok (encode_validate_config_response v) :: (bytes, ConfigurationWireError) result"
  decode_validate_config_response "\<lambda>_. True"
proof
  fix v p
  show "decode_validate_config_response p = Ok v"
    if True "(Ok (encode_validate_config_response v) :: (bytes, ConfigurationWireError) result) = Ok p"
    using that by (auto simp: encode_validate_config_response_def decode_validate_config_response_def
        configuration_sizes result_iffs configuration_code_to)
  show "True \<and> (Ok (encode_validate_config_response v) :: (bytes, ConfigurationWireError) result) = Ok p"
    if "decode_validate_config_response p = Ok v"
    using that by (auto simp: encode_validate_config_response_def decode_validate_config_response_def
        configuration_sizes result_iffs configuration_code_iffs length_Suc_conv numeral_eq_Suc)
  show "decode_validate_config_response p \<noteq> Panic"
    by (auto simp: decode_validate_config_response_def configuration_sizes result_iffs)
qed simp

definition operation_result_ok :: "ConfigOperationResult \<Rightarrow> bool" where
  "operation_result_ok v \<longleftrightarrow> cop_operation_id v \<noteq> 0 \<and> observed_ok (cop_observed v)"

definition operation_result_bytes :: "ConfigOperationResult \<Rightarrow> bytes" where
  "operation_result_bytes v = 0 # to_le_bytes 4 (cop_operation_id v) @ config_operation_code (cop_code v) #
     observed_bytes (cop_observed v) @ to_le_bytes 8 (cop_effective_sample_seq v)"

lemma encode_config_operation_iff:
  "encode_config_operation_response v = Ok p \<longleftrightarrow> operation_result_ok v \<and> p = operation_result_bytes v"
  by (auto simp: encode_config_operation_response_def configuration_sizes encode_observed_eq result_iffs
      operation_result_ok_def operation_result_bytes_def)

lemma decode_config_operation_iff:
  "decode_config_operation_response p = Ok v \<longleftrightarrow> operation_result_ok v \<and> p = operation_result_bytes v"
proof
  assume d: "decode_config_operation_response p = Ok v"
  then have l: "length p = 32" and h: "p \<noteq> []" "hd p = 0"
    by (auto simp: decode_config_operation_response_def configuration_sizes result_iffs)
  obtain A c B D where p: "p = 0 # A @ c # B @ D"
    and ls: "length A = 4" "length B = 18" "length D = 8"
  proof
    have "p = p ! 0 # sub 1 5 p @ p ! 5 # sub 6 24 p @ sub 24 32 p"
      using l by (simp add: joins sub_snoc Cons_sub)
    then show "p = 0 # sub 1 5 p @ p ! 5 # sub 6 24 p @ sub 24 32 p" using h by (simp add: hd_conv_nth)
  qed (use l in auto)
  show "operation_result_ok v \<and> p = operation_result_bytes v"
    using d ls unfolding p
    by (auto simp: decode_config_operation_response_def configuration_sizes read_defs result_iffs
        decode_observed_iff configuration_code_iffs operation_result_ok_def operation_result_bytes_def
        to_from_le_bytes slices nth_append split: if_splits)
next
  assume "operation_result_ok v \<and> p = operation_result_bytes v"
  then show "decode_config_operation_response p = Ok v"
    by (auto simp: decode_config_operation_response_def configuration_sizes read_defs result_iffs
        decode_observed_iff operation_result_ok_def operation_result_bytes_def slices nth_append
        configuration_code_to)
qed

interpretation config_operation_response: strict_codec encode_config_operation_response
  decode_config_operation_response operation_result_ok
  by (rule strict_codecI [OF encode_config_operation_iff decode_config_operation_iff])
    (auto simp: encode_config_operation_response_def decode_config_operation_response_def
      configuration_sizes read_defs encode_observed_eq result_iffs)

text \<open>Configuration messages are canonical: apply and reset requests, the observed configuration
  and operation results are encoded to exactly the bytes that decode to them; an operation
  result is encodable exactly when it names an operation and its observed configuration is
  consistent, the output rate being the sensor rate divided by the decimation factor without
  remainder; and no payload makes a decoder panic.\<close>

lemma configuration_messages_canonical:
  "(encode_apply_config_request r = Ok bs \<longleftrightarrow> decode_apply_config_request bs = Ok r) \<and>
   (encode_reset_config_request a b = Ok bs \<longleftrightarrow> decode_reset_config_request bs = Ok (a, b)) \<and>
   (encode_get_config_response v = Ok bs \<longleftrightarrow> decode_get_config_response bs = Ok v) \<and>
   (bs = encode_validate_config_response w \<longleftrightarrow> decode_validate_config_response bs = Ok w) \<and>
   (encode_config_operation_response x = Ok bs \<longleftrightarrow> decode_config_operation_response bs = Ok x) \<and>
   ((\<exists>bs. encode_config_operation_response x = Ok bs) \<longleftrightarrow>
     cop_operation_id x \<noteq> 0 \<and> observed_ok (cop_observed x)) \<and>
   decode_apply_config_request xs \<noteq> Panic \<and> decode_reset_config_request xs \<noteq> Panic \<and>
   decode_get_config_response xs \<noteq> Panic \<and> decode_validate_config_response xs \<noteq> Panic \<and>
   decode_config_operation_response xs \<noteq> Panic"
  using reset_config.encode_iff_decode [of "(a, b)" bs]
  by (auto simp: apply_config.encode_iff_decode get_config.encode_iff_decode validate_config.decode_iff
      config_operation_response.encode_iff_decode config_operation_response.encode_ok_iff [unfolded
        config_operation_response.encode_iff_decode] operation_result_ok_def
      apply_config.decode_no_panic reset_config.decode_no_panic get_config.decode_no_panic
      validate_config.decode_no_panic config_operation_response.decode_no_panic)

end
