(* ===== verification/Protocol_Commissioning.thy ===== *)
theory Protocol_Commissioning
  imports Protocol_Identity Framing_Crc
begin

text \<open>
  The commissioning service of \<^verbatim>\<open>sensor-protocol/src/commissioning_wire.rs\<close>: slotted probes that find
  nodes without an address, and the assignment of addresses to hardware identities.
\<close>

definition PROBE_SLOT_REQUEST_BYTES :: nat where "PROBE_SLOT_REQUEST_BYTES = 12"
definition PROBE_SLOT_RESPONSE_BYTES :: nat where "PROBE_SLOT_RESPONSE_BYTES = 23"
definition ASSIGN_ADDRESS_REQUEST_BYTES :: nat where "ASSIGN_ADDRESS_REQUEST_BYTES = 21"
definition ASSIGN_ADDRESS_RESPONSE_BYTES :: nat where "ASSIGN_ADDRESS_RESPONSE_BYTES = 14"
definition MAX_COMMISSIONING_SLOTS :: u16 where "MAX_COMMISSIONING_SLOTS = 256"

lemmas commissioning_sizes = PROBE_SLOT_REQUEST_BYTES_def PROBE_SLOT_RESPONSE_BYTES_def
  ASSIGN_ADDRESS_REQUEST_BYTES_def ASSIGN_ADDRESS_RESPONSE_BYTES_def MAX_COMMISSIONING_SLOTS_def

datatype CommissioningWireError =
  CME_InvalidLength nat | CME_ZeroRoundNonce | CME_InvalidSlotCount u16 | CME_InvalidSlotIndex u16 u16
| CME_ZeroOperationId | CME_InvalidNodeAddress u8 | CME_InvalidBoardRevision
| CME_UnknownResponseStatus u8 | CME_Remote ResponseStatus

record ProbeSlotRequest =
  ps_round_nonce :: u64
  ps_slot_count :: u16
  ps_slot_index :: u16

text \<open>\<open>u16::is_power_of_two\<close>: one of the sixteen words with exactly one bit set.\<close>

definition is_power_of_two :: "u16 \<Rightarrow> bool" where
  "is_power_of_two x = (x \<in> set (map (\<lambda>k. push_bit k 1) [0..<16]))"

definition probe_slot_validate :: "ProbeSlotRequest \<Rightarrow> (ProbeSlotRequest, CommissioningWireError) result" where
  "probe_slot_validate self =
     (if ps_round_nonce self = 0 then Err CME_ZeroRoundNonce
      else if ps_slot_count self = 0 \<or> ps_slot_count self > MAX_COMMISSIONING_SLOTS \<or>
              \<not> is_power_of_two (ps_slot_count self)
      then Err (CME_InvalidSlotCount (ps_slot_count self))
      else if ps_slot_index self \<ge> ps_slot_count self
      then Err (CME_InvalidSlotIndex (ps_slot_index self) (ps_slot_count self))
      else Ok self)"

record CommissioningIdentity =
  ci_round_nonce :: u64
  ci_hardware_id :: HardwareId
  ci_board_revision :: u8
  ci_firmware :: FirmwareVersion
  ci_protocol :: ProtocolVersion

record AssignAddressRequest =
  aar_operation_id :: u32
  aar_round_nonce :: u64
  aar_hardware_id :: HardwareId
  aar_node_address :: u8

record AssignAddressResponse =
  aas_operation_id :: u32
  aas_hardware_id :: HardwareId
  aas_node_address :: u8

definition commissioning_slot :: "HardwareId \<Rightarrow> u64 \<Rightarrow> u16 \<Rightarrow> (u16, CommissioningWireError) result" where
  "commissioning_slot hardware_id round_nonce slot_count =
     and_then (probe_slot_validate \<lparr>ps_round_nonce = round_nonce, ps_slot_count = slot_count, ps_slot_index = 0\<rparr>)
       (\<lambda>_. and_then (copy_fields [(0, 8, to_le_bytes 8 round_nonce), (8, 16, hardware_id_bytes hardware_id)]
              (replicate 16 0)) (\<lambda>key.
         Ok (ucast (crc32c key mod ucast slot_count))))"

definition encode_probe_slot_request :: "ProbeSlotRequest \<Rightarrow> (bytes, CommissioningWireError) result" where
  "encode_probe_slot_request request =
     and_then (probe_slot_validate request) (\<lambda>_.
       copy_fields [(0, 8, to_le_bytes 8 (ps_round_nonce request)), (8, 10, to_le_bytes 2 (ps_slot_count request)),
                    (10, 12, to_le_bytes 2 (ps_slot_index request))]
         (replicate PROBE_SLOT_REQUEST_BYTES 0))"

definition decode_probe_slot_request :: "bytes \<Rightarrow> (ProbeSlotRequest, CommissioningWireError) result" where
  "decode_probe_slot_request payload =
     (if length payload \<noteq> PROBE_SLOT_REQUEST_BYTES then Err (CME_InvalidLength (length payload))
      else and_then (read_u64 payload 0) (\<lambda>round_nonce.
           and_then (read_u16 payload 8) (\<lambda>slot_count.
           and_then (read_u16 payload 10) (\<lambda>slot_index.
             probe_slot_validate \<lparr>ps_round_nonce = round_nonce, ps_slot_count = slot_count,
                                  ps_slot_index = slot_index\<rparr>))))"

definition commissioning_require_success :: "bytes \<Rightarrow> nat \<Rightarrow> (unit, CommissioningWireError) result" where
  "commissioning_require_success = require_success CME_InvalidLength CME_UnknownResponseStatus CME_Remote"

definition decode_probe_slot_response :: "bytes \<Rightarrow> (CommissioningIdentity, CommissioningWireError) result" where
  "decode_probe_slot_response payload =
     and_then (commissioning_require_success payload PROBE_SLOT_RESPONSE_BYTES) (\<lambda>_.
     and_then (read_u64 payload 1) (\<lambda>round_nonce.
     and_then (slice_at payload 9 17) (\<lambda>hw. and_then (hardware_id_from_bytes hw) (\<lambda>hardware_id.
     and_then (index_at payload 17) (\<lambda>board_revision.
     and_then (index_at payload 18) (\<lambda>major.
     and_then (index_at payload 19) (\<lambda>minor.
     and_then (index_at payload 20) (\<lambda>patch.
     and_then (index_at payload 21) (\<lambda>framing.
     and_then (index_at payload 22) (\<lambda>application.
       let v = \<lparr>ci_round_nonce = round_nonce, ci_hardware_id = hardware_id, ci_board_revision = board_revision,
                ci_firmware = \<lparr>fw_major = major, fw_minor = minor, fw_patch = patch\<rparr>,
                ci_protocol = \<lparr>pv_framing = framing, pv_application = application\<rparr>\<rparr>
       in if ci_round_nonce v = 0 then Err CME_ZeroRoundNonce
          else if ci_board_revision v = 0 then Err CME_InvalidBoardRevision
          else Ok v))))))))))"

definition encode_probe_slot_response :: "CommissioningIdentity \<Rightarrow> (bytes, CommissioningWireError) result" where
  "encode_probe_slot_response v =
     (if ci_round_nonce v = 0 then Err CME_ZeroRoundNonce
      else if ci_board_revision v = 0 then Err CME_InvalidBoardRevision
      else copy_fields
        [(0, 1, [response_status_code RS_Ok]), (1, 9, to_le_bytes 8 (ci_round_nonce v)),
         (9, 17, hardware_id_bytes (ci_hardware_id v)), (17, 18, [ci_board_revision v]),
         (18, 19, [fw_major (ci_firmware v)]), (19, 20, [fw_minor (ci_firmware v)]),
         (20, 21, [fw_patch (ci_firmware v)]), (21, 22, [pv_framing (ci_protocol v)]),
         (22, 23, [pv_application (ci_protocol v)])]
        (replicate PROBE_SLOT_RESPONSE_BYTES 0))"

definition validate_assignment :: "u32 \<Rightarrow> u64 \<Rightarrow> u8 \<Rightarrow> (unit, CommissioningWireError) result" where
  "validate_assignment operation_id round_nonce address =
     (if operation_id = 0 then Err CME_ZeroOperationId
      else if round_nonce = 0 then Err CME_ZeroRoundNonce
      else if \<not> (1 \<le> address \<and> address \<le> 253) then Err (CME_InvalidNodeAddress address)
      else Ok ())"

definition encode_assign_address_request :: "AssignAddressRequest \<Rightarrow> (bytes, CommissioningWireError) result" where
  "encode_assign_address_request request =
     and_then (validate_assignment (aar_operation_id request) (aar_round_nonce request) (aar_node_address request))
       (\<lambda>_. copy_fields
         [(0, 4, to_le_bytes 4 (aar_operation_id request)), (4, 12, to_le_bytes 8 (aar_round_nonce request)),
          (12, 20, hardware_id_bytes (aar_hardware_id request)), (20, 21, [aar_node_address request])]
         (replicate ASSIGN_ADDRESS_REQUEST_BYTES 0))"

definition decode_assign_address_request :: "bytes \<Rightarrow> (AssignAddressRequest, CommissioningWireError) result" where
  "decode_assign_address_request payload =
     (if length payload \<noteq> ASSIGN_ADDRESS_REQUEST_BYTES then Err (CME_InvalidLength (length payload))
      else and_then (read_u32 payload 0) (\<lambda>operation_id.
           and_then (read_u64 payload 4) (\<lambda>round_nonce.
           and_then (slice_at payload 12 20) (\<lambda>hw. and_then (hardware_id_from_bytes hw) (\<lambda>hardware_id.
           and_then (index_at payload 20) (\<lambda>node_address.
           and_then (validate_assignment operation_id round_nonce node_address) (\<lambda>_.
             Ok \<lparr>aar_operation_id = operation_id, aar_round_nonce = round_nonce,
                 aar_hardware_id = hardware_id, aar_node_address = node_address\<rparr>)))))))"

definition decode_assign_address_response :: "bytes \<Rightarrow> (AssignAddressResponse, CommissioningWireError) result" where
  "decode_assign_address_response payload =
     and_then (commissioning_require_success payload ASSIGN_ADDRESS_RESPONSE_BYTES) (\<lambda>_.
     and_then (read_u32 payload 1) (\<lambda>operation_id.
     and_then (slice_at payload 5 13) (\<lambda>hw. and_then (hardware_id_from_bytes hw) (\<lambda>hardware_id.
     and_then (index_at payload 13) (\<lambda>node_address.
     and_then (validate_assignment operation_id 1 node_address) (\<lambda>_.
       Ok \<lparr>aas_operation_id = operation_id, aas_hardware_id = hardware_id,
           aas_node_address = node_address\<rparr>))))))"

definition encode_assign_address_response :: "AssignAddressResponse \<Rightarrow> (bytes, CommissioningWireError) result" where
  "encode_assign_address_response v =
     and_then (validate_assignment (aas_operation_id v) 1 (aas_node_address v)) (\<lambda>_.
       copy_fields
         [(0, 1, [response_status_code RS_Ok]), (1, 5, to_le_bytes 4 (aas_operation_id v)),
          (5, 13, hardware_id_bytes (aas_hardware_id v)), (13, 14, [aas_node_address v])]
         (replicate ASSIGN_ADDRESS_RESPONSE_BYTES 0))"

section \<open>Round trips\<close>

definition probe_ok :: "ProbeSlotRequest \<Rightarrow> bool" where
  "probe_ok r \<longleftrightarrow> ps_round_nonce r \<noteq> 0 \<and> ps_slot_count r \<le> 256 \<and> is_power_of_two (ps_slot_count r) \<and>
     ps_slot_index r < ps_slot_count r"

lemma probe_slot_validate_Ok [result_iffs]: "probe_slot_validate r = Ok s \<longleftrightarrow> s = r \<and> probe_ok r"
  by (auto simp: probe_slot_validate_def probe_ok_def commissioning_sizes not_le not_less)

lemma probe_slot_validate_no_panic [simp]: "probe_slot_validate r \<noteq> Panic"
  by (simp add: probe_slot_validate_def)

lemma validate_assignment_Ok [result_iffs]:
  "validate_assignment i n a = Ok u \<longleftrightarrow> i \<noteq> 0 \<and> n \<noteq> 0 \<and> 1 \<le> a \<and> a \<le> 253"
  by (auto simp: validate_assignment_def)

lemma validate_assignment_no_panic [simp]: "validate_assignment i n a \<noteq> Panic"
  by (simp add: validate_assignment_def)

lemma commissioning_require_success_Ok [result_iffs]:
  "commissioning_require_success p n = Ok u \<longleftrightarrow> p \<noteq> [] \<and> hd p = 0 \<and> length p = n"
  by (simp add: commissioning_require_success_def)

lemma commissioning_require_success_no_panic [simp]: "commissioning_require_success p n \<noteq> Panic"
  by (simp add: commissioning_require_success_def)

definition probe_bytes :: "ProbeSlotRequest \<Rightarrow> bytes" where
  "probe_bytes r = to_le_bytes 8 (ps_round_nonce r) @ to_le_bytes 2 (ps_slot_count r) @
     to_le_bytes 2 (ps_slot_index r)"

lemma encode_probe_iff: "encode_probe_slot_request r = Ok p \<longleftrightarrow> probe_ok r \<and> p = probe_bytes r"
  by (auto simp: encode_probe_slot_request_def probe_bytes_def commissioning_sizes result_iffs)

lemma decode_probe_iff: "decode_probe_slot_request p = Ok r \<longleftrightarrow> probe_ok r \<and> p = probe_bytes r"
  by (auto simp: decode_probe_slot_request_def probe_bytes_def commissioning_sizes result_iffs read_defs
      to_from_le_bytes slices joins probe_ok_def split: if_splits)

interpretation probe_request: strict_codec encode_probe_slot_request decode_probe_slot_request probe_ok
  by (rule strict_codecI [OF encode_probe_iff decode_probe_iff])
    (auto simp: encode_probe_slot_request_def decode_probe_slot_request_def commissioning_sizes
      result_iffs read_defs)

definition commissioning_identity_ok :: "CommissioningIdentity \<Rightarrow> bool" where
  "commissioning_identity_ok v \<longleftrightarrow> ci_round_nonce v \<noteq> 0 \<and> ci_board_revision v \<noteq> 0"

definition commissioning_identity_bytes :: "CommissioningIdentity \<Rightarrow> bytes" where
  "commissioning_identity_bytes v = 0 # to_le_bytes 8 (ci_round_nonce v) @ hardware_id_bytes (ci_hardware_id v) @
     [ci_board_revision v, fw_major (ci_firmware v), fw_minor (ci_firmware v), fw_patch (ci_firmware v),
      pv_framing (ci_protocol v), pv_application (ci_protocol v)]"

lemma encode_probe_response_iff:
  "encode_probe_slot_response v = Ok p \<longleftrightarrow> commissioning_identity_ok v \<and> p = commissioning_identity_bytes v"
  by (auto simp: encode_probe_slot_response_def commissioning_identity_bytes_def commissioning_identity_ok_def
      commissioning_sizes result_iffs)

lemma decode_probe_response_iff:
  "decode_probe_slot_response p = Ok v \<longleftrightarrow> commissioning_identity_ok v \<and> p = commissioning_identity_bytes v"
proof
  assume d: "decode_probe_slot_response p = Ok v"
  then have "length p = 23" and "p \<noteq> []" "hd p = 0"
    by (auto simp: decode_probe_slot_response_def commissioning_sizes result_iffs)
  then obtain q where p: "p = 0 # q" and l: "length q = 22" by (cases p) auto
  have q: "q = sub 0 8 q @ sub 8 16 q @ [q ! 16, q ! 17, q ! 18, q ! 19, q ! 20, q ! 21]"
    using l by (simp add: joins sub_snoc)
  show "commissioning_identity_ok v \<and> p = commissioning_identity_bytes v"
    using d l q unfolding p
    by (auto simp: decode_probe_slot_response_def commissioning_sizes read_defs result_iffs Let_def
        commissioning_identity_bytes_def commissioning_identity_ok_def to_from_le_bytes slices
        dest!: hardware_id_from_bytes_Ok split: if_splits)
next
  assume "commissioning_identity_ok v \<and> p = commissioning_identity_bytes v"
  then show "decode_probe_slot_response p = Ok v"
    by (simp add: decode_probe_slot_response_def commissioning_sizes read_defs result_iffs Let_def
        commissioning_identity_bytes_def commissioning_identity_ok_def slices nth_append)
qed

interpretation probe_response: strict_codec encode_probe_slot_response decode_probe_slot_response
  commissioning_identity_ok
  by (rule strict_codecI [OF encode_probe_response_iff decode_probe_response_iff])
    (auto simp: encode_probe_slot_response_def decode_probe_slot_response_def commissioning_sizes
      result_iffs read_defs Let_def)

definition assign_request_ok :: "AssignAddressRequest \<Rightarrow> bool" where
  "assign_request_ok r \<longleftrightarrow> aar_operation_id r \<noteq> 0 \<and> aar_round_nonce r \<noteq> 0 \<and> 1 \<le> aar_node_address r \<and>
     aar_node_address r \<le> 253"

definition assign_request_bytes :: "AssignAddressRequest \<Rightarrow> bytes" where
  "assign_request_bytes r = to_le_bytes 4 (aar_operation_id r) @ to_le_bytes 8 (aar_round_nonce r) @
     hardware_id_bytes (aar_hardware_id r) @ [aar_node_address r]"

lemma encode_assign_request_iff:
  "encode_assign_address_request r = Ok p \<longleftrightarrow> assign_request_ok r \<and> p = assign_request_bytes r"
  by (auto simp: encode_assign_address_request_def assign_request_bytes_def assign_request_ok_def
      commissioning_sizes result_iffs)

lemma decode_assign_request_iff:
  "decode_assign_address_request p = Ok r \<longleftrightarrow> assign_request_ok r \<and> p = assign_request_bytes r"
proof
  assume d: "decode_assign_address_request p = Ok r"
  then have l: "length p = 21"
    by (auto simp: decode_assign_address_request_def commissioning_sizes split: if_splits)
  then have q: "p = sub 0 4 p @ sub 4 12 p @ sub 12 20 p @ [p ! 20]" by (simp add: joins sub_snoc)
  show "assign_request_ok r \<and> p = assign_request_bytes r"
    using d l q by (auto simp: decode_assign_address_request_def commissioning_sizes read_defs result_iffs
        assign_request_bytes_def assign_request_ok_def to_from_le_bytes dest!: hardware_id_from_bytes_Ok)
next
  assume "assign_request_ok r \<and> p = assign_request_bytes r"
  then show "decode_assign_address_request p = Ok r"
    by (simp add: decode_assign_address_request_def commissioning_sizes read_defs result_iffs
        assign_request_bytes_def assign_request_ok_def slices nth_append)
qed

interpretation assign_request: strict_codec encode_assign_address_request decode_assign_address_request
  assign_request_ok
  by (rule strict_codecI [OF encode_assign_request_iff decode_assign_request_iff])
    (auto simp: encode_assign_address_request_def decode_assign_address_request_def commissioning_sizes
      result_iffs read_defs)

definition assign_response_ok :: "AssignAddressResponse \<Rightarrow> bool" where
  "assign_response_ok r \<longleftrightarrow> aas_operation_id r \<noteq> 0 \<and> 1 \<le> aas_node_address r \<and> aas_node_address r \<le> 253"

definition assign_response_bytes :: "AssignAddressResponse \<Rightarrow> bytes" where
  "assign_response_bytes r = 0 # to_le_bytes 4 (aas_operation_id r) @ hardware_id_bytes (aas_hardware_id r) @
     [aas_node_address r]"

lemma encode_assign_response_iff:
  "encode_assign_address_response r = Ok p \<longleftrightarrow> assign_response_ok r \<and> p = assign_response_bytes r"
  by (auto simp: encode_assign_address_response_def assign_response_bytes_def assign_response_ok_def
      commissioning_sizes result_iffs)

lemma decode_assign_response_iff:
  "decode_assign_address_response p = Ok r \<longleftrightarrow> assign_response_ok r \<and> p = assign_response_bytes r"
proof
  assume d: "decode_assign_address_response p = Ok r"
  then have "length p = 14" and "p \<noteq> []" "hd p = 0"
    by (auto simp: decode_assign_address_response_def commissioning_sizes result_iffs)
  then obtain q where p: "p = 0 # q" and l: "length q = 13" by (cases p) auto
  have q: "q = sub 0 4 q @ sub 4 12 q @ [q ! 12]" using l by (simp add: joins sub_snoc)
  show "assign_response_ok r \<and> p = assign_response_bytes r"
    using d l q unfolding p
    by (auto simp: decode_assign_address_response_def commissioning_sizes read_defs result_iffs
        assign_response_bytes_def assign_response_ok_def to_from_le_bytes slices
        dest!: hardware_id_from_bytes_Ok)
next
  assume "assign_response_ok r \<and> p = assign_response_bytes r"
  then show "decode_assign_address_response p = Ok r"
    by (simp add: decode_assign_address_response_def commissioning_sizes read_defs result_iffs
        assign_response_bytes_def assign_response_ok_def slices nth_append)
qed

interpretation assign_response: strict_codec encode_assign_address_response decode_assign_address_response
  assign_response_ok
  by (rule strict_codecI [OF encode_assign_response_iff decode_assign_response_iff])
    (auto simp: encode_assign_address_response_def decode_assign_address_response_def commissioning_sizes
      result_iffs read_defs)

section \<open>Slots\<close>

lemma commissioning_slot_eq:
  "commissioning_slot h n c = and_then (probe_slot_validate \<lparr>ps_round_nonce = n, ps_slot_count = c, ps_slot_index = 0\<rparr>)
     (\<lambda>_. Ok (ucast (crc32c (to_le_bytes 8 n @ hardware_id_bytes h) mod ucast c)))"
  by (simp add: commissioning_slot_def)

lemma unat_ucast_mod:
  "c \<noteq> 0 \<Longrightarrow> unat (ucast ((x :: u32) mod ucast (c :: u16)) :: u16) = unat x mod unat c"
proof -
  assume c: "c \<noteq> 0"
  then have "unat x mod unat c < unat c" by (simp add: unat_gt_0)
  also have "\<dots> < 65536" by (rule unat_u16_bound)
  finally have "take_bit 16 (unat x mod unat c) = unat x mod unat c" by (simp add: take_bit_nat_eq_self_iff)
  moreover have "unat (x mod ucast c) = unat x mod unat c" by (simp add: unat_mod_distrib unat_ucast_up)
  ultimately show ?thesis by (simp add: unsigned_ucast_eq)
qed

lemma commissioning_slot_Ok:
  assumes "commissioning_slot h n c = Ok i"
  shows "unat i = unat (crc32c (to_le_bytes 8 n @ hardware_id_bytes h)) mod unat c"
    "probe_ok \<lparr>ps_round_nonce = n, ps_slot_count = c, ps_slot_index = i\<rparr>"
proof -
  from assms have i: "i = ucast (crc32c (to_le_bytes 8 n @ hardware_id_bytes h) mod ucast c)"
    and p: "probe_ok \<lparr>ps_round_nonce = n, ps_slot_count = c, ps_slot_index = 0\<rparr>"
    by (auto simp: commissioning_slot_eq result_iffs)
  then have c: "c \<noteq> 0" by (auto simp: probe_ok_def)
  show u: "unat i = unat (crc32c (to_le_bytes 8 n @ hardware_id_bytes h)) mod unat c"
    unfolding i by (rule unat_ucast_mod [OF c])
  have "unat i < unat c" using c by (simp add: u unat_gt_0)
  then show "probe_ok \<lparr>ps_round_nonce = n, ps_slot_count = c, ps_slot_index = i\<rparr>"
    using p by (simp add: probe_ok_def word_less_nat_alt)
qed


lemma is_power_of_two_16: "is_power_of_two 16"
proof -
  have "(16 :: u16) = push_bit 4 1" by (simp add: push_bit_eq_mult)
  then show ?thesis unfolding is_power_of_two_def by (metis atLeastLessThan_iff imageI list.set_map
        numeral_less_iff semiring_norm(76,78) set_upt zero_le)
qed


text \<open>Probe answers and address assignments are encoded to exactly the bytes that decode to
  them; an assignment is encodable exactly when it carries an operation, a round and an address
  in 1..253; and no payload makes a decoder panic.\<close>

lemma commissioning_messages_canonical:
  "(encode_probe_slot_response v = Ok bs \<longleftrightarrow> decode_probe_slot_response bs = Ok v) \<and>
   (encode_assign_address_request q = Ok bs \<longleftrightarrow> decode_assign_address_request bs = Ok q) \<and>
   (encode_assign_address_response a = Ok bs \<longleftrightarrow> decode_assign_address_response bs = Ok a) \<and>
   ((\<exists>bs. encode_assign_address_request q = Ok bs) \<longleftrightarrow> aar_operation_id q \<noteq> 0 \<and> aar_round_nonce q \<noteq> 0 \<and>
      1 \<le> aar_node_address q \<and> aar_node_address q \<le> 253) \<and>
   decode_probe_slot_request xs \<noteq> Panic \<and> decode_probe_slot_response xs \<noteq> Panic \<and>
   decode_assign_address_request xs \<noteq> Panic \<and> decode_assign_address_response xs \<noteq> Panic"
  by (auto simp: probe_response.encode_iff_decode assign_request.encode_iff_decode
      assign_response.encode_iff_decode assign_request.encode_ok_iff [unfolded
        assign_request.encode_iff_decode] assign_request_ok_def probe_request.decode_no_panic
      probe_response.decode_no_panic assign_request.decode_no_panic assign_response.decode_no_panic)

end
