(* ===== verification/Protocol_Lifecycle.thy ===== *)
theory Protocol_Lifecycle
  imports Protocol_Application
begin

text \<open>
  The lifecycle service of \<^verbatim>\<open>sensor-protocol/src/lifecycle_wire.rs\<close>: commands that start and stop
  recording, enter and leave maintenance, restart a node or prepare its update, and the
  result a node returns. \<open>RuntimeOperation\<close> is coded by its message identifier on the wire.
\<close>

definition LIFECYCLE_OPERATION_REQUEST_BYTES :: nat where "LIFECYCLE_OPERATION_REQUEST_BYTES = 4"
definition LIFECYCLE_PROFILE_REQUEST_BYTES :: nat where "LIFECYCLE_PROFILE_REQUEST_BYTES = 5"
definition LIFECYCLE_RESPONSE_BYTES :: nat where "LIFECYCLE_RESPONSE_BYTES = 9"

lemmas lifecycle_sizes = LIFECYCLE_OPERATION_REQUEST_BYTES_def LIFECYCLE_PROFILE_REQUEST_BYTES_def
  LIFECYCLE_RESPONSE_BYTES_def

datatype LifecycleWireError =
  LWE_InvalidLength | LWE_UnknownMessage u8 | LWE_ZeroOperationId | LWE_UnknownResponseStatus u8
| LWE_RemoteError ResponseStatus | LWE_UnknownResultCode u8 | LWE_UnknownRuntimeState u8
| LWE_UnknownObservabilityProfile u8 | LWE_UnknownSensorStatus u8

datatype RuntimeOperation =
  RO_GetState | RO_Start | RO_Stop | RO_EnterMaintenance | RO_ExitMaintenance | RO_SetObservabilityProfile | RO_PrepareFirmwareUpdate | RO_ConfirmTrialBoot | RO_RestartNode

fun runtime_message_id :: "RuntimeOperation \<Rightarrow> u8" where
  "runtime_message_id RO_GetState = 1"
| "runtime_message_id RO_Start = 2"
| "runtime_message_id RO_Stop = 3"
| "runtime_message_id RO_EnterMaintenance = 4"
| "runtime_message_id RO_ExitMaintenance = 5"
| "runtime_message_id RO_SetObservabilityProfile = 6"
| "runtime_message_id RO_PrepareFirmwareUpdate = 7"
| "runtime_message_id RO_ConfirmTrialBoot = 8"
| "runtime_message_id RO_RestartNode = 9"

definition runtime_from_message :: "u8 \<Rightarrow> (RuntimeOperation, LifecycleWireError) result" where
  "runtime_from_message v =
     (if v = 1 then Ok RO_GetState else if v = 2 then Ok RO_Start
      else if v = 3 then Ok RO_Stop else if v = 4 then Ok RO_EnterMaintenance
      else if v = 5 then Ok RO_ExitMaintenance
      else if v = 6 then Ok RO_SetObservabilityProfile
      else if v = 7 then Ok RO_PrepareFirmwareUpdate
      else if v = 8 then Ok RO_ConfirmTrialBoot else if v = 9 then Ok RO_RestartNode else Err (LWE_UnknownMessage v))"

interpretation runtime_operation: wire_code runtime_message_id runtime_from_message
proof
  show "runtime_from_message (runtime_message_id r) = Ok r" for r
    by (cases r) (simp_all add: runtime_from_message_def)
qed (auto simp: runtime_from_message_def split: if_splits)

datatype RuntimeState =
  RT_Idle | RT_Recording | RT_Stopping | RT_Maintenance | RT_Faulted

fun runtime_state_code :: "RuntimeState \<Rightarrow> u8" where
  "runtime_state_code RT_Idle = 0"
| "runtime_state_code RT_Recording = 1"
| "runtime_state_code RT_Stopping = 2"
| "runtime_state_code RT_Maintenance = 3"
| "runtime_state_code RT_Faulted = 4"

definition runtime_state_try_from :: "u8 \<Rightarrow> (RuntimeState, LifecycleWireError) result" where
  "runtime_state_try_from v =
     (if v = 0 then Ok RT_Idle else if v = 1 then Ok RT_Recording
      else if v = 2 then Ok RT_Stopping else if v = 3 then Ok RT_Maintenance
      else if v = 4 then Ok RT_Faulted else Err (LWE_UnknownRuntimeState v))"

interpretation runtime_state: wire_code runtime_state_code runtime_state_try_from
proof
  show "runtime_state_try_from (runtime_state_code r) = Ok r" for r
    by (cases r) (simp_all add: runtime_state_try_from_def)
qed (auto simp: runtime_state_try_from_def split: if_splits)

datatype ObservabilityProfile =
  OP_Production | OP_Diagnostic

fun observability_code :: "ObservabilityProfile \<Rightarrow> u8" where
  "observability_code OP_Production = 0"
| "observability_code OP_Diagnostic = 1"

definition observability_try_from :: "u8 \<Rightarrow> (ObservabilityProfile, LifecycleWireError) result" where
  "observability_try_from v =
     (if v = 0 then Ok OP_Production else if v = 1 then Ok OP_Diagnostic else Err (LWE_UnknownObservabilityProfile v))"

interpretation observability: wire_code observability_code observability_try_from
proof
  show "observability_try_from (observability_code r) = Ok r" for r
    by (cases r) (simp_all add: observability_try_from_def)
qed (auto simp: observability_try_from_def split: if_splits)

datatype RuntimeResultCode =
  RR_Ok | RR_InvalidOperation | RR_InvalidState | RR_InvalidArgument | RR_InProgress | RR_TransitionFailed | RR_Faulted

fun runtime_result_code :: "RuntimeResultCode \<Rightarrow> u8" where
  "runtime_result_code RR_Ok = 0"
| "runtime_result_code RR_InvalidOperation = 1"
| "runtime_result_code RR_InvalidState = 2"
| "runtime_result_code RR_InvalidArgument = 3"
| "runtime_result_code RR_InProgress = 4"
| "runtime_result_code RR_TransitionFailed = 5"
| "runtime_result_code RR_Faulted = 6"

definition runtime_result_try_from :: "u8 \<Rightarrow> (RuntimeResultCode, LifecycleWireError) result" where
  "runtime_result_try_from v =
     (if v = 0 then Ok RR_Ok else if v = 1 then Ok RR_InvalidOperation
      else if v = 2 then Ok RR_InvalidState else if v = 3 then Ok RR_InvalidArgument
      else if v = 4 then Ok RR_InProgress else if v = 5 then Ok RR_TransitionFailed
      else if v = 6 then Ok RR_Faulted else Err (LWE_UnknownResultCode v))"

interpretation runtime_result: wire_code runtime_result_code runtime_result_try_from
proof
  show "runtime_result_try_from (runtime_result_code r) = Ok r" for r
    by (cases r) (simp_all add: runtime_result_try_from_def)
qed (auto simp: runtime_result_try_from_def split: if_splits)

datatype SensorStatusCode =
  SS_Ok | SS_NotInitialized | SS_Busy | SS_CommError | SS_Timeout | SS_InvalidParam | SS_NotSupported | SS_InvalidDevice | SS_NoData | SS_InvalidSample | SS_InternalError

fun sensor_status_code :: "SensorStatusCode \<Rightarrow> u8" where
  "sensor_status_code SS_Ok = 0"
| "sensor_status_code SS_NotInitialized = 1"
| "sensor_status_code SS_Busy = 2"
| "sensor_status_code SS_CommError = 3"
| "sensor_status_code SS_Timeout = 4"
| "sensor_status_code SS_InvalidParam = 5"
| "sensor_status_code SS_NotSupported = 6"
| "sensor_status_code SS_InvalidDevice = 7"
| "sensor_status_code SS_NoData = 8"
| "sensor_status_code SS_InvalidSample = 9"
| "sensor_status_code SS_InternalError = 10"

definition sensor_status_try_from :: "u8 \<Rightarrow> (SensorStatusCode, LifecycleWireError) result" where
  "sensor_status_try_from v =
     (if v = 0 then Ok SS_Ok else if v = 1 then Ok SS_NotInitialized
      else if v = 2 then Ok SS_Busy else if v = 3 then Ok SS_CommError
      else if v = 4 then Ok SS_Timeout else if v = 5 then Ok SS_InvalidParam
      else if v = 6 then Ok SS_NotSupported else if v = 7 then Ok SS_InvalidDevice
      else if v = 8 then Ok SS_NoData else if v = 9 then Ok SS_InvalidSample
      else if v = 10 then Ok SS_InternalError else Err (LWE_UnknownSensorStatus v))"

interpretation sensor_status: wire_code sensor_status_code sensor_status_try_from
proof
  show "sensor_status_try_from (sensor_status_code r) = Ok r" for r
    by (cases r) (simp_all add: sensor_status_try_from_def)
qed (auto simp: sensor_status_try_from_def split: if_splits)

record RuntimeCommand =
  rc_operation_id :: u32
  rc_operation :: RuntimeOperation
  rc_requested_profile :: ObservabilityProfile

record EncodedRuntimeCommand =
  erc_message :: u8
  erc_payload :: bytes
  erc_payload_size :: nat

record RuntimeResult =
  rr_operation_id :: u32
  rr_code :: RuntimeResultCode
  rr_state :: RuntimeState
  rr_observability :: ObservabilityProfile
  rr_sensor_status :: SensorStatusCode

definition encode_lifecycle_request :: "RuntimeCommand \<Rightarrow> (EncodedRuntimeCommand, LifecycleWireError) result" where
  "encode_lifecycle_request command =
     (if rc_operation_id command = 0 then Err LWE_ZeroOperationId
      else and_then (copy_fields [(0, 4, to_le_bytes 4 (rc_operation_id command))]
                       (replicate LIFECYCLE_PROFILE_REQUEST_BYTES 0)) (\<lambda>payload.
        if rc_operation command = RO_SetObservabilityProfile
        then and_then (copy_fields [(4, 5, [observability_code (rc_requested_profile command)])] payload)
               (\<lambda>payload. Ok \<lparr>erc_message = runtime_message_id (rc_operation command), erc_payload = payload,
                             erc_payload_size = LIFECYCLE_PROFILE_REQUEST_BYTES\<rparr>)
        else Ok \<lparr>erc_message = runtime_message_id (rc_operation command), erc_payload = payload,
                 erc_payload_size = LIFECYCLE_OPERATION_REQUEST_BYTES\<rparr>))"

definition decode_lifecycle_request :: "u8 \<Rightarrow> bytes \<Rightarrow> (RuntimeCommand, LifecycleWireError) result" where
  "decode_lifecycle_request message payload =
     and_then (runtime_from_message message) (\<lambda>operation.
     let expected = (if operation = RO_SetObservabilityProfile then LIFECYCLE_PROFILE_REQUEST_BYTES
                     else LIFECYCLE_OPERATION_REQUEST_BYTES) in
     if length payload \<noteq> expected then Err LWE_InvalidLength
     else and_then (read_u32 payload 0) (\<lambda>operation_id.
       if operation_id = 0 then Err LWE_ZeroOperationId
       else and_then (if operation = RO_SetObservabilityProfile
                      then and_then (index_at payload 4) observability_try_from
                      else Ok OP_Production) (\<lambda>requested_profile.
         Ok \<lparr>rc_operation_id = operation_id, rc_operation = operation,
             rc_requested_profile = requested_profile\<rparr>)))"

definition encode_lifecycle_response :: "RuntimeResult \<Rightarrow> (bytes, LifecycleWireError) result" where
  "encode_lifecycle_response r =
     (if rr_operation_id r = 0 then Err LWE_ZeroOperationId
      else copy_fields
        [(0, 1, [response_status_code RS_Ok]), (1, 5, to_le_bytes 4 (rr_operation_id r)),
         (5, 6, [runtime_result_code (rr_code r)]), (6, 7, [runtime_state_code (rr_state r)]),
         (7, 8, [observability_code (rr_observability r)]), (8, 9, [sensor_status_code (rr_sensor_status r)])]
        (replicate LIFECYCLE_RESPONSE_BYTES 0))"

definition decode_lifecycle_response :: "bytes \<Rightarrow> (RuntimeResult, LifecycleWireError) result" where
  "decode_lifecycle_response payload =
     and_then (expect_ok_status LWE_InvalidLength LWE_UnknownResponseStatus LWE_RemoteError payload) (\<lambda>_.
       if length payload \<noteq> LIFECYCLE_RESPONSE_BYTES then Err LWE_InvalidLength
       else and_then (read_u32 payload 1) (\<lambda>operation_id.
         if operation_id = 0 then Err LWE_ZeroOperationId
         else and_then (index_at payload 5) (\<lambda>v5. and_then (runtime_result_try_from v5) (\<lambda>code.
              and_then (index_at payload 6) (\<lambda>v6. and_then (runtime_state_try_from v6) (\<lambda>state.
              and_then (index_at payload 7) (\<lambda>v7. and_then (observability_try_from v7) (\<lambda>observability.
              and_then (index_at payload 8) (\<lambda>v8. and_then (sensor_status_try_from v8) (\<lambda>sensor_status.
                Ok \<lparr>rr_operation_id = operation_id, rr_code = code, rr_state = state,
                    rr_observability = observability, rr_sensor_status = sensor_status\<rparr>))))))))))"

lemmas lifecycle_codes = runtime_operation.of_code_iff runtime_state.of_code_iff
  observability.of_code_iff runtime_result.of_code_iff sensor_status.of_code_iff

lemmas lifecycle_codes_to = runtime_operation.of_to runtime_state.of_to observability.of_to
  runtime_result.of_to sensor_status.of_to

lemmas lifecycle_codes_total = runtime_operation.no_panic runtime_state.no_panic
  observability.no_panic runtime_result.no_panic sensor_status.no_panic

definition lifecycle_payload :: "RuntimeResult \<Rightarrow> bytes" where
  "lifecycle_payload r = 0 # to_le_bytes 4 (rr_operation_id r) @ [runtime_result_code (rr_code r),
     runtime_state_code (rr_state r), observability_code (rr_observability r),
     sensor_status_code (rr_sensor_status r)]"

lemma decode_lifecycle_response_iff:
  "decode_lifecycle_response bs = Ok r \<longleftrightarrow> rr_operation_id r \<noteq> 0 \<and> bs = lifecycle_payload r"
proof
  assume d: "decode_lifecycle_response bs = Ok r"
  then obtain p where bs: "bs = 0 # p" by (cases bs) (auto simp: decode_lifecycle_response_def result_iffs)
  from d have l: "length p = 8" by (auto simp: bs decode_lifecycle_response_def result_iffs lifecycle_sizes
        split: if_splits)
  have p: "sub 0 4 p @ [p ! 4, p ! 5, p ! 6, p ! 7] = p"
    using l by (simp add: sub_snoc joins)
  from d l p show "rr_operation_id r \<noteq> 0 \<and> bs = lifecycle_payload r"
    by (auto simp: bs decode_lifecycle_response_def lifecycle_sizes read_defs result_iffs lifecycle_codes
        lifecycle_payload_def to_from_le_bytes slices split: if_splits)
next
  assume "rr_operation_id r \<noteq> 0 \<and> bs = lifecycle_payload r"
  then show "decode_lifecycle_response bs = Ok r"
    by (simp add: decode_lifecycle_response_def lifecycle_sizes read_defs result_iffs lifecycle_payload_def
        slices nth_append lifecycle_codes_to)
qed

interpretation lifecycle_response: strict_codec encode_lifecycle_response decode_lifecycle_response
  "\<lambda>r. rr_operation_id r \<noteq> 0"
proof
  fix r bs
  have e: "encode_lifecycle_response r = Ok (lifecycle_payload r)" if "rr_operation_id r \<noteq> 0"
    using that by (simp add: encode_lifecycle_response_def lifecycle_sizes lifecycle_payload_def)
  then show "\<exists>bs. encode_lifecycle_response r = Ok bs" if "rr_operation_id r \<noteq> 0" using that by simp
  show "decode_lifecycle_response bs = Ok r" if "rr_operation_id r \<noteq> 0" "encode_lifecycle_response r = Ok bs"
    using that e by (simp add: decode_lifecycle_response_iff)
  show "rr_operation_id r \<noteq> 0 \<and> encode_lifecycle_response r = Ok bs" if "decode_lifecycle_response bs = Ok r"
    using that e by (simp add: decode_lifecycle_response_iff)
  show "decode_lifecycle_response bs \<noteq> Panic"
    by (auto simp: decode_lifecycle_response_def lifecycle_sizes read_defs result_iffs lifecycle_codes_total)
  show "\<exists>e. encode_lifecycle_response r = Err e" if "\<not> rr_operation_id r \<noteq> 0"
    using that by (simp add: encode_lifecycle_response_def)
qed

text \<open>A request carries the profile only when it sets one; otherwise the node reads the default.\<close>

definition wire_command :: "RuntimeCommand \<Rightarrow> RuntimeCommand" where
  "wire_command c = (if rc_operation c = RO_SetObservabilityProfile then c
                     else c\<lparr>rc_requested_profile := OP_Production\<rparr>)"

lemma lifecycle_request_round_trip:
  assumes "rc_operation_id c \<noteq> 0"
  shows "\<exists>e. encode_lifecycle_request c = Ok e \<and> length (erc_payload e) = LIFECYCLE_PROFILE_REQUEST_BYTES \<and>
    decode_lifecycle_request (erc_message e) (take (erc_payload_size e) (erc_payload e)) = Ok (wire_command c)"
  using assms
  by (cases "rc_operation c = RO_SetObservabilityProfile")
    (simp_all add: runtime_operation.of_to [of RO_SetObservabilityProfile, simplified] encode_lifecycle_request_def decode_lifecycle_request_def lifecycle_sizes read_defs slices
      runtime_operation.of_to observability.of_to wire_command_def Let_def nth_append)

lemma decode_lifecycle_request_no_panic: "decode_lifecycle_request m p \<noteq> Panic"
  by (auto simp: decode_lifecycle_request_def lifecycle_sizes read_defs result_iffs lifecycle_codes_total Let_def
      split: if_splits)

text \<open>Lifecycle messages: every command with an operation identifier is encoded and read by the
  node as the same command (the profile travels only with the command that sets it), every
  result is decoded to itself and from no other bytes, and no payload makes a decoder panic.\<close>

lemma lifecycle_messages_round_trip:
  assumes "rc_operation_id c \<noteq> 0"
  shows "(\<exists>e. encode_lifecycle_request c = Ok e \<and>
      decode_lifecycle_request (erc_message e) (take (erc_payload_size e) (erc_payload e)) = Ok (wire_command c)) \<and>
    (encode_lifecycle_response r = Ok bs \<longleftrightarrow> decode_lifecycle_response bs = Ok r) \<and>
    decode_lifecycle_request m xs \<noteq> Panic \<and> decode_lifecycle_response xs \<noteq> Panic"
  using lifecycle_request_round_trip [OF assms]
  by (auto simp: lifecycle_response.encode_iff_decode lifecycle_response.decode_no_panic
      decode_lifecycle_request_no_panic)

end
