(* ===== verification/Protocol_Time.thy ===== *)
theory Protocol_Time
  imports Protocol_Application Core_Stream
begin

text \<open>
  The time service of \<^verbatim>\<open>sensor-protocol/src/time_wire.rs\<close>, whose answers feed the clock model of
  \<open>Core_Time\<close>, and the telemetry snapshot of \<^verbatim>\<open>sensor-protocol/src/telemetry_wire.rs\<close>.
\<close>

section \<open>Clock observations\<close>

definition OBSERVE_CLOCK_REQUEST_BYTES :: nat where "OBSERVE_CLOCK_REQUEST_BYTES = 0"
definition OBSERVE_CLOCK_RESPONSE_BYTES :: nat where "OBSERVE_CLOCK_RESPONSE_BYTES = 25"

datatype TimeWireError =
  TWE_InvalidRequestLength nat | TWE_InvalidResponseLength nat | TWE_InvalidRemoteErrorLength nat
| TWE_Status ApplicationContractError | TWE_Remote ResponseStatus | TWE_ZeroBootEpoch
| TWE_NodeClockRegressed

record TimeExchangeResponse =
  ter_boot_epoch :: BootEpoch
  ter_node_receive_us :: u64
  ter_node_send_us :: u64

definition time_exchange_validate :: "TimeExchangeResponse \<Rightarrow> (TimeExchangeResponse, TimeWireError) result" where
  "time_exchange_validate self =
     (if ter_boot_epoch self = 0 then Err TWE_ZeroBootEpoch
      else if ter_node_send_us self < ter_node_receive_us self then Err TWE_NodeClockRegressed
      else Ok self)"

definition validate_time_request :: "bytes \<Rightarrow> (unit, TimeWireError) result" where
  "validate_time_request payload =
     (if length payload = OBSERVE_CLOCK_REQUEST_BYTES then Ok ()
      else Err (TWE_InvalidRequestLength (length payload)))"

definition encode_time_success :: "TimeExchangeResponse \<Rightarrow> (bytes, TimeWireError) result" where
  "encode_time_success response =
     and_then (time_exchange_validate response) (\<lambda>response.
       copy_fields
         [(0, 1, [response_status_code RS_Ok]), (1, 9, to_le_bytes 8 (ter_boot_epoch response)),
          (9, 17, to_le_bytes 8 (ter_node_receive_us response)),
          (17, 25, to_le_bytes 8 (ter_node_send_us response))]
         (replicate OBSERVE_CLOCK_RESPONSE_BYTES 0))"

definition decode_time_response :: "bytes \<Rightarrow> (TimeExchangeResponse, TimeWireError) result" where
  "decode_time_response payload =
     (case payload of [] \<Rightarrow> Err (TWE_InvalidResponseLength 0)
      | status # _ \<Rightarrow>
        and_then (map_err TWE_Status (response_status_try_from status)) (\<lambda>status.
          if status \<noteq> RS_Ok
          then if length payload \<noteq> 1 then Err (TWE_InvalidRemoteErrorLength (length payload))
               else Err (TWE_Remote status)
          else if length payload \<noteq> OBSERVE_CLOCK_RESPONSE_BYTES
          then Err (TWE_InvalidResponseLength (length payload))
          else and_then (read_u64 payload 1) (\<lambda>boot_epoch.
               and_then (read_u64 payload 9) (\<lambda>node_receive_us.
               and_then (read_u64 payload 17) (\<lambda>node_send_us.
                 time_exchange_validate \<lparr>ter_boot_epoch = boot_epoch, ter_node_receive_us = node_receive_us,
                                         ter_node_send_us = node_send_us\<rparr>)))))"

definition time_exchange_ok :: "TimeExchangeResponse \<Rightarrow> bool" where
  "time_exchange_ok r \<longleftrightarrow> ter_boot_epoch r \<noteq> 0 \<and> ter_node_receive_us r \<le> ter_node_send_us r"

definition time_exchange_bytes :: "TimeExchangeResponse \<Rightarrow> bytes" where
  "time_exchange_bytes r = 0 # to_le_bytes 8 (ter_boot_epoch r) @ to_le_bytes 8 (ter_node_receive_us r) @
     to_le_bytes 8 (ter_node_send_us r)"

lemma time_exchange_validate_Ok [result_iffs]:
  "time_exchange_validate r = Ok s \<longleftrightarrow> s = r \<and> time_exchange_ok r"
  by (auto simp: time_exchange_validate_def time_exchange_ok_def not_less)

lemma time_exchange_validate_no_panic [simp]: "time_exchange_validate r \<noteq> Panic"
  by (simp add: time_exchange_validate_def)

lemma encode_time_iff: "encode_time_success r = Ok p \<longleftrightarrow> time_exchange_ok r \<and> p = time_exchange_bytes r"
  by (auto simp: encode_time_success_def time_exchange_bytes_def OBSERVE_CLOCK_RESPONSE_BYTES_def result_iffs)

lemma decode_time_iff: "decode_time_response p = Ok r \<longleftrightarrow> time_exchange_ok r \<and> p = time_exchange_bytes r"
proof
  assume d: "decode_time_response p = Ok r"
  then obtain q where p: "p = 0 # q" and l: "length q = 24"
    by (cases p) (auto simp: decode_time_response_def OBSERVE_CLOCK_RESPONSE_BYTES_def result_iffs
        response_status.of_code_iff split: if_splits)
  show "time_exchange_ok r \<and> p = time_exchange_bytes r"
    using d l unfolding p
    by (auto simp: decode_time_response_def OBSERVE_CLOCK_RESPONSE_BYTES_def result_iffs read_defs
        time_exchange_bytes_def to_from_le_bytes slices joins split: if_splits)
next
  assume "time_exchange_ok r \<and> p = time_exchange_bytes r"
  then show "decode_time_response p = Ok r"
    using response_status.of_to [of RS_Ok]
    by (simp add: decode_time_response_def OBSERVE_CLOCK_RESPONSE_BYTES_def result_iffs read_defs
        time_exchange_bytes_def time_exchange_ok_def slices)
qed

interpretation time_exchange: strict_codec encode_time_success decode_time_response time_exchange_ok
  by (rule strict_codecI [OF encode_time_iff decode_time_iff])
    (auto simp: encode_time_success_def decode_time_response_def OBSERVE_CLOCK_RESPONSE_BYTES_def
      result_iffs read_defs response_status.no_panic split: list.splits)

section \<open>Telemetry snapshots\<close>

definition TELEMETRY_SCHEMA_VERSION :: u8 where "TELEMETRY_SCHEMA_VERSION = 1"
definition TELEMETRY_SNAPSHOT_RESPONSE_BYTES :: nat where "TELEMETRY_SNAPSHOT_RESPONSE_BYTES = 14"
definition ADXL355_TEMPERATURE_FIELD :: u16 where "ADXL355_TEMPERATURE_FIELD = push_bit 0 1"

lemmas telemetry_sizes = TELEMETRY_SCHEMA_VERSION_def TELEMETRY_SNAPSHOT_RESPONSE_BYTES_def
  ADXL355_TEMPERATURE_FIELD_def

record TelemetrySnapshot =
  ts_captured_device_time_us :: u64
  ts_adxl355_temperature :: Adxl355TemperatureCode

datatype TelemetryWireError =
  TLE_InvalidLength | TLE_UnknownStatus u8 | TLE_Remote ResponseStatus | TLE_UnsupportedSchema u8
| TLE_InvalidFields u16 | TLE_ZeroCapturedTime | TLE_InvalidTemperature Adxl355TemperatureCodeError

definition decode_telemetry_snapshot :: "bytes \<Rightarrow> (TelemetrySnapshot, TelemetryWireError) result" where
  "decode_telemetry_snapshot payload =
     (case payload of [] \<Rightarrow> Err TLE_InvalidLength
      | status_byte # _ \<Rightarrow>
        and_then (map_err (\<lambda>_. TLE_UnknownStatus status_byte) (response_status_try_from status_byte)) (\<lambda>status.
          if status \<noteq> RS_Ok
          then if length payload \<noteq> 1 then Err TLE_InvalidLength else Err (TLE_Remote status)
          else if length payload \<noteq> TELEMETRY_SNAPSHOT_RESPONSE_BYTES then Err TLE_InvalidLength
          else and_then (index_at payload 1) (\<lambda>schema.
            if schema \<noteq> TELEMETRY_SCHEMA_VERSION then Err (TLE_UnsupportedSchema schema)
            else and_then (read_u64 payload 2) (\<lambda>captured_device_time_us.
              if captured_device_time_us = 0 then Err TLE_ZeroCapturedTime
              else and_then (read_u16 payload 10) (\<lambda>fields.
                if fields \<noteq> ADXL355_TEMPERATURE_FIELD then Err (TLE_InvalidFields fields)
                else and_then (read_u16 payload 12) (\<lambda>raw.
                     and_then (map_err TLE_InvalidTemperature (adxl355_temperature_code_new raw)) (\<lambda>temperature.
                       Ok \<lparr>ts_captured_device_time_us = captured_device_time_us,
                           ts_adxl355_temperature = temperature\<rparr>)))))))"

text \<open>The bytes of a snapshot, and the snapshots a node can report.\<close>

definition telemetry_bytes :: "TelemetrySnapshot \<Rightarrow> bytes" where
  "telemetry_bytes t = 0 # 1 # to_le_bytes 8 (ts_captured_device_time_us t) @ to_le_bytes 2 (1 :: u16) @
     to_le_bytes 2 (ts_adxl355_temperature t)"

definition telemetry_ok :: "TelemetrySnapshot \<Rightarrow> bool" where
  "telemetry_ok t \<longleftrightarrow> ts_captured_device_time_us t \<noteq> 0 \<and> 750 \<le> ts_adxl355_temperature t \<and>
     ts_adxl355_temperature t \<le> 2700"

lemma decode_telemetry_iff:
  "decode_telemetry_snapshot p = Ok t \<longleftrightarrow> telemetry_ok t \<and> p = telemetry_bytes t"
proof
  assume d: "decode_telemetry_snapshot p = Ok t"
  then obtain x q where p: "p = 0 # x # q" and l: "length q = 12"
    by (cases p; cases "tl p") (auto simp: decode_telemetry_snapshot_def telemetry_sizes result_iffs
        response_status.of_code_iff split: if_splits)
  have q: "q = sub 0 8 q @ sub 8 10 q @ sub 10 12 q" using l by (simp add: joins)
  have f: "sub 8 10 q = to_le_bytes 2 (1 :: u16)" if "from_le_bytes (sub 8 10 q) = (1 :: u16)"
  proof -
    have "to_le_bytes 2 (from_le_bytes (sub 8 10 q) :: u16) = sub 8 10 q"
      using l by (intro to_from_le_bytes) simp_all
    then show ?thesis using that by simp
  qed
  show "telemetry_ok t \<and> p = telemetry_bytes t"
    using d l q f unfolding p
    by (auto simp: decode_telemetry_snapshot_def telemetry_sizes result_iffs read_defs
        adxl355_temperature_code_new_def telemetry_bytes_def telemetry_ok_def to_from_le_bytes
        slices not_less split: if_splits)
next
  assume "telemetry_ok t \<and> p = telemetry_bytes t"
  then show "decode_telemetry_snapshot p = Ok t"
    using response_status.of_to [of RS_Ok]
    by (simp add: decode_telemetry_snapshot_def telemetry_sizes result_iffs read_defs
        adxl355_temperature_code_new_def telemetry_bytes_def telemetry_ok_def slices not_less)
qed

lemma decode_telemetry_no_panic: "decode_telemetry_snapshot p \<noteq> Panic"
  by (auto simp: decode_telemetry_snapshot_def telemetry_sizes result_iffs read_defs
      adxl355_temperature_code_new_def response_status.no_panic split: list.splits)

text \<open>A clock answer is encodable exactly when its boot epoch is set and the node clock did not
  run backwards, to exactly the bytes that decode to it; a telemetry snapshot decodes from
  exactly its own bytes and only within the sensor's temperature range; no payload makes either
  decoder panic.\<close>

lemma time_and_telemetry_canonical:
  "(encode_time_success r = Ok bs \<longleftrightarrow> decode_time_response bs = Ok r) \<and>
   ((\<exists>bs. decode_time_response bs = Ok r) \<longleftrightarrow>
      ter_boot_epoch r \<noteq> 0 \<and> ter_node_receive_us r \<le> ter_node_send_us r) \<and>
   (decode_telemetry_snapshot bs = Ok t \<longleftrightarrow> telemetry_ok t \<and> bs = telemetry_bytes t) \<and>
   decode_time_response xs \<noteq> Panic \<and> decode_telemetry_snapshot xs \<noteq> Panic"
  using time_exchange.encode_ok_iff [of r]
  by (auto simp: time_exchange.encode_iff_decode decode_telemetry_iff decode_telemetry_no_panic
      time_exchange.decode_no_panic time_exchange_ok_def)

end
