(* ===== verification/Protocol_Diagnostics.thy ===== *)
theory Protocol_Diagnostics
  imports Protocol_Application Core_Stream
begin

text \<open>
  The diagnostics service of \<^verbatim>\<open>sensor-protocol/src/diagnostics_wire.rs\<close>: diagnostic information, the
  last fault, the persistent record and pages of diagnostic events. The sources only decode these
  messages; the reference layouts below say which bytes each value comes from.
\<close>

definition DIAGNOSTIC_INFO_RESPONSE_BYTES :: nat where "DIAGNOSTIC_INFO_RESPONSE_BYTES = 25"
definition FAULT_SNAPSHOT_RESPONSE_BYTES :: nat where "FAULT_SNAPSHOT_RESPONSE_BYTES = 70"
definition PERSISTENT_DIAGNOSTIC_RECORD_RESPONSE_BYTES :: nat where
  "PERSISTENT_DIAGNOSTIC_RECORD_RESPONSE_BYTES = 84"
definition READ_DIAGNOSTIC_EVENTS_REQUEST_BYTES :: nat where "READ_DIAGNOSTIC_EVENTS_REQUEST_BYTES = 5"
definition DIAGNOSTIC_EVENTS_RESPONSE_HEADER_BYTES :: nat where "DIAGNOSTIC_EVENTS_RESPONSE_HEADER_BYTES = 12"
definition DIAGNOSTIC_EVENT_WIRE_BYTES :: nat where "DIAGNOSTIC_EVENT_WIRE_BYTES = 28"
definition MAX_DIAGNOSTIC_EVENTS_PER_RESPONSE :: u8 where "MAX_DIAGNOSTIC_EVENTS_PER_RESPONSE = 16"

lemmas diagnostic_sizes = DIAGNOSTIC_INFO_RESPONSE_BYTES_def FAULT_SNAPSHOT_RESPONSE_BYTES_def
  PERSISTENT_DIAGNOSTIC_RECORD_RESPONSE_BYTES_def READ_DIAGNOSTIC_EVENTS_REQUEST_BYTES_def
  DIAGNOSTIC_EVENTS_RESPONSE_HEADER_BYTES_def DIAGNOSTIC_EVENT_WIRE_BYTES_def
  MAX_DIAGNOSTIC_EVENTS_PER_RESPONSE_def

record DiagnosticInfo =
  di_reset_cause :: u8
  di_live_usb_enabled :: bool
  di_stored_event_count :: u16
  di_event_capacity :: u16
  di_dropped_event_count :: u32
  di_first_event_id :: u32
  di_next_event_id :: u32
  di_last_error_event_id :: u32
  di_last_error_code :: u16

record FaultSnapshot =
  fs_event_id :: u32
  fs_time_ms :: u32
  fs_event_code :: u16
  fs_severity :: u8
  fs_reset_cause :: u8
  fs_sample_seq :: u64
  fs_last_progress_ms :: u32
  fs_fifo_no_data :: u32
  fs_sensor_errors :: u32
  fs_dropped_samples :: u32
  fs_rx_overflow_count :: u32
  fs_packet_overwrite_count :: u32
  fs_debug_gpio_int1_edges :: u32
  fs_debug_gpio_drdy_edges :: u32
  fs_debug_config_snapshot :: u32
  fs_debug_irq_snapshot :: u32
  fs_arg0 :: i32
  fs_arg1 :: i32

record PersistentDiagnosticRecord =
  pd_generation :: u32
  pd_boot_counter :: u32
  pd_firmware_version :: u32
  pd_event_id :: u32
  pd_time_ms :: u32
  pd_event_code :: u16
  pd_severity :: u8
  pd_repeat_count :: u8
  pd_reset_cause :: u8
  pd_sample_seq :: u64
  pd_last_progress_ms :: u32
  pd_fifo_no_data :: u32
  pd_sensor_errors :: u32
  pd_dropped_samples :: u32
  pd_rx_overflow_count :: u32
  pd_packet_overwrite_count :: u32
  pd_debug_gpio_int1_edges :: u32
  pd_debug_gpio_drdy_edges :: u32
  pd_debug_config_snapshot :: u32
  pd_debug_irq_snapshot :: u32
  pd_arg0 :: i32
  pd_arg1 :: i32

record DiagnosticEvent =
  de_event_id :: u32
  de_time_ms :: u32
  de_event_code :: u16
  de_severity :: u8
  de_repeat_count :: u8
  de_sample_seq :: u64
  de_arg0 :: i32
  de_arg1 :: i32

record DiagnosticEventPage =
  dp_first_event_id :: u32
  dp_next_event_id :: u32
  dp_events :: "DiagnosticEvent list"

datatype DiagnosticsWireError =
  DGE_InvalidLength | DGE_InvalidPresence | DGE_InvalidBoolean | DGE_InvalidEventCount
| DGE_NonZeroReserved | DGE_Status ApplicationContractError | DGE_Remote ResponseStatus

definition encode_read_events_request :: "u32 \<Rightarrow> u8 \<Rightarrow> (bytes, DiagnosticsWireError) result" where
  "encode_read_events_request start_event_id maximum =
     (if maximum = 0 \<or> maximum > MAX_DIAGNOSTIC_EVENTS_PER_RESPONSE then Err DGE_InvalidEventCount
      else copy_fields [(0, 4, to_le_bytes 4 start_event_id), (4, 5, [maximum])]
             (replicate READ_DIAGNOSTIC_EVENTS_REQUEST_BYTES 0))"

definition diagnostics_require_ok :: "bytes \<Rightarrow> (unit, DiagnosticsWireError) result" where
  "diagnostics_require_ok payload =
     (case payload of [] \<Rightarrow> Err DGE_InvalidLength
      | status # _ \<Rightarrow> and_then (map_err DGE_Status (response_status_try_from status)) (\<lambda>status.
          if status \<noteq> RS_Ok then Err (DGE_Remote status) else Ok ()))"

definition decode_presence :: "bytes \<Rightarrow> (bool, DiagnosticsWireError) result" where
  "decode_presence payload =
     (if 1 < length payload
      then if payload ! 1 = 0 then Ok False else if payload ! 1 = 1 then Ok True else Err DGE_InvalidPresence
      else Err DGE_InvalidLength)"

definition decode_bool :: "u8 \<Rightarrow> (bool, DiagnosticsWireError) result" where
  "decode_bool v = (if v = 0 then Ok False else if v = 1 then Ok True else Err DGE_InvalidBoolean)"

definition diagnostics_require_length :: "bytes \<Rightarrow> nat \<Rightarrow> (unit, DiagnosticsWireError) result" where
  "diagnostics_require_length payload expected = (if length payload = expected then Ok () else Err DGE_InvalidLength)"

definition decode_diagnostic_info :: "bytes \<Rightarrow> (DiagnosticInfo, DiagnosticsWireError) result" where
  "decode_diagnostic_info payload =
     and_then (diagnostics_require_ok payload) (\<lambda>_.
     and_then (diagnostics_require_length payload DIAGNOSTIC_INFO_RESPONSE_BYTES) (\<lambda>_.
     and_then (index_at payload 2) (\<lambda>v2. and_then (decode_bool v2) (\<lambda>live_usb_enabled.
     and_then (index_at payload 1) (\<lambda>reset_cause.
     and_then (read_u16 payload 3) (\<lambda>stored_event_count.
     and_then (read_u16 payload 5) (\<lambda>event_capacity.
     and_then (read_u32 payload 7) (\<lambda>dropped_event_count.
     and_then (read_u32 payload 11) (\<lambda>first_event_id.
     and_then (read_u32 payload 15) (\<lambda>next_event_id.
     and_then (read_u32 payload 19) (\<lambda>last_error_event_id.
     and_then (read_u16 payload 23) (\<lambda>last_error_code.
       Ok \<lparr>di_reset_cause = reset_cause, di_live_usb_enabled = live_usb_enabled,
           di_stored_event_count = stored_event_count, di_event_capacity = event_capacity,
           di_dropped_event_count = dropped_event_count, di_first_event_id = first_event_id,
           di_next_event_id = next_event_id, di_last_error_event_id = last_error_event_id,
           di_last_error_code = last_error_code\<rparr>))))))))))))"

definition decode_fault_snapshot :: "bytes \<Rightarrow> (FaultSnapshot option, DiagnosticsWireError) result" where
  "decode_fault_snapshot payload =
     and_then (diagnostics_require_ok payload) (\<lambda>_.
     and_then (decode_presence payload) (\<lambda>present.
       if \<not> present then and_then (diagnostics_require_length payload 2) (\<lambda>_. Ok None)
       else
          and_then (diagnostics_require_length payload FAULT_SNAPSHOT_RESPONSE_BYTES) (\<lambda>_.
          and_then (read_u32 payload 2) (\<lambda>event_id.
          and_then (read_u32 payload 6) (\<lambda>time_ms.
          and_then (read_u16 payload 10) (\<lambda>event_code.
          and_then (index_at payload 12) (\<lambda>severity.
          and_then (index_at payload 13) (\<lambda>reset_cause.
          and_then (read_u64 payload 14) (\<lambda>sample_seq.
          and_then (read_u32 payload 22) (\<lambda>last_progress_ms.
          and_then (read_u32 payload 26) (\<lambda>fifo_no_data.
          and_then (read_u32 payload 30) (\<lambda>sensor_errors.
          and_then (read_u32 payload 34) (\<lambda>dropped_samples.
          and_then (read_u32 payload 38) (\<lambda>rx_overflow_count.
          and_then (read_u32 payload 42) (\<lambda>packet_overwrite_count.
          and_then (read_u32 payload 46) (\<lambda>debug_gpio_int1_edges.
          and_then (read_u32 payload 50) (\<lambda>debug_gpio_drdy_edges.
          and_then (read_u32 payload 54) (\<lambda>debug_config_snapshot.
          and_then (read_u32 payload 58) (\<lambda>debug_irq_snapshot.
          and_then (read_u32 payload 62) (\<lambda>arg0.
          and_then (read_u32 payload 66) (\<lambda>arg1.
            Ok (Some \<lparr>fs_event_id = event_id, fs_time_ms = time_ms, fs_event_code = event_code,
                      fs_severity = severity, fs_reset_cause = reset_cause, fs_sample_seq = sample_seq,
                      fs_last_progress_ms = last_progress_ms, fs_fifo_no_data = fifo_no_data,
                      fs_sensor_errors = sensor_errors, fs_dropped_samples = dropped_samples,
                      fs_rx_overflow_count = rx_overflow_count,
                      fs_packet_overwrite_count = packet_overwrite_count,
                      fs_debug_gpio_int1_edges = debug_gpio_int1_edges,
                      fs_debug_gpio_drdy_edges = debug_gpio_drdy_edges,
                      fs_debug_config_snapshot = debug_config_snapshot,
                      fs_debug_irq_snapshot = debug_irq_snapshot, fs_arg0 = arg0, fs_arg1 = arg1\<rparr>))))))))))))))))))))))"

definition decode_persistent_diagnostic_record ::
  "bytes \<Rightarrow> (PersistentDiagnosticRecord option, DiagnosticsWireError) result" where
  "decode_persistent_diagnostic_record payload =
     and_then (diagnostics_require_ok payload) (\<lambda>_.
     and_then (decode_presence payload) (\<lambda>present.
       if \<not> present then and_then (diagnostics_require_length payload 2) (\<lambda>_. Ok None)
       else
          and_then (diagnostics_require_length payload PERSISTENT_DIAGNOSTIC_RECORD_RESPONSE_BYTES) (\<lambda>_.
          and_then (index_at payload 27) (\<lambda>reserved.
          if reserved \<noteq> 0 then Err DGE_NonZeroReserved else
          and_then (read_u32 payload 2) (\<lambda>generation.
          and_then (read_u32 payload 6) (\<lambda>boot_counter.
          and_then (read_u32 payload 10) (\<lambda>firmware_version.
          and_then (read_u32 payload 14) (\<lambda>event_id.
          and_then (read_u32 payload 18) (\<lambda>time_ms.
          and_then (read_u16 payload 22) (\<lambda>event_code.
          and_then (index_at payload 24) (\<lambda>severity.
          and_then (index_at payload 25) (\<lambda>repeat_count.
          and_then (index_at payload 26) (\<lambda>reset_cause.
          and_then (read_u64 payload 28) (\<lambda>sample_seq.
          and_then (read_u32 payload 36) (\<lambda>last_progress_ms.
          and_then (read_u32 payload 40) (\<lambda>fifo_no_data.
          and_then (read_u32 payload 44) (\<lambda>sensor_errors.
          and_then (read_u32 payload 48) (\<lambda>dropped_samples.
          and_then (read_u32 payload 52) (\<lambda>rx_overflow_count.
          and_then (read_u32 payload 56) (\<lambda>packet_overwrite_count.
          and_then (read_u32 payload 60) (\<lambda>debug_gpio_int1_edges.
          and_then (read_u32 payload 64) (\<lambda>debug_gpio_drdy_edges.
          and_then (read_u32 payload 68) (\<lambda>debug_config_snapshot.
          and_then (read_u32 payload 72) (\<lambda>debug_irq_snapshot.
          and_then (read_u32 payload 76) (\<lambda>arg0.
          and_then (read_u32 payload 80) (\<lambda>arg1.
            Ok (Some \<lparr>pd_generation = generation, pd_boot_counter = boot_counter,
                      pd_firmware_version = firmware_version, pd_event_id = event_id,
                      pd_time_ms = time_ms, pd_event_code = event_code, pd_severity = severity,
                      pd_repeat_count = repeat_count, pd_reset_cause = reset_cause,
                      pd_sample_seq = sample_seq, pd_last_progress_ms = last_progress_ms,
                      pd_fifo_no_data = fifo_no_data, pd_sensor_errors = sensor_errors,
                      pd_dropped_samples = dropped_samples, pd_rx_overflow_count = rx_overflow_count,
                      pd_packet_overwrite_count = packet_overwrite_count,
                      pd_debug_gpio_int1_edges = debug_gpio_int1_edges,
                      pd_debug_gpio_drdy_edges = debug_gpio_drdy_edges,
                      pd_debug_config_snapshot = debug_config_snapshot,
                      pd_debug_irq_snapshot = debug_irq_snapshot, pd_arg0 = arg0, pd_arg1 = arg1\<rparr>)))))))))))))))))))))))))))"

text \<open>One turn of the loop over the events of a page, and the loop itself.\<close>

definition read_event :: "bytes \<Rightarrow> nat \<Rightarrow> (DiagnosticEvent, DiagnosticsWireError) result" where
  "read_event payload offset =
     and_then (read_u32 payload offset) (\<lambda>event_id.
     and_then (read_u32 payload (offset + 4)) (\<lambda>time_ms.
     and_then (read_u16 payload (offset + 8)) (\<lambda>event_code.
     and_then (index_at payload (offset + 10)) (\<lambda>severity.
     and_then (index_at payload (offset + 11)) (\<lambda>repeat_count.
     and_then (read_u64 payload (offset + 12)) (\<lambda>sample_seq.
     and_then (read_u32 payload (offset + 20)) (\<lambda>arg0.
     and_then (read_u32 payload (offset + 24)) (\<lambda>arg1.
       Ok \<lparr>de_event_id = event_id, de_time_ms = time_ms, de_event_code = event_code,
           de_severity = severity, de_repeat_count = repeat_count,
           de_sample_seq = sample_seq, de_arg0 = arg0, de_arg1 = arg1\<rparr>))))))))"

fun read_events :: "bytes \<Rightarrow> nat \<Rightarrow> nat \<Rightarrow> (DiagnosticEvent list, DiagnosticsWireError) result" where
  "read_events payload index 0 = Ok []"
| "read_events payload index (Suc left) =
     and_then (read_event payload
       (DIAGNOSTIC_EVENTS_RESPONSE_HEADER_BYTES + index * DIAGNOSTIC_EVENT_WIRE_BYTES)) (\<lambda>event.
     and_then (read_events payload (index + 1) left) (\<lambda>events. Ok (event # events)))"

definition decode_diagnostic_events :: "bytes \<Rightarrow> (DiagnosticEventPage, DiagnosticsWireError) result" where
  "decode_diagnostic_events payload =
     and_then (diagnostics_require_ok payload) (\<lambda>_.
       if length payload < DIAGNOSTIC_EVENTS_RESPONSE_HEADER_BYTES then Err DGE_InvalidLength
       else and_then (index_at payload 1) (\<lambda>v1.
         let count = unat v1
         in if count > unat MAX_DIAGNOSTIC_EVENTS_PER_RESPONSE then Err DGE_InvalidEventCount
            else and_then (index_at payload 2) (\<lambda>v2. and_then (index_at payload 3) (\<lambda>v3.
              if v2 \<noteq> 0 \<or> v3 \<noteq> 0 then Err DGE_NonZeroReserved
              else and_then (diagnostics_require_length payload
                     (DIAGNOSTIC_EVENTS_RESPONSE_HEADER_BYTES + count * DIAGNOSTIC_EVENT_WIRE_BYTES)) (\<lambda>_.
                   and_then (read_events payload 0 count) (\<lambda>events.
                   and_then (read_u32 payload 4) (\<lambda>first_event_id.
                   and_then (read_u32 payload 8) (\<lambda>next_event_id.
                     Ok \<lparr>dp_first_event_id = first_event_id, dp_next_event_id = next_event_id,
                         dp_events = events\<rparr>))))))))"

section \<open>Reference layouts\<close>

lemma diagnostics_require_ok_Ok [result_iffs]: "diagnostics_require_ok p = Ok u \<longleftrightarrow> p \<noteq> [] \<and> hd p = 0"
  by (cases p) (auto simp: diagnostics_require_ok_def result_iffs response_status.of_code_iff)

lemma diagnostics_require_ok_no_panic [simp]: "diagnostics_require_ok p \<noteq> Panic"
  by (cases p) (auto simp: diagnostics_require_ok_def result_iffs response_status.no_panic)

lemma diagnostics_require_length_Ok [result_iffs]: "diagnostics_require_length p n = Ok u \<longleftrightarrow> length p = n"
  by (simp add: diagnostics_require_length_def)

lemma decode_presence_Ok [result_iffs]:
  "decode_presence p = Ok b \<longleftrightarrow> 1 < length p \<and> p ! 1 = (if b then 1 else 0)"
  by (auto simp: decode_presence_def)

lemma decode_bool_Ok [result_iffs]: "decode_bool v = Ok b \<longleftrightarrow> v = (if b then 1 else 0)"
  by (auto simp: decode_bool_def)

lemma diagnostics_readers_no_panic [simp]:
  "diagnostics_require_length p n \<noteq> Panic" "decode_presence p \<noteq> Panic" "decode_bool v \<noteq> Panic"
  by (simp_all add: diagnostics_require_length_def decode_presence_def decode_bool_def)

definition info_bytes :: "DiagnosticInfo \<Rightarrow> bytes" where
  "info_bytes v = 0 # [di_reset_cause v, if di_live_usb_enabled v then 1 else 0] @
     to_le_bytes 2 (di_stored_event_count v) @ to_le_bytes 2 (di_event_capacity v) @
     to_le_bytes 4 (di_dropped_event_count v) @ to_le_bytes 4 (di_first_event_id v) @
     to_le_bytes 4 (di_next_event_id v) @ to_le_bytes 4 (di_last_error_event_id v) @
     to_le_bytes 2 (di_last_error_code v)"

definition fault_bytes :: "FaultSnapshot \<Rightarrow> bytes" where
  "fault_bytes v = 0 # 1 # to_le_bytes 4 (fs_event_id v) @ to_le_bytes 4 (fs_time_ms v) @
     to_le_bytes 2 (fs_event_code v) @ [fs_severity v] @ [fs_reset_cause v] @
     to_le_bytes 8 (fs_sample_seq v) @ to_le_bytes 4 (fs_last_progress_ms v) @
     to_le_bytes 4 (fs_fifo_no_data v) @ to_le_bytes 4 (fs_sensor_errors v) @
     to_le_bytes 4 (fs_dropped_samples v) @ to_le_bytes 4 (fs_rx_overflow_count v) @
     to_le_bytes 4 (fs_packet_overwrite_count v) @ to_le_bytes 4 (fs_debug_gpio_int1_edges v) @
     to_le_bytes 4 (fs_debug_gpio_drdy_edges v) @ to_le_bytes 4 (fs_debug_config_snapshot v) @
     to_le_bytes 4 (fs_debug_irq_snapshot v) @ to_le_bytes 4 (fs_arg0 v) @ to_le_bytes 4 (fs_arg1 v)"

definition persistent_bytes :: "PersistentDiagnosticRecord \<Rightarrow> bytes" where
  "persistent_bytes v = 0 # 1 # to_le_bytes 4 (pd_generation v) @ to_le_bytes 4 (pd_boot_counter v) @
     to_le_bytes 4 (pd_firmware_version v) @ to_le_bytes 4 (pd_event_id v) @
     to_le_bytes 4 (pd_time_ms v) @ to_le_bytes 2 (pd_event_code v) @ [pd_severity v] @
     [pd_repeat_count v] @ [pd_reset_cause v] @ [0] @ to_le_bytes 8 (pd_sample_seq v) @
     to_le_bytes 4 (pd_last_progress_ms v) @ to_le_bytes 4 (pd_fifo_no_data v) @
     to_le_bytes 4 (pd_sensor_errors v) @ to_le_bytes 4 (pd_dropped_samples v) @
     to_le_bytes 4 (pd_rx_overflow_count v) @ to_le_bytes 4 (pd_packet_overwrite_count v) @
     to_le_bytes 4 (pd_debug_gpio_int1_edges v) @ to_le_bytes 4 (pd_debug_gpio_drdy_edges v) @
     to_le_bytes 4 (pd_debug_config_snapshot v) @ to_le_bytes 4 (pd_debug_irq_snapshot v) @
     to_le_bytes 4 (pd_arg0 v) @ to_le_bytes 4 (pd_arg1 v)"

definition event_bytes :: "DiagnosticEvent \<Rightarrow> bytes" where
  "event_bytes v = to_le_bytes 4 (de_event_id v) @ to_le_bytes 4 (de_time_ms v) @
     to_le_bytes 2 (de_event_code v) @ [de_severity v] @ [de_repeat_count v] @
     to_le_bytes 8 (de_sample_seq v) @ to_le_bytes 4 (de_arg0 v) @ to_le_bytes 4 (de_arg1 v)"

definition page_bytes :: "DiagnosticEventPage \<Rightarrow> bytes" where
  "page_bytes v = 0 # of_nat (length (dp_events v)) # 0 # 0 # to_le_bytes 4 (dp_first_event_id v) @
     to_le_bytes 4 (dp_next_event_id v) @ concat (map event_bytes (dp_events v))"

lemma info_split:
  "length q = 24 \<Longrightarrow> q = [q ! 0] @ [q ! 1] @ sub 2 4 q @ sub 4 6 q @ sub 6 10 q @ sub 10 14 q @ sub 14 18 q @
     sub 18 22 q @ sub 22 24 q"
  by (simp add: joins sub_snoc Cons_sub)

lemma fault_split:
  "length q = 68 \<Longrightarrow> q = sub 0 4 q @ sub 4 8 q @ sub 8 10 q @ [q ! 10] @ [q ! 11] @ sub 12 20 q @ sub 20 24 q @
     sub 24 28 q @ sub 28 32 q @ sub 32 36 q @ sub 36 40 q @ sub 40 44 q @ sub 44 48 q @
     sub 48 52 q @ sub 52 56 q @ sub 56 60 q @ sub 60 64 q @ sub 64 68 q"
  by (simp add: joins sub_snoc)

lemma persistent_split:
  "length q = 82 \<Longrightarrow> q = sub 0 4 q @ sub 4 8 q @ sub 8 12 q @ sub 12 16 q @ sub 16 20 q @ sub 20 22 q @ [q ! 22] @
     [q ! 23] @ [q ! 24] @ [q ! 25] @ sub 26 34 q @ sub 34 38 q @ sub 38 42 q @ sub 42 46 q @
     sub 46 50 q @ sub 50 54 q @ sub 54 58 q @ sub 58 62 q @ sub 62 66 q @ sub 66 70 q @
     sub 70 74 q @ sub 74 78 q @ sub 78 82 q"
  by (simp add: joins sub_snoc)

lemma event_split:
  "length q = 28 \<Longrightarrow> q = sub 0 4 q @ sub 4 8 q @ sub 8 10 q @ [q ! 10] @ [q ! 11] @ sub 12 20 q @ sub 20 24 q @
     sub 24 28 q"
  by (simp add: joins sub_snoc)

section \<open>Decoders accept exactly the reference layouts\<close>

lemma decode_info_iff: "decode_diagnostic_info p = Ok v \<longleftrightarrow> p = info_bytes v"
proof
  assume d: "decode_diagnostic_info p = Ok v"
  then obtain q where p: "p = 0 # q" and l: "length q = 24"
    by (cases p) (auto simp: decode_diagnostic_info_def diagnostic_sizes result_iffs)
  show "p = info_bytes v"
    using d l info_split [OF l] unfolding p
    by (auto simp: decode_diagnostic_info_def diagnostic_sizes result_iffs read_defs info_bytes_def
        to_from_le_bytes slices)
next
  assume "p = info_bytes v"
  then show "decode_diagnostic_info p = Ok v"
    by (cases "di_live_usb_enabled v") (simp_all add: decode_diagnostic_info_def decode_bool_def
        diagnostic_sizes result_iffs read_defs info_bytes_def slices nth_append)
qed

lemma present_payload:
  assumes "p \<noteq> []" "hd p = 0" "1 < length p" "p ! 1 = 1"
  obtains q where "p = 0 # 1 # q"
  using assms by (cases p; cases "tl p") auto

lemma absent_payload:
  "diagnostics_require_ok p = Ok () \<and> decode_presence p = Ok False \<and> length p = 2 \<longleftrightarrow> p = [0, 0]"
  by (cases p; cases "tl p") (auto simp: result_iffs)

lemma decode_fault_iff:
  "decode_fault_snapshot p = Ok v \<longleftrightarrow> p = (case v of None \<Rightarrow> [0, 0] | Some f \<Rightarrow> fault_bytes f)"
proof (cases v)
  case None
  have "decode_fault_snapshot p = Ok None \<longleftrightarrow>
      diagnostics_require_ok p = Ok () \<and> decode_presence p = Ok False \<and> length p = 2"
    by (cases "decode_presence p"; cases "diagnostics_require_ok p")
      (auto simp: decode_fault_snapshot_def and_then_eq_Ok diagnostics_require_length_Ok)
  then show ?thesis using None by (simp add: absent_payload)
next
  case (Some f)
  have "p = fault_bytes f" if d: "decode_fault_snapshot p = Ok (Some f)"
  proof -
    from d have pp: "p \<noteq> []" "hd p = 0" "1 < length p" "p ! 1 = 1" and l: "length p = 70"
      by (auto simp: decode_fault_snapshot_def diagnostic_sizes result_iffs split: if_splits)
    from pp obtain q where p: "p = 0 # 1 # q" by (rule present_payload)
    with l have lq: "length q = 68" by simp
    show ?thesis
      using d lq fault_split [OF lq] unfolding p
      by (auto simp: decode_fault_snapshot_def diagnostic_sizes result_iffs read_defs fault_bytes_def
          to_from_le_bytes slices split: if_splits)
  qed
  moreover have "decode_fault_snapshot (fault_bytes f) = Ok (Some f)"
    by (simp add: decode_fault_snapshot_def decode_presence_def diagnostic_sizes result_iffs read_defs
        fault_bytes_def slices nth_append)
  ultimately show ?thesis using Some by auto
qed

lemma decode_persistent_iff:
  "decode_persistent_diagnostic_record p = Ok v \<longleftrightarrow>
   p = (case v of None \<Rightarrow> [0, 0] | Some f \<Rightarrow> persistent_bytes f)"
proof (cases v)
  case None
  have "decode_persistent_diagnostic_record p = Ok None \<longleftrightarrow>
      diagnostics_require_ok p = Ok () \<and> decode_presence p = Ok False \<and> length p = 2"
    by (cases "decode_presence p"; cases "diagnostics_require_ok p")
      (auto simp: decode_persistent_diagnostic_record_def and_then_eq_Ok diagnostics_require_length_Ok split: if_splits)
  then show ?thesis using None by (simp add: absent_payload)
next
  case (Some f)
  have "p = persistent_bytes f" if d: "decode_persistent_diagnostic_record p = Ok (Some f)"
  proof -
    from d have pp: "p \<noteq> []" "hd p = 0" "1 < length p" "p ! 1 = 1" and l: "length p = 84"
      by (auto simp: decode_persistent_diagnostic_record_def diagnostic_sizes result_iffs split: if_splits)
    from pp obtain q where p: "p = 0 # 1 # q" by (rule present_payload)
    with l have lq: "length q = 82" by simp
    show ?thesis
      using d lq persistent_split [OF lq] unfolding p
      by (auto simp: decode_persistent_diagnostic_record_def diagnostic_sizes result_iffs read_defs
          persistent_bytes_def to_from_le_bytes slices split: if_splits)
  qed
  moreover have "decode_persistent_diagnostic_record (persistent_bytes f) = Ok (Some f)"
    by (simp add: decode_persistent_diagnostic_record_def decode_presence_def diagnostic_sizes result_iffs
        read_defs persistent_bytes_def slices nth_append)
  ultimately show ?thesis using Some by auto
qed

lemma length_event_bytes [simp]: "length (event_bytes v) = 28"
  by (simp add: event_bytes_def)

lemma length_events_bytes [simp]: "length (concat (map event_bytes es)) = 28 * length es"
  by (induction es) auto

lemma read_event_iff:
  assumes l: "off + 28 \<le> length p"
  shows "read_event p off = Ok e \<longleftrightarrow> sub off (off + 28) p = event_bytes e"
proof -
  let ?q = "sub off (off + 28) p"
  have q: "length ?q = 28" using l by simp
  have nth: "p ! (off + 10) = ?q ! 10" "p ! (off + 11) = ?q ! 11"
    using l by (simp_all add: sub_def)
  have "read_event p off = read_event ?q 0"
    using l by (simp add: read_event_def read_defs slices nth ac_simps)
  moreover have "read_event r 0 = Ok e \<longleftrightarrow> r = event_bytes e" if r: "length r = 28" for r
  proof
    assume "read_event r 0 = Ok e"
    then show "r = event_bytes e"
      using r event_split [OF r] by (auto simp: read_event_def read_defs event_bytes_def to_from_le_bytes)
  next
    assume "r = event_bytes e"
    then show "read_event r 0 = Ok e"
      by (simp add: read_event_def read_defs event_bytes_def slices nth_append)
  qed
  ultimately show ?thesis using q by simp
qed

lemma read_events_iff:
  "12 + (i + n) * 28 \<le> length p \<Longrightarrow>
   read_events p i n = Ok es \<longleftrightarrow>
     length es = n \<and> sub (12 + i * 28) (12 + (i + n) * 28) p = concat (map event_bytes es)"
proof (induction n arbitrary: i es)
  case 0
  then show ?case by (auto simp: slices)
next
  case (Suc n)
  let ?o = "12 + i * 28" and ?e = "12 + (i + Suc n) * 28"
  have l: "?o + 28 \<le> length p" using Suc.prems by simp
  have j: "sub ?o ?e p = sub ?o (?o + 28) p @ sub (?o + 28) ?e p" by (simp add: joins)
  have ih: "read_events p (i + 1) n = Ok es' \<longleftrightarrow>
      length es' = n \<and> sub (?o + 28) ?e p = concat (map event_bytes es')" for es'
    using Suc.IH [of "i + 1" es'] Suc.prems by (simp add: algebra_simps)
  show ?case
  proof (cases es)
    case Nil
    then show ?thesis by (auto simp: result_iffs diagnostic_sizes)
  next
    case (Cons e es')
    have "sub ?o ?e p = concat (map event_bytes es) \<longleftrightarrow>
        sub ?o (?o + 28) p = event_bytes e \<and> sub (?o + 28) ?e p = concat (map event_bytes es')"
      unfolding j Cons using l by simp
    then show ?thesis
      using ih read_event_iff [OF l, of e] by (auto simp: result_iffs diagnostic_sizes Cons)
  qed
qed

lemma decode_events_iff:
  "decode_diagnostic_events p = Ok v \<longleftrightarrow> length (dp_events v) \<le> 16 \<and> p = page_bytes v"
proof
  assume d: "decode_diagnostic_events p = Ok v"
  then have h: "p \<noteq> []" "hd p = 0" and l: "length p = 12 + unat (p ! 1) * 28"
    and c: "unat (p ! 1) \<le> 16" "p ! 2 = 0" "p ! 3 = 0"
    and e: "read_events p 0 (unat (p ! 1)) = Ok (dp_events v)"
    and f: "from_le_bytes (sub 4 8 p) = dp_first_event_id v" "from_le_bytes (sub 8 12 p) = dp_next_event_id v"
    by (auto simp: decode_diagnostic_events_def diagnostic_sizes result_iffs read_defs Let_def split: if_splits)
  from e l have n: "length (dp_events v) = unat (p ! 1)"
    and es: "sub 12 (length p) p = concat (map event_bytes (dp_events v))"
    by (simp_all add: read_events_iff)
  have "p = p ! 0 # p ! 1 # p ! 2 # p ! 3 # sub 4 8 p @ sub 8 12 p @ sub 12 (length p) p"
    using l by (simp add: joins Cons_sub)
  also have "\<dots> = page_bytes v"
    using h c f l n es by (simp add: page_bytes_def to_from_le_bytes flip: f hd_conv_nth)
  finally show "length (dp_events v) \<le> 16 \<and> p = page_bytes v" using n c by simp
next
  assume a: "length (dp_events v) \<le> 16 \<and> p = page_bytes v"
  then have u: "unat (of_nat (length (dp_events v)) :: u8) = length (dp_events v)"
    by (simp add: unat_of_nat take_bit_nat_eq_self_iff)
  have "read_events (page_bytes v) 0 (length (dp_events v)) = Ok (dp_events v)"
    by (simp add: read_events_iff page_bytes_def sub_def)
  then show "decode_diagnostic_events p = Ok v"
    using a u by (simp add: decode_diagnostic_events_def diagnostic_sizes result_iffs read_defs Let_def
        page_bytes_def slices)
qed

lemma read_events_no_panic: "12 + (i + n) * 28 \<le> length p \<Longrightarrow> read_events p i n \<noteq> Panic"
  by (induction n arbitrary: i) (auto simp: result_iffs read_event_def read_defs diagnostic_sizes)

lemma diagnostics_decoders_no_panic:
  "decode_diagnostic_info p \<noteq> Panic" "decode_fault_snapshot p \<noteq> Panic"
  "decode_persistent_diagnostic_record p \<noteq> Panic" "decode_diagnostic_events p \<noteq> Panic"
proof -
  show "decode_diagnostic_info p \<noteq> Panic"
    by (auto simp: decode_diagnostic_info_def diagnostic_sizes result_iffs read_defs)
  show "decode_fault_snapshot p \<noteq> Panic"
    by (auto simp: decode_fault_snapshot_def diagnostic_sizes result_iffs read_defs split: if_splits)
  show "decode_persistent_diagnostic_record p \<noteq> Panic"
    by (auto simp: decode_persistent_diagnostic_record_def diagnostic_sizes result_iffs read_defs
        split: if_splits)
  show "decode_diagnostic_events p \<noteq> Panic"
    by (auto simp: decode_diagnostic_events_def diagnostic_sizes result_iffs read_defs Let_def
        read_events_no_panic split: if_splits)
qed

lemma encode_read_events_iff:
  "encode_read_events_request i n = Ok p \<longleftrightarrow> n \<noteq> 0 \<and> n \<le> 16 \<and> p = to_le_bytes 4 i @ [n]"
  by (auto simp: encode_read_events_request_def diagnostic_sizes not_less)

text \<open>Diagnostics: each decoder accepts exactly the reference layout of the value it returns (an
  absent fault or record is the two bytes \<open>00 00\<close>; a page holds at most sixteen events, whose
  number is the length of the payload), so no two payloads decode to one value; and no payload
  makes a decoder panic.\<close>

lemma diagnostics_decoders_exact:
  "(decode_diagnostic_info bs = Ok i \<longleftrightarrow> bs = info_bytes i) \<and>
   (decode_fault_snapshot bs = Ok f \<longleftrightarrow> bs = (case f of None \<Rightarrow> [0, 0] | Some s \<Rightarrow> fault_bytes s)) \<and>
   (decode_persistent_diagnostic_record bs = Ok r \<longleftrightarrow>
      bs = (case r of None \<Rightarrow> [0, 0] | Some s \<Rightarrow> persistent_bytes s)) \<and>
   (decode_diagnostic_events bs = Ok g \<longleftrightarrow> length (dp_events g) \<le> 16 \<and> bs = page_bytes g) \<and>
   decode_diagnostic_info xs \<noteq> Panic \<and> decode_fault_snapshot xs \<noteq> Panic \<and>
   decode_persistent_diagnostic_record xs \<noteq> Panic \<and> decode_diagnostic_events xs \<noteq> Panic"
  by (simp add: decode_info_iff decode_fault_iff decode_persistent_iff decode_events_iff
      diagnostics_decoders_no_panic)

end
