(* ===== verification/Host_Session.thy ===== *)
theory Host_Session
  imports Protocol_Measurement_Wire
begin

text \<open>
  The session of one node (\<^verbatim>\<open>sensor-host/src/node_session.rs\<close>): pulls, the records that answer them,
  and the durable receipts that allow the next pull to release samples on the node.
\<close>

section \<open>State and operations\<close>

record DurableReceipt =
  dr_hardware_id :: HardwareId
  dr_boot_epoch :: BootEpoch
  dr_end :: SequenceCursor

datatype SessionPhase =
  SP_Ready | SP_AwaitingPull | SP_PersistingChunk | SP_PersistingGap | SP_PersistingContinuityBreak
| SP_RecoveryRequired

datatype PendingChunk = PC_Legacy SampleChunkHeader "SampleAxes list" | PC_Wire SampleChunk

datatype PendingPersistence =
  PP_Chunk HardwareId SampleChunk | PP_Gap Gap | PP_ContinuityBreak ContinuityBreak

datatype SessionError =
  SE_UnexpectedPhase | SE_MissingPending | SE_SampleCountMismatch | SE_UnexpectedNoData
| SE_UnexpectedRangeUnavailable | SE_StreamChanged | SE_ReceiptIdentityMismatch
| SE_ReceiptCursorMismatch | SE_NonWirePending | SE_PendingAlreadyHandedOff | SE_Cursor CursorError
| SE_Contract MeasurementContractError | SE_Wire MeasurementWireError | SE_Gap GapError
| SE_ContinuityBreak ContinuityBreakError

fun pending_receipt_of :: "PendingPersistence \<Rightarrow> (DurableReceipt, 'e) result" where
  "pending_receipt_of (PP_Chunk hardware_id chunk) =
     and_then (add_unchecked (sch_first (sc_header chunk)) (u64_from (sch_sample_count (sc_header chunk))))
       (\<lambda>e. Ok \<lparr>dr_hardware_id = hardware_id, dr_boot_epoch = sch_boot_epoch (sc_header chunk), dr_end = e\<rparr>)"
| "pending_receipt_of (PP_Gap gap) =
     and_then (add_unchecked (gap_first_missing gap) (gap_missing_count gap))
       (\<lambda>e. Ok \<lparr>dr_hardware_id = gap_hardware_id gap, dr_boot_epoch = gap_boot_epoch gap, dr_end = e\<rparr>)"
| "pending_receipt_of (PP_ContinuityBreak observed) =
     and_then (continuity_break_end observed)
       (\<lambda>e. Ok \<lparr>dr_hardware_id = cb_hardware_id observed, dr_boot_epoch = cb_boot_epoch observed, dr_end = e\<rparr>)"

fun pending_chunk_samples :: "PendingChunk \<Rightarrow> SampleAxes list" where
  "pending_chunk_samples (PC_Legacy header samples) = samples"
| "pending_chunk_samples (PC_Wire chunk) = sc_samples chunk"

record NodeSession =
  ns_hardware_id :: HardwareId
  ns_boot_epoch :: BootEpoch
  ns_cursors :: DeliveryCursors
  ns_phase :: SessionPhase
  ns_active_pull :: "PullSamplesRequest option"
  ns_pending_chunk :: "PendingChunk option"
  ns_pending_gap :: "Gap option"
  ns_pending_continuity_break :: "ContinuityBreak option"
  ns_pending_receipt :: "DurableReceipt option"

definition session_recovered ::
  "HardwareId \<Rightarrow> BootEpoch \<Rightarrow> SequenceCursor \<Rightarrow> SequenceCursor \<Rightarrow> (NodeSession, SessionError) result" where
  "session_recovered hardware_id boot_epoch durable released =
     and_then (map_err SE_Cursor (delivery_new durable durable released)) (\<lambda>cursors.
       Ok \<lparr>ns_hardware_id = hardware_id, ns_boot_epoch = boot_epoch, ns_cursors = cursors,
           ns_phase = SP_Ready, ns_active_pull = None, ns_pending_chunk = None, ns_pending_gap = None,
           ns_pending_continuity_break = None, ns_pending_receipt = None\<rparr>)"

text \<open>\<open>self.cursors.op(..)?\<close> inside a session method.\<close>

definition with_cursors ::
  "NodeSession \<Rightarrow> (DeliveryCursors, 'a, CursorError) outcome \<Rightarrow>
     ('a \<Rightarrow> NodeSession \<Rightarrow> (NodeSession, 'b, SessionError) outcome) \<Rightarrow> (NodeSession, 'b, SessionError) outcome" where
  "with_cursors self out k =
     (let self = self\<lparr>ns_cursors := snd out\<rparr> in try_with (map_err SE_Cursor (fst out)) self (\<lambda>x. k x self))"

definition require_phase :: "NodeSession \<Rightarrow> SessionPhase \<Rightarrow> (unit, SessionError) result" where
  "require_phase self expected = (if ns_phase self = expected then Ok () else Err SE_UnexpectedPhase)"

definition session_active_pull :: "NodeSession \<Rightarrow> (PullSamplesRequest, SessionError) result" where
  "session_active_pull self =
     and_then (require_phase self SP_AwaitingPull) (\<lambda>_. ok_or (ns_active_pull self) SE_MissingPending)"

definition validate_state_for_active_stream ::
  "NodeSession \<Rightarrow> StreamState \<Rightarrow> (NodeSession, StreamState, SessionError) outcome" where
  "validate_state_for_active_stream self state =
     try_with (map_err SE_Contract (stream_state_validate state)) self (\<lambda>state.
       if ss_boot_epoch state \<noteq> ns_boot_epoch self
       then (Err SE_StreamChanged, self\<lparr>ns_phase := SP_RecoveryRequired\<rparr>)
       else (Ok state, self))"

definition enter_recovery :: "NodeSession \<Rightarrow> SessionError \<Rightarrow> (NodeSession, 't, SessionError) outcome" where
  "enter_recovery self e =
     (Err e, self\<lparr>ns_active_pull := None, ns_phase := SP_RecoveryRequired\<rparr>)"

definition begin_pull :: "NodeSession \<Rightarrow> u16 \<Rightarrow> (NodeSession, PullSamplesRequest, SessionError) outcome" where
  "begin_pull self max_samples =
     try_with (require_phase self SP_Ready) self (\<lambda>_.
     try_with (map_err SE_Contract (pull_samples_request_new (ns_boot_epoch self)
                 (dc_received (ns_cursors self)) (dc_durable (ns_cursors self)) max_samples)) self (\<lambda>request.
       (Ok request, self\<lparr>ns_active_pull := Some request, ns_phase := SP_AwaitingPull\<rparr>)))"

definition abandon_pull_for_retry :: "NodeSession \<Rightarrow> (NodeSession, unit, SessionError) outcome" where
  "abandon_pull_for_retry self =
     try_with (require_phase self SP_AwaitingPull) self (\<lambda>_.
       (Ok (), self\<lparr>ns_active_pull := None, ns_phase := SP_Ready\<rparr>))"

definition accept_chunk ::
  "NodeSession \<Rightarrow> SampleChunkHeader \<Rightarrow> SampleAxes list \<Rightarrow> (NodeSession, unit, SessionError) outcome" where
  "accept_chunk self header samples =
     try_with (session_active_pull self) self (\<lambda>request.
       case chunk_validate_for header request of
         Panic \<Rightarrow> (Panic, self)
       | Err e \<Rightarrow> enter_recovery self (SE_Contract e)
       | Ok header \<Rightarrow>
         if length samples \<noteq> unat (sch_sample_count header) then enter_recovery self SE_SampleCountMismatch
         else let self = self\<lparr>ns_active_pull := None\<rparr> in
           with_cursors self (mark_released (ns_cursors self) (psr_release_before request)) (\<lambda>_ self.
           with_cursors self (accept_contiguous (ns_cursors self) (next_sample (sch_first header))
                                (sch_sample_count header)) (\<lambda>_ self.
           let self = self\<lparr>ns_pending_chunk := Some (PC_Legacy header samples)\<rparr> in
           try_with (map_err SE_Contract (chunk_end header)) self (\<lambda>e.
             (Ok (), self\<lparr>ns_pending_receipt := Some \<lparr>dr_hardware_id = ns_hardware_id self,
                            dr_boot_epoch = ns_boot_epoch self, dr_end = e\<rparr>,
                          ns_phase := SP_PersistingChunk\<rparr>)))))"

definition accept_wire_chunk :: "NodeSession \<Rightarrow> SampleChunk \<Rightarrow> (NodeSession, unit, SessionError) outcome" where
  "accept_wire_chunk self chunk =
     try_with (map_err SE_Wire (sample_chunk_validate chunk)) self (\<lambda>_.
     try_with (session_active_pull self) self (\<lambda>request.
       case chunk_validate_for (sc_header chunk) request of
         Panic \<Rightarrow> (Panic, self)
       | Err e \<Rightarrow> enter_recovery self (SE_Contract e)
       | Ok header \<Rightarrow>
         if length (sc_samples chunk) \<noteq> unat (sch_sample_count header)
         then enter_recovery self SE_SampleCountMismatch
         else let self = self\<lparr>ns_active_pull := None\<rparr> in
           with_cursors self (mark_released (ns_cursors self) (psr_release_before request)) (\<lambda>_ self.
           with_cursors self (accept_contiguous (ns_cursors self) (next_sample (sch_first header))
                                (sch_sample_count header)) (\<lambda>_ self.
           try_with (map_err SE_Contract (chunk_end header)) self (\<lambda>e.
             (Ok (), self\<lparr>ns_pending_receipt := Some \<lparr>dr_hardware_id = ns_hardware_id self,
                            dr_boot_epoch = ns_boot_epoch self, dr_end = e\<rparr>,
                          ns_pending_chunk := Some (PC_Wire chunk), ns_phase := SP_PersistingChunk\<rparr>))))))"

definition accept_no_data :: "NodeSession \<Rightarrow> StreamState \<Rightarrow> (NodeSession, unit, SessionError) outcome" where
  "accept_no_data self state =
     try_with (session_active_pull self) self (\<lambda>request.
       case validate_state_for_active_stream self state of
         (Panic, self) \<Rightarrow> (Panic, self)
       | (Err e, self) \<Rightarrow> (Err e, self)
       | (Ok state, self) \<Rightarrow>
         if psr_from request \<noteq> ss_produced state then enter_recovery self SE_UnexpectedNoData
         else let self = self\<lparr>ns_active_pull := None\<rparr> in
           with_cursors self (mark_released (ns_cursors self) (psr_release_before request)) (\<lambda>_ self.
             (Ok (), self\<lparr>ns_phase := SP_Ready\<rparr>)))"

text \<open>The end of both ways a gap is accepted.\<close>

definition record_gap :: "NodeSession \<Rightarrow> Gap \<Rightarrow> (NodeSession, Gap, SessionError) outcome" where
  "record_gap self gap =
     with_cursors self (account_gap (ns_cursors self) (gap_first_missing gap) (gap_missing_count gap)) (\<lambda>_ self.
       let self = self\<lparr>ns_pending_gap := Some gap\<rparr> in
       try_with (add_unchecked (gap_first_missing gap) (gap_missing_count gap)) self (\<lambda>e.
         (Ok gap, self\<lparr>ns_pending_receipt := Some \<lparr>dr_hardware_id = gap_hardware_id gap,
                         dr_boot_epoch = gap_boot_epoch gap, dr_end = e\<rparr>,
                       ns_phase := SP_PersistingGap\<rparr>)))"

definition accept_range_unavailable ::
  "NodeSession \<Rightarrow> StreamState \<Rightarrow> (NodeSession, Gap, SessionError) outcome" where
  "accept_range_unavailable self state =
     try_with (session_active_pull self) self (\<lambda>request.
       case validate_state_for_active_stream self state of
         (Panic, self) \<Rightarrow> (Panic, self)
       | (Err e, self) \<Rightarrow> (Err e, self)
       | (Ok state, self) \<Rightarrow>
         if psr_from request \<ge> ss_retained_from state then enter_recovery self SE_UnexpectedRangeUnavailable
         else let self = self\<lparr>ns_active_pull := None\<rparr> in
           with_cursors self (mark_released (ns_cursors self) (psr_release_before request)) (\<lambda>_ self.
           try_with (sub_unchecked (ss_retained_from state) (psr_from request)) self (\<lambda>missing_count.
           try_with (map_err SE_Gap (gap_new (ns_hardware_id self) (ns_boot_epoch self)
                       (next_sample (psr_from request)) missing_count JournalOverflow)) self (\<lambda>gap.
             record_gap self gap))))"

definition accept_gap :: "NodeSession \<Rightarrow> GapEvidence \<Rightarrow> (NodeSession, Gap, SessionError) outcome" where
  "accept_gap self evidence =
     try_with (session_active_pull self) self (\<lambda>request.
       case gap_validate_for evidence request of
         Panic \<Rightarrow> (Panic, self)
       | Err e \<Rightarrow> enter_recovery self (SE_Contract e)
       | Ok evidence \<Rightarrow>
         let self = self\<lparr>ns_active_pull := None\<rparr> in
           with_cursors self (mark_released (ns_cursors self) (psr_release_before request)) (\<lambda>_ self.
           try_with (map_err SE_Gap (gap_new (ns_hardware_id self) (ns_boot_epoch self)
                       (next_sample (ge_first_missing evidence)) (ge_missing_count evidence)
                       (ge_reason evidence))) self (\<lambda>gap.
             record_gap self gap)))"

definition accept_continuity_break ::
  "NodeSession \<Rightarrow> ContinuityBreakEvidence \<Rightarrow> (NodeSession, ContinuityBreak, SessionError) outcome" where
  "accept_continuity_break self evidence =
     try_with (session_active_pull self) self (\<lambda>request.
       case break_validate_for evidence request of
         Panic \<Rightarrow> (Panic, self)
       | Err e \<Rightarrow> enter_recovery self (SE_Contract e)
       | Ok evidence \<Rightarrow>
         let self = self\<lparr>ns_active_pull := None\<rparr> in
           with_cursors self (mark_released (ns_cursors self) (psr_release_before request)) (\<lambda>_ self.
           try_with (map_err SE_ContinuityBreak (continuity_break_new (ns_hardware_id self)
                       (ns_boot_epoch self) (cbe_at evidence) (cbe_reason evidence))) self (\<lambda>observed.
           with_cursors self (account_continuity_break (ns_cursors self) (cb_at observed)) (\<lambda>_ self.
           let self = self\<lparr>ns_pending_continuity_break := Some observed\<rparr> in
           try_with (continuity_break_end observed) self (\<lambda>e.
             (Ok observed, self\<lparr>ns_pending_receipt := Some \<lparr>dr_hardware_id = cb_hardware_id observed,
                                  dr_boot_epoch = cb_boot_epoch observed, dr_end = e\<rparr>,
                                ns_phase := SP_PersistingContinuityBreak\<rparr>))))))"

definition stream_changed :: "NodeSession \<Rightarrow> (NodeSession, unit, SessionError) outcome" where
  "stream_changed self =
     try_with (require_phase self SP_AwaitingPull) self (\<lambda>_.
       (Ok (), self\<lparr>ns_active_pull := None, ns_phase := SP_RecoveryRequired\<rparr>))"

definition invalid_release :: "NodeSession \<Rightarrow> StreamState \<Rightarrow> (NodeSession, unit, SessionError) outcome" where
  "invalid_release self state =
     try_with (session_active_pull self) self (\<lambda>_.
       case validate_state_for_active_stream self state of
         (Panic, self) \<Rightarrow> (Panic, self)
       | (Err e, self) \<Rightarrow> (Err e, self)
       | (Ok _, self) \<Rightarrow> (Ok (), self\<lparr>ns_active_pull := None, ns_phase := SP_RecoveryRequired\<rparr>))"

definition fail_pull_for_recovery :: "NodeSession \<Rightarrow> (NodeSession, unit, SessionError) outcome" where
  "fail_pull_for_recovery self =
     try_with (require_phase self SP_AwaitingPull) self (\<lambda>_.
       (Ok (), self\<lparr>ns_active_pull := None, ns_phase := SP_RecoveryRequired\<rparr>))"

definition pending_samples :: "NodeSession \<Rightarrow> SampleAxes list option" where
  "pending_samples self = map_option pending_chunk_samples (ns_pending_chunk self)"

definition pending_wire_chunk :: "NodeSession \<Rightarrow> SampleChunk option" where
  "pending_wire_chunk self = (case ns_pending_chunk self of Some (PC_Wire chunk) \<Rightarrow> Some chunk | _ \<Rightarrow> None)"

text \<open>The check that ends the hand-off of a record.\<close>

definition hand_off ::
  "NodeSession \<Rightarrow> PendingPersistence \<Rightarrow> (NodeSession, PendingPersistence, SessionError) outcome" where
  "hand_off self record_value =
     try_with (pending_receipt_of record_value) self (\<lambda>receipt.
       if Some receipt \<noteq> ns_pending_receipt self then (Err SE_ReceiptCursorMismatch, self)
       else (Ok record_value, self))"

definition take_pending_persistence :: "NodeSession \<Rightarrow> (NodeSession, PendingPersistence, SessionError) outcome" where
  "take_pending_persistence self =
     (case ns_phase self of
        SP_PersistingChunk \<Rightarrow>
          (case ns_pending_chunk self of
             Some (PC_Wire chunk) \<Rightarrow>
               hand_off (self\<lparr>ns_pending_chunk := None\<rparr>) (PP_Chunk (ns_hardware_id self) chunk)
           | Some (PC_Legacy header samples) \<Rightarrow> (Err SE_NonWirePending, self)
           | None \<Rightarrow> (Err SE_PendingAlreadyHandedOff, self))
      | SP_PersistingGap \<Rightarrow>
          (case ns_pending_gap self of
             Some gap \<Rightarrow> hand_off (self\<lparr>ns_pending_gap := None\<rparr>) (PP_Gap gap)
           | None \<Rightarrow> (Err SE_PendingAlreadyHandedOff, self))
      | SP_PersistingContinuityBreak \<Rightarrow>
          (case ns_pending_continuity_break self of
             Some observed \<Rightarrow>
               hand_off (self\<lparr>ns_pending_continuity_break := None\<rparr>) (PP_ContinuityBreak observed)
           | None \<Rightarrow> (Err SE_PendingAlreadyHandedOff, self))
      | _ \<Rightarrow> (Err SE_UnexpectedPhase, self))"

definition confirm_durable :: "NodeSession \<Rightarrow> DurableReceipt \<Rightarrow> (NodeSession, unit, SessionError) outcome" where
  "confirm_durable self receipt =
     (if dr_hardware_id receipt \<noteq> ns_hardware_id self \<or> dr_boot_epoch receipt \<noteq> ns_boot_epoch self
      then (Err SE_ReceiptIdentityMismatch, self)
      else if ns_phase self \<in> {SP_PersistingChunk, SP_PersistingGap, SP_PersistingContinuityBreak}
      then if ns_pending_receipt self \<noteq> Some receipt then (Err SE_ReceiptCursorMismatch, self)
           else with_cursors self (mark_durable (ns_cursors self) (dr_end receipt)) (\<lambda>_ self.
                  (Ok (), self\<lparr>ns_pending_chunk := None, ns_pending_gap := None,
                            ns_pending_continuity_break := None, ns_pending_receipt := None,
                            ns_phase := SP_Ready\<rparr>))
      else (Err SE_UnexpectedPhase, self))"

section \<open>Invariant\<close>

definition receipt_ok :: "NodeSession \<Rightarrow> bool" where
  "receipt_ok s \<longleftrightarrow> dc_durable (ns_cursors s) < dc_received (ns_cursors s) \<and>
     ns_pending_receipt s = Some \<lparr>dr_hardware_id = ns_hardware_id s, dr_boot_epoch = ns_boot_epoch s,
                                  dr_end = dc_received (ns_cursors s)\<rparr>"

text \<open>A pending record describes exactly the range between the durable and the received cursor.\<close>

definition covers_pending :: "NodeSession \<Rightarrow> u64 \<Rightarrow> nat \<Rightarrow> bool" where
  "covers_pending s first n \<longleftrightarrow> first = dc_durable (ns_cursors s) \<and>
     unat (dc_received (ns_cursors s)) = unat first + n"

fun pending_chunk_ok :: "NodeSession \<Rightarrow> PendingChunk \<Rightarrow> bool" where
  "pending_chunk_ok s (PC_Legacy h xs) \<longleftrightarrow> covers_pending s (sch_first h) (length xs)"
| "pending_chunk_ok s (PC_Wire c) \<longleftrightarrow> covers_pending s (sch_first (sc_header c)) (length (sc_samples c)) \<and>
     sample_chunk_ok c \<and> sch_boot_epoch (sc_header c) = ns_boot_epoch s"

definition pending_gap_ok :: "NodeSession \<Rightarrow> Gap \<Rightarrow> bool" where
  "pending_gap_ok s g \<longleftrightarrow> covers_pending s (gap_first_missing g) (unat (gap_missing_count g)) \<and>
     gap_hardware_id g = ns_hardware_id s \<and> gap_boot_epoch g = ns_boot_epoch s"

definition pending_break_ok :: "NodeSession \<Rightarrow> ContinuityBreak \<Rightarrow> bool" where
  "pending_break_ok s b \<longleftrightarrow> covers_pending s (cb_at b) 1 \<and>
     cb_hardware_id b = ns_hardware_id s \<and> cb_boot_epoch b = ns_boot_epoch s"

definition phase_ok :: "NodeSession \<Rightarrow> bool" where
  "phase_ok s = (case ns_phase s of
      SP_Ready \<Rightarrow> dc_received (ns_cursors s) = dc_durable (ns_cursors s)
    | SP_RecoveryRequired \<Rightarrow> dc_received (ns_cursors s) = dc_durable (ns_cursors s)
    | SP_AwaitingPull \<Rightarrow> dc_received (ns_cursors s) = dc_durable (ns_cursors s) \<and>
        (\<exists>r. ns_active_pull s = Some r \<and> pull_ok r \<and> psr_boot_epoch r = ns_boot_epoch s \<and>
             psr_from r = dc_received (ns_cursors s) \<and> psr_release_before r = dc_durable (ns_cursors s))
    | SP_PersistingChunk \<Rightarrow> receipt_ok s \<and> (\<forall>c. ns_pending_chunk s = Some c \<longrightarrow> pending_chunk_ok s c)
    | SP_PersistingGap \<Rightarrow> receipt_ok s \<and> (\<forall>g. ns_pending_gap s = Some g \<longrightarrow> pending_gap_ok s g)
    | SP_PersistingContinuityBreak \<Rightarrow> receipt_ok s \<and>
        (\<forall>b. ns_pending_continuity_break s = Some b \<longrightarrow> pending_break_ok s b))"

definition session_ok :: "NodeSession \<Rightarrow> bool" where
  "session_ok s \<longleftrightarrow> delivery_ok (ns_cursors s) \<and> phase_ok s"

lemma session_recovered_ok:
  "session_recovered h e d r = Ok s \<Longrightarrow> session_ok s"
  by (auto simp: session_recovered_def result_iffs delivery_new_Ok session_ok_def phase_ok_def)

section \<open>The abstract session\<close>

text \<open>What the host promises about one stream, without the records: a durable prefix, the prefix the
  node was allowed to release, and one range at most between received and durable.\<close>

datatype AbsPhase = AP_Ready | AP_Awaiting | AP_Persisting nat | AP_Recovery

record AbsSession =
  as_durable :: nat
  as_released :: nat
  as_phase :: AbsPhase

datatype SessionLabel =
  L_Silent | L_Pulled nat nat | L_Accounted nat nat | L_Durable nat | L_Panicked

inductive abs_step :: "AbsSession \<Rightarrow> SessionLabel \<Rightarrow> AbsSession \<Rightarrow> bool" where
  stutter: "abs_step a L_Silent a"
| pull: "as_phase a = AP_Ready \<Longrightarrow>
    abs_step a (L_Pulled (as_durable a) (as_durable a)) (a\<lparr>as_phase := AP_Awaiting\<rparr>)"
| retry: "as_phase a = AP_Awaiting \<Longrightarrow> abs_step a L_Silent (a\<lparr>as_phase := AP_Ready\<rparr>)"
| no_data: "as_phase a = AP_Awaiting \<Longrightarrow>
    abs_step a L_Silent (a\<lparr>as_released := as_durable a, as_phase := AP_Ready\<rparr>)"
| recover: "as_phase a = AP_Awaiting \<Longrightarrow> abs_step a L_Silent (a\<lparr>as_phase := AP_Recovery\<rparr>)"
| account: "as_phase a = AP_Awaiting \<Longrightarrow> 0 < n \<Longrightarrow>
    abs_step a (L_Accounted (as_durable a) n)
      (a\<lparr>as_released := as_durable a, as_phase := AP_Persisting (as_durable a + n)\<rparr>)"
| durable: "as_phase a = AP_Persisting e \<Longrightarrow>
    abs_step a (L_Durable e) (a\<lparr>as_durable := e, as_phase := AP_Ready\<rparr>)"

definition abs_of :: "NodeSession \<Rightarrow> AbsSession" where
  "abs_of s = \<lparr>as_durable = unat (dc_durable (ns_cursors s)), as_released = unat (dc_released (ns_cursors s)),
     as_phase = (case ns_phase s of
        SP_Ready \<Rightarrow> AP_Ready | SP_AwaitingPull \<Rightarrow> AP_Awaiting | SP_RecoveryRequired \<Rightarrow> AP_Recovery
      | _ \<Rightarrow> AP_Persisting (unat (dc_received (ns_cursors s))))\<rparr>"

section \<open>Each operation refines the abstract session\<close>

datatype SessionOp =
  S_BeginPull u16 | S_Abandon | S_AcceptChunk SampleChunkHeader "SampleAxes list"
| S_AcceptWireChunk SampleChunk | S_AcceptNoData StreamState | S_AcceptRangeUnavailable StreamState
| S_AcceptGap GapEvidence | S_AcceptContinuityBreak ContinuityBreakEvidence | S_StreamChanged
| S_InvalidRelease StreamState | S_FailPull | S_TakePending | S_ConfirmDurable DurableReceipt

fun labelled :: "('a \<Rightarrow> SessionLabel) \<Rightarrow> (NodeSession, 'a, SessionError) outcome \<Rightarrow> SessionLabel \<times> NodeSession" where
  "labelled l (Ok x, s) = (l x, s)"
| "labelled l (Err e, s) = (L_Silent, s)"
| "labelled l (Panic, s) = (L_Panicked, s)"

fun session_apply :: "NodeSession \<Rightarrow> SessionOp \<Rightarrow> SessionLabel \<times> NodeSession" where
  "session_apply s (S_BeginPull n) =
     labelled (\<lambda>r. L_Pulled (unat (psr_from r)) (unat (psr_release_before r))) (begin_pull s n)"
| "session_apply s S_Abandon = labelled (\<lambda>_. L_Silent) (abandon_pull_for_retry s)"
| "session_apply s (S_AcceptChunk h xs) =
     labelled (\<lambda>_. L_Accounted (unat (sch_first h)) (length xs)) (accept_chunk s h xs)"
| "session_apply s (S_AcceptWireChunk c) =
     labelled (\<lambda>_. L_Accounted (unat (sch_first (sc_header c))) (length (sc_samples c))) (accept_wire_chunk s c)"
| "session_apply s (S_AcceptNoData st) = labelled (\<lambda>_. L_Silent) (accept_no_data s st)"
| "session_apply s (S_AcceptRangeUnavailable st) =
     labelled (\<lambda>g. L_Accounted (unat (gap_first_missing g)) (unat (gap_missing_count g))) (accept_range_unavailable s st)"
| "session_apply s (S_AcceptGap e) =
     labelled (\<lambda>g. L_Accounted (unat (gap_first_missing g)) (unat (gap_missing_count g))) (accept_gap s e)"
| "session_apply s (S_AcceptContinuityBreak e) =
     labelled (\<lambda>b. L_Accounted (unat (cb_at b)) 1) (accept_continuity_break s e)"
| "session_apply s S_StreamChanged = labelled (\<lambda>_. L_Silent) (stream_changed s)"
| "session_apply s (S_InvalidRelease st) = labelled (\<lambda>_. L_Silent) (invalid_release s st)"
| "session_apply s S_FailPull = labelled (\<lambda>_. L_Silent) (fail_pull_for_recovery s)"
| "session_apply s S_TakePending = labelled (\<lambda>_. L_Silent) (take_pending_persistence s)"
| "session_apply s (S_ConfirmDurable r) = labelled (\<lambda>_. L_Durable (unat (dr_end r))) (confirm_durable s r)"

definition refines :: "NodeSession \<Rightarrow> SessionLabel \<times> NodeSession \<Rightarrow> bool" where
  "refines s out \<longleftrightarrow> session_ok (snd out) \<and> abs_step (abs_of s) (fst out) (abs_of (snd out)) \<and>
     ns_hardware_id (snd out) = ns_hardware_id s \<and> ns_boot_epoch (snd out) = ns_boot_epoch s"

lemma refines_stutter: "session_ok s \<Longrightarrow> refines s (L_Silent, s)"
  by (simp add: refines_def stutter)

lemma refines_recovery:
  assumes "session_ok s" "ns_phase s = SP_AwaitingPull"
  shows "refines s (L_Silent, s\<lparr>ns_phase := SP_RecoveryRequired\<rparr>)"
    "refines s (L_Silent, s\<lparr>ns_active_pull := None, ns_phase := SP_RecoveryRequired\<rparr>)"
  using assms recover [of "abs_of s"]
  by (auto simp: refines_def session_ok_def phase_ok_def abs_of_def)

text \<open>The state in which an answer has been accounted for up to \<open>c\<close>.\<close>

definition advanced :: "NodeSession \<Rightarrow> u64 \<Rightarrow> SessionPhase \<Rightarrow> NodeSession" where
  "advanced s c ph = s\<lparr>ns_active_pull := None,
     ns_cursors := \<lparr>dc_received = c, dc_durable = dc_durable (ns_cursors s), dc_released = dc_durable (ns_cursors s)\<rparr>,
     ns_phase := ph, ns_pending_receipt := Some \<lparr>dr_hardware_id = ns_hardware_id s,
       dr_boot_epoch = ns_boot_epoch s, dr_end = c\<rparr>\<rparr>"

lemma refines_advanced:
  assumes "session_ok s" "ns_phase s = SP_AwaitingPull"
    and s': "phase_ok s'" "ns_cursors s' = ns_cursors (advanced s c ph)" "ns_hardware_id s' = ns_hardware_id s"
      "ns_boot_epoch s' = ns_boot_epoch s"
    and ph: "ns_phase s' \<in> {SP_PersistingChunk, SP_PersistingGap, SP_PersistingContinuityBreak}"
    and c: "unat c = unat (dc_durable (ns_cursors s)) + n" "0 < n"
  shows "refines s (L_Accounted (unat (dc_durable (ns_cursors s))) n, s')"
proof -
  have "abs_of s' = (abs_of s)\<lparr>as_released := as_durable (abs_of s),
      as_phase := AP_Persisting (as_durable (abs_of s) + n)\<rparr>"
    using s' ph c by (auto simp: abs_of_def advanced_def)
  moreover have "as_phase (abs_of s) = AP_Awaiting" using assms(2) by (simp add: abs_of_def)
  moreover have "delivery_ok (ns_cursors s')"
    using s' c by (auto simp: advanced_def delivery_ok_def word_le_nat_alt)
  ultimately show ?thesis
    using account [of "abs_of s" n] c s' by (auto simp: refines_def session_ok_def abs_of_def)
qed

lemma active_pull_cases:
  assumes "session_ok s"
  obtains (refused) e where "session_active_pull s = Err e"
  | (active) r where "session_active_pull s = Ok r" "ns_phase s = SP_AwaitingPull" "ns_active_pull s = Some r"
      "pull_ok r" "psr_boot_epoch r = ns_boot_epoch s" "psr_from r = dc_durable (ns_cursors s)"
      "psr_release_before r = dc_durable (ns_cursors s)" "dc_received (ns_cursors s) = dc_durable (ns_cursors s)"
  using assms
  by (cases "ns_phase s = SP_AwaitingPull")
    (auto simp: session_active_pull_def require_phase_def session_ok_def phase_ok_def)

text \<open>The release the request carried is always within the durable prefix, so it is recorded.\<close>

lemma mark_released_durable:
  "session_ok s \<Longrightarrow> mark_released (ns_cursors s) (dc_durable (ns_cursors s)) =
     (Ok (), (ns_cursors s)\<lparr>dc_released := dc_durable (ns_cursors s)\<rparr>)"
  by (simp add: mark_released_def session_ok_def delivery_ok_def not_less)

lemma with_cursors_Ok [simp]: "with_cursors s (Ok x, c) k = k x (s\<lparr>ns_cursors := c\<rparr>)"
  by (simp add: with_cursors_def)

lemma accept_contiguous_at:
  assumes "dc_received d = f" "n \<noteq> 0" "unat f + unat n < 2 ^ 64"
  obtains c where "unat c = unat f + unat n" "accept_contiguous d f n = (Ok c, d\<lparr>dc_received := c\<rparr>)"
proof -
  obtain c :: u64 where c: "unat c = unat f + unat n"
    using assms(3) ex_unat [of "unat f + unat n", where ?'a = 64] by auto
  then show ?thesis using that assms by (simp add: accept_contiguous_Ok)
qed

lemma account_gap_at:
  assumes "dc_received d = f" "n \<noteq> 0" "unat f + unat n < 2 ^ 64"
  obtains c where "unat c = unat f + unat n" "account_gap d f n = (Ok c, d\<lparr>dc_received := c\<rparr>)"
    "add_unchecked f n = Ok c"
proof -
  obtain c :: u64 where c: "unat c = unat f + unat n"
    using assms(3) ex_unat [of "unat f + unat n", where ?'a = 64] by auto
  then show ?thesis using that assms
    by (simp add: account_gap_Ok add_unchecked_def result_iffs checked_add_Some)
qed

lemma refines_begin_pull:
  assumes "session_ok s"
  shows "refines s (session_apply s (S_BeginPull n))"
proof (cases "begin_pull s n")
  case (Pair res s')
  show ?thesis
  proof (cases res)
    case (Ok r)
    with Pair have b: "begin_pull s n = (Ok r, s')" by simp
    then have p: "ns_phase s = SP_Ready" and s': "s' = s\<lparr>ns_active_pull := Some r, ns_phase := SP_AwaitingPull\<rparr>"
      and r: "pull_ok r" "psr_boot_epoch r = ns_boot_epoch s" "psr_from r = dc_received (ns_cursors s)"
        "psr_release_before r = dc_durable (ns_cursors s)"
      by (auto simp: begin_pull_def result_iffs require_phase_def split: if_splits)
    have eq: "dc_received (ns_cursors s) = dc_durable (ns_cursors s)"
      using assms p by (simp add: session_ok_def phase_ok_def)
    show ?thesis
      using pull [of "abs_of s"] assms p r eq b s'
      by (auto simp: refines_def session_ok_def phase_ok_def abs_of_def)
  next
    case (Err e)
    with Pair have "begin_pull s n = (Err e, s)"
      by (auto simp: begin_pull_def result_iffs)
    then show ?thesis using refines_stutter [OF assms] by simp
  next
    case Panic
    with Pair show ?thesis by (auto simp: begin_pull_def result_iffs require_phase_def split: if_splits)
  qed
qed

lemma refines_leave_pull:
  assumes "session_ok s"
  shows "refines s (session_apply s S_Abandon)" "refines s (session_apply s S_StreamChanged)"
    "refines s (session_apply s S_FailPull)"
proof -
  have r: "refines s (L_Silent, s\<lparr>ns_active_pull := None, ns_phase := SP_Ready\<rparr>)"
    if "ns_phase s = SP_AwaitingPull"
    using that assms retry [of "abs_of s"]
    by (auto simp: refines_def session_ok_def phase_ok_def abs_of_def)
  show "refines s (session_apply s S_Abandon)"
    using r refines_stutter [OF assms]
    by (cases "ns_phase s = SP_AwaitingPull") (simp_all add: abandon_pull_for_retry_def require_phase_def)
  show "refines s (session_apply s S_StreamChanged)" "refines s (session_apply s S_FailPull)"
    using refines_recovery [OF assms] refines_stutter [OF assms]
    by (cases "ns_phase s = SP_AwaitingPull";
        simp add: stream_changed_def fail_pull_for_recovery_def require_phase_def)+
qed

text \<open>A validated chunk header advances the cursors to its own end.\<close>

lemma chunk_advance:
  assumes "chunk_validate_for h r = Ok t" "psr_from r = dc_durable (ns_cursors s)"
    "dc_received (ns_cursors s) = dc_durable (ns_cursors s)"
  obtains c where "unat c = unat (dc_durable (ns_cursors s)) + unat (sch_sample_count h)" "chunk_end h = Ok c"
    "accept_contiguous ((ns_cursors s)\<lparr>dc_released := dc_durable (ns_cursors s)\<rparr>)
       (dc_durable (ns_cursors s)) (sch_sample_count h) =
       (Ok c, \<lparr>dc_received = c, dc_durable = dc_durable (ns_cursors s), dc_released = dc_durable (ns_cursors s)\<rparr>)"
    "sch_first h = dc_durable (ns_cursors s)" "0 < unat (sch_sample_count h)" "t = h"
    "sch_boot_epoch h = psr_boot_epoch r"
proof -
  from assms have v: "sch_first h = dc_durable (ns_cursors s)" "chunk_header_ok h" "t = h"
      "sch_boot_epoch h = psr_boot_epoch r"
    by (auto simp: chunk_validate_for_Ok)
  then have n: "sch_sample_count h \<noteq> 0" by (simp add: chunk_header_ok_def)
  obtain c where "chunk_end h = Ok c" "unat c = unat (sch_first h) + unat (sch_sample_count h)"
    using chunk_end_ok [OF v(2)] by auto
  then show ?thesis
    using that [of c] v n assms(3) by (simp add: accept_contiguous_Ok unat_gt_0)
qed

lemma validate_for_id:
  "chunk_validate_for h r = Ok t \<Longrightarrow> t = h" "gap_validate_for g r = Ok g' \<Longrightarrow> g' = g"
  "break_validate_for b r = Ok b' \<Longrightarrow> b' = b"
  by (simp_all add: chunk_validate_for_Ok gap_validate_for_Ok break_validate_for_Ok)

lemma refines_accept_chunk:
  assumes ok: "session_ok s"
  shows "refines s (session_apply s (S_AcceptChunk h xs))"
  using ok
proof (cases rule: active_pull_cases)
  case (refused e)
  then show ?thesis using refines_stutter [OF ok] by (simp add: accept_chunk_def)
next
  case (active r)
  consider (bad) e where "chunk_validate_for h r = Err e"
    | (count) t where "chunk_validate_for h r = Ok t" "length xs \<noteq> unat (sch_sample_count t)"
    | (good) t where "chunk_validate_for h r = Ok t" "length xs = unat (sch_sample_count t)"
    by (cases "chunk_validate_for h r") auto
  then show ?thesis
  proof cases
    case good
    obtain c where c: "unat c = unat (dc_durable (ns_cursors s)) + unat (sch_sample_count h)" "chunk_end h = Ok c"
        "accept_contiguous ((ns_cursors s)\<lparr>dc_released := dc_durable (ns_cursors s)\<rparr>)
           (dc_durable (ns_cursors s)) (sch_sample_count h) =
           (Ok c, \<lparr>dc_received = c, dc_durable = dc_durable (ns_cursors s), dc_released = dc_durable (ns_cursors s)\<rparr>)"
        "sch_first h = dc_durable (ns_cursors s)" "0 < unat (sch_sample_count h)" "t = h"
      by (rule chunk_advance [OF good(1) active(6,8)])
    let ?s' = "(advanced s c SP_PersistingChunk)\<lparr>ns_pending_chunk := Some (PC_Legacy h xs)\<rparr>"
    have "accept_chunk s h xs = (Ok (), ?s')"
      using active good c mark_released_durable [OF ok]
      by (simp add: accept_chunk_def Let_def next_sample_def advanced_def)
    moreover have "refines s (L_Accounted (unat (dc_durable (ns_cursors s))) (unat (sch_sample_count h)), ?s')"
    proof (rule refines_advanced [OF ok active(2), where ph = SP_PersistingChunk])
      show "phase_ok ?s'"
        using c good by (auto simp: phase_ok_def receipt_ok_def advanced_def covers_pending_def word_less_nat_alt)
    qed (use c in \<open>auto simp: advanced_def\<close>)
    ultimately show ?thesis using c good by simp
  qed (use active(1) refines_recovery(2) [OF ok active(2)] in \<open>simp_all add: accept_chunk_def enter_recovery_def\<close>)
qed

lemma refines_accept_wire_chunk:
  assumes ok: "session_ok s"
  shows "refines s (session_apply s (S_AcceptWireChunk ch))"
proof (cases "sample_chunk_validate ch")
  case (Ok u)
  show ?thesis
    using ok
  proof (cases rule: active_pull_cases)
    case (refused e)
    then show ?thesis using refines_stutter [OF ok] Ok by (simp add: accept_wire_chunk_def)
  next
    case (active r)
    let ?h = "sc_header ch"
    have w: "sample_chunk_ok ch" using Ok by (simp add: sample_chunk_validate_Ok)
    then have l: "length (sc_samples ch) = unat (sch_sample_count ?h)" by (simp add: sample_chunk_ok_def)
    show ?thesis
    proof (cases "chunk_validate_for ?h r")
      case good: (Ok t)
      obtain c where c: "unat c = unat (dc_durable (ns_cursors s)) + unat (sch_sample_count ?h)" "chunk_end ?h = Ok c"
          "accept_contiguous ((ns_cursors s)\<lparr>dc_released := dc_durable (ns_cursors s)\<rparr>)
             (dc_durable (ns_cursors s)) (sch_sample_count ?h) =
             (Ok c, \<lparr>dc_received = c, dc_durable = dc_durable (ns_cursors s), dc_released = dc_durable (ns_cursors s)\<rparr>)"
          "sch_first ?h = dc_durable (ns_cursors s)" "0 < unat (sch_sample_count ?h)" "t = ?h"
          "sch_boot_epoch ?h = psr_boot_epoch r"
        by (rule chunk_advance [OF good active(6,8)])
      let ?s' = "(advanced s c SP_PersistingChunk)\<lparr>ns_pending_chunk := Some (PC_Wire ch)\<rparr>"
      have "accept_wire_chunk s ch = (Ok (), ?s')"
        using active good c l Ok mark_released_durable [OF ok]
        by (simp add: accept_wire_chunk_def Let_def next_sample_def advanced_def)
      moreover have "refines s (L_Accounted (unat (dc_durable (ns_cursors s))) (unat (sch_sample_count ?h)), ?s')"
      proof (rule refines_advanced [OF ok active(2), where ph = SP_PersistingChunk])
        show "phase_ok ?s'"
          using c w l active(5) by (auto simp: phase_ok_def receipt_ok_def advanced_def covers_pending_def word_less_nat_alt)
      qed (use c in \<open>auto simp: advanced_def\<close>)
      ultimately show ?thesis using c l by simp
    qed (use active(1) Ok refines_recovery(2) [OF ok active(2)] in
        \<open>simp_all add: accept_wire_chunk_def enter_recovery_def\<close>)
  qed
qed (use refines_stutter [OF ok] in \<open>simp_all add: accept_wire_chunk_def\<close>)

lemma validate_state_cases:
  obtains (invalid) e where "validate_state_for_active_stream s st = (Err (SE_Contract e), s)"
  | (changed) "validate_state_for_active_stream s st = (Err SE_StreamChanged, s\<lparr>ns_phase := SP_RecoveryRequired\<rparr>)"
  | (valid) "validate_state_for_active_stream s st = (Ok st, s)" "stream_state_ok st"
      "ss_boot_epoch st = ns_boot_epoch s"
proof (cases "stream_state_validate st")
  case (Ok t)
  then have "t = st" "stream_state_ok st" by (simp_all add: stream_state_validate_Ok)
  then show ?thesis using that(2,3) Ok
    by (cases "ss_boot_epoch st = ns_boot_epoch s") (simp_all add: validate_state_for_active_stream_def)
next
  case (Err e)
  then show ?thesis using that(1) by (simp add: validate_state_for_active_stream_def)
qed simp

lemma refines_invalid_release:
  assumes ok: "session_ok s"
  shows "refines s (session_apply s (S_InvalidRelease st))"
  using ok
proof (cases rule: active_pull_cases)
  case (refused e)
  then show ?thesis using refines_stutter [OF ok] by (simp add: invalid_release_def)
next
  case (active r)
  note rec = refines_recovery [OF ok active(2)]
  show ?thesis
    by (cases rule: validate_state_cases [of s st])
      (use active(1) rec refines_stutter [OF ok] in \<open>simp_all add: invalid_release_def\<close>)
qed

lemma refines_accept_no_data:
  assumes ok: "session_ok s"
  shows "refines s (session_apply s (S_AcceptNoData st))"
  using ok
proof (cases rule: active_pull_cases)
  case (refused e)
  then show ?thesis using refines_stutter [OF ok] by (simp add: accept_no_data_def)
next
  case (active r)
  note rec = refines_recovery [OF ok active(2)]
  let ?s' = "s\<lparr>ns_active_pull := None, ns_cursors := (ns_cursors s)\<lparr>dc_released := dc_durable (ns_cursors s)\<rparr>,
      ns_phase := SP_Ready\<rparr>"
  have nd: "refines s (L_Silent, ?s')"
    using ok active(2,8) no_data [of "abs_of s"]
    by (auto simp: refines_def session_ok_def phase_ok_def abs_of_def delivery_ok_def)
  show ?thesis
  proof (cases rule: validate_state_cases [of s st])
    case valid
    then show ?thesis
      using active nd rec mark_released_durable [OF ok]
      by (cases "psr_from r = ss_produced st") (simp_all add: accept_no_data_def enter_recovery_def Let_def)
  qed (use active(1) rec refines_stutter [OF ok] in \<open>simp_all add: accept_no_data_def\<close>)
qed

text \<open>A confirmed gap that starts at the durable cursor is recorded and awaits its receipt.\<close>

lemma record_gap_eq:
  assumes "dc_received (ns_cursors s) = dc_durable (ns_cursors s)" "gap_ok g"
    "gap_first_missing g = dc_durable (ns_cursors s)" "gap_hardware_id g = ns_hardware_id s"
    "gap_boot_epoch g = ns_boot_epoch s"
  obtains c where "unat c = unat (dc_durable (ns_cursors s)) + unat (gap_missing_count g)"
    "record_gap (s\<lparr>ns_active_pull := None,
       ns_cursors := (ns_cursors s)\<lparr>dc_released := dc_durable (ns_cursors s)\<rparr>\<rparr>) g =
     (Ok g, (advanced s c SP_PersistingGap)\<lparr>ns_pending_gap := Some g\<rparr>)"
proof -
  let ?d = "(ns_cursors s)\<lparr>dc_released := dc_durable (ns_cursors s)\<rparr>"
  have n: "gap_missing_count g \<noteq> 0" "unat (gap_first_missing g) + unat (gap_missing_count g) < 2 ^ 64"
    using assms(2) by (auto simp: gap_ok_def)
  obtain c where c: "unat c = unat (gap_first_missing g) + unat (gap_missing_count g)"
      "account_gap ?d (gap_first_missing g) (gap_missing_count g) = (Ok c, ?d\<lparr>dc_received := c\<rparr>)"
      "add_unchecked (gap_first_missing g) (gap_missing_count g) = (Ok c :: (u64, SessionError) result)"
    by (rule account_gap_at [of ?d, OF _ n]) (use assms in simp_all)
  then show ?thesis using that [of c] assms by (simp add: record_gap_def advanced_def Let_def)
qed

lemma record_gap_refines:
  assumes ok: "session_ok s" "ns_phase s = SP_AwaitingPull"
      "dc_received (ns_cursors s) = dc_durable (ns_cursors s)"
    and g: "gap_ok g" "gap_first_missing g = dc_durable (ns_cursors s)"
      "gap_hardware_id g = ns_hardware_id s" "gap_boot_epoch g = ns_boot_epoch s"
  shows "refines s (labelled (\<lambda>g. L_Accounted (unat (gap_first_missing g)) (unat (gap_missing_count g)))
     (record_gap (s\<lparr>ns_active_pull := None,
        ns_cursors := (ns_cursors s)\<lparr>dc_released := dc_durable (ns_cursors s)\<rparr>\<rparr>) g))"
proof -
  obtain c where c: "unat c = unat (dc_durable (ns_cursors s)) + unat (gap_missing_count g)"
      "record_gap (s\<lparr>ns_active_pull := None,
         ns_cursors := (ns_cursors s)\<lparr>dc_released := dc_durable (ns_cursors s)\<rparr>\<rparr>) g =
       (Ok g, (advanced s c SP_PersistingGap)\<lparr>ns_pending_gap := Some g\<rparr>)"
    using ok(3) g by (rule record_gap_eq)
  let ?s' = "(advanced s c SP_PersistingGap)\<lparr>ns_pending_gap := Some g\<rparr>"
  have n: "0 < unat (gap_missing_count g)" using g by (simp add: gap_ok_def unat_gt_0)
  have "refines s (L_Accounted (unat (dc_durable (ns_cursors s))) (unat (gap_missing_count g)), ?s')"
  proof (rule refines_advanced [OF ok(1,2), where ph = SP_PersistingGap])
    show "phase_ok ?s'" using c g n
      by (auto simp: phase_ok_def receipt_ok_def advanced_def covers_pending_def pending_gap_ok_def
          word_less_nat_alt)
  qed (use c g n in \<open>auto simp: advanced_def\<close>)
  then show ?thesis using g c by simp
qed

text \<open>The gap an evidence or an unavailable range stands for.\<close>

lemma evidence_gap:
  assumes "gap_validate_for e r = Ok t"
  shows "gap_new h b (ge_first_missing e) (ge_missing_count e) (ge_reason e) =
      Ok \<lparr>gap_hardware_id = h, gap_boot_epoch = b, gap_first_missing = ge_first_missing e,
          gap_missing_count = ge_missing_count e, gap_reason = ge_reason e\<rparr>"
    "gap_ok \<lparr>gap_hardware_id = h, gap_boot_epoch = b, gap_first_missing = ge_first_missing e,
       gap_missing_count = ge_missing_count e, gap_reason = ge_reason e\<rparr>"
    "t = e" "ge_first_missing e = psr_from r"
proof -
  show "gap_ok \<lparr>gap_hardware_id = h, gap_boot_epoch = b, gap_first_missing = ge_first_missing e,
       gap_missing_count = ge_missing_count e, gap_reason = ge_reason e\<rparr>"
    using assms unat_u64_bound [of "ge_produced e"] by (auto simp: gap_validate_for_Ok gap_evidence_ok_def gap_ok_def)
  then show "gap_new h b (ge_first_missing e) (ge_missing_count e) (ge_reason e) =
      Ok \<lparr>gap_hardware_id = h, gap_boot_epoch = b, gap_first_missing = ge_first_missing e,
          gap_missing_count = ge_missing_count e, gap_reason = ge_reason e\<rparr>" by (simp add: gap_new_Ok)
qed (use assms in \<open>auto simp: gap_validate_for_Ok\<close>)

lemma unavailable_gap:
  assumes "\<not> ss_retained_from st \<le> from"
  shows "gap_new h b from (ss_retained_from st - from) JournalOverflow =
      Ok \<lparr>gap_hardware_id = h, gap_boot_epoch = b, gap_first_missing = from,
          gap_missing_count = ss_retained_from st - from, gap_reason = JournalOverflow\<rparr>"
    "gap_ok \<lparr>gap_hardware_id = h, gap_boot_epoch = b, gap_first_missing = from,
       gap_missing_count = ss_retained_from st - from, gap_reason = JournalOverflow\<rparr>"
    "sub_unchecked (ss_retained_from st) from = (Ok (ss_retained_from st - from) :: (u64, SessionError) result)"
proof -
  let ?n = "ss_retained_from st - from"
  have le: "from \<le> ss_retained_from st" and lt: "unat from < unat (ss_retained_from st)"
    using assms by (auto simp: not_le word_less_nat_alt word_le_nat_alt)
  then have n: "unat ?n = unat (ss_retained_from st) - unat from" by (simp add: unat_sub)
  have "?n \<noteq> 0" using n lt by (metis diff_is_0_eq not_less unat_0)
  then show "gap_ok \<lparr>gap_hardware_id = h, gap_boot_epoch = b, gap_first_missing = from,
       gap_missing_count = ?n, gap_reason = JournalOverflow\<rparr>"
    using n lt unat_u64_bound [of "ss_retained_from st"] by (simp add: gap_ok_def)
  then show "gap_new h b from ?n JournalOverflow =
      Ok \<lparr>gap_hardware_id = h, gap_boot_epoch = b, gap_first_missing = from,
          gap_missing_count = ?n, gap_reason = JournalOverflow\<rparr>" by (simp add: gap_new_Ok)
  show "sub_unchecked (ss_retained_from st) from = (Ok ?n :: (u64, SessionError) result)"
    using le by (simp add: sub_unchecked_def checked_sub_def)
qed

lemma refines_accept_gap:
  assumes ok: "session_ok s"
  shows "refines s (session_apply s (S_AcceptGap e))"
  using ok
proof (cases rule: active_pull_cases)
  case (refused e)
  then show ?thesis using refines_stutter [OF ok] by (simp add: accept_gap_def)
next
  case (active r)
  show ?thesis
  proof (cases "gap_validate_for e r")
    case (Ok t)
    note g = evidence_gap(1,2) [OF Ok, of "ns_hardware_id s" "ns_boot_epoch s"] evidence_gap(3,4) [OF Ok]
    show ?thesis
      using record_gap_refines [OF ok active(2,8) g(2)] active Ok g mark_released_durable [OF ok]
      by (simp add: accept_gap_def Let_def next_sample_def)
  qed (use active(1) refines_recovery(2) [OF ok active(2)] in \<open>simp_all add: accept_gap_def enter_recovery_def\<close>)
qed

lemma refines_range_unavailable:
  assumes ok: "session_ok s"
  shows "refines s (session_apply s (S_AcceptRangeUnavailable st))"
  using ok
proof (cases rule: active_pull_cases)
  case (refused e)
  then show ?thesis using refines_stutter [OF ok] by (simp add: accept_range_unavailable_def)
next
  case (active r)
  note rec = refines_recovery [OF ok active(2)]
  show ?thesis
  proof (cases rule: validate_state_cases [of s st])
    case valid
    show ?thesis
    proof (cases "psr_from r \<ge> ss_retained_from st")
      case True
      then show ?thesis using active(1) valid rec by (simp add: accept_range_unavailable_def enter_recovery_def)
    next
      case False
      note g = unavailable_gap(1,2) [OF False, of "ns_hardware_id s" "ns_boot_epoch s"] unavailable_gap(3) [OF False]
      show ?thesis
        using record_gap_refines [OF ok active(2,8) g(2)] active False valid g mark_released_durable [OF ok]
        by (simp add: accept_range_unavailable_def Let_def next_sample_def)
    qed
  qed (use active(1) rec refines_stutter [OF ok] in \<open>simp_all add: accept_range_unavailable_def\<close>)
qed

lemma refines_accept_break:
  assumes ok: "session_ok s"
  shows "refines s (session_apply s (S_AcceptContinuityBreak e))"
  using ok
proof (cases rule: active_pull_cases)
  case (refused e)
  then show ?thesis using refines_stutter [OF ok] by (simp add: accept_continuity_break_def)
next
  case (active r)
  show ?thesis
  proof (cases "break_validate_for e r")
    case (Ok t)
    then have t: "t = e" "cbe_at e = dc_durable (ns_cursors s)" "break_evidence_ok e"
      using active by (auto simp: break_validate_for_Ok)
    let ?b = "\<lparr>cb_hardware_id = ns_hardware_id s, cb_boot_epoch = ns_boot_epoch s, cb_at = cbe_at e,
        cb_reason = cbe_reason e\<rparr>"
    let ?d = "(ns_cursors s)\<lparr>dc_released := dc_durable (ns_cursors s)\<rparr>"
    have b: "break_ok ?b" using t unat_u64_bound [of "cbe_produced e"] by (simp add: break_evidence_ok_def break_ok_def)
    then have new: "continuity_break_new (ns_hardware_id s) (ns_boot_epoch s) (cbe_at e) (cbe_reason e) = Ok ?b"
      by (simp add: continuity_break_new_Ok)
    obtain c where c: "continuity_break_end ?b = (Ok c :: (u64, SessionError) result)" "unat c = unat (cbe_at e) + 1"
      using continuity_break_end_ok [OF b] by auto
    have acc: "account_continuity_break ?d (dc_durable (ns_cursors s)) = (Ok c, ?d\<lparr>dc_received := c\<rparr>)"
      using c(2) active(8) t(2) by (simp add: account_continuity_break_Ok)
    let ?s' = "(advanced s c SP_PersistingContinuityBreak)\<lparr>ns_pending_continuity_break := Some ?b\<rparr>"
    have "accept_continuity_break s e = (Ok ?b, ?s')"
      using active Ok t new c acc mark_released_durable [OF ok]
      by (simp add: accept_continuity_break_def Let_def advanced_def)
    moreover have "refines s (L_Accounted (unat (dc_durable (ns_cursors s))) 1, ?s')"
    proof (rule refines_advanced [OF ok active(2), where ph = SP_PersistingContinuityBreak])
      show "phase_ok ?s'" using c t
        by (auto simp: phase_ok_def receipt_ok_def advanced_def covers_pending_def pending_break_ok_def word_less_nat_alt)
    qed (use c t in \<open>auto simp: advanced_def\<close>)
    ultimately show ?thesis using t by simp
  qed (use active(1) refines_recovery(2) [OF ok active(2)] in
      \<open>simp_all add: accept_continuity_break_def enter_recovery_def\<close>)
qed

section \<open>Hand-off and durable receipts\<close>

lemma wire_receipt:
  assumes "pending_chunk_ok s (PC_Wire c)"
  shows "pending_receipt_of (PP_Chunk (ns_hardware_id s) c) = Ok \<lparr>dr_hardware_id = ns_hardware_id s,
    dr_boot_epoch = ns_boot_epoch s, dr_end = dc_received (ns_cursors s)\<rparr>"
  using assms
  by (auto simp: covers_pending_def sample_chunk_ok_def add_unchecked_def result_iffs checked_add_Some)

lemma gap_receipt:
  assumes "pending_gap_ok s g"
  shows "pending_receipt_of (PP_Gap g) = Ok \<lparr>dr_hardware_id = ns_hardware_id s,
    dr_boot_epoch = ns_boot_epoch s, dr_end = dc_received (ns_cursors s)\<rparr>"
  using assms by (auto simp: pending_gap_ok_def covers_pending_def add_unchecked_def result_iffs checked_add_Some)

lemma break_receipt:
  assumes "pending_break_ok s b"
  shows "pending_receipt_of (PP_ContinuityBreak b) = Ok \<lparr>dr_hardware_id = ns_hardware_id s,
    dr_boot_epoch = ns_boot_epoch s, dr_end = dc_received (ns_cursors s)\<rparr>"
  using assms
  by (auto simp: pending_break_ok_def covers_pending_def continuity_break_end_def result_iffs checked_advance_Some)

text \<open>The record a session holds, whatever its kind.\<close>

definition pending_record :: "NodeSession \<Rightarrow> PendingPersistence option" where
  "pending_record s = (case ns_phase s of
      SP_PersistingChunk \<Rightarrow> map_option (PP_Chunk (ns_hardware_id s)) (pending_wire_chunk s)
    | SP_PersistingGap \<Rightarrow> map_option PP_Gap (ns_pending_gap s)
    | SP_PersistingContinuityBreak \<Rightarrow> map_option PP_ContinuityBreak (ns_pending_continuity_break s)
    | _ \<Rightarrow> None)"

lemma pending_record_receipt:
  assumes "session_ok s" "pending_record s = Some p"
  shows "pending_receipt_of p = Ok \<lparr>dr_hardware_id = ns_hardware_id s,
      dr_boot_epoch = ns_boot_epoch s, dr_end = dc_received (ns_cursors s)\<rparr>" "receipt_ok s"
  using assms
  by (auto simp: pending_record_def session_ok_def phase_ok_def pending_wire_chunk_def wire_receipt gap_receipt
      break_receipt simp del: pending_receipt_of.simps split: SessionPhase.splits option.splits PendingChunk.splits)

definition without_record :: "NodeSession \<Rightarrow> NodeSession" where
  "without_record s = (case ns_phase s of
      SP_PersistingChunk \<Rightarrow> s\<lparr>ns_pending_chunk := None\<rparr>
    | SP_PersistingGap \<Rightarrow> s\<lparr>ns_pending_gap := None\<rparr>
    | SP_PersistingContinuityBreak \<Rightarrow> s\<lparr>ns_pending_continuity_break := None\<rparr>
    | _ \<Rightarrow> s)"

lemma without_record_fields [simp]:
  "ns_phase (without_record s) = ns_phase s" "ns_cursors (without_record s) = ns_cursors s"
  "ns_hardware_id (without_record s) = ns_hardware_id s" "ns_boot_epoch (without_record s) = ns_boot_epoch s"
  "ns_pending_receipt (without_record s) = ns_pending_receipt s" "ns_active_pull (without_record s) = ns_active_pull s"
  "pending_record (without_record s) = None"
  by (auto simp: without_record_def pending_record_def pending_wire_chunk_def split: SessionPhase.splits)

lemma session_ok_without_record: "session_ok s \<Longrightarrow> session_ok (without_record s)"
  by (auto simp: without_record_def session_ok_def phase_ok_def receipt_ok_def split: SessionPhase.splits)

lemma take_pending_cases:
  assumes "session_ok s"
  obtains (none) e where "pending_record s = None" "take_pending_persistence s = (Err e, s)"
  | (some) p where "pending_record s = Some p" "take_pending_persistence s = (Ok p, without_record s)"
proof (cases "pending_record s")
  case None
  then show ?thesis using that(1)
    by (auto simp: pending_record_def take_pending_persistence_def pending_wire_chunk_def
        split: SessionPhase.splits option.splits PendingChunk.splits)
next
  case (Some p)
  have r: "pending_receipt_of p = (Ok \<lparr>dr_hardware_id = ns_hardware_id s, dr_boot_epoch = ns_boot_epoch s,
      dr_end = dc_received (ns_cursors s)\<rparr> :: (DurableReceipt, SessionError) result)" "receipt_ok s"
    using pending_record_receipt [OF assms Some] by simp_all
  have "hand_off (without_record s) p = (Ok p, without_record s)"
    using r by (simp add: hand_off_def receipt_ok_def)
  then have "take_pending_persistence s = (Ok p, without_record s)"
    using Some by (auto simp: pending_record_def take_pending_persistence_def pending_wire_chunk_def
        without_record_def split: SessionPhase.splits option.splits PendingChunk.splits)
  then show ?thesis using that(2) Some by simp
qed

lemma refines_take_pending:
  assumes ok: "session_ok s"
  shows "refines s (session_apply s S_TakePending)"
  using ok
proof (cases rule: take_pending_cases)
  case (some p)
  have "abs_of (without_record s) = abs_of s" by (cases "ns_phase s") (simp_all add: abs_of_def)
  then show ?thesis using some session_ok_without_record [OF ok] by (simp add: refines_def stutter)
qed (simp add: refines_stutter [OF ok])

definition persisting :: "NodeSession \<Rightarrow> bool" where
  "persisting s \<longleftrightarrow> ns_phase s \<in> {SP_PersistingChunk, SP_PersistingGap, SP_PersistingContinuityBreak}"

definition settled :: "NodeSession \<Rightarrow> NodeSession" where
  "settled s = s\<lparr>ns_cursors := (ns_cursors s)\<lparr>dc_durable := dc_received (ns_cursors s)\<rparr>,
     ns_pending_chunk := None, ns_pending_gap := None, ns_pending_continuity_break := None,
     ns_pending_receipt := None, ns_phase := SP_Ready\<rparr>"

lemma confirm_durable_cases:
  assumes "session_ok s"
  obtains (refused) e where "confirm_durable s r = (Err e, s)" "\<not> persisting s \<or> ns_pending_receipt s \<noteq> Some r"
  | (settled) "confirm_durable s r = (Ok (), settled s)" "persisting s" "ns_pending_receipt s = Some r"
      "dr_end r = dc_received (ns_cursors s)"
proof (cases "persisting s \<and> ns_pending_receipt s = Some r")
  case True
  then have r: "receipt_ok s" using assms by (auto simp: persisting_def session_ok_def phase_ok_def)
  then have "mark_durable (ns_cursors s) (dr_end r) =
      (Ok (), (ns_cursors s)\<lparr>dc_durable := dc_received (ns_cursors s)\<rparr>)"
    using True by (auto simp: receipt_ok_def mark_durable_def)
  then show ?thesis using that(2) True r
    by (auto simp: confirm_durable_def persisting_def receipt_ok_def settled_def)
next
  case False
  then show ?thesis using that(1) assms
    by (cases "dr_hardware_id r \<noteq> ns_hardware_id s \<or> dr_boot_epoch r \<noteq> ns_boot_epoch s"; cases "persisting s")
      (auto simp: confirm_durable_def persisting_def)
qed

lemma refines_confirm_durable:
  assumes ok: "session_ok s"
  shows "refines s (session_apply s (S_ConfirmDurable r))"
  using ok
proof (cases rule: confirm_durable_cases [where r = r])
  case settled
  have "as_phase (abs_of s) = AP_Persisting (unat (dr_end r))"
    using settled by (auto simp: abs_of_def persisting_def)
  then have "abs_step (abs_of s) (L_Durable (unat (dr_end r))) (abs_of (settled s))"
    using durable [of "abs_of s"] settled by (auto simp: abs_of_def settled_def)
  moreover have "session_ok (settled s)"
    using ok by (auto simp: session_ok_def phase_ok_def settled_def delivery_ok_def)
  ultimately show ?thesis using settled by (simp add: refines_def) (simp add: settled_def)
qed (simp add: refines_stutter [OF ok])

lemma session_refines: "session_ok s \<Longrightarrow> refines s (session_apply s op)"
  by (cases op) (simp_all only: refines_begin_pull refines_leave_pull refines_accept_chunk
      refines_accept_wire_chunk refines_accept_no_data refines_range_unavailable refines_accept_gap
      refines_accept_break refines_invalid_release refines_take_pending refines_confirm_durable)

section \<open>Runs\<close>

inductive abs_run :: "AbsSession \<Rightarrow> SessionLabel list \<Rightarrow> AbsSession \<Rightarrow> bool" where
  start: "abs_run a [] a"
| step: "abs_run a ls b \<Longrightarrow> abs_step b l c \<Longrightarrow> abs_run a (ls @ [l]) c"

inductive_cases abs_stepE: "abs_step a l b"

definition session_run :: "NodeSession \<Rightarrow> SessionOp list \<Rightarrow> SessionLabel list \<times> NodeSession" where
  "session_run s ops = foldl (\<lambda>(ls, s) op. case session_apply s op of (l, s') \<Rightarrow> (ls @ [l], s')) ([], s) ops"

fun accounts :: "SessionLabel list \<Rightarrow> (nat \<times> nat) list" where
  "accounts [] = []"
| "accounts (L_Accounted f n # ls) = (f, n) # accounts ls"
| "accounts (_ # ls) = accounts ls"

text \<open>The end of the last receipt that was confirmed.\<close>

fun last_durable :: "nat \<Rightarrow> SessionLabel list \<Rightarrow> nat" where
  "last_durable d [] = d"
| "last_durable d (L_Durable e # ls) = last_durable e ls"
| "last_durable d (_ # ls) = last_durable d ls"

definition frontier :: "AbsSession \<Rightarrow> nat" where
  "frontier a = (case as_phase a of AP_Persisting e \<Rightarrow> e | _ \<Rightarrow> as_durable a)"

lemma accounts_append [simp]: "accounts (xs @ ys) = accounts xs @ accounts ys"
  by (induction xs rule: accounts.induct) auto

lemma covers_append [simp]: "covers (xs @ ys) = covers xs @ covers ys"
  by (simp add: covers_def)

lemma last_durable_append [simp]: "last_durable d (xs @ ys) = last_durable (last_durable d xs) ys"
  by (induction d xs rule: last_durable.induct) auto

lemma abs_step_frontier:
  "abs_step a l b \<Longrightarrow> frontier a \<le> frontier b \<and> covers (accounts [l]) = [frontier a..<frontier b] \<and>
     as_durable b = last_durable (as_durable a) [l]"
  by (erule abs_stepE) (auto simp: frontier_def)

lemma abs_run_frontier:
  "abs_run a ls b \<Longrightarrow> frontier a \<le> frontier b \<and> covers (accounts ls) = [frontier a..<frontier b] \<and>
     as_durable b = last_durable (as_durable a) ls"
proof (induction rule: abs_run.induct)
  case (start a)
  then show ?case by simp
next
  case (step a ls b l c)
  note s = abs_step_frontier [OF step.hyps(2)]
  have "[frontier a..<frontier b] @ [frontier b..<frontier c] = [frontier a..<frontier c]"
    using s step.IH by (metis le_add_diff_inverse upt_add_eq_append)
  then show ?case using s step.IH by (simp del: accounts.simps last_durable.simps(2,3))
qed

lemma abs_run_pulls:
  "abs_run a ls b \<Longrightarrow> i < length ls \<Longrightarrow> ls ! i = L_Pulled f r \<Longrightarrow>
     f = last_durable (as_durable a) (take i ls) \<and> r = f"
proof (induction rule: abs_run.induct)
  case (start a)
  then show ?case by simp
next
  case (step a ls b l c)
  show ?case
  proof (cases "i < length ls")
    case True
    then show ?thesis using step by (simp add: nth_append)
  next
    case False
    then have "i = length ls" using step.prems by simp
    then have "abs_step b (L_Pulled f r) c" using step by simp
    then show ?thesis using abs_run_frontier [OF step.hyps(1)] \<open>i = length ls\<close>
      by (auto elim: abs_stepE)
  qed
qed

lemma abs_run_no_panic: "abs_run a ls b \<Longrightarrow> L_Panicked \<notin> set ls"
  by (induction rule: abs_run.induct) (auto elim: abs_stepE)

lemma frontier_abs_of: "session_ok s \<Longrightarrow> frontier (abs_of s) = unat (dc_received (ns_cursors s))"
  by (auto simp: frontier_def abs_of_def session_ok_def phase_ok_def split: SessionPhase.splits)

lemma session_run_refines:
  "session_ok s \<Longrightarrow> case session_run s ops of (ls, s') \<Rightarrow> session_ok s' \<and> abs_run (abs_of s) ls (abs_of s')"
proof (induction ops rule: rev_induct)
  case Nil
  then show ?case by (simp add: session_run_def abs_run.start)
next
  case (snoc op ops)
  obtain ls s' where r: "session_run s ops = (ls, s')" by (cases "session_run s ops")
  obtain l s'' where a: "session_apply s' op = (l, s'')" by (cases "session_apply s' op")
  have ih: "session_ok s'" "abs_run (abs_of s) ls (abs_of s')" using snoc r by simp_all
  have "refines s' (l, s'')" using session_refines [OF ih(1), of op] a by simp
  then have "session_ok s''" "abs_step (abs_of s') l (abs_of s'')" by (simp_all add: refines_def)
  moreover have "session_run s (ops @ [op]) = (ls @ [l], s'')"
    using r a by (simp add: session_run_def)
  ultimately show ?case using ih(2) by (auto intro: abs_run.step)
qed

text \<open>C4. A session refines its contract: started from recovered cursors, every sequence of pulls,
  answers (valid or not), hand-offs and receipts keeps the session invariant, is a run of the
  abstract session (where a pull asks to release exactly the durable prefix, one record at a time
  is pending, and only its own receipt moves the durable cursor), and never panics.\<close>

theorem session_refines_contract:
  assumes "session_recovered h e d r = Ok s" "session_run s ops = (ls, s')"
  shows "session_ok s' \<and> abs_run (abs_of s) ls (abs_of s') \<and> L_Panicked \<notin> set ls"
  using session_run_refines [OF session_recovered_ok [OF assms(1)], of ops] assms(2)
  by (auto dest: abs_run_no_panic)

text \<open>C5. From recovery on, the chunks, gaps and breaks a session accepts enumerate the sequence
  numbers from the recovered durable cursor to the received cursor exactly once each, and every
  pull it sends starts at, and releases exactly, the end of the last record confirmed durable:
  the node is never told to free a sample the host has not stored.\<close>

theorem session_never_releases_undurable:
  assumes "session_recovered h e d r = Ok s" "session_run s ops = (ls, s')"
  shows "covers (accounts ls) = [unat d..<unat (dc_received (ns_cursors s'))] \<and>
    unat (dc_durable (ns_cursors s')) = last_durable (unat d) ls \<and>
    (\<forall>i f rel. i < length ls \<and> ls ! i = L_Pulled f rel \<longrightarrow>
       f = last_durable (unat d) (take i ls) \<and> rel = last_durable (unat d) (take i ls))"
proof -
  have ok: "session_ok s" by (rule session_recovered_ok [OF assms(1)])
  have run: "session_ok s'" "abs_run (abs_of s) ls (abs_of s')"
    using session_run_refines [OF ok, of ops] assms(2) by simp_all
  have d: "frontier (abs_of s) = unat d" "as_durable (abs_of s) = unat d"
    using assms(1) by (auto simp: session_recovered_def result_iffs delivery_new_Ok abs_of_def frontier_def)
  show ?thesis
    using abs_run_frontier [OF run(2)] abs_run_pulls [OF run(2)] frontier_abs_of [OF run(1)] d
    by (auto simp: abs_of_def)
qed

text \<open>A pending record is handed to storage once and unchanged, a second hand-off is refused, and
  the durable cursor reaches its end exactly when the receipt of that very record comes back; any
  other receipt changes nothing.\<close>

lemma record_hand_off_is_exact:
  assumes "session_ok s" "pending_record s = Some p"
  shows "\<exists>receipt s1. take_pending_persistence s = (Ok p, s1) \<and> pending_receipt_of p = (Ok receipt :: (_, SessionError) result) \<and>
    (\<exists>e. take_pending_persistence s1 = (Err e, s1)) \<and>
    (\<exists>s2. confirm_durable s1 receipt = (Ok (), s2) \<and> ns_phase s2 = SP_Ready \<and>
       dc_durable (ns_cursors s2) = dr_end receipt \<and> dc_received (ns_cursors s2) = dr_end receipt) \<and>
    (\<forall>other. other \<noteq> receipt \<longrightarrow> (\<exists>e. confirm_durable s1 other = (Err e, s1)))"
proof -
  let ?s1 = "without_record s" and ?r = "\<lparr>dr_hardware_id = ns_hardware_id s, dr_boot_epoch = ns_boot_epoch s,
      dr_end = dc_received (ns_cursors s)\<rparr>"
  have ok: "session_ok ?s1" by (rule session_ok_without_record [OF assms(1)])
  have rc: "pending_receipt_of p = (Ok ?r :: (_, SessionError) result)" "receipt_ok s"
    using pending_record_receipt [OF assms] by simp_all
  have t: "take_pending_persistence s = (Ok p, ?s1)"
    using assms by (cases rule: take_pending_cases) auto
  have t2: "\<exists>e. take_pending_persistence ?s1 = (Err e, ?s1)"
    using ok by (cases rule: take_pending_cases) auto
  have p: "persisting ?s1"
    using assms(2) by (auto simp: persisting_def pending_record_def split: SessionPhase.splits)
  have pr: "ns_pending_receipt ?s1 = Some ?r" using rc(2) by (simp add: receipt_ok_def)
  have c: "confirm_durable ?s1 ?r = (Ok (), settled ?s1)"
    using ok p pr by (cases rule: confirm_durable_cases [where r = ?r]) auto
  have o: "\<exists>e. confirm_durable ?s1 x = (Err e, ?s1)" if "x \<noteq> ?r" for x
    using ok pr that by (cases rule: confirm_durable_cases [where r = x]) auto
  show ?thesis using t rc(1) t2 c o by (force simp: settled_def)
qed

section \<open>A concrete session\<close>

definition example_start :: NodeSession where
  "example_start = \<lparr>ns_hardware_id = HardwareId 1 2 3 4 5 6 7 8, ns_boot_epoch = 5,
     ns_cursors = \<lparr>dc_received = 10, dc_durable = 10, dc_released = 7\<rparr>, ns_phase = SP_Ready,
     ns_active_pull = None, ns_pending_chunk = None, ns_pending_gap = None,
     ns_pending_continuity_break = None, ns_pending_receipt = None\<rparr>"

definition example_gap :: GapEvidence where
  "example_gap = \<lparr>ge_boot_epoch = 5, ge_retained_from = 8, ge_produced = 100, ge_first_missing = 10,
     ge_missing_count = 7, ge_reason = SourceLoss\<rparr>"

lemma example_start_recovered: "session_recovered (HardwareId 1 2 3 4 5 6 7 8) 5 10 7 = Ok example_start"
  by (simp add: session_recovered_def delivery_new_def example_start_def)

lemma example_run:
  "session_run example_start [S_BeginPull 32, S_AcceptGap example_gap] = ([L_Pulled 10 10, L_Accounted 10 7],
     example_start\<lparr>ns_cursors := \<lparr>dc_received = 17, dc_durable = 10, dc_released = 10\<rparr>,
       ns_phase := SP_PersistingGap,
       ns_pending_gap := Some \<lparr>gap_hardware_id = HardwareId 1 2 3 4 5 6 7 8, gap_boot_epoch = 5,
         gap_first_missing = 10, gap_missing_count = 7, gap_reason = SourceLoss\<rparr>,
       ns_pending_receipt := Some \<lparr>dr_hardware_id = HardwareId 1 2 3 4 5 6 7 8, dr_boot_epoch = 5, dr_end = 17\<rparr>\<rparr>)"
  by (simp add: session_run_def example_start_def example_gap_def begin_pull_def require_phase_def
      pull_samples_request_new_def accept_gap_def session_active_pull_def gap_validate_for_def
      gap_validate_structure_def gap_evidence_end_def checked_advance_def checked_add_def
      mark_released_def gap_new_def sample_sequence_checked_add_def record_gap_def account_gap_def
      next_sample_def add_unchecked_def Let_def)

theorem session_refines_contract_witness:
  "L_Panicked \<notin> set (fst (session_run example_start [S_BeginPull 32, S_AcceptGap example_gap]))"
  using session_refines_contract [OF example_start_recovered example_run] by (simp add: example_run)

theorem session_never_releases_undurable_witness:
  "covers (accounts (fst (session_run example_start [S_BeginPull 32, S_AcceptGap example_gap]))) = [10..<17]"
  using session_never_releases_undurable [OF example_start_recovered example_run] by (simp add: example_run)

lemma example_run_ok: "session_ok (snd (session_run example_start [S_BeginPull 32, S_AcceptGap example_gap]))"
  using session_run_refines [OF session_recovered_ok [OF example_start_recovered],
      of "[S_BeginPull 32, S_AcceptGap example_gap]"] by (auto split: prod.splits)

end
