(* ===== verification/Host_Transaction.thy ===== *)
theory Host_Transaction
  imports Framing_Frame
begin

text \<open>
  The transaction core of \<^verbatim>\<open>sensor-host/src/transaction.rs\<close>: one request on a half-duplex channel at a
  time, correlation of its response, the deadline, and the quarantine that keeps a late answer
  from being taken for the answer of the next request.
\<close>

section \<open>State and operations\<close>

type_synonym MonotonicMicros = u64
type_synonym DurationMicros = u64

datatype TransactionError =
  TE_ZeroDuration | TE_ChannelBusy | TE_RequestRequiresAddressedNode | TE_InvalidRoutedRequest
| TE_NotTransmitting | TE_TimeOverflow

definition monotonic_checked_add :: "MonotonicMicros \<Rightarrow> DurationMicros \<Rightarrow> MonotonicMicros option" where
  "monotonic_checked_add self duration = checked_add self duration"

definition duration_new :: "u64 \<Rightarrow> (DurationMicros, TransactionError) result" where
  "duration_new v = (if v = 0 then Err TE_ZeroDuration else Ok v)"

datatype TimeoutRecovery = RetrySafe | ReconcileState

record RequestSpec =
  rs_node_address :: u8
  rs_service :: u8
  rs_request_message :: u8
  rs_response_message :: u8
  rs_timeout :: DurationMicros
  rs_timeout_recovery :: TimeoutRecovery

record RoutedRequestSpec =
  rrs_request_destination :: u8
  rrs_response_source :: u8
  rrs_service :: u8
  rrs_request_message :: u8
  rrs_response_message :: u8
  rrs_timeout :: DurationMicros
  rrs_timeout_recovery :: TimeoutRecovery

record ActiveTransaction =
  at_transaction_id :: u32
  at_node_address :: u8
  at_request_destination :: u8
  at_service :: u8
  at_request_message :: u8
  at_response_message :: u8
  at_deadline :: MonotonicMicros
  at_timeout_recovery :: TimeoutRecovery

record PreparedTransaction =
  pt_transaction_id :: u32
  pt_node_address :: u8
  pt_request_destination :: u8
  pt_service :: u8
  pt_request_message :: u8
  pt_response_message :: u8
  pt_timeout :: DurationMicros
  pt_timeout_recovery :: TimeoutRecovery

definition prepared_request_frame :: "PreparedTransaction \<Rightarrow> bytes \<Rightarrow> (Frame, FrameError) result" where
  "prepared_request_frame self payload =
     frame_new Request (pt_request_destination self) HOST_ADDRESS (pt_service self)
       (pt_request_message self) (pt_transaction_id self) payload"

definition active_request_frame :: "ActiveTransaction \<Rightarrow> bytes \<Rightarrow> (Frame, FrameError) result" where
  "active_request_frame self payload =
     frame_new Request (at_request_destination self) HOST_ADDRESS (at_service self)
       (at_request_message self) (at_transaction_id self) payload"

definition transaction_matches :: "ActiveTransaction \<Rightarrow> Frame \<Rightarrow> bool" where
  "transaction_matches self frame \<longleftrightarrow>
     fr_role frame = Response \<and> fr_destination frame = HOST_ADDRESS \<and>
     fr_source frame = at_node_address self \<and> fr_service frame = at_service self \<and>
     fr_message frame = at_response_message self \<and> fr_transaction_id frame = at_transaction_id self"

datatype ResponseDisposition = Accepted | Unrelated | Late | Unsolicited

datatype TimerEvent = TE_None | TE_TimedOut u32 TimeoutRecovery MonotonicMicros | TE_QuarantineEnded

datatype TransactionState =
  Idle | Transmitting PreparedTransaction | Awaiting ActiveTransaction
| Quarantine ActiveTransaction MonotonicMicros

record TransactionCore =
  tc_next_transaction_id :: u32
  tc_quarantine_duration :: DurationMicros
  tc_state :: TransactionState

definition transaction_new :: "u32 \<Rightarrow> DurationMicros \<Rightarrow> TransactionCore" where
  "transaction_new seed quarantine_duration =
     \<lparr>tc_next_transaction_id = seed, tc_quarantine_duration = quarantine_duration, tc_state = Idle\<rparr>"

definition transaction_is_idle :: "TransactionCore \<Rightarrow> bool" where
  "transaction_is_idle self \<longleftrightarrow> tc_state self = Idle"

definition transaction_prepare ::
  "TransactionCore \<Rightarrow> RequestSpec \<Rightarrow> (TransactionCore, PreparedTransaction, TransactionError) outcome" where
  "transaction_prepare self request =
     (if tc_state self \<noteq> Idle then (Err TE_ChannelBusy, self)
      else if rs_node_address request = HOST_ADDRESS \<or> rs_node_address request = BROADCAST_ADDRESS
      then (Err TE_RequestRequiresAddressedNode, self)
      else let transaction =
             \<lparr>pt_transaction_id = tc_next_transaction_id self, pt_node_address = rs_node_address request,
              pt_request_destination = rs_node_address request, pt_service = rs_service request,
              pt_request_message = rs_request_message request,
              pt_response_message = rs_response_message request, pt_timeout = rs_timeout request,
              pt_timeout_recovery = rs_timeout_recovery request\<rparr>
           in (Ok transaction, self\<lparr>tc_next_transaction_id := tc_next_transaction_id self + 1,
                                    tc_state := Transmitting transaction\<rparr>))"

definition transaction_prepare_routed ::
  "TransactionCore \<Rightarrow> RoutedRequestSpec \<Rightarrow> (TransactionCore, PreparedTransaction, TransactionError) outcome" where
  "transaction_prepare_routed self request =
     (if tc_state self \<noteq> Idle then (Err TE_ChannelBusy, self)
      else if rrs_request_destination request = HOST_ADDRESS \<or> rrs_response_source request = HOST_ADDRESS \<or>
              rrs_response_source request = BROADCAST_ADDRESS
      then (Err TE_InvalidRoutedRequest, self)
      else let transaction =
             \<lparr>pt_transaction_id = tc_next_transaction_id self, pt_node_address = rrs_response_source request,
              pt_request_destination = rrs_request_destination request, pt_service = rrs_service request,
              pt_request_message = rrs_request_message request,
              pt_response_message = rrs_response_message request, pt_timeout = rrs_timeout request,
              pt_timeout_recovery = rrs_timeout_recovery request\<rparr>
           in (Ok transaction, self\<lparr>tc_next_transaction_id := tc_next_transaction_id self + 1,
                                    tc_state := Transmitting transaction\<rparr>))"

definition mark_transmitted ::
  "TransactionCore \<Rightarrow> MonotonicMicros \<Rightarrow> (TransactionCore, ActiveTransaction, TransactionError) outcome" where
  "mark_transmitted self now =
     (case tc_state self of
        Transmitting prepared \<Rightarrow>
          try_with (ok_or (monotonic_checked_add now (pt_timeout prepared)) TE_TimeOverflow) self (\<lambda>deadline.
            let active = \<lparr>at_transaction_id = pt_transaction_id prepared,
                  at_node_address = pt_node_address prepared,
                  at_request_destination = pt_request_destination prepared,
                  at_service = pt_service prepared, at_request_message = pt_request_message prepared,
                  at_response_message = pt_response_message prepared, at_deadline = deadline,
                  at_timeout_recovery = pt_timeout_recovery prepared\<rparr>
            in (Ok active, self\<lparr>tc_state := Awaiting active\<rparr>))
      | _ \<Rightarrow> (Err TE_NotTransmitting, self))"

definition transaction_begin ::
  "TransactionCore \<Rightarrow> MonotonicMicros \<Rightarrow> RequestSpec \<Rightarrow>
     (TransactionCore, ActiveTransaction, TransactionError) outcome" where
  "transaction_begin self now request =
     (case transaction_prepare self request of
        (Ok _, self) \<Rightarrow>
          (case mark_transmitted self now of
             (Ok active, self) \<Rightarrow> (Ok active, self)
           | (Err e, self) \<Rightarrow> (Err e, self\<lparr>tc_state := Idle\<rparr>)
           | (Panic, self) \<Rightarrow> (Panic, self))
      | (Err e, self) \<Rightarrow> (Err e, self)
      | (Panic, self) \<Rightarrow> (Panic, self))"

definition cancel_transmit :: "TransactionCore \<Rightarrow> (TransactionCore, unit, TransactionError) outcome" where
  "cancel_transmit self =
     (case tc_state self of
        Transmitting _ \<Rightarrow> (Ok (), self\<lparr>tc_state := Idle\<rparr>)
      | _ \<Rightarrow> (Err TE_NotTransmitting, self))"

definition enter_quarantine ::
  "TransactionCore \<Rightarrow> ActiveTransaction \<Rightarrow> (TransactionCore, MonotonicMicros, TransactionError) outcome" where
  "enter_quarantine self expired =
     try_with (ok_or (monotonic_checked_add (at_deadline expired) (tc_quarantine_duration self)) TE_TimeOverflow)
       self (\<lambda>until. (Ok until, self\<lparr>tc_state := Quarantine expired until\<rparr>))"

definition transaction_receive ::
  "TransactionCore \<Rightarrow> MonotonicMicros \<Rightarrow> Frame \<Rightarrow>
     (TransactionCore, ResponseDisposition, TransactionError) outcome" where
  "transaction_receive self now frame =
     (case tc_state self of
        Idle \<Rightarrow> (Ok Unsolicited, self)
      | Transmitting _ \<Rightarrow> (Ok Unrelated, self)
      | Awaiting active \<Rightarrow>
          if now \<le> at_deadline active
          then if transaction_matches active frame then (Ok Accepted, self\<lparr>tc_state := Idle\<rparr>)
               else (Ok Unrelated, self)
          else (case enter_quarantine self active of
                  (Ok _, self) \<Rightarrow> (Ok (if transaction_matches active frame then Late else Unrelated), self)
                | (Err e, self) \<Rightarrow> (Err e, self)
                | (Panic, self) \<Rightarrow> (Panic, self))
      | Quarantine expired _ \<Rightarrow>
          (Ok (if transaction_matches expired frame then Late else Unrelated), self))"

definition on_timer ::
  "TransactionCore \<Rightarrow> MonotonicMicros \<Rightarrow> (TransactionCore, TimerEvent, TransactionError) outcome" where
  "on_timer self now =
     (case tc_state self of
        Idle \<Rightarrow> (Ok TE_None, self)
      | Transmitting _ \<Rightarrow> (Ok TE_None, self)
      | Awaiting active \<Rightarrow>
          if now \<le> at_deadline active then (Ok TE_None, self)
          else (case enter_quarantine self active of
                  (Ok until, self) \<Rightarrow>
                    (Ok (TE_TimedOut (at_transaction_id active) (at_timeout_recovery active) until), self)
                | (Err e, self) \<Rightarrow> (Err e, self)
                | (Panic, self) \<Rightarrow> (Panic, self))
      | Quarantine _ until \<Rightarrow>
          if now < until then (Ok TE_None, self)
          else (Ok TE_QuarantineEnded, self\<lparr>tc_state := Idle\<rparr>))"

lemmas transaction_defs = transaction_prepare_def transaction_prepare_routed_def mark_transmitted_def
  transaction_begin_def cancel_transmit_def transaction_receive_def on_timer_def Let_def

section \<open>Runs of the machine\<close>

datatype TransactionOp =
  TxPrepare RequestSpec | TxPrepareRouted RoutedRequestSpec | TxMarkTransmitted MonotonicMicros
| TxBegin MonotonicMicros RequestSpec | TxCancel | TxReceive MonotonicMicros Frame | TxTimer MonotonicMicros

text \<open>What an observer of the channel sees: the requests that are put on it and the responses that
  are accepted, with the identifier each carries.\<close>

datatype TxObservation = Issued u32 | AcceptedResponse u32

fun tx_apply :: "TransactionCore \<Rightarrow> TransactionOp \<Rightarrow> TxObservation list \<times> TransactionCore" where
  "tx_apply s (TxPrepare r) =
     (case transaction_prepare s r of (Ok p, s') \<Rightarrow> ([Issued (pt_transaction_id p)], s') | (_, s') \<Rightarrow> ([], s'))"
| "tx_apply s (TxPrepareRouted r) =
     (case transaction_prepare_routed s r of (Ok p, s') \<Rightarrow> ([Issued (pt_transaction_id p)], s') | (_, s') \<Rightarrow> ([], s'))"
| "tx_apply s (TxBegin t r) =
     (case transaction_begin s t r of
        (Ok a, s') \<Rightarrow> ([Issued (at_transaction_id a)], s')
      | (_, s') \<Rightarrow> (if tc_next_transaction_id s' = tc_next_transaction_id s then []
                   else [Issued (tc_next_transaction_id s)], s'))"
| "tx_apply s (TxMarkTransmitted t) = ([], snd (mark_transmitted s t))"
| "tx_apply s TxCancel = ([], snd (cancel_transmit s))"
| "tx_apply s (TxReceive t f) =
     (case transaction_receive s t f of
        (Ok Accepted, s') \<Rightarrow> ([AcceptedResponse (fr_transaction_id f)], s') | (_, s') \<Rightarrow> ([], s'))"
| "tx_apply s (TxTimer t) = ([], snd (on_timer s t))"

fun tx_log :: "TransactionCore \<Rightarrow> TransactionOp list \<Rightarrow> TxObservation list" where
  "tx_log s [] = []"
| "tx_log s (op # ops) = (case tx_apply s op of (obs, s') \<Rightarrow> obs @ tx_log s' ops)"

text \<open>The abstract channel: requests take consecutive identifiers, and an accepted response answers
  the request issued last, once.\<close>

fun channel_log :: "u32 \<Rightarrow> u32 option \<Rightarrow> TxObservation list \<Rightarrow> bool" where
  "channel_log nxt outstanding [] = True"
| "channel_log nxt outstanding (Issued i # obs) = (i = nxt \<and> channel_log (nxt + 1) (Some i) obs)"
| "channel_log nxt outstanding (AcceptedResponse i # obs) = (outstanding = Some i \<and> channel_log nxt None obs)"

definition outstanding_ok :: "TransactionCore \<Rightarrow> u32 option \<Rightarrow> bool" where
  "outstanding_ok s outstanding = (case tc_state s of
      Transmitting p \<Rightarrow> outstanding = Some (pt_transaction_id p)
    | Awaiting a \<Rightarrow> outstanding = Some (at_transaction_id a)
    | _ \<Rightarrow> True)"

definition tx_step :: "TransactionCore \<Rightarrow> TransactionOp \<Rightarrow> TransactionCore" where
  "tx_step s op = snd (tx_apply s op)"

text \<open>What the abstract channel remembers after an observation.\<close>

fun observe_channel :: "u32 option \<Rightarrow> TxObservation list \<Rightarrow> u32 option" where
  "observe_channel outstanding [] = outstanding"
| "observe_channel outstanding (Issued i # obs) = observe_channel (Some i) obs"
| "observe_channel outstanding (AcceptedResponse i # obs) = observe_channel None obs"

lemma enter_quarantine_cases:
  obtains (over) "enter_quarantine s a = (Err TE_TimeOverflow, s)"
      "2 ^ 64 \<le> unat (at_deadline a) + unat (tc_quarantine_duration s)"
  | (until) u where "enter_quarantine s a = (Ok u, s\<lparr>tc_state := Quarantine a u\<rparr>)"
      "unat u = unat (at_deadline a) + unat (tc_quarantine_duration s)"
proof (cases "monotonic_checked_add (at_deadline a) (tc_quarantine_duration s)")
  case None
  then show ?thesis using over
    by (simp add: enter_quarantine_def) (simp add: monotonic_checked_add_def checked_add_None)
next
  case (Some u)
  then show ?thesis using until [of u]
    by (simp add: enter_quarantine_def) (simp add: monotonic_checked_add_def checked_add_Some)
qed

lemma transaction_receive_Accepted:
  "transaction_receive s now f = (Ok Accepted, s') \<longleftrightarrow>
   (\<exists>a. tc_state s = Awaiting a \<and> now \<le> at_deadline a \<and> transaction_matches a f \<and> s' = s\<lparr>tc_state := Idle\<rparr>)"
  by (auto simp: transaction_receive_def enter_quarantine_def try_with_ok_or
      split: TransactionState.splits option.splits)

lemma prepare_cases:
  obtains (refused) e where "transaction_prepare s r = (Err e, s)"
  | (ready) p where "pt_transaction_id p = tc_next_transaction_id s" "transaction_prepare s r = (Ok p,
      s\<lparr>tc_next_transaction_id := tc_next_transaction_id s + 1, tc_state := Transmitting p\<rparr>)"
  by (cases "tc_state s = Idle"; cases "rs_node_address r = HOST_ADDRESS \<or> rs_node_address r = BROADCAST_ADDRESS")
    (simp_all add: transaction_prepare_def Let_def)

lemma prepare_routed_cases:
  obtains (refused) e where "transaction_prepare_routed s r = (Err e, s)"
  | (ready) p where "pt_transaction_id p = tc_next_transaction_id s" "transaction_prepare_routed s r = (Ok p,
      s\<lparr>tc_next_transaction_id := tc_next_transaction_id s + 1, tc_state := Transmitting p\<rparr>)"
  by (cases "tc_state s = Idle"; cases "rrs_request_destination r = HOST_ADDRESS \<or>
      rrs_response_source r = HOST_ADDRESS \<or> rrs_response_source r = BROADCAST_ADDRESS")
    (simp_all add: transaction_prepare_routed_def Let_def)

lemma mark_transmitted_cases:
  obtains (refused) e where "mark_transmitted s t = (Err e, s)"
  | (sent) p a where "mark_transmitted s t = (Ok a, s\<lparr>tc_state := Awaiting a\<rparr>)"
      "tc_state s = Transmitting p" "at_transaction_id a = pt_transaction_id p"
      "unat (at_deadline a) = unat t + unat (pt_timeout p)"
proof (cases "\<exists>p. tc_state s = Transmitting p")
  case False
  then show ?thesis using refused by (cases "tc_state s") (auto simp: mark_transmitted_def)
next
  case True
  then obtain p where p: "tc_state s = Transmitting p" by auto
  show ?thesis
  proof (cases "monotonic_checked_add t (pt_timeout p)")
    case None
    then show ?thesis using refused p by (simp add: mark_transmitted_def)
  next
    case (Some d)
    then show ?thesis using sent p
      by (simp add: mark_transmitted_def Let_def) (simp add: monotonic_checked_add_def checked_add_Some)
  qed
qed

text \<open>An operation that the abstract channel does not see: it may only forget the outstanding
  request.\<close>

definition quiet :: "TransactionCore \<Rightarrow> TransactionCore \<Rightarrow> bool" where
  "quiet s s' \<longleftrightarrow> tc_next_transaction_id s' = tc_next_transaction_id s \<and>
     (\<forall>out. outstanding_ok s out \<longrightarrow> outstanding_ok s' out)"

lemma quiet_refl [simp]: "quiet s s"
  by (simp add: quiet_def)

lemma quiet_mark_transmitted: "quiet s (snd (mark_transmitted s t))"
  by (cases rule: mark_transmitted_cases [of s t]) (auto simp: quiet_def outstanding_ok_def)

lemma quiet_cancel: "quiet s (snd (cancel_transmit s))"
  by (cases "tc_state s") (auto simp: cancel_transmit_def quiet_def outstanding_ok_def)

lemma quiet_enter_quarantine: "quiet s (snd (enter_quarantine s a))"
  by (cases rule: enter_quarantine_cases [of s a]) (auto simp: quiet_def outstanding_ok_def)

lemma quiet_on_timer: "quiet s (snd (on_timer s t))"
proof (cases "tc_state s")
  case (Awaiting a)
  then show ?thesis using quiet_enter_quarantine [of s a]
    by (cases rule: enter_quarantine_cases [of s a]) (auto simp: on_timer_def)
qed (auto simp: on_timer_def quiet_def outstanding_ok_def)

lemma quiet_receive:
  assumes "fst (transaction_receive s t f) \<noteq> Ok Accepted"
  shows "quiet s (snd (transaction_receive s t f))"
proof (cases "tc_state s")
  case (Awaiting a)
  then show ?thesis using assms quiet_enter_quarantine [of s a]
    by (cases rule: enter_quarantine_cases [of s a]) (auto simp: transaction_receive_def split: if_splits)
qed (auto simp: transaction_receive_def)

lemma begin_cases:
  obtains (refused) e where "transaction_begin s t r = (Err e, s)"
  | (issued) res s' where "transaction_begin s t r = (res, s')" "res \<noteq> Panic"
      "tc_next_transaction_id s' = tc_next_transaction_id s + 1"
      "outstanding_ok s' (Some (tc_next_transaction_id s))"
      "\<And>a. res = Ok a \<Longrightarrow> at_transaction_id a = tc_next_transaction_id s"
proof (cases rule: prepare_cases [of s r])
  case (refused e)
  then show ?thesis using that(1) by (simp add: transaction_begin_def)
next
  case (ready p)
  let ?s1 = "s\<lparr>tc_next_transaction_id := tc_next_transaction_id s + 1, tc_state := Transmitting p\<rparr>"
  show ?thesis
    by (cases rule: mark_transmitted_cases [of ?s1 t])
      (use that(2) ready in \<open>auto simp: transaction_begin_def outstanding_ok_def\<close>)
qed

text \<open>One operation, seen from the abstract channel: it is quiet, it issues the next request, or it
  accepts the answer to the outstanding one.\<close>

lemma tx_apply_cases:
  obtains (silent) s' where "tx_apply s op = ([], s')" "quiet s s'"
  | (issue) s' where "tx_apply s op = ([Issued (tc_next_transaction_id s)], s')"
      "tc_next_transaction_id s' = tc_next_transaction_id s + 1"
      "outstanding_ok s' (Some (tc_next_transaction_id s))"
  | (accept) a where "tx_apply s op = ([AcceptedResponse (at_transaction_id a)], s\<lparr>tc_state := Idle\<rparr>)"
      "tc_state s = Awaiting a"
proof (cases op)
  case (TxPrepare r)
  then show ?thesis
    by (cases rule: prepare_cases [of s r]) (use that in \<open>auto simp: outstanding_ok_def\<close>)
next
  case (TxPrepareRouted r)
  then show ?thesis
    by (cases rule: prepare_routed_cases [of s r]) (use that in \<open>auto simp: outstanding_ok_def\<close>)
next
  case (TxBegin t r)
  show ?thesis
  proof (cases rule: begin_cases [of s t r])
    case (issued res s')
    then show ?thesis using TxBegin that(2) by (cases res) auto
  qed (use TxBegin that(1) [of s] in simp)
next
  case (TxReceive t f)
  show ?thesis
  proof (cases "fst (transaction_receive s t f) = Ok Accepted")
    case True
    then obtain a where "tc_state s = Awaiting a" "transaction_matches a f"
        "transaction_receive s t f = (Ok Accepted, s\<lparr>tc_state := Idle\<rparr>)"
      by (metis prod.collapse transaction_receive_Accepted)
    then show ?thesis using TxReceive that(3) [of a] by (simp add: transaction_matches_def)
  next
    case False
    then have "tx_apply s op = ([], snd (transaction_receive s t f))"
      using TxReceive by (auto split: result.splits ResponseDisposition.splits prod.splits)
    then show ?thesis using that(1) quiet_receive [OF False] by simp
  qed
qed (use that(1) in \<open>auto simp: quiet_mark_transmitted quiet_cancel quiet_on_timer\<close>)

lemma tx_log_channel:
  "outstanding_ok s out \<Longrightarrow> channel_log (tc_next_transaction_id s) out (tx_log s ops)"
proof (induction ops arbitrary: s out)
  case Nil
  then show ?case by simp
next
  case (Cons op ops)
  show ?case
  proof (cases rule: tx_apply_cases [of s op])
    case (silent s')
    then show ?thesis using Cons.IH [of s' out] Cons.prems by (simp add: quiet_def)
  next
    case (issue s')
    then show ?thesis using Cons.IH [of s' "Some (tc_next_transaction_id s)"] by simp
  next
    case (accept a)
    then show ?thesis using Cons.IH [of "s\<lparr>tc_state := Idle\<rparr>" None] Cons.prems
      by (simp add: outstanding_ok_def)
  qed
qed

text \<open>C13. Whatever operations, frames and timer ticks a channel sees, requests carry consecutive
  transaction identifiers from the seed, and every accepted response carries the identifier of the
  request issued last, which is accepted at most once: no answer is ever taken for the answer to
  another request.\<close>

theorem responses_answer_the_last_request:
  "channel_log seed None (tx_log (transaction_new seed q) ops)"
  using tx_log_channel [of "transaction_new seed q" None] by (simp add: transaction_new_def outstanding_ok_def)

section \<open>Timeout and quarantine\<close>

lemma quarantine_persists:
  assumes "tc_state s = Quarantine a until" "\<And>t. TxTimer t \<in> set ops \<Longrightarrow> t < until"
  shows "tx_log s ops = [] \<and> foldl tx_step s ops = s"
  using assms(2)
proof (induction ops)
  case Nil
  then show ?case by simp
next
  case (Cons op ops)
  have "tx_apply s op = ([], s)"
    using assms(1) Cons.prems by (cases op) (auto simp: transaction_defs split: if_splits)
  then show ?case using Cons by (auto simp: tx_step_def)
qed

text \<open>C14. A channel that waits in vain is released: past the deadline the timer reports the timeout
  with its recovery class, until \<open>deadline + quarantine\<close> the channel neither issues a request nor
  accepts a frame, whatever arrives, and the first timer tick from then on makes it idle.\<close>

theorem timed_out_channel_is_quarantined_then_released:
  assumes "tc_state s = Awaiting a" "unat (at_deadline a) + unat (tc_quarantine_duration s) < 2 ^ 64"
    and "at_deadline a < t"
    and "\<forall>t. TxTimer t \<in> set ops \<longrightarrow> unat t < unat (at_deadline a) + unat (tc_quarantine_duration s)"
    and "unat (at_deadline a) + unat (tc_quarantine_duration s) \<le> unat t'"
  shows "\<exists>until s1 s2. on_timer s t = (Ok (TE_TimedOut (at_transaction_id a) (at_timeout_recovery a) until), s1) \<and>
    unat until = unat (at_deadline a) + unat (tc_quarantine_duration s) \<and>
    tx_log s1 ops = [] \<and> foldl tx_step s1 ops = s1 \<and>
    on_timer s1 t' = (Ok TE_QuarantineEnded, s2) \<and> transaction_is_idle s2"
proof (cases rule: enter_quarantine_cases [of s a])
  case over
  then show ?thesis using assms(2) by simp
next
  case (until u)
  let ?s1 = "s\<lparr>tc_state := Quarantine a u\<rparr>"
  have "on_timer s t = (Ok (TE_TimedOut (at_transaction_id a) (at_timeout_recovery a) u), ?s1)"
    using assms(1,3) until by (simp add: on_timer_def)
  moreover have "tx_log ?s1 ops = [] \<and> foldl tx_step ?s1 ops = ?s1"
    using assms(4) until(2) by (intro quarantine_persists [of _ a u]) (auto simp: word_less_nat_alt)
  moreover have "on_timer ?s1 t' = (Ok TE_QuarantineEnded, ?s1\<lparr>tc_state := Idle\<rparr>)"
    using assms(5) until(2) by (simp add: on_timer_def word_less_nat_alt)
  ultimately show ?thesis using until(2) by (auto simp: transaction_is_idle_def)
qed

definition example_awaiting :: TransactionCore where
  "example_awaiting = snd (transaction_begin (transaction_new 40 500) 1000
     \<lparr>rs_node_address = 7, rs_service = 2, rs_request_message = 3, rs_response_message = 4,
      rs_timeout = 1000, rs_timeout_recovery = RetrySafe\<rparr>)"

lemma example_awaiting_state:
  "example_awaiting = \<lparr>tc_next_transaction_id = 41, tc_quarantine_duration = 500,
     tc_state = Awaiting \<lparr>at_transaction_id = 40, at_node_address = 7, at_request_destination = 7,
       at_service = 2, at_request_message = 3, at_response_message = 4, at_deadline = 2000,
       at_timeout_recovery = RetrySafe\<rparr>\<rparr>"
  by (simp add: example_awaiting_def transaction_begin_def transaction_prepare_def mark_transmitted_def
      transaction_new_def monotonic_checked_add_def checked_add_def HOST_ADDRESS_def BROADCAST_ADDRESS_def
      Let_def)

theorem timed_out_channel_is_quarantined_then_released_witness:
  "\<exists>until s1 s2. on_timer example_awaiting 2001 = (Ok (TE_TimedOut 40 RetrySafe until), s1) \<and>
    unat until = 2500 \<and> tx_log s1 [TxTimer 2400, TxCancel] = [] \<and>
    on_timer s1 2500 = (Ok TE_QuarantineEnded, s2) \<and> transaction_is_idle s2"
  using timed_out_channel_is_quarantined_then_released [of example_awaiting
      "\<lparr>at_transaction_id = 40, at_node_address = 7, at_request_destination = 7,
       at_service = 2, at_request_message = 3, at_response_message = 4, at_deadline = 2000,
       at_timeout_recovery = RetrySafe\<rparr>" 2001 "[TxTimer 2400, TxCancel]" 2500]
  by (auto simp: example_awaiting_state)

end
