(* ===== verification/Host_Transfer.thy ===== *)
theory Host_Transfer
  imports Host_Session Host_Transaction
begin

text \<open>
  The measurement transfer of one node (\<^verbatim>\<open>sensor-host/src/measurement_transfer.rs\<close>): the session wrapped
  with the wire encoding of pulls and the interpretation of their answers.
\<close>

definition PULL_SAMPLES_MESSAGE_ID :: u8 where "PULL_SAMPLES_MESSAGE_ID = 2"

datatype PersistenceKind =
  PK_SampleChunk u16 | PK_Gap Gap | PK_ContinuityBreak ContinuityBreak

datatype RecoveryReason =
  RR_StreamChanged BootEpoch | RR_InvalidRelease StreamState | RR_InvalidResponse

datatype MeasurementOutcome =
  MO_NotAccepted | MO_NoData StreamState | MO_PersistenceRequired PersistenceKind
| MO_RecoveryRequired RecoveryReason

record MeasurementAttempt =
  ma_request :: RequestSpec
  ma_payload :: bytes

record MeasurementTransfer =
  mt_node_address :: u8
  mt_max_samples :: u16
  mt_session :: NodeSession
  mt_observed_produced :: "SequenceCursor option"
  mt_persistence_kind :: "PersistenceKind option"
  mt_recovery_reason :: "RecoveryReason option"

datatype MeasurementTransferError =
  MTE_ZeroSampleLimit | MTE_Session SessionError | MTE_Wire MeasurementWireError

definition transfer_new :: "u8 \<Rightarrow> u16 \<Rightarrow> NodeSession \<Rightarrow> (MeasurementTransfer, MeasurementTransferError) result" where
  "transfer_new node_address max_samples session =
     (if max_samples = 0 then Err MTE_ZeroSampleLimit
      else Ok \<lparr>mt_node_address = node_address, mt_max_samples = max_samples, mt_session = session,
               mt_observed_produced = None, mt_persistence_kind = None, mt_recovery_reason = None\<rparr>)"

text \<open>\<open>self.session.op(..)?\<close> inside a method of the transfer.\<close>

definition on_session ::
  "MeasurementTransfer \<Rightarrow> (NodeSession, 'a, SessionError) outcome \<Rightarrow>
     ('a \<Rightarrow> MeasurementTransfer \<Rightarrow> (MeasurementTransfer, 'b, MeasurementTransferError) outcome) \<Rightarrow>
     (MeasurementTransfer, 'b, MeasurementTransferError) outcome" where
  "on_session self out k =
     (let self = self\<lparr>mt_session := snd out\<rparr> in try_with (map_err MTE_Session (fst out)) self (\<lambda>x. k x self))"

definition transfer_take_pending ::
  "MeasurementTransfer \<Rightarrow> (MeasurementTransfer, PendingPersistence, MeasurementTransferError) outcome" where
  "transfer_take_pending self =
     on_session self (take_pending_persistence (mt_session self)) (\<lambda>p self. (Ok p, self))"

definition transfer_begin_attempt ::
  "MeasurementTransfer \<Rightarrow> DurationMicros \<Rightarrow>
     (MeasurementTransfer, MeasurementAttempt, MeasurementTransferError) outcome" where
  "transfer_begin_attempt self timeout =
     on_session self (begin_pull (mt_session self) (mt_max_samples self)) (\<lambda>pull self.
       try_with (map_err MTE_Wire (encode_pull_request pull)) self (\<lambda>payload.
         (Ok \<lparr>ma_request = \<lparr>rs_node_address = mt_node_address self,
                rs_service = service_code SID_Measurement,
                rs_request_message = PULL_SAMPLES_MESSAGE_ID, rs_response_message = PULL_SAMPLES_MESSAGE_ID,
                rs_timeout = timeout, rs_timeout_recovery = RetrySafe\<rparr>, ma_payload = payload\<rparr>, self)))"

definition mark_attempt_uncertain ::
  "MeasurementTransfer \<Rightarrow> (MeasurementTransfer, unit, MeasurementTransferError) outcome" where
  "mark_attempt_uncertain self =
     on_session self (abandon_pull_for_retry (mt_session self)) (\<lambda>_ self. (Ok (), self))"

text \<open>The \<open>match response\<close> of \<open>accept_response\<close>.\<close>

fun accept_pull_response ::
  "MeasurementTransfer \<Rightarrow> PullResponse \<Rightarrow> (MeasurementTransfer, MeasurementOutcome, MeasurementTransferError) outcome" where
  "accept_pull_response self (PR_SampleChunk chunk) =
     on_session self (accept_wire_chunk (mt_session self) chunk) (\<lambda>_ self.
       (Ok (MO_PersistenceRequired (PK_SampleChunk (sch_sample_count (sc_header chunk)))),
        self\<lparr>mt_observed_produced := Some (sch_produced (sc_header chunk)),
             mt_persistence_kind := Some (PK_SampleChunk (sch_sample_count (sc_header chunk)))\<rparr>))"
| "accept_pull_response self (PR_NoData state) =
     on_session self (accept_no_data (mt_session self) state) (\<lambda>_ self.
       (Ok (MO_NoData state), self\<lparr>mt_observed_produced := Some (ss_produced state)\<rparr>))"
| "accept_pull_response self (PR_RangeUnavailable state) =
     on_session self (accept_range_unavailable (mt_session self) state) (\<lambda>gap self.
       (Ok (MO_PersistenceRequired (PK_Gap gap)),
        self\<lparr>mt_observed_produced := Some (ss_produced state), mt_persistence_kind := Some (PK_Gap gap)\<rparr>))"
| "accept_pull_response self (PR_Gap evidence) =
     on_session self (accept_gap (mt_session self) evidence) (\<lambda>gap self.
       (Ok (MO_PersistenceRequired (PK_Gap gap)),
        self\<lparr>mt_observed_produced := Some (ge_produced evidence), mt_persistence_kind := Some (PK_Gap gap)\<rparr>))"
| "accept_pull_response self (PR_ContinuityBreak evidence) =
     on_session self (accept_continuity_break (mt_session self) evidence) (\<lambda>observed self.
       (Ok (MO_PersistenceRequired (PK_ContinuityBreak observed)),
        self\<lparr>mt_observed_produced := Some (cbe_produced evidence),
             mt_persistence_kind := Some (PK_ContinuityBreak observed)\<rparr>))"
| "accept_pull_response self (PR_StreamChanged epoch) =
     on_session self (stream_changed (mt_session self)) (\<lambda>_ self.
       (Ok (MO_RecoveryRequired (RR_StreamChanged epoch)),
        self\<lparr>mt_recovery_reason := Some (RR_StreamChanged epoch)\<rparr>))"
| "accept_pull_response self (PR_InvalidRelease state) =
     on_session self (invalid_release (mt_session self) state) (\<lambda>_ self.
       (Ok (MO_RecoveryRequired (RR_InvalidRelease state)),
        self\<lparr>mt_observed_produced := Some (ss_produced state),
             mt_recovery_reason := Some (RR_InvalidRelease state)\<rparr>))"

definition transfer_accept_response ::
  "MeasurementTransfer \<Rightarrow> bytes \<Rightarrow> (MeasurementTransfer, MeasurementOutcome, MeasurementTransferError) outcome" where
  "transfer_accept_response self payload =
     (case decode_pull_response payload of
        Ok response \<Rightarrow> accept_pull_response self response
      | Err e \<Rightarrow>
          if e = MWE_RemoteError RS_Busy
          then on_session self (abandon_pull_for_retry (mt_session self)) (\<lambda>_ self. (Ok MO_NotAccepted, self))
          else on_session self (fail_pull_for_recovery (mt_session self)) (\<lambda>_ self.
                 (Ok (MO_RecoveryRequired RR_InvalidResponse),
                  self\<lparr>mt_recovery_reason := Some RR_InvalidResponse\<rparr>))
      | Panic \<Rightarrow> (Panic, self))"

definition transfer_confirm_durable ::
  "MeasurementTransfer \<Rightarrow> DurableReceipt \<Rightarrow> (MeasurementTransfer, unit, MeasurementTransferError) outcome" where
  "transfer_confirm_durable self receipt =
     on_session self (confirm_durable (mt_session self) receipt) (\<lambda>_ self. (Ok (), self))"

section \<open>Answers end the pull\<close>

text \<open>The session operation that an answer amounts to.\<close>

fun response_op :: "PullResponse \<Rightarrow> SessionOp" where
  "response_op (PR_SampleChunk c) = S_AcceptWireChunk c"
| "response_op (PR_NoData s) = S_AcceptNoData s"
| "response_op (PR_RangeUnavailable s) = S_AcceptRangeUnavailable s"
| "response_op (PR_StreamChanged e) = S_StreamChanged"
| "response_op (PR_InvalidRelease s) = S_InvalidRelease s"
| "response_op (PR_Gap g) = S_AcceptGap g"
| "response_op (PR_ContinuityBreak b) = S_AcceptContinuityBreak b"

lemma snd_on_session:
  assumes "\<And>x t. mt_session (snd (k x t)) = mt_session t"
  shows "mt_session (snd (on_session self out k)) = snd out"
  using assms by (cases out; cases "fst out") (auto simp: on_session_def Let_def)

lemma snd_labelled [simp]: "snd (labelled l out) = snd out"
  by (cases out; cases "fst out") auto

lemma accept_pull_response_session:
  "mt_session (snd (accept_pull_response t r)) = snd (session_apply (mt_session t) (response_op r))"
  by (cases r) (simp_all add: snd_on_session)

lemma fst_on_session_Panic:
  assumes "\<And>x t. fst (k x t) \<noteq> Panic"
  shows "fst (on_session self out k) = Panic \<longleftrightarrow> fst out = Panic"
  using assms by (cases out; cases "fst out") (auto simp: on_session_def Let_def)

lemma labelled_no_panic: "fst (labelled f out) \<noteq> L_Panicked \<Longrightarrow> fst out \<noteq> Panic"
  by (cases out) auto

lemma session_apply_no_panic: "session_ok s \<Longrightarrow> fst (session_apply s op) \<noteq> L_Panicked"
  using session_refines [of s op] by (auto simp: refines_def elim: abs_stepE)

lemma session_op_no_panic:
  assumes "session_ok s"
  shows "fst (accept_wire_chunk s c) \<noteq> Panic" "fst (accept_no_data s st) \<noteq> Panic"
    "fst (accept_range_unavailable s st) \<noteq> Panic" "fst (accept_gap s g) \<noteq> Panic"
    "fst (accept_continuity_break s b) \<noteq> Panic" "fst (stream_changed s) \<noteq> Panic"
    "fst (invalid_release s st) \<noteq> Panic" "fst (abandon_pull_for_retry s) \<noteq> Panic"
    "fst (fail_pull_for_recovery s) \<noteq> Panic"
  using session_apply_no_panic [OF assms, of "S_AcceptWireChunk c"]
    session_apply_no_panic [OF assms, of "S_AcceptNoData st"]
    session_apply_no_panic [OF assms, of "S_AcceptRangeUnavailable st"]
    session_apply_no_panic [OF assms, of "S_AcceptGap g"]
    session_apply_no_panic [OF assms, of "S_AcceptContinuityBreak b"]
    session_apply_no_panic [OF assms, of S_StreamChanged]
    session_apply_no_panic [OF assms, of "S_InvalidRelease st"]
    session_apply_no_panic [OF assms, of S_Abandon] session_apply_no_panic [OF assms, of S_FailPull]
  by (auto dest!: labelled_no_panic)

lemma accept_pull_response_no_panic:
  "session_ok (mt_session t) \<Longrightarrow> fst (accept_pull_response t r) \<noteq> Panic"
  by (cases r) (simp_all add: fst_on_session_Panic session_op_no_panic)

lemma awaiting_pull:
  assumes "session_ok s" "ns_phase s = SP_AwaitingPull"
  obtains r where "session_active_pull s = Ok r" "pull_ok r" "psr_boot_epoch r = ns_boot_epoch s"
      "psr_from r = dc_durable (ns_cursors s)" "psr_release_before r = dc_durable (ns_cursors s)"
      "dc_received (ns_cursors s) = dc_durable (ns_cursors s)"
  using assms(1)
proof (cases rule: active_pull_cases)
  case (refused e)
  then show ?thesis using assms
    by (auto simp: session_active_pull_def require_phase_def session_ok_def phase_ok_def)
qed (rule that)

lemma chunk_ends_pull:
  assumes "session_ok s" "ns_phase s = SP_AwaitingPull" "sample_chunk_ok c"
  shows "ns_phase (snd (accept_wire_chunk s c)) \<noteq> SP_AwaitingPull"
proof -
  obtain r where r: "session_active_pull s = Ok r" "psr_from r = dc_durable (ns_cursors s)"
      "psr_release_before r = dc_durable (ns_cursors s)" "dc_received (ns_cursors s) = dc_durable (ns_cursors s)"
    using assms by (auto elim: awaiting_pull)
  have v: "sample_chunk_validate c = Ok ()" using assms(3) by (simp add: sample_chunk_validate_Ok)
  have l: "length (sc_samples c) = unat (sch_sample_count (sc_header c))"
    using assms(3) by (simp add: sample_chunk_ok_def)
  show ?thesis
  proof (cases "chunk_validate_for (sc_header c) r")
    case (Ok t)
    show ?thesis
      by (rule chunk_advance [OF Ok r(2,4)])
        (use r v l Ok mark_released_durable [OF assms(1)] in
          \<open>simp add: accept_wire_chunk_def Let_def next_sample_def\<close>)
  qed (use r v in \<open>simp_all add: accept_wire_chunk_def enter_recovery_def\<close>)
qed

lemma state_ends_pull:
  assumes "session_ok s" "ns_phase s = SP_AwaitingPull" "stream_state_ok st"
  shows "ns_phase (snd (accept_no_data s st)) \<noteq> SP_AwaitingPull"
    "ns_phase (snd (accept_range_unavailable s st)) \<noteq> SP_AwaitingPull"
    "ns_phase (snd (invalid_release s st)) \<noteq> SP_AwaitingPull"
proof -
  obtain r where r: "session_active_pull s = Ok r" "psr_from r = dc_durable (ns_cursors s)"
      "psr_release_before r = dc_durable (ns_cursors s)" "dc_received (ns_cursors s) = dc_durable (ns_cursors s)"
    using assms by (auto elim: awaiting_pull)
  have v: "stream_state_validate st = Ok st" using assms(3) by (simp add: stream_state_validate_Ok)
  note m = mark_released_durable [OF assms(1)]
  show "ns_phase (snd (accept_no_data s st)) \<noteq> SP_AwaitingPull"
    using r v m by (auto simp: accept_no_data_def validate_state_for_active_stream_def enter_recovery_def Let_def)
  show "ns_phase (snd (invalid_release s st)) \<noteq> SP_AwaitingPull"
    using r v by (simp add: invalid_release_def validate_state_for_active_stream_def)
  show "ns_phase (snd (accept_range_unavailable s st)) \<noteq> SP_AwaitingPull"
  proof (cases "ss_retained_from st \<le> psr_from r")
    case True
    then show ?thesis using r v
      by (simp add: accept_range_unavailable_def validate_state_for_active_stream_def enter_recovery_def)
  next
    case False
    note g = unavailable_gap(1,2) [OF False, of "ns_hardware_id s" "ns_boot_epoch s"] unavailable_gap(3) [OF False]
    show ?thesis
      by (rule record_gap_eq [OF r(4) g(2)])
        (use r v m g False in \<open>simp_all add: accept_range_unavailable_def validate_state_for_active_stream_def
           Let_def next_sample_def advanced_def\<close>)
  qed
qed

lemma evidence_ends_pull:
  assumes "session_ok s" "ns_phase s = SP_AwaitingPull"
  shows "ns_phase (snd (accept_gap s e)) \<noteq> SP_AwaitingPull"
    "ns_phase (snd (accept_continuity_break s b)) \<noteq> SP_AwaitingPull"
proof -
  obtain r where r: "session_active_pull s = Ok r" "psr_from r = dc_durable (ns_cursors s)"
      "psr_release_before r = dc_durable (ns_cursors s)" "dc_received (ns_cursors s) = dc_durable (ns_cursors s)"
    using assms by (auto elim: awaiting_pull)
  note m = mark_released_durable [OF assms(1)]
  show "ns_phase (snd (accept_gap s e)) \<noteq> SP_AwaitingPull"
  proof (cases "gap_validate_for e r")
    case (Ok t)
    note g = evidence_gap(1,2) [OF Ok, of "ns_hardware_id s" "ns_boot_epoch s"] evidence_gap(3,4) [OF Ok]
    show ?thesis
      by (rule record_gap_eq [OF r(4) g(2)])
        (use r m g Ok in \<open>simp_all add: accept_gap_def Let_def next_sample_def advanced_def\<close>)
  qed (use r in \<open>simp_all add: accept_gap_def enter_recovery_def\<close>)
  show "ns_phase (snd (accept_continuity_break s b)) \<noteq> SP_AwaitingPull"
  proof (cases "break_validate_for b r")
    case (Ok t)
    let ?o = "\<lparr>cb_hardware_id = ns_hardware_id s, cb_boot_epoch = ns_boot_epoch s, cb_at = cbe_at b,
        cb_reason = cbe_reason b\<rparr>"
    from Ok r have t: "t = b" "cbe_at b = dc_durable (ns_cursors s)" "break_ok ?o"
      using unat_u64_bound [of "cbe_produced b"]
      by (auto simp: break_validate_for_Ok break_evidence_ok_def break_ok_def)
    then have new: "continuity_break_new (ns_hardware_id s) (ns_boot_epoch s) (cbe_at b) (cbe_reason b) = Ok ?o"
      by (simp add: continuity_break_new_Ok)
    obtain c where c: "continuity_break_end ?o = (Ok c :: (u64, SessionError) result)" "unat c = unat (cbe_at b) + 1"
      using continuity_break_end_ok [OF t(3)] by auto
    let ?d = "(ns_cursors s)\<lparr>dc_released := dc_durable (ns_cursors s)\<rparr>"
    have "account_continuity_break ?d (dc_durable (ns_cursors s)) = (Ok c, ?d\<lparr>dc_received := c\<rparr>)"
      using c(2) r(4) t(2) by (simp add: account_continuity_break_Ok)
    then show ?thesis using r m Ok t new c by (simp add: accept_continuity_break_def Let_def)
  qed (use r in \<open>simp_all add: accept_continuity_break_def enter_recovery_def\<close>)
qed

lemma response_ends_pull:
  assumes "session_ok s" "ns_phase s = SP_AwaitingPull" "pull_response_ok r"
  shows "ns_phase (snd (session_apply s (response_op r))) \<noteq> SP_AwaitingPull"
  using assms chunk_ends_pull [OF assms(1,2)] state_ends_pull [OF assms(1,2)] evidence_ends_pull [OF assms(1,2)]
  by (cases r) (simp_all add: stream_changed_def require_phase_def)

text \<open>C24. Every answer ends the pull it answers: whatever bytes the payload of an accepted response
  holds, the transfer does not panic, keeps the session invariant, and leaves the session ready for
  the next pull, holding one record for storage, or in recovery, but never still waiting.\<close>

theorem every_answer_ends_the_pull:
  assumes "session_ok (mt_session t)" "ns_phase (mt_session t) = SP_AwaitingPull"
    and "transfer_accept_response t payload = (res, t')"
  shows "res \<noteq> Panic \<and> session_ok (mt_session t') \<and> ns_phase (mt_session t') \<noteq> SP_AwaitingPull"
proof (cases "decode_pull_response payload")
  case (Ok r)
  then have ok: "pull_response_ok r" using pull_response.encode_decode by blast
  have "accept_pull_response t r = (res, t')" using assms(3) Ok by (simp add: transfer_accept_response_def)
  then have "res \<noteq> Panic" "mt_session t' = snd (session_apply (mt_session t) (response_op r))"
    using accept_pull_response_no_panic [OF assms(1), of r] accept_pull_response_session [of t r] by simp_all
  then show ?thesis
    using response_ends_pull [OF assms(1,2) ok] session_refines [OF assms(1), of "response_op r"]
    by (simp add: refines_def)
next
  case (Err e)
  note r = session_refines [OF assms(1), of S_Abandon] session_refines [OF assms(1), of S_FailPull]
  show ?thesis
    using assms(2,3) Err r
    by (cases "e = MWE_RemoteError RS_Busy")
      (auto simp: transfer_accept_response_def on_session_def abandon_pull_for_retry_def refines_def
        fail_pull_for_recovery_def require_phase_def Let_def)
next
  case Panic
  then show ?thesis using pull_response.decode_no_panic by blast
qed

definition example_transfer :: MeasurementTransfer where
  "example_transfer = \<lparr>mt_node_address = 7, mt_max_samples = 32,
     mt_session = snd (session_run example_start [S_BeginPull 32]), mt_observed_produced = None,
     mt_persistence_kind = None, mt_recovery_reason = None\<rparr>"

lemma example_transfer_awaiting:
  "session_ok (mt_session example_transfer)" "ns_phase (mt_session example_transfer) = SP_AwaitingPull"
  using session_run_refines [OF session_recovered_ok [OF example_start_recovered], of "[S_BeginPull 32]"]
  by (auto simp: example_transfer_def session_run_def example_start_def begin_pull_def require_phase_def
      pull_samples_request_new_def)

theorem every_answer_ends_the_pull_witness:
  "ns_phase (mt_session (snd (transfer_accept_response example_transfer [5]))) \<noteq> SP_AwaitingPull"
  using every_answer_ends_the_pull [OF example_transfer_awaiting, of "[5]"
      "fst (transfer_accept_response example_transfer [5])"
      "snd (transfer_accept_response example_transfer [5])"] by simp

end
