(* ===== verification/Host_Recovery.thy ===== *)
theory Host_Recovery
  imports Host_Session
begin

text \<open>
  Reconciliation after a restart (\<^verbatim>\<open>sensor-host/src/stream_recovery.rs\<close>): the durable capture on disk
  against the journal state a node reports, before any sample of the node is released. The
  discovered node the expectation is taken from is given by the three facts it contributes.
\<close>

record ExpectedStreamState =
  ex_hardware_id :: HardwareId
  ex_boot_epoch :: BootEpoch
  ex_journal_capacity_samples :: u32

record CaptureRecoveryEvidence =
  cre_hardware_id :: HardwareId
  cre_boot_epoch :: BootEpoch
  cre_durable_cursor :: SequenceCursor

record NewCaptureBoundary =
  ncb_hardware_id :: HardwareId
  ncb_boot_epoch :: BootEpoch
  ncb_cursor :: SequenceCursor

datatype RecoveryContinuity = RC_Contiguous | RC_JournalGapRequired SequenceCursor u64

record ReconciledStream =
  rst_session :: NodeSession
  rst_continuity :: RecoveryContinuity

datatype StreamRecoveryError =
  SRE_InvalidNodeState MeasurementContractError | SRE_CaptureHardwareMismatch
| SRE_CaptureBootEpochMismatch BootEpoch BootEpoch | SRE_NodeBootEpochMismatch BootEpoch BootEpoch
| SRE_JournalCapacityMismatch u32 u32 | SRE_ReleasedBeyondDurable SequenceCursor SequenceCursor
| SRE_CaptureAheadOfNode SequenceCursor SequenceCursor | SRE_Session SessionError

definition validate_capture_identity ::
  "ExpectedStreamState \<Rightarrow> CaptureRecoveryEvidence \<Rightarrow> (unit, StreamRecoveryError) result" where
  "validate_capture_identity expected capture =
     (if cre_hardware_id capture \<noteq> ex_hardware_id expected then Err SRE_CaptureHardwareMismatch
      else if cre_boot_epoch capture \<noteq> ex_boot_epoch expected
      then Err (SRE_CaptureBootEpochMismatch (ex_boot_epoch expected) (cre_boot_epoch capture))
      else Ok ())"

definition validate_node_identity ::
  "ExpectedStreamState \<Rightarrow> StreamState \<Rightarrow> (unit, StreamRecoveryError) result" where
  "validate_node_identity expected node =
     (if ss_boot_epoch node \<noteq> ex_boot_epoch expected
      then Err (SRE_NodeBootEpochMismatch (ex_boot_epoch expected) (ss_boot_epoch node))
      else if ss_capacity_samples node \<noteq> ex_journal_capacity_samples expected
      then Err (SRE_JournalCapacityMismatch (ex_journal_capacity_samples expected) (ss_capacity_samples node))
      else Ok ())"

definition reconcile_existing_capture ::
  "ExpectedStreamState \<Rightarrow> CaptureRecoveryEvidence \<Rightarrow> StreamState \<Rightarrow>
     (ReconciledStream, StreamRecoveryError) result" where
  "reconcile_existing_capture expected capture node =
     and_then (map_err SRE_InvalidNodeState (stream_state_validate node)) (\<lambda>node.
     and_then (validate_capture_identity expected capture) (\<lambda>_.
     and_then (validate_node_identity expected node) (\<lambda>_.
       if ss_released node > cre_durable_cursor capture
       then Err (SRE_ReleasedBeyondDurable (ss_released node) (cre_durable_cursor capture))
       else if cre_durable_cursor capture > ss_produced node
       then Err (SRE_CaptureAheadOfNode (cre_durable_cursor capture) (ss_produced node))
       else and_then
              (if cre_durable_cursor capture < ss_retained_from node
               then and_then (sub_unchecked (ss_retained_from node) (cre_durable_cursor capture))
                      (\<lambda>n. Ok (RC_JournalGapRequired (cre_durable_cursor capture) n))
               else Ok RC_Contiguous) (\<lambda>continuity.
            and_then (map_err SRE_Session (session_recovered (ex_hardware_id expected) (ex_boot_epoch expected)
                        (cre_durable_cursor capture) (ss_released node))) (\<lambda>session.
              Ok \<lparr>rst_session = session, rst_continuity = continuity\<rparr>)))))"

definition new_capture_boundary ::
  "ExpectedStreamState \<Rightarrow> StreamState \<Rightarrow> (NewCaptureBoundary, StreamRecoveryError) result" where
  "new_capture_boundary expected node =
     and_then (map_err SRE_InvalidNodeState (stream_state_validate node)) (\<lambda>node.
     and_then (validate_node_identity expected node) (\<lambda>_.
       Ok \<lparr>ncb_hardware_id = ex_hardware_id expected, ncb_boot_epoch = ex_boot_epoch expected,
           ncb_cursor = ss_produced node\<rparr>))"

definition reconcilable :: "ExpectedStreamState \<Rightarrow> CaptureRecoveryEvidence \<Rightarrow> StreamState \<Rightarrow> bool" where
  "reconcilable expected capture node \<longleftrightarrow> stream_state_ok node \<and>
     cre_hardware_id capture = ex_hardware_id expected \<and> cre_boot_epoch capture = ex_boot_epoch expected \<and>
     ss_boot_epoch node = ex_boot_epoch expected \<and>
     ss_capacity_samples node = ex_journal_capacity_samples expected \<and>
     ss_released node \<le> cre_durable_cursor capture \<and> cre_durable_cursor capture \<le> ss_produced node"

definition reconciled_stream :: "ExpectedStreamState \<Rightarrow> CaptureRecoveryEvidence \<Rightarrow> StreamState \<Rightarrow> ReconciledStream" where
  "reconciled_stream expected capture node =
     \<lparr>rst_session = \<lparr>ns_hardware_id = ex_hardware_id expected, ns_boot_epoch = ex_boot_epoch expected,
        ns_cursors = \<lparr>dc_received = cre_durable_cursor capture, dc_durable = cre_durable_cursor capture,
                      dc_released = ss_released node\<rparr>,
        ns_phase = SP_Ready, ns_active_pull = None, ns_pending_chunk = None, ns_pending_gap = None,
        ns_pending_continuity_break = None, ns_pending_receipt = None\<rparr>,
      rst_continuity = (if cre_durable_cursor capture < ss_retained_from node
        then RC_JournalGapRequired (cre_durable_cursor capture) (ss_retained_from node - cre_durable_cursor capture)
        else RC_Contiguous)\<rparr>"

lemma validate_identity_Ok [result_iffs]:
  "validate_capture_identity e c = Ok u \<longleftrightarrow> cre_hardware_id c = ex_hardware_id e \<and> cre_boot_epoch c = ex_boot_epoch e"
  "validate_node_identity e n = Ok u \<longleftrightarrow> ss_boot_epoch n = ex_boot_epoch e \<and>
     ss_capacity_samples n = ex_journal_capacity_samples e"
  by (auto simp: validate_capture_identity_def validate_node_identity_def)

lemma validate_identity_no_panic [simp]:
  "validate_capture_identity e c \<noteq> Panic" "validate_node_identity e n \<noteq> Panic"
  by (simp_all add: validate_capture_identity_def validate_node_identity_def)

lemma session_recovered_Ok [result_iffs]:
  "session_recovered h e d r = Ok s \<longleftrightarrow> r \<le> d \<and>
     s = \<lparr>ns_hardware_id = h, ns_boot_epoch = e, ns_cursors = \<lparr>dc_received = d, dc_durable = d, dc_released = r\<rparr>,
        ns_phase = SP_Ready, ns_active_pull = None, ns_pending_chunk = None, ns_pending_gap = None,
        ns_pending_continuity_break = None, ns_pending_receipt = None\<rparr>"
  by (auto simp: session_recovered_def result_iffs delivery_new_Ok delivery_ok_def)

lemma sub_unchecked_of_le: "b \<le> a \<Longrightarrow> sub_unchecked a b = Ok (a - b)"
  by (simp add: sub_unchecked_def checked_sub_def)

lemma reconcile_iff:
  "reconcile_existing_capture e c n = Ok x \<longleftrightarrow> reconcilable e c n \<and> x = reconciled_stream e c n"
  by (auto simp: reconcile_existing_capture_def reconcilable_def reconciled_stream_def result_iffs not_less
      sub_unchecked_of_le order.strict_implies_order split: if_splits)

lemma reconcile_no_panic: "reconcile_existing_capture e c n \<noteq> Panic"
  by (auto simp: reconcile_existing_capture_def result_iffs session_recovered_def delivery_new_def
      sub_unchecked_of_le order.strict_implies_order split: if_splits)

lemma reconciled_session_ok: "reconcilable e c n \<Longrightarrow> session_ok (rst_session (reconciled_stream e c n))"
  by (simp add: reconcilable_def reconciled_stream_def session_ok_def phase_ok_def delivery_ok_def)

text \<open>The first pull of a reconciled session and the answer of a node that has overwritten samples.\<close>

lemma reconciled_first_pull:
  assumes "reconcilable e c n" "m \<noteq> 0"
  shows "\<exists>q s. begin_pull (rst_session (reconciled_stream e c n)) m = (Ok q, s) \<and>
    psr_from q = cre_durable_cursor c \<and> psr_release_before q = cre_durable_cursor c \<and>
    (ss_retained_from n \<le> cre_durable_cursor c \<or>
      (\<exists>s'. accept_range_unavailable s n = (Ok \<lparr>gap_hardware_id = ex_hardware_id e, gap_boot_epoch = ex_boot_epoch e,
        gap_first_missing = cre_durable_cursor c, gap_missing_count = ss_retained_from n - cre_durable_cursor c,
        gap_reason = JournalOverflow\<rparr>, s')))"
proof -
  let ?start = "rst_session (reconciled_stream e c n)" and ?d = "cre_durable_cursor c"
  let ?q = "\<lparr>psr_boot_epoch = ex_boot_epoch e, psr_from = ?d, psr_release_before = ?d, psr_max_samples = m\<rparr>"
  let ?s = "\<lparr>ns_hardware_id = ex_hardware_id e, ns_boot_epoch = ex_boot_epoch e,
      ns_cursors = \<lparr>dc_received = ?d, dc_durable = ?d, dc_released = ss_released n\<rparr>,
      ns_phase = SP_AwaitingPull, ns_active_pull = Some ?q, ns_pending_chunk = None, ns_pending_gap = None,
      ns_pending_continuity_break = None, ns_pending_receipt = None\<rparr>"
  have z: "ex_boot_epoch e \<noteq> 0" "stream_state_ok n" "ss_boot_epoch n = ex_boot_epoch e"
    using assms(1) by (auto simp: reconcilable_def stream_state_ok_def)
  have p: "begin_pull ?start m = (Ok ?q, ?s)"
    using z assms(2)
    by (simp add: begin_pull_def require_phase_def reconciled_stream_def pull_samples_request_new_def)
  have ok: "session_ok ?s"
    using refines_begin_pull [OF reconciled_session_ok [OF assms(1)], of m, unfolded refines_def, THEN conjunct1] p
    by simp
  have v: "validate_state_for_active_stream ?s n = (Ok n, ?s)"
    using z by (simp add: validate_state_for_active_stream_def stream_state_validate_Ok [THEN iffD2] reconciled_stream_def)
  have "\<exists>s'. accept_range_unavailable ?s n = (Ok \<lparr>gap_hardware_id = ex_hardware_id e, gap_boot_epoch = ex_boot_epoch e,
        gap_first_missing = ?d, gap_missing_count = ss_retained_from n - ?d, gap_reason = JournalOverflow\<rparr>, s')"
    if lt: "\<not> ss_retained_from n \<le> ?d"
  proof -
    let ?g = "\<lparr>gap_hardware_id = ex_hardware_id e, gap_boot_epoch = ex_boot_epoch e,
        gap_first_missing = ?d, gap_missing_count = ss_retained_from n - ?d, gap_reason = JournalOverflow\<rparr>"
    note g = unavailable_gap(1,2) [OF lt, of "ex_hardware_id e" "ex_boot_epoch e"] unavailable_gap(3) [OF lt]
    obtain s' where "record_gap (?s\<lparr>ns_active_pull := None,
         ns_cursors := (ns_cursors ?s)\<lparr>dc_released := dc_durable (ns_cursors ?s)\<rparr>\<rparr>) ?g = (Ok ?g, s')"
      by (rule record_gap_eq [of ?s ?g]) (use g in \<open>simp_all add: reconciled_stream_def\<close>)
    then show ?thesis
      using g lt v mark_released_durable [OF ok]
      by (simp add: accept_range_unavailable_def session_active_pull_def require_phase_def Let_def next_sample_def
          reconciled_stream_def)
  qed
  then show ?thesis using p by auto
qed

text \<open>C7. Recovery is fail-closed and loses nothing: it succeeds exactly when the capture on disk and
  the node agree on identity, epoch and journal and the durable cursor lies between what the node
  has released and what it has produced; the recovered session starts exactly at the durable
  cursor; and when the node has overwritten samples, the gap that recovery announces is the gap
  that the first pull records.\<close>

theorem recovery_is_fail_closed_and_exact:
  "reconcile_existing_capture e c n \<noteq> Panic \<and>
   (\<forall>x. reconcile_existing_capture e c n = Ok x \<longleftrightarrow> reconcilable e c n \<and> x = reconciled_stream e c n) \<and>
   (\<forall>x m. reconcile_existing_capture e c n = Ok x \<and> m \<noteq> 0 \<longrightarrow>
      session_ok (rst_session x) \<and>
      (\<exists>q s. begin_pull (rst_session x) m = (Ok q, s) \<and> psr_from q = cre_durable_cursor c \<and>
         (\<forall>first missing. rst_continuity x = RC_JournalGapRequired first missing \<longrightarrow>
            (\<exists>g s'. accept_range_unavailable s n = (Ok g, s') \<and> gap_first_missing g = first \<and>
               gap_missing_count g = missing))))"
proof (intro conjI allI impI)
  show "reconcile_existing_capture e c n \<noteq> Panic" by (rule reconcile_no_panic)
  show "reconcile_existing_capture e c n = Ok x \<longleftrightarrow> reconcilable e c n \<and> x = reconciled_stream e c n" for x
    by (rule reconcile_iff)
next
  fix x and m :: u16 assume "reconcile_existing_capture e c n = Ok x \<and> m \<noteq> 0"
  then have r: "reconcilable e c n" and x: "x = reconciled_stream e c n" and m: "m \<noteq> 0"
    by (simp_all add: reconcile_iff)
  show "session_ok (rst_session x)" unfolding x by (rule reconciled_session_ok [OF r])
  show "\<exists>q s. begin_pull (rst_session x) m = (Ok q, s) \<and> psr_from q = cre_durable_cursor c \<and>
         (\<forall>first missing. rst_continuity x = RC_JournalGapRequired first missing \<longrightarrow>
            (\<exists>g s'. accept_range_unavailable s n = (Ok g, s') \<and> gap_first_missing g = first \<and>
               gap_missing_count g = missing))"
    using reconciled_first_pull [OF r m] unfolding x by (force simp: reconciled_stream_def)
qed

theorem recovery_is_fail_closed_and_exact_witness:
  "\<exists>q s. begin_pull (rst_session (reconciled_stream
      \<lparr>ex_hardware_id = HardwareId 1 2 3 4 5 6 7 8, ex_boot_epoch = 5, ex_journal_capacity_samples = 4096\<rparr>
      \<lparr>cre_hardware_id = HardwareId 1 2 3 4 5 6 7 8, cre_boot_epoch = 5, cre_durable_cursor = 100\<rparr>
      \<lparr>ss_boot_epoch = 5, ss_retained_from = 120, ss_produced = 4216, ss_released = 90,
       ss_capacity_samples = 4096, ss_overwritten_samples = 30\<rparr>)) 32 = (Ok q, s) \<and> psr_from q = 100"
  using recovery_is_fail_closed_and_exact [of
      "\<lparr>ex_hardware_id = HardwareId 1 2 3 4 5 6 7 8, ex_boot_epoch = 5, ex_journal_capacity_samples = 4096\<rparr>"
      "\<lparr>cre_hardware_id = HardwareId 1 2 3 4 5 6 7 8, cre_boot_epoch = 5, cre_durable_cursor = 100\<rparr>"
      "\<lparr>ss_boot_epoch = 5, ss_retained_from = 120, ss_produced = 4216, ss_released = 90,
       ss_capacity_samples = 4096, ss_overwritten_samples = 30\<rparr>", THEN conjunct2, THEN conjunct2,
      rule_format, of _ 32] reconcile_iff
  by (auto simp: reconcilable_def stream_state_ok_def)

end
