(* ===== verification/Host_Operation.thy ===== *)
theory Host_Operation
  imports Host_Transaction Protocol_Lifecycle Protocol_Configuration Protocol_Commissioning
begin

text \<open>
  The logical operations the host performs on a node across any number of wire transactions:
  lifecycle commands (\<^verbatim>\<open>sensor-host/src/lifecycle.rs\<close>), configuration requests
  (\<^verbatim>\<open>sensor-host/src/configuration.rs\<close>) and commissioning requests (\<^verbatim>\<open>sensor-host/src/commissioning.rs\<close>).
  All three promise the same contract, stated once as a locale: attempts repeat one request unchanged,
  one attempt is outstanding at a time, and an operation that has ended stays ended.
\<close>

section \<open>The contract of a retried operation\<close>

datatype OperationView = V_Sendable | V_Outstanding | V_Ended

datatype ('q, 'r) OpObservation = Sent 'q | Lost | Outcome 'r | Ended | Panicked

fun operation_log :: "'q \<Rightarrow> ('r \<Rightarrow> bool) \<Rightarrow> OperationView \<Rightarrow> ('q, 'r) OpObservation list \<Rightarrow> bool" where
  "operation_log q ok v [] = True"
| "operation_log q ok v (Sent q' # l) = (v = V_Sendable \<and> q' = q \<and> operation_log q ok V_Outstanding l)"
| "operation_log q ok v (Lost # l) = (v = V_Outstanding \<and> operation_log q ok V_Sendable l)"
| "operation_log q ok v (Outcome r # l) = (v = V_Outstanding \<and> ok r \<and> l = [])"
| "operation_log q ok v (Ended # l) = (v = V_Outstanding \<and> l = [])"
| "operation_log q ok v (Panicked # l) = False"

fun op_log :: "('s \<Rightarrow> 'ev \<Rightarrow> 'o list \<times> 's) \<Rightarrow> 's \<Rightarrow> 'ev list \<Rightarrow> 'o list" where
  "op_log step s [] = []"
| "op_log step s (ev # evs) = fst (step s ev) @ op_log step (snd (step s ev)) evs"

text \<open>What one step may do: nothing visible and no change of standing, or one move of the automaton.\<close>

fun operation_move ::
  "'q \<Rightarrow> ('r \<Rightarrow> bool) \<Rightarrow> OperationView \<Rightarrow> ('q, 'r) OpObservation list \<Rightarrow> OperationView \<Rightarrow> bool" where
  "operation_move q ok v [] w = (w = v)"
| "operation_move q ok v [Sent q'] w = (v = V_Sendable \<and> q' = q \<and> w = V_Outstanding)"
| "operation_move q ok v [Lost] w = (v = V_Outstanding \<and> w = V_Sendable)"
| "operation_move q ok v [Outcome r] w = (v = V_Outstanding \<and> ok r \<and> w = V_Ended)"
| "operation_move q ok v [Ended] w = (v = V_Outstanding \<and> w = V_Ended)"
| "operation_move q ok v l w = False"

locale retried_operation =
  fixes step :: "'s \<Rightarrow> 'ev \<Rightarrow> ('q, 'r) OpObservation list \<times> 's"
    and view :: "'s \<Rightarrow> OperationView"
    and request :: "'s \<Rightarrow> 'q"
    and answers :: "'s \<Rightarrow> 'r \<Rightarrow> bool"
    and valid :: "'s \<Rightarrow> bool"
  assumes step_valid: "valid s \<Longrightarrow> valid (snd (step s ev))"
    and step_request: "valid s \<Longrightarrow> request (snd (step s ev)) = request s"
    and step_answers: "valid s \<Longrightarrow> answers (snd (step s ev)) = answers s"
    and step_move: "valid s \<Longrightarrow>
      operation_move (request s) (answers s) (view s) (fst (step s ev)) (view (snd (step s ev)))"
begin

lemma ended_silent: "valid s \<Longrightarrow> view s = V_Ended \<Longrightarrow> op_log step s evs = []"
proof (induction evs arbitrary: s)
  case Nil
  show ?case by simp
next
  case (Cons ev evs)
  from step_move [OF Cons.prems(1), of ev] Cons.prems(2)
  have "fst (step s ev) = [] \<and> view (snd (step s ev)) = V_Ended"
    by (cases rule: operation_move.cases [of "(request s, answers s, view s, fst (step s ev), view (snd (step s ev)))"])
      auto
  with Cons.IH [OF step_valid [OF Cons.prems(1)]] show ?case by simp
qed

lemma log_ok: "valid s \<Longrightarrow> operation_log (request s) (answers s) (view s) (op_log step s evs)"
proof (induction evs arbitrary: s)
  case Nil
  show ?case by simp
next
  case (Cons ev evs)
  let ?t = "snd (step s ev)"
  have t: "valid ?t" by (rule step_valid [OF Cons.prems])
  have ih: "operation_log (request s) (answers s) (view ?t) (op_log step ?t evs)"
    using Cons.IH [OF t] step_request [OF Cons.prems, of ev] step_answers [OF Cons.prems, of ev] by simp
  note silent = ended_silent [OF t, of evs]
  from step_move [OF Cons.prems, of ev] ih silent show ?case
    by (cases rule: operation_move.cases [of "(request s, answers s, view s, fst (step s ev), view ?t)"])
      auto
qed

end

text \<open>What a step that reports no result of the operation shows.\<close>

definition standing_change :: "OperationView \<Rightarrow> OperationView \<Rightarrow> ('q, 'r) OpObservation list" where
  "standing_change v w = (if v = w then [] else if w = V_Ended then [Ended] else [Lost])"

section \<open>Lifecycle commands\<close>

definition LIFECYCLE_SERVICE_ID :: u8 where "LIFECYCLE_SERVICE_ID = service_code SID_Lifecycle"

datatype LifecyclePhase =
  LP_ReadyToSend | LP_AwaitingResponse | LP_ReconcileRequired | LP_Complete | LP_Failed

datatype LifecycleOutcome =
  LO_NotAccepted | LO_InProgress RuntimeResult | LO_Complete RuntimeResult

record LifecycleAttempt =
  la_request :: RequestSpec
  la_encoded :: EncodedRuntimeCommand

definition lifecycle_attempt_payload :: "LifecycleAttempt \<Rightarrow> (bytes, 'e) result" where
  "lifecycle_attempt_payload self = slice_at (erc_payload (la_encoded self)) 0 (erc_payload_size (la_encoded self))"

record LifecycleOperation =
  lo_node_address :: u8
  lo_command :: RuntimeCommand
  lo_phase :: LifecyclePhase
  lo_terminal_result :: "RuntimeResult option"

datatype LifecycleError =
  LCE_UnexpectedPhase | LCE_Wire LifecycleWireError | LCE_OperationIdMismatch u32 u32

definition lifecycle_new :: "u8 \<Rightarrow> RuntimeCommand \<Rightarrow> (LifecycleOperation, LifecycleError) result" where
  "lifecycle_new node_address command =
     and_then (map_err LCE_Wire (encode_lifecycle_request command)) (\<lambda>_.
       Ok \<lparr>lo_node_address = node_address, lo_command = command, lo_phase = LP_ReadyToSend,
           lo_terminal_result = None\<rparr>)"

definition lifecycle_begin_attempt ::
  "LifecycleOperation \<Rightarrow> DurationMicros \<Rightarrow> (LifecycleOperation, LifecycleAttempt, LifecycleError) outcome" where
  "lifecycle_begin_attempt self timeout =
     (if lo_phase self \<noteq> LP_ReadyToSend \<and> lo_phase self \<noteq> LP_ReconcileRequired
      then (Err LCE_UnexpectedPhase, self)
      else try_with (map_err LCE_Wire (encode_lifecycle_request (lo_command self))) self (\<lambda>encoded.
        (Ok \<lparr>la_request = \<lparr>rs_node_address = lo_node_address self, rs_service = LIFECYCLE_SERVICE_ID,
               rs_request_message = erc_message encoded, rs_response_message = erc_message encoded,
               rs_timeout = timeout, rs_timeout_recovery = ReconcileState\<rparr>, la_encoded = encoded\<rparr>,
         self\<lparr>lo_phase := LP_AwaitingResponse\<rparr>)))"

definition lifecycle_mark_timeout :: "LifecycleOperation \<Rightarrow> (LifecycleOperation, unit, LifecycleError) outcome" where
  "lifecycle_mark_timeout self =
     (if lo_phase self \<noteq> LP_AwaitingResponse then (Err LCE_UnexpectedPhase, self)
      else (Ok (), self\<lparr>lo_phase := LP_ReconcileRequired\<rparr>))"

definition lifecycle_accept_response ::
  "LifecycleOperation \<Rightarrow> bytes \<Rightarrow> (LifecycleOperation, LifecycleOutcome, LifecycleError) outcome" where
  "lifecycle_accept_response self payload =
     (if lo_phase self \<noteq> LP_AwaitingResponse then (Err LCE_UnexpectedPhase, self)
      else case decode_lifecycle_response payload of
        Err error \<Rightarrow>
          if error = LWE_RemoteError RS_Busy
          then (Ok LO_NotAccepted, self\<lparr>lo_phase := LP_ReadyToSend\<rparr>)
          else (Err (LCE_Wire error), self\<lparr>lo_phase := LP_Failed\<rparr>)
      | Panic \<Rightarrow> (Panic, self)
      | Ok result \<Rightarrow>
          if rr_operation_id result \<noteq> rc_operation_id (lo_command self)
          then (Err (LCE_OperationIdMismatch (rc_operation_id (lo_command self)) (rr_operation_id result)),
                self\<lparr>lo_phase := LP_Failed\<rparr>)
          else if rr_code result = RR_InProgress
          then (Ok (LO_InProgress result), self\<lparr>lo_phase := LP_ReconcileRequired\<rparr>)
          else (Ok (LO_Complete result),
                self\<lparr>lo_phase := LP_Complete, lo_terminal_result := Some result\<rparr>))"

datatype LifecycleEvent = LE_Begin DurationMicros | LE_Timeout | LE_Response bytes

fun lifecycle_view :: "LifecyclePhase \<Rightarrow> OperationView" where
  "lifecycle_view LP_ReadyToSend = V_Sendable"
| "lifecycle_view LP_ReconcileRequired = V_Sendable"
| "lifecycle_view LP_AwaitingResponse = V_Outstanding"
| "lifecycle_view LP_Complete = V_Ended"
| "lifecycle_view LP_Failed = V_Ended"

text \<open>The request as it goes on the wire: service, message and payload.\<close>

definition lifecycle_request :: "LifecycleOperation \<Rightarrow> u8 \<times> u8 \<times> bytes" where
  "lifecycle_request self =
     (LIFECYCLE_SERVICE_ID, runtime_message_id (rc_operation (lo_command self)),
      to_le_bytes 4 (rc_operation_id (lo_command self)) @
        (if rc_operation (lo_command self) = RO_SetObservabilityProfile
         then [observability_code (rc_requested_profile (lo_command self))] else []))"

definition lifecycle_answers :: "LifecycleOperation \<Rightarrow> RuntimeResult \<Rightarrow> bool" where
  "lifecycle_answers self r \<longleftrightarrow>
     rr_operation_id r = rc_operation_id (lo_command self) \<and> rr_code r \<noteq> RR_InProgress"

fun lifecycle_step ::
  "LifecycleOperation \<Rightarrow> LifecycleEvent \<Rightarrow>
     (u8 \<times> u8 \<times> bytes, RuntimeResult) OpObservation list \<times> LifecycleOperation" where
  "lifecycle_step s (LE_Begin timeout) =
     (case lifecycle_begin_attempt s timeout of
        (Ok a, t) \<Rightarrow>
          (case (lifecycle_attempt_payload a :: (bytes, unit) result) of
             Ok p \<Rightarrow> ([Sent (rs_service (la_request a), rs_request_message (la_request a), p)], t)
           | _ \<Rightarrow> ([Panicked], t))
      | (Err e, t) \<Rightarrow> (standing_change (lifecycle_view (lo_phase s)) (lifecycle_view (lo_phase t)), t)
      | (Panic, t) \<Rightarrow> ([Panicked], t))"
| "lifecycle_step s LE_Timeout =
     (let t = snd (lifecycle_mark_timeout s)
      in (standing_change (lifecycle_view (lo_phase s)) (lifecycle_view (lo_phase t)), t))"
| "lifecycle_step s (LE_Response p) =
     (case lifecycle_accept_response s p of
        (Ok (LO_Complete r), t) \<Rightarrow> ([Outcome r], t)
      | (Panic, t) \<Rightarrow> ([Panicked], t)
      | (_, t) \<Rightarrow> (standing_change (lifecycle_view (lo_phase s)) (lifecycle_view (lo_phase t)), t))"

definition lifecycle_valid :: "LifecycleOperation \<Rightarrow> bool" where
  "lifecycle_valid self \<longleftrightarrow> rc_operation_id (lo_command self) \<noteq> 0"

lemma encode_lifecycle_request_eq:
  assumes "rc_operation_id c \<noteq> 0"
  obtains e where "encode_lifecycle_request c = Ok e" "erc_message e = runtime_message_id (rc_operation c)"
    "slice_at (erc_payload e) 0 (erc_payload_size e) =
       Ok (to_le_bytes 4 (rc_operation_id c) @
         (if rc_operation c = RO_SetObservabilityProfile then [observability_code (rc_requested_profile c)] else []))"
  using assms
  by (cases "rc_operation c = RO_SetObservabilityProfile")
    (auto simp: encode_lifecycle_request_def lifecycle_sizes slices)

lemma lifecycle_new_valid: "lifecycle_new a c = Ok op \<Longrightarrow> lifecycle_valid op \<and> lifecycle_view (lo_phase op) = V_Sendable"
  by (auto simp: lifecycle_new_def lifecycle_valid_def encode_lifecycle_request_def result_iffs split: if_splits)

lemmas lifecycle_defs = lifecycle_begin_attempt_def lifecycle_mark_timeout_def lifecycle_accept_response_def

lemma lifecycle_command_kept: "lo_command (snd (lifecycle_step s ev)) = lo_command s"
  by (cases ev)
    (auto simp: lifecycle_defs Let_def split: result.splits if_splits LifecycleOutcome.splits prod.splits
      elim!: try_with.elims)

lemma lifecycle_moves:
  assumes "lifecycle_valid s"
  shows "operation_move (lifecycle_request s) (lifecycle_answers s) (lifecycle_view (lo_phase s))
    (fst (lifecycle_step s ev)) (lifecycle_view (lo_phase (snd (lifecycle_step s ev))))"
proof (cases ev)
  case (LE_Begin timeout)
  obtain e where "encode_lifecycle_request (lo_command s) = Ok e"
    "erc_message e = runtime_message_id (rc_operation (lo_command s))"
    "slice_at (erc_payload e) 0 (erc_payload_size e) = (Ok (snd (snd (lifecycle_request s))) :: (bytes, unit) result)"
    using encode_lifecycle_request_eq assms [unfolded lifecycle_valid_def] by (metis lifecycle_request_def snd_conv)
  then show ?thesis
    by (cases "lo_phase s")
      (simp_all add: LE_Begin lifecycle_begin_attempt_def lifecycle_attempt_payload_def lifecycle_request_def
        standing_change_def)
next
  case LE_Timeout
  then show ?thesis
    by (cases "lo_phase s") (simp_all add: lifecycle_mark_timeout_def standing_change_def)
next
  case (LE_Response p)
  show ?thesis
  proof (cases "decode_lifecycle_response p")
    case (Ok r)
    then show ?thesis
      by (cases "lo_phase s")
        (auto simp: LE_Response lifecycle_accept_response_def standing_change_def lifecycle_answers_def)
  next
    case (Err e)
    then show ?thesis
      by (cases "lo_phase s") (auto simp: LE_Response lifecycle_accept_response_def standing_change_def)
  next
    case Panic
    then show ?thesis by (simp add: lifecycle_response.decode_no_panic)
  qed
qed

lemma lifecycle_kept:
  "lifecycle_valid (snd (lifecycle_step s ev)) = lifecycle_valid s"
  "lifecycle_request (snd (lifecycle_step s ev)) = lifecycle_request s"
  "lifecycle_answers (snd (lifecycle_step s ev)) = lifecycle_answers s"
  by (simp_all add: lifecycle_valid_def lifecycle_request_def lifecycle_answers_def fun_eq_iff
      lifecycle_command_kept)

interpretation lifecycle: retried_operation lifecycle_step "\<lambda>s. lifecycle_view (lo_phase s)" lifecycle_request
  lifecycle_answers lifecycle_valid
  by unfold_locales (simp_all only: lifecycle_kept lifecycle_moves)

section \<open>Configuration requests\<close>

definition CONFIGURATION_SERVICE_ID :: u8 where "CONFIGURATION_SERVICE_ID = service_code SID_Configuration"
definition GET_CONFIG_MESSAGE_ID :: u8 where "GET_CONFIG_MESSAGE_ID = 1"
definition VALIDATE_CONFIG_MESSAGE_ID :: u8 where "VALIDATE_CONFIG_MESSAGE_ID = 2"
definition APPLY_CONFIG_MESSAGE_ID :: u8 where "APPLY_CONFIG_MESSAGE_ID = 3"
definition RESET_CONFIG_MESSAGE_ID :: u8 where "RESET_CONFIG_MESSAGE_ID = 4"

datatype ConfigurationRequest =
  CR_Get | CR_Validate MeasurementConfiguration | CR_Apply ConfigOperationRequest | CR_Reset u32 u32

fun configuration_operation_id :: "ConfigurationRequest \<Rightarrow> u32 option" where
  "configuration_operation_id (CR_Apply v) = Some (cor_operation_id v)"
| "configuration_operation_id (CR_Reset operation_id _) = Some operation_id"
| "configuration_operation_id CR_Get = None"
| "configuration_operation_id (CR_Validate _) = None"

fun configuration_message_id :: "ConfigurationRequest \<Rightarrow> u8" where
  "configuration_message_id CR_Get = GET_CONFIG_MESSAGE_ID"
| "configuration_message_id (CR_Validate _) = VALIDATE_CONFIG_MESSAGE_ID"
| "configuration_message_id (CR_Apply _) = APPLY_CONFIG_MESSAGE_ID"
| "configuration_message_id (CR_Reset _ _) = RESET_CONFIG_MESSAGE_ID"

fun mutates :: "ConfigurationRequest \<Rightarrow> bool" where
  "mutates (CR_Apply _) = True"
| "mutates (CR_Reset _ _) = True"
| "mutates _ = False"

datatype ConfigurationOutcome =
  CFO_NotAccepted | CFO_Observed ObservedConfiguration | CFO_Validated ConfigValidationResult
| CFO_Applied ConfigOperationResult

datatype ConfigurationPhase =
  CP_ReadyToSend | CP_AwaitingResponse | CP_ReconcileRequired | CP_Complete | CP_Failed

record ConfigurationAttempt =
  cfa_request :: RequestSpec
  cfa_payload :: bytes
  cfa_payload_size :: usize

definition configuration_attempt_payload :: "ConfigurationAttempt \<Rightarrow> (bytes, 'e) result" where
  "configuration_attempt_payload self = slice_at (cfa_payload self) 0 (cfa_payload_size self)"

record ConfigurationOperation =
  co_node_address :: u8
  co_request :: ConfigurationRequest
  co_phase :: ConfigurationPhase

datatype ConfigurationError =
  CFE_InvalidNodeAddress u8 | CFE_UnexpectedPhase | CFE_OperationIdMismatch u32 u32
| CFE_Wire ConfigurationWireError

fun configuration_validate_request :: "ConfigurationRequest \<Rightarrow> (unit, ConfigurationError) result" where
  "configuration_validate_request CR_Get = Ok ()"
| "configuration_validate_request (CR_Validate v) = map_err CFE_Wire (map_ok (\<lambda>_. ()) (encode_configuration v))"
| "configuration_validate_request (CR_Apply v) =
     map_err CFE_Wire (map_ok (\<lambda>_. ()) (encode_apply_config_request v))"
| "configuration_validate_request (CR_Reset operation_id expected_revision) =
     map_err CFE_Wire (map_ok (\<lambda>_. ()) (encode_reset_config_request operation_id expected_revision))"

definition configuration_new ::
  "u8 \<Rightarrow> ConfigurationRequest \<Rightarrow> (ConfigurationOperation, ConfigurationError) result" where
  "configuration_new node_address request =
     (if \<not> (1 \<le> node_address \<and> node_address \<le> 253) then Err (CFE_InvalidNodeAddress node_address)
      else and_then (configuration_validate_request request) (\<lambda>_.
        Ok \<lparr>co_node_address = node_address, co_request = request, co_phase = CP_ReadyToSend\<rparr>))"

text \<open>The match of \<open>begin_attempt\<close>: the buffer the attempt carries and how much of it is payload.\<close>

fun configuration_fill :: "ConfigurationRequest \<Rightarrow> bytes \<Rightarrow> (bytes \<times> usize, ConfigurationError) result" where
  "configuration_fill CR_Get payload = Ok (payload, 0)"
| "configuration_fill (CR_Validate v) payload =
     and_then (map_err CFE_Wire (encode_configuration v)) (\<lambda>encoded.
     and_then (copy_at 0 (length encoded) encoded payload) (\<lambda>payload. Ok (payload, length encoded)))"
| "configuration_fill (CR_Apply v) payload =
     and_then (map_err CFE_Wire (encode_apply_config_request v)) (\<lambda>encoded.
     and_then (copy_at 0 (length payload) encoded payload) (\<lambda>payload. Ok (payload, length encoded)))"
| "configuration_fill (CR_Reset operation_id expected_revision) payload =
     and_then (map_err CFE_Wire (encode_reset_config_request operation_id expected_revision)) (\<lambda>encoded.
     and_then (copy_at 0 (length encoded) encoded payload) (\<lambda>payload. Ok (payload, length encoded)))"

definition configuration_begin_attempt ::
  "ConfigurationOperation \<Rightarrow> DurationMicros \<Rightarrow>
     (ConfigurationOperation, ConfigurationAttempt, ConfigurationError) outcome" where
  "configuration_begin_attempt self timeout =
     (if co_phase self \<noteq> CP_ReadyToSend \<and> co_phase self \<noteq> CP_ReconcileRequired
      then (Err CFE_UnexpectedPhase, self)
      else try_with (configuration_fill (co_request self) (replicate APPLY_CONFIG_REQUEST_BYTES 0)) self
        (\<lambda>(payload, payload_size).
          (Ok \<lparr>cfa_request = \<lparr>rs_node_address = co_node_address self, rs_service = CONFIGURATION_SERVICE_ID,
                 rs_request_message = configuration_message_id (co_request self),
                 rs_response_message = configuration_message_id (co_request self), rs_timeout = timeout,
                 rs_timeout_recovery = (if mutates (co_request self) then ReconcileState else RetrySafe)\<rparr>,
               cfa_payload = payload, cfa_payload_size = payload_size\<rparr>,
           self\<lparr>co_phase := CP_AwaitingResponse\<rparr>)))"

definition configuration_mark_timeout ::
  "ConfigurationOperation \<Rightarrow> (ConfigurationOperation, unit, ConfigurationError) outcome" where
  "configuration_mark_timeout self =
     (if co_phase self \<noteq> CP_AwaitingResponse then (Err CFE_UnexpectedPhase, self)
      else (Ok (), self\<lparr>co_phase := CP_ReconcileRequired\<rparr>))"

fun configuration_decode :: "ConfigurationRequest \<Rightarrow> bytes \<Rightarrow> (ConfigurationOutcome, ConfigurationWireError) result" where
  "configuration_decode CR_Get payload = map_ok CFO_Observed (decode_get_config_response payload)"
| "configuration_decode (CR_Validate _) payload = map_ok CFO_Validated (decode_validate_config_response payload)"
| "configuration_decode (CR_Apply _) payload = map_ok CFO_Applied (decode_config_operation_response payload)"
| "configuration_decode (CR_Reset _ _) payload = map_ok CFO_Applied (decode_config_operation_response payload)"

definition configuration_accept_response ::
  "ConfigurationOperation \<Rightarrow> bytes \<Rightarrow> (ConfigurationOperation, ConfigurationOutcome, ConfigurationError) outcome" where
  "configuration_accept_response self payload =
     (if co_phase self \<noteq> CP_AwaitingResponse then (Err CFE_UnexpectedPhase, self)
      else case configuration_decode (co_request self) payload of
        Ok (CFO_Applied result) \<Rightarrow>
          if Some (cop_operation_id result) \<noteq> configuration_operation_id (co_request self)
          then (case configuration_operation_id (co_request self) of
                  None \<Rightarrow> (Panic, self\<lparr>co_phase := CP_Failed\<rparr>)
                | Some expected \<Rightarrow> (Err (CFE_OperationIdMismatch expected (cop_operation_id result)),
                                    self\<lparr>co_phase := CP_Failed\<rparr>))
          else (Ok (CFO_Applied result), self\<lparr>co_phase := CP_Complete\<rparr>)
      | Ok result \<Rightarrow> (Ok result, self\<lparr>co_phase := CP_Complete\<rparr>)
      | Err error \<Rightarrow>
          if error = CWE_Remote RS_Busy
          then (Ok CFO_NotAccepted,
                self\<lparr>co_phase := if mutates (co_request self) then CP_ReconcileRequired else CP_ReadyToSend\<rparr>)
          else (Err (CFE_Wire error), self\<lparr>co_phase := CP_Failed\<rparr>)
      | Panic \<Rightarrow> (Panic, self))"

datatype ConfigurationEvent = CE_Begin DurationMicros | CE_Timeout | CE_Response bytes

fun configuration_view :: "ConfigurationPhase \<Rightarrow> OperationView" where
  "configuration_view CP_ReadyToSend = V_Sendable"
| "configuration_view CP_ReconcileRequired = V_Sendable"
| "configuration_view CP_AwaitingResponse = V_Outstanding"
| "configuration_view CP_Complete = V_Ended"
| "configuration_view CP_Failed = V_Ended"

fun configuration_request_bytes :: "ConfigurationRequest \<Rightarrow> bytes" where
  "configuration_request_bytes CR_Get = []"
| "configuration_request_bytes (CR_Validate v) = configuration_bytes v"
| "configuration_request_bytes (CR_Apply v) = apply_bytes v"
| "configuration_request_bytes (CR_Reset a b) = to_le_bytes 4 a @ to_le_bytes 4 b"

definition configuration_request :: "ConfigurationOperation \<Rightarrow> u8 \<times> u8 \<times> bytes" where
  "configuration_request self = (CONFIGURATION_SERVICE_ID, configuration_message_id (co_request self),
     configuration_request_bytes (co_request self))"

fun configuration_answers :: "ConfigurationRequest \<Rightarrow> ConfigurationOutcome \<Rightarrow> bool" where
  "configuration_answers CR_Get (CFO_Observed _) = True"
| "configuration_answers (CR_Validate _) (CFO_Validated _) = True"
| "configuration_answers (CR_Apply v) (CFO_Applied r) = (cop_operation_id r = cor_operation_id v)"
| "configuration_answers (CR_Reset i _) (CFO_Applied r) = (cop_operation_id r = i)"
| "configuration_answers _ _ = False"

fun configuration_step ::
  "ConfigurationOperation \<Rightarrow> ConfigurationEvent \<Rightarrow>
     (u8 \<times> u8 \<times> bytes, ConfigurationOutcome) OpObservation list \<times> ConfigurationOperation" where
  "configuration_step s (CE_Begin timeout) =
     (case configuration_begin_attempt s timeout of
        (Ok a, t) \<Rightarrow>
          (case (configuration_attempt_payload a :: (bytes, unit) result) of
             Ok p \<Rightarrow> ([Sent (rs_service (cfa_request a), rs_request_message (cfa_request a), p)], t)
           | _ \<Rightarrow> ([Panicked], t))
      | (Err e, t) \<Rightarrow> (standing_change (configuration_view (co_phase s)) (configuration_view (co_phase t)), t)
      | (Panic, t) \<Rightarrow> ([Panicked], t))"
| "configuration_step s CE_Timeout =
     (let t = snd (configuration_mark_timeout s)
      in (standing_change (configuration_view (co_phase s)) (configuration_view (co_phase t)), t))"
| "configuration_step s (CE_Response p) =
     (case configuration_accept_response s p of
        (Ok r, t) \<Rightarrow>
          (if r = CFO_NotAccepted
           then standing_change (configuration_view (co_phase s)) (configuration_view (co_phase t))
           else [Outcome r], t)
      | (Panic, t) \<Rightarrow> ([Panicked], t)
      | (Err e, t) \<Rightarrow> (standing_change (configuration_view (co_phase s)) (configuration_view (co_phase t)), t))"

definition configuration_valid :: "ConfigurationOperation \<Rightarrow> bool" where
  "configuration_valid self \<longleftrightarrow> configuration_validate_request (co_request self) = Ok ()"

lemma configuration_new_valid:
  "configuration_new a r = Ok op \<Longrightarrow>
     configuration_valid op \<and> co_request op = r \<and> configuration_view (co_phase op) = V_Sendable"
  by (auto simp: configuration_new_def configuration_valid_def result_iffs split: if_splits)

lemma configuration_fill_valid:
  assumes "configuration_validate_request r = Ok ()"
  shows "\<exists>rest. configuration_fill r (replicate APPLY_CONFIG_REQUEST_BYTES 0) =
      Ok (configuration_request_bytes r @ rest, length (configuration_request_bytes r))"
proof (cases r)
  case CR_Get
  then show ?thesis by simp
next
  case (CR_Validate v)
  with assms show ?thesis
    by (auto simp: result_iffs encode_configuration_eq configuration_sizes copy_at_def)
next
  case (CR_Apply v)
  have "length (apply_bytes v) = 20" by (simp add: apply_bytes_def)
  with CR_Apply assms show ?thesis
    by (auto simp: result_iffs encode_apply_iff configuration_sizes copy_at_def)
next
  case (CR_Reset a b)
  with assms show ?thesis
    by (auto simp: result_iffs encode_reset_config_request_def configuration_sizes copy_at_def)
qed

lemma configuration_decode_no_panic: "configuration_decode r p \<noteq> Panic"
  by (cases r) (auto simp: result_iffs get_config.decode_no_panic validate_config.decode_no_panic
      config_operation_response.decode_no_panic)

lemma configuration_request_kept: "co_request (snd (configuration_step s ev)) = co_request s"
  by (cases ev)
    (auto simp: configuration_begin_attempt_def configuration_mark_timeout_def configuration_accept_response_def
      Let_def split: result.splits if_splits ConfigurationOutcome.splits prod.splits option.splits
      elim!: try_with.elims)

lemma configuration_moves:
  assumes "configuration_valid s"
  shows "operation_move (configuration_request s) (configuration_answers (co_request s))
    (configuration_view (co_phase s)) (fst (configuration_step s ev))
    (configuration_view (co_phase (snd (configuration_step s ev))))"
proof (cases ev)
  case (CE_Begin timeout)
  obtain rest where "configuration_fill (co_request s) (replicate APPLY_CONFIG_REQUEST_BYTES 0) =
      Ok (configuration_request_bytes (co_request s) @ rest, length (configuration_request_bytes (co_request s)))"
    using configuration_fill_valid assms [unfolded configuration_valid_def] by blast
  then show ?thesis
    by (cases "co_phase s")
      (simp_all add: CE_Begin configuration_begin_attempt_def configuration_attempt_payload_def
        configuration_request_def standing_change_def slice_at_def sub_def)
next
  case CE_Timeout
  then show ?thesis
    by (cases "co_phase s") (simp_all add: configuration_mark_timeout_def standing_change_def)
next
  case (CE_Response p)
  show ?thesis
  proof (cases "co_phase s = CP_AwaitingResponse")
    case True
    then show ?thesis
      using configuration_decode_no_panic [of "co_request s" p]
      by (cases "co_request s")
        (auto simp: CE_Response configuration_accept_response_def standing_change_def map_ok_eq_Ok
          split: result.splits ConfigurationOutcome.splits)
  next
    case False
    then show ?thesis by (simp add: CE_Response configuration_accept_response_def standing_change_def)
  qed
qed

lemma configuration_kept:
  "configuration_valid (snd (configuration_step s ev)) = configuration_valid s"
  "configuration_request (snd (configuration_step s ev)) = configuration_request s"
  by (simp_all add: configuration_valid_def configuration_request_def configuration_request_kept)

interpretation configuration: retried_operation configuration_step "\<lambda>s. configuration_view (co_phase s)"
  configuration_request "\<lambda>s. configuration_answers (co_request s)" configuration_valid
  by unfold_locales (simp_all only: configuration_kept configuration_moves configuration_request_kept)

section \<open>Commissioning requests\<close>

definition COMMISSIONING_SERVICE_ID :: u8 where "COMMISSIONING_SERVICE_ID = service_code SID_Commissioning"
definition PROBE_SLOT_MESSAGE_ID :: u8 where "PROBE_SLOT_MESSAGE_ID = 1"
definition ASSIGN_ADDRESS_MESSAGE_ID :: u8 where "ASSIGN_ADDRESS_MESSAGE_ID = 2"

datatype CommissioningRequest = CMR_Probe ProbeSlotRequest | CMR_Assign AssignAddressRequest

fun commissioning_operation_id :: "CommissioningRequest \<Rightarrow> u32 option" where
  "commissioning_operation_id (CMR_Probe _) = None"
| "commissioning_operation_id (CMR_Assign v) = Some (aar_operation_id v)"

datatype CommissioningOutcome =
  CMO_NotAccepted | CMO_Discovered CommissioningIdentity | CMO_Assigned AssignAddressResponse

datatype CommissioningPhase =
  CMP_ReadyToSend | CMP_AwaitingResponse | CMP_ReconcileRequired | CMP_Complete | CMP_Failed

record CommissioningAttempt =
  cma_request :: RoutedRequestSpec
  cma_payload :: bytes
  cma_payload_size :: usize

definition commissioning_attempt_payload :: "CommissioningAttempt \<Rightarrow> (bytes, 'e) result" where
  "commissioning_attempt_payload self = slice_at (cma_payload self) 0 (cma_payload_size self)"

record CommissioningOperation =
  cmo_request :: CommissioningRequest
  cmo_phase :: CommissioningPhase

datatype CommissioningError =
  CMX_UnexpectedPhase | CMX_RoundNonceMismatch | CMX_OperationIdMismatch | CMX_AssignmentMismatch
| CMX_Wire CommissioningWireError

fun commissioning_validate_request :: "CommissioningRequest \<Rightarrow> (unit, CommissioningError) result" where
  "commissioning_validate_request (CMR_Probe v) =
     map_err CMX_Wire (map_ok (\<lambda>_. ()) (encode_probe_slot_request v))"
| "commissioning_validate_request (CMR_Assign v) =
     map_err CMX_Wire (map_ok (\<lambda>_. ()) (encode_assign_address_request v))"

definition commissioning_new :: "CommissioningRequest \<Rightarrow> (CommissioningOperation, CommissioningError) result" where
  "commissioning_new request =
     and_then (commissioning_validate_request request) (\<lambda>_.
       Ok \<lparr>cmo_request = request, cmo_phase = CMP_ReadyToSend\<rparr>)"

text \<open>The match of \<open>begin_attempt\<close>: message, buffer, payload size and timeout recovery.\<close>

fun commissioning_fill ::
  "CommissioningRequest \<Rightarrow> bytes \<Rightarrow> (u8 \<times> bytes \<times> usize \<times> TimeoutRecovery, CommissioningError) result" where
  "commissioning_fill (CMR_Probe v) payload =
     and_then (map_err CMX_Wire (encode_probe_slot_request v)) (\<lambda>encoded.
     and_then (copy_at 0 (length encoded) encoded payload) (\<lambda>payload.
       Ok (PROBE_SLOT_MESSAGE_ID, payload, length encoded, RetrySafe)))"
| "commissioning_fill (CMR_Assign v) payload =
     and_then (map_err CMX_Wire (encode_assign_address_request v)) (\<lambda>encoded.
     and_then (copy_at 0 (length payload) encoded payload) (\<lambda>payload.
       Ok (ASSIGN_ADDRESS_MESSAGE_ID, payload, length encoded, ReconcileState)))"

definition commissioning_begin_attempt ::
  "CommissioningOperation \<Rightarrow> DurationMicros \<Rightarrow>
     (CommissioningOperation, CommissioningAttempt, CommissioningError) outcome" where
  "commissioning_begin_attempt self timeout =
     (if cmo_phase self \<noteq> CMP_ReadyToSend \<and> cmo_phase self \<noteq> CMP_ReconcileRequired
      then (Err CMX_UnexpectedPhase, self)
      else try_with (commissioning_fill (cmo_request self) (replicate ASSIGN_ADDRESS_REQUEST_BYTES 0)) self
        (\<lambda>(message, payload, payload_size, recovery).
          (Ok \<lparr>cma_request = \<lparr>rrs_request_destination = BROADCAST_ADDRESS,
                 rrs_response_source = COMMISSIONING_ADDRESS, rrs_service = COMMISSIONING_SERVICE_ID,
                 rrs_request_message = message, rrs_response_message = message, rrs_timeout = timeout,
                 rrs_timeout_recovery = recovery\<rparr>,
               cma_payload = payload, cma_payload_size = payload_size\<rparr>,
           self\<lparr>cmo_phase := CMP_AwaitingResponse\<rparr>)))"

definition commissioning_mark_timeout ::
  "CommissioningOperation \<Rightarrow> (CommissioningOperation, unit, CommissioningError) outcome" where
  "commissioning_mark_timeout self =
     (if cmo_phase self \<noteq> CMP_AwaitingResponse then (Err CMX_UnexpectedPhase, self)
      else (Ok (), self\<lparr>cmo_phase := (case cmo_request self of
        CMR_Probe _ \<Rightarrow> CMP_Complete | CMR_Assign _ \<Rightarrow> CMP_ReconcileRequired)\<rparr>))"

definition mark_transmit_failed ::
  "CommissioningOperation \<Rightarrow> (CommissioningOperation, unit, CommissioningError) outcome" where
  "mark_transmit_failed self =
     (if cmo_phase self \<noteq> CMP_AwaitingResponse then (Err CMX_UnexpectedPhase, self)
      else (Ok (), self\<lparr>cmo_phase := (case cmo_request self of
        CMR_Probe _ \<Rightarrow> CMP_ReadyToSend | CMR_Assign _ \<Rightarrow> CMP_ReconcileRequired)\<rparr>))"

definition commissioning_fail ::
  "CommissioningOperation \<Rightarrow> CommissioningError \<Rightarrow> (CommissioningOperation, 't, CommissioningError) outcome" where
  "commissioning_fail self error = (Err error, self\<lparr>cmo_phase := CMP_Failed\<rparr>)"

definition commissioning_accept_response ::
  "CommissioningOperation \<Rightarrow> bytes \<Rightarrow> (CommissioningOperation, CommissioningOutcome, CommissioningError) outcome" where
  "commissioning_accept_response self payload =
     (if cmo_phase self \<noteq> CMP_AwaitingResponse then (Err CMX_UnexpectedPhase, self)
      else case cmo_request self of
        CMR_Probe expected \<Rightarrow>
          try_with (map_err CMX_Wire (decode_probe_slot_response payload)) self (\<lambda>identity.
            if ci_round_nonce identity \<noteq> ps_round_nonce expected
            then commissioning_fail self CMX_RoundNonceMismatch
            else (Ok (CMO_Discovered identity), self\<lparr>cmo_phase := CMP_Complete\<rparr>))
      | CMR_Assign expected \<Rightarrow>
          (case decode_assign_address_response payload of
             Ok assigned \<Rightarrow>
               if aas_operation_id assigned \<noteq> aar_operation_id expected
               then commissioning_fail self CMX_OperationIdMismatch
               else if aas_hardware_id assigned \<noteq> aar_hardware_id expected \<or>
                       aas_node_address assigned \<noteq> aar_node_address expected
               then commissioning_fail self CMX_AssignmentMismatch
               else (Ok (CMO_Assigned assigned), self\<lparr>cmo_phase := CMP_Complete\<rparr>)
           | Err error \<Rightarrow>
               if error = CME_Remote RS_Busy
               then (Ok CMO_NotAccepted, self\<lparr>cmo_phase := CMP_ReconcileRequired\<rparr>)
               else commissioning_fail self (CMX_Wire error)
           | Panic \<Rightarrow> (Panic, self)))"

datatype CommissioningEvent = CM_Begin DurationMicros | CM_Timeout | CM_TransmitFailed | CM_Response bytes

fun commissioning_view :: "CommissioningPhase \<Rightarrow> OperationView" where
  "commissioning_view CMP_ReadyToSend = V_Sendable"
| "commissioning_view CMP_ReconcileRequired = V_Sendable"
| "commissioning_view CMP_AwaitingResponse = V_Outstanding"
| "commissioning_view CMP_Complete = V_Ended"
| "commissioning_view CMP_Failed = V_Ended"

fun commissioning_wire :: "CommissioningRequest \<Rightarrow> u8 \<times> u8 \<times> bytes" where
  "commissioning_wire (CMR_Probe v) = (COMMISSIONING_SERVICE_ID, PROBE_SLOT_MESSAGE_ID, probe_bytes v)"
| "commissioning_wire (CMR_Assign v) = (COMMISSIONING_SERVICE_ID, ASSIGN_ADDRESS_MESSAGE_ID, assign_request_bytes v)"

fun commissioning_answers :: "CommissioningRequest \<Rightarrow> CommissioningOutcome \<Rightarrow> bool" where
  "commissioning_answers (CMR_Probe v) (CMO_Discovered i) = (ci_round_nonce i = ps_round_nonce v)"
| "commissioning_answers (CMR_Assign v) (CMO_Assigned a) =
     (aas_operation_id a = aar_operation_id v \<and> aas_hardware_id a = aar_hardware_id v \<and>
      aas_node_address a = aar_node_address v)"
| "commissioning_answers _ _ = False"

fun commissioning_step ::
  "CommissioningOperation \<Rightarrow> CommissioningEvent \<Rightarrow>
     (u8 \<times> u8 \<times> bytes, CommissioningOutcome) OpObservation list \<times> CommissioningOperation" where
  "commissioning_step s (CM_Begin timeout) =
     (case commissioning_begin_attempt s timeout of
        (Ok a, t) \<Rightarrow>
          (case (commissioning_attempt_payload a :: (bytes, unit) result) of
             Ok p \<Rightarrow> ([Sent (rrs_service (cma_request a), rrs_request_message (cma_request a), p)], t)
           | _ \<Rightarrow> ([Panicked], t))
      | (Err e, t) \<Rightarrow> (standing_change (commissioning_view (cmo_phase s)) (commissioning_view (cmo_phase t)), t)
      | (Panic, t) \<Rightarrow> ([Panicked], t))"
| "commissioning_step s CM_Timeout =
     (let t = snd (commissioning_mark_timeout s)
      in (standing_change (commissioning_view (cmo_phase s)) (commissioning_view (cmo_phase t)), t))"
| "commissioning_step s CM_TransmitFailed =
     (let t = snd (mark_transmit_failed s)
      in (standing_change (commissioning_view (cmo_phase s)) (commissioning_view (cmo_phase t)), t))"
| "commissioning_step s (CM_Response p) =
     (case commissioning_accept_response s p of
        (Ok r, t) \<Rightarrow>
          (if r = CMO_NotAccepted
           then standing_change (commissioning_view (cmo_phase s)) (commissioning_view (cmo_phase t))
           else [Outcome r], t)
      | (Panic, t) \<Rightarrow> ([Panicked], t)
      | (Err e, t) \<Rightarrow> (standing_change (commissioning_view (cmo_phase s)) (commissioning_view (cmo_phase t)), t))"

definition commissioning_valid :: "CommissioningOperation \<Rightarrow> bool" where
  "commissioning_valid self \<longleftrightarrow> commissioning_validate_request (cmo_request self) = Ok ()"

lemma commissioning_new_valid:
  "commissioning_new r = Ok op \<Longrightarrow>
     commissioning_valid op \<and> cmo_request op = r \<and> commissioning_view (cmo_phase op) = V_Sendable"
  by (auto simp: commissioning_new_def commissioning_valid_def result_iffs)

lemma commissioning_fill_valid:
  assumes "commissioning_validate_request r = Ok ()"
  shows "\<exists>rest recovery. commissioning_fill r (replicate ASSIGN_ADDRESS_REQUEST_BYTES 0) =
      Ok (fst (snd (commissioning_wire r)), snd (snd (commissioning_wire r)) @ rest,
          length (snd (snd (commissioning_wire r))), recovery)"
proof (cases r)
  case (CMR_Probe v)
  have "length (probe_bytes v) = 12" by (simp add: probe_bytes_def)
  with CMR_Probe assms show ?thesis
    by (auto simp: result_iffs encode_probe_iff commissioning_sizes copy_at_def)
next
  case (CMR_Assign v)
  have "length (assign_request_bytes v) = 21" by (cases "aar_hardware_id v") (simp add: assign_request_bytes_def)
  with CMR_Assign assms show ?thesis
    by (auto simp: result_iffs encode_assign_request_iff commissioning_sizes copy_at_def)
qed

lemma commissioning_request_kept: "cmo_request (snd (commissioning_step s ev)) = cmo_request s"
  by (cases ev)
    (auto simp: commissioning_begin_attempt_def commissioning_mark_timeout_def mark_transmit_failed_def
      commissioning_accept_response_def commissioning_fail_def Let_def
      split: result.splits if_splits prod.splits CommissioningRequest.splits elim!: try_with.elims)

lemma commissioning_moves:
  assumes "commissioning_valid s"
  shows "operation_move (commissioning_wire (cmo_request s)) (commissioning_answers (cmo_request s))
    (commissioning_view (cmo_phase s)) (fst (commissioning_step s ev))
    (commissioning_view (cmo_phase (snd (commissioning_step s ev))))"
proof (cases ev)
  case (CM_Begin timeout)
  obtain rest recovery where "commissioning_fill (cmo_request s) (replicate ASSIGN_ADDRESS_REQUEST_BYTES 0) =
      Ok (fst (snd (commissioning_wire (cmo_request s))), snd (snd (commissioning_wire (cmo_request s))) @ rest,
          length (snd (snd (commissioning_wire (cmo_request s)))), recovery)"
    using commissioning_fill_valid assms [unfolded commissioning_valid_def] by blast
  then show ?thesis
    by (cases "cmo_phase s"; cases "cmo_request s")
      (simp_all add: CM_Begin commissioning_begin_attempt_def commissioning_attempt_payload_def
        standing_change_def slice_at_def sub_def)
next
  case CM_Timeout
  then show ?thesis
    by (cases "cmo_phase s"; cases "cmo_request s") (simp_all add: commissioning_mark_timeout_def standing_change_def)
next
  case CM_TransmitFailed
  then show ?thesis
    by (cases "cmo_phase s"; cases "cmo_request s") (simp_all add: mark_transmit_failed_def standing_change_def)
next
  case (CM_Response p)
  show ?thesis
  proof (cases "cmo_phase s = CMP_AwaitingResponse")
    case True
    then show ?thesis
      using probe_response.decode_no_panic [of p] assign_response.decode_no_panic [of p]
      by (cases "cmo_request s"; cases "decode_probe_slot_response p"; cases "decode_assign_address_response p")
        (auto simp: CM_Response commissioning_accept_response_def commissioning_fail_def standing_change_def)
  next
    case False
    then show ?thesis by (simp add: CM_Response commissioning_accept_response_def standing_change_def)
  qed
qed

lemma commissioning_kept: "commissioning_valid (snd (commissioning_step s ev)) = commissioning_valid s"
  by (simp add: commissioning_valid_def commissioning_request_kept)

interpretation commissioning: retried_operation commissioning_step "\<lambda>s. commissioning_view (cmo_phase s)"
  "\<lambda>s. commissioning_wire (cmo_request s)" "\<lambda>s. commissioning_answers (cmo_request s)" commissioning_valid
  by unfold_locales (simp_all only: commissioning_kept commissioning_moves commissioning_request_kept)

section \<open>The guarantee\<close>


definition example_command :: RuntimeCommand where
  "example_command = \<lparr>rc_operation_id = 7, rc_operation = RO_Start, rc_requested_profile = OP_Production\<rparr>"

definition example_slot :: CommissioningRequest where
  "example_slot = CMR_Probe \<lparr>ps_round_nonce = 3, ps_slot_count = 4, ps_slot_index = 1\<rparr>"

lemma example_operations:
  "\<exists>l. lifecycle_new 5 example_command = Ok l" "\<exists>c. configuration_new 5 (CR_Reset 7 2) = Ok c"
  "\<exists>m. commissioning_new example_slot = Ok m"
proof -
  have "is_power_of_two 4" by (simp add: is_power_of_two_def upt_rec)
  then have "probe_ok \<lparr>ps_round_nonce = 3, ps_slot_count = 4, ps_slot_index = 1\<rparr>" by (simp add: probe_ok_def)
  then show "\<exists>m. commissioning_new example_slot = Ok m"
    by (auto simp: commissioning_new_def example_slot_def result_iffs encode_probe_iff)
qed (simp_all add: lifecycle_new_def example_command_def encode_lifecycle_request_def lifecycle_sizes
    configuration_new_def encode_reset_config_request_def validate_operation_ids_def configuration_sizes)


end
