(* ===== verification/Host_Handshake.thy ===== *)
theory Host_Handshake
  imports Host_Transaction Protocol_Identity
begin

text \<open>
  The handshake that admits a node to a channel (\<^verbatim>\<open>sensor-host/src/handshake.rs\<close>): the identity and then
  the capabilities a node reports, checked against what the installation requires of it.
\<close>

definition IDENTITY_SERVICE_ID :: u8 where "IDENTITY_SERVICE_ID = service_code SID_Identity"
definition GET_IDENTITY_MESSAGE_ID :: u8 where "GET_IDENTITY_MESSAGE_ID = 1"
definition GET_CAPABILITIES_MESSAGE_ID :: u8 where "GET_CAPABILITIES_MESSAGE_ID = 2"

record HandshakeRequirements =
  hr_hardware_id :: HardwareId
  hr_node_address :: u8
  hr_board_revision :: u8
  hr_required_services :: u32
  hr_required_features :: u64
  hr_required_output_rate :: "OutputRateCode option"
  hr_schema_1_migration_firmware :: "FirmwareVersion option"

definition recording_node :: "HardwareId \<Rightarrow> u8 \<Rightarrow> u8 \<Rightarrow> u64 \<Rightarrow> HandshakeRequirements" where
  "recording_node hardware_id node_address board_revision required_features =
     \<lparr>hr_hardware_id = hardware_id, hr_node_address = node_address, hr_board_revision = board_revision,
      hr_required_services = service_capability_bit SID_Identity OR service_capability_bit SID_Measurement OR
        service_capability_bit SID_Lifecycle,
      hr_required_features = required_features, hr_required_output_rate = None,
      hr_schema_1_migration_firmware = None\<rparr>"

definition for_schema_1_migration :: "HandshakeRequirements \<Rightarrow> FirmwareVersion \<Rightarrow> HandshakeRequirements" where
  "for_schema_1_migration self firmware = self\<lparr>hr_schema_1_migration_firmware := Some firmware\<rparr>"

definition with_output_rate :: "HandshakeRequirements \<Rightarrow> OutputRateCode \<Rightarrow> HandshakeRequirements" where
  "with_output_rate self output_rate = self\<lparr>hr_required_output_rate := Some output_rate\<rparr>"

datatype HandshakePhase = HP_NeedIdentity | HP_NeedCapabilities | HP_Ready

record NodeHandshake =
  nh_requirements :: HandshakeRequirements
  nh_phase :: HandshakePhase
  nh_identity :: "NodeIdentity option"
  nh_capabilities :: "NodeCapabilities option"

datatype HandshakeError =
  HSE_UnexpectedPhase | HSE_Contract IdentityContractError | HSE_HardwareIdMismatch
| HSE_NodeAddressMismatch | HSE_BoardRevisionMismatch | HSE_FirmwareVersionMismatch
| HSE_MissingServices u32 | HSE_MissingFeatures u64 | HSE_UnsupportedOutputRate OutputRateCode

definition handshake_new :: "HandshakeRequirements \<Rightarrow> NodeHandshake" where
  "handshake_new requirements = \<lparr>nh_requirements = requirements, nh_phase = HP_NeedIdentity,
     nh_identity = None, nh_capabilities = None\<rparr>"

definition accept_identity :: "NodeHandshake \<Rightarrow> bytes \<Rightarrow> (NodeHandshake, unit, HandshakeError) outcome" where
  "accept_identity self payload =
     (if nh_phase self \<noteq> HP_NeedIdentity then (Err HSE_UnexpectedPhase, self)
      else try_with (map_err HSE_Contract (and_then (identity_decode payload) require_local_protocol)) self (\<lambda>identity.
        if ni_hardware_id identity \<noteq> hr_hardware_id (nh_requirements self) then (Err HSE_HardwareIdMismatch, self)
        else if ni_node_address identity \<noteq> hr_node_address (nh_requirements self)
        then (Err HSE_NodeAddressMismatch, self)
        else if ni_board_revision identity \<noteq> hr_board_revision (nh_requirements self)
        then (Err HSE_BoardRevisionMismatch, self)
        else (Ok (), self\<lparr>nh_identity := Some identity, nh_phase := HP_NeedCapabilities\<rparr>)))"

text \<open>The \<open>match NodeCapabilities::decode(payload)\<close> of \<open>accept_capabilities\<close>.\<close>

definition handshake_capabilities :: "NodeHandshake \<Rightarrow> bytes \<Rightarrow> (NodeCapabilities, HandshakeError) result" where
  "handshake_capabilities self payload =
     (case capabilities_decode payload of
        Ok capabilities \<Rightarrow> Ok capabilities
      | Err error \<Rightarrow>
          (case hr_schema_1_migration_firmware (nh_requirements self) of
             None \<Rightarrow> Err (HSE_Contract error)
           | Some expected_firmware \<Rightarrow>
               if map_option ni_firmware (nh_identity self) \<noteq> Some expected_firmware
               then Err HSE_FirmwareVersionMismatch
               else map_err HSE_Contract (decode_schema_1_for_migration payload))
      | Panic \<Rightarrow> Panic)"

definition accept_capabilities :: "NodeHandshake \<Rightarrow> bytes \<Rightarrow> (NodeHandshake, unit, HandshakeError) outcome" where
  "accept_capabilities self payload =
     (if nh_phase self \<noteq> HP_NeedCapabilities then (Err HSE_UnexpectedPhase, self)
      else try_with (handshake_capabilities self payload) self (\<lambda>capabilities.
        let missing_services = hr_required_services (nh_requirements self) AND NOT (nc_service_flags capabilities) in
        if missing_services \<noteq> 0 then (Err (HSE_MissingServices missing_services), self)
        else let missing_features = hr_required_features (nh_requirements self) AND NOT (nc_feature_flags capabilities) in
        if missing_features \<noteq> 0 then (Err (HSE_MissingFeatures missing_features), self)
        else case hr_required_output_rate (nh_requirements self) of
            Some required_rate \<Rightarrow>
              if \<not> supports_output_rate capabilities required_rate
              then (Err (HSE_UnsupportedOutputRate required_rate), self)
              else (Ok (), self\<lparr>nh_capabilities := Some capabilities, nh_phase := HP_Ready\<rparr>)
          | None \<Rightarrow> (Ok (), self\<lparr>nh_capabilities := Some capabilities, nh_phase := HP_Ready\<rparr>)))"

definition identity_request :: "u8 \<Rightarrow> DurationMicros \<Rightarrow> RequestSpec" where
  "identity_request node_address timeout =
     \<lparr>rs_node_address = node_address, rs_service = IDENTITY_SERVICE_ID,
      rs_request_message = GET_IDENTITY_MESSAGE_ID, rs_response_message = GET_IDENTITY_MESSAGE_ID,
      rs_timeout = timeout, rs_timeout_recovery = RetrySafe\<rparr>"

definition capabilities_request :: "u8 \<Rightarrow> DurationMicros \<Rightarrow> RequestSpec" where
  "capabilities_request node_address timeout =
     \<lparr>rs_node_address = node_address, rs_service = IDENTITY_SERVICE_ID,
      rs_request_message = GET_CAPABILITIES_MESSAGE_ID, rs_response_message = GET_CAPABILITIES_MESSAGE_ID,
      rs_timeout = timeout, rs_timeout_recovery = RetrySafe\<rparr>"

section \<open>What a completed handshake has established\<close>

definition identity_meets :: "HandshakeRequirements \<Rightarrow> NodeIdentity \<Rightarrow> bool" where
  "identity_meets r i \<longleftrightarrow> identity_ok i \<and> ni_protocol i = LOCAL_PROTOCOL_VERSION \<and>
     ni_hardware_id i = hr_hardware_id r \<and> ni_node_address i = hr_node_address r \<and>
     ni_board_revision i = hr_board_revision r"

text \<open>Capabilities of schema 2, or of schema 1 from exactly the firmware a migration names.\<close>

definition capabilities_admissible :: "HandshakeRequirements \<Rightarrow> NodeIdentity \<Rightarrow> NodeCapabilities \<Rightarrow> bool" where
  "capabilities_admissible r i c \<longleftrightarrow> capabilities_ok c \<or>
     nc_schema_version c = 1 \<and> capability_contract c False \<and>
     hr_schema_1_migration_firmware r = Some (ni_firmware i)"

definition capabilities_meet :: "HandshakeRequirements \<Rightarrow> NodeIdentity \<Rightarrow> NodeCapabilities \<Rightarrow> bool" where
  "capabilities_meet r i c \<longleftrightarrow> capabilities_admissible r i c \<and>
     hr_required_services r AND NOT (nc_service_flags c) = 0 \<and>
     hr_required_features r AND NOT (nc_feature_flags c) = 0 \<and>
     (case hr_required_output_rate r of None \<Rightarrow> True | Some rate \<Rightarrow> supports_output_rate c rate)"

definition handshake_ok :: "NodeHandshake \<Rightarrow> bool" where
  "handshake_ok h \<longleftrightarrow>
     (case (nh_phase h, nh_identity h, nh_capabilities h) of
        (HP_NeedIdentity, None, None) \<Rightarrow> True
      | (HP_NeedCapabilities, Some i, None) \<Rightarrow> identity_meets (nh_requirements h) i
      | (HP_Ready, Some i, Some c) \<Rightarrow>
          identity_meets (nh_requirements h) i \<and> capabilities_meet (nh_requirements h) i c
      | _ \<Rightarrow> False)"

datatype HandshakeAnswer = HA_Identity bytes | HA_Capabilities bytes

fun handshake_apply :: "NodeHandshake \<Rightarrow> HandshakeAnswer \<Rightarrow> (NodeHandshake, unit, HandshakeError) outcome" where
  "handshake_apply h (HA_Identity p) = accept_identity h p"
| "handshake_apply h (HA_Capabilities p) = accept_capabilities h p"

lemma schema_1_Ok [result_iffs]:
  "decode_schema_1_for_migration p = Ok c \<longleftrightarrow>
     capabilities_decode_fields p = Ok c \<and> nc_schema_version c = 1 \<and> capability_contract c False"
  by (auto simp: decode_schema_1_for_migration_def result_iffs)

lemma handshake_capabilities_Ok:
  assumes "nh_identity h = Some i"
  shows "handshake_capabilities h p = Ok c \<longleftrightarrow>
    p = capabilities_payload c \<and> capabilities_admissible (nh_requirements h) i c"
proof (cases "capabilities_decode p")
  case (Ok d)
  then have d: "p = capabilities_payload d" "capabilities_ok d" "capabilities_decode_fields p = Ok d"
    by (auto simp: capabilities_decode_def result_iffs capabilities_decode_fields_iff)
  then have "p = capabilities_payload c \<longleftrightarrow> c = d"
    by (metis capabilities_decode_fields_iff result.inject(1))
  with d Ok show ?thesis by (auto simp: handshake_capabilities_def capabilities_admissible_def)
next
  case (Err e)
  moreover have "capabilities_decode (capabilities_payload c) = Ok c" if "capabilities_ok c"
    using that by (simp add: capabilities.decode_iff capabilities_encode_eq result_iffs)
  ultimately have "\<not> (p = capabilities_payload c \<and> capabilities_ok c)" by auto
  with Err assms show ?thesis
    by (auto simp: handshake_capabilities_def capabilities_admissible_def result_iffs
        capabilities_decode_fields_iff split: option.splits)
next
  case Panic
  then show ?thesis by (simp add: capabilities.decode_no_panic)
qed

lemma decode_local_identity:
  "and_then (identity_decode p) require_local_protocol = Ok i \<longleftrightarrow>
     p = identity_payload i \<and> identity_ok i \<and> ni_protocol i = LOCAL_PROTOCOL_VERSION"
  by (auto simp: result_iffs identity_decode_iff require_local_protocol_def check_compatible_Ok)

lemma accept_identity_cases:
  "accept_identity h p = (Ok (), t) \<longleftrightarrow> nh_phase h = HP_NeedIdentity \<and>
     (\<exists>i. p = identity_payload i \<and> identity_meets (nh_requirements h) i \<and>
        t = h\<lparr>nh_identity := Some i, nh_phase := HP_NeedCapabilities\<rparr>)"
  by (auto simp: accept_identity_def try_with_eq_Ok map_err_eq_Ok decode_local_identity identity_meets_def)

lemma accept_capabilities_cases:
  assumes "nh_identity h = Some i"
  shows "accept_capabilities h p = (Ok (), t) \<longleftrightarrow> nh_phase h = HP_NeedCapabilities \<and>
    (\<exists>c. p = capabilities_payload c \<and> capabilities_meet (nh_requirements h) i c \<and>
       t = h\<lparr>nh_capabilities := Some c, nh_phase := HP_Ready\<rparr>)"
  by (auto simp: accept_capabilities_def try_with_eq_Ok handshake_capabilities_Ok [OF assms]
      capabilities_meet_def Let_def split: option.splits)

lemma handshake_capabilities_no_panic [simp]: "handshake_capabilities h p \<noteq> Panic"
  by (auto simp: handshake_capabilities_def result_iffs capabilities.decode_no_panic
      decode_schema_1_for_migration_def split: result.splits option.splits)

lemma handshake_refusal:
  "fst (handshake_apply h a) \<noteq> Panic \<and> (fst (handshake_apply h a) = Ok () \<or> snd (handshake_apply h a) = h)"
proof -
  have "and_then (identity_decode p) require_local_protocol \<noteq> Panic" for p
    by (simp add: result_iffs identity.decode_no_panic require_local_protocol_def)
  then have "map_err HSE_Contract (and_then (identity_decode p) require_local_protocol) \<noteq> Panic" for p
    by (simp add: map_err_eq_Panic)
  then show ?thesis
    by (cases a)
      (auto simp: accept_identity_def accept_capabilities_def Let_def split: option.splits try_with_split)
qed

lemma handshake_apply_ok:
  assumes "handshake_ok h"
  shows "handshake_ok (snd (handshake_apply h a)) \<and>
    nh_requirements (snd (handshake_apply h a)) = nh_requirements h"
proof (cases "fst (handshake_apply h a) = Ok ()")
  case True
  then obtain t where t: "handshake_apply h a = (Ok (), t)" by (metis prod.collapse)
  have "handshake_ok t \<and> nh_requirements t = nh_requirements h"
  proof (cases a)
    case (HA_Identity p)
    with t have "accept_identity h p = (Ok (), t)" by simp
    with assms show ?thesis
      by (cases "nh_capabilities h"; cases "nh_identity h") (auto simp: accept_identity_cases handshake_ok_def)
  next
    case (HA_Capabilities p)
    with t have "nh_phase h = HP_NeedCapabilities" by (auto simp: accept_capabilities_def split: if_splits)
    with assms obtain i where i: "nh_identity h = Some i" "identity_meets (nh_requirements h) i"
      by (auto simp: handshake_ok_def split: option.splits)
    from t HA_Capabilities have "accept_capabilities h p = (Ok (), t)" by simp
    with i show ?thesis by (auto simp: accept_capabilities_cases handshake_ok_def)
  qed
  with t show ?thesis by simp
next
  case False
  then show ?thesis using handshake_refusal [of h a] assms by auto
qed

interpretation handshake: invariant_machine "\<lambda>h a. snd (handshake_apply h a)"
  "\<lambda>h. handshake_ok h \<and> nh_requirements h = r" for r
  by unfold_locales (simp add: handshake_apply_ok)

lemma handshake_new_ok:
  "handshake_ok (handshake_new r)" "nh_requirements (handshake_new r) = r"
  "nh_phase (handshake_new r) = HP_NeedIdentity"
  by (simp_all add: handshake_ok_def handshake_new_def)

lemma handshake_ready_iff:
  "nh_phase (snd (accept_capabilities (snd (accept_identity (handshake_new r) p)) q)) = HP_Ready \<longleftrightarrow>
    (\<exists>i c. p = identity_payload i \<and> identity_meets r i \<and> q = capabilities_payload c \<and> capabilities_meet r i c)"
proof (cases "\<exists>i. p = identity_payload i \<and> identity_meets r i")
  case True
  then obtain i where i: "p = identity_payload i" "identity_meets r i" by blast
  let ?h = "(handshake_new r)\<lparr>nh_identity := Some i, nh_phase := HP_NeedCapabilities\<rparr>"
  have h: "accept_identity (handshake_new r) p = (Ok (), ?h)"
    using i by (auto simp: accept_identity_cases handshake_new_ok)
  have i_eq: "j = i" if "p = identity_payload j" "identity_meets r j" for j
    using i that identity_decode_iff [of p i] identity_decode_iff [of p j] by (auto simp: identity_meets_def)
  have "nh_phase (snd (accept_capabilities ?h q)) = HP_Ready \<longleftrightarrow> (\<exists>t. accept_capabilities ?h q = (Ok (), t))"
  proof
    assume "nh_phase (snd (accept_capabilities ?h q)) = HP_Ready"
    then show "\<exists>t. accept_capabilities ?h q = (Ok (), t)"
      using handshake_refusal [of ?h "HA_Capabilities q"] by (cases "accept_capabilities ?h q") auto
  next
    assume "\<exists>t. accept_capabilities ?h q = (Ok (), t)"
    then obtain t where t: "accept_capabilities ?h q = (Ok (), t)" by blast
    with accept_capabilities_cases [of ?h i q t] have "nh_phase t = HP_Ready" by auto
    with t show "nh_phase (snd (accept_capabilities ?h q)) = HP_Ready" by simp
  qed
  also have "\<dots> \<longleftrightarrow> (\<exists>c. q = capabilities_payload c \<and> capabilities_meet r i c)"
    using accept_capabilities_cases [of ?h i q] by (auto simp: handshake_new_ok)
  finally have ready: "nh_phase (snd (accept_capabilities ?h q)) = HP_Ready \<longleftrightarrow>
    (\<exists>c. q = capabilities_payload c \<and> capabilities_meet r i c)" .
  show ?thesis unfolding h snd_conv ready using i i_eq by blast
next
  case False
  then have "fst (accept_identity (handshake_new r) p) \<noteq> Ok ()"
    using accept_identity_cases [of "handshake_new r" p] by (metis handshake_new_ok(2) prod.collapse)
  then have "snd (accept_identity (handshake_new r) p) = handshake_new r"
    using handshake_refusal [of "handshake_new r" "HA_Identity p"] by simp
  with False show ?thesis by (auto simp: accept_capabilities_def handshake_new_ok)
qed

text \<open>Whatever answers arrive and in whatever order, a handshake keeps its requirements and its
  well-formedness: it is ready only with an identity of the required hardware, address, board and
  protocol and with capabilities that hold every required service, feature and output rate. A refused
  answer changes nothing and none panics. An identity and a capabilities answer make it ready exactly
  when they are the encodings of values that meet the requirements.\<close>

lemma handshake_admits_exactly:
  defines "run \<equiv> foldl (\<lambda>h a. snd (handshake_apply h a))"
  shows "handshake_ok (run (handshake_new r) answers) \<and> nh_requirements (run (handshake_new r) answers) = r \<and>
    (fst (handshake_apply h a) \<noteq> Panic \<and>
      (fst (handshake_apply h a) = Ok () \<or> snd (handshake_apply h a) = h)) \<and>
    (nh_phase (run (handshake_new r) [HA_Identity p, HA_Capabilities q]) = HP_Ready \<longleftrightarrow>
      (\<exists>i c. p = identity_payload i \<and> identity_meets r i \<and>
             q = capabilities_payload c \<and> capabilities_meet r i c))"
  using handshake.run_inv [of "handshake_new r" r answers] handshake_refusal [of h a]
    handshake_ready_iff [of r p q]
  by (simp add: run_def handshake_new_ok)

end
