(* ===== verification/Host_Scheduler.thy ===== *)
theory Host_Scheduler
  imports Host_Transaction Protocol_Lifecycle "HOL-Library.Product_Lexorder"
begin

text \<open>
  The scheduler of one half-duplex channel (\<^verbatim>\<open>sensor-host/src/channel_scheduler.rs\<close>): which of the
  competing transactions goes next. Ranks are compared field by field, as the derived order of the
  source does.
\<close>

datatype TrafficClass = TC_Control | TC_Measurement | TC_TimeSync | TC_Health | TC_Telemetry | TC_Diagnostics

record WorkCandidate =
  wc_work_id :: u64
  wc_node_address :: u8
  wc_class :: TrafficClass
  wc_ready_at :: MonotonicMicros
  wc_deadline :: "MonotonicMicros option"
  wc_queued_at :: MonotonicMicros
  wc_time_to_overflow_us :: "u64 option"
  wc_estimated_slot :: DurationMicros

record ScheduleContext =
  sx_now :: MonotonicMicros
  sx_observability :: ObservabilityProfile
  sx_diagnostic_budget_us :: u64

record ScheduledWork =
  sw_candidate_index :: usize
  sw_work_id :: u64
  sw_node_address :: u8
  sw_class :: TrafficClass

record ChannelSchedulerPolicy =
  sp_overflow_guard :: DurationMicros
  sp_max_slot :: DurationMicros

datatype SchedulerError =
  SE_InvalidNodeAddress u8 | SE_SlotExceedsPolicy u64 u64 u64 | SE_OverflowOnNonMeasurement u64
| SE_MissingDeadline u64 | SE_MissingOverflowEstimate u64 | SE_DiagnosticDeadline u64

fun class_order :: "TrafficClass \<Rightarrow> u64" where
  "class_order TC_Control = 0"
| "class_order TC_Measurement = 1"
| "class_order TC_TimeSync = 2"
| "class_order TC_Health = 3"
| "class_order TC_Telemetry = 4"
| "class_order TC_Diagnostics = 5"

datatype Rank =
  Rank (rk_tier: u8) (rk_primary: u64) (rk_secondary: u64) (rk_node_address: u8) (rk_work_id: u64)

definition rank_key :: "Rank \<Rightarrow> u8 \<times> u64 \<times> u64 \<times> u8 \<times> u64" where
  "rank_key r = (rk_tier r, rk_primary r, rk_secondary r, rk_node_address r, rk_work_id r)"

lemma rank_key_inject: "rank_key a = rank_key b \<longleftrightarrow> a = b"
  by (cases a; cases b) (simp add: rank_key_def)

instantiation Rank :: linorder
begin

definition less_eq_Rank :: "Rank \<Rightarrow> Rank \<Rightarrow> bool" where
  "less_eq_Rank a b \<longleftrightarrow> rank_key a \<le> rank_key b"

definition less_Rank :: "Rank \<Rightarrow> Rank \<Rightarrow> bool" where
  "less_Rank a b \<longleftrightarrow> rank_key a < rank_key b"

instance
proof
  fix a b c :: Rank
  show "a < b \<longleftrightarrow> a \<le> b \<and> \<not> b \<le> a" by (auto simp: less_eq_Rank_def less_Rank_def)
  show "a \<le> a" by (simp add: less_eq_Rank_def)
  show "a \<le> b \<Longrightarrow> b \<le> c \<Longrightarrow> a \<le> c" by (auto simp: less_eq_Rank_def)
  show "a \<le> b \<Longrightarrow> b \<le> a \<Longrightarrow> a = b" by (auto simp: less_eq_Rank_def rank_key_inject)
  show "a \<le> b \<or> b \<le> a" by (auto simp: less_eq_Rank_def)
qed

end

definition rank_new :: "u8 \<Rightarrow> u64 \<Rightarrow> u64 \<Rightarrow> WorkCandidate \<Rightarrow> Rank" where
  "rank_new tier primary secondary candidate =
     Rank tier primary secondary (wc_node_address candidate) (wc_work_id candidate)"

definition validate_candidate :: "ChannelSchedulerPolicy \<Rightarrow> WorkCandidate \<Rightarrow> (unit, SchedulerError) result" where
  "validate_candidate policy candidate =
     (if wc_node_address candidate = HOST_ADDRESS \<or> wc_node_address candidate = BROADCAST_ADDRESS
      then Err (SE_InvalidNodeAddress (wc_node_address candidate))
      else if wc_estimated_slot candidate > sp_max_slot policy
      then Err (SE_SlotExceedsPolicy (wc_work_id candidate) (wc_estimated_slot candidate) (sp_max_slot policy))
      else case wc_class candidate of
        TC_Measurement \<Rightarrow>
          if wc_deadline candidate = None then Err (SE_MissingDeadline (wc_work_id candidate))
          else if wc_time_to_overflow_us candidate = None
          then Err (SE_MissingOverflowEstimate (wc_work_id candidate))
          else Ok ()
      | TC_Diagnostics \<Rightarrow>
          if wc_deadline candidate \<noteq> None then Err (SE_DiagnosticDeadline (wc_work_id candidate))
          else if wc_time_to_overflow_us candidate \<noteq> None
          then Err (SE_OverflowOnNonMeasurement (wc_work_id candidate))
          else Ok ()
      | _ \<Rightarrow>
          if wc_deadline candidate = None then Err (SE_MissingDeadline (wc_work_id candidate))
          else if wc_time_to_overflow_us candidate \<noteq> None
          then Err (SE_OverflowOnNonMeasurement (wc_work_id candidate))
          else Ok ())"

text \<open>The two early returns of \<open>rank\<close> and its final match.\<close>

definition overflow_rank :: "ChannelSchedulerPolicy \<Rightarrow> WorkCandidate \<Rightarrow> Rank option" where
  "overflow_rank policy candidate =
     (case wc_time_to_overflow_us candidate of
        Some time_to_overflow_us \<Rightarrow>
          if time_to_overflow_us \<le> sp_overflow_guard policy
          then Some (rank_new 0 time_to_overflow_us (wc_queued_at candidate) candidate) else None
      | None \<Rightarrow> None)"

definition deadline_rank :: "ScheduleContext \<Rightarrow> WorkCandidate \<Rightarrow> Rank option" where
  "deadline_rank ctx candidate =
     (case wc_deadline candidate of
        Some deadline \<Rightarrow>
          if saturating_add (sx_now ctx) (wc_estimated_slot candidate) \<ge> deadline
          then Some (rank_new 1 deadline (class_order (wc_class candidate)) candidate) else None
      | None \<Rightarrow> None)"

definition class_rank :: "WorkCandidate \<Rightarrow> Rank option" where
  "class_rank candidate =
     (case wc_class candidate of
        TC_Measurement \<Rightarrow>
          Some (rank_new 2 (case wc_time_to_overflow_us candidate of Some t \<Rightarrow> t | None \<Rightarrow> - 1)
                  (wc_queued_at candidate) candidate)
      | TC_Control \<Rightarrow> Some (rank_new 3 (wc_queued_at candidate) 0 candidate)
      | TC_Diagnostics \<Rightarrow> Some (rank_new 4 (wc_queued_at candidate) 0 candidate)
      | _ \<Rightarrow> None)"

definition rank :: "ChannelSchedulerPolicy \<Rightarrow> ScheduleContext \<Rightarrow> WorkCandidate \<Rightarrow> Rank option" where
  "rank policy ctx candidate =
     (if wc_ready_at candidate > sx_now ctx then None
      else if wc_class candidate = TC_Diagnostics \<and>
              (sx_observability ctx \<noteq> OP_Diagnostic \<or>
               wc_estimated_slot candidate > sx_diagnostic_budget_us ctx)
      then None
      else case overflow_rank policy candidate of
        Some r \<Rightarrow> Some r
      | None \<Rightarrow> (case deadline_rank ctx candidate of Some r \<Rightarrow> Some r | None \<Rightarrow> class_rank candidate))"

text \<open>The loop of \<open>select\<close> over the candidates from \<open>index\<close> on.\<close>

fun select_from ::
  "ChannelSchedulerPolicy \<Rightarrow> ScheduleContext \<Rightarrow> usize \<Rightarrow> (usize \<times> Rank) option \<Rightarrow> WorkCandidate list \<Rightarrow>
     ((usize \<times> Rank) option, SchedulerError) result" where
  "select_from policy ctx index selected [] = Ok selected"
| "select_from policy ctx index selected (candidate # candidates) =
     and_then (validate_candidate policy candidate) (\<lambda>_.
       case rank policy ctx candidate of
         None \<Rightarrow> select_from policy ctx (Suc index) selected candidates
       | Some r \<Rightarrow>
           if (case selected of None \<Rightarrow> True | Some (_, selected_rank) \<Rightarrow> r < selected_rank)
           then select_from policy ctx (Suc index) (Some (index, r)) candidates
           else select_from policy ctx (Suc index) selected candidates)"

definition select ::
  "ChannelSchedulerPolicy \<Rightarrow> ScheduleContext \<Rightarrow> WorkCandidate list \<Rightarrow> (ScheduledWork option, SchedulerError) result" where
  "select policy ctx candidates =
     and_then (select_from policy ctx 0 None candidates) (\<lambda>selected.
       case selected of
         None \<Rightarrow> Ok None
       | Some (candidate_index, _) \<Rightarrow>
           and_then (index_at candidates candidate_index) (\<lambda>candidate.
             Ok (Some \<lparr>sw_candidate_index = candidate_index, sw_work_id = wc_work_id candidate,
                       sw_node_address = wc_node_address candidate, sw_class = wc_class candidate\<rparr>)))"

section \<open>The choice is the least rank\<close>

definition candidate_ok :: "ChannelSchedulerPolicy \<Rightarrow> WorkCandidate \<Rightarrow> bool" where
  "candidate_ok policy c \<longleftrightarrow> validate_candidate policy c = Ok ()"

text \<open>The reference: index and rank of the first candidate of least rank.\<close>

definition ranked :: "ChannelSchedulerPolicy \<Rightarrow> ScheduleContext \<Rightarrow> usize \<Rightarrow> WorkCandidate list \<Rightarrow> (Rank \<times> usize) list" where
  "ranked policy ctx i cs =
     concat (map (\<lambda>(j, c). case rank policy ctx c of None \<Rightarrow> [] | Some r \<Rightarrow> [(r, j)])
       (zip [i..<i + length cs] cs))"

fun least :: "(Rank \<times> usize) list \<Rightarrow> (usize \<times> Rank) option" where
  "least [] = None"
| "least (x # xs) = (case foldl min x xs of (r, i) \<Rightarrow> Some (i, r))"

lemma ranked_simps [simp]:
  "ranked policy ctx i [] = []"
  "ranked policy ctx i (c # cs) =
     (case rank policy ctx c of None \<Rightarrow> [] | Some r \<Rightarrow> [(r, i)]) @ ranked policy ctx (Suc i) cs"
  by (simp_all add: ranked_def upt_rec)

lemma validate_candidate_no_panic [simp]: "validate_candidate policy c \<noteq> Panic"
  by (auto simp: validate_candidate_def split: TrafficClass.split)

lemma ranked_index: "x \<in> set (ranked policy ctx i cs) \<Longrightarrow> i \<le> snd x \<and> snd x < i + length cs \<and>
    rank policy ctx (cs ! (snd x - i)) = Some (fst x)"
proof (induction cs arbitrary: i)
  case Nil
  then show ?case by simp
next
  case (Cons c cs)
  consider "rank policy ctx c = Some (fst x)" "snd x = i" | "x \<in> set (ranked policy ctx (Suc i) cs)"
    using Cons.prems by (cases x) (auto split: option.splits)
  then show ?case
  proof cases
    case 1
    then show ?thesis by simp
  next
    case 2
    from Cons.IH [OF this] show ?thesis by (auto simp: nth_Cons' Suc_diff_le)
  qed
qed

lemma ranked_complete:
  "j < length cs \<Longrightarrow> rank policy ctx (cs ! j) = Some r \<Longrightarrow> (r, i + j) \<in> set (ranked policy ctx i cs)"
proof (induction cs arbitrary: i j)
  case Nil
  then show ?case by simp
next
  case (Cons c cs)
  then show ?case using Cons.IH [of "j - 1" "Suc i"] by (cases j) auto
qed

lemma select_from_least:
  assumes "\<forall>c \<in> set cs. candidate_ok policy c" and "case sel of None \<Rightarrow> True | Some (k, r) \<Rightarrow> k < i"
  shows "select_from policy ctx i sel cs =
    Ok (least ((case sel of None \<Rightarrow> [] | Some (k, r) \<Rightarrow> [(r, k)]) @ ranked policy ctx i cs))"
  using assms
proof (induction cs arbitrary: i sel)
  case Nil
  then show ?case by (cases sel) auto
next
  case (Cons c cs)
  have v: "validate_candidate policy c = Ok ()" using Cons.prems(1) by (simp add: candidate_ok_def)
  have sel: "case sel of None \<Rightarrow> True | Some (k, r) \<Rightarrow> k < Suc i" using Cons.prems(2) by (auto split: option.splits)
  show ?case
  proof (cases "rank policy ctx c")
    case None
    with v Cons.IH [OF _ sel] Cons.prems(1) show ?thesis by simp
  next
    case (Some r)
    have new: "case Some (i, r) of None \<Rightarrow> True | Some (k, r) \<Rightarrow> k < Suc i" by simp
    show ?thesis
    proof (cases sel)
      case None
      with v Some Cons.IH [OF _ new] Cons.prems(1) show ?thesis by simp
    next
      case (Some p)
      obtain k q where p: "p = (k, q)" by (cases p)
      have k: "k < i" using Cons.prems(2) Some p by simp
      have m: "min (q, k) (r, i) = (if r < q then (r, i) else (q, k))"
        using k by (auto simp: min_def less_eq_prod_def)
      show ?thesis
        using v \<open>rank policy ctx c = Some r\<close> Cons.IH [OF _ new] Cons.IH [OF _ sel] Cons.prems(1)
        by (simp add: Some p m)
    qed
  qed
qed

lemma select_from_invalid:
  assumes "\<exists>c \<in> set cs. \<not> candidate_ok policy c"
  shows "\<exists>e. select_from policy ctx i sel cs = Err e"
  using assms
proof (induction cs arbitrary: i sel)
  case Nil
  then show ?case by simp
next
  case (Cons c cs)
  then show ?case
    by (cases "validate_candidate policy c") (auto simp: candidate_ok_def split: option.split)
qed

lemma foldl_min:
  "foldl min x xs \<in> set (x # xs) \<and> (\<forall>y \<in> set (x # xs). foldl min x xs \<le> (y :: 'a::linorder))"
proof (induction xs arbitrary: x)
  case Nil
  then show ?case by simp
next
  case (Cons y ys)
  from Cons.IH [of "min x y"] show ?case by (auto simp: min_def split: if_splits)
qed

definition scheduled :: "WorkCandidate list \<Rightarrow> usize \<Rightarrow> ScheduledWork" where
  "scheduled cs i = \<lparr>sw_candidate_index = i, sw_work_id = wc_work_id (cs ! i),
     sw_node_address = wc_node_address (cs ! i), sw_class = wc_class (cs ! i)\<rparr>"

text \<open>Candidate \<open>i\<close> is eligible and no other has a smaller rank, nor an earlier one the same.\<close>

definition first_least :: "ChannelSchedulerPolicy \<Rightarrow> ScheduleContext \<Rightarrow> WorkCandidate list \<Rightarrow> usize \<Rightarrow> bool" where
  "first_least policy ctx cs i \<longleftrightarrow> i < length cs \<and>
     (case rank policy ctx (cs ! i) of
        None \<Rightarrow> False
      | Some r \<Rightarrow> list_all (\<lambda>j. case rank policy ctx (cs ! j) of
                     None \<Rightarrow> True | Some r' \<Rightarrow> r < r' \<or> r = r' \<and> i \<le> j) [0..<length cs])"

lemma select_valid:
  assumes "list_all (candidate_ok policy) cs"
  shows "select policy ctx cs =
    (case least (ranked policy ctx 0 cs) of None \<Rightarrow> Ok None | Some (i, r) \<Rightarrow> Ok (Some (scheduled cs i)))"
proof -
  have s: "select_from policy ctx 0 None cs = Ok (least (ranked policy ctx 0 cs))"
    using select_from_least [of cs policy 0 None ctx] assms by (simp add: list_all_iff)
  show ?thesis
  proof (cases "ranked policy ctx 0 cs")
    case Nil
    with s show ?thesis by (simp add: select_def)
  next
    case (Cons x xs)
    obtain r i where m: "foldl min x xs = (r, i)" by (cases "foldl min x xs")
    then have "(r, i) \<in> set (ranked policy ctx 0 cs)" using foldl_min [of x xs] Cons by simp
    then have "i < length cs" using ranked_index by fastforce
    with s m Cons show ?thesis by (simp add: select_def scheduled_def)
  qed
qed

lemma least_first_least:
  assumes "least (ranked policy ctx 0 cs) = Some (i, r)"
  shows "first_least policy ctx cs i \<and> rank policy ctx (cs ! i) = Some r"
proof -
  obtain x xs where x: "ranked policy ctx 0 cs = x # xs" and m: "foldl min x xs = (r, i)"
    using assms by (cases "ranked policy ctx 0 cs") (auto split: prod.splits)
  have "(r, i) \<in> set (ranked policy ctx 0 cs)" using foldl_min [of x xs] x m by simp
  then have i: "i < length cs" "rank policy ctx (cs ! i) = Some r" using ranked_index by fastforce+
  have "r < q \<or> r = q \<and> i \<le> j" if "j < length cs" "rank policy ctx (cs ! j) = Some q" for j q
  proof -
    have "(q, j) \<in> set (x # xs)" using ranked_complete [OF that, of 0] x by simp
    then have "foldl min x xs \<le> (q, j)" using foldl_min [of x xs] by blast
    then show ?thesis by (auto simp: m)
  qed
  with i show ?thesis by (auto simp: first_least_def list_all_iff split: option.splits)
qed

lemma first_least_unique: "first_least policy ctx cs i \<Longrightarrow> first_least policy ctx cs j \<Longrightarrow> i = j"
proof -
  have "i \<le> j" if "first_least policy ctx cs i" "first_least policy ctx cs j" for i j
  proof -
    from that obtain r q where "rank policy ctx (cs ! i) = Some r" "rank policy ctx (cs ! j) = Some q"
      "i < length cs" "j < length cs" "r < q \<or> r = q \<and> i \<le> j" "q < r \<or> q = r \<and> j \<le> i"
      by (auto simp: first_least_def list_all_iff split: option.splits)
    then show "i \<le> j" by auto
  qed
  then show "first_least policy ctx cs i \<Longrightarrow> first_least policy ctx cs j \<Longrightarrow> i = j"
    by (metis order.antisym)
qed

lemma select_Some_iff:
  "select policy ctx cs = Ok (Some w) \<longleftrightarrow>
     list_all (candidate_ok policy) cs \<and> (\<exists>i. w = scheduled cs i \<and> first_least policy ctx cs i)"
proof (cases "list_all (candidate_ok policy) cs")
  case True
  show ?thesis
  proof (cases "least (ranked policy ctx 0 cs)")
    case None
    then have "ranked policy ctx 0 cs = []" by (cases "ranked policy ctx 0 cs") (auto split: prod.splits)
    then have "rank policy ctx (cs ! j) = None" if "j < length cs" for j
      using ranked_complete [OF that, of policy ctx _ 0] by (cases "rank policy ctx (cs ! j)") auto
    then have "\<not> first_least policy ctx cs i" for i by (auto simp: first_least_def)
    with True None show ?thesis by (simp add: select_valid)
  next
    case (Some p)
    obtain i r where p: "p = (i, r)" by (cases p)
    with Some have i: "first_least policy ctx cs i" using least_first_least by blast
    from True Some p have sel: "select policy ctx cs = Ok (Some (scheduled cs i))" by (simp add: select_valid)
    have "(\<exists>k. w = scheduled cs k \<and> first_least policy ctx cs k) \<longleftrightarrow> w = scheduled cs i"
      using i first_least_unique [of policy ctx cs i] by blast
    with True sel show ?thesis by auto
  qed
next
  case False
  then obtain e where "select_from policy ctx 0 None cs = Err e"
    using select_from_invalid [of cs policy ctx 0 None] by (auto simp: list_all_iff)
  with False show ?thesis by (simp add: select_def)
qed


section \<open>Urgent work is not passed over\<close>

definition eligible :: "ScheduleContext \<Rightarrow> WorkCandidate \<Rightarrow> bool" where
  "eligible ctx c \<longleftrightarrow> wc_ready_at c \<le> sx_now ctx \<and>
     (wc_class c = TC_Diagnostics \<longrightarrow>
        sx_observability ctx = OP_Diagnostic \<and> wc_estimated_slot c \<le> sx_diagnostic_budget_us ctx)"

text \<open>Undelivered samples can be overwritten within the guard interval.\<close>

definition overflow_imminent :: "ChannelSchedulerPolicy \<Rightarrow> WorkCandidate \<Rightarrow> bool" where
  "overflow_imminent policy c \<longleftrightarrow>
     (case wc_time_to_overflow_us c of None \<Rightarrow> False | Some t \<Rightarrow> t \<le> sp_overflow_guard policy)"

text \<open>Even started now, the transaction would not end before its deadline.\<close>

definition deadline_arrived :: "ScheduleContext \<Rightarrow> WorkCandidate \<Rightarrow> bool" where
  "deadline_arrived ctx c \<longleftrightarrow>
     (case wc_deadline c of None \<Rightarrow> False
      | Some d \<Rightarrow> unat d \<le> unat (sx_now ctx) + unat (wc_estimated_slot c))"

lemma saturating_add_ge: "(d :: 'a::len word) \<le> saturating_add a b \<longleftrightarrow> unat d \<le> unat a + unat b"
proof (cases "checked_add a b")
  case None
  have "unat d < 2 ^ LENGTH('a)" by (rule unsigned_less)
  also have "\<dots> \<le> unat a + unat b" using None by (simp only: checked_add_None)
  finally have "unat d \<le> unat a + unat b" by (rule less_imp_le)
  with None show ?thesis by (simp add: saturating_add_def)
next
  case (Some c)
  then have "unat c = unat a + unat b" by (simp add: checked_add_Some)
  with Some show ?thesis by (simp add: saturating_add_def word_le_nat_alt)
qed

lemma rank_eligible: "rank policy ctx c = Some r \<Longrightarrow> eligible ctx c"
  by (auto simp: rank_def eligible_def not_less split: if_splits)

lemma rank_tiers:
  assumes "eligible ctx c"
  shows "(overflow_imminent policy c \<longrightarrow>
      rank policy ctx c = Some (rank_new 0 (the (wc_time_to_overflow_us c)) (wc_queued_at c) c)) \<and>
    (\<not> overflow_imminent policy c \<and> deadline_arrived ctx c \<longrightarrow>
      rank policy ctx c = Some (rank_new 1 (the (wc_deadline c)) (class_order (wc_class c)) c)) \<and>
    (\<not> overflow_imminent policy c \<and> \<not> deadline_arrived ctx c \<longrightarrow> rank policy ctx c = class_rank c)"
  using assms
  by (auto simp: rank_def eligible_def overflow_imminent_def deadline_arrived_def overflow_rank_def
      deadline_rank_def saturating_add_ge not_less split: option.splits)

lemma class_rank_tier: "class_rank c = Some r \<Longrightarrow> 2 \<le> rk_tier r"
  by (auto simp: class_rank_def rank_new_def split: TrafficClass.splits)

lemma rank_le_tier: "a \<le> b \<Longrightarrow> rk_tier a \<le> rk_tier b"
  "a \<le> b \<Longrightarrow> rk_tier a = rk_tier b \<Longrightarrow> rk_primary a \<le> rk_primary b"
  by (auto simp: less_eq_Rank_def rank_key_def less_eq_prod_def)

lemma first_leastD:
  assumes "first_least policy ctx cs i" "j < length cs" "rank policy ctx (cs ! j) = Some q"
  shows "\<exists>r. i < length cs \<and> rank policy ctx (cs ! i) = Some r \<and> r \<le> q"
proof -
  from assms(1) obtain r where r: "i < length cs" "rank policy ctx (cs ! i) = Some r"
    "\<And>k. k < length cs \<Longrightarrow> case rank policy ctx (cs ! k) of None \<Rightarrow> True | Some r' \<Rightarrow> r < r' \<or> r = r' \<and> i \<le> k"
    by (auto simp: first_least_def list_all_iff split: option.splits)
  from r(3) [OF assms(2)] assms(3) have "r \<le> q" by auto
  with r show ?thesis by blast
qed

lemma selected_least:
  assumes "select policy ctx cs = Ok (Some w)" "c \<in> set cs" "rank policy ctx c = Some q"
  shows "\<exists>r. sw_candidate_index w < length cs \<and> rank policy ctx (cs ! sw_candidate_index w) = Some r \<and> r \<le> q \<and>
    candidate_ok policy (cs ! sw_candidate_index w)"
proof -
  from assms(1) obtain i where i: "w = scheduled cs i" "first_least policy ctx cs i" "list_all (candidate_ok policy) cs"
    by (auto simp: select_Some_iff)
  obtain j where "j < length cs" "c = cs ! j" using assms(2) by (auto simp: in_set_conv_nth)
  with first_leastD [OF i(2)] assms(3) i show ?thesis by (fastforce simp: scheduled_def list_all_iff)
qed

lemma candidate_slot: "candidate_ok policy c \<Longrightarrow> wc_estimated_slot c \<le> sp_max_slot policy"
  by (auto simp: candidate_ok_def validate_candidate_def not_less split: if_splits)

text \<open>The tier of a rank tells which of the three reasons gave it.\<close>

lemma rank_reason:
  assumes "rank policy ctx c = Some r"
  shows "(rk_tier r = 0 \<longleftrightarrow> overflow_imminent policy c) \<and>
    (rk_tier r \<le> 1 \<longleftrightarrow> overflow_imminent policy c \<or> deadline_arrived ctx c) \<and>
    (rk_tier r = 0 \<longrightarrow> rk_primary r = the (wc_time_to_overflow_us c)) \<and>
    (rk_tier r = 1 \<longrightarrow> rk_primary r = the (wc_deadline c))"
proof -
  note t = rank_tiers [OF rank_eligible [OF assms], of policy]
  consider "overflow_imminent policy c" | "\<not> overflow_imminent policy c" "deadline_arrived ctx c"
    | "\<not> overflow_imminent policy c" "\<not> deadline_arrived ctx c" by blast
  then show ?thesis
  proof cases
    case 1
    with t assms show ?thesis by (auto simp: rank_new_def)
  next
    case 2
    with t assms show ?thesis by (auto simp: rank_new_def)
  next
    case 3
    with t assms have "2 \<le> rk_tier r" using class_rank_tier by simp
    then have "rk_tier r \<noteq> 0" "rk_tier r \<noteq> 1" "\<not> rk_tier r \<le> 1" by (auto simp: word_le_nat_alt)
    with 3 show ?thesis by blast
  qed
qed

text \<open>Urgent work is never passed over: what the scheduler picks is ready, within the slot limit and,
  for diagnostics, within their budget; when the unread samples of some ready node can be overwritten within the
  guard interval, the pick is such a node and the one with least time left; and when the deadline
  of some ready work has arrived, the pick is imminent overflow or work whose deadline arrived no later.\<close>

lemma urgent_work_first:
  assumes "select policy ctx cs = Ok (Some w)" "c \<in> set cs" "eligible ctx c"
    "overflow_imminent policy c \<or> deadline_arrived ctx c"
  defines "pick \<equiv> cs ! sw_candidate_index w"
  shows "eligible ctx pick \<and> wc_estimated_slot pick \<le> sp_max_slot policy \<and>
    (overflow_imminent policy c \<longrightarrow> overflow_imminent policy pick \<and>
       the (wc_time_to_overflow_us pick) \<le> the (wc_time_to_overflow_us c)) \<and>
    (deadline_arrived ctx c \<longrightarrow> overflow_imminent policy pick \<or>
       deadline_arrived ctx pick \<and> the (wc_deadline pick) \<le> the (wc_deadline c))"
proof -
  obtain q where q: "rank policy ctx c = Some q" using rank_tiers [OF assms(3), of policy] assms(4) by blast
  from selected_least [OF assms(1,2) q] obtain r where r: "rank policy ctx pick = Some r" "r \<le> q"
    "candidate_ok policy pick" by (auto simp: pick_def)
  note tq = rank_reason [OF q] and tr = rank_reason [OF r(1)]
  have le: "rk_tier r \<le> rk_tier q" by (rule rank_le_tier(1) [OF r(2)])
  have "overflow_imminent policy pick \<and> the (wc_time_to_overflow_us pick) \<le> the (wc_time_to_overflow_us c)"
    if "overflow_imminent policy c"
    using that tq tr le rank_le_tier(2) [OF r(2)] by auto
  moreover have "overflow_imminent policy pick \<or> deadline_arrived ctx pick \<and> the (wc_deadline pick) \<le> the (wc_deadline c)"
    if "deadline_arrived ctx c"
  proof (cases "rk_tier r = 0")
    case True
    with tr show ?thesis by blast
  next
    case False
    from that tq have "rk_tier q \<le> 1" by blast
    with le False have "rk_tier r = 1" "rk_tier q = 1" by (auto simp: word_le_nat_alt unat_eq_iff)
    with that tq tr rank_le_tier(2) [OF r(2)] show ?thesis by auto
  qed
  ultimately show ?thesis using rank_eligible [OF r(1)] candidate_slot [OF r(3)] by blast
qed

definition example_policy :: ChannelSchedulerPolicy where
  "example_policy = \<lparr>sp_overflow_guard = 100, sp_max_slot = 1000\<rparr>"

definition example_context :: ScheduleContext where
  "example_context = \<lparr>sx_now = 50, sx_observability = OP_Production, sx_diagnostic_budget_us = 0\<rparr>"

definition example_pull :: "u64 \<Rightarrow> u64 \<Rightarrow> WorkCandidate" where
  "example_pull work_id left =
     \<lparr>wc_work_id = work_id, wc_node_address = 7, wc_class = TC_Measurement, wc_ready_at = 0,
      wc_deadline = Some 5000, wc_queued_at = 10, wc_time_to_overflow_us = Some left, wc_estimated_slot = 20\<rparr>"

lemmas example_schedule = example_policy_def example_context_def example_pull_def

lemma example_select:
  "select example_policy example_context [example_pull 1 400, example_pull 2 60] =
     Ok (Some \<lparr>sw_candidate_index = 1, sw_work_id = 2, sw_node_address = 7, sw_class = TC_Measurement\<rparr>)"
  by (simp add: select_def example_schedule validate_candidate_def rank_def overflow_rank_def deadline_rank_def
      class_rank_def rank_new_def saturating_add_def checked_add_def HOST_ADDRESS_def BROADCAST_ADDRESS_def
      less_Rank_def rank_key_def)

end
