(* ===== verification/Host_Safe_State.thy ===== *)
theory Host_Safe_State
  imports Host_Transaction Protocol_Lifecycle
begin

text \<open>
  Convergence of one node to a stable state and the plans that order a channel-wide transition: the
  converger of \<^verbatim>\<open>sensor-host/src/safe_state.rs\<close> (which action comes next, how results and failures count, when it
  gives up) and the maintenance and resume plans of \<^verbatim>\<open>sensor-host/src/channel_mode.rs\<close>.
\<close>

section \<open>The converger\<close>

datatype SafeStateTarget = ST_Idle | ST_Maintenance | ST_Recording

record SafeStatePolicy =
  spp_orderly_attempts :: u8
  spp_restart_attempts :: u8
  spp_restart_cycles :: u8

datatype SafeStateAction = SA_GetState | SA_Start | SA_Stop | SA_EnterMaintenance | SA_ExitMaintenance | SA_Restart

datatype SafeStateStatus = SS_Converging | SS_Reached SafeStateTarget | SS_ConvergenceFailed | SS_Offline

datatype SafeStateError =
  SSE_ZeroOrderlyAttempts | SSE_ZeroRestartAttempts | SSE_ZeroRestartCycles | SSE_ActionAlreadyPending
| SSE_NoPendingAction | SSE_WrongCompletion SafeStateAction SafeStateAction

record SafeStateConverger =
  sc_target :: SafeStateTarget
  sc_policy :: SafeStatePolicy
  sc_observed :: "RuntimeState option"
  sc_pending :: "SafeStateAction option"
  sc_orderly_failures :: u8
  sc_restart_failures :: u8
  sc_completed_restart_cycles :: u8
  sc_status :: SafeStateStatus

definition safe_state_policy_validate :: "SafeStatePolicy \<Rightarrow> (SafeStatePolicy, SafeStateError) result" where
  "safe_state_policy_validate self =
     (if spp_orderly_attempts self = 0 then Err SSE_ZeroOrderlyAttempts
      else if spp_restart_attempts self = 0 then Err SSE_ZeroRestartAttempts
      else if spp_restart_cycles self = 0 then Err SSE_ZeroRestartCycles
      else Ok self)"

definition converger_new :: "SafeStateTarget \<Rightarrow> SafeStatePolicy \<Rightarrow> (SafeStateConverger, SafeStateError) result" where
  "converger_new target policy =
     and_then (safe_state_policy_validate policy) (\<lambda>policy.
       Ok \<lparr>sc_target = target, sc_policy = policy, sc_observed = None, sc_pending = None,
           sc_orderly_failures = 0, sc_restart_failures = 0, sc_completed_restart_cycles = 0,
           sc_status = SS_Converging\<rparr>)"

definition next_action ::
  "SafeStateConverger \<Rightarrow> (SafeStateConverger, SafeStateAction option, SafeStateError) outcome" where
  "next_action self =
     (if sc_pending self \<noteq> None then (Err SSE_ActionAlreadyPending, self)
      else if sc_status self \<noteq> SS_Converging then (Ok None, self)
      else
        let act = \<lambda>action. (Ok (Some action), self\<lparr>sc_pending := Some action\<rparr>);
            reach = \<lambda>target. (Ok None, self\<lparr>sc_status := SS_Reached target\<rparr>)
        in if sc_orderly_failures self \<ge> spp_orderly_attempts (sc_policy self)
           then if sc_completed_restart_cycles self \<ge> spp_restart_cycles (sc_policy self)
                then (Ok None, self\<lparr>sc_status := SS_ConvergenceFailed\<rparr>)
                else act SA_Restart
           else case sc_observed self of
               None \<Rightarrow> act SA_GetState
             | Some RT_Idle \<Rightarrow>
                 if sc_target self = ST_Idle then reach ST_Idle
                 else if sc_target self = ST_Recording then act SA_Start
                 else act SA_EnterMaintenance
             | Some RT_Maintenance \<Rightarrow>
                 if sc_target self = ST_Maintenance then reach ST_Maintenance else act SA_ExitMaintenance
             | Some RT_Recording \<Rightarrow>
                 if sc_target self = ST_Recording then reach ST_Recording else act SA_Stop
             | Some RT_Stopping \<Rightarrow> act SA_Stop
             | Some RT_Faulted \<Rightarrow> act SA_Restart)"

definition take_pending :: "SafeStateConverger \<Rightarrow> SafeStateAction \<Rightarrow> (SafeStateConverger, unit, SafeStateError) outcome" where
  "take_pending self action =
     (case sc_pending self of
        Some expected \<Rightarrow>
          if expected = action then (Ok (), self\<lparr>sc_pending := None\<rparr>)
          else (Err (SSE_WrongCompletion expected action), self)
      | None \<Rightarrow> (Err SSE_NoPendingAction, self))"

definition converger_complete ::
  "SafeStateConverger \<Rightarrow> SafeStateAction \<Rightarrow> RuntimeState \<Rightarrow> (SafeStateConverger, unit, SafeStateError) outcome" where
  "converger_complete self action observed =
     (case take_pending self action of
        (Ok _, self) \<Rightarrow>
          if action = SA_Restart
          then (Ok (), self\<lparr>sc_observed := None, sc_orderly_failures := 0, sc_restart_failures := 0,
                  sc_completed_restart_cycles := saturating_add (sc_completed_restart_cycles self) 1\<rparr>)
          else (Ok (), self\<lparr>sc_observed := Some observed, sc_orderly_failures := 0\<rparr>)
      | (Err e, self) \<Rightarrow> (Err e, self)
      | (Panic, self) \<Rightarrow> (Panic, self))"

definition converger_fail ::
  "SafeStateConverger \<Rightarrow> SafeStateAction \<Rightarrow> (SafeStateConverger, unit, SafeStateError) outcome" where
  "converger_fail self action =
     (case take_pending self action of
        (Ok _, self) \<Rightarrow>
          if action = SA_Restart
          then let failures = saturating_add (sc_restart_failures self) 1;
                   self = self\<lparr>sc_restart_failures := failures\<rparr>
               in (Ok (), if failures \<ge> spp_restart_attempts (sc_policy self)
                          then self\<lparr>sc_status := SS_Offline\<rparr> else self)
          else (Ok (), self\<lparr>sc_orderly_failures := saturating_add (sc_orderly_failures self) 1\<rparr>)
      | (Err e, self) \<Rightarrow> (Err e, self)
      | (Panic, self) \<Rightarrow> (Panic, self))"

definition fall_back_to_idle :: "SafeStateConverger \<Rightarrow> (SafeStateConverger, unit, SafeStateError) outcome" where
  "fall_back_to_idle self =
     (if sc_pending self \<noteq> None then (Err SSE_ActionAlreadyPending, self)
      else if sc_status self = SS_Offline then (Ok (), self)
      else (Ok (), self\<lparr>sc_target := ST_Idle, sc_status := SS_Converging, sc_orderly_failures := 0\<rparr>))"

text \<open>From the wire adapter: the command of an action, and which reported state confirms it.\<close>

fun runtime_operation :: "SafeStateAction \<Rightarrow> RuntimeOperation" where
  "runtime_operation SA_GetState = RO_GetState"
| "runtime_operation SA_Start = RO_Start"
| "runtime_operation SA_Stop = RO_Stop"
| "runtime_operation SA_EnterMaintenance = RO_EnterMaintenance"
| "runtime_operation SA_ExitMaintenance = RO_ExitMaintenance"
| "runtime_operation SA_Restart = RO_RestartNode"

fun runtime_result_matches_action :: "SafeStateAction \<Rightarrow> RuntimeState \<Rightarrow> bool" where
  "runtime_result_matches_action SA_GetState _ = True"
| "runtime_result_matches_action SA_Restart _ = True"
| "runtime_result_matches_action SA_Start state = (state = RT_Recording)"
| "runtime_result_matches_action SA_Stop state = (state = RT_Idle)"
| "runtime_result_matches_action SA_ExitMaintenance state = (state = RT_Idle)"
| "runtime_result_matches_action SA_EnterMaintenance state = (state = RT_Maintenance)"

section \<open>Rounds\<close>

text \<open>One round as the adapter drives it: ask for the next action, then report what came of it. A
  state that does not confirm the action counts as a failure (\<open>handle_event\<close>).\<close>

datatype SafeStateReport = SR_Observed RuntimeState | SR_Failed

definition report :: "SafeStateConverger \<Rightarrow> SafeStateAction \<Rightarrow> SafeStateReport \<Rightarrow> SafeStateConverger" where
  "report s action r =
     (case r of
        SR_Observed state \<Rightarrow>
          if runtime_result_matches_action action state then snd (converger_complete s action state)
          else snd (converger_fail s action)
      | SR_Failed \<Rightarrow> snd (converger_fail s action))"

fun rounds :: "SafeStateConverger \<Rightarrow> SafeStateReport list \<Rightarrow> SafeStateAction list \<times> SafeStateConverger" where
  "rounds s [] = ([], s)"
| "rounds s (r # rs) =
     (case next_action s of
        (Ok (Some action), t) \<Rightarrow> (let (acts, u) = rounds (report t action r) rs in (action # acts, u))
      | (_, t) \<Rightarrow> ([], t))"

section \<open>Convergence is bounded\<close>

fun stable_state :: "SafeStateTarget \<Rightarrow> RuntimeState" where
  "stable_state ST_Idle = RT_Idle"
| "stable_state ST_Maintenance = RT_Maintenance"
| "stable_state ST_Recording = RT_Recording"

text \<open>How many confirmed actions are left until the target is observed.\<close>

fun distance :: "SafeStateTarget \<Rightarrow> RuntimeState option \<Rightarrow> nat" where
  "distance target None = 3"
| "distance target (Some state) =
     (if state = stable_state target then 0
      else if state = RT_Idle \<or> target = ST_Idle then 1 else 2)"

definition policy_bound :: "SafeStatePolicy \<Rightarrow> nat" where
  "policy_bound p = 4 * unat (spp_orderly_attempts p) + unat (spp_restart_attempts p)"

definition effort :: "SafeStateConverger \<Rightarrow> nat" where
  "effort s =
     (unat (spp_restart_cycles (sc_policy s)) - unat (sc_completed_restart_cycles s)) * policy_bound (sc_policy s) +
     (if sc_orderly_failures s \<ge> spp_orderly_attempts (sc_policy s) then 0
      else distance (sc_target s) (sc_observed s) * unat (spp_orderly_attempts (sc_policy s)) +
           (unat (spp_orderly_attempts (sc_policy s)) - unat (sc_orderly_failures s))) +
     (unat (spp_restart_attempts (sc_policy s)) - unat (sc_restart_failures s))"

text \<open>A converger between two rounds that has not seen a faulted node.\<close>

definition converger_ok :: "SafeStateConverger \<Rightarrow> bool" where
  "converger_ok s \<longleftrightarrow> sc_pending s = None \<and> sc_observed s \<noteq> Some RT_Faulted \<and>
     spp_orderly_attempts (sc_policy s) \<noteq> 0 \<and> spp_restart_attempts (sc_policy s) \<noteq> 0 \<and>
     (sc_status s = SS_Converging \<longrightarrow> sc_restart_failures s < spp_restart_attempts (sc_policy s)) \<and>
     (case sc_status s of SS_Reached t \<Rightarrow> t = sc_target s \<and> sc_observed s = Some (stable_state t) | _ \<Rightarrow> True)"

lemma converger_new_ok:
  assumes "converger_new target policy = Ok s"
  shows "converger_ok s \<and> sc_target s = target \<and> sc_policy s = policy \<and>
    effort s = (unat (spp_restart_cycles policy) + 1) * policy_bound policy"
proof -
  from assms have "s = \<lparr>sc_target = target, sc_policy = policy, sc_observed = None, sc_pending = None,
      sc_orderly_failures = 0, sc_restart_failures = 0, sc_completed_restart_cycles = 0, sc_status = SS_Converging\<rparr>"
    and "spp_orderly_attempts policy \<noteq> 0" "spp_restart_attempts policy \<noteq> 0"
    by (auto simp: converger_new_def safe_state_policy_validate_def split: if_splits)
  then show ?thesis by (simp add: converger_ok_def effort_def policy_bound_def word_neq_0_conv)
qed

lemma saturating_inc: "(x :: u8) < y \<Longrightarrow> unat (saturating_add x 1) = unat x + 1"
proof -
  assume "x < y"
  moreover have "unat y < 256" using unsigned_less [of y, where ?'a = nat] by simp
  ultimately show ?thesis
    by (simp add: saturating_add_def checked_add_def word_less_nat_alt unat_word_ariths)
qed

text \<open>What the next action can be, and that its confirmation brings the target closer.\<close>

lemma next_action_cases:
  assumes "converger_ok s" "next_action s = (Ok (Some a), t)"
  shows "sc_status s = SS_Converging \<and> t = s\<lparr>sc_pending := Some a\<rparr> \<and>
    (if sc_orderly_failures s \<ge> spp_orderly_attempts (sc_policy s)
     then a = SA_Restart \<and> sc_completed_restart_cycles s < spp_restart_cycles (sc_policy s)
     else a \<noteq> SA_Restart \<and> 0 < distance (sc_target s) (sc_observed s) \<and>
       (\<forall>state. state \<noteq> RT_Faulted \<longrightarrow> runtime_result_matches_action a state \<longrightarrow>
          distance (sc_target s) (Some state) < distance (sc_target s) (sc_observed s)))"
proof (cases "sc_observed s")
  case None
  with assms show ?thesis
    by (auto simp: next_action_def Let_def converger_ok_def not_le split: if_splits)
next
  case (Some x)
  with assms show ?thesis
    by (cases x; cases "sc_target s")
      (auto simp: next_action_def Let_def converger_ok_def not_le split: if_splits)
qed

lemma next_action_none:
  assumes "converger_ok s" "next_action s = (Ok None, t)"
  shows "converger_ok t \<and> sc_status t \<noteq> SS_Converging \<and> sc_target t = sc_target s"
proof (cases "sc_observed s")
  case None
  with assms show ?thesis
    by (auto simp: next_action_def Let_def converger_ok_def split: if_splits)
next
  case (Some x)
  with assms show ?thesis
    by (cases x; cases "sc_target s") (auto simp: next_action_def Let_def converger_ok_def split: if_splits)
qed

lemma next_action_total: "converger_ok s \<Longrightarrow> \<exists>a. fst (next_action s) = Ok a"
  by (auto simp: next_action_def Let_def converger_ok_def split: option.splits RuntimeState.splits)

lemma report_failure:
  assumes "sc_pending s = None" "r = SR_Failed \<or> (\<exists>x. r = SR_Observed x \<and> \<not> runtime_result_matches_action a x)"
  shows "report (s\<lparr>sc_pending := Some a\<rparr>) a r =
    (if a = SA_Restart
     then s\<lparr>sc_restart_failures := saturating_add (sc_restart_failures s) 1,
            sc_status := if saturating_add (sc_restart_failures s) 1 \<ge> spp_restart_attempts (sc_policy s)
                         then SS_Offline else sc_status s\<rparr>
     else s\<lparr>sc_orderly_failures := saturating_add (sc_orderly_failures s) 1\<rparr>)"
proof -
  have "report (s\<lparr>sc_pending := Some a\<rparr>) a r = snd (converger_fail (s\<lparr>sc_pending := Some a\<rparr>) a)"
    using assms(2) by (auto simp: report_def)
  moreover have "s\<lparr>sc_pending := None\<rparr> = s" using assms(1) by simp
  ultimately show ?thesis
    by (cases s) (simp add: converger_fail_def take_pending_def Let_def)
qed

lemma report_success:
  assumes "sc_pending s = None" "runtime_result_matches_action a x"
  shows "report (s\<lparr>sc_pending := Some a\<rparr>) a (SR_Observed x) =
    (if a = SA_Restart
     then s\<lparr>sc_observed := None, sc_orderly_failures := 0, sc_restart_failures := 0,
            sc_completed_restart_cycles := saturating_add (sc_completed_restart_cycles s) 1\<rparr>
     else s\<lparr>sc_observed := Some x, sc_orderly_failures := 0\<rparr>)"
  using assms by (cases s) (simp add: report_def converger_complete_def take_pending_def)

lemma mult_distance: "d' < d \<Longrightarrow> d' * k + k \<le> d * (k :: nat)"
  by (metis Suc_leI add.commute mult_Suc mult_le_mono1)

lemma converging_counts:
  assumes "converger_ok s" "sc_status s = SS_Converging"
  shows "sc_pending s = None" "0 < unat (spp_orderly_attempts (sc_policy s))"
    "unat (sc_restart_failures s) < unat (spp_restart_attempts (sc_policy s))"
    "unat (saturating_add (sc_restart_failures s) 1) = unat (sc_restart_failures s) + 1"
  using assms saturating_inc [of "sc_restart_failures s" "spp_restart_attempts (sc_policy s)"]
  by (auto simp: converger_ok_def word_less_nat_alt unat_eq_iff)

definition progresses :: "SafeStateConverger \<Rightarrow> SafeStateConverger \<Rightarrow> bool" where
  "progresses s u \<longleftrightarrow> converger_ok u \<and> effort u < effort s \<and> sc_target u = sc_target s"

lemma failure_progresses:
  assumes ok: "converger_ok s" and n: "next_action s = (Ok (Some a), t)"
    and fail: "r = SR_Failed \<or> (\<exists>x. r = SR_Observed x \<and> \<not> runtime_result_matches_action a x)"
  shows "progresses s (report t a r)"
proof -
  note c = next_action_cases [OF ok n]
  then have t: "t = s\<lparr>sc_pending := Some a\<rparr>" and st: "sc_status s = SS_Converging" by auto
  note counts = converging_counts [OF ok st]
  note e = report_failure [OF counts(1) fail, folded t]
  show ?thesis
  proof (cases "a = SA_Restart")
    case True
    then show ?thesis
      unfolding e progresses_def using ok st counts by (auto simp: effort_def converger_ok_def not_le)
  next
    case False
    with c have of: "\<not> sc_orderly_failures s \<ge> spp_orderly_attempts (sc_policy s)"
      "0 < distance (sc_target s) (sc_observed s)" by (auto split: if_splits)
    then have "unat (saturating_add (sc_orderly_failures s) 1) = unat (sc_orderly_failures s) + 1"
      by (intro saturating_inc [of _ "spp_orderly_attempts (sc_policy s)"]) simp
    with False of ok st counts(2) show ?thesis
      unfolding e progresses_def by (auto simp: effort_def converger_ok_def word_le_nat_alt)
  qed
qed

lemma confirmation_progresses:
  assumes ok: "converger_ok s" and n: "next_action s = (Ok (Some a), t)"
    and x: "runtime_result_matches_action a x" "x \<noteq> RT_Faulted"
  shows "progresses s (report t a (SR_Observed x))"
proof -
  let ?p = "sc_policy s"
  note c = next_action_cases [OF ok n]
  then have t: "t = s\<lparr>sc_pending := Some a\<rparr>" and st: "sc_status s = SS_Converging" by auto
  note counts = converging_counts [OF ok st]
  note e = report_success [OF counts(1) x(1), folded t]
  show ?thesis
  proof (cases "a = SA_Restart")
    case True
    with c have of: "sc_orderly_failures s \<ge> spp_orderly_attempts ?p"
      and cyc: "sc_completed_restart_cycles s < spp_restart_cycles ?p" by (auto split: if_splits)
    have left: "unat (spp_restart_cycles ?p) - unat (sc_completed_restart_cycles s) =
        Suc (unat (spp_restart_cycles ?p) - unat (saturating_add (sc_completed_restart_cycles s) 1))"
      using saturating_inc [OF cyc] cyc by (simp add: word_less_nat_alt)
    have "converger_ok (report t a (SR_Observed x))"
      unfolding e using ok True st by (auto simp: converger_ok_def word_neq_0_conv)
    moreover have "effort (report t a (SR_Observed x)) < effort s"
      unfolding e using of True counts(2,3) by (simp add: effort_def left policy_bound_def word_le_nat_alt)
    ultimately show ?thesis unfolding progresses_def by (simp add: e)
  next
    case False
    with c x have of: "\<not> sc_orderly_failures s \<ge> spp_orderly_attempts ?p"
      and d: "distance (sc_target s) (Some x) < distance (sc_target s) (sc_observed s)"
      by (auto split: if_splits)
    have "effort (report t a (SR_Observed x)) < effort s"
      unfolding e using of False counts(2) mult_distance [OF d, of "unat (spp_orderly_attempts ?p)"]
      by (simp add: effort_def word_le_nat_alt del: distance.simps)
    moreover have "converger_ok (report t a (SR_Observed x))"
      unfolding e using ok False st x by (auto simp: converger_ok_def)
    ultimately show ?thesis unfolding progresses_def by (simp add: e)
  qed
qed

lemma round_progresses:
  assumes "converger_ok s" "next_action s = (Ok (Some a), t)" "r \<noteq> SR_Observed RT_Faulted"
  shows "progresses s (report t a r)"
proof (cases r)
  case SR_Failed
  then show ?thesis using failure_progresses [OF assms(1,2)] by simp
next
  case (SR_Observed x)
  then show ?thesis
    using failure_progresses [OF assms(1,2)] confirmation_progresses [OF assms(1,2)] assms(3)
    by (cases "runtime_result_matches_action a x") auto
qed

lemma rounds_bounded:
  assumes "converger_ok s" "SR_Observed RT_Faulted \<notin> set rs"
  shows "length (fst (rounds s rs)) \<le> effort s \<and> converger_ok (snd (rounds s rs)) \<and>
    sc_target (snd (rounds s rs)) = sc_target s \<and>
    (sc_status (snd (rounds s rs)) = SS_Converging \<longrightarrow> length (fst (rounds s rs)) = length rs)"
  using assms
proof (induction rs arbitrary: s)
  case Nil
  then show ?case by simp
next
  case (Cons r rs)
  obtain b t where b: "next_action s = (Ok b, t)" using next_action_total [OF Cons.prems(1)] by (metis prod.collapse)
  show ?case
  proof (cases b)
    case None
    with b next_action_none [OF Cons.prems(1)] show ?thesis by simp
  next
    case (Some a)
    with b have n: "next_action s = (Ok (Some a), t)" by simp
    have p: "progresses s (report t a r)" by (rule round_progresses [OF Cons.prems(1) n]) (use Cons.prems in auto)
    then have "converger_ok (report t a r)" by (simp add: progresses_def)
    from Cons.IH [OF this] Cons.prems(2) p show ?thesis
      by (cases "rounds (report t a r) rs") (auto simp: n progresses_def)
  qed
qed

text \<open>Convergence terminates: a converger that is not told of a faulted node issues at most
  \<open>(restart_cycles + 1) * (4 * orderly_attempts + restart_attempts)\<close> actions, whatever succeeds, fails or is
  contradicted, and after that many rounds it has settled. A reached target is the one asked for and was observed.\<close>

lemma convergence_terminates:
  assumes "converger_new target policy = Ok s" "SR_Observed RT_Faulted \<notin> set rs"
  defines "bound \<equiv> (unat (spp_restart_cycles policy) + 1) *
    (4 * unat (spp_orderly_attempts policy) + unat (spp_restart_attempts policy))"
  shows "length (fst (rounds s rs)) \<le> bound \<and>
    (bound < length rs \<longrightarrow> sc_status (snd (rounds s rs)) \<noteq> SS_Converging) \<and>
    (case sc_status (snd (rounds s rs)) of
       SS_Reached t \<Rightarrow> t = target \<and> sc_observed (snd (rounds s rs)) = Some (stable_state target)
     | _ \<Rightarrow> True)"
proof -
  from converger_new_ok [OF assms(1)] have new: "converger_ok s" "sc_target s = target" "effort s = bound"
    by (auto simp: bound_def policy_bound_def)
  from rounds_bounded [OF new(1) assms(2)] new show ?thesis
    by (auto simp: converger_ok_def split: SafeStateStatus.splits)
qed

definition example_safe_policy :: SafeStatePolicy where
  "example_safe_policy = \<lparr>spp_orderly_attempts = 2, spp_restart_attempts = 2, spp_restart_cycles = 1\<rparr>"

definition example_converger :: SafeStateConverger where
  "example_converger = \<lparr>sc_target = ST_Maintenance, sc_policy = example_safe_policy, sc_observed = None,
     sc_pending = None, sc_orderly_failures = 0, sc_restart_failures = 0, sc_completed_restart_cycles = 0,
     sc_status = SS_Converging\<rparr>"

lemma example_converger_new: "converger_new ST_Maintenance example_safe_policy = Ok example_converger"
  by (simp add: converger_new_def safe_state_policy_validate_def example_safe_policy_def example_converger_def)

section \<open>A node that stays faulted\<close>

text \<open>The policy allows one restart cycle.\<close>

lemma faulted_cycle:
  "rounds (example_converger\<lparr>sc_completed_restart_cycles := c\<rparr>) (SR_Observed RT_Faulted # SR_Observed RT_Idle # rs) =
     (let (acts, u) = rounds (example_converger\<lparr>sc_completed_restart_cycles := saturating_add c 1\<rparr>) rs
      in (SA_GetState # SA_Restart # acts, u))"
  by (simp add: next_action_def report_def converger_complete_def take_pending_def Let_def
      example_converger_def example_safe_policy_def split: prod.split)

lemma faulted_cycles:
  "let (acts, u) = rounds (example_converger\<lparr>sc_completed_restart_cycles := c\<rparr>)
         (concat (replicate n [SR_Observed RT_Faulted, SR_Observed RT_Idle]))
   in acts = concat (replicate n [SA_GetState, SA_Restart]) \<and> sc_status u = SS_Converging"
proof (induction n arbitrary: c)
  case 0
  show ?case by (simp add: example_converger_def)
next
  case (Suc n)
  show ?case using Suc.IH [of "saturating_add c 1"] by (auto simp: faulted_cycle Let_def simp del: rounds.simps split: prod.splits)
qed

text \<open>C36. The restart limit does not bound a node that reports a fault after every restart: an
  observation of the fault and a confirmed restart bring the converger back to where it stood, so for every
  number of such cycles it still converges and orders one more restart, although its policy allows one
  restart cycle.\<close>

theorem faulted_node_restarts_forever:
  "spp_restart_cycles (sc_policy example_converger) = 1 \<and>
   fst (rounds example_converger (concat (replicate n [SR_Observed RT_Faulted, SR_Observed RT_Idle]))) =
     concat (replicate n [SA_GetState, SA_Restart]) \<and>
   sc_status (snd (rounds example_converger
     (concat (replicate n [SR_Observed RT_Faulted, SR_Observed RT_Idle])))) = SS_Converging"
proof -
  have "example_converger\<lparr>sc_completed_restart_cycles := 0\<rparr> = example_converger"
    by (simp add: example_converger_def)
  with faulted_cycles [of 0 n] show ?thesis
    by (auto simp: Let_def example_converger_def example_safe_policy_def split: prod.splits)
qed

section \<open>Maintenance entry and resumption\<close>

datatype MaintenanceEntryStage =
  MS_Quiescing | MS_ConvergingToIdle | MS_ReconcilingStoppedStreams | MS_DrainingStoppedStreams
| MS_ConvergingToMaintenance | MS_FallingBackToIdle | MS_CompleteMaintenance | MS_CompleteIdle | MS_Offline

datatype MaintenanceEntryDirective =
  MD_Quiesce | MD_Converge SafeStateTarget | MD_ReconcileStoppedStreams | MD_DrainStoppedStreams
| MD_CompleteMaintenance | MD_CompleteIdle | MD_Offline

datatype MaintenanceEntryEvent =
  ME_Quiesced | ME_SafeStateReached SafeStateTarget | ME_StoppedStreamsReconciled | ME_StoppedStreamsDrained
| ME_MaintenanceConvergenceFailed | ME_NodeOffline

datatype ChannelModeError = CMD_UnexpectedEvent MaintenanceEntryStage MaintenanceEntryEvent

definition maintenance_new :: MaintenanceEntryStage where
  "maintenance_new = MS_Quiescing"

fun maintenance_directive :: "MaintenanceEntryStage \<Rightarrow> MaintenanceEntryDirective" where
  "maintenance_directive MS_Quiescing = MD_Quiesce"
| "maintenance_directive MS_ConvergingToIdle = MD_Converge ST_Idle"
| "maintenance_directive MS_FallingBackToIdle = MD_Converge ST_Idle"
| "maintenance_directive MS_ReconcilingStoppedStreams = MD_ReconcileStoppedStreams"
| "maintenance_directive MS_DrainingStoppedStreams = MD_DrainStoppedStreams"
| "maintenance_directive MS_ConvergingToMaintenance = MD_Converge ST_Maintenance"
| "maintenance_directive MS_CompleteMaintenance = MD_CompleteMaintenance"
| "maintenance_directive MS_CompleteIdle = MD_CompleteIdle"
| "maintenance_directive MS_Offline = MD_Offline"

definition maintenance_accept ::
  "MaintenanceEntryStage \<Rightarrow> MaintenanceEntryEvent \<Rightarrow> (MaintenanceEntryStage, unit, ChannelModeError) outcome" where
  "maintenance_accept stage event =
     (case (stage, event) of
        (MS_Quiescing, ME_Quiesced) \<Rightarrow> (Ok (), MS_ConvergingToIdle)
      | (MS_ConvergingToIdle, ME_SafeStateReached ST_Idle) \<Rightarrow> (Ok (), MS_ReconcilingStoppedStreams)
      | (MS_ReconcilingStoppedStreams, ME_StoppedStreamsReconciled) \<Rightarrow> (Ok (), MS_DrainingStoppedStreams)
      | (MS_DrainingStoppedStreams, ME_StoppedStreamsDrained) \<Rightarrow> (Ok (), MS_ConvergingToMaintenance)
      | (MS_ConvergingToMaintenance, ME_SafeStateReached ST_Maintenance) \<Rightarrow> (Ok (), MS_CompleteMaintenance)
      | (MS_ConvergingToMaintenance, ME_MaintenanceConvergenceFailed) \<Rightarrow> (Ok (), MS_FallingBackToIdle)
      | (MS_FallingBackToIdle, ME_SafeStateReached ST_Idle) \<Rightarrow> (Ok (), MS_CompleteIdle)
      | (_, ME_NodeOffline) \<Rightarrow> (Ok (), MS_Offline)
      | (stage, event) \<Rightarrow> (Err (CMD_UnexpectedEvent stage event), stage))"

datatype ResumeRecordingStage =
  RG_VerifyingNodes | RG_ReconcilingStreams | RG_CheckingAdmission | RG_ActivatingNodes | RG_ResumingScheduling
| RG_Complete | RG_Faulted | RG_Offline

datatype ResumeRecordingDirective =
  RD_VerifyNodes | RD_ReconcileStreams | RD_CheckAdmission | RD_ActivateNodes | RD_ResumeScheduling
| RD_Complete | RD_Faulted | RD_Offline

datatype ResumeRecordingEvent =
  RE_NodesVerified bool | RE_StreamsReconciled | RE_AdmissionAccepted | RE_NodesActivated | RE_SchedulingResumed
| RE_Failed | RE_NodeOffline

datatype ResumeRecordingError = RRE_UnexpectedEvent ResumeRecordingStage ResumeRecordingEvent

definition resume_new :: ResumeRecordingStage where
  "resume_new = RG_VerifyingNodes"

fun resume_directive :: "ResumeRecordingStage \<Rightarrow> ResumeRecordingDirective" where
  "resume_directive RG_VerifyingNodes = RD_VerifyNodes"
| "resume_directive RG_ReconcilingStreams = RD_ReconcileStreams"
| "resume_directive RG_CheckingAdmission = RD_CheckAdmission"
| "resume_directive RG_ActivatingNodes = RD_ActivateNodes"
| "resume_directive RG_ResumingScheduling = RD_ResumeScheduling"
| "resume_directive RG_Complete = RD_Complete"
| "resume_directive RG_Faulted = RD_Faulted"
| "resume_directive RG_Offline = RD_Offline"

definition resume_accept ::
  "ResumeRecordingStage \<Rightarrow> ResumeRecordingEvent \<Rightarrow> (ResumeRecordingStage, unit, ResumeRecordingError) outcome" where
  "resume_accept stage event =
     (case (stage, event) of
        (RG_VerifyingNodes, RE_NodesVerified True) \<Rightarrow> (Ok (), RG_ReconcilingStreams)
      | (RG_VerifyingNodes, RE_NodesVerified False) \<Rightarrow> (Ok (), RG_CheckingAdmission)
      | (RG_ReconcilingStreams, RE_StreamsReconciled) \<Rightarrow> (Ok (), RG_CheckingAdmission)
      | (RG_CheckingAdmission, RE_AdmissionAccepted) \<Rightarrow> (Ok (), RG_ActivatingNodes)
      | (RG_ActivatingNodes, RE_NodesActivated) \<Rightarrow> (Ok (), RG_ResumingScheduling)
      | (RG_ResumingScheduling, RE_SchedulingResumed) \<Rightarrow> (Ok (), RG_Complete)
      | (_, RE_Failed) \<Rightarrow> (Ok (), RG_Faulted)
      | (_, RE_NodeOffline) \<Rightarrow> (Ok (), RG_Offline)
      | (stage, event) \<Rightarrow> (Err (RRE_UnexpectedEvent stage event), stage))"

text \<open>The facts a plan accepts, in order, and the stage they lead to. Refused facts are dropped.\<close>

fun plan_run :: "('s \<Rightarrow> 'ev \<Rightarrow> ('s, unit, 'e) outcome) \<Rightarrow> 's \<Rightarrow> 'ev list \<Rightarrow> 'ev list \<times> 's" where
  "plan_run accept s [] = ([], s)"
| "plan_run accept s (ev # evs) =
     (case accept s ev of
        (Ok _, t) \<Rightarrow> (let (l, u) = plan_run accept t evs in (ev # l, u))
      | (_, t) \<Rightarrow> plan_run accept t evs)"

text \<open>A plan whose stages are determined by the facts it has accepted.\<close>

locale ordered_plan =
  fixes accept :: "'s \<Rightarrow> 'ev \<Rightarrow> ('s, unit, 'e) outcome"
    and history :: "'s \<Rightarrow> 'ev list \<Rightarrow> bool"
  assumes accept_history: "history s l \<Longrightarrow> accept s ev = (Ok (), t) \<Longrightarrow> history t (l @ [ev])"
    and accept_refusal: "fst (accept s ev) \<noteq> Ok () \<Longrightarrow> snd (accept s ev) = s \<and> fst (accept s ev) \<noteq> Panic"
begin

lemma run_history: "history s l \<Longrightarrow> history (snd (plan_run accept s evs)) (l @ fst (plan_run accept s evs))"
proof (induction evs arbitrary: s l)
  case Nil
  then show ?case by simp
next
  case (Cons ev evs)
  obtain r t where a: "accept s ev = (r, t)" by (cases "accept s ev")
  show ?case
  proof (cases "r = Ok ()")
    case True
    with a have "history t (l @ [ev])" using accept_history [OF Cons.prems] by simp
    from Cons.IH [OF this] show ?thesis by (cases "plan_run accept t evs") (simp add: a True)
  next
    case False
    with a have "t = s" "r \<noteq> Panic" using accept_refusal [of s ev] by auto
    with a False show ?thesis using Cons.IH [OF Cons.prems] by (cases r) auto
  qed
qed

end

fun maintenance_history :: "MaintenanceEntryStage \<Rightarrow> MaintenanceEntryEvent list \<Rightarrow> bool" where
  "maintenance_history MS_Quiescing l = (l = [])"
| "maintenance_history MS_ConvergingToIdle l = (l = [ME_Quiesced])"
| "maintenance_history MS_ReconcilingStoppedStreams l = (l = [ME_Quiesced, ME_SafeStateReached ST_Idle])"
| "maintenance_history MS_DrainingStoppedStreams l =
     (l = [ME_Quiesced, ME_SafeStateReached ST_Idle, ME_StoppedStreamsReconciled])"
| "maintenance_history MS_ConvergingToMaintenance l =
     (l = [ME_Quiesced, ME_SafeStateReached ST_Idle, ME_StoppedStreamsReconciled, ME_StoppedStreamsDrained])"
| "maintenance_history MS_CompleteMaintenance l =
     (l = [ME_Quiesced, ME_SafeStateReached ST_Idle, ME_StoppedStreamsReconciled, ME_StoppedStreamsDrained,
           ME_SafeStateReached ST_Maintenance])"
| "maintenance_history MS_FallingBackToIdle l =
     (l = [ME_Quiesced, ME_SafeStateReached ST_Idle, ME_StoppedStreamsReconciled, ME_StoppedStreamsDrained,
           ME_MaintenanceConvergenceFailed])"
| "maintenance_history MS_CompleteIdle l =
     (l = [ME_Quiesced, ME_SafeStateReached ST_Idle, ME_StoppedStreamsReconciled, ME_StoppedStreamsDrained,
           ME_MaintenanceConvergenceFailed, ME_SafeStateReached ST_Idle])"
| "maintenance_history MS_Offline l = (l \<noteq> [] \<and> last l = ME_NodeOffline)"

interpretation maintenance: ordered_plan maintenance_accept maintenance_history
proof
  show "maintenance_history t (l @ [ev])" if "maintenance_history s l" "maintenance_accept s ev = (Ok (), t)"
    for s l ev t
    using that by (cases s; cases ev) (auto simp: maintenance_accept_def split: SafeStateTarget.splits)
  show "snd (maintenance_accept s ev) = s \<and> fst (maintenance_accept s ev) \<noteq> Panic"
    if "fst (maintenance_accept s ev) \<noteq> Ok ()" for s ev
    using that by (cases s; cases ev) (auto simp: maintenance_accept_def split: SafeStateTarget.splits)
qed

text \<open>The facts every way to resumed recording has in common, after the streams were found in order.\<close>

fun resume_history :: "ResumeRecordingStage \<Rightarrow> ResumeRecordingEvent list \<Rightarrow> bool" where
  "resume_history RG_VerifyingNodes l = (l = [])"
| "resume_history RG_ReconcilingStreams l = (l = [RE_NodesVerified True])"
| "resume_history RG_CheckingAdmission l =
     (l \<in> set [[RE_NodesVerified False], [RE_NodesVerified True, RE_StreamsReconciled]])"
| "resume_history RG_ActivatingNodes l =
     (l \<in> set (map (\<lambda>p. p @ [RE_AdmissionAccepted])
        [[RE_NodesVerified False], [RE_NodesVerified True, RE_StreamsReconciled]]))"
| "resume_history RG_ResumingScheduling l =
     (l \<in> set (map (\<lambda>p. p @ [RE_AdmissionAccepted, RE_NodesActivated])
        [[RE_NodesVerified False], [RE_NodesVerified True, RE_StreamsReconciled]]))"
| "resume_history RG_Complete l =
     (l \<in> set (map (\<lambda>p. p @ [RE_AdmissionAccepted, RE_NodesActivated, RE_SchedulingResumed])
        [[RE_NodesVerified False], [RE_NodesVerified True, RE_StreamsReconciled]]))"
| "resume_history RG_Faulted l = (l \<noteq> [] \<and> last l = RE_Failed)"
| "resume_history RG_Offline l = (l \<noteq> [] \<and> last l = RE_NodeOffline)"

interpretation resume: ordered_plan resume_accept resume_history
proof
  show "resume_history t (l @ [ev])" if "resume_history s l" "resume_accept s ev = (Ok (), t)" for s l ev t
    using that by (cases s; cases ev) (auto simp: resume_accept_def split: bool.splits)
  show "snd (resume_accept s ev) = s \<and> fst (resume_accept s ev) \<noteq> Panic"
    if "fst (resume_accept s ev) \<noteq> Ok ()" for s ev
    using that by (cases s; cases ev) (auto simp: resume_accept_def split: bool.splits)
qed

text \<open>C35. Whatever facts are reported, in whatever order, the plans of a service interval follow their
  order: the stage reached is always the one of exactly the facts accepted. In particular maintenance
  is complete only after the channel was quiesced, all nodes were idle, their stopped streams reconciled and then
  drained, and all nodes in maintenance; and recording resumes only after the nodes were verified, their
  streams reconciled when verification asked for it, admission accepted and the nodes activated.\<close>

theorem service_plans_follow_their_order:
  "maintenance_history (snd (plan_run maintenance_accept maintenance_new evs))
     (fst (plan_run maintenance_accept maintenance_new evs)) \<and>
   resume_history (snd (plan_run resume_accept resume_new revs)) (fst (plan_run resume_accept resume_new revs))"
  using maintenance.run_history [of maintenance_new "[]" evs] resume.run_history [of resume_new "[]" revs]
  by (simp add: maintenance_new_def resume_new_def)

end
