(* ===== verification/Capture_Window.thy ===== *)
theory Capture_Window
  imports Protocol_Measurement_Wire
begin

text \<open>
  The capture window ledger (\<^verbatim>\<open>sensor-host/src/capture_window.rs\<close>): the order in which records of one sensor
  stream may be appended to the capture, and when a window of them is sealed.
\<close>

section \<open>State and operations\<close>

record CaptureWindowPolicy =
  cwp_target_duration_us :: u64

datatype WindowSealReason = WSR_TargetDurationReached | WSR_TimingSegmentChanged | WSR_ExplicitFinish

datatype CaptureWindowError =
  CWN_ZeroTargetDuration | CWN_WrongHardware | CWN_WrongBootEpoch | CWN_Overlap SequenceCursor SequenceCursor
| CWN_UnrecordedRange SequenceCursor SequenceCursor | CWN_SequenceOverflow | CWN_CounterOverflow
| CWN_WindowOrdinalOverflow | CWN_NoOpenWindow | CWN_StaleAppendPlan

definition capture_window_policy_new :: "u64 \<Rightarrow> (CaptureWindowPolicy, CaptureWindowError) result" where
  "capture_window_policy_new target_duration_us =
     (if target_duration_us = 0 then Err CWN_ZeroTargetDuration
      else Ok \<lparr>cwp_target_duration_us = target_duration_us\<rparr>)"

record CaptureWindowManifest =
  cwm_hardware_id :: HardwareId
  cwm_boot_epoch :: BootEpoch
  cwm_window_ordinal :: u64
  cwm_first_cursor :: SequenceCursor
  cwm_end_exclusive :: SequenceCursor
  cwm_first_sample_cursor :: "SequenceCursor option"
  cwm_last_sample_cursor :: "SequenceCursor option"
  cwm_sample_count :: u64
  cwm_missing_sample_count :: u64
  cwm_continuity_break_count :: u64
  cwm_seal_reason :: WindowSealReason

datatype CaptureWindowRelation = CWR_Contiguous | CWR_NewBootEpoch

datatype CaptureWindowJoinError =
  CWJ_DifferentHardware | CWJ_NonConsecutiveOrdinal u64 u64 | CWJ_Overlap SequenceCursor SequenceCursor
| CWJ_UnrecordedRange SequenceCursor SequenceCursor

definition relation_to ::
  "CaptureWindowManifest \<Rightarrow> CaptureWindowManifest \<Rightarrow> (CaptureWindowRelation, CaptureWindowJoinError) result" where
  "relation_to self next_window =
     (if cwm_hardware_id self \<noteq> cwm_hardware_id next_window then Err CWJ_DifferentHardware
      else if cwm_boot_epoch self \<noteq> cwm_boot_epoch next_window then Ok CWR_NewBootEpoch
      else if cwm_window_ordinal next_window \<noteq> saturating_add (cwm_window_ordinal self) 1
      then Err (CWJ_NonConsecutiveOrdinal (cwm_window_ordinal self) (cwm_window_ordinal next_window))
      else if cwm_first_cursor next_window < cwm_end_exclusive self
      then Err (CWJ_Overlap (cwm_end_exclusive self) (cwm_first_cursor next_window))
      else if cwm_first_cursor next_window > cwm_end_exclusive self
      then Err (CWJ_UnrecordedRange (cwm_end_exclusive self) (cwm_first_cursor next_window))
      else Ok CWR_Contiguous)"

record OpenWindow =
  ow_first_cursor :: SequenceCursor
  ow_end_exclusive :: SequenceCursor
  ow_first_sample_cursor :: "SequenceCursor option"
  ow_last_sample_cursor :: "SequenceCursor option"
  ow_sample_count :: u64
  ow_missing_sample_count :: u64
  ow_continuity_break_count :: u64
  ow_timing_segment_id :: "u32 option"
  ow_first_device_time_us :: "u64 option"

definition open_window_new :: "SequenceCursor \<Rightarrow> OpenWindow" where
  "open_window_new first_cursor =
     \<lparr>ow_first_cursor = first_cursor, ow_end_exclusive = first_cursor, ow_first_sample_cursor = None,
      ow_last_sample_cursor = None, ow_sample_count = 0, ow_missing_sample_count = 0,
      ow_continuity_break_count = 0, ow_timing_segment_id = None, ow_first_device_time_us = None\<rparr>"

record CaptureWindowLedger =
  cl_policy :: CaptureWindowPolicy
  cl_hardware_id :: HardwareId
  cl_boot_epoch :: BootEpoch
  cl_next_cursor :: SequenceCursor
  cl_next_window_ordinal :: u64
  cl_open :: "OpenWindow option"

record CaptureAppendPlan =
  cap_before :: CaptureWindowLedger
  cap_after :: CaptureWindowLedger
  cap_target_window_ordinal :: u64
  cap_sealed_manifest :: "CaptureWindowManifest option"

definition ledger_new ::
  "CaptureWindowPolicy \<Rightarrow> HardwareId \<Rightarrow> BootEpoch \<Rightarrow> SequenceCursor \<Rightarrow> u64 \<Rightarrow> CaptureWindowLedger" where
  "ledger_new policy hardware_id boot_epoch recovered_cursor first_window_ordinal =
     \<lparr>cl_policy = policy, cl_hardware_id = hardware_id, cl_boot_epoch = boot_epoch,
      cl_next_cursor = recovered_cursor, cl_next_window_ordinal = first_window_ordinal, cl_open = None\<rparr>"

definition validate_stream ::
  "CaptureWindowLedger \<Rightarrow> HardwareId \<Rightarrow> BootEpoch \<Rightarrow> (unit, CaptureWindowError) result" where
  "validate_stream self hardware_id boot_epoch =
     (if hardware_id \<noteq> cl_hardware_id self then Err CWN_WrongHardware
      else if boot_epoch \<noteq> cl_boot_epoch self then Err CWN_WrongBootEpoch
      else Ok ())"

definition validate_next :: "CaptureWindowLedger \<Rightarrow> SequenceCursor \<Rightarrow> (unit, CaptureWindowError) result" where
  "validate_next self first =
     (if first < cl_next_cursor self then Err (CWN_Overlap (cl_next_cursor self) first)
      else if first > cl_next_cursor self then Err (CWN_UnrecordedRange (cl_next_cursor self) first)
      else Ok ())"

definition seal ::
  "CaptureWindowLedger \<Rightarrow> WindowSealReason \<Rightarrow>
     (CaptureWindowLedger, CaptureWindowManifest, CaptureWindowError) outcome" where
  "seal self seal_reason =
     (case cl_open self of
        None \<Rightarrow> (Err CWN_NoOpenWindow, self)
      | Some window \<Rightarrow>
          let self = self\<lparr>cl_open := None\<rparr>;
              window_ordinal = cl_next_window_ordinal self
          in try_with (ok_or (checked_add (cl_next_window_ordinal self) 1) CWN_WindowOrdinalOverflow) self
               (\<lambda>next_ordinal.
                 (Ok \<lparr>cwm_hardware_id = cl_hardware_id self, cwm_boot_epoch = cl_boot_epoch self,
                      cwm_window_ordinal = window_ordinal, cwm_first_cursor = ow_first_cursor window,
                      cwm_end_exclusive = ow_end_exclusive window,
                      cwm_first_sample_cursor = ow_first_sample_cursor window,
                      cwm_last_sample_cursor = ow_last_sample_cursor window,
                      cwm_sample_count = ow_sample_count window,
                      cwm_missing_sample_count = ow_missing_sample_count window,
                      cwm_continuity_break_count = ow_continuity_break_count window,
                      cwm_seal_reason = seal_reason\<rparr>,
                  self\<lparr>cl_next_window_ordinal := next_ordinal\<rparr>)))"

text \<open>\<open>self.seal(reason).map(Some)\<close>.\<close>

definition seal_some ::
  "CaptureWindowLedger \<Rightarrow> WindowSealReason \<Rightarrow>
     (CaptureWindowLedger, CaptureWindowManifest option, CaptureWindowError) outcome" where
  "seal_some self reason = (map_ok Some (fst (seal self reason)), snd (seal self reason))"

definition opened :: "CaptureWindowLedger \<Rightarrow> SequenceCursor \<Rightarrow> OpenWindow" where
  "opened self first = (case cl_open self of Some window \<Rightarrow> window | None \<Rightarrow> open_window_new first)"

text \<open>The local \<open>window\<close> of \<open>apply_chunk\<close> after its updates, and the decision to seal it.\<close>

definition chunk_window :: "OpenWindow \<Rightarrow> SampleChunk \<Rightarrow> SequenceCursor \<Rightarrow> SequenceCursor \<Rightarrow> u64 \<Rightarrow> OpenWindow" where
  "chunk_window window chunk end_cursor last_sample sample_count =
     (if ow_first_sample_cursor window = None
      then window\<lparr>ow_first_sample_cursor := Some (sch_first (sc_header chunk)),
                  ow_timing_segment_id := Some (te_segment_id (sc_timing chunk)),
                  ow_first_device_time_us := Some (te_first_device_time_us (sc_timing chunk))\<rparr>
      else window)
     \<lparr>ow_end_exclusive := end_cursor, ow_last_sample_cursor := Some last_sample,
      ow_sample_count := sample_count\<rparr>"

definition rotate_window ::
  "CaptureWindowLedger \<Rightarrow> bool \<Rightarrow> SampleChunk \<Rightarrow> OpenWindow \<Rightarrow>
     (CaptureWindowLedger, CaptureWindowManifest option, CaptureWindowError) outcome" where
  "rotate_window self timing_segment_changed chunk window =
     (let duration_reached =
        (\<not> timing_segment_changed \<and>
         (case ow_first_device_time_us window of None \<Rightarrow> False
          | Some first_time \<Rightarrow>
              (case checked_sub (te_last_device_time_us (sc_timing chunk)) first_time of None \<Rightarrow> False
               | Some duration \<Rightarrow> duration \<ge> cwp_target_duration_us (cl_policy self))))
      in if timing_segment_changed then seal_some self WSR_TimingSegmentChanged
         else if duration_reached then seal_some self WSR_TargetDurationReached
         else (Ok None, self))"

definition apply_chunk ::
  "CaptureWindowLedger \<Rightarrow> HardwareId \<Rightarrow> SampleChunk \<Rightarrow>
     (CaptureWindowLedger, CaptureWindowManifest option, CaptureWindowError) outcome" where
  "apply_chunk self hardware_id chunk =
     try_with (validate_stream self hardware_id (sch_boot_epoch (sc_header chunk))) self (\<lambda>_.
     let first = sch_first (sc_header chunk) in
     try_with (map_err (\<lambda>_. CWN_SequenceOverflow) (chunk_end (sc_header chunk))) self (\<lambda>end_cursor.
     try_with (validate_next self first) self (\<lambda>_.
     let window = opened self first;
         timing_segment_changed =
           (case ow_timing_segment_id window of None \<Rightarrow> False
            | Some segment \<Rightarrow> segment \<noteq> te_segment_id (sc_timing chunk)) in
     try_with (sub_unchecked end_cursor 1) self (\<lambda>last_sample.
     try_with (ok_or (checked_add (ow_sample_count window) (u64_from (sch_sample_count (sc_header chunk))))
                 CWN_CounterOverflow) self (\<lambda>sample_count.
     let window = chunk_window window chunk end_cursor last_sample sample_count;
         self = self\<lparr>cl_next_cursor := end_cursor, cl_open := Some window\<rparr>
     in rotate_window self timing_segment_changed chunk window)))))"

definition apply_gap ::
  "CaptureWindowLedger \<Rightarrow> Gap \<Rightarrow>
     (CaptureWindowLedger, CaptureWindowManifest option, CaptureWindowError) outcome" where
  "apply_gap self gap =
     try_with (validate_stream self (gap_hardware_id gap) (gap_boot_epoch gap)) self (\<lambda>_.
     let first = gap_first_missing gap in
     try_with (validate_next self first) self (\<lambda>_.
     try_with (ok_or (checked_advance first (gap_missing_count gap)) CWN_SequenceOverflow) self (\<lambda>end_cursor.
     let window = (opened self first)\<lparr>ow_end_exclusive := end_cursor\<rparr> in
     try_with (ok_or (checked_add (ow_missing_sample_count window) (gap_missing_count gap)) CWN_CounterOverflow)
       self (\<lambda>missing.
       (Ok None, self\<lparr>cl_next_cursor := end_cursor,
                      cl_open := Some (window\<lparr>ow_missing_sample_count := missing\<rparr>)\<rparr>)))))"

definition apply_continuity_break ::
  "CaptureWindowLedger \<Rightarrow> ContinuityBreak \<Rightarrow>
     (CaptureWindowLedger, CaptureWindowManifest option, CaptureWindowError) outcome" where
  "apply_continuity_break self observed =
     try_with (validate_stream self (cb_hardware_id observed) (cb_boot_epoch observed)) self (\<lambda>_.
     try_with (validate_next self (cb_at observed)) self (\<lambda>_.
     try_with (continuity_break_end observed) self (\<lambda>end_cursor.
     let window = (opened self (cb_at observed))\<lparr>ow_end_exclusive := end_cursor\<rparr> in
     try_with (ok_or (checked_add (ow_continuity_break_count window) 1) CWN_CounterOverflow) self (\<lambda>breaks.
       (Ok None, self\<lparr>cl_next_cursor := end_cursor,
                      cl_open := Some (window\<lparr>ow_continuity_break_count := breaks\<rparr>)\<rparr>)))))"

definition ledger_plan ::
  "CaptureWindowLedger \<Rightarrow> CaptureWindowLedger \<Rightarrow> CaptureWindowManifest option \<Rightarrow> CaptureAppendPlan" where
  "ledger_plan self after_ledger sealed_manifest =
     \<lparr>cap_before = self, cap_after = after_ledger, cap_target_window_ordinal = cl_next_window_ordinal self,
      cap_sealed_manifest = sealed_manifest\<rparr>"

text \<open>\<open>plan_*\<close> applies the record to a clone and drops the clone on an error.\<close>

definition planned ::
  "CaptureWindowLedger \<Rightarrow> (CaptureWindowLedger, CaptureWindowManifest option, CaptureWindowError) outcome \<Rightarrow>
     (CaptureAppendPlan, CaptureWindowError) result" where
  "planned self applied = and_then (fst applied) (\<lambda>sealed. Ok (ledger_plan self (snd applied) sealed))"

definition plan_chunk ::
  "CaptureWindowLedger \<Rightarrow> HardwareId \<Rightarrow> SampleChunk \<Rightarrow> (CaptureAppendPlan, CaptureWindowError) result" where
  "plan_chunk self hardware_id chunk = planned self (apply_chunk self hardware_id chunk)"

definition plan_gap :: "CaptureWindowLedger \<Rightarrow> Gap \<Rightarrow> (CaptureAppendPlan, CaptureWindowError) result" where
  "plan_gap self gap = planned self (apply_gap self gap)"

definition plan_continuity_break ::
  "CaptureWindowLedger \<Rightarrow> ContinuityBreak \<Rightarrow> (CaptureAppendPlan, CaptureWindowError) result" where
  "plan_continuity_break self observed = planned self (apply_continuity_break self observed)"

definition ledger_commit ::
  "CaptureWindowLedger \<Rightarrow> CaptureAppendPlan \<Rightarrow>
     (CaptureWindowLedger, CaptureWindowManifest option, CaptureWindowError) outcome" where
  "ledger_commit self plan =
     (if self \<noteq> cap_before plan then (Err CWN_StaleAppendPlan, self)
      else (Ok (cap_sealed_manifest plan), cap_after plan))"

definition finish ::
  "CaptureWindowLedger \<Rightarrow> (CaptureWindowLedger, CaptureWindowManifest option, CaptureWindowError) outcome" where
  "finish self = (if cl_open self = None then (Ok None, self) else seal_some self WSR_ExplicitFinish)"

section \<open>Windows tile the stream\<close>

datatype CaptureRecord =
  CRec_SampleChunk SampleChunk | CRec_Gap Gap | CRec_ContinuityBreak ContinuityBreak | CRec_WindowSeal

text \<open>One record appended to the ledger of a writer: planned on a clone, then committed.\<close>

definition planned_commit ::
  "CaptureWindowLedger \<Rightarrow> (CaptureAppendPlan, CaptureWindowError) result \<Rightarrow>
     (CaptureWindowLedger, CaptureWindowManifest option, CaptureWindowError) outcome" where
  "planned_commit self plan = try_with plan self (ledger_commit self)"

fun ledger_append ::
  "CaptureWindowLedger \<Rightarrow> CaptureRecord \<Rightarrow>
     (CaptureWindowLedger, CaptureWindowManifest option, CaptureWindowError) outcome" where
  "ledger_append self (CRec_SampleChunk chunk) = planned_commit self (plan_chunk self (cl_hardware_id self) chunk)"
| "ledger_append self (CRec_Gap gap) = planned_commit self (plan_gap self gap)"
| "ledger_append self (CRec_ContinuityBreak observed) = planned_commit self (plan_continuity_break self observed)"
| "ledger_append self CRec_WindowSeal =
     (case finish self of (Ok sealed, after_ledger) \<Rightarrow> (Ok sealed, after_ledger) | (r, _) \<Rightarrow> (r, self))"

definition counts_fill :: "SequenceCursor \<Rightarrow> SequenceCursor \<Rightarrow> u64 \<Rightarrow> u64 \<Rightarrow> u64 \<Rightarrow> bool" where
  "counts_fill first stop samples missing breaks \<longleftrightarrow>
     first < stop \<and> unat first + unat samples + unat missing + unat breaks = unat stop"

definition ledger_ok :: "CaptureWindowLedger \<Rightarrow> bool" where
  "ledger_ok l \<longleftrightarrow>
     (case cl_open l of
        None \<Rightarrow> True
      | Some w \<Rightarrow> ow_end_exclusive w = cl_next_cursor l \<and>
          counts_fill (ow_first_cursor w) (ow_end_exclusive w) (ow_sample_count w) (ow_missing_sample_count w)
            (ow_continuity_break_count w))"

definition manifest_ok :: "CaptureWindowManifest \<Rightarrow> bool" where
  "manifest_ok m \<longleftrightarrow> counts_fill (cwm_first_cursor m) (cwm_end_exclusive m) (cwm_sample_count m)
     (cwm_missing_sample_count m) (cwm_continuity_break_count m)"

text \<open>Where the window that is open, or would be opened next, starts.\<close>

definition window_start :: "CaptureWindowLedger \<Rightarrow> SequenceCursor" where
  "window_start l = (case cl_open l of None \<Rightarrow> cl_next_cursor l | Some w \<Rightarrow> ow_first_cursor w)"

definition same_stream :: "CaptureWindowLedger \<Rightarrow> CaptureWindowLedger \<Rightarrow> bool" where
  "same_stream l t \<longleftrightarrow> cl_hardware_id t = cl_hardware_id l \<and> cl_boot_epoch t = cl_boot_epoch l \<and>
     cl_policy t = cl_policy l"

definition extends_window :: "CaptureWindowLedger \<Rightarrow> CaptureWindowLedger \<Rightarrow> bool" where
  "extends_window l t \<longleftrightarrow> ledger_ok t \<and> same_stream l t \<and> window_start t = window_start l \<and>
     cl_next_window_ordinal t = cl_next_window_ordinal l"

definition seals_window :: "CaptureWindowLedger \<Rightarrow> CaptureWindowManifest \<Rightarrow> CaptureWindowLedger \<Rightarrow> bool" where
  "seals_window l m t \<longleftrightarrow> ledger_ok t \<and> same_stream l t \<and> manifest_ok m \<and>
     cwm_hardware_id m = cl_hardware_id l \<and> cwm_boot_epoch m = cl_boot_epoch l \<and>
     cwm_first_cursor m = window_start l \<and> cwm_end_exclusive m = window_start t \<and>
     cwm_window_ordinal m = cl_next_window_ordinal l \<and>
     unat (cl_next_window_ordinal t) = unat (cl_next_window_ordinal l) + 1"

lemma validate_checks [result_iffs]:
  "validate_stream l h e = Ok u \<longleftrightarrow> h = cl_hardware_id l \<and> e = cl_boot_epoch l"
  "validate_next l c = Ok u \<longleftrightarrow> c = cl_next_cursor l"
  by (auto simp: validate_stream_def validate_next_def)

lemma validate_no_panic [simp]: "validate_stream l h e \<noteq> Panic" "validate_next l c \<noteq> Panic"
  by (simp_all add: validate_stream_def validate_next_def)

lemma seal_some_seals:
  assumes "ledger_ok l" "seal_some l r = (Ok sealed, t)"
  obtains m where "sealed = Some m" "seals_window l m t" "cl_next_cursor t = cl_next_cursor l"
  using assms
  by (cases "cl_open l"; cases "checked_add (cl_next_window_ordinal l) 1")
    (auto simp: seal_some_def seal_def Let_def seals_window_def ledger_ok_def manifest_ok_def window_start_def
      same_stream_def checked_add_Some)

lemma planned_commit_Ok:
  "planned_commit l (planned l applied) = (Ok sealed, t) \<longleftrightarrow> applied = (Ok sealed, t)"
  by (cases applied; cases "fst applied")
    (auto simp: planned_commit_def planned_def ledger_plan_def ledger_commit_def)

lemma planned_commit_refused:
  "(\<exists>sealed. fst (planned_commit l (planned l applied)) = Ok sealed) \<or> snd (planned_commit l (planned l applied)) = l"
  by (cases applied; cases "fst applied") (auto simp: planned_commit_def planned_def ledger_plan_def ledger_commit_def)

text \<open>A record that fills the sequence up to \<open>c\<close>, added to the open window.\<close>

definition grown :: "CaptureWindowLedger \<Rightarrow> OpenWindow \<Rightarrow> SequenceCursor \<Rightarrow> CaptureWindowLedger" where
  "grown l w c = l\<lparr>cl_next_cursor := c, cl_open := Some (w\<lparr>ow_end_exclusive := c\<rparr>)\<rparr>"

lemma grown_extends:
  assumes "ledger_ok l" "ow_first_cursor w = window_start l" "cl_next_cursor l < c"
    "unat (ow_sample_count w) + unat (ow_missing_sample_count w) + unat (ow_continuity_break_count w) =
       unat (ow_sample_count (opened l (cl_next_cursor l))) + unat (ow_missing_sample_count (opened l (cl_next_cursor l))) +
       unat (ow_continuity_break_count (opened l (cl_next_cursor l))) + (unat c - unat (cl_next_cursor l))"
  shows "extends_window l (grown l w c)"
proof (cases "cl_open l")
  case None
  with assms show ?thesis
    by (auto simp: extends_window_def grown_def ledger_ok_def window_start_def same_stream_def counts_fill_def
        opened_def open_window_new_def word_less_nat_alt)
next
  case (Some x)
  with assms show ?thesis
    by (auto simp: extends_window_def grown_def ledger_ok_def window_start_def same_stream_def counts_fill_def
        opened_def word_less_nat_alt)
qed

lemma opened_first: "ow_first_cursor (opened l (cl_next_cursor l)) = window_start l"
  by (simp add: opened_def window_start_def open_window_new_def split: option.split)

lemma apply_gap_extends:
  assumes "ledger_ok l" "gap_ok g" "apply_gap l g = (Ok sealed, t)"
  shows "sealed = None \<and> extends_window l t \<and>
    cl_next_cursor l = gap_first_missing g \<and> unat (cl_next_cursor t) = unat (gap_first_missing g) + unat (gap_missing_count g)"
proof -
  let ?w = "opened l (cl_next_cursor l)"
  from assms(3) obtain c n where c: "unat c = unat (cl_next_cursor l) + unat (gap_missing_count g)"
    and n: "unat n = unat (ow_missing_sample_count ?w) + unat (gap_missing_count g)"
    and f: "gap_first_missing g = cl_next_cursor l" "sealed = None"
    and t: "t = grown l (?w\<lparr>ow_missing_sample_count := n\<rparr>) c"
    by (auto simp: apply_gap_def Let_def result_iffs checked_advance_Some checked_add_Some grown_def)
  have "cl_next_cursor l < c" using c assms(2) by (auto simp: word_less_nat_alt gap_ok_def unat_eq_iff)
  then have "extends_window l t" unfolding t using assms(1) c n by (intro grown_extends) (simp_all add: opened_first)
  with f c show ?thesis by (simp add: t grown_def)
qed

lemma apply_break_extends:
  assumes "ledger_ok l" "apply_continuity_break l b = (Ok sealed, t)"
  shows "sealed = None \<and> extends_window l t \<and>
    cl_next_cursor l = cb_at b \<and> unat (cl_next_cursor t) = unat (cb_at b) + 1"
proof -
  let ?w = "opened l (cl_next_cursor l)"
  from assms(2) obtain c n where c: "unat c = unat (cl_next_cursor l) + 1"
    and n: "unat n = unat (ow_continuity_break_count ?w) + 1"
    and f: "cb_at b = cl_next_cursor l" "sealed = None"
    and t: "t = grown l (?w\<lparr>ow_continuity_break_count := n\<rparr>) c"
    by (auto simp: apply_continuity_break_def continuity_break_end_def Let_def result_iffs checked_advance_Some
        checked_add_Some grown_def)
  have "cl_next_cursor l < c" using c by (simp add: word_less_nat_alt)
  then have "extends_window l t" unfolding t using assms(1) c n by (intro grown_extends) (simp_all add: opened_first)
  with f c show ?thesis by (simp add: t grown_def)
qed

lemma extends_seals: "extends_window l g \<Longrightarrow> seals_window g m t \<Longrightarrow> seals_window l m t"
  by (simp add: extends_window_def seals_window_def same_stream_def)

lemma chunk_window_fields [simp]:
  "ow_first_cursor (chunk_window w c e x n) = ow_first_cursor w"
  "ow_end_exclusive (chunk_window w c e x n) = e"
  "ow_sample_count (chunk_window w c e x n) = n"
  "ow_missing_sample_count (chunk_window w c e x n) = ow_missing_sample_count w"
  "ow_continuity_break_count (chunk_window w c e x n) = ow_continuity_break_count w"
  by (simp_all add: chunk_window_def)

lemma chunk_window_end: "(chunk_window w c e x n)\<lparr>ow_end_exclusive := e\<rparr> = chunk_window w c e x n"
  by (simp add: chunk_window_def)

lemma rotate_window_cases:
  "rotate_window g b c w = (Ok sealed, t) \<Longrightarrow> (sealed, t) = (None, g) \<or> (\<exists>r. seal_some g r = (Ok sealed, t))"
  by (auto simp: rotate_window_def Let_def split: if_splits)

lemma apply_chunk_cases:
  assumes "apply_chunk l h c = (Ok sealed, t)"
  obtains e x n where "chunk_end (sc_header c) = Ok e" "h = cl_hardware_id l"
    "sch_boot_epoch (sc_header c) = cl_boot_epoch l" "sch_first (sc_header c) = cl_next_cursor l"
    "unat n = unat (ow_sample_count (opened l (cl_next_cursor l))) + unat (sch_sample_count (sc_header c))"
    "(sealed, t) = (None, grown l (chunk_window (opened l (cl_next_cursor l)) c e x n) e) \<or>
     (\<exists>r. seal_some (grown l (chunk_window (opened l (cl_next_cursor l)) c e x n) e) r = (Ok sealed, t))"
proof -
  let ?w = "opened l (cl_next_cursor l)"
  from assms obtain e x n b where e: "chunk_end (sc_header c) = Ok e" "h = cl_hardware_id l"
    "sch_boot_epoch (sc_header c) = cl_boot_epoch l" "sch_first (sc_header c) = cl_next_cursor l"
    and n: "checked_add (ow_sample_count ?w) (u64_from (sch_sample_count (sc_header c))) = Some n"
    and r: "rotate_window (grown l (chunk_window ?w c e x n) e) b c (chunk_window ?w c e x n) = (Ok sealed, t)"
    by (auto simp: apply_chunk_def Let_def result_iffs grown_def chunk_window_end)
  show thesis
    by (rule that [OF e _ rotate_window_cases [OF r]]) (use n in \<open>simp add: checked_add_Some\<close>)
qed

lemma apply_chunk_advances:
  assumes "ledger_ok l" "sch_sample_count (sc_header c) \<noteq> 0" "apply_chunk l h c = (Ok sealed, t)"
  shows "(case sealed of None \<Rightarrow> extends_window l t | Some m \<Rightarrow> seals_window l m t) \<and>
    cl_next_cursor l = sch_first (sc_header c) \<and>
    unat (cl_next_cursor t) = unat (sch_first (sc_header c)) + unat (sch_sample_count (sc_header c))"
proof -
  let ?w = "opened l (cl_next_cursor l)"
  obtain e x n where e: "chunk_end (sc_header c) = Ok e" "sch_first (sc_header c) = cl_next_cursor l"
    and n: "unat n = unat (ow_sample_count ?w) + unat (sch_sample_count (sc_header c))"
    and t: "(sealed, t) = (None, grown l (chunk_window ?w c e x n) e) \<or>
      (\<exists>r. seal_some (grown l (chunk_window ?w c e x n) e) r = (Ok sealed, t))"
    using assms(3) by (rule apply_chunk_cases)
  let ?g = "grown l (chunk_window ?w c e x n) e"
  have c: "unat e = unat (cl_next_cursor l) + unat (sch_sample_count (sc_header c))"
    using e by (simp add: chunk_end_def result_iffs checked_advance_Some)
  have "cl_next_cursor l < e" using c assms(2) by (auto simp: word_less_nat_alt unat_eq_iff)
  then have g: "extends_window l ?g"
    using assms(1) c n by (intro grown_extends) (simp_all add: opened_first)
  then have gok: "ledger_ok ?g" by (simp add: extends_window_def)
  from t show ?thesis
  proof (elim disjE exE)
    assume "(sealed, t) = (None, ?g)"
    with g c e show ?thesis by (simp add: grown_def)
  next
    fix r
    assume "seal_some ?g r = (Ok sealed, t)"
    then obtain m where "sealed = Some m" "seals_window ?g m t" "cl_next_cursor t = cl_next_cursor ?g"
      by (rule seal_some_seals [OF gok])
    with extends_seals [OF g] c e show ?thesis by (simp add: grown_def)
  qed
qed

fun record_ok :: "CaptureRecord \<Rightarrow> bool" where
  "record_ok (CRec_SampleChunk c) = (sample_chunk_ok c \<and> list_all axes_ok (sc_samples c))"
| "record_ok (CRec_Gap g) = gap_ok g"
| "record_ok (CRec_ContinuityBreak b) = break_ok b"
| "record_ok CRec_WindowSeal = True"

text \<open>The sequence numbers a record accounts for: the first and how many.\<close>

fun record_span :: "CaptureRecord \<Rightarrow> (nat \<times> nat) option" where
  "record_span (CRec_SampleChunk c) = Some (unat (sch_first (sc_header c)), unat (sch_sample_count (sc_header c)))"
| "record_span (CRec_Gap g) = Some (unat (gap_first_missing g), unat (gap_missing_count g))"
| "record_span (CRec_ContinuityBreak b) = Some (unat (cb_at b), 1)"
| "record_span CRec_WindowSeal = None"

lemma apply_chunk_no_panic: "sch_sample_count (sc_header c) \<noteq> 0 \<Longrightarrow> fst (apply_chunk l h c) \<noteq> Panic"
proof -
  assume z: "sch_sample_count (sc_header c) \<noteq> 0"
  have s: "fst (seal_some g r) \<noteq> Panic" for g r
    by (auto simp: seal_some_def seal_def Let_def map_ok_eq_Panic split: option.splits try_with_split)
  have "sub_unchecked e 1 \<noteq> (Panic :: (u64, CaptureWindowError) result)"
    if "chunk_end (sc_header c) = Ok e" for e
    using that z by (auto simp: chunk_end_def result_iffs checked_advance_Some sub_unchecked_def checked_sub_None
        unat_eq_iff)
  then show ?thesis
    by (auto simp: apply_chunk_def Let_def rotate_window_def result_iffs s chunk_end_def split: try_with_split)
qed

lemma apply_no_panic:
  "fst (apply_gap l g) \<noteq> Panic" "break_ok b \<Longrightarrow> fst (apply_continuity_break l b) \<noteq> Panic"
  "fst (finish l) \<noteq> Panic"
  by (auto simp: apply_gap_def apply_continuity_break_def continuity_break_end_def finish_def seal_some_def seal_def
      Let_def result_iffs break_ok_def checked_advance_None split: try_with_split option.splits)

text \<open>What appending a record does to a well-formed ledger.\<close>

definition advances ::
  "CaptureWindowLedger \<Rightarrow> CaptureRecord \<Rightarrow> CaptureWindowManifest option \<Rightarrow> CaptureWindowLedger \<Rightarrow> bool" where
  "advances l r sealed t \<longleftrightarrow> ledger_ok t \<and> same_stream l t \<and>
     (case sealed of None \<Rightarrow> extends_window l t | Some m \<Rightarrow> seals_window l m t) \<and>
     (case record_span r of None \<Rightarrow> cl_next_cursor t = cl_next_cursor l
      | Some (f, n) \<Rightarrow> unat (cl_next_cursor l) = f \<and> unat (cl_next_cursor t) = f + n)"

lemma advancesI:
  assumes "case sealed of None \<Rightarrow> extends_window l t | Some m \<Rightarrow> seals_window l m t"
    "case record_span r of None \<Rightarrow> cl_next_cursor t = cl_next_cursor l
     | Some (f, n) \<Rightarrow> unat (cl_next_cursor l) = f \<and> unat (cl_next_cursor t) = f + n"
  shows "advances l r sealed t"
  using assms by (auto simp: advances_def extends_window_def seals_window_def split: option.splits)

definition append_result ::
  "CaptureWindowLedger \<Rightarrow> CaptureRecord \<Rightarrow>
     (CaptureWindowLedger, CaptureWindowManifest option, CaptureWindowError) outcome \<Rightarrow> bool" where
  "append_result l r a \<longleftrightarrow>
     (case fst a of Ok sealed \<Rightarrow> advances l r sealed (snd a) | Err e \<Rightarrow> snd a = l | Panic \<Rightarrow> False)"

lemma planned_append_result:
  assumes "fst applied \<noteq> Panic" "\<And>sealed t. applied = (Ok sealed, t) \<Longrightarrow> advances l r sealed t"
  shows "append_result l r (planned_commit l (planned l applied))"
  using assms
  by (cases applied; cases "fst applied")
    (auto simp: append_result_def planned_commit_def planned_def ledger_plan_def ledger_commit_def)

lemma finish_append_result:
  assumes "ledger_ok l"
  shows "append_result l CRec_WindowSeal (ledger_append l CRec_WindowSeal)"
proof (cases "fst (finish l)")
  case (Ok sealed)
  then obtain t where f: "finish l = (Ok sealed, t)" by (metis prod.collapse)
  have "advances l CRec_WindowSeal sealed t"
  proof (cases "cl_open l")
    case None
    with f have "sealed = None" "t = l" by (simp_all add: finish_def)
    with assms show ?thesis by (intro advancesI) (simp_all add: extends_window_def same_stream_def)
  next
    case (Some w)
    with f have "seal_some l WSR_ExplicitFinish = (Ok sealed, t)" by (simp add: finish_def)
    then obtain m where "sealed = Some m" "seals_window l m t" "cl_next_cursor t = cl_next_cursor l"
      by (rule seal_some_seals [OF assms])
    then show ?thesis by (intro advancesI) simp_all
  qed
  with f show ?thesis by (simp add: append_result_def)
next
  case (Err e)
  then show ?thesis by (cases "finish l") (simp add: append_result_def)
next
  case Panic
  then show ?thesis by (simp add: apply_no_panic)
qed

lemma ledger_append_result:
  assumes "ledger_ok l" "record_ok r"
  shows "append_result l r (ledger_append l r)"
proof (cases r)
  case (CRec_SampleChunk c)
  then have z: "sch_sample_count (sc_header c) \<noteq> 0" using assms(2) by (simp add: sample_chunk_ok_def chunk_header_ok_def)
  show ?thesis
    using apply_chunk_no_panic [OF z] apply_chunk_advances [OF assms(1) z]
    by (auto simp: CRec_SampleChunk plan_chunk_def intro!: planned_append_result advancesI)
next
  case (CRec_Gap g)
  have "advances l r sealed t" if "apply_gap l g = (Ok sealed, t)" for sealed t
    using apply_gap_extends [OF assms(1) _ that] assms(2) by (intro advancesI) (simp_all add: CRec_Gap)
  with apply_no_panic(1) [of l g] show ?thesis by (simp add: CRec_Gap plan_gap_def planned_append_result)
next
  case (CRec_ContinuityBreak b)
  have "advances l r sealed t" if "apply_continuity_break l b = (Ok sealed, t)" for sealed t
    using apply_break_extends [OF assms(1) that] by (intro advancesI) (simp_all add: CRec_ContinuityBreak)
  with apply_no_panic(2) [of b l] assms(2) show ?thesis
    by (simp add: CRec_ContinuityBreak plan_continuity_break_def planned_append_result)
next
  case CRec_WindowSeal
  then show ?thesis using finish_append_result [OF assms(1)] by simp
qed

fun ledger_log :: "CaptureWindowLedger \<Rightarrow> CaptureRecord list \<Rightarrow> CaptureWindowManifest list \<times> CaptureWindowLedger" where
  "ledger_log l [] = ([], l)"
| "ledger_log l (r # rs) =
     (let (res, t) = ledger_append l r; (ms, u) = ledger_log t rs
      in (case res of Ok (Some m) \<Rightarrow> m # ms | _ \<Rightarrow> ms, u))"

text \<open>The end and the next ordinal of a list of windows of one stream that follow each other from a cursor and an
  ordinal on, each filled by its own counts.\<close>

fun windows_end :: "nat \<Rightarrow> nat \<Rightarrow> CaptureWindowManifest list \<Rightarrow> (nat \<times> nat) option" where
  "windows_end c k [] = Some (c, k)"
| "windows_end c k (m # ms) =
     (if manifest_ok m \<and> unat (cwm_first_cursor m) = c \<and> unat (cwm_window_ordinal m) = k
      then windows_end (unat (cwm_end_exclusive m)) (k + 1) ms else None)"

lemma ledger_log_tiles:
  assumes "ledger_ok l" "list_all record_ok rs"
  shows "ledger_ok (snd (ledger_log l rs)) \<and> same_stream l (snd (ledger_log l rs)) \<and>
    list_all (\<lambda>m. cwm_hardware_id m = cl_hardware_id l \<and> cwm_boot_epoch m = cl_boot_epoch l) (fst (ledger_log l rs)) \<and>
    windows_end (unat (window_start l)) (unat (cl_next_window_ordinal l)) (fst (ledger_log l rs)) =
      Some (unat (window_start (snd (ledger_log l rs))), unat (cl_next_window_ordinal (snd (ledger_log l rs))))"
  using assms
proof (induction rs arbitrary: l)
  case Nil
  then show ?case by (simp add: same_stream_def)
next
  case (Cons r rs)
  obtain res t where a: "ledger_append l r = (res, t)" by (cases "ledger_append l r")
  note ar = ledger_append_result [OF Cons.prems(1), of r, unfolded a append_result_def]
  show ?case
  proof (cases res)
    case (Ok sealed)
    with ar Cons.prems(2) have adv: "advances l r sealed t" by simp
    then have "ledger_ok t" "same_stream l t" by (simp_all add: advances_def)
    with Cons.IH [of t] Cons.prems(2) adv Ok show ?thesis
      by (cases "ledger_log t rs"; cases sealed)
        (auto simp: a advances_def extends_window_def seals_window_def same_stream_def)
  next
    case (Err e)
    with ar Cons.prems Cons.IH [of t] show ?thesis by (cases "ledger_log t rs") (auto simp: a)
  next
    case Panic
    with ar Cons.prems(2) show ?thesis by simp
  qed
qed

lemma windows_contiguous:
  assumes "windows_end c k ms = Some e"
    "list_all (\<lambda>m. cwm_hardware_id m = h \<and> cwm_boot_epoch m = b) ms"
  shows "successively (\<lambda>m n. relation_to m n = Ok CWR_Contiguous) ms"
  using assms
proof (induction ms arbitrary: c k rule: induct_list012)
  case (3 m n ms)
  from 3(3,4) have n: "unat (cwm_window_ordinal n) = unat (cwm_window_ordinal m) + 1"
    "cwm_first_cursor n = cwm_end_exclusive m" "cwm_hardware_id n = cwm_hardware_id m" "cwm_boot_epoch n = cwm_boot_epoch m"
    by (auto split: if_splits simp: unat_eq_iff)
  then have "saturating_add (cwm_window_ordinal m) 1 = cwm_window_ordinal n"
    using checked_add_Some [of "cwm_window_ordinal m" 1 "cwm_window_ordinal n"] by (simp add: saturating_add_def)
  with n have "relation_to m n = Ok CWR_Contiguous" by (simp add: relation_to_def)
  with 3 show ?case by (auto split: if_splits)
qed simp_all

text \<open>C8. Capture windows tile the stream. Whatever records a writer appends, in whatever order, the
  windows it seals are numbered consecutively and each starts exactly where the one before it ended (the relation
  test of the archive finds them contiguous), the open window starts where the last sealed one ended, and the samples,
  missing samples and breaks a window counts fill its range exactly.\<close>

theorem capture_windows_tile_the_stream:
  assumes "list_all record_ok rs" and l_def: "l = ledger_new policy hw epoch cursor ordinal"
  shows "windows_end (unat cursor) (unat ordinal) (fst (ledger_log l rs)) =
      Some (unat (window_start (snd (ledger_log l rs))), unat (cl_next_window_ordinal (snd (ledger_log l rs)))) \<and>
    successively (\<lambda>m n. relation_to m n = Ok CWR_Contiguous) (fst (ledger_log l rs)) \<and>
    ledger_ok (snd (ledger_log l rs))"
proof -
  have "ledger_ok l" "window_start l = cursor" "cl_next_window_ordinal l = ordinal"
    by (simp_all add: l_def ledger_new_def ledger_ok_def window_start_def)
  with ledger_log_tiles [OF _ assms(1), of l] show ?thesis using windows_contiguous by auto
qed

definition example_ledger :: CaptureWindowLedger where
  "example_ledger = ledger_new \<lparr>cwp_target_duration_us = 10\<rparr> (HardwareId 1 2 3 4 5 6 7 8) 5 100 3"

definition example_missing :: CaptureRecord where
  "example_missing = CRec_Gap \<lparr>gap_hardware_id = HardwareId 1 2 3 4 5 6 7 8, gap_boot_epoch = 5,
     gap_first_missing = 100, gap_missing_count = 20, gap_reason = JournalOverflow\<rparr>"

theorem capture_windows_tile_the_stream_witness:
  "windows_end 100 3 (fst (ledger_log example_ledger [example_missing, CRec_WindowSeal])) = Some (120, 4)"
proof -
  have "list_all record_ok [example_missing, CRec_WindowSeal]"
    by (simp add: example_missing_def gap_ok_def)
  note tiles = capture_windows_tile_the_stream [OF this example_ledger_def]
  have "window_start (snd (ledger_log example_ledger [example_missing, CRec_WindowSeal])) = 120"
    "cl_next_window_ordinal (snd (ledger_log example_ledger [example_missing, CRec_WindowSeal])) = 4"
    by (simp_all add: example_ledger_def example_missing_def ledger_new_def plan_gap_def planned_def apply_gap_def
        planned_commit_def ledger_commit_def ledger_plan_def validate_stream_def validate_next_def checked_advance_def
        checked_add_def opened_def open_window_new_def finish_def seal_some_def seal_def window_start_def)
  with tiles show ?thesis by simp
qed

end
