(* ===== verification/Capture_Wal.thy ===== *)
theory Capture_Wal
  imports Capture_Window Framing_Crc
begin

text \<open>
  The capture write-ahead log (\<^verbatim>\<open>sensor-host/src/capture_wal.rs\<close>): the bytes of its records and file header, and the
  recovery of a file after a crash. A file is its content; reads and the truncation of a torn tail succeed. Offsets are
  natural numbers below \<open>2 ^ 64\<close>.
\<close>

section \<open>Records\<close>

definition FILE_MAGIC :: bytes where "FILE_MAGIC = [83, 83, 67, 65, 80, 87, 65, 76]"
definition FILE_VERSION :: u16 where "FILE_VERSION = 1"
definition FILE_HEADER_BYTES :: nat where "FILE_HEADER_BYTES = 64"
definition FILE_HEADER_CRC_OFFSET :: nat where "FILE_HEADER_CRC_OFFSET = FILE_HEADER_BYTES - 4"
definition RECORD_VERSION :: u8 where "RECORD_VERSION = 1"
definition RECORD_PREFIX_BYTES :: nat where "RECORD_PREFIX_BYTES = 4"
definition RECORD_HEADER_BYTES :: nat where "RECORD_HEADER_BYTES = 4"
definition RECORD_CRC_BYTES :: nat where "RECORD_CRC_BYTES = 4"
definition MIN_RECORD_BODY_BYTES :: nat where "MIN_RECORD_BODY_BYTES = RECORD_HEADER_BYTES + RECORD_CRC_BYTES"
definition MAX_RECORD_BODY_BYTES :: nat where "MAX_RECORD_BODY_BYTES = 1024 * 1024"
definition CHUNK_FIXED_PAYLOAD_BYTES :: nat where "CHUNK_FIXED_PAYLOAD_BYTES = 56"
definition GAP_PAYLOAD_BYTES :: nat where "GAP_PAYLOAD_BYTES = 17"
definition BREAK_PAYLOAD_BYTES :: nat where "BREAK_PAYLOAD_BYTES = 9"

lemmas wal_sizes = FILE_HEADER_BYTES_def FILE_HEADER_CRC_OFFSET_def RECORD_PREFIX_BYTES_def RECORD_HEADER_BYTES_def
  RECORD_CRC_BYTES_def MIN_RECORD_BODY_BYTES_def MAX_RECORD_BODY_BYTES_def CHUNK_FIXED_PAYLOAD_BYTES_def
  GAP_PAYLOAD_BYTES_def BREAK_PAYLOAD_BYTES_def

datatype CaptureWalError =
  WAL_Io | WAL_Window CaptureWindowError | WAL_ChunkContract MeasurementWireError | WAL_ZeroBootEpoch
| WAL_TruncatedFileHeader | WAL_InvalidFileMagic | WAL_UnsupportedFileVersion u16 | WAL_InvalidFileHeaderLength
| WAL_FileHeaderChecksumMismatch | WAL_HardwareMismatch | WAL_BootEpochMismatch | WAL_StartingCursorMismatch
| WAL_WindowOrdinalMismatch | WAL_WindowPolicyMismatch | WAL_IncompleteRecord nat
| WAL_InvalidRecordLength nat nat | WAL_RecordChecksumMismatch nat | WAL_UnknownRecordKind u8
| WAL_UnsupportedRecordVersion u8 | WAL_NonZeroReservedField | WAL_InvalidRecordPayload | WAL_LengthOverflow
| WAL_CounterOverflow | WAL_Poisoned | WAL_EmptyBatch | WAL_StaleBatch | WAL_BatchCrossesWindowBoundary

datatype RecordKind = RK_SampleChunk | RK_Gap | RK_ContinuityBreak | RK_WindowSeal

fun record_kind_code :: "RecordKind \<Rightarrow> u8" where
  "record_kind_code RK_SampleChunk = 1"
| "record_kind_code RK_Gap = 2"
| "record_kind_code RK_ContinuityBreak = 3"
| "record_kind_code RK_WindowSeal = 4"

definition record_kind_try_from :: "u8 \<Rightarrow> (RecordKind, CaptureWalError) result" where
  "record_kind_try_from v =
     (if v = 1 then Ok RK_SampleChunk else if v = 2 then Ok RK_Gap else if v = 3 then Ok RK_ContinuityBreak
      else if v = 4 then Ok RK_WindowSeal else Err (WAL_UnknownRecordKind v))"

interpretation record_kind: wire_code record_kind_code record_kind_try_from
proof
  show "record_kind_try_from (record_kind_code k) = Ok k" for k
    by (cases k) (simp_all add: record_kind_try_from_def)
qed (auto simp: record_kind_try_from_def split: if_splits)

fun encode_gap_reason :: "GapReason \<Rightarrow> u8" where
  "encode_gap_reason UnknownDiscontinuity = 0"
| "encode_gap_reason SourceLoss = 1"
| "encode_gap_reason IngressOverflow = 2"
| "encode_gap_reason JournalOverflow = 3"

definition decode_gap_reason :: "u8 \<Rightarrow> (GapReason, CaptureWalError) result" where
  "decode_gap_reason v =
     (if v = 0 then Ok UnknownDiscontinuity else if v = 1 then Ok SourceLoss else if v = 2 then Ok IngressOverflow
      else if v = 3 then Ok JournalOverflow else Err WAL_InvalidRecordPayload)"

interpretation wal_gap_reason: wire_code encode_gap_reason decode_gap_reason
proof
  show "decode_gap_reason (encode_gap_reason k) = Ok k" for k
    by (cases k) (simp_all add: decode_gap_reason_def)
qed (auto simp: decode_gap_reason_def split: if_splits)

fun encode_break_reason :: "ContinuityBreakReason \<Rightarrow> u8" where
  "encode_break_reason BreakUnknown = 0"
| "encode_break_reason SensorOverflow = 1"
| "encode_break_reason SensorReadUncertain = 2"
| "encode_break_reason InvalidTiming = 3"
| "encode_break_reason ProcessingReset = 4"

definition decode_break_reason :: "u8 \<Rightarrow> (ContinuityBreakReason, CaptureWalError) result" where
  "decode_break_reason v =
     (if v = 0 then Ok BreakUnknown else if v = 1 then Ok SensorOverflow else if v = 2 then Ok SensorReadUncertain
      else if v = 3 then Ok InvalidTiming else if v = 4 then Ok ProcessingReset
      else Err WAL_InvalidRecordPayload)"

interpretation wal_break_reason: wire_code encode_break_reason decode_break_reason
proof
  show "decode_break_reason (encode_break_reason k) = Ok k" for k
    by (cases k) (simp_all add: decode_break_reason_def)
qed (auto simp: decode_break_reason_def split: if_splits)

definition wal_encode_i24 :: "SampleAxis \<Rightarrow> bytes" where
  "wal_encode_i24 value = take 3 (to_le_bytes 4 value)"

definition wal_decode_i24 :: "bytes \<Rightarrow> (SampleAxis, CaptureWalError) result" where
  "wal_decode_i24 bs =
     and_then (index_at bs 2) (\<lambda>b2.
     let extension = (if b2 AND 0x80 = 0 then 0 else 0xff) in
     and_then (index_at bs 0) (\<lambda>b0. and_then (index_at bs 1) (\<lambda>b1.
       map_err (\<lambda>_. WAL_InvalidRecordPayload) (sample_axis_new (from_le_bytes [b0, b1, b2, extension])))))"

text \<open>The length is cast with \<open>as u32\<close>.\<close>

definition wrap_record :: "RecordKind \<Rightarrow> bytes \<Rightarrow> bytes" where
  "wrap_record kind payload =
     (let body_len = RECORD_HEADER_BYTES + length payload + RECORD_CRC_BYTES;
          record_bytes = to_le_bytes 4 (of_nat body_len :: u32) @ [record_kind_code kind] @ [RECORD_VERSION] @ [0, 0] @ payload
      in record_bytes @ to_le_bytes 4 (crc32c (drop RECORD_PREFIX_BYTES record_bytes)))"

definition chunk_payload :: "SampleChunk \<Rightarrow> bytes" where
  "chunk_payload chunk =
     to_le_bytes 8 (sch_retained_from (sc_header chunk)) @ to_le_bytes 8 (sch_produced (sc_header chunk)) @
     to_le_bytes 8 (sch_first (sc_header chunk)) @ to_le_bytes 2 (sch_sample_count (sc_header chunk)) @
     to_le_bytes 4 (sc_config_revision chunk) @ to_le_bytes 4 (te_segment_id (sc_timing chunk)) @
     to_le_bytes 8 (te_first_device_time_us (sc_timing chunk)) @
     to_le_bytes 8 (te_last_device_time_us (sc_timing chunk)) @
     to_le_bytes 4 (te_max_fit_residual_us (sc_timing chunk)) @ to_le_bytes 2 (te_quality_flags (sc_timing chunk)) @
     concat (map (\<lambda>sample. wal_encode_i24 (sa_x sample) @ wal_encode_i24 (sa_y sample) @ wal_encode_i24 (sa_z sample))
       (sc_samples chunk))"

definition encode_chunk_record :: "SampleChunk \<Rightarrow> (bytes, CaptureWalError) result" where
  "encode_chunk_record chunk =
     and_then (map_err WAL_ChunkContract (sample_chunk_validate chunk)) (\<lambda>_.
       Ok (wrap_record RK_SampleChunk (chunk_payload chunk)))"

definition gap_payload :: "Gap \<Rightarrow> bytes" where
  "gap_payload gap = to_le_bytes 8 (gap_first_missing gap) @ to_le_bytes 8 (gap_missing_count gap) @
     [encode_gap_reason (gap_reason gap)]"

definition encode_gap_record :: "Gap \<Rightarrow> bytes" where
  "encode_gap_record gap = wrap_record RK_Gap (gap_payload gap)"

definition break_payload :: "ContinuityBreak \<Rightarrow> bytes" where
  "break_payload observed = to_le_bytes 8 (cb_at observed) @ [encode_break_reason (cb_reason observed)]"

definition encode_break_record :: "ContinuityBreak \<Rightarrow> bytes" where
  "encode_break_record observed = wrap_record RK_ContinuityBreak (break_payload observed)"

fun wal_decode_samples :: "bytes \<Rightarrow> nat \<Rightarrow> nat \<Rightarrow> (SampleAxes list, CaptureWalError) result" where
  "wal_decode_samples payload index 0 = Ok []"
| "wal_decode_samples payload index (Suc remaining) =
     (let offset = CHUNK_FIXED_PAYLOAD_BYTES + index * 9 in
      and_then (slice_at payload offset (offset + 3)) (\<lambda>sx. and_then (wal_decode_i24 sx) (\<lambda>x.
      and_then (slice_at payload (offset + 3) (offset + 6)) (\<lambda>sy. and_then (wal_decode_i24 sy) (\<lambda>y.
      and_then (slice_at payload (offset + 6) (offset + 9)) (\<lambda>sz. and_then (wal_decode_i24 sz) (\<lambda>z.
      and_then (wal_decode_samples payload (index + 1) remaining) (\<lambda>samples.
        Ok (\<lparr>sa_x = x, sa_y = y, sa_z = z\<rparr> # samples)))))))))"

definition wal_decode_chunk :: "bytes \<Rightarrow> BootEpoch \<Rightarrow> (SampleChunk, CaptureWalError) result" where
  "wal_decode_chunk payload boot_epoch =
     (if length payload < CHUNK_FIXED_PAYLOAD_BYTES then Err WAL_InvalidRecordPayload
      else and_then (read_u16 payload 24) (\<lambda>count.
        and_then (ok_or (usize_checked_add CHUNK_FIXED_PAYLOAD_BYTES (unat count * 9)) WAL_LengthOverflow) (\<lambda>expected.
        if length payload \<noteq> expected then Err WAL_InvalidRecordPayload
        else
        and_then (wal_decode_samples payload 0 (unat count)) (\<lambda>samples.
        and_then (read_u64 payload 0) (\<lambda>retained_from.
        and_then (read_u64 payload 8) (\<lambda>produced.
        and_then (read_u64 payload 16) (\<lambda>first.
        and_then (read_u32 payload 26) (\<lambda>config_revision.
        and_then (read_u32 payload 30) (\<lambda>segment_id.
        and_then (read_u64 payload 34) (\<lambda>first_device_time_us.
        and_then (read_u64 payload 42) (\<lambda>last_device_time_us.
        and_then (read_u32 payload 50) (\<lambda>max_fit_residual_us.
        and_then (read_u16 payload 54) (\<lambda>quality_flags.
        let chunk = \<lparr>sc_header = \<lparr>sch_boot_epoch = boot_epoch, sch_retained_from = retained_from,
                        sch_produced = produced, sch_first = first, sch_sample_count = count\<rparr>,
                     sc_config_revision = config_revision,
                     sc_timing = \<lparr>te_segment_id = segment_id, te_first_device_time_us = first_device_time_us,
                        te_last_device_time_us = last_device_time_us,
                        te_max_fit_residual_us = max_fit_residual_us, te_quality_flags = quality_flags\<rparr>,
                     sc_samples = samples\<rparr>
        in and_then (map_err WAL_ChunkContract (sample_chunk_validate chunk)) (\<lambda>_. Ok chunk))))))))))))))"

definition wal_decode_gap :: "bytes \<Rightarrow> HardwareId \<Rightarrow> BootEpoch \<Rightarrow> (Gap, CaptureWalError) result" where
  "wal_decode_gap payload hardware_id boot_epoch =
     (if length payload \<noteq> GAP_PAYLOAD_BYTES then Err WAL_InvalidRecordPayload
      else and_then (read_u64 payload 0) (\<lambda>first_missing.
           and_then (read_u64 payload 8) (\<lambda>missing_count.
           and_then (index_at payload 16) (\<lambda>code. and_then (decode_gap_reason code) (\<lambda>reason.
             map_err (\<lambda>_. WAL_InvalidRecordPayload)
               (gap_new hardware_id boot_epoch first_missing missing_count reason))))))"

definition wal_decode_break :: "bytes \<Rightarrow> HardwareId \<Rightarrow> BootEpoch \<Rightarrow> (ContinuityBreak, CaptureWalError) result" where
  "wal_decode_break payload hardware_id boot_epoch =
     (if length payload \<noteq> BREAK_PAYLOAD_BYTES then Err WAL_InvalidRecordPayload
      else and_then (read_u64 payload 0) (\<lambda>at_cursor.
           and_then (index_at payload 8) (\<lambda>code. and_then (decode_break_reason code) (\<lambda>reason.
             map_err (\<lambda>_. WAL_InvalidRecordPayload)
               (continuity_break_new hardware_id boot_epoch at_cursor reason)))))"

definition decode_record :: "bytes \<Rightarrow> HardwareId \<Rightarrow> BootEpoch \<Rightarrow> (CaptureRecord, CaptureWalError) result" where
  "decode_record data hardware_id boot_epoch =
     (if length data < RECORD_HEADER_BYTES then Err WAL_InvalidRecordPayload
      else and_then (index_at data 0) (\<lambda>d0. and_then (record_kind_try_from d0) (\<lambda>kind.
           and_then (index_at data 1) (\<lambda>version.
           if version \<noteq> RECORD_VERSION then Err (WAL_UnsupportedRecordVersion version)
           else and_then (index_at data 2) (\<lambda>d2. and_then (index_at data 3) (\<lambda>d3.
           if d2 \<noteq> 0 \<or> d3 \<noteq> 0 then Err WAL_NonZeroReservedField
           else and_then (slice_at data RECORD_HEADER_BYTES (length data)) (\<lambda>payload.
             case kind of
               RK_SampleChunk \<Rightarrow> map_ok CRec_SampleChunk (wal_decode_chunk payload boot_epoch)
             | RK_Gap \<Rightarrow> map_ok CRec_Gap (wal_decode_gap payload hardware_id boot_epoch)
             | RK_ContinuityBreak \<Rightarrow> map_ok CRec_ContinuityBreak (wal_decode_break payload hardware_id boot_epoch)
             | RK_WindowSeal \<Rightarrow> if payload \<noteq> [] then Err WAL_InvalidRecordPayload else Ok CRec_WindowSeal)))))))"

section \<open>Records round-trip\<close>

fun record_kind_of :: "CaptureRecord \<Rightarrow> RecordKind" where
  "record_kind_of (CRec_SampleChunk c) = RK_SampleChunk"
| "record_kind_of (CRec_Gap g) = RK_Gap"
| "record_kind_of (CRec_ContinuityBreak b) = RK_ContinuityBreak"
| "record_kind_of CRec_WindowSeal = RK_WindowSeal"

fun payload_bytes :: "CaptureRecord \<Rightarrow> bytes" where
  "payload_bytes (CRec_SampleChunk c) = chunk_payload c"
| "payload_bytes (CRec_Gap g) = gap_payload g"
| "payload_bytes (CRec_ContinuityBreak b) = break_payload b"
| "payload_bytes CRec_WindowSeal = []"

definition data_bytes :: "CaptureRecord \<Rightarrow> bytes" where
  "data_bytes r = [record_kind_code (record_kind_of r), RECORD_VERSION, 0, 0] @ payload_bytes r"

definition record_bytes :: "CaptureRecord \<Rightarrow> bytes" where
  "record_bytes r = wrap_record (record_kind_of r) (payload_bytes r)"

fun in_stream :: "HardwareId \<Rightarrow> BootEpoch \<Rightarrow> CaptureRecord \<Rightarrow> bool" where
  "in_stream h e (CRec_SampleChunk c) = (sch_boot_epoch (sc_header c) = e)"
| "in_stream h e (CRec_Gap g) = (gap_hardware_id g = h \<and> gap_boot_epoch g = e)"
| "in_stream h e (CRec_ContinuityBreak b) = (cb_hardware_id b = h \<and> cb_boot_epoch b = e)"
| "in_stream h e CRec_WindowSeal = True"

lemma record_bytes_eq:
  "record_bytes r = to_le_bytes 4 (of_nat (length (data_bytes r) + 4) :: u32) @ data_bytes r @
     to_le_bytes 4 (crc32c (data_bytes r))"
  by (simp add: record_bytes_def wrap_record_def data_bytes_def wal_sizes Let_def)

lemma wal_encode_i24_eq: "wal_encode_i24 = encode_i24"
  by (simp add: fun_eq_iff wal_encode_i24_def encode_i24_def)

lemma wal_decode_i24_eq: "wal_decode_i24 bs = map_err (\<lambda>_. WAL_InvalidRecordPayload) (decode_i24 bs)"
proof (cases "length bs < 3")
  case True
  then show ?thesis by (auto simp: wal_decode_i24_def decode_i24_def index_at_def)
next
  case False
  then have "0 < length bs" "1 < length bs" "2 < length bs" by auto
  then show ?thesis
    by (auto simp: wal_decode_i24_def decode_i24_def sample_axis_new_def Let_def simp del: from_le_bytes.simps)
qed

lemma wal_decode_encode_i24 [simp]: "axis_ok a \<Longrightarrow> wal_decode_i24 (encode_i24 a) = Ok a"
  by (simp add: wal_decode_i24_eq)

lemma chunk_payload_samples:
  "chunk_payload c = to_le_bytes 8 (sch_retained_from (sc_header c)) @ to_le_bytes 8 (sch_produced (sc_header c)) @
     to_le_bytes 8 (sch_first (sc_header c)) @ to_le_bytes 2 (sch_sample_count (sc_header c)) @
     to_le_bytes 4 (sc_config_revision c) @ to_le_bytes 4 (te_segment_id (sc_timing c)) @
     to_le_bytes 8 (te_first_device_time_us (sc_timing c)) @ to_le_bytes 8 (te_last_device_time_us (sc_timing c)) @
     to_le_bytes 4 (te_max_fit_residual_us (sc_timing c)) @ to_le_bytes 2 (te_quality_flags (sc_timing c)) @
     concat (map sample_bytes (sc_samples c))"
proof -
  have "(\<lambda>sample. wal_encode_i24 (sa_x sample) @ wal_encode_i24 (sa_y sample) @ wal_encode_i24 (sa_z sample)) = sample_bytes"
    by (simp add: fun_eq_iff wal_encode_i24_eq sample_bytes_def)
  then show ?thesis by (simp add: chunk_payload_def)
qed

lemma length_chunk_payload: "length (chunk_payload c) = 56 + length (sc_samples c) * 9"
  by (simp add: chunk_payload_samples)

lemma wal_decode_samples_ok:
  assumes "length pre = 56 + i * 9" "list_all axes_ok ss"
  shows "wal_decode_samples (pre @ concat (map sample_bytes ss)) i (length ss) = Ok ss"
  using assms
proof (induction ss arbitrary: pre i)
  case Nil
  then show ?case by simp
next
  case (Cons x ss)
  have ih: "wal_decode_samples ((pre @ sample_bytes x) @ concat (map sample_bytes ss)) (i + 1) (length ss) = Ok ss"
    using Cons.prems by (intro Cons.IH) simp_all
  have x: "axis_ok (sa_x x)" "axis_ok (sa_y x)" "axis_ok (sa_z x)" using Cons.prems(2) by (simp_all add: axes_ok_def)
  show ?case
    using ih x Cons.prems(1)
    by (simp add: Let_def wal_sizes sample_bytes_def [of x] slices)
qed

lemma wal_decode_chunk_payload:
  assumes "sample_chunk_ok c" "list_all axes_ok (sc_samples c)"
  shows "wal_decode_chunk (chunk_payload c) (sch_boot_epoch (sc_header c)) = Ok c"
proof -
  have n: "length (sc_samples c) = unat (sch_sample_count (sc_header c))" using assms(1) by (simp add: sample_chunk_ok_def)
  define pre where "pre = to_le_bytes 8 (sch_retained_from (sc_header c)) @ to_le_bytes 8 (sch_produced (sc_header c)) @
     to_le_bytes 8 (sch_first (sc_header c)) @ to_le_bytes 2 (sch_sample_count (sc_header c)) @
     to_le_bytes 4 (sc_config_revision c) @ to_le_bytes 4 (te_segment_id (sc_timing c)) @
     to_le_bytes 8 (te_first_device_time_us (sc_timing c)) @ to_le_bytes 8 (te_last_device_time_us (sc_timing c)) @
     to_le_bytes 4 (te_max_fit_residual_us (sc_timing c)) @ to_le_bytes 2 (te_quality_flags (sc_timing c))"
  have p: "chunk_payload c = pre @ concat (map sample_bytes (sc_samples c))" by (simp add: chunk_payload_samples pre_def)
  have l: "length pre = 56" by (simp add: pre_def)
  have s: "wal_decode_samples (chunk_payload c) 0 (unat (sch_sample_count (sc_header c))) = Ok (sc_samples c)"
    using wal_decode_samples_ok [of pre 0, OF _ assms(2)] l n p by simp
  have b: "unat (sch_sample_count (sc_header c)) < 65536" by (rule unat_u16_bound)
  have fields: "from_le_bytes (sub 24 26 pre) = sch_sample_count (sc_header c)"
    "from_le_bytes (sub 0 8 pre) = sch_retained_from (sc_header c)"
    "from_le_bytes (sub 8 16 pre) = sch_produced (sc_header c)"
    "from_le_bytes (sub 16 24 pre) = sch_first (sc_header c)"
    "from_le_bytes (sub 26 30 pre) = sc_config_revision c"
    "from_le_bytes (sub 30 34 pre) = te_segment_id (sc_timing c)"
    "from_le_bytes (sub 34 42 pre) = te_first_device_time_us (sc_timing c)"
    "from_le_bytes (sub 42 50 pre) = te_last_device_time_us (sc_timing c)"
    "from_le_bytes (sub 50 54 pre) = te_max_fit_residual_us (sc_timing c)"
    "from_le_bytes (sub 54 56 pre) = te_quality_flags (sc_timing c)"
    by (simp_all add: pre_def slices)
  have pre: "sub a k (chunk_payload c) = sub a k pre" if "k \<le> 56" for a k
    using that by (simp add: p sub_append l slices min_def)
  have len: "length (chunk_payload c) = 56 + unat (sch_sample_count (sc_header c)) * 9"
    using n by (simp add: length_chunk_payload)
  have eta: "\<lparr>sc_header = \<lparr>sch_boot_epoch = sch_boot_epoch (sc_header c),
        sch_retained_from = sch_retained_from (sc_header c), sch_produced = sch_produced (sc_header c),
        sch_first = sch_first (sc_header c), sch_sample_count = sch_sample_count (sc_header c)\<rparr>,
      sc_config_revision = sc_config_revision c,
      sc_timing = \<lparr>te_segment_id = te_segment_id (sc_timing c),
        te_first_device_time_us = te_first_device_time_us (sc_timing c),
        te_last_device_time_us = te_last_device_time_us (sc_timing c),
        te_max_fit_residual_us = te_max_fit_residual_us (sc_timing c),
        te_quality_flags = te_quality_flags (sc_timing c)\<rparr>, sc_samples = sc_samples c\<rparr> = c"
    by simp
  have "sample_chunk_validate c = Ok ()" using assms(1) by (simp add: sample_chunk_validate_Ok)
  then show ?thesis
    using b
    by (simp add: wal_decode_chunk_def wal_sizes len read_defs pre fields s usize_checked_add_def Let_def eta)
qed

lemma decode_record_data:
  assumes "record_ok r" "in_stream h e r"
  shows "decode_record (data_bytes r) h e = Ok r"
proof (cases r)
  case (CRec_SampleChunk c)
  with assms show ?thesis
    using wal_decode_chunk_payload [of c]
    by (simp add: decode_record_def data_bytes_def wal_sizes record_kind_try_from_def sub_def)
next
  case (CRec_Gap g)
  with assms have "gap_new h e (gap_first_missing g) (gap_missing_count g) (gap_reason g) = Ok g"
    by (auto simp: gap_new_Ok)
  with CRec_Gap assms show ?thesis
    by (simp add: decode_record_def data_bytes_def wal_sizes record_kind_try_from_def slices gap_payload_def
        wal_decode_gap_def read_defs wal_gap_reason.of_to nth_append)
next
  case (CRec_ContinuityBreak b)
  with assms have "continuity_break_new h e (cb_at b) (cb_reason b) = Ok b"
    by (auto simp: continuity_break_new_Ok)
  with CRec_ContinuityBreak assms show ?thesis
    by (simp add: decode_record_def data_bytes_def wal_sizes record_kind_try_from_def slices break_payload_def
        wal_decode_break_def read_defs wal_break_reason.of_to nth_append)
next
  case CRec_WindowSeal
  then show ?thesis
    by (simp add: decode_record_def data_bytes_def wal_sizes record_kind_try_from_def slices)
qed

section \<open>File header\<close>

record CaptureWalConfig =
  cwc_hardware_id :: HardwareId
  cwc_boot_epoch :: BootEpoch
  cwc_recovered_cursor :: SequenceCursor
  cwc_first_window_ordinal :: u64
  cwc_window_policy :: CaptureWindowPolicy

record CaptureWalHeader =
  cwh_hardware_id :: HardwareId
  cwh_boot_epoch :: BootEpoch
  cwh_first_cursor :: SequenceCursor
  cwh_first_window_ordinal :: u64
  cwh_window_policy :: CaptureWindowPolicy

text \<open>The bytes \<open>write_file_header\<close> puts at the start of a new file.\<close>

definition write_file_header :: "CaptureWalConfig \<Rightarrow> (bytes, CaptureWalError) result" where
  "write_file_header config =
     and_then (copy_fields
       [(0, 8, FILE_MAGIC), (8, 10, to_le_bytes 2 FILE_VERSION),
        (10, 12, to_le_bytes 2 (of_nat FILE_HEADER_BYTES :: u16)), (12, 20, hardware_id_bytes (cwc_hardware_id config)),
        (20, 28, to_le_bytes 8 (cwc_boot_epoch config)), (28, 36, to_le_bytes 8 (cwc_recovered_cursor config)),
        (36, 44, to_le_bytes 8 (cwc_first_window_ordinal config)),
        (44, 52, to_le_bytes 8 (cwp_target_duration_us (cwc_window_policy config)))]
       (replicate FILE_HEADER_BYTES 0)) (\<lambda>header.
     and_then (slice_at header 0 FILE_HEADER_CRC_OFFSET) (\<lambda>covered.
       copy_fields [(FILE_HEADER_CRC_OFFSET, FILE_HEADER_BYTES, to_le_bytes 4 (crc32c covered))] header))"

definition decode_file_header :: "bytes \<Rightarrow> (CaptureWalHeader, CaptureWalError) result" where
  "decode_file_header header =
     and_then (slice_at header 0 8) (\<lambda>magic.
     if magic \<noteq> FILE_MAGIC then Err WAL_InvalidFileMagic
     else and_then (read_u16 header 8) (\<lambda>version.
     if version \<noteq> FILE_VERSION then Err (WAL_UnsupportedFileVersion version)
     else and_then (read_u16 header 10) (\<lambda>header_len.
     if unat header_len \<noteq> FILE_HEADER_BYTES then Err WAL_InvalidFileHeaderLength
     else and_then (slice_at header 0 FILE_HEADER_CRC_OFFSET) (\<lambda>covered.
          and_then (read_u32 header FILE_HEADER_CRC_OFFSET) (\<lambda>crc.
     if crc32c covered \<noteq> crc then Err WAL_FileHeaderChecksumMismatch
     else and_then (slice_at header 52 FILE_HEADER_CRC_OFFSET) (\<lambda>reserved.
     if list_ex (\<lambda>v. v \<noteq> 0) reserved then Err WAL_NonZeroReservedField
     else and_then (read_u64 header 20) (\<lambda>boot_epoch.
     if boot_epoch = 0 then Err WAL_ZeroBootEpoch
     else and_then (slice_at header 12 20) (\<lambda>hw. and_then (hardware_id_from_bytes hw) (\<lambda>hardware_id.
          and_then (read_u64 header 28) (\<lambda>first_cursor.
          and_then (read_u64 header 36) (\<lambda>first_window_ordinal.
          and_then (read_u64 header 44) (\<lambda>target.
          and_then (map_err WAL_Window (capture_window_policy_new target)) (\<lambda>window_policy.
            Ok \<lparr>cwh_hardware_id = hardware_id, cwh_boot_epoch = boot_epoch, cwh_first_cursor = first_cursor,
                cwh_first_window_ordinal = first_window_ordinal, cwh_window_policy = window_policy\<rparr>)))))))))))))"

definition validate_file_header :: "bytes \<Rightarrow> CaptureWalConfig \<Rightarrow> (unit, CaptureWalError) result" where
  "validate_file_header header config =
     and_then (decode_file_header header) (\<lambda>decoded.
       if cwh_hardware_id decoded \<noteq> cwc_hardware_id config then Err WAL_HardwareMismatch
       else if cwh_boot_epoch decoded \<noteq> cwc_boot_epoch config then Err WAL_BootEpochMismatch
       else if cwh_first_cursor decoded \<noteq> cwc_recovered_cursor config then Err WAL_StartingCursorMismatch
       else if cwh_first_window_ordinal decoded \<noteq> cwc_first_window_ordinal config then Err WAL_WindowOrdinalMismatch
       else if cwh_window_policy decoded \<noteq> cwc_window_policy config then Err WAL_WindowPolicyMismatch
       else Ok ())"

section \<open>Recovery\<close>

record CaptureWalRecovery =
  cwr_durable_cursor :: SequenceCursor
  cwr_record_count :: u64
  cwr_sample_count :: u64
  cwr_missing_sample_count :: u64
  cwr_continuity_break_count :: u64
  cwr_sealed_window_count :: u64
  cwr_last_sealed_window :: "CaptureWindowManifest option"
  cwr_truncated_tail_bytes :: u64

definition recovery_default :: CaptureWalRecovery where
  "recovery_default = \<lparr>cwr_durable_cursor = 0, cwr_record_count = 0, cwr_sample_count = 0,
     cwr_missing_sample_count = 0, cwr_continuity_break_count = 0, cwr_sealed_window_count = 0,
     cwr_last_sealed_window = None, cwr_truncated_tail_bytes = 0\<rparr>"

definition wal_checked_add :: "u64 \<Rightarrow> u64 \<Rightarrow> (u64, CaptureWalError) result" where
  "wal_checked_add left right = ok_or (checked_add left right) WAL_CounterOverflow"

text \<open>\<open>ledger.plan_*(..)?; ledger.commit(plan)?\<close>.\<close>

definition replay_plan ::
  "CaptureWindowLedger \<Rightarrow> (CaptureAppendPlan, CaptureWindowError) result \<Rightarrow>
     (CaptureWindowManifest option \<times> CaptureWindowLedger, CaptureWalError) result" where
  "replay_plan ledger plan =
     and_then (map_err WAL_Window plan) (\<lambda>plan.
     and_then (map_err WAL_Window (fst (ledger_commit ledger plan))) (\<lambda>sealed.
       Ok (sealed, snd (ledger_commit ledger plan))))"

definition replay_record ::
  "CaptureWindowLedger \<Rightarrow> HardwareId \<Rightarrow> BootEpoch \<Rightarrow> bytes \<Rightarrow> CaptureWalRecovery \<Rightarrow>
     (CaptureWindowManifest option \<times> CaptureWindowLedger \<times> CaptureWalRecovery, CaptureWalError) result" where
  "replay_record ledger hardware_id boot_epoch data report =
     and_then (decode_record data hardware_id boot_epoch) (\<lambda>r.
       case r of
         CRec_SampleChunk chunk \<Rightarrow>
           and_then (replay_plan ledger (plan_chunk ledger hardware_id chunk)) (\<lambda>(sealed, ledger).
           and_then (wal_checked_add (cwr_sample_count report) (u64_from (sch_sample_count (sc_header chunk)))) (\<lambda>n.
             Ok (sealed, ledger, report\<lparr>cwr_sample_count := n\<rparr>)))
       | CRec_Gap gap \<Rightarrow>
           and_then (replay_plan ledger (plan_gap ledger gap)) (\<lambda>(sealed, ledger).
           and_then (wal_checked_add (cwr_missing_sample_count report) (gap_missing_count gap)) (\<lambda>n.
             Ok (sealed, ledger, report\<lparr>cwr_missing_sample_count := n\<rparr>)))
       | CRec_ContinuityBreak observed \<Rightarrow>
           and_then (replay_plan ledger (plan_continuity_break ledger observed)) (\<lambda>(sealed, ledger).
           and_then (wal_checked_add (cwr_continuity_break_count report) 1) (\<lambda>n.
             Ok (sealed, ledger, report\<lparr>cwr_continuity_break_count := n\<rparr>)))
       | CRec_WindowSeal \<Rightarrow>
           and_then (map_err WAL_Window (fst (finish ledger))) (\<lambda>sealed. Ok (sealed, snd (finish ledger), report)))"

text \<open>The rest of the loop body of \<open>recover\<close> once a record is replayed.\<close>

definition report_replayed ::
  "CaptureWindowManifest option \<times> CaptureWindowLedger \<times> CaptureWalRecovery \<Rightarrow>
     (CaptureWindowLedger \<times> CaptureWalRecovery, CaptureWalError) result" where
  "report_replayed = (\<lambda>(sealed, ledger, report).
     and_then (case sealed of
         Some manifest \<Rightarrow>
           and_then (wal_checked_add (cwr_sealed_window_count report) 1) (\<lambda>n.
             Ok (report\<lparr>cwr_sealed_window_count := n, cwr_last_sealed_window := Some manifest\<rparr>))
       | None \<Rightarrow> Ok report) (\<lambda>report.
     and_then (wal_checked_add (cwr_record_count report) 1) (\<lambda>n.
       Ok (ledger, report\<lparr>cwr_record_count := n, cwr_durable_cursor := cl_next_cursor ledger\<rparr>))))"

text \<open>One turn of the loop of \<open>recover\<close> at \<open>offset\<close>; \<open>None\<close> when the rest of the file is a torn tail.\<close>

definition recover_record ::
  "CaptureWalConfig \<Rightarrow> bytes \<Rightarrow> CaptureWindowLedger \<Rightarrow> CaptureWalRecovery \<Rightarrow> nat \<Rightarrow>
     ((CaptureWindowLedger \<times> CaptureWalRecovery \<times> nat) option, CaptureWalError) result" where
  "recover_record config file ledger report offset =
     (if length file - offset < RECORD_PREFIX_BYTES then Ok None
      else and_then (read_u32 file offset) (\<lambda>prefix.
        let body_len = unat prefix in
        if \<not> (MIN_RECORD_BODY_BYTES \<le> body_len \<and> body_len \<le> MAX_RECORD_BODY_BYTES)
        then Err (WAL_InvalidRecordLength offset body_len)
        else and_then (ok_or (Option.bind (usize_checked_add offset RECORD_PREFIX_BYTES)
                                (\<lambda>v. usize_checked_add v body_len)) WAL_LengthOverflow) (\<lambda>record_end.
          if record_end > length file then Ok None
          else and_then (slice_at file (offset + RECORD_PREFIX_BYTES) record_end) (\<lambda>body.
               and_then (slice_at body 0 (body_len - RECORD_CRC_BYTES)) (\<lambda>data.
               and_then (read_u32 body (body_len - RECORD_CRC_BYTES)) (\<lambda>expected_crc.
               if crc32c data \<noteq> expected_crc then Err (WAL_RecordChecksumMismatch offset)
               else and_then (replay_record ledger (cwc_hardware_id config) (cwc_boot_epoch config) data report) (\<lambda>replayed.
                    and_then (report_replayed replayed) (\<lambda>(ledger, report). Ok (Some (ledger, report, record_end))))))))))"

lemma recover_record_advances:
  "recover_record config file ledger report offset = Ok (Some (l, r, next_offset)) \<Longrightarrow>
     offset < next_offset \<and> next_offset \<le> length file"
  by (auto simp: recover_record_def Let_def result_iffs wal_sizes usize_checked_add_def bind_eq_Some_conv split: if_splits)

function recover_from ::
  "CaptureWalConfig \<Rightarrow> bytes \<Rightarrow> CaptureWindowLedger \<Rightarrow> CaptureWalRecovery \<Rightarrow> nat \<Rightarrow>
     (CaptureWindowLedger \<times> CaptureWalRecovery \<times> nat, CaptureWalError) result" where
  "recover_from config file ledger report offset =
     (if offset < length file
      then case recover_record config file ledger report offset of
          Ok (Some (ledger, report, record_end)) \<Rightarrow> recover_from config file ledger report record_end
        | Ok None \<Rightarrow> Ok (ledger, report\<lparr>cwr_truncated_tail_bytes := of_nat (length file - offset)\<rparr>, offset)
        | Err e \<Rightarrow> Err e
        | Panic \<Rightarrow> Panic
      else Ok (ledger, report, offset))"
  by pat_completeness auto
termination
  by (relation "measure (\<lambda>(config, file, ledger, report, offset). length file - offset)")
    (auto dest: recover_record_advances)

declare recover_from.simps [simp del]

definition recover ::
  "bytes \<Rightarrow> CaptureWalConfig \<Rightarrow> (CaptureWindowLedger \<times> CaptureWalRecovery \<times> nat, CaptureWalError) result" where
  "recover file config =
     (if length file < FILE_HEADER_BYTES then Err WAL_TruncatedFileHeader
      else and_then (slice_at file 0 FILE_HEADER_BYTES) (\<lambda>header.
           and_then (validate_file_header header config) (\<lambda>_.
             recover_from config file
               (ledger_new (cwc_window_policy config) (cwc_hardware_id config) (cwc_boot_epoch config)
                  (cwc_recovered_cursor config) (cwc_first_window_ordinal config))
               (recovery_default\<lparr>cwr_durable_cursor := cwc_recovered_cursor config\<rparr>) FILE_HEADER_BYTES)))"

end
