(* ===== verification/Capture_Sink.thy ===== *)
theory Capture_Sink
  imports Capture_Wal
begin

text \<open>
  The writer of the capture write-ahead log (\<^verbatim>\<open>sensor-host/src/capture_wal.rs\<close>, \<open>CaptureWalSink\<close> and
  \<open>CaptureWalBatch\<close>) and its reader, with the theorem that a crash loses no acknowledged record. The outcome of
  every write and of the barrier after it is an argument of the operations.
\<close>

section \<open>Batches\<close>

record RecordCounters =
  rc_samples :: u64
  rc_missing_samples :: u64
  rc_continuity_breaks :: u64

definition record_counters_default :: RecordCounters where
  "record_counters_default = \<lparr>rc_samples = 0, rc_missing_samples = 0, rc_continuity_breaks = 0\<rparr>"

record CaptureWalBatch =
  wb_base_durable_len :: nat
  wb_base_recovery :: CaptureWalRecovery
  wb_ledger :: CaptureWindowLedger
  wb_recovery :: CaptureWalRecovery
  wb_bytes :: bytes
  wb_record_count :: usize
  wb_sealed :: bool

definition ensure_open_window :: "CaptureWalBatch \<Rightarrow> (unit, CaptureWalError) result" where
  "ensure_open_window self = (if wb_sealed self then Err WAL_BatchCrossesWindowBoundary else Ok ())"

text \<open>The local \<open>recovery\<close> of \<open>stage_planned\<close> after its updates.\<close>

definition staged_recovery ::
  "CaptureWalRecovery \<Rightarrow> CaptureWindowLedger \<Rightarrow> RecordCounters \<Rightarrow> CaptureWindowManifest option \<Rightarrow>
     (CaptureWalRecovery, CaptureWalError) result" where
  "staged_recovery recovery ledger counters sealed =
     and_then (wal_checked_add (cwr_record_count recovery) 1) (\<lambda>records.
     and_then (wal_checked_add (cwr_sample_count recovery) (rc_samples counters)) (\<lambda>samples.
     and_then (wal_checked_add (cwr_missing_sample_count recovery) (rc_missing_samples counters)) (\<lambda>missing.
     and_then (wal_checked_add (cwr_continuity_break_count recovery) (rc_continuity_breaks counters)) (\<lambda>breaks.
     let recovery = recovery\<lparr>cwr_durable_cursor := cl_next_cursor ledger, cwr_record_count := records,
           cwr_sample_count := samples, cwr_missing_sample_count := missing, cwr_continuity_break_count := breaks\<rparr>
     in case sealed of
          None \<Rightarrow> Ok recovery
        | Some manifest \<Rightarrow>
            and_then (wal_checked_add (cwr_sealed_window_count recovery) 1) (\<lambda>n.
              Ok (recovery\<lparr>cwr_sealed_window_count := n, cwr_last_sealed_window := Some manifest\<rparr>))))))"

text \<open>\<open>Vec::try_reserve\<close> refuses a capacity beyond \<open>isize::MAX\<close>.\<close>

definition try_reserve :: "bytes \<Rightarrow> nat \<Rightarrow> (unit, CaptureWalError) result" where
  "try_reserve bs additional = (if length bs + additional < 2 ^ 63 then Ok () else Err WAL_LengthOverflow)"

definition stage_planned ::
  "CaptureWalBatch \<Rightarrow> bytes \<Rightarrow> CaptureAppendPlan \<Rightarrow> RecordCounters \<Rightarrow>
     (CaptureWalBatch, SequenceCursor, CaptureWalError) outcome" where
  "stage_planned self bs plan counters =
     (let (committed, ledger) = ledger_commit (wb_ledger self) plan in
      try_with (map_err WAL_Window committed) self (\<lambda>sealed.
      try_with (staged_recovery (wb_recovery self) ledger counters sealed) self (\<lambda>recovery.
      try_with (ok_or (usize_checked_add (wb_record_count self) 1) WAL_CounterOverflow) self (\<lambda>record_count.
      try_with (try_reserve (wb_bytes self) (length bs)) self (\<lambda>_.
        (Ok (cwr_durable_cursor recovery),
         self\<lparr>wb_bytes := wb_bytes self @ bs, wb_ledger := ledger, wb_recovery := recovery,
              wb_record_count := record_count, wb_sealed := (sealed \<noteq> None)\<rparr>))))))"

definition stage_chunk ::
  "CaptureWalBatch \<Rightarrow> HardwareId \<Rightarrow> SampleChunk \<Rightarrow> (CaptureWalBatch, SequenceCursor, CaptureWalError) outcome" where
  "stage_chunk self hardware_id chunk =
     try_with (ensure_open_window self) self (\<lambda>_.
     try_with (map_err WAL_Window (plan_chunk (wb_ledger self) hardware_id chunk)) self (\<lambda>plan.
     try_with (encode_chunk_record chunk) self (\<lambda>bs.
       stage_planned self bs plan
         (record_counters_default\<lparr>rc_samples := u64_from (sch_sample_count (sc_header chunk))\<rparr>))))"

definition stage_gap ::
  "CaptureWalBatch \<Rightarrow> Gap \<Rightarrow> (CaptureWalBatch, SequenceCursor, CaptureWalError) outcome" where
  "stage_gap self gap =
     try_with (ensure_open_window self) self (\<lambda>_.
     try_with (map_err WAL_Window (plan_gap (wb_ledger self) gap)) self (\<lambda>plan.
       stage_planned self (encode_gap_record gap) plan
         (record_counters_default\<lparr>rc_missing_samples := gap_missing_count gap\<rparr>)))"

definition stage_continuity_break ::
  "CaptureWalBatch \<Rightarrow> ContinuityBreak \<Rightarrow> (CaptureWalBatch, SequenceCursor, CaptureWalError) outcome" where
  "stage_continuity_break self observed =
     try_with (ensure_open_window self) self (\<lambda>_.
     try_with (map_err WAL_Window (plan_continuity_break (wb_ledger self) observed)) self (\<lambda>plan.
       stage_planned self (encode_break_record observed) plan
         (record_counters_default\<lparr>rc_continuity_breaks := 1\<rparr>)))"

section \<open>The sink\<close>

text \<open>An open file is its content and the position of the next write.\<close>

record WalFile =
  wf_content :: bytes
  wf_position :: nat

datatype WriteOutcome = WO_Ok | WO_WriteFailed nat | WO_SyncFailed

definition write_all :: "WalFile \<Rightarrow> bytes \<Rightarrow> WalFile" where
  "write_all file bs =
     \<lparr>wf_content = take (wf_position file) (wf_content file) @ bs @ drop (wf_position file + length bs) (wf_content file),
      wf_position = wf_position file + length bs\<rparr>"

record CaptureWalSink =
  ws_file :: WalFile
  ws_hardware_id :: HardwareId
  ws_boot_epoch :: BootEpoch
  ws_ledger :: CaptureWindowLedger
  ws_recovery :: CaptureWalRecovery
  ws_durable_len :: nat
  ws_poisoned :: bool

text \<open>A missing file and an empty one are opened alike; \<open>recover\<close> leaves the file without its torn tail.\<close>

definition sink_open :: "bytes \<Rightarrow> CaptureWalConfig \<Rightarrow> (CaptureWalSink, CaptureWalError) result" where
  "sink_open content config =
     (if cwc_boot_epoch config = 0 then Err WAL_ZeroBootEpoch
      else and_then (if content = [] then write_file_header config else Ok content) (\<lambda>content.
           and_then (recover content config) (\<lambda>(ledger, recovery, durable_len).
             Ok \<lparr>ws_file = \<lparr>wf_content = take durable_len content, wf_position = durable_len\<rparr>,
                 ws_hardware_id = cwc_hardware_id config, ws_boot_epoch = cwc_boot_epoch config,
                 ws_ledger = ledger, ws_recovery = recovery, ws_durable_len = durable_len, ws_poisoned = False\<rparr>)))"

definition ensure_healthy :: "CaptureWalSink \<Rightarrow> (unit, CaptureWalError) result" where
  "ensure_healthy self = (if ws_poisoned self then Err WAL_Poisoned else Ok ())"

definition begin_batch :: "CaptureWalSink \<Rightarrow> (CaptureWalBatch, CaptureWalError) result" where
  "begin_batch self =
     and_then (ensure_healthy self) (\<lambda>_.
       Ok \<lparr>wb_base_durable_len = ws_durable_len self, wb_base_recovery = ws_recovery self,
           wb_ledger = ws_ledger self, wb_recovery = ws_recovery self, wb_bytes = [], wb_record_count = 0,
           wb_sealed = False\<rparr>)"

text \<open>A file is at most \<open>2 ^ 63 - 1\<close> bytes long (\<open>off_t\<close>): a write past that fails, whatever else happens.\<close>

definition MAX_FILE_BYTES :: nat where "MAX_FILE_BYTES = 2 ^ 63 - 1"

definition within_limit :: "WalFile \<Rightarrow> bytes \<Rightarrow> WriteOutcome \<Rightarrow> WriteOutcome" where
  "within_limit file bs io =
     (if wf_position file + length bs \<le> MAX_FILE_BYTES then io
      else let room = MAX_FILE_BYTES - wf_position file in
           case io of WO_WriteFailed k \<Rightarrow> WO_WriteFailed (min k room) | _ \<Rightarrow> WO_WriteFailed room)"

definition write_and_sync ::
  "CaptureWalSink \<Rightarrow> bytes \<Rightarrow> WriteOutcome \<Rightarrow> (CaptureWalSink, unit, CaptureWalError) outcome" where
  "write_and_sync self bs io =
     (case within_limit (ws_file self) bs io of
        WO_WriteFailed k \<Rightarrow> (Err WAL_Io, self\<lparr>ws_file := write_all (ws_file self) (take k bs), ws_poisoned := True\<rparr>)
      | WO_SyncFailed \<Rightarrow> (Err WAL_Io, self\<lparr>ws_file := write_all (ws_file self) bs, ws_poisoned := True\<rparr>)
      | WO_Ok \<Rightarrow> (Ok (), self\<lparr>ws_file := write_all (ws_file self) bs\<rparr>))"

definition commit_batch ::
  "CaptureWalSink \<Rightarrow> CaptureWalBatch \<Rightarrow> WriteOutcome \<Rightarrow> (CaptureWalSink, unit, CaptureWalError) outcome" where
  "commit_batch self batch io =
     try_with (ensure_healthy self) self (\<lambda>_.
     if wb_record_count batch = 0 then (Err WAL_EmptyBatch, self)
     else if wb_base_durable_len batch \<noteq> ws_durable_len self \<or> wb_base_recovery batch \<noteq> ws_recovery self
     then (Err WAL_StaleBatch, self)
     else try_with (ok_or (usize_checked_add (ws_durable_len self) (length (wb_bytes batch))) WAL_LengthOverflow) self
       (\<lambda>durable_len.
         let (written, self) = write_and_sync self (wb_bytes batch) io in
         try_with written self (\<lambda>_.
           (Ok (), self\<lparr>ws_durable_len := durable_len, ws_ledger := wb_ledger batch, ws_recovery := wb_recovery batch\<rparr>))))"

definition finish_window ::
  "CaptureWalSink \<Rightarrow> WriteOutcome \<Rightarrow> (CaptureWalSink, CaptureWindowManifest option, CaptureWalError) outcome" where
  "finish_window self io =
     try_with (ensure_healthy self) self (\<lambda>_.
     let (finished, after_ledger) = finish (ws_ledger self) in
     try_with (map_err WAL_Window finished) self (\<lambda>manifest.
       case manifest of
         None \<Rightarrow> (Ok None, self)
       | Some m \<Rightarrow>
           let bs = wrap_record RK_WindowSeal [] in
           try_with (ok_or (usize_checked_add (ws_durable_len self) (length bs)) WAL_LengthOverflow) self (\<lambda>durable_len.
           try_with (wal_checked_add (cwr_record_count (ws_recovery self)) 1) self (\<lambda>records.
           try_with (wal_checked_add (cwr_sealed_window_count (ws_recovery self)) 1) self (\<lambda>sealed.
             let recovery = (ws_recovery self)\<lparr>cwr_record_count := records, cwr_sealed_window_count := sealed,
                   cwr_last_sealed_window := Some m\<rparr>;
                 (written, self) = write_and_sync self bs io
             in try_with written self (\<lambda>_.
                  (Ok (Some m), self\<lparr>ws_durable_len := durable_len, ws_ledger := after_ledger, ws_recovery := recovery\<rparr>)))))))"

definition persist_chunk ::
  "CaptureWalSink \<Rightarrow> HardwareId \<Rightarrow> SampleChunk \<Rightarrow> WriteOutcome \<Rightarrow> (CaptureWalSink, unit, CaptureWalError) outcome" where
  "persist_chunk self hardware_id chunk io =
     try_with (begin_batch self) self (\<lambda>batch.
       let (staged, batch) = stage_chunk batch hardware_id chunk in
       try_with staged self (\<lambda>_. commit_batch self batch io))"

definition persist_gap ::
  "CaptureWalSink \<Rightarrow> Gap \<Rightarrow> WriteOutcome \<Rightarrow> (CaptureWalSink, unit, CaptureWalError) outcome" where
  "persist_gap self gap io =
     try_with (begin_batch self) self (\<lambda>batch.
       let (staged, batch) = stage_gap batch gap in
       try_with staged self (\<lambda>_. commit_batch self batch io))"

definition persist_continuity_break ::
  "CaptureWalSink \<Rightarrow> ContinuityBreak \<Rightarrow> WriteOutcome \<Rightarrow> (CaptureWalSink, unit, CaptureWalError) outcome" where
  "persist_continuity_break self observed io =
     try_with (begin_batch self) self (\<lambda>batch.
       let (staged, batch) = stage_continuity_break batch observed in
       try_with staged self (\<lambda>_. commit_batch self batch io))"

section \<open>The reader\<close>

text \<open>The length the reader keeps is that of the content, which nothing changes while it is open.\<close>

record CaptureWalReader =
  rd_file :: bytes
  rd_header :: CaptureWalHeader
  rd_offset :: nat

definition reader_open :: "bytes \<Rightarrow> (CaptureWalReader, CaptureWalError) result" where
  "reader_open file =
     (if length file < FILE_HEADER_BYTES then Err WAL_TruncatedFileHeader
      else and_then (slice_at file 0 FILE_HEADER_BYTES) (\<lambda>bs.
           and_then (decode_file_header bs) (\<lambda>header.
             Ok \<lparr>rd_file = file, rd_header = header, rd_offset = FILE_HEADER_BYTES\<rparr>)))"

definition next_record :: "CaptureWalReader \<Rightarrow> (CaptureWalReader, CaptureRecord option, CaptureWalError) outcome" where
  "next_record self =
     (let file = rd_file self; offset = rd_offset self in
      if offset = length file then (Ok None, self)
      else if length file - offset < RECORD_PREFIX_BYTES then (Err (WAL_IncompleteRecord offset), self)
      else try_with (read_u32 file offset) self (\<lambda>prefix.
        let body_len = unat prefix in
        if \<not> (MIN_RECORD_BODY_BYTES \<le> body_len \<and> body_len \<le> MAX_RECORD_BODY_BYTES)
        then (Err (WAL_InvalidRecordLength offset body_len), self)
        else try_with (ok_or (Option.bind (usize_checked_add offset RECORD_PREFIX_BYTES)
                                (\<lambda>v. usize_checked_add v body_len)) WAL_LengthOverflow) self (\<lambda>record_end.
          if record_end > length file then (Err (WAL_IncompleteRecord offset), self)
          else try_with (slice_at file (offset + RECORD_PREFIX_BYTES) record_end) self (\<lambda>body.
               try_with (slice_at body 0 (body_len - RECORD_CRC_BYTES)) self (\<lambda>data.
               try_with (read_u32 body (body_len - RECORD_CRC_BYTES)) self (\<lambda>crc.
               if crc32c data \<noteq> crc then (Err (WAL_RecordChecksumMismatch offset), self)
               else try_with (decode_record data (cwh_hardware_id (rd_header self)) (cwh_boot_epoch (rd_header self))) self
                 (\<lambda>r. (Ok (Some r), self\<lparr>rd_offset := record_end\<rparr>))))))))"

section \<open>The meaning of a log\<close>

text \<open>What a list of records does to the ledger and the report of a capture, without files and bytes.\<close>

fun counters_of :: "CaptureRecord \<Rightarrow> RecordCounters" where
  "counters_of (CRec_SampleChunk c) = record_counters_default\<lparr>rc_samples := u64_from (sch_sample_count (sc_header c))\<rparr>"
| "counters_of (CRec_Gap g) = record_counters_default\<lparr>rc_missing_samples := gap_missing_count g\<rparr>"
| "counters_of (CRec_ContinuityBreak b) = record_counters_default\<lparr>rc_continuity_breaks := 1\<rparr>"
| "counters_of CRec_WindowSeal = record_counters_default"

type_synonym log_state = "CaptureWindowLedger \<times> CaptureWalRecovery"

definition wal_apply :: "log_state \<Rightarrow> CaptureRecord \<Rightarrow> log_state option" where
  "wal_apply st r =
     (case ledger_append (fst st) r of
        (Ok sealed, ledger) \<Rightarrow>
          (case staged_recovery (snd st) ledger (counters_of r) sealed of Ok recovery \<Rightarrow> Some (ledger, recovery) | _ \<Rightarrow> None)
      | _ \<Rightarrow> None)"

fun wal_fold :: "log_state \<Rightarrow> CaptureRecord list \<Rightarrow> log_state option" where
  "wal_fold st [] = Some st"
| "wal_fold st (r # rs) = Option.bind (wal_apply st r) (\<lambda>st. wal_fold st rs)"

lemma wal_fold_append: "wal_fold st (rs @ ps) = Option.bind (wal_fold st rs) (\<lambda>st. wal_fold st ps)"
  by (induction rs arbitrary: st) (auto simp: bind_eq_Some_conv split: bind_splits)

lemma wal_apply_Some:
  "wal_apply (l, c) r = Some (t, d) \<longleftrightarrow>
     (\<exists>sealed. ledger_append l r = (Ok sealed, t) \<and> staged_recovery c t (counters_of r) sealed = Ok d)"
  by (auto simp: wal_apply_def split: prod.splits result.splits)

lemma seal_keeps_stream [simp]:
  "cl_hardware_id (snd (seal l r)) = cl_hardware_id l" "cl_boot_epoch (snd (seal l r)) = cl_boot_epoch l"
  "cl_next_cursor (snd (seal l r)) = cl_next_cursor l"
  by (auto simp: seal_def Let_def split: option.splits try_with_split)

lemma append_stream:
  assumes "ledger_append l r = (Ok sealed, t)"
  shows "in_stream (cl_hardware_id l) (cl_boot_epoch l) r \<and> cl_hardware_id t = cl_hardware_id l \<and>
    cl_boot_epoch t = cl_boot_epoch l \<and> (r = CRec_WindowSeal \<longrightarrow> cl_next_cursor t = cl_next_cursor l)"
proof (cases r)
  case (CRec_SampleChunk c)
  with assms have "apply_chunk l (cl_hardware_id l) c = (Ok sealed, t)" by (simp add: plan_chunk_def planned_commit_Ok)
  then show ?thesis
    by (rule apply_chunk_cases) (auto simp: CRec_SampleChunk grown_def seal_some_def)
next
  case (CRec_Gap g)
  with assms show ?thesis
    by (auto simp: plan_gap_def planned_commit_Ok apply_gap_def Let_def result_iffs)
next
  case (CRec_ContinuityBreak b)
  with assms show ?thesis
    by (auto simp: plan_continuity_break_def planned_commit_Ok apply_continuity_break_def Let_def result_iffs)
next
  case CRec_WindowSeal
  with assms have "finish l = (Ok sealed, t)" by (auto split: prod.splits result.splits)
  then show ?thesis
    by (auto simp: CRec_WindowSeal finish_def seal_some_def split: if_splits)
qed

lemma replay_plan_Ok:
  "replay_plan l (planned l applied) = Ok (sealed, t) \<longleftrightarrow> applied = (Ok sealed, t)"
  by (cases applied; cases "fst applied") (auto simp: replay_plan_def planned_def ledger_plan_def ledger_commit_def)

lemma wal_checked_add_Ok [result_iffs]: "wal_checked_add a b = Ok n \<longleftrightarrow> checked_add a b = Some n"
  by (simp add: wal_checked_add_def result_iffs)

lemma checked_add_zero [simp]: "checked_add a (0 :: u64) = Some a"
  by (simp add: checked_add_Some)

lemmas replay_defs = replay_record_def report_replayed_def staged_recovery_def record_counters_default_def

text \<open>Replaying the bytes of a record does what the record does.\<close>

lemma replay_data:
  assumes "record_ok r" "wal_apply (l, c) r = Some (t, d)" "cl_hardware_id l = h" "cl_boot_epoch l = e"
  shows "and_then (replay_record l h e (data_bytes r) c) report_replayed = Ok (t, d)"
proof -
  obtain sealed where a: "ledger_append l r = (Ok sealed, t)" and s: "staged_recovery c t (counters_of r) sealed = Ok d"
    using assms(2) by (auto simp: wal_apply_Some)
  have d: "decode_record (data_bytes r) h e = Ok r"
    using append_stream [OF a] assms by (intro decode_record_data) auto
  show ?thesis
  proof (cases r)
    case (CRec_SampleChunk k)
    with a assms(3) have "replay_plan l (plan_chunk l h k) = Ok (sealed, t)"
      by (simp add: plan_chunk_def planned_commit_Ok replay_plan_Ok)
    with CRec_SampleChunk d s show ?thesis
      by (cases sealed) (auto simp: replay_defs result_iffs Let_def)
  next
    case (CRec_Gap g)
    with a have "replay_plan l (plan_gap l g) = Ok (sealed, t)"
      by (simp add: plan_gap_def planned_commit_Ok replay_plan_Ok)
    with CRec_Gap d s show ?thesis
      by (cases sealed) (auto simp: replay_defs result_iffs Let_def)
  next
    case (CRec_ContinuityBreak b)
    with a have "replay_plan l (plan_continuity_break l b) = Ok (sealed, t)"
      by (simp add: plan_continuity_break_def planned_commit_Ok replay_plan_Ok)
    with CRec_ContinuityBreak d s show ?thesis
      by (cases sealed) (auto simp: replay_defs result_iffs Let_def)
  next
    case CRec_WindowSeal
    with a have "finish l = (Ok sealed, t)" by (auto split: prod.splits result.splits)
    with CRec_WindowSeal d s show ?thesis
      by (cases sealed) (auto simp: replay_defs result_iffs Let_def)
  qed
qed

section \<open>Recovery of a log\<close>

lemma data_bytes_bounds:
  assumes "record_ok r"
  shows "4 \<le> length (data_bytes r)" "length (data_bytes r) + 4 \<le> 1048576"
proof -
  show "4 \<le> length (data_bytes r)" by (simp add: data_bytes_def)
  show "length (data_bytes r) + 4 \<le> 1048576"
  proof (cases r)
    case (CRec_SampleChunk c)
    with assms have "length (sc_samples c) = unat (sch_sample_count (sc_header c))" by (simp add: sample_chunk_ok_def)
    then have "length (sc_samples c) < 65536" using unat_u16_bound [of "sch_sample_count (sc_header c)"] by simp
    with CRec_SampleChunk show ?thesis by (simp add: data_bytes_def length_chunk_payload)
  qed (simp_all add: data_bytes_def gap_payload_def break_payload_def)
qed

lemma length_record_bytes: "length (record_bytes r) = length (data_bytes r) + 8"
  by (simp add: record_bytes_eq)

definition record_prefix :: "CaptureRecord \<Rightarrow> u32" where
  "record_prefix r = of_nat (length (data_bytes r) + 4)"

lemma unat_record_prefix:
  assumes "record_ok r"
  shows "unat (record_prefix r) = length (data_bytes r) + 4"
proof -
  have "length (data_bytes r) + 4 < 2 ^ 32" using data_bytes_bounds(2) [OF assms] by simp
  then show ?thesis unfolding record_prefix_def unat_of_nat by (simp add: take_bit_nat_eq_self)
qed

lemma record_bytes_prefix:
  "record_bytes r = to_le_bytes 4 (record_prefix r) @ data_bytes r @ to_le_bytes 4 (crc32c (data_bytes r))"
  by (simp add: record_bytes_eq record_prefix_def)

lemma sub_middle: "a = length pre \<Longrightarrow> b = a + length m \<Longrightarrow> sub a b (pre @ m @ post) = m"
  by (simp add: sub_def)

text \<open>The bytes around the record at \<open>length pre\<close> as the recovery loop and the reader fetch them.\<close>

lemma record_in_file:
  assumes "record_ok r" "file = pre @ record_bytes r @ post" "length file < 2 ^ 63"
  shows "read_u32 file (length pre) = Ok (record_prefix r)"
    "Option.bind (usize_checked_add (length pre) 4) (\<lambda>v. usize_checked_add v (length (data_bytes r) + 4)) =
       Some (length pre + length (record_bytes r))"
    "slice_at file (length pre + 4) (length pre + length (record_bytes r)) =
       Ok (data_bytes r @ to_le_bytes 4 (crc32c (data_bytes r)))"
    "length pre + length (record_bytes r) \<le> length file" "\<not> length file - length pre < 4"
proof -
  let ?n = "length (data_bytes r)"
  let ?p = "to_le_bytes 4 (record_prefix r)"
  have fe: "file = pre @ ?p @ (data_bytes r @ to_le_bytes 4 (crc32c (data_bytes r))) @ post"
    by (simp add: assms(2) record_bytes_prefix)
  have len: "length file = length pre + ?n + 8 + length post" by (simp add: assms(2) length_record_bytes)
  have "sub (length pre) (length pre + 4) file = ?p" by (simp add: fe sub_middle)
  then show "read_u32 file (length pre) = Ok (record_prefix r)"
    using len by (simp add: read_defs)
  show "Option.bind (usize_checked_add (length pre) 4) (\<lambda>v. usize_checked_add v (?n + 4)) =
       Some (length pre + length (record_bytes r))"
    using assms(3) len by (simp add: usize_checked_add_def length_record_bytes)
  have "sub (length pre + 4) (length pre + length (record_bytes r)) ((pre @ ?p) @
      (data_bytes r @ to_le_bytes 4 (crc32c (data_bytes r))) @ post) = data_bytes r @ to_le_bytes 4 (crc32c (data_bytes r))"
    by (rule sub_middle) (simp_all add: length_record_bytes)
  then show "slice_at file (length pre + 4) (length pre + length (record_bytes r)) =
       Ok (data_bytes r @ to_le_bytes 4 (crc32c (data_bytes r)))"
    using len by (simp add: fe length_record_bytes)
  show "length pre + length (record_bytes r) \<le> length file" "\<not> length file - length pre < 4"
    using len by (simp_all add: length_record_bytes)
qed

lemma record_body:
  "slice_at (data_bytes r @ to_le_bytes 4 (x :: u32)) 0 (length (data_bytes r)) = Ok (data_bytes r)"
  "read_u32 (data_bytes r @ to_le_bytes 4 x) (length (data_bytes r)) = Ok x"
  by (simp_all add: slices read_defs)

lemma recover_record_step:
  assumes "record_ok r" "file = pre @ record_bytes r @ post" "length file < 2 ^ 63"
    "wal_apply (l, c) r = Some (t, d)" "cl_hardware_id l = cwc_hardware_id config" "cl_boot_epoch l = cwc_boot_epoch config"
  shows "recover_record config file l c (length pre) = Ok (Some (t, d, length pre + length (record_bytes r)))"
proof -
  note f = record_in_file [OF assms(1-3)]
  have b: "8 \<le> length (data_bytes r) + 4" "length (data_bytes r) + 4 \<le> 1048576"
    using data_bytes_bounds [OF assms(1)] by simp_all
  note p = replay_data [OF assms(1,4-6)]
  then obtain x where "replay_record l (cwc_hardware_id config) (cwc_boot_epoch config) (data_bytes r) c = Ok x"
    "report_replayed x = Ok (t, d)" by (auto simp: result_iffs)
  then show ?thesis
    using b f(4) by (simp add: f(1,2,3,5) recover_record_def wal_sizes unat_record_prefix [OF assms(1)] record_body Let_def)
qed

lemma recover_record_torn:
  assumes "record_ok r" "file = pre @ tail" "length file < 2 ^ 63" "tail @ rest = record_bytes r" "rest \<noteq> []"
  shows "recover_record config file l c (length pre) = Ok None"
proof (cases "length tail < 4")
  case True
  then show ?thesis by (simp add: recover_record_def wal_sizes assms(2))
next
  case False
  let ?p = "to_le_bytes 4 (record_prefix r)"
  have "take 4 tail = take 4 (tail @ rest)" using False by simp
  also have "\<dots> = ?p" by (simp add: assms(4) record_bytes_prefix)
  finally have "sub (length pre) (length pre + 4) file = ?p" using assms(2) by (simp add: sub_def)
  then have r: "read_u32 file (length pre) = (Ok (record_prefix r) :: (u32, CaptureWalError) result)"
    using False by (simp add: read_defs assms(2))
  have flen: "length file = length pre + length tail" by (simp add: assms(2))
  have "length tail + length rest = length (data_bytes r) + 8"
    using arg_cong [OF assms(4), of length] by (simp add: length_record_bytes)
  moreover have "length rest > 0" using assms(5) by simp
  ultimately have "length tail < length (data_bytes r) + 8" by linarith
  then show ?thesis
    using False data_bytes_bounds [OF assms(1)] assms(3) flen
    by (simp add: r recover_record_def wal_sizes unat_record_prefix [OF assms(1)] usize_checked_add_def Let_def)
qed

text \<open>A log, possibly with a torn record at its end, is recovered to what its records mean.\<close>

lemma recover_log:
  assumes "list_all record_ok rs" "file = pre @ concat (map record_bytes rs) @ tail" "length file < 2 ^ 63"
    "tail = [] \<or> (\<exists>r rest. record_ok r \<and> rest \<noteq> [] \<and> tail @ rest = record_bytes r)"
    "wal_fold (l, c) rs = Some (t, d)" "cl_hardware_id l = cwc_hardware_id config" "cl_boot_epoch l = cwc_boot_epoch config"
    "cwr_truncated_tail_bytes c = 0"
  shows "recover_from config file l c (length pre) =
    Ok (t, d\<lparr>cwr_truncated_tail_bytes := of_nat (length tail)\<rparr>, length file - length tail)"
  using assms
proof (induction rs arbitrary: pre l c)
  case Nil
  show ?case
  proof (cases "tail = []")
    case True
    with Nil show ?thesis by (simp add: recover_from.simps)
  next
    case False
    with Nil obtain r rest where "record_ok r" "rest \<noteq> []" "tail @ rest = record_bytes r" by auto
    with Nil have "recover_record config file l c (length pre) = Ok None"
      by (intro recover_record_torn) auto
    with False Nil show ?thesis by (simp add: recover_from.simps)
  qed
next
  case (Cons r rs)
  from Cons.prems(5) obtain u e where a: "wal_apply (l, c) r = Some (u, e)" and f: "wal_fold (u, e) rs = Some (t, d)"
    by (auto simp: bind_eq_Some_conv)
  have fe: "file = pre @ record_bytes r @ concat (map record_bytes rs) @ tail" using Cons.prems(2) by simp
  have ok: "record_ok r" "list_all record_ok rs" using Cons.prems(1) by simp_all
  note step = recover_record_step [OF ok(1) fe Cons.prems(3) a Cons.prems(6,7)]
  from a obtain sealed where "ledger_append l r = (Ok sealed, u)" "staged_recovery c u (counters_of r) sealed = Ok e"
    by (auto simp: wal_apply_Some)
  then have u: "cl_hardware_id u = cwc_hardware_id config" "cl_boot_epoch u = cwc_boot_epoch config"
    "cwr_truncated_tail_bytes e = 0"
    using append_stream [of l r sealed u] Cons.prems(6-8)
    by (auto simp: staged_recovery_def result_iffs Let_def split: option.splits)
  have "recover_from config file u e (length (pre @ record_bytes r)) =
      Ok (t, d\<lparr>cwr_truncated_tail_bytes := of_nat (length tail)\<rparr>, length file - length tail)"
    using ok(2) fe Cons.prems(3,4) f u by (intro Cons.IH) simp_all
  with step show ?case by (simp add: recover_from.simps [of config _ l] fe length_record_bytes)
qed

section \<open>The file header\<close>

definition header_fields :: "CaptureWalConfig \<Rightarrow> bytes" where
  "header_fields config = FILE_MAGIC @ to_le_bytes 2 FILE_VERSION @ to_le_bytes 2 (64 :: u16) @
     hardware_id_bytes (cwc_hardware_id config) @ to_le_bytes 8 (cwc_boot_epoch config) @
     to_le_bytes 8 (cwc_recovered_cursor config) @ to_le_bytes 8 (cwc_first_window_ordinal config) @
     to_le_bytes 8 (cwp_target_duration_us (cwc_window_policy config)) @ replicate 8 0"

definition header_bytes :: "CaptureWalConfig \<Rightarrow> bytes" where
  "header_bytes config = header_fields config @ to_le_bytes 4 (crc32c (header_fields config))"

lemma length_FILE_MAGIC [simp]: "length FILE_MAGIC = 8"
  by (simp add: FILE_MAGIC_def)

lemma length_header [simp]: "length (header_fields config) = 60" "length (header_bytes config) = 64"
  by (simp_all add: header_fields_def header_bytes_def)

lemma write_file_header_bytes: "write_file_header config = Ok (header_bytes config)"
proof -
  have r: "replicate 12 (0 :: u8) = replicate 8 0 @ replicate 4 0"
    by (simp flip: replicate_add)
  show ?thesis
    by (simp add: write_file_header_def wal_sizes header_bytes_def header_fields_def slices r)
qed

definition header_of :: "CaptureWalConfig \<Rightarrow> CaptureWalHeader" where
  "header_of config = \<lparr>cwh_hardware_id = cwc_hardware_id config, cwh_boot_epoch = cwc_boot_epoch config,
     cwh_first_cursor = cwc_recovered_cursor config, cwh_first_window_ordinal = cwc_first_window_ordinal config,
     cwh_window_policy = cwc_window_policy config\<rparr>"

definition config_ok :: "CaptureWalConfig \<Rightarrow> bool" where
  "config_ok config \<longleftrightarrow> cwc_boot_epoch config \<noteq> 0 \<and> cwp_target_duration_us (cwc_window_policy config) \<noteq> 0"

lemma decode_header_bytes:
  assumes "config_ok config"
  shows "decode_file_header (header_bytes config) = Ok (header_of config)"
proof -
  have c: "sub 0 60 (header_bytes config) = header_fields config" "sub 60 64 (header_bytes config) = to_le_bytes 4 (crc32c (header_fields config))"
    by (simp_all add: header_bytes_def slices)
  have f: "sub a b (header_bytes config) = sub a b (header_fields config)" if "b \<le> 60" for a b
    using that by (simp add: header_bytes_def slices)
  have s: "sub 0 8 (header_fields config) = FILE_MAGIC" "sub 8 10 (header_fields config) = to_le_bytes 2 FILE_VERSION"
    "sub 10 12 (header_fields config) = to_le_bytes 2 (64 :: u16)"
    "sub 12 20 (header_fields config) = hardware_id_bytes (cwc_hardware_id config)"
    "sub 20 28 (header_fields config) = to_le_bytes 8 (cwc_boot_epoch config)"
    "sub 28 36 (header_fields config) = to_le_bytes 8 (cwc_recovered_cursor config)"
    "sub 36 44 (header_fields config) = to_le_bytes 8 (cwc_first_window_ordinal config)"
    "sub 44 52 (header_fields config) = to_le_bytes 8 (cwp_target_duration_us (cwc_window_policy config))"
    "sub 52 60 (header_fields config) = replicate 8 0"
    by (simp_all add: header_fields_def slices)
  show ?thesis
    using assms
    by (simp add: decode_file_header_def wal_sizes read_defs c f s config_ok_def capture_window_policy_new_def header_of_def
        list_ex_iff)
qed

lemma validate_header_bytes: "config_ok config \<Longrightarrow> validate_file_header (header_bytes config) config = Ok ()"
  by (simp add: validate_file_header_def decode_header_bytes header_of_def)

definition log_start :: "CaptureWalConfig \<Rightarrow> log_state" where
  "log_start config =
     (ledger_new (cwc_window_policy config) (cwc_hardware_id config) (cwc_boot_epoch config)
        (cwc_recovered_cursor config) (cwc_first_window_ordinal config),
      recovery_default\<lparr>cwr_durable_cursor := cwc_recovered_cursor config\<rparr>)"

lemma recover_file:
  assumes "config_ok config" "list_all record_ok rs" "file = header_bytes config @ concat (map record_bytes rs) @ tail"
    "length file < 2 ^ 63" "tail = [] \<or> (\<exists>r rest. record_ok r \<and> rest \<noteq> [] \<and> tail @ rest = record_bytes r)"
    "wal_fold (log_start config) rs = Some (t, d)"
  shows "recover file config = Ok (t, d\<lparr>cwr_truncated_tail_bytes := of_nat (length tail)\<rparr>, length file - length tail)"
proof -
  have "recover_from config file (fst (log_start config)) (snd (log_start config)) (length (header_bytes config)) =
      Ok (t, d\<lparr>cwr_truncated_tail_bytes := of_nat (length tail)\<rparr>, length file - length tail)"
    using assms(6) by (intro recover_log [OF assms(2-5)])
      (simp_all add: log_start_def ledger_new_def recovery_default_def)
  moreover have "sub 0 64 file = header_bytes config" "64 \<le> length file" by (simp_all add: assms(3) sub_def)
  ultimately show ?thesis
    by (simp add: recover_def wal_sizes validate_header_bytes [OF assms(1)] log_start_def)
qed

section \<open>Staging and writing\<close>

datatype Staging = Stage_Chunk HardwareId SampleChunk | Stage_Gap Gap | Stage_Break ContinuityBreak

fun staged_as :: "Staging \<Rightarrow> CaptureRecord" where
  "staged_as (Stage_Chunk h c) = CRec_SampleChunk c"
| "staged_as (Stage_Gap g) = CRec_Gap g"
| "staged_as (Stage_Break b) = CRec_ContinuityBreak b"

fun stage :: "CaptureWalBatch \<Rightarrow> Staging \<Rightarrow> (CaptureWalBatch, SequenceCursor, CaptureWalError) outcome" where
  "stage batch (Stage_Chunk h c) = stage_chunk batch h c"
| "stage batch (Stage_Gap g) = stage_gap batch g"
| "stage batch (Stage_Break b) = stage_continuity_break batch b"

fun persist :: "CaptureWalSink \<Rightarrow> Staging \<Rightarrow> WriteOutcome \<Rightarrow> (CaptureWalSink, unit, CaptureWalError) outcome" where
  "persist s (Stage_Chunk h c) io = persist_chunk s h c io"
| "persist s (Stage_Gap g) io = persist_gap s g io"
| "persist s (Stage_Break b) io = persist_continuity_break s b io"

definition staged_by :: "CaptureWalBatch \<Rightarrow> CaptureRecord \<Rightarrow> CaptureWalBatch \<Rightarrow> bool" where
  "staged_by b r b' \<longleftrightarrow>
     wal_apply (wb_ledger b, wb_recovery b) r = Some (wb_ledger b', wb_recovery b') \<and>
     wb_bytes b' = wb_bytes b @ record_bytes r \<and> wb_record_count b' = wb_record_count b + 1 \<and>
     wb_base_durable_len b' = wb_base_durable_len b \<and> wb_base_recovery b' = wb_base_recovery b"

lemma stage_planned_Ok:
  assumes "stage_planned b (record_bytes r) plan (counters_of r) = (Ok v, b')" "planned (wb_ledger b) applied = Ok plan"
    "ledger_append (wb_ledger b) r = planned_commit (wb_ledger b) (planned (wb_ledger b) applied)"
  shows "staged_by b r b'"
proof -
  from assms(2) obtain sealed t where a: "applied = (Ok sealed, t)" and p: "plan = ledger_plan (wb_ledger b) t sealed"
    by (cases applied) (auto simp: planned_def result_iffs)
  have "ledger_append (wb_ledger b) r = (Ok sealed, t)" by (simp add: assms(3) planned_commit_Ok a)
  with assms(1) p show ?thesis
    by (auto simp: staged_by_def stage_planned_def ledger_commit_def ledger_plan_def result_iffs wal_apply_Some
        usize_checked_add_def split: if_splits)
qed

text \<open>A refused staging leaves the batch alone.\<close>

lemma try_with_keeps:
  assumes "\<And>x. r = Ok x \<Longrightarrow> (\<exists>v. fst (k x) = Ok v) \<or> snd (k x) = s"
  shows "(\<exists>v. fst (try_with r s k) = Ok v) \<or> snd (try_with r s k) = s"
  using assms by (cases r) auto

lemma stage_planned_keeps:
  "(\<exists>v. fst (stage_planned b bs plan k) = Ok v) \<or> snd (stage_planned b bs plan k) = b"
  unfolding stage_planned_def by (cases "ledger_commit (wb_ledger b) plan") (simp, intro try_with_keeps, simp)

lemma stage_keeps: "(\<exists>v. fst (stage b x) = Ok v) \<or> snd (stage b x) = b"
  by (cases x)
    (simp_all only: stage.simps stage_chunk_def stage_gap_def stage_continuity_break_def,
      (intro try_with_keeps, rule stage_planned_keeps)+)

lemma stage_outcome:
  "stage b x = (res, b') \<Longrightarrow> (case res of Ok v \<Rightarrow> staged_by b (staged_as x) b' | _ \<Rightarrow> b' = b)"
proof (cases res)
  case (Ok v)
  assume s: "stage b x = (res, b')"
  show ?thesis
  proof (cases x)
    case (Stage_Chunk h c)
    with s Ok obtain plan bs where p: "plan_chunk (wb_ledger b) h c = Ok plan" and e: "encode_chunk_record c = Ok bs"
      and st: "stage_planned b bs plan (counters_of (CRec_SampleChunk c)) = (Ok v, b')"
      by (auto simp: stage_chunk_def result_iffs)
    from p obtain sealed t where "apply_chunk (wb_ledger b) h c = (Ok sealed, t)"
      by (cases "apply_chunk (wb_ledger b) h c") (auto simp: plan_chunk_def planned_def result_iffs)
    then have h: "h = cl_hardware_id (wb_ledger b)" by (rule apply_chunk_cases)
    from e have "bs = record_bytes (CRec_SampleChunk c)" by (simp add: encode_chunk_record_def result_iffs record_bytes_def)
    with st p h Ok Stage_Chunk show ?thesis by (auto simp: plan_chunk_def intro!: stage_planned_Ok)
  next
    case (Stage_Gap g)
    with s Ok show ?thesis
      by (auto simp: stage_gap_def result_iffs plan_gap_def encode_gap_record_def record_bytes_def intro!: stage_planned_Ok)
  next
    case (Stage_Break k)
    with s Ok show ?thesis
      by (auto simp: stage_continuity_break_def result_iffs plan_continuity_break_def encode_break_record_def record_bytes_def
          intro!: stage_planned_Ok)
  qed
qed (use stage_keeps [of b x] in auto)

lemma persist_stages:
  "persist s x io = try_with (begin_batch s) s (\<lambda>b. let (staged, b') = stage b x in
     try_with staged s (\<lambda>_. commit_batch s b' io))"
  by (cases x) (simp_all add: persist_chunk_def persist_gap_def persist_continuity_break_def)

section \<open>The invariant of a sink\<close>

abbreviation log_bytes :: "CaptureRecord list \<Rightarrow> bytes" where
  "log_bytes rs \<equiv> concat (map record_bytes rs)"

text \<open>The report of a sink, without the length of the torn tail its opening cut off.\<close>

definition report_of :: "CaptureWalRecovery \<Rightarrow> CaptureWalRecovery" where
  "report_of c = c\<lparr>cwr_truncated_tail_bytes := 0\<rparr>"

text \<open>A sink whose file holds the records \<open>rs\<close>, and after them a part of the bytes of the records \<open>ps\<close> a failed
  operation tried to write.\<close>

definition sink_ok :: "CaptureWalConfig \<Rightarrow> CaptureRecord list \<Rightarrow> CaptureRecord list \<Rightarrow> CaptureWalSink \<Rightarrow> bool" where
  "sink_ok config rs ps s \<longleftrightarrow>
     list_all record_ok rs \<and> list_all record_ok ps \<and>
     (\<exists>k. wf_content (ws_file s) = header_bytes config @ log_bytes rs @ take k (log_bytes ps)) \<and>
     length (wf_content (ws_file s)) < 2 ^ 63 \<and>
     ws_durable_len s = 64 + length (log_bytes rs) \<and>
     wal_fold (log_start config) rs = Some (ws_ledger s, report_of (ws_recovery s)) \<and>
     wal_fold (ws_ledger s, report_of (ws_recovery s)) ps \<noteq> None \<and>
     (\<not> ws_poisoned s \<longrightarrow> ps = [] \<and> wf_position (ws_file s) = length (wf_content (ws_file s)))"

lemma staged_recovery_report:
  "staged_recovery c t k sealed = Ok d \<Longrightarrow> staged_recovery (report_of c) t k sealed = Ok (report_of d)"
  by (cases sealed) (auto simp: staged_recovery_def report_of_def result_iffs Let_def)

lemma wal_fold_report:
  "wal_fold (l, c) rs = Some (t, d) \<Longrightarrow> wal_fold (l, report_of c) rs = Some (t, report_of d)"
proof (induction rs arbitrary: l c)
  case (Cons r rs)
  from Cons.prems obtain u e where "wal_apply (l, c) r = Some (u, e)" "wal_fold (u, e) rs = Some (t, d)"
    by (auto simp: bind_eq_Some_conv)
  then show ?case using Cons.IH [of u e] by (auto simp: wal_apply_Some bind_eq_Some_conv dest: staged_recovery_report)
qed simp

lemma staged_recovery_counts:
  "staged_recovery c t k sealed = Ok d \<Longrightarrow>
     cwr_durable_cursor d = cl_next_cursor t \<and> unat (cwr_record_count d) = unat (cwr_record_count c) + 1"
  by (auto simp: staged_recovery_def result_iffs Let_def checked_add_Some split: option.splits)

lemma wal_fold_counts:
  "wal_fold (l, c) rs = Some (t, d) \<Longrightarrow> cwr_durable_cursor c = cl_next_cursor l \<Longrightarrow>
     cwr_durable_cursor d = cl_next_cursor t \<and> unat (cwr_record_count d) = unat (cwr_record_count c) + length rs"
proof (induction rs arbitrary: l c)
  case (Cons r rs)
  from Cons.prems(1) obtain u e where "wal_apply (l, c) r = Some (u, e)" and f: "wal_fold (u, e) rs = Some (t, d)"
    by (auto simp: bind_eq_Some_conv)
  then have "cwr_durable_cursor e = cl_next_cursor u" "unat (cwr_record_count e) = unat (cwr_record_count c) + 1"
    by (auto simp: wal_apply_Some dest: staged_recovery_counts)
  with Cons.IH [OF f] show ?case by simp
qed simp

lemma log_start_counts:
  assumes "wal_fold (log_start config) rs = Some (t, d)"
  shows "cwr_durable_cursor d = cl_next_cursor t" "unat (cwr_record_count d) = length rs"
proof -
  have "wal_fold (fst (log_start config), snd (log_start config)) rs = Some (t, d)" using assms by simp
  note wal_fold_counts [OF this]
  then show "cwr_durable_cursor d = cl_next_cursor t" "unat (cwr_record_count d) = length rs"
    by (simp_all add: log_start_def ledger_new_def recovery_default_def)
qed

lemma wal_fold_ledger:
  "wal_fold (l, c) rs = Some (t, d) \<Longrightarrow> snd (ledger_log l rs) = t"
proof (induction rs arbitrary: l c)
  case (Cons r rs)
  from Cons.prems obtain u e where "wal_apply (l, c) r = Some (u, e)" "wal_fold (u, e) rs = Some (t, d)"
    by (auto simp: bind_eq_Some_conv)
  with Cons.IH [of u e] show ?case by (auto simp: wal_apply_Some split: prod.splits)
qed simp

text \<open>A write appends its bytes or a part of them.\<close>

lemma write_and_sync_outcome:
  assumes "sink_ok config rs [] s" "\<not> ws_poisoned s" "list_all record_ok ps"
    "wal_fold (ws_ledger s, ws_recovery s) ps = Some (t, d)" "write_and_sync s (log_bytes ps) io = (res, s')"
  shows "case res of
      Ok _ \<Rightarrow> sink_ok config (rs @ ps) [] (s'\<lparr>ws_durable_len := ws_durable_len s + length (log_bytes ps), ws_ledger := t,
                ws_recovery := d\<rparr>)
    | Err _ \<Rightarrow> sink_ok config rs ps s' \<and> ws_poisoned s'
    | Panic \<Rightarrow> False"
proof -
  let ?f = "ws_file s"
  have content: "wf_content ?f = header_bytes config @ log_bytes rs"
    and pos: "wf_position ?f = length (wf_content ?f)" "length (wf_content ?f) < 2 ^ 63"
    using assms(1,2) by (auto simp: sink_ok_def)
  have w: "write_all ?f bs = \<lparr>wf_content = wf_content ?f @ bs, wf_position = length (wf_content ?f) + length bs\<rparr>" for bs
    by (simp add: write_all_def pos)
  have room: "wf_position ?f + length bs < 2 ^ 63"
    if "within_limit ?f (log_bytes ps) io = WO_WriteFailed k" "bs = take k (log_bytes ps)" for bs k
    using that pos
    by (auto simp: within_limit_def MAX_FILE_BYTES_def Let_def min_def split: if_splits WriteOutcome.splits)
  have full: "wf_position ?f + length (log_bytes ps) < 2 ^ 63" if "within_limit ?f (log_bytes ps) io = o'" "\<forall>k. o' \<noteq> WO_WriteFailed k" for o'
    using that by (auto simp: within_limit_def MAX_FILE_BYTES_def Let_def split: if_splits WriteOutcome.splits)
  have f: "wal_fold (log_start config) (rs @ ps) = Some (t, report_of d)"
    "wal_fold (ws_ledger s, report_of (ws_recovery s)) ps \<noteq> None"
    using assms(1) wal_fold_report [OF assms(4)] by (auto simp: sink_ok_def wal_fold_append)
  show ?thesis
  proof (cases "within_limit ?f (log_bytes ps) io")
    case WO_Ok
    with assms f w content pos full show ?thesis by (auto simp: write_and_sync_def sink_ok_def)
  next
    case (WO_WriteFailed k)
    with assms f w content pos room show ?thesis by (auto simp: write_and_sync_def sink_ok_def)
  next
    case WO_SyncFailed
    with assms f w content pos full show ?thesis
      by (auto simp: write_and_sync_def sink_ok_def intro!: exI [of _ "length (log_bytes ps)"])
  qed
qed

section \<open>Operations keep the invariant\<close>

fun stage_all :: "CaptureWalBatch \<Rightarrow> Staging list \<Rightarrow> CaptureRecord list \<times> CaptureWalBatch" where
  "stage_all b [] = ([], b)"
| "stage_all b (x # xs) =
     (case stage b x of
        (Ok _, b') \<Rightarrow> (let (rs, b'') = stage_all b' xs in (staged_as x # rs, b''))
      | (_, b') \<Rightarrow> stage_all b' xs)"

definition batch_of :: "CaptureWalSink \<Rightarrow> CaptureRecord list \<Rightarrow> CaptureWalBatch \<Rightarrow> bool" where
  "batch_of s rs b \<longleftrightarrow>
     wb_base_durable_len b = ws_durable_len s \<and> wb_base_recovery b = ws_recovery s \<and>
     wal_fold (ws_ledger s, ws_recovery s) rs = Some (wb_ledger b, wb_recovery b) \<and>
     wb_bytes b = log_bytes rs \<and> wb_record_count b = length rs"

lemma begin_batch_of: "begin_batch s = Ok b \<Longrightarrow> batch_of s [] b"
  by (auto simp: begin_batch_def result_iffs batch_of_def)

lemma batch_of_staged: "batch_of s rs b \<Longrightarrow> staged_by b r b' \<Longrightarrow> batch_of s (rs @ [r]) b'"
  by (auto simp: batch_of_def staged_by_def wal_fold_append)

lemma stage_all_batch:
  "batch_of s rs b \<Longrightarrow> stage_all b xs = (qs, b') \<Longrightarrow>
     batch_of s (rs @ qs) b' \<and> set qs \<subseteq> staged_as ` set xs"
proof (induction xs arbitrary: rs b qs)
  case (Cons x xs)
  obtain res b1 where st: "stage b x = (res, b1)" by (cases "stage b x")
  show ?case
  proof (cases res)
    case (Ok v)
    with st stage_outcome [OF st] Cons.prems have b1: "batch_of s (rs @ [staged_as x]) b1"
      by (auto intro: batch_of_staged)
    with Ok st Cons.prems(2) Cons.IH [OF b1] show ?thesis by (auto split: prod.splits)
  next
    case (Err e)
    with st stage_outcome [OF st] Cons.prems Cons.IH [of rs b qs] show ?thesis by auto
  next
    case Panic
    with st stage_outcome [OF st] Cons.prems Cons.IH [of rs b qs] show ?thesis by auto
  qed
qed simp

text \<open>What an operation that tries to write the records \<open>ps\<close> does to a sink that holds \<open>rs\<close>.\<close>

definition op_result ::
  "CaptureWalConfig \<Rightarrow> CaptureRecord list \<Rightarrow> CaptureRecord list \<Rightarrow> CaptureWalSink \<Rightarrow> ('a, CaptureWalError) result \<Rightarrow>
     CaptureWalSink \<Rightarrow> bool" where
  "op_result config rs ps s res s' \<longleftrightarrow>
     (case res of
        Ok _ \<Rightarrow> \<not> ws_poisoned s \<and> \<not> ws_poisoned s' \<and> sink_ok config (rs @ ps) [] s'
      | Err _ \<Rightarrow> s' = s \<or> \<not> ws_poisoned s \<and> ws_poisoned s' \<and> sink_ok config rs ps s'
      | Panic \<Rightarrow> False)"

lemma write_not_poisoned: "write_and_sync s bs io = (Ok v, s') \<Longrightarrow> ws_poisoned s' = ws_poisoned s \<and> ws_durable_len s' = ws_durable_len s"
  by (auto simp: write_and_sync_def split: WriteOutcome.splits)

lemma written_result:
  assumes "sink_ok config rs [] s" "\<not> ws_poisoned s" "list_all record_ok ps"
    "wal_fold (ws_ledger s, ws_recovery s) ps = Some (t, d)"
    "(let (written, s1) = write_and_sync s (log_bytes ps) io in
        try_with written s1 (\<lambda>_. (Ok v, s1\<lparr>ws_durable_len := ws_durable_len s + length (log_bytes ps), ws_ledger := t,
          ws_recovery := d\<rparr>))) = (res, s')"
  shows "op_result config rs ps s res s'"
proof -
  obtain written s1 where w: "write_and_sync s (log_bytes ps) io = (written, s1)"
    by (cases "write_and_sync s (log_bytes ps) io")
  note o = write_and_sync_outcome [OF assms(1-4) w]
  show ?thesis
    using o assms(2,5) w by (cases written) (auto simp: op_result_def dest: write_not_poisoned)
qed

lemma commit_batch_result:
  assumes "\<not> ws_poisoned s \<Longrightarrow> sink_ok config rs [] s" "batch_of s ps b" "list_all record_ok ps"
    "commit_batch s b io = (res, s')"
  shows "op_result config rs ps s res s'"
proof (cases "ws_poisoned s \<or> ps = [] \<or> \<not> ws_durable_len s + length (log_bytes ps) < 2 ^ 64")
  case True
  with assms(2,4) show ?thesis
    by (auto simp: commit_batch_def ensure_healthy_def batch_of_def usize_checked_add_def op_result_def
        simp del: length_concat split: if_splits)
next
  case False
  then have h: "\<not> ws_poisoned s" "ps \<noteq> []" "ws_durable_len s + length (log_bytes ps) < 2 ^ 64" by auto
  have "wal_fold (ws_ledger s, ws_recovery s) ps = Some (wb_ledger b, wb_recovery b)"
    using assms(2) by (simp add: batch_of_def)
  then show ?thesis
    using assms(2,4) h
    by (intro written_result [OF assms(1) [OF h(1)] h(1) assms(3), where v = "()" and io = io])
      (auto simp: commit_batch_def ensure_healthy_def batch_of_def usize_checked_add_def simp del: length_concat)
qed

lemma finish_fold:
  assumes "finish l = (Ok (Some m), after)" "cwr_durable_cursor c = cl_next_cursor l"
    "checked_add (cwr_record_count c) 1 = Some x" "checked_add (cwr_sealed_window_count c) 1 = Some y"
  shows "wal_fold (l, c) [CRec_WindowSeal] =
    Some (after, c\<lparr>cwr_record_count := x, cwr_sealed_window_count := y, cwr_last_sealed_window := Some m\<rparr>)"
proof -
  have ap: "ledger_append l CRec_WindowSeal = (Ok (Some m), after)" using assms(1) by simp
  then have "cl_next_cursor after = cwr_durable_cursor c" using append_stream [OF ap] assms(2) by simp
  with ap assms(3,4) show ?thesis
    by (simp add: wal_apply_def staged_recovery_def record_counters_default_def wal_checked_add_def Let_def)
qed

lemma finish_window_cases:
  assumes "finish_window s io = (res, s')" "\<not> ws_poisoned s"
  obtains (seal) m after x y where "finish (ws_ledger s) = (Ok (Some m), after)"
    "checked_add (cwr_record_count (ws_recovery s)) 1 = Some x" "checked_add (cwr_sealed_window_count (ws_recovery s)) 1 = Some y"
    "(let (written, s1) = write_and_sync s (log_bytes [CRec_WindowSeal]) io in
        try_with written s1 (\<lambda>_. (Ok (Some m), s1\<lparr>ws_durable_len := ws_durable_len s + length (log_bytes [CRec_WindowSeal]),
          ws_ledger := after, ws_recovery := (ws_recovery s)\<lparr>cwr_record_count := x, cwr_sealed_window_count := y,
            cwr_last_sealed_window := Some m\<rparr>\<rparr>))) = (res, s')"
  | (nothing) "cl_open (ws_ledger s) = None" "res = Ok None" "s' = s"
  | (refused) e where "res = Err e" "s' = s"
proof -
  obtain finished after where f: "finish (ws_ledger s) = (finished, after)" by (cases "finish (ws_ledger s)")
  have np: "finished \<noteq> Panic" using apply_no_panic(3) [of "ws_ledger s"] f by auto
  have none: "cl_open (ws_ledger s) = None" if "finished = Ok None"
    using that f by (auto simp: finish_def seal_some_def result_iffs split: if_splits)
  note d = finish_window_def ensure_healthy_def wal_checked_add_def record_bytes_def usize_checked_add_def Let_def
  show thesis
  proof (cases "\<exists>m x y. finished = Ok (Some m) \<and> ws_durable_len s + length (log_bytes [CRec_WindowSeal]) < 2 ^ 64 \<and>
      checked_add (cwr_record_count (ws_recovery s)) 1 = Some x \<and> checked_add (cwr_sealed_window_count (ws_recovery s)) 1 = Some y")
    case True
    then obtain m x y where m: "finished = Ok (Some m)" "ws_durable_len s + length (log_bytes [CRec_WindowSeal]) < 2 ^ 64"
      "checked_add (cwr_record_count (ws_recovery s)) 1 = Some x" "checked_add (cwr_sealed_window_count (ws_recovery s)) 1 = Some y"
      by blast
    show thesis by (rule seal [OF f [unfolded m(1)] m(3,4)]) (use assms f m in \<open>simp add: d\<close>)
  next
    case False
    show thesis
    proof (cases "finished = Ok None")
      case True
      show thesis by (rule that(2) [OF none [OF True]]) (use assms f True in \<open>simp_all add: d\<close>)
    next
      case other: False
      have "(\<exists>e. res = Err e) \<and> s' = s"
        using False other assms f np
        by (cases finished) (auto simp: d try_with_ok_or split: option.splits if_splits)
      with refused show thesis by blast
    qed
  qed
qed

lemma finish_window_result:
  assumes "\<not> ws_poisoned s \<Longrightarrow> sink_ok config rs [] s" "finish_window s io = (res, s')"
    and ps: "ps = (if cl_open (ws_ledger s) = None then [] else [CRec_WindowSeal])"
  shows "op_result config rs ps s res s'"
proof (cases "ws_poisoned s")
  case True
  with assms(2) show ?thesis by (auto simp: finish_window_def ensure_healthy_def op_result_def)
next
  case False
  note ok = assms(1) [OF False]
  from assms(2) False show ?thesis
  proof (cases rule: finish_window_cases)
    case (seal m after x y)
    have p: "ps = [CRec_WindowSeal]" using seal(1) by (cases "cl_open (ws_ledger s)") (simp_all add: ps finish_def)
    have "cwr_durable_cursor (ws_recovery s) = cl_next_cursor (ws_ledger s)"
      using ok log_start_counts(1) [of config rs "ws_ledger s" "report_of (ws_recovery s)"]
      by (simp add: sink_ok_def report_of_def)
    note fold = finish_fold [OF seal(1) this seal(2,3)]
    show ?thesis unfolding p by (rule written_result [OF ok False _ fold seal(4)]) simp
  next
    case nothing
    with ok False show ?thesis by (simp add: op_result_def ps)
  next
    case refused
    then show ?thesis by (simp add: op_result_def)
  qed
qed

section \<open>Histories with crashes\<close>

datatype WalOp =
  WOp_Batch "Staging list" WriteOutcome | WOp_Persist Staging WriteOutcome | WOp_Finish WriteOutcome | WOp_Crash nat

fun op_ok :: "WalOp \<Rightarrow> bool" where
  "op_ok (WOp_Batch xs io) = list_all (\<lambda>x. record_ok (staged_as x)) xs"
| "op_ok (WOp_Persist x io) = record_ok (staged_as x)"
| "op_ok op = True"

text \<open>The records an operation tries to write, and the operation.\<close>

fun attempted :: "CaptureWalSink \<Rightarrow> WalOp \<Rightarrow> CaptureRecord list" where
  "attempted s (WOp_Batch xs io) = (case begin_batch s of Ok b \<Rightarrow> fst (stage_all b xs) | _ \<Rightarrow> [])"
| "attempted s (WOp_Persist x io) = [staged_as x]"
| "attempted s (WOp_Finish io) = (if cl_open (ws_ledger s) = None then [] else [CRec_WindowSeal])"
| "attempted s (WOp_Crash n) = []"

fun perform :: "CaptureWalSink \<Rightarrow> WalOp \<Rightarrow> (CaptureWalSink, unit, CaptureWalError) outcome" where
  "perform s (WOp_Batch xs io) = try_with (begin_batch s) s (\<lambda>b. commit_batch s (snd (stage_all b xs)) io)"
| "perform s (WOp_Persist x io) = persist s x io"
| "perform s (WOp_Finish io) = (let (res, s') = finish_window s io in (map_ok (\<lambda>_. ()) res, s'))"
| "perform s (WOp_Crash n) = (Ok (), s)"

lemma begin_batch_cases:
  "begin_batch s = (if ws_poisoned s then Err WAL_Poisoned else
     Ok \<lparr>wb_base_durable_len = ws_durable_len s, wb_base_recovery = ws_recovery s,
           wb_ledger = ws_ledger s, wb_recovery = ws_recovery s, wb_bytes = [], wb_record_count = 0, wb_sealed = False\<rparr>)"
  by (simp add: begin_batch_def ensure_healthy_def)

lemma stage_no_panic:
  assumes "record_ok (staged_as x)"
  shows "fst (stage b x) \<noteq> Panic"
proof -
  have st: "fst (stage_planned b bs plan k) \<noteq> Panic" for bs plan k
    by (auto simp: stage_planned_def ledger_commit_def staged_recovery_def wal_checked_add_def try_reserve_def Let_def
        result_iffs split: prod.splits try_with_split option.splits if_splits)
  show ?thesis
  proof (cases x)
    case (Stage_Chunk h c)
    then have z: "sch_sample_count (sc_header c) \<noteq> 0" "sample_chunk_validate c \<noteq> Panic"
      using assms sample_chunk_validate_Ok [of c] by (auto simp: sample_chunk_ok_def chunk_header_ok_def)
    have "plan_chunk l h c \<noteq> Panic" for l
      using apply_chunk_no_panic [OF z(1), of l h] by (auto simp: plan_chunk_def planned_def result_iffs)
    with z st Stage_Chunk show ?thesis
      by (auto simp: stage_chunk_def ensure_open_window_def encode_chunk_record_def result_iffs split: try_with_split)
  next
    case (Stage_Gap g)
    have "plan_gap l g \<noteq> Panic" for l
      using apply_no_panic(1) [of l g] by (auto simp: plan_gap_def planned_def result_iffs)
    with st Stage_Gap show ?thesis by (auto simp: stage_gap_def ensure_open_window_def result_iffs split: try_with_split)
  next
    case (Stage_Break k)
    then have "plan_continuity_break l k \<noteq> Panic" for l
      using apply_no_panic(2) [of k l] assms by (auto simp: plan_continuity_break_def planned_def result_iffs)
    with st Stage_Break show ?thesis
      by (auto simp: stage_continuity_break_def ensure_open_window_def result_iffs split: try_with_split)
  qed
qed

lemma perform_result:
  assumes "op_ok op" "\<not> ws_poisoned s \<Longrightarrow> sink_ok config rs [] s" "perform s op = (res, s')" "\<And>n. op \<noteq> WOp_Crash n"
  shows "op_result config rs (attempted s op) s res s'"
proof (cases op)
  case (WOp_Batch xs io)
  show ?thesis
  proof (cases "begin_batch s")
    case (Ok b)
    obtain qs b' where a: "stage_all b xs = (qs, b')" by (cases "stage_all b xs")
    note q = stage_all_batch [OF begin_batch_of [OF Ok] a]
    then have "list_all record_ok qs" using assms(1) WOp_Batch by (auto simp: list_all_iff)
    with q Ok a assms(3) WOp_Batch show ?thesis by (auto intro!: commit_batch_result [OF assms(2)])
  qed (use assms(3) WOp_Batch in \<open>auto simp: op_result_def begin_batch_cases split: if_splits\<close>)
next
  case (WOp_Persist x io)
  show ?thesis
  proof (cases "begin_batch s")
    case (Ok b)
    obtain r b' where st: "stage b x = (r, b')" by (cases "stage b x")
    show ?thesis
    proof (cases r)
      case (Ok v)
      with stage_outcome [OF st] batch_of_staged [OF begin_batch_of [OF \<open>begin_batch s = Ok b\<close>]]
      have "batch_of s [staged_as x] b'" by fastforce
      with Ok st \<open>begin_batch s = Ok b\<close> assms(1,3) WOp_Persist show ?thesis
        by (auto simp: persist_stages intro!: commit_batch_result [OF assms(2)])
    next
      case (Err e)
      with st \<open>begin_batch s = Ok b\<close> assms(3) WOp_Persist show ?thesis by (auto simp: persist_stages op_result_def)
    next
      case Panic
      with stage_no_panic [of x b] st assms(1) WOp_Persist show ?thesis by simp
    qed
  qed (use assms(3) WOp_Persist in \<open>auto simp: persist_stages op_result_def begin_batch_cases split: if_splits\<close>)
next
  case (WOp_Finish io)
  obtain r t where f: "finish_window s io = (r, t)" by (cases "finish_window s io")
  note finish_window_result [OF assms(2) f refl]
  with f assms(3) WOp_Finish show ?thesis by (cases r) (auto simp: op_result_def)
qed (use assms(4) in simp)

lemma wal_fold_prefix: "wal_fold st ps \<noteq> None \<Longrightarrow> wal_fold st (take j ps) \<noteq> None"
  using wal_fold_append [of st "take j ps" "drop j ps"] by (cases "wal_fold st (take j ps)") auto

text \<open>A part of a log is a shorter log and at most one torn record.\<close>

lemma take_log:
  assumes "list_all record_ok ps"
  shows "\<exists>j tail. take k (log_bytes ps) = log_bytes (take j ps) @ tail \<and>
    (tail = [] \<or> (\<exists>r rest. record_ok r \<and> rest \<noteq> [] \<and> tail @ rest = record_bytes r))"
  using assms
proof (induction ps arbitrary: k)
  case (Cons r ps)
  show ?case
  proof (cases "k < length (record_bytes r)")
    case True
    then have "take k (log_bytes (r # ps)) = log_bytes (take 0 (r # ps)) @ take k (record_bytes r)"
      "drop k (record_bytes r) \<noteq> []" by simp_all
    moreover have "record_ok r" using Cons.prems by simp
    ultimately show ?thesis by (metis append_take_drop_id)
  next
    case False
    have ok: "list_all record_ok ps" using Cons.prems by simp
    obtain j tail where t: "take (k - length (record_bytes r)) (log_bytes ps) = log_bytes (take j ps) @ tail"
      "tail = [] \<or> (\<exists>r rest. record_ok r \<and> rest \<noteq> [] \<and> tail @ rest = record_bytes r)"
      using Cons.IH [OF ok] by blast
    with False have "take k (log_bytes (r # ps)) = log_bytes (take (Suc j) (r # ps)) @ tail" by simp
    with t(2) show ?thesis by blast
  qed
qed simp

lemma report_of_truncated [simp]:
  "report_of (c\<lparr>cwr_truncated_tail_bytes := n\<rparr>) = report_of c" "report_of (report_of c) = report_of c"
  "cwr_record_count (report_of c) = cwr_record_count c"
  by (simp_all add: report_of_def)

lemma reopen:
  assumes "config_ok config" "sink_ok config rs ps s"
  shows "\<exists>j s'. sink_open (take (ws_durable_len s + n) (wf_content (ws_file s))) config = Ok s' \<and>
    sink_ok config (rs @ take j ps) [] s' \<and> \<not> ws_poisoned s'"
proof -
  let ?file = "take (ws_durable_len s + n) (wf_content (ws_file s))"
  from assms(2) obtain k where content: "wf_content (ws_file s) = header_bytes config @ log_bytes rs @ take k (log_bytes ps)"
    and len: "length (wf_content (ws_file s)) < 2 ^ 63" "ws_durable_len s = 64 + length (log_bytes rs)"
    and fold: "wal_fold (log_start config) rs = Some (ws_ledger s, report_of (ws_recovery s))"
      "wal_fold (ws_ledger s, report_of (ws_recovery s)) ps \<noteq> None"
    and ok: "list_all record_ok rs" "list_all record_ok ps"
    unfolding sink_ok_def by blast
  obtain j tail where j: "take (min n k) (log_bytes ps) = log_bytes (take j ps) @ tail"
    "tail = [] \<or> (\<exists>r rest. record_ok r \<and> rest \<noteq> [] \<and> tail @ rest = record_bytes r)"
    using take_log [OF ok(2)] by blast
  let ?rs = "rs @ take j ps"
  have fe: "?file = header_bytes config @ log_bytes ?rs @ tail"
    using j(1) by (simp add: content len(2) take_append)
  have flen: "length ?file < 2 ^ 63" using len(1) by simp
  have rok: "list_all record_ok ?rs" using ok by (auto simp: list_all_iff dest: in_set_takeD)
  obtain t d where f: "wal_fold (log_start config) ?rs = Some (t, d)"
    using fold wal_fold_prefix [OF fold(2), of j] by (auto simp: wal_fold_append)
  have r: "recover ?file config = Ok (t, d\<lparr>cwr_truncated_tail_bytes := of_nat (length tail)\<rparr>, length ?file - length tail)"
    by (rule recover_file [OF assms(1) rok fe flen j(2) f])
  have d: "report_of d = d"
  proof -
    have "wal_fold (fst (log_start config), report_of (snd (log_start config))) ?rs = Some (t, report_of d)"
      using f by (intro wal_fold_report) simp
    moreover have "(fst (log_start config), report_of (snd (log_start config))) = log_start config"
      by (simp add: log_start_def report_of_def recovery_default_def)
    ultimately show ?thesis using f by simp
  qed
  have "?file \<noteq> []" "cwc_boot_epoch config \<noteq> 0" using assms(1) fe by (auto simp: config_ok_def simp flip: length_0_conv)
  moreover have "take (length ?file - length tail) ?file = header_bytes config @ log_bytes ?rs" unfolding fe by simp
  moreover have "length ?file - length tail = 64 + length (log_bytes ?rs)" unfolding fe by simp
  ultimately show ?thesis
    using r f d rok flen fe
    by (intro exI [of _ j] exI conjI) (auto simp: sink_open_def sink_ok_def)
qed

text \<open>All records of a file, as a caller of \<open>next_record\<close> collects them.\<close>

lemma next_record_advances:
  "next_record rd = (Ok (Some r), rd') \<Longrightarrow> rd_file rd' = rd_file rd \<and> rd_offset rd < rd_offset rd' \<and> rd_offset rd' \<le> length (rd_file rd)"
  by (auto simp: next_record_def Let_def result_iffs wal_sizes usize_checked_add_def bind_eq_Some_conv split: if_splits)

function read_all :: "CaptureWalReader \<Rightarrow> (CaptureRecord list, CaptureWalError) result" where
  "read_all rd =
     (case next_record rd of
        (Ok (Some r), rd') \<Rightarrow> and_then (read_all rd') (\<lambda>rs. Ok (r # rs))
      | (Ok None, _) \<Rightarrow> Ok []
      | (Err e, _) \<Rightarrow> Err e
      | (Panic, _) \<Rightarrow> Panic)"
  by pat_completeness auto
termination
  by (relation "measure (\<lambda>rd. length (rd_file rd) - rd_offset rd)") (auto dest!: next_record_advances [OF sym])

declare read_all.simps [simp del]

definition read_file :: "bytes \<Rightarrow> (CaptureRecord list, CaptureWalError) result" where
  "read_file file = and_then (reader_open file) read_all"

lemma next_record_step:
  assumes "record_ok r" "rd_file rd = pre @ record_bytes r @ post" "length (rd_file rd) < 2 ^ 63" "rd_offset rd = length pre"
    "in_stream (cwh_hardware_id (rd_header rd)) (cwh_boot_epoch (rd_header rd)) r"
  shows "next_record rd = (Ok (Some r), rd\<lparr>rd_offset := length pre + length (record_bytes r)\<rparr>)"
proof -
  note f = record_in_file [OF assms(1-3)]
  have "\<not> length pre = length (rd_file rd)" using f(5) by simp
  then show ?thesis
    using data_bytes_bounds [OF assms(1)] f(4)
    by (simp add: f(1,2,3,5) next_record_def wal_sizes unat_record_prefix [OF assms(1)] record_body assms(4)
        decode_record_data [OF assms(1,5)] Let_def)
qed

lemma read_all_log:
  assumes "list_all record_ok rs" "rd_file rd = pre @ log_bytes rs" "length (rd_file rd) < 2 ^ 63" "rd_offset rd = length pre"
    "list_all (in_stream (cwh_hardware_id (rd_header rd)) (cwh_boot_epoch (rd_header rd))) rs"
  shows "read_all rd = Ok rs"
  using assms
proof (induction rs arbitrary: rd pre)
  case Nil
  then show ?case by (simp add: read_all.simps [of rd] next_record_def)
next
  case (Cons r rs)
  have "next_record rd = (Ok (Some r), rd\<lparr>rd_offset := length pre + length (record_bytes r)\<rparr>)"
    using Cons.prems by (intro next_record_step [where post = "log_bytes rs"]) simp_all
  moreover have "read_all (rd\<lparr>rd_offset := length pre + length (record_bytes r)\<rparr>) = Ok rs"
    using Cons.prems by (intro Cons.IH [of _ "pre @ record_bytes r"]) simp_all
  ultimately show ?case by (simp add: read_all.simps [of rd])
qed

lemma wal_fold_stream:
  "wal_fold (l, c) rs = Some (t, d) \<Longrightarrow> list_all (in_stream (cl_hardware_id l) (cl_boot_epoch l)) rs"
proof (induction rs arbitrary: l c)
  case (Cons r rs)
  from Cons.prems obtain u e where a: "wal_apply (l, c) r = Some (u, e)" and f: "wal_fold (u, e) rs = Some (t, d)"
    by (auto simp: bind_eq_Some_conv)
  from a obtain sealed where "ledger_append l r = (Ok sealed, u)" by (auto simp: wal_apply_Some)
  note append_stream [OF this]
  with Cons.IH [OF f] show ?case by simp
qed simp

lemma sink_ok_reads:
  assumes "config_ok config" "sink_ok config rs [] s"
  shows "read_file (wf_content (ws_file s)) = Ok rs"
proof -
  let ?file = "wf_content (ws_file s)"
  let ?rd = "\<lparr>rd_file = ?file, rd_header = header_of config, rd_offset = 64\<rparr>"
  from assms(2) have s: "list_all record_ok rs" "?file = header_bytes config @ log_bytes rs" "length ?file < 2 ^ 63"
    "wal_fold (fst (log_start config), snd (log_start config)) rs = Some (ws_ledger s, report_of (ws_recovery s))"
    by (auto simp: sink_ok_def)
  have "reader_open ?file = Ok ?rd"
    using decode_header_bytes [OF assms(1)] by (simp add: reader_open_def wal_sizes s(2) sub_def)
  moreover have "read_all ?rd = Ok rs"
    using s wal_fold_stream [OF s(4)]
    by (intro read_all_log [where pre = "header_bytes config"]) (simp_all add: log_start_def ledger_new_def header_of_def)
  ultimately show ?thesis by (simp add: read_file_def)
qed

section \<open>Crash safety\<close>

text \<open>
  A history of one log: the sink, the records whose operations returned success or that a reopening found (the log), and the
  records of an operation that failed in the middle. A crash keeps at least the bytes behind the last barrier that succeeded
  and at most a prefix of those written after it.
\<close>

fun wal_next ::
  "CaptureWalConfig \<Rightarrow> CaptureWalSink \<times> CaptureRecord list \<times> CaptureRecord list \<Rightarrow> WalOp \<Rightarrow>
     (CaptureWalSink \<times> CaptureRecord list \<times> CaptureRecord list) option" where
  "wal_next config (s, log, pending) (WOp_Crash n) =
     (case sink_open (take (ws_durable_len s + n) (wf_content (ws_file s))) config of
        Ok s' \<Rightarrow> Some (s', take (unat (cwr_record_count (ws_recovery s'))) (log @ pending), [])
      | _ \<Rightarrow> None)"
| "wal_next config (s, log, pending) op =
     (case perform s op of
        (Ok _, s') \<Rightarrow> Some (s', log @ attempted s op, pending)
      | (Err _, s') \<Rightarrow> Some (s', log, if ws_poisoned s then pending else if ws_poisoned s' then attempted s op else [])
      | (Panic, _) \<Rightarrow> None)"

fun wal_run ::
  "CaptureWalConfig \<Rightarrow> CaptureWalSink \<times> CaptureRecord list \<times> CaptureRecord list \<Rightarrow> WalOp list \<Rightarrow>
     (CaptureWalSink \<times> CaptureRecord list \<times> CaptureRecord list) option" where
  "wal_run config st [] = Some st"
| "wal_run config st (op # ops) = Option.bind (wal_next config st op) (\<lambda>st. wal_run config st ops)"

lemma sink_ok_count: "sink_ok config rs ps s \<Longrightarrow> unat (cwr_record_count (ws_recovery s)) = length rs"
  using log_start_counts(2) [of config rs "ws_ledger s" "report_of (ws_recovery s)"] by (simp add: sink_ok_def)

lemma wal_next_ok:
  assumes "config_ok config" "sink_ok config log pending s" "op_ok op"
  shows "\<exists>s' more pending'. wal_next config (s, log, pending) op = Some (s', log @ more, pending') \<and>
    sink_ok config (log @ more) pending' s'"
proof (cases "\<exists>n. op = WOp_Crash n")
  case True
  then obtain n where op: "op = WOp_Crash n" by blast
  obtain j s' where "sink_open (take (ws_durable_len s + n) (wf_content (ws_file s))) config = Ok s'"
    and k: "sink_ok config (log @ take j pending) [] s'"
    using reopen [OF assms(1,2)] by blast
  moreover have "take (length log + min (length pending) j) (log @ pending) = log @ take j pending"
    by (simp add: min_def)
  ultimately show ?thesis using sink_ok_count [OF k] by (auto simp: op)
next
  case False
  then have op: "\<And>n. op \<noteq> WOp_Crash n" by blast
  obtain res s' where p: "perform s op = (res, s')" by (cases "perform s op")
  have "sink_ok config log [] s" if "\<not> ws_poisoned s" using assms(2) that by (auto simp: sink_ok_def)
  note r = perform_result [OF assms(3) this p op]
  have e: "wal_next config (s, log, pending) op = (case (res, s') of
        (Ok _, s') \<Rightarrow> Some (s', log @ attempted s op, pending)
      | (Err _, s') \<Rightarrow> Some (s', log, if ws_poisoned s then pending else if ws_poisoned s' then attempted s op else [])
      | (Panic, _) \<Rightarrow> None)"
    using False p by (cases op) auto
  show ?thesis
  proof (cases res)
    case (Ok v)
    then have "sink_ok config (log @ attempted s op) [] s'" "pending = []"
      using r assms(2) by (auto simp: op_result_def sink_ok_def)
    with Ok e show ?thesis by auto
  next
    case (Err x)
    then have "s' = s \<or> \<not> ws_poisoned s \<and> ws_poisoned s' \<and> sink_ok config log (attempted s op) s'"
      using r by (simp add: op_result_def)
    moreover have "pending = []" if "\<not> ws_poisoned s" using assms(2) that by (simp add: sink_ok_def)
    ultimately have "wal_next config (s, log, pending) op = Some (s', log @ [],
        if ws_poisoned s then pending else if ws_poisoned s' then attempted s op else []) \<and>
      sink_ok config (log @ []) (if ws_poisoned s then pending else if ws_poisoned s' then attempted s op else []) s'"
      using assms(2) Err e by auto
    then show ?thesis by blast
  next
    case Panic
    with r show ?thesis by (simp add: op_result_def)
  qed
qed

lemma wal_run_ok:
  assumes "config_ok config" "sink_ok config log pending s" "list_all op_ok ops"
  shows "\<exists>s' more pending'. wal_run config (s, log, pending) ops = Some (s', log @ more, pending') \<and>
    sink_ok config (log @ more) pending' s'"
  using assms(2,3)
proof (induction ops arbitrary: s log pending)
  case Nil
  then show ?case by simp
next
  case (Cons op ops)
  obtain s1 more1 pending1 where n: "wal_next config (s, log, pending) op = Some (s1, log @ more1, pending1)"
    and k: "sink_ok config (log @ more1) pending1 s1"
    using wal_next_ok [OF assms(1) Cons.prems(1), of op] Cons.prems(2) by auto
  obtain s2 more2 pending2 where "wal_run config (s1, log @ more1, pending1) ops = Some (s2, (log @ more1) @ more2, pending2)"
    "sink_ok config ((log @ more1) @ more2) pending2 s2"
    using Cons.IH [OF k] Cons.prems(2) by auto
  with n show ?case by (intro exI [of _ s2] exI [of _ "more1 @ more2"] exI [of _ pending2]) simp
qed

lemma new_sink:
  assumes "config_ok config"
  shows "\<exists>s. sink_open [] config = Ok s \<and> sink_ok config [] [] s"
proof -
  have "recover (header_bytes config) config = Ok (fst (log_start config), (snd (log_start config))\<lparr>cwr_truncated_tail_bytes := 0\<rparr>, 64)"
    using recover_file [of config "[]" "header_bytes config" "[]" "fst (log_start config)" "snd (log_start config)"] assms by simp
  then show ?thesis
    using assms
    by (auto simp: sink_open_def write_file_header_bytes config_ok_def sink_ok_def log_start_def recovery_default_def
        report_of_def)
qed


definition example_wal_config :: CaptureWalConfig where
  "example_wal_config = \<lparr>cwc_hardware_id = HardwareId 1 2 3 4 5 6 7 8, cwc_boot_epoch = 5, cwc_recovered_cursor = 100,
     cwc_first_window_ordinal = 3, cwc_window_policy = \<lparr>cwp_target_duration_us = 10\<rparr>\<rparr>"

definition example_wal_gap :: Gap where
  "example_wal_gap = \<lparr>gap_hardware_id = HardwareId 1 2 3 4 5 6 7 8, gap_boot_epoch = 5, gap_first_missing = 100,
     gap_missing_count = 20, gap_reason = JournalOverflow\<rparr>"


end
