(* ===== verification/Host_Persistence.thy ===== *)
theory Host_Persistence
  imports Host_Transfer Capture_Sink
begin

text \<open>
  The persistence boundary (\<^verbatim>\<open>sensor-host/src/measurement_persistence.rs\<close>): the trait of durable sinks as a record of
  operations, the hand-over of a pending record to any of them, and what the laws of a durable sink give the session. The
  write-ahead log of the capture is such a sink.
\<close>

section \<open>The trait and its client\<close>

record ('s, 'e) DurableMeasurementSink =
  dms_persist_chunk :: "'s \<Rightarrow> HardwareId \<Rightarrow> SampleChunk \<Rightarrow> ('s, unit, 'e) outcome"
  dms_persist_gap :: "'s \<Rightarrow> Gap \<Rightarrow> ('s, unit, 'e) outcome"
  dms_persist_continuity_break :: "'s \<Rightarrow> ContinuityBreak \<Rightarrow> ('s, unit, 'e) outcome"

datatype 'e PersistenceError =
  PE_UnexpectedPhase | PE_MissingPending | PE_NonWireChunk | PE_CursorOverflow
| PE_Contract MeasurementContractError | PE_Sink 'e | PE_Transfer MeasurementTransferError

text \<open>\<open>sink.persist(..).map_err(Sink)?\<close> followed by the receipt.\<close>

definition persisted ::
  "MeasurementTransfer \<Rightarrow> ('s, unit, 'e) outcome \<Rightarrow> (DurableReceipt, 'e PersistenceError) result \<Rightarrow>
     (MeasurementTransfer \<times> 's, DurableReceipt, 'e PersistenceError) outcome" where
  "persisted transfer written receipt =
     try_with (map_err PE_Sink (fst written)) (transfer, snd written) (\<lambda>_.
     try_with receipt (transfer, snd written) (\<lambda>receipt.
       let (confirmed, transfer) = transfer_confirm_durable transfer receipt in
       try_with (map_err PE_Transfer confirmed) (transfer, snd written) (\<lambda>_. (Ok receipt, (transfer, snd written)))))"

definition persist_pending ::
  "('s, 'e) DurableMeasurementSink \<Rightarrow> MeasurementTransfer \<Rightarrow> 's \<Rightarrow>
     (MeasurementTransfer \<times> 's, DurableReceipt, 'e PersistenceError) outcome" where
  "persist_pending ops transfer sink =
     (let session = mt_session transfer in
      case ns_phase session of
        SP_PersistingChunk \<Rightarrow>
          try_with (ok_or (pending_wire_chunk session) PE_NonWireChunk) (transfer, sink) (\<lambda>chunk.
            persisted transfer (dms_persist_chunk ops sink (ns_hardware_id session) chunk)
              (and_then (map_err PE_Contract (chunk_end (sc_header chunk))) (\<lambda>end_cursor.
                 Ok \<lparr>dr_hardware_id = ns_hardware_id session, dr_boot_epoch = ns_boot_epoch session, dr_end = end_cursor\<rparr>)))
      | SP_PersistingGap \<Rightarrow>
          try_with (ok_or (ns_pending_gap session) PE_MissingPending) (transfer, sink) (\<lambda>gap.
            persisted transfer (dms_persist_gap ops sink gap)
              (and_then (ok_or (checked_add (gap_first_missing gap) (gap_missing_count gap)) PE_CursorOverflow) (\<lambda>end_cursor.
                 Ok \<lparr>dr_hardware_id = gap_hardware_id gap, dr_boot_epoch = gap_boot_epoch gap, dr_end = end_cursor\<rparr>)))
      | SP_PersistingContinuityBreak \<Rightarrow>
          try_with (ok_or (ns_pending_continuity_break session) PE_MissingPending) (transfer, sink) (\<lambda>observed.
            persisted transfer (dms_persist_continuity_break ops sink observed)
              (and_then (continuity_break_end observed) (\<lambda>end_cursor.
                 Ok \<lparr>dr_hardware_id = cb_hardware_id observed, dr_boot_epoch = cb_boot_epoch observed, dr_end = end_cursor\<rparr>)))
      | _ \<Rightarrow> (Err PE_UnexpectedPhase, (transfer, sink)))"

text \<open>\<open>impl DurableMeasurementSink for CaptureWalSink\<close>, its writes and barriers ending in \<open>io\<close>.\<close>

definition wal_ops :: "WriteOutcome \<Rightarrow> (CaptureWalSink, CaptureWalError) DurableMeasurementSink" where
  "wal_ops io = \<lparr>dms_persist_chunk = (\<lambda>s h c. persist_chunk s h c io), dms_persist_gap = (\<lambda>s g. persist_gap s g io),
     dms_persist_continuity_break = (\<lambda>s b. persist_continuity_break s b io)\<rparr>"

section \<open>The contract of a durable sink\<close>

text \<open>Where a list of records that follow each other from a cursor on ends.\<close>

fun log_end :: "nat \<Rightarrow> CaptureRecord list \<Rightarrow> nat option" where
  "log_end c [] = Some c"
| "log_end c (r # rs) =
     (case record_span r of
        None \<Rightarrow> log_end c rs
      | Some (f, n) \<Rightarrow> if f = c then log_end (c + n) rs else None)"

lemma log_end_append: "log_end c (rs @ ps) = Option.bind (log_end c rs) (\<lambda>e. log_end e ps)"
  by (induction rs arbitrary: c) (auto split: option.splits)

text \<open>What the log of a sink holds after an operation on the record \<open>r\<close>.\<close>

definition appended :: "('s \<Rightarrow> CaptureRecord list \<Rightarrow> bool) \<Rightarrow> CaptureRecord list \<Rightarrow> CaptureRecord \<Rightarrow> ('s, unit, 'e) outcome \<Rightarrow> bool" where
  "appended holds rs r out \<longleftrightarrow>
     (case fst out of Ok _ \<Rightarrow> holds (snd out) (rs @ [r]) | Err _ \<Rightarrow> holds (snd out) rs | Panic \<Rightarrow> False)"

text \<open>The record of a pending hand-over as the sink stores it.\<close>

fun stored_as :: "PendingPersistence \<Rightarrow> CaptureRecord" where
  "stored_as (PP_Chunk h c) = CRec_SampleChunk c"
| "stored_as (PP_Gap g) = CRec_Gap g"
| "stored_as (PP_ContinuityBreak b) = CRec_ContinuityBreak b"

text \<open>Samples are 20-bit values by their type.\<close>

definition session_typed :: "NodeSession \<Rightarrow> bool" where
  "session_typed s \<longleftrightarrow> (\<forall>c. ns_pending_chunk s = Some (PC_Wire c) \<longrightarrow> list_all axes_ok (sc_samples c))"

lemma pending_stored_ok:
  assumes "session_ok s" "session_typed s" "pending_record s = Some p"
  shows "record_ok (stored_as p)" "record_span (stored_as p) =
    Some (unat (dc_durable (ns_cursors s)), unat (dc_received (ns_cursors s)) - unat (dc_durable (ns_cursors s)))"
proof -
  have b: "unat (dc_received (ns_cursors s)) < 2 ^ 64" using unat_u64_bound [of "dc_received (ns_cursors s)"] by simp
  show "record_ok (stored_as p)" "record_span (stored_as p) =
    Some (unat (dc_durable (ns_cursors s)), unat (dc_received (ns_cursors s)) - unat (dc_durable (ns_cursors s)))"
    using assms b
    by (auto simp: pending_record_def pending_wire_chunk_def session_ok_def phase_ok_def session_typed_def receipt_ok_def
        pending_gap_ok_def pending_break_ok_def covers_pending_def gap_ok_def break_ok_def sample_chunk_ok_def
        word_less_nat_alt split: SessionPhase.splits option.splits PendingChunk.splits)
qed

text \<open>The receipt of a pending record, and what confirming it does.\<close>

definition receipt_for :: "NodeSession \<Rightarrow> DurableReceipt" where
  "receipt_for s = \<lparr>dr_hardware_id = ns_hardware_id s, dr_boot_epoch = ns_boot_epoch s, dr_end = dc_received (ns_cursors s)\<rparr>"

lemma confirm_pending:
  assumes "session_ok s" "pending_record s = Some p"
  shows "confirm_durable s (receipt_for s) = (Ok (), settled s)"
proof -
  have "persisting s" using assms(2) by (auto simp: persisting_def pending_record_def split: SessionPhase.splits)
  moreover have "ns_pending_receipt s = Some (receipt_for s)"
    using pending_record_receipt(2) [OF assms] by (simp add: receipt_ok_def receipt_for_def)
  ultimately show ?thesis by (cases rule: confirm_durable_cases [OF assms(1), of "receipt_for s"]) auto
qed

fun write_record :: "('s, 'e) DurableMeasurementSink \<Rightarrow> 's \<Rightarrow> PendingPersistence \<Rightarrow> ('s, unit, 'e) outcome" where
  "write_record ops s (PP_Chunk h c) = dms_persist_chunk ops s h c"
| "write_record ops s (PP_Gap g) = dms_persist_gap ops s g"
| "write_record ops s (PP_ContinuityBreak b) = dms_persist_continuity_break ops s b"

lemma persist_pending_none:
  assumes "pending_record (mt_session t) = None"
  shows "\<exists>e. persist_pending ops t s = (Err e, (t, s))"
  using assms
  by (auto simp: persist_pending_def pending_record_def pending_wire_chunk_def Let_def
      split: SessionPhase.splits option.splits PendingChunk.splits)

lemma persist_pending_some:
  assumes "session_ok (mt_session t)" "pending_record (mt_session t) = Some p"
  shows "persist_pending ops t s = persisted t (write_record ops s p) (Ok (receipt_for (mt_session t)))"
proof -
  let ?c = "ns_cursors (mt_session t)"
  note phase = assms(1) [unfolded session_ok_def phase_ok_def]
  have e: "checked_advance (dc_durable ?c) n = Some (dc_received ?c)" "checked_add (dc_durable ?c) n = Some (dc_received ?c)"
    if "unat (dc_received ?c) = unat (dc_durable ?c) + unat n" for n
    using that by (simp_all add: checked_advance_Some checked_add_Some)
  show ?thesis
    using assms(2) phase
    by (auto simp: persist_pending_def pending_record_def pending_wire_chunk_def Let_def receipt_for_def
        covers_pending_def sample_chunk_ok_def chunk_end_def pending_gap_ok_def pending_break_ok_def continuity_break_end_def
        e split: SessionPhase.splits option.splits PendingChunk.splits)
qed

locale durable_sink =
  fixes ops :: "('s, 'e) DurableMeasurementSink" and start :: nat and holds :: "'s \<Rightarrow> CaptureRecord list \<Rightarrow> bool"
  assumes contiguous: "holds s rs \<Longrightarrow> log_end start rs \<noteq> None"
    and appends: "holds s rs \<Longrightarrow> record_ok (stored_as p) \<Longrightarrow> appended holds rs (stored_as p) (write_record ops s p)"
begin

text \<open>A session whose durable cursor is where the log of its sink ends.\<close>

definition in_step :: "MeasurementTransfer \<Rightarrow> 's \<Rightarrow> CaptureRecord list \<Rightarrow> bool" where
  "in_step t s rs \<longleftrightarrow> session_ok (mt_session t) \<and> session_typed (mt_session t) \<and> holds s rs \<and>
     log_end start rs = Some (unat (dc_durable (ns_cursors (mt_session t))))"

lemma settled_in_step:
  assumes "in_step t s rs" "pending_record (mt_session t) = Some p" "holds s' (rs @ [stored_as p])"
    "t' = t\<lparr>mt_session := settled (mt_session t)\<rparr>"
  shows "in_step t' s' (rs @ [stored_as p])"
proof -
  let ?n = "mt_session t"
  have ok: "session_ok ?n" "session_typed ?n" and e: "log_end start rs = Some (unat (dc_durable (ns_cursors ?n)))"
    using assms(1) by (simp_all add: in_step_def)
  have "dc_durable (ns_cursors ?n) < dc_received (ns_cursors ?n)"
    using pending_record_receipt(2) [OF ok(1) assms(2)] by (simp add: receipt_ok_def)
  then have "log_end start (rs @ [stored_as p]) = Some (unat (dc_received (ns_cursors ?n)))"
    using pending_stored_ok(2) [OF ok assms(2)] e by (simp add: log_end_append word_less_nat_alt)
  moreover have "session_ok (settled ?n)" "session_typed (settled ?n)"
    using ok(1) by (auto simp: session_ok_def phase_ok_def settled_def delivery_ok_def session_typed_def)
  ultimately show ?thesis using assms(3,4) by (simp add: in_step_def) (simp add: settled_def)
qed

lemma persist_pending_in_step:
  assumes "in_step t s rs" "persist_pending ops t s = (res, (t', s'))"
  shows "case res of
      Ok receipt \<Rightarrow> receipt = receipt_for (mt_session t) \<and> dc_durable (ns_cursors (mt_session t')) = dr_end receipt \<and>
        (\<exists>p. pending_record (mt_session t) = Some p \<and> in_step t' s' (rs @ [stored_as p]))
    | Err _ \<Rightarrow> t' = t \<and> in_step t s' rs
    | Panic \<Rightarrow> False"
proof (cases "pending_record (mt_session t)")
  case None
  with persist_pending_none [of t ops s] assms show ?thesis by auto
next
  case (Some p)
  have ok: "session_ok (mt_session t)" "session_typed (mt_session t)" and h: "holds s rs"
    using assms(1) by (simp_all add: in_step_def)
  note w = appends [OF h pending_stored_ok(1) [OF ok Some], unfolded appended_def]
  have c: "transfer_confirm_durable t (receipt_for (mt_session t)) = (Ok (), t\<lparr>mt_session := settled (mt_session t)\<rparr>)"
    by (simp add: transfer_confirm_durable_def on_session_def confirm_pending [OF ok(1) Some])
  note p = assms(2) [unfolded persist_pending_some [OF ok(1) Some] persisted_def]
  show ?thesis
  proof (cases "fst (write_record ops s p)")
    case (Ok u)
    with p c have r: "res = Ok (receipt_for (mt_session t))" "t' = t\<lparr>mt_session := settled (mt_session t)\<rparr>"
      "s' = snd (write_record ops s p)" by auto
    with settled_in_step [OF assms(1) Some _ r(2), of s'] w Ok Some show ?thesis
      by (simp add: settled_def receipt_for_def)
  next
    case (Err e)
    with p w assms(1) show ?thesis by (auto simp: in_step_def)
  next
    case Panic
    with w show ?thesis by simp
  qed
qed

end

section \<open>The capture log is a durable sink\<close>

lemma wal_fold_log_end:
  "wal_fold (l, c) rs = Some (t, d) \<Longrightarrow> ledger_ok l \<Longrightarrow> list_all record_ok rs \<Longrightarrow>
     log_end (unat (cl_next_cursor l)) rs = Some (unat (cl_next_cursor t))"
proof (induction rs arbitrary: l c)
  case (Cons r rs)
  from Cons.prems(1) obtain u e where a: "wal_apply (l, c) r = Some (u, e)" and f: "wal_fold (u, e) rs = Some (t, d)"
    by (auto simp: bind_eq_Some_conv)
  from a obtain sealed where "ledger_append l r = (Ok sealed, u)" by (auto simp: wal_apply_Some)
  with ledger_append_result [OF Cons.prems(2), of r] Cons.prems(3) have "advances l r sealed u"
    by (simp add: append_result_def)
  with Cons.IH [OF f] Cons.prems(3) show ?case by (auto simp: advances_def split: option.splits)
qed simp

lemma sink_ok_log_end:
  assumes "sink_ok config rs ps s"
  shows "log_end (unat (cwc_recovered_cursor config)) rs = Some (unat (cl_next_cursor (ws_ledger s)))"
    "cwr_durable_cursor (ws_recovery s) = cl_next_cursor (ws_ledger s)"
proof -
  have f: "wal_fold (fst (log_start config), snd (log_start config)) rs = Some (ws_ledger s, report_of (ws_recovery s))"
    "list_all record_ok rs" using assms by (simp_all add: sink_ok_def)
  have "ledger_ok (fst (log_start config))" by (simp add: log_start_def ledger_new_def ledger_ok_def)
  from wal_fold_log_end [OF f(1) this f(2)]
  show "log_end (unat (cwc_recovered_cursor config)) rs = Some (unat (cl_next_cursor (ws_ledger s)))"
    by (simp add: log_start_def ledger_new_def)
  show "cwr_durable_cursor (ws_recovery s) = cl_next_cursor (ws_ledger s)"
    using log_start_counts(1) [of config rs] f(1) by (simp add: report_of_def)
qed

lemma persist_appended:
  assumes "sink_ok config rs ps s" "record_ok (staged_as x)"
  shows "appended (\<lambda>s rs. \<exists>ps. sink_ok config rs ps s) rs (staged_as x) (persist s x io)"
proof -
  obtain res s' where p: "persist s x io = (res, s')" by (cases "persist s x io")
  have "sink_ok config rs [] s" if "\<not> ws_poisoned s" using assms(1) that by (auto simp: sink_ok_def)
  with perform_result [of "WOp_Persist x io" s config rs res s'] assms(2) p
  have "op_result config rs [staged_as x] s res s'" by simp
  with p assms(1) show ?thesis by (cases res) (auto simp: appended_def op_result_def)
qed

interpretation wal_sink: durable_sink "wal_ops io" "unat (cwc_recovered_cursor config)" "\<lambda>s rs. \<exists>ps. sink_ok config rs ps s"
  for io config
proof
  show "log_end (unat (cwc_recovered_cursor config)) rs \<noteq> None" if "\<exists>ps. sink_ok config rs ps s" for rs s
    using that sink_ok_log_end(1) by blast
  show "appended (\<lambda>s rs. \<exists>ps. sink_ok config rs ps s) rs (stored_as p) (write_record (wal_ops io) s p)"
    if h: "\<exists>ps. sink_ok config rs ps s" and r: "record_ok (stored_as p)" for s rs p
  proof -
    obtain ps where k: "sink_ok config rs ps s" using h by blast
    show ?thesis
    proof (cases p)
      case (PP_Chunk h c)
      with persist_appended [OF k, of "Stage_Chunk h c"] r show ?thesis by (simp add: wal_ops_def)
    next
      case (PP_Gap g)
      with persist_appended [OF k, of "Stage_Gap g"] r show ?thesis by (simp add: wal_ops_def)
    next
      case (PP_ContinuityBreak b)
      with persist_appended [OF k, of "Stage_Break b"] r show ?thesis by (simp add: wal_ops_def)
    qed
  qed
qed

text \<open>C6. A pending record becomes durable exactly once. Hand the record of a session to the capture log: if the
  call returns a receipt, the log holds the records it held and after them this very record, the receipt is the record's own,
  and the durable cursor of the session has moved to its end, which is where the log now ends; if it returns an error, the
  session still holds the record with its cursors unmoved and the log has acknowledged nothing new. It does not panic.\<close>

theorem pending_record_becomes_durable:
  assumes "session_ok (mt_session t)" "session_typed (mt_session t)" "sink_ok config rs ps s"
    "log_end (unat (cwc_recovered_cursor config)) rs = Some (unat (dc_durable (ns_cursors (mt_session t))))"
    "persist_pending (wal_ops io) t s = (res, (t', s'))"
  shows "case res of
      Ok receipt \<Rightarrow> \<exists>p ps'. pending_record (mt_session t) = Some p \<and> pending_receipt_of p = (Ok receipt :: (_, SessionError) result) \<and>
        sink_ok config (rs @ [stored_as p]) ps' s' \<and> session_ok (mt_session t') \<and>
        dc_durable (ns_cursors (mt_session t')) = dr_end receipt \<and> pending_record (mt_session t') = None \<and>
        log_end (unat (cwc_recovered_cursor config)) (rs @ [stored_as p]) = Some (unat (dr_end receipt))
    | Err _ \<Rightarrow> t' = t \<and> (\<exists>ps'. sink_ok config rs ps' s')
    | Panic \<Rightarrow> False"
proof -
  have i: "wal_sink.in_step config t s rs" using assms(1-4) by (auto simp: wal_sink.in_step_def)
  note r = wal_sink.persist_pending_in_step [OF i assms(5)]
  show ?thesis
  proof (cases res)
    case (Ok receipt)
    with r obtain p where p: "pending_record (mt_session t) = Some p" "receipt = receipt_for (mt_session t)"
      "wal_sink.in_step config t' s' (rs @ [stored_as p])" "dc_durable (ns_cursors (mt_session t')) = dr_end receipt"
      by auto
    have "pending_receipt_of p = (Ok receipt :: (_, SessionError) result)"
      using pending_record_receipt(1) [OF assms(1) p(1)] p(2) by (simp add: receipt_for_def)
    moreover have "pending_record (mt_session t') = None"
      using assms(1,5) Ok p(1) persist_pending_some [OF assms(1) p(1), of "wal_ops io" s]
      by (auto simp: persisted_def transfer_confirm_durable_def on_session_def result_iffs confirm_pending [OF assms(1) p(1)]
          settled_def pending_record_def p(2))
    ultimately show ?thesis using p Ok by (auto simp: wal_sink.in_step_def)
  next
    case (Err e)
    with r show ?thesis by (auto simp: wal_sink.in_step_def)
  next
    case Panic
    with r show ?thesis by simp
  qed
qed

definition example_pending :: MeasurementTransfer where
  "example_pending = \<lparr>mt_node_address = 7, mt_max_samples = 32,
     mt_session = snd (session_run example_start [S_BeginPull 32, S_AcceptGap example_gap]), mt_observed_produced = None,
     mt_persistence_kind = None, mt_recovery_reason = None\<rparr>"

definition example_capture :: CaptureWalConfig where
  "example_capture = \<lparr>cwc_hardware_id = HardwareId 1 2 3 4 5 6 7 8, cwc_boot_epoch = 5, cwc_recovered_cursor = 10,
     cwc_first_window_ordinal = 3, cwc_window_policy = \<lparr>cwp_target_duration_us = 10\<rparr>\<rparr>"

lemma example_pending_ok:
  "session_ok (mt_session example_pending)" "session_typed (mt_session example_pending)"
  "dc_durable (ns_cursors (mt_session example_pending)) = 10"
  using example_run_ok
  by (simp_all add: example_pending_def example_run session_typed_def) (simp add: example_start_def)

theorem pending_record_becomes_durable_witness:
  "\<exists>s. sink_open [] example_capture = Ok s \<and>
     (case fst (persist_pending (wal_ops WO_Ok) example_pending s) of
        Ok receipt \<Rightarrow> \<exists>p ps'. pending_record (mt_session example_pending) = Some p \<and>
          sink_ok example_capture [stored_as p] ps' (snd (snd (persist_pending (wal_ops WO_Ok) example_pending s)))
      | Err _ \<Rightarrow> fst (snd (persist_pending (wal_ops WO_Ok) example_pending s)) = example_pending
      | Panic \<Rightarrow> False)"
proof -
  obtain s where s: "sink_open [] example_capture = Ok s" "sink_ok example_capture [] [] s"
    using new_sink [of example_capture] by (auto simp: config_ok_def example_capture_def)
  have d: "log_end (unat (cwc_recovered_cursor example_capture)) [] =
      Some (unat (dc_durable (ns_cursors (mt_session example_pending))))"
    by (simp add: example_pending_ok example_capture_def)
  obtain res t' s' where p: "persist_pending (wal_ops WO_Ok) example_pending s = (res, (t', s'))"
    by (metis prod.exhaust)
  note pending_record_becomes_durable [OF example_pending_ok(1,2) s(2) d p]
  with s(1) p show ?thesis by (intro exI [of _ s]) (auto split: result.splits)
qed

end
