(* ===== verification/Host_Admission.thy ===== *)
theory Host_Admission
  imports Complex_Main Core_Stream Host_Transaction
begin

text \<open>
  Admission of traffic to a channel (\<^verbatim>\<open>sensor-host/src/channel_admission.rs\<close>): the share of the line the planned
  transactions of its nodes occupy, in parts per million and 128-bit arithmetic.
\<close>

section \<open>State and operations\<close>

definition PARTS_PER_MILLION :: u64 where "PARTS_PER_MILLION = 1000000"
definition NANO_PER_UNIT :: u128 where "NANO_PER_UNIT = 1000000000"

record PeriodicTraffic =
  pet_transaction_time :: DurationMicros
  pet_interval :: DurationMicros

record NodeTrafficDemand =
  ntd_output_rate :: SampleRate
  ntd_samples_per_chunk :: u16
  ntd_measurement_transaction_time :: DurationMicros
  ntd_time_sync :: "PeriodicTraffic option"
  ntd_health :: "PeriodicTraffic option"

record AdmissionPolicy =
  adp_maximum_utilization_ppm :: u32
  adp_recovery_reserve_ppm :: u32

record AdmissionReport =
  adr_nominal_utilization_ppm :: u32
  adr_recovery_reserve_ppm :: u32
  adr_required_utilization_ppm :: u32
  adr_maximum_utilization_ppm :: u32

definition accepted :: "AdmissionReport \<Rightarrow> bool" where
  "accepted self \<longleftrightarrow> adr_required_utilization_ppm self \<le> adr_maximum_utilization_ppm self"

definition remaining_ppm :: "AdmissionReport \<Rightarrow> u32" where
  "remaining_ppm self = saturating_sub (adr_maximum_utilization_ppm self) (adr_required_utilization_ppm self)"

datatype AdmissionError =
  AE_InvalidMaximumUtilization | AE_RecoveryReserveConsumesBudget | AE_ZeroSamplesPerChunk | AE_ArithmeticOverflow
| AE_DemandExceedsChannel

record ChannelAdmission =
  cha_policy :: AdmissionPolicy

definition admission_new :: "AdmissionPolicy \<Rightarrow> (ChannelAdmission, AdmissionError) result" where
  "admission_new policy =
     (if adp_maximum_utilization_ppm policy = 0 \<or> u64_from (adp_maximum_utilization_ppm policy) > PARTS_PER_MILLION
      then Err AE_InvalidMaximumUtilization
      else if adp_recovery_reserve_ppm policy \<ge> adp_maximum_utilization_ppm policy
      then Err AE_RecoveryReserveConsumesBudget
      else Ok \<lparr>cha_policy = policy\<rparr>)"

text \<open>\<open>u128::from\<close>, and products and quotients that panic on overflow and on a zero divisor.\<close>

definition wide :: "'a::len word \<Rightarrow> u128" where
  "wide x = ucast x"

definition mul_unchecked :: "u128 \<Rightarrow> u128 \<Rightarrow> (u128, 'e) result" where
  "mul_unchecked a b = expect (checked_mul a b)"

definition admission_div_ceil :: "u128 \<Rightarrow> u128 \<Rightarrow> (u128, 'e) result" where
  "admission_div_ceil numerator denominator =
     (if denominator = 0 then Panic
      else add_unchecked (numerator div denominator) (if numerator mod denominator = 0 then 0 else 1))"

definition measurement_ppm :: "NodeTrafficDemand \<Rightarrow> (u128, AdmissionError) result" where
  "measurement_ppm demand =
     and_then (mul_unchecked (wide (ntd_output_rate demand)) (wide (ntd_measurement_transaction_time demand))) (\<lambda>numerator.
     and_then (mul_unchecked (wide (ntd_samples_per_chunk demand)) NANO_PER_UNIT) (\<lambda>denominator.
       admission_div_ceil numerator denominator))"

definition checked_add_periodic :: "u128 \<Rightarrow> PeriodicTraffic option \<Rightarrow> (u128 option, AdmissionError) result" where
  "checked_add_periodic current traffic =
     (case traffic of
        None \<Rightarrow> Ok (Some current)
      | Some traffic \<Rightarrow>
          and_then (mul_unchecked (wide (pet_transaction_time traffic)) (wide PARTS_PER_MILLION)) (\<lambda>numerator.
          and_then (admission_div_ceil numerator (wide (pet_interval traffic))) (\<lambda>ppm.
            Ok (checked_add current ppm))))"

text \<open>The loop of \<open>evaluate\<close>.\<close>

fun nominal_demand :: "u128 \<Rightarrow> NodeTrafficDemand list \<Rightarrow> (u128, AdmissionError) result" where
  "nominal_demand nominal_ppm [] = Ok nominal_ppm"
| "nominal_demand nominal_ppm (demand # demands) =
     (if ntd_samples_per_chunk demand = 0 then Err AE_ZeroSamplesPerChunk
      else and_then (measurement_ppm demand) (\<lambda>ppm.
           and_then (ok_or (checked_add nominal_ppm ppm) AE_ArithmeticOverflow) (\<lambda>v.
           and_then (checked_add_periodic v (ntd_time_sync demand)) (\<lambda>synced.
           and_then (ok_or synced AE_ArithmeticOverflow) (\<lambda>v.
           and_then (checked_add_periodic v (ntd_health demand)) (\<lambda>checked.
           and_then (ok_or checked AE_ArithmeticOverflow) (\<lambda>v. nominal_demand v demands)))))))"

definition u32_try_from :: "u128 \<Rightarrow> u32 option" where
  "u32_try_from x = (if unat x < 2 ^ 32 then Some (ucast x) else None)"

definition evaluate :: "ChannelAdmission \<Rightarrow> NodeTrafficDemand list \<Rightarrow> (AdmissionReport, AdmissionError) result" where
  "evaluate self nodes =
     and_then (nominal_demand 0 nodes) (\<lambda>nominal_ppm.
     and_then (ok_or (u32_try_from nominal_ppm) AE_DemandExceedsChannel) (\<lambda>nominal.
     and_then (ok_or (checked_add nominal_ppm (wide (adp_recovery_reserve_ppm (cha_policy self)))) AE_ArithmeticOverflow)
       (\<lambda>required_ppm.
     and_then (ok_or (u32_try_from required_ppm) AE_DemandExceedsChannel) (\<lambda>required.
       Ok \<lparr>adr_nominal_utilization_ppm = nominal, adr_recovery_reserve_ppm = adp_recovery_reserve_ppm (cha_policy self),
           adr_required_utilization_ppm = required,
           adr_maximum_utilization_ppm = adp_maximum_utilization_ppm (cha_policy self)\<rparr>))))"

section \<open>The exact demand\<close>

text \<open>The share of the line, in parts per million, as a rational number.\<close>

definition periodic_share :: "PeriodicTraffic option \<Rightarrow> rat" where
  "periodic_share traffic =
     (case traffic of None \<Rightarrow> 0
      | Some p \<Rightarrow> of_nat (unat (pet_transaction_time p) * 1000000) / of_nat (unat (pet_interval p)))"

definition node_share :: "NodeTrafficDemand \<Rightarrow> rat" where
  "node_share d =
     of_nat (unat (ntd_output_rate d) * unat (ntd_measurement_transaction_time d)) /
       of_nat (unat (ntd_samples_per_chunk d) * 1000000000) +
     periodic_share (ntd_time_sync d) + periodic_share (ntd_health d)"

definition exact_demand :: "NodeTrafficDemand list \<Rightarrow> rat" where
  "exact_demand nodes = sum_list (map node_share nodes)"

text \<open>Durations are not zero, by their type.\<close>

definition demand_ok :: "NodeTrafficDemand \<Rightarrow> bool" where
  "demand_ok d \<longleftrightarrow> (\<forall>p. ntd_time_sync d = Some p \<or> ntd_health d = Some p \<longrightarrow> pet_interval p \<noteq> 0)"

text \<open>\<open>v\<close> is the quotient \<open>n / d\<close>, rounded up.\<close>

definition rounds_up :: "u128 \<Rightarrow> nat \<Rightarrow> nat \<Rightarrow> bool" where
  "rounds_up v n d \<longleftrightarrow> n \<le> unat v * d \<and> unat v * d < n + d"

lemma unat_wide [simp]: "LENGTH('a::len) \<le> 128 \<Longrightarrow> unat (wide (x :: 'a word)) = unat x"
  by (simp add: wide_def unat_ucast_up)

lemma unat_constants [simp]: "unat PARTS_PER_MILLION = 1000000" "unat NANO_PER_UNIT = 1000000000"
  by (simp_all add: PARTS_PER_MILLION_def NANO_PER_UNIT_def)

lemma nat_div_ceil_bounds:
  fixes n d :: nat
  assumes "0 < d"
  defines "c \<equiv> n div d + (if n mod d = 0 then 0 else 1)"
  shows "n \<le> c * d" "c * d < n + d" "c \<le> n"
proof -
  define q r where "q = n div d" and "r = n mod d"
  have n: "n = q * d + r" and m: "r < d" using assms(1) by (simp_all add: q_def r_def)
  have c: "c = q + (if r = 0 then 0 else 1)" by (simp add: c_def q_def r_def)
  show "n \<le> c * d" "c * d < n + d" unfolding n c using m by (auto simp: add_mult_distrib)
  have q: "q \<le> q * d" using assms(1) by simp
  show "c \<le> n"
  proof (cases "r = 0")
    case False
    with q have "q + 1 \<le> q * d + r" by linarith
    with False show ?thesis by (simp only: n c if_False)
  qed (use q in \<open>simp only: n c refl if_True add_0_right\<close>)
qed

lemma admission_div_ceil_rounds:
  assumes "b \<noteq> 0"
  shows "\<exists>v. admission_div_ceil a b = Ok v \<and> rounds_up v (unat a) (unat b)"
proof -
  define c where "c = unat a div unat b + (if unat a mod unat b = 0 then 0 else 1)"
  have b: "0 < unat b" using assms by (simp add: unat_gt_0)
  note bounds = nat_div_ceil_bounds [OF b, of "unat a", folded c_def]
  have "unat a < 2 ^ 128" using unsigned_less [of a] by simp
  with bounds(3) have lt: "c < 2 ^ LENGTH(128)" by simp
  have z: "a mod b = 0 \<longleftrightarrow> unat a mod unat b = 0" by (simp add: word_unat_eq_iff unat_mod_distrib)
  have d: "unat (a div b) = unat a div unat b" by (simp add: unat_div_distrib)
  have u: "unat (of_nat c :: u128) = c" using lt unfolding unat_of_nat by (simp add: take_bit_nat_eq_self)
  have "checked_add (a div b) (if a mod b = 0 then 0 else 1) = Some (of_nat c)"
    unfolding checked_add_Some u by (simp add: z d c_def)
  then have "admission_div_ceil a b = Ok (of_nat c)"
    using assms by (simp add: admission_div_ceil_def add_unchecked_def result_iffs)
  moreover have "rounds_up (of_nat c) (unat a) (unat b)" unfolding rounds_up_def u using bounds by blast
  ultimately show ?thesis by blast
qed

lemma mul_unchecked_product:
  assumes "unat a < 2 ^ 64" "unat b < 2 ^ 64"
  shows "\<exists>v. mul_unchecked a b = Ok v \<and> unat v = unat a * unat b"
proof -
  have "unat a * unat b < 2 ^ 64 * 2 ^ 64" using assms by (intro mult_strict_mono) simp_all
  then have "unat a * unat b < 2 ^ LENGTH(128)" by simp
  then obtain v where "checked_mul a b = Some v" by (simp add: checked_mul_def)
  then show ?thesis by (auto simp: mul_unchecked_def result_iffs checked_mul_Some)
qed

lemma wide_bound: "unat (wide (x :: u64)) < 2 ^ 64" "unat (wide (y :: u16)) < 2 ^ 64"
  using unsigned_less [of x] unat_u16_bound [of y] by simp_all

lemma measurement_ppm_rounds:
  assumes "ntd_samples_per_chunk d \<noteq> 0"
  shows "\<exists>v. measurement_ppm d = Ok v \<and> rounds_up v (unat (ntd_output_rate d) * unat (ntd_measurement_transaction_time d))
       (unat (ntd_samples_per_chunk d) * 1000000000)"
proof -
  obtain n where n: "mul_unchecked (wide (ntd_output_rate d)) (wide (ntd_measurement_transaction_time d)) = (Ok n :: (u128, AdmissionError) result)"
    "unat n = unat (ntd_output_rate d) * unat (ntd_measurement_transaction_time d)"
    using mul_unchecked_product [OF wide_bound(1) wide_bound(1), of "ntd_output_rate d" "ntd_measurement_transaction_time d"] by auto
  obtain m where m: "mul_unchecked (wide (ntd_samples_per_chunk d)) NANO_PER_UNIT = (Ok m :: (u128, AdmissionError) result)"
    "unat m = unat (ntd_samples_per_chunk d) * 1000000000"
    using mul_unchecked_product [OF wide_bound(2), of NANO_PER_UNIT "ntd_samples_per_chunk d"] by auto
  have "unat (ntd_samples_per_chunk d) \<noteq> 0" using assms by (simp add: unat_eq_0)
  with m(2) have "unat m \<noteq> 0" by simp
  then have "m \<noteq> 0" by auto
  from admission_div_ceil_rounds [OF this, of n] n m show ?thesis by (auto simp: measurement_ppm_def)
qed

lemma checked_add_periodic_rounds:
  assumes "\<And>p. traffic = Some p \<Longrightarrow> pet_interval p \<noteq> 0"
  shows "\<exists>r. checked_add_periodic v traffic = Ok r \<and>
    (case traffic of None \<Rightarrow> r = Some v
     | Some p \<Rightarrow> \<exists>x. r = checked_add v x \<and> rounds_up x (unat (pet_transaction_time p) * 1000000) (unat (pet_interval p)))"
proof (cases traffic)
  case (Some p)
  obtain n where n: "mul_unchecked (wide (pet_transaction_time p)) (wide PARTS_PER_MILLION) = (Ok n :: (u128, AdmissionError) result)"
    "unat n = unat (pet_transaction_time p) * 1000000"
    using mul_unchecked_product [OF wide_bound(1) wide_bound(1), of "pet_transaction_time p" PARTS_PER_MILLION] by auto
  have "unat (wide (pet_interval p)) \<noteq> 0" using assms [OF Some] by (simp add: unat_eq_0)
  then have "wide (pet_interval p) \<noteq> 0" by (metis unat_0)
  then obtain x where "admission_div_ceil n (wide (pet_interval p)) = (Ok x :: (u128, AdmissionError) result)"
    "rounds_up x (unat n) (unat (wide (pet_interval p)))" using admission_div_ceil_rounds by blast
  with n Some show ?thesis by (auto simp: checked_add_periodic_def)
qed (simp add: checked_add_periodic_def)

lemma rounds_up_rat:
  assumes "rounds_up v n d" "0 < d"
  shows "(of_nat n / of_nat d :: rat) \<le> of_nat (unat v)" "of_nat (unat v) < (of_nat n / of_nat d :: rat) + 1"
proof -
  have "(of_nat n :: rat) \<le> of_nat (unat v) * of_nat d" "(of_nat (unat v) * of_nat d :: rat) < of_nat n + of_nat d"
    using assms(1) unfolding rounds_up_def by (metis of_nat_le_iff of_nat_mult, metis of_nat_add of_nat_less_iff of_nat_mult)
  then show "(of_nat n / of_nat d :: rat) \<le> of_nat (unat v)" "of_nat (unat v) < (of_nat n / of_nat d :: rat) + 1"
    using assms(2) by (simp_all add: field_simps)
qed

text \<open>A step of the sum stays within its share, rounded up.\<close>

definition adds_share :: "u128 \<Rightarrow> rat \<Rightarrow> u128 \<Rightarrow> nat \<Rightarrow> bool" where
  "adds_share v q w k \<longleftrightarrow> of_nat (unat v) + q \<le> of_nat (unat w) \<and> of_nat (unat w) \<le> of_nat (unat v) + q + of_nat k"

lemma adds_share_trans: "adds_share u p v i \<Longrightarrow> adds_share v q w j \<Longrightarrow> adds_share u (p + q) w (i + j)"
  unfolding adds_share_def by simp

lemma checked_add_share:
  assumes "checked_add v x = Some w" "rounds_up x n d" "0 < d"
  shows "adds_share v (of_nat n / of_nat d) w 1"
proof -
  have "(of_nat (unat w) :: rat) = of_nat (unat v) + of_nat (unat x)"
    using assms(1) by (metis checked_add_Some of_nat_add)
  with rounds_up_rat [OF assms(2,3)] show ?thesis unfolding adds_share_def by (metis add_left_mono add.assoc less_imp_le of_nat_1)
qed

lemma periodic_share_added:
  assumes "checked_add_periodic v traffic = Ok (Some w)" "\<And>p. traffic = Some p \<Longrightarrow> pet_interval p \<noteq> 0"
  shows "adds_share v (periodic_share traffic) w 1"
proof (cases traffic)
  case None
  with assms(1) show ?thesis by (auto simp: checked_add_periodic_def adds_share_def periodic_share_def)
next
  case (Some p)
  with checked_add_periodic_rounds [OF assms(2), of traffic v] assms(1) obtain x where "checked_add v x = Some w"
    "rounds_up x (unat (pet_transaction_time p) * 1000000) (unat (pet_interval p))"
    by auto
  moreover have "0 < unat (pet_interval p)" using assms(2) [OF Some] by (simp add: unat_gt_0)
  ultimately have "adds_share v (of_nat (unat (pet_transaction_time p) * 1000000) / of_nat (unat (pet_interval p))) w 1"
    by (rule checked_add_share)
  then show ?thesis unfolding periodic_share_def Some by simp
qed

lemma nominal_demand_share:
  "list_all demand_ok ds \<Longrightarrow> nominal_demand v ds = Ok w \<Longrightarrow> adds_share v (exact_demand ds) w (3 * length ds)"
proof (induction ds arbitrary: v)
  case Nil
  then show ?case by (simp add: adds_share_def exact_demand_def)
next
  case (Cons d ds)
  from Cons.prems(2) obtain m a b c where z: "ntd_samples_per_chunk d \<noteq> 0" and m: "measurement_ppm d = Ok m"
    and a: "checked_add v m = Some a" and b: "checked_add_periodic a (ntd_time_sync d) = Ok (Some b)"
    and c: "checked_add_periodic b (ntd_health d) = Ok (Some c)" and n: "nominal_demand c ds = Ok w"
    by (auto simp: result_iffs split: if_splits)
  have "0 < unat (ntd_samples_per_chunk d) * 1000000000" using z by (simp add: unat_gt_0)
  moreover have "rounds_up m (unat (ntd_output_rate d) * unat (ntd_measurement_transaction_time d)) (unat (ntd_samples_per_chunk d) * 1000000000)"
    using measurement_ppm_rounds [OF z] m by simp
  ultimately have "adds_share v (of_nat (unat (ntd_output_rate d) * unat (ntd_measurement_transaction_time d)) /
       of_nat (unat (ntd_samples_per_chunk d) * 1000000000)) a 1" using checked_add_share [OF a] by blast
  moreover have "adds_share a (periodic_share (ntd_time_sync d)) b 1" "adds_share b (periodic_share (ntd_health d)) c 1"
    using periodic_share_added [OF b] periodic_share_added [OF c] Cons.prems(1) by (simp_all add: demand_ok_def)
  ultimately have "adds_share v (node_share d) c (1 + 1 + 1)" unfolding node_share_def by (blast intro: adds_share_trans)
  from adds_share_trans [OF this Cons.IH [OF _ n]] Cons.prems(1) show ?case
    by (simp add: exact_demand_def eval_nat_numeral)
qed

lemma nominal_demand_no_panic: "list_all demand_ok ds \<Longrightarrow> nominal_demand v ds \<noteq> Panic"
proof (induction ds arbitrary: v)
  case (Cons d ds)
  show ?case
  proof (cases "ntd_samples_per_chunk d = 0")
    case False
    obtain m where "measurement_ppm d = Ok m" using measurement_ppm_rounds [OF False] by blast
    moreover have "checked_add_periodic a (ntd_time_sync d) \<noteq> Panic" "checked_add_periodic a (ntd_health d) \<noteq> Panic" for a
      using checked_add_periodic_rounds [of "ntd_time_sync d" a] checked_add_periodic_rounds [of "ntd_health d" a] Cons.prems
      by (auto simp: demand_ok_def)
    ultimately show ?thesis using Cons by (auto simp: result_iffs)
  qed simp
qed simp

lemma share_nonneg: "0 \<le> periodic_share t" "0 \<le> node_share d" "0 \<le> exact_demand ds"
proof -
  have p: "0 \<le> periodic_share t" for t unfolding periodic_share_def by (cases t) (auto intro!: divide_nonneg_nonneg simp del: of_nat_mult of_nat_unat)
  then have n: "0 \<le> node_share d" for d unfolding node_share_def by (intro add_nonneg_nonneg divide_nonneg_nonneg of_nat_0_le_iff p)
  show "0 \<le> periodic_share t" "0 \<le> node_share d" by (fact p, fact n)
  show "0 \<le> exact_demand ds" unfolding exact_demand_def by (induction ds) (simp_all add: n)
qed

text \<open>An addition that stays within range succeeds.\<close>

lemma checked_add_succeeds:
  assumes "rounds_up x n d" "0 < d" "(of_nat (unat v) + of_nat n / of_nat d + 1 :: rat) \<le> 2 ^ 128"
  shows "\<exists>w. checked_add v x = Some w"
proof -
  have "(of_nat (unat v + unat x) :: rat) < of_nat (2 ^ 128)"
    using rounds_up_rat(2) [OF assms(1,2)] assms(3) by (simp del: of_nat_unat)
  then have "unat v + unat x < 2 ^ 128" by (simp only: of_nat_less_iff)
  then show ?thesis by (simp add: checked_add_def)
qed

lemma periodic_succeeds:
  assumes "\<And>p. traffic = Some p \<Longrightarrow> pet_interval p \<noteq> 0" "of_nat (unat v) + periodic_share traffic + 1 \<le> 2 ^ 128"
  shows "\<exists>w. checked_add_periodic v traffic = Ok (Some w)"
proof (cases traffic)
  case (Some p)
  have "0 < unat (pet_interval p)" using assms(1) [OF Some] by (simp add: unat_gt_0)
  with checked_add_periodic_rounds [OF assms(1), of traffic v] assms(2) Some show ?thesis
    using checked_add_succeeds [of _ "unat (pet_transaction_time p) * 1000000" "unat (pet_interval p)" v]
    by (auto simp: periodic_share_def simp del: of_nat_mult of_nat_unat)
qed (simp add: checked_add_periodic_def)

lemma nominal_demand_succeeds:
  "list_all (\<lambda>d. demand_ok d \<and> ntd_samples_per_chunk d \<noteq> 0) ds \<Longrightarrow>
   of_nat (unat v) + exact_demand ds + of_nat (3 * length ds) \<le> 2 ^ 128 \<Longrightarrow> \<exists>w. nominal_demand v ds = Ok w"
proof (induction ds arbitrary: v)
  case (Cons d ds)
  let ?n = "unat (ntd_output_rate d) * unat (ntd_measurement_transaction_time d)" and ?k = "unat (ntd_samples_per_chunk d) * 1000000000"
  have ok: "demand_ok d" "ntd_samples_per_chunk d \<noteq> 0" using Cons.prems(1) by simp_all
  have k: "0 < ?k" using ok(2) by (simp add: unat_gt_0)
  have bound: "of_nat (unat v) + (of_nat ?n / of_nat ?k + periodic_share (ntd_time_sync d) + periodic_share (ntd_health d)) +
      exact_demand ds + of_nat (3 * length ds) + 3 \<le> 2 ^ 128"
    using Cons.prems(2) by (simp add: exact_demand_def node_share_def algebra_simps del: of_nat_mult of_nat_unat)
  note nn = share_nonneg(1) [of "ntd_time_sync d"] share_nonneg(1) [of "ntd_health d"] share_nonneg(3) [of ds]
    of_nat_0_le_iff [where ?'a = rat, of "3 * length ds"]
  obtain m where m: "measurement_ppm d = Ok m" "rounds_up m ?n ?k" using measurement_ppm_rounds [OF ok(2)] by blast
  obtain a where a: "checked_add v m = Some a" using checked_add_succeeds [OF m(2) k, of v] bound nn by force
  have sa: "adds_share v (of_nat ?n / of_nat ?k) a 1" by (rule checked_add_share [OF a m(2) k])
  obtain b where b: "checked_add_periodic a (ntd_time_sync d) = Ok (Some b)"
    using periodic_succeeds [of "ntd_time_sync d" a] ok(1) sa bound nn by (force simp: demand_ok_def adds_share_def)
  have sb: "adds_share a (periodic_share (ntd_time_sync d)) b 1"
    using periodic_share_added [OF b] ok(1) by (simp add: demand_ok_def)
  obtain c where c: "checked_add_periodic b (ntd_health d) = Ok (Some c)"
    using periodic_succeeds [of "ntd_health d" b] ok(1) sa sb bound nn by (force simp: demand_ok_def adds_share_def)
  have sc: "adds_share b (periodic_share (ntd_health d)) c 1"
    using periodic_share_added [OF c] ok(1) by (simp add: demand_ok_def)
  have "of_nat (unat c) + exact_demand ds + of_nat (3 * length ds) \<le> 2 ^ 128"
    using sa sb sc bound unfolding adds_share_def of_nat_1 by linarith
  with Cons.IH [of c] Cons.prems(1) obtain w where "nominal_demand c ds = Ok w" by auto
  with ok(2) m a b c show ?case by auto
qed simp

lemma u32_try_from_Some: "u32_try_from x = Some y \<longleftrightarrow> unat x < 2 ^ 32 \<and> unat y = unat x"
proof -
  have "unat (ucast x :: u32) = unat x" if "unat x < 2 ^ 32"
    using that by (simp add: unsigned_ucast_eq take_bit_nat_eq_self)
  then show ?thesis by (auto simp: u32_try_from_def word_unat_eq_iff)
qed

lemma evaluate_Ok:
  "evaluate adm nodes = Ok report \<longleftrightarrow>
     (\<exists>w. nominal_demand 0 nodes = Ok w \<and> unat (adr_nominal_utilization_ppm report) = unat w \<and>
        adr_recovery_reserve_ppm report = adp_recovery_reserve_ppm (cha_policy adm) \<and>
        unat (adr_required_utilization_ppm report) = unat w + unat (adp_recovery_reserve_ppm (cha_policy adm)) \<and>
        adr_maximum_utilization_ppm report = adp_maximum_utilization_ppm (cha_policy adm))"
  (is "?L \<longleftrightarrow> ?R")
proof
  assume ?L
  then show ?R by (auto simp: evaluate_def result_iffs u32_try_from_Some checked_add_Some)
next
  assume ?R
  then obtain w where w: "nominal_demand 0 nodes = Ok w" "unat (adr_nominal_utilization_ppm report) = unat w"
    "adr_recovery_reserve_ppm report = adp_recovery_reserve_ppm (cha_policy adm)"
    "unat (adr_required_utilization_ppm report) = unat w + unat (adp_recovery_reserve_ppm (cha_policy adm))"
    "adr_maximum_utilization_ppm report = adp_maximum_utilization_ppm (cha_policy adm)" by blast
  have "unat (adr_required_utilization_ppm report) < 2 ^ 32" "unat (adr_nominal_utilization_ppm report) < 2 ^ 32"
    using unsigned_less [of "adr_required_utilization_ppm report"] unsigned_less [of "adr_nominal_utilization_ppm report"] by simp_all
  moreover from this w(4) have "checked_add w (wide (adp_recovery_reserve_ppm (cha_policy adm))) = Some (wide (adr_required_utilization_ppm report))"
    by (simp add: checked_add_Some)
  ultimately show ?L
    using w by (cases report) (auto simp: evaluate_def result_iffs u32_try_from_Some intro!: exI [of _ w])
qed

lemma evaluate_no_panic: "list_all demand_ok nodes \<Longrightarrow> evaluate adm nodes \<noteq> Panic"
  using nominal_demand_no_panic [of nodes 0] by (auto simp: evaluate_def result_iffs)

lemma admission_policy:
  assumes "admission_new policy = Ok adm"
  shows "cha_policy adm = policy" "unat (adp_maximum_utilization_ppm policy) \<le> 1000000"
proof -
  show "cha_policy adm = policy" using assms by (auto simp: admission_new_def split: if_splits)
  have "u64_from (adp_maximum_utilization_ppm policy) \<le> PARTS_PER_MILLION"
    using assms by (auto simp: admission_new_def not_less split: if_splits)
  then show "unat (adp_maximum_utilization_ppm policy) \<le> 1000000"
    by (simp add: word_le_nat_alt u64_from_def unat_ucast_up)
qed

lemma report_bounds:
  assumes "list_all demand_ok nodes" "evaluate adm nodes = Ok report"
  shows "exact_demand nodes \<le> of_nat (unat (adr_nominal_utilization_ppm report))"
    "of_nat (unat (adr_nominal_utilization_ppm report)) \<le> exact_demand nodes + of_nat (3 * length nodes)"
    "accepted report \<Longrightarrow> exact_demand nodes + of_nat (unat (adp_recovery_reserve_ppm (cha_policy adm))) \<le>
       of_nat (unat (adp_maximum_utilization_ppm (cha_policy adm)))"
proof -
  from assms(2) obtain w where w: "nominal_demand 0 nodes = Ok w" "unat (adr_nominal_utilization_ppm report) = unat w"
    "unat (adr_required_utilization_ppm report) = unat w + unat (adp_recovery_reserve_ppm (cha_policy adm))"
    "adr_maximum_utilization_ppm report = adp_maximum_utilization_ppm (cha_policy adm)"
    unfolding evaluate_Ok by blast
  have s: "exact_demand nodes \<le> of_nat (unat w)" "of_nat (unat w) \<le> exact_demand nodes + of_nat (3 * length nodes)"
    using nominal_demand_share [OF assms(1) w(1)] unfolding adds_share_def unat_0 by simp_all
  then show "exact_demand nodes \<le> of_nat (unat (adr_nominal_utilization_ppm report))"
    "of_nat (unat (adr_nominal_utilization_ppm report)) \<le> exact_demand nodes + of_nat (3 * length nodes)"
    unfolding w(2) .
  assume "accepted report"
  then have "unat w + unat (adp_recovery_reserve_ppm (cha_policy adm)) \<le> unat (adp_maximum_utilization_ppm (cha_policy adm))"
    using w(3,4) by (simp add: accepted_def word_le_nat_alt)
  then have "(of_nat (unat w) + of_nat (unat (adp_recovery_reserve_ppm (cha_policy adm))) :: rat) \<le>
      of_nat (unat (adp_maximum_utilization_ppm (cha_policy adm)))" by (metis of_nat_add of_nat_le_iff)
  with s(1) show "exact_demand nodes + of_nat (unat (adp_recovery_reserve_ppm (cha_policy adm))) \<le>
       of_nat (unat (adp_maximum_utilization_ppm (cha_policy adm)))" by linarith
qed

lemma fitting_demand_accepted:
  assumes "list_all (\<lambda>d. demand_ok d \<and> ntd_samples_per_chunk d \<noteq> 0) nodes"
    "exact_demand nodes + of_nat (3 * length nodes) + of_nat (unat (adp_recovery_reserve_ppm (cha_policy adm))) \<le>
       of_nat (unat (adp_maximum_utilization_ppm (cha_policy adm)))"
  shows "\<exists>report. evaluate adm nodes = Ok report \<and> accepted report"
proof -
  let ?r = "unat (adp_recovery_reserve_ppm (cha_policy adm))" and ?m = "unat (adp_maximum_utilization_ppm (cha_policy adm))"
  have m: "?m < 2 ^ 32" using unsigned_less [of "adp_maximum_utilization_ppm (cha_policy adm)"] by simp
  then have "?m \<le> 2 ^ 128" by simp
  then have "(of_nat ?m :: rat) \<le> of_nat (2 ^ 128)" by (simp only: of_nat_le_iff)
  then have "(of_nat ?m :: rat) \<le> 2 ^ 128" by (simp only: of_nat_power of_nat_numeral)
  moreover have "(0 :: rat) \<le> of_nat ?r" by (rule of_nat_0_le_iff)
  ultimately have "of_nat (unat (0 :: u128)) + exact_demand nodes + of_nat (3 * length nodes) \<le> (2 ^ 128 :: rat)"
    using assms(2) unfolding unat_0 of_nat_0 by linarith
  from nominal_demand_succeeds [OF assms(1) this] obtain w where w: "nominal_demand 0 nodes = Ok w" by blast
  have "list_all demand_ok nodes" using assms(1) by (simp add: list_all_iff)
  from nominal_demand_share [OF this w] have "of_nat (unat w) \<le> exact_demand nodes + of_nat (3 * length nodes)"
    unfolding adds_share_def unat_0 by simp
  with assms(2) have "(of_nat (unat w + ?r) :: rat) \<le> of_nat ?m" unfolding of_nat_add by linarith
  then have le: "unat w + ?r \<le> ?m" by (simp only: of_nat_le_iff)
  define report where "report = \<lparr>adr_nominal_utilization_ppm = of_nat (unat w),
    adr_recovery_reserve_ppm = adp_recovery_reserve_ppm (cha_policy adm), adr_required_utilization_ppm = of_nat (unat w + ?r),
    adr_maximum_utilization_ppm = adp_maximum_utilization_ppm (cha_policy adm)\<rparr>"
  have u: "unat (of_nat k :: u32) = k" if "k \<le> ?m" for k
    using that m unfolding unat_of_nat by (simp add: take_bit_nat_eq_self)
  have req: "unat (adr_required_utilization_ppm report) = unat w + ?r" unfolding report_def using u [OF le] by (simp del: of_nat_add)
  have "unat (adr_nominal_utilization_ppm report) = unat w" unfolding report_def using u [of "unat w"] le by simp
  with req w have "evaluate adm nodes = Ok report" unfolding evaluate_Ok by (auto simp: report_def)
  moreover have "accepted report" using req le by (simp add: accepted_def word_le_nat_alt) (simp add: report_def)
  ultimately show ?thesis by blast
qed

text \<open>C38. Admission accounts for the whole demand. For traffic of any number of nodes the evaluation does not
  panic; a report states at least the exact share of the line that the transactions occupy and at most three parts per
  million per node more; so nodes that are accepted leave the recovery reserve free within the limit, which is at most the
  whole line. Conversely, traffic that fits the limit with its reserve and that rounding is evaluated and accepted.\<close>

theorem admission_accounts_for_demand:
  assumes "admission_new policy = Ok adm" "list_all demand_ok nodes"
  shows "evaluate adm nodes \<noteq> Panic \<and>
    (\<forall>report. evaluate adm nodes = Ok report \<longrightarrow>
       exact_demand nodes \<le> of_nat (unat (adr_nominal_utilization_ppm report)) \<and>
       of_nat (unat (adr_nominal_utilization_ppm report)) \<le> exact_demand nodes + of_nat (3 * length nodes) \<and>
       (accepted report \<longrightarrow>
          exact_demand nodes + of_nat (unat (adp_recovery_reserve_ppm policy)) \<le> of_nat (unat (adp_maximum_utilization_ppm policy)) \<and>
          unat (adp_maximum_utilization_ppm policy) \<le> 1000000)) \<and>
    (list_all (\<lambda>d. ntd_samples_per_chunk d \<noteq> 0) nodes \<and>
       exact_demand nodes + of_nat (3 * length nodes) + of_nat (unat (adp_recovery_reserve_ppm policy)) \<le>
         of_nat (unat (adp_maximum_utilization_ppm policy)) \<longrightarrow>
       (\<exists>report. evaluate adm nodes = Ok report \<and> accepted report))"
proof -
  note p = admission_policy [OF assms(1)]
  have "list_all (\<lambda>d. demand_ok d \<and> ntd_samples_per_chunk d \<noteq> 0) nodes" if "list_all (\<lambda>d. ntd_samples_per_chunk d \<noteq> 0) nodes"
    using that assms(2) by (simp add: list_all_iff)
  with evaluate_no_panic [OF assms(2)] report_bounds [OF assms(2), of adm] fitting_demand_accepted [of nodes adm] p show ?thesis
    by blast
qed

definition example_admission_policy :: AdmissionPolicy where
  "example_admission_policy = \<lparr>adp_maximum_utilization_ppm = 800000, adp_recovery_reserve_ppm = 100000\<rparr>"

definition example_demand :: NodeTrafficDemand where
  "example_demand = \<lparr>ntd_output_rate = HZ_1000, ntd_samples_per_chunk = 40, ntd_measurement_transaction_time = 5000,
     ntd_time_sync = Some \<lparr>pet_transaction_time = 2000, pet_interval = 1000000\<rparr>, ntd_health = None\<rparr>"

lemma example_exact_demand: "exact_demand [example_demand] = 127000"
  by (simp add: exact_demand_def node_share_def periodic_share_def example_demand_def HZ_1000_def)

theorem admission_accounts_for_demand_witness:
  "\<exists>report. evaluate \<lparr>cha_policy = example_admission_policy\<rparr> [example_demand] = Ok report \<and> accepted report \<and>
     (127000 :: rat) \<le> of_nat (unat (adr_nominal_utilization_ppm report))"
proof -
  have n: "admission_new example_admission_policy = Ok \<lparr>cha_policy = example_admission_policy\<rparr>"
    by (simp add: admission_new_def example_admission_policy_def u64_from_def PARTS_PER_MILLION_def)
  have d: "list_all demand_ok [example_demand]" by (simp add: demand_ok_def example_demand_def)
  note a = admission_accounts_for_demand [OF n d, unfolded example_exact_demand]
  have "list_all (\<lambda>d. ntd_samples_per_chunk d \<noteq> 0) [example_demand] \<and>
      (127000 :: rat) + of_nat (3 * length [example_demand]) + of_nat (unat (adp_recovery_reserve_ppm example_admission_policy)) \<le>
        of_nat (unat (adp_maximum_utilization_ppm example_admission_policy))"
    by (simp add: example_demand_def example_admission_policy_def)
  with a show ?thesis by blast
qed

end
