(* ===== verification/Host_Channel_Recovery.thy ===== *)
theory Host_Channel_Recovery
  imports Host_Recovery Protocol_Configuration Protocol_Lifecycle Capture_Wal
begin

text \<open>
  The streams of a channel at start-up (\<^verbatim>\<open>sensor-host/src/channel_recovery.rs\<close>): where the capture of a node begins, and
  the join of the bootstrapped nodes with the cursors their captures recovered.
\<close>

section \<open>State and operations\<close>

record DiscoveryTargetId =
  dti_channel_id :: u8
  dti_node_address :: u8

record NodeBootstrapEvidence =
  nbe_id :: DiscoveryTargetId
  nbe_identity :: NodeIdentity
  nbe_capabilities :: NodeCapabilities
  nbe_configuration :: ObservedConfiguration
  nbe_runtime :: RuntimeResult
  nbe_stream :: StreamState

record RecoveredCaptureStream =
  rcs_hardware_id :: HardwareId
  rcs_boot_epoch :: BootEpoch
  rcs_durable :: SequenceCursor

record DiscoveredCaptureStream =
  dcs_hardware_id :: HardwareId
  dcs_boot_epoch :: BootEpoch
  dcs_recovered_cursor :: SequenceCursor
  dcs_first_window_ordinal :: u64

datatype CaptureStartupKind = CSK_Existing | CSK_New

record PreparedCaptureStream =
  pcs_stream :: DiscoveredCaptureStream
  pcs_kind :: CaptureStartupKind

datatype ChannelRecoveryError =
  CRE_OriginHardwareMismatch DiscoveryTargetId | CRE_OriginBootEpochMismatch DiscoveryTargetId BootEpoch BootEpoch
| CRE_StreamCountMismatch usize usize | CRE_DuplicateRecoveredStream HardwareId BootEpoch
| CRE_MissingRecoveredStream DiscoveryTargetId | CRE_Stream StreamRecoveryError

definition expected_state :: "NodeBootstrapEvidence \<Rightarrow> ExpectedStreamState" where
  "expected_state node =
     \<lparr>ex_hardware_id = ni_hardware_id (nbe_identity node), ex_boot_epoch = ni_boot_epoch (nbe_identity node),
      ex_journal_capacity_samples = nc_journal_capacity_samples (nbe_capabilities node)\<rparr>"

definition prepare_capture_stream ::
  "NodeBootstrapEvidence \<Rightarrow> CaptureWalHeader option \<Rightarrow> (PreparedCaptureStream, ChannelRecoveryError) result" where
  "prepare_capture_stream node origin =
     (let expected = expected_state node in
      case origin of
        Some header \<Rightarrow>
          if cwh_hardware_id header \<noteq> ex_hardware_id expected then Err (CRE_OriginHardwareMismatch (nbe_id node))
          else if cwh_boot_epoch header \<noteq> ex_boot_epoch expected
          then Err (CRE_OriginBootEpochMismatch (nbe_id node) (ex_boot_epoch expected) (cwh_boot_epoch header))
          else Ok \<lparr>pcs_stream = \<lparr>dcs_hardware_id = cwh_hardware_id header, dcs_boot_epoch = cwh_boot_epoch header,
                     dcs_recovered_cursor = cwh_first_cursor header,
                     dcs_first_window_ordinal = cwh_first_window_ordinal header\<rparr>,
                   pcs_kind = CSK_Existing\<rparr>
      | None \<Rightarrow>
          and_then (map_err CRE_Stream (new_capture_boundary expected (nbe_stream node))) (\<lambda>boundary.
            Ok \<lparr>pcs_stream = \<lparr>dcs_hardware_id = ncb_hardware_id boundary, dcs_boot_epoch = ncb_boot_epoch boundary,
                  dcs_recovered_cursor = ncb_cursor boundary, dcs_first_window_ordinal = 0\<rparr>,
                pcs_kind = CSK_New\<rparr>))"

record RecoveredNode =
  rn_id :: DiscoveryTargetId
  rn_runtime :: RuntimeResult
  rn_continuity :: RecoveryContinuity
  rn_session :: NodeSession

definition same_capture :: "RecoveredCaptureStream \<Rightarrow> HardwareId \<Rightarrow> BootEpoch \<Rightarrow> bool" where
  "same_capture stream hardware_id boot_epoch \<longleftrightarrow>
     rcs_hardware_id stream = hardware_id \<and> rcs_boot_epoch stream = boot_epoch"

text \<open>The first loop: \<open>seen\<close> are the streams before the current one.\<close>

fun reject_duplicates ::
  "RecoveredCaptureStream list \<Rightarrow> RecoveredCaptureStream list \<Rightarrow> (unit, ChannelRecoveryError) result" where
  "reject_duplicates seen [] = Ok ()"
| "reject_duplicates seen (stream # streams) =
     (if list_ex (\<lambda>candidate. same_capture candidate (rcs_hardware_id stream) (rcs_boot_epoch stream)) seen
      then Err (CRE_DuplicateRecoveredStream (rcs_hardware_id stream) (rcs_boot_epoch stream))
      else reject_duplicates (seen @ [stream]) streams)"

definition reconcile_node ::
  "RecoveredCaptureStream list \<Rightarrow> NodeBootstrapEvidence \<Rightarrow> (RecoveredNode, ChannelRecoveryError) result" where
  "reconcile_node recovered node =
     (let expected = expected_state node in
      and_then (ok_or (find (\<lambda>stream. same_capture stream (ex_hardware_id expected) (ex_boot_epoch expected)) recovered)
                  (CRE_MissingRecoveredStream (nbe_id node))) (\<lambda>stream.
      and_then (map_err CRE_Stream (reconcile_existing_capture expected
                  \<lparr>cre_hardware_id = rcs_hardware_id stream, cre_boot_epoch = rcs_boot_epoch stream,
                   cre_durable_cursor = rcs_durable stream\<rparr> (nbe_stream node))) (\<lambda>reconciled.
        Ok \<lparr>rn_id = nbe_id node, rn_runtime = nbe_runtime node, rn_continuity = rst_continuity reconciled,
            rn_session = rst_session reconciled\<rparr>)))"

fun reconcile_nodes ::
  "RecoveredCaptureStream list \<Rightarrow> NodeBootstrapEvidence list \<Rightarrow> (RecoveredNode list, ChannelRecoveryError) result" where
  "reconcile_nodes recovered [] = Ok []"
| "reconcile_nodes recovered (node # nodes) =
     and_then (reconcile_node recovered node) (\<lambda>r. and_then (reconcile_nodes recovered nodes) (\<lambda>rs. Ok (r # rs)))"

definition reconcile_channel_streams ::
  "NodeBootstrapEvidence list \<Rightarrow> RecoveredCaptureStream list \<Rightarrow> (RecoveredNode list, ChannelRecoveryError) result" where
  "reconcile_channel_streams nodes recovered =
     (if length nodes \<noteq> length recovered then Err (CRE_StreamCountMismatch (length nodes) (length recovered))
      else and_then (reject_duplicates [] recovered) (\<lambda>_. reconcile_nodes recovered nodes))"

section \<open>Every node gets its own cursor\<close>

definition stream_key :: "RecoveredCaptureStream \<Rightarrow> HardwareId \<times> BootEpoch" where
  "stream_key s = (rcs_hardware_id s, rcs_boot_epoch s)"

definition node_key :: "NodeBootstrapEvidence \<Rightarrow> HardwareId \<times> BootEpoch" where
  "node_key n = (ni_hardware_id (nbe_identity n), ni_boot_epoch (nbe_identity n))"

definition evidence_of :: "RecoveredCaptureStream \<Rightarrow> CaptureRecoveryEvidence" where
  "evidence_of s = \<lparr>cre_hardware_id = rcs_hardware_id s, cre_boot_epoch = rcs_boot_epoch s, cre_durable_cursor = rcs_durable s\<rparr>"

text \<open>The recovery of one node from the stream that is its own.\<close>

definition recovered_from :: "RecoveredCaptureStream \<Rightarrow> NodeBootstrapEvidence \<Rightarrow> RecoveredNode \<Rightarrow> bool" where
  "recovered_from s n r \<longleftrightarrow> stream_key s = node_key n \<and> reconcilable (expected_state n) (evidence_of s) (nbe_stream n) \<and>
     rn_id r = nbe_id n \<and> rn_runtime r = nbe_runtime n \<and>
     rn_continuity r = rst_continuity (reconciled_stream (expected_state n) (evidence_of s) (nbe_stream n)) \<and>
     rn_session r = rst_session (reconciled_stream (expected_state n) (evidence_of s) (nbe_stream n))"

lemma same_capture_key: "same_capture s h e \<longleftrightarrow> stream_key s = (h, e)"
  by (simp add: same_capture_def stream_key_def)

lemma seen_before:
  "list_ex (\<lambda>c. same_capture c (rcs_hardware_id s) (rcs_boot_epoch s)) seen \<longleftrightarrow> stream_key s \<in> stream_key ` set seen"
  by (induction seen) (auto simp: same_capture_key stream_key_def)

lemma reject_duplicates_Ok:
  "reject_duplicates seen streams = Ok u \<longleftrightarrow>
     distinct (map stream_key streams) \<and> set (map stream_key seen) \<inter> set (map stream_key streams) = {}"
proof (induction seen streams rule: reject_duplicates.induct)
  case (2 seen stream streams)
  show ?case
  proof (cases "stream_key stream \<in> stream_key ` set seen")
    case True
    then show ?thesis by (simp add: seen_before)
  next
    case False
    with 2 show ?thesis by (auto simp: seen_before)
  qed
qed simp

lemma find_own_stream:
  assumes "distinct (map stream_key recovered)"
  shows "find (\<lambda>s. stream_key s = k) recovered = Some s \<longleftrightarrow> s \<in> set recovered \<and> stream_key s = k"
  using assms by (induction recovered) auto

lemma reconcile_node_Ok:
  assumes "distinct (map stream_key recovered)"
  shows "reconcile_node recovered n = Ok r \<longleftrightarrow> (\<exists>s\<in>set recovered. recovered_from s n r)"
  using find_own_stream [OF assms, of "node_key n"]
  by (cases r) (auto simp: reconcile_node_def Let_def result_iffs same_capture_key reconcile_iff recovered_from_def node_key_def
      expected_state_def evidence_of_def)

lemma reconcile_nodes_Ok:
  assumes "distinct (map stream_key recovered)"
  shows "reconcile_nodes recovered nodes = Ok result \<longleftrightarrow>
    list_all2 (\<lambda>n r. \<exists>s\<in>set recovered. recovered_from s n r) nodes result"
  by (induction nodes arbitrary: result)
    (auto simp: result_iffs reconcile_node_Ok [OF assms] list_all2_Cons1)

text \<open>C40. The start-up of a channel succeeds with \<open>result\<close> exactly when there are as many recovered streams as nodes, no
  two streams are the same capture, and every node in its place is paired with a recovered stream of its own hardware and
  boot epoch whose durable cursor can be reconciled with what the node still holds; its session then starts at that
  cursor. No node is resumed from the cursor of another node or of an earlier boot.
\<close>

theorem channel_recovers_every_node_from_its_own_capture:
  "reconcile_channel_streams nodes recovered = Ok result \<longleftrightarrow>
     length nodes = length recovered \<and> distinct (map stream_key recovered) \<and>
     list_all2 (\<lambda>n r. \<exists>s. s \<in> set recovered \<and> recovered_from s n r) nodes result"
  by (auto simp: reconcile_channel_streams_def result_iffs reject_duplicates_Ok reconcile_nodes_Ok Bex_def)

end
