(* ===== verification/Host_Runtime.thy ===== *)
theory Host_Runtime
  imports Host_Admission Host_Scheduler
begin

text \<open>
  The scheduling state of one channel (\<^verbatim>\<open>sensor-host/src/channel_runtime.rs\<close>): the nodes, their time synchronisation and
  telemetry, which work owns the line, when each node is served next, and the way of an unresponsive node from retries to
  its probes while offline. The buffer \<open>candidates\<close>, cleared and filled by every selection, is the list the selection builds.
\<close>

section \<open>Configuration\<close>

definition NANO_HERTZ_MICROS_PER_SAMPLE :: u128 where "NANO_HERTZ_MICROS_PER_SAMPLE = 1000000000000000"

record NodeScheduleConfig =
  nsc_node_address :: u8
  nsc_output_rate :: SampleRate
  nsc_journal_capacity_samples :: u32
  nsc_max_sample_chunk_samples :: u16
  nsc_target_chunk_samples :: u16
  nsc_measurement_slot :: DurationMicros
  nsc_maximum_service_interval :: DurationMicros
  nsc_retry_base_delay :: DurationMicros
  nsc_retry_max_delay :: DurationMicros
  nsc_retry_attempt_limit :: u8
  nsc_offline_probe_interval :: DurationMicros

datatype ChannelRuntimeError =
  RTE_ZeroNodeCapacity | RTE_NodeCapacityReached | RTE_InvalidNodeAddress u8 | RTE_DuplicateNode u8
| RTE_DuplicateTimeSync u8 | RTE_DuplicateTelemetry u8 | RTE_TelemetryNotConfigured u8 | RTE_UnknownNode u8
| RTE_ZeroJournalCapacity | RTE_InvalidChunkSize | RTE_InvalidTargetChunkSize | RTE_SlotExceedsServiceInterval
| RTE_InvalidRetryDelays | RTE_ZeroRetryLimit | RTE_TimeSyncSlotExceedsInterval | RTE_TelemetrySlotExceedsInterval
| RTE_ReceivedAheadOfProduced | RTE_StreamRegressed | RTE_RecoveryNotRequired u8 | RTE_RecoveryRequired u8
| RTE_ResumeWhileActive | RTE_ReconfigurationWhileActive | RTE_ResumeCursorMismatch u8 SequenceCursor SequenceCursor
| RTE_ClockRegressed | RTE_TimeOverflow | RTE_StaleDispatch | RTE_WorkIdExhausted | RTE_InvariantViolation
| RTE_UnifiedDispatchRequired | RTE_Scheduler SchedulerError

definition schedule_config_validate :: "NodeScheduleConfig \<Rightarrow> (NodeScheduleConfig, ChannelRuntimeError) result" where
  "schedule_config_validate self =
     (if nsc_node_address self = HOST_ADDRESS \<or> nsc_node_address self = BROADCAST_ADDRESS
      then Err (RTE_InvalidNodeAddress (nsc_node_address self))
      else if nsc_journal_capacity_samples self = 0 then Err RTE_ZeroJournalCapacity
      else if nsc_max_sample_chunk_samples self = 0 \<or>
              ucast (nsc_max_sample_chunk_samples self) > nsc_journal_capacity_samples self
      then Err RTE_InvalidChunkSize
      else if nsc_target_chunk_samples self = 0 \<or> nsc_target_chunk_samples self > nsc_max_sample_chunk_samples self
      then Err RTE_InvalidTargetChunkSize
      else if nsc_measurement_slot self > nsc_maximum_service_interval self then Err RTE_SlotExceedsServiceInterval
      else if nsc_retry_base_delay self > nsc_retry_max_delay self then Err RTE_InvalidRetryDelays
      else if nsc_retry_attempt_limit self = 0 then Err RTE_ZeroRetryLimit
      else Ok self)"

record MeasurementProgress =
  mp_received :: SequenceCursor
  mp_produced :: SequenceCursor

definition progress_validate :: "MeasurementProgress \<Rightarrow> (MeasurementProgress, ChannelRuntimeError) result" where
  "progress_validate self = (if mp_received self > mp_produced self then Err RTE_ReceivedAheadOfProduced else Ok self)"

record MeasurementDispatch =
  md_work_id :: u64
  md_node_address :: u8
  md_max_samples :: u16

text \<open>The dispatches, configurations and states of time synchronisation and telemetry have the same fields.\<close>

record ServiceDispatch =
  svd_work_id :: u64
  svd_node_address :: u8

type_synonym RecoveryDispatch = ServiceDispatch
type_synonym TimeSyncDispatch = ServiceDispatch
type_synonym TelemetryDispatch = ServiceDispatch

datatype ChannelDispatch =
  CD_Measurement MeasurementDispatch | CD_Recovery RecoveryDispatch | CD_TimeSync TimeSyncDispatch
| CD_Telemetry TelemetryDispatch

datatype RecoveryCause = RC_StreamChanged | RC_InvalidRelease | RC_InvalidResponse | RC_StreamRegressed

datatype OfflineCause = OC_Unresponsive | OC_Recovery RecoveryCause

datatype NodeAvailability =
  NA_Online | NA_RetryBackoff u8 | NA_Recovering RecoveryCause u8 | NA_Offline OfflineCause u8

fun failures :: "NodeAvailability \<Rightarrow> u8" where
  "failures NA_Online = 0"
| "failures (NA_RetryBackoff n) = n"
| "failures (NA_Recovering _ n) = n"
| "failures (NA_Offline _ n) = n"

fun availability_recovery_cause :: "NodeAvailability \<Rightarrow> RecoveryCause option" where
  "availability_recovery_cause (NA_Recovering cause _) = Some cause"
| "availability_recovery_cause (NA_Offline (OC_Recovery cause) _) = Some cause"
| "availability_recovery_cause _ = None"

fun is_offline :: "NodeAvailability \<Rightarrow> bool" where
  "is_offline (NA_Offline _ _) = True"
| "is_offline _ = False"

fun allows_auxiliary :: "NodeAvailability \<Rightarrow> bool" where
  "allows_auxiliary NA_Online = True"
| "allows_auxiliary (NA_RetryBackoff _) = True"
| "allows_auxiliary _ = False"

record ServiceScheduleConfig =
  ssc_interval :: DurationMicros
  ssc_estimated_slot :: DurationMicros
  ssc_retry_delay :: DurationMicros

type_synonym TimeSyncScheduleConfig = ServiceScheduleConfig
type_synonym TelemetryScheduleConfig = ServiceScheduleConfig

definition time_sync_config_validate :: "TimeSyncScheduleConfig \<Rightarrow> (TimeSyncScheduleConfig, ChannelRuntimeError) result" where
  "time_sync_config_validate self =
     (if ssc_estimated_slot self > ssc_interval self then Err RTE_TimeSyncSlotExceedsInterval else Ok self)"

definition telemetry_config_validate :: "TelemetryScheduleConfig \<Rightarrow> (TelemetryScheduleConfig, ChannelRuntimeError) result" where
  "telemetry_config_validate self =
     (if ssc_estimated_slot self > ssc_interval self then Err RTE_TelemetrySlotExceedsInterval else Ok self)"

record ServiceScheduleState =
  sst_node_address :: u8
  sst_config :: ServiceScheduleConfig
  sst_deadline :: MonotonicMicros
  sst_ready_at :: MonotonicMicros
  sst_queued_at :: MonotonicMicros
  sst_work_id :: u64
  sst_in_flight :: bool

type_synonym TimeSyncScheduleState = ServiceScheduleState
type_synonym TelemetryScheduleState = ServiceScheduleState

definition time_sync_candidate :: "TimeSyncScheduleState \<Rightarrow> WorkCandidate option" where
  "time_sync_candidate self =
     (if sst_in_flight self then None
      else Some \<lparr>wc_work_id = sst_work_id self, wc_node_address = sst_node_address self, wc_class = TC_TimeSync,
                 wc_ready_at = sst_ready_at self, wc_deadline = Some (sst_deadline self), wc_queued_at = sst_queued_at self,
                 wc_time_to_overflow_us = None, wc_estimated_slot = ssc_estimated_slot (sst_config self)\<rparr>)"

definition telemetry_candidate :: "TelemetryScheduleState \<Rightarrow> WorkCandidate option" where
  "telemetry_candidate self =
     (if sst_in_flight self then None
      else Some \<lparr>wc_work_id = sst_work_id self, wc_node_address = sst_node_address self, wc_class = TC_Telemetry,
                 wc_ready_at = sst_ready_at self, wc_deadline = Some (sst_deadline self), wc_queued_at = sst_queued_at self,
                 wc_time_to_overflow_us = None, wc_estimated_slot = ssc_estimated_slot (sst_config self)\<rparr>)"

section \<open>The schedule of one node\<close>

record NodeScheduleState =
  nss_config :: NodeScheduleConfig
  nss_received :: SequenceCursor
  nss_observed_produced :: SequenceCursor
  nss_observed_at :: MonotonicMicros
  nss_service_deadline :: MonotonicMicros
  nss_ready_at :: MonotonicMicros
  nss_queued_at :: MonotonicMicros
  nss_availability :: NodeAvailability
  nss_work_id :: u64
  nss_in_flight :: bool

abbreviation nss_address :: "NodeScheduleState \<Rightarrow> u8" where
  "nss_address node \<equiv> nsc_node_address (nss_config node)"

record NodeScheduleSnapshot =
  snp_node_address :: u8
  snp_received :: SequenceCursor
  snp_observed_produced :: SequenceCursor
  snp_time_to_overflow_us :: u64
  snp_service_deadline :: MonotonicMicros
  snp_ready_at :: MonotonicMicros
  snp_consecutive_failures :: u8
  snp_offline :: bool
  snp_in_flight :: bool
  snp_recovery_required :: bool
  snp_availability :: NodeAvailability

definition saturating_mul :: "'a::len word \<Rightarrow> 'a word \<Rightarrow> 'a word" where
  "saturating_mul a b = (case checked_mul a b of Some c \<Rightarrow> c | None \<Rightarrow> - 1)"

definition div_unchecked :: "'a::len word \<Rightarrow> 'a word \<Rightarrow> ('a word, 'e) result" where
  "div_unchecked a b = (if b = 0 then Panic else Ok (a div b))"

text \<open>\<open>u64::try_from(..).unwrap_or(u64::MAX)\<close>\<close>

definition u64_or_max :: "u128 \<Rightarrow> u64" where
  "u64_or_max x = (if unat x < 2 ^ 64 then ucast x else - 1)"

definition runtime_div_ceil :: "u128 \<Rightarrow> u128 \<Rightarrow> (u128, 'e) result" where
  "runtime_div_ceil numerator denominator =
     (if denominator = 0 then Panic
      else add_unchecked (numerator div denominator) (if numerator mod denominator = 0 then 0 else 1))"

definition time_to_overflow_us :: "NodeScheduleState \<Rightarrow> MonotonicMicros \<Rightarrow> (u64, ChannelRuntimeError) result" where
  "time_to_overflow_us self now =
     and_then (ok_or (checked_sub now (nss_observed_at self)) RTE_ClockRegressed) (\<lambda>elapsed_us.
     and_then (mul_unchecked (wide (nsc_output_rate (nss_config self))) (wide elapsed_us)) (\<lambda>grown.
     and_then (runtime_div_ceil grown NANO_HERTZ_MICROS_PER_SAMPLE) (\<lambda>produced_since_observation.
       let estimated_produced = saturating_add (wide (nss_observed_produced self)) produced_since_observation;
           backlog = saturating_sub estimated_produced (wide (nss_received self));
           capacity = wide (nsc_journal_capacity_samples (nss_config self));
           free_samples = saturating_sub capacity (min backlog capacity)
       in and_then (div_unchecked (saturating_mul free_samples NANO_HERTZ_MICROS_PER_SAMPLE)
                      (wide (nsc_output_rate (nss_config self)))) (\<lambda>micros.
            Ok (u64_or_max micros)))))"

definition node_candidate :: "NodeScheduleState \<Rightarrow> MonotonicMicros \<Rightarrow> (WorkCandidate option, ChannelRuntimeError) result" where
  "node_candidate self now =
     (if nss_in_flight self then Ok None
      else if availability_recovery_cause (nss_availability self) \<noteq> None
      then Ok (Some \<lparr>wc_work_id = nss_work_id self, wc_node_address = nss_address self, wc_class = TC_Control,
                     wc_ready_at = nss_ready_at self, wc_deadline = Some (nss_ready_at self),
                     wc_queued_at = nss_queued_at self, wc_time_to_overflow_us = None,
                     wc_estimated_slot = nsc_measurement_slot (nss_config self)\<rparr>)
      else and_then (time_to_overflow_us self now) (\<lambda>t.
           Ok (Some \<lparr>wc_work_id = nss_work_id self, wc_node_address = nss_address self, wc_class = TC_Measurement,
                     wc_ready_at = nss_ready_at self, wc_deadline = Some (nss_service_deadline self),
                     wc_queued_at = nss_queued_at self, wc_time_to_overflow_us = Some t,
                     wc_estimated_slot = nsc_measurement_slot (nss_config self)\<rparr>)))"

definition node_snapshot :: "NodeScheduleState \<Rightarrow> MonotonicMicros \<Rightarrow> (NodeScheduleSnapshot, ChannelRuntimeError) result" where
  "node_snapshot self now =
     and_then (time_to_overflow_us self now) (\<lambda>t.
       Ok \<lparr>snp_node_address = nss_address self, snp_received = nss_received self,
           snp_observed_produced = nss_observed_produced self, snp_time_to_overflow_us = t,
           snp_service_deadline = nss_service_deadline self, snp_ready_at = nss_ready_at self,
           snp_consecutive_failures = failures (nss_availability self), snp_offline = is_offline (nss_availability self),
           snp_in_flight = nss_in_flight self,
           snp_recovery_required = (availability_recovery_cause (nss_availability self) \<noteq> None),
           snp_availability = nss_availability self\<rparr>)"

text \<open>The loop of \<open>exponential_delay\<close>, run \<open>n\<close> times.\<close>

primrec doubled_delay :: "nat \<Rightarrow> u64 \<Rightarrow> u64 \<Rightarrow> u64" where
  "doubled_delay 0 delay maximum = delay"
| "doubled_delay (Suc n) delay maximum = doubled_delay n (min (saturating_mul delay 2) maximum) maximum"

definition exponential_delay :: "DurationMicros \<Rightarrow> DurationMicros \<Rightarrow> u8 \<Rightarrow> (DurationMicros, ChannelRuntimeError) result" where
  "exponential_delay base maximum failure_count =
     (let delay = min (doubled_delay (unat failure_count - 1) base maximum) maximum in
      if delay = 0 then Panic else Ok delay)"

definition next_measurement_ready_at ::
  "NodeScheduleConfig \<Rightarrow> MeasurementProgress \<Rightarrow> MonotonicMicros \<Rightarrow> (MonotonicMicros, ChannelRuntimeError) result" where
  "next_measurement_ready_at config progress now =
     and_then (sub_unchecked (mp_produced progress) (mp_received progress)) (\<lambda>backlog.
       let missing_samples = saturating_sub (u64_from (nsc_target_chunk_samples config)) backlog in
       and_then (div_unchecked (saturating_mul (wide missing_samples) NANO_HERTZ_MICROS_PER_SAMPLE)
                   (wide (nsc_output_rate config))) (\<lambda>fill_time_us.
         let latest_safe_start_us = saturating_sub (nsc_maximum_service_interval config) (nsc_measurement_slot config);
             wait_us = min (u64_or_max fill_time_us) latest_safe_start_us
         in ok_or (checked_add now wait_us) RTE_TimeOverflow))"

section \<open>The runtime of a channel\<close>

text \<open>The scheduler of the source is its policy.\<close>

record ChannelRuntime =
  crt_scheduler :: ChannelSchedulerPolicy
  crt_observability :: ObservabilityProfile
  crt_max_nodes :: usize
  crt_next_work_id :: u64
  crt_nodes :: "NodeScheduleState list"
  crt_time_sync :: "TimeSyncScheduleState list"
  crt_telemetry :: "TelemetryScheduleState list"
  crt_active_dispatch :: "ChannelDispatch option"

type_synonym runtime_outcome = "(ChannelRuntime, unit, ChannelRuntimeError) outcome"

definition runtime_new ::
  "ChannelSchedulerPolicy \<Rightarrow> ObservabilityProfile \<Rightarrow> usize \<Rightarrow> u64 \<Rightarrow> (ChannelRuntime, ChannelRuntimeError) result" where
  "runtime_new scheduler observability max_nodes work_id_seed =
     (if max_nodes = 0 then Err RTE_ZeroNodeCapacity
      else Ok \<lparr>crt_scheduler = scheduler, crt_observability = observability, crt_max_nodes = max_nodes,
              crt_next_work_id = max work_id_seed 1, crt_nodes = [], crt_time_sync = [], crt_telemetry = [],
              crt_active_dispatch = None\<rparr>)"

text \<open>\<open>iter().position\<close>\<close>

fun position :: "('a \<Rightarrow> bool) \<Rightarrow> 'a list \<Rightarrow> usize option" where
  "position P [] = None"
| "position P (x # xs) = (if P x then Some 0 else map_option Suc (position P xs))"

definition work_id_in_use :: "ChannelRuntime \<Rightarrow> u64 \<Rightarrow> bool" where
  "work_id_in_use self candidate \<longleftrightarrow>
     list_ex (\<lambda>node. nss_work_id node = candidate) (crt_nodes self) \<or>
     list_ex (\<lambda>state. sst_work_id state = candidate) (crt_time_sync self) \<or>
     list_ex (\<lambda>state. sst_work_id state = candidate) (crt_telemetry self)"

primrec allocate_from :: "nat \<Rightarrow> ChannelRuntime \<Rightarrow> (ChannelRuntime, u64, ChannelRuntimeError) outcome" where
  "allocate_from 0 self = (Err RTE_WorkIdExhausted, self)"
| "allocate_from (Suc n) self =
     (let candidate = max (crt_next_work_id self) 1;
          self = self\<lparr>crt_next_work_id := max (candidate + 1) 1\<rparr>
      in if \<not> work_id_in_use self candidate then (Ok candidate, self) else allocate_from n self)"

definition allocate_work_id :: "ChannelRuntime \<Rightarrow> (ChannelRuntime, u64, ChannelRuntimeError) outcome" where
  "allocate_work_id self = allocate_from (Suc (crt_max_nodes self)) self"

definition node_index :: "ChannelRuntime \<Rightarrow> u8 \<Rightarrow> (usize, ChannelRuntimeError) result" where
  "node_index self node_address =
     ok_or (position (\<lambda>node. nss_address node = node_address) (crt_nodes self)) (RTE_UnknownNode node_address)"

definition update_node :: "ChannelRuntime \<Rightarrow> usize \<Rightarrow> (NodeScheduleState \<Rightarrow> NodeScheduleState) \<Rightarrow> ChannelRuntime" where
  "update_node self index f = self\<lparr>crt_nodes := (crt_nodes self)[index := f (crt_nodes self ! index)]\<rparr>"

definition release :: "ChannelRuntime \<Rightarrow> ChannelRuntime" where
  "release self = self\<lparr>crt_active_dispatch := None\<rparr>"

text \<open>With a new work identifier, or the error of running out of them.\<close>

definition with_work_id :: "ChannelRuntime \<Rightarrow> (ChannelRuntime \<Rightarrow> u64 \<Rightarrow> runtime_outcome) \<Rightarrow> runtime_outcome" where
  "with_work_id self k = (let (allocated, self) = allocate_work_id self in try_with allocated self (\<lambda>work_id. k self work_id))"

definition register_node ::
  "ChannelRuntime \<Rightarrow> NodeScheduleConfig \<Rightarrow> SequenceCursor \<Rightarrow> MonotonicMicros \<Rightarrow> runtime_outcome" where
  "register_node self config recovered_cursor now =
     try_with (schedule_config_validate config) self (\<lambda>config.
     if length (crt_nodes self) \<ge> crt_max_nodes self then (Err RTE_NodeCapacityReached, self)
     else if list_ex (\<lambda>node. nss_address node = nsc_node_address config) (crt_nodes self)
     then (Err (RTE_DuplicateNode (nsc_node_address config)), self)
     else with_work_id self (\<lambda>self work_id.
       (Ok (), self\<lparr>crt_nodes := crt_nodes self @ [\<lparr>nss_config = config, nss_received = recovered_cursor,
          nss_observed_produced = recovered_cursor, nss_observed_at = now, nss_service_deadline = now, nss_ready_at = now,
          nss_queued_at = now, nss_availability = NA_Online, nss_work_id = work_id, nss_in_flight = False\<rparr>]\<rparr>)))"

definition reconfigure_node :: "ChannelRuntime \<Rightarrow> NodeScheduleConfig \<Rightarrow> MonotonicMicros \<Rightarrow> runtime_outcome" where
  "reconfigure_node self config now =
     try_with (schedule_config_validate config) self (\<lambda>config.
     if crt_active_dispatch self \<noteq> None then (Err RTE_ReconfigurationWhileActive, self)
     else try_with (node_index self (nsc_node_address config)) self (\<lambda>index.
       let node = crt_nodes self ! index in
       if nss_in_flight node \<or> availability_recovery_cause (nss_availability node) \<noteq> None
       then (Err RTE_ReconfigurationWhileActive, self)
       else (Ok (), update_node self index (\<lambda>node. node\<lparr>nss_config := config, nss_observed_at := now,
               nss_service_deadline := now, nss_ready_at := now, nss_queued_at := now\<rparr>))))"

definition set_observability :: "ChannelRuntime \<Rightarrow> ObservabilityProfile \<Rightarrow> ChannelRuntime" where
  "set_observability self observability = self\<lparr>crt_observability := observability\<rparr>"

definition new_service :: "u8 \<Rightarrow> ServiceScheduleConfig \<Rightarrow> MonotonicMicros \<Rightarrow> u64 \<Rightarrow> ServiceScheduleState" where
  "new_service node_address config first_deadline work_id =
     (let first_ready_at = saturating_sub first_deadline (ssc_estimated_slot config) in
      \<lparr>sst_node_address = node_address, sst_config = config, sst_deadline = first_deadline, sst_ready_at = first_ready_at,
       sst_queued_at = first_ready_at, sst_work_id = work_id, sst_in_flight = False\<rparr>)"

definition configure_time_sync ::
  "ChannelRuntime \<Rightarrow> u8 \<Rightarrow> TimeSyncScheduleConfig \<Rightarrow> MonotonicMicros \<Rightarrow> runtime_outcome" where
  "configure_time_sync self node_address config first_deadline =
     try_with (time_sync_config_validate config) self (\<lambda>config.
     try_with (node_index self node_address) self (\<lambda>index.
     if availability_recovery_cause (nss_availability (crt_nodes self ! index)) \<noteq> None
     then (Err (RTE_RecoveryRequired node_address), self)
     else if list_ex (\<lambda>state. sst_node_address state = node_address) (crt_time_sync self)
     then (Err (RTE_DuplicateTimeSync node_address), self)
     else with_work_id self (\<lambda>self work_id.
       (Ok (), self\<lparr>crt_time_sync := crt_time_sync self @ [new_service node_address config first_deadline work_id]\<rparr>))))"

definition configure_telemetry ::
  "ChannelRuntime \<Rightarrow> u8 \<Rightarrow> TelemetryScheduleConfig \<Rightarrow> MonotonicMicros \<Rightarrow> runtime_outcome" where
  "configure_telemetry self node_address config first_deadline =
     try_with (telemetry_config_validate config) self (\<lambda>config.
     try_with (node_index self node_address) self (\<lambda>index.
     if availability_recovery_cause (nss_availability (crt_nodes self ! index)) \<noteq> None
     then (Err (RTE_RecoveryRequired node_address), self)
     else if list_ex (\<lambda>state. sst_node_address state = node_address) (crt_telemetry self)
     then (Err (RTE_DuplicateTelemetry node_address), self)
     else with_work_id self (\<lambda>self work_id.
       (Ok (), self\<lparr>crt_telemetry := crt_telemetry self @ [new_service node_address config first_deadline work_id]\<rparr>))))"

definition update_telemetry ::
  "ChannelRuntime \<Rightarrow> usize \<Rightarrow> (TelemetryScheduleState \<Rightarrow> TelemetryScheduleState) \<Rightarrow> ChannelRuntime" where
  "update_telemetry self index f = self\<lparr>crt_telemetry := (crt_telemetry self)[index := f (crt_telemetry self ! index)]\<rparr>"

definition update_time_sync ::
  "ChannelRuntime \<Rightarrow> usize \<Rightarrow> (TimeSyncScheduleState \<Rightarrow> TimeSyncScheduleState) \<Rightarrow> ChannelRuntime" where
  "update_time_sync self index f = self\<lparr>crt_time_sync := (crt_time_sync self)[index := f (crt_time_sync self ! index)]\<rparr>"

definition reconfigure_telemetry ::
  "ChannelRuntime \<Rightarrow> u8 \<Rightarrow> TelemetryScheduleConfig \<Rightarrow> MonotonicMicros \<Rightarrow> runtime_outcome" where
  "reconfigure_telemetry self node_address config now =
     try_with (telemetry_config_validate config) self (\<lambda>config.
     try_with (ok_or (position (\<lambda>state. sst_node_address state = node_address) (crt_telemetry self))
                 (RTE_TelemetryNotConfigured node_address)) self (\<lambda>index.
       let self = update_telemetry self index (\<lambda>state. state\<lparr>sst_config := config\<rparr>) in
       if \<not> sst_in_flight (crt_telemetry self ! index)
       then try_with (ok_or (monotonic_checked_add now (ssc_interval config)) RTE_TimeOverflow) self (\<lambda>deadline.
         (Ok (), update_telemetry self index (\<lambda>state. state\<lparr>sst_deadline := deadline,
            sst_ready_at := saturating_sub deadline (ssc_estimated_slot config), sst_queued_at := now\<rparr>)))
       else (Ok (), self)))"

section \<open>Selection\<close>

fun node_candidates ::
  "MonotonicMicros \<Rightarrow> NodeScheduleState list \<Rightarrow> (WorkCandidate list, ChannelRuntimeError) result" where
  "node_candidates now [] = Ok []"
| "node_candidates now (node # nodes) =
     and_then (node_candidate node now) (\<lambda>candidate.
     and_then (node_candidates now nodes) (\<lambda>candidates.
       Ok ((case candidate of Some c \<Rightarrow> [c] | None \<Rightarrow> []) @ candidates)))"

definition node_available :: "ChannelRuntime \<Rightarrow> u8 \<Rightarrow> bool" where
  "node_available self node_address \<longleftrightarrow>
     list_ex (\<lambda>node. nss_address node = node_address \<and> allows_auxiliary (nss_availability node) \<and> \<not> nss_in_flight node)
       (crt_nodes self)"

definition service_candidates ::
  "ChannelRuntime \<Rightarrow> (ServiceScheduleState \<Rightarrow> WorkCandidate option) \<Rightarrow> ServiceScheduleState list \<Rightarrow> WorkCandidate list" where
  "service_candidates self candidate states =
     List.map_filter (\<lambda>state. if node_available self (sst_node_address state) then candidate state else None) states"

definition schedule_context :: "ChannelRuntime \<Rightarrow> MonotonicMicros \<Rightarrow> ScheduleContext" where
  "schedule_context self now = \<lparr>sx_now = now, sx_observability = crt_observability self, sx_diagnostic_budget_us = 0\<rparr>"

text \<open>The match on the class of the selected work: the dispatch, and the runtime with its work in flight.\<close>

definition dispatch_selected ::
  "ChannelRuntime \<Rightarrow> ScheduledWork \<Rightarrow> (ChannelRuntime, ChannelDispatch, ChannelRuntimeError) outcome" where
  "dispatch_selected self selected =
     (case sw_class selected of
        TC_Control \<Rightarrow>
          try_with (ok_or (position (\<lambda>node. nss_work_id node = sw_work_id selected) (crt_nodes self)) RTE_InvariantViolation)
            self (\<lambda>index. let node = crt_nodes self ! index in
              if availability_recovery_cause (nss_availability node) = None then (Err RTE_InvariantViolation, self)
              else (Ok (CD_Recovery \<lparr>svd_work_id = nss_work_id node, svd_node_address = nss_address node\<rparr>),
                    update_node self index (\<lambda>node. node\<lparr>nss_in_flight := True\<rparr>)))
      | TC_Measurement \<Rightarrow>
          try_with (ok_or (position (\<lambda>node. nss_work_id node = sw_work_id selected) (crt_nodes self)) RTE_InvariantViolation)
            self (\<lambda>index. let node = crt_nodes self ! index in
              (Ok (CD_Measurement \<lparr>md_work_id = nss_work_id node, md_node_address = nss_address node,
                     md_max_samples = nsc_max_sample_chunk_samples (nss_config node)\<rparr>),
               update_node self index (\<lambda>node. node\<lparr>nss_in_flight := True\<rparr>)))
      | TC_TimeSync \<Rightarrow>
          try_with (ok_or (position (\<lambda>state. sst_work_id state = sw_work_id selected) (crt_time_sync self))
              RTE_InvariantViolation) self (\<lambda>index. let state = crt_time_sync self ! index in
              (Ok (CD_TimeSync \<lparr>svd_work_id = sst_work_id state, svd_node_address = sst_node_address state\<rparr>),
               update_time_sync self index (\<lambda>state. state\<lparr>sst_in_flight := True\<rparr>)))
      | TC_Telemetry \<Rightarrow>
          try_with (ok_or (position (\<lambda>state. sst_work_id state = sw_work_id selected) (crt_telemetry self))
              RTE_InvariantViolation) self (\<lambda>index. let state = crt_telemetry self ! index in
              (Ok (CD_Telemetry \<lparr>svd_work_id = sst_work_id state, svd_node_address = sst_node_address state\<rparr>),
               update_telemetry self index (\<lambda>state. state\<lparr>sst_in_flight := True\<rparr>)))
      | _ \<Rightarrow> (Err RTE_InvariantViolation, self))"

definition work_candidates :: "ChannelRuntime \<Rightarrow> MonotonicMicros \<Rightarrow> (WorkCandidate list, ChannelRuntimeError) result" where
  "work_candidates self now =
     and_then (node_candidates now (crt_nodes self)) (\<lambda>candidates.
       Ok (candidates @ service_candidates self time_sync_candidate (crt_time_sync self)
             @ service_candidates self telemetry_candidate (crt_telemetry self)))"

definition select_work ::
  "ChannelRuntime \<Rightarrow> MonotonicMicros \<Rightarrow> (ChannelRuntime, ChannelDispatch option, ChannelRuntimeError) outcome" where
  "select_work self now =
     (if crt_active_dispatch self \<noteq> None then (Ok None, self)
      else try_with (work_candidates self now) self (\<lambda>candidates.
           try_with (map_err RTE_Scheduler (select (crt_scheduler self) (schedule_context self now) candidates)) self
             (\<lambda>selected. case selected of
                None \<Rightarrow> (Ok None, self)
              | Some selected \<Rightarrow>
                  let (dispatched, self) = dispatch_selected self selected in
                  try_with dispatched self (\<lambda>dispatch.
                    (Ok (Some dispatch), self\<lparr>crt_active_dispatch := Some dispatch\<rparr>)))))"

definition select_measurement ::
  "ChannelRuntime \<Rightarrow> MonotonicMicros \<Rightarrow> (ChannelRuntime, MeasurementDispatch option, ChannelRuntimeError) outcome" where
  "select_measurement self now =
     (if crt_time_sync self \<noteq> [] \<or> crt_telemetry self \<noteq> [] then (Err RTE_UnifiedDispatchRequired, self)
      else if crt_active_dispatch self \<noteq> None then (Ok None, self)
      else try_with (node_candidates now (crt_nodes self)) self (\<lambda>candidates.
           try_with (map_err RTE_Scheduler (select (crt_scheduler self) (schedule_context self now) candidates)) self
             (\<lambda>selected. case selected of
                None \<Rightarrow> (Ok None, self)
              | Some selected \<Rightarrow>
                  if sw_class selected \<noteq> TC_Measurement then (Ok None, self)
                  else try_with (ok_or (position (\<lambda>node. nss_work_id node = sw_work_id selected) (crt_nodes self))
                         RTE_InvariantViolation) self (\<lambda>index.
                    let node = crt_nodes self ! index in
                    if nss_in_flight node then (Err RTE_InvariantViolation, self)
                    else let dispatch = \<lparr>md_work_id = nss_work_id node, md_node_address = nss_address node,
                               md_max_samples = nsc_max_sample_chunk_samples (nss_config node)\<rparr>
                         in (Ok (Some dispatch), (update_node self index (\<lambda>node. node\<lparr>nss_in_flight := True\<rparr>))
                               \<lparr>crt_active_dispatch := Some (CD_Measurement dispatch)\<rparr>)))))"

definition select_shutdown_measurement ::
  "ChannelRuntime \<Rightarrow> u8 \<Rightarrow> MonotonicMicros \<Rightarrow> (ChannelRuntime, MeasurementDispatch option, ChannelRuntimeError) outcome" where
  "select_shutdown_measurement self node_address now =
     (if crt_active_dispatch self \<noteq> None then (Ok None, self)
      else try_with (node_index self node_address) self (\<lambda>index.
        let node = crt_nodes self ! index in
        if availability_recovery_cause (nss_availability node) \<noteq> None then (Ok None, self)
        else if nss_in_flight node then (Ok None, self)
        else if failures (nss_availability node) > 0 \<and> nss_ready_at node > now then (Ok None, self)
        else let dispatch = \<lparr>md_work_id = nss_work_id node, md_node_address = node_address,
                   md_max_samples = nsc_max_sample_chunk_samples (nss_config node)\<rparr>
             in (Ok (Some dispatch), (update_node self index (\<lambda>node. node\<lparr>nss_in_flight := True\<rparr>))
                   \<lparr>crt_active_dispatch := Some (CD_Measurement dispatch)\<rparr>)))"

section \<open>Completion\<close>

definition in_flight_node_index :: "ChannelRuntime \<Rightarrow> MeasurementDispatch \<Rightarrow> (usize, ChannelRuntimeError) result" where
  "in_flight_node_index self dispatch =
     and_then (node_index self (md_node_address dispatch)) (\<lambda>index.
       let node = crt_nodes self ! index in
       if \<not> nss_in_flight node \<or> nss_work_id node \<noteq> md_work_id dispatch then Err RTE_StaleDispatch
       else if nsc_max_sample_chunk_samples (nss_config node) \<noteq> md_max_samples dispatch then Err RTE_StaleDispatch
       else Ok index)"

definition active_node_index :: "ChannelRuntime \<Rightarrow> MeasurementDispatch \<Rightarrow> (usize, ChannelRuntimeError) result" where
  "active_node_index self dispatch =
     (if crt_active_dispatch self \<noteq> Some (CD_Measurement dispatch) then Err RTE_StaleDispatch
      else in_flight_node_index self dispatch)"

definition active_recovery_index :: "ChannelRuntime \<Rightarrow> RecoveryDispatch \<Rightarrow> (usize, ChannelRuntimeError) result" where
  "active_recovery_index self dispatch =
     (if crt_active_dispatch self \<noteq> Some (CD_Recovery dispatch) then Err RTE_StaleDispatch
      else and_then (node_index self (svd_node_address dispatch)) (\<lambda>index.
        let node = crt_nodes self ! index in
        if \<not> nss_in_flight node \<or> nss_work_id node \<noteq> svd_work_id dispatch then Err RTE_StaleDispatch else Ok index))"

definition service_index :: "ServiceScheduleState list \<Rightarrow> ServiceDispatch \<Rightarrow> (usize, ChannelRuntimeError) result" where
  "service_index states dispatch =
     and_then (ok_or (position (\<lambda>state. sst_node_address state = svd_node_address dispatch) states)
                 (RTE_UnknownNode (svd_node_address dispatch))) (\<lambda>index.
       let state = states ! index in
       if \<not> sst_in_flight state \<or> sst_work_id state \<noteq> svd_work_id dispatch then Err RTE_StaleDispatch else Ok index)"

definition active_time_sync_index :: "ChannelRuntime \<Rightarrow> TimeSyncDispatch \<Rightarrow> (usize, ChannelRuntimeError) result" where
  "active_time_sync_index self dispatch =
     (if crt_active_dispatch self \<noteq> Some (CD_TimeSync dispatch) then Err RTE_StaleDispatch
      else service_index (crt_time_sync self) dispatch)"

definition active_telemetry_index :: "ChannelRuntime \<Rightarrow> TelemetryDispatch \<Rightarrow> (usize, ChannelRuntimeError) result" where
  "active_telemetry_index self dispatch =
     (if crt_active_dispatch self \<noteq> Some (CD_Telemetry dispatch) then Err RTE_StaleDispatch
      else service_index (crt_telemetry self) dispatch)"

definition stream_regressed :: "MonotonicMicros \<Rightarrow> NodeScheduleState \<Rightarrow> NodeScheduleState" where
  "stream_regressed now node = node\<lparr>nss_in_flight := False, nss_availability := NA_Recovering RC_StreamRegressed 0,
     nss_ready_at := now\<rparr>"

text \<open>The second half of \<open>complete_measurement\<close> and of \<open>complete_parked_measurement\<close>, up to the release of the line.\<close>

definition measurement_progressed ::
  "ChannelRuntime \<Rightarrow> usize \<Rightarrow> MeasurementProgress \<Rightarrow> MonotonicMicros \<Rightarrow> (ChannelRuntime \<Rightarrow> ChannelRuntime) \<Rightarrow> runtime_outcome" where
  "measurement_progressed self index progress now settle =
     (let node = crt_nodes self ! index in
      if mp_received progress < nss_received node \<or> mp_produced progress < nss_observed_produced node
      then (Err RTE_StreamRegressed, settle (update_node self index (stream_regressed now)))
      else try_with (ok_or (monotonic_checked_add now (nsc_maximum_service_interval (nss_config node))) RTE_TimeOverflow) self
        (\<lambda>next_deadline. with_work_id self (\<lambda>self next_work_id.
          let self = update_node self index (\<lambda>node. node\<lparr>nss_received := mp_received progress,
                nss_observed_produced := mp_produced progress, nss_observed_at := now,
                nss_service_deadline := next_deadline\<rparr>)
          in try_with (next_measurement_ready_at (nss_config node) progress now) self (\<lambda>ready_at.
               (Ok (), settle (update_node self index (\<lambda>node. node\<lparr>nss_ready_at := ready_at, nss_queued_at := now,
                  nss_availability := NA_Online, nss_work_id := next_work_id, nss_in_flight := False\<rparr>)))))))"

definition complete_measurement ::
  "ChannelRuntime \<Rightarrow> MeasurementDispatch \<Rightarrow> MeasurementProgress \<Rightarrow> MonotonicMicros \<Rightarrow> runtime_outcome" where
  "complete_measurement self dispatch progress now =
     try_with (progress_validate progress) self (\<lambda>progress.
     try_with (active_node_index self dispatch) self (\<lambda>index.
       measurement_progressed self index progress now release))"

definition park_measurement :: "ChannelRuntime \<Rightarrow> MeasurementDispatch \<Rightarrow> runtime_outcome" where
  "park_measurement self dispatch = try_with (active_node_index self dispatch) self (\<lambda>_. (Ok (), release self))"

definition complete_parked_measurement ::
  "ChannelRuntime \<Rightarrow> MeasurementDispatch \<Rightarrow> MeasurementProgress \<Rightarrow> MonotonicMicros \<Rightarrow> runtime_outcome" where
  "complete_parked_measurement self dispatch progress now =
     (if crt_active_dispatch self = Some (CD_Measurement dispatch) then (Err RTE_InvariantViolation, self)
      else try_with (progress_validate progress) self (\<lambda>progress.
           try_with (in_flight_node_index self dispatch) self (\<lambda>index.
             measurement_progressed self index progress now (\<lambda>self. self))))"

definition require_recovery ::
  "ChannelRuntime \<Rightarrow> MeasurementDispatch \<Rightarrow> RecoveryCause \<Rightarrow> MonotonicMicros \<Rightarrow> runtime_outcome" where
  "require_recovery self dispatch cause now =
     try_with (active_node_index self dispatch) self (\<lambda>index.
       (Ok (), release (update_node self index (\<lambda>node. node\<lparr>nss_in_flight := False,
          nss_availability := NA_Recovering cause 0, nss_ready_at := now, nss_queued_at := now\<rparr>))))"

text \<open>A node that is online again, with a new work identifier.\<close>

definition restarted ::
  "SequenceCursor \<Rightarrow> SequenceCursor \<Rightarrow> MonotonicMicros \<Rightarrow> u64 \<Rightarrow> NodeScheduleState \<Rightarrow> NodeScheduleState" where
  "restarted received produced now work_id node =
     node\<lparr>nss_received := received, nss_observed_produced := produced, nss_observed_at := now, nss_service_deadline := now,
          nss_ready_at := now, nss_queued_at := now, nss_availability := NA_Online, nss_work_id := work_id,
          nss_in_flight := False\<rparr>"

definition complete_recovery ::
  "ChannelRuntime \<Rightarrow> RecoveryDispatch \<Rightarrow> SequenceCursor \<Rightarrow> SequenceCursor \<Rightarrow> MonotonicMicros \<Rightarrow> runtime_outcome" where
  "complete_recovery self dispatch recovered_cursor observed_produced now =
     try_with (active_recovery_index self dispatch) self (\<lambda>index.
     if availability_recovery_cause (nss_availability (crt_nodes self ! index)) = None
     then (Err (RTE_RecoveryNotRequired (svd_node_address dispatch)), self)
     else if recovered_cursor > observed_produced then (Err RTE_ReceivedAheadOfProduced, self)
     else with_work_id self (\<lambda>self work_id.
       (Ok (), release (update_node self index (restarted recovered_cursor observed_produced now work_id)))))"

definition recover_node :: "ChannelRuntime \<Rightarrow> u8 \<Rightarrow> SequenceCursor \<Rightarrow> MonotonicMicros \<Rightarrow> runtime_outcome" where
  "recover_node self node_address recovered_cursor now =
     try_with (node_index self node_address) self (\<lambda>index.
     if availability_recovery_cause (nss_availability (crt_nodes self ! index)) = None
     then (Err (RTE_RecoveryNotRequired node_address), self)
     else with_work_id self (\<lambda>self work_id.
       (Ok (), release (update_node self index (restarted recovered_cursor recovered_cursor now work_id)))))"

definition resume_node ::
  "ChannelRuntime \<Rightarrow> u8 \<Rightarrow> SequenceCursor \<Rightarrow> SequenceCursor \<Rightarrow> MonotonicMicros \<Rightarrow> runtime_outcome" where
  "resume_node self node_address recovered_cursor observed_produced now =
     (if crt_active_dispatch self \<noteq> None then (Err RTE_ResumeWhileActive, self)
      else try_with (node_index self node_address) self (\<lambda>index.
        let node = crt_nodes self ! index in
        if availability_recovery_cause (nss_availability node) \<noteq> None then (Err (RTE_RecoveryRequired node_address), self)
        else if nss_received node \<noteq> recovered_cursor
        then (Err (RTE_ResumeCursorMismatch node_address (nss_received node) recovered_cursor), self)
        else with_work_id self (\<lambda>self work_id.
          (Ok (), update_node self index (\<lambda>node. node\<lparr>nss_observed_produced := observed_produced, nss_observed_at := now,
             nss_service_deadline := now, nss_ready_at := now, nss_queued_at := now, nss_availability := NA_Online,
             nss_work_id := work_id\<rparr>)))))"

definition replace_quiesced_node ::
  "ChannelRuntime \<Rightarrow> u8 \<Rightarrow> SequenceCursor \<Rightarrow> SequenceCursor \<Rightarrow> MonotonicMicros \<Rightarrow> runtime_outcome" where
  "replace_quiesced_node self node_address recovered_cursor observed_produced now =
     (if crt_active_dispatch self \<noteq> None then (Err RTE_ResumeWhileActive, self)
      else try_with (node_index self node_address) self (\<lambda>index.
        with_work_id self (\<lambda>self work_id.
          (Ok (), update_node self index (restarted recovered_cursor observed_produced now work_id)))))"

text \<open>The delay before the next attempt after \<open>n\<close> failures in a row.\<close>

definition retry_delay :: "NodeScheduleConfig \<Rightarrow> u8 \<Rightarrow> (DurationMicros, ChannelRuntimeError) result" where
  "retry_delay config n =
     (if n > nsc_retry_attempt_limit config then Ok (nsc_offline_probe_interval config)
      else exponential_delay (nsc_retry_base_delay config) (nsc_retry_max_delay config) n)"

definition fail_measurement :: "ChannelRuntime \<Rightarrow> MeasurementDispatch \<Rightarrow> MonotonicMicros \<Rightarrow> runtime_outcome" where
  "fail_measurement self dispatch now =
     try_with (active_node_index self dispatch) self (\<lambda>index.
       let node = crt_nodes self ! index;
           n = saturating_add (failures (nss_availability node)) 1 in
       try_with (retry_delay (nss_config node) n) self (\<lambda>delay.
       let self = update_node self index (\<lambda>node. node\<lparr>nss_availability :=
             (if n > nsc_retry_attempt_limit (nss_config node) then NA_Offline OC_Unresponsive n else NA_RetryBackoff n)\<rparr>) in
       try_with (ok_or (monotonic_checked_add now delay) RTE_TimeOverflow) self (\<lambda>ready_at.
         (Ok (), release (update_node self index (\<lambda>node. node\<lparr>nss_ready_at := ready_at, nss_in_flight := False\<rparr>))))))"

definition fail_recovery :: "ChannelRuntime \<Rightarrow> RecoveryDispatch \<Rightarrow> MonotonicMicros \<Rightarrow> runtime_outcome" where
  "fail_recovery self dispatch now =
     try_with (active_recovery_index self dispatch) self (\<lambda>index.
       let node = crt_nodes self ! index in
       try_with (ok_or (availability_recovery_cause (nss_availability node))
                   (RTE_RecoveryNotRequired (svd_node_address dispatch))) self (\<lambda>cause.
       let n = saturating_add (failures (nss_availability node)) 1 in
       try_with (retry_delay (nss_config node) n) self (\<lambda>delay.
       let self = update_node self index (\<lambda>node. node\<lparr>nss_availability :=
             (if n > nsc_retry_attempt_limit (nss_config node) then NA_Offline (OC_Recovery cause) n
              else NA_Recovering cause n)\<rparr>) in
       try_with (ok_or (monotonic_checked_add now delay) RTE_TimeOverflow) self (\<lambda>ready_at.
         (Ok (), release (update_node self index (\<lambda>node. node\<lparr>nss_ready_at := ready_at, nss_queued_at := now,
            nss_in_flight := False\<rparr>)))))))"

definition cancel_measurement :: "ChannelRuntime \<Rightarrow> MeasurementDispatch \<Rightarrow> runtime_outcome" where
  "cancel_measurement self dispatch =
     try_with (active_node_index self dispatch) self (\<lambda>index.
       (Ok (), release (update_node self index (\<lambda>node. node\<lparr>nss_in_flight := False\<rparr>))))"

definition service_completed :: "MonotonicMicros \<Rightarrow> MonotonicMicros \<Rightarrow> u64 \<Rightarrow> ServiceScheduleState \<Rightarrow> ServiceScheduleState" where
  "service_completed now next_deadline next_work_id state =
     state\<lparr>sst_deadline := next_deadline, sst_ready_at := now, sst_queued_at := now, sst_work_id := next_work_id,
           sst_in_flight := False\<rparr>"

definition service_failed :: "MonotonicMicros \<Rightarrow> MonotonicMicros \<Rightarrow> ServiceScheduleState \<Rightarrow> ServiceScheduleState" where
  "service_failed now ready_at state = state\<lparr>sst_ready_at := ready_at, sst_queued_at := now, sst_in_flight := False\<rparr>"

definition complete_time_sync :: "ChannelRuntime \<Rightarrow> TimeSyncDispatch \<Rightarrow> MonotonicMicros \<Rightarrow> runtime_outcome" where
  "complete_time_sync self dispatch now =
     try_with (active_time_sync_index self dispatch) self (\<lambda>index.
     try_with (ok_or (monotonic_checked_add now (ssc_interval (sst_config (crt_time_sync self ! index)))) RTE_TimeOverflow) self
       (\<lambda>next_deadline. with_work_id self (\<lambda>self next_work_id.
         (Ok (), release (update_time_sync self index (service_completed now next_deadline next_work_id))))))"

definition fail_time_sync :: "ChannelRuntime \<Rightarrow> TimeSyncDispatch \<Rightarrow> MonotonicMicros \<Rightarrow> runtime_outcome" where
  "fail_time_sync self dispatch now =
     try_with (active_time_sync_index self dispatch) self (\<lambda>index.
     try_with (ok_or (monotonic_checked_add now (ssc_retry_delay (sst_config (crt_time_sync self ! index)))) RTE_TimeOverflow)
       self (\<lambda>ready_at. (Ok (), release (update_time_sync self index (service_failed now ready_at)))))"

definition cancel_time_sync :: "ChannelRuntime \<Rightarrow> TimeSyncDispatch \<Rightarrow> runtime_outcome" where
  "cancel_time_sync self dispatch =
     try_with (active_time_sync_index self dispatch) self (\<lambda>index.
       (Ok (), release (update_time_sync self index (\<lambda>state. state\<lparr>sst_in_flight := False\<rparr>))))"

definition complete_telemetry :: "ChannelRuntime \<Rightarrow> TelemetryDispatch \<Rightarrow> MonotonicMicros \<Rightarrow> runtime_outcome" where
  "complete_telemetry self dispatch now =
     try_with (active_telemetry_index self dispatch) self (\<lambda>index.
     try_with (ok_or (monotonic_checked_add now (ssc_interval (sst_config (crt_telemetry self ! index)))) RTE_TimeOverflow) self
       (\<lambda>next_deadline. with_work_id self (\<lambda>self next_work_id.
         (Ok (), release (update_telemetry self index (service_completed now next_deadline next_work_id))))))"

definition fail_telemetry :: "ChannelRuntime \<Rightarrow> TelemetryDispatch \<Rightarrow> MonotonicMicros \<Rightarrow> runtime_outcome" where
  "fail_telemetry self dispatch now =
     try_with (active_telemetry_index self dispatch) self (\<lambda>index.
     try_with (ok_or (monotonic_checked_add now (ssc_retry_delay (sst_config (crt_telemetry self ! index)))) RTE_TimeOverflow)
       self (\<lambda>ready_at. (Ok (), release (update_telemetry self index (service_failed now ready_at)))))"

definition cancel_telemetry :: "ChannelRuntime \<Rightarrow> TelemetryDispatch \<Rightarrow> runtime_outcome" where
  "cancel_telemetry self dispatch =
     try_with (active_telemetry_index self dispatch) self (\<lambda>index.
       (Ok (), release (update_telemetry self index (\<lambda>state. state\<lparr>sst_in_flight := False\<rparr>))))"

definition runtime_snapshot :: "ChannelRuntime \<Rightarrow> u8 \<Rightarrow> MonotonicMicros \<Rightarrow> (NodeScheduleSnapshot, ChannelRuntimeError) result" where
  "runtime_snapshot self node_address now =
     and_then (node_index self node_address) (\<lambda>index. node_snapshot (crt_nodes self ! index) now)"

definition runtime_recovery_cause_of :: "ChannelRuntime \<Rightarrow> u8 \<Rightarrow> (RecoveryCause option, ChannelRuntimeError) result" where
  "runtime_recovery_cause_of self node_address =
     and_then (node_index self node_address) (\<lambda>index.
       Ok (availability_recovery_cause (nss_availability (crt_nodes self ! index))))"

section \<open>The estimate of an overflow\<close>

lemma unat_sample_unit [simp]: "unat NANO_HERTZ_MICROS_PER_SAMPLE = 1000000000000000"
  by (simp add: NANO_HERTZ_MICROS_PER_SAMPLE_def)

lemma unat_saturating_add: "unat a + unat b < 2 ^ LENGTH('a) \<Longrightarrow> unat (saturating_add a (b :: 'a::len word)) = unat a + unat b"
  by (auto simp: saturating_add_def checked_add_Some checked_add_None split: option.split)

lemma unat_saturating_mul: "unat a * unat b < 2 ^ LENGTH('a) \<Longrightarrow> unat (saturating_mul a (b :: 'a::len word)) = unat a * unat b"
  using checked_mul_Some [of a b "a * b"] by (auto simp: saturating_mul_def checked_mul_def)

lemma unat_min: "unat (min a b) = min (unat a) (unat (b :: 'a::len word))"
  by (simp add: min_def word_le_nat_alt)

lemma unat_u64_or_max: "unat (u64_or_max x) = min (unat x) (2 ^ 64 - 1)"
  by (auto simp: u64_or_max_def unsigned_ucast_eq take_bit_nat_eq_self unsigned_minus_1_eq_mask mask_eq_exp_minus_1)

lemma runtime_div_ceil_rounds: "b \<noteq> 0 \<Longrightarrow> \<exists>v. runtime_div_ceil a b = Ok v \<and> rounds_up v (unat a) (unat b)"
  using admission_div_ceil_rounds [of b a] by (simp add: runtime_div_ceil_def admission_div_ceil_def)

text \<open>The estimate in natural numbers: \<open>p\<close> is the production since the observation, rounded up.\<close>

lemma time_to_overflow_nat:
  assumes "nss_observed_at node \<le> now" "nsc_output_rate (nss_config node) \<noteq> 0"
  shows "\<exists>t p. time_to_overflow_us node now = Ok t \<and>
    (let grown = unat (nsc_output_rate (nss_config node)) * (unat now - unat (nss_observed_at node)) in
     grown \<le> p * 10 ^ 15 \<and> p * 10 ^ 15 < grown + 10 ^ 15) \<and>
    unat t = min ((unat (nsc_journal_capacity_samples (nss_config node)) - (unat (nss_observed_produced node) + p - unat (nss_received node)))
      * 10 ^ 15 div unat (nsc_output_rate (nss_config node))) (2 ^ 64 - 1)"
proof -
  let ?rate = "nsc_output_rate (nss_config node)" and ?capacity = "nsc_journal_capacity_samples (nss_config node)"
  obtain e where e: "checked_sub now (nss_observed_at node) = Some e" "unat e = unat now - unat (nss_observed_at node)"
    using assms(1) by (auto simp: checked_sub_def unat_sub)
  obtain g where g: "mul_unchecked (wide ?rate) (wide e) = (Ok g :: (u128, ChannelRuntimeError) result)"
    "unat g = unat ?rate * unat e"
    using mul_unchecked_product [OF wide_bound(1) wide_bound(1), of ?rate e] by auto
  have "NANO_HERTZ_MICROS_PER_SAMPLE \<noteq> 0" by (simp add: NANO_HERTZ_MICROS_PER_SAMPLE_def)
  then obtain p where p: "runtime_div_ceil g NANO_HERTZ_MICROS_PER_SAMPLE = (Ok p :: (u128, ChannelRuntimeError) result)"
    and r: "rounds_up p (unat g) (10 ^ 15)" using runtime_div_ceil_rounds by force
  have "unat ?rate < 2 ^ 64" "unat e < 2 ^ 64" using unsigned_less [of ?rate] unsigned_less [of e] by simp_all
  then have "unat g < 2 ^ 64 * 2 ^ 64" unfolding g(2) by (intro mult_strict_mono) simp_all
  moreover have "unat p * 10 ^ 15 < unat g + 10 ^ 15" using r by (simp add: rounds_up_def)
  ultimately have pb: "unat p < 2 ^ 100" by simp
  define produced where "produced = saturating_add (wide (nss_observed_produced node)) p"
  have "unat (nss_observed_produced node) < 2 ^ 64" using unsigned_less [of "nss_observed_produced node"] by simp
  with pb have pr: "unat produced = unat (nss_observed_produced node) + unat p"
    unfolding produced_def by (subst unat_saturating_add) simp_all
  define free where "free = saturating_sub (wide ?capacity) (min (saturating_sub produced (wide (nss_received node))) (wide ?capacity))"
  have fr: "unat free = unat ?capacity - (unat (nss_observed_produced node) + unat p - unat (nss_received node))"
    by (simp add: free_def unat_saturating_sub unat_min pr)
  have "unat ?capacity < 2 ^ 32" using unsigned_less [of ?capacity] by simp
  then have sm: "unat (saturating_mul free NANO_HERTZ_MICROS_PER_SAMPLE) = unat free * 10 ^ 15"
    by (subst unat_saturating_mul) (simp_all add: fr)
  have "unat (wide ?rate) \<noteq> 0" using assms(2) by (simp add: unat_eq_0)
  then have rate: "wide ?rate \<noteq> 0" by (metis unat_0)
  let ?t = "u64_or_max (saturating_mul free NANO_HERTZ_MICROS_PER_SAMPLE div wide ?rate)"
  have "time_to_overflow_us node now = Ok ?t"
    using rate by (simp add: time_to_overflow_us_def e(1) g(1) p div_unchecked_def Let_def free_def produced_def)
  moreover have "unat ?t = min (unat free * 10 ^ 15 div unat ?rate) (2 ^ 64 - 1)"
    by (simp add: unat_u64_or_max unat_div_distrib sm)
  ultimately show ?thesis using r unfolding fr rounds_up_def g(2) e(2) by (intro exI [of _ ?t] exI [of _ "unat p"]) simp
qed

text \<open>C23. The estimate of the time to overflow is safe and tight. While the clock does not run backwards it is given,
  and: whatever a node that samples at most at its configured rate produced within the estimated time, \<open>q\<close> samples in all,
  its journal holds no more than its capacity behind the received cursor; and unless the estimate is the largest
  representable time, one microsecond later a node at exactly that rate is less than one sample from exceeding it.\<close>

theorem overflow_estimate_safe_and_tight:
  assumes "nss_observed_at node \<le> now" "nsc_output_rate (nss_config node) \<noteq> 0"
  shows "\<exists>t. time_to_overflow_us node now = Ok t \<and>
    (\<forall>d q. 0 < t \<and> d \<le> unat t \<and>
       q * 10 ^ 15 \<le> unat (nss_observed_produced node) * 10 ^ 15 +
         unat (nsc_output_rate (nss_config node)) * (unat now - unat (nss_observed_at node) + d) \<longrightarrow>
       q \<le> unat (nss_received node) + unat (nsc_journal_capacity_samples (nss_config node))) \<and>
    (nss_received node \<le> nss_observed_produced node \<and> unat t < 2 ^ 64 - 1 \<longrightarrow>
       (unat (nss_received node) + unat (nsc_journal_capacity_samples (nss_config node))) * 10 ^ 15 <
         unat (nss_observed_produced node) * 10 ^ 15 +
         unat (nsc_output_rate (nss_config node)) * (unat now - unat (nss_observed_at node) + unat t + 1) + 10 ^ 15)"
proof -
  define O' V C R E where "O' = unat (nss_observed_produced node)" and "V = unat (nss_received node)"
    and "C = unat (nsc_journal_capacity_samples (nss_config node))" and "R = unat (nsc_output_rate (nss_config node))"
    and "E = unat now - unat (nss_observed_at node)"
  note names = O'_def [symmetric] V_def [symmetric] C_def [symmetric] R_def [symmetric] E_def [symmetric]
  have R: "0 < R" using assms(2) by (simp add: R_def unat_gt_0)
  obtain t p where t: "time_to_overflow_us node now = Ok t"
    and p: "R * E \<le> p * 10 ^ 15" "p * 10 ^ 15 < R * E + 10 ^ 15"
    and u: "unat t = min ((C - (O' + p - V)) * 10 ^ 15 div R) (2 ^ 64 - 1)"
    using time_to_overflow_nat [OF assms] unfolding Let_def names by blast
  define free where "free = C - (O' + p - V)"
  have le: "R * unat t \<le> free * 10 ^ 15"
  proof -
    have "unat t \<le> free * 10 ^ 15 div R" unfolding u free_def by simp
    then have "R * unat t \<le> R * (free * 10 ^ 15 div R)" by (rule mult_le_mono2)
    also have "\<dots> \<le> free * 10 ^ 15" by (rule times_div_less_eq_dividend)
    finally show ?thesis .
  qed
  have safe: "q \<le> V + C" if "0 < t" "d \<le> unat t" "q * 10 ^ 15 \<le> O' * 10 ^ 15 + R * (E + d)" for d q
  proof -
    have "0 < R * unat t" using that(1) R by (simp add: word_less_nat_alt)
    with le have "0 < free" by (cases "free = 0") auto
    then have f: "O' + p + free \<le> V + C" unfolding free_def by linarith
    have "R * d \<le> free * 10 ^ 15" using mult_le_mono2 [OF that(2), of R] le by (rule order.trans)
    then have "q * 10 ^ 15 \<le> (O' + p + free) * 10 ^ 15"
      using that(3) p(1) unfolding add_mult_distrib add_mult_distrib2 by linarith
    with f show ?thesis by simp
  qed
  have tight: "(V + C) * 10 ^ 15 < O' * 10 ^ 15 + R * (E + unat t + 1) + 10 ^ 15"
    if "nss_received node \<le> nss_observed_produced node" "unat t < 2 ^ 64 - 1"
  proof -
    have "unat t = free * 10 ^ 15 div R" using that(2) unfolding u free_def by simp
    then have "free * 10 ^ 15 < R * (unat t + 1)" using dividend_less_times_div [OF R, of "free * 10 ^ 15"] by simp
    moreover have "V + C \<le> O' + p + free" using that(1) by (simp add: free_def word_le_nat_alt V_def O'_def)
    then have "(V + C) * 10 ^ 15 \<le> (O' + p + free) * 10 ^ 15" by (rule mult_le_mono1)
    ultimately show ?thesis using p(2) by (simp add: algebra_simps)
  qed
  show ?thesis using t safe tight unfolding names by (intro exI [of _ t]) blast
qed

section \<open>When a node is served next\<close>

text \<open>What the types and the validation of a configuration give: durations and rates are not zero.\<close>

definition schedule_config_ok :: "NodeScheduleConfig \<Rightarrow> bool" where
  "schedule_config_ok c \<longleftrightarrow> schedule_config_validate c = Ok c \<and> nsc_output_rate c \<noteq> 0 \<and> nsc_retry_base_delay c \<noteq> 0"

lemma schedule_config_validate_Ok: "schedule_config_validate c = Ok c' \<Longrightarrow> c' = c"
  by (simp add: schedule_config_validate_def split: if_splits)

lemma schedule_config_validate_no_panic [simp]:
  "schedule_config_validate c \<noteq> Panic" "schedule_config_validate c \<noteq> Err RTE_InvariantViolation"
  by (simp_all add: schedule_config_validate_def)

lemma schedule_config_okD:
  assumes "schedule_config_ok c"
  shows "nsc_measurement_slot c \<le> nsc_maximum_service_interval c" "nsc_retry_base_delay c \<le> nsc_retry_max_delay c"
    "nsc_retry_attempt_limit c \<noteq> 0" "nsc_output_rate c \<noteq> 0" "nsc_retry_base_delay c \<noteq> 0"
    "nsc_node_address c \<noteq> HOST_ADDRESS" "nsc_node_address c \<noteq> BROADCAST_ADDRESS"
  using assms by (auto simp: schedule_config_ok_def schedule_config_validate_def not_less split: if_splits)

lemma next_ready:
  assumes "schedule_config_ok c" "mp_received p \<le> mp_produced p" "unat now + unat (nsc_maximum_service_interval c) < 2 ^ 64"
  shows "\<exists>r. next_measurement_ready_at c p now = Ok r \<and>
    unat r = unat now + min ((unat (nsc_target_chunk_samples c) - (unat (mp_produced p) - unat (mp_received p))) * 10 ^ 15
        div unat (nsc_output_rate c))
      (unat (nsc_maximum_service_interval c) - unat (nsc_measurement_slot c))"
proof -
  note c = schedule_config_okD [OF assms(1)]
  obtain b where b: "sub_unchecked (mp_produced p) (mp_received p) = (Ok b :: (u64, ChannelRuntimeError) result)"
    "unat b = unat (mp_produced p) - unat (mp_received p)"
    using assms(2) by (auto simp: sub_unchecked_def checked_sub_def unat_sub)
  define missing where "missing = saturating_sub (u64_from (nsc_target_chunk_samples c)) b"
  have mu: "unat missing = unat (nsc_target_chunk_samples c) - unat b" by (simp add: missing_def unat_saturating_sub)
  then have "unat missing < 2 ^ 16" using unat_u16_bound [of "nsc_target_chunk_samples c"] by simp
  then have f: "unat (saturating_mul (wide missing) NANO_HERTZ_MICROS_PER_SAMPLE) = unat missing * 10 ^ 15"
    by (subst unat_saturating_mul) simp_all
  have "unat (wide (nsc_output_rate c)) \<noteq> 0" using c(4) by (simp add: unat_eq_0)
  then have rate: "wide (nsc_output_rate c) \<noteq> 0" by (metis unat_0)
  define fill where "fill = saturating_mul (wide missing) NANO_HERTZ_MICROS_PER_SAMPLE div wide (nsc_output_rate c)"
  define w where "w = min (u64_or_max fill) (saturating_sub (nsc_maximum_service_interval c) (nsc_measurement_slot c))"
  let ?latest = "unat (nsc_maximum_service_interval c) - unat (nsc_measurement_slot c)"
  have "unat (nsc_maximum_service_interval c) < 2 ^ 64" using assms(3) by simp
  then have w: "unat w = min (unat missing * 10 ^ 15 div unat (nsc_output_rate c)) ?latest"
    by (simp add: w_def fill_def unat_min unat_u64_or_max unat_div_distrib f unat_saturating_sub)
  then have "unat now + unat w < 2 ^ LENGTH(64)" using assms(3) by simp
  then obtain r where "checked_add now w = Some r" by (simp add: checked_add_def)
  moreover from this have "unat r = unat now + unat w" by (simp add: checked_add_Some)
  ultimately show ?thesis
    using rate by (simp add: next_measurement_ready_at_def b(1) missing_def [symmetric] fill_def [symmetric] div_unchecked_def
        Let_def w_def [symmetric] w mu b(2))
qed

lemma min_doubled: "min m (min (d * 2) m * 2 ^ n) = min m (d * 2 ^ Suc n)" for d m n :: nat
proof (cases "d * 2 \<le> m")
  case False
  have "m \<le> m * 2 ^ n" by simp
  also have "\<dots> \<le> d * 2 * 2 ^ n" using False by (intro mult_le_mono1) simp
  finally show ?thesis using False by (simp add: mult.assoc)
qed (simp add: mult.assoc)

lemma unat_doubled_delay:
  "delay \<le> maximum \<Longrightarrow> unat (doubled_delay n delay maximum) = min (unat maximum) (unat delay * 2 ^ n)"
proof (induction n arbitrary: delay)
  case 0
  then show ?case by (simp add: word_le_nat_alt)
next
  case (Suc n)
  let ?d = "min (saturating_mul delay 2) maximum"
  have "unat (saturating_mul delay 2) = min (unat delay * 2) (2 ^ 64 - 1)"
  proof (cases "unat delay * 2 < 2 ^ 64")
    case True
    then show ?thesis using unat_saturating_mul [of delay 2] by simp
  next
    case False
    then show ?thesis by (simp add: saturating_mul_def checked_mul_def unsigned_minus_1_eq_mask mask_eq_exp_minus_1)
  qed
  then have d: "unat ?d = min (unat delay * 2) (unat maximum)"
    using unat_u64_bound [of maximum] by (simp add: unat_min)
  have "unat (doubled_delay n ?d maximum) = min (unat maximum) (unat ?d * 2 ^ n)" by (rule Suc.IH) simp
  moreover have "min (unat maximum) (min (unat delay * 2) (unat maximum) * 2 ^ n) = min (unat maximum) (unat delay * 2 ^ Suc n)"
    by (rule min_doubled)
  ultimately show ?case unfolding d by simp
qed

lemma exponential_delay_closed:
  assumes "base \<noteq> 0" "base \<le> maximum"
  shows "\<exists>d. exponential_delay base maximum n = Ok d \<and> unat d = min (unat maximum) (unat base * 2 ^ (unat n - 1))"
proof -
  let ?d = "min (doubled_delay (unat n - 1) base maximum) maximum"
  have u: "unat ?d = min (unat maximum) (unat base * 2 ^ (unat n - 1))"
    using unat_doubled_delay [OF assms(2), of "unat n - 1"] by (simp add: unat_min)
  have b: "0 < unat base" using assms(1) by (simp add: unat_gt_0)
  with assms(2) have m: "0 < unat maximum" by (simp add: word_le_nat_alt)
  from b m u have "0 < unat ?d" by simp
  then have "?d \<noteq> 0" by auto
  with u show ?thesis by (simp add: exponential_delay_def Let_def)
qed

end
