(* ===== verification/Host_Runtime_Invariant.thy ===== *)
theory Host_Runtime_Invariant
  imports Host_Runtime
begin

text \<open>
  What holds of the runtime of a channel at all times: identifiers and addresses are distinct, and the work that owns the
  line, the nodes and services in flight and the measurements waiting for storage are the same set, seen from two sides.
\<close>

section \<open>Positions and identifiers\<close>

lemma position_Some:
  "position P xs = Some i \<Longrightarrow> i < length xs \<and> P (xs ! i)"
  by (induction xs arbitrary: i) (auto split: if_splits)

lemma position_None: "position P xs = None \<longleftrightarrow> \<not> (\<exists>x\<in>set xs. P x)"
  by (induction xs) auto

lemma position_distinct:
  assumes "distinct (map f xs)" "i < length xs"
  shows "position (\<lambda>x. f x = f (xs ! i)) xs = Some i"
proof (cases "position (\<lambda>x. f x = f (xs ! i)) xs")
  case None
  then show ?thesis using assms(2) by (auto simp: position_None)
next
  case (Some j)
  with position_Some [OF Some] assms show ?thesis by (auto simp: distinct_conv_nth)
qed

lemma node_index_Ok: "node_index rt a = Ok i \<Longrightarrow> i < length (crt_nodes rt) \<and> nss_address (crt_nodes rt ! i) = a"
  by (auto simp: node_index_def result_iffs dest: position_Some)

lemma node_index_Err: "node_index rt a = Err e \<Longrightarrow> e = RTE_UnknownNode a"
  by (auto simp: node_index_def result_iffs)

lemma node_index_no_panic [simp]: "node_index rt a \<noteq> Panic"
  by (simp add: node_index_def)

definition work_ids :: "ChannelRuntime \<Rightarrow> u64 list" where
  "work_ids rt = map nss_work_id (crt_nodes rt) @ map sst_work_id (crt_time_sync rt) @ map sst_work_id (crt_telemetry rt)"

lemma work_id_in_use_iff: "work_id_in_use rt w \<longleftrightarrow> w \<in> set (work_ids rt)"
  by (auto simp: work_id_in_use_def work_ids_def list_ex_iff)

lemma work_ids_next [simp]: "work_ids (rt\<lparr>crt_next_work_id := n\<rparr>) = work_ids rt"
  by (simp add: work_ids_def)

lemma allocate_from_cases:
  "allocate_from k rt = (r, rt') \<Longrightarrow>
     \<exists>n. rt' = rt\<lparr>crt_next_work_id := n\<rparr> \<and> (r = Err RTE_WorkIdExhausted \<or> (\<exists>w. r = Ok w \<and> w \<noteq> 0 \<and> w \<notin> set (work_ids rt)))"
proof (induction k arbitrary: rt)
  case 0
  then show ?case by (auto intro: exI [of _ "crt_next_work_id rt"])
next
  case (Suc k)
  let ?c = "max (crt_next_work_id rt) 1" and ?rt = "rt\<lparr>crt_next_work_id := max (max (crt_next_work_id rt) 1 + 1) 1\<rparr>"
  have c: "?c \<noteq> 0" by (auto simp: max_def)
  show ?case
  proof (cases "work_id_in_use ?rt ?c")
    case True
    then show ?thesis using Suc by (fastforce simp: Let_def)
  next
    case False
    then have "?c \<notin> set (work_ids rt)" by (simp add: work_id_in_use_iff)
    with False Suc.prems c show ?thesis by (auto simp: Let_def)
  qed
qed

lemma with_work_id_cases:
  obtains n where "with_work_id rt k = (Err RTE_WorkIdExhausted, rt\<lparr>crt_next_work_id := n\<rparr>)"
  | n w where "w \<noteq> 0" "w \<notin> set (work_ids rt)" "with_work_id rt k = k (rt\<lparr>crt_next_work_id := n\<rparr>) w"
proof -
  obtain r rt' where a: "allocate_work_id rt = (r, rt')" by (cases "allocate_work_id rt")
  from allocate_from_cases [OF a [unfolded allocate_work_id_def]] a that show ?thesis
    by (auto simp: with_work_id_def)
qed

section \<open>The invariant\<close>

definition measurement_of :: "NodeScheduleState \<Rightarrow> MeasurementDispatch" where
  "measurement_of node = \<lparr>md_work_id = nss_work_id node, md_node_address = nss_address node,
     md_max_samples = nsc_max_sample_chunk_samples (nss_config node)\<rparr>"

definition recovery_of :: "NodeScheduleState \<Rightarrow> RecoveryDispatch" where
  "recovery_of node = \<lparr>svd_work_id = nss_work_id node, svd_node_address = nss_address node\<rparr>"

definition service_of :: "ServiceScheduleState \<Rightarrow> ServiceDispatch" where
  "service_of state = \<lparr>svd_work_id = sst_work_id state, svd_node_address = sst_node_address state\<rparr>"

abbreviation recovering :: "NodeScheduleState \<Rightarrow> bool" where
  "recovering node \<equiv> availability_recovery_cause (nss_availability node) \<noteq> None"

text \<open>A node owns the line, or waits for storage: \<open>parked\<close> are the measurements that left the line but not storage.\<close>

definition owns :: "ChannelDispatch option \<Rightarrow> MeasurementDispatch set \<Rightarrow> NodeScheduleState \<Rightarrow> bool" where
  "owns active parked node \<longleftrightarrow>
     (if recovering node then active = Some (CD_Recovery (recovery_of node))
      else active = Some (CD_Measurement (measurement_of node)) \<or> measurement_of node \<in> parked)"

text \<open>Every dispatch on the line or parked is one of a node or service, as it stands.\<close>

definition active_known :: "ChannelRuntime \<Rightarrow> ChannelDispatch \<Rightarrow> bool" where
  "active_known rt dispatch \<longleftrightarrow>
     (case dispatch of
        CD_Measurement d \<Rightarrow> \<exists>node\<in>set (crt_nodes rt). measurement_of node = d \<and> \<not> recovering node
      | CD_Recovery d \<Rightarrow> \<exists>node\<in>set (crt_nodes rt). recovery_of node = d \<and> recovering node
      | CD_TimeSync d \<Rightarrow> d \<in> service_of ` set (crt_time_sync rt)
      | CD_Telemetry d \<Rightarrow> d \<in> service_of ` set (crt_telemetry rt))"

definition runtime_ids_ok :: "ChannelRuntime \<Rightarrow> bool" where
  "runtime_ids_ok rt \<longleftrightarrow> distinct (map nss_address (crt_nodes rt)) \<and> distinct (map sst_node_address (crt_time_sync rt)) \<and>
     distinct (map sst_node_address (crt_telemetry rt)) \<and> distinct (work_ids rt) \<and> 0 \<notin> set (work_ids rt) \<and>
     length (crt_nodes rt) \<le> crt_max_nodes rt \<and> (\<forall>node\<in>set (crt_nodes rt). schedule_config_ok (nss_config node))"

definition runtime_owners_ok :: "MeasurementDispatch set \<Rightarrow> ChannelRuntime \<Rightarrow> bool" where
  "runtime_owners_ok parked rt \<longleftrightarrow>
     (\<forall>node\<in>set (crt_nodes rt). nss_in_flight node \<longleftrightarrow> owns (crt_active_dispatch rt) parked node) \<and>
     (\<forall>s\<in>set (crt_time_sync rt). sst_in_flight s \<longleftrightarrow> crt_active_dispatch rt = Some (CD_TimeSync (service_of s))) \<and>
     (\<forall>s\<in>set (crt_telemetry rt). sst_in_flight s \<longleftrightarrow> crt_active_dispatch rt = Some (CD_Telemetry (service_of s))) \<and>
     (\<forall>d. crt_active_dispatch rt = Some d \<longrightarrow> active_known rt d) \<and>
     (\<forall>d\<in>parked. active_known rt (CD_Measurement d) \<and> crt_active_dispatch rt \<noteq> Some (CD_Measurement d))"

definition runtime_ok :: "MeasurementDispatch set \<Rightarrow> ChannelRuntime \<Rightarrow> bool" where
  "runtime_ok parked rt \<longleftrightarrow> runtime_ids_ok rt \<and> runtime_owners_ok parked rt"

lemma runtime_ok_next [simp]: "runtime_ok parked (rt\<lparr>crt_next_work_id := n\<rparr>) = runtime_ok parked rt"
  by (simp add: runtime_ok_def runtime_ids_ok_def runtime_owners_ok_def active_known_def cong: ChannelDispatch.case_cong)

text \<open>A change of one node that leaves the dispatches of all others alone.\<close>

definition only_of :: "u8 \<Rightarrow> ChannelDispatch option \<Rightarrow> ChannelDispatch option \<Rightarrow> bool" where
  "only_of a before after \<longleftrightarrow>
     (\<forall>d. d \<notin> {CD_Measurement m |m. md_node_address m = a} \<union> {CD_Recovery r |r. svd_node_address r = a} \<longrightarrow>
        (after = Some d \<longleftrightarrow> before = Some d))"

definition parked_only_of :: "u8 \<Rightarrow> MeasurementDispatch set \<Rightarrow> MeasurementDispatch set \<Rightarrow> bool" where
  "parked_only_of a before after \<longleftrightarrow> (\<forall>d. md_node_address d \<noteq> a \<longrightarrow> (d \<in> after \<longleftrightarrow> d \<in> before))"

definition node_step :: "ChannelRuntime \<Rightarrow> usize \<Rightarrow> NodeScheduleState \<Rightarrow> ChannelDispatch option \<Rightarrow> ChannelRuntime" where
  "node_step rt i node active = rt\<lparr>crt_nodes := (crt_nodes rt)[i := node], crt_active_dispatch := active\<rparr>"

lemma distinct_update: "distinct xs \<Longrightarrow> y = xs ! i \<or> y \<notin> set xs \<Longrightarrow> distinct (xs[i := y])"
  using distinct_list_update [of xs y i] by auto

lemma node_step_ids:
  assumes "runtime_ids_ok rt" "i < length (crt_nodes rt)" "nss_address node = nss_address (crt_nodes rt ! i)"
    "schedule_config_ok (nss_config node)"
    "nss_work_id node = nss_work_id (crt_nodes rt ! i) \<or> nss_work_id node \<noteq> 0 \<and> nss_work_id node \<notin> set (work_ids rt)"
  shows "runtime_ids_ok (node_step rt i node active)"
proof -
  let ?nodes = "crt_nodes rt"
  have w: "work_ids (node_step rt i node active) = (work_ids rt)[i := nss_work_id node]"
    using assms(2) by (simp add: work_ids_def node_step_def map_update list_update_append)
  have i: "work_ids rt ! i = nss_work_id (?nodes ! i)" "i < length (work_ids rt)"
    using assms(2) by (simp_all add: work_ids_def nth_append)
  have "distinct ((work_ids rt)[i := nss_work_id node])"
    using assms(1,5) i by (intro distinct_update) (auto simp: runtime_ids_ok_def)
  moreover have "0 \<notin> set ((work_ids rt)[i := nss_work_id node])"
    using assms(1,5) i set_update_subset_insert [of "work_ids rt" i "nss_work_id node"] nth_mem [of i "work_ids rt"]
    by (auto simp: runtime_ids_ok_def)
  moreover have "map nss_address (?nodes[i := node]) = map nss_address ?nodes"
    using assms(2,3) by (simp add: map_update) (metis list_update_id nth_map)
  moreover have "\<forall>n\<in>set (?nodes[i := node]). schedule_config_ok (nss_config n)"
    using assms(1,4) set_update_subset_insert [of ?nodes i node] by (auto simp: runtime_ids_ok_def)
  ultimately show ?thesis using assms(1) unfolding runtime_ids_ok_def w by (simp add: node_step_def)
qed

lemma in_updated:
  assumes "i < length xs" "distinct (map f xs)" "f y = f (xs ! i)"
  shows "x \<in> set (xs[i := y]) \<longleftrightarrow> x = y \<or> x \<in> set xs \<and> f x \<noteq> f (xs ! i)"
proof -
  have "set (xs[i := y]) = insert y (set xs - {xs ! i})" using assms(1,2) by (simp add: set_update_distinct distinct_map)
  moreover have "f x \<noteq> f (xs ! i) \<longleftrightarrow> x \<noteq> xs ! i" if "x \<in> set xs"
    using that assms(1,2) by (auto simp: distinct_conv_nth in_set_conv_nth)
  ultimately show ?thesis using assms(3) by auto
qed

lemma node_step_owners:
  assumes ok: "runtime_ok parked rt" and i: "i < length (crt_nodes rt)" and a: "nss_address node = nss_address (crt_nodes rt ! i)"
    and active: "only_of (nss_address node) (crt_active_dispatch rt) active" and p: "parked_only_of (nss_address node) parked parked'"
    and flight: "nss_in_flight node \<longleftrightarrow> owns active parked' node"
    and own: "\<And>d. active = Some (CD_Measurement d) \<Longrightarrow> md_node_address d = nss_address node \<Longrightarrow>
        d = measurement_of node \<and> \<not> recovering node \<and> d \<notin> parked'"
      "\<And>d. active = Some (CD_Recovery d) \<Longrightarrow> svd_node_address d = nss_address node \<Longrightarrow> d = recovery_of node \<and> recovering node"
      "\<And>d. d \<in> parked' \<Longrightarrow> md_node_address d = nss_address node \<Longrightarrow> d = measurement_of node \<and> \<not> recovering node"
  shows "runtime_owners_ok parked' (node_step rt i node active)"
proof -
  let ?rt = "node_step rt i node active"
  from ok have o: "runtime_owners_ok parked rt" and dist: "distinct (map nss_address (crt_nodes rt))"
    by (auto simp: runtime_ok_def runtime_ids_ok_def)
  note m = in_updated [of i "crt_nodes rt" nss_address node, OF i dist a]
  have fields [simp]: "crt_nodes ?rt = (crt_nodes rt)[i := node]" "crt_active_dispatch ?rt = active"
    "crt_time_sync ?rt = crt_time_sync rt" "crt_telemetry ?rt = crt_telemetry rt" by (simp_all add: node_step_def)
  have same: "active = Some d \<longleftrightarrow> crt_active_dispatch rt = Some d"
    if "case d of CD_Measurement m \<Rightarrow> md_node_address m \<noteq> nss_address node | CD_Recovery r \<Rightarrow> svd_node_address r \<noteq> nss_address node
        | _ \<Rightarrow> True" for d
    using active that by (auto simp: only_of_def split: ChannelDispatch.splits)
  have other: "owns active parked' n \<longleftrightarrow> owns (crt_active_dispatch rt) parked n" if "nss_address n \<noteq> nss_address node" for n
    using that p by (auto simp: owns_def same measurement_of_def recovery_of_def parked_only_of_def)
  have known: "active_known ?rt d" if "active_known rt d"
    "case d of CD_Measurement m \<Rightarrow> md_node_address m \<noteq> nss_address node | CD_Recovery r \<Rightarrow> svd_node_address r \<noteq> nss_address node
        | _ \<Rightarrow> True" for d
    using that a by (auto simp: active_known_def m measurement_of_def recovery_of_def split: ChannelDispatch.splits)
  have mine: "active_known ?rt (CD_Measurement (measurement_of node))" if "\<not> recovering node"
    using that by (auto simp: active_known_def m)
  have mine': "active_known ?rt (CD_Recovery (recovery_of node))" if "recovering node"
    using that by (auto simp: active_known_def m)
  have o1: "\<forall>n\<in>set (crt_nodes ?rt). nss_in_flight n \<longleftrightarrow> owns active parked' n"
    using o flight other a by (auto simp: m runtime_owners_ok_def)
  have o2: "active_known ?rt d" if "active = Some d" for d
  proof (cases "case d of CD_Measurement m \<Rightarrow> md_node_address m \<noteq> nss_address node | CD_Recovery r \<Rightarrow> svd_node_address r \<noteq> nss_address node
        | _ \<Rightarrow> True")
    case True
    with that same [OF True] o known [OF _ True] show ?thesis by (simp add: runtime_owners_ok_def)
  next
    case False
    with that own(1,2) mine mine' show ?thesis by (auto split: ChannelDispatch.splits)
  qed
  have o3: "active_known ?rt (CD_Measurement d) \<and> active \<noteq> Some (CD_Measurement d)" if "d \<in> parked'" for d
  proof (cases "md_node_address d = nss_address node")
    case True
    with that own(1,3) mine show ?thesis by auto
  next
    case False
    with that p o known [of "CD_Measurement d"] same [of "CD_Measurement d"] show ?thesis
      by (simp add: parked_only_of_def runtime_owners_ok_def)
  qed
  show ?thesis using o o1 o2 o3 unfolding runtime_owners_ok_def by (simp add: same)
qed

lemma runtime_ok_nth:
  assumes "runtime_ok parked rt" "i < length (crt_nodes rt)"
  shows "nss_in_flight (crt_nodes rt ! i) \<longleftrightarrow> owns (crt_active_dispatch rt) parked (crt_nodes rt ! i)"
    "schedule_config_ok (nss_config (crt_nodes rt ! i))"
  using assms by (auto simp: runtime_ok_def runtime_owners_ok_def runtime_ids_ok_def)

lemma same_node:
  assumes "runtime_ok parked rt" "i < length (crt_nodes rt)" "n \<in> set (crt_nodes rt)" "nss_address n = nss_address (crt_nodes rt ! i)"
  shows "n = crt_nodes rt ! i"
  using assms by (auto simp: runtime_ok_def runtime_ids_ok_def distinct_conv_nth in_set_conv_nth)

lemma address_of [simp]: "md_node_address (measurement_of n) = nss_address n" "svd_node_address (recovery_of n) = nss_address n"
  by (simp_all add: measurement_of_def recovery_of_def)

lemma known_of_node:
  assumes "runtime_ok parked rt" "i < length (crt_nodes rt)"
  shows "active_known rt (CD_Measurement d) \<Longrightarrow> md_node_address d = nss_address (crt_nodes rt ! i) \<Longrightarrow>
      d = measurement_of (crt_nodes rt ! i) \<and> \<not> recovering (crt_nodes rt ! i)"
    "active_known rt (CD_Recovery r) \<Longrightarrow> svd_node_address r = nss_address (crt_nodes rt ! i) \<Longrightarrow>
      r = recovery_of (crt_nodes rt ! i) \<and> recovering (crt_nodes rt ! i)"
proof -
  assume "active_known rt (CD_Measurement d)" and a: "md_node_address d = nss_address (crt_nodes rt ! i)"
  then obtain n where "n \<in> set (crt_nodes rt)" "measurement_of n = d" "\<not> recovering n" by (auto simp: active_known_def)
  with a same_node [OF assms, of n] show "d = measurement_of (crt_nodes rt ! i) \<and> \<not> recovering (crt_nodes rt ! i)" by force
next
  assume "active_known rt (CD_Recovery r)" and a: "svd_node_address r = nss_address (crt_nodes rt ! i)"
  then obtain n where "n \<in> set (crt_nodes rt)" "recovery_of n = r" "recovering n" by (auto simp: active_known_def)
  with a same_node [OF assms, of n] show "r = recovery_of (crt_nodes rt ! i) \<and> recovering (crt_nodes rt ! i)" by force
qed

lemma active_is_known: "runtime_ok parked rt \<Longrightarrow> crt_active_dispatch rt = Some d \<Longrightarrow> active_known rt d"
  by (simp add: runtime_ok_def runtime_owners_ok_def)

lemma parked_is_known:
  "runtime_ok parked rt \<Longrightarrow> d \<in> parked \<Longrightarrow> active_known rt (CD_Measurement d) \<and> crt_active_dispatch rt \<noteq> Some (CD_Measurement d)"
  by (simp add: runtime_ok_def runtime_owners_ok_def)

lemma parked_node:
  assumes "runtime_ok parked rt" "i < length (crt_nodes rt)" "d \<in> parked" "md_node_address d = nss_address (crt_nodes rt ! i)"
  shows "d = measurement_of (crt_nodes rt ! i)" "\<not> recovering (crt_nodes rt ! i)" "crt_active_dispatch rt \<noteq> Some (CD_Measurement d)"
  using known_of_node(1) [OF assms(1,2) _ assms(4)] parked_is_known [OF assms(1,3)] by simp_all

text \<open>The kinds of steps. In each the node keeps its address, and has its identifier or a fresh one.\<close>

definition renewed :: "ChannelRuntime \<Rightarrow> usize \<Rightarrow> NodeScheduleState \<Rightarrow> bool" where
  "renewed rt i node \<longleftrightarrow> i < length (crt_nodes rt) \<and> nss_address node = nss_address (crt_nodes rt ! i) \<and>
     schedule_config_ok (nss_config node) \<and>
     (nss_work_id node = nss_work_id (crt_nodes rt ! i) \<or> nss_work_id node \<noteq> 0 \<and> nss_work_id node \<notin> set (work_ids rt))"

lemma renewed_ids: "runtime_ok parked rt \<Longrightarrow> renewed rt i node \<Longrightarrow> runtime_ids_ok (node_step rt i node active)"
  unfolding renewed_def runtime_ok_def by (blast intro: node_step_ids)

text \<open>The owner of the line gives it back.\<close>

lemma settle_step:
  assumes ok: "runtime_ok parked rt" and r: "renewed rt i node" and f: "\<not> nss_in_flight node"
    and a: "crt_active_dispatch rt = Some (CD_Measurement (measurement_of (crt_nodes rt ! i))) \<or>
      crt_active_dispatch rt = Some (CD_Recovery (recovery_of (crt_nodes rt ! i))) \<and> recovering (crt_nodes rt ! i)"
  shows "runtime_ok parked (node_step rt i node None)"
proof -
  from r have i: "i < length (crt_nodes rt)" "nss_address node = nss_address (crt_nodes rt ! i)" by (auto simp: renewed_def)
  have p: "d \<notin> parked" if "md_node_address d = nss_address node" for d
    using parked_node [OF ok i(1), of d] that a i(2) by auto
  have "runtime_owners_ok parked (node_step rt i node None)"
    using i a f p [of "measurement_of node"] p
    by (intro node_step_owners [OF ok]) (auto simp: only_of_def parked_only_of_def owns_def)
  with renewed_ids [OF ok r] show ?thesis by (simp add: runtime_ok_def)
qed

text \<open>A node changes in nothing its dispatches show.\<close>

lemma keep_step:
  assumes ok: "runtime_ok parked rt" and r: "renewed rt i node" and n: "nss_in_flight node = nss_in_flight (crt_nodes rt ! i)"
    "measurement_of node = measurement_of (crt_nodes rt ! i)" "recovering node = recovering (crt_nodes rt ! i)"
  shows "runtime_ok parked (node_step rt i node (crt_active_dispatch rt))"
proof -
  from r have i: "i < length (crt_nodes rt)" "nss_address node = nss_address (crt_nodes rt ! i)" by (auto simp: renewed_def)
  have rec: "recovery_of node = recovery_of (crt_nodes rt ! i)" using n(2) by (simp add: measurement_of_def recovery_of_def)
  note k = known_of_node [OF ok i(1)]
  have f: "nss_in_flight node \<longleftrightarrow> owns (crt_active_dispatch rt) parked node"
    using runtime_ok_nth(1) [OF ok i(1)] n rec by (simp add: owns_def)
  have "runtime_owners_ok parked (node_step rt i node (crt_active_dispatch rt))"
  proof (rule node_step_owners [OF ok i, where parked' = parked])
    show "d = measurement_of node \<and> \<not> recovering node \<and> d \<notin> parked"
      if "crt_active_dispatch rt = Some (CD_Measurement d)" "md_node_address d = nss_address node" for d
      using k(1) [OF active_is_known [OF ok that(1)]] that i(2) n parked_is_known [OF ok, of d] by auto
    show "d = recovery_of node \<and> recovering node"
      if "crt_active_dispatch rt = Some (CD_Recovery d)" "svd_node_address d = nss_address node" for d
      using k(2) [OF active_is_known [OF ok that(1)]] that i(2) n rec by auto
    show "d = measurement_of node \<and> \<not> recovering node" if "d \<in> parked" "md_node_address d = nss_address node" for d
      using k(1) [of d] parked_is_known [OF ok that(1)] that i(2) n by auto
  qed (use f in \<open>simp_all add: only_of_def parked_only_of_def\<close>)
  with renewed_ids [OF ok r] show ?thesis by (simp add: runtime_ok_def)
qed

text \<open>The line is idle and a node takes it; or a node that nothing owns changes.\<close>

lemma take_step:
  assumes ok: "runtime_ok parked rt" and r: "renewed rt i node" and a: "crt_active_dispatch rt = None"
    and f: "\<not> nss_in_flight (crt_nodes rt ! i)" "nss_in_flight node"
    and d: "active = Some (if recovering node then CD_Recovery (recovery_of node) else CD_Measurement (measurement_of node))"
  shows "runtime_ok parked (node_step rt i node active)"
proof -
  from r have i: "i < length (crt_nodes rt)" "nss_address node = nss_address (crt_nodes rt ! i)" by (auto simp: renewed_def)
  have p: "e \<notin> parked" if "md_node_address e = nss_address node" for e
    using parked_node [OF ok i(1), of e] that i(2) f(1) runtime_ok_nth(1) [OF ok i(1)] by (auto simp: owns_def)
  have "runtime_owners_ok parked (node_step rt i node active)"
    using i a f d p by (intro node_step_owners [OF ok]) (auto simp: only_of_def parked_only_of_def owns_def split: if_splits)
  with renewed_ids [OF ok r] show ?thesis by (simp add: runtime_ok_def)
qed

lemma idle_step:
  assumes ok: "runtime_ok parked rt" and r: "renewed rt i node" and a: "crt_active_dispatch rt = None"
    and f: "\<not> nss_in_flight (crt_nodes rt ! i)" "\<not> nss_in_flight node"
  shows "runtime_ok parked (node_step rt i node None)"
proof -
  from r have i: "i < length (crt_nodes rt)" "nss_address node = nss_address (crt_nodes rt ! i)" by (auto simp: renewed_def)
  have p: "e \<notin> parked" if "md_node_address e = nss_address node" for e
    using parked_node [OF ok i(1), of e] that i(2) f(1) runtime_ok_nth(1) [OF ok i(1)] by (auto simp: owns_def)
  have "runtime_owners_ok parked (node_step rt i node None)"
    using i a f p [of "measurement_of node"] p
    by (intro node_step_owners [OF ok]) (auto simp: only_of_def parked_only_of_def owns_def split: if_splits)
  with renewed_ids [OF ok r] show ?thesis by (simp add: runtime_ok_def)
qed

text \<open>A measurement leaves the line for storage, and comes back from there.\<close>

lemma park_step:
  assumes ok: "runtime_ok parked rt" and i: "i < length (crt_nodes rt)"
    and a: "crt_active_dispatch rt = Some (CD_Measurement (measurement_of (crt_nodes rt ! i)))"
  shows "runtime_ok (insert (measurement_of (crt_nodes rt ! i)) parked) (node_step rt i (crt_nodes rt ! i) None)"
proof -
  let ?node = "crt_nodes rt ! i"
  have r: "renewed rt i ?node" using i runtime_ok_nth(2) [OF ok i] by (simp add: renewed_def)
  have n: "\<not> recovering ?node" using known_of_node(1) [OF ok i active_is_known [OF ok a]] by simp
  then have f: "nss_in_flight ?node" using runtime_ok_nth(1) [OF ok i] a by (simp add: owns_def)
  have p: "e \<notin> parked" if "md_node_address e = nss_address ?node" for e
    using parked_node [OF ok i, of e] that a by auto
  have "runtime_owners_ok (insert (measurement_of ?node) parked) (node_step rt i ?node None)"
    using i a f n p by (intro node_step_owners [OF ok]) (auto simp: only_of_def parked_only_of_def owns_def split: if_splits)
  with renewed_ids [OF ok r] show ?thesis by (simp add: runtime_ok_def)
qed

lemma unpark_step:
  assumes ok: "runtime_ok parked rt" and r: "renewed rt i node" and d: "measurement_of (crt_nodes rt ! i) \<in> parked"
    and f: "\<not> nss_in_flight node"
  shows "runtime_ok (parked - {measurement_of (crt_nodes rt ! i)}) (node_step rt i node (crt_active_dispatch rt))"
proof -
  from r have i: "i < length (crt_nodes rt)" "nss_address node = nss_address (crt_nodes rt ! i)" by (auto simp: renewed_def)
  let ?d = "measurement_of (crt_nodes rt ! i)"
  note pd = parked_node [OF ok i(1) d]
  have p: "e \<notin> parked - {?d}" if "md_node_address e = nss_address node" for e
    using parked_node [OF ok i(1), of e] that i(2) by auto
  have am: "crt_active_dispatch rt \<noteq> Some (CD_Measurement e)" if "md_node_address e = nss_address node" for e
    using known_of_node(1) [OF ok i(1), of e] active_is_known [OF ok] that i(2) pd by auto
  have ar: "crt_active_dispatch rt \<noteq> Some (CD_Recovery e)" if "svd_node_address e = nss_address node" for e
    using known_of_node(2) [OF ok i(1), of e] active_is_known [OF ok] that i(2) pd by auto
  have o: "\<not> owns (crt_active_dispatch rt) (parked - {?d}) node"
    using p [of "measurement_of node"] am [of "measurement_of node"] ar [of "recovery_of node"] by (auto simp: owns_def)
  have "runtime_owners_ok (parked - {?d}) (node_step rt i node (crt_active_dispatch rt))"
    using i f p o am ar by (intro node_step_owners [OF ok]) (auto simp: only_of_def parked_only_of_def)
  with renewed_ids [OF ok r] show ?thesis by (simp add: runtime_ok_def)
qed

text \<open>A change of one time synchronisation, and of one telemetry schedule.\<close>

lemma time_sync_step:
  assumes ok: "runtime_ok parked rt" and i: "i < length (crt_time_sync rt)" and a: "sst_node_address state = sst_node_address (crt_time_sync rt ! i)"
    and w: "sst_work_id state = sst_work_id (crt_time_sync rt ! i) \<or> sst_work_id state \<noteq> 0 \<and> sst_work_id state \<notin> set (work_ids rt)"
    and only: "\<And>d. (\<forall>r. d = CD_TimeSync r \<longrightarrow> svd_node_address r \<noteq> sst_node_address state) \<Longrightarrow>
      active = Some d \<longleftrightarrow> crt_active_dispatch rt = Some d"
    and flight: "sst_in_flight state \<longleftrightarrow> active = Some (CD_TimeSync (service_of state))"
    and own: "\<And>r. active = Some (CD_TimeSync r) \<Longrightarrow> svd_node_address r = sst_node_address state \<Longrightarrow> r = service_of state"
  shows "runtime_ok parked (rt\<lparr>crt_time_sync := (crt_time_sync rt)[i := state], crt_active_dispatch := active\<rparr>)"
proof -
  let ?rt = "rt\<lparr>crt_time_sync := (crt_time_sync rt)[i := state], crt_active_dispatch := active\<rparr>" and ?k = "length (crt_nodes rt) + i"
  from ok have ids: "runtime_ids_ok rt" and o: "runtime_owners_ok parked rt" by (simp_all add: runtime_ok_def)
  from ids have dist: "distinct (map sst_node_address (crt_time_sync rt))" by (simp add: runtime_ids_ok_def)
  note m = in_updated [of i "crt_time_sync rt" sst_node_address state, OF i dist a]
  have ws: "work_ids ?rt = (work_ids rt)[?k := sst_work_id state]"
    using i by (simp add: work_ids_def map_update list_update_append)
  have k: "work_ids rt ! ?k = sst_work_id (crt_time_sync rt ! i)" "?k < length (work_ids rt)"
    using i by (simp_all add: work_ids_def nth_append)
  have "distinct ((work_ids rt)[?k := sst_work_id state])"
    using ids w k by (intro distinct_update) (auto simp: runtime_ids_ok_def)
  moreover have "0 \<notin> set ((work_ids rt)[?k := sst_work_id state])"
    using ids w k set_update_subset_insert [of "work_ids rt" ?k "sst_work_id state"] nth_mem [of ?k "work_ids rt"]
    by (auto simp: runtime_ids_ok_def)
  moreover have "map sst_node_address ((crt_time_sync rt)[i := state]) = map sst_node_address (crt_time_sync rt)"
    using i a by (simp add: map_update) (metis list_update_id nth_map)
  ultimately have "runtime_ids_ok ?rt" using ids unfolding runtime_ids_ok_def ws by simp
  moreover have sd: "svd_node_address (service_of t) = sst_node_address t" for t by (simp add: service_of_def)
  have other: "active = Some (CD_TimeSync (service_of t)) \<longleftrightarrow> crt_active_dispatch rt = Some (CD_TimeSync (service_of t))"
    if "sst_node_address t \<noteq> sst_node_address (crt_time_sync rt ! i)" for t using that a by (intro only) (simp add: sd)
  have known: "active_known ?rt d" if d: "active = Some d" for d
  proof (cases "\<exists>r. d = CD_TimeSync r \<and> svd_node_address r = sst_node_address state")
    case True
    then show ?thesis using own d m by (auto simp: active_known_def)
  next
    case False
    then have "active_known rt d" using only [of d] d o by (simp add: runtime_owners_ok_def)
    with False show ?thesis using a by (auto simp: active_known_def m sd split: ChannelDispatch.splits)
  qed
  have mine: "sst_in_flight t \<longleftrightarrow> active = Some (CD_TimeSync (service_of t))" if "t \<in> set ((crt_time_sync rt)[i := state])" for t
    using that flight o other [of t] unfolding m runtime_owners_ok_def by auto
  have "runtime_owners_ok parked ?rt"
    using o mine known by (simp add: runtime_owners_ok_def owns_def only active_known_def)
  ultimately show ?thesis by (simp add: runtime_ok_def)
qed

lemma telemetry_step:
  assumes ok: "runtime_ok parked rt" and i: "i < length (crt_telemetry rt)" and a: "sst_node_address state = sst_node_address (crt_telemetry rt ! i)"
    and w: "sst_work_id state = sst_work_id (crt_telemetry rt ! i) \<or> sst_work_id state \<noteq> 0 \<and> sst_work_id state \<notin> set (work_ids rt)"
    and only: "\<And>d. (\<forall>r. d = CD_Telemetry r \<longrightarrow> svd_node_address r \<noteq> sst_node_address state) \<Longrightarrow>
      active = Some d \<longleftrightarrow> crt_active_dispatch rt = Some d"
    and flight: "sst_in_flight state \<longleftrightarrow> active = Some (CD_Telemetry (service_of state))"
    and own: "\<And>r. active = Some (CD_Telemetry r) \<Longrightarrow> svd_node_address r = sst_node_address state \<Longrightarrow> r = service_of state"
  shows "runtime_ok parked (rt\<lparr>crt_telemetry := (crt_telemetry rt)[i := state], crt_active_dispatch := active\<rparr>)"
proof -
  let ?rt = "rt\<lparr>crt_telemetry := (crt_telemetry rt)[i := state], crt_active_dispatch := active\<rparr>" and ?k = "length (crt_nodes rt) + length (crt_time_sync rt) + i"
  from ok have ids: "runtime_ids_ok rt" and o: "runtime_owners_ok parked rt" by (simp_all add: runtime_ok_def)
  from ids have dist: "distinct (map sst_node_address (crt_telemetry rt))" by (simp add: runtime_ids_ok_def)
  note m = in_updated [of i "crt_telemetry rt" sst_node_address state, OF i dist a]
  have ws: "work_ids ?rt = (work_ids rt)[?k := sst_work_id state]"
    using i by (simp add: work_ids_def map_update list_update_append)
  have k: "work_ids rt ! ?k = sst_work_id (crt_telemetry rt ! i)" "?k < length (work_ids rt)"
    using i by (simp_all add: work_ids_def nth_append)
  have "distinct ((work_ids rt)[?k := sst_work_id state])"
    using ids w k by (intro distinct_update) (auto simp: runtime_ids_ok_def)
  moreover have "0 \<notin> set ((work_ids rt)[?k := sst_work_id state])"
    using ids w k set_update_subset_insert [of "work_ids rt" ?k "sst_work_id state"] nth_mem [of ?k "work_ids rt"]
    by (auto simp: runtime_ids_ok_def)
  moreover have "map sst_node_address ((crt_telemetry rt)[i := state]) = map sst_node_address (crt_telemetry rt)"
    using i a by (simp add: map_update) (metis list_update_id nth_map)
  ultimately have "runtime_ids_ok ?rt" using ids unfolding runtime_ids_ok_def ws by simp
  moreover have sd: "svd_node_address (service_of t) = sst_node_address t" for t by (simp add: service_of_def)
  have other: "active = Some (CD_Telemetry (service_of t)) \<longleftrightarrow> crt_active_dispatch rt = Some (CD_Telemetry (service_of t))"
    if "sst_node_address t \<noteq> sst_node_address (crt_telemetry rt ! i)" for t using that a by (intro only) (simp add: sd)
  have known: "active_known ?rt d" if d: "active = Some d" for d
  proof (cases "\<exists>r. d = CD_Telemetry r \<and> svd_node_address r = sst_node_address state")
    case True
    then show ?thesis using own d m by (auto simp: active_known_def)
  next
    case False
    then have "active_known rt d" using only [of d] d o by (simp add: runtime_owners_ok_def)
    with False show ?thesis using a by (auto simp: active_known_def m sd split: ChannelDispatch.splits)
  qed
  have mine: "sst_in_flight t \<longleftrightarrow> active = Some (CD_Telemetry (service_of t))" if "t \<in> set ((crt_telemetry rt)[i := state])" for t
    using that flight o other [of t] unfolding m runtime_owners_ok_def by auto
  have "runtime_owners_ok parked ?rt"
    using o mine known by (simp add: runtime_owners_ok_def owns_def only active_known_def)
  ultimately show ?thesis by (simp add: runtime_ok_def)
qed

section \<open>Every operation keeps the invariant\<close>

text \<open>Operations as steps.\<close>

lemma as_node_step:
  "update_node rt i f = node_step rt i (f (crt_nodes rt ! i)) (crt_active_dispatch rt)"
  "release (node_step rt i node a) = node_step rt i node None"
  "(node_step rt i node a)\<lparr>crt_active_dispatch := b\<rparr> = node_step rt i node b"
  "node_step (rt\<lparr>crt_next_work_id := n\<rparr>) i node a = (node_step rt i node a)\<lparr>crt_next_work_id := n\<rparr>"
  by (simp_all add: update_node_def node_step_def release_def)

lemma update_twice: "i < length (crt_nodes rt) \<Longrightarrow> update_node (update_node rt i f) i g = update_node rt i (\<lambda>node. g (f node))"
  by (simp add: update_node_def)

lemma in_flight_index_Ok:
  "in_flight_node_index rt d = Ok i \<Longrightarrow>
     i < length (crt_nodes rt) \<and> d = measurement_of (crt_nodes rt ! i) \<and> nss_in_flight (crt_nodes rt ! i)"
  by (auto simp: in_flight_node_index_def result_iffs Let_def measurement_of_def dest!: node_index_Ok split: if_splits)

lemma active_node_index_Ok:
  "active_node_index rt d = Ok i \<Longrightarrow> i < length (crt_nodes rt) \<and> d = measurement_of (crt_nodes rt ! i) \<and>
     nss_in_flight (crt_nodes rt ! i) \<and> crt_active_dispatch rt = Some (CD_Measurement d)"
  by (auto simp: active_node_index_def dest!: in_flight_index_Ok split: if_splits)

lemma active_recovery_index_Ok:
  "active_recovery_index rt d = Ok i \<Longrightarrow> i < length (crt_nodes rt) \<and> d = recovery_of (crt_nodes rt ! i) \<and>
     nss_in_flight (crt_nodes rt ! i) \<and> crt_active_dispatch rt = Some (CD_Recovery d)"
  by (auto simp: active_recovery_index_def result_iffs Let_def recovery_of_def dest!: node_index_Ok split: if_splits)

lemma service_index_Ok:
  "service_index states d = Ok i \<Longrightarrow> i < length states \<and> d = service_of (states ! i) \<and> sst_in_flight (states ! i)"
  by (auto simp: service_index_def result_iffs Let_def service_of_def dest!: position_Some split: if_splits)

lemma index_errors:
  "in_flight_node_index rt d \<noteq> Panic" "in_flight_node_index rt d \<noteq> Err RTE_InvariantViolation"
  "active_node_index rt d \<noteq> Panic" "active_node_index rt d \<noteq> Err RTE_InvariantViolation"
  "active_recovery_index rt r \<noteq> Panic" "active_recovery_index rt r \<noteq> Err RTE_InvariantViolation"
  "service_index states r \<noteq> Panic" "service_index states r \<noteq> Err RTE_InvariantViolation"
  by (auto simp: in_flight_node_index_def active_node_index_def active_recovery_index_def service_index_def result_iffs Let_def
      dest: node_index_Err split: if_splits)

text \<open>An outcome that keeps the invariant and is neither a panic nor the report of a broken one.\<close>

definition sound :: "MeasurementDispatch set \<Rightarrow> (ChannelRuntime, 'a, ChannelRuntimeError) outcome \<Rightarrow> bool" where
  "sound parked out \<longleftrightarrow> runtime_ok parked (snd out) \<and> fst out \<noteq> Panic \<and> fst out \<noteq> Err RTE_InvariantViolation"

lemma sound_intros:
  "runtime_ok parked rt \<Longrightarrow> sound parked (Ok v, rt)"
  "runtime_ok parked rt \<Longrightarrow> e \<noteq> RTE_InvariantViolation \<Longrightarrow> sound parked (Err e, rt)"
  by (simp_all add: sound_def)

lemma sound_try:
  assumes "runtime_ok parked rt" "r \<noteq> Panic" "r \<noteq> Err RTE_InvariantViolation" "\<And>v. r = Ok v \<Longrightarrow> sound parked (k v)"
  shows "sound parked (try_with r rt k)"
  using assms by (cases r) (auto simp: sound_def)

lemma sound_time:
  assumes "runtime_ok parked rt" "\<And>v. x = Some v \<Longrightarrow> sound parked (k v)"
  shows "sound parked (try_with (ok_or x RTE_TimeOverflow) rt k)"
  using assms by (cases x) (auto simp: sound_def)

lemma sound_with_work_id:
  assumes "runtime_ok parked rt" "\<And>n w. w \<noteq> 0 \<Longrightarrow> w \<notin> set (work_ids rt) \<Longrightarrow> sound parked (k (rt\<lparr>crt_next_work_id := n\<rparr>) w)"
  shows "sound parked (with_work_id rt k)"
  by (rule with_work_id_cases [of rt k]) (simp add: assms(1) sound_def, metis assms(2))

lemma runtime_new_ok: "runtime_new policy obs n seed = Ok rt \<Longrightarrow> runtime_ok {} rt"
  by (auto simp: runtime_new_def runtime_ok_def runtime_ids_ok_def runtime_owners_ok_def work_ids_def split: if_splits)

lemma append_node_ok:
  assumes ok: "runtime_ok parked rt" and a: "nss_address node \<notin> nss_address ` set (crt_nodes rt)" and c: "schedule_config_ok (nss_config node)"
    and w: "nss_work_id node \<noteq> 0" "nss_work_id node \<notin> set (work_ids rt)" and f: "\<not> nss_in_flight node"
    and l: "length (crt_nodes rt) < crt_max_nodes rt"
  shows "runtime_ok parked (rt\<lparr>crt_nodes := crt_nodes rt @ [node]\<rparr>)"
proof -
  have k: "active_known (rt\<lparr>crt_nodes := crt_nodes rt @ [node]\<rparr>) d" if "active_known rt d" for d
    using that by (auto simp: active_known_def split: ChannelDispatch.splits)
  have m: "CD_Measurement (measurement_of node) \<noteq> d" "CD_Recovery (recovery_of node) \<noteq> d" if "active_known rt d" for d
    using that a by (auto simp: active_known_def) (metis address_of image_eqI)+
  have "\<not> owns (crt_active_dispatch rt) parked node"
    using m active_is_known [OF ok] parked_is_known [OF ok] by (auto simp: owns_def)
  then have "runtime_owners_ok parked (rt\<lparr>crt_nodes := crt_nodes rt @ [node]\<rparr>)"
    using ok f k by (auto simp: runtime_ok_def runtime_owners_ok_def)
  moreover have "runtime_ids_ok (rt\<lparr>crt_nodes := crt_nodes rt @ [node]\<rparr>)"
    using ok a c w l by (auto simp: runtime_ok_def runtime_ids_ok_def work_ids_def)
  ultimately show ?thesis by (simp add: runtime_ok_def)
qed

lemma append_time_sync_ok:
  assumes ok: "runtime_ok parked rt" and a: "sst_node_address state \<notin> sst_node_address ` set (crt_time_sync rt)"
    and w: "sst_work_id state \<noteq> 0" "sst_work_id state \<notin> set (work_ids rt)" and f: "\<not> sst_in_flight state"
  shows "runtime_ok parked (rt\<lparr>crt_time_sync := crt_time_sync rt @ [state]\<rparr>)"
proof -
  have k: "active_known (rt\<lparr>crt_time_sync := crt_time_sync rt @ [state]\<rparr>) d" if "active_known rt d" for d
    using that by (auto simp: active_known_def split: ChannelDispatch.splits)
  have "\<not> active_known rt (CD_TimeSync (service_of state))" using a by (auto simp: active_known_def service_of_def)
  then have "runtime_owners_ok parked (rt\<lparr>crt_time_sync := crt_time_sync rt @ [state]\<rparr>)"
    using ok f k by (auto simp: runtime_ok_def runtime_owners_ok_def)
  moreover have "runtime_ids_ok (rt\<lparr>crt_time_sync := crt_time_sync rt @ [state]\<rparr>)"
    using ok a w by (auto simp: runtime_ok_def runtime_ids_ok_def work_ids_def)
  ultimately show ?thesis by (simp add: runtime_ok_def)
qed

lemma append_telemetry_ok:
  assumes ok: "runtime_ok parked rt" and a: "sst_node_address state \<notin> sst_node_address ` set (crt_telemetry rt)"
    and w: "sst_work_id state \<noteq> 0" "sst_work_id state \<notin> set (work_ids rt)" and f: "\<not> sst_in_flight state"
  shows "runtime_ok parked (rt\<lparr>crt_telemetry := crt_telemetry rt @ [state]\<rparr>)"
proof -
  have k: "active_known (rt\<lparr>crt_telemetry := crt_telemetry rt @ [state]\<rparr>) d" if "active_known rt d" for d
    using that by (auto simp: active_known_def split: ChannelDispatch.splits)
  have "\<not> active_known rt (CD_Telemetry (service_of state))" using a by (auto simp: active_known_def service_of_def)
  then have "runtime_owners_ok parked (rt\<lparr>crt_telemetry := crt_telemetry rt @ [state]\<rparr>)"
    using ok f k by (auto simp: runtime_ok_def runtime_owners_ok_def)
  moreover have "runtime_ids_ok (rt\<lparr>crt_telemetry := crt_telemetry rt @ [state]\<rparr>)"
    using ok a w by (auto simp: runtime_ok_def runtime_ids_ok_def work_ids_def)
  ultimately show ?thesis by (simp add: runtime_ok_def)
qed

lemma register_sound:
  assumes "runtime_ok parked rt" "nsc_output_rate c \<noteq> 0" "nsc_retry_base_delay c \<noteq> 0"
  shows "sound parked (register_node rt c cursor now)"
  unfolding register_node_def
proof (rule sound_try [OF assms(1)])
  fix c' assume "schedule_config_validate c = Ok c'"
  then have c': "c' = c" "schedule_config_ok c" using assms(2,3) schedule_config_validate_Ok [of c c'] by (simp_all add: schedule_config_ok_def)
  show "sound parked (if length (crt_nodes rt) \<ge> crt_max_nodes rt then (Err RTE_NodeCapacityReached, rt)
     else if list_ex (\<lambda>node. nss_address node = nsc_node_address c') (crt_nodes rt)
     then (Err (RTE_DuplicateNode (nsc_node_address c')), rt)
     else with_work_id rt (\<lambda>rt work_id.
       (Ok (), rt\<lparr>crt_nodes := crt_nodes rt @ [\<lparr>nss_config = c', nss_received = cursor,
          nss_observed_produced = cursor, nss_observed_at = now, nss_service_deadline = now, nss_ready_at = now,
          nss_queued_at = now, nss_availability = NA_Online, nss_work_id = work_id, nss_in_flight = False\<rparr>]\<rparr>)))"
    using assms(1) c'
    by (auto intro!: sound_intros sound_with_work_id append_node_ok simp: list_ex_iff)
qed simp_all

lemma reconfigure_sound:
  assumes ok: "runtime_ok parked rt" and "nsc_output_rate c \<noteq> 0" "nsc_retry_base_delay c \<noteq> 0"
  shows "sound parked (reconfigure_node rt c now)"
proof (cases "schedule_config_validate c")
  case (Ok c')
  then have c: "c' = c" "schedule_config_ok c" using assms(2,3) schedule_config_validate_Ok [OF Ok] by (simp_all add: schedule_config_ok_def)
  have i: "node_index rt a \<noteq> Err RTE_InvariantViolation" for a by (auto dest: node_index_Err)
  have "runtime_ok parked (node_step rt i ((crt_nodes rt ! i)\<lparr>nss_config := c, nss_observed_at := now,
      nss_service_deadline := now, nss_ready_at := now, nss_queued_at := now\<rparr>) None)"
    if "node_index rt (nsc_node_address c) = Ok i" "crt_active_dispatch rt = None" "\<not> nss_in_flight (crt_nodes rt ! i)" for i
    using that c node_index_Ok [OF that(1)] by (intro idle_step [OF ok]) (simp_all add: renewed_def)
  then show ?thesis unfolding reconfigure_node_def Ok c using ok i
    by (auto intro!: sound_try sound_intros simp: Let_def as_node_step)
qed (use ok schedule_config_validate_no_panic [of c] in \<open>auto simp: reconfigure_node_def sound_def\<close>)

text \<open>Each way of settling the owner of the line.\<close>

lemma settle_measurement:
  assumes "runtime_ok parked rt" "active_node_index rt d = Ok i" "renewed rt i node" "\<not> nss_in_flight node"
  shows "runtime_ok parked (node_step rt i node None)"
  using active_node_index_Ok [OF assms(2)] by (intro settle_step [OF assms(1,3,4)]) simp

lemma settle_recovery:
  assumes "runtime_ok parked rt" "active_recovery_index rt d = Ok i" "renewed rt i node" "\<not> nss_in_flight node"
  shows "runtime_ok parked (node_step rt i node None)"
proof -
  note i = active_recovery_index_Ok [OF assms(2)]
  from i have a: "crt_active_dispatch rt = Some (CD_Recovery (recovery_of (crt_nodes rt ! i)))" by simp
  have "recovering (crt_nodes rt ! i)" using known_of_node(2) [OF assms(1) _ active_is_known [OF assms(1) a]] i by simp
  with a show ?thesis by (intro settle_step [OF assms(1,3,4)]) simp
qed

lemma renewed_self:
  assumes "runtime_ok parked rt" "i < length (crt_nodes rt)"
    "nss_config node = nss_config (crt_nodes rt ! i)"
    "nss_work_id node = nss_work_id (crt_nodes rt ! i) \<or> nss_work_id node \<noteq> 0 \<and> nss_work_id node \<notin> set (work_ids rt)"
  shows "renewed rt i node"
  using assms runtime_ok_nth(2) [OF assms(1,2)] by (simp add: renewed_def)

lemma park_sound:
  assumes ok: "runtime_ok parked rt"
  shows "sound (if fst (park_measurement rt d) = Ok () then insert d parked else parked) (park_measurement rt d)"
proof (cases "active_node_index rt d")
  case (Ok i)
  note i = active_node_index_Ok [OF Ok]
  have "release rt = node_step rt i (crt_nodes rt ! i) None" by (simp add: release_def node_step_def)
  with park_step [OF ok, of i] i Ok show ?thesis by (simp add: park_measurement_def sound_def)
qed (use ok index_errors(3,4) [of rt d] in \<open>auto simp: park_measurement_def sound_def\<close>)

lemma require_recovery_sound:
  assumes ok: "runtime_ok parked rt"
  shows "sound parked (require_recovery rt d cause now)"
  unfolding require_recovery_def
  by (rule sound_try [OF ok]) (auto simp: index_errors as_node_step
      intro!: sound_intros settle_measurement [OF ok] renewed_self [OF ok] dest: active_node_index_Ok)

lemma cancel_sound:
  assumes ok: "runtime_ok parked rt"
  shows "sound parked (cancel_measurement rt d)"
  unfolding cancel_measurement_def
  by (rule sound_try [OF ok]) (auto simp: index_errors as_node_step
      intro!: sound_intros settle_measurement [OF ok] renewed_self [OF ok] dest: active_node_index_Ok)

lemma retry_delay_ok:
  assumes "schedule_config_ok c"
  shows "\<exists>d. retry_delay c n = Ok d \<and> unat d = (if n \<le> nsc_retry_attempt_limit c
      then min (unat (nsc_retry_max_delay c)) (unat (nsc_retry_base_delay c) * 2 ^ (unat n - 1)) else unat (nsc_offline_probe_interval c))"
  using exponential_delay_closed [OF schedule_config_okD(5,2) [OF assms], of n] by (auto simp: retry_delay_def not_less)

lemma fail_measurement_sound:
  assumes ok: "runtime_ok parked rt"
  shows "sound parked (fail_measurement rt d now)"
  unfolding fail_measurement_def Let_def
proof (rule sound_try [OF ok index_errors(3,4)])
  fix i assume x: "active_node_index rt d = Ok i"
  note i = active_node_index_Ok [OF x]
  let ?node = "crt_nodes rt ! i" and ?n = "saturating_add (failures (nss_availability (crt_nodes rt ! i))) 1"
  let ?node' = "?node\<lparr>nss_availability := (if ?n > nsc_retry_attempt_limit (nss_config ?node) then NA_Offline OC_Unresponsive ?n
      else NA_RetryBackoff ?n)\<rparr>"
  from i have len: "i < length (crt_nodes rt)" by simp
  have a: "crt_active_dispatch rt = Some (CD_Measurement (measurement_of ?node))" using i by simp
  have nr: "\<not> recovering ?node" using known_of_node(1) [OF ok len active_is_known [OF ok a]] by simp
  obtain t where t: "retry_delay (nss_config ?node) ?n = Ok t" using retry_delay_ok [OF runtime_ok_nth(2) [OF ok len]] by blast
  have "runtime_ok parked (node_step rt i ?node' (crt_active_dispatch rt))"
    using nr len by (intro keep_step [OF ok] renewed_self [OF ok]) (simp_all add: measurement_of_def)
  moreover have "runtime_ok parked (node_step rt i (?node'\<lparr>nss_ready_at := r, nss_in_flight := False\<rparr>) None)" for r
    using len by (intro settle_measurement [OF ok x] renewed_self [OF ok]) simp_all
  ultimately show "sound parked (try_with (retry_delay (nss_config ?node) ?n) rt (\<lambda>delay.
      try_with (ok_or (monotonic_checked_add now delay) RTE_TimeOverflow)
        (update_node rt i (\<lambda>node. node\<lparr>nss_availability := (if ?n > nsc_retry_attempt_limit (nss_config node)
            then NA_Offline OC_Unresponsive ?n else NA_RetryBackoff ?n)\<rparr>)) (\<lambda>ready_at.
         (Ok (), release (update_node (update_node rt i (\<lambda>node. node\<lparr>nss_availability := (if ?n > nsc_retry_attempt_limit (nss_config node)
            then NA_Offline OC_Unresponsive ?n else NA_RetryBackoff ?n)\<rparr>)) i (\<lambda>node. node\<lparr>nss_ready_at := ready_at, nss_in_flight := False\<rparr>))))))"
    unfolding t try_with.simps update_twice [OF len]
    unfolding as_node_step(1,2)
    by (intro sound_time) (simp_all add: sound_intros)
qed

lemma fail_recovery_sound:
  assumes ok: "runtime_ok parked rt"
  shows "sound parked (fail_recovery rt d now)"
  unfolding fail_recovery_def Let_def
proof (rule sound_try [OF ok index_errors(5,6)])
  fix i assume x: "active_recovery_index rt d = Ok i"
  note i = active_recovery_index_Ok [OF x]
  let ?node = "crt_nodes rt ! i" and ?n = "saturating_add (failures (nss_availability (crt_nodes rt ! i))) 1"
  from i have len: "i < length (crt_nodes rt)" by simp
  obtain t where t: "retry_delay (nss_config ?node) ?n = Ok t" using retry_delay_ok [OF runtime_ok_nth(2) [OF ok len]] by blast
  have a: "crt_active_dispatch rt = Some (CD_Recovery (recovery_of ?node))" using i by simp
  have "recovering ?node" using known_of_node(2) [OF ok len active_is_known [OF ok a]] by simp
  then obtain cause where cause: "availability_recovery_cause (nss_availability ?node) = Some cause" by blast
  let ?av = "\<lambda>node. if ?n > nsc_retry_attempt_limit (nss_config node) then NA_Offline (OC_Recovery cause) ?n else NA_Recovering cause ?n"
  have "runtime_ok parked (node_step rt i (?node\<lparr>nss_availability := ?av ?node\<rparr>) (crt_active_dispatch rt))"
    using cause len by (intro keep_step [OF ok] renewed_self [OF ok]) (simp_all add: measurement_of_def)
  moreover have "runtime_ok parked (node_step rt i (?node\<lparr>nss_availability := ?av ?node, nss_ready_at := r, nss_queued_at := now,
      nss_in_flight := False\<rparr>) None)" for r
    using len by (intro settle_recovery [OF ok x] renewed_self [OF ok]) simp_all
  ultimately show "sound parked (try_with (ok_or (availability_recovery_cause (nss_availability ?node))
        (RTE_RecoveryNotRequired (svd_node_address d))) rt (\<lambda>cause.
      try_with (retry_delay (nss_config ?node) ?n) rt (\<lambda>delay.
      try_with (ok_or (monotonic_checked_add now delay) RTE_TimeOverflow)
        (update_node rt i (\<lambda>node. node\<lparr>nss_availability := (if ?n > nsc_retry_attempt_limit (nss_config node)
            then NA_Offline (OC_Recovery cause) ?n else NA_Recovering cause ?n)\<rparr>)) (\<lambda>ready_at.
         (Ok (), release (update_node (update_node rt i (\<lambda>node. node\<lparr>nss_availability := (if ?n > nsc_retry_attempt_limit (nss_config node)
            then NA_Offline (OC_Recovery cause) ?n else NA_Recovering cause ?n)\<rparr>)) i
              (\<lambda>node. node\<lparr>nss_ready_at := ready_at, nss_queued_at := now, nss_in_flight := False\<rparr>)))))))"
    unfolding t cause ok_or.simps try_with.simps update_twice [OF len]
    unfolding as_node_step(1,2)
    by (intro sound_time) (simp_all add: sound_intros)
qed

text \<open>The second half of a completion: \<open>settle\<close> gives the line back, or leaves it to its owner for a parked measurement.\<close>

lemma measurement_progressed_sound:
  assumes ok: "runtime_ok parked rt" and len: "i < length (crt_nodes rt)" and p: "mp_received progress \<le> mp_produced progress"
    and settle: "\<And>rt' n. settle (rt'\<lparr>crt_next_work_id := n\<rparr>) = (settle rt')\<lparr>crt_next_work_id := n\<rparr>"
    and s: "\<And>node. renewed rt i node \<Longrightarrow> \<not> nss_in_flight node \<Longrightarrow>
      runtime_ok parked' (settle (node_step rt i node (crt_active_dispatch rt)))"
    and out: "measurement_progressed rt i progress now settle = out"
  shows "sound (if fst out = Ok () \<or> fst out = Err RTE_StreamRegressed then parked' else parked) out"
proof -
  let ?node = "crt_nodes rt ! i" and ?c = "nss_config (crt_nodes rt ! i)"
  have c: "schedule_config_ok ?c" by (rule runtime_ok_nth(2) [OF ok len])
  have reg: "runtime_ok parked' (settle (node_step rt i (stream_regressed now ?node) (crt_active_dispatch rt)))"
    using len c by (intro s) (simp_all add: renewed_def stream_regressed_def)
  have time: "unat now + unat (nsc_maximum_service_interval ?c) < 2 ^ 64" if "monotonic_checked_add now (nsc_maximum_service_interval ?c) = Some v" for v
    using that by (simp add: monotonic_checked_add_def checked_add_def split: if_splits)
  have fin: "runtime_ok parked' (settle (node_step rt i (?node\<lparr>nss_received := mp_received progress,
      nss_observed_produced := mp_produced progress, nss_observed_at := now, nss_service_deadline := t, nss_ready_at := r,
      nss_queued_at := now, nss_availability := NA_Online, nss_work_id := w, nss_in_flight := False\<rparr>) (crt_active_dispatch rt)))"
    if "w \<noteq> 0" "w \<notin> set (work_ids rt)" for t r w
    using len c that by (intro s) (simp_all add: renewed_def)
  consider (regressed) "mp_received progress < nss_received ?node \<or> mp_produced progress < nss_observed_produced ?node"
    | (overflow) "\<not> (mp_received progress < nss_received ?node \<or> mp_produced progress < nss_observed_produced ?node)"
        "monotonic_checked_add now (nsc_maximum_service_interval ?c) = None"
    | (forward) t where "\<not> (mp_received progress < nss_received ?node \<or> mp_produced progress < nss_observed_produced ?node)"
        "monotonic_checked_add now (nsc_maximum_service_interval ?c) = Some t"
    by (cases "monotonic_checked_add now (nsc_maximum_service_interval ?c)") auto
  then show ?thesis
  proof cases
    case regressed
    with out have "out = (Err RTE_StreamRegressed, settle (update_node rt i (stream_regressed now)))"
      by (simp add: measurement_progressed_def)
    with reg show ?thesis by (simp add: sound_def as_node_step(1))
  next
    case overflow
    with out have "out = (Err RTE_TimeOverflow, rt)" by (simp add: measurement_progressed_def)
    with ok show ?thesis by (simp add: sound_def)
  next
    case (forward t)
    obtain r where r: "next_measurement_ready_at ?c progress now = Ok r" using next_ready [OF c p time [OF forward(2)]] by blast
    let ?k = "\<lambda>self next_work_id.
          let self = update_node self i (\<lambda>node. node\<lparr>nss_received := mp_received progress,
                nss_observed_produced := mp_produced progress, nss_observed_at := now, nss_service_deadline := t\<rparr>)
          in try_with (next_measurement_ready_at ?c progress now) self (\<lambda>ready_at.
               (Ok (), settle (update_node self i (\<lambda>node. node\<lparr>nss_ready_at := ready_at, nss_queued_at := now,
                  nss_availability := NA_Online, nss_work_id := next_work_id, nss_in_flight := False\<rparr>))))"
    have k: "?k (rt\<lparr>crt_next_work_id := n\<rparr>) w = (Ok (), (settle (node_step rt i (?node\<lparr>nss_received := mp_received progress,
      nss_observed_produced := mp_produced progress, nss_observed_at := now, nss_service_deadline := t, nss_ready_at := r,
      nss_queued_at := now, nss_availability := NA_Online, nss_work_id := w, nss_in_flight := False\<rparr>) (crt_active_dispatch rt)))
        \<lparr>crt_next_work_id := n\<rparr>)" for n w
      using len by (simp add: Let_def r update_twice, simp add: as_node_step(1,4) settle)
    from out forward have o: "out = with_work_id rt ?k" by (simp add: measurement_progressed_def)
    show ?thesis by (rule with_work_id_cases [of rt ?k]) (simp_all add: o k fin ok sound_def)
  qed
qed

lemma progress_validate_Ok: "progress_validate p = Ok q \<Longrightarrow> q = p \<and> mp_received p \<le> mp_produced p"
  by (auto simp: progress_validate_def not_less split: if_splits)

lemma progress_validate_no_panic [simp]: "progress_validate p \<noteq> Panic" "progress_validate p \<noteq> Err RTE_InvariantViolation"
  by (simp_all add: progress_validate_def)

lemma complete_measurement_sound:
  assumes ok: "runtime_ok parked rt"
  shows "sound parked (complete_measurement rt d progress now)"
  unfolding complete_measurement_def
proof (rule sound_try [OF ok progress_validate_no_panic], rule sound_try [OF ok index_errors(3,4)])
  fix q i assume q: "progress_validate progress = Ok q" and x: "active_node_index rt d = Ok i"
  have p: "mp_received q \<le> mp_produced q" using progress_validate_Ok [OF q] by simp
  have len: "i < length (crt_nodes rt)" using active_node_index_Ok [OF x] by simp
  have "sound (if fst out = Ok () \<or> fst out = Err RTE_StreamRegressed then parked else parked) out"
    if "measurement_progressed rt i q now release = out" for out
    by (rule measurement_progressed_sound [OF ok len p _ _ that])
      (simp_all add: as_node_step(2) settle_measurement [OF ok x], simp add: release_def)
  then show "sound parked (measurement_progressed rt i q now release)" by auto
qed

lemma complete_parked_sound:
  assumes ok: "runtime_ok parked rt" and d: "d \<in> parked" and out: "complete_parked_measurement rt d progress now = out"
  shows "sound (if fst out = Ok () \<or> fst out = Err RTE_StreamRegressed then parked - {d} else parked) out"
proof -
  have a: "crt_active_dispatch rt \<noteq> Some (CD_Measurement d)" using parked_is_known [OF ok d] by simp
  show ?thesis
  proof (cases "progress_validate progress")
    case (Ok q)
    have p: "mp_received q \<le> mp_produced q" using progress_validate_Ok [OF Ok] by simp
    show ?thesis
    proof (cases "in_flight_node_index rt d")
      case x: (Ok i)
      note i = in_flight_index_Ok [OF x]
      from i have len: "i < length (crt_nodes rt)" and di: "d = measurement_of (crt_nodes rt ! i)" by simp_all
      show ?thesis
        by (rule measurement_progressed_sound [OF ok len p])
          (use out a Ok x unpark_step [OF ok] d di in \<open>simp_all add: complete_parked_measurement_def\<close>)
    qed (use out a Ok ok index_errors(1,2) [of rt d] in \<open>auto simp: complete_parked_measurement_def sound_def in_flight_node_index_def
        result_iffs Let_def dest!: node_index_Err split: if_splits\<close>)
  qed (use out a ok in \<open>auto simp: complete_parked_measurement_def sound_def progress_validate_def split: if_splits\<close>)
qed

lemma restarted_renewed:
  assumes "runtime_ok parked rt" "i < length (crt_nodes rt)" "w \<noteq> 0" "w \<notin> set (work_ids rt)"
  shows "renewed rt i (restarted c p now w (crt_nodes rt ! i))"
  using assms by (intro renewed_self) (simp_all add: restarted_def)

lemma complete_recovery_sound:
  assumes ok: "runtime_ok parked rt"
  shows "sound parked (complete_recovery rt d cursor produced now)"
proof -
  have "runtime_ok parked (node_step rt i (restarted cursor produced now w (crt_nodes rt ! i)) None)"
    if "active_recovery_index rt d = Ok i" "w \<noteq> 0" "w \<notin> set (work_ids rt)" for i w
    using that active_recovery_index_Ok [OF that(1)]
    by (intro settle_recovery [OF ok that(1)] restarted_renewed [OF ok]) (simp_all add: restarted_def)
  then show ?thesis unfolding complete_recovery_def using ok
    by (auto intro!: sound_try sound_with_work_id sound_intros simp: index_errors as_node_step)
qed

text \<open>\<open>recover_node\<close> and the two ways to resume are for nodes that own nothing.\<close>

lemma node_index_sound: "node_index rt a \<noteq> Err RTE_InvariantViolation"
  by (auto dest: node_index_Err)

lemma unowned:
  assumes "runtime_ok parked rt" "i < length (crt_nodes rt)" "crt_active_dispatch rt = None"
    "\<And>d. d \<in> parked \<Longrightarrow> md_node_address d \<noteq> nss_address (crt_nodes rt ! i)"
  shows "\<not> nss_in_flight (crt_nodes rt ! i)"
  using runtime_ok_nth(1) [OF assms(1,2)] assms(3) assms(4) [of "measurement_of (crt_nodes rt ! i)"] by (auto simp: owns_def)

lemma recover_node_sound:
  assumes ok: "runtime_ok parked rt" and a: "crt_active_dispatch rt = None"
  shows "sound parked (recover_node rt address cursor now)"
proof -
  have "runtime_ok parked (node_step rt i (restarted cursor cursor now w (crt_nodes rt ! i)) None)"
    if "node_index rt address = Ok i" "w \<noteq> 0" "w \<notin> set (work_ids rt)" "recovering (crt_nodes rt ! i)" for i w
  proof -
    note i = node_index_Ok [OF that(1)]
    have "\<not> nss_in_flight (crt_nodes rt ! i)" using runtime_ok_nth(1) [OF ok] i a that(4) by (simp add: owns_def)
    with i that show ?thesis by (intro idle_step [OF ok restarted_renewed [OF ok] a]) (simp_all add: restarted_def)
  qed
  then show ?thesis unfolding recover_node_def using ok
    by (auto intro!: sound_try sound_with_work_id sound_intros simp: node_index_sound as_node_step)
qed

lemma resume_sound:
  assumes ok: "runtime_ok parked rt" and p: "\<And>d. d \<in> parked \<Longrightarrow> md_node_address d \<noteq> address"
  shows "sound parked (resume_node rt address cursor produced now)"
    "sound parked (replace_quiesced_node rt address cursor produced now)"
proof -
  have f: "\<not> nss_in_flight (crt_nodes rt ! i)" if "node_index rt address = Ok i" "crt_active_dispatch rt = None" for i
    using node_index_Ok [OF that(1)] p that(2) by (intro unowned [OF ok]) auto
  have "runtime_ok parked (node_step rt i (restarted cursor produced now w (crt_nodes rt ! i)) None)"
    if "node_index rt address = Ok i" "w \<noteq> 0" "w \<notin> set (work_ids rt)" "crt_active_dispatch rt = None" for i w
    using that node_index_Ok [OF that(1)] f
    by (intro idle_step [OF ok restarted_renewed [OF ok]]) (simp_all add: restarted_def)
  then show "sound parked (replace_quiesced_node rt address cursor produced now)"
    unfolding replace_quiesced_node_def using ok
    by (auto intro!: sound_try sound_with_work_id sound_intros simp: node_index_sound as_node_step)
  have "runtime_ok parked (node_step rt i ((crt_nodes rt ! i)\<lparr>nss_observed_produced := produced, nss_observed_at := now,
      nss_service_deadline := now, nss_ready_at := now, nss_queued_at := now, nss_availability := NA_Online, nss_work_id := w\<rparr>) None)"
    if "node_index rt address = Ok i" "w \<noteq> 0" "w \<notin> set (work_ids rt)" "crt_active_dispatch rt = None" for i w
    using that node_index_Ok [OF that(1)] f [OF that(1,4)]
    by (intro idle_step [OF ok renewed_self [OF ok]]) simp_all
  then show "sound parked (resume_node rt address cursor produced now)"
    unfolding resume_node_def Let_def using ok
    by (auto intro!: sound_try sound_with_work_id sound_intros simp: node_index_sound as_node_step)
qed

text \<open>Time synchronisation and telemetry.\<close>

lemma settle_time_sync:
  assumes ok: "runtime_ok parked rt" and x: "active_time_sync_index rt d = Ok i" and a: "sst_node_address state = sst_node_address (crt_time_sync rt ! i)"
    and w: "sst_work_id state = sst_work_id (crt_time_sync rt ! i) \<or> sst_work_id state \<noteq> 0 \<and> sst_work_id state \<notin> set (work_ids rt)"
    and f: "\<not> sst_in_flight state"
  shows "runtime_ok parked (rt\<lparr>crt_time_sync := (crt_time_sync rt)[i := state], crt_active_dispatch := None\<rparr>)"
proof -
  from x have "crt_active_dispatch rt = Some (CD_TimeSync d)" "service_index (crt_time_sync rt) d = Ok i"
    by (auto simp: active_time_sync_index_def split: if_splits)
  with service_index_Ok [OF this(2)] a w f show ?thesis
    by (intro time_sync_step [OF ok]) (auto simp: service_of_def)
qed

lemma time_sync_operations_sound:
  assumes ok: "runtime_ok parked rt"
  shows "sound parked (complete_time_sync rt d now)" "sound parked (fail_time_sync rt d now)" "sound parked (cancel_time_sync rt d)"
proof -
  have e: "active_time_sync_index rt d \<noteq> Panic" "active_time_sync_index rt d \<noteq> Err RTE_InvariantViolation"
    using index_errors(7,8) [of "crt_time_sync rt" d] by (auto simp: active_time_sync_index_def)
  have u: "release (update_time_sync rt i g) = rt\<lparr>crt_time_sync := (crt_time_sync rt)[i := g (crt_time_sync rt ! i)], crt_active_dispatch := None\<rparr>" for rt i g
    by (simp add: release_def update_time_sync_def)
  have n: "rt\<lparr>crt_next_work_id := n, crt_time_sync := xs, crt_active_dispatch := None\<rparr> =
      (rt\<lparr>crt_time_sync := xs, crt_active_dispatch := None\<rparr>)\<lparr>crt_next_work_id := n\<rparr>" for xs n by simp
  show "sound parked (complete_time_sync rt d now)" unfolding complete_time_sync_def
  proof (rule sound_try [OF ok e], rule sound_time [OF ok], rule sound_with_work_id [OF ok])
    fix i t n w assume "active_time_sync_index rt d = Ok i" "w \<noteq> 0" "w \<notin> set (work_ids rt)"
    then have "runtime_ok parked (rt\<lparr>crt_time_sync := (crt_time_sync rt)[i := service_completed now t w (crt_time_sync rt ! i)], crt_active_dispatch := None\<rparr>)"
      by (intro settle_time_sync [OF ok]) (simp_all add: service_completed_def)
    then show "sound parked (Ok (), release (update_time_sync (rt\<lparr>crt_next_work_id := n\<rparr>) i (service_completed now t w)))"
      unfolding u by (intro sound_intros) (simp add: n)
  qed
  show "sound parked (fail_time_sync rt d now)" unfolding fail_time_sync_def u
    by (rule sound_try [OF ok e], rule sound_time [OF ok], rule sound_intros, rule settle_time_sync [OF ok])
      (simp_all add: service_failed_def)
  show "sound parked (cancel_time_sync rt d)" unfolding cancel_time_sync_def u
    by (rule sound_try [OF ok e], rule sound_intros, rule settle_time_sync [OF ok]) simp_all
qed

lemma configure_time_sync_sound:
  assumes ok: "runtime_ok parked rt"
  shows "sound parked (configure_time_sync rt address config first_deadline)"
proof -
  have v: "time_sync_config_validate config \<noteq> Panic" "time_sync_config_validate config \<noteq> Err RTE_InvariantViolation"
    by (simp_all add: time_sync_config_validate_def)
  from ok v show ?thesis unfolding configure_time_sync_def
    by (auto intro!: sound_try sound_with_work_id sound_intros append_time_sync_ok simp: node_index_sound new_service_def Let_def list_ex_iff) blast
qed

lemma settle_telemetry:
  assumes ok: "runtime_ok parked rt" and x: "active_telemetry_index rt d = Ok i" and a: "sst_node_address state = sst_node_address (crt_telemetry rt ! i)"
    and w: "sst_work_id state = sst_work_id (crt_telemetry rt ! i) \<or> sst_work_id state \<noteq> 0 \<and> sst_work_id state \<notin> set (work_ids rt)"
    and f: "\<not> sst_in_flight state"
  shows "runtime_ok parked (rt\<lparr>crt_telemetry := (crt_telemetry rt)[i := state], crt_active_dispatch := None\<rparr>)"
proof -
  from x have "crt_active_dispatch rt = Some (CD_Telemetry d)" "service_index (crt_telemetry rt) d = Ok i"
    by (auto simp: active_telemetry_index_def split: if_splits)
  with service_index_Ok [OF this(2)] a w f show ?thesis
    by (intro telemetry_step [OF ok]) (auto simp: service_of_def)
qed

lemma telemetry_operations_sound:
  assumes ok: "runtime_ok parked rt"
  shows "sound parked (complete_telemetry rt d now)" "sound parked (fail_telemetry rt d now)" "sound parked (cancel_telemetry rt d)"
proof -
  have e: "active_telemetry_index rt d \<noteq> Panic" "active_telemetry_index rt d \<noteq> Err RTE_InvariantViolation"
    using index_errors(7,8) [of "crt_telemetry rt" d] by (auto simp: active_telemetry_index_def)
  have u: "release (update_telemetry rt i g) = rt\<lparr>crt_telemetry := (crt_telemetry rt)[i := g (crt_telemetry rt ! i)], crt_active_dispatch := None\<rparr>" for rt i g
    by (simp add: release_def update_telemetry_def)
  have n: "rt\<lparr>crt_next_work_id := n, crt_telemetry := xs, crt_active_dispatch := None\<rparr> =
      (rt\<lparr>crt_telemetry := xs, crt_active_dispatch := None\<rparr>)\<lparr>crt_next_work_id := n\<rparr>" for xs n by simp
  show "sound parked (complete_telemetry rt d now)" unfolding complete_telemetry_def
  proof (rule sound_try [OF ok e], rule sound_time [OF ok], rule sound_with_work_id [OF ok])
    fix i t n w assume "active_telemetry_index rt d = Ok i" "w \<noteq> 0" "w \<notin> set (work_ids rt)"
    then have "runtime_ok parked (rt\<lparr>crt_telemetry := (crt_telemetry rt)[i := service_completed now t w (crt_telemetry rt ! i)], crt_active_dispatch := None\<rparr>)"
      by (intro settle_telemetry [OF ok]) (simp_all add: service_completed_def)
    then show "sound parked (Ok (), release (update_telemetry (rt\<lparr>crt_next_work_id := n\<rparr>) i (service_completed now t w)))"
      unfolding u by (intro sound_intros) (simp add: n)
  qed
  show "sound parked (fail_telemetry rt d now)" unfolding fail_telemetry_def u
    by (rule sound_try [OF ok e], rule sound_time [OF ok], rule sound_intros, rule settle_telemetry [OF ok])
      (simp_all add: service_failed_def)
  show "sound parked (cancel_telemetry rt d)" unfolding cancel_telemetry_def u
    by (rule sound_try [OF ok e], rule sound_intros, rule settle_telemetry [OF ok]) simp_all
qed

lemma configure_telemetry_sound:
  assumes ok: "runtime_ok parked rt"
  shows "sound parked (configure_telemetry rt address config first_deadline)"
proof -
  have v: "telemetry_config_validate config \<noteq> Panic" "telemetry_config_validate config \<noteq> Err RTE_InvariantViolation"
    by (simp_all add: telemetry_config_validate_def)
  from ok v show ?thesis unfolding configure_telemetry_def
    by (auto intro!: sound_try sound_with_work_id sound_intros append_telemetry_ok simp: node_index_sound new_service_def Let_def list_ex_iff) blast
qed

lemma reconfigure_telemetry_sound:
  assumes ok: "runtime_ok parked rt"
  shows "sound parked (reconfigure_telemetry rt address config now)"
proof -
  have v: "telemetry_config_validate config \<noteq> Panic" "telemetry_config_validate config \<noteq> Err RTE_InvariantViolation"
    by (simp_all add: telemetry_config_validate_def)
  have keep: "runtime_ok parked (rt\<lparr>crt_telemetry := (crt_telemetry rt)[i := state]\<rparr>)"
    if "i < length (crt_telemetry rt)" "service_of state = service_of (crt_telemetry rt ! i)"
      "sst_in_flight state = sst_in_flight (crt_telemetry rt ! i)" for i state
  proof -
    let ?s = "crt_telemetry rt ! i"
    have own: "r = service_of ?s" if r: "crt_active_dispatch rt = Some (CD_Telemetry r)" "svd_node_address r = sst_node_address ?s" for r
    proof -
      obtain s where s: "s \<in> set (crt_telemetry rt)" "r = service_of s" using active_is_known [OF ok r(1)] by (auto simp: active_known_def)
      with r(2) have "sst_node_address s = sst_node_address ?s" by (simp add: service_of_def)
      with s(1) \<open>i < length _\<close> have "s = ?s" using ok
        by (auto simp: runtime_ok_def runtime_ids_ok_def distinct_conv_nth in_set_conv_nth)
      with s show ?thesis by simp
    qed
    have "runtime_ok parked (rt\<lparr>crt_telemetry := (crt_telemetry rt)[i := state], crt_active_dispatch := crt_active_dispatch rt\<rparr>)"
    proof (rule telemetry_step [OF ok that(1)])
      show "sst_in_flight state \<longleftrightarrow> crt_active_dispatch rt = Some (CD_Telemetry (service_of state))"
        using ok that by (auto simp: runtime_ok_def runtime_owners_ok_def)
    qed (use that own in \<open>auto simp: service_of_def\<close>)
    then show ?thesis by simp
  qed
  show ?thesis unfolding reconfigure_telemetry_def Let_def
  proof (rule sound_try [OF ok v], rule sound_try [OF ok])
    fix c i assume "ok_or (position (\<lambda>state. sst_node_address state = address) (crt_telemetry rt)) (RTE_TelemetryNotConfigured address) =
        (Ok i :: (usize, ChannelRuntimeError) result)"
    then have i: "i < length (crt_telemetry rt)" by (auto simp: result_iffs dest: position_Some)
    then show "sound parked (if \<not> sst_in_flight (crt_telemetry (update_telemetry rt i (\<lambda>state. state\<lparr>sst_config := c\<rparr>)) ! i)
       then try_with (ok_or (monotonic_checked_add now (ssc_interval c)) RTE_TimeOverflow)
         (update_telemetry rt i (\<lambda>state. state\<lparr>sst_config := c\<rparr>)) (\<lambda>deadline.
         (Ok (), update_telemetry (update_telemetry rt i (\<lambda>state. state\<lparr>sst_config := c\<rparr>)) i (\<lambda>state. state\<lparr>sst_deadline := deadline,
            sst_ready_at := saturating_sub deadline (ssc_estimated_slot c), sst_queued_at := now\<rparr>)))
       else (Ok (), update_telemetry rt i (\<lambda>state. state\<lparr>sst_config := c\<rparr>)))"
      by (auto simp: update_telemetry_def intro!: sound_time sound_intros keep) (simp_all add: service_of_def)
  qed (auto simp: result_iffs)
qed

section \<open>Selection\<close>

lemma time_to_overflow_errors:
  assumes "schedule_config_ok (nss_config node)"
  shows "time_to_overflow_us node now \<noteq> Panic" "time_to_overflow_us node now = Err e \<Longrightarrow> e = RTE_ClockRegressed"
proof -
  have "time_to_overflow_us node now = Err RTE_ClockRegressed \<or> (\<exists>t. time_to_overflow_us node now = Ok t)"
  proof (cases "nss_observed_at node \<le> now")
    case True
    then show ?thesis using time_to_overflow_nat [OF True schedule_config_okD(4) [OF assms]] by blast
  next
    case False
    then show ?thesis by (simp add: time_to_overflow_us_def checked_sub_def)
  qed
  then show "time_to_overflow_us node now \<noteq> Panic" "time_to_overflow_us node now = Err e \<Longrightarrow> e = RTE_ClockRegressed" by auto
qed

lemma node_candidate_Ok:
  "node_candidate node now = Ok (Some c) \<Longrightarrow> \<not> nss_in_flight node \<and> wc_work_id c = nss_work_id node \<and>
     wc_class c = (if recovering node then TC_Control else TC_Measurement)"
  by (auto simp: node_candidate_def result_iffs split: if_splits)

lemma node_candidates_Ok:
  "node_candidates now nodes = Ok cs \<Longrightarrow> c \<in> set cs \<Longrightarrow> \<exists>node\<in>set nodes. node_candidate node now = Ok (Some c)"
  by (induction nodes arbitrary: cs) (auto simp: result_iffs split: option.splits)

lemma node_candidates_errors:
  assumes "\<forall>node\<in>set nodes. schedule_config_ok (nss_config node)"
  shows "node_candidates now nodes \<noteq> Panic \<and> (node_candidates now nodes = Err e \<longrightarrow> e = RTE_ClockRegressed)"
  using assms
proof (induction nodes)
  case (Cons node nodes)
  then have "node_candidate node now \<noteq> Panic \<and> (\<forall>e. node_candidate node now = Err e \<longrightarrow> e = RTE_ClockRegressed)"
    using time_to_overflow_errors [of node now] by (auto simp: node_candidate_def result_iffs)
  with Cons show ?case by (auto simp: result_iffs)
qed simp

text \<open>What a candidate stands for.\<close>

definition candidate_for :: "ChannelRuntime \<Rightarrow> WorkCandidate \<Rightarrow> ChannelDispatch \<Rightarrow> bool" where
  "candidate_for rt c dispatch \<longleftrightarrow>
     (case wc_class c of
        TC_Control \<Rightarrow> \<exists>node\<in>set (crt_nodes rt). \<not> nss_in_flight node \<and> recovering node \<and> wc_work_id c = nss_work_id node \<and>
          dispatch = CD_Recovery (recovery_of node)
      | TC_Measurement \<Rightarrow> \<exists>node\<in>set (crt_nodes rt). \<not> nss_in_flight node \<and> \<not> recovering node \<and> wc_work_id c = nss_work_id node \<and>
          dispatch = CD_Measurement (measurement_of node)
      | TC_TimeSync \<Rightarrow> \<exists>s\<in>set (crt_time_sync rt). \<not> sst_in_flight s \<and> wc_work_id c = sst_work_id s \<and> dispatch = CD_TimeSync (service_of s)
      | TC_Telemetry \<Rightarrow> \<exists>s\<in>set (crt_telemetry rt). \<not> sst_in_flight s \<and> wc_work_id c = sst_work_id s \<and> dispatch = CD_Telemetry (service_of s)
      | _ \<Rightarrow> False)"

lemma node_candidate_for:
  "node_candidate node now = Ok (Some c) \<Longrightarrow> node \<in> set (crt_nodes rt) \<Longrightarrow> \<exists>d. candidate_for rt c d"
  by (drule node_candidate_Ok) (auto simp: candidate_for_def)

lemma service_candidates_in: "c \<in> set (service_candidates rt f states) \<Longrightarrow> \<exists>s\<in>set states. f s = Some c"
  by (auto simp: service_candidates_def List.map_filter_def split: if_splits)

lemma service_candidate_for:
  "time_sync_candidate s = Some c \<Longrightarrow> s \<in> set (crt_time_sync rt) \<Longrightarrow> candidate_for rt c (CD_TimeSync (service_of s))"
  "telemetry_candidate s = Some c \<Longrightarrow> s \<in> set (crt_telemetry rt) \<Longrightarrow> candidate_for rt c (CD_Telemetry (service_of s))"
  by (auto simp: time_sync_candidate_def telemetry_candidate_def candidate_for_def split: if_splits)

lemma work_candidate_for:
  assumes "work_candidates rt now = Ok cs" "c \<in> set cs"
  shows "\<exists>d. candidate_for rt c d"
proof -
  from assms obtain ns where n: "node_candidates now (crt_nodes rt) = Ok ns"
    and "c \<in> set ns \<union> set (service_candidates rt time_sync_candidate (crt_time_sync rt))
             \<union> set (service_candidates rt telemetry_candidate (crt_telemetry rt))"
    by (auto simp: work_candidates_def result_iffs)
  then consider "c \<in> set ns" | "c \<in> set (service_candidates rt time_sync_candidate (crt_time_sync rt))"
    | "c \<in> set (service_candidates rt telemetry_candidate (crt_telemetry rt))" by blast
  then show ?thesis
    by cases (use node_candidates_Ok [OF n] node_candidate_for service_candidates_in service_candidate_for in blast)+
qed

lemma dispatch_selected_Ok:
  assumes ok: "runtime_ok parked rt" and a: "crt_active_dispatch rt = None" and c: "candidate_for rt c d"
    and sel: "sw_work_id sel = wc_work_id c" "sw_class sel = wc_class c"
  shows "\<exists>rt'. dispatch_selected rt sel = (Ok d, rt') \<and> runtime_ok parked (rt'\<lparr>crt_active_dispatch := Some d\<rparr>)"
proof -
  from ok have dist: "distinct (map nss_work_id (crt_nodes rt))" "distinct (map sst_work_id (crt_time_sync rt))"
    "distinct (map sst_work_id (crt_telemetry rt))" by (auto simp: runtime_ok_def runtime_ids_ok_def work_ids_def)
  have node: "runtime_ok parked (node_step rt i ((crt_nodes rt ! i)\<lparr>nss_in_flight := True\<rparr>) (Some e))"
    if "i < length (crt_nodes rt)" "\<not> nss_in_flight (crt_nodes rt ! i)"
      "e = (if recovering (crt_nodes rt ! i) then CD_Recovery (recovery_of (crt_nodes rt ! i))
            else CD_Measurement (measurement_of (crt_nodes rt ! i)))" for i e
    using that by (intro take_step [OF ok _ a] renewed_self [OF ok]) (simp_all add: recovery_of_def measurement_of_def)
  have ts: "runtime_ok parked (rt\<lparr>crt_time_sync := (crt_time_sync rt)[i := (crt_time_sync rt ! i)\<lparr>sst_in_flight := True\<rparr>],
      crt_active_dispatch := Some (CD_TimeSync (service_of (crt_time_sync rt ! i)))\<rparr>)" if "i < length (crt_time_sync rt)" for i
    using that a by (intro time_sync_step [OF ok]) (auto simp: service_of_def)
  have tl: "runtime_ok parked (rt\<lparr>crt_telemetry := (crt_telemetry rt)[i := (crt_telemetry rt ! i)\<lparr>sst_in_flight := True\<rparr>],
      crt_active_dispatch := Some (CD_Telemetry (service_of (crt_telemetry rt ! i)))\<rparr>)" if "i < length (crt_telemetry rt)" for i
    using that a by (intro telemetry_step [OF ok]) (auto simp: service_of_def)
  show ?thesis
  proof (cases "wc_class c")
    case TC_Control
    with c obtain i where i: "i < length (crt_nodes rt)" "\<not> nss_in_flight (crt_nodes rt ! i)" "recovering (crt_nodes rt ! i)"
      "wc_work_id c = nss_work_id (crt_nodes rt ! i)" "d = CD_Recovery (recovery_of (crt_nodes rt ! i))"
      by (auto simp: candidate_for_def in_set_conv_nth)
    with position_distinct [OF dist(1) i(1)] sel TC_Control node [OF i(1,2), of d] show ?thesis
      by (auto simp: dispatch_selected_def Let_def as_node_step recovery_of_def)
  next
    case TC_Measurement
    with c obtain i where i: "i < length (crt_nodes rt)" "\<not> nss_in_flight (crt_nodes rt ! i)" "\<not> recovering (crt_nodes rt ! i)"
      "wc_work_id c = nss_work_id (crt_nodes rt ! i)" "d = CD_Measurement (measurement_of (crt_nodes rt ! i))"
      by (auto simp: candidate_for_def in_set_conv_nth)
    with position_distinct [OF dist(1) i(1)] sel TC_Measurement node [OF i(1,2), of d] show ?thesis
      by (auto simp: dispatch_selected_def Let_def as_node_step measurement_of_def)
  next
    case TC_TimeSync
    with c obtain i where i: "i < length (crt_time_sync rt)" "wc_work_id c = sst_work_id (crt_time_sync rt ! i)"
      "d = CD_TimeSync (service_of (crt_time_sync rt ! i))"
      by (auto simp: candidate_for_def in_set_conv_nth)
    with position_distinct [OF dist(2) i(1)] sel TC_TimeSync ts [OF i(1)] show ?thesis
      by (auto simp: dispatch_selected_def Let_def update_time_sync_def service_of_def)
  next
    case TC_Telemetry
    with c obtain i where i: "i < length (crt_telemetry rt)" "wc_work_id c = sst_work_id (crt_telemetry rt ! i)"
      "d = CD_Telemetry (service_of (crt_telemetry rt ! i))"
      by (auto simp: candidate_for_def in_set_conv_nth)
    with position_distinct [OF dist(3) i(1)] sel TC_Telemetry tl [OF i(1)] show ?thesis
      by (auto simp: dispatch_selected_def Let_def update_telemetry_def service_of_def)
  qed (use c in \<open>auto simp: candidate_for_def\<close>)
qed

lemma select_no_panic: "select policy ctx cs \<noteq> Panic"
proof (cases "list_all (candidate_ok policy) cs")
  case True
  then show ?thesis by (simp add: select_valid split: option.split prod.split)
next
  case False
  then obtain e where "select_from policy ctx 0 None cs = Err e"
    using select_from_invalid [of cs policy ctx 0 None] by (auto simp: list_all_iff)
  then show ?thesis by (simp add: select_def)
qed

lemma select_candidate:
  "select policy ctx cs = Ok (Some sel) \<Longrightarrow> \<exists>c\<in>set cs. sw_work_id sel = wc_work_id c \<and> sw_class sel = wc_class c"
  by (auto simp: select_def result_iffs index_at_def split: option.splits if_splits intro!: bexI [OF _ nth_mem])

lemma select_work_sound:
  assumes ok: "runtime_ok parked rt"
  shows "sound parked (select_work rt now)"
proof (cases "crt_active_dispatch rt")
  case None
  have e: "work_candidates rt now \<noteq> Panic" "work_candidates rt now \<noteq> Err RTE_InvariantViolation"
    using ok node_candidates_errors [of "crt_nodes rt" now]
    by (auto simp: work_candidates_def result_iffs runtime_ok_def runtime_ids_ok_def)
  have idle: "\<not> (None :: ChannelDispatch option) \<noteq> None" by simp
  show ?thesis unfolding select_work_def None if_not_P [OF idle]
  proof (rule sound_try [OF ok e], rule sound_try [OF ok])
    fix cs sel assume cs: "work_candidates rt now = Ok cs"
      and s: "map_err RTE_Scheduler (select (crt_scheduler rt) (schedule_context rt now) cs) = Ok sel"
    show "sound parked (case sel of None \<Rightarrow> (Ok None, rt)
      | Some selected \<Rightarrow> let (dispatched, self) = dispatch_selected rt selected in
          try_with dispatched self (\<lambda>dispatch. (Ok (Some dispatch), self\<lparr>crt_active_dispatch := Some dispatch\<rparr>)))"
    proof (cases sel)
      case (Some w)
      obtain c where c: "c \<in> set cs" "sw_work_id w = wc_work_id c" "sw_class w = wc_class c"
        using select_candidate s Some by (force simp: result_iffs)
      obtain d where "candidate_for rt c d" using work_candidate_for [OF cs c(1)] by blast
      from dispatch_selected_Ok [OF ok None this c(2,3)] Some show ?thesis by (auto intro: sound_intros)
    qed (simp add: ok sound_intros)
  qed (auto simp: result_iffs select_no_panic)
qed (simp add: select_work_def ok sound_intros)

lemma select_measurement_sound:
  assumes ok: "runtime_ok parked rt"
  shows "sound parked (select_measurement rt now)"
proof (cases "crt_time_sync rt \<noteq> [] \<or> crt_telemetry rt \<noteq> [] \<or> crt_active_dispatch rt \<noteq> None")
  case False
  then have a: "crt_active_dispatch rt = None" and f: "\<not> (crt_time_sync rt \<noteq> [] \<or> crt_telemetry rt \<noteq> [])" by auto
  have e: "node_candidates now (crt_nodes rt) \<noteq> Panic" "node_candidates now (crt_nodes rt) \<noteq> Err RTE_InvariantViolation"
    using ok node_candidates_errors [of "crt_nodes rt" now] by (auto simp: runtime_ok_def runtime_ids_ok_def)
  have step: "sound parked (case sel of None \<Rightarrow> (Ok None, rt)
      | Some selected \<Rightarrow>
          if sw_class selected \<noteq> TC_Measurement then (Ok None, rt)
          else try_with (ok_or (position (\<lambda>node. nss_work_id node = sw_work_id selected) (crt_nodes rt)) RTE_InvariantViolation) rt (\<lambda>index.
            let node = crt_nodes rt ! index in
            if nss_in_flight node then (Err RTE_InvariantViolation, rt)
            else let dispatch = \<lparr>md_work_id = nss_work_id node, md_node_address = nss_address node,
                       md_max_samples = nsc_max_sample_chunk_samples (nss_config node)\<rparr>
                 in (Ok (Some dispatch), (update_node rt index (\<lambda>node. node\<lparr>nss_in_flight := True\<rparr>))
                       \<lparr>crt_active_dispatch := Some (CD_Measurement dispatch)\<rparr>)))"
    if cs: "node_candidates now (crt_nodes rt) = Ok cs" and s: "select policy ctx cs = Ok sel" for cs sel policy ctx
  proof (cases "\<exists>w. sel = Some w \<and> sw_class w = TC_Measurement")
    case True
    then obtain w where w: "sel = Some w" "sw_class w = TC_Measurement" by blast
    then obtain c where c: "c \<in> set cs" "sw_work_id w = wc_work_id c" "wc_class c = TC_Measurement"
      using select_candidate [of policy ctx cs w] s by auto
    obtain i where i: "i < length (crt_nodes rt)" "node_candidate (crt_nodes rt ! i) now = Ok (Some c)"
      using node_candidates_Ok [OF cs c(1)] by (auto simp: in_set_conv_nth)
    note n = node_candidate_Ok [OF i(2)]
    from n c(3) have nr: "\<not> recovering (crt_nodes rt ! i)" by (auto split: if_splits)
    have dist: "distinct (map nss_work_id (crt_nodes rt))" using ok by (auto simp: runtime_ok_def runtime_ids_ok_def work_ids_def)
    have "runtime_ok parked (node_step rt i ((crt_nodes rt ! i)\<lparr>nss_in_flight := True\<rparr>)
        (Some (CD_Measurement (measurement_of (crt_nodes rt ! i)))))"
      using i n nr by (intro take_step [OF ok _ a] renewed_self [OF ok]) (simp_all add: recovery_of_def measurement_of_def)
    then show ?thesis using position_distinct [OF dist i(1)] n c(2) w
      by (auto simp: Let_def as_node_step measurement_of_def intro!: sound_intros)
  qed (use ok in \<open>auto split: option.split intro: sound_intros\<close>)
  show ?thesis unfolding select_measurement_def a if_not_P [OF f]
    by (auto intro!: sound_try [OF ok] step simp: e result_iffs select_no_panic)
qed (auto simp: select_measurement_def ok intro!: sound_intros)

lemma select_shutdown_sound:
  assumes ok: "runtime_ok parked rt"
  shows "sound parked (select_shutdown_measurement rt address now)"
proof (cases "crt_active_dispatch rt")
  case None
  have "runtime_ok parked (node_step rt i ((crt_nodes rt ! i)\<lparr>nss_in_flight := True\<rparr>)
        (Some (CD_Measurement (measurement_of (crt_nodes rt ! i)))))"
    if "i < length (crt_nodes rt)" "\<not> recovering (crt_nodes rt ! i)" "\<not> nss_in_flight (crt_nodes rt ! i)" for i
    using that by (intro take_step [OF ok _ None] renewed_self [OF ok]) (simp_all add: recovery_of_def measurement_of_def)
  then show ?thesis unfolding select_shutdown_measurement_def Let_def using None ok
    by (auto intro!: sound_try sound_intros simp: node_index_sound as_node_step measurement_of_def dest!: node_index_Ok)
qed (simp add: select_shutdown_measurement_def ok sound_intros)

section \<open>The line has one owner\<close>

text \<open>The calls a channel makes, in any order, and their results.\<close>

datatype RuntimeOp =
  RO_Register NodeScheduleConfig SequenceCursor MonotonicMicros | RO_Reconfigure NodeScheduleConfig MonotonicMicros
| RO_Observe ObservabilityProfile | RO_ConfigureTimeSync u8 TimeSyncScheduleConfig MonotonicMicros
| RO_ConfigureTelemetry u8 TelemetryScheduleConfig MonotonicMicros
| RO_ReconfigureTelemetry u8 TelemetryScheduleConfig MonotonicMicros
| RO_Select MonotonicMicros | RO_SelectMeasurement MonotonicMicros | RO_SelectShutdown u8 MonotonicMicros
| RO_Complete MeasurementDispatch MeasurementProgress MonotonicMicros | RO_Park MeasurementDispatch
| RO_CompleteParked MeasurementDispatch MeasurementProgress MonotonicMicros
| RO_RequireRecovery MeasurementDispatch RecoveryCause MonotonicMicros | RO_Fail MeasurementDispatch MonotonicMicros
| RO_Cancel MeasurementDispatch
| RO_CompleteRecovery RecoveryDispatch SequenceCursor SequenceCursor MonotonicMicros | RO_FailRecovery RecoveryDispatch MonotonicMicros
| RO_Recover u8 SequenceCursor MonotonicMicros | RO_Resume u8 SequenceCursor SequenceCursor MonotonicMicros
| RO_Replace u8 SequenceCursor SequenceCursor MonotonicMicros
| RO_CompleteTimeSync TimeSyncDispatch MonotonicMicros | RO_FailTimeSync TimeSyncDispatch MonotonicMicros
| RO_CancelTimeSync TimeSyncDispatch
| RO_CompleteTelemetry TelemetryDispatch MonotonicMicros | RO_FailTelemetry TelemetryDispatch MonotonicMicros
| RO_CancelTelemetry TelemetryDispatch

type_synonym runtime_result = "(ChannelDispatch option, ChannelRuntimeError) result"

definition settled :: "runtime_outcome \<Rightarrow> runtime_result \<times> ChannelRuntime" where
  "settled out = (map_ok (\<lambda>_. None) (fst out), snd out)"

definition measured :: "(ChannelRuntime, MeasurementDispatch option, ChannelRuntimeError) outcome \<Rightarrow> runtime_result \<times> ChannelRuntime" where
  "measured out = (map_ok (map_option CD_Measurement) (fst out), snd out)"

fun runtime_apply :: "ChannelRuntime \<Rightarrow> RuntimeOp \<Rightarrow> runtime_result \<times> ChannelRuntime" where
  "runtime_apply rt (RO_Register c cursor now) = settled (register_node rt c cursor now)"
| "runtime_apply rt (RO_Reconfigure c now) = settled (reconfigure_node rt c now)"
| "runtime_apply rt (RO_Observe profile) = (Ok None, set_observability rt profile)"
| "runtime_apply rt (RO_ConfigureTimeSync a c t) = settled (configure_time_sync rt a c t)"
| "runtime_apply rt (RO_ConfigureTelemetry a c t) = settled (configure_telemetry rt a c t)"
| "runtime_apply rt (RO_ReconfigureTelemetry a c t) = settled (reconfigure_telemetry rt a c t)"
| "runtime_apply rt (RO_Select now) = select_work rt now"
| "runtime_apply rt (RO_SelectMeasurement now) = measured (select_measurement rt now)"
| "runtime_apply rt (RO_SelectShutdown a now) = measured (select_shutdown_measurement rt a now)"
| "runtime_apply rt (RO_Complete d p now) = settled (complete_measurement rt d p now)"
| "runtime_apply rt (RO_Park d) = settled (park_measurement rt d)"
| "runtime_apply rt (RO_CompleteParked d p now) = settled (complete_parked_measurement rt d p now)"
| "runtime_apply rt (RO_RequireRecovery d cause now) = settled (require_recovery rt d cause now)"
| "runtime_apply rt (RO_Fail d now) = settled (fail_measurement rt d now)"
| "runtime_apply rt (RO_Cancel d) = settled (cancel_measurement rt d)"
| "runtime_apply rt (RO_CompleteRecovery d c p now) = settled (complete_recovery rt d c p now)"
| "runtime_apply rt (RO_FailRecovery d now) = settled (fail_recovery rt d now)"
| "runtime_apply rt (RO_Recover a c now) = settled (recover_node rt a c now)"
| "runtime_apply rt (RO_Resume a c p now) = settled (resume_node rt a c p now)"
| "runtime_apply rt (RO_Replace a c p now) = settled (replace_quiesced_node rt a c p now)"
| "runtime_apply rt (RO_CompleteTimeSync d now) = settled (complete_time_sync rt d now)"
| "runtime_apply rt (RO_FailTimeSync d now) = settled (fail_time_sync rt d now)"
| "runtime_apply rt (RO_CancelTimeSync d) = settled (cancel_time_sync rt d)"
| "runtime_apply rt (RO_CompleteTelemetry d now) = settled (complete_telemetry rt d now)"
| "runtime_apply rt (RO_FailTelemetry d now) = settled (fail_telemetry rt d now)"
| "runtime_apply rt (RO_CancelTelemetry d) = settled (cancel_telemetry rt d)"

text \<open>
  What the callers keep to: durations and rates are not zero by their types, storage completes what was parked, a node is
  resumed or replaced when none of its measurements waits for storage, and \<open>recover_node\<close> is for an idle line.
\<close>

fun op_allowed :: "MeasurementDispatch set \<Rightarrow> ChannelRuntime \<Rightarrow> RuntimeOp \<Rightarrow> bool" where
  "op_allowed parked rt (RO_Register c _ _) \<longleftrightarrow> nsc_output_rate c \<noteq> 0 \<and> nsc_retry_base_delay c \<noteq> 0"
| "op_allowed parked rt (RO_Reconfigure c _) \<longleftrightarrow> nsc_output_rate c \<noteq> 0 \<and> nsc_retry_base_delay c \<noteq> 0"
| "op_allowed parked rt (RO_CompleteParked d _ _) \<longleftrightarrow> d \<in> parked"
| "op_allowed parked rt (RO_Recover _ _ _) \<longleftrightarrow> crt_active_dispatch rt = None"
| "op_allowed parked rt (RO_Resume a _ _ _) \<longleftrightarrow> (\<forall>d\<in>parked. md_node_address d \<noteq> a)"
| "op_allowed parked rt (RO_Replace a _ _ _) \<longleftrightarrow> (\<forall>d\<in>parked. md_node_address d \<noteq> a)"
| "op_allowed parked rt _ \<longleftrightarrow> True"

fun parked_after :: "MeasurementDispatch set \<Rightarrow> RuntimeOp \<Rightarrow> runtime_result \<Rightarrow> MeasurementDispatch set" where
  "parked_after parked (RO_Park d) r = (if r = Ok None then insert d parked else parked)"
| "parked_after parked (RO_CompleteParked d _ _) r = (if r = Ok None \<or> r = Err RTE_StreamRegressed then parked - {d} else parked)"
| "parked_after parked _ r = parked"

lemma sound_results: "sound parked out \<Longrightarrow> sound parked (settled out)" "sound parked out' \<Longrightarrow> sound parked (measured out')"
  by (cases "fst out"; auto simp: sound_def settled_def) (cases "fst out'"; auto simp: sound_def measured_def)

lemma soundD: "sound parked out \<Longrightarrow> out = (r, rt') \<Longrightarrow> runtime_ok parked rt' \<and> r \<noteq> Panic \<and> r \<noteq> Err RTE_InvariantViolation"
  by (auto simp: sound_def)

lemma settled_result: "settled out = (r, rt') \<Longrightarrow> fst out = Ok () \<longleftrightarrow> r = Ok None" "settled out = (r, rt') \<Longrightarrow> fst out = Err e \<longleftrightarrow> r = Err e"
  by (cases "fst out"; force simp: settled_def)+

lemma runtime_apply_sound:
  assumes "runtime_ok parked rt" "op_allowed parked rt op" "runtime_apply rt op = (r, rt')"
  shows "runtime_ok (parked_after parked op r) rt' \<and> r \<noteq> Panic \<and> r \<noteq> Err RTE_InvariantViolation"
proof (cases "(\<exists>d. op = RO_Park d) \<or> (\<exists>d p now. op = RO_CompleteParked d p now)")
  case True
  then consider d where "op = RO_Park d" | d p now where "op = RO_CompleteParked d p now" by blast
  then show ?thesis
  proof cases
    case 1
    with assms(3) have e: "settled (park_measurement rt d) = (r, rt')" by simp
    have "parked_after parked op r = (if fst (park_measurement rt d) = Ok () then insert d parked else parked)"
      using settled_result(1) [OF e] 1 by simp
    then show ?thesis using soundD [OF sound_results(1) [OF park_sound [OF assms(1), of d]] e] by simp
  next
    case 2
    with assms(3) have e: "settled (complete_parked_measurement rt d p now) = (r, rt')" by simp
    let ?out = "complete_parked_measurement rt d p now"
    have "parked_after parked op r = (if fst ?out = Ok () \<or> fst ?out = Err RTE_StreamRegressed then parked - {d} else parked)"
      using settled_result [OF e] 2 by simp
    then show ?thesis using soundD [OF sound_results(1) [OF complete_parked_sound [OF assms(1) _ refl]] e] assms(2) 2 by simp
  qed
next
  case False
  then have p: "parked_after parked op r = parked" by (cases op) auto
  have o: "runtime_ok parked (set_observability rt profile)" for profile
    using assms(1) by (simp add: set_observability_def runtime_ok_def runtime_ids_ok_def runtime_owners_ok_def active_known_def
        work_ids_def cong: ChannelDispatch.case_cong)
  note sounds = register_sound reconfigure_sound configure_time_sync_sound configure_telemetry_sound reconfigure_telemetry_sound
    select_work_sound select_measurement_sound select_shutdown_sound complete_measurement_sound require_recovery_sound
    fail_measurement_sound cancel_sound complete_recovery_sound fail_recovery_sound recover_node_sound resume_sound
    time_sync_operations_sound telemetry_operations_sound
  have "sound parked (runtime_apply rt op)"
    using assms(2) False by (cases op) (auto intro!: sound_results sounds [OF assms(1)] sound_intros o)
  from soundD [OF this assms(3)] show ?thesis unfolding p .
qed

text \<open>
  The specification: a token. A selection takes it when nobody has it; whoever has it gives it back, by one of the calls
  that name its dispatch; nothing else moves it.
\<close>

fun settles :: "RuntimeOp \<Rightarrow> ChannelDispatch option" where
  "settles (RO_Complete d _ _) = Some (CD_Measurement d)"
| "settles (RO_Park d) = Some (CD_Measurement d)"
| "settles (RO_RequireRecovery d _ _) = Some (CD_Measurement d)"
| "settles (RO_Fail d _) = Some (CD_Measurement d)"
| "settles (RO_Cancel d) = Some (CD_Measurement d)"
| "settles (RO_CompleteRecovery d _ _ _) = Some (CD_Recovery d)"
| "settles (RO_FailRecovery d _) = Some (CD_Recovery d)"
| "settles (RO_CompleteTimeSync d _) = Some (CD_TimeSync d)"
| "settles (RO_FailTimeSync d _) = Some (CD_TimeSync d)"
| "settles (RO_CancelTimeSync d) = Some (CD_TimeSync d)"
| "settles (RO_CompleteTelemetry d _) = Some (CD_Telemetry d)"
| "settles (RO_FailTelemetry d _) = Some (CD_Telemetry d)"
| "settles (RO_CancelTelemetry d) = Some (CD_Telemetry d)"
| "settles _ = None"

definition token_step :: "ChannelDispatch option \<Rightarrow> RuntimeOp \<Rightarrow> runtime_result \<Rightarrow> ChannelDispatch option \<Rightarrow> bool" where
  "token_step owner op r owner' \<longleftrightarrow>
     (case r of
        Ok (Some d) \<Rightarrow> owner = None \<and> owner' = Some d
      | Ok None \<Rightarrow> if settles op = None then owner' = owner else owner = settles op \<and> owner' = None
      | Err e \<Rightarrow> if settles op \<noteq> None \<and> e = RTE_StreamRegressed then owner = settles op \<and> owner' = None else owner' = owner
      | Panic \<Rightarrow> False)"

lemma active_next [simp]: "crt_active_dispatch (rt\<lparr>crt_next_work_id := n\<rparr>) = crt_active_dispatch rt" by simp

lemma active_updates [simp]:
  "crt_active_dispatch (update_node rt i f) = crt_active_dispatch rt" "crt_active_dispatch (update_telemetry rt i g) = crt_active_dispatch rt"
  "crt_active_dispatch (update_time_sync rt i g) = crt_active_dispatch rt" "crt_active_dispatch (release rt) = None"
  by (simp_all add: update_node_def update_telemetry_def update_time_sync_def release_def)

text \<open>Outcomes after which the line is as \<open>owner\<close> says when it succeeds, and as before otherwise.\<close>

definition moves :: "ChannelRuntime \<Rightarrow> ChannelDispatch option \<Rightarrow> runtime_outcome \<Rightarrow> bool" where
  "moves rt owner out \<longleftrightarrow>
     (case fst out of
        Ok _ \<Rightarrow> crt_active_dispatch (snd out) = owner
      | Err e \<Rightarrow> e \<noteq> RTE_StreamRegressed \<and> crt_active_dispatch (snd out) = crt_active_dispatch rt
      | Panic \<Rightarrow> True)"

lemma moves_try:
  assumes "crt_active_dispatch rt' = crt_active_dispatch rt" "r \<noteq> Err RTE_StreamRegressed" "\<And>v. r = Ok v \<Longrightarrow> moves rt owner (k v)"
  shows "moves rt owner (try_with r rt' k)"
  using assms by (cases r) (auto simp: moves_def)

lemma moves_with_work_id:
  assumes "\<And>n w. moves rt owner (k (rt\<lparr>crt_next_work_id := n\<rparr>) w)"
  shows "moves rt owner (with_work_id rt k)"
  by (rule with_work_id_cases [of rt k]) (use assms in \<open>simp_all add: moves_def\<close>)

lemma moves_intros:
  "crt_active_dispatch rt' = owner \<Longrightarrow> moves rt owner (Ok (), rt')"
  "crt_active_dispatch rt' = crt_active_dispatch rt \<Longrightarrow> e \<noteq> RTE_StreamRegressed \<Longrightarrow> moves rt owner (Err e, rt')"
  by (simp_all add: moves_def)

lemma index_not_regressed:
  "schedule_config_validate c \<noteq> Err RTE_StreamRegressed" "node_index rt a \<noteq> Err RTE_StreamRegressed"
  "in_flight_node_index rt m \<noteq> Err RTE_StreamRegressed" "active_node_index rt m \<noteq> Err RTE_StreamRegressed"
  "active_recovery_index rt d \<noteq> Err RTE_StreamRegressed" "service_index states d \<noteq> Err RTE_StreamRegressed"
  "active_time_sync_index rt d \<noteq> Err RTE_StreamRegressed" "active_telemetry_index rt d \<noteq> Err RTE_StreamRegressed"
  "time_sync_config_validate sc \<noteq> Err RTE_StreamRegressed" "telemetry_config_validate sc \<noteq> Err RTE_StreamRegressed"
  "progress_validate p \<noteq> Err RTE_StreamRegressed" "retry_delay c k \<noteq> Err RTE_StreamRegressed"
  by (auto simp: schedule_config_validate_def in_flight_node_index_def active_node_index_def active_recovery_index_def service_index_def
      active_time_sync_index_def active_telemetry_index_def time_sync_config_validate_def telemetry_config_validate_def
      progress_validate_def retry_delay_def exponential_delay_def result_iffs Let_def dest: node_index_Err split: if_splits)

lemmas moves_rules = moves_try moves_with_work_id moves_intros

lemma moves_kept:
  "moves rt (crt_active_dispatch rt) (register_node rt c cursor now)"
  "moves rt (crt_active_dispatch rt) (reconfigure_node rt c now)"
  "moves rt (crt_active_dispatch rt) (configure_time_sync rt a sc t)"
  "moves rt (crt_active_dispatch rt) (configure_telemetry rt a sc t)"
  "moves rt (crt_active_dispatch rt) (reconfigure_telemetry rt a sc t)"
  "moves rt (crt_active_dispatch rt) (resume_node rt a cursor produced now)"
  "moves rt (crt_active_dispatch rt) (replace_quiesced_node rt a cursor produced now)"
  "moves rt None (recover_node rt a cursor now)"
  unfolding register_node_def reconfigure_node_def configure_time_sync_def configure_telemetry_def reconfigure_telemetry_def
    resume_node_def replace_quiesced_node_def recover_node_def Let_def
  by (auto intro!: moves_rules simp: index_not_regressed result_iffs)

lemma moves_back:
  "moves rt None (park_measurement rt m)" "moves rt None (require_recovery rt m cause now)" "moves rt None (fail_measurement rt m now)"
  "moves rt None (cancel_measurement rt m)" "moves rt None (complete_recovery rt d cursor produced now)" "moves rt None (fail_recovery rt d now)"
  "moves rt None (complete_time_sync rt d now)" "moves rt None (fail_time_sync rt d now)" "moves rt None (cancel_time_sync rt d)"
  "moves rt None (complete_telemetry rt d now)" "moves rt None (fail_telemetry rt d now)" "moves rt None (cancel_telemetry rt d)"
  unfolding park_measurement_def require_recovery_def fail_measurement_def cancel_measurement_def complete_recovery_def fail_recovery_def
    complete_time_sync_def fail_time_sync_def cancel_time_sync_def complete_telemetry_def fail_telemetry_def cancel_telemetry_def Let_def
  by (auto intro!: moves_rules simp: index_not_regressed result_iffs)

lemma stale_refused:
  assumes "settles op = Some d" "crt_active_dispatch rt \<noteq> Some d"
  shows "\<exists>e. runtime_apply rt op = (Err e, rt) \<and> e \<noteq> RTE_StreamRegressed"
  using assms
  by (cases op) (auto simp: settled_def complete_measurement_def park_measurement_def require_recovery_def fail_measurement_def
      cancel_measurement_def complete_recovery_def fail_recovery_def complete_time_sync_def fail_time_sync_def cancel_time_sync_def
      complete_telemetry_def fail_telemetry_def cancel_telemetry_def active_node_index_def active_recovery_index_def
      active_time_sync_index_def active_telemetry_index_def progress_validate_def)

lemma progressed_active:
  assumes "measurement_progressed rt i progress now settle = (r, rt')" "\<And>x. crt_active_dispatch (settle x) = f (crt_active_dispatch x)"
  shows "(case r of Ok _ \<Rightarrow> crt_active_dispatch rt' = f (crt_active_dispatch rt)
    | Err e \<Rightarrow> crt_active_dispatch rt' = (if e = RTE_StreamRegressed then f (crt_active_dispatch rt) else crt_active_dispatch rt)
    | Panic \<Rightarrow> True)"
proof -
  let ?node = "crt_nodes rt ! i"
  have ready: "next_measurement_ready_at c p now \<noteq> Err RTE_StreamRegressed" for c p
    by (auto simp: next_measurement_ready_at_def result_iffs Let_def sub_unchecked_def div_unchecked_def split: if_splits)
  show ?thesis
  proof (cases "mp_received progress < nss_received ?node \<or> mp_produced progress < nss_observed_produced ?node")
    case True
    with assms show ?thesis by (auto simp: measurement_progressed_def)
  next
    case False
    have "moves rt (f (crt_active_dispatch rt)) (measurement_progressed rt i progress now settle)"
      unfolding measurement_progressed_def Let_def if_not_P [OF False]
      by (auto intro!: moves_rules simp: ready result_iffs assms(2))
    with assms(1) show ?thesis by (auto simp: moves_def split: result.splits)
  qed
qed

text \<open>Outcomes of a selection: a dispatch takes an idle line, anything else leaves the line alone.\<close>

definition picks :: "('a \<Rightarrow> ChannelDispatch) \<Rightarrow> ChannelRuntime \<Rightarrow> (ChannelRuntime, 'a option, ChannelRuntimeError) outcome \<Rightarrow> bool" where
  "picks g rt out \<longleftrightarrow>
     (case fst out of
        Ok (Some d) \<Rightarrow> crt_active_dispatch rt = None \<and> crt_active_dispatch (snd out) = Some (g d)
      | Panic \<Rightarrow> True
      | _ \<Rightarrow> crt_active_dispatch (snd out) = crt_active_dispatch rt)"

lemma picks_try:
  assumes "crt_active_dispatch rt' = crt_active_dispatch rt" "\<And>v. r = Ok v \<Longrightarrow> picks g rt (k v)"
  shows "picks g rt (try_with r rt' k)"
  using assms by (cases r) (auto simp: picks_def)

lemma picks_intros:
  "crt_active_dispatch rt' = crt_active_dispatch rt \<Longrightarrow> picks g rt (Ok None, rt')"
  "crt_active_dispatch rt' = crt_active_dispatch rt \<Longrightarrow> picks g rt (Err e, rt')"
  "crt_active_dispatch rt = None \<Longrightarrow> crt_active_dispatch rt' = Some (g d) \<Longrightarrow> picks g rt (Ok (Some d), rt')"
  by (simp_all add: picks_def)

lemma dispatch_selected_active: "dispatch_selected rt sel = (r, rt') \<Longrightarrow> crt_active_dispatch rt' = crt_active_dispatch rt"
proof -
  have "crt_active_dispatch (snd (dispatch_selected rt sel)) = crt_active_dispatch rt"
    by (cases "sw_class sel") (simp_all add: dispatch_selected_def Let_def try_with_ok_or split: option.split)
  then show "dispatch_selected rt sel = (r, rt') \<Longrightarrow> crt_active_dispatch rt' = crt_active_dispatch rt" by simp
qed

lemma selections_pick:
  "picks (\<lambda>d. d) rt (select_work rt now)" "picks CD_Measurement rt (select_measurement rt now)"
  "picks CD_Measurement rt (select_shutdown_measurement rt a now)"
  unfolding select_work_def select_measurement_def select_shutdown_measurement_def Let_def
  by (auto intro!: picks_try picks_intros split: option.split prod.split dest: dispatch_selected_active)

lemma measured_picks: "picks CD_Measurement rt out \<Longrightarrow> picks (\<lambda>d. d) rt (measured out)"
  by (auto simp: picks_def measured_def split: result.splits option.splits)

lemma token_kept: "settles op = None \<Longrightarrow> token_step owner op (Err e) owner" "settles op = None \<Longrightarrow> token_step owner op (Ok None) owner"
  by (simp_all add: token_step_def)

lemma token_of_moves:
  assumes "moves rt owner out" "settled out = (r, rt')" "r \<noteq> Panic"
  shows "settles op = None \<Longrightarrow> owner = crt_active_dispatch rt \<Longrightarrow> token_step (crt_active_dispatch rt) op r (crt_active_dispatch rt')"
    "settles op = crt_active_dispatch rt \<Longrightarrow> owner = None \<Longrightarrow> token_step (crt_active_dispatch rt) op r (crt_active_dispatch rt')"
  using assms by (cases out; cases "fst out"; auto simp: moves_def settled_def token_step_def)+

lemma token_of_picks:
  assumes "picks (\<lambda>d. d) rt (r, rt')" "r \<noteq> Panic" "settles op = None"
  shows "token_step (crt_active_dispatch rt) op r (crt_active_dispatch rt')"
  using assms by (auto simp: picks_def token_step_def split: result.splits option.splits)

lemma token_complete:
  assumes "settled (complete_measurement rt d p now) = (r, rt')" "r \<noteq> Panic" "crt_active_dispatch rt = Some (CD_Measurement d)"
  shows "token_step (crt_active_dispatch rt) (RO_Complete d p now) r (crt_active_dispatch rt')"
proof -
  have step: "token_step (crt_active_dispatch rt) (RO_Complete d p now) (map_ok (\<lambda>_. None) v) (crt_active_dispatch x)"
    if "measurement_progressed rt i q now release = (v, x)" "v \<noteq> Panic" for i q v x
    using progressed_active [OF that(1), of "\<lambda>_. None"] that(2) assms(3) by (cases v) (auto simp: token_step_def)
  obtain v x where out: "complete_measurement rt d p now = (v, x)" by (cases "complete_measurement rt d p now")
  with assms have r: "r = map_ok (\<lambda>_. None) v" "rt' = x" "v \<noteq> Panic" by (auto simp: settled_def)
  show ?thesis
  proof (cases "progress_validate p")
    case (Ok q)
    show ?thesis
    proof (cases "active_node_index rt d")
      case i: (Ok i)
      with out Ok r step show ?thesis by (simp add: complete_measurement_def)
    next
      case (Err e)
      with out Ok r index_not_regressed(4) [of rt d] show ?thesis by (auto simp: complete_measurement_def token_step_def)
    qed (use index_errors(3) in simp)
  next
    case (Err e)
    with out r index_not_regressed(11) [of p] show ?thesis by (auto simp: complete_measurement_def token_step_def)
  qed simp
qed

lemma token_complete_parked:
  assumes "settled (complete_parked_measurement rt d p now) = (r, rt')" "r \<noteq> Panic"
  shows "token_step (crt_active_dispatch rt) (RO_CompleteParked d p now) r (crt_active_dispatch rt')"
proof -
  have step: "token_step (crt_active_dispatch rt) (RO_CompleteParked d p now) (map_ok (\<lambda>_. None) v) (crt_active_dispatch x)"
    if "measurement_progressed rt i q now (\<lambda>self. self) = (v, x)" "v \<noteq> Panic" for i q v x
    using progressed_active [OF that(1), of "\<lambda>owner. owner"] that(2) by (cases v) (auto simp: token_step_def)
  obtain v x where out: "complete_parked_measurement rt d p now = (v, x)" by (cases "complete_parked_measurement rt d p now")
  with assms have r: "r = map_ok (\<lambda>_. None) v" "rt' = x" "v \<noteq> Panic" by (auto simp: settled_def)
  with out step show ?thesis unfolding complete_parked_measurement_def
    by (cases "progress_validate p"; cases "in_flight_node_index rt d") (auto intro!: token_kept split: if_splits)
qed

fun plain_op :: "RuntimeOp \<Rightarrow> bool" where
  "plain_op (RO_Observe _) = False"
| "plain_op (RO_Select _) = False"
| "plain_op (RO_SelectMeasurement _) = False"
| "plain_op (RO_SelectShutdown _ _) = False"
| "plain_op (RO_Complete _ _ _) = False"
| "plain_op (RO_CompleteParked _ _ _) = False"
| "plain_op _ = True"

lemma plain_op_moves:
  assumes "op_allowed parked rt op" "plain_op op"
  shows "\<exists>out. runtime_apply rt op = settled out \<and> moves rt (if settles op = None then crt_active_dispatch rt else None) out"
proof (cases op)
  case (RO_Recover a c now)
  then have "crt_active_dispatch rt = None" using assms(1) by simp
  with RO_Recover show ?thesis using moves_kept(8) [of rt a c now] by (intro exI [of _ "recover_node rt a c now"]) simp
qed (insert assms(2), simp_all del: split_paired_Ex, (rule exI, rule conjI, rule refl, rule moves_kept(1-7) moves_back)+)

lemma selections_token:
  assumes "runtime_apply rt op = (r, rt')" "r \<noteq> Panic" "\<not> plain_op op"
    "\<And>d p now. op \<noteq> RO_Complete d p now" "\<And>d p now. op \<noteq> RO_CompleteParked d p now"
  shows "token_step (crt_active_dispatch rt) op r (crt_active_dispatch rt')"
proof (cases op)
  case (RO_Observe profile)
  with assms(1) show ?thesis by (auto simp: set_observability_def token_step_def)
next
  case (RO_Select now)
  with assms(1,2) selections_pick(1) [of rt now] show ?thesis by (intro token_of_picks) simp_all
next
  case (RO_SelectMeasurement now)
  with assms(1,2) measured_picks [OF selections_pick(2), of rt now] show ?thesis by (intro token_of_picks) simp_all
next
  case (RO_SelectShutdown a now)
  with assms(1,2) measured_picks [OF selections_pick(3), of rt a now] show ?thesis by (intro token_of_picks) simp_all
qed (use assms(3-5) in simp_all)

lemma runtime_apply_token:
  assumes "op_allowed parked rt op" "runtime_apply rt op = (r, rt')" "r \<noteq> Panic"
  shows "token_step (crt_active_dispatch rt) op r (crt_active_dispatch rt')"
proof (cases "settles op = None \<or> settles op = crt_active_dispatch rt")
  case True
  consider (plain) "plain_op op" | (complete) d p now where "op = RO_Complete d p now"
    | (parked) d p now where "op = RO_CompleteParked d p now"
    | (other) "\<not> plain_op op" "\<And>d p now. op \<noteq> RO_Complete d p now" "\<And>d p now. op \<noteq> RO_CompleteParked d p now"
    by (cases op) auto
  then show ?thesis
  proof cases
    case plain
    obtain out where out: "runtime_apply rt op = settled out" "moves rt (if settles op = None then crt_active_dispatch rt else None) out"
      using plain_op_moves [OF assms(1) plain] by blast
    then have s: "settled out = (r, rt')" using assms(2) by simp
    show ?thesis
    proof (cases "settles op = None")
      case True
      with token_of_moves(1) [OF out(2) s assms(3)] show ?thesis by simp
    next
      case False
      with True token_of_moves(2) [OF out(2) s assms(3)] show ?thesis by simp
    qed
  next
    case complete
    with True assms show ?thesis by (auto intro!: token_complete)
  next
    case parked
    with assms show ?thesis by (auto intro!: token_complete_parked)
  next
    case other
    then show ?thesis by (rule selections_token [OF assms(2,3)])
  qed
next
  case False
  then obtain d where "settles op = Some d" "crt_active_dispatch rt \<noteq> Some d" by (cases "settles op") auto
  from stale_refused [OF this] assms(2) show ?thesis by (auto simp: token_step_def)
qed

text \<open>Histories of a runtime: calls with their results, and the measurements that wait for storage.\<close>

inductive runtime_history ::
  "ChannelRuntime \<Rightarrow> (RuntimeOp \<times> runtime_result) list \<Rightarrow> MeasurementDispatch set \<Rightarrow> ChannelRuntime \<Rightarrow> bool" for start where
  runtime_start: "runtime_history start [] {} start"
| runtime_call: "\<lbrakk>runtime_history start h parked rt; op_allowed parked rt op; runtime_apply rt op = (r, rt')\<rbrakk> \<Longrightarrow>
    runtime_history start (h @ [(op, r)]) (parked_after parked op r) rt'"

fun token_run :: "ChannelDispatch option \<Rightarrow> (RuntimeOp \<times> runtime_result) list \<Rightarrow> ChannelDispatch option \<Rightarrow> bool" where
  "token_run owner [] owner' \<longleftrightarrow> owner' = owner"
| "token_run owner ((op, r) # h) owner' \<longleftrightarrow> (\<exists>o1. token_step owner op r o1 \<and> token_run o1 h owner')"

lemma token_run_snoc: "token_run owner (h @ [(op, r)]) owner' \<longleftrightarrow> (\<exists>o1. token_run owner h o1 \<and> token_step o1 op r owner')"
  by (induction h arbitrary: owner) (auto, blast+)

lemma runtime_history_ok:
  assumes "runtime_new policy obs n seed = Ok start" "runtime_history start h parked rt"
  shows "runtime_ok parked rt \<and> token_run None h (crt_active_dispatch rt) \<and>
    list_all (\<lambda>(op, r). r \<noteq> Panic \<and> r \<noteq> Err RTE_InvariantViolation) h"
  using assms(2)
proof (induction rule: runtime_history.induct)
  case runtime_start
  show ?case using runtime_new_ok [OF assms(1)] assms(1) by (auto simp: runtime_new_def split: if_splits)
next
  case (runtime_call h parked rt op r rt')
  note s = runtime_apply_sound [OF _ runtime_call(2,3)]
  with runtime_call show ?case using runtime_apply_token [OF runtime_call(2,3)] by (auto simp: token_run_snoc)
qed


definition example_schedule :: NodeScheduleConfig where
  "example_schedule = \<lparr>nsc_node_address = 4, nsc_output_rate = HZ_1000, nsc_journal_capacity_samples = 4000,
     nsc_max_sample_chunk_samples = 40, nsc_target_chunk_samples = 32, nsc_measurement_slot = 5000,
     nsc_maximum_service_interval = 200000, nsc_retry_base_delay = 1000, nsc_retry_max_delay = 16000,
     nsc_retry_attempt_limit = 3, nsc_offline_probe_interval = 500000\<rparr>"

definition example_runtime :: ChannelRuntime where
  "example_runtime = \<lparr>crt_scheduler = \<lparr>sp_overflow_guard = 100000, sp_max_slot = 20000\<rparr>, crt_observability = OP_Production,
     crt_max_nodes = 2, crt_next_work_id = 1, crt_nodes = [], crt_time_sync = [], crt_telemetry = [], crt_active_dispatch = None\<rparr>"

definition example_node :: NodeScheduleState where
  "example_node = \<lparr>nss_config = example_schedule, nss_received = 0, nss_observed_produced = 0, nss_observed_at = 5,
     nss_service_deadline = 5, nss_ready_at = 5, nss_queued_at = 5, nss_availability = NA_Online, nss_work_id = 1,
     nss_in_flight = False\<rparr>"

lemma example_register:
  "runtime_apply example_runtime (RO_Register example_schedule 0 5) =
     (Ok None, example_runtime\<lparr>crt_next_work_id := 2, crt_nodes := [example_node]\<rparr>)"
  by (simp add: register_node_def settled_def schedule_config_validate_def example_schedule_def example_runtime_def example_node_def
      with_work_id_def allocate_work_id_def work_id_in_use_def HOST_ADDRESS_def BROADCAST_ADDRESS_def Let_def numeral_3_eq_3)

lemma example_candidate:
  "node_candidate example_node 5 = Ok (Some \<lparr>wc_work_id = 1, wc_node_address = 4, wc_class = TC_Measurement, wc_ready_at = 5,
     wc_deadline = Some 5, wc_queued_at = 5, wc_time_to_overflow_us = Some 4000000, wc_estimated_slot = 5000\<rparr>)"
  by (simp add: node_candidate_def example_node_def example_schedule_def time_to_overflow_us_def checked_sub_def mul_unchecked_def
      checked_mul_def wide_def runtime_div_ceil_def add_unchecked_def checked_add_def NANO_HERTZ_MICROS_PER_SAMPLE_def HZ_1000_def
      saturating_add_def saturating_sub_def saturating_mul_def div_unchecked_def u64_or_max_def Let_def min_def)

lemma example_dispatch:
  "\<exists>rt. runtime_apply (example_runtime\<lparr>crt_next_work_id := 2, crt_nodes := [example_node]\<rparr>) (RO_Select 5) =
     (Ok (Some (CD_Measurement \<lparr>md_work_id = 1, md_node_address = 4, md_max_samples = 40\<rparr>)), rt)"
proof -
  have [simp]: "nss_work_id example_node = 1" "nss_in_flight example_node = False" "nss_address example_node = 4"
    "nsc_max_sample_chunk_samples (nss_config example_node) = 40" by (simp_all add: example_node_def example_schedule_def)
  show ?thesis
    by (simp add: select_work_def work_candidates_def example_candidate example_runtime_def service_candidates_def List.map_filter_def
        select_def validate_candidate_def rank_def overflow_rank_def deadline_rank_def saturating_add_def checked_add_def
        HOST_ADDRESS_def BROADCAST_ADDRESS_def schedule_context_def index_at_def dispatch_selected_def Let_def)
qed


end
