(* ===== verification/Host_Runtime_Service.thy ===== *)
theory Host_Runtime_Service
  imports Host_Runtime_Invariant
begin

text \<open>
  What the runtime of a channel does for its nodes: an idle line goes to the most urgent work, a node that answered is
  served again before its deadline, and a node that fails is tried again after growing delays.
\<close>

section \<open>An idle line goes to the most urgent work\<close>

lemma node_candidates_complete:
  assumes "node_candidates now nodes = Ok cs" "node \<in> set nodes" "\<not> nss_in_flight node"
  shows "\<exists>c\<in>set cs. node_candidate node now = Ok (Some c)"
  using assms
proof (induction nodes arbitrary: cs)
  case (Cons n nodes)
  then obtain x ys where n: "node_candidate n now = Ok x" "node_candidates now nodes = Ok ys"
    "cs = (case x of Some c \<Rightarrow> [c] | None \<Rightarrow> []) @ ys" by (auto simp: result_iffs)
  show ?case
  proof (cases "node = n")
    case True
    with n(1) Cons.prems(3) obtain c where "x = Some c" by (auto simp: node_candidate_def result_iffs split: if_splits)
    with n True show ?thesis by simp
  next
    case False
    with Cons.IH [OF n(2)] Cons.prems n(3) show ?thesis by auto
  qed
qed simp

lemma select_idle:
  assumes "list_all (candidate_ok policy) cs"
  shows "(\<exists>i. select policy ctx cs = Ok (Some (scheduled cs i)) \<and> first_least policy ctx cs i) \<or>
    select policy ctx cs = Ok None \<and> (\<forall>c\<in>set cs. rank policy ctx c = None)"
proof (cases "least (ranked policy ctx 0 cs)")
  case None
  then have "ranked policy ctx 0 cs = []" by (cases "ranked policy ctx 0 cs") (auto split: prod.splits)
  then have "rank policy ctx c = None" if "c \<in> set cs" for c
    using that ranked_complete [of _ cs policy ctx _ 0] by (auto simp: in_set_conv_nth) (metis not_None_eq)
  with None show ?thesis by (simp add: select_valid [OF assms])
next
  case (Some p)
  then have "first_least policy ctx cs (fst p)" using least_first_least [of policy ctx cs "fst p" "snd p"] by simp
  moreover have "select policy ctx cs = Ok (Some (scheduled cs (fst p)))"
    using Some by (cases p) (simp add: select_valid [OF assms])
  ultimately show ?thesis by blast
qed

text \<open>C21. An idle line goes to the most urgent work. In every history, when nobody holds the line and the candidates are
  valid, the runtime dispatches the work of the first candidate of least rank, or nothing when no candidate is ready; and every
  node that is not in flight is among the candidates, so no node is ever passed over by being forgotten.\<close>

theorem idle_line_goes_to_the_most_urgent_work:
  assumes "runtime_new policy obs n seed = Ok start" "runtime_history start h parked rt" "crt_active_dispatch rt = None"
    "work_candidates rt now = Ok cs" "list_all (candidate_ok (crt_scheduler rt)) cs"
  shows "((\<exists>d rt' i. select_work rt now = (Ok (Some d), rt') \<and> candidate_for rt (cs ! i) d \<and>
        first_least (crt_scheduler rt) (schedule_context rt now) cs i) \<or>
      select_work rt now = (Ok None, rt) \<and> (\<forall>c\<in>set cs. rank (crt_scheduler rt) (schedule_context rt now) c = None)) \<and>
    (\<forall>node\<in>set (crt_nodes rt). nss_in_flight node \<or> (\<exists>c\<in>set cs. node_candidate node now = Ok (Some c)))"
proof -
  have ok: "runtime_ok parked rt" using runtime_history_ok [OF assms(1,2)] by blast
  obtain ns where ns: "node_candidates now (crt_nodes rt) = Ok ns" "set ns \<subseteq> set cs"
    using assms(4) by (auto simp: work_candidates_def result_iffs)
  have complete: "nss_in_flight node \<or> (\<exists>c\<in>set cs. node_candidate node now = Ok (Some c))" if "node \<in> set (crt_nodes rt)" for node
    using node_candidates_complete [OF ns(1) that] ns(2) by blast
  consider (work) i where "select (crt_scheduler rt) (schedule_context rt now) cs = Ok (Some (scheduled cs i))"
      "first_least (crt_scheduler rt) (schedule_context rt now) cs i"
    | (none) "select (crt_scheduler rt) (schedule_context rt now) cs = Ok None"
      "\<forall>c\<in>set cs. rank (crt_scheduler rt) (schedule_context rt now) c = None"
    using select_idle [OF assms(5)] by blast
  then show ?thesis
  proof cases
    case (work i)
    then have i: "cs ! i \<in> set cs" by (auto simp: first_least_def)
    obtain d where d: "candidate_for rt (cs ! i) d" using work_candidate_for [OF assms(4) i] by blast
    obtain rt' where "dispatch_selected rt (scheduled cs i) = (Ok d, rt')"
      using dispatch_selected_Ok [OF ok assms(3) d, of "scheduled cs i"] by (auto simp: scheduled_def)
    with work d assms(3,4) complete show ?thesis by (auto simp: select_work_def)
  next
    case none
    with assms(3,4) complete show ?thesis by (auto simp: select_work_def)
  qed
qed

section \<open>Served again before the deadline\<close>

lemma progressed_node:
  assumes "measurement_progressed rt i progress now settle = (Ok (), rt')" "i < length (crt_nodes rt)"
    "\<And>x. crt_nodes (settle x) = crt_nodes x"
  shows "\<exists>t r w. monotonic_checked_add now (nsc_maximum_service_interval (nss_config (crt_nodes rt ! i))) = Some t \<and>
    next_measurement_ready_at (nss_config (crt_nodes rt ! i)) progress now = Ok r \<and>
    crt_nodes rt' = (crt_nodes rt)[i := (crt_nodes rt ! i)\<lparr>nss_received := mp_received progress,
      nss_observed_produced := mp_produced progress, nss_observed_at := now, nss_service_deadline := t, nss_ready_at := r,
      nss_queued_at := now, nss_availability := NA_Online, nss_work_id := w, nss_in_flight := False\<rparr>]"
proof -
  let ?node = "crt_nodes rt ! i"
  have forward: "\<not> (mp_received progress < nss_received ?node \<or> mp_produced progress < nss_observed_produced ?node)"
    using assms(1) by (auto simp: measurement_progressed_def)
  then obtain t where t: "monotonic_checked_add now (nsc_maximum_service_interval (nss_config ?node)) = Some t"
    using assms(1) by (cases "monotonic_checked_add now (nsc_maximum_service_interval (nss_config ?node))")
      (auto simp: measurement_progressed_def)
  let ?k = "\<lambda>self next_work_id.
        let self = update_node self i (\<lambda>node. node\<lparr>nss_received := mp_received progress,
              nss_observed_produced := mp_produced progress, nss_observed_at := now, nss_service_deadline := t\<rparr>)
        in try_with (next_measurement_ready_at (nss_config ?node) progress now) self (\<lambda>ready_at.
             (Ok (), settle (update_node self i (\<lambda>node. node\<lparr>nss_ready_at := ready_at, nss_queued_at := now,
                nss_availability := NA_Online, nss_work_id := next_work_id, nss_in_flight := False\<rparr>))))"
  have k: "with_work_id rt ?k = (Ok (), rt')" using assms(1) forward t by (simp add: measurement_progressed_def)
  show ?thesis
  proof (rule with_work_id_cases [of rt ?k])
    fix n assume "with_work_id rt ?k = (Err RTE_WorkIdExhausted, rt\<lparr>crt_next_work_id := n\<rparr>)"
    with k show ?thesis by simp
  next
    fix n w assume "with_work_id rt ?k = ?k (rt\<lparr>crt_next_work_id := n\<rparr>) w"
    with k have "?k (rt\<lparr>crt_next_work_id := n\<rparr>) w = (Ok (), rt')" by simp
    then show ?thesis using t assms(2)
      by (cases "next_measurement_ready_at (nss_config ?node) progress now") (auto simp: Let_def update_node_def assms(3))
  qed
qed

text \<open>C22. A node that answered is served again in time. When a completed measurement is accepted, by the line or from
  storage, the schedule of its node takes over the reported cursors, is online, and its next pull is ready early enough to
  end by the service deadline, which is one service interval from now; it is not ready before now, and no later than the time
  in which a node at its rate fills the target chunk.\<close>

theorem answered_node_is_served_in_time:
  assumes "runtime_new policy obs n seed = Ok start" "runtime_history start h parked rt"
    "complete_measurement rt d progress now = (Ok (), rt') \<or> complete_parked_measurement rt d progress now = (Ok (), rt')"
  shows "\<exists>node\<in>set (crt_nodes rt'). nss_address node = md_node_address d \<and> \<not> nss_in_flight node \<and> nss_availability node = NA_Online \<and>
    nss_received node = mp_received progress \<and> nss_observed_produced node = mp_produced progress \<and>
    unat (nss_service_deadline node) = unat now + unat (nsc_maximum_service_interval (nss_config node)) \<and>
    now \<le> nss_ready_at node \<and>
    unat (nss_ready_at node) + unat (nsc_measurement_slot (nss_config node)) \<le> unat (nss_service_deadline node) \<and>
    (unat (nss_ready_at node) - unat now) * unat (nsc_output_rate (nss_config node)) \<le>
      (unat (nsc_target_chunk_samples (nss_config node)) - (unat (mp_produced progress) - unat (mp_received progress))) * 10 ^ 15"
proof -
  have ok: "runtime_ok parked rt" using runtime_history_ok [OF assms(1,2)] by blast
  from assms(3) obtain i settle where m: "measurement_progressed rt i progress now settle = (Ok (), rt')" "i < length (crt_nodes rt)"
      "\<And>x. crt_nodes (settle x) = crt_nodes x" "nss_address (crt_nodes rt ! i) = md_node_address d"
    and p: "mp_received progress \<le> mp_produced progress"
  proof (elim disjE)
    assume that: "\<And>i settle. \<lbrakk>measurement_progressed rt i progress now settle = (Ok (), rt'); i < length (crt_nodes rt);
        \<And>x. crt_nodes (settle x) = crt_nodes x; nss_address (crt_nodes rt ! i) = md_node_address d; mp_received progress \<le> mp_produced progress\<rbrakk> \<Longrightarrow> thesis"
    { assume "complete_measurement rt d progress now = (Ok (), rt')"
      then show thesis by (auto simp: complete_measurement_def result_iffs release_def dest!: progress_validate_Ok active_node_index_Ok intro!: that) }
    { assume "complete_parked_measurement rt d progress now = (Ok (), rt')"
      then show thesis by (auto simp: complete_parked_measurement_def result_iffs dest!: progress_validate_Ok in_flight_index_Ok intro!: that split: if_splits) }
  qed
  have c: "schedule_config_ok (nss_config (crt_nodes rt ! i))" by (rule runtime_ok_nth(2) [OF ok m(2)])
  let ?c = "nss_config (crt_nodes rt ! i)"
  obtain t r w where t: "monotonic_checked_add now (nsc_maximum_service_interval ?c) = Some t"
    and r: "next_measurement_ready_at ?c progress now = Ok r"
    and rt': "crt_nodes rt' = (crt_nodes rt)[i := (crt_nodes rt ! i)\<lparr>nss_received := mp_received progress,
      nss_observed_produced := mp_produced progress, nss_observed_at := now, nss_service_deadline := t, nss_ready_at := r,
      nss_queued_at := now, nss_availability := NA_Online, nss_work_id := w, nss_in_flight := False\<rparr>]"
    using progressed_node [OF m(1,2,3)] by blast
  have ut: "unat t = unat now + unat (nsc_maximum_service_interval ?c)" using t by (simp add: monotonic_checked_add_def checked_add_Some)
  then have "unat now + unat (nsc_maximum_service_interval ?c) < 2 ^ 64" using unat_u64_bound [of t] by simp
  from next_ready [OF c p this] r have ur: "unat r = unat now +
      min ((unat (nsc_target_chunk_samples ?c) - (unat (mp_produced progress) - unat (mp_received progress))) * 10 ^ 15 div unat (nsc_output_rate ?c))
        (unat (nsc_maximum_service_interval ?c) - unat (nsc_measurement_slot ?c))" by auto
  have s: "unat (nsc_measurement_slot ?c) \<le> unat (nsc_maximum_service_interval ?c)"
    using schedule_config_okD(1) [OF c] by (simp add: word_le_nat_alt)
  have "(unat r - unat now) * unat (nsc_output_rate ?c) \<le>
      (unat (nsc_target_chunk_samples ?c) - (unat (mp_produced progress) - unat (mp_received progress))) * 10 ^ 15"
    unfolding ur by (rule order.trans [OF mult_le_mono1 div_times_less_eq_dividend]) simp
  moreover have "now \<le> r" "unat r + unat (nsc_measurement_slot ?c) \<le> unat t" using ur ut s by (simp_all add: word_le_nat_alt)
  ultimately show ?thesis using m(2,4) ut unfolding rt'
    by (intro bexI [OF _ set_update_memI [OF m(2)]]) simp
qed

section \<open>The example of a channel with one node\<close>

text \<open>The witness of the bound on the overflow estimate, at the example node.\<close>

theorem overflow_estimate_safe_and_tight_witness:
  "\<exists>t. time_to_overflow_us example_node 5 = Ok t \<and> 0 < t \<and> unat t < 2 ^ 64 - 1 \<and>
    (4000 + 1) * 10 ^ 15 < unat (nsc_output_rate example_schedule) * (unat t + 1) + 2 * 10 ^ 15"
proof -
  have "nss_observed_at example_node \<le> 5" "nsc_output_rate (nss_config example_node) \<noteq> 0"
    by (simp_all add: example_node_def example_schedule_def HZ_1000_def)
  from overflow_estimate_safe_and_tight [OF this] show ?thesis
    by (auto simp: example_node_def example_schedule_def HZ_1000_def time_to_overflow_us_def checked_sub_def mul_unchecked_def
      checked_mul_def wide_def runtime_div_ceil_def add_unchecked_def checked_add_def NANO_HERTZ_MICROS_PER_SAMPLE_def
      saturating_add_def saturating_sub_def saturating_mul_def div_unchecked_def u64_or_max_def Let_def min_def)
qed

definition registered :: ChannelRuntime where
  "registered = example_runtime\<lparr>crt_next_work_id := 2, crt_nodes := [example_node]\<rparr>"

definition dispatched :: ChannelRuntime where
  "dispatched = registered\<lparr>crt_nodes := [example_node\<lparr>nss_in_flight := True\<rparr>],
     crt_active_dispatch := Some (CD_Measurement \<lparr>md_work_id = 1, md_node_address = 4, md_max_samples = 40\<rparr>)\<rparr>"

lemma example_node_fields:
  "nss_work_id example_node = 1" "nss_in_flight example_node = False" "nss_config example_node = example_schedule"
  "nsc_node_address example_schedule = 4" "nsc_max_sample_chunk_samples example_schedule = 40" "nss_received example_node = 0"
  "nss_observed_produced example_node = 0"
  by (simp_all add: example_node_def example_schedule_def)

lemma example_runtime_fields:
  "crt_nodes registered = [example_node]" "crt_time_sync registered = []" "crt_telemetry registered = []"
  "crt_active_dispatch registered = None" "crt_scheduler registered = \<lparr>sp_overflow_guard = 100000, sp_max_slot = 20000\<rparr>"
  by (simp_all add: registered_def example_runtime_def)

lemma example_new: "runtime_new \<lparr>sp_overflow_guard = 100000, sp_max_slot = 20000\<rparr> OP_Production 2 1 = Ok example_runtime"
  by (simp add: runtime_new_def example_runtime_def)

lemma example_history: "runtime_history example_runtime [(RO_Register example_schedule 0 5, Ok None)] {} registered"
proof -
  have o: "op_allowed {} example_runtime (RO_Register example_schedule 0 5)" by (simp add: example_schedule_def HZ_1000_def)
  show ?thesis using runtime_call [OF runtime_start o example_register] by (simp add: registered_def)
qed

abbreviation example_work :: WorkCandidate where
  "example_work \<equiv> \<lparr>wc_work_id = 1, wc_node_address = 4, wc_class = TC_Measurement, wc_ready_at = 5,
     wc_deadline = Some 5, wc_queued_at = 5, wc_time_to_overflow_us = Some 4000000, wc_estimated_slot = 5000\<rparr>"

lemma example_candidates: "work_candidates registered 5 = Ok [example_work]"
  by (simp add: work_candidates_def example_runtime_fields example_candidate service_candidates_def List.map_filter_def)

lemma example_selects: "select_work registered 5 =
    (Ok (Some (CD_Measurement \<lparr>md_work_id = 1, md_node_address = 4, md_max_samples = 40\<rparr>)), dispatched)"
  by (simp add: select_work_def example_candidates example_runtime_fields example_node_fields dispatched_def select_def
      validate_candidate_def rank_def overflow_rank_def deadline_rank_def saturating_add_def checked_add_def update_node_def
      HOST_ADDRESS_def BROADCAST_ADDRESS_def schedule_context_def index_at_def dispatch_selected_def Let_def)

theorem idle_line_goes_to_the_most_urgent_work_witness:
  "\<exists>i. first_least (crt_scheduler registered) (schedule_context registered 5) [example_work] i"
proof -
  have "list_all (candidate_ok (crt_scheduler registered)) [example_work]"
    by (simp add: candidate_ok_def validate_candidate_def example_runtime_fields HOST_ADDRESS_def BROADCAST_ADDRESS_def)
  from idle_line_goes_to_the_most_urgent_work [OF example_new example_history example_runtime_fields(4) example_candidates this]
  show ?thesis by (auto simp: example_selects)
qed

theorem answered_node_is_served_in_time_witness:
  "\<exists>node rt'. complete_measurement dispatched \<lparr>md_work_id = 1, md_node_address = 4, md_max_samples = 40\<rparr>
      \<lparr>mp_received = 10, mp_produced = 10\<rparr> 6 = (Ok (), rt') \<and> node \<in> set (crt_nodes rt') \<and> nss_address node = 4 \<and>
     nss_availability node = NA_Online \<and> nss_received node = 10"
proof -
  have h: "runtime_history example_runtime [(RO_Register example_schedule 0 5, Ok None),
      (RO_Select 5, Ok (Some (CD_Measurement \<lparr>md_work_id = 1, md_node_address = 4, md_max_samples = 40\<rparr>)))] {} dispatched"
    using runtime_call [OF example_history, of "RO_Select 5"] by (simp add: example_selects)
  have "\<exists>rt'. complete_measurement dispatched \<lparr>md_work_id = 1, md_node_address = 4, md_max_samples = 40\<rparr>
      \<lparr>mp_received = 10, mp_produced = 10\<rparr> 6 = (Ok (), rt')"
    by (simp add: complete_measurement_def progress_validate_def active_node_index_def in_flight_node_index_def node_index_def
        dispatched_def example_node_fields registered_def example_runtime_def measurement_progressed_def with_work_id_def
        allocate_work_id_def work_id_in_use_def update_node_def next_measurement_ready_at_def sub_unchecked_def checked_sub_def
        monotonic_checked_add_def checked_add_def div_unchecked_def saturating_mul_def saturating_sub_def wide_def
        NANO_HERTZ_MICROS_PER_SAMPLE_def HZ_1000_def example_schedule_def u64_or_max_def checked_mul_def u64_from_def min_def Let_def numeral_3_eq_3)
  then obtain rt' where c: "complete_measurement dispatched \<lparr>md_work_id = 1, md_node_address = 4, md_max_samples = 40\<rparr>
      \<lparr>mp_received = 10, mp_produced = 10\<rparr> 6 = (Ok (), rt')" by blast
  from answered_node_is_served_in_time [OF example_new h disjI1 [OF c]] c show ?thesis by auto
qed

end
