(* ===== verification/Host_Agent.thy ===== *)
theory Host_Agent
  imports Host_Operation Host_Handshake Host_Transfer Protocol_Time Core_Time
begin

text \<open>
  The agent of one channel (\<^verbatim>\<open>sensor-host/src/channel_agent.rs\<close>): the queue of work for the nodes of a line, the one piece
  of work that is active, its frame on the way out, and the answer given to it. It composes the transaction core with
  handshakes, operations, measurement transfers and the exchanges of time and telemetry.
\<close>

section \<open>Policy, events and work\<close>

definition GET_STREAM_STATE_MESSAGE_ID :: u8 where "GET_STREAM_STATE_MESSAGE_ID = 1"
definition TIME_SERVICE_ID :: u8 where "TIME_SERVICE_ID = service_code SID_Time"
definition OBSERVE_CLOCK_MESSAGE_ID :: u8 where "OBSERVE_CLOCK_MESSAGE_ID = 1"
definition TELEMETRY_SERVICE_ID :: u8 where "TELEMETRY_SERVICE_ID = service_code SID_Telemetry"
definition GET_TELEMETRY_SNAPSHOT_MESSAGE_ID :: u8 where "GET_TELEMETRY_SNAPSHOT_MESSAGE_ID = 1"

record ChannelPolicy =
  cpy_transaction_timeout :: DurationMicros
  cpy_retry_delay :: DurationMicros
  cpy_measurement_attempts_per_slot :: u8
  cpy_max_pending_work_items :: usize

datatype ControlWorkKey =
  CK_Handshake u8
| CK_StreamState u8
| CK_Lifecycle u8 u32
| CK_Configuration u8 "u32 option"
| CK_CommissioningProbe u64 u16
| CK_CommissioningAssignment u32

datatype AbandonedControlWork = AC_Queued ControlWorkKey | AC_Active ControlWorkKey

datatype ChannelAgentError =
  CAE_ZeroQueueCapacity | CAE_ZeroMeasurementAttemptBudget | CAE_QueueFull | CAE_OperationIdExhausted
| CAE_OutboundNotTaken | CAE_TimeOverflow | CAE_InvariantViolation | CAE_Transaction TransactionError
| CAE_Handshake HandshakeError | CAE_Lifecycle LifecycleError | CAE_Configuration ConfigurationError
| CAE_Commissioning CommissioningError | CAE_Measurement MeasurementTransferError
| CAE_StreamStateWire MeasurementWireError | CAE_TimeWire TimeWireError | CAE_TelemetryWire TelemetryWireError
| CAE_Frame FrameError | CAE_InvalidTimeNodeAddress u8 | CAE_InvalidTelemetryNodeAddress u8
| CAE_InvalidStreamStateNodeAddress u8 | CAE_ZeroTimeBootEpoch | CAE_ControlAttemptInFlight ControlWorkKey
| CAE_ControlWorkNotFound ControlWorkKey | CAE_TimeBootEpochMismatch | CAE_TimeRequestNotTransmitted

definition channel_policy_validate :: "ChannelPolicy \<Rightarrow> (ChannelPolicy, ChannelAgentError) result" where
  "channel_policy_validate self =
     (if cpy_max_pending_work_items self = 0 then Err CAE_ZeroQueueCapacity
      else if cpy_measurement_attempts_per_slot self = 0 then Err CAE_ZeroMeasurementAttemptBudget
      else Ok self)"

datatype ChannelEvent =
  EV_Idle
| EV_TransmitReady
| EV_HandshakeProgress u8 HandshakePhase
| EV_HandshakeComplete u8 NodeIdentity NodeCapabilities
| EV_HandshakeTimedOut u8 HandshakePhase
| EV_StreamState u8 StreamState
| EV_StreamStateTimedOut u8
| EV_StreamStateNotAccepted u8
| EV_MeasurementNotAccepted u8
| EV_MeasurementNoData u8 StreamState
| EV_MeasurementPersistenceRequired u8 PersistenceKind
| EV_MeasurementRecoveryRequired u8 RecoveryReason
| EV_MeasurementTimedOut u8
| EV_MeasurementAttemptsExhausted u8
| EV_TimeObservation u8 ClockObservation
| EV_TimeSyncTimedOut u8
| EV_TimeSyncNotAccepted u8
| EV_TimeSyncInvalidObservation u8 ClockObservationError
| EV_TelemetrySnapshot u8 TelemetrySnapshot
| EV_TelemetryTimedOut u8
| EV_TelemetryNotAccepted u8
| EV_MeasurementHandoffPending u8
| EV_LifecycleNotAccepted u8 u32
| EV_LifecycleProgress u8 u32 RuntimeState
| EV_LifecycleComplete u8 RuntimeResult
| EV_LifecycleTimedOut u8 u32
| EV_ConfigurationNotAccepted u8 "u32 option"
| EV_ConfigurationComplete u8 ConfigurationOutcome
| EV_ConfigurationTimedOut u8 "u32 option"
| EV_CommissioningSlotEmpty u64 u16
| EV_CommissioningNotAccepted u32
| EV_CommissioningComplete CommissioningOutcome
| EV_CommissioningTimedOut u32
| EV_WireAttemptFailed u8
| EV_QuarantineEnded
| EV_UnrelatedResponse
| EV_LateResponse
| EV_UnsolicitedResponse

record TimeSyncAttempt =
  tsa_node_address :: u8
  tsa_expected_boot_epoch :: BootEpoch
  tsa_host_send_us :: "u64 option"

datatype PendingWork =
  PW_Handshake NodeHandshake
| PW_StreamState u8
| PW_Lifecycle LifecycleOperation
| PW_Configuration ConfigurationOperation
| PW_Commissioning CommissioningOperation
| PW_Measurement MeasurementTransfer
| PW_TimeSync TimeSyncAttempt
| PW_Telemetry u8

fun work_node_address :: "PendingWork \<Rightarrow> u8" where
  "work_node_address (PW_Handshake handshake) = hr_node_address (nh_requirements handshake)"
| "work_node_address (PW_StreamState node_address) = node_address"
| "work_node_address (PW_Lifecycle operation) = lo_node_address operation"
| "work_node_address (PW_Configuration operation) = co_node_address operation"
| "work_node_address (PW_Commissioning operation) = COMMISSIONING_ADDRESS"
| "work_node_address (PW_Measurement transfer) = mt_node_address transfer"
| "work_node_address (PW_TimeSync attempt) = tsa_node_address attempt"
| "work_node_address (PW_Telemetry node_address) = node_address"

fun matches_control_key :: "PendingWork \<Rightarrow> ControlWorkKey \<Rightarrow> bool" where
  "matches_control_key (PW_Handshake handshake) (CK_Handshake node_address) \<longleftrightarrow>
     hr_node_address (nh_requirements handshake) = node_address"
| "matches_control_key (PW_StreamState pending_address) (CK_StreamState node_address) \<longleftrightarrow> pending_address = node_address"
| "matches_control_key (PW_Lifecycle operation) (CK_Lifecycle node_address operation_id) \<longleftrightarrow>
     lo_node_address operation = node_address \<and> rc_operation_id (lo_command operation) = operation_id"
| "matches_control_key (PW_Configuration operation) (CK_Configuration node_address operation_id) \<longleftrightarrow>
     co_node_address operation = node_address \<and> configuration_operation_id (co_request operation) = operation_id"
| "matches_control_key (PW_Commissioning operation) (CK_CommissioningProbe round_nonce slot_index) \<longleftrightarrow>
     (case cmo_request operation of
        CMR_Probe v \<Rightarrow> ps_round_nonce v = round_nonce \<and> ps_slot_index v = slot_index | _ \<Rightarrow> False)"
| "matches_control_key (PW_Commissioning operation) (CK_CommissioningAssignment operation_id) \<longleftrightarrow>
     commissioning_operation_id (cmo_request operation) = Some operation_id"
| "matches_control_key _ _ \<longleftrightarrow> False"

fun work_uses_operation_id :: "PendingWork \<Rightarrow> u32 \<Rightarrow> bool" where
  "work_uses_operation_id (PW_Lifecycle operation) operation_id \<longleftrightarrow> rc_operation_id (lo_command operation) = operation_id"
| "work_uses_operation_id (PW_Configuration operation) operation_id \<longleftrightarrow>
     configuration_operation_id (co_request operation) = Some operation_id"
| "work_uses_operation_id (PW_Commissioning operation) operation_id \<longleftrightarrow>
     commissioning_operation_id (cmo_request operation) = Some operation_id"
| "work_uses_operation_id _ _ \<longleftrightarrow> False"

record ActiveWork =
  aw_work :: PendingWork
  aw_retry_not_before :: MonotonicMicros
  aw_attempts_started :: u8

record ChannelAgent =
  cag_transactions :: TransactionCore
  cag_policy :: ChannelPolicy
  cag_next_operation_id :: u32
  cag_pending :: "PendingWork list"
  cag_active :: "ActiveWork option"
  cag_outbound :: "Frame option"
  cag_completed_measurement :: "MeasurementTransfer option"

type_synonym 'a agent_outcome = "(ChannelAgent, 'a, ChannelAgentError) outcome"

definition agent_new :: "u32 \<Rightarrow> u32 \<Rightarrow> DurationMicros \<Rightarrow> ChannelPolicy \<Rightarrow> (ChannelAgent, ChannelAgentError) result" where
  "agent_new transaction_seed operation_seed quarantine_duration policy =
     and_then (channel_policy_validate policy) (\<lambda>policy.
       Ok \<lparr>cag_transactions = transaction_new transaction_seed quarantine_duration, cag_policy = policy,
           cag_next_operation_id = (if operation_seed = 0 then 1 else operation_seed), cag_pending = [],
           cag_active = None, cag_outbound = None, cag_completed_measurement = None\<rparr>)"

section \<open>The queue and operation identifiers\<close>

definition queued_work_items :: "ChannelAgent \<Rightarrow> usize" where
  "queued_work_items self = length (cag_pending self) + (if cag_active self \<noteq> None then 1 else 0) +
     (if cag_completed_measurement self \<noteq> None then 1 else 0)"

definition ensure_queue_capacity :: "ChannelAgent \<Rightarrow> (unit, ChannelAgentError) result" where
  "ensure_queue_capacity self =
     (if queued_work_items self \<ge> cpy_max_pending_work_items (cag_policy self) then Err CAE_QueueFull else Ok ())"

definition operation_id_in_use :: "ChannelAgent \<Rightarrow> u32 \<Rightarrow> bool" where
  "operation_id_in_use self operation_id \<longleftrightarrow>
     (case cag_active self of Some active \<Rightarrow> work_uses_operation_id (aw_work active) operation_id | None \<Rightarrow> False) \<or>
     list_ex (\<lambda>work. work_uses_operation_id work operation_id) (cag_pending self)"

text \<open>The loop of \<open>allocate_operation_id\<close>, over the number of tries left.\<close>

primrec allocate_operation_from :: "nat \<Rightarrow> ChannelAgent \<Rightarrow> u32 agent_outcome" where
  "allocate_operation_from 0 self = (Err CAE_OperationIdExhausted, self)"
| "allocate_operation_from (Suc k) self =
     (let candidate = cag_next_operation_id self;
          next_id = (if candidate + 1 = 0 then 1 else candidate + 1);
          self = self\<lparr>cag_next_operation_id := next_id\<rparr>
      in if candidate \<noteq> 0 \<and> \<not> operation_id_in_use self candidate then (Ok candidate, self)
         else allocate_operation_from k self)"

text \<open>The number of tries saturates at the largest \<open>usize\<close>.\<close>

definition allocate_operation_id :: "ChannelAgent \<Rightarrow> u32 agent_outcome" where
  "allocate_operation_id self =
     allocate_operation_from (min (cpy_max_pending_work_items (cag_policy self) + 1) (2 ^ 64 - 1)) self"

definition push_back :: "ChannelAgent \<Rightarrow> PendingWork \<Rightarrow> ChannelAgent" where
  "push_back self work = self\<lparr>cag_pending := cag_pending self @ [work]\<rparr>"

text \<open>The submissions that need an identifier: room, then an identifier, then the operation.\<close>

definition with_operation_id ::
  "ChannelAgent \<Rightarrow> (ChannelAgent \<Rightarrow> u32 \<Rightarrow> u32 agent_outcome) \<Rightarrow> u32 agent_outcome" where
  "with_operation_id self k =
     try_with (ensure_queue_capacity self) self (\<lambda>_.
       let (allocated, self) = allocate_operation_id self in try_with allocated self (\<lambda>operation_id. k self operation_id))"

definition submit_lifecycle :: "ChannelAgent \<Rightarrow> u8 \<Rightarrow> RuntimeOperation \<Rightarrow> ObservabilityProfile \<Rightarrow> u32 agent_outcome" where
  "submit_lifecycle self node_address operation requested_profile =
     with_operation_id self (\<lambda>self operation_id.
       try_with (map_err CAE_Lifecycle (lifecycle_new node_address
           \<lparr>rc_operation_id = operation_id, rc_operation = operation, rc_requested_profile = requested_profile\<rparr>)) self
         (\<lambda>lifecycle. (Ok operation_id, push_back self (PW_Lifecycle lifecycle))))"

definition submit_configuration :: "ChannelAgent \<Rightarrow> ConfigurationOperation \<Rightarrow> unit agent_outcome" where
  "submit_configuration self operation =
     try_with (ensure_queue_capacity self) self (\<lambda>_. (Ok (), push_back self (PW_Configuration operation)))"

definition submit_get_configuration :: "ChannelAgent \<Rightarrow> u8 \<Rightarrow> unit agent_outcome" where
  "submit_get_configuration self node_address =
     try_with (map_err CAE_Configuration (configuration_new node_address CR_Get)) self (submit_configuration self)"

definition submit_validate_configuration :: "ChannelAgent \<Rightarrow> u8 \<Rightarrow> MeasurementConfiguration \<Rightarrow> unit agent_outcome" where
  "submit_validate_configuration self node_address configuration =
     try_with (map_err CAE_Configuration (configuration_new node_address (CR_Validate configuration))) self
       (submit_configuration self)"

definition submit_apply_configuration :: "ChannelAgent \<Rightarrow> u8 \<Rightarrow> u32 \<Rightarrow> MeasurementConfiguration \<Rightarrow> u32 agent_outcome" where
  "submit_apply_configuration self node_address expected_revision configuration =
     with_operation_id self (\<lambda>self operation_id.
       try_with (map_err CAE_Configuration (configuration_new node_address (CR_Apply
           \<lparr>cor_operation_id = operation_id, cor_expected_revision = expected_revision, cor_configuration = configuration\<rparr>))) self
         (\<lambda>operation. (Ok operation_id, push_back self (PW_Configuration operation))))"

definition submit_reset_configuration :: "ChannelAgent \<Rightarrow> u8 \<Rightarrow> u32 \<Rightarrow> u32 agent_outcome" where
  "submit_reset_configuration self node_address expected_revision =
     with_operation_id self (\<lambda>self operation_id.
       try_with (map_err CAE_Configuration (configuration_new node_address (CR_Reset operation_id expected_revision))) self
         (\<lambda>operation. (Ok operation_id, push_back self (PW_Configuration operation))))"

definition submit_commissioning_probe :: "ChannelAgent \<Rightarrow> ProbeSlotRequest \<Rightarrow> unit agent_outcome" where
  "submit_commissioning_probe self request =
     try_with (ensure_queue_capacity self) self (\<lambda>_.
     try_with (map_err CAE_Commissioning (commissioning_new (CMR_Probe request))) self (\<lambda>operation.
       (Ok (), push_back self (PW_Commissioning operation))))"

definition submit_commissioning_assignment :: "ChannelAgent \<Rightarrow> u64 \<Rightarrow> HardwareId \<Rightarrow> u8 \<Rightarrow> u32 agent_outcome" where
  "submit_commissioning_assignment self round_nonce hardware_id node_address =
     with_operation_id self (\<lambda>self operation_id.
       try_with (map_err CAE_Commissioning (commissioning_new (CMR_Assign \<lparr>aar_operation_id = operation_id,
           aar_round_nonce = round_nonce, aar_hardware_id = hardware_id, aar_node_address = node_address\<rparr>))) self
         (\<lambda>operation. (Ok operation_id, push_back self (PW_Commissioning operation))))"

definition submit_handshake :: "ChannelAgent \<Rightarrow> HandshakeRequirements \<Rightarrow> unit agent_outcome" where
  "submit_handshake self requirements =
     try_with (ensure_queue_capacity self) self (\<lambda>_. (Ok (), push_back self (PW_Handshake (handshake_new requirements))))"

definition submit_stream_state :: "ChannelAgent \<Rightarrow> u8 \<Rightarrow> unit agent_outcome" where
  "submit_stream_state self node_address =
     try_with (ensure_queue_capacity self) self (\<lambda>_.
       if node_address = HOST_ADDRESS \<or> node_address = BROADCAST_ADDRESS
       then (Err (CAE_InvalidStreamStateNodeAddress node_address), self)
       else (Ok (), push_back self (PW_StreamState node_address)))"

definition submit_time_sync :: "ChannelAgent \<Rightarrow> u8 \<Rightarrow> BootEpoch \<Rightarrow> unit agent_outcome" where
  "submit_time_sync self node_address expected_boot_epoch =
     try_with (ensure_queue_capacity self) self (\<lambda>_.
       if node_address = HOST_ADDRESS \<or> node_address = BROADCAST_ADDRESS
       then (Err (CAE_InvalidTimeNodeAddress node_address), self)
       else if expected_boot_epoch = 0 then (Err CAE_ZeroTimeBootEpoch, self)
       else (Ok (), push_back self (PW_TimeSync \<lparr>tsa_node_address = node_address,
              tsa_expected_boot_epoch = expected_boot_epoch, tsa_host_send_us = None\<rparr>)))"

definition submit_telemetry :: "ChannelAgent \<Rightarrow> u8 \<Rightarrow> unit agent_outcome" where
  "submit_telemetry self node_address =
     try_with (ensure_queue_capacity self) self (\<lambda>_.
       if node_address = HOST_ADDRESS \<or> node_address = BROADCAST_ADDRESS
       then (Err (CAE_InvalidTelemetryNodeAddress node_address), self)
       else (Ok (), push_back self (PW_Telemetry node_address)))"

record RejectedMeasurement =
  rjm_error :: ChannelAgentError
  rjm_transfer :: MeasurementTransfer

text \<open>A refused transfer is given back with the error.\<close>

definition try_submit_measurement ::
  "ChannelAgent \<Rightarrow> MeasurementTransfer \<Rightarrow> (ChannelAgent, unit, RejectedMeasurement) outcome" where
  "try_submit_measurement self transfer =
     (case ensure_queue_capacity self of
        Err error \<Rightarrow> (Err \<lparr>rjm_error = error, rjm_transfer = transfer\<rparr>, self)
      | Panic \<Rightarrow> (Panic, self)
      | Ok _ \<Rightarrow> (Ok (), push_back self (PW_Measurement transfer)))"

definition submit_measurement :: "ChannelAgent \<Rightarrow> MeasurementTransfer \<Rightarrow> unit agent_outcome" where
  "submit_measurement self transfer =
     (case try_submit_measurement self transfer of (r, self) \<Rightarrow> (map_err rjm_error r, self))"

section \<open>Polling\<close>

text \<open>\<open>operation.method(..)?\<close> on the active work: the work is changed also when the method fails.\<close>

definition on_work ::
  "ChannelAgent \<Rightarrow> ('s \<Rightarrow> PendingWork) \<Rightarrow> ('e \<Rightarrow> ChannelAgentError) \<Rightarrow> ('s, 'a, 'e) outcome \<Rightarrow>
     ('a \<Rightarrow> ChannelAgent \<Rightarrow> 'b agent_outcome) \<Rightarrow> 'b agent_outcome" where
  "on_work self work error out k =
     (let self = self\<lparr>cag_active := map_option (\<lambda>active. active\<lparr>aw_work := work (snd out)\<rparr>) (cag_active self)\<rparr>
      in try_with (map_err error (fst out)) self (\<lambda>x. k x self))"

text \<open>\<open>active.retry_not_before = now.checked_add(retry_delay)?\<close>.\<close>

definition retry_later ::
  "ChannelAgent \<Rightarrow> MonotonicMicros \<Rightarrow> (ChannelAgent \<Rightarrow> 'b agent_outcome) \<Rightarrow> 'b agent_outcome" where
  "retry_later self now k =
     try_with (ok_or (monotonic_checked_add now (cpy_retry_delay (cag_policy self))) CAE_TimeOverflow) self (\<lambda>t.
       k (self\<lparr>cag_active := map_option (\<lambda>active. active\<lparr>aw_retry_not_before := t\<rparr>) (cag_active self)\<rparr>))"

definition settle_active :: "ChannelAgent \<Rightarrow> ChannelAgent" where
  "settle_active self = self\<lparr>cag_active := None\<rparr>"

definition handoff_active_measurement :: "ChannelAgent \<Rightarrow> u8 agent_outcome" where
  "handoff_active_measurement self =
     (case cag_active self of
        None \<Rightarrow> (Err CAE_InvariantViolation, self)
      | Some active \<Rightarrow>
          (case aw_work active of
             PW_Measurement transfer \<Rightarrow>
               let replaced = cag_completed_measurement self;
                   self = self\<lparr>cag_active := None, cag_completed_measurement := Some transfer\<rparr>
               in if replaced \<noteq> None then (Err CAE_InvariantViolation, self) else (Ok (mt_node_address transfer), self)
           | _ \<Rightarrow> (Err CAE_InvariantViolation, settle_active self)))"

text \<open>The end of an attempt of a measurement that may be tried again: given back once its attempts are used up.\<close>

definition attempts_exhausted :: "ChannelAgent \<Rightarrow> ActiveWork \<Rightarrow> bool" where
  "attempts_exhausted self active \<longleftrightarrow>
     aw_attempts_started active \<ge> cpy_measurement_attempts_per_slot (cag_policy self)"

definition exhausted :: "ChannelAgent \<Rightarrow> ChannelEvent agent_outcome" where
  "exhausted self =
     (let (handed, self) = handoff_active_measurement self
      in try_with handed self (\<lambda>node_address. (Ok (EV_MeasurementAttemptsExhausted node_address), self)))"

text \<open>The arm \<open>TimerEvent::TimedOut\<close> of \<open>poll\<close>.\<close>

definition work_timed_out :: "ChannelAgent \<Rightarrow> MonotonicMicros \<Rightarrow> ChannelEvent agent_outcome" where
  "work_timed_out self now =
     (case cag_active self of
        None \<Rightarrow> (Err CAE_InvariantViolation, self)
      | Some active \<Rightarrow>
          (case aw_work active of
             PW_Handshake handshake \<Rightarrow> retry_later self now (\<lambda>self.
               (Ok (EV_HandshakeTimedOut (hr_node_address (nh_requirements handshake)) (nh_phase handshake)), self))
           | PW_StreamState node_address \<Rightarrow> retry_later self now (\<lambda>self. (Ok (EV_StreamStateTimedOut node_address), self))
           | PW_Lifecycle operation \<Rightarrow>
               on_work self PW_Lifecycle CAE_Lifecycle (lifecycle_mark_timeout operation) (\<lambda>_ self.
               retry_later self now (\<lambda>self.
                 (Ok (EV_LifecycleTimedOut (lo_node_address operation) (rc_operation_id (lo_command operation))), self)))
           | PW_Configuration operation \<Rightarrow>
               on_work self PW_Configuration CAE_Configuration (configuration_mark_timeout operation) (\<lambda>_ self.
               retry_later self now (\<lambda>self.
                 (Ok (EV_ConfigurationTimedOut (co_node_address operation)
                        (configuration_operation_id (co_request operation))), self)))
           | PW_Commissioning operation \<Rightarrow>
               on_work self PW_Commissioning CAE_Commissioning (commissioning_mark_timeout operation) (\<lambda>_ self.
                 case cmo_request operation of
                   CMR_Probe probe \<Rightarrow>
                     (Ok (EV_CommissioningSlotEmpty (ps_round_nonce probe) (ps_slot_index probe)), settle_active self)
                 | CMR_Assign assign \<Rightarrow> retry_later self now (\<lambda>self.
                     (Ok (EV_CommissioningTimedOut (aar_operation_id assign)), self)))
           | PW_Measurement transfer \<Rightarrow>
               on_work self PW_Measurement CAE_Measurement (mark_attempt_uncertain transfer) (\<lambda>_ self.
               retry_later self now (\<lambda>self.
                 if attempts_exhausted self active then exhausted self
                 else (Ok (EV_MeasurementTimedOut (mt_node_address transfer)), self)))
           | PW_TimeSync attempt \<Rightarrow> retry_later self now (\<lambda>self.
               (Ok (EV_TimeSyncTimedOut (tsa_node_address attempt)), settle_active self))
           | PW_Telemetry node_address \<Rightarrow> retry_later self now (\<lambda>self.
               (Ok (EV_TelemetryTimedOut node_address), settle_active self))))"

text \<open>\<open>self.transactions.prepare(request)?.request_frame(payload)?\<close>, direct and routed.\<close>

definition prepared_frame ::
  "ChannelAgent \<Rightarrow> (TransactionCore, PreparedTransaction, TransactionError) outcome \<Rightarrow>
     (bytes, ChannelAgentError) result \<Rightarrow> ChannelEvent agent_outcome" where
  "prepared_frame self prepared payload =
     (let self = self\<lparr>cag_transactions := snd prepared\<rparr> in
      try_with (map_err CAE_Transaction (fst prepared)) self (\<lambda>transaction.
      try_with payload self (\<lambda>payload.
      try_with (map_err CAE_Frame (prepared_request_frame transaction payload)) self (\<lambda>frame.
        (Ok EV_TransmitReady, self\<lparr>cag_outbound := Some frame\<rparr>)))))"

abbreviation send :: "ChannelAgent \<Rightarrow> RequestSpec \<Rightarrow> (bytes, ChannelAgentError) result \<Rightarrow> ChannelEvent agent_outcome" where
  "send self request payload \<equiv> prepared_frame self (transaction_prepare (cag_transactions self) request) payload"

definition exchange_request :: "ChannelAgent \<Rightarrow> u8 \<Rightarrow> u8 \<Rightarrow> u8 \<Rightarrow> RequestSpec" where
  "exchange_request self node_address service message =
     \<lparr>rs_node_address = node_address, rs_service = service, rs_request_message = message, rs_response_message = message,
      rs_timeout = cpy_transaction_timeout (cag_policy self), rs_timeout_recovery = RetrySafe\<rparr>"

text \<open>The match of \<open>poll\<close> that makes the next frame of the active work.\<close>

definition start_attempt :: "ChannelAgent \<Rightarrow> ActiveWork \<Rightarrow> ChannelEvent agent_outcome" where
  "start_attempt self active =
     (let timeout = cpy_transaction_timeout (cag_policy self) in
      case aw_work active of
        PW_Handshake handshake \<Rightarrow>
          (case nh_phase handshake of
             HP_NeedIdentity \<Rightarrow> send self (identity_request (hr_node_address (nh_requirements handshake)) timeout) (Ok [])
           | HP_NeedCapabilities \<Rightarrow>
               send self (capabilities_request (hr_node_address (nh_requirements handshake)) timeout) (Ok [])
           | HP_Ready \<Rightarrow> (Err CAE_InvariantViolation, self))
      | PW_StreamState node_address \<Rightarrow>
          send self (exchange_request self node_address (service_code SID_Measurement) GET_STREAM_STATE_MESSAGE_ID) (Ok [])
      | PW_Lifecycle operation \<Rightarrow>
          if lo_phase operation \<noteq> LP_ReadyToSend \<and> lo_phase operation \<noteq> LP_ReconcileRequired then (Ok EV_Idle, self)
          else on_work self PW_Lifecycle CAE_Lifecycle (lifecycle_begin_attempt operation timeout) (\<lambda>attempt self.
            send self (la_request attempt) (lifecycle_attempt_payload attempt))
      | PW_Configuration operation \<Rightarrow>
          if co_phase operation \<noteq> CP_ReadyToSend \<and> co_phase operation \<noteq> CP_ReconcileRequired then (Ok EV_Idle, self)
          else on_work self PW_Configuration CAE_Configuration (configuration_begin_attempt operation timeout) (\<lambda>attempt self.
            send self (cfa_request attempt) (configuration_attempt_payload attempt))
      | PW_Commissioning operation \<Rightarrow>
          if cmo_phase operation \<noteq> CMP_ReadyToSend \<and> cmo_phase operation \<noteq> CMP_ReconcileRequired then (Ok EV_Idle, self)
          else on_work self PW_Commissioning CAE_Commissioning (commissioning_begin_attempt operation timeout) (\<lambda>attempt self.
            prepared_frame self (transaction_prepare_routed (cag_transactions self) (cma_request attempt))
              (commissioning_attempt_payload attempt))
      | PW_Measurement transfer \<Rightarrow>
          on_work self PW_Measurement CAE_Measurement (transfer_begin_attempt transfer timeout) (\<lambda>attempt self.
            let self = self\<lparr>cag_active := map_option (\<lambda>active. active\<lparr>aw_attempts_started :=
                  saturating_add (aw_attempts_started active) 1\<rparr>) (cag_active self)\<rparr>
            in send self (ma_request attempt) (Ok (ma_payload attempt)))
      | PW_TimeSync attempt \<Rightarrow>
          (let self = self\<lparr>cag_active := Some (active\<lparr>aw_work := PW_TimeSync (attempt\<lparr>tsa_host_send_us := None\<rparr>)\<rparr>)\<rparr>
           in send self (exchange_request self (tsa_node_address attempt) TIME_SERVICE_ID OBSERVE_CLOCK_MESSAGE_ID) (Ok []))
      | PW_Telemetry node_address \<Rightarrow>
          send self (exchange_request self node_address TELEMETRY_SERVICE_ID GET_TELEMETRY_SNAPSHOT_MESSAGE_ID) (Ok []))"

text \<open>The rest of \<open>poll\<close> once the timer has nothing to say: the oldest work becomes active, and is tried when it may be.\<close>

definition activate_next :: "ChannelAgent \<Rightarrow> MonotonicMicros \<Rightarrow> ChannelAgent" where
  "activate_next self now =
     (case cag_active self of
        Some _ \<Rightarrow> self
      | None \<Rightarrow>
          (case cag_pending self of
             [] \<Rightarrow> self
           | work # rest \<Rightarrow> self\<lparr>cag_pending := rest,
               cag_active := Some \<lparr>aw_work = work, aw_retry_not_before = now, aw_attempts_started = 0\<rparr>\<rparr>))"

definition poll_work :: "ChannelAgent \<Rightarrow> MonotonicMicros \<Rightarrow> ChannelEvent agent_outcome" where
  "poll_work self now =
     (let self = activate_next self now in
      case cag_active self of
        None \<Rightarrow> (Ok EV_Idle, self)
      | Some active \<Rightarrow>
          if now < aw_retry_not_before active \<or> \<not> transaction_is_idle (cag_transactions self) then (Ok EV_Idle, self)
          else start_attempt self active)"

definition poll :: "ChannelAgent \<Rightarrow> MonotonicMicros \<Rightarrow> ChannelEvent agent_outcome" where
  "poll self now =
     (if cag_outbound self \<noteq> None then (Ok EV_TransmitReady, self)
      else case cag_completed_measurement self of
        Some transfer \<Rightarrow> (Ok (EV_MeasurementHandoffPending (mt_node_address transfer)), self)
      | None \<Rightarrow>
          let (timer, transactions) = on_timer (cag_transactions self) now;
              self = self\<lparr>cag_transactions := transactions\<rparr>
          in try_with (map_err CAE_Transaction timer) self (\<lambda>event.
               case event of
                 TE_TimedOut _ _ _ \<Rightarrow> work_timed_out self now
               | TE_QuarantineEnded \<Rightarrow> (Ok EV_QuarantineEnded, self)
               | TE_None \<Rightarrow> poll_work self now))"

section \<open>Transmission\<close>

definition take_outbound :: "ChannelAgent \<Rightarrow> Frame option \<times> ChannelAgent" where
  "take_outbound self = (cag_outbound self, self\<lparr>cag_outbound := None\<rparr>)"

fun sent_at :: "MonotonicMicros \<Rightarrow> PendingWork \<Rightarrow> PendingWork" where
  "sent_at now (PW_TimeSync attempt) = PW_TimeSync (attempt\<lparr>tsa_host_send_us := Some now\<rparr>)"
| "sent_at now work = work"

definition transmit_completed :: "ChannelAgent \<Rightarrow> MonotonicMicros \<Rightarrow> unit agent_outcome" where
  "transmit_completed self now =
     (if cag_outbound self \<noteq> None then (Err CAE_OutboundNotTaken, self)
      else let (marked, transactions) = mark_transmitted (cag_transactions self) now;
               self = self\<lparr>cag_transactions := transactions\<rparr>
           in try_with (map_err CAE_Transaction marked) self (\<lambda>_.
                (Ok (), self\<lparr>cag_active := map_option (\<lambda>active. active\<lparr>aw_work := sent_at now (aw_work active)\<rparr>)
                               (cag_active self)\<rparr>)))"

text \<open>The match of \<open>transmit_failed\<close> that tells the work its attempt is uncertain.\<close>

definition work_transmit_failed ::
  "ChannelAgent \<Rightarrow> ActiveWork \<Rightarrow> (ChannelAgent \<Rightarrow> ChannelEvent agent_outcome) \<Rightarrow> ChannelEvent agent_outcome" where
  "work_transmit_failed self active k =
     (case aw_work active of
        PW_Lifecycle operation \<Rightarrow> on_work self PW_Lifecycle CAE_Lifecycle (lifecycle_mark_timeout operation) (\<lambda>_. k)
      | PW_Configuration operation \<Rightarrow>
          on_work self PW_Configuration CAE_Configuration (configuration_mark_timeout operation) (\<lambda>_. k)
      | PW_Commissioning operation \<Rightarrow>
          on_work self PW_Commissioning CAE_Commissioning (mark_transmit_failed operation) (\<lambda>_. k)
      | PW_Measurement transfer \<Rightarrow> on_work self PW_Measurement CAE_Measurement (mark_attempt_uncertain transfer) (\<lambda>_. k)
      | _ \<Rightarrow> k self)"

fun is_measurement :: "PendingWork \<Rightarrow> bool" where
  "is_measurement (PW_Measurement _) = True"
| "is_measurement _ = False"

fun is_one_shot :: "PendingWork \<Rightarrow> bool" where
  "is_one_shot (PW_TimeSync _) = True"
| "is_one_shot (PW_Telemetry _) = True"
| "is_one_shot _ = False"

definition transmit_failed :: "ChannelAgent \<Rightarrow> MonotonicMicros \<Rightarrow> ChannelEvent agent_outcome" where
  "transmit_failed self now =
     (let self = self\<lparr>cag_outbound := None\<rparr>;
          (cancelled, transactions) = cancel_transmit (cag_transactions self);
          self = self\<lparr>cag_transactions := transactions\<rparr>
      in try_with (map_err CAE_Transaction cancelled) self (\<lambda>_.
           case cag_active self of
             None \<Rightarrow> (Err CAE_InvariantViolation, self)
           | Some active \<Rightarrow> work_transmit_failed self active (\<lambda>self. retry_later self now (\<lambda>self.
               if is_measurement (aw_work active) \<and> attempts_exhausted self active then exhausted self
               else (Ok (EV_WireAttemptFailed (work_node_address (aw_work active))),
                     if is_one_shot (aw_work active) then settle_active self else self)))))"

section \<open>Answers\<close>

definition handshake_answer :: "ChannelAgent \<Rightarrow> MonotonicMicros \<Rightarrow> NodeHandshake \<Rightarrow> bytes \<Rightarrow> ChannelEvent agent_outcome" where
  "handshake_answer self now handshake payload =
     (let node_address = hr_node_address (nh_requirements handshake);
          continue = (\<lambda>_ self.
            case cag_active self of
              None \<Rightarrow> (Err CAE_InvariantViolation, self)
            | Some active \<Rightarrow>
                (case aw_work active of
                   PW_Handshake handshake \<Rightarrow>
                     if nh_phase handshake = HP_Ready
                     then try_with (ok_or (nh_identity handshake) CAE_InvariantViolation) self (\<lambda>identity.
                          try_with (ok_or (nh_capabilities handshake) CAE_InvariantViolation) self (\<lambda>capabilities.
                            (Ok (EV_HandshakeComplete node_address identity capabilities), settle_active self)))
                     else (Ok (EV_HandshakeProgress node_address (nh_phase handshake)),
                           self\<lparr>cag_active := Some (active\<lparr>aw_retry_not_before := now\<rparr>)\<rparr>)
                 | _ \<Rightarrow> (Err CAE_InvariantViolation, self)))
      in case nh_phase handshake of
           HP_NeedIdentity \<Rightarrow> on_work self PW_Handshake CAE_Handshake (accept_identity handshake payload) continue
         | HP_NeedCapabilities \<Rightarrow> on_work self PW_Handshake CAE_Handshake (accept_capabilities handshake payload) continue
         | HP_Ready \<Rightarrow> (Err CAE_InvariantViolation, self))"

definition stream_state_answer :: "ChannelAgent \<Rightarrow> MonotonicMicros \<Rightarrow> u8 \<Rightarrow> bytes \<Rightarrow> ChannelEvent agent_outcome" where
  "stream_state_answer self now node_address payload =
     (case decode_stream_state_success payload of
        Ok state \<Rightarrow> (Ok (EV_StreamState node_address state), settle_active self)
      | Err error \<Rightarrow>
          if error = MWE_RemoteError RS_Busy
          then retry_later self now (\<lambda>self. (Ok (EV_StreamStateNotAccepted node_address), self))
          else (Err (CAE_StreamStateWire error), settle_active self)
      | Panic \<Rightarrow> (Panic, self))"

definition lifecycle_answer :: "ChannelAgent \<Rightarrow> MonotonicMicros \<Rightarrow> LifecycleOperation \<Rightarrow> bytes \<Rightarrow> ChannelEvent agent_outcome" where
  "lifecycle_answer self now operation payload =
     on_work self PW_Lifecycle CAE_Lifecycle (lifecycle_accept_response operation payload) (\<lambda>outcome self.
       case outcome of
         LO_NotAccepted \<Rightarrow> retry_later self now (\<lambda>self.
           (Ok (EV_LifecycleNotAccepted (lo_node_address operation) (rc_operation_id (lo_command operation))), self))
       | LO_InProgress result \<Rightarrow> retry_later self now (\<lambda>self.
           (Ok (EV_LifecycleProgress (lo_node_address operation) (rr_operation_id result) (rr_state result)), self))
       | LO_Complete result \<Rightarrow> (Ok (EV_LifecycleComplete (lo_node_address operation) result), settle_active self))"

definition configuration_answer ::
  "ChannelAgent \<Rightarrow> MonotonicMicros \<Rightarrow> ConfigurationOperation \<Rightarrow> bytes \<Rightarrow> ChannelEvent agent_outcome" where
  "configuration_answer self now operation payload =
     on_work self PW_Configuration CAE_Configuration (configuration_accept_response operation payload) (\<lambda>outcome self.
       if outcome = CFO_NotAccepted
       then retry_later self now (\<lambda>self.
         (Ok (EV_ConfigurationNotAccepted (co_node_address operation) (configuration_operation_id (co_request operation))), self))
       else (Ok (EV_ConfigurationComplete (co_node_address operation) outcome), settle_active self))"

definition commissioning_answer ::
  "ChannelAgent \<Rightarrow> MonotonicMicros \<Rightarrow> CommissioningOperation \<Rightarrow> bytes \<Rightarrow> ChannelEvent agent_outcome" where
  "commissioning_answer self now operation payload =
     on_work self PW_Commissioning CAE_Commissioning (commissioning_accept_response operation payload) (\<lambda>outcome self.
       if outcome = CMO_NotAccepted
       then try_with (ok_or (commissioning_operation_id (cmo_request operation)) CAE_InvariantViolation) self (\<lambda>operation_id.
            retry_later self now (\<lambda>self. (Ok (EV_CommissioningNotAccepted operation_id), self)))
       else (Ok (EV_CommissioningComplete outcome), settle_active self))"

fun measurement_event :: "u8 \<Rightarrow> MeasurementOutcome \<Rightarrow> (ChannelEvent, ChannelAgentError) result" where
  "measurement_event node_address MO_NotAccepted = Panic"
| "measurement_event node_address (MO_NoData state) = Ok (EV_MeasurementNoData node_address state)"
| "measurement_event node_address (MO_PersistenceRequired kind) = Ok (EV_MeasurementPersistenceRequired node_address kind)"
| "measurement_event node_address (MO_RecoveryRequired reason) = Ok (EV_MeasurementRecoveryRequired node_address reason)"

definition measurement_answer ::
  "ChannelAgent \<Rightarrow> MonotonicMicros \<Rightarrow> ActiveWork \<Rightarrow> MeasurementTransfer \<Rightarrow> bytes \<Rightarrow> ChannelEvent agent_outcome" where
  "measurement_answer self now active transfer payload =
     on_work self PW_Measurement CAE_Measurement (transfer_accept_response transfer payload) (\<lambda>outcome self.
       if outcome = MO_NotAccepted
       then retry_later self now (\<lambda>self.
         if attempts_exhausted self active then exhausted self
         else (Ok (EV_MeasurementNotAccepted (mt_node_address transfer)), self))
       else try_with (measurement_event (mt_node_address transfer) outcome) self (\<lambda>event.
         let (handed, self) = handoff_active_measurement self in try_with handed self (\<lambda>_. (Ok event, self))))"

definition time_answer :: "ChannelAgent \<Rightarrow> MonotonicMicros \<Rightarrow> TimeSyncAttempt \<Rightarrow> bytes \<Rightarrow> ChannelEvent agent_outcome" where
  "time_answer self now attempt payload =
     (let node_address = tsa_node_address attempt in
      case decode_time_response payload of
        Panic \<Rightarrow> (Panic, self)
      | Err (TWE_Remote _) \<Rightarrow> (Ok (EV_TimeSyncNotAccepted node_address), settle_active self)
      | Err error \<Rightarrow> (Err (CAE_TimeWire error), settle_active self)
      | Ok decoded \<Rightarrow>
          if ter_boot_epoch decoded \<noteq> tsa_expected_boot_epoch attempt
          then (Err CAE_TimeBootEpochMismatch, settle_active self)
          else case tsa_host_send_us attempt of
            None \<Rightarrow> (Err CAE_TimeRequestNotTransmitted, settle_active self)
          | Some host_send_us \<Rightarrow>
              (case clock_observation_new (ter_boot_epoch decoded) host_send_us (ter_node_receive_us decoded)
                      (ter_node_send_us decoded) now of
                 Ok observation \<Rightarrow> (Ok (EV_TimeObservation node_address observation), settle_active self)
               | Err error \<Rightarrow> (Ok (EV_TimeSyncInvalidObservation node_address error), settle_active self)
               | Panic \<Rightarrow> (Panic, self)))"

definition telemetry_answer :: "ChannelAgent \<Rightarrow> u8 \<Rightarrow> bytes \<Rightarrow> ChannelEvent agent_outcome" where
  "telemetry_answer self node_address payload =
     (case decode_telemetry_snapshot payload of
        Ok snapshot \<Rightarrow> (Ok (EV_TelemetrySnapshot node_address snapshot), settle_active self)
      | Err (TLE_Remote _) \<Rightarrow> (Ok (EV_TelemetryNotAccepted node_address), settle_active self)
      | Err error \<Rightarrow> (Err (CAE_TelemetryWire error), settle_active self)
      | Panic \<Rightarrow> (Panic, self))"

definition answer :: "ChannelAgent \<Rightarrow> MonotonicMicros \<Rightarrow> ActiveWork \<Rightarrow> bytes \<Rightarrow> ChannelEvent agent_outcome" where
  "answer self now active payload =
     (case aw_work active of
        PW_Handshake handshake \<Rightarrow> handshake_answer self now handshake payload
      | PW_StreamState node_address \<Rightarrow> stream_state_answer self now node_address payload
      | PW_Lifecycle operation \<Rightarrow> lifecycle_answer self now operation payload
      | PW_Configuration operation \<Rightarrow> configuration_answer self now operation payload
      | PW_Commissioning operation \<Rightarrow> commissioning_answer self now operation payload
      | PW_Measurement transfer \<Rightarrow> measurement_answer self now active transfer payload
      | PW_TimeSync attempt \<Rightarrow> time_answer self now attempt payload
      | PW_Telemetry node_address \<Rightarrow> telemetry_answer self node_address payload)"

definition agent_receive :: "ChannelAgent \<Rightarrow> MonotonicMicros \<Rightarrow> Frame \<Rightarrow> ChannelEvent agent_outcome" where
  "agent_receive self now frame =
     (let (disposition, transactions) = transaction_receive (cag_transactions self) now frame;
          self = self\<lparr>cag_transactions := transactions\<rparr>
      in try_with (map_err CAE_Transaction disposition) self (\<lambda>disposition.
           case disposition of
             Unrelated \<Rightarrow> (Ok EV_UnrelatedResponse, self)
           | Late \<Rightarrow> (Ok EV_LateResponse, self)
           | Unsolicited \<Rightarrow> (Ok EV_UnsolicitedResponse, self)
           | Accepted \<Rightarrow>
               (case cag_active self of
                  None \<Rightarrow> (Err CAE_InvariantViolation, self)
                | Some active \<Rightarrow>
                    try_with (map_err CAE_Frame (frame_payload frame)) self (\<lambda>payload. answer self now active payload))))"

definition take_completed_measurement :: "ChannelAgent \<Rightarrow> MeasurementTransfer option \<times> ChannelAgent" where
  "take_completed_measurement self = (cag_completed_measurement self, self\<lparr>cag_completed_measurement := None\<rparr>)"

definition completed_measurement_node :: "ChannelAgent \<Rightarrow> u8 option" where
  "completed_measurement_node self = map_option mt_node_address (cag_completed_measurement self)"

text \<open>\<open>pending.remove(position)\<close> at the first piece of work that matches.\<close>

fun remove_first :: "('a \<Rightarrow> bool) \<Rightarrow> 'a list \<Rightarrow> 'a list option" where
  "remove_first p [] = None"
| "remove_first p (x # xs) = (if p x then Some xs else map_option ((#) x) (remove_first p xs))"

definition abandon_control_work :: "ChannelAgent \<Rightarrow> ControlWorkKey \<Rightarrow> AbandonedControlWork agent_outcome" where
  "abandon_control_work self key =
     (if case cag_active self of Some active \<Rightarrow> matches_control_key (aw_work active) key | None \<Rightarrow> False
      then if cag_outbound self \<noteq> None \<or> \<not> transaction_is_idle (cag_transactions self)
           then (Err (CAE_ControlAttemptInFlight key), self)
           else (Ok (AC_Active key), settle_active self)
      else case remove_first (\<lambda>work. matches_control_key work key) (cag_pending self) of
             None \<Rightarrow> (Err (CAE_ControlWorkNotFound key), self)
           | Some rest \<Rightarrow> (Ok (AC_Queued key), self\<lparr>cag_pending := rest\<rparr>))"

end
