(* ===== verification/Host_Agent_Invariant.thy ===== *)
theory Host_Agent_Invariant
  imports Host_Agent "HOL-Library.Multiset"
begin

text \<open>
  What holds of the agent of a channel at all times: it holds at most its capacity of work, the transaction in flight is
  that of its active work, no measurement is lost, and identifiers are never shared.
\<close>

section \<open>Work\<close>

fun work_operation_id :: "PendingWork \<Rightarrow> u32 option" where
  "work_operation_id (PW_Lifecycle operation) = Some (rc_operation_id (lo_command operation))"
| "work_operation_id (PW_Configuration operation) = configuration_operation_id (co_request operation)"
| "work_operation_id (PW_Commissioning operation) = commissioning_operation_id (cmo_request operation)"
| "work_operation_id _ = None"

lemma work_uses_iff: "work_uses_operation_id w i \<longleftrightarrow> work_operation_id w = Some i"
  by (cases w) auto

fun work_transfer :: "PendingWork \<Rightarrow> u8 option" where
  "work_transfer (PW_Measurement transfer) = Some (mt_node_address transfer)"
| "work_transfer _ = None"

text \<open>The service a piece of work talks to.\<close>

fun work_service :: "PendingWork \<Rightarrow> u8" where
  "work_service (PW_Handshake _) = IDENTITY_SERVICE_ID"
| "work_service (PW_StreamState _) = service_code SID_Measurement"
| "work_service (PW_Lifecycle _) = LIFECYCLE_SERVICE_ID"
| "work_service (PW_Configuration _) = CONFIGURATION_SERVICE_ID"
| "work_service (PW_Commissioning _) = COMMISSIONING_SERVICE_ID"
| "work_service (PW_Measurement _) = service_code SID_Measurement"
| "work_service (PW_TimeSync _) = TIME_SERVICE_ID"
| "work_service (PW_Telemetry _) = TELEMETRY_SERVICE_ID"

fun work_ok :: "PendingWork \<Rightarrow> bool" where
  "work_ok (PW_Handshake h) \<longleftrightarrow> handshake_ok h \<and> nh_phase h \<noteq> HP_Ready"
| "work_ok (PW_Lifecycle operation) \<longleftrightarrow> lifecycle_valid operation"
| "work_ok (PW_Configuration operation) \<longleftrightarrow> configuration_valid operation"
| "work_ok (PW_Commissioning operation) \<longleftrightarrow> commissioning_valid operation"
| "work_ok (PW_Measurement transfer) \<longleftrightarrow> session_ok (mt_session transfer)"
| "work_ok _ \<longleftrightarrow> True"

text \<open>Work whose state says that a request of it is under way.\<close>

fun work_in_flight :: "PendingWork \<Rightarrow> bool" where
  "work_in_flight (PW_Lifecycle operation) \<longleftrightarrow> lo_phase operation = LP_AwaitingResponse"
| "work_in_flight (PW_Configuration operation) \<longleftrightarrow> co_phase operation = CP_AwaitingResponse"
| "work_in_flight (PW_Commissioning operation) \<longleftrightarrow> cmo_phase operation = CMP_AwaitingResponse"
| "work_in_flight (PW_Measurement transfer) \<longleftrightarrow> ns_phase (mt_session transfer) = SP_AwaitingPull"
| "work_in_flight _ \<longleftrightarrow> True"

text \<open>What every method of a piece of work leaves alone.\<close>

definition same_work :: "PendingWork \<Rightarrow> PendingWork \<Rightarrow> bool" where
  "same_work w w' \<longleftrightarrow> work_operation_id w' = work_operation_id w \<and> work_transfer w' = work_transfer w \<and>
     work_node_address w' = work_node_address w \<and> work_service w' = work_service w"

lemma lifecycle_kept_by:
  assumes "lifecycle_valid t"
  shows "fst (lifecycle_mark_timeout t) \<noteq> Panic" "fst (lifecycle_accept_response t p) \<noteq> Panic"
    "fst (lifecycle_begin_attempt t d) \<noteq> Panic"
    "lifecycle_valid (snd (lifecycle_mark_timeout t))" "lifecycle_valid (snd (lifecycle_accept_response t p))"
    "lifecycle_valid (snd (lifecycle_begin_attempt t d))"
    "same_work (PW_Lifecycle t) (PW_Lifecycle (snd (lifecycle_mark_timeout t)))"
    "same_work (PW_Lifecycle t) (PW_Lifecycle (snd (lifecycle_accept_response t p)))"
    "same_work (PW_Lifecycle t) (PW_Lifecycle (snd (lifecycle_begin_attempt t d)))"
proof -
  obtain e where e: "encode_lifecycle_request (lo_command t) = Ok e"
    using encode_lifecycle_request_eq assms [unfolded lifecycle_valid_def] by metis
  show "fst (lifecycle_mark_timeout t) \<noteq> Panic" "fst (lifecycle_accept_response t p) \<noteq> Panic"
    "fst (lifecycle_begin_attempt t d) \<noteq> Panic"
    "lifecycle_valid (snd (lifecycle_mark_timeout t))" "lifecycle_valid (snd (lifecycle_accept_response t p))"
    "lifecycle_valid (snd (lifecycle_begin_attempt t d))"
    "same_work (PW_Lifecycle t) (PW_Lifecycle (snd (lifecycle_mark_timeout t)))"
    "same_work (PW_Lifecycle t) (PW_Lifecycle (snd (lifecycle_accept_response t p)))"
    "same_work (PW_Lifecycle t) (PW_Lifecycle (snd (lifecycle_begin_attempt t d)))"
    using assms e lifecycle_response.decode_no_panic [of p]
    by (auto simp: lifecycle_defs lifecycle_valid_def same_work_def split: result.splits)
qed

lemma lifecycle_attempt:
  assumes "lifecycle_valid t" "lifecycle_begin_attempt t d = (Ok a, t')"
  shows "lo_phase t' = LP_AwaitingResponse" "rs_node_address (la_request a) = lo_node_address t"
    "rs_service (la_request a) = LIFECYCLE_SERVICE_ID" "\<exists>p. lifecycle_attempt_payload a = (Ok p :: (bytes, ChannelAgentError) result)"
proof -
  obtain e where e: "encode_lifecycle_request (lo_command t) = Ok e" and s: "slice_at (erc_payload e) 0 (erc_payload_size e) =
      (Ok :: bytes \<Rightarrow> (bytes, ChannelAgentError) result) (to_le_bytes 4 (rc_operation_id (lo_command t)) @ (if rc_operation (lo_command t) = RO_SetObservabilityProfile
         then [observability_code (rc_requested_profile (lo_command t))] else []))"
    using encode_lifecycle_request_eq assms(1) [unfolded lifecycle_valid_def] by metis
  from assms(2) e have a: "la_encoded a = e" "lo_phase t' = LP_AwaitingResponse" "rs_node_address (la_request a) = lo_node_address t"
    "rs_service (la_request a) = LIFECYCLE_SERVICE_ID" by (auto simp: lifecycle_begin_attempt_def split: if_splits)
  then show "lo_phase t' = LP_AwaitingResponse" "rs_node_address (la_request a) = lo_node_address t"
    "rs_service (la_request a) = LIFECYCLE_SERVICE_ID" by simp_all
  show "\<exists>p. lifecycle_attempt_payload a = (Ok p :: (bytes, ChannelAgentError) result)" using s a(1) by (simp add: lifecycle_attempt_payload_def)
qed

lemma configuration_kept_by:
  assumes "configuration_valid t"
  shows "fst (configuration_mark_timeout t) \<noteq> Panic" "fst (configuration_accept_response t p) \<noteq> Panic"
    "fst (configuration_begin_attempt t d) \<noteq> Panic"
    "configuration_valid (snd (configuration_mark_timeout t))" "configuration_valid (snd (configuration_accept_response t p))"
    "configuration_valid (snd (configuration_begin_attempt t d))"
    "same_work (PW_Configuration t) (PW_Configuration (snd (configuration_mark_timeout t)))"
    "same_work (PW_Configuration t) (PW_Configuration (snd (configuration_accept_response t p)))"
    "same_work (PW_Configuration t) (PW_Configuration (snd (configuration_begin_attempt t d)))"
proof -
  obtain rest where f: "configuration_fill (co_request t) (replicate APPLY_CONFIG_REQUEST_BYTES 0) =
      Ok (configuration_request_bytes (co_request t) @ rest, length (configuration_request_bytes (co_request t)))"
    using configuration_fill_valid assms [unfolded configuration_valid_def] by blast
  show "fst (configuration_mark_timeout t) \<noteq> Panic" "configuration_valid (snd (configuration_mark_timeout t))"
    "same_work (PW_Configuration t) (PW_Configuration (snd (configuration_mark_timeout t)))"
    "fst (configuration_begin_attempt t d) \<noteq> Panic" "configuration_valid (snd (configuration_begin_attempt t d))"
    "same_work (PW_Configuration t) (PW_Configuration (snd (configuration_begin_attempt t d)))"
    using assms f by (auto simp: configuration_mark_timeout_def configuration_begin_attempt_def configuration_valid_def same_work_def)
  show "fst (configuration_accept_response t p) \<noteq> Panic"
    using configuration_decode_no_panic [of "co_request t" p]
    by (cases "co_request t") (auto simp: configuration_accept_response_def map_ok_eq_Ok split: result.splits ConfigurationOutcome.splits)
  show "configuration_valid (snd (configuration_accept_response t p))"
    "same_work (PW_Configuration t) (PW_Configuration (snd (configuration_accept_response t p)))"
    using assms by (auto simp: configuration_accept_response_def configuration_valid_def same_work_def
      split: result.splits ConfigurationOutcome.splits option.splits)
qed

lemma configuration_attempt:
  assumes "configuration_valid t" "configuration_begin_attempt t d = (Ok a, t')"
  shows "co_phase t' = CP_AwaitingResponse" "rs_node_address (cfa_request a) = co_node_address t"
    "rs_service (cfa_request a) = CONFIGURATION_SERVICE_ID"
    "\<exists>p. configuration_attempt_payload a = (Ok p :: (bytes, ChannelAgentError) result)"
proof -
  obtain rest where "configuration_fill (co_request t) (replicate APPLY_CONFIG_REQUEST_BYTES 0) =
      Ok (configuration_request_bytes (co_request t) @ rest, length (configuration_request_bytes (co_request t)))"
    using configuration_fill_valid assms(1) [unfolded configuration_valid_def] by blast
  with assms(2) show "co_phase t' = CP_AwaitingResponse" "rs_node_address (cfa_request a) = co_node_address t"
    "rs_service (cfa_request a) = CONFIGURATION_SERVICE_ID"
    "\<exists>p. configuration_attempt_payload a = (Ok p :: (bytes, ChannelAgentError) result)"
    by (auto simp: configuration_begin_attempt_def configuration_attempt_payload_def slice_at_def split: if_splits)
qed

lemma commissioning_kept_by:
  assumes "commissioning_valid t"
  shows "fst (commissioning_mark_timeout t) \<noteq> Panic" "fst (commissioning_accept_response t p) \<noteq> Panic"
    "fst (commissioning_begin_attempt t d) \<noteq> Panic" "fst (mark_transmit_failed t) \<noteq> Panic"
    "commissioning_valid (snd (commissioning_mark_timeout t))" "commissioning_valid (snd (commissioning_accept_response t p))"
    "commissioning_valid (snd (commissioning_begin_attempt t d))" "commissioning_valid (snd (mark_transmit_failed t))"
    "same_work (PW_Commissioning t) (PW_Commissioning (snd (commissioning_mark_timeout t)))"
    "same_work (PW_Commissioning t) (PW_Commissioning (snd (commissioning_accept_response t p)))"
    "same_work (PW_Commissioning t) (PW_Commissioning (snd (commissioning_begin_attempt t d)))"
    "same_work (PW_Commissioning t) (PW_Commissioning (snd (mark_transmit_failed t)))"
proof -
  obtain rest recovery where f: "commissioning_fill (cmo_request t) (replicate ASSIGN_ADDRESS_REQUEST_BYTES 0) =
      Ok (fst (snd (commissioning_wire (cmo_request t))), snd (snd (commissioning_wire (cmo_request t))) @ rest,
          length (snd (snd (commissioning_wire (cmo_request t)))), recovery)"
    using commissioning_fill_valid assms [unfolded commissioning_valid_def] by blast
  show "fst (commissioning_mark_timeout t) \<noteq> Panic" "fst (mark_transmit_failed t) \<noteq> Panic"
    "fst (commissioning_begin_attempt t d) \<noteq> Panic"
    "commissioning_valid (snd (commissioning_mark_timeout t))" "commissioning_valid (snd (mark_transmit_failed t))"
    "commissioning_valid (snd (commissioning_begin_attempt t d))"
    "same_work (PW_Commissioning t) (PW_Commissioning (snd (commissioning_mark_timeout t)))"
    "same_work (PW_Commissioning t) (PW_Commissioning (snd (commissioning_begin_attempt t d)))"
    "same_work (PW_Commissioning t) (PW_Commissioning (snd (mark_transmit_failed t)))"
    using assms f by (auto simp: commissioning_mark_timeout_def mark_transmit_failed_def commissioning_begin_attempt_def
      commissioning_valid_def same_work_def)
  have "decode_probe_slot_response p \<noteq> Panic" "decode_assign_address_response p \<noteq> Panic"
    by (rule probe_response.decode_no_panic assign_response.decode_no_panic)+
  then show "fst (commissioning_accept_response t p) \<noteq> Panic" "commissioning_valid (snd (commissioning_accept_response t p))"
    "same_work (PW_Commissioning t) (PW_Commissioning (snd (commissioning_accept_response t p)))"
    using assms by (cases "cmo_request t"; cases "decode_probe_slot_response p"; cases "decode_assign_address_response p";
      auto simp: commissioning_accept_response_def commissioning_fail_def commissioning_valid_def same_work_def)+
qed

lemma commissioning_attempt:
  assumes "commissioning_valid t" "commissioning_begin_attempt t d = (Ok a, t')"
  shows "cmo_phase t' = CMP_AwaitingResponse" "rrs_response_source (cma_request a) = COMMISSIONING_ADDRESS"
    "rrs_service (cma_request a) = COMMISSIONING_SERVICE_ID"
    "\<exists>p. commissioning_attempt_payload a = (Ok p :: (bytes, ChannelAgentError) result)"
proof -
  obtain rest recovery where "commissioning_fill (cmo_request t) (replicate ASSIGN_ADDRESS_REQUEST_BYTES 0) =
      Ok (fst (snd (commissioning_wire (cmo_request t))), snd (snd (commissioning_wire (cmo_request t))) @ rest,
          length (snd (snd (commissioning_wire (cmo_request t)))), recovery)"
    using commissioning_fill_valid assms(1) [unfolded commissioning_valid_def] by blast
  with assms(2) show "cmo_phase t' = CMP_AwaitingResponse" "rrs_response_source (cma_request a) = COMMISSIONING_ADDRESS"
    "rrs_service (cma_request a) = COMMISSIONING_SERVICE_ID"
    "\<exists>p. commissioning_attempt_payload a = (Ok p :: (bytes, ChannelAgentError) result)"
    by (auto simp: commissioning_begin_attempt_def commissioning_attempt_payload_def slice_at_def split: if_splits)
qed

lemma transfer_session_ops:
  "mt_session (snd (mark_attempt_uncertain t)) = snd (session_apply (mt_session t) S_Abandon)"
  "mt_session (snd (transfer_begin_attempt t d)) = snd (session_apply (mt_session t) (S_BeginPull (mt_max_samples t)))"
  by (simp_all add: mark_attempt_uncertain_def transfer_begin_attempt_def snd_on_session split: try_with_split)

lemma transfer_session_answer:
  "\<exists>op. mt_session (snd (transfer_accept_response t p)) = snd (session_apply (mt_session t) op)"
proof (cases "decode_pull_response p")
  case (Ok r)
  then show ?thesis using accept_pull_response_session [of t r] by (auto simp: transfer_accept_response_def)
next
  case (Err e)
  then have "mt_session (snd (transfer_accept_response t p)) =
      snd (session_apply (mt_session t) (if e = MWE_RemoteError RS_Busy then S_Abandon else S_FailPull))"
    by (simp add: transfer_accept_response_def snd_on_session)
  then show ?thesis by blast
next
  case Panic
  then show ?thesis using pull_response.decode_no_panic by blast
qed

lemma on_session_address:
  assumes "\<And>x t. mt_node_address (snd (k x t)) = mt_node_address t"
  shows "mt_node_address (snd (on_session t out k)) = mt_node_address t"
  using assms by (cases out; cases "fst out") (auto simp: on_session_def Let_def)

lemma transfer_address:
  "mt_node_address (snd (mark_attempt_uncertain t)) = mt_node_address t"
  "mt_node_address (snd (transfer_begin_attempt t d)) = mt_node_address t"
  "mt_node_address (snd (transfer_accept_response t p)) = mt_node_address t"
proof -
  show "mt_node_address (snd (mark_attempt_uncertain t)) = mt_node_address t"
    "mt_node_address (snd (transfer_begin_attempt t d)) = mt_node_address t"
    by (simp_all add: mark_attempt_uncertain_def transfer_begin_attempt_def on_session_address split: try_with_split)
  show "mt_node_address (snd (transfer_accept_response t p)) = mt_node_address t"
  proof (cases "decode_pull_response p")
    case (Ok r)
    then show ?thesis by (cases r) (simp_all add: transfer_accept_response_def on_session_address)
  qed (simp_all add: transfer_accept_response_def on_session_address)
qed

lemma transfer_kept_by:
  assumes "session_ok (mt_session t)"
  shows "fst (mark_attempt_uncertain t) \<noteq> Panic" "fst (transfer_accept_response t p) \<noteq> Panic"
    "fst (transfer_begin_attempt t d) \<noteq> Panic"
    "session_ok (mt_session (snd (mark_attempt_uncertain t)))" "session_ok (mt_session (snd (transfer_accept_response t p)))"
    "session_ok (mt_session (snd (transfer_begin_attempt t d)))"
    "same_work (PW_Measurement t) (PW_Measurement (snd (mark_attempt_uncertain t)))"
    "same_work (PW_Measurement t) (PW_Measurement (snd (transfer_accept_response t p)))"
    "same_work (PW_Measurement t) (PW_Measurement (snd (transfer_begin_attempt t d)))"
proof -
  have r: "session_ok (snd (session_apply (mt_session t) op))" for op
    using session_refines [OF assms, of op] by (simp add: refines_def)
  then show "session_ok (mt_session (snd (mark_attempt_uncertain t)))" "session_ok (mt_session (snd (transfer_begin_attempt t d)))"
    "session_ok (mt_session (snd (transfer_accept_response t p)))"
    using transfer_session_ops transfer_session_answer [of t p] by metis+
  show "same_work (PW_Measurement t) (PW_Measurement (snd (mark_attempt_uncertain t)))"
    "same_work (PW_Measurement t) (PW_Measurement (snd (transfer_accept_response t p)))"
    "same_work (PW_Measurement t) (PW_Measurement (snd (transfer_begin_attempt t d)))"
    by (simp_all add: same_work_def transfer_address)
  show "fst (mark_attempt_uncertain t) \<noteq> Panic"
    by (simp add: mark_attempt_uncertain_def fst_on_session_Panic session_op_no_panic [OF assms])
  have "fst (begin_pull (mt_session t) (mt_max_samples t)) \<noteq> Panic"
    using session_apply_no_panic [OF assms, of "S_BeginPull (mt_max_samples t)"] labelled_no_panic by fastforce
  then show "fst (transfer_begin_attempt t d) \<noteq> Panic"
    by (auto simp: transfer_begin_attempt_def on_session_def Let_def result_iffs encode_pull_request_def measurement_sizes split: try_with_split)
  show "fst (transfer_accept_response t p) \<noteq> Panic"
    using pull_response.decode_no_panic [of p] accept_pull_response_no_panic [OF assms]
    by (cases "decode_pull_response p") (simp_all add: transfer_accept_response_def fst_on_session_Panic session_op_no_panic [OF assms])
qed

lemma transfer_attempt:
  assumes "transfer_begin_attempt t d = (Ok a, t')"
  shows "ns_phase (mt_session t') = SP_AwaitingPull" "rs_node_address (ma_request a) = mt_node_address t"
    "rs_service (ma_request a) = service_code SID_Measurement" "ns_phase (mt_session t) = SP_Ready"
proof -
  from assms obtain pull n where b: "begin_pull (mt_session t) (mt_max_samples t) = (Ok pull, n)" "mt_session t' = n"
    and r: "rs_node_address (ma_request a) = mt_node_address t" "rs_service (ma_request a) = service_code SID_Measurement"
    by (cases "begin_pull (mt_session t) (mt_max_samples t)")
      (auto simp: transfer_begin_attempt_def on_session_def Let_def result_iffs)
  from b(1) have "ns_phase n = SP_AwaitingPull" "ns_phase (mt_session t) = SP_Ready"
    by (auto simp: begin_pull_def require_phase_def result_iffs split: if_splits)
  with b(2) r show "ns_phase (mt_session t') = SP_AwaitingPull" "rs_node_address (ma_request a) = mt_node_address t"
    "rs_service (ma_request a) = service_code SID_Measurement" "ns_phase (mt_session t) = SP_Ready" by simp_all
qed

lemmas kept_by = lifecycle_kept_by configuration_kept_by commissioning_kept_by transfer_kept_by

section \<open>The invariant\<close>

text \<open>The work an agent still has to do, the active work first.\<close>

definition works :: "ChannelAgent \<Rightarrow> PendingWork list" where
  "works a = (case cag_active a of None \<Rightarrow> [] | Some active \<Rightarrow> [aw_work active]) @ cag_pending a"

definition operation_ids :: "ChannelAgent \<Rightarrow> u32 list" where
  "operation_ids a = List.map_filter work_operation_id (works a)"

text \<open>The nodes whose measurement transfers an agent holds.\<close>

definition held_measurements :: "ChannelAgent \<Rightarrow> u8 multiset" where
  "held_measurements a = mset (List.map_filter work_transfer (works a)) +
     (case cag_completed_measurement a of None \<Rightarrow> {#} | Some t \<Rightarrow> {#mt_node_address t#})"

text \<open>A request under way, given by the node that is to answer and its service, is that of the active work.\<close>

definition serves :: "ChannelAgent \<Rightarrow> u8 \<Rightarrow> u8 \<Rightarrow> bool" where
  "serves a node service \<longleftrightarrow> (case cag_active a of None \<Rightarrow> False | Some active \<Rightarrow>
     work_in_flight (aw_work active) \<and> node = work_node_address (aw_work active) \<and> service = work_service (aw_work active))"

definition line_ok :: "ChannelAgent \<Rightarrow> bool" where
  "line_ok a \<longleftrightarrow> (case tc_state (cag_transactions a) of
       Transmitting p \<Rightarrow> serves a (pt_node_address p) (pt_service p) \<and>
         (\<forall>f. cag_outbound a = Some f \<longrightarrow> (\<exists>payload. prepared_request_frame p payload = Ok f))
     | Awaiting t \<Rightarrow> serves a (at_node_address t) (at_service t) \<and> cag_outbound a = None
     | _ \<Rightarrow> cag_outbound a = None)"

definition agent_ok :: "ChannelAgent \<Rightarrow> bool" where
  "agent_ok a \<longleftrightarrow> queued_work_items a \<le> cpy_max_pending_work_items (cag_policy a) \<and> list_all work_ok (works a) \<and>
     distinct (operation_ids a) \<and> cag_next_operation_id a \<noteq> 0 \<and>
     (cag_completed_measurement a \<noteq> None \<longrightarrow> cag_active a = None) \<and> line_ok a"

text \<open>A line on which nothing is under way.\<close>

definition line_free :: "ChannelAgent \<Rightarrow> bool" where
  "line_free a \<longleftrightarrow> cag_outbound a = None \<and> (\<forall>p. tc_state (cag_transactions a) \<noteq> Transmitting p) \<and>
     (\<forall>t. tc_state (cag_transactions a) \<noteq> Awaiting t)"

lemma line_ok_free: "line_free a \<Longrightarrow> line_ok a"
  by (auto simp: line_free_def line_ok_def split: TransactionState.splits)

lemma map_filter_Cons: "List.map_filter f (x # xs) = (case f x of None \<Rightarrow> [] | Some y \<Rightarrow> [y]) @ List.map_filter f xs"
  by (simp add: List.map_filter_def split: option.splits)

lemma map_filter_append: "List.map_filter f (xs @ ys) = List.map_filter f xs @ List.map_filter f ys"
  by (simp add: List.map_filter_def)

lemma map_filter_Nil: "List.map_filter f [] = []"
  by (simp add: List.map_filter_def)

lemmas map_filters = map_filter_Nil map_filter_Cons map_filter_append

lemma works_simps [simp]:
  "works (a\<lparr>cag_transactions := t\<rparr>) = works a" "works (a\<lparr>cag_outbound := f\<rparr>) = works a"
  "works (a\<lparr>cag_completed_measurement := m\<rparr>) = works a" "works (a\<lparr>cag_next_operation_id := i\<rparr>) = works a"
  "works (a\<lparr>cag_pending := ws\<rparr>) = (case cag_active a of None \<Rightarrow> [] | Some active \<Rightarrow> [aw_work active]) @ ws"
  "works (a\<lparr>cag_active := Some active\<rparr>) = aw_work active # cag_pending a"
  "works (a\<lparr>cag_active := None\<rparr>) = cag_pending a"
  by (simp_all add: works_def)

lemma works_active: "cag_active a = Some active \<Longrightarrow> works a = aw_work active # cag_pending a"
  by (simp add: works_def)

text \<open>The outcome of a call that keeps the invariant, the policy and the measurements it holds.\<close>

definition sound :: "ChannelAgent \<Rightarrow> 'a agent_outcome \<Rightarrow> bool" where
  "sound a out \<longleftrightarrow> fst out \<noteq> Panic \<and> fst out \<noteq> Err CAE_InvariantViolation \<and> agent_ok (snd out) \<and>
     cag_policy (snd out) = cag_policy a \<and> held_measurements (snd out) = held_measurements a"

lemma soundI:
  "\<lbrakk>r \<noteq> Panic; r \<noteq> Err CAE_InvariantViolation; agent_ok a'; cag_policy a' = cag_policy a;
    held_measurements a' = held_measurements a\<rbrakk> \<Longrightarrow> sound a (r, a')"
  by (simp add: sound_def)

lemma agent_sound_try:
  assumes "r \<noteq> Panic" "r \<noteq> Err CAE_InvariantViolation" "agent_ok a'" "cag_policy a' = cag_policy a"
    "held_measurements a' = held_measurements a" "\<And>x. r = Ok x \<Longrightarrow> sound a (k x)"
  shows "sound a (try_with r a' k)"
  using assms by (cases r) (auto simp: sound_def)

lemma sound_from:
  assumes "sound b out" "cag_policy b = cag_policy a" "held_measurements b = held_measurements a"
  shows "sound a out"
  using assms by (simp add: sound_def)

lemma held_active:
  assumes "cag_active a = Some active" "work_transfer w = work_transfer (aw_work active)"
  shows "held_measurements (a\<lparr>cag_active := Some (active\<lparr>aw_work := w\<rparr>)\<rparr>) = held_measurements a"
  using assms by (simp add: held_measurements_def works_active map_filters)

lemma agent_ok_active:
  assumes "agent_ok a" "line_free a" "cag_active a = Some active" "work_ok w" "same_work (aw_work active) w" "aw_work active' = w"
  shows "agent_ok (a\<lparr>cag_active := Some active'\<rparr>)" "line_free (a\<lparr>cag_active := Some active'\<rparr>)"
    "held_measurements (a\<lparr>cag_active := Some active'\<rparr>) = held_measurements a"
proof -
  show f: "line_free (a\<lparr>cag_active := Some active'\<rparr>)" using assms(2) by (simp add: line_free_def)
  show "agent_ok (a\<lparr>cag_active := Some active'\<rparr>)"
    using assms line_ok_free [OF f]
    by (simp add: agent_ok_def works_active queued_work_items_def operation_ids_def map_filters same_work_def)
  show "held_measurements (a\<lparr>cag_active := Some active'\<rparr>) = held_measurements a"
    using assms by (simp add: held_measurements_def works_active map_filters same_work_def)
qed

lemma sound_on_work:
  assumes "agent_ok a" "line_free a" "cag_active a = Some active" "work_ok (W (snd out))" "same_work (aw_work active) (W (snd out))"
    "fst out \<noteq> Panic" "\<And>e. E e \<noteq> CAE_InvariantViolation"
    "\<And>x b. \<lbrakk>fst out = Ok x; agent_ok b; line_free b; b = a\<lparr>cag_active := Some (active\<lparr>aw_work := W (snd out)\<rparr>)\<rparr>\<rbrakk> \<Longrightarrow> sound b (k x b)"
  shows "sound a (on_work a W E out k)"
proof -
  let ?b = "a\<lparr>cag_active := Some (active\<lparr>aw_work := W (snd out)\<rparr>)\<rparr>"
  have b: "agent_ok ?b" "line_free ?b" "held_measurements ?b = held_measurements a"
    by (rule agent_ok_active [OF assms(1-5)], simp)+
  have "sound a (k x ?b)" if "fst out = Ok x" for x
    by (rule sound_from [OF assms(8) [OF that b(1,2) refl]]) (simp_all add: b(3))
  moreover have "\<forall>e. E e \<noteq> CAE_InvariantViolation" using assms(7) by blast
  ultimately show ?thesis
    using b assms(3,6) by (cases "fst out") (auto simp: on_work_def Let_def sound_def)
qed

lemma sound_retry:
  assumes "agent_ok a" "line_free a" "cag_active a = Some active"
    "\<And>t b. \<lbrakk>agent_ok b; line_free b; b = a\<lparr>cag_active := Some (active\<lparr>aw_retry_not_before := t\<rparr>)\<rparr>\<rbrakk> \<Longrightarrow> sound b (k b)"
  shows "sound a (retry_later a now k)"
proof -
  have w: "work_ok (aw_work active)" using assms(1,3) by (simp add: agent_ok_def works_active)
  have b: "agent_ok (a\<lparr>cag_active := Some (active\<lparr>aw_retry_not_before := t\<rparr>)\<rparr>)"
      "line_free (a\<lparr>cag_active := Some (active\<lparr>aw_retry_not_before := t\<rparr>)\<rparr>)"
      "held_measurements (a\<lparr>cag_active := Some (active\<lparr>aw_retry_not_before := t\<rparr>)\<rparr>) = held_measurements a" for t
    by (rule agent_ok_active [OF assms(1-3) w], simp_all add: same_work_def)+
  show ?thesis unfolding retry_later_def assms(3) option.map
  proof (rule agent_sound_try)
    fix t
    show "sound a (k (a\<lparr>cag_active := Some (active\<lparr>aw_retry_not_before := t\<rparr>)\<rparr>))"
      by (rule sound_from [OF assms(4) [OF b(1,2) refl]]) (simp_all add: b(3))
  qed (use assms(1) in \<open>auto simp: ok_or_eq_Err\<close>)
qed

lemma settle_ok:
  assumes "agent_ok a" "line_free a"
  shows "agent_ok (settle_active a)" "cag_policy (settle_active a) = cag_policy a"
proof -
  have "line_free (settle_active a)" using assms(2) by (simp add: line_free_def settle_active_def)
  then show "agent_ok (settle_active a)" using assms(1)
    by (cases "cag_active a") (auto simp: agent_ok_def settle_active_def works_active works_def queued_work_items_def operation_ids_def
      map_filters line_ok_free split: if_splits option.splits)
qed (simp add: settle_active_def)

lemma sound_settle:
  assumes "agent_ok a" "line_free a" "cag_active a = Some active" "work_transfer (aw_work active) = None"
    "r \<noteq> Panic" "r \<noteq> Err CAE_InvariantViolation"
  shows "sound a (r, settle_active a)"
  using assms settle_ok [OF assms(1,2)]
  by (auto simp: sound_def held_measurements_def settle_active_def works_active map_filters)

lemma sound_stay:
  assumes "agent_ok a" "r \<noteq> Panic" "r \<noteq> Err CAE_InvariantViolation"
  shows "sound a (r, a)"
  using assms by (simp add: sound_def)

lemma sound_handoff:
  assumes "agent_ok a" "line_free a" "cag_active a = Some active" "aw_work active = PW_Measurement t"
  shows "handoff_active_measurement a = (Ok (mt_node_address t), a\<lparr>cag_active := None, cag_completed_measurement := Some t\<rparr>)"
    "sound a (r, a\<lparr>cag_active := None, cag_completed_measurement := Some t\<rparr>) \<longleftrightarrow> r \<noteq> Panic \<and> r \<noteq> Err CAE_InvariantViolation"
proof -
  let ?b = "a\<lparr>cag_active := None, cag_completed_measurement := Some t\<rparr>"
  have c: "cag_completed_measurement a = None" using assms(1,3) by (auto simp: agent_ok_def)
  then show "handoff_active_measurement a = (Ok (mt_node_address t), ?b)"
    using assms(3,4) by (simp add: handoff_active_measurement_def)
  have "line_free ?b" using assms(2) by (simp add: line_free_def)
  then have "agent_ok ?b" using assms c
    by (auto simp: agent_ok_def works_active queued_work_items_def operation_ids_def map_filters line_ok_free)
  moreover have "held_measurements ?b = held_measurements a"
    using assms c by (simp add: held_measurements_def works_active map_filters)
  ultimately show "sound a (r, ?b) \<longleftrightarrow> r \<noteq> Panic \<and> r \<noteq> Err CAE_InvariantViolation" by (simp add: sound_def)
qed

lemma sound_exhausted:
  assumes "agent_ok a" "line_free a" "cag_active a = Some active" "aw_work active = PW_Measurement t"
  shows "sound a (exhausted a)"
  by (simp add: exhausted_def sound_handoff [OF assms])

section \<open>Every call keeps the invariant\<close>

lemma active_work_ok: "agent_ok a \<Longrightarrow> cag_active a = Some active \<Longrightarrow> work_ok (aw_work active)"
  by (simp add: agent_ok_def works_active)

lemma work_timed_out_sound:
  assumes "agent_ok a" "line_free a" "cag_active a = Some active"
  shows "sound a (work_timed_out a now)"
proof -
  note w = active_work_ok [OF assms(1,3)] and work = sound_on_work [OF assms] and retry = sound_retry [OF assms]
  show ?thesis
  proof (cases "aw_work active")
    case (PW_Lifecycle t)
    with w show ?thesis unfolding work_timed_out_def assms(3)
      by (simp add: PW_Lifecycle) (rule work, auto simp: PW_Lifecycle kept_by intro: sound_retry sound_stay)
  next
    case (PW_Configuration t)
    with w show ?thesis unfolding work_timed_out_def assms(3)
      by (simp add: PW_Configuration) (rule work, auto simp: PW_Configuration kept_by intro: sound_retry sound_stay)
  next
    case (PW_Commissioning t)
    with w show ?thesis unfolding work_timed_out_def assms(3)
      by (simp add: PW_Commissioning) (rule work, auto simp: PW_Commissioning kept_by
          intro: sound_retry sound_stay sound_settle split: CommissioningRequest.split)
  next
    case (PW_Measurement t)
    with w show ?thesis unfolding work_timed_out_def assms(3)
      by (simp add: PW_Measurement) (rule work, auto simp: PW_Measurement kept_by
          intro!: sound_retry sound_stay sound_exhausted)
  qed (auto simp: work_timed_out_def assms(3) intro!: retry intro: sound_stay sound_settle)
qed

text \<open>A request that is prepared belongs to the active work, whether or not its frame can be made.\<close>

lemma prepared_frame_sound:
  assumes "agent_ok a" "line_free a" "cag_active a = Some active" "work_in_flight (aw_work active)"
    "prepared = (Err e, cag_transactions a) \<or>
     (\<exists>p i. prepared = (Ok p, (cag_transactions a)\<lparr>tc_next_transaction_id := i, tc_state := Transmitting p\<rparr>) \<and>
        pt_node_address p = work_node_address (aw_work active) \<and> pt_service p = work_service (aw_work active))"
    "\<exists>x. payload = Ok x"
  shows "sound a (prepared_frame a prepared payload)"
  using assms(5)
proof
  assume p: "prepared = (Err e, cag_transactions a)"
  have "a\<lparr>cag_transactions := cag_transactions a\<rparr> = a" by simp
  with assms(1) show ?thesis by (simp add: prepared_frame_def p sound_def)
next
  assume "\<exists>p i. prepared = (Ok p, (cag_transactions a)\<lparr>tc_next_transaction_id := i, tc_state := Transmitting p\<rparr>) \<and>
        pt_node_address p = work_node_address (aw_work active) \<and> pt_service p = work_service (aw_work active)"
  then obtain p i where p: "prepared = (Ok p, (cag_transactions a)\<lparr>tc_next_transaction_id := i, tc_state := Transmitting p\<rparr>)"
    "pt_node_address p = work_node_address (aw_work active)" "pt_service p = work_service (aw_work active)" by blast
  let ?b = "a\<lparr>cag_transactions := (cag_transactions a)\<lparr>tc_next_transaction_id := i, tc_state := Transmitting p\<rparr>\<rparr>"
  have b: "agent_ok (?b\<lparr>cag_outbound := f\<rparr>)" if "\<forall>g. f = Some g \<longrightarrow> (\<exists>x. prepared_request_frame p x = Ok g)" for f
    using assms p that by (simp add: agent_ok_def line_ok_def serves_def queued_work_items_def operation_ids_def)
  have n: "?b = ?b\<lparr>cag_outbound := None\<rparr>" using assms(2) by (simp add: line_free_def)
  have none: "agent_ok ?b" using b [of None] n by simp
  obtain x where x: "payload = Ok x" using assms(6) by blast
  have h: "held_measurements (?b\<lparr>cag_outbound := f\<rparr>) = held_measurements a" "held_measurements ?b = held_measurements a" for f
    by (simp_all add: held_measurements_def)
  show ?thesis
  proof (cases "prepared_request_frame p x")
    case (Ok f)
    then have "agent_ok (?b\<lparr>cag_outbound := Some f\<rparr>)" by (intro b) auto
    with Ok show ?thesis using h by (simp add: prepared_frame_def p(1) x sound_def)
  next
    case (Err y)
    then show ?thesis using none h by (simp add: prepared_frame_def p(1) x sound_def)
  next
    case Panic
    then show ?thesis by (simp add: prepared_request_frame_def)
  qed
qed

lemma send_sound:
  assumes "agent_ok a" "line_free a" "cag_active a = Some active" "work_in_flight (aw_work active)"
    "rs_node_address r = work_node_address (aw_work active)" "rs_service r = work_service (aw_work active)" "\<exists>x. payload = Ok x"
    "tc = cag_transactions a"
  shows "sound a (prepared_frame a (transaction_prepare tc r) payload)"
proof -
  have "\<exists>e. transaction_prepare (cag_transactions a) r = (Err e, cag_transactions a) \<or> (\<exists>p i. transaction_prepare (cag_transactions a) r =
      (Ok p, (cag_transactions a)\<lparr>tc_next_transaction_id := i, tc_state := Transmitting p\<rparr>) \<and>
        pt_node_address p = work_node_address (aw_work active) \<and> pt_service p = work_service (aw_work active))"
    using assms(5,6) by (auto simp: transaction_prepare_def Let_def)
  then show ?thesis unfolding assms(8) by (elim exE) (rule prepared_frame_sound [OF assms(1-4) _ assms(7)])
qed

lemma send_routed_sound:
  assumes "agent_ok a" "line_free a" "cag_active a = Some active" "work_in_flight (aw_work active)"
    "rrs_response_source r = work_node_address (aw_work active)" "rrs_service r = work_service (aw_work active)" "\<exists>x. payload = Ok x"
    "tc = cag_transactions a"
  shows "sound a (prepared_frame a (transaction_prepare_routed tc r) payload)"
proof -
  have "\<exists>e. transaction_prepare_routed (cag_transactions a) r = (Err e, cag_transactions a) \<or>
      (\<exists>p i. transaction_prepare_routed (cag_transactions a) r =
        (Ok p, (cag_transactions a)\<lparr>tc_next_transaction_id := i, tc_state := Transmitting p\<rparr>) \<and>
        pt_node_address p = work_node_address (aw_work active) \<and> pt_service p = work_service (aw_work active))"
    using assms(5,6) by (auto simp: transaction_prepare_routed_def Let_def)
  then show ?thesis unfolding assms(8) by (elim exE) (rule prepared_frame_sound [OF assms(1-4) _ assms(7)])
qed

lemma start_attempt_sound:
  assumes "agent_ok a" "line_free a" "cag_active a = Some active"
  shows "sound a (start_attempt a active)"
proof -
  note w = active_work_ok [OF assms(1,3)] and work = sound_on_work [OF assms] and send = send_sound [OF assms]
  show ?thesis
  proof (cases "aw_work active")
    case (PW_Handshake h)
    with w show ?thesis
      by (cases "nh_phase h") (auto simp: start_attempt_def Let_def identity_request_def capabilities_request_def intro!: send)
  next
    case (PW_Lifecycle t)
    with w have t: "lifecycle_valid t" by simp
    have "sound b (send b (la_request x) (lifecycle_attempt_payload x))"
      if "fst (lifecycle_begin_attempt t d) = Ok x" "agent_ok b" "line_free b"
        "b = a\<lparr>cag_active := Some (active\<lparr>aw_work := PW_Lifecycle (snd (lifecycle_begin_attempt t d))\<rparr>)\<rparr>" for x b d
      using that lifecycle_attempt [OF t, of d x "snd (lifecycle_begin_attempt t d)"] kept_by(9) [OF t, of d]
      by (cases "lifecycle_begin_attempt t d") (auto simp: same_work_def intro!: send_sound)
    with t show ?thesis
      by (auto simp: start_attempt_def PW_Lifecycle Let_def kept_by intro!: work sound_stay assms(1))
  next
    case (PW_Configuration t)
    with w have t: "configuration_valid t" by simp
    have "sound b (send b (cfa_request x) (configuration_attempt_payload x))"
      if "fst (configuration_begin_attempt t d) = Ok x" "agent_ok b" "line_free b"
        "b = a\<lparr>cag_active := Some (active\<lparr>aw_work := PW_Configuration (snd (configuration_begin_attempt t d))\<rparr>)\<rparr>" for x b d
      using that configuration_attempt [OF t, of d x "snd (configuration_begin_attempt t d)"] kept_by(18) [OF t, of d]
      by (cases "configuration_begin_attempt t d") (auto simp: same_work_def intro!: send_sound)
    with t show ?thesis
      by (auto simp: start_attempt_def PW_Configuration Let_def kept_by intro!: work sound_stay assms(1))
  next
    case (PW_Commissioning t)
    with w have t: "commissioning_valid t" by simp
    have "sound b (prepared_frame b (transaction_prepare_routed (cag_transactions b) (cma_request x)) (commissioning_attempt_payload x))"
      if "fst (commissioning_begin_attempt t d) = Ok x" "agent_ok b" "line_free b"
        "b = a\<lparr>cag_active := Some (active\<lparr>aw_work := PW_Commissioning (snd (commissioning_begin_attempt t d))\<rparr>)\<rparr>" for x b d
      using that commissioning_attempt [OF t, of d x "snd (commissioning_begin_attempt t d)"]
      by (cases "commissioning_begin_attempt t d") (auto intro!: send_routed_sound)
    with t show ?thesis
      by (auto simp: start_attempt_def PW_Commissioning Let_def kept_by intro!: work sound_stay assms(1))
  next
    case (PW_Measurement t)
    with w have t: "session_ok (mt_session t)" by simp
    have "sound b (send (b\<lparr>cag_active := map_option (\<lambda>active. active\<lparr>aw_attempts_started :=
          saturating_add (aw_attempts_started active) 1\<rparr>) (cag_active b)\<rparr>) (ma_request x) (Ok (ma_payload x)))"
      if x: "fst (transfer_begin_attempt t d) = Ok x" and b: "agent_ok b" "line_free b"
        "b = a\<lparr>cag_active := Some (active\<lparr>aw_work := PW_Measurement (snd (transfer_begin_attempt t d))\<rparr>)\<rparr>" for x b d
    proof -
      let ?active = "active\<lparr>aw_work := PW_Measurement (snd (transfer_begin_attempt t d))\<rparr>"
      let ?next = "?active\<lparr>aw_attempts_started := saturating_add (aw_attempts_started ?active) 1\<rparr>"
      let ?b = "b\<lparr>cag_active := Some ?next\<rparr>"
      have ba: "cag_active b = Some ?active" using b(3) by simp
      have k: "agent_ok ?b" "line_free ?b" "held_measurements ?b = held_measurements b"
        by (rule agent_ok_active [OF b(1,2) ba], use kept_by(36) [OF t] in \<open>simp_all add: t kept_by same_work_def\<close>)+
      have "sound ?b (send ?b (ma_request x) (Ok (ma_payload x)))"
        using x transfer_attempt [of t d x "snd (transfer_begin_attempt t d)"] transfer_address(2) [of t d]
        by (intro send_sound [OF k(1,2), of ?next]) (cases "transfer_begin_attempt t d", simp)+
      from sound_from [OF this _ k(3)] show ?thesis by (simp add: ba)
    qed
    with t show ?thesis
      by (auto simp: start_attempt_def PW_Measurement Let_def kept_by intro!: work)
  next
    case (PW_TimeSync t)
    let ?active = "active\<lparr>aw_work := PW_TimeSync (t\<lparr>tsa_host_send_us := None\<rparr>)\<rparr>"
    let ?b = "a\<lparr>cag_active := Some ?active\<rparr>"
    have k: "agent_ok ?b" "line_free ?b" "held_measurements ?b = held_measurements a"
      by (rule agent_ok_active [OF assms, where w = "PW_TimeSync (t\<lparr>tsa_host_send_us := None\<rparr>)"], simp_all add: PW_TimeSync same_work_def)+
    have "sound ?b (start_attempt a active)"
      using k(1,2) by (auto simp: start_attempt_def PW_TimeSync Let_def exchange_request_def intro!: send_sound)
    then show ?thesis by (rule sound_from) (simp_all add: k(3))
  qed (auto simp: start_attempt_def Let_def exchange_request_def intro!: send)
qed

lemma activate_next_ok:
  assumes "agent_ok a" "line_ok (activate_next a now) \<or> line_free a" "cag_completed_measurement a = None"
  shows "agent_ok (activate_next a now)" "cag_policy (activate_next a now) = cag_policy a"
    "held_measurements (activate_next a now) = held_measurements a"
    "line_free a \<Longrightarrow> line_free (activate_next a now)"
    "cag_transactions (activate_next a now) = cag_transactions a"
proof -
  show "cag_policy (activate_next a now) = cag_policy a" "cag_transactions (activate_next a now) = cag_transactions a"
    and f: "line_free a \<Longrightarrow> line_free (activate_next a now)"
    by (auto simp: activate_next_def line_free_def split: option.split list.split)
  have w: "works (activate_next a now) = works a" "cag_next_operation_id (activate_next a now) = cag_next_operation_id a"
      "queued_work_items (activate_next a now) = queued_work_items a" "cag_completed_measurement (activate_next a now) = None"
    using assms(3) by (auto simp: activate_next_def works_def queued_work_items_def split: option.split list.split)
  then show "held_measurements (activate_next a now) = held_measurements a" by (simp add: held_measurements_def assms(3))
  have "line_ok (activate_next a now)" using assms(2) f line_ok_free by blast
  then show "agent_ok (activate_next a now)" using assms(1) w \<open>cag_policy (activate_next a now) = cag_policy a\<close>
    by (simp add: agent_ok_def operation_ids_def)
qed

lemma activate_next_line:
  assumes "agent_ok a"
  shows "line_ok (activate_next a now) \<or> line_free a"
proof (cases "cag_active a")
  case (Some active)
  then show ?thesis using assms by (simp add: activate_next_def agent_ok_def)
next
  case None
  with assms have "line_free a"
    by (auto simp: agent_ok_def line_ok_def serves_def line_free_def split: TransactionState.splits)
  then show ?thesis ..
qed

lemma poll_work_sound:
  assumes "agent_ok a" "cag_completed_measurement a = None" "cag_outbound a = None"
  shows "sound a (poll_work a now)"
proof -
  let ?b = "activate_next a now"
  note b = activate_next_ok [OF assms(1) activate_next_line [OF assms(1), of now] assms(2)]
  have "sound ?b (case cag_active ?b of None \<Rightarrow> (Ok EV_Idle, ?b) | Some active \<Rightarrow>
      if now < aw_retry_not_before active \<or> \<not> transaction_is_idle (cag_transactions ?b) then (Ok EV_Idle, ?b)
      else start_attempt ?b active)"
  proof (cases "cag_active ?b")
    case (Some active)
    have "line_free ?b" if "transaction_is_idle (cag_transactions ?b)"
      using that assms(3) b(4,5) by (simp add: line_free_def transaction_is_idle_def)
    with start_attempt_sound [OF b(1) _ Some] Some b(1) show ?thesis by (auto intro: sound_stay)
  qed (simp add: b(1) sound_stay)
  then show ?thesis unfolding poll_work_def Let_def by (rule sound_from) (simp_all add: b)
qed

text \<open>Only the transaction core changes: what is left to show is that the line is in order.\<close>

lemma agent_ok_line:
  assumes "agent_ok a" "line_ok (a\<lparr>cag_outbound := f, cag_transactions := tc\<rparr>)"
  shows "agent_ok (a\<lparr>cag_outbound := f, cag_transactions := tc\<rparr>)"
    "held_measurements (a\<lparr>cag_outbound := f, cag_transactions := tc\<rparr>) = held_measurements a"
  using assms by (simp_all add: agent_ok_def queued_work_items_def operation_ids_def held_measurements_def)

lemma agent_ok_core:
  assumes "agent_ok a" "line_ok (a\<lparr>cag_transactions := tc\<rparr>)"
  shows "agent_ok (a\<lparr>cag_transactions := tc\<rparr>)" "held_measurements (a\<lparr>cag_transactions := tc\<rparr>) = held_measurements a"
  using assms by (simp_all add: agent_ok_def queued_work_items_def operation_ids_def held_measurements_def)

lemma quarantined_free:
  assumes "agent_ok a" "tc_state (cag_transactions a) = Awaiting t"
  shows "line_free (a\<lparr>cag_transactions := (cag_transactions a)\<lparr>tc_state := s\<rparr>\<rparr>) \<longleftrightarrow> (\<forall>p. s \<noteq> Transmitting p) \<and> (\<forall>t. s \<noteq> Awaiting t)"
    "\<exists>active. cag_active a = Some active \<and> work_in_flight (aw_work active) \<and>
       at_node_address t = work_node_address (aw_work active) \<and> at_service t = work_service (aw_work active)"
  using assms by (auto simp: agent_ok_def line_ok_def serves_def line_free_def split: option.splits)

lemma poll_sound:
  assumes "agent_ok a"
  shows "sound a (poll a now)"
proof (cases "cag_outbound a = None \<and> cag_completed_measurement a = None")
  case False
  then show ?thesis using assms by (auto simp: poll_def intro: sound_stay split: option.splits)
next
  case True
  let ?tc = "cag_transactions a"
  have same: "a\<lparr>cag_transactions := ?tc\<rparr> = a" by simp
  show ?thesis
  proof (cases "tc_state ?tc")
    case (Awaiting t)
    show ?thesis
    proof (cases "now \<le> at_deadline t")
      case True
      then show ?thesis using \<open>cag_outbound a = None \<and> _\<close> poll_work_sound [OF assms]
        by (simp add: poll_def on_timer_def Awaiting same)
    next
      case False
      show ?thesis
      proof (rule enter_quarantine_cases [of ?tc t])
        assume "enter_quarantine ?tc t = (Err TE_TimeOverflow, ?tc)"
        with False True show ?thesis using assms by (simp add: poll_def on_timer_def Awaiting same sound_stay)
      next
        fix u assume q: "enter_quarantine ?tc t = (Ok u, ?tc\<lparr>tc_state := Quarantine t u\<rparr>)"
        let ?b = "a\<lparr>cag_transactions := ?tc\<lparr>tc_state := Quarantine t u\<rparr>\<rparr>"
        have f: "line_free ?b" using quarantined_free(1) [OF assms Awaiting] by simp
        note b = agent_ok_core [OF assms line_ok_free [OF f]]
        obtain active where active: "cag_active ?b = Some active" using quarantined_free(2) [OF assms Awaiting] by auto
        have "sound ?b (work_timed_out ?b now)" by (rule work_timed_out_sound [OF b(1) f active])
        with False True q show ?thesis by (simp add: poll_def on_timer_def Awaiting sound_def b(2))
      qed
    qed
  next
    case (Quarantine t u)
    show ?thesis
    proof (cases "now < u")
      case True
      then show ?thesis using \<open>cag_outbound a = None \<and> _\<close> poll_work_sound [OF assms]
        by (simp add: poll_def on_timer_def Quarantine same)
    next
      case False
      have f: "line_free (a\<lparr>cag_transactions := ?tc\<lparr>tc_state := Idle\<rparr>\<rparr>)" using True by (simp add: line_free_def)
      show ?thesis using False True agent_ok_core [OF assms line_ok_free [OF f]]
        by (simp add: poll_def on_timer_def Quarantine sound_def)
    qed
  qed (use True poll_work_sound [OF assms] in \<open>simp_all add: poll_def on_timer_def same\<close>)
qed

lemma take_outbound_sound: "agent_ok a \<Longrightarrow> sound a (Ok x, snd (take_outbound a))"
  by (auto simp: take_outbound_def sound_def agent_ok_def line_ok_def serves_def queued_work_items_def operation_ids_def
      held_measurements_def split: TransactionState.splits)

lemma sent_at_kept [simp]:
  "work_ok (sent_at now w) = work_ok w" "work_operation_id (sent_at now w) = work_operation_id w"
  "work_transfer (sent_at now w) = work_transfer w" "work_node_address (sent_at now w) = work_node_address w"
  "work_service (sent_at now w) = work_service w" "work_in_flight (sent_at now w) = work_in_flight w"
  by (cases w; simp)+

lemma transmit_completed_sound:
  assumes "agent_ok a"
  shows "sound a (transmit_completed a now)"
proof (cases "cag_outbound a = None \<and> (\<exists>p. tc_state (cag_transactions a) = Transmitting p)")
  case False
  have same: "a\<lparr>cag_transactions := cag_transactions a\<rparr> = a" by simp
  from False assms show ?thesis
    by (cases "tc_state (cag_transactions a)") (auto simp: transmit_completed_def mark_transmitted_def same intro!: sound_stay)
next
  case True
  then obtain p where p: "tc_state (cag_transactions a) = Transmitting p" and f: "cag_outbound a = None" by blast
  obtain active where active: "cag_active a = Some active" and s: "work_in_flight (aw_work active)"
      "pt_node_address p = work_node_address (aw_work active)" "pt_service p = work_service (aw_work active)"
    using assms p by (auto simp: agent_ok_def line_ok_def serves_def split: option.splits)
  have same: "a\<lparr>cag_transactions := cag_transactions a\<rparr> = a" by simp
  show ?thesis
  proof (cases "monotonic_checked_add now (pt_timeout p)")
    case None
    then show ?thesis using assms f p by (simp add: transmit_completed_def mark_transmitted_def same sound_stay)
  next
    case (Some d)
    with assms f p active s show ?thesis
      by (simp add: transmit_completed_def mark_transmitted_def Let_def sound_def agent_ok_def line_ok_def serves_def
          queued_work_items_def operation_ids_def held_measurements_def works_active map_filters)
  qed
qed

lemma transmit_failed_sound:
  assumes "agent_ok a"
  shows "sound a (transmit_failed a now)"
proof (cases "\<exists>p. tc_state (cag_transactions a) = Transmitting p")
  case False
  have "agent_ok (a\<lparr>cag_outbound := None\<rparr>)" "held_measurements (a\<lparr>cag_outbound := None\<rparr>) = held_measurements a"
    using take_outbound_sound [OF assms] by (simp_all add: take_outbound_def sound_def)
  moreover have "a\<lparr>cag_outbound := None, cag_transactions := cag_transactions a\<rparr> = a\<lparr>cag_outbound := None\<rparr>" by simp
  ultimately show ?thesis using False
    by (cases "tc_state (cag_transactions a)") (simp_all add: transmit_failed_def cancel_transmit_def Let_def sound_def)
next
  case True
  then obtain p where p: "tc_state (cag_transactions a) = Transmitting p" by blast
  then obtain active where active: "cag_active a = Some active"
    using assms by (auto simp: agent_ok_def line_ok_def serves_def split: option.splits)
  let ?tc = "(cag_transactions a)\<lparr>tc_state := Idle\<rparr>"
  let ?b = "a\<lparr>cag_outbound := None, cag_transactions := ?tc\<rparr>"
  have f: "line_free ?b" by (simp add: line_free_def)
  have b: "agent_ok ?b" "held_measurements ?b = held_measurements a"
    using agent_ok_line [OF assms, where tc = ?tc and f = None] line_ok_free [OF f] by simp_all
  have w: "work_ok (aw_work active)" by (rule active_work_ok [OF assms active])
  have ba: "cag_active ?b = Some active" using active by simp
  note work = sound_on_work [OF b(1) f ba]
  let ?k = "\<lambda>self. retry_later self now (\<lambda>self.
       if is_measurement (aw_work active) \<and> attempts_exhausted self active then exhausted self
       else (Ok (EV_WireAttemptFailed (work_node_address (aw_work active))),
             if is_one_shot (aw_work active) then settle_active self else self))"
  have "sound ?b (work_transmit_failed ?b active ?k)"
  proof (cases "aw_work active")
    case (PW_Lifecycle t)
    with w show ?thesis unfolding work_transmit_failed_def
      by (simp add: PW_Lifecycle) (rule work, auto simp: PW_Lifecycle kept_by intro: sound_retry sound_stay)
  next
    case (PW_Configuration t)
    with w show ?thesis unfolding work_transmit_failed_def
      by (simp add: PW_Configuration) (rule work, auto simp: PW_Configuration kept_by intro: sound_retry sound_stay)
  next
    case (PW_Commissioning t)
    with w show ?thesis unfolding work_transmit_failed_def
      by (simp add: PW_Commissioning) (rule work, auto simp: PW_Commissioning kept_by intro: sound_retry sound_stay)
  next
    case (PW_Measurement t)
    with w show ?thesis unfolding work_transmit_failed_def
      by (simp add: PW_Measurement) (rule work, auto simp: PW_Measurement kept_by intro!: sound_retry sound_stay sound_exhausted)
  qed (auto simp: work_transmit_failed_def intro!: sound_retry [OF b(1) f ba] intro: sound_stay sound_settle)
  with p active show ?thesis by (simp add: transmit_failed_def cancel_transmit_def Let_def sound_def b(2))
qed

section \<open>Answers keep the invariant\<close>

lemma handshake_answer_sound:
  assumes "agent_ok a" "line_free a" "cag_active a = Some active" "aw_work active = PW_Handshake h"
  shows "sound a (handshake_answer a now h p)"
proof -
  have h: "handshake_ok h" "nh_phase h \<noteq> HP_Ready" using active_work_ok [OF assms(1,3)] assms(4) by simp_all
  have step: "sound a (on_work a PW_Handshake CAE_Handshake out k)"
    if out: "out = handshake_apply h x" and
      k: "k = (\<lambda>_ self. case cag_active self of None \<Rightarrow> (Err CAE_InvariantViolation, self)
            | Some active \<Rightarrow> (case aw_work active of
                PW_Handshake handshake \<Rightarrow>
                  if nh_phase handshake = HP_Ready
                  then try_with (ok_or (nh_identity handshake) CAE_InvariantViolation) self (\<lambda>identity.
                       try_with (ok_or (nh_capabilities handshake) CAE_InvariantViolation) self (\<lambda>capabilities.
                         (Ok (EV_HandshakeComplete n identity capabilities), settle_active self)))
                  else (Ok (EV_HandshakeProgress n (nh_phase handshake)),
                        self\<lparr>cag_active := Some (active\<lparr>aw_retry_not_before := now\<rparr>)\<rparr>)
              | _ \<Rightarrow> (Err CAE_InvariantViolation, self)))" for out k x n
  proof (cases "fst out = Ok () \<and> nh_phase (snd out) = HP_Ready")
    case False
    have ok: "handshake_ok (snd out)" "nh_requirements (snd out) = nh_requirements h"
      using handshake_apply_ok [OF h(1), of x] out by simp_all
    have refused: "fst out \<noteq> Panic" "fst out = Ok () \<or> snd out = h" using handshake_refusal [of h x] out by simp_all
    with False h(2) have nr: "nh_phase (snd out) \<noteq> HP_Ready" by auto
    show ?thesis
    proof (rule sound_on_work [OF assms(1-3)])
      show "sound b (k y b)" if "fst out = Ok y" "agent_ok b" "line_free b"
        "b = a\<lparr>cag_active := Some (active\<lparr>aw_work := PW_Handshake (snd out)\<rparr>)\<rparr>" for y b
      proof -
        let ?active = "active\<lparr>aw_work := PW_Handshake (snd out)\<rparr>"
        have ba: "cag_active b = Some ?active" using that(4) by simp
        have "agent_ok (b\<lparr>cag_active := Some (?active\<lparr>aw_retry_not_before := now\<rparr>)\<rparr>)"
          "held_measurements (b\<lparr>cag_active := Some (?active\<lparr>aw_retry_not_before := now\<rparr>)\<rparr>) = held_measurements b"
          by (rule agent_ok_active [OF that(2,3) ba], simp_all add: ok nr same_work_def)+
        with nr show ?thesis by (simp add: k ba sound_def)
      qed
    qed (use ok nr refused(1) in \<open>simp_all add: assms(4) same_work_def\<close>)
  next
    case True
    have ok: "handshake_ok (snd out)" using handshake_apply_ok [OF h(1), of x] out by simp
    then obtain i c where ic: "nh_identity (snd out) = Some i" "nh_capabilities (snd out) = Some c"
      using True by (auto simp: handshake_ok_def split: option.splits)
    have e: "settle_active (a\<lparr>cag_active := Some (active\<lparr>aw_work := PW_Handshake (snd out)\<rparr>)\<rparr>) = settle_active a"
      by (simp add: settle_active_def)
    have "on_work a PW_Handshake CAE_Handshake out k = (Ok (EV_HandshakeComplete n i c), settle_active a)"
      using True ic by (simp add: on_work_def Let_def assms(3) k e)
    then show ?thesis by (simp add: sound_settle [OF assms(1-3)] assms(4))
  qed
  show ?thesis
  proof (cases "nh_phase h")
    case HP_NeedIdentity
    then show ?thesis by (simp add: handshake_answer_def Let_def) (rule step [where x = "HA_Identity p"]; simp)
  next
    case HP_NeedCapabilities
    then show ?thesis by (simp add: handshake_answer_def Let_def) (rule step [where x = "HA_Capabilities p"]; simp)
  qed (use h(2) in simp)
qed

lemma answer_sound:
  assumes "agent_ok a" "line_free a" "cag_active a = Some active"
  shows "sound a (answer a now active p)"
proof -
  note w = active_work_ok [OF assms(1,3)] and work = sound_on_work [OF assms] and retry = sound_retry [OF assms]
    and settle = sound_settle [OF assms]
  show ?thesis
  proof (cases "aw_work active")
    case (PW_Handshake h)
    then show ?thesis by (simp add: answer_def handshake_answer_sound [OF assms PW_Handshake])
  next
    case (PW_StreamState n)
    then show ?thesis using stream_state.decode_no_panic [of p]
      by (cases "decode_stream_state_success p")
        (auto simp: answer_def stream_state_answer_def intro!: retry settle intro: sound_stay)
  next
    case (PW_Lifecycle t)
    with w show ?thesis unfolding answer_def lifecycle_answer_def
      by (simp add: PW_Lifecycle) (rule work, auto simp: PW_Lifecycle kept_by intro: sound_retry sound_stay sound_settle
          split: LifecycleOutcome.split)
  next
    case (PW_Configuration t)
    with w show ?thesis unfolding answer_def configuration_answer_def
      by (simp add: PW_Configuration) (rule work, auto simp: PW_Configuration kept_by intro: sound_retry sound_stay sound_settle)
  next
    case (PW_Commissioning t)
    then have t: "commissioning_valid t" using w by simp
    have "\<exists>i. commissioning_operation_id (cmo_request t) = Some i" if "fst (commissioning_accept_response t p) = Ok CMO_NotAccepted"
      using that by (cases "cmo_request t"; cases "decode_probe_slot_response p")
        (auto simp: commissioning_accept_response_def commissioning_fail_def split: if_splits)
    moreover have "sound b (retry_later b now (\<lambda>self. (Ok (EV_CommissioningNotAccepted i), self)))"
      if "agent_ok b" "line_free b" "cag_active b = Some c" for b c i
      by (rule sound_retry [OF that]) (simp add: sound_stay)
    ultimately show ?thesis using t unfolding answer_def commissioning_answer_def
      by (simp add: PW_Commissioning) (rule work, auto simp: PW_Commissioning kept_by intro: sound_settle)
  next
    case (PW_Measurement t)
    have "sound b (try_with (measurement_event n o') b (\<lambda>event.
         let (handed, self) = handoff_active_measurement b in try_with handed self (\<lambda>_. (Ok event, self))))"
      if "agent_ok b" "line_free b" "cag_active b = Some c" "aw_work c = PW_Measurement u" "o' \<noteq> MO_NotAccepted" for b c u n o'
      using that(5) by (cases o') (simp_all add: sound_handoff [OF that(1-4)])
    with w show ?thesis unfolding answer_def measurement_answer_def
      by (simp add: PW_Measurement) (rule work, auto simp: PW_Measurement kept_by intro!: sound_retry sound_stay sound_exhausted)
  next
    case (PW_TimeSync t)
    have "decode_time_response p \<noteq> Panic" by (rule time_exchange.decode_no_panic)
    moreover have "clock_observation_new x y u v z \<noteq> Panic" for x y u v z
      by (simp add: clock_observation_new_no_panic)
    ultimately show ?thesis
      by (auto simp: answer_def PW_TimeSync time_answer_def Let_def intro!: settle split: result.splits TimeWireError.splits option.splits)
  next
    case (PW_Telemetry n)
    have "decode_telemetry_snapshot p \<noteq> Panic" by (rule decode_telemetry_no_panic)
    then show ?thesis
      by (auto simp: answer_def PW_Telemetry telemetry_answer_def intro!: settle split: result.splits TelemetryWireError.splits)
  qed
qed

lemma frame_payload_ok: "frame_ok f \<Longrightarrow> frame_payload f = Ok (payload_of f)"
  by (auto simp: frame_payload_def frame_ok_def payload_of_def slice_at_def sub_def)

lemma agent_receive_sound:
  assumes "agent_ok a" "frame_ok f"
  shows "sound a (agent_receive a now f)"
proof -
  let ?tc = "cag_transactions a"
  have same: "a\<lparr>cag_transactions := ?tc\<rparr> = a" by simp
  show ?thesis
  proof (cases "tc_state ?tc")
    case (Awaiting t)
    show ?thesis
    proof (cases "now \<le> at_deadline t")
      case True
      show ?thesis
      proof (cases "transaction_matches t f")
        case m: True
        let ?b = "a\<lparr>cag_transactions := ?tc\<lparr>tc_state := Idle\<rparr>\<rparr>"
        have l: "line_free ?b" using quarantined_free(1) [OF assms(1) Awaiting] by simp
        note b = agent_ok_core [OF assms(1) line_ok_free [OF l]]
        obtain active where active: "cag_active a = Some active" using quarantined_free(2) [OF assms(1) Awaiting] by auto
        have "sound ?b (answer ?b now active (payload_of f))" using active by (intro answer_sound [OF b(1) l]) simp
        with True m active show ?thesis
          by (simp add: agent_receive_def transaction_receive_def Awaiting frame_payload_ok [OF assms(2)] sound_def b(2))
      next
        case False
        with True assms(1) show ?thesis by (simp add: agent_receive_def transaction_receive_def Awaiting same sound_stay)
      qed
    next
      case False
      show ?thesis
      proof (rule enter_quarantine_cases [of ?tc t])
        assume "enter_quarantine ?tc t = (Err TE_TimeOverflow, ?tc)"
        with False assms(1) show ?thesis by (simp add: agent_receive_def transaction_receive_def Awaiting same sound_stay)
      next
        fix u assume q: "enter_quarantine ?tc t = (Ok u, ?tc\<lparr>tc_state := Quarantine t u\<rparr>)"
        have l: "line_free (a\<lparr>cag_transactions := ?tc\<lparr>tc_state := Quarantine t u\<rparr>\<rparr>)"
          using quarantined_free(1) [OF assms(1) Awaiting] by simp
        show ?thesis using False q agent_ok_core [OF assms(1) line_ok_free [OF l]]
          by (simp add: agent_receive_def transaction_receive_def Awaiting sound_def)
      qed
    qed
  qed (use assms(1) in \<open>simp_all add: agent_receive_def transaction_receive_def same sound_stay\<close>)
qed

section \<open>Submissions\<close>

lemma push_back_ok:
  assumes "agent_ok a" "queued_work_items a < cpy_max_pending_work_items (cag_policy a)" "work_ok w"
    "\<And>i. work_operation_id w = Some i \<Longrightarrow> \<not> operation_id_in_use a i"
  shows "agent_ok (push_back a w)" "cag_policy (push_back a w) = cag_policy a"
    "held_measurements (push_back a w) = held_measurements a + mset (case work_transfer w of None \<Rightarrow> [] | Some n \<Rightarrow> [n])"
proof -
  have "operation_id_in_use a i \<longleftrightarrow> i \<in> set (operation_ids a)" for i
    by (auto simp: operation_id_in_use_def operation_ids_def works_def work_uses_iff List.map_filter_def list_ex_iff split: option.splits)
      (force+)?
  with assms show "agent_ok (push_back a w)"
    by (cases "work_operation_id w") (auto simp: agent_ok_def push_back_def works_def queued_work_items_def operation_ids_def
      map_filters line_ok_def serves_def split: option.splits TransactionState.splits)
  show "cag_policy (push_back a w) = cag_policy a" by (simp add: push_back_def)
  show "held_measurements (push_back a w) = held_measurements a + mset (case work_transfer w of None \<Rightarrow> [] | Some n \<Rightarrow> [n])"
    by (simp add: held_measurements_def push_back_def works_def map_filters split: option.split)
qed

text \<open>A new identifier is not zero and not in use; allocating changes nothing but the next one.\<close>

lemma allocate_operation_cases:
  "allocate_operation_from k a = (r, a') \<Longrightarrow> cag_next_operation_id a \<noteq> 0 \<Longrightarrow>
     \<exists>n. a' = a\<lparr>cag_next_operation_id := n\<rparr> \<and> n \<noteq> 0 \<and>
       (r = Err CAE_OperationIdExhausted \<or> (\<exists>i. r = Ok i \<and> i \<noteq> 0 \<and> \<not> operation_id_in_use a i))"
proof (induction k arbitrary: a)
  case 0
  then show ?case by (auto intro: exI [of _ "cag_next_operation_id a"])
next
  case (Suc k)
  let ?n = "if cag_next_operation_id a + 1 = 0 then 1 else cag_next_operation_id a + 1"
  let ?b = "a\<lparr>cag_next_operation_id := ?n\<rparr>"
  have u: "operation_id_in_use (a\<lparr>cag_next_operation_id := m\<rparr>) i = operation_id_in_use a i" for i m
    by (simp add: operation_id_in_use_def)
  show ?case
  proof (cases "operation_id_in_use a (cag_next_operation_id a)")
    case False
    with Suc.prems show ?thesis by (auto simp: Let_def u split: if_splits)
  next
    case True
    with Suc.prems have "allocate_operation_from k ?b = (r, a')" by (simp add: Let_def u)
    from Suc.IH [OF this] show ?thesis by (auto simp: u)
  qed
qed

lemma with_operation_id_sound:
  assumes "agent_ok a"
    "\<And>b i. \<lbrakk>agent_ok b; queued_work_items b < cpy_max_pending_work_items (cag_policy b); i \<noteq> 0; \<not> operation_id_in_use b i\<rbrakk> \<Longrightarrow>
       sound b (k b i)"
  shows "sound a (with_operation_id a k)"
proof (cases "queued_work_items a < cpy_max_pending_work_items (cag_policy a)")
  case False
  then show ?thesis using assms(1) by (simp add: with_operation_id_def ensure_queue_capacity_def sound_stay)
next
  case True
  obtain r b where rb: "allocate_operation_id a = (r, b)" by (cases "allocate_operation_id a")
  have "cag_next_operation_id a \<noteq> 0" using assms(1) by (simp add: agent_ok_def)
  from allocate_operation_cases [OF rb [unfolded allocate_operation_id_def] this] obtain n where
    b: "b = a\<lparr>cag_next_operation_id := n\<rparr>" "n \<noteq> 0" and
    r: "r = Err CAE_OperationIdExhausted \<or> (\<exists>i. r = Ok i \<and> i \<noteq> 0 \<and> \<not> operation_id_in_use a i)" by blast
  have ok: "agent_ok b" "queued_work_items b < cpy_max_pending_work_items (cag_policy b)" "cag_policy b = cag_policy a"
      "held_measurements b = held_measurements a"
    using assms(1) True b by (simp_all add: agent_ok_def queued_work_items_def operation_ids_def line_ok_def serves_def held_measurements_def
      cong: TransactionState.case_cong option.case_cong)
  have "sound a (k b i)" if "i \<noteq> 0" "\<not> operation_id_in_use a i" for i
    by (rule sound_from [OF assms(2) [OF ok(1,2) that(1)]]) (use that ok b in \<open>simp_all add: operation_id_in_use_def\<close>)
  with r ok True show ?thesis by (auto simp: with_operation_id_def ensure_queue_capacity_def rb sound_def)
qed

lemma push_back_sound:
  assumes "agent_ok a" "queued_work_items a < cpy_max_pending_work_items (cag_policy a)" "work_ok w" "work_transfer w = None"
    "\<And>i. work_operation_id w = Some i \<Longrightarrow> \<not> operation_id_in_use a i"
  shows "sound a (Ok x, push_back a w)"
  using push_back_ok [OF assms(1-3,5)] assms(4) by (simp add: sound_def)

lemma submit_new_sound:
  assumes "agent_ok a" "r \<noteq> Panic" "\<And>e. E e \<noteq> CAE_InvariantViolation"
    "\<And>t. r = Ok t \<Longrightarrow> sound a (k t)"
  shows "sound a (try_with (map_err E r) a k)"
proof (cases r)
  case (Err e)
  with assms(1) assms(3) [of e] show ?thesis by (simp add: sound_stay)
qed (use assms in simp_all)

lemma new_operations_no_panic:
  "lifecycle_new n c \<noteq> Panic" "configuration_new n q \<noteq> Panic" "commissioning_new v \<noteq> Panic"
proof -
  have "encode_configuration x \<noteq> Panic" for x
    by (auto simp: encode_configuration_def configuration_validate_def result_iffs configuration_sizes split: if_splits)
  moreover have "encode_reset_config_request i j \<noteq> Panic" for i j
    using reset_config.encode_no_panic [of "(i, j)"] by simp
  ultimately show "configuration_new n q \<noteq> Panic"
    by (cases q) (auto simp: configuration_new_def result_iffs apply_config.encode_no_panic)
  show "lifecycle_new n c \<noteq> Panic"
    by (auto simp: lifecycle_new_def result_iffs encode_lifecycle_request_def lifecycle_sizes slices)
  show "commissioning_new v \<noteq> Panic"
    by (cases v) (auto simp: commissioning_new_def result_iffs probe_request.encode_no_panic assign_request.encode_no_panic)
qed

lemma submit_identified_sound:
  assumes "agent_ok a"
  shows "sound a (submit_lifecycle a n op pr)" "sound a (submit_apply_configuration a n revision cfg)"
    "sound a (submit_reset_configuration a n revision)" "sound a (submit_commissioning_assignment a nonce hw n)"
  unfolding submit_lifecycle_def submit_apply_configuration_def submit_reset_configuration_def submit_commissioning_assignment_def
  by (rule with_operation_id_sound [OF assms], rule submit_new_sound,
      auto simp: new_operations_no_panic dest: lifecycle_new_valid configuration_new_valid commissioning_new_valid
        intro!: push_back_sound; auto simp: lifecycle_new_def result_iffs)+

lemma submit_plain_sound:
  assumes "agent_ok a"
  shows "sound a (submit_get_configuration a n)" "sound a (submit_validate_configuration a n cfg)"
    "sound a (submit_commissioning_probe a req)" "sound a (submit_handshake a hr)" "sound a (submit_stream_state a n)"
    "sound a (submit_time_sync a n e)" "sound a (submit_telemetry a n)"
proof -
  show "sound a (submit_get_configuration a n)" "sound a (submit_validate_configuration a n cfg)"
    unfolding submit_get_configuration_def submit_validate_configuration_def
    by (rule submit_new_sound [OF assms new_operations_no_panic(2)],
        auto simp: submit_configuration_def ensure_queue_capacity_def assms sound_stay dest!: configuration_new_valid
          intro!: push_back_sound)+
  show "sound a (submit_handshake a hr)" "sound a (submit_stream_state a n)" "sound a (submit_time_sync a n e)" "sound a (submit_telemetry a n)"
    using assms by (auto simp: submit_handshake_def submit_stream_state_def submit_time_sync_def submit_telemetry_def
      ensure_queue_capacity_def handshake_new_ok sound_stay intro!: push_back_sound)
  show "sound a (submit_commissioning_probe a req)"
  proof (cases "queued_work_items a < cpy_max_pending_work_items (cag_policy a)")
    case True
    then have "sound a (try_with (map_err CAE_Commissioning (commissioning_new (CMR_Probe req))) a
        (\<lambda>operation. (Ok (), push_back a (PW_Commissioning operation))))"
      by (intro submit_new_sound [OF assms new_operations_no_panic(3)])
        (auto simp: assms dest!: commissioning_new_valid intro!: push_back_sound)
    with True show ?thesis by (simp add: submit_commissioning_probe_def ensure_queue_capacity_def)
  qed (use assms in \<open>simp add: submit_commissioning_probe_def ensure_queue_capacity_def sound_stay\<close>)
qed

lemma submit_measurement_cases:
  assumes "agent_ok a" "session_ok (mt_session t)"
  obtains (refused) "submit_measurement a t = (Err CAE_QueueFull, a)"
  | (queued) "submit_measurement a t = (Ok (), push_back a (PW_Measurement t))" "agent_ok (push_back a (PW_Measurement t))"
    "cag_policy (push_back a (PW_Measurement t)) = cag_policy a"
    "held_measurements (push_back a (PW_Measurement t)) = held_measurements a + {#mt_node_address t#}"
proof (cases "queued_work_items a < cpy_max_pending_work_items (cag_policy a)")
  case True
  then show ?thesis using queued push_back_ok [OF assms(1) True, of "PW_Measurement t"] assms(2)
    by (simp add: submit_measurement_def try_submit_measurement_def ensure_queue_capacity_def)
qed (use refused in \<open>simp add: submit_measurement_def try_submit_measurement_def ensure_queue_capacity_def\<close>)

section \<open>Giving work back\<close>

lemma remove_first_sublist:
  "remove_first p ws = Some ws' \<Longrightarrow> \<exists>us w vs. ws = us @ w # vs \<and> ws' = us @ vs \<and> p w"
proof (induction ws arbitrary: ws')
  case (Cons x xs)
  show ?case
  proof (cases "p x")
    case True
    with Cons.prems show ?thesis by (intro exI [of _ "[]"]) simp
  next
    case False
    with Cons.prems obtain ys where "remove_first p xs = Some ys" "ws' = x # ys" by auto
    with Cons.IH show ?thesis by (metis append_Cons)
  qed
qed simp

lemma control_not_measurement: "matches_control_key w k \<Longrightarrow> work_transfer w = None"
  by (cases "(w, k)" rule: matches_control_key.cases) auto

lemma abandon_sound:
  assumes "agent_ok a"
  shows "sound a (abandon_control_work a key)"
proof (cases "case cag_active a of Some active \<Rightarrow> matches_control_key (aw_work active) key | None \<Rightarrow> False")
  case True
  then obtain active where active: "cag_active a = Some active" "matches_control_key (aw_work active) key" by (auto split: option.splits)
  have "line_free a" if "cag_outbound a = None" "transaction_is_idle (cag_transactions a)"
    using that by (simp add: line_free_def transaction_is_idle_def)
  then show ?thesis using active assms control_not_measurement [OF active(2)]
    by (auto simp: abandon_control_work_def intro: sound_stay sound_settle)
next
  case False
  show ?thesis
  proof (cases "remove_first (\<lambda>work. matches_control_key work key) (cag_pending a)")
    case None
    with False assms show ?thesis by (simp add: abandon_control_work_def sound_stay split: option.splits)
  next
    case (Some rest)
    from remove_first_sublist [OF this] obtain us w vs where r: "cag_pending a = us @ w # vs" "rest = us @ vs" "matches_control_key w key"
      by blast
    have "agent_ok (a\<lparr>cag_pending := us @ vs\<rparr>)" "held_measurements (a\<lparr>cag_pending := us @ vs\<rparr>) = held_measurements a"
      using assms r(1) control_not_measurement [OF r(3)]
      by (auto simp: agent_ok_def works_def queued_work_items_def operation_ids_def map_filters line_ok_def serves_def held_measurements_def
        split: option.splits TransactionState.splits)
    with False Some r(2) show ?thesis by (auto simp: abandon_control_work_def sound_def split: option.splits)
  qed
qed

lemma take_completed_ok:
  assumes "agent_ok a"
  shows "agent_ok (snd (take_completed_measurement a))" "cag_policy (snd (take_completed_measurement a)) = cag_policy a"
    "held_measurements a = held_measurements (snd (take_completed_measurement a)) +
       (case fst (take_completed_measurement a) of None \<Rightarrow> {#} | Some t \<Rightarrow> {#mt_node_address t#})"
  using assms
  by (auto simp: take_completed_measurement_def agent_ok_def queued_work_items_def operation_ids_def held_measurements_def
      line_ok_def serves_def split: option.splits TransactionState.splits)

section \<open>Histories\<close>

datatype AgentOp =
  AO_Lifecycle u8 RuntimeOperation ObservabilityProfile
| AO_GetConfiguration u8
| AO_ValidateConfiguration u8 MeasurementConfiguration
| AO_ApplyConfiguration u8 u32 MeasurementConfiguration
| AO_ResetConfiguration u8 u32
| AO_Probe ProbeSlotRequest
| AO_Assign u64 HardwareId u8
| AO_Handshake HandshakeRequirements
| AO_StreamState u8
| AO_Measurement MeasurementTransfer
| AO_TimeSync u8 BootEpoch
| AO_Telemetry u8
| AO_Poll MonotonicMicros
| AO_TakeOutbound
| AO_TransmitCompleted MonotonicMicros
| AO_TransmitFailed MonotonicMicros
| AO_Receive MonotonicMicros Frame
| AO_TakeCompleted
| AO_Abandon ControlWorkKey

datatype AgentValue =
  AV_Done | AV_Id u32 | AV_Event ChannelEvent | AV_Frame "Frame option" | AV_Transfer "MeasurementTransfer option"
| AV_Abandoned AbandonedControlWork

definition valued :: "('a \<Rightarrow> AgentValue) \<Rightarrow> 'a agent_outcome \<Rightarrow> AgentValue agent_outcome" where
  "valued f out = (map_ok f (fst out), snd out)"

fun agent_apply :: "ChannelAgent \<Rightarrow> AgentOp \<Rightarrow> AgentValue agent_outcome" where
  "agent_apply a (AO_Lifecycle n op profile) = valued AV_Id (submit_lifecycle a n op profile)"
| "agent_apply a (AO_GetConfiguration n) = valued (\<lambda>_. AV_Done) (submit_get_configuration a n)"
| "agent_apply a (AO_ValidateConfiguration n c) = valued (\<lambda>_. AV_Done) (submit_validate_configuration a n c)"
| "agent_apply a (AO_ApplyConfiguration n r c) = valued AV_Id (submit_apply_configuration a n r c)"
| "agent_apply a (AO_ResetConfiguration n r) = valued AV_Id (submit_reset_configuration a n r)"
| "agent_apply a (AO_Probe r) = valued (\<lambda>_. AV_Done) (submit_commissioning_probe a r)"
| "agent_apply a (AO_Assign r h n) = valued AV_Id (submit_commissioning_assignment a r h n)"
| "agent_apply a (AO_Handshake r) = valued (\<lambda>_. AV_Done) (submit_handshake a r)"
| "agent_apply a (AO_StreamState n) = valued (\<lambda>_. AV_Done) (submit_stream_state a n)"
| "agent_apply a (AO_Measurement t) = valued (\<lambda>_. AV_Done) (submit_measurement a t)"
| "agent_apply a (AO_TimeSync n e) = valued (\<lambda>_. AV_Done) (submit_time_sync a n e)"
| "agent_apply a (AO_Telemetry n) = valued (\<lambda>_. AV_Done) (submit_telemetry a n)"
| "agent_apply a (AO_Poll now) = valued AV_Event (poll a now)"
| "agent_apply a AO_TakeOutbound = (Ok (AV_Frame (fst (take_outbound a))), snd (take_outbound a))"
| "agent_apply a (AO_TransmitCompleted now) = valued (\<lambda>_. AV_Done) (transmit_completed a now)"
| "agent_apply a (AO_TransmitFailed now) = valued AV_Event (transmit_failed a now)"
| "agent_apply a (AO_Receive now f) = valued AV_Event (agent_receive a now f)"
| "agent_apply a AO_TakeCompleted =
     (Ok (AV_Transfer (fst (take_completed_measurement a))), snd (take_completed_measurement a))"
| "agent_apply a (AO_Abandon key) = valued AV_Abandoned (abandon_control_work a key)"

text \<open>Frames come from the decoder and sessions keep their invariant; everything else is arbitrary.\<close>

fun call_allowed :: "AgentOp \<Rightarrow> bool" where
  "call_allowed (AO_Receive _ f) \<longleftrightarrow> frame_ok f"
| "call_allowed (AO_Measurement t) \<longleftrightarrow> session_ok (mt_session t)"
| "call_allowed _ \<longleftrightarrow> True"

type_synonym agent_call = "AgentOp \<times> (AgentValue, ChannelAgentError) result"

fun accepted_measurement :: "agent_call \<Rightarrow> u8 multiset" where
  "accepted_measurement (AO_Measurement t, Ok _) = {#mt_node_address t#}"
| "accepted_measurement _ = {#}"

fun returned_measurement :: "agent_call \<Rightarrow> u8 multiset" where
  "returned_measurement (_, Ok (AV_Transfer (Some t))) = {#mt_node_address t#}"
| "returned_measurement _ = {#}"

inductive agent_history :: "ChannelAgent \<Rightarrow> agent_call list \<Rightarrow> ChannelAgent \<Rightarrow> bool" for start where
  agent_start: "agent_history start [] start"
| agent_call: "\<lbrakk>agent_history start h a; call_allowed op; agent_apply a op = (r, a')\<rbrakk> \<Longrightarrow> agent_history start (h @ [(op, r)]) a'"

lemma sound_valued: "sound a out \<Longrightarrow> sound a (valued f out)"
  by (cases "fst out") (auto simp: sound_def valued_def)

lemma agent_apply_sound:
  assumes "agent_ok a" "call_allowed op" "\<And>t. op \<noteq> AO_Measurement t" "op \<noteq> AO_TakeCompleted"
  shows "sound a (agent_apply a op)"
  using assms
  by (cases op) (auto intro!: sound_valued submit_identified_sound submit_plain_sound poll_sound take_outbound_sound
      transmit_completed_sound transmit_failed_sound agent_receive_sound abandon_sound)

lemma not_returned: "(\<And>t. v \<noteq> AV_Transfer (Some t)) \<Longrightarrow> returned_measurement (op, Ok v) = {#}"
  by (cases "(op, Ok v :: (AgentValue, ChannelAgentError) result)" rule: returned_measurement.cases) auto

lemma agent_apply_measurements:
  assumes "agent_ok a" "call_allowed op" "agent_apply a op = (r, a')"
  shows "r \<noteq> Panic \<and> r \<noteq> Err CAE_InvariantViolation \<and> agent_ok a' \<and> cag_policy a' = cag_policy a \<and>
    held_measurements a' + returned_measurement (op, r) = held_measurements a + accepted_measurement (op, r)"
proof (cases "(\<exists>t. op = AO_Measurement t) \<or> op = AO_TakeCompleted")
  case False
  then have s: "sound a (r, a')" using agent_apply_sound [OF assms(1,2)] assms(3) by auto
  have "returned_measurement (op, r) = {#}"
    using False assms(3) by (cases op; cases r) (auto simp: valued_def map_ok_eq_Ok intro!: not_returned)
  moreover have "accepted_measurement (op, r) = {#}" using False by (cases op) auto
  ultimately show ?thesis using s by (simp add: sound_def)
next
  case True
  then show ?thesis
  proof
    assume "\<exists>t. op = AO_Measurement t"
    then obtain t where op: "op = AO_Measurement t" by blast
    with assms(2) have t: "session_ok (mt_session t)" by simp
    show ?thesis using assms(1,3) op by (cases rule: submit_measurement_cases [OF assms(1) t]) (auto simp: valued_def)
  next
    assume "op = AO_TakeCompleted"
    with assms take_completed_ok [OF assms(1)] show ?thesis
      by (cases "fst (take_completed_measurement a)") auto
  qed
qed

lemma agent_new_ok:
  assumes "agent_new ts os q policy = Ok a"
  shows "agent_ok a" "cag_policy a = policy" "held_measurements a = {#}"
  using assms by (auto simp: agent_new_def channel_policy_validate_def result_iffs agent_ok_def works_def queued_work_items_def
      operation_ids_def map_filters line_ok_def transaction_new_def held_measurements_def split: if_splits)

lemma agent_history_ok:
  assumes "agent_new ts os q policy = Ok start" "agent_history start h a"
  shows "agent_ok a \<and> cag_policy a = policy \<and> list_all (\<lambda>(op, r). r \<noteq> Panic \<and> r \<noteq> Err CAE_InvariantViolation) h \<and>
    sum_list (map accepted_measurement h) = held_measurements a + sum_list (map returned_measurement h)"
  using assms(2)
proof induction
  case agent_start
  then show ?case using agent_new_ok [OF assms(1)] by simp
next
  case (agent_call h a op r a')
  then show ?case using agent_apply_measurements [of a op r a'] by (auto simp: algebra_simps)
qed

text \<open>C16. The agent serves one piece of work at a time and loses none. In every history of calls on an agent no call panics or
  finds its invariant violated; it never holds more work than its policy allows; a request under way is that of the active
  work, addressed to its node and service, and a frame on its way out is the frame of that request; work never shares an
  operation identifier; and the measurements accepted so far are those still held and those given back.\<close>

theorem agent_serves_one_work_and_loses_none:
  assumes "agent_new ts os q policy = Ok start" "agent_history start h a"
  shows "list_all (\<lambda>(op, r). r \<noteq> Panic \<and> r \<noteq> Err CAE_InvariantViolation) h \<and>
    queued_work_items a \<le> cpy_max_pending_work_items policy \<and>
    (case tc_state (cag_transactions a) of
       Transmitting p \<Rightarrow> serves a (pt_node_address p) (pt_service p) \<and>
         (\<forall>f. cag_outbound a = Some f \<longrightarrow> (\<exists>payload. prepared_request_frame p payload = Ok f))
     | Awaiting t \<Rightarrow> serves a (at_node_address t) (at_service t) \<and> cag_outbound a = None
     | _ \<Rightarrow> cag_outbound a = None) \<and>
    distinct (operation_ids a) \<and>
    sum_list (map accepted_measurement h) = held_measurements a + sum_list (map returned_measurement h)"
  using agent_history_ok [OF assms] by (auto simp: agent_ok_def line_ok_def)

definition example_channel_policy :: ChannelPolicy where
  "example_channel_policy = \<lparr>cpy_transaction_timeout = 1000, cpy_retry_delay = 100, cpy_measurement_attempts_per_slot = 2,
     cpy_max_pending_work_items = 2\<rparr>"

definition example_agent :: ChannelAgent where
  "example_agent = \<lparr>cag_transactions = \<lparr>tc_next_transaction_id = 7, tc_quarantine_duration = 500, tc_state = Idle\<rparr>,
     cag_policy = example_channel_policy, cag_next_operation_id = 1, cag_pending = [], cag_active = None, cag_outbound = None,
     cag_completed_measurement = None\<rparr>"

lemma example_agent_new: "agent_new 7 0 500 example_channel_policy = Ok example_agent"
  by (simp add: agent_new_def channel_policy_validate_def example_channel_policy_def example_agent_def transaction_new_def)

theorem agent_serves_one_work_and_loses_none_witness:
  "\<exists>a. agent_history example_agent [(AO_Lifecycle 4 RO_Start OP_Production, Ok (AV_Id 1)), (AO_Poll 10, Ok (AV_Event EV_TransmitReady))] a \<and>
     cag_outbound a \<noteq> None \<and> queued_work_items a \<le> 2"
proof -
  let ?op = "\<lparr>lo_node_address = 4, lo_command = \<lparr>rc_operation_id = 1, rc_operation = RO_Start, rc_requested_profile = OP_Production\<rparr>,
      lo_phase = LP_ReadyToSend, lo_terminal_result = None\<rparr>"
  let ?a = "example_agent\<lparr>cag_next_operation_id := 2, cag_pending := [PW_Lifecycle ?op]\<rparr>"
  have s: "agent_apply example_agent (AO_Lifecycle 4 RO_Start OP_Production) = (Ok (AV_Id 1), ?a)"
    by (simp add: valued_def submit_lifecycle_def with_operation_id_def ensure_queue_capacity_def queued_work_items_def
        allocate_operation_id_def operation_id_in_use_def push_back_def lifecycle_new_def encode_lifecycle_request_def lifecycle_sizes
        slices example_agent_def example_channel_policy_def numeral_3_eq_3 Let_def)
  have "\<exists>f b. agent_apply ?a (AO_Poll 10) = (Ok (AV_Event EV_TransmitReady), b) \<and> cag_outbound b = Some f"
    by (simp add: valued_def poll_def on_timer_def poll_work_def activate_next_def start_attempt_def on_work_def
        lifecycle_begin_attempt_def encode_lifecycle_request_def lifecycle_sizes slices lifecycle_attempt_payload_def prepared_frame_def
        transaction_prepare_def transaction_is_idle_def prepared_request_frame_def frame_new_def validate_route_def HOST_ADDRESS_def
        BROADCAST_ADDRESS_def MAX_PAYLOAD_BYTES_def copy_at_def example_agent_def example_channel_policy_def Let_def)
  then obtain f b where p: "agent_apply ?a (AO_Poll 10) = (Ok (AV_Event EV_TransmitReady), b)" "cag_outbound b = Some f" by blast
  have h: "agent_history example_agent [(AO_Lifecycle 4 RO_Start OP_Production, Ok (AV_Id 1)), (AO_Poll 10, Ok (AV_Event EV_TransmitReady))] b"
    using Host_Agent_Invariant.agent_call [OF Host_Agent_Invariant.agent_call [OF agent_start _ s] _ p(1)] by simp
  have "queued_work_items b \<le> 2"
    using agent_serves_one_work_and_loses_none [OF example_agent_new h] by (simp add: example_channel_policy_def)
  with h p(2) show ?thesis by blast
qed

end
