(* ===== verification/Host_Agent_Service.thy ===== *)
theory Host_Agent_Service
  imports Host_Agent_Invariant
begin

text \<open>
  What an agent does for the work it holds: identifiers for new operations never run out while the queue has room, a
  measurement gets a bounded number of attempts before the line goes to other work, and an answer that arrives between
  the deadline and the next poll strands the agent.
\<close>

section \<open>Identifiers never run out\<close>

definition next_id :: "u32 \<Rightarrow> u32" where
  "next_id i = (if i + 1 = 0 then 1 else i + 1)"

lemma unat_u32_bound: "unat (i :: u32) < 2 ^ 32"
  using unsigned_less [of i] by simp

lemma unat_next_id:
  assumes "i \<noteq> 0"
  shows "unat (next_id i) - 1 = unat i mod (2 ^ 32 - 1) \<and> next_id i \<noteq> 0"
proof (cases "unat i = 2 ^ 32 - 1")
  case True
  then have "i + 1 = 0" by (simp add: word_unat_eq_iff unat_word_ariths(1))
  with True show ?thesis by (simp add: next_id_def)
next
  case False
  then have b: "unat i < 2 ^ 32 - 1" using unat_u32_bound [of i] by simp
  then have u: "unat (i + 1) = unat i + 1" by (simp add: unat_word_ariths(1))
  then have "i + 1 \<noteq> 0" by auto
  with u b show ?thesis by (simp add: next_id_def)
qed

lemma unat_next_ids:
  assumes "i \<noteq> 0"
  shows "unat ((next_id ^^ j) i) - 1 = (unat i - 1 + j) mod (2 ^ 32 - 1) \<and> (next_id ^^ j) i \<noteq> 0"
proof (induction j)
  case 0
  have "0 < unat i" using assms by (simp add: unat_gt_0)
  then have "unat i - 1 < 2 ^ 32 - 1" using unat_u32_bound [of i] by linarith
  with assms show ?case by simp
next
  case (Suc j)
  let ?k = "(next_id ^^ j) i"
  have k: "unat ?k - 1 = (unat i - 1 + j) mod (2 ^ 32 - 1)" "?k \<noteq> 0" using Suc by blast+
  have p: "0 < unat ?k" using k(2) by (simp add: unat_gt_0 del: funpow.simps)
  have "unat (next_id ?k) - 1 = Suc (unat ?k - 1) mod (2 ^ 32 - 1)" "next_id ?k \<noteq> 0"
    using unat_next_id [OF k(2)] p by simp_all
  then show ?case unfolding k(1) by (simp only: funpow.simps comp_apply mod_Suc_eq add_Suc_right simp_thms)
qed

lemma next_ids_distinct:
  assumes "i \<noteq> 0" "(next_id ^^ j) i = (next_id ^^ k) i" "j < 2 ^ 32 - 1" "k < 2 ^ 32 - 1"
  shows "j = k"
proof -
  have "(unat i - 1 + j) mod (2 ^ 32 - 1) = (unat i - 1 + k) mod (2 ^ 32 - 1)"
    using unat_next_ids [OF assms(1), of j] unat_next_ids [OF assms(1), of k] assms(2) by simp
  then have "j mod (2 ^ 32 - 1) = k mod (2 ^ 32 - 1)" by (simp only: nat_mod_eq_iff add.assoc add_left_cancel)
  with assms(3,4) show ?thesis by simp
qed

lemma allocate_exhausts:
  assumes "allocate_operation_from k a = (Err CAE_OperationIdExhausted, a')" "cag_next_operation_id a \<noteq> 0" "j < k"
  shows "operation_id_in_use a ((next_id ^^ j) (cag_next_operation_id a))"
  using assms
proof (induction k arbitrary: a j)
  case (Suc k)
  let ?b = "a\<lparr>cag_next_operation_id := next_id (cag_next_operation_id a)\<rparr>"
  have used: "operation_id_in_use ?b i = operation_id_in_use a i" for i by (simp add: operation_id_in_use_def)
  have now: "operation_id_in_use a (cag_next_operation_id a)"
    and later: "allocate_operation_from k ?b = (Err CAE_OperationIdExhausted, a')"
    using Suc.prems(1,2) by (auto simp: Let_def next_id_def [symmetric] used split: if_splits)
  show ?case
  proof (cases j)
    case 0
    with now show ?thesis by simp
  next
    case (Suc m)
    have "cag_next_operation_id ?b \<noteq> 0" using unat_next_id [OF Suc.prems(2)] by simp
    from Suc.IH [OF later this, of m] Suc.prems(3) \<open>j = Suc m\<close> show ?thesis by (simp add: used funpow_swap1)
  qed
qed simp

lemma ids_in_use: "operation_id_in_use a i \<longleftrightarrow> i \<in> set (operation_ids a)"
  by (auto simp: operation_id_in_use_def operation_ids_def works_def work_uses_iff List.map_filter_def list_ex_iff split: option.splits)
    (force+)?

lemma few_ids: "length (operation_ids a) \<le> queued_work_items a"
proof -
  have "length (operation_ids a) \<le> length (works a)" by (simp add: operation_ids_def List.map_filter_def)
  then show ?thesis by (simp add: works_def queued_work_items_def split: option.splits)
qed

text \<open>With room in the queue, fewer identifiers are in use than are tried.\<close>

lemma allocation_succeeds:
  assumes "agent_ok a" "queued_work_items a < cpy_max_pending_work_items (cag_policy a)"
    "cpy_max_pending_work_items (cag_policy a) < 2 ^ 32 - 1"
  shows "\<exists>i n. allocate_operation_id a = (Ok i, a\<lparr>cag_next_operation_id := n\<rparr>) \<and> i \<noteq> 0 \<and> \<not> operation_id_in_use a i"
proof -
  define k where "k = min (cpy_max_pending_work_items (cag_policy a) + 1) (2 ^ 64 - 1)"
  have k: "k = cpy_max_pending_work_items (cag_policy a) + 1" using assms(3) by (simp add: k_def)
  let ?i = "cag_next_operation_id a"
  have i: "?i \<noteq> 0" using assms(1) by (simp add: agent_ok_def)
  obtain r b where rb: "allocate_operation_from k a = (r, b)" by (cases "allocate_operation_from k a")
  have "r \<noteq> Err CAE_OperationIdExhausted"
  proof
    assume "r = Err CAE_OperationIdExhausted"
    then have "(next_id ^^ j) ?i \<in> set (operation_ids a)" if "j < k" for j
      using allocate_exhausts [of k a b j] rb i that by (simp add: ids_in_use)
    then have "(\<lambda>j. (next_id ^^ j) ?i) ` {..<k} \<subseteq> set (operation_ids a)" by blast
    moreover have "inj_on (\<lambda>j. (next_id ^^ j) ?i) {..<k}"
      using next_ids_distinct [OF i] assms(3) k by (intro inj_onI) simp
    ultimately have "k \<le> card (set (operation_ids a))" by (metis card_image card_lessThan card_mono List.finite_set)
    also have "\<dots> \<le> queued_work_items a" using card_length few_ids le_trans by blast
    finally show False using assms(2) k by simp
  qed
  with allocate_operation_cases [OF rb i] rb show ?thesis unfolding allocate_operation_id_def k_def [symmetric] by auto
qed

lemma submit_lifecycle_succeeds:
  assumes "agent_ok a" "queued_work_items a < cpy_max_pending_work_items (cag_policy a)"
    "cpy_max_pending_work_items (cag_policy a) < 2 ^ 32 - 1"
  shows "\<exists>i n. submit_lifecycle a node operation profile = (Ok i, push_back (a\<lparr>cag_next_operation_id := n\<rparr>)
      (PW_Lifecycle \<lparr>lo_node_address = node,
        lo_command = \<lparr>rc_operation_id = i, rc_operation = operation, rc_requested_profile = profile\<rparr>,
        lo_phase = LP_ReadyToSend, lo_terminal_result = None\<rparr>)) \<and> i \<noteq> 0 \<and> \<not> operation_id_in_use a i"
proof -
  obtain i n where i: "allocate_operation_id a = (Ok i, a\<lparr>cag_next_operation_id := n\<rparr>)" "i \<noteq> 0" "\<not> operation_id_in_use a i"
    using allocation_succeeds [OF assms] by auto
  obtain e where e: "encode_lifecycle_request \<lparr>rc_operation_id = i, rc_operation = operation, rc_requested_profile = profile\<rparr> = Ok e"
    using encode_lifecycle_request_eq [of "\<lparr>rc_operation_id = i, rc_operation = operation, rc_requested_profile = profile\<rparr>"] i(2) by auto
  have "\<not> cpy_max_pending_work_items (cag_policy a) \<le> queued_work_items a" using assms(2) by simp
  with i e show ?thesis
    by (auto simp: submit_lifecycle_def with_operation_id_def ensure_queue_capacity_def lifecycle_new_def)
qed

text \<open>C17. Identifiers never run out. In every history, while the queue has room a lifecycle command is accepted: it gets an
  identifier that is not zero and that no other work of the agent uses, and is queued behind all other work. Capacities up to
  the number of identifiers are covered.\<close>

theorem operation_identifiers_never_run_out:
  assumes "agent_new ts os q policy = Ok start" "agent_history start h a"
    "queued_work_items a < cpy_max_pending_work_items policy" "cpy_max_pending_work_items policy < 2 ^ 32 - 1"
  shows "\<exists>i a'. submit_lifecycle a node operation profile = (Ok i, a') \<and> i \<noteq> 0 \<and> \<not> operation_id_in_use a i \<and>
    works a' = works a @ [PW_Lifecycle \<lparr>lo_node_address = node,
      lo_command = \<lparr>rc_operation_id = i, rc_operation = operation, rc_requested_profile = profile\<rparr>,
      lo_phase = LP_ReadyToSend, lo_terminal_result = None\<rparr>]"
proof -
  have ok: "agent_ok a" "cag_policy a = policy" using agent_history_ok [OF assms(1,2)] by simp_all
  have w: "works (push_back (a\<lparr>cag_next_operation_id := n\<rparr>) w) = works a @ [w]" for n w
    by (simp add: push_back_def works_def split: option.split)
  from submit_lifecycle_succeeds [OF ok(1), of node operation profile] assms(3,4) ok(2) show ?thesis by (auto simp: w)
qed

theorem operation_identifiers_never_run_out_witness:
  "\<exists>i a'. submit_lifecycle example_agent 4 RO_Start OP_Production = (Ok i, a') \<and> i \<noteq> 0"
proof -
  have "queued_work_items example_agent < cpy_max_pending_work_items example_channel_policy"
    "cpy_max_pending_work_items example_channel_policy < 2 ^ 32 - 1"
    by (simp_all add: queued_work_items_def example_agent_def example_channel_policy_def)
  from operation_identifiers_never_run_out [OF example_agent_new agent_start this, of 4 RO_Start OP_Production]
  show ?thesis by blast
qed

section \<open>A late answer strands the agent\<close>

text \<open>An agent whose active measurement waits for an answer that nothing on the line will bring.\<close>

definition stranded :: "ChannelAgent \<Rightarrow> bool" where
  "stranded a \<longleftrightarrow> line_free a \<and> cag_completed_measurement a = None \<and>
     (\<exists>active transfer. cag_active a = Some active \<and> aw_work active = PW_Measurement transfer \<and>
        ns_phase (mt_session transfer) \<noteq> SP_Ready)"

lemma stranded_queue:
  "stranded a \<Longrightarrow> stranded (a\<lparr>cag_next_operation_id := n\<rparr>)" "stranded a \<Longrightarrow> stranded (a\<lparr>cag_pending := ws\<rparr>)"
  "stranded a \<Longrightarrow> stranded (push_back a w)"
  by (auto simp: stranded_def line_free_def push_back_def)

lemma stranded_core:
  "stranded a \<Longrightarrow> tc_state tc = Idle \<Longrightarrow> stranded (a\<lparr>cag_transactions := tc\<rparr>)"
  by (auto simp: stranded_def line_free_def)

definition quiet_outcome :: "AgentValue agent_outcome \<Rightarrow> bool" where
  "quiet_outcome out \<longleftrightarrow> stranded (snd out) \<and> fst out \<noteq> Ok (AV_Event EV_TransmitReady) \<and>
     (\<forall>f. fst out \<noteq> Ok (AV_Frame (Some f)))"

lemma stranded_try:
  "\<lbrakk>stranded a; \<And>x. r = Ok x \<Longrightarrow> stranded (snd (k x))\<rbrakk> \<Longrightarrow> stranded (snd (try_with r a k))"
  by (cases r) auto

lemma stranded_allocate: "stranded a \<Longrightarrow> stranded (snd (allocate_operation_from k a))"
proof (induction k arbitrary: a)
  case (Suc k)
  have "stranded (a\<lparr>cag_next_operation_id := n\<rparr>)" for n by (rule stranded_queue(1) [OF Suc.prems])
  with Suc.IH show ?case by (simp add: Let_def)
qed simp

lemma stranded_with_id:
  assumes "stranded a" "\<And>b i. stranded b \<Longrightarrow> stranded (snd (k b i))"
  shows "stranded (snd (with_operation_id a k))"
proof -
  obtain r b where rb: "allocate_operation_id a = (r, b)" by (cases "allocate_operation_id a")
  then have "stranded b" using stranded_allocate [OF assms(1)] by (metis allocate_operation_id_def snd_conv)
  with assms show ?thesis unfolding with_operation_id_def rb Let_def case_prod_conv by (intro stranded_try)
qed

lemma stranded_if: "\<lbrakk>stranded (snd x); stranded (snd y)\<rbrakk> \<Longrightarrow> stranded (snd (if c then x else y))"
  by simp

lemma stranded_pair: "stranded a \<Longrightarrow> stranded (snd (r, a))"
  by simp

lemmas stranded_rules = stranded_with_id stranded_try stranded_if stranded_pair stranded_queue(3)

lemma stranded_identified:
  assumes "stranded a"
  shows "stranded (snd (submit_lifecycle a n op pr))" "stranded (snd (submit_apply_configuration a n revision cfg))"
    "stranded (snd (submit_reset_configuration a n revision))" "stranded (snd (submit_commissioning_assignment a nonce hw n))"
  unfolding submit_lifecycle_def submit_apply_configuration_def submit_reset_configuration_def submit_commissioning_assignment_def
  by (rule stranded_rules assms | assumption)+

lemma stranded_plain:
  assumes "stranded a"
  shows "stranded (snd (submit_get_configuration a n))" "stranded (snd (submit_validate_configuration a n cfg))"
    "stranded (snd (submit_commissioning_probe a req))" "stranded (snd (submit_handshake a hr))" "stranded (snd (submit_stream_state a n))"
    "stranded (snd (submit_time_sync a n e))" "stranded (snd (submit_telemetry a n))"
  unfolding submit_get_configuration_def submit_validate_configuration_def submit_configuration_def submit_commissioning_probe_def
    submit_handshake_def submit_stream_state_def submit_time_sync_def submit_telemetry_def
  by (rule stranded_rules assms)+

lemma stranded_measurement: "stranded a \<Longrightarrow> stranded (snd (submit_measurement a t))"
  by (simp add: submit_measurement_def try_submit_measurement_def ensure_queue_capacity_def stranded_queue)

lemma stranded_poll:
  assumes "stranded a"
  shows "stranded (snd (poll a now)) \<and> fst (poll a now) \<noteq> Ok EV_TransmitReady"
proof -
  obtain active t where active: "cag_active a = Some active" "aw_work active = PW_Measurement t" "ns_phase (mt_session t) \<noteq> SP_Ready"
    and f: "cag_outbound a = None" "cag_completed_measurement a = None" and l: "line_free a"
    using assms by (auto simp: stranded_def line_free_def)
  have "transfer_begin_attempt t d = (Err (MTE_Session SE_UnexpectedPhase), t)" for d
    using active(3) by (simp add: transfer_begin_attempt_def on_session_def begin_pull_def require_phase_def Let_def)
  moreover have unchanged: "active\<lparr>aw_work := PW_Measurement t\<rparr> = active" "a\<lparr>cag_active := Some active\<rparr> = a"
    using active(1,2) by simp_all
  ultimately have w: "stranded (snd (poll_work a now)) \<and> fst (poll_work a now) \<noteq> Ok EV_TransmitReady"
    by (simp add: unchanged active(1,2) assms poll_work_def activate_next_def start_attempt_def on_work_def Let_def)
  have same: "a\<lparr>cag_transactions := cag_transactions a\<rparr> = a" by simp
  show ?thesis
  proof (cases "tc_state (cag_transactions a)")
    case (Quarantine t u)
    have "stranded (a\<lparr>cag_transactions := (cag_transactions a)\<lparr>tc_state := Idle\<rparr>\<rparr>)" by (rule stranded_core [OF assms]) simp
    with w f Quarantine show ?thesis by (simp add: poll_def on_timer_def same)
  qed (use w f l in \<open>simp_all add: poll_def on_timer_def same line_free_def\<close>)
qed

lemma stranded_receive:
  assumes "stranded a"
  shows "stranded (snd (agent_receive a now f)) \<and> fst (agent_receive a now f) \<noteq> Ok EV_TransmitReady"
proof -
  have same: "a\<lparr>cag_transactions := cag_transactions a\<rparr> = a" by simp
  show ?thesis using assms
    by (cases "tc_state (cag_transactions a)")
      (auto simp: agent_receive_def transaction_receive_def same stranded_def line_free_def)
qed

lemma stranded_transmit:
  assumes "stranded a"
  shows "stranded (snd (transmit_completed a now))" "stranded (snd (transmit_failed a now)) \<and> fst (transmit_failed a now) \<noteq> Ok EV_TransmitReady"
proof -
  have same: "a\<lparr>cag_transactions := cag_transactions a\<rparr> = a" "a\<lparr>cag_outbound := None, cag_transactions := cag_transactions a\<rparr> = a"
    using assms by (simp_all add: stranded_def line_free_def)
  show "stranded (snd (transmit_completed a now))" "stranded (snd (transmit_failed a now)) \<and> fst (transmit_failed a now) \<noteq> Ok EV_TransmitReady"
    using assms by (cases "tc_state (cag_transactions a)"; auto simp: transmit_completed_def mark_transmitted_def transmit_failed_def
      cancel_transmit_def Let_def same stranded_def line_free_def)+
qed

lemma quiet_valued:
  assumes "stranded (snd out)" "\<And>x. g x \<noteq> AV_Event EV_TransmitReady" "\<And>x f. g x \<noteq> AV_Frame (Some f)"
  shows "quiet_outcome (valued g out)"
  using assms by (cases "fst out") (simp_all add: quiet_outcome_def valued_def)

lemma quiet_event:
  "stranded (snd out) \<and> fst out \<noteq> Ok EV_TransmitReady \<Longrightarrow> quiet_outcome (valued AV_Event out)"
  by (cases "fst out") (simp_all add: quiet_outcome_def valued_def)

lemma stranded_abandon: "stranded a \<Longrightarrow> stranded (snd (abandon_control_work a key))"
  using stranded_queue(2) by (auto simp: abandon_control_work_def stranded_def split: option.split)

lemma stranded_takes:
  assumes "stranded a"
  shows "quiet_outcome (agent_apply a AO_TakeOutbound)" "quiet_outcome (agent_apply a AO_TakeCompleted)"
  using assms by (auto simp: quiet_outcome_def take_outbound_def take_completed_measurement_def stranded_def line_free_def)

lemmas stranded_calls = stranded_identified stranded_plain stranded_measurement stranded_transmit(1) stranded_abandon

lemma stranded_call:
  assumes "stranded a"
  shows "quiet_outcome (agent_apply a op)"
proof (cases op)
  case AO_TakeOutbound
  then show ?thesis by (simp only: stranded_takes [OF assms])
next
  case AO_TakeCompleted
  then show ?thesis by (simp only: stranded_takes [OF assms])
qed (simp_all add: quiet_valued stranded_calls assms quiet_event stranded_poll stranded_receive stranded_transmit(2))

lemma stranded_history:
  assumes "agent_history a h b" "stranded a"
  shows "stranded b \<and> list_all (\<lambda>(op, r). r \<noteq> Ok (AV_Event EV_TransmitReady) \<and> (\<forall>f. r \<noteq> Ok (AV_Frame (Some f)))) h"
  using assms(1)
proof induction
  case (agent_call h b op r b')
  then show ?case using stranded_call [of b op] by (simp add: quiet_outcome_def)
qed (simp add: assms(2))

lemma late_receive_strands:
  assumes "agent_ok a" "tc_state (cag_transactions a) = Awaiting t" "cag_active a = Some active"
    "aw_work active = PW_Measurement transfer" "at_deadline t < now"
    "unat (at_deadline t) + unat (tc_quarantine_duration (cag_transactions a)) < 2 ^ 64"
  shows "fst (agent_receive a now f) \<in> {Ok EV_LateResponse, Ok EV_UnrelatedResponse} \<and> stranded (snd (agent_receive a now f))"
proof -
  let ?q = "(cag_transactions a)\<lparr>tc_state := Quarantine t (at_deadline t + tc_quarantine_duration (cag_transactions a))\<rparr>"
  have c: "monotonic_checked_add (at_deadline t) (tc_quarantine_duration (cag_transactions a)) =
      Some (at_deadline t + tc_quarantine_duration (cag_transactions a))"
    using assms(6) by (simp add: monotonic_checked_add_def checked_add_def)
  have l: "\<not> now \<le> at_deadline t" using assms(5) by simp
  have "transaction_receive (cag_transactions a) now f = (Ok (if transaction_matches t f then Late else Unrelated), ?q)"
    by (simp add: transaction_receive_def enter_quarantine_def assms(2) c l)
  moreover have "stranded (a\<lparr>cag_transactions := ?q\<rparr>)"
    using quarantined_free [OF assms(1,2)] assms(1,3,4) by (auto simp: stranded_def agent_ok_def)
  ultimately show ?thesis by (simp add: agent_receive_def)
qed

text \<open>C18. A late answer strands the agent. When a frame is received after the deadline of the request of a measurement and
  before the agent was polled past that deadline, the receive reports it as late or unrelated and the timeout is never told to
  the measurement. From then on, in every history of further calls, the agent sends nothing: no poll reports a frame to send,
  no frame is ever given out, and the measurement stays active and in its pull.\<close>

theorem late_answer_strands_the_agent:
  assumes "agent_new ts os q policy = Ok start" "agent_history start h a"
    "tc_state (cag_transactions a) = Awaiting t" "cag_active a = Some active" "aw_work active = PW_Measurement transfer"
    "at_deadline t < now" "unat (at_deadline t) + unat (tc_quarantine_duration (cag_transactions a)) < 2 ^ 64"
    "agent_history (snd (agent_receive a now f)) h' b"
  shows "fst (agent_receive a now f) \<in> {Ok EV_LateResponse, Ok EV_UnrelatedResponse} \<and>
    list_all (\<lambda>(op, r). r \<noteq> Ok (AV_Event EV_TransmitReady) \<and> (\<forall>f. r \<noteq> Ok (AV_Frame (Some f)))) h' \<and>
    (\<exists>active transfer. cag_active b = Some active \<and> aw_work active = PW_Measurement transfer \<and>
       ns_phase (mt_session transfer) \<noteq> SP_Ready)"
proof -
  have "agent_ok a" using agent_history_ok [OF assms(1,2)] by simp
  from late_receive_strands [OF this assms(3-7)] stranded_history [OF assms(8)] show ?thesis by (auto simp: stranded_def)
qed

definition example_late_transfer :: MeasurementTransfer where
  "example_late_transfer = \<lparr>mt_node_address = 7, mt_max_samples = 32, mt_session = example_start, mt_observed_produced = None,
     mt_persistence_kind = None, mt_recovery_reason = None\<rparr>"

lemma example_attempt:
  "\<exists>p s. transfer_begin_attempt example_late_transfer d = (Ok \<lparr>ma_request = \<lparr>rs_node_address = 7, rs_service = service_code SID_Measurement,
       rs_request_message = PULL_SAMPLES_MESSAGE_ID, rs_response_message = PULL_SAMPLES_MESSAGE_ID, rs_timeout = d,
       rs_timeout_recovery = RetrySafe\<rparr>, ma_payload = p\<rparr>, s) \<and> length p = 26"
  by (simp add: transfer_begin_attempt_def example_late_transfer_def example_start_def begin_pull_def require_phase_def on_session_def
      pull_samples_request_new_def encode_pull_request_def PULL_REQUEST_BYTES_def copy_at_def Let_def)

text \<open>A measurement whose request was sent at 20 and is due at 1020.\<close>

lemma example_awaiting:
  "\<exists>h a t active transfer. agent_history example_agent h a \<and> tc_state (cag_transactions a) = Awaiting t \<and> cag_active a = Some active \<and>
     aw_work active = PW_Measurement transfer \<and> at_deadline t = 1020 \<and> tc_quarantine_duration (cag_transactions a) = 500"
proof -
  let ?a = "example_agent\<lparr>cag_pending := [PW_Measurement example_late_transfer]\<rparr>"
  have ok: "session_ok (mt_session example_late_transfer)"
    using session_recovered_ok [OF example_start_recovered] by (simp add: example_late_transfer_def)
  have 1: "agent_history example_agent [(AO_Measurement example_late_transfer, Ok AV_Done)] ?a"
    using Host_Agent_Invariant.agent_call [OF agent_start, of "AO_Measurement example_late_transfer" example_agent "Ok AV_Done" ?a] ok
    by (simp add: valued_def submit_measurement_def try_submit_measurement_def ensure_queue_capacity_def queued_work_items_def push_back_def
      example_agent_def example_channel_policy_def)
  obtain p s where ps: "transfer_begin_attempt example_late_transfer 1000 = (Ok \<lparr>ma_request = \<lparr>rs_node_address = 7, rs_service = service_code SID_Measurement,
       rs_request_message = PULL_SAMPLES_MESSAGE_ID, rs_response_message = PULL_SAMPLES_MESSAGE_ID, rs_timeout = 1000,
       rs_timeout_recovery = RetrySafe\<rparr>, ma_payload = p\<rparr>, s)" "length p = 26" using example_attempt by blast
  have "\<exists>r f pt b. agent_apply ?a (AO_Poll 10) = (r, b) \<and> cag_active b = Some \<lparr>aw_work = PW_Measurement s, aw_retry_not_before = 10,
      aw_attempts_started = 1\<rparr> \<and> cag_outbound b = Some f \<and> pt_timeout pt = 1000 \<and>
      cag_transactions b = \<lparr>tc_next_transaction_id = 8, tc_quarantine_duration = 500, tc_state = Transmitting pt\<rparr>"
    by (simp add: valued_def poll_def on_timer_def poll_work_def activate_next_def start_attempt_def on_work_def ps prepared_frame_def
        transaction_prepare_def transaction_is_idle_def prepared_request_frame_def frame_new_def validate_route_def HOST_ADDRESS_def
        BROADCAST_ADDRESS_def MAX_PAYLOAD_BYTES_def copy_at_def example_agent_def example_channel_policy_def Let_def saturating_add_def checked_add_def)
  then obtain r f pt b where b: "agent_apply ?a (AO_Poll 10) = (r, b)" "cag_active b = Some \<lparr>aw_work = PW_Measurement s,
      aw_retry_not_before = 10, aw_attempts_started = 1\<rparr>" "pt_timeout pt = 1000"
      "cag_transactions b = \<lparr>tc_next_transaction_id = 8, tc_quarantine_duration = 500, tc_state = Transmitting pt\<rparr>" by blast
  let ?c = "b\<lparr>cag_outbound := None\<rparr>"
  obtain h where h: "agent_history example_agent h ?c"
    using Host_Agent_Invariant.agent_call [OF Host_Agent_Invariant.agent_call [OF 1 _ b(1)], of AO_TakeOutbound]
    by (auto simp: take_outbound_def)
  have "\<exists>r d t. agent_apply ?c (AO_TransmitCompleted 20) = (r, d) \<and> tc_state (cag_transactions d) = Awaiting t \<and> at_deadline t = 1020 \<and>
      tc_quarantine_duration (cag_transactions d) = 500 \<and> (\<exists>active. cag_active d = Some active \<and> aw_work active = PW_Measurement s)"
    by (simp add: valued_def transmit_completed_def mark_transmitted_def b monotonic_checked_add_def checked_add_def Let_def)
  then show ?thesis using Host_Agent_Invariant.agent_call [OF h, of "AO_TransmitCompleted 20", simplified call_allowed.simps] by blast
qed

theorem late_answer_strands_the_agent_witness:
  "\<exists>h a f. agent_history example_agent h a \<and>
     fst (agent_receive a 1021 f) \<in> {Ok EV_LateResponse, Ok EV_UnrelatedResponse} \<and>
     cag_active (snd (agent_receive a 1021 f)) \<noteq> None"
proof -
  obtain h a t active transfer where h: "agent_history example_agent h a" "tc_state (cag_transactions a) = Awaiting t"
    "cag_active a = Some active" "aw_work active = PW_Measurement transfer" "at_deadline t = 1020"
    "tc_quarantine_duration (cag_transactions a) = 500" using example_awaiting by blast
  have "at_deadline t < 1021" "unat (at_deadline t) + unat (tc_quarantine_duration (cag_transactions a)) < 2 ^ 64" by (simp_all add: h)
  note late = late_answer_strands_the_agent [OF example_agent_new h(1-4) this agent_start]
  have "cag_active (snd (agent_receive a 1021 f)) \<noteq> None" for f using late [of f] by auto
  with late h(1) show ?thesis by blast
qed

end
