(* ===== verification/Host_Endpoint.thy ===== *)
theory Host_Endpoint
  imports Host_Agent_Invariant
begin

text \<open>
  The byte port of a channel and the endpoint that drives an agent over it (\<^verbatim>\<open>sensor-host/src/channel_port.rs\<close>,
  \<^verbatim>\<open>channel_endpoint.rs\<close>). What the device does is a script: the outcomes of its reads and writes, in order. The clock is read
  twice in a step; its readings are arguments.
\<close>

section \<open>The device\<close>

datatype IoErrorKind = IOK_TimedOut | IOK_WouldBlock | IOK_Other

datatype DeviceRead = DR_Bytes bytes | DR_Error IoErrorKind

text \<open>A write succeeds, fails after some of the bytes, or has its flush fail.\<close>

datatype DeviceWrite = DW_Done | DW_Failed nat IoErrorKind | DW_FlushFailed IoErrorKind

text \<open>\<open>dv_read\<close> and \<open>dv_written\<close> are the bytes that passed so far. A script that has ended reads nothing and writes all.\<close>

record Device =
  dv_reads :: "DeviceRead list"
  dv_writes :: "DeviceWrite list"
  dv_read :: bytes
  dv_written :: bytes

text \<open>\<open>Read::read\<close> fills at most the buffer; what does not fit stays for the next call.\<close>

definition device_read :: "Device \<Rightarrow> nat \<Rightarrow> (Device, bytes, IoErrorKind) outcome" where
  "device_read dev n =
     (case dv_reads dev of
        [] \<Rightarrow> (Err IOK_TimedOut, dev)
      | DR_Error k # rest \<Rightarrow> (Err k, dev\<lparr>dv_reads := rest\<rparr>)
      | DR_Bytes bs # rest \<Rightarrow>
          (Ok (take n bs), dev\<lparr>dv_reads := (if length bs \<le> n then rest else DR_Bytes (drop n bs) # rest),
             dv_read := dv_read dev @ take n bs\<rparr>))"

text \<open>\<open>write_all\<close> followed by \<open>flush\<close>.\<close>

definition device_write :: "Device \<Rightarrow> bytes \<Rightarrow> (Device, unit, IoErrorKind) outcome" where
  "device_write dev bs =
     (let dev' = dev\<lparr>dv_writes := tl (dv_writes dev)\<rparr> in
      case dv_writes dev of
        DW_Failed n k # _ \<Rightarrow> (Err k, dev'\<lparr>dv_written := dv_written dev @ take n bs\<rparr>)
      | DW_FlushFailed k # _ \<Rightarrow> (Err k, dev'\<lparr>dv_written := dv_written dev @ bs\<rparr>)
      | _ \<Rightarrow> (Ok (), dev'\<lparr>dv_written := dv_written dev @ bs\<rparr>))"

section \<open>The port\<close>

definition READ_BUFFER_BYTES :: usize where "READ_BUFFER_BYTES = 256"

datatype ReceiveEvent = RV_NoData | RV_FrameReady | RV_DecodeError FrameError | RV_Disconnected

text \<open>The variant \<open>Open\<close>, which carries an error of the serial port library, belongs to \<open>open\<close> and is left out with it.\<close>

datatype ChannelPortError = CPE_EmptyDevicePath | CPE_NonUtf8DevicePath | CPE_ZeroBaudRate | CPE_ZeroIoTimeout | CPE_Io IoErrorKind

record SerialPortConfig =
  spc_device :: string
  spc_baud_rate :: u32
  spc_io_timeout_ms :: nat

definition rs485 :: "string \<Rightarrow> u32 \<Rightarrow> SerialPortConfig" where
  "rs485 device baud_rate = \<lparr>spc_device = device, spc_baud_rate = baud_rate, spc_io_timeout_ms = 10\<rparr>"

definition serial_config_validate :: "SerialPortConfig \<Rightarrow> (unit, ChannelPortError) result" where
  "serial_config_validate self =
     (if spc_device self = [] then Err CPE_EmptyDevicePath
      else if spc_baud_rate self = 0 then Err CPE_ZeroBaudRate
      else if spc_io_timeout_ms self = 0 then Err CPE_ZeroIoTimeout
      else Ok ())"

record ChannelPort =
  cp_port :: Device
  cp_decoder :: StreamDecoder
  cp_read_buffer :: bytes
  cp_read_cursor :: nat
  cp_read_len :: nat
  cp_received :: "Frame option"
  cp_write_buffer :: bytes

type_synonym 'a port_outcome = "(ChannelPort, 'a, ChannelPortError) outcome"

definition from_io :: "Device \<Rightarrow> ChannelPort" where
  "from_io dev = \<lparr>cp_port = dev, cp_decoder = stream_decoder_new, cp_read_buffer = replicate READ_BUFFER_BYTES 0,
     cp_read_cursor = 0, cp_read_len = 0, cp_received = None, cp_write_buffer = replicate MAX_WIRE_FRAME_BYTES 0\<rparr>"

definition transmit :: "ChannelPort \<Rightarrow> Frame \<Rightarrow> unit port_outcome" where
  "transmit self frame =
     (case frame_encode frame (cp_write_buffer self) of
        Ok (wire_len, write_buffer) \<Rightarrow>
          let self = self\<lparr>cp_write_buffer := write_buffer\<rparr> in
          try_with (slice_at write_buffer 0 wire_len) self (\<lambda>bs.
            let (written, dev) = device_write (cp_port self) bs
            in (map_err CPE_Io written, self\<lparr>cp_port := dev\<rparr>))
      | _ \<Rightarrow> (Panic, self))"

text \<open>The loop ends because every turn moves the cursor towards the end of the bytes read.\<close>

function decode_buffered :: "ChannelPort \<Rightarrow> ReceiveEvent option port_outcome" where
  "decode_buffered self =
     (if cp_read_cursor self < cp_read_len self
      then case (index_at (cp_read_buffer self) (cp_read_cursor self) :: (u8, ChannelPortError) result) of
          Ok byte \<Rightarrow>
            (case push (cp_decoder self) byte of
               (Ok None, decoder) \<Rightarrow>
                 decode_buffered (self\<lparr>cp_read_cursor := cp_read_cursor self + 1, cp_decoder := decoder\<rparr>)
             | (Ok (Some (Ok frame)), decoder) \<Rightarrow>
                 (Ok (Some RV_FrameReady), self\<lparr>cp_read_cursor := cp_read_cursor self + 1, cp_decoder := decoder,
                    cp_received := Some frame\<rparr>)
             | (Ok (Some (Err error)), decoder) \<Rightarrow>
                 (Ok (Some (RV_DecodeError error)),
                  self\<lparr>cp_read_cursor := cp_read_cursor self + 1, cp_decoder := decoder\<rparr>)
             | (_, decoder) \<Rightarrow> (Panic, self\<lparr>cp_read_cursor := cp_read_cursor self + 1, cp_decoder := decoder\<rparr>))
        | _ \<Rightarrow> (Panic, self)
      else (Ok None, self))"
  by pat_completeness auto

termination by (relation "measure (\<lambda>self. cp_read_len self - cp_read_cursor self)") auto

declare decode_buffered.simps [simp del]

definition poll_receive :: "ChannelPort \<Rightarrow> ReceiveEvent port_outcome" where
  "poll_receive self =
     (if cp_received self \<noteq> None then (Ok RV_FrameReady, self)
      else let (buffered, self) = decode_buffered self in
        try_with buffered self (\<lambda>event.
          case event of
            Some event \<Rightarrow> (Ok event, self)
          | None \<Rightarrow>
              let (read, dev) = device_read (cp_port self) READ_BUFFER_BYTES;
                  self = self\<lparr>cp_port := dev\<rparr>
              in case read of
                   Ok bs \<Rightarrow>
                     if bs = [] then (Ok RV_Disconnected, self)
                     else let self = self\<lparr>cp_read_buffer := bs @ drop (length bs) (cp_read_buffer self),
                                         cp_read_cursor := 0, cp_read_len := length bs\<rparr>;
                              (decoded, self) = decode_buffered self
                          in try_with decoded self (\<lambda>event.
                               (Ok (case event of Some event \<Rightarrow> event | None \<Rightarrow> RV_NoData), self))
                 | Err k \<Rightarrow>
                     if k = IOK_TimedOut \<or> k = IOK_WouldBlock then (Ok RV_NoData, self) else (Err (CPE_Io k), self)
                 | Panic \<Rightarrow> (Panic, self)))"

definition take_received :: "ChannelPort \<Rightarrow> Frame option \<times> ChannelPort" where
  "take_received self = (cp_received self, self\<lparr>cp_received := None\<rparr>)"

definition discard_partial_receive :: "ChannelPort \<Rightarrow> ChannelPort" where
  "discard_partial_receive self =
     self\<lparr>cp_decoder := discard_partial (cp_decoder self), cp_read_cursor := cp_read_len self\<rparr>"

section \<open>The endpoint\<close>

datatype ChannelEndpointEvent =
  EE_Idle | EE_TransmissionComplete u8 | EE_Agent ChannelEvent | EE_DecodeError FrameError | EE_Disconnected

datatype ChannelEndpointError = EPE_InvariantViolation | EPE_Agent ChannelAgentError | EPE_Port ChannelPortError

record ChannelEndpoint =
  ep_agent :: ChannelAgent
  ep_port :: ChannelPort

type_synonym 'a endpoint_outcome = "(ChannelEndpoint, 'a, ChannelEndpointError) outcome"

text \<open>\<open>self.agent.method(..)?\<close> and \<open>self.port.method(..)?\<close>.\<close>

definition on_agent ::
  "ChannelEndpoint \<Rightarrow> 'a agent_outcome \<Rightarrow> ('a \<Rightarrow> ChannelEndpoint \<Rightarrow> 'b endpoint_outcome) \<Rightarrow> 'b endpoint_outcome" where
  "on_agent self out k =
     (let self = self\<lparr>ep_agent := snd out\<rparr> in try_with (map_err EPE_Agent (fst out)) self (\<lambda>x. k x self))"

definition on_port ::
  "ChannelEndpoint \<Rightarrow> 'a port_outcome \<Rightarrow> ('a \<Rightarrow> ChannelEndpoint \<Rightarrow> 'b endpoint_outcome) \<Rightarrow> 'b endpoint_outcome" where
  "on_port self out k =
     (let self = self\<lparr>ep_port := snd out\<rparr> in try_with (map_err EPE_Port (fst out)) self (\<lambda>x. k x self))"

text \<open>The branches of \<open>step\<close>: a frame that is ready to send, and a read of the line.\<close>

definition send_ready :: "ChannelEndpoint \<Rightarrow> MonotonicMicros \<Rightarrow> ChannelEndpointEvent endpoint_outcome" where
  "send_ready self sent =
     (let (outbound, agent) = take_outbound (ep_agent self);
          self = self\<lparr>ep_agent := agent\<rparr>
      in try_with (ok_or outbound EPE_InvariantViolation) self (\<lambda>frame.
           let (transmitted, port) = transmit (ep_port self) frame;
               self = self\<lparr>ep_port := port\<rparr>
           in case transmitted of
                Ok _ \<Rightarrow> on_agent self (transmit_completed (ep_agent self) sent) (\<lambda>_ self.
                  (Ok (EE_TransmissionComplete (fr_destination frame)), self))
              | Err error \<Rightarrow> on_agent self (transmit_failed (ep_agent self) sent) (\<lambda>_ self. (Err (EPE_Port error), self))
              | Panic \<Rightarrow> (Panic, self)))"

definition read_line :: "ChannelEndpoint \<Rightarrow> MonotonicMicros \<Rightarrow> ChannelEndpointEvent endpoint_outcome" where
  "read_line self arrived =
     on_port self (poll_receive (ep_port self)) (\<lambda>event self.
       case event of
         RV_NoData \<Rightarrow> (Ok EE_Idle, self)
       | RV_FrameReady \<Rightarrow>
           let (received, port) = take_received (ep_port self);
               self = self\<lparr>ep_port := port\<rparr>
           in try_with (ok_or received EPE_InvariantViolation) self (\<lambda>frame.
                on_agent self (agent_receive (ep_agent self) arrived frame) (\<lambda>event self. (Ok (EE_Agent event), self)))
       | RV_DecodeError error \<Rightarrow> (Ok (EE_DecodeError error), self)
       | RV_Disconnected \<Rightarrow> (Ok EE_Disconnected, self))"

definition step :: "ChannelEndpoint \<Rightarrow> MonotonicMicros \<Rightarrow> MonotonicMicros \<Rightarrow> ChannelEndpointEvent endpoint_outcome" where
  "step self now later =
     on_agent self (poll (ep_agent self) now) (\<lambda>agent_event self.
       if agent_event = EV_TransmitReady then send_ready self later
       else if agent_event \<noteq> EV_Idle then (Ok (EE_Agent agent_event), self)
       else read_line self later)"

section \<open>What the port carries\<close>

definition unread :: "ChannelPort \<Rightarrow> bytes" where
  "unread p = take (cp_read_len p - cp_read_cursor p) (drop (cp_read_cursor p) (cp_read_buffer p))"

definition port_ok :: "ChannelPort \<Rightarrow> bool" where
  "port_ok p \<longleftrightarrow> decoder_ok (cp_decoder p) \<and> length (cp_read_buffer p) = READ_BUFFER_BYTES \<and>
     cp_read_cursor p \<le> cp_read_len p \<and> cp_read_len p \<le> READ_BUFFER_BYTES \<and>
     length (cp_write_buffer p) = MAX_WIRE_FRAME_BYTES \<and> (\<forall>f. cp_received p = Some f \<longrightarrow> frame_ok f)"

text \<open>The events still to come from the bytes in the buffer, and the decoder after them.\<close>

definition buffered :: "ChannelPort \<Rightarrow> (Frame, FrameError) result list \<times> bytes option" where
  "buffered p = spec_push_all (pending (cp_decoder p)) (unread p)"

definition with_events :: "'a list \<Rightarrow> 'a list \<times> 'b \<Rightarrow> 'a list \<times> 'b" where
  "with_events evs s = (evs @ fst s, snd s)"

fun event_of :: "ReceiveEvent option \<Rightarrow> ChannelPort \<Rightarrow> (Frame, FrameError) result list" where
  "event_of (Some RV_FrameReady) p = [Ok (the (cp_received p))]"
| "event_of (Some (RV_DecodeError e)) p = [Err e]"
| "event_of _ p = []"

lemma decode_body_frame_ok: "decode_body bs = Ok f \<Longrightarrow> frame_ok f"
  by (auto simp: decode_body_def result_iffs Let_def dest!: frame_new_ok split: if_splits)

lemma spec_push_frame_ok: "spec_push p b = (Some (Ok f), p') \<Longrightarrow> frame_ok f"
  by (cases p) (auto dest: decode_body_frame_ok split: if_splits)

lemma port_ok_fields:
  assumes "port_ok p" "cp_read_cursor p < cp_read_len p"
  shows "index_at (cp_read_buffer p) (cp_read_cursor p) = (Ok (cp_read_buffer p ! cp_read_cursor p) :: (u8, ChannelPortError) result)"
    "unread p = cp_read_buffer p ! cp_read_cursor p # unread (p\<lparr>cp_read_cursor := cp_read_cursor p + 1, cp_decoder := d, cp_received := r\<rparr>)"
proof -
  have l: "cp_read_cursor p < length (cp_read_buffer p)" using assms by (simp add: port_ok_def)
  then show "index_at (cp_read_buffer p) (cp_read_cursor p) = (Ok (cp_read_buffer p ! cp_read_cursor p) :: (u8, ChannelPortError) result)" by (simp add: index_at_def)
  have "drop (cp_read_cursor p) (cp_read_buffer p) = cp_read_buffer p ! cp_read_cursor p # drop (Suc (cp_read_cursor p)) (cp_read_buffer p)"
    using l by (rule Cons_nth_drop_Suc [symmetric])
  moreover have "cp_read_len p - cp_read_cursor p = Suc (cp_read_len p - Suc (cp_read_cursor p))" using assms(2) by simp
  ultimately show "unread p = cp_read_buffer p ! cp_read_cursor p # unread (p\<lparr>cp_read_cursor := cp_read_cursor p + 1, cp_decoder := d, cp_received := r\<rparr>)"
    by (simp add: unread_def)
qed

text \<open>What decoding the buffer leaves alone.\<close>

definition same_lines :: "ChannelPort \<Rightarrow> ChannelPort \<Rightarrow> bool" where
  "same_lines p p' \<longleftrightarrow> cp_port p' = cp_port p \<and> cp_write_buffer p' = cp_write_buffer p \<and> cp_read_buffer p' = cp_read_buffer p"

definition carries :: "ChannelPort \<Rightarrow> ReceiveEvent option port_outcome \<Rightarrow> bool" where
  "carries p out \<longleftrightarrow> (\<exists>ev p'. out = (Ok ev, p') \<and> port_ok p' \<and> same_lines p p' \<and>
     buffered p = with_events (event_of ev p') (buffered p') \<and> (ev = Some RV_FrameReady \<longleftrightarrow> cp_received p' \<noteq> None) \<and>
     (ev = None \<longrightarrow> unread p' = []) \<and> ev \<noteq> Some RV_NoData \<and> ev \<noteq> Some RV_Disconnected)"

text \<open>One turn of the loop, with the event of the byte it reads.\<close>

lemma decode_buffered_turn:
  fixes p :: ChannelPort
  defines "next_port \<equiv> \<lambda>d. p\<lparr>cp_read_cursor := cp_read_cursor p + 1, cp_decoder := d\<rparr>"
  assumes ok: "port_ok p" and none: "cp_received p = None" and more: "cp_read_cursor p < cp_read_len p"
    and d: "push (cp_decoder p) (cp_read_buffer p ! cp_read_cursor p) = (Ok ev, d)" "decoder_ok d"
      "spec_push (pending (cp_decoder p)) (cp_read_buffer p ! cp_read_cursor p) = (ev, pending d)"
    and later: "ev = None \<Longrightarrow> carries (next_port d) (decode_buffered (next_port d))"
  shows "carries p (decode_buffered p)"
proof -
  note f = port_ok_fields [OF ok more]
  have ok': "port_ok (next_port d)" using ok d(2) more by (simp add: port_ok_def next_port_def)
  have u: "unread p = cp_read_buffer p ! cp_read_cursor p # unread (next_port d)"
    using f(2) [where d = d and r = "cp_received p"] by (simp add: next_port_def)
  have b: "buffered p = with_events (case ev of None \<Rightarrow> [] | Some e \<Rightarrow> [e]) (buffered (next_port d))"
    unfolding buffered_def u by (simp add: d(3) with_events_def next_port_def split: prod.split)
  show ?thesis
  proof (cases ev)
    case None
    have "decode_buffered p = decode_buffered (next_port d)"
      using more f(1) d(1) None by (simp add: decode_buffered.simps [of p] next_port_def)
    then show ?thesis using later [OF None] b None by (auto simp: carries_def same_lines_def with_events_def next_port_def)
  next
    case (Some r)
    show ?thesis
    proof (cases r)
      case (Ok g)
      have g: "frame_ok g" using d(3) Some Ok spec_push_frame_ok by blast
      have "decode_buffered p = (Ok (Some RV_FrameReady), (next_port d)\<lparr>cp_received := Some g\<rparr>)"
        using more f(1) d(1) Some Ok by (simp add: decode_buffered.simps [of p] next_port_def)
      then show ?thesis using ok' g b Some Ok by (simp add: carries_def same_lines_def port_ok_def buffered_def unread_def next_port_def)
    next
      case (Err e)
      have "decode_buffered p = (Ok (Some (RV_DecodeError e)), next_port d)"
        using more f(1) d(1) Some Err by (simp add: decode_buffered.simps [of p] next_port_def)
      then show ?thesis using ok' b Some Err none by (simp add: carries_def same_lines_def next_port_def)
    qed (use d(3) Some in \<open>cases "pending (cp_decoder p)"; auto split: if_splits\<close>)
  qed
qed

lemma decode_buffered_carries: "port_ok p \<Longrightarrow> cp_received p = None \<Longrightarrow> carries p (decode_buffered p)"
proof (induction p rule: decode_buffered.induct)
  case (1 p)
  show ?case
  proof (cases "cp_read_cursor p < cp_read_len p")
    case False
    then show ?thesis using "1.prems"
      by (simp add: carries_def decode_buffered.simps [of p] same_lines_def with_events_def unread_def)
  next
    case True
    let ?b = "cp_read_buffer p ! cp_read_cursor p"
    obtain ev d where d: "push (cp_decoder p) ?b = (Ok ev, d)" "decoder_ok d" "spec_push (pending (cp_decoder p)) ?b = (ev, pending d)"
      using push_refines "1.prems"(1) by (metis port_ok_def)
    have ok: "port_ok (p\<lparr>cp_read_cursor := cp_read_cursor p + 1, cp_decoder := d\<rparr>)" using "1.prems" d(2) True by (simp add: port_ok_def)
    show ?thesis
      by (rule decode_buffered_turn [OF "1.prems" True d])
        (use "1.IH" [OF True port_ok_fields(1) [OF "1.prems"(1) True] _ _ _ ok] d(1) "1.prems"(2) in simp)
  qed
qed

text \<open>The frame that waits to be taken, and all that is still to come.\<close>

definition outstanding :: "ChannelPort \<Rightarrow> (Frame, FrameError) result list \<times> bytes option" where
  "outstanding p = with_events (case cp_received p of None \<Rightarrow> [] | Some f \<Rightarrow> [Ok f]) (buffered p)"

lemma with_events_simps [simp]:
  "with_events [] s = s" "with_events xs (with_events ys s) = with_events (xs @ ys) s"
  by (simp_all add: with_events_def)

lemma spec_push_all_more:
  "spec_push_all p (xs @ ys) = with_events (fst (spec_push_all p xs)) (spec_push_all (snd (spec_push_all p xs)) ys)"
  by (simp add: spec_push_all_append with_events_def split: prod.split)

text \<open>The bytes a poll reads, and the events it shows at once.\<close>

fun shown :: "ReceiveEvent \<Rightarrow> (Frame, FrameError) result list" where
  "shown (RV_DecodeError e) = [Err e]"
| "shown _ = []"

definition polled :: "ChannelPort \<Rightarrow> ReceiveEvent port_outcome \<Rightarrow> bool" where
  "polled p out \<longleftrightarrow> fst out \<noteq> Panic \<and> port_ok (snd out) \<and> dv_written (cp_port (snd out)) = dv_written (cp_port p) \<and>
     dv_writes (cp_port (snd out)) = dv_writes (cp_port p) \<and>
     (fst out = Ok RV_FrameReady \<longrightarrow> cp_received (snd out) \<noteq> None) \<and>
     (\<exists>bs. dv_read (cp_port (snd out)) = dv_read (cp_port p) @ bs \<and>
        with_events (fst (outstanding p)) (spec_push_all (snd (outstanding p)) bs) =
        with_events (case fst out of Ok ev \<Rightarrow> shown ev | _ \<Rightarrow> []) (outstanding (snd out)))"

lemma device_read_cases:
  obtains k dev' where "device_read dev n = (Err k, dev')" "dv_read dev' = dv_read dev" "dv_written dev' = dv_written dev"
      "dv_writes dev' = dv_writes dev"
  | bs dev' where "device_read dev n = (Ok bs, dev')" "dv_read dev' = dv_read dev @ bs" "length bs \<le> n"
      "dv_written dev' = dv_written dev" "dv_writes dev' = dv_writes dev"
  by (cases "dv_reads dev"; cases "hd (dv_reads dev)") (auto simp: device_read_def that)

lemma polled_event:
  assumes "carries p (Ok (Some ev), p')" "cp_received p = None"
  shows "polled p (Ok ev, p')"
  using assms by (cases ev) (auto simp: polled_def carries_def same_lines_def outstanding_def with_events_def)

lemma polled_quiet:
  assumes "port_ok p" "cp_received p = None" "unread p = []" "dv_read dev = dv_read (cp_port p)"
    "dv_written dev = dv_written (cp_port p)" "dv_writes dev = dv_writes (cp_port p)" "r \<noteq> Panic" "r \<noteq> Ok RV_FrameReady"
    "\<And>e. r \<noteq> Ok (RV_DecodeError e)"
  shows "polled p (r, p\<lparr>cp_port := dev\<rparr>)"
proof -
  have "(case r of Ok ev \<Rightarrow> shown ev | _ \<Rightarrow> []) = []" using assms(8,9) by (cases r rule: result.exhaust; cases "case r of Ok ev \<Rightarrow> ev") auto
  then show ?thesis using assms by (simp add: polled_def outstanding_def buffered_def unread_def port_ok_def with_events_def)
qed

lemma polled_from:
  assumes "carries p (Ok None, p1)" "cp_received p = None" "polled p1 out"
  shows "polled p out"
proof -
  have "outstanding p = outstanding p1" "cp_port p1 = cp_port p"
    using assms(1,2) by (auto simp: carries_def same_lines_def outstanding_def)
  with assms(3) show ?thesis by (simp add: polled_def)
qed

text \<open>A read that brought bytes: they fill the buffer and are decoded up to the first event.\<close>

lemma polled_read:
  fixes p :: ChannelPort
  defines "filled \<equiv> \<lambda>dev bs. p\<lparr>cp_port := dev, cp_read_buffer := bs @ drop (length bs) (cp_read_buffer p), cp_read_cursor := 0,
    cp_read_len := length bs\<rparr>"
  assumes ok: "port_ok p" and none: "cp_received p = None" and quiet: "unread p = []"
    and bs: "length bs \<le> READ_BUFFER_BYTES" "dv_read dev = dv_read (cp_port p) @ bs" "dv_written dev = dv_written (cp_port p)"
      "dv_writes dev = dv_writes (cp_port p)"
    and ev: "decode_buffered (filled dev bs) = (r, p')"
  shows "\<exists>ev. r = Ok ev \<and> polled p (Ok (case ev of Some ev \<Rightarrow> ev | None \<Rightarrow> RV_NoData), p')"
proof -
  let ?q = "filled dev bs"
  have q: "port_ok ?q" "cp_received ?q = None" using ok none bs(1) by (simp_all add: filled_def port_ok_def)
  have u: "unread ?q = bs" by (simp add: unread_def filled_def)
  obtain ev where c: "r = Ok ev" "carries ?q (Ok ev, p')" using decode_buffered_carries [OF q] ev by (auto simp: carries_def)
  have b: "buffered ?q = spec_push_all (pending (cp_decoder p)) bs" by (simp add: buffered_def u) (simp add: filled_def)
  have o: "outstanding p = ([], pending (cp_decoder p))" using none quiet by (simp add: outstanding_def buffered_def)
  have l: "cp_port p' = dev" "port_ok p'" using c(2) by (auto simp: carries_def same_lines_def filled_def)
  have "spec_push_all (pending (cp_decoder p)) bs = with_events (event_of ev p') (buffered p')"
    using c(2) b by (simp add: carries_def)
  then have "polled p (Ok (case ev of Some ev \<Rightarrow> ev | None \<Rightarrow> RV_NoData), p')"
    using c(2) l bs o by (cases "(ev, p')" rule: event_of.cases) (auto simp: polled_def carries_def outstanding_def)
  with c(1) show ?thesis by blast
qed

lemma poll_receive_polled:
  assumes "port_ok p"
  shows "polled p (poll_receive p)"
proof (cases "cp_received p")
  case (Some f)
  then show ?thesis using assms by (simp add: poll_receive_def polled_def with_events_def)
next
  case None
  obtain ev p1 where d: "decode_buffered p = (Ok ev, p1)" and c: "carries p (Ok ev, p1)"
    using decode_buffered_carries [OF assms None] by (auto simp: carries_def)
  show ?thesis
  proof (cases ev)
    case (Some e)
    then show ?thesis using polled_event [of p e p1] c None d by (simp add: poll_receive_def)
  next
    case empty: None
    have 1: "port_ok p1" "cp_received p1 = None" "unread p1 = []" using c empty by (auto simp: carries_def)
    have "polled p1 (poll_receive p)"
    proof (cases rule: device_read_cases [of "cp_port p1" READ_BUFFER_BYTES])
      case (1 k dev)
      then show ?thesis using polled_quiet [OF \<open>port_ok p1\<close> \<open>cp_received p1 = None\<close> \<open>unread p1 = []\<close>, of dev] d empty None
        by (simp add: poll_receive_def Let_def)
    next
      case (2 bs dev)
      show ?thesis
      proof (cases "bs = []")
        case True
        then show ?thesis using 2 polled_quiet [OF \<open>port_ok p1\<close> \<open>cp_received p1 = None\<close> \<open>unread p1 = []\<close>, of dev] d empty None
          by (simp add: poll_receive_def Let_def)
      next
        case False
        obtain r p' where r: "decode_buffered (p1\<lparr>cp_port := dev, cp_read_buffer := bs @ drop (length bs) (cp_read_buffer p1),
            cp_read_cursor := 0, cp_read_len := length bs\<rparr>) = (r, p')" by (metis surj_pair)
        from polled_read [OF 1 2(3,2,4,5) r] show ?thesis using False 2(1) d empty None r by (auto simp: poll_receive_def Let_def)
      qed
    qed
    with c None empty show ?thesis using polled_from by blast
  qed
qed

lemma transmit_cases:
  assumes "port_ok p" "frame_ok f" "transmit p f = (r, p')"
  shows "port_ok p'" "r \<noteq> Panic" "outstanding p' = outstanding p" "dv_read (cp_port p') = dv_read (cp_port p)"
    "dv_reads (cp_port p') = dv_reads (cp_port p)" "r = Ok x \<Longrightarrow> dv_written (cp_port p') = dv_written (cp_port p) @ wire_bytes f"
    "dv_writes (cp_port p) = [] \<Longrightarrow> r = Ok ()"
proof -
  obtain out where e: "frame_encode f (cp_write_buffer p) = Ok (length (wire_bytes f), out)" "length out = MAX_WIRE_FRAME_BYTES"
      "take (length (wire_bytes f)) out = wire_bytes f"
    using frame_encode_ok [OF assms(2)] assms(1) by (metis port_ok_def)
  have "length (wire_bytes f) \<le> length out" using e(3) by (metis length_take min.cobounded1 min_def)
  then have s: "slice_at out 0 (length (wire_bytes f)) = (Ok (wire_bytes f) :: (bytes, ChannelPortError) result)"
    using e(3) by (simp add: slice_at_def sub_def)
  obtain w dev where w: "device_write (cp_port p) (wire_bytes f) = (w, dev)" by (metis surj_pair)
  have d: "dv_read dev = dv_read (cp_port p)" "dv_reads dev = dv_reads (cp_port p)" "w \<noteq> Panic"
      "w = Ok () \<Longrightarrow> dv_written dev = dv_written (cp_port p) @ wire_bytes f"
    using w by (auto simp: device_write_def Let_def split: list.splits DeviceWrite.splits)
  have p': "p' = p\<lparr>cp_write_buffer := out, cp_port := dev\<rparr>" "r = map_err CPE_Io w"
    using assms(3) e s w by (simp_all add: transmit_def)
  show "port_ok p'" "r \<noteq> Panic" "outstanding p' = outstanding p" "dv_read (cp_port p') = dv_read (cp_port p)"
      "dv_reads (cp_port p') = dv_reads (cp_port p)"
    using p' d assms(1) e(2) by (auto simp: port_ok_def outstanding_def buffered_def unread_def result_iffs)
  show "r = Ok x \<Longrightarrow> dv_written (cp_port p') = dv_written (cp_port p) @ wire_bytes f"
    using p' d(4) by (auto simp: result_iffs)
  show "dv_writes (cp_port p) = [] \<Longrightarrow> r = Ok ()" using p'(2) w by (auto simp: device_write_def Let_def)
qed

section \<open>Histories of a port\<close>

datatype PortOp = PO_Transmit Frame | PO_Poll | PO_Take

datatype PortValue = PV_Sent | PV_Event ReceiveEvent | PV_Frame "Frame option"

fun port_apply :: "ChannelPort \<Rightarrow> PortOp \<Rightarrow> PortValue port_outcome" where
  "port_apply p (PO_Transmit f) = (case transmit p f of (r, p') \<Rightarrow> (map_ok (\<lambda>_. PV_Sent) r, p'))"
| "port_apply p PO_Poll = (case poll_receive p of (r, p') \<Rightarrow> (map_ok PV_Event r, p'))"
| "port_apply p PO_Take = (Ok (PV_Frame (fst (take_received p))), snd (take_received p))"

fun port_call_allowed :: "PortOp \<Rightarrow> bool" where
  "port_call_allowed (PO_Transmit f) \<longleftrightarrow> frame_ok f"
| "port_call_allowed _ \<longleftrightarrow> True"

type_synonym port_call = "PortOp \<times> (PortValue, ChannelPortError) result"

inductive port_history :: "Device \<Rightarrow> port_call list \<Rightarrow> ChannelPort \<Rightarrow> bool" for dev where
  port_start: "port_history dev [] (from_io dev)"
| port_call: "\<lbrakk>port_history dev h p; port_call_allowed op; port_apply p op = (r, p')\<rbrakk> \<Longrightarrow> port_history dev (h @ [(op, r)]) p'"

text \<open>What a call shows of the stream, and what it puts on the line when all of it is written.\<close>

fun seen :: "port_call \<Rightarrow> (Frame, FrameError) result list" where
  "seen (PO_Poll, Ok (PV_Event (RV_DecodeError e))) = [Err e]"
| "seen (PO_Take, Ok (PV_Frame (Some f))) = [Ok f]"
| "seen _ = []"

fun frame_sent :: "port_call \<Rightarrow> Frame list" where
  "frame_sent (PO_Transmit f, _) = [f]"
| "frame_sent _ = []"

fun written_whole :: "port_call \<Rightarrow> bool" where
  "written_whole (PO_Transmit _, Ok _) \<longleftrightarrow> True"
| "written_whole (PO_Transmit _, _) \<longleftrightarrow> False"
| "written_whole _ \<longleftrightarrow> True"

lemma seen_poll: "seen (PO_Poll, map_ok PV_Event r) = (case r of Ok ev \<Rightarrow> shown ev | _ \<Rightarrow> [])"
  by (cases r; cases "case r of Ok ev \<Rightarrow> ev") auto

definition port_invariant :: "Device \<Rightarrow> port_call list \<Rightarrow> ChannelPort \<Rightarrow> bool" where
  "port_invariant dev h p \<longleftrightarrow> port_ok p \<and> list_all (\<lambda>(op, r). r \<noteq> Panic) h \<and>
     (\<exists>bs. dv_read (cp_port p) = dv_read dev @ bs \<and>
        spec_push_all (Some []) bs = with_events (concat (map seen h)) (outstanding p)) \<and>
     (list_all written_whole h \<longrightarrow> dv_written (cp_port p) = dv_written dev @ concat (map wire_bytes (concat (map frame_sent h)))) \<and>
     list_all frame_ok (concat (map frame_sent h))"

lemma from_io_ok: "port_invariant dev [] (from_io dev)"
  by (simp add: port_invariant_def from_io_def port_ok_def stream_decoder_new_ok READ_BUFFER_BYTES_def outstanding_def buffered_def
      unread_def)

lemma port_invariant_poll:
  assumes "port_invariant dev h p" "poll_receive p = (r, p')"
  shows "port_invariant dev (h @ [(PO_Poll, map_ok PV_Event r)]) p'"
proof -
  obtain bs where bs: "dv_read (cp_port p) = dv_read dev @ bs" "spec_push_all (Some []) bs = with_events (concat (map seen h)) (outstanding p)"
    using assms(1) by (auto simp: port_invariant_def)
  have pl: "polled p (r, p')" using poll_receive_polled [of p] assms by (simp add: port_invariant_def)
  then obtain cs where cs: "dv_read (cp_port p') = dv_read (cp_port p) @ cs"
      "with_events (fst (outstanding p)) (spec_push_all (snd (outstanding p)) cs) =
         with_events (case r of Ok ev \<Rightarrow> shown ev | _ \<Rightarrow> []) (outstanding p')" by (auto simp: polled_def)
  have "spec_push_all (Some []) (bs @ cs) = with_events (concat (map seen h))
      (with_events (fst (outstanding p)) (spec_push_all (snd (outstanding p)) cs))"
    by (simp add: spec_push_all_more bs(2)) (simp add: with_events_def)
  then have "spec_push_all (Some []) (bs @ cs) = with_events (concat (map seen (h @ [(PO_Poll, map_ok PV_Event r)]))) (outstanding p')"
    by (simp add: cs(2) seen_poll)
  then show ?thesis using assms(1) pl bs(1) cs(1) by (auto simp: port_invariant_def polled_def map_ok_eq_Panic)
qed

lemma port_invariant_transmit:
  assumes "port_invariant dev h p" "transmit p f = (r, p')" "frame_ok f"
  shows "port_invariant dev (h @ [(PO_Transmit f, map_ok (\<lambda>_. PV_Sent) r)]) p'"
  using assms(1,3) transmit_cases [OF _ assms(3,2)] by (cases r) (auto simp: port_invariant_def)

lemma port_invariant_take:
  assumes "port_invariant dev h p"
  shows "port_invariant dev (h @ [(PO_Take, Ok (PV_Frame (fst (take_received p))))]) (snd (take_received p))"
  using assms by (cases "cp_received p") (auto simp: port_invariant_def take_received_def port_ok_def outstanding_def buffered_def unread_def)

lemma port_history_invariant: "port_history dev h p \<Longrightarrow> port_invariant dev h p"
proof (induction rule: port_history.induct)
  case port_start
  then show ?case by (rule from_io_ok)
next
  case (port_call h p op r p')
  then show ?case
    by (cases op) (auto split: prod.splits intro: port_invariant_poll port_invariant_transmit port_invariant_take)
qed

text \<open>C20. The line carries exactly the frames. In every history of calls on a port no call panics. However the bytes of the line
  are cut into reads, and however timeouts and errors of the device fall between them, the frames taken and the decoding errors
  reported, in their order, are those of the abstract decoder on all the bytes read, except for the ones still waiting in the
  port. When no write failed, the bytes written are the frames handed over, and a decoder on the other side gets
  exactly these frames.\<close>

theorem line_carries_exactly_the_frames:
  assumes "port_history dev h p" "dv_read dev = []" "dv_written dev = []"
  shows "list_all (\<lambda>(op, r). r \<noteq> Panic) h \<and>
    spec_push_all (Some []) (dv_read (cp_port p)) =
      (concat (map seen h) @ fst (outstanding p), snd (outstanding p)) \<and>
    (list_all written_whole h \<longrightarrow>
       spec_push_all (Some []) (dv_written (cp_port p)) = (map Ok (concat (map frame_sent h)), Some []))"
proof -
  have i: "port_invariant dev h p" by (rule port_history_invariant [OF assms(1)])
  then obtain bs where bs: "dv_read (cp_port p) = bs" "spec_push_all (Some []) bs = with_events (concat (map seen h)) (outstanding p)"
    using assms(2) by (auto simp: port_invariant_def)
  have "spec_push_all (Some []) (concat (map wire_bytes (concat (map frame_sent h)))) = (map Ok (concat (map frame_sent h)), Some [])"
    by (rule spec_wires) (use i in \<open>auto simp: port_invariant_def list_all_iff\<close>)
  with i bs assms(3) show ?thesis by (simp add: port_invariant_def with_events_def)
qed

definition example_device :: Device where
  "example_device = \<lparr>dv_reads = [DR_Error IOK_TimedOut], dv_writes = [], dv_read = [], dv_written = []\<rparr>"

definition example_frame :: Frame where
  "example_frame = \<lparr>fr_role = Request, fr_destination = 7, fr_source = HOST_ADDRESS, fr_service = 1, fr_message = 2,
     fr_transaction_id = 3, fr_payload_array = replicate MAX_PAYLOAD_BYTES 0, fr_payload_len = 0\<rparr>"

theorem line_carries_exactly_the_frames_witness:
  "\<exists>p. port_history example_device [(PO_Transmit example_frame, Ok PV_Sent)] p \<and>
     spec_push_all (Some []) (dv_written (cp_port p)) = ([Ok example_frame], Some [])"
proof -
  have f: "frame_ok example_frame"
    by (simp add: frame_ok_def example_frame_def validate_route_def HOST_ADDRESS_def BROADCAST_ADDRESS_def)
  have d: "dv_read example_device = []" "dv_written example_device = []" "dv_writes (cp_port (from_io example_device)) = []"
    by (simp_all add: example_device_def from_io_def)
  obtain r p where t: "transmit (from_io example_device) example_frame = (r, p)" by (metis surj_pair)
  have "port_ok (from_io example_device)" using from_io_ok by (simp add: port_invariant_def)
  from transmit_cases(7) [OF this f t d(3)] have r: "r = Ok ()" .
  have h: "port_history example_device [(PO_Transmit example_frame, Ok PV_Sent)] p"
    using port_call [OF port_start, of "PO_Transmit example_frame"] f t r by simp
  from line_carries_exactly_the_frames [OF h d(1,2)] h show ?thesis by auto
qed

section \<open>Histories of an endpoint\<close>

datatype EndpointOp = EO_Step MonotonicMicros MonotonicMicros | EO_Agent AgentOp

datatype EndpointValue = EPV_Event ChannelEndpointEvent | EPV_Agent AgentValue

text \<open>Through \<open>agent_mut\<close> the owner of an endpoint submits work and takes back what is finished; it does not drive the line.\<close>

fun owner_call :: "AgentOp \<Rightarrow> bool" where
  "owner_call (AO_Poll _) \<longleftrightarrow> False"
| "owner_call AO_TakeOutbound \<longleftrightarrow> False"
| "owner_call (AO_TransmitCompleted _) \<longleftrightarrow> False"
| "owner_call (AO_TransmitFailed _) \<longleftrightarrow> False"
| "owner_call (AO_Receive _ _) \<longleftrightarrow> False"
| "owner_call _ \<longleftrightarrow> True"

fun endpoint_allowed :: "EndpointOp \<Rightarrow> bool" where
  "endpoint_allowed (EO_Step _ _) \<longleftrightarrow> True"
| "endpoint_allowed (EO_Agent op) \<longleftrightarrow> owner_call op \<and> call_allowed op"

fun endpoint_apply :: "ChannelEndpoint \<Rightarrow> EndpointOp \<Rightarrow> EndpointValue endpoint_outcome" where
  "endpoint_apply e (EO_Step now later) = (case step e now later of (r, e') \<Rightarrow> (map_ok EPV_Event r, e'))"
| "endpoint_apply e (EO_Agent op) = on_agent e (agent_apply (ep_agent e) op) (\<lambda>v e. (Ok (EPV_Agent v), e))"

inductive endpoint_history ::
  "ChannelAgent \<Rightarrow> Device \<Rightarrow> (EndpointOp \<times> (EndpointValue, ChannelEndpointError) result) list \<Rightarrow> ChannelEndpoint \<Rightarrow> bool" for start dev where
  endpoint_start: "endpoint_history start dev [] \<lparr>ep_agent = start, ep_port = from_io dev\<rparr>"
| endpoint_call: "\<lbrakk>endpoint_history start dev h e; endpoint_allowed op; endpoint_apply e op = (r, e')\<rbrakk> \<Longrightarrow>
    endpoint_history start dev (h @ [(op, r)]) e'"

fun frame_received :: "agent_call \<Rightarrow> Frame list" where
  "frame_received (AO_Receive _ f, _) = [f]"
| "frame_received _ = []"

fun frame_given :: "agent_call \<Rightarrow> Frame list" where
  "frame_given (AO_TakeOutbound, Ok (AV_Frame (Some f))) = [f]"
| "frame_given _ = []"

fun frame_taken :: "port_call \<Rightarrow> Frame list" where
  "frame_taken (PO_Take, Ok (PV_Frame (Some f))) = [f]"
| "frame_taken _ = []"

text \<open>An endpoint is an agent and a port with a history each, in which the frames of one are the frames of the other.\<close>

definition composed ::
  "ChannelAgent \<Rightarrow> Device \<Rightarrow> ChannelEndpoint \<Rightarrow> agent_call list \<Rightarrow> port_call list \<Rightarrow> bool" where
  "composed start dev e ha hp \<longleftrightarrow> agent_history start ha (ep_agent e) \<and> port_history dev hp (ep_port e) \<and>
     concat (map frame_received ha) = concat (map frame_taken hp) \<and> concat (map frame_given ha) = concat (map frame_sent hp)"

lemma composed_agent:
  assumes "composed start dev e ha hp" "call_allowed op" "agent_apply (ep_agent e) op = (r, a)"
    "frame_received (op, r) = []" "frame_given (op, r) = []"
  shows "composed start dev (e\<lparr>ep_agent := a\<rparr>) (ha @ [(op, r)]) hp"
  using assms agent_call [of start ha "ep_agent e" op r a] by (simp add: composed_def)

lemma composed_port:
  assumes "composed start dev e ha hp" "port_call_allowed op" "port_apply (ep_port e) op = (r, p)"
    "frame_taken (op, r) = []" "frame_sent (op, r) = []"
  shows "composed start dev (e\<lparr>ep_port := p\<rparr>) ha (hp @ [(op, r)])"
  using assms port_call [of dev hp "ep_port e" op r p] by (simp add: composed_def)

text \<open>A frame given out is handed to the port, and a frame taken from the port is given to the agent.\<close>

lemma composed_send:
  assumes "composed start dev e ha hp" "cag_outbound (ep_agent e) = Some f" "frame_ok f" "transmit (ep_port e) f = (r, p)"
  shows "composed start dev (e\<lparr>ep_agent := (ep_agent e)\<lparr>cag_outbound := None\<rparr>, ep_port := p\<rparr>)
    (ha @ [(AO_TakeOutbound, Ok (AV_Frame (Some f)))]) (hp @ [(PO_Transmit f, map_ok (\<lambda>_. PV_Sent) r)])"
  using assms agent_call [of start ha "ep_agent e" AO_TakeOutbound] port_call [of dev hp "ep_port e" "PO_Transmit f"]
  by (simp add: composed_def take_outbound_def)

lemma composed_receive:
  assumes "composed start dev e ha hp" "cp_received (ep_port e) = Some f" "frame_ok f" "agent_receive (ep_agent e) now f = (r, a)"
  shows "composed start dev (e\<lparr>ep_port := (ep_port e)\<lparr>cp_received := None\<rparr>, ep_agent := a\<rparr>)
    (ha @ [(AO_Receive now f, map_ok AV_Event r)]) (hp @ [(PO_Take, Ok (PV_Frame (Some f)))])"
  using assms agent_call [of start ha "ep_agent e" "AO_Receive now f"] port_call [of dev hp "ep_port e" PO_Take]
  by (simp add: composed_def take_received_def valued_def)

definition fault_free :: "('a, ChannelEndpointError) result \<Rightarrow> bool" where
  "fault_free r \<longleftrightarrow> r \<noteq> Panic \<and> r \<noteq> Err EPE_InvariantViolation \<and> r \<noteq> Err (EPE_Agent CAE_InvariantViolation)"

definition advances_to :: "ChannelAgent \<Rightarrow> Device \<Rightarrow> 'a endpoint_outcome \<Rightarrow> bool" where
  "advances_to start dev out \<longleftrightarrow> fault_free (fst out) \<and> (\<exists>ha hp. composed start dev (snd out) ha hp)"

lemma composed_agent_ok:
  assumes "agent_new ts os q policy = Ok start" "composed start dev e ha hp"
  shows "agent_ok (ep_agent e)" "list_all (\<lambda>(op, r). r \<noteq> Panic \<and> r \<noteq> Err CAE_InvariantViolation) ha"
  using agent_history_ok [OF assms(1)] assms(2) by (auto simp: composed_def)

text \<open>\<open>self.agent.method(..)?\<close> within a step.\<close>

lemma advances_on_agent:
  assumes "agent_new ts os q policy = Ok start" "composed start dev (e\<lparr>ep_agent := a\<rparr>) (ha @ [(op, map_ok g r)]) hp"
    "\<And>x. r = Ok x \<Longrightarrow> advances_to start dev (k x (e\<lparr>ep_agent := a\<rparr>))"
  shows "advances_to start dev (on_agent e (r, a) k)"
proof -
  have "map_ok g r \<noteq> Panic" "map_ok g r \<noteq> Err CAE_InvariantViolation" using composed_agent_ok(2) [OF assms(1,2)] by simp_all
  then show ?thesis using assms(2,3) by (cases r) (auto simp: on_agent_def advances_to_def fault_free_def)
qed

lemma outbound_ok:
  assumes "agent_ok a" "cag_outbound a = Some f"
  shows "frame_ok f"
  using assms frame_new_ok by (auto simp: agent_ok_def line_ok_def prepared_request_frame_def split: TransactionState.splits)

text \<open>A poll that reports a frame to send leaves it in the agent.\<close>

definition leaves_frame :: "ChannelEvent agent_outcome \<Rightarrow> bool" where
  "leaves_frame out \<longleftrightarrow> (fst out = Ok EV_TransmitReady \<longrightarrow> cag_outbound (snd out) \<noteq> None)"

lemma leaves_frame_try: "(\<And>x. r = Ok x \<Longrightarrow> leaves_frame (k x)) \<Longrightarrow> leaves_frame (try_with r a k)"
  by (cases r) (auto simp: leaves_frame_def)

lemma leaves_frame_event: "ev \<noteq> EV_TransmitReady \<Longrightarrow> leaves_frame (Ok ev, a)"
  by (simp add: leaves_frame_def)

lemma leaves_frame_error: "leaves_frame (Err e, a)"
  by (simp add: leaves_frame_def)

lemma leaves_frame_on_work: "(\<And>x a. leaves_frame (k x a)) \<Longrightarrow> leaves_frame (on_work a w E out k)"
  unfolding on_work_def Let_def by (rule leaves_frame_try)

lemma leaves_frame_retry: "(\<And>a. leaves_frame (k a)) \<Longrightarrow> leaves_frame (retry_later a now k)"
  unfolding retry_later_def by (rule leaves_frame_try)

lemma leaves_frame_exhausted: "leaves_frame (exhausted a)"
  unfolding exhausted_def by (auto simp: split_def Let_def intro!: leaves_frame_try leaves_frame_event)

lemma leaves_frame_prepared: "leaves_frame (prepared_frame a prepared payload)"
  unfolding prepared_frame_def Let_def by (intro leaves_frame_try) (simp add: leaves_frame_def)

lemmas leaves_frame_rules = leaves_frame_on_work leaves_frame_retry leaves_frame_exhausted leaves_frame_prepared leaves_frame_event
  leaves_frame_error

lemma start_attempt_leaves_frame: "leaves_frame (start_attempt a active)"
  unfolding start_attempt_def Let_def
  by (cases "aw_work active") (auto intro!: leaves_frame_rules split: HandshakePhase.split)

lemma work_timed_out_leaves_frame: "leaves_frame (work_timed_out a now)"
  unfolding work_timed_out_def
  by (auto intro!: leaves_frame_rules split: option.split PendingWork.split CommissioningRequest.split)

lemma poll_work_leaves_frame: "leaves_frame (poll_work a now)"
  unfolding poll_work_def Let_def
  by (auto intro!: leaves_frame_event start_attempt_leaves_frame split: option.split)

lemma poll_leaves_frame:
  assumes "poll a now = (Ok EV_TransmitReady, b)"
  shows "cag_outbound b \<noteq> None"
proof (cases "cag_outbound a = None \<and> cag_completed_measurement a = None")
  case True
  then have "leaves_frame (poll a now)"
    by (auto simp: poll_def Let_def split_def intro!: leaves_frame_try leaves_frame_event work_timed_out_leaves_frame
      poll_work_leaves_frame split: TimerEvent.split)
  with assms show ?thesis by (simp add: leaves_frame_def)
next
  case False
  with assms show ?thesis by (auto simp: poll_def split: if_splits)
qed

lemma send_ready_advances:
  assumes new: "agent_new ts os q policy = Ok start" and c: "composed start dev e ha hp"
    and f: "cag_outbound (ep_agent e) = Some f"
  shows "advances_to start dev (send_ready e later)"
proof -
  have ok: "frame_ok f" using outbound_ok [OF composed_agent_ok(1) [OF new c] f] .
  obtain r p where t: "transmit (ep_port e) f = (r, p)" by (metis surj_pair)
  let ?e = "e\<lparr>ep_agent := (ep_agent e)\<lparr>cag_outbound := None\<rparr>, ep_port := p\<rparr>"
  note sent = composed_send [OF c f ok t]
  have "port_invariant dev hp (ep_port e)" using c by (simp add: composed_def port_history_invariant)
  then have r: "r \<noteq> Panic" using transmit_cases(2) [OF _ ok t] by (simp add: port_invariant_def)
  obtain r1 a1 where 1: "transmit_completed (ep_agent ?e) later = (r1, a1)" by (metis surj_pair)
  obtain r2 a2 where 2: "transmit_failed (ep_agent ?e) later = (r2, a2)" by (metis surj_pair)
  have c1: "composed start dev (?e\<lparr>ep_agent := a1\<rparr>) ((ha @ [(AO_TakeOutbound, Ok (AV_Frame (Some f)))]) @ [(AO_TransmitCompleted later, map_ok (\<lambda>_. AV_Done) r1)])
      (hp @ [(PO_Transmit f, map_ok (\<lambda>_. PV_Sent) r)])"
    by (rule composed_agent [OF sent]) (use 1 in \<open>simp_all add: valued_def\<close>)
  have c2: "composed start dev (?e\<lparr>ep_agent := a2\<rparr>) ((ha @ [(AO_TakeOutbound, Ok (AV_Frame (Some f)))]) @ [(AO_TransmitFailed later, map_ok AV_Event r2)])
      (hp @ [(PO_Transmit f, map_ok (\<lambda>_. PV_Sent) r)])"
    by (rule composed_agent [OF sent]) (use 2 in \<open>simp_all add: valued_def\<close>)
  have "advances_to start dev (on_agent ?e (r1, a1) (\<lambda>_ self. (Ok (EE_TransmissionComplete (fr_destination f)), self)))"
    by (rule advances_on_agent [OF new c1]) (use c1 in \<open>auto simp: advances_to_def fault_free_def\<close>)
  moreover have "advances_to start dev (on_agent ?e (r2, a2) (\<lambda>_ self. (Err (EPE_Port x), self)))" for x
    by (rule advances_on_agent [OF new c2]) (use c2 in \<open>auto simp: advances_to_def fault_free_def\<close>)
  ultimately show ?thesis using f t r 1 2 by (cases r) (simp_all add: send_ready_def take_outbound_def)
qed

lemma read_line_advances:
  assumes new: "agent_new ts os q policy = Ok start" and c: "composed start dev e ha hp"
  shows "advances_to start dev (read_line e later)"
proof -
  have i: "port_ok (ep_port e)" using c by (meson composed_def port_history_invariant port_invariant_def)
  obtain r p where p: "poll_receive (ep_port e) = (r, p)" by (metis surj_pair)
  have pl: "r \<noteq> Panic" "port_ok p" "r = Ok RV_FrameReady \<Longrightarrow> cp_received p \<noteq> None"
    using poll_receive_polled [OF i] p by (auto simp: polled_def)
  have c1: "composed start dev (e\<lparr>ep_port := p\<rparr>) ha (hp @ [(PO_Poll, map_ok PV_Event r)])"
    by (rule composed_port [OF c]) (use p in \<open>simp_all\<close>)
  have quiet: "advances_to start dev (x, e\<lparr>ep_port := p\<rparr>)" if "fault_free x" for x
    using that c1 by (auto simp: advances_to_def)
  show ?thesis
  proof (cases "r = Ok RV_FrameReady")
    case True
    then obtain f where f: "cp_received p = Some f" using pl(3) by blast
    have ok: "frame_ok f" using pl(2) f by (simp add: port_ok_def)
    obtain r1 a1 where a: "agent_receive (ep_agent e) later f = (r1, a1)" by (metis surj_pair)
    let ?e = "e\<lparr>ep_port := p\<lparr>cp_received := None\<rparr>\<rparr>"
    have c2: "composed start dev (?e\<lparr>ep_agent := a1\<rparr>) (ha @ [(AO_Receive later f, map_ok AV_Event r1)])
        (hp @ [(PO_Poll, map_ok PV_Event r), (PO_Take, Ok (PV_Frame (Some f)))])"
      using composed_receive [OF c1 _ ok, of later r1 a1] f a by simp
    have "advances_to start dev (on_agent ?e (r1, a1) (\<lambda>event self. (Ok (EE_Agent event), self)))"
      by (rule advances_on_agent [OF new c2]) (use c2 in \<open>auto simp: advances_to_def fault_free_def\<close>)
    then show ?thesis using True f a p by (simp add: read_line_def on_port_def take_received_def)
  next
    case False
    show ?thesis
    proof (cases r)
      case (Ok ev)
      with False p show ?thesis by (cases ev) (simp_all add: read_line_def on_port_def quiet fault_free_def)
    qed (use p pl(1) in \<open>simp_all add: read_line_def on_port_def quiet fault_free_def\<close>)
  qed
qed

lemma step_advances:
  assumes new: "agent_new ts os q policy = Ok start" and c: "composed start dev e ha hp"
  shows "advances_to start dev (step e now later)"
proof -
  obtain r a where p: "poll (ep_agent e) now = (r, a)" by (metis surj_pair)
  have c1: "composed start dev (e\<lparr>ep_agent := a\<rparr>) (ha @ [(AO_Poll now, map_ok AV_Event r)]) hp"
    by (rule composed_agent [OF c]) (use p in \<open>simp_all add: valued_def\<close>)
  have "advances_to start dev (send_ready (e\<lparr>ep_agent := a\<rparr>) later)" if ready: "r = Ok EV_TransmitReady"
  proof -
    obtain f where "cag_outbound a = Some f" using poll_leaves_frame p ready by blast
    then show ?thesis using send_ready_advances [OF new c1] by simp
  qed
  then show ?thesis unfolding step_def p
    using read_line_advances [OF new c1] c1
    by (intro advances_on_agent [OF new c1]) (auto simp: advances_to_def fault_free_def)
qed



end
