(* ===== verification/Host_Safe_State_Wire.thy ===== *)
theory Host_Safe_State_Wire
  imports Host_Safe_State Host_Agent_Service
begin

text \<open>
  Convergence over a channel: the adapter that drives a converger through the agent of a channel (the second half of
  \<^verbatim>\<open>sensor-host/src/safe_state.rs\<close>) and the group of nodes that converge one after the other (\<^verbatim>\<open>safe_state_group.rs\<close>).
\<close>

section \<open>The wire operation\<close>

record SafeStateWirePolicy =
  swp_action_deadline :: DurationMicros
  swp_restart_settle_delay :: DurationMicros
  swp_restart_confirmation_deadline :: DurationMicros

datatype WirePhase =
  WP_Ready
| WP_Lifecycle SafeStateAction u32 MonotonicMicros
| WP_RestartDelay BootEpoch MonotonicMicros MonotonicMicros
| WP_RestartHandshake BootEpoch MonotonicMicros

datatype SafeStateWireProgress =
  SWP_Waiting
| SWP_Submitted SafeStateAction u32
| SWP_RestartHandshakeSubmitted
| SWP_RestartConfirmationStarted
| SWP_AwaitingWireSettlement SafeStateAction
| SWP_AttemptFailed SafeStateAction
| SWP_Reached SafeStateTarget
| SWP_Offline
| SWP_ConvergenceFailed

datatype SafeStateEventDisposition = SED_Ignored | SED_Progressed | SED_AttemptFailed SafeStateAction | SED_RestartObserved NodeIdentity

datatype SafeStateWireError =
  SWE_ZeroBootEpoch | SWE_WireActionPending | SWE_ChannelNotExclusive | SWE_TimeOverflow | SWE_InvariantViolation
| SWE_Convergence SafeStateError | SWE_Agent ChannelAgentError

record SafeStateWireOperation =
  sw_node_address :: u8
  sw_requirements :: HandshakeRequirements
  sw_current_boot_epoch :: BootEpoch
  sw_policy :: SafeStateWirePolicy
  sw_converger :: SafeStateConverger
  sw_phase :: WirePhase

definition wire_new ::
  "SafeStateTarget \<Rightarrow> SafeStatePolicy \<Rightarrow> SafeStateWirePolicy \<Rightarrow> HandshakeRequirements \<Rightarrow> BootEpoch \<Rightarrow>
     (SafeStateWireOperation, SafeStateWireError) result" where
  "wire_new target safe_state_policy wire_policy requirements current_boot_epoch =
     (if current_boot_epoch = 0 then Err SWE_ZeroBootEpoch
      else and_then (map_err SWE_Convergence (converger_new target safe_state_policy)) (\<lambda>converger.
        Ok \<lparr>sw_node_address = hr_node_address requirements, sw_requirements = requirements,
            sw_current_boot_epoch = current_boot_epoch, sw_policy = wire_policy, sw_converger = converger,
            sw_phase = WP_Ready\<rparr>))"

definition checked_deadline :: "MonotonicMicros \<Rightarrow> DurationMicros \<Rightarrow> (MonotonicMicros, SafeStateWireError) result" where
  "checked_deadline now duration = ok_or (monotonic_checked_add now duration) SWE_TimeOverflow"

text \<open>\<open>self.converger.method(..).map_err(Convergence)?\<close>.\<close>

definition on_converger ::
  "SafeStateWireOperation \<Rightarrow> (SafeStateConverger, 'a, SafeStateError) outcome \<Rightarrow>
     ('a \<Rightarrow> SafeStateWireOperation \<Rightarrow> (SafeStateWireOperation, 'b, SafeStateWireError) outcome) \<Rightarrow>
     (SafeStateWireOperation, 'b, SafeStateWireError) outcome" where
  "on_converger self out k =
     (let self = self\<lparr>sw_converger := snd out\<rparr> in try_with (map_err SWE_Convergence (fst out)) self (\<lambda>x. k x self))"

definition wire_fall_back_to_idle :: "SafeStateWireOperation \<Rightarrow> (SafeStateWireOperation, unit, SafeStateWireError) outcome" where
  "wire_fall_back_to_idle self =
     (if sw_phase self \<noteq> WP_Ready then (Err SWE_WireActionPending, self)
      else on_converger self (fall_back_to_idle (sw_converger self)) (\<lambda>_ self. (Ok (), self)))"

definition begin_restart_confirmation ::
  "SafeStateWireOperation \<Rightarrow> MonotonicMicros \<Rightarrow> (SafeStateWireOperation, unit, SafeStateWireError) outcome" where
  "begin_restart_confirmation self now =
     try_with (checked_deadline now (swp_restart_settle_delay (sw_policy self))) self (\<lambda>probe_not_before.
     try_with (checked_deadline now (swp_restart_confirmation_deadline (sw_policy self))) self (\<lambda>deadline.
       (Ok (), self\<lparr>sw_phase := WP_RestartDelay (sw_current_boot_epoch self) probe_not_before deadline\<rparr>)))"

text \<open>The calls that also change the agent return it beside the operation.\<close>

type_synonym 'a wire_outcome = "(SafeStateWireOperation \<times> ChannelAgent, 'a, SafeStateWireError) outcome"

definition beside :: "ChannelAgent \<Rightarrow> (SafeStateWireOperation, 'a, SafeStateWireError) outcome \<Rightarrow> 'a wire_outcome" where
  "beside agent out = (fst out, (snd out, agent))"

definition submit_next_action :: "SafeStateWireOperation \<Rightarrow> ChannelAgent \<Rightarrow> MonotonicMicros \<Rightarrow> SafeStateWireProgress wire_outcome" where
  "submit_next_action self agent now =
     (case sc_status (sw_converger self) of
        SS_Reached target \<Rightarrow> (Ok (SWP_Reached target), (self, agent))
      | SS_Offline \<Rightarrow> (Ok SWP_Offline, (self, agent))
      | SS_ConvergenceFailed \<Rightarrow> (Ok SWP_ConvergenceFailed, (self, agent))
      | SS_Converging \<Rightarrow>
          if queued_work_items agent \<noteq> 0 then (Err SWE_ChannelNotExclusive, (self, agent))
          else let (next, converger) = next_action (sw_converger self);
                   self = self\<lparr>sw_converger := converger\<rparr>
               in try_with (map_err SWE_Convergence next) (self, agent) (\<lambda>next.
                    case next of
                      None \<Rightarrow>
                        (case sc_status (sw_converger self) of
                           SS_Reached target \<Rightarrow> (Ok (SWP_Reached target), (self, agent))
                         | SS_Offline \<Rightarrow> (Ok SWP_Offline, (self, agent))
                         | SS_ConvergenceFailed \<Rightarrow> (Ok SWP_ConvergenceFailed, (self, agent))
                         | SS_Converging \<Rightarrow> (Err SWE_InvariantViolation, (self, agent)))
                    | Some action \<Rightarrow>
                        let (submitted, agent) =
                              submit_lifecycle agent (sw_node_address self) (runtime_operation action) OP_Production
                        in try_with (map_err SWE_Agent submitted) (self, agent) (\<lambda>operation_id.
                             try_with (checked_deadline now (swp_action_deadline (sw_policy self))) (self, agent) (\<lambda>deadline.
                               (Ok (SWP_Submitted action operation_id),
                                (self\<lparr>sw_phase := WP_Lifecycle action operation_id deadline\<rparr>, agent))))))"

definition fail_restart_confirmation :: "SafeStateWireOperation \<Rightarrow> ChannelAgent \<Rightarrow> SafeStateWireProgress wire_outcome" where
  "fail_restart_confirmation self agent =
     (let failed = (\<lambda>agent. beside agent (on_converger self (converger_fail (sw_converger self) SA_Restart) (\<lambda>_ self.
            (Ok (SWP_AttemptFailed SA_Restart), self\<lparr>sw_phase := WP_Ready\<rparr>))))
      in case sw_phase self of
           WP_RestartHandshake _ _ \<Rightarrow>
             let (abandoned, agent) = abandon_control_work agent (CK_Handshake (sw_node_address self))
             in (case abandoned of
                   Ok _ \<Rightarrow> failed agent
                 | Err (CAE_ControlAttemptInFlight _) \<Rightarrow> (Ok (SWP_AwaitingWireSettlement SA_Restart), (self, agent))
                 | Err error \<Rightarrow> (Err (SWE_Agent error), (self, agent))
                 | Panic \<Rightarrow> (Panic, (self, agent)))
         | _ \<Rightarrow> failed agent)"

text \<open>The arm of \<open>drive\<close> for a command whose deadline has passed.\<close>

definition abandon_lifecycle ::
  "SafeStateWireOperation \<Rightarrow> ChannelAgent \<Rightarrow> MonotonicMicros \<Rightarrow> SafeStateAction \<Rightarrow> u32 \<Rightarrow> SafeStateWireProgress wire_outcome" where
  "abandon_lifecycle self agent now action operation_id =
     (let (abandoned, agent) = abandon_control_work agent (CK_Lifecycle (sw_node_address self) operation_id)
      in case abandoned of
           Ok _ \<Rightarrow>
             beside agent
               (if action = SA_Restart
                then let (begun, self) = begin_restart_confirmation self now
                     in try_with begun self (\<lambda>_. (Ok SWP_RestartConfirmationStarted, self))
                else on_converger self (converger_fail (sw_converger self) action) (\<lambda>_ self.
                       (Ok (SWP_AttemptFailed action), self\<lparr>sw_phase := WP_Ready\<rparr>)))
         | Err (CAE_ControlAttemptInFlight _) \<Rightarrow> (Ok (SWP_AwaitingWireSettlement action), (self, agent))
         | Err error \<Rightarrow> (Err (SWE_Agent error), (self, agent))
         | Panic \<Rightarrow> (Panic, (self, agent)))"

definition wire_drive :: "SafeStateWireOperation \<Rightarrow> ChannelAgent \<Rightarrow> MonotonicMicros \<Rightarrow> SafeStateWireProgress wire_outcome" where
  "wire_drive self agent now =
     (case sw_phase self of
        WP_Ready \<Rightarrow> submit_next_action self agent now
      | WP_Lifecycle action operation_id deadline \<Rightarrow>
          if deadline \<le> now then abandon_lifecycle self agent now action operation_id else (Ok SWP_Waiting, (self, agent))
      | WP_RestartDelay previous_boot_epoch probe_not_before deadline \<Rightarrow>
          if deadline \<le> now then fail_restart_confirmation self agent
          else if probe_not_before \<le> now
          then if queued_work_items agent \<noteq> 0 then (Err SWE_ChannelNotExclusive, (self, agent))
               else let (submitted, agent) = submit_handshake agent (sw_requirements self)
                    in try_with (map_err SWE_Agent submitted) (self, agent) (\<lambda>_.
                         (Ok SWP_RestartHandshakeSubmitted,
                          (self\<lparr>sw_phase := WP_RestartHandshake previous_boot_epoch deadline\<rparr>, agent)))
          else (Ok SWP_Waiting, (self, agent))
      | WP_RestartHandshake _ deadline \<Rightarrow>
          if deadline \<le> now then fail_restart_confirmation self agent else (Ok SWP_Waiting, (self, agent)))"

text \<open>The two arms of \<open>handle_event\<close>.\<close>

definition lifecycle_completed ::
  "SafeStateWireOperation \<Rightarrow> MonotonicMicros \<Rightarrow> SafeStateAction \<Rightarrow> RuntimeResult \<Rightarrow>
     (SafeStateWireOperation, SafeStateEventDisposition, SafeStateWireError) outcome" where
  "lifecycle_completed self now action result =
     (if rr_code result \<noteq> RR_Ok \<or> \<not> runtime_result_matches_action action (rr_state result)
      then on_converger self (converger_fail (sw_converger self) action) (\<lambda>_ self.
             (Ok (SED_AttemptFailed action), self\<lparr>sw_phase := WP_Ready\<rparr>))
      else if action = SA_Restart
      then let (begun, self) = begin_restart_confirmation self now in try_with begun self (\<lambda>_. (Ok SED_Progressed, self))
      else on_converger self (converger_complete (sw_converger self) action (rr_state result)) (\<lambda>_ self.
             (Ok SED_Progressed, self\<lparr>sw_phase := WP_Ready\<rparr>)))"

definition restart_probed ::
  "SafeStateWireOperation \<Rightarrow> MonotonicMicros \<Rightarrow> BootEpoch \<Rightarrow> MonotonicMicros \<Rightarrow> NodeIdentity \<Rightarrow>
     (SafeStateWireOperation, SafeStateEventDisposition, SafeStateWireError) outcome" where
  "restart_probed self now previous_boot_epoch deadline identity =
     (if ni_boot_epoch identity = previous_boot_epoch
      then try_with (checked_deadline now (swp_restart_settle_delay (sw_policy self))) self (\<lambda>probe_not_before.
        (Ok SED_Progressed, self\<lparr>sw_phase := WP_RestartDelay previous_boot_epoch probe_not_before deadline\<rparr>))
      else let self = self\<lparr>sw_current_boot_epoch := ni_boot_epoch identity\<rparr> in
        on_converger self (converger_complete (sw_converger self) SA_Restart RT_Idle) (\<lambda>_ self.
          (Ok (SED_RestartObserved identity), self\<lparr>sw_phase := WP_Ready\<rparr>)))"

definition wire_handle_event ::
  "SafeStateWireOperation \<Rightarrow> ChannelEvent \<Rightarrow> MonotonicMicros \<Rightarrow>
     (SafeStateWireOperation, SafeStateEventDisposition, SafeStateWireError) outcome" where
  "wire_handle_event self event now =
     (case (sw_phase self, event) of
        (WP_Lifecycle action operation_id _, EV_LifecycleComplete node_address result) \<Rightarrow>
          if node_address = sw_node_address self \<and> rr_operation_id result = operation_id
          then lifecycle_completed self now action result else (Ok SED_Ignored, self)
      | (WP_RestartHandshake previous_boot_epoch deadline, EV_HandshakeComplete node_address identity _) \<Rightarrow>
          if node_address = sw_node_address self
          then restart_probed self now previous_boot_epoch deadline identity else (Ok SED_Ignored, self)
      | _ \<Rightarrow> (Ok SED_Ignored, self))"

section \<open>The group\<close>

record SafeStateNodeContract =
  snc_requirements :: HandshakeRequirements
  snc_boot_epoch :: BootEpoch

datatype SafeStateGroupProgress =
  SGP_Node u8 SafeStateWireProgress | SGP_NodeReached u8 SafeStateTarget | SGP_NodeOffline u8 | SGP_NodeConvergenceFailed u8
| SGP_Complete

datatype SafeStateGroupError = SGE_EmptyGroup | SGE_DuplicateNodeAddress u8 | SGE_Wire SafeStateWireError

record SafeStateGroupOperation =
  sg_nodes :: "SafeStateWireOperation list"
  sg_current :: nat

text \<open>The loop of \<open>new\<close>, with the operations made so far.\<close>

fun group_nodes ::
  "SafeStateTarget \<Rightarrow> SafeStatePolicy \<Rightarrow> SafeStateWirePolicy \<Rightarrow> SafeStateWireOperation list \<Rightarrow> SafeStateNodeContract list \<Rightarrow>
     (SafeStateWireOperation list, SafeStateGroupError) result" where
  "group_nodes target safe_state_policy wire_policy nodes [] = Ok nodes"
| "group_nodes target safe_state_policy wire_policy nodes (contract # contracts) =
     (if list_ex (\<lambda>operation. sw_node_address operation = hr_node_address (snc_requirements contract)) nodes
      then Err (SGE_DuplicateNodeAddress (hr_node_address (snc_requirements contract)))
      else and_then (map_err SGE_Wire (wire_new target safe_state_policy wire_policy (snc_requirements contract) (snc_boot_epoch contract)))
        (\<lambda>operation. group_nodes target safe_state_policy wire_policy (nodes @ [operation]) contracts))"

definition group_new ::
  "SafeStateTarget \<Rightarrow> SafeStatePolicy \<Rightarrow> SafeStateWirePolicy \<Rightarrow> SafeStateNodeContract list \<Rightarrow>
     (SafeStateGroupOperation, SafeStateGroupError) result" where
  "group_new target safe_state_policy wire_policy contracts =
     (if contracts = [] then Err SGE_EmptyGroup
      else and_then (group_nodes target safe_state_policy wire_policy [] contracts) (\<lambda>nodes.
        Ok \<lparr>sg_nodes = nodes, sg_current = 0\<rparr>))"

type_synonym 'a group_outcome = "(SafeStateGroupOperation \<times> ChannelAgent, 'a, SafeStateGroupError) outcome"

definition group_drive :: "SafeStateGroupOperation \<Rightarrow> ChannelAgent \<Rightarrow> MonotonicMicros \<Rightarrow> SafeStateGroupProgress group_outcome" where
  "group_drive self agent now =
     (if length (sg_nodes self) \<le> sg_current self then (Ok SGP_Complete, (self, agent))
      else let operation = sg_nodes self ! sg_current self;
               node_address = sw_node_address operation;
               (driven, operation, agent) = wire_drive operation agent now;
               self = self\<lparr>sg_nodes := (sg_nodes self)[sg_current self := operation]\<rparr>
           in try_with (map_err SGE_Wire driven) (self, agent) (\<lambda>progress.
                case progress of
                  SWP_Reached target \<Rightarrow> (Ok (SGP_NodeReached node_address target), (self\<lparr>sg_current := sg_current self + 1\<rparr>, agent))
                | SWP_Offline \<Rightarrow> (Ok (SGP_NodeOffline node_address), (self, agent))
                | SWP_ConvergenceFailed \<Rightarrow> (Ok (SGP_NodeConvergenceFailed node_address), (self, agent))
                | progress \<Rightarrow> (Ok (SGP_Node node_address progress), (self, agent))))"

definition group_handle_event ::
  "SafeStateGroupOperation \<Rightarrow> ChannelEvent \<Rightarrow> MonotonicMicros \<Rightarrow>
     (SafeStateGroupOperation, SafeStateEventDisposition, SafeStateGroupError) outcome" where
  "group_handle_event self event now =
     (if length (sg_nodes self) \<le> sg_current self then (Ok SED_Ignored, self)
      else let (handled, operation) = wire_handle_event (sg_nodes self ! sg_current self) event now
           in (map_err SGE_Wire handled, self\<lparr>sg_nodes := (sg_nodes self)[sg_current self := operation]\<rparr>))"

definition contracts :: "SafeStateGroupOperation \<Rightarrow> SafeStateNodeContract list" where
  "contracts self = map (\<lambda>operation. \<lparr>snc_requirements = sw_requirements operation,
     snc_boot_epoch = sw_current_boot_epoch operation\<rparr>) (sg_nodes self)"

text \<open>The loop of \<open>fall_back_to_idle\<close>: it stops at the first operation that refuses.\<close>

fun fall_back_all :: "SafeStateWireOperation list \<Rightarrow> (SafeStateWireOperation list, unit, SafeStateGroupError) outcome" where
  "fall_back_all [] = (Ok (), [])"
| "fall_back_all (operation # nodes) =
     (let (r, operation) = wire_fall_back_to_idle operation
      in case r of
           Ok _ \<Rightarrow> (let (s, nodes) = fall_back_all nodes in (s, operation # nodes))
         | Err error \<Rightarrow> (Err (SGE_Wire error), operation # nodes)
         | Panic \<Rightarrow> (Panic, operation # nodes))"

definition group_fall_back_to_idle :: "SafeStateGroupOperation \<Rightarrow> (SafeStateGroupOperation, unit, SafeStateGroupError) outcome" where
  "group_fall_back_to_idle self =
     (let (r, nodes) = fall_back_all (sg_nodes self);
          self = self\<lparr>sg_nodes := nodes\<rparr>
      in try_with r self (\<lambda>_. (Ok (), self\<lparr>sg_current := 0\<rparr>)))"

section \<open>An agent with one piece of control work\<close>

text \<open>An agent that holds nothing, and one whose only work is that of a key.\<close>

definition vacant :: "ChannelAgent \<Rightarrow> bool" where
  "vacant a \<longleftrightarrow> works a = [] \<and> cag_completed_measurement a = None"

definition holds :: "ControlWorkKey \<Rightarrow> ChannelAgent \<Rightarrow> bool" where
  "holds key a \<longleftrightarrow> cag_completed_measurement a = None \<and> (\<exists>w. works a = [w] \<and> matches_control_key w key)"

fun completes :: "ControlWorkKey \<Rightarrow> ChannelEvent \<Rightarrow> bool" where
  "completes (CK_Lifecycle n i) (EV_LifecycleComplete m result) \<longleftrightarrow> m = n \<and> rr_operation_id result = i"
| "completes (CK_Handshake n) (EV_HandshakeComplete m _ _) \<longleftrightarrow> m = n"
| "completes _ _ \<longleftrightarrow> False"

fun plain_event :: "ChannelEvent \<Rightarrow> bool" where
  "plain_event (EV_LifecycleComplete _ _) \<longleftrightarrow> False"
| "plain_event (EV_HandshakeComplete _ _ _) \<longleftrightarrow> False"
| "plain_event _ \<longleftrightarrow> True"

text \<open>A call on an agent with that work keeps it, or ends it with the event that completes it.\<close>

definition serving :: "ControlWorkKey \<Rightarrow> ChannelEvent agent_outcome \<Rightarrow> bool" where
  "serving key out \<longleftrightarrow> (holds key (snd out) \<and> (\<forall>ev. fst out = Ok ev \<longrightarrow> plain_event ev)) \<or>
     (vacant (snd out) \<and> (\<exists>ev. fst out = Ok ev \<and> completes key ev))"

fun command_key :: "ControlWorkKey \<Rightarrow> bool" where
  "command_key (CK_Lifecycle _ _) \<longleftrightarrow> True"
| "command_key (CK_Handshake _) \<longleftrightarrow> True"
| "command_key _ \<longleftrightarrow> False"

lemma queued_vacant: "queued_work_items a = 0 \<longleftrightarrow> vacant a"
  by (auto simp: queued_work_items_def vacant_def works_def split: option.split)

definition job :: "ControlWorkKey \<Rightarrow> ChannelAgent \<Rightarrow> ActiveWork \<Rightarrow> bool" where
  "job key a active \<longleftrightarrow> cag_active a = Some active \<and> cag_pending a = [] \<and> cag_completed_measurement a = None \<and>
     matches_control_key (aw_work active) key"

lemma job_holds: "job key a active \<Longrightarrow> holds key a"
  by (simp add: job_def holds_def works_def)

lemma holds_cases:
  assumes "holds key a"
  obtains active where "job key a active"
  | w where "cag_active a = None" "cag_pending a = [w]" "matches_control_key w key" "cag_completed_measurement a = None"
  using assms by (auto simp: holds_def job_def works_def split: option.splits)

lemma job_line [simp]:
  "job key (a\<lparr>cag_transactions := t\<rparr>) active = job key a active" "job key (a\<lparr>cag_outbound := f\<rparr>) active = job key a active"
  by (simp_all add: job_def)

lemma holds_line [simp]:
  "holds key (a\<lparr>cag_transactions := t\<rparr>) = holds key a" "holds key (a\<lparr>cag_outbound := f\<rparr>) = holds key a"
  by (simp_all add: holds_def works_def)

lemma serving_stay: "holds key a \<Longrightarrow> plain_event ev \<Longrightarrow> serving key (Ok ev, a)" "holds key a \<Longrightarrow> serving key (Err e, a)"
    "holds key a \<Longrightarrow> serving key (Panic, a)"
  by (simp_all add: serving_def)

lemma serving_try: "holds key a \<Longrightarrow> (\<And>x. r = Ok x \<Longrightarrow> serving key (k x)) \<Longrightarrow> serving key (try_with r a k)"
  by (cases r) (auto simp: serving_stay)

lemma serving_on_work:
  assumes "job key a active" "matches_control_key (W (snd out)) key"
    "\<And>x b. fst out = Ok x \<Longrightarrow> job key b (active\<lparr>aw_work := W (snd out)\<rparr>) \<Longrightarrow> serving key (k x b)"
  shows "serving key (on_work a W E out k)"
proof -
  have "job key (a\<lparr>cag_active := map_option (\<lambda>active. active\<lparr>aw_work := W (snd out)\<rparr>) (cag_active a)\<rparr>) (active\<lparr>aw_work := W (snd out)\<rparr>)"
    using assms(1,2) by (simp add: job_def)
  with assms(3) show ?thesis unfolding on_work_def Let_def by (auto intro!: serving_try job_holds simp: result_iffs)
qed

lemma serving_retry:
  assumes "job key a active" "\<And>t b. job key b (active\<lparr>aw_retry_not_before := t\<rparr>) \<Longrightarrow> serving key (k b)"
  shows "serving key (retry_later a now k)"
proof -
  have "job key (a\<lparr>cag_active := map_option (\<lambda>active. active\<lparr>aw_retry_not_before := t\<rparr>) (cag_active a)\<rparr>) (active\<lparr>aw_retry_not_before := t\<rparr>)" for t
    using assms(1) by (simp add: job_def)
  with assms show ?thesis unfolding retry_later_def by (auto intro!: serving_try job_holds)
qed

lemma serving_retry_event:
  "job key a active \<Longrightarrow> plain_event ev \<Longrightarrow> serving key (retry_later a now (\<lambda>self. (Ok ev, self)))"
  by (rule serving_retry, assumption, rule serving_stay(1), rule job_holds)

lemma job_settled: "job key a active \<Longrightarrow> vacant (settle_active a)"
  by (simp add: job_def vacant_def settle_active_def works_def)

lemma serving_settle: "job key a active \<Longrightarrow> completes key ev \<Longrightarrow> serving key (Ok ev, settle_active a)"
  by (auto simp: serving_def dest: job_settled)

lemma serving_prepared: "holds key a \<Longrightarrow> serving key (prepared_frame a prepared payload)"
  unfolding prepared_frame_def Let_def by (intro serving_try serving_stay) simp_all

lemma lifecycle_same [simp]:
  "lo_node_address (snd (lifecycle_mark_timeout t)) = lo_node_address t" "lo_command (snd (lifecycle_mark_timeout t)) = lo_command t"
  "lo_node_address (snd (lifecycle_begin_attempt t d)) = lo_node_address t" "lo_command (snd (lifecycle_begin_attempt t d)) = lo_command t"
  "lo_node_address (snd (lifecycle_accept_response t p)) = lo_node_address t"
  "lo_command (snd (lifecycle_accept_response t p)) = lo_command t"
  by (auto simp: lifecycle_mark_timeout_def lifecycle_begin_attempt_def lifecycle_accept_response_def split: try_with_split result.split)

lemma handshake_same [simp]:
  "nh_requirements (snd (accept_identity h p)) = nh_requirements h" "nh_requirements (snd (accept_capabilities h p)) = nh_requirements h"
  by (auto simp: accept_identity_def accept_capabilities_def Let_def split: try_with_split option.split)

lemma lifecycle_completes:
  "fst (lifecycle_accept_response t p) = Ok (LO_Complete result) \<Longrightarrow> rr_operation_id result = rc_operation_id (lo_command t)"
  by (auto simp: lifecycle_accept_response_def split: if_splits result.splits)

text \<open>The work of a key is a command or a handshake.\<close>

lemma job_work:
  assumes "job key a active" "command_key key"
  obtains l n i where "key = CK_Lifecycle n i" "aw_work active = PW_Lifecycle l" "lo_node_address l = n" "rc_operation_id (lo_command l) = i"
  | h n where "key = CK_Handshake n" "aw_work active = PW_Handshake h" "hr_node_address (nh_requirements h) = n"
  using assms by (cases key; cases "aw_work active") (auto simp: job_def)

lemma start_attempt_serving:
  assumes "job key a active" "command_key key"
  shows "serving key (start_attempt a active)"
proof (cases rule: job_work [OF assms])
  case (1 l n i)
  then show ?thesis using assms(1)
    by (auto simp: start_attempt_def Let_def intro!: serving_stay job_holds serving_on_work serving_prepared)
next
  case (2 h n)
  then show ?thesis using assms(1)
    by (auto simp: start_attempt_def Let_def intro!: serving_stay job_holds serving_prepared split: HandshakePhase.split)
qed

lemma work_timed_out_serving:
  assumes "job key a active" "command_key key"
  shows "serving key (work_timed_out a now)"
proof -
  have active: "cag_active a = Some active" using assms(1) by (simp add: job_def)
  show ?thesis
  proof (cases rule: job_work [OF assms])
    case (1 l n i)
    then show ?thesis using assms(1) active
      by (auto simp: work_timed_out_def intro!: serving_on_work serving_retry serving_stay job_holds)
  next
    case (2 h n)
    then show ?thesis using assms(1) active
      by (auto simp: work_timed_out_def intro!: serving_retry serving_stay job_holds)
  qed
qed

lemma lifecycle_answer_serving:
  assumes "job (CK_Lifecycle n i) a active" "aw_work active = PW_Lifecycle l" "lo_node_address l = n" "rc_operation_id (lo_command l) = i"
  shows "serving (CK_Lifecycle n i) (lifecycle_answer a now l payload)"
  unfolding lifecycle_answer_def
proof (rule serving_on_work [OF assms(1)])
  fix x b
  assume x: "fst (lifecycle_accept_response l payload) = Ok x"
    and b: "job (CK_Lifecycle n i) b (active\<lparr>aw_work := PW_Lifecycle (snd (lifecycle_accept_response l payload))\<rparr>)"
  show "serving (CK_Lifecycle n i) (case x of
       LO_NotAccepted \<Rightarrow> retry_later b now (\<lambda>self. (Ok (EV_LifecycleNotAccepted (lo_node_address l) (rc_operation_id (lo_command l))), self))
     | LO_InProgress result \<Rightarrow> retry_later b now (\<lambda>self. (Ok (EV_LifecycleProgress (lo_node_address l) (rr_operation_id result) (rr_state result)), self))
     | LO_Complete result \<Rightarrow> (Ok (EV_LifecycleComplete (lo_node_address l) result), settle_active b))"
    using assms x lifecycle_completes [of l payload]
    by (cases x) (simp_all add: serving_retry_event [OF b] serving_settle [OF b])
qed (use assms in simp)

lemma handshake_answer_serving:
  assumes "job (CK_Handshake n) a active" "aw_work active = PW_Handshake h" "hr_node_address (nh_requirements h) = n"
  shows "serving (CK_Handshake n) (handshake_answer a now h payload)"
proof -
  have continued: "serving (CK_Handshake n) (case cag_active b of
            None \<Rightarrow> (Err CAE_InvariantViolation, b)
          | Some active \<Rightarrow>
              (case aw_work active of
                 PW_Handshake handshake \<Rightarrow>
                   if nh_phase handshake = HP_Ready
                   then try_with (ok_or (nh_identity handshake) CAE_InvariantViolation) b (\<lambda>identity.
                        try_with (ok_or (nh_capabilities handshake) CAE_InvariantViolation) b (\<lambda>capabilities.
                          (Ok (EV_HandshakeComplete n identity capabilities), settle_active b)))
                   else (Ok (EV_HandshakeProgress n (nh_phase handshake)), b\<lparr>cag_active := Some (active\<lparr>aw_retry_not_before := now\<rparr>)\<rparr>)
               | _ \<Rightarrow> (Err CAE_InvariantViolation, b)))"
    if j: "job (CK_Handshake n) b (active\<lparr>aw_work := PW_Handshake g\<rparr>)" for b g
  proof -
    have "holds (CK_Handshake n) b" using job_holds [OF j] .
    moreover have "cag_active b = Some (active\<lparr>aw_work := PW_Handshake g\<rparr>)" using j by (simp add: job_def)
    moreover have "holds (CK_Handshake n) (b\<lparr>cag_active := Some (active\<lparr>aw_work := PW_Handshake g, aw_retry_not_before := now\<rparr>)\<rparr>)"
      using j by (simp add: job_def holds_def works_def)
    ultimately show ?thesis by (auto intro!: serving_try serving_settle [OF j] serving_stay)
  qed
  show ?thesis using assms continued
    by (auto simp: handshake_answer_def Let_def intro!: serving_on_work serving_stay job_holds split: HandshakePhase.split)
qed

lemma answer_serving:
  assumes "job key a active" "command_key key"
  shows "serving key (answer a now active payload)"
proof (cases rule: job_work [OF assms])
  case (1 l n i)
  then show ?thesis using lifecycle_answer_serving assms(1) by (simp add: answer_def)
next
  case (2 h n)
  then show ?thesis using handshake_answer_serving assms(1) by (simp add: answer_def)
qed

text \<open>The calls an endpoint makes.\<close>

lemma poll_serving:
  assumes "holds key a" "command_key key"
  shows "serving key (poll a now)"
proof -
  have work: "serving key (poll_work b now)" if "holds key b" for b
    using that
  proof (cases rule: holds_cases)
    case (1 active)
    then show ?thesis using start_attempt_serving [OF 1 assms(2)] job_holds [OF 1]
      by (simp add: poll_work_def activate_next_def job_def serving_stay)
  next
    case (2 w)
    let ?active = "\<lparr>aw_work = w, aw_retry_not_before = now, aw_attempts_started = 0\<rparr>"
    have "job key (b\<lparr>cag_pending := [], cag_active := Some ?active\<rparr>) ?active" using 2 by (simp add: job_def)
    with 2 start_attempt_serving [OF this assms(2)] job_holds [OF this] show ?thesis
      by (simp add: poll_work_def activate_next_def serving_stay Let_def)
  qed
  have expired: "serving key (work_timed_out b now)" if "holds key b" for b
    using that
  proof (cases rule: holds_cases)
    case (1 active)
    then show ?thesis by (rule work_timed_out_serving [OF _ assms(2)])
  next
    case (2 w)
    with that show ?thesis by (simp add: work_timed_out_def serving_stay)
  qed
  have "cag_completed_measurement a = None" using assms(1) by (simp add: holds_def)
  with assms(1) show ?thesis
    by (auto simp: poll_def Let_def split_def work expired intro!: serving_try serving_stay split: TimerEvent.split)
qed

lemma receive_serving:
  assumes "holds key a" "command_key key"
  shows "serving key (agent_receive a now f)"
proof -
  have "serving key (answer b now active payload)" if "holds key b" "cag_active b = Some active" for b active payload
    using that(1)
  proof (cases rule: holds_cases)
    case (1 active')
    with that(2) show ?thesis using answer_serving [OF 1 assms(2)] by (simp add: job_def)
  qed (use that in simp)
  then show ?thesis using assms(1)
    by (auto simp: agent_receive_def split_def Let_def intro!: serving_try serving_stay split: ResponseDisposition.split option.split)
qed

lemma transmit_completed_holds:
  assumes "holds key a" "command_key key"
  shows "holds key (snd (transmit_completed a now))"
proof -
  have sent: "holds key (b\<lparr>cag_active := map_option (\<lambda>active. active\<lparr>aw_work := sent_at now (aw_work active)\<rparr>) (cag_active b)\<rparr>)" if "holds key b" for b
    using that
  proof (cases rule: holds_cases)
    case (1 active)
    then show ?thesis
      by (cases rule: job_work [OF 1 assms(2)]) (auto simp: job_def holds_def works_def)
  qed (simp add: holds_def works_def)
  show ?thesis using assms(1) sent [of "a\<lparr>cag_transactions := snd (mark_transmitted (cag_transactions a) now)\<rparr>"]
    by (auto simp: transmit_completed_def Let_def split_def split: try_with_split)
qed

lemma transmit_failed_serving:
  assumes "holds key a" "command_key key"
  shows "serving key (transmit_failed a now)"
proof -
  have "serving key (work_transmit_failed b active (\<lambda>self. retry_later self now (\<lambda>self.
      if is_measurement (aw_work active) \<and> attempts_exhausted self active then exhausted self
      else (Ok (EV_WireAttemptFailed (work_node_address (aw_work active))), if is_one_shot (aw_work active) then settle_active self else self))))"
    if "job key b active" for b active
  proof (cases rule: job_work [OF that assms(2)])
    case (1 l n i)
    with that show ?thesis
      by (auto simp: work_transmit_failed_def intro!: serving_on_work serving_retry serving_stay job_holds)
  next
    case (2 h n)
    with that show ?thesis by (auto simp: work_transmit_failed_def intro!: serving_retry serving_stay job_holds)
  qed
  moreover have "job key b active" if "holds key b" "cag_active b = Some active" for b active
    using that by (auto elim!: holds_cases simp: job_def)
  ultimately show ?thesis using assms(1)
    by (auto simp: transmit_failed_def split_def Let_def intro!: serving_try serving_stay split: option.split)
qed

text \<open>The calls an endpoint makes on an agent.\<close>

fun line_call :: "AgentOp \<Rightarrow> bool" where
  "line_call (AO_Poll _) \<longleftrightarrow> True"
| "line_call AO_TakeOutbound \<longleftrightarrow> True"
| "line_call (AO_TransmitCompleted _) \<longleftrightarrow> True"
| "line_call (AO_TransmitFailed _) \<longleftrightarrow> True"
| "line_call (AO_Receive _ _) \<longleftrightarrow> True"
| "line_call _ \<longleftrightarrow> False"

lemma line_call_serves:
  assumes "holds key a" "command_key key" "line_call op" "agent_apply a op = (r, a')"
  shows "(holds key a' \<and> (\<forall>ev. r = Ok (AV_Event ev) \<longrightarrow> plain_event ev)) \<or> (vacant a' \<and> (\<exists>ev. r = Ok (AV_Event ev) \<and> completes key ev))"
proof -
  have served: "?thesis" if "serving key out" "(r, a') = valued AV_Event out" for out
    using that by (cases "fst out") (auto simp: serving_def valued_def)
  show ?thesis
  proof (cases op)
    case AO_TakeOutbound
    then show ?thesis using assms by (auto simp: take_outbound_def)
  next
    case (AO_TransmitCompleted now)
    then show ?thesis using assms transmit_completed_holds [OF assms(1,2), of now]
      by (cases "transmit_completed a now"; cases "fst (transmit_completed a now)") (auto simp: valued_def)
  next
    case (AO_Poll now)
    then show ?thesis using assms(4) by (intro served [OF poll_serving [OF assms(1,2), of now]]) simp
  next
    case (AO_TransmitFailed now)
    then show ?thesis using assms(4) by (intro served [OF transmit_failed_serving [OF assms(1,2), of now]]) simp
  next
    case (AO_Receive now f)
    then show ?thesis using assms(4) by (intro served [OF receive_serving [OF assms(1,2), of now f]]) simp
  qed (use assms(3) in simp_all)
qed

definition resting :: "ChannelEvent agent_outcome \<Rightarrow> bool" where
  "resting out \<longleftrightarrow> vacant (snd out) \<and> (\<forall>ev. fst out = Ok ev \<longrightarrow> plain_event ev)"

lemma resting_stay: "vacant a \<Longrightarrow> plain_event ev \<Longrightarrow> resting (Ok ev, a)" "vacant a \<Longrightarrow> resting (Err e, a)"
  by (simp_all add: resting_def)

lemma resting_try: "vacant a \<Longrightarrow> (\<And>x. r = Ok x \<Longrightarrow> resting (k x)) \<Longrightarrow> resting (try_with r a k)"
  by (cases r) (auto simp: resting_def)

lemma vacant_line [simp]:
  "vacant (a\<lparr>cag_transactions := t\<rparr>) = vacant a" "vacant (a\<lparr>cag_outbound := f\<rparr>) = vacant a"
  by (simp_all add: vacant_def works_def)

lemma vacant_fields: "vacant a \<longleftrightarrow> cag_active a = None \<and> cag_pending a = [] \<and> cag_completed_measurement a = None"
  by (auto simp: vacant_def works_def split: option.splits)

lemma vacant_resting:
  assumes "vacant a"
  shows "resting (poll a now)" "resting (transmit_failed a now)" "resting (agent_receive a now f)" "vacant (snd (transmit_completed a now))"
proof -
  note a = assms [unfolded vacant_fields]
  show "resting (poll a now)" using assms a
    by (auto simp: poll_def poll_work_def activate_next_def work_timed_out_def Let_def split_def intro!: resting_try resting_stay
      split: TimerEvent.split)
  show "resting (transmit_failed a now)" using assms a
    by (auto simp: transmit_failed_def Let_def split_def intro!: resting_try resting_stay)
  show "resting (agent_receive a now f)" using assms a
    by (auto simp: agent_receive_def Let_def split_def intro!: resting_try resting_stay split: ResponseDisposition.split)
  show "vacant (snd (transmit_completed a now))" using a
    by (auto simp: transmit_completed_def vacant_fields Let_def split_def split: try_with_split)
qed

lemma line_call_vacant:
  assumes "vacant a" "line_call op" "agent_apply a op = (r, a')"
  shows "vacant a' \<and> (\<forall>ev. r = Ok (AV_Event ev) \<longrightarrow> plain_event ev)"
proof -
  have rested: ?thesis if "resting out" "(r, a') = valued AV_Event out" for out
    using that by (cases "fst out") (auto simp: resting_def valued_def)
  show ?thesis
  proof (cases op)
    case AO_TakeOutbound
    then show ?thesis using assms by (auto simp: take_outbound_def)
  next
    case (AO_TransmitCompleted now)
    then show ?thesis using assms vacant_resting(4) [OF assms(1), of now]
      by (cases "fst (transmit_completed a now)") (auto simp: valued_def)
  next
    case (AO_Poll now)
    then show ?thesis using assms(3) by (intro rested [OF vacant_resting(1) [OF assms(1), of now]]) simp
  next
    case (AO_TransmitFailed now)
    then show ?thesis using assms(3) by (intro rested [OF vacant_resting(2) [OF assms(1), of now]]) simp
  next
    case (AO_Receive now f)
    then show ?thesis using assms(3) by (intro rested [OF vacant_resting(3) [OF assms(1), of now f]]) simp
  qed (use assms(2) in simp_all)
qed

section \<open>An operation and its agent\<close>

text \<open>
  The owner of a channel drives the operation, makes the calls of the endpoint on the agent, and hands every event on. The
  history records the progress of the drives and the events with what became of them; it goes on as long as the
  operation does not fail.
\<close>

datatype WireLog = WL_Drive SafeStateWireProgress | WL_Event ChannelEvent SafeStateEventDisposition

inductive wire_history :: "SafeStateWireOperation \<Rightarrow> WireLog list \<Rightarrow> SafeStateWireOperation \<Rightarrow> ChannelAgent \<Rightarrow> bool" for start where
  wire_start: "\<lbrakk>agent_new ts os q policy = Ok fresh; agent_history fresh ha a; vacant a; cpy_max_pending_work_items policy < 2 ^ 32 - 1\<rbrakk> \<Longrightarrow>
    wire_history start [] start a"
| wire_driven: "\<lbrakk>wire_history start h op a; wire_drive op a now = (Ok p, op', a')\<rbrakk> \<Longrightarrow> wire_history start (h @ [WL_Drive p]) op' a'"
| wire_called: "\<lbrakk>wire_history start h op a; line_call aop; call_allowed aop; agent_apply a aop = (r, a'); \<And>ev. r \<noteq> Ok (AV_Event ev)\<rbrakk> \<Longrightarrow>
    wire_history start h op a'"
| wire_told: "\<lbrakk>wire_history start h op a; line_call aop; call_allowed aop; agent_apply a aop = (Ok (AV_Event ev), a');
    wire_handle_event op ev now = (Ok d, op')\<rbrakk> \<Longrightarrow> wire_history start (h @ [WL_Event ev d]) op' a'"

definition usable :: "ChannelAgent \<Rightarrow> bool" where
  "usable a \<longleftrightarrow> agent_ok a \<and> 0 < cpy_max_pending_work_items (cag_policy a) \<and> cpy_max_pending_work_items (cag_policy a) < 2 ^ 32 - 1"

fun phase_action :: "WirePhase \<Rightarrow> SafeStateAction option" where
  "phase_action WP_Ready = None"
| "phase_action (WP_Lifecycle action _ _) = Some action"
| "phase_action _ = Some SA_Restart"

fun phase_agent :: "u8 \<Rightarrow> WirePhase \<Rightarrow> ChannelAgent \<Rightarrow> bool" where
  "phase_agent n (WP_Lifecycle _ i _) a \<longleftrightarrow> holds (CK_Lifecycle n i) a"
| "phase_agent n (WP_RestartHandshake _ _) a \<longleftrightarrow> holds (CK_Handshake n) a"
| "phase_agent n _ a \<longleftrightarrow> vacant a"

fun phase_epoch :: "BootEpoch \<Rightarrow> WirePhase \<Rightarrow> bool" where
  "phase_epoch e (WP_RestartDelay previous _ _) \<longleftrightarrow> previous = e"
| "phase_epoch e (WP_RestartHandshake previous _) \<longleftrightarrow> previous = e"
| "phase_epoch e _ \<longleftrightarrow> True"

definition wire_ok :: "SafeStateWireOperation \<Rightarrow> ChannelAgent \<Rightarrow> bool" where
  "wire_ok op a \<longleftrightarrow> usable a \<and> phase_agent (sw_node_address op) (sw_phase op) a \<and>
     sc_pending (sw_converger op) = phase_action (sw_phase op) \<and> phase_epoch (sw_current_boot_epoch op) (sw_phase op) \<and>
     hr_node_address (sw_requirements op) = sw_node_address op"

text \<open>What a call may return: a value, or that the clock ran out.\<close>

definition goes_on :: "('a, SafeStateWireError) result \<Rightarrow> bool" where
  "goes_on r \<longleftrightarrow> (\<exists>x. r = Ok x) \<or> r = Err SWE_TimeOverflow"

definition drive_ok :: "'a wire_outcome \<Rightarrow> bool" where
  "drive_ok out \<longleftrightarrow> goes_on (fst out) \<and> (\<forall>x. fst out = Ok x \<longrightarrow> wire_ok (fst (snd out)) (snd (snd out)))"

lemma usable_sound: "usable a \<Longrightarrow> sound a (r, a') \<Longrightarrow> usable a'"
  by (simp add: usable_def sound_def)

lemma submitted_holds:
  assumes "usable a" "vacant a"
  shows "\<exists>i a'. submit_lifecycle a n operation profile = (Ok i, a') \<and> holds (CK_Lifecycle n i) a' \<and> usable a'"
proof -
  have "queued_work_items a < cpy_max_pending_work_items (cag_policy a)" using assms queued_vacant [of a] by (simp add: usable_def)
  with submit_lifecycle_succeeds [of a n operation profile] assms(1) obtain i m where
    s: "submit_lifecycle a n operation profile = (Ok i, push_back (a\<lparr>cag_next_operation_id := m\<rparr>) (PW_Lifecycle \<lparr>lo_node_address = n,
        lo_command = \<lparr>rc_operation_id = i, rc_operation = operation, rc_requested_profile = profile\<rparr>,
        lo_phase = LP_ReadyToSend, lo_terminal_result = None\<rparr>))" by (auto simp: usable_def)
  have "sound a (submit_lifecycle a n operation profile)" using assms(1) submit_identified_sound(1) by (simp add: usable_def)
  then have "usable (snd (submit_lifecycle a n operation profile))" using usable_sound [OF assms(1)] by (metis prod.collapse)
  moreover have "holds (CK_Lifecycle n i) (snd (submit_lifecycle a n operation profile))"
    using assms(2) by (simp add: s holds_def push_back_def works_def vacant_fields)
  ultimately show ?thesis using s by auto
qed

lemma handshake_holds:
  assumes "usable a" "vacant a"
  shows "\<exists>a'. submit_handshake a hr = (Ok (), a') \<and> holds (CK_Handshake (hr_node_address hr)) a' \<and> usable a'"
proof -
  have "\<not> cpy_max_pending_work_items (cag_policy a) \<le> queued_work_items a" using assms queued_vacant [of a] by (simp add: usable_def)
  then have s: "submit_handshake a hr = (Ok (), push_back a (PW_Handshake (handshake_new hr)))"
    by (simp add: submit_handshake_def ensure_queue_capacity_def)
  have "sound a (submit_handshake a hr)" using assms(1) submit_plain_sound(4) by (simp add: usable_def)
  then have "usable (snd (submit_handshake a hr))" using usable_sound [OF assms(1)] by (metis prod.collapse)
  moreover have "holds (CK_Handshake (hr_node_address hr)) (snd (submit_handshake a hr))"
    using assms(2) by (simp add: s holds_def push_back_def works_def vacant_fields handshake_new_def)
  ultimately show ?thesis using s by auto
qed

text \<open>Work that is held is given back, or its request is still under way.\<close>

lemma abandoned_cases:
  assumes "usable a" "holds key a" "abandon_control_work a key = (r, a')"
  shows "(\<exists>x. r = Ok x \<and> vacant a' \<and> usable a') \<or> (r = Err (CAE_ControlAttemptInFlight key) \<and> a' = a)"
    "cag_outbound a = None \<Longrightarrow> transaction_is_idle (cag_transactions a) \<Longrightarrow> \<exists>x. r = Ok x"
proof -
  have "sound a (r, a')" using abandon_sound [of a key] assms(1,3) by (simp add: usable_def)
  then have u: "usable a'" using assms(1) usable_sound by blast
  show "(\<exists>x. r = Ok x \<and> vacant a' \<and> usable a') \<or> (r = Err (CAE_ControlAttemptInFlight key) \<and> a' = a)"
    using assms(2)
  proof (cases rule: holds_cases)
    case (1 active)
    with assms(3) u job_settled [OF 1] show ?thesis by (auto simp: abandon_control_work_def job_def split: if_splits)
  next
    case (2 w)
    with assms(3) u show ?thesis by (auto simp: abandon_control_work_def vacant_fields)
  qed
  show "\<exists>x. r = Ok x" if "cag_outbound a = None" "transaction_is_idle (cag_transactions a)"
    using assms(2)
  proof (cases rule: holds_cases)
    case (1 active)
    with assms(3) that show ?thesis by (auto simp: abandon_control_work_def job_def)
  next
    case (2 w)
    with assms(3) show ?thesis by (auto simp: abandon_control_work_def)
  qed
qed

lemma next_action_pending:
  assumes "sc_pending c = None"
  shows "\<exists>x. fst (next_action c) = Ok x \<and> sc_pending (snd (next_action c)) = x \<and> (x = None \<longrightarrow> sc_status (snd (next_action c)) \<noteq> SS_Converging)"
  using assms by (auto simp: next_action_def Let_def split: option.split RuntimeState.split)

lemma converger_settles:
  assumes "sc_pending c = Some action"
  shows "fst (converger_fail c action) = Ok ()" "sc_pending (snd (converger_fail c action)) = None"
    "fst (converger_complete c action x) = Ok ()" "sc_pending (snd (converger_complete c action x)) = None"
  using assms by (simp_all add: converger_fail_def converger_complete_def take_pending_def Let_def)

lemma begin_restart_confirmation_cases:
  assumes "begin_restart_confirmation op now = (r, op')"
  shows "(\<exists>p d. r = Ok () \<and> op' = op\<lparr>sw_phase := WP_RestartDelay (sw_current_boot_epoch op) p d\<rparr>) \<or> r = Err SWE_TimeOverflow"
    "unat now + unat (swp_restart_settle_delay (sw_policy op)) < 2 ^ 64 \<Longrightarrow>
     unat now + unat (swp_restart_confirmation_deadline (sw_policy op)) < 2 ^ 64 \<Longrightarrow> r = Ok ()"
  using assms by (auto simp: begin_restart_confirmation_def checked_deadline_def monotonic_checked_add_def checked_add_def split: if_splits)

lemma submit_next_action_ok:
  assumes "wire_ok op a" "sw_phase op = WP_Ready"
  shows "drive_ok (submit_next_action op a now)"
proof -
  have v: "vacant a" "usable a" "sc_pending (sw_converger op) = None" "hr_node_address (sw_requirements op) = sw_node_address op"
    using assms by (simp_all add: wire_ok_def)
  have same: "wire_ok (op\<lparr>sw_converger := c\<rparr>) a" if "sc_pending c = None" for c
    using assms that by (simp add: wire_ok_def)
  obtain x where n: "fst (next_action (sw_converger op)) = Ok x" "sc_pending (snd (next_action (sw_converger op))) = x"
    "x = None \<longrightarrow> sc_status (snd (next_action (sw_converger op))) \<noteq> SS_Converging" using next_action_pending [OF v(3)] by (elim exE conjE)
  show ?thesis
  proof (cases "sc_status (sw_converger op)")
    case SS_Converging
    show ?thesis
    proof (cases x)
      case None
      with n SS_Converging same [of "snd (next_action (sw_converger op))"] queued_vacant [of a] v(1) show ?thesis
        by (auto simp: submit_next_action_def drive_ok_def goes_on_def Let_def split_def split: SafeStateStatus.split)
    next
      case (Some action)
      obtain i a' where s: "submit_lifecycle a (sw_node_address op) (runtime_operation action) OP_Production = (Ok i, a')"
        "holds (CK_Lifecycle (sw_node_address op) i) a'" "usable a'" using submitted_holds [OF v(2,1)] by blast
      with Some n SS_Converging queued_vacant [of a] v show ?thesis
        by (auto simp: submit_next_action_def drive_ok_def goes_on_def Let_def split_def checked_deadline_def wire_ok_def result_iffs
          split: try_with_split)
    qed
  qed (use assms(1) in \<open>simp_all add: submit_next_action_def drive_ok_def goes_on_def\<close>)
qed

lemma drive_ok_failed:
  assumes "sc_pending (sw_converger op) = Some action" "vacant a" "usable a" "hr_node_address (sw_requirements op) = sw_node_address op"
  shows "drive_ok (beside a (on_converger op (converger_fail (sw_converger op) action) (\<lambda>_ self. (Ok (SWP_AttemptFailed action), self\<lparr>sw_phase := WP_Ready\<rparr>))))"
  using assms converger_settles [OF assms(1)] by (simp add: drive_ok_def beside_def on_converger_def goes_on_def wire_ok_def)

lemma wire_drive_ok:
  assumes "wire_ok op a"
  shows "drive_ok (wire_drive op a now)"
proof -
  have w: "usable a" "hr_node_address (sw_requirements op) = sw_node_address op" using assms by (simp_all add: wire_ok_def)
  have wait: "drive_ok (Ok x, op, a)" for x using assms by (simp add: drive_ok_def goes_on_def)
  show ?thesis
  proof (cases "sw_phase op")
    case WP_Ready
    then show ?thesis using submit_next_action_ok [OF assms] by (simp add: wire_drive_def)
  next
    case (WP_Lifecycle action i deadline)
    then have h: "holds (CK_Lifecycle (sw_node_address op) i) a" "sc_pending (sw_converger op) = Some action" using assms by (simp_all add: wire_ok_def)
    obtain r a' where r: "abandon_control_work a (CK_Lifecycle (sw_node_address op) i) = (r, a')" by (metis surj_pair)
    obtain b op' where b: "begin_restart_confirmation op now = (b, op')" by (metis surj_pair)
    have "drive_ok (abandon_lifecycle op a now action i)"
      using abandoned_cases(1) [OF w(1) h(1) r] begin_restart_confirmation_cases(1) [OF b] w(2) h(2)
      by (auto simp: abandon_lifecycle_def r b wait drive_ok_failed [OF h(2) _ _ w(2)])
        (auto simp: drive_ok_def beside_def goes_on_def wire_ok_def)
    with WP_Lifecycle show ?thesis by (simp add: wire_drive_def wait)
  next
    case (WP_RestartDelay previous probe deadline)
    then have h: "vacant a" "sc_pending (sw_converger op) = Some SA_Restart" using assms by (simp_all add: wire_ok_def)
    obtain a' where s: "submit_handshake a (sw_requirements op) = (Ok (), a')" "holds (CK_Handshake (sw_node_address op)) a'" "usable a'"
      using handshake_holds [OF w(1) h(1), of "sw_requirements op"] w(2) by auto
    have "drive_ok (Ok SWP_RestartHandshakeSubmitted, op\<lparr>sw_phase := WP_RestartHandshake previous deadline\<rparr>, a')"
      using assms s(2,3) WP_RestartDelay by (simp add: drive_ok_def goes_on_def wire_ok_def)
    with WP_RestartDelay s(1) queued_vacant [of a] h(1) show ?thesis
      by (simp add: wire_drive_def fail_restart_confirmation_def wait drive_ok_failed [OF h(2,1) w])
  next
    case (WP_RestartHandshake previous deadline)
    then have h: "holds (CK_Handshake (sw_node_address op)) a" "sc_pending (sw_converger op) = Some SA_Restart" using assms by (simp_all add: wire_ok_def)
    obtain r a' where r: "abandon_control_work a (CK_Handshake (sw_node_address op)) = (r, a')" by (metis surj_pair)
    with WP_RestartHandshake abandoned_cases(1) [OF w(1) h(1) r] show ?thesis
      by (auto simp: wire_drive_def fail_restart_confirmation_def wait drive_ok_failed [OF h(2) _ _ w(2)])
  qed
qed

text \<open>Events that are not for the operation leave it alone; the one that completes its work is answered.\<close>

lemma plain_ignored: "plain_event ev \<Longrightarrow> wire_handle_event op ev now = (Ok SED_Ignored, op)"
  by (cases "sw_phase op"; cases ev) (simp_all add: wire_handle_event_def)

definition told_ok :: "ChannelAgent \<Rightarrow> (SafeStateWireOperation, 'a, SafeStateWireError) outcome \<Rightarrow> bool" where
  "told_ok a out \<longleftrightarrow> goes_on (fst out) \<and> (\<forall>x. fst out = Ok x \<longrightarrow> wire_ok (snd out) a)"

lemma lifecycle_completed_ok:
  assumes "sw_phase op = WP_Lifecycle action i deadline" "sc_pending (sw_converger op) = Some action" "vacant a" "usable a"
    "hr_node_address (sw_requirements op) = sw_node_address op"
  shows "told_ok a (lifecycle_completed op now action result)"
proof -
  obtain b op' where b: "begin_restart_confirmation op now = (b, op')" by (metis surj_pair)
  with begin_restart_confirmation_cases(1) [OF b] converger_settles [OF assms(2)] assms show ?thesis
    by (auto simp: told_ok_def lifecycle_completed_def on_converger_def goes_on_def wire_ok_def)
qed

lemma restart_probed_ok:
  assumes "sw_phase op = WP_RestartHandshake previous deadline" "previous = sw_current_boot_epoch op"
    "sc_pending (sw_converger op) = Some SA_Restart" "vacant a" "usable a" "hr_node_address (sw_requirements op) = sw_node_address op"
  shows "told_ok a (restart_probed op now previous deadline identity)"
  using converger_settles [OF assms(3)] assms
  by (auto simp: told_ok_def restart_probed_def on_converger_def goes_on_def wire_ok_def checked_deadline_def result_iffs Let_def split: try_with_split)

lemma told_completion:
  assumes "wire_ok op a" "usable a'" "phase_action (sw_phase op) \<noteq> None"
    "\<And>act e p d. sw_phase op = WP_RestartDelay e p d \<Longrightarrow> False" "vacant a'"
    "\<And>act i d. sw_phase op = WP_Lifecycle act i d \<Longrightarrow> completes (CK_Lifecycle (sw_node_address op) i) ev"
    "\<And>e d. sw_phase op = WP_RestartHandshake e d \<Longrightarrow> completes (CK_Handshake (sw_node_address op)) ev"
  shows "told_ok a' (wire_handle_event op ev now)"
proof (cases "sw_phase op")
  case (WP_Lifecycle act i d)
  then have "completes (CK_Lifecycle (sw_node_address op) i) ev" using assms(6) by simp
  then obtain result where "ev = EV_LifecycleComplete (sw_node_address op) result" "rr_operation_id result = i" by (cases ev) auto
  with WP_Lifecycle lifecycle_completed_ok [OF WP_Lifecycle _ assms(5,2)] assms(1) show ?thesis
    by (simp add: wire_handle_event_def wire_ok_def)
next
  case (WP_RestartHandshake e d)
  then have "completes (CK_Handshake (sw_node_address op)) ev" using assms(7) by simp
  then obtain identity capabilities where "ev = EV_HandshakeComplete (sw_node_address op) identity capabilities" by (cases ev) auto
  with WP_RestartHandshake restart_probed_ok [OF WP_RestartHandshake _ _ assms(5,2)] assms(1) show ?thesis
    by (simp add: wire_handle_event_def wire_ok_def)
qed (use assms(3,4) in auto)

lemma line_call_ok:
  assumes "wire_ok op a" "line_call aop" "call_allowed aop" "agent_apply a aop = (r, a')"
  shows "(\<forall>ev. r \<noteq> Ok (AV_Event ev)) \<Longrightarrow> wire_ok op a'" "r = Ok (AV_Event ev) \<Longrightarrow> told_ok a' (wire_handle_event op ev now)"
proof -
  have "sound a (r, a')" using agent_apply_sound [of a aop] assms by (cases aop) (auto simp: wire_ok_def usable_def)
  then have u: "usable a'" using assms(1) usable_sound by (auto simp: wire_ok_def)
  have idle: "wire_ok op a' \<and> (\<forall>ev. r = Ok (AV_Event ev) \<longrightarrow> plain_event ev)" if "vacant a" "\<And>i n d. sw_phase op \<noteq> WP_Lifecycle i n d" "\<And>e d. sw_phase op \<noteq> WP_RestartHandshake e d"
    using line_call_vacant [OF that(1) assms(2,4)] u that assms(1) by (cases "sw_phase op") (auto simp: wire_ok_def)
  have busy: "(wire_ok op a' \<and> (\<forall>ev. r = Ok (AV_Event ev) \<longrightarrow> plain_event ev)) \<or> (vacant a' \<and> (\<exists>ev. r = Ok (AV_Event ev) \<and> completes key ev))"
    if "holds key a" "command_key key" "\<And>b. phase_agent (sw_node_address op) (sw_phase op) b = holds key b" for key
    using line_call_serves [OF that(1,2) assms(2,4)] that(3) u assms(1) by (auto simp: wire_ok_def)
  have kept: "told_ok a' (wire_handle_event op ev now)" if "wire_ok op a'" "plain_event ev"
    using that by (simp add: plain_ignored told_ok_def goes_on_def)
  have "((\<forall>ev. r \<noteq> Ok (AV_Event ev)) \<longrightarrow> wire_ok op a') \<and> (r = Ok (AV_Event ev) \<longrightarrow> told_ok a' (wire_handle_event op ev now))"
  proof (cases "sw_phase op")
    case (WP_Lifecycle act i d)
    with busy [of "CK_Lifecycle (sw_node_address op) i"] assms(1) kept told_completion [OF assms(1) u, of ev now] show ?thesis
      by (auto simp: wire_ok_def [of op a])
  next
    case (WP_RestartHandshake e d)
    with busy [of "CK_Handshake (sw_node_address op)"] assms(1) kept told_completion [OF assms(1) u, of ev now] show ?thesis
      by (auto simp: wire_ok_def [of op a])
  qed (use idle kept assms(1) in \<open>auto simp: wire_ok_def [of op a]\<close>)
  then show "(\<forall>ev. r \<noteq> Ok (AV_Event ev)) \<Longrightarrow> wire_ok op a'" "r = Ok (AV_Event ev) \<Longrightarrow> told_ok a' (wire_handle_event op ev now)" by blast+
qed

lemma wire_history_ok:
  assumes "wire_new target safe wire req epoch = Ok start" "wire_history start h op a"
  shows "wire_ok op a"
  using assms(2)
proof (induction rule: wire_history.induct)
  case (wire_start ts os q policy fresh ha a)
  have "agent_ok a" "cag_policy a = policy" "0 < cpy_max_pending_work_items policy"
    using agent_history_ok [OF wire_start(1,2)] wire_start(1)
    by (auto simp: agent_new_def channel_policy_validate_def result_iffs split: if_splits)
  with wire_start(3,4) assms(1) show ?case
    by (auto simp: wire_ok_def usable_def wire_new_def converger_new_def safe_state_policy_validate_def result_iffs split: if_splits)
next
  case (wire_driven h op a now p op' a')
  then show ?case using wire_drive_ok [of op a now] by (simp add: drive_ok_def)
next
  case (wire_called h op a aop r a')
  then show ?case using line_call_ok(1) by blast
next
  case (wire_told h op a aop ev a' now d op')
  then show ?case using line_call_ok(2) [of op a aop "Ok (AV_Event ev)" a' ev now] by (simp add: told_ok_def)
qed

fun phase_deadline :: "WirePhase \<Rightarrow> MonotonicMicros option" where
  "phase_deadline WP_Ready = None"
| "phase_deadline (WP_Lifecycle _ _ deadline) = Some deadline"
| "phase_deadline (WP_RestartDelay _ _ deadline) = Some deadline"
| "phase_deadline (WP_RestartHandshake _ deadline) = Some deadline"

lemma overdue_ends:
  assumes ok: "wire_ok op a" and d: "phase_deadline (sw_phase op) = Some deadline" "deadline \<le> now"
    and line: "cag_outbound a = None" "transaction_is_idle (cag_transactions a)"
    and time: "unat now + unat (swp_restart_settle_delay (sw_policy op)) < 2 ^ 64"
      "unat now + unat (swp_restart_confirmation_deadline (sw_policy op)) < 2 ^ 64"
  shows "fst (wire_drive op a now) = Ok SWP_RestartConfirmationStarted \<or> (\<exists>act. fst (wire_drive op a now) = Ok (SWP_AttemptFailed act))"
proof -
  have u: "usable a" using ok by (simp add: wire_ok_def)
  have given: "\<exists>x a'. abandon_control_work a key = (Ok x, a')" if "holds key a" for key
    using abandoned_cases(2) [OF u that _ line] by (metis surj_pair)
  obtain b op' where b: "begin_restart_confirmation op now = (b, op')" by (metis surj_pair)
  have begun: "begin_restart_confirmation op now = (Ok (), op')" using begin_restart_confirmation_cases(2) [OF b time] b by simp
  show ?thesis
  proof (cases "sw_phase op")
    case (WP_Lifecycle act i d')
    obtain x a' where x: "abandon_control_work a (CK_Lifecycle (sw_node_address op) i) = (Ok x, a')"
      using given [of "CK_Lifecycle (sw_node_address op) i"] ok WP_Lifecycle by (auto simp: wire_ok_def)
    have "sc_pending (sw_converger op) = Some act" using ok WP_Lifecycle by (simp add: wire_ok_def)
    with converger_settles(1) [OF this] WP_Lifecycle d x begun show ?thesis
      by (simp add: wire_drive_def abandon_lifecycle_def beside_def on_converger_def)
  next
    case (WP_RestartDelay e q d')
    have "sc_pending (sw_converger op) = Some SA_Restart" using ok WP_RestartDelay by (simp add: wire_ok_def)
    with converger_settles(1) [OF this] WP_RestartDelay d show ?thesis
      by (simp add: wire_drive_def fail_restart_confirmation_def beside_def on_converger_def)
  next
    case (WP_RestartHandshake e d')
    obtain x a' where x: "abandon_control_work a (CK_Handshake (sw_node_address op)) = (Ok x, a')"
      using given [of "CK_Handshake (sw_node_address op)"] ok WP_RestartHandshake by (auto simp: wire_ok_def)
    have "sc_pending (sw_converger op) = Some SA_Restart" using ok WP_RestartHandshake by (simp add: wire_ok_def)
    with converger_settles(1) [OF this] WP_RestartHandshake d x show ?thesis
      by (simp add: wire_drive_def fail_restart_confirmation_def beside_def on_converger_def)
  qed (use d in simp)
qed

lemma phase_queue:
  assumes "wire_ok op a"
  shows "queued_work_items a \<le> 1"
proof -
  have "vacant a \<or> (\<exists>key. holds key a)" using assms by (cases "sw_phase op") (auto simp: wire_ok_def)
  then show ?thesis by (auto simp: vacant_def holds_def queued_work_items_def works_def split: option.splits)
qed

text \<open>C33. A safe-state operation goes on until it has an answer. In every history with its agent a drive succeeds unless the clock
  runs out; the agent never holds more than the one command or handshake of the operation; and once the deadline of what it
  waits for has passed and the line is free, the next drive gives up the attempt.\<close>

theorem safe_state_operation_goes_on:
  assumes "wire_new target safe wire req epoch = Ok start" "wire_history start h op a"
  shows "((\<exists>p. fst (wire_drive op a now) = Ok p) \<or> fst (wire_drive op a now) = Err SWE_TimeOverflow) \<and> queued_work_items a \<le> 1 \<and>
    (phase_deadline (sw_phase op) = Some deadline \<longrightarrow> deadline \<le> now \<longrightarrow> cag_outbound a = None \<longrightarrow> transaction_is_idle (cag_transactions a) \<longrightarrow>
     unat now + unat (swp_restart_settle_delay (sw_policy op)) < 2 ^ 64 \<longrightarrow>
     unat now + unat (swp_restart_confirmation_deadline (sw_policy op)) < 2 ^ 64 \<longrightarrow>
     fst (wire_drive op a now) = Ok SWP_RestartConfirmationStarted \<or> (\<exists>act. fst (wire_drive op a now) = Ok (SWP_AttemptFailed act)))"
proof -
  have ok: "wire_ok op a" by (rule wire_history_ok [OF assms])
  with wire_drive_ok [OF ok, of now] overdue_ends [OF ok, of deadline now] phase_queue [OF ok] show ?thesis
    by (auto simp: drive_ok_def goes_on_def)
qed

section \<open>Convergence over the line\<close>

inductive conv_run :: "SafeStateConverger \<Rightarrow> (SafeStateAction \<times> SafeStateReport) list \<Rightarrow> SafeStateConverger \<Rightarrow> bool" for s where
  conv_start: "conv_run s [] s"
| conv_round: "\<lbrakk>conv_run s l c; next_action c = (Ok (Some act), t)\<rbrakk> \<Longrightarrow> conv_run s (l @ [(act, r)]) (report t act r)"

lemma conv_run_progresses:
  assumes "conv_run s l c" "converger_ok s" "SR_Observed RT_Faulted \<notin> set (map snd l)"
  shows "converger_ok c \<and> sc_target c = sc_target s \<and> length l + effort c \<le> effort s"
  using assms(1,3)
proof (induction rule: conv_run.induct)
  case (conv_round l c act t r)
  then have "converger_ok c" "SR_Observed RT_Faulted \<notin> set (map snd l)" "r \<noteq> SR_Observed RT_Faulted" by auto
  with conv_round round_progresses [of c act t r] show ?case by (auto simp: progresses_def)
qed (simp add: assms(2))

text \<open>What a call does to the converger: nothing, a next action that is sent or absent, or a report on the one that was sent.\<close>

definition moved :: "SafeStateWireOperation \<Rightarrow> SafeStateWireOperation \<Rightarrow> SafeStateAction list \<Rightarrow> SafeStateReport list \<Rightarrow> bool" where
  "moved op op' acts reps \<longleftrightarrow>
     (acts = [] \<and> reps = [] \<and> phase_action (sw_phase op') = phase_action (sw_phase op) \<and>
       (sw_converger op' = sw_converger op \<or>
        (phase_action (sw_phase op) = None \<and> sc_status (sw_converger op) = SS_Converging \<and> next_action (sw_converger op) = (Ok None, sw_converger op')))) \<or>
     (\<exists>act. acts = [act] \<and> reps = [] \<and> phase_action (sw_phase op) = None \<and> sc_status (sw_converger op) = SS_Converging \<and>
        next_action (sw_converger op) = (Ok (Some act), sw_converger op') \<and> phase_action (sw_phase op') = Some act) \<or>
     (\<exists>act r. acts = [] \<and> reps = [r] \<and> phase_action (sw_phase op) = Some act \<and> phase_action (sw_phase op') = None \<and>
        sw_converger op' = report (sw_converger op) act r)"

definition follows :: "SafeStateConverger \<Rightarrow> SafeStateWireOperation \<Rightarrow> SafeStateAction list \<Rightarrow> SafeStateReport list \<Rightarrow> bool" where
  "follows s op acts reps \<longleftrightarrow> (\<exists>l c. conv_run s l c \<and> reps = map snd l \<and>
     (case phase_action (sw_phase op) of
        None \<Rightarrow> acts = map fst l \<and> (sw_converger op = c \<or> next_action c = (Ok None, sw_converger op))
      | Some act \<Rightarrow> acts = map fst l @ [act] \<and> next_action c = (Ok (Some act), sw_converger op)))"

lemma next_action_none_status: "next_action c = (Ok None, t) \<Longrightarrow> sc_status t \<noteq> SS_Converging"
  by (auto simp: next_action_def Let_def split: if_splits option.splits RuntimeState.splits)

lemma follows_moved:
  assumes "follows s op acts reps" "moved op op' as rs"
  shows "follows s op' (acts @ as) (reps @ rs)"
proof -
  obtain l c where l: "conv_run s l c" "reps = map snd l"
    "case phase_action (sw_phase op) of
        None \<Rightarrow> acts = map fst l \<and> (sw_converger op = c \<or> next_action c = (Ok None, sw_converger op))
      | Some act \<Rightarrow> acts = map fst l @ [act] \<and> next_action c = (Ok (Some act), sw_converger op)"
    using assms(1) by (auto simp: follows_def)
  have status: "sc_status (sw_converger op) = SS_Converging \<Longrightarrow> next_action c \<noteq> (Ok None, sw_converger op)"
    using next_action_none_status by blast
  from assms(2) [unfolded moved_def] show ?thesis
  proof (elim disjE exE conjE)
    fix act r
    assume "as = []" "rs = [r]" "phase_action (sw_phase op) = Some act" "phase_action (sw_phase op') = None"
      "sw_converger op' = report (sw_converger op) act r"
    with l conv_round [OF l(1), of act "sw_converger op" r] show ?thesis unfolding follows_def by fastforce
  qed (use l status in \<open>auto simp: follows_def split: option.splits\<close>)
qed

fun submitted_action :: "SafeStateWireProgress \<Rightarrow> SafeStateAction list" where
  "submitted_action (SWP_Submitted act _) = [act]"
| "submitted_action _ = []"

definition progressed :: "SafeStateWireOperation \<Rightarrow> SafeStateWireProgress \<Rightarrow> SafeStateWireOperation \<Rightarrow> bool" where
  "progressed op p op' \<longleftrightarrow> (\<exists>reps. moved op op' (submitted_action p) reps \<and> set reps \<subseteq> {SR_Failed}) \<and>
     (\<forall>t. p = SWP_Reached t \<longrightarrow> sw_phase op' = WP_Ready \<and> sc_status (sw_converger op') = SS_Reached t)"

lemma submit_next_action_progressed:
  assumes "submit_next_action op a now = (Ok p, op', a')" "sw_phase op = WP_Ready"
  shows "progressed op p op'"
proof (cases "sc_status (sw_converger op)")
  case SS_Converging
  obtain n c where n: "next_action (sw_converger op) = (n, c)" by (metis surj_pair)
  show ?thesis
  proof (cases "n = Ok None")
    case True
    with assms SS_Converging n show ?thesis
      by (auto simp: submit_next_action_def progressed_def moved_def Let_def split: if_splits SafeStateStatus.splits)
  next
    case False
    with assms SS_Converging n show ?thesis
      by (cases n) (auto simp: submit_next_action_def progressed_def moved_def Let_def split_def result_iffs split: if_splits option.splits)
  qed
qed (use assms in \<open>auto simp: submit_next_action_def progressed_def moved_def\<close>)

lemma failed_progressed:
  assumes "phase_action (sw_phase op) = Some act" "on_converger op (converger_fail (sw_converger op) act) (\<lambda>_ self.
      (Ok (SWP_AttemptFailed act), self\<lparr>sw_phase := WP_Ready\<rparr>)) = (Ok p, op')"
  shows "progressed op p op'"
proof -
  have "p = SWP_AttemptFailed act" "op' = op\<lparr>sw_converger := report (sw_converger op) act SR_Failed, sw_phase := WP_Ready\<rparr>"
    using assms(2) by (auto simp: on_converger_def report_def result_iffs Let_def split: try_with_split)
  with assms(1) show ?thesis by (auto simp: progressed_def moved_def)
qed

lemma unmoved: "sw_converger op' = sw_converger op \<Longrightarrow> phase_action (sw_phase op') = phase_action (sw_phase op) \<Longrightarrow> moved op op' [] []"
  by (simp add: moved_def)

lemma unmoved_progressed:
  assumes "sw_converger op' = sw_converger op" "phase_action (sw_phase op') = phase_action (sw_phase op)" "submitted_action p = []" "\<And>t. p \<noteq> SWP_Reached t"
  shows "progressed op p op'"
proof -
  have "moved op op' (submitted_action p) []" using unmoved [OF assms(1,2)] assms(3) by simp
  with assms(4) show ?thesis unfolding progressed_def by fastforce
qed

lemma fail_restart_progressed:
  assumes "fail_restart_confirmation op a = (Ok p, op', a')" "phase_action (sw_phase op) = Some SA_Restart"
  shows "progressed op p op'"
proof -
  have "progressed op p op'" if "beside b (on_converger op (converger_fail (sw_converger op) SA_Restart) (\<lambda>_ self.
      (Ok (SWP_AttemptFailed SA_Restart), self\<lparr>sw_phase := WP_Ready\<rparr>))) = (Ok p, op', b')" for b b'
    using failed_progressed [OF assms(2)] that by (auto simp: beside_def prod_eq_iff)
  with assms(1) show ?thesis
    by (auto simp: fail_restart_confirmation_def Let_def split_def intro!: unmoved_progressed
      split: WirePhase.splits result.splits ChannelAgentError.splits)
qed

lemma abandon_lifecycle_progressed:
  assumes "abandon_lifecycle op a now act i = (Ok p, op', a')" "phase_action (sw_phase op) = Some act"
  shows "progressed op p op'"
proof (cases "fst (abandon_control_work a (CK_Lifecycle (sw_node_address op) i))")
  case (Ok x)
  obtain b op1 where b: "begin_restart_confirmation op now = (b, op1)" by (metis surj_pair)
  show ?thesis
  proof (cases "act = SA_Restart")
    case True
    with assms Ok b begin_restart_confirmation_cases(1) [OF b] show ?thesis
      by (auto simp: abandon_lifecycle_def split_def beside_def intro!: unmoved_progressed)
  next
    case False
    with assms Ok show ?thesis
      by (intro failed_progressed [OF assms(2)]) (auto simp: abandon_lifecycle_def split_def beside_def prod_eq_iff)
  qed
next
  case (Err e)
  with assms show ?thesis
    by (cases e) (auto simp: abandon_lifecycle_def split_def intro!: unmoved_progressed)
next
  case Panic
  with assms(1) show ?thesis by (simp add: abandon_lifecycle_def split_def)
qed

lemma wire_drive_progressed:
  assumes "wire_drive op a now = (Ok p, op', a')"
  shows "progressed op p op'"
proof (cases "sw_phase op")
  case WP_Ready
  then show ?thesis using assms submit_next_action_progressed by (simp add: wire_drive_def)
next
  case (WP_Lifecycle act i d)
  then show ?thesis using assms abandon_lifecycle_progressed [of op a now act i p op' a']
    by (auto simp: wire_drive_def intro!: unmoved_progressed split: if_splits)
next
  case (WP_RestartDelay e q d)
  then show ?thesis using assms fail_restart_progressed [of op a p op' a']
    by (auto simp: wire_drive_def Let_def split_def result_iffs intro!: unmoved_progressed split: if_splits)
next
  case (WP_RestartHandshake e d)
  then show ?thesis using assms fail_restart_progressed [of op a p op' a']
    by (auto simp: wire_drive_def intro!: unmoved_progressed split: if_splits)
qed

fun faulted_event :: "ChannelEvent \<Rightarrow> bool" where
  "faulted_event (EV_LifecycleComplete _ result) \<longleftrightarrow> rr_state result = RT_Faulted"
| "faulted_event _ \<longleftrightarrow> False"

definition reported :: "SafeStateWireOperation \<Rightarrow> bool \<Rightarrow> SafeStateWireOperation \<Rightarrow> bool" where
  "reported op faulted op' \<longleftrightarrow> (\<exists>reps. moved op op' [] reps \<and> (SR_Observed RT_Faulted \<in> set reps \<longrightarrow> faulted))"

lemma reported_report:
  assumes "phase_action (sw_phase op) = Some act" "sw_converger op' = report (sw_converger op) act r" "sw_phase op' = WP_Ready"
    "r = SR_Observed RT_Faulted \<longrightarrow> faulted"
  shows "reported op faulted op'"
proof -
  have "moved op op' [] [r]" using assms(1-3) by (simp add: moved_def)
  with assms(4) show ?thesis unfolding reported_def by fastforce
qed

lemma reported_unmoved:
  "sw_converger op' = sw_converger op \<Longrightarrow> phase_action (sw_phase op') = phase_action (sw_phase op) \<Longrightarrow> reported op faulted op'"
  unfolding reported_def using unmoved by fastforce

lemma lifecycle_completed_reported:
  assumes "lifecycle_completed op now act result = (Ok d, op')" "phase_action (sw_phase op) = Some act"
  shows "reported op (rr_state result = RT_Faulted) op'"
proof (cases "rr_code result \<noteq> RR_Ok \<or> \<not> runtime_result_matches_action act (rr_state result)")
  case True
  with assms(1) show ?thesis
    by (intro reported_report [OF assms(2), where r = SR_Failed])
      (auto simp: lifecycle_completed_def on_converger_def report_def Let_def result_iffs)
next
  case False
  obtain b op1 where b: "begin_restart_confirmation op now = (b, op1)" by (metis surj_pair)
  show ?thesis
  proof (cases "act = SA_Restart")
    case True
    with assms False b begin_restart_confirmation_cases(1) [OF b] show ?thesis
      by (auto simp: lifecycle_completed_def intro!: reported_unmoved)
  next
    case nonrestart: False
    with assms(1) False show ?thesis
      by (intro reported_report [OF assms(2), where r = "SR_Observed (rr_state result)"])
        (auto simp: lifecycle_completed_def on_converger_def report_def Let_def result_iffs)
  qed
qed

lemma restart_probed_reported:
  assumes "restart_probed op now previous deadline identity = (Ok d, op')" "phase_action (sw_phase op) = Some SA_Restart"
  shows "reported op faulted op'"
proof (cases "ni_boot_epoch identity = previous")
  case True
  with assms show ?thesis by (auto simp: restart_probed_def result_iffs intro!: reported_unmoved)
next
  case False
  with assms(1) show ?thesis
    by (intro reported_report [OF assms(2), where r = "SR_Observed RT_Idle"])
      (auto simp: restart_probed_def on_converger_def report_def Let_def result_iffs)
qed

lemma handle_event_reported:
  assumes "wire_handle_event op ev now = (Ok d, op')"
  shows "reported op (faulted_event ev) op'"
proof (cases "(\<exists>act i d. sw_phase op = WP_Lifecycle act i d) \<and> (\<exists>n r. ev = EV_LifecycleComplete n r)")
  case True
  then obtain act i d n r where "sw_phase op = WP_Lifecycle act i d" "ev = EV_LifecycleComplete n r" by blast
  with assms lifecycle_completed_reported [of op now act r] show ?thesis
    by (auto simp: wire_handle_event_def intro: reported_unmoved split: if_splits)
next
  case False
  show ?thesis
  proof (cases "(\<exists>e d. sw_phase op = WP_RestartHandshake e d) \<and> (\<exists>n i c. ev = EV_HandshakeComplete n i c)")
    case True
    then obtain e d n i c where "sw_phase op = WP_RestartHandshake e d" "ev = EV_HandshakeComplete n i c" by blast
    with assms restart_probed_reported [of op now e d i] show ?thesis
      by (auto simp: wire_handle_event_def intro: reported_unmoved split: if_splits)
  next
    case other: False
    from False other have "wire_handle_event op ev now = (Ok SED_Ignored, op)"
      by (cases "sw_phase op"; cases ev) (auto simp: wire_handle_event_def)
    with assms show ?thesis by (auto intro: reported_unmoved)
  qed
qed

fun log_submitted :: "WireLog \<Rightarrow> SafeStateAction list" where
  "log_submitted (WL_Drive p) = submitted_action p"
| "log_submitted _ = []"

fun log_faulted :: "WireLog \<Rightarrow> bool" where
  "log_faulted (WL_Event ev _) \<longleftrightarrow> faulted_event ev"
| "log_faulted _ \<longleftrightarrow> False"

lemma wire_history_follows:
  assumes "sw_phase start = WP_Ready" "wire_history start h op a"
  shows "\<exists>reps. follows (sw_converger start) op (concat (map log_submitted h)) reps \<and> (SR_Observed RT_Faulted \<in> set reps \<longrightarrow> list_ex log_faulted h)"
  using assms(2)
proof (induction rule: wire_history.induct)
  case (wire_start ts os q policy fresh ha a)
  then show ?case using conv_start [of "sw_converger start"] assms(1) by (auto simp: follows_def)
next
  case (wire_driven h op a now p op' a')
  then obtain reps rs where "follows (sw_converger start) op (concat (map log_submitted h)) reps"
    "SR_Observed RT_Faulted \<in> set reps \<longrightarrow> list_ex log_faulted h" "moved op op' (submitted_action p) rs" "set rs \<subseteq> {SR_Failed}"
    using wire_drive_progressed [of op a now p op' a'] by (auto simp: progressed_def)
  with follows_moved [of "sw_converger start" op "concat (map log_submitted h)" reps op' "submitted_action p" rs] show ?case
    by (intro exI [of _ "reps @ rs"]) auto
next
  case (wire_told h op a aop ev a' now d op')
  then obtain reps rs where "follows (sw_converger start) op (concat (map log_submitted h)) reps"
    "SR_Observed RT_Faulted \<in> set reps \<longrightarrow> list_ex log_faulted h" "moved op op' [] rs" "SR_Observed RT_Faulted \<in> set rs \<longrightarrow> faulted_event ev"
    using handle_event_reported [of op ev now d op'] by (auto simp: reported_def)
  with follows_moved [of "sw_converger start" op "concat (map log_submitted h)" reps op' "[]" rs] show ?case
    by (intro exI [of _ "reps @ rs"]) auto
qed

lemma wire_new_converger:
  assumes "wire_new target safe wire req epoch = Ok start"
  shows "converger_new target safe = Ok (sw_converger start)" "sw_phase start = WP_Ready"
  using assms by (auto simp: wire_new_def result_iffs split: if_splits)

lemma follows_bounded:
  assumes "follows s op acts reps" "converger_ok s" "SR_Observed RT_Faulted \<notin> set reps"
  shows "length acts \<le> effort s" "sc_status (sw_converger op) = SS_Reached t \<Longrightarrow> t = sc_target s \<and> sc_observed (sw_converger op) = Some (stable_state t)"
proof -
  obtain l c where l: "conv_run s l c" "reps = map snd l"
    "case phase_action (sw_phase op) of
        None \<Rightarrow> acts = map fst l \<and> (sw_converger op = c \<or> next_action c = (Ok None, sw_converger op))
      | Some act \<Rightarrow> acts = map fst l @ [act] \<and> next_action c = (Ok (Some act), sw_converger op)"
    using assms(1) by (auto simp: follows_def)
  have c: "converger_ok c" "sc_target c = sc_target s" "length l + effort c \<le> effort s"
    using conv_run_progresses [OF l(1) assms(2)] assms(3) l(2) by auto
  have "0 < effort c" if "next_action c = (Ok (Some act), x)" for act x
    using round_progresses [OF c(1) that, of SR_Failed] by (auto simp: progresses_def)
  with l(3) c(3) show "length acts \<le> effort s" by (fastforce split: option.splits)
  have sent: "sc_status x = SS_Converging" if "next_action c = (Ok (Some act), x)" for act x
    using next_action_cases [OF c(1) that] by auto
  show "t = sc_target s \<and> sc_observed (sw_converger op) = Some (stable_state t)" if "sc_status (sw_converger op) = SS_Reached t"
    using l(3) c(1,2) next_action_none [OF c(1), of "sw_converger op"] sent that
    by (auto simp: converger_ok_def split: option.splits)
qed

lemma lifecycle_no_restart: "fst (lifecycle_completed op now act result) \<noteq> Ok (SED_RestartObserved identity)"
  by (simp add: lifecycle_completed_def on_converger_def Let_def split_def split: try_with_split)

lemma restart_new_epoch:
  "fst (restart_probed op now previous deadline i) = Ok (SED_RestartObserved identity) \<longrightarrow> ni_boot_epoch identity \<noteq> previous"
  by (auto simp: restart_probed_def on_converger_def Let_def split_def split: try_with_split)

lemma restart_observed:
  assumes "wire_ok op a" "fst (wire_handle_event op ev now) = Ok (SED_RestartObserved identity)"
  shows "ni_boot_epoch identity \<noteq> sw_current_boot_epoch op"
proof (cases "\<exists>e d. sw_phase op = WP_RestartHandshake e d")
  case True
  with assms restart_new_epoch show ?thesis
    by (auto simp: wire_handle_event_def wire_ok_def split: ChannelEvent.splits if_splits)
next
  case False
  with assms(2) lifecycle_no_restart show ?thesis
    by (auto simp: wire_handle_event_def split: WirePhase.splits ChannelEvent.splits if_splits)
qed

text \<open>C34. A safe-state operation converges. In every history in which no event reports a faulted node it sends at most
  \<open>(restart_cycles + 1) * (4 * orderly_attempts + restart_attempts)\<close> commands, whatever is lost, late or refused on the line; when
  it has reached a state, that is the target and the node reported it; and a restart is only believed when the node answers
  with another boot epoch than before.\<close>

theorem safe_state_operation_converges:
  assumes "wire_new target safe wire req epoch = Ok start" "wire_history start h op a" "\<not> list_ex log_faulted h"
  shows "length (concat (map log_submitted h)) \<le>
      (unat (spp_restart_cycles safe) + 1) * (4 * unat (spp_orderly_attempts safe) + unat (spp_restart_attempts safe)) \<and>
    (sc_status (sw_converger op) = SS_Reached t \<longrightarrow> t = target \<and> sc_observed (sw_converger op) = Some (stable_state target)) \<and>
    (fst (wire_handle_event op ev now) = Ok (SED_RestartObserved identity) \<longrightarrow> ni_boot_epoch identity \<noteq> sw_current_boot_epoch op)"
proof -
  note new = wire_new_converger [OF assms(1)]
  obtain reps where f: "follows (sw_converger start) op (concat (map log_submitted h)) reps" "SR_Observed RT_Faulted \<notin> set reps"
    using wire_history_follows [OF new(2) assms(2)] assms(3) by blast
  note c = converger_new_ok [OF new(1)]
  from follows_bounded [OF f(1) _ f(2)] c restart_observed [OF wire_history_ok [OF assms(1,2)], of ev now identity] show ?thesis
    by (auto simp: policy_bound_def)
qed

section \<open>The group goes in order\<close>

text \<open>A converger whose target is fixed: it has reached nothing else, and what it reached was observed.\<close>

definition aims :: "SafeStateTarget \<Rightarrow> SafeStateConverger \<Rightarrow> bool" where
  "aims target c \<longleftrightarrow> sc_target c = target \<and>
     (\<forall>t. sc_status c = SS_Reached t \<longrightarrow> t = target \<and> sc_observed c = Some (stable_state target) \<and> sc_pending c = None)"

lemma aims_next:
  assumes "aims target c"
  shows "aims target (snd (next_action c))"
  using assms by (auto simp: aims_def next_action_def Let_def split: option.split RuntimeState.split)

lemma aims_report:
  assumes "aims target c" "sc_pending c = Some act"
  shows "aims target (report c act r)"
  using assms by (auto simp: aims_def report_def converger_complete_def converger_fail_def take_pending_def Let_def split: SafeStateReport.split)

definition node_aims :: "SafeStateTarget \<Rightarrow> SafeStateWireOperation \<Rightarrow> bool" where
  "node_aims target op \<longleftrightarrow> aims target (sw_converger op) \<and> sc_pending (sw_converger op) = phase_action (sw_phase op)"

lemma report_settles: "sc_pending c = Some act \<Longrightarrow> sc_pending (report c act r) = None"
  by (auto simp: report_def converger_complete_def converger_fail_def take_pending_def Let_def split: SafeStateReport.split)

lemma next_action_keeps: "next_action c = (Ok x, c') \<Longrightarrow> sc_pending c' = x"
  by (auto simp: next_action_def Let_def split: if_splits option.splits RuntimeState.splits)

lemma moved_aims:
  assumes "node_aims target op" "moved op op' acts reps"
  shows "node_aims target op'"
  using assms aims_next [of target "sw_converger op"] aims_report [of target "sw_converger op"] report_settles [of "sw_converger op"]
    next_action_keeps [of "sw_converger op"]
  by (auto simp: node_aims_def moved_def)

inductive group_history :: "SafeStateGroupOperation \<Rightarrow> SafeStateGroupOperation \<Rightarrow> bool" for start where
  group_start: "group_history start start"
| group_driven: "\<lbrakk>group_history start g; group_drive g a now = (Ok p, g', a')\<rbrakk> \<Longrightarrow> group_history start g'"
| group_told: "\<lbrakk>group_history start g; group_handle_event g ev now = (Ok d, g')\<rbrakk> \<Longrightarrow> group_history start g'"

definition in_order :: "SafeStateTarget \<Rightarrow> SafeStateGroupOperation \<Rightarrow> SafeStateGroupOperation \<Rightarrow> bool" where
  "in_order target start g \<longleftrightarrow> length (sg_nodes g) = length (sg_nodes start) \<and> sg_current g \<le> length (sg_nodes g) \<and>
     list_all (node_aims target) (sg_nodes g) \<and>
     (\<forall>i < sg_current g. sc_status (sw_converger (sg_nodes g ! i)) = SS_Reached target) \<and>
     (\<forall>i. sg_current g < i \<longrightarrow> i < length (sg_nodes g) \<longrightarrow> sg_nodes g ! i = sg_nodes start ! i)"

lemma in_order_update:
  assumes "in_order target start g" "sg_current g < length (sg_nodes g)" "moved (sg_nodes g ! sg_current g) op' acts reps"
  shows "in_order target start (g\<lparr>sg_nodes := (sg_nodes g)[sg_current g := op']\<rparr>)"
proof -
  have "node_aims target op'" using assms moved_aims by (auto simp: in_order_def list_all_length)
  with assms(1,2) show ?thesis by (auto simp: in_order_def list_all_length nth_list_update)
qed

lemma group_goes_in_order:
  assumes "group_history start g" "in_order target start start"
  shows "in_order target start g"
  using assms(1)
proof (induction rule: group_history.induct)
  case (group_driven g a now p g' a')
  show ?case
  proof (cases "sg_current g < length (sg_nodes g)")
    case True
    obtain r op' b where d: "wire_drive (sg_nodes g ! sg_current g) a now = (r, op', b)" by (metis prod_cases3)
    from group_driven.hyps(2) True d obtain q where q: "r = Ok q" by (cases r) (auto simp: group_drive_def Let_def)
    from wire_drive_progressed [OF d [unfolded q]] obtain reps where m: "moved (sg_nodes g ! sg_current g) op' (submitted_action q) reps"
      and t: "\<And>t. q = SWP_Reached t \<Longrightarrow> sc_status (sw_converger op') = SS_Reached t" by (auto simp: progressed_def)
    note u = in_order_update [OF group_driven.IH True m]
    have "node_aims target op'" using u True by (auto simp: in_order_def list_all_length)
    then have "t' = target" if "q = SWP_Reached t'" for t' using t [OF that] by (auto simp: node_aims_def aims_def)
    with group_driven.hyps(2) True d q u t show ?thesis
      by (cases q) (auto simp: group_drive_def Let_def in_order_def less_Suc_eq nth_list_update)
  qed (use group_driven in \<open>simp add: group_drive_def\<close>)
next
  case (group_told g ev now d g')
  show ?case
  proof (cases "sg_current g < length (sg_nodes g)")
    case True
    obtain r op' where h: "wire_handle_event (sg_nodes g ! sg_current g) ev now = (r, op')" by (metis surj_pair)
    from group_told.hyps(2) True h obtain q where q: "r = Ok q" "g' = g\<lparr>sg_nodes := (sg_nodes g)[sg_current g := op']\<rparr>"
      by (auto simp: group_handle_event_def result_iffs)
    from handle_event_reported [OF h [unfolded q]] obtain reps where "moved (sg_nodes g ! sg_current g) op' [] reps" by (auto simp: reported_def)
    with in_order_update [OF group_told.IH True] q show ?thesis by simp
  qed (use group_told in \<open>simp add: group_handle_event_def\<close>)
qed (rule assms(2))

lemma group_nodes_new:
  "group_nodes target safe wire nodes cs = Ok nodes' \<Longrightarrow> list_all (node_aims target) nodes \<Longrightarrow> distinct (map sw_node_address nodes) \<Longrightarrow>
   list_all (node_aims target) nodes' \<and> distinct (map sw_node_address nodes')"
proof (induction cs arbitrary: nodes)
  case (Cons c cs)
  then obtain op where n: "wire_new target safe wire (snc_requirements c) (snc_boot_epoch c) = Ok op"
    "group_nodes target safe wire (nodes @ [op]) cs = Ok nodes'" "\<not> list_ex (\<lambda>x. sw_node_address x = hr_node_address (snc_requirements c)) nodes"
    by (auto simp: result_iffs split: if_splits)
  have "node_aims target op" "sw_node_address op = hr_node_address (snc_requirements c)"
    using n(1) by (auto simp: wire_new_def converger_new_def safe_state_policy_validate_def node_aims_def aims_def result_iffs split: if_splits)
  with Cons.prems n(3) show ?case by (intro Cons.IH [OF n(2)]) (auto simp: list_ex_iff)
qed simp

text \<open>Nodes converge one after the other: those before the current one have reached the target, those after it are untouched.\<close>

lemma group_in_order:
  assumes "group_new target safe wire cs = Ok start" "group_history start g"
  shows "in_order target start g" "distinct (map sw_node_address (sg_nodes start))"
proof -
  obtain nodes where n: "group_nodes target safe wire [] cs = Ok nodes" "start = \<lparr>sg_nodes = nodes, sg_current = 0\<rparr>"
    using assms(1) by (auto simp: group_new_def result_iffs split: if_splits)
  from group_nodes_new [OF n(1)] n(2) show "in_order target start g" "distinct (map sw_node_address (sg_nodes start))"
    using group_goes_in_order [OF assms(2), of target] by (simp_all add: in_order_def)
qed

definition example_wire_policy :: SafeStateWirePolicy where
  "example_wire_policy = \<lparr>swp_action_deadline = 100, swp_restart_settle_delay = 50, swp_restart_confirmation_deadline = 1000\<rparr>"

definition example_wire :: SafeStateWireOperation where
  "example_wire = \<lparr>sw_node_address = 7, sw_requirements = recording_node (HardwareId 1 2 3 4 5 6 7 8) 7 2 0, sw_current_boot_epoch = 9,
     sw_policy = example_wire_policy, sw_converger = example_converger, sw_phase = WP_Ready\<rparr>"

lemma example_wire_new:
  "wire_new ST_Maintenance example_safe_policy example_wire_policy (recording_node (HardwareId 1 2 3 4 5 6 7 8) 7 2 0) 9 = Ok example_wire"
  by (simp add: wire_new_def example_converger_new example_wire_def recording_node_def)

lemma example_wire_history:
  "\<exists>i op a. wire_history example_wire [WL_Drive (SWP_Submitted SA_GetState i)] op a \<and> phase_deadline (sw_phase op) = Some 110 \<and>
     sw_policy op = example_wire_policy \<and> cag_outbound a = None \<and> transaction_is_idle (cag_transactions a)"
proof -
  have v: "vacant example_agent" by (simp add: vacant_fields example_agent_def)
  have "cpy_max_pending_work_items example_channel_policy < 2 ^ 32 - 1" by (simp add: example_channel_policy_def)
  from wire_start [OF example_agent_new agent_start v this] have 1: "wire_history example_wire [] example_wire example_agent" .
  have ok: "agent_ok example_agent" using agent_new_ok [OF example_agent_new] by simp
  have q: "queued_work_items example_agent = 0" using v queued_vacant by simp
  obtain i n where s: "submit_lifecycle example_agent 7 RO_GetState OP_Production = (Ok i, push_back (example_agent\<lparr>cag_next_operation_id := n\<rparr>)
      (PW_Lifecycle \<lparr>lo_node_address = 7, lo_command = \<lparr>rc_operation_id = i, rc_operation = RO_GetState, rc_requested_profile = OP_Production\<rparr>,
        lo_phase = LP_ReadyToSend, lo_terminal_result = None\<rparr>))"
  proof -
    have "cag_policy example_agent = example_channel_policy" by (simp add: example_agent_def)
    then show ?thesis using that submit_lifecycle_succeeds [OF ok, of 7 RO_GetState OP_Production] by (auto simp: q example_channel_policy_def)
  qed
  have d: "\<exists>op a. wire_drive example_wire example_agent 10 = (Ok (SWP_Submitted SA_GetState i), op, a) \<and> phase_deadline (sw_phase op) = Some 110 \<and>
      sw_policy op = example_wire_policy \<and> cag_outbound a = None \<and> transaction_is_idle (cag_transactions a)"
    by (simp add: wire_drive_def submit_next_action_def example_wire_def example_converger_def next_action_def example_safe_policy_def q s
      checked_deadline_def monotonic_checked_add_def checked_add_def example_wire_policy_def push_back_def transaction_is_idle_def Let_def)
      (simp add: example_agent_def)
  then show ?thesis using wire_driven [OF 1, of 10 "SWP_Submitted SA_GetState i"] by (metis append_Nil)
qed

theorem safe_state_operation_goes_on_witness:
  "\<exists>op a. fst (wire_drive op a 110) = Ok SWP_RestartConfirmationStarted \<or> (\<exists>act. fst (wire_drive op a 110) = Ok (SWP_AttemptFailed act))"
proof -
  obtain i op a where h: "wire_history example_wire [WL_Drive (SWP_Submitted SA_GetState i)] op a" "phase_deadline (sw_phase op) = Some 110"
    "sw_policy op = example_wire_policy" "cag_outbound a = None" "transaction_is_idle (cag_transactions a)" using example_wire_history by blast
  from safe_state_operation_goes_on [OF example_wire_new h(1), of 110 110] h(2-5) show ?thesis
    by (auto simp: example_wire_policy_def)
qed

theorem safe_state_operation_converges_witness:
  "\<exists>i op a. wire_history example_wire [WL_Drive (SWP_Submitted SA_GetState i)] op a \<and>
     length (concat (map log_submitted [WL_Drive (SWP_Submitted SA_GetState i)])) \<le> 20"
proof -
  obtain i op a where h: "wire_history example_wire [WL_Drive (SWP_Submitted SA_GetState i)] op a" using example_wire_history by blast
  from safe_state_operation_converges [OF example_wire_new h] h show ?thesis by (auto simp: example_safe_policy_def)
qed

end
