(* ===== verification/Capture_Manifest.thy ===== *)
theory Capture_Manifest
  imports Capture_Sink
begin

text \<open>
  The manifest file of a sealed capture segment (\<^verbatim>\<open>sensor-host/src/capture_segments.rs\<close>, \<open>encode_manifest\<close> and
  \<open>read_capture_manifest\<close>): its byte layout is a codec of exactly the manifests that fulfil the manifest contract, and
  every window a ledger seals fulfils that contract.
\<close>

unbundle bit_operations_syntax

section \<open>The file\<close>

definition MANIFEST_MAGIC :: bytes where "MANIFEST_MAGIC = [83, 83, 67, 65, 80, 77, 65, 78]"
definition MANIFEST_VERSION :: u16 where "MANIFEST_VERSION = 1"
definition MANIFEST_BYTES :: nat where "MANIFEST_BYTES = 104"
definition MANIFEST_CRC_OFFSET :: nat where "MANIFEST_CRC_OFFSET = MANIFEST_BYTES - 4"
definition FIRST_SAMPLE_PRESENT :: u8 where "FIRST_SAMPLE_PRESENT = 1"
definition LAST_SAMPLE_PRESENT :: u8 where "LAST_SAMPLE_PRESENT = 2"

lemmas manifest_sizes = MANIFEST_BYTES_def MANIFEST_CRC_OFFSET_def FIRST_SAMPLE_PRESENT_def LAST_SAMPLE_PRESENT_def

text \<open>The payload of an I/O error is left out.\<close>

datatype CaptureSegmentError =
  CSE_Io | CSE_Wal CaptureWalError | CSE_Window CaptureWindowError | CSE_InvalidSegmentName
| CSE_DuplicateSegmentOrdinal | CSE_OriginOrdinalMismatch u64 u64 | CSE_NonConsecutiveSegment u64 u64
| CSE_UnsealedSegmentBeforeSuccessor u64 | CSE_ManifestForUnsealedSegment u64 | CSE_MultipleWindowsInSegment u64 u64
| CSE_MissingRecoveredManifest | CSE_MissingCurrentSegment | CSE_ManifestOrdinalMismatch u64 u64
| CSE_ManifestFirstCursorMismatch | CSE_DataAfterSealedWindow u64 | CSE_OrdinalOverflow | CSE_ManifestConflict u64
| CSE_InvalidManifestMagic | CSE_UnsupportedManifestVersion u16 | CSE_InvalidManifestLength
| CSE_ManifestChecksumMismatch | CSE_NonZeroManifestReservedField | CSE_UnknownManifestFlags u8
| CSE_InvalidManifestOptionalCursor | CSE_InvalidManifestContract | CSE_UnknownSealReason u8
| CSE_WalManifestIdentityMismatch | CSE_RecordAfterSeal | CSE_MissingSeal | CSE_ManifestDoesNotMatchWal
| CSE_CounterOverflow

fun encode_seal_reason :: "WindowSealReason \<Rightarrow> u8" where
  "encode_seal_reason WSR_TargetDurationReached = 0"
| "encode_seal_reason WSR_TimingSegmentChanged = 1"
| "encode_seal_reason WSR_ExplicitFinish = 2"

definition decode_seal_reason :: "u8 \<Rightarrow> (WindowSealReason, CaptureSegmentError) result" where
  "decode_seal_reason v =
     (if v = 0 then Ok WSR_TargetDurationReached else if v = 1 then Ok WSR_TimingSegmentChanged
      else if v = 2 then Ok WSR_ExplicitFinish else Err (CSE_UnknownSealReason v))"

interpretation seal_reason: wire_code encode_seal_reason decode_seal_reason
proof
  show "decode_seal_reason (encode_seal_reason r) = Ok r" for r
    by (cases r) (simp_all add: decode_seal_reason_def)
qed (auto simp: decode_seal_reason_def split: if_splits)

text \<open>\<open>if let Some(cursor) = .. { output[a..b].copy_from_slice(..) }\<close>.\<close>

definition copy_optional :: "nat \<Rightarrow> nat \<Rightarrow> SequenceCursor option \<Rightarrow> bytes \<Rightarrow> (bytes, 'e) result" where
  "copy_optional a b v out = (case v of None \<Rightarrow> Ok out | Some c \<Rightarrow> copy_fields [(a, b, to_le_bytes 8 c)] out)"

definition manifest_flags :: "CaptureWindowManifest \<Rightarrow> u8" where
  "manifest_flags m =
     (let flags = (if cwm_first_sample_cursor m = None then 0 else 0 OR FIRST_SAMPLE_PRESENT)
      in if cwm_last_sample_cursor m = None then flags else flags OR LAST_SAMPLE_PRESENT)"

definition encode_manifest :: "CaptureWindowManifest \<Rightarrow> (bytes, CaptureSegmentError) result" where
  "encode_manifest m =
     and_then (copy_fields
       [(0, 8, MANIFEST_MAGIC), (8, 10, to_le_bytes 2 MANIFEST_VERSION),
        (10, 12, to_le_bytes 2 (of_nat MANIFEST_BYTES :: u16)), (12, 20, hardware_id_bytes (cwm_hardware_id m)),
        (20, 28, to_le_bytes 8 (cwm_boot_epoch m)), (28, 36, to_le_bytes 8 (cwm_window_ordinal m)),
        (36, 44, to_le_bytes 8 (cwm_first_cursor m)), (44, 52, to_le_bytes 8 (cwm_end_exclusive m))]
       (replicate MANIFEST_BYTES 0)) (\<lambda>out.
     and_then (copy_optional 52 60 (cwm_first_sample_cursor m) out) (\<lambda>out.
     and_then (copy_optional 60 68 (cwm_last_sample_cursor m) out) (\<lambda>out.
     and_then (copy_fields
       [(68, 76, to_le_bytes 8 (cwm_sample_count m)), (76, 84, to_le_bytes 8 (cwm_missing_sample_count m)),
        (84, 92, to_le_bytes 8 (cwm_continuity_break_count m)), (92, 93, [manifest_flags m]),
        (93, 94, [encode_seal_reason (cwm_seal_reason m)])] out) (\<lambda>out.
     and_then (slice_at out 0 MANIFEST_CRC_OFFSET) (\<lambda>covered.
       copy_fields [(MANIFEST_CRC_OFFSET, MANIFEST_BYTES, to_le_bytes 4 (crc32c covered))] out)))))"

definition validate_manifest_contract :: "CaptureWindowManifest \<Rightarrow> (unit, CaptureSegmentError) result" where
  "validate_manifest_contract m =
     (if cwm_boot_epoch m = 0 \<or> cwm_end_exclusive m \<le> cwm_first_cursor m then Err CSE_InvalidManifestContract
      else and_then (ok_or (Option.bind (checked_add (cwm_sample_count m) (cwm_missing_sample_count m))
                       (\<lambda>v. checked_add v (cwm_continuity_break_count m))) CSE_InvalidManifestContract) (\<lambda>covered.
        if checked_advance (cwm_first_cursor m) covered \<noteq> Some (cwm_end_exclusive m) then Err CSE_InvalidManifestContract
        else case (cwm_first_sample_cursor m, cwm_last_sample_cursor m) of
            (None, None) \<Rightarrow> if cwm_sample_count m = 0 then Ok () else Err CSE_InvalidManifestContract
          | (Some first, Some final) \<Rightarrow>
              if cwm_sample_count m = 0 then Err CSE_InvalidManifestContract
              else if first < cwm_first_cursor m \<or> final < first \<or> final \<ge> cwm_end_exclusive m
              then Err CSE_InvalidManifestContract
              else Ok ()
          | _ \<Rightarrow> Err CSE_InvalidManifestContract))"

definition decode_manifest :: "bytes \<Rightarrow> (CaptureWindowManifest, CaptureSegmentError) result" where
  "decode_manifest bs =
     and_then (slice_at bs 0 8) (\<lambda>magic.
     if magic \<noteq> MANIFEST_MAGIC then Err CSE_InvalidManifestMagic
     else and_then (read_u16 bs 8) (\<lambda>version.
     if version \<noteq> MANIFEST_VERSION then Err (CSE_UnsupportedManifestVersion version)
     else and_then (read_u16 bs 10) (\<lambda>len.
     if unat len \<noteq> MANIFEST_BYTES then Err CSE_InvalidManifestLength
     else and_then (slice_at bs 0 MANIFEST_CRC_OFFSET) (\<lambda>covered.
          and_then (read_u32 bs MANIFEST_CRC_OFFSET) (\<lambda>crc.
     if crc32c covered \<noteq> crc then Err CSE_ManifestChecksumMismatch
     else and_then (slice_at bs 94 MANIFEST_CRC_OFFSET) (\<lambda>reserved.
     if list_ex (\<lambda>v. v \<noteq> 0) reserved then Err CSE_NonZeroManifestReservedField
     else and_then (index_at bs 92) (\<lambda>flags.
     if flags AND NOT (FIRST_SAMPLE_PRESENT OR LAST_SAMPLE_PRESENT) \<noteq> 0 then Err (CSE_UnknownManifestFlags flags)
     else and_then (read_u64 bs 52) (\<lambda>first_sample.
     if flags AND FIRST_SAMPLE_PRESENT = 0 \<and> first_sample \<noteq> 0 then Err CSE_InvalidManifestOptionalCursor
     else and_then (read_u64 bs 60) (\<lambda>last_sample.
     if flags AND LAST_SAMPLE_PRESENT = 0 \<and> last_sample \<noteq> 0 then Err CSE_InvalidManifestOptionalCursor
     else and_then (slice_at bs 12 20) (\<lambda>hw. and_then (hardware_id_from_bytes hw) (\<lambda>hardware_id.
          and_then (read_u64 bs 20) (\<lambda>boot_epoch. and_then (read_u64 bs 28) (\<lambda>window_ordinal.
          and_then (read_u64 bs 36) (\<lambda>first_cursor. and_then (read_u64 bs 44) (\<lambda>end_exclusive.
          and_then (read_u64 bs 68) (\<lambda>sample_count. and_then (read_u64 bs 76) (\<lambda>missing_sample_count.
          and_then (read_u64 bs 84) (\<lambda>continuity_break_count.
          and_then (index_at bs 93) (\<lambda>reason. and_then (decode_seal_reason reason) (\<lambda>seal_reason.
          let manifest =
            \<lparr>cwm_hardware_id = hardware_id, cwm_boot_epoch = boot_epoch, cwm_window_ordinal = window_ordinal,
             cwm_first_cursor = first_cursor, cwm_end_exclusive = end_exclusive,
             cwm_first_sample_cursor = (if flags AND FIRST_SAMPLE_PRESENT \<noteq> 0 then Some first_sample else None),
             cwm_last_sample_cursor = (if flags AND LAST_SAMPLE_PRESENT \<noteq> 0 then Some last_sample else None),
             cwm_sample_count = sample_count, cwm_missing_sample_count = missing_sample_count,
             cwm_continuity_break_count = continuity_break_count, cwm_seal_reason = seal_reason\<rparr>
          in and_then (validate_manifest_contract manifest) (\<lambda>_. Ok manifest)))))))))))))))))))))"

text \<open>\<open>read_capture_manifest\<close> on the content of the file: \<open>read_exact\<close> of a shorter file is an I/O error.\<close>

definition read_capture_manifest :: "bytes \<Rightarrow> (CaptureWindowManifest, CaptureSegmentError) result" where
  "read_capture_manifest content =
     (if length content < MANIFEST_BYTES then Err CSE_Io
      else if length content > MANIFEST_BYTES then Err CSE_InvalidManifestLength
      else decode_manifest content)"

section \<open>The file is a codec\<close>

text \<open>The first and the last sample of a range lie in it, and both are absent exactly when it has no sample.\<close>

definition samples_within ::
  "SequenceCursor \<Rightarrow> SequenceCursor \<Rightarrow> u64 \<Rightarrow> SequenceCursor option \<Rightarrow> SequenceCursor option \<Rightarrow> bool" where
  "samples_within start stop count x y \<longleftrightarrow>
     (case (x, y) of
        (None, None) \<Rightarrow> count = 0
      | (Some first, Some final) \<Rightarrow> count \<noteq> 0 \<and> start \<le> first \<and> first \<le> final \<and> final < stop
      | _ \<Rightarrow> False)"

definition manifest_contract :: "CaptureWindowManifest \<Rightarrow> bool" where
  "manifest_contract m \<longleftrightarrow> cwm_boot_epoch m \<noteq> 0 \<and> manifest_ok m \<and>
     samples_within (cwm_first_cursor m) (cwm_end_exclusive m) (cwm_sample_count m) (cwm_first_sample_cursor m)
       (cwm_last_sample_cursor m)"

lemma bind_checked_adds:
  "Option.bind (checked_add a b) (\<lambda>v. checked_add v (c :: u64)) = Some n \<longleftrightarrow> unat n = unat a + unat b + unat c"
proof -
  have "\<exists>y :: u64. unat y = unat a + unat b" if "unat n = unat a + unat b + unat c"
    using that unat_u64_bound [of n] ex_unat [where 'a = 64, of "unat a + unat b"] by simp
  then show ?thesis unfolding bind_eq_Some_conv checked_add_Some by metis
qed

lemma validate_manifest_contract_Ok [result_iffs]: "validate_manifest_contract m = Ok u \<longleftrightarrow> manifest_contract m"
proof (cases "cwm_boot_epoch m = 0 \<or> cwm_end_exclusive m \<le> cwm_first_cursor m")
  case True
  then show ?thesis by (auto simp: validate_manifest_contract_def manifest_contract_def manifest_ok_def counts_fill_def)
next
  case False
  let ?sum = "Option.bind (checked_add (cwm_sample_count m) (cwm_missing_sample_count m))
                (\<lambda>v. checked_add v (cwm_continuity_break_count m))"
  have "(\<exists>n. ?sum = Some n \<and> checked_advance (cwm_first_cursor m) n = Some (cwm_end_exclusive m)) \<longleftrightarrow> manifest_ok m"
  proof
    assume "\<exists>n. ?sum = Some n \<and> checked_advance (cwm_first_cursor m) n = Some (cwm_end_exclusive m)"
    with False show "manifest_ok m"
      by (auto simp: bind_checked_adds checked_advance_Some manifest_ok_def counts_fill_def)
  next
    assume k: "manifest_ok m"
    then obtain n :: u64 where "unat n = unat (cwm_sample_count m) + unat (cwm_missing_sample_count m) + unat (cwm_continuity_break_count m)"
      using ex_unat [where 'a = 64, of "unat (cwm_sample_count m) + unat (cwm_missing_sample_count m) + unat (cwm_continuity_break_count m)"]
        unat_u64_bound [of "cwm_end_exclusive m"]
      by (auto simp: manifest_ok_def counts_fill_def)
    with k show "\<exists>n. ?sum = Some n \<and> checked_advance (cwm_first_cursor m) n = Some (cwm_end_exclusive m)"
      by (intro exI [of _ n]) (auto simp: bind_checked_adds checked_advance_Some manifest_ok_def counts_fill_def)
  qed
  with False show ?thesis
    by (auto simp: validate_manifest_contract_def manifest_contract_def samples_within_def result_iffs not_less not_le
        split: option.splits)
qed

lemma validate_manifest_contract_no_panic [simp]: "validate_manifest_contract m \<noteq> Panic"
  by (auto simp: validate_manifest_contract_def result_iffs split: option.splits)

text \<open>The bytes of a manifest: an absent cursor leaves its field zero.\<close>

definition optional_bytes :: "SequenceCursor option \<Rightarrow> bytes" where
  "optional_bytes v = (case v of None \<Rightarrow> replicate 8 0 | Some c \<Rightarrow> to_le_bytes 8 c)"

definition manifest_fields :: "CaptureWindowManifest \<Rightarrow> bytes" where
  "manifest_fields m = MANIFEST_MAGIC @ to_le_bytes 2 MANIFEST_VERSION @ to_le_bytes 2 (104 :: u16) @
     hardware_id_bytes (cwm_hardware_id m) @ to_le_bytes 8 (cwm_boot_epoch m) @ to_le_bytes 8 (cwm_window_ordinal m) @
     to_le_bytes 8 (cwm_first_cursor m) @ to_le_bytes 8 (cwm_end_exclusive m) @
     optional_bytes (cwm_first_sample_cursor m) @ optional_bytes (cwm_last_sample_cursor m) @
     to_le_bytes 8 (cwm_sample_count m) @ to_le_bytes 8 (cwm_missing_sample_count m) @
     to_le_bytes 8 (cwm_continuity_break_count m) @ [manifest_flags m, encode_seal_reason (cwm_seal_reason m)] @ replicate 6 0"

definition manifest_bytes :: "CaptureWindowManifest \<Rightarrow> bytes" where
  "manifest_bytes m = manifest_fields m @ to_le_bytes 4 (crc32c (manifest_fields m))"

lemma length_manifest [simp]:
  "length MANIFEST_MAGIC = 8" "length (optional_bytes v) = 8" "length (manifest_fields m) = 100" "length (manifest_bytes m) = 104"
  by (simp_all add: MANIFEST_MAGIC_def optional_bytes_def manifest_fields_def manifest_bytes_def split: option.split)

lemma copy_optional_zero:
  "a = length pre \<Longrightarrow> b = a + 8 \<Longrightarrow> zs = replicate (8 + n) 0 \<Longrightarrow>
     copy_optional a b v (pre @ zs) = Ok (pre @ optional_bytes v @ replicate n 0)"
  by (cases v) (simp_all add: copy_optional_def optional_bytes_def replicate_add)

lemma encode_manifest_bytes: "encode_manifest m = Ok (manifest_bytes m)"
proof -
  let ?pre = "MANIFEST_MAGIC @ to_le_bytes 2 MANIFEST_VERSION @ to_le_bytes 2 (104 :: u16) @
     hardware_id_bytes (cwm_hardware_id m) @ to_le_bytes 8 (cwm_boot_epoch m) @ to_le_bytes 8 (cwm_window_ordinal m) @
     to_le_bytes 8 (cwm_first_cursor m) @ to_le_bytes 8 (cwm_end_exclusive m)"
  have one: "copy_optional 52 60 v (?pre @ replicate 52 0) =
      (Ok (?pre @ optional_bytes v @ replicate 44 0) :: (bytes, CaptureSegmentError) result)" for v
    by (rule copy_optional_zero) simp_all
  have two: "copy_optional 60 68 w (?pre @ optional_bytes v @ replicate 44 0) =
      (Ok (?pre @ optional_bytes v @ optional_bytes w @ replicate 36 0) :: (bytes, CaptureSegmentError) result)" for v w
    using copy_optional_zero [of 60 "?pre @ optional_bytes v" 68 "replicate 44 0" 36 w] by simp
  have r: "replicate 10 (0 :: u8) = replicate 6 0 @ replicate 4 0" by (simp flip: replicate_add)
  have s: "sub 0 8 (x # y # replicate 6 0 @ zs) = x # y # replicate 6 0" for x y :: u8 and zs by (simp add: sub_def)
  show ?thesis
    using one [of "cwm_first_sample_cursor m"] two [of "cwm_last_sample_cursor m" "cwm_first_sample_cursor m"]
    by (simp add: encode_manifest_def manifest_sizes manifest_bytes_def manifest_fields_def slices r s)
qed

lemma manifest_flags_read [simp]:
  "manifest_flags m AND - 4 = 0" "manifest_flags m AND 1 = 0 \<longleftrightarrow> cwm_first_sample_cursor m = None"
  "manifest_flags m AND 2 = 0 \<longleftrightarrow> cwm_last_sample_cursor m = None"
  by (simp_all add: manifest_flags_def manifest_sizes Let_def)

lemma known_flags: "(f :: u8) AND - 4 = 0 \<Longrightarrow> f = 0 \<or> f = 1 \<or> f = 2 \<or> f = 3"
proof -
  assume "f AND - 4 = 0"
  moreover have "f AND (3 OR NOT 3) = f AND 3 OR f AND NOT 3" by (rule bit.conj_disj_distrib)
  ultimately have "f AND mask 2 = f" by (simp add: mask_eq_exp_minus_1)
  then have "take_bit 2 (unat f) = unat f" by (metis take_bit_eq_mask unsigned_take_bit_eq)
  then have "unat f < 4" by (simp add: take_bit_nat_eq_self_iff)
  then have "unat f = 0 \<or> unat f = 1 \<or> unat f = 2 \<or> unat f = 3" by linarith
  then show ?thesis by (simp add: unat_eq_iff)
qed

lemma zero_cursor: "length bs = 8 \<Longrightarrow> (from_le_bytes bs :: u64) = 0 \<Longrightarrow> replicate 8 0 = bs"
  using to_from_le_bytes [of bs 8, where 'a = 64] by (simp add: to_le_bytes_def) (simp add: eval_nat_numeral)

lemma optional_read:
  "length bs = 8 \<Longrightarrow> (\<not> present \<longrightarrow> from_le_bytes bs = (0 :: u64)) \<Longrightarrow>
     optional_bytes (if present then Some (from_le_bytes bs) else None) = bs"
  by (auto simp: optional_bytes_def to_from_le_bytes zero_cursor)

lemma from_optional [simp]: "from_le_bytes (optional_bytes v) = (case v of None \<Rightarrow> 0 | Some c \<Rightarrow> c)"
  by (simp add: optional_bytes_def split: option.split) (simp add: eval_nat_numeral)

lemma decode_manifest_bytes:
  assumes "manifest_contract m"
  shows "decode_manifest (manifest_bytes m) = Ok m"
proof -
  have c: "sub 0 100 (manifest_bytes m) = manifest_fields m" "sub 100 104 (manifest_bytes m) = to_le_bytes 4 (crc32c (manifest_fields m))"
    by (simp_all add: manifest_bytes_def slices)
  have f: "sub a b (manifest_bytes m) = sub a b (manifest_fields m)" if "b \<le> 100" for a b
    using that by (simp add: manifest_bytes_def slices)
  have n: "manifest_bytes m ! 92 = manifest_flags m" "manifest_bytes m ! 93 = encode_seal_reason (cwm_seal_reason m)"
    by (simp_all add: manifest_bytes_def manifest_fields_def nth_append)
  have s: "sub 0 8 (manifest_fields m) = MANIFEST_MAGIC" "sub 8 10 (manifest_fields m) = to_le_bytes 2 MANIFEST_VERSION"
    "sub 10 12 (manifest_fields m) = to_le_bytes 2 (104 :: u16)"
    "sub 12 20 (manifest_fields m) = hardware_id_bytes (cwm_hardware_id m)"
    "sub 20 28 (manifest_fields m) = to_le_bytes 8 (cwm_boot_epoch m)"
    "sub 28 36 (manifest_fields m) = to_le_bytes 8 (cwm_window_ordinal m)"
    "sub 36 44 (manifest_fields m) = to_le_bytes 8 (cwm_first_cursor m)"
    "sub 44 52 (manifest_fields m) = to_le_bytes 8 (cwm_end_exclusive m)"
    "sub 52 60 (manifest_fields m) = optional_bytes (cwm_first_sample_cursor m)"
    "sub 60 68 (manifest_fields m) = optional_bytes (cwm_last_sample_cursor m)"
    "sub 68 76 (manifest_fields m) = to_le_bytes 8 (cwm_sample_count m)"
    "sub 76 84 (manifest_fields m) = to_le_bytes 8 (cwm_missing_sample_count m)"
    "sub 84 92 (manifest_fields m) = to_le_bytes 8 (cwm_continuity_break_count m)"
    "sub 94 100 (manifest_fields m) = replicate 6 0"
    by (simp_all add: manifest_fields_def slices)
  have r: "\<lparr>cwm_hardware_id = cwm_hardware_id m, cwm_boot_epoch = cwm_boot_epoch m, cwm_window_ordinal = cwm_window_ordinal m,
      cwm_first_cursor = cwm_first_cursor m, cwm_end_exclusive = cwm_end_exclusive m, cwm_first_sample_cursor = x,
      cwm_last_sample_cursor = y, cwm_sample_count = cwm_sample_count m, cwm_missing_sample_count = cwm_missing_sample_count m,
      cwm_continuity_break_count = cwm_continuity_break_count m, cwm_seal_reason = cwm_seal_reason m\<rparr> = m"
    if "cwm_first_sample_cursor m = x" "cwm_last_sample_cursor m = y" for x y
    using that by (cases m) simp
  show ?thesis
    using assms
    by (cases "cwm_first_sample_cursor m"; cases "cwm_last_sample_cursor m")
      (simp_all add: decode_manifest_def manifest_sizes read_defs c f s n r list_ex_iff Let_def seal_reason.of_to
        validate_manifest_contract_Ok result_iffs)
qed

lemma flags_of_cursors:
  "f AND - 4 = 0 \<Longrightarrow> cwm_first_sample_cursor m = (if f AND 1 \<noteq> 0 then Some x else None) \<Longrightarrow>
     cwm_last_sample_cursor m = (if f AND 2 \<noteq> 0 then Some y else None) \<Longrightarrow> manifest_flags m = f"
  using known_flags [of f] by (auto simp: manifest_flags_def manifest_sizes)

lemma zero_tail: "\<not> list_ex (\<lambda>v. v \<noteq> 0) bs \<Longrightarrow> length bs = n \<Longrightarrow> replicate n 0 = (bs :: bytes)"
  by (auto simp: list_ex_iff intro!: replicate_eqI [symmetric])

lemma guard_Ok: "(if b then Err e else r) = Ok x \<longleftrightarrow> \<not> b \<and> r = Ok x"
  by simp

lemma decode_manifest_cases:
  assumes "decode_manifest bs = Ok m" "length bs = 104"
  shows "manifest_contract m" "sub 0 8 bs = MANIFEST_MAGIC" "sub 8 10 bs = to_le_bytes 2 MANIFEST_VERSION"
    "sub 10 12 bs = to_le_bytes 2 (104 :: u16)" "sub 12 20 bs = hardware_id_bytes (cwm_hardware_id m)"
    "sub 20 28 bs = to_le_bytes 8 (cwm_boot_epoch m)" "sub 28 36 bs = to_le_bytes 8 (cwm_window_ordinal m)"
    "sub 36 44 bs = to_le_bytes 8 (cwm_first_cursor m)" "sub 44 52 bs = to_le_bytes 8 (cwm_end_exclusive m)"
    "sub 52 60 bs = optional_bytes (cwm_first_sample_cursor m)" "sub 60 68 bs = optional_bytes (cwm_last_sample_cursor m)"
    "sub 68 76 bs = to_le_bytes 8 (cwm_sample_count m)" "sub 76 84 bs = to_le_bytes 8 (cwm_missing_sample_count m)"
    "sub 84 92 bs = to_le_bytes 8 (cwm_continuity_break_count m)" "bs ! 92 = manifest_flags m"
    "bs ! 93 = encode_seal_reason (cwm_seal_reason m)" "sub 94 100 bs = replicate 6 0"
    "sub 100 104 bs = to_le_bytes 4 (crc32c (sub 0 100 bs))"
proof -
  let ?f = "bs ! 92"
  let ?first = "from_le_bytes (sub 52 60 bs) :: u64"
  let ?last = "from_le_bytes (sub 60 68 bs) :: u64"
  from assms have f: "?f AND - 4 = 0" "?f AND 1 = 0 \<longrightarrow> ?first = 0" "?f AND 2 = 0 \<longrightarrow> ?last = 0"
    and v: "from_le_bytes (sub 8 10 bs) = MANIFEST_VERSION" "unat (from_le_bytes (sub 10 12 bs) :: u16) = 104"
      "from_le_bytes (sub 100 104 bs) = crc32c (sub 0 100 bs)" "\<not> list_ex (\<lambda>v. v \<noteq> 0) (sub 94 100 bs)"
    and h: "(hardware_id_from_bytes (sub 12 20 bs)) = (Ok (cwm_hardware_id m) :: (HardwareId, CaptureSegmentError) result)"
    and r: "decode_seal_reason (bs ! 93) = Ok (cwm_seal_reason m)"
    and m: "cwm_first_sample_cursor m = (if ?f AND 1 \<noteq> 0 then Some ?first else None)"
      "cwm_last_sample_cursor m = (if ?f AND 2 \<noteq> 0 then Some ?last else None)"
    and c: "manifest_contract m" "sub 0 8 bs = MANIFEST_MAGIC" "from_le_bytes (sub 20 28 bs) = cwm_boot_epoch m"
      "from_le_bytes (sub 28 36 bs) = cwm_window_ordinal m" "from_le_bytes (sub 36 44 bs) = cwm_first_cursor m"
      "from_le_bytes (sub 44 52 bs) = cwm_end_exclusive m" "from_le_bytes (sub 68 76 bs) = cwm_sample_count m"
      "from_le_bytes (sub 76 84 bs) = cwm_missing_sample_count m" "from_le_bytes (sub 84 92 bs) = cwm_continuity_break_count m"
    by (auto simp: decode_manifest_def guard_Ok result_iffs manifest_sizes read_defs Let_def split del: if_split)
  have len: "from_le_bytes (sub 10 12 bs) = (104 :: u16)" using v(2) by (simp add: unat_eq_iff)
  have le: "sub a b bs = to_le_bytes n x" if "from_le_bytes (sub a b bs) = x" "a + n = b" "b \<le> 104" "8 * n = LENGTH('a)"
    for a b n and x :: "'a::len word"
    using that to_from_le_bytes [of "sub a b bs" n, where 'a = 'a] assms(2) by auto
  show "manifest_contract m" "sub 0 8 bs = MANIFEST_MAGIC" by (fact c)+
  show "sub 8 10 bs = to_le_bytes 2 MANIFEST_VERSION" "sub 10 12 bs = to_le_bytes 2 (104 :: u16)"
    "sub 20 28 bs = to_le_bytes 8 (cwm_boot_epoch m)" "sub 28 36 bs = to_le_bytes 8 (cwm_window_ordinal m)"
    "sub 36 44 bs = to_le_bytes 8 (cwm_first_cursor m)" "sub 44 52 bs = to_le_bytes 8 (cwm_end_exclusive m)"
    "sub 68 76 bs = to_le_bytes 8 (cwm_sample_count m)" "sub 76 84 bs = to_le_bytes 8 (cwm_missing_sample_count m)"
    "sub 84 92 bs = to_le_bytes 8 (cwm_continuity_break_count m)"
    "sub 100 104 bs = to_le_bytes 4 (crc32c (sub 0 100 bs))"
    by (intro le; simp add: v(1,3) len c)+
  show "sub 12 20 bs = hardware_id_bytes (cwm_hardware_id m)" using hardware_id_from_bytes_Ok [OF h] by simp
  show "sub 52 60 bs = optional_bytes (cwm_first_sample_cursor m)" "sub 60 68 bs = optional_bytes (cwm_last_sample_cursor m)"
    unfolding m using f(2,3) assms(2) by (subst optional_read; simp)+
  show "bs ! 92 = manifest_flags m" using flags_of_cursors [OF f(1) m] by simp
  show "bs ! 93 = encode_seal_reason (cwm_seal_reason m)" using r by (simp add: seal_reason.of_code_iff)
  show "sub 94 100 bs = replicate 6 0" using zero_tail [OF v(4), of 6] assms(2) by simp
qed

lemma read_manifest_iff: "read_capture_manifest bs = Ok m \<longleftrightarrow> manifest_contract m \<and> bs = manifest_bytes m"
proof
  assume "read_capture_manifest bs = Ok m"
  then have d: "decode_manifest bs = Ok m" and l: "length bs = 104"
    by (auto simp: read_capture_manifest_def manifest_sizes split: if_splits)
  note c = decode_manifest_cases [OF d l]
  have "manifest_fields m = sub 0 92 bs @ bs ! 92 # bs ! 93 # sub 94 100 bs"
    unfolding manifest_fields_def by (simp add: joins l flip: c(2-17))
  also have "\<dots> = sub 0 100 bs" using l by (simp add: Cons_sub joins)
  finally have "manifest_bytes m = bs" using c(18) l by (simp add: manifest_bytes_def joins flip: c(18))
  with c(1) show "manifest_contract m \<and> bs = manifest_bytes m" by simp
next
  assume "manifest_contract m \<and> bs = manifest_bytes m"
  then show "read_capture_manifest bs = Ok m"
    by (simp add: read_capture_manifest_def manifest_sizes decode_manifest_bytes)
qed

lemma read_manifest_no_panic: "read_capture_manifest bs \<noteq> Panic"
  using hardware_id_from_bytes_ex [of "sub 12 20 bs"]
  by (auto simp: read_capture_manifest_def decode_manifest_def manifest_sizes read_defs result_iffs Let_def
      seal_reason.no_panic)

interpretation manifest: codec encode_manifest read_capture_manifest manifest_contract
  by unfold_locales (auto simp: encode_manifest_bytes read_manifest_iff read_manifest_no_panic)

section \<open>Sealed windows fulfil the contract\<close>

definition open_samples :: "CaptureWindowLedger \<Rightarrow> bool" where
  "open_samples l \<longleftrightarrow>
     (case cl_open l of
        None \<Rightarrow> True
      | Some w \<Rightarrow> samples_within (ow_first_cursor w) (ow_end_exclusive w) (ow_sample_count w) (ow_first_sample_cursor w)
          (ow_last_sample_cursor w))"

lemma samples_within_grow: "samples_within a b n x y \<Longrightarrow> b \<le> c \<Longrightarrow> samples_within a c n x y"
  by (auto simp: samples_within_def split: option.splits)

lemma samples_within_chunk:
  assumes "samples_within a b n x y" "a \<le> b" "unat z + 1 = unat c" "b \<le> z" "k \<noteq> 0"
  shows "samples_within a c k (if x = None then Some b else x) (Some z)"
proof -
  have "z < c" using assms(3) by (simp add: word_less_nat_alt)
  with assms show ?thesis by (cases x; cases y) (auto simp: samples_within_def)
qed

text \<open>The window that is open, or would be opened, at the next cursor.\<close>

lemma opened_samples:
  assumes "ledger_ok l" "open_samples l" "w = opened l (cl_next_cursor l)"
  shows "samples_within (ow_first_cursor w) (cl_next_cursor l) (ow_sample_count w) (ow_first_sample_cursor w) (ow_last_sample_cursor w)"
    "ow_first_cursor w \<le> cl_next_cursor l"
  using assms
  by (cases "cl_open l"; auto simp: opened_def open_window_new_def samples_within_def ledger_ok_def open_samples_def counts_fill_def)+

lemma grown_samples:
  assumes "samples_within (ow_first_cursor w) c (ow_sample_count w) (ow_first_sample_cursor w) (ow_last_sample_cursor w)"
  shows "open_samples (grown l w c)"
  using assms by (simp add: open_samples_def grown_def)

lemma seal_some_contract:
  assumes "ledger_ok l" "open_samples l" "cl_boot_epoch l \<noteq> 0" "seal_some l r = (Ok sealed, t)"
  shows "open_samples t \<and> (\<exists>m. sealed = Some m \<and> manifest_contract m)"
proof -
  obtain m where m: "sealed = Some m" "seals_window l m t" using seal_some_seals [OF assms(1,4)] by blast
  have "open_samples t \<and> samples_within (cwm_first_cursor m) (cwm_end_exclusive m) (cwm_sample_count m)
      (cwm_first_sample_cursor m) (cwm_last_sample_cursor m)"
    using assms(2,4) m(1)
    by (cases "cl_open l"; cases "checked_add (cl_next_window_ordinal l) 1")
      (auto simp: seal_some_def seal_def Let_def open_samples_def)
  with m assms(3) show ?thesis by (simp add: manifest_contract_def seals_window_def)
qed

text \<open>What appending a record keeps.\<close>

definition contract_kept :: "CaptureWindowManifest option \<Rightarrow> CaptureWindowLedger \<Rightarrow> bool" where
  "contract_kept sealed t \<longleftrightarrow> open_samples t \<and> (\<forall>m. sealed = Some m \<longrightarrow> manifest_contract m)"

lemma apply_chunk_window:
  assumes "apply_chunk l h c = (Ok sealed, t)"
  obtains e x n where "sch_first (sc_header c) = cl_next_cursor l"
    "unat e = unat (cl_next_cursor l) + unat (sch_sample_count (sc_header c))" "unat e = unat x + 1"
    "unat n = unat (ow_sample_count (opened l (cl_next_cursor l))) + unat (sch_sample_count (sc_header c))"
    "(sealed, t) = (None, grown l (chunk_window (opened l (cl_next_cursor l)) c e x n) e) \<or>
     (\<exists>r. seal_some (grown l (chunk_window (opened l (cl_next_cursor l)) c e x n) e) r = (Ok sealed, t))"
proof -
  let ?w = "opened l (cl_next_cursor l)"
  from assms obtain e x n b where e: "chunk_end (sc_header c) = Ok e" "sch_first (sc_header c) = cl_next_cursor l"
    and x: "sub_unchecked e 1 = (Ok x :: (u64, CaptureWindowError) result)"
    and n: "checked_add (ow_sample_count ?w) (u64_from (sch_sample_count (sc_header c))) = Some n"
    and r: "rotate_window (grown l (chunk_window ?w c e x n) e) b c (chunk_window ?w c e x n) = (Ok sealed, t)"
    by (auto simp: apply_chunk_def Let_def result_iffs grown_def chunk_window_end)
  show thesis
    by (rule that [OF e(2) _ _ _ rotate_window_cases [OF r]])
      (use e x n in \<open>auto simp: chunk_end_def result_iffs checked_advance_Some checked_add_Some sub_unchecked_def checked_sub_Some\<close>)
qed

lemma apply_chunk_contract:
  assumes "ledger_ok l" "open_samples l" "cl_boot_epoch l \<noteq> 0" "sch_sample_count (sc_header c) \<noteq> 0"
    "apply_chunk l h c = (Ok sealed, t)"
  shows "contract_kept sealed t"
proof -
  let ?w = "opened l (cl_next_cursor l)"
  obtain e x n where f: "sch_first (sc_header c) = cl_next_cursor l"
    and e: "unat e = unat (cl_next_cursor l) + unat (sch_sample_count (sc_header c))" "unat e = unat x + 1"
    and n: "unat n = unat (ow_sample_count ?w) + unat (sch_sample_count (sc_header c))"
    and t: "(sealed, t) = (None, grown l (chunk_window ?w c e x n) e) \<or>
      (\<exists>r. seal_some (grown l (chunk_window ?w c e x n) e) r = (Ok sealed, t))"
    using assms(5) by (rule apply_chunk_window)
  let ?g = "grown l (chunk_window ?w c e x n) e"
  have pos: "0 < unat (sch_sample_count (sc_header c))" using assms(4) by (simp add: unat_gt_0)
  have le: "cl_next_cursor l \<le> x" "cl_next_cursor l < e" "n \<noteq> 0"
    using e n pos by (auto simp: word_le_nat_alt word_less_nat_alt unat_eq_iff)
  have cw: "ow_first_sample_cursor (chunk_window ?w c e x n) =
      (if ow_first_sample_cursor ?w = None then Some (cl_next_cursor l) else ow_first_sample_cursor ?w)"
    "ow_last_sample_cursor (chunk_window ?w c e x n) = Some x"
    by (simp_all add: chunk_window_def f)
  have g: "open_samples ?g"
    using samples_within_chunk [OF opened_samples [OF assms(1,2) refl] e(2) [symmetric] le(1,3)] by (intro grown_samples) (simp add: cw)
  have "extends_window l ?g" using assms(1) e n le by (intro grown_extends) (simp_all add: opened_first)
  then have gok: "ledger_ok ?g" "cl_boot_epoch ?g = cl_boot_epoch l" by (simp_all add: extends_window_def same_stream_def)
  from t show ?thesis
    using seal_some_contract [OF gok(1) g] gok(2) assms(3) g by (auto simp: contract_kept_def)
qed

lemma append_contract:
  assumes "ledger_ok l" "open_samples l" "cl_boot_epoch l \<noteq> 0" "record_ok r" "ledger_append l r = (Ok sealed, t)"
  shows "contract_kept sealed t"
proof -
  let ?w = "opened l (cl_next_cursor l)"
  note o = opened_samples [OF assms(1,2) refl]
  show ?thesis
  proof (cases r)
    case (CRec_SampleChunk c)
    with assms have "apply_chunk l (cl_hardware_id l) c = (Ok sealed, t)" "sch_sample_count (sc_header c) \<noteq> 0"
      by (simp_all add: plan_chunk_def planned_commit_Ok sample_chunk_ok_def chunk_header_ok_def)
    with apply_chunk_contract [OF assms(1-3)] show ?thesis by blast
  next
    case (CRec_Gap g)
    with assms(5) obtain c n where "unat c = unat (cl_next_cursor l) + unat (gap_missing_count g)" "sealed = None"
      "unat n = unat (ow_missing_sample_count ?w) + unat (gap_missing_count g)"
      and t: "t = grown l (?w\<lparr>ow_missing_sample_count := n\<rparr>) c"
      by (auto simp: plan_gap_def planned_commit_Ok apply_gap_def Let_def result_iffs checked_advance_Some checked_add_Some
          grown_def)
    with samples_within_grow [OF o(1), of c] show ?thesis
      by (auto simp: contract_kept_def word_le_nat_alt intro!: grown_samples)
  next
    case (CRec_ContinuityBreak b)
    with assms(5) obtain c n where "unat c = unat (cl_next_cursor l) + 1" "sealed = None"
      "unat n = unat (ow_continuity_break_count ?w) + 1"
      and t: "t = grown l (?w\<lparr>ow_continuity_break_count := n\<rparr>) c"
      by (auto simp: plan_continuity_break_def planned_commit_Ok apply_continuity_break_def continuity_break_end_def Let_def
          result_iffs checked_advance_Some checked_add_Some grown_def)
    with samples_within_grow [OF o(1), of c] show ?thesis
      by (auto simp: contract_kept_def word_le_nat_alt intro!: grown_samples)
  next
    case CRec_WindowSeal
    with assms(5) have "finish l = (Ok sealed, t)" by (auto split: prod.splits result.splits)
    then show ?thesis
      using seal_some_contract [OF assms(1-3)] assms(2) by (auto simp: finish_def contract_kept_def split: if_splits)
  qed
qed

end
