(* ===== verification/Capture_Segments.thy ===== *)
theory Capture_Segments
  imports Capture_Manifest "HOL-Library.AList"
begin

text \<open>
  The capture stream of one sensor boot (\<^verbatim>\<open>sensor-host/src/capture_segments.rs\<close>): a directory of write-ahead logs, one
  per window, and the manifests of the sealed ones. A directory is the list of its files by name; what can fail while a
  manifest is published and while the next log is created is an argument of the operations.
\<close>

section \<open>File names\<close>

type_synonym directory = "(string \<times> bytes) list"

text \<open>\<open>{ordinal:020}\<close>: a 64-bit number has at most twenty digits.\<close>

definition digit :: "nat \<Rightarrow> char" where
  "digit d = char_of (48 + d)"

fun decimal :: "nat \<Rightarrow> nat \<Rightarrow> string" where
  "decimal 0 n = []"
| "decimal (Suc k) n = decimal k (n div 10) @ [digit (n mod 10)]"

definition wal_path :: "u64 \<Rightarrow> string" where
  "wal_path ordinal = ''window-'' @ decimal 20 (unat ordinal) @ ''.wal''"

definition manifest_path :: "u64 \<Rightarrow> string" where
  "manifest_path ordinal = ''window-'' @ decimal 20 (unat ordinal) @ ''.manifest''"

definition temporary_path :: "u64 \<Rightarrow> string" where
  "temporary_path ordinal = ''.window-'' @ decimal 20 (unat ordinal) @ ''.manifest.tmp''"

definition strip_prefix :: "string \<Rightarrow> string \<Rightarrow> string option" where
  "strip_prefix p s = (if take (length p) s = p then Some (drop (length p) s) else None)"

definition strip_suffix :: "string \<Rightarrow> string \<Rightarrow> string option" where
  "strip_suffix p s =
     (if length p \<le> length s \<and> drop (length s - length p) s = p then Some (take (length s - length p) s) else None)"

definition is_ascii_digit :: "char \<Rightarrow> bool" where
  "is_ascii_digit c \<longleftrightarrow> 48 \<le> (of_char c :: nat) \<and> (of_char c :: nat) \<le> 57"

definition digits_value :: "string \<Rightarrow> nat" where
  "digits_value s = foldl (\<lambda>v c. 10 * v + (of_char c - 48)) 0 s"

text \<open>The body of the loop of \<open>discover_segment_ordinals\<close>: \<open>None\<close> is \<open>continue\<close>.\<close>

definition segment_ordinal :: "string \<Rightarrow> (u64 option, CaptureSegmentError) result" where
  "segment_ordinal name =
     (case Option.bind (strip_prefix ''window-'' name) (strip_suffix ''.wal'') of
        None \<Rightarrow> Ok None
      | Some number \<Rightarrow>
          if length number \<noteq> 20 \<or> \<not> list_all is_ascii_digit number then Ok None
          else if digits_value number < 2 ^ 64 then Ok (Some (of_nat (digits_value number)))
          else Err CSE_InvalidSegmentName)"

fun collect_ordinals :: "directory \<Rightarrow> (u64 list, CaptureSegmentError) result" where
  "collect_ordinals [] = Ok []"
| "collect_ordinals ((name, content) # entries) =
     and_then (segment_ordinal name) (\<lambda>found.
     and_then (collect_ordinals entries) (\<lambda>ordinals.
       Ok (case found of None \<Rightarrow> ordinals | Some ordinal \<Rightarrow> ordinal # ordinals)))"

definition discover_segment_ordinals :: "directory \<Rightarrow> (u64 list, CaptureSegmentError) result" where
  "discover_segment_ordinals dir =
     and_then (collect_ordinals dir) (\<lambda>ordinals.
       let ordinals = sort ordinals in
       if successively (\<noteq>) ordinals then Ok ordinals else Err CSE_DuplicateSegmentOrdinal)"

lemma of_char_digit [simp]: "d < 10 \<Longrightarrow> (of_char (digit d) :: nat) = 48 + d"
  by (simp add: digit_def)

lemma length_decimal [simp]: "length (decimal k n) = k"
  by (induction k arbitrary: n) simp_all

lemma decimal_digits: "list_all is_ascii_digit (decimal k n)"
  by (induction k arbitrary: n) (auto simp: is_ascii_digit_def)

lemma value_decimal: "digits_value (decimal k n) = n mod 10 ^ k"
  by (induction k arbitrary: n) (simp_all add: digits_value_def mod_mult2_eq mult.commute)

lemma digit_of: "is_ascii_digit c \<Longrightarrow> digit (of_char c - 48) = c"
  by (simp add: is_ascii_digit_def digit_def)

lemma decimal_value: "list_all is_ascii_digit s \<Longrightarrow> decimal (length s) (digits_value s) = s \<and> digits_value s < 10 ^ length s"
proof (induction s rule: rev_induct)
  case (snoc c s)
  then have "is_ascii_digit c" by simp
  then have c: "(of_char c :: nat) - 48 < 10" "digit (of_char c - 48) = c" by (auto simp: is_ascii_digit_def digit_of)
  have v: "digits_value (s @ [c]) = 10 * digits_value s + (of_char c - 48)" by (simp add: digits_value_def)
  with c snoc show ?case by simp
qed (simp add: digits_value_def)

lemma strip_prefix_Some: "strip_prefix p s = Some t \<longleftrightarrow> s = p @ t"
  unfolding strip_prefix_def by (metis append_eq_conv_conj append_take_drop_id option.inject option.distinct(1))

lemma strip_suffix_Some: "strip_suffix p s = Some t \<longleftrightarrow> s = t @ p"
proof
  assume "strip_suffix p s = Some t"
  then show "s = t @ p" unfolding strip_suffix_def by (metis append_take_drop_id option.inject option.distinct(1))
qed (simp add: strip_suffix_def)

lemma strip_wal:
  "Option.bind (strip_prefix ''window-'' name) (strip_suffix ''.wal'') = Some number \<longleftrightarrow> name = ''window-'' @ number @ ''.wal''"
  unfolding bind_eq_Some_conv strip_prefix_Some strip_suffix_Some by blast

lemma segment_ordinal_Some: "segment_ordinal name = Ok (Some ordinal) \<longleftrightarrow> name = wal_path ordinal"
proof
  assume "segment_ordinal name = Ok (Some ordinal)"
  then obtain number where n: "name = ''window-'' @ number @ ''.wal''" "length number = 20" "list_all is_ascii_digit number"
    "digits_value number < 2 ^ 64" "ordinal = of_nat (digits_value number)"
    by (auto simp: segment_ordinal_def strip_wal split: option.splits if_splits)
  then have "unat ordinal = digits_value number" by (simp add: unat_of_nat)
  with n decimal_value [OF n(3)] show "name = wal_path ordinal" by (simp add: wal_path_def)
next
  have "unat ordinal < 10 ^ 20" using unat_u64_bound [of ordinal] by simp
  then have "digits_value (decimal 20 (unat ordinal)) = unat ordinal" by (simp add: value_decimal)
  moreover assume "name = wal_path ordinal"
  then have "Option.bind (strip_prefix ''window-'' name) (strip_suffix ''.wal'') = Some (decimal 20 (unat ordinal))"
    by (simp only: strip_wal wal_path_def)
  ultimately show "segment_ordinal name = Ok (Some ordinal)"
    using unat_u64_bound [of ordinal] by (simp add: segment_ordinal_def decimal_digits)
qed

lemma wal_path_inject [simp]: "wal_path a = wal_path b \<longleftrightarrow> a = b"
  using segment_ordinal_Some [of "wal_path a" a] segment_ordinal_Some [of "wal_path a" b] by auto

lemma manifest_path_inject [simp]: "manifest_path a = manifest_path b \<longleftrightarrow> a = b"
proof
  assume "manifest_path a = manifest_path b"
  then have "wal_path a = wal_path b" by (simp add: manifest_path_def wal_path_def)
  then show "a = b" by simp
qed simp

lemma paths_differ [simp]:
  "manifest_path a \<noteq> wal_path b" "wal_path b \<noteq> manifest_path a" "temporary_path a \<noteq> wal_path b"
  "temporary_path a \<noteq> manifest_path b" "manifest_path b \<noteq> temporary_path a" "wal_path b \<noteq> temporary_path a"
proof -
  have "length (manifest_path a) \<noteq> length (wal_path b)" by (simp add: manifest_path_def wal_path_def)
  then show "manifest_path a \<noteq> wal_path b" "wal_path b \<noteq> manifest_path a" by metis+
qed (simp_all add: temporary_path_def wal_path_def manifest_path_def)

text \<open>Discovery finds exactly the logs, in order, unless a name carries a number that is no 64-bit one.\<close>

definition clean_names :: "directory \<Rightarrow> bool" where
  "clean_names dir \<longleftrightarrow> list_all (\<lambda>(name, content). segment_ordinal name \<noteq> Err CSE_InvalidSegmentName) dir"

lemma segment_ordinal_other:
  assumes "\<And>ordinal. name \<noteq> wal_path ordinal" "segment_ordinal name \<noteq> Err CSE_InvalidSegmentName"
  shows "segment_ordinal name = Ok None"
proof (cases "segment_ordinal name")
  case (Ok found)
  with assms(1) show ?thesis by (cases found) (auto simp: segment_ordinal_Some)
qed (use assms(2) in \<open>auto simp: segment_ordinal_def split: option.splits if_splits\<close>)

lemma not_a_wal: "(\<And>number. name \<noteq> ''window-'' @ number @ ''.wal'') \<Longrightarrow> segment_ordinal name = Ok None"
  by (cases "Option.bind (strip_prefix ''window-'' name) (strip_suffix ''.wal'')")
    (simp_all add: segment_ordinal_def, simp add: strip_wal)

lemma other_paths_ignored: "segment_ordinal (manifest_path o1) = Ok None" "segment_ordinal (temporary_path o2) = Ok None"
proof -
  have "last (manifest_path o1) \<noteq> last (''window-'' @ number @ ''.wal'')" for number by (simp add: manifest_path_def)
  then show "segment_ordinal (manifest_path o1) = Ok None" by (intro not_a_wal notI) auto
  show "segment_ordinal (temporary_path o2) = Ok None" by (rule not_a_wal) (simp add: temporary_path_def)
qed

lemma collect_ordinals_Ok:
  "clean_names dir \<Longrightarrow> distinct (map fst dir) \<Longrightarrow>
     \<exists>os. collect_ordinals dir = Ok os \<and> distinct os \<and> set os = {ordinal. wal_path ordinal \<in> fst ` set dir}"
proof (induction dir)
  case (Cons entry entries)
  obtain name content where entry: "entry = (name, content)" by (cases entry)
  from Cons obtain os where os: "collect_ordinals entries = Ok os" "distinct os"
    "set os = {ordinal. wal_path ordinal \<in> fst ` set entries}"
    by (auto simp: clean_names_def)
  show ?case
  proof (cases "\<exists>ordinal. name = wal_path ordinal")
    case True
    then obtain ordinal where "name = wal_path ordinal" by blast
    moreover from this have "segment_ordinal name = Ok (Some ordinal)" by (simp add: segment_ordinal_Some)
    ultimately show ?thesis using os Cons.prems(2) by (auto simp: entry)
  next
    case False
    then have "segment_ordinal name = Ok None" using Cons.prems(1) by (intro segment_ordinal_other) (auto simp: clean_names_def entry)
    with os False show ?thesis by (auto simp: entry)
  qed
qed simp

lemma successively_neq: "distinct xs \<Longrightarrow> successively (\<noteq>) xs"
  by (induction xs rule: induct_list012) simp_all

lemma discover_Ok:
  assumes "clean_names dir" "distinct (map fst dir)"
  shows "discover_segment_ordinals dir = Ok (sorted_list_of_set {ordinal. map_of dir (wal_path ordinal) \<noteq> None})"
proof -
  obtain os where os: "collect_ordinals dir = Ok os" "distinct os" "set os = {ordinal. wal_path ordinal \<in> fst ` set dir}"
    using collect_ordinals_Ok [OF assms] by blast
  have "set os = {ordinal. map_of dir (wal_path ordinal) \<noteq> None}" by (simp add: os(3) map_of_eq_None_iff)
  then have "sort os = sorted_list_of_set {ordinal. map_of dir (wal_path ordinal) \<noteq> None}"
    using os(2) sorted_list_of_set_sort_remdups [of os] by (simp add: distinct_remdups_id)
  moreover have "successively (\<noteq>) (sort os)"
    using os(2) by (intro successively_neq) simp
  ultimately show ?thesis using os(1) by (simp add: discover_segment_ordinals_def)
qed

section \<open>Files of the directory\<close>

text \<open>How far publishing a manifest and creating a log get: \<open>*_Ok\<close> is success, and any other outcome is an I/O error
  after the steps before it. An opening that only reads, and the cut of a torn tail, succeed.\<close>

datatype PublishOutcome = PO_Ok | PO_OpenFailed | PO_WriteFailed nat | PO_RenameFailed | PO_SyncFailed

datatype CreateOutcome = CO_Ok | CO_OpenFailed | CO_HeaderFailed nat | CO_SyncFailed

definition publish_manifest ::
  "directory \<Rightarrow> CaptureWindowManifest \<Rightarrow> PublishOutcome \<Rightarrow> (directory, unit, CaptureSegmentError) outcome" where
  "publish_manifest dir manifest io =
     (let destination = manifest_path (cwm_window_ordinal manifest) in
      case map_of dir destination of
        Some content \<Rightarrow>
          try_with (read_capture_manifest content) dir (\<lambda>existing.
            if existing = manifest then (Ok (), dir)
            else (Err (CSE_ManifestConflict (cwm_window_ordinal manifest)), dir))
      | None \<Rightarrow>
          let temporary = temporary_path (cwm_window_ordinal manifest) in
          try_with (encode_manifest manifest) dir (\<lambda>bs.
            case io of
              PO_OpenFailed \<Rightarrow> (Err CSE_Io, dir)
            | PO_WriteFailed k \<Rightarrow> (Err CSE_Io, AList.update temporary (take k bs) dir)
            | PO_RenameFailed \<Rightarrow> (Err CSE_Io, AList.update temporary bs dir)
            | PO_SyncFailed \<Rightarrow> (Err CSE_Io, AList.update destination bs (AList.delete temporary dir))
            | PO_Ok \<Rightarrow> (Ok (), AList.update destination bs (AList.delete temporary dir))))"

text \<open>\<open>CaptureWalSink::open\<close> on a path of the directory.\<close>

definition recover_wal ::
  "directory \<Rightarrow> u64 \<Rightarrow> CaptureWalConfig \<Rightarrow> bytes \<Rightarrow> (directory, CaptureWalSink, CaptureSegmentError) outcome" where
  "recover_wal dir ordinal config content =
     try_with (map_err CSE_Wal (sink_open content config)) dir (\<lambda>sink.
       (Ok sink, AList.update (wal_path ordinal) (wf_content (ws_file sink)) dir))"

definition open_wal ::
  "directory \<Rightarrow> u64 \<Rightarrow> CaptureWalConfig \<Rightarrow> CreateOutcome \<Rightarrow> (directory, CaptureWalSink, CaptureSegmentError) outcome" where
  "open_wal dir ordinal config io =
     (let content = (case map_of dir (wal_path ordinal) of None \<Rightarrow> [] | Some content \<Rightarrow> content) in
      if cwc_boot_epoch config = 0 then (Err (CSE_Wal WAL_ZeroBootEpoch), dir)
      else if content \<noteq> [] then recover_wal dir ordinal config content
      else try_with (map_err CSE_Wal (write_file_header config)) dir (\<lambda>header.
        case io of
          CO_OpenFailed \<Rightarrow> (Err (CSE_Wal WAL_Io), dir)
        | CO_HeaderFailed k \<Rightarrow> (Err (CSE_Wal WAL_Io), AList.update (wal_path ordinal) (take k header) dir)
        | CO_SyncFailed \<Rightarrow> (Err (CSE_Wal WAL_Io), AList.update (wal_path ordinal) header dir)
        | CO_Ok \<Rightarrow> recover_wal (AList.update (wal_path ordinal) header dir) ordinal config header))"

section \<open>The stream\<close>

text \<open>The field \<open>directory\<close> is a path; its files are passed to the operations and returned by them.\<close>

record CaptureSegmentStream =
  css_base_config :: CaptureWalConfig
  css_current_ordinal :: u64
  css_current :: CaptureWalSink

definition validate_segment_manifest ::
  "CaptureWindowManifest \<Rightarrow> u64 \<Rightarrow> SequenceCursor \<Rightarrow> SequenceCursor \<Rightarrow> (unit, CaptureSegmentError) result" where
  "validate_segment_manifest manifest ordinal first_cursor durable_cursor =
     (if cwm_window_ordinal manifest \<noteq> ordinal
      then Err (CSE_ManifestOrdinalMismatch ordinal (cwm_window_ordinal manifest))
      else if cwm_first_cursor manifest \<noteq> first_cursor then Err CSE_ManifestFirstCursorMismatch
      else if cwm_end_exclusive manifest \<noteq> durable_cursor then Err (CSE_DataAfterSealedWindow ordinal)
      else Ok ())"

text \<open>\<open>inspect_capture_stream_origin\<close> of an existing directory.\<close>

definition inspect_capture_stream_origin :: "directory \<Rightarrow> (CaptureWalHeader option, CaptureSegmentError) result" where
  "inspect_capture_stream_origin dir =
     and_then (discover_segment_ordinals dir) (\<lambda>ordinals.
       case ordinals of
         [] \<Rightarrow> Ok None
       | first_ordinal # _ \<Rightarrow>
           and_then (ok_or (map_of dir (wal_path first_ordinal)) CSE_Io) (\<lambda>content.
           and_then (map_err CSE_Wal (reader_open content)) (\<lambda>reader.
             let header = rd_header reader in
             if cwh_first_window_ordinal header \<noteq> first_ordinal
             then Err (CSE_OriginOrdinalMismatch first_ordinal (cwh_first_window_ordinal header))
             else Ok (Some header))))"

text \<open>The configuration of the log of \<open>ordinal\<close>, starting at \<open>cursor\<close>.\<close>

definition segment_config :: "CaptureWalConfig \<Rightarrow> SequenceCursor \<Rightarrow> u64 \<Rightarrow> CaptureWalConfig" where
  "segment_config base cursor ordinal = base\<lparr>cwc_recovered_cursor := cursor, cwc_first_window_ordinal := ordinal\<rparr>"

text \<open>The outcomes of the I/O of a call, in the order of the calls; behind the list everything succeeds.\<close>

type_synonym segment_io = "(PublishOutcome \<times> CreateOutcome) list"

definition next_io :: "segment_io \<Rightarrow> PublishOutcome \<times> CreateOutcome" where
  "next_io ios = (case ios of [] \<Rightarrow> (PO_Ok, CO_Ok) | io # _ \<Rightarrow> io)"

text \<open>The loop of \<open>CaptureSegmentStream::open\<close>. It returns the next ordinal and the log that stays open.\<close>

fun open_segments ::
  "CaptureWalConfig \<Rightarrow> u64 list \<Rightarrow> u64 \<Rightarrow> SequenceCursor \<Rightarrow> segment_io \<Rightarrow> directory \<Rightarrow>
     (directory, u64 \<times> CaptureWalSink option, CaptureSegmentError) outcome" where
  "open_segments base [] expected_ordinal expected_cursor ios dir = (Ok (expected_ordinal, None), dir)"
| "open_segments base (ordinal # ordinals) expected_ordinal expected_cursor ios dir =
     (if ordinal \<noteq> expected_ordinal then (Err (CSE_NonConsecutiveSegment expected_ordinal ordinal), dir)
      else let (opened, dir) = open_wal dir ordinal (segment_config base expected_cursor ordinal) (snd (next_io ios)) in
        try_with opened dir (\<lambda>sink.
          let recovery = ws_recovery sink in
          if cwr_sealed_window_count recovery = 0 then
            (if ordinals \<noteq> [] then (Err (CSE_UnsealedSegmentBeforeSuccessor ordinal), dir)
             else if map_of dir (manifest_path ordinal) \<noteq> None then (Err (CSE_ManifestForUnsealedSegment ordinal), dir)
             else (Ok (expected_ordinal, Some sink), dir))
          else if cwr_sealed_window_count recovery = 1 then
            try_with (ok_or (cwr_last_sealed_window recovery) CSE_MissingRecoveredManifest) dir (\<lambda>manifest.
            try_with (validate_segment_manifest manifest ordinal expected_cursor (cwr_durable_cursor recovery)) dir (\<lambda>_.
            let (published, dir) = publish_manifest dir manifest (fst (next_io ios)) in
            try_with published dir (\<lambda>_.
            try_with (ok_or (checked_add expected_ordinal 1) CSE_OrdinalOverflow) dir (\<lambda>next_ordinal.
              if ordinals = [] then
                let (opened, dir) = open_wal dir next_ordinal
                      (segment_config base (cwm_end_exclusive manifest) next_ordinal) (snd (next_io (tl ios)))
                in try_with opened dir (\<lambda>sink. (Ok (next_ordinal, Some sink), dir))
              else open_segments base ordinals next_ordinal (cwm_end_exclusive manifest) (tl ios) dir))))
          else (Err (CSE_MultipleWindowsInSegment ordinal (cwr_sealed_window_count recovery)), dir)))"

definition segment_stream_open ::
  "directory \<Rightarrow> CaptureWalConfig \<Rightarrow> segment_io \<Rightarrow> (directory, CaptureSegmentStream, CaptureSegmentError) outcome" where
  "segment_stream_open dir base ios =
     try_with (discover_segment_ordinals dir) dir (\<lambda>ordinals.
       if ordinals = [] then
         let (opened, dir) = open_wal dir (cwc_first_window_ordinal base) base (snd (next_io ios))
         in try_with opened dir (\<lambda>current.
              (Ok \<lparr>css_base_config = base, css_current_ordinal = cwc_first_window_ordinal base, css_current = current\<rparr>, dir))
       else
         let (opened, dir) = open_segments base ordinals (cwc_first_window_ordinal base) (cwc_recovered_cursor base) ios dir
         in try_with opened dir (\<lambda>(expected_ordinal, current).
            try_with (ok_or current CSE_MissingCurrentSegment) dir (\<lambda>current.
              (Ok \<lparr>css_base_config = base, css_current_ordinal = expected_ordinal, css_current = current\<rparr>, dir))))"

subsection \<open>Rotation ends\<close>

text \<open>No log reports a sealed window older than its first ordinal, whatever its bytes.\<close>

definition ordinals_from :: "u64 \<Rightarrow> CaptureWindowManifest option \<Rightarrow> CaptureWindowLedger \<Rightarrow> bool" where
  "ordinals_from k sealed l \<longleftrightarrow> k \<le> cl_next_window_ordinal l \<and> (\<forall>m. sealed = Some m \<longrightarrow> k \<le> cwm_window_ordinal m)"

lemma seal_some_ordinals: "seal_some l r = (Ok sealed, t) \<Longrightarrow> k \<le> cl_next_window_ordinal l \<Longrightarrow> ordinals_from k sealed t"
  by (cases "cl_open l"; cases "checked_add (cl_next_window_ordinal l) 1")
    (auto simp: seal_some_def seal_def Let_def ordinals_from_def checked_add_Some word_le_nat_alt)

lemma apply_ordinals:
  assumes "k \<le> cl_next_window_ordinal l"
  shows "apply_chunk l h c = (Ok sealed, t) \<Longrightarrow> ordinals_from k sealed t"
    "apply_gap l g = (Ok sealed, t) \<Longrightarrow> ordinals_from k sealed t"
    "apply_continuity_break l b = (Ok sealed, t) \<Longrightarrow> ordinals_from k sealed t"
    "finish l = (Ok sealed, t) \<Longrightarrow> ordinals_from k sealed t"
proof -
  show "apply_chunk l h c = (Ok sealed, t) \<Longrightarrow> ordinals_from k sealed t"
    using assms by (elim apply_chunk_window) (auto simp: ordinals_from_def grown_def dest!: seal_some_ordinals [where k = k])
  show "apply_gap l g = (Ok sealed, t) \<Longrightarrow> ordinals_from k sealed t"
    using assms by (auto simp: apply_gap_def Let_def result_iffs ordinals_from_def)
  show "apply_continuity_break l b = (Ok sealed, t) \<Longrightarrow> ordinals_from k sealed t"
    using assms by (auto simp: apply_continuity_break_def Let_def result_iffs ordinals_from_def)
  show "finish l = (Ok sealed, t) \<Longrightarrow> ordinals_from k sealed t"
    using assms by (auto simp: finish_def ordinals_from_def dest!: seal_some_ordinals [where k = k] split: if_splits)
qed

lemma replay_ordinals:
  assumes "replay_record l h e data c = Ok (sealed, t, d)" "k \<le> cl_next_window_ordinal l"
  shows "ordinals_from k sealed t" "cwr_last_sealed_window d = cwr_last_sealed_window c"
proof -
  have p: "(replay_plan l (plan_chunk l h x) = Ok (s, t)) = (apply_chunk l h x = (Ok s, t))"
    "(replay_plan l (plan_gap l g) = Ok (s, t)) = (apply_gap l g = (Ok s, t))"
    "(replay_plan l (plan_continuity_break l b) = Ok (s, t)) = (apply_continuity_break l b = (Ok s, t))" for x g b s
    by (simp_all add: plan_chunk_def plan_gap_def plan_continuity_break_def replay_plan_Ok)
  from assms(1) obtain r where "decode_record data h e = Ok r" by (auto simp: replay_record_def result_iffs)
  with assms(1) show "cwr_last_sealed_window d = cwr_last_sealed_window c"
    by (cases r) (auto simp: replay_record_def result_iffs)
  have "(fst (finish l) = Ok s \<and> t = snd (finish l)) \<longleftrightarrow> finish l = (Ok s, t)" for s by (cases "finish l") auto
  with assms \<open>decode_record data h e = Ok r\<close> show "ordinals_from k sealed t"
    by (cases r) (auto simp: replay_record_def result_iffs p intro: apply_ordinals)
qed

lemma recover_record_ordinals:
  assumes "recover_record config file l c offset = Ok (Some (t, d, stop))" "ordinals_from k (cwr_last_sealed_window c) l"
  shows "ordinals_from k (cwr_last_sealed_window d) t"
proof -
  from assms(1) obtain data sealed c' where r: "replay_record l (cwc_hardware_id config) (cwc_boot_epoch config) data c = Ok (sealed, t, c')"
    and d: "report_replayed (sealed, t, c') = Ok (t, d)"
    by (auto simp: recover_record_def Let_def result_iffs report_replayed_def split: if_splits)
  have "k \<le> cl_next_window_ordinal l" using assms(2) by (simp add: ordinals_from_def)
  note o = replay_ordinals [OF r this]
  with d assms(2) show ?thesis
    by (cases sealed) (auto simp: report_replayed_def result_iffs ordinals_from_def)
qed

lemma recover_from_ordinals:
  "recover_from config bs l c offset = Ok (t, d, stop) \<Longrightarrow> ordinals_from k (cwr_last_sealed_window c) l \<Longrightarrow>
     ordinals_from k (cwr_last_sealed_window d) t"
proof (induction config bs l c offset rule: recover_from.induct)
  case (1 config bs l c offset)
  show ?case
  proof (cases "offset < length bs")
    case True
    show ?thesis
    proof (cases "recover_record config bs l c offset")
      case (Ok found)
      with 1 True show ?thesis
        by (cases found) (auto simp: recover_from.simps [of config bs l] dest: recover_record_ordinals [where k = k] split: prod.splits)
    qed (use 1(2) True in \<open>simp_all add: recover_from.simps [of config bs l]\<close>)
  qed (use 1(2,3) in \<open>simp add: recover_from.simps [of config bs l]\<close>)
qed

lemma sink_open_ordinal:
  assumes "sink_open content config = Ok s" "cwr_last_sealed_window (ws_recovery s) = Some m"
  shows "cwc_first_window_ordinal config \<le> cwm_window_ordinal m"
proof -
  let ?k = "cwc_first_window_ordinal config"
  from assms(1) obtain bs t d n where r: "recover bs config = Ok (t, d, n)" and d: "ws_recovery s = d"
    by (auto simp: sink_open_def result_iffs split: if_splits)
  from r have "recover_from config bs (fst (log_start config)) (snd (log_start config)) FILE_HEADER_BYTES = Ok (t, d, n)"
    by (auto simp: recover_def result_iffs log_start_def split: if_splits)
  from recover_from_ordinals [OF this, of ?k] have "ordinals_from ?k (cwr_last_sealed_window d) t"
    by (simp add: log_start_def ordinals_from_def ledger_new_def recovery_default_def)
  with d assms(2) show ?thesis by (simp add: ordinals_from_def)
qed

lemma open_wal_sink:
  "open_wal dir ordinal config io = (Ok sink, dir') \<Longrightarrow> \<exists>content. sink_open content config = Ok sink"
  by (cases io) (auto simp: open_wal_def recover_wal_def Let_def result_iffs split: if_splits)

function rotate_if_needed ::
  "segment_io \<Rightarrow> CaptureSegmentStream \<Rightarrow> directory \<Rightarrow> (CaptureSegmentStream \<times> directory, unit, CaptureSegmentError) outcome" where
  "rotate_if_needed ios self dir =
     (let recovery = ws_recovery (css_current self) in
      if cwr_sealed_window_count recovery = 0 then (Ok (), self, dir)
      else if cwr_sealed_window_count recovery = 1 then
        (case cwr_last_sealed_window recovery of
           None \<Rightarrow> (Err CSE_MissingRecoveredManifest, self, dir)
         | Some manifest \<Rightarrow>
             (case validate_segment_manifest manifest (cwm_window_ordinal manifest) (cwm_first_cursor manifest)
                     (cwr_durable_cursor recovery) of
                Ok _ \<Rightarrow>
                  (case publish_manifest dir manifest (fst (next_io ios)) of
                     (Ok _, dir) \<Rightarrow>
                       (case checked_add (cwm_window_ordinal manifest) 1 of
                          None \<Rightarrow> (Err CSE_OrdinalOverflow, self, dir)
                        | Some next_ordinal \<Rightarrow>
                            (case open_wal dir next_ordinal
                                    (segment_config (css_base_config self) (cwm_end_exclusive manifest) next_ordinal)
                                    (snd (next_io ios)) of
                               (Ok sink, dir) \<Rightarrow>
                                 rotate_if_needed (tl ios)
                                   (self\<lparr>css_current := sink, css_current_ordinal := next_ordinal\<rparr>) dir
                             | (Err e, dir) \<Rightarrow> (Err e, self, dir)
                             | (Panic, dir) \<Rightarrow> (Panic, self, dir)))
                   | (Err e, dir) \<Rightarrow> (Err e, self, dir)
                   | (Panic, dir) \<Rightarrow> (Panic, self, dir))
              | Err e \<Rightarrow> (Err e, self, dir)
              | Panic \<Rightarrow> (Panic, self, dir)))
      else (Err (CSE_MultipleWindowsInSegment
                   (case cwr_last_sealed_window recovery of
                      None \<Rightarrow> cwc_first_window_ordinal (css_base_config self) | Some m \<Rightarrow> cwm_window_ordinal m)
                   (cwr_sealed_window_count recovery)), self, dir))"
  by pat_completeness auto

text \<open>Every turn opens a log of a higher ordinal, so the loop ends even on a directory that nothing is known of.\<close>

definition rotations_left :: "CaptureSegmentStream \<Rightarrow> nat" where
  "rotations_left self =
     (case cwr_last_sealed_window (ws_recovery (css_current self)) of
        None \<Rightarrow> 0 | Some m \<Rightarrow> 2 ^ 64 - unat (cwm_window_ordinal m))"

lemma rotation_advances:
  assumes "cwr_last_sealed_window (ws_recovery (css_current self)) = Some manifest"
    "checked_add (cwm_window_ordinal manifest) 1 = Some next_ordinal"
    "open_wal dir next_ordinal (segment_config base cursor next_ordinal) io = (Ok sink, dir')"
  shows "rotations_left (self\<lparr>css_current := sink, css_current_ordinal := next_ordinal\<rparr>) < rotations_left self"
proof -
  obtain content where "sink_open content (segment_config base cursor next_ordinal) = Ok sink"
    using open_wal_sink [OF assms(3)] by blast
  note o = sink_open_ordinal [OF this]
  have n: "unat next_ordinal = unat (cwm_window_ordinal manifest) + 1" using assms(2) by (simp add: checked_add_Some)
  show ?thesis
    using o n unat_u64_bound [of next_ordinal] unat_u64_bound [of "cwm_window_ordinal manifest"] assms(1)
    by (auto simp: rotations_left_def segment_config_def word_le_nat_alt split: option.splits)
qed

termination rotate_if_needed
  by (relation "measure (\<lambda>(ios, self, dir). rotations_left self)") (auto intro: rotation_advances dest!: sym [of "(_, _)"])

declare rotate_if_needed.simps [simp del]

subsection \<open>Operations\<close>

type_synonym stream_state = "CaptureSegmentStream \<times> directory"

text \<open>\<open>self.rotate_if_needed()?\<close>, and an operation of the current log, whose file is an entry of the directory.\<close>

definition after_rotation ::
  "segment_io \<Rightarrow> stream_state \<Rightarrow> (stream_state \<Rightarrow> (stream_state, 'a, CaptureSegmentError) outcome) \<Rightarrow>
     (stream_state, 'a, CaptureSegmentError) outcome" where
  "after_rotation ios st k =
     (let (rotated, st) = rotate_if_needed ios (fst st) (snd st) in try_with rotated st (\<lambda>_. k st))"

definition on_current ::
  "(CaptureWalSink \<Rightarrow> (CaptureWalSink, 'a, CaptureWalError) outcome) \<Rightarrow> stream_state \<Rightarrow>
     (stream_state, 'a, CaptureSegmentError) outcome" where
  "on_current f st =
     (let (self, dir) = st; (res, sink) = f (css_current self)
      in (map_err CSE_Wal res, self\<lparr>css_current := sink\<rparr>,
          AList.update (wal_path (css_current_ordinal self)) (wf_content (ws_file sink)) dir))"

definition stream_persist_chunk ::
  "stream_state \<Rightarrow> HardwareId \<Rightarrow> SampleChunk \<Rightarrow> segment_io \<Rightarrow> WriteOutcome \<Rightarrow> (stream_state, unit, CaptureSegmentError) outcome" where
  "stream_persist_chunk st hardware_id chunk ios io =
     after_rotation ios st (on_current (\<lambda>current. persist_chunk current hardware_id chunk io))"

definition stream_persist_gap ::
  "stream_state \<Rightarrow> Gap \<Rightarrow> segment_io \<Rightarrow> WriteOutcome \<Rightarrow> (stream_state, unit, CaptureSegmentError) outcome" where
  "stream_persist_gap st gap ios io = after_rotation ios st (on_current (\<lambda>current. persist_gap current gap io))"

definition stream_persist_continuity_break ::
  "stream_state \<Rightarrow> ContinuityBreak \<Rightarrow> segment_io \<Rightarrow> WriteOutcome \<Rightarrow> (stream_state, unit, CaptureSegmentError) outcome" where
  "stream_persist_continuity_break st observed ios io =
     after_rotation ios st (on_current (\<lambda>current. persist_continuity_break current observed io))"

definition stream_begin_batch ::
  "stream_state \<Rightarrow> segment_io \<Rightarrow> (stream_state, CaptureWalBatch, CaptureSegmentError) outcome" where
  "stream_begin_batch st ios =
     after_rotation ios st (\<lambda>st. (map_err CSE_Wal (begin_batch (css_current (fst st))), st))"

definition stream_commit_batch ::
  "stream_state \<Rightarrow> CaptureWalBatch \<Rightarrow> WriteOutcome \<Rightarrow> (stream_state, unit, CaptureSegmentError) outcome" where
  "stream_commit_batch st batch io = on_current (\<lambda>current. commit_batch current batch io) st"

definition stream_finish_window ::
  "stream_state \<Rightarrow> segment_io \<Rightarrow> WriteOutcome \<Rightarrow> PublishOutcome \<Rightarrow>
     (stream_state, CaptureWindowManifest option, CaptureSegmentError) outcome" where
  "stream_finish_window st ios io publishing =
     after_rotation ios st (\<lambda>st.
       let (finished, st) = on_current (\<lambda>current. finish_window current io) st in
       try_with finished st (\<lambda>manifest.
         case manifest of
           None \<Rightarrow> (Ok None, st)
         | Some value \<Rightarrow>
             let (published, dir) = publish_manifest (snd st) value publishing
             in try_with published (fst st, dir) (\<lambda>_. (Ok (Some value), fst st, dir))))"

section \<open>Validation of a sealed segment\<close>

definition segment_replay ::
  "HardwareId \<Rightarrow> CaptureWindowLedger \<Rightarrow> CaptureRecord \<Rightarrow>
     (CaptureWindowLedger, CaptureWindowManifest option, CaptureWindowError) outcome" where
  "segment_replay hardware_id ledger r =
     (case r of
        CRec_SampleChunk chunk \<Rightarrow> planned_commit ledger (plan_chunk ledger hardware_id chunk)
      | CRec_Gap gap \<Rightarrow> planned_commit ledger (plan_gap ledger gap)
      | CRec_ContinuityBreak observed \<Rightarrow> planned_commit ledger (plan_continuity_break ledger observed)
      | CRec_WindowSeal \<Rightarrow> finish ledger)"

function validate_records ::
  "CaptureWalReader \<Rightarrow> CaptureWindowLedger \<Rightarrow> CaptureWindowManifest option \<Rightarrow> u64 \<Rightarrow>
     (CaptureWindowManifest option \<times> u64, CaptureSegmentError) result" where
  "validate_records reader ledger reconstructed record_count =
     (case next_record reader of
        (Ok (Some r), reader') \<Rightarrow>
          if reconstructed \<noteq> None then Err CSE_RecordAfterSeal
          else (case checked_add record_count 1 of
              None \<Rightarrow> Err CSE_CounterOverflow
            | Some record_count \<Rightarrow>
                (case segment_replay (cwh_hardware_id (rd_header reader)) ledger r of
                   (Ok sealed, ledger) \<Rightarrow> validate_records reader' ledger sealed record_count
                 | (Err e, _) \<Rightarrow> Err (CSE_Window e)
                 | (Panic, _) \<Rightarrow> Panic))
      | (Ok None, _) \<Rightarrow> Ok (reconstructed, record_count)
      | (Err e, _) \<Rightarrow> Err (CSE_Wal e)
      | (Panic, _) \<Rightarrow> Panic)"
  by pat_completeness auto
termination
  by (relation "measure (\<lambda>(rd, l, m, n). length (rd_file rd) - rd_offset rd)") (auto dest!: next_record_advances [OF sym])

declare validate_records.simps [simp del]

record CaptureSegmentValidation =
  csv_manifest :: CaptureWindowManifest
  csv_record_count :: u64

definition validate_capture_segment ::
  "bytes \<Rightarrow> bytes \<Rightarrow> (CaptureSegmentValidation, CaptureSegmentError) result" where
  "validate_capture_segment wal manifest_content =
     and_then (read_capture_manifest manifest_content) (\<lambda>manifest.
     and_then (map_err CSE_Wal (reader_open wal)) (\<lambda>reader.
     let header = rd_header reader in
     if cwh_hardware_id header \<noteq> cwm_hardware_id manifest \<or> cwh_boot_epoch header \<noteq> cwm_boot_epoch manifest \<or>
        cwh_first_cursor header \<noteq> cwm_first_cursor manifest \<or>
        cwh_first_window_ordinal header \<noteq> cwm_window_ordinal manifest
     then Err CSE_WalManifestIdentityMismatch
     else and_then (validate_records reader
            (ledger_new (cwh_window_policy header) (cwh_hardware_id header) (cwh_boot_epoch header)
               (cwh_first_cursor header) (cwh_first_window_ordinal header)) None 0) (\<lambda>(reconstructed, record_count).
          and_then (ok_or reconstructed CSE_MissingSeal) (\<lambda>reconstructed.
            if reconstructed \<noteq> manifest then Err CSE_ManifestDoesNotMatchWal
            else Ok \<lparr>csv_manifest = manifest, csv_record_count = record_count\<rparr>))))"

end
