(* ===== verification/Capture_Stream.thy ===== *)
theory Capture_Stream
  imports Capture_Segments
begin

text \<open>
  The invariant of \<open>CaptureSegmentStream\<close> over its directory, and that every operation keeps it, whatever of its input and
  output fails.
\<close>

section \<open>A log of one window\<close>

text \<open>A log that has not sealed its window, and one of which only the last record may seal it.\<close>

definition quiet :: "CaptureWalConfig \<Rightarrow> CaptureRecord list \<Rightarrow> bool" where
  "quiet config rs \<longleftrightarrow> (\<exists>l c. wal_fold (log_start config) rs = Some (l, c) \<and> cwr_sealed_window_count c = 0)"

definition one_window :: "CaptureWalConfig \<Rightarrow> CaptureRecord list \<Rightarrow> bool" where
  "one_window config rs \<longleftrightarrow> wal_fold (log_start config) rs \<noteq> None \<and> (\<forall>k<length rs. quiet config (take k rs))"

definition seals_as :: "CaptureWalConfig \<Rightarrow> CaptureRecord list \<Rightarrow> CaptureWindowManifest \<Rightarrow> bool" where
  "seals_as config rs m \<longleftrightarrow>
     (\<exists>l c. wal_fold (log_start config) rs = Some (l, c) \<and> cwr_sealed_window_count c = 1 \<and>
       cwr_last_sealed_window c = Some m \<and> cwr_durable_cursor c = cwm_end_exclusive m) \<and>
     cwm_hardware_id m = cwc_hardware_id config \<and> cwm_boot_epoch m = cwc_boot_epoch config \<and>
     cwm_first_cursor m = cwc_recovered_cursor config \<and> cwm_window_ordinal m = cwc_first_window_ordinal config \<and>
     manifest_contract m"

lemma staged_recovery_sealed:
  "staged_recovery c t k None = Ok d \<Longrightarrow> cwr_sealed_window_count d = cwr_sealed_window_count c \<and>
     cwr_last_sealed_window d = cwr_last_sealed_window c"
  "staged_recovery c t k (Some m) = Ok d \<Longrightarrow> unat (cwr_sealed_window_count d) = unat (cwr_sealed_window_count c) + 1 \<and>
     cwr_last_sealed_window d = Some m"
  by (auto simp: staged_recovery_def result_iffs Let_def checked_add_Some)

lemma seal_some_open: "seal_some l r = (Ok sealed, t) \<Longrightarrow> cl_open t = None"
  by (cases "cl_open l"; cases "checked_add (cl_next_window_ordinal l) 1") (auto simp: seal_some_def seal_def Let_def)

lemma append_sealed_open:
  assumes "ledger_append l r = (Ok (Some m), t)"
  shows "cl_open t = None"
proof (cases r)
  case (CRec_SampleChunk c)
  with assms have "apply_chunk l (cl_hardware_id l) c = (Ok (Some m), t)" by (simp add: plan_chunk_def planned_commit_Ok)
  then show ?thesis by (rule apply_chunk_window) (auto dest: seal_some_open)
next
  case (CRec_Gap g)
  with assms show ?thesis by (auto simp: plan_gap_def planned_commit_Ok apply_gap_def Let_def result_iffs)
next
  case (CRec_ContinuityBreak b)
  with assms show ?thesis
    by (auto simp: plan_continuity_break_def planned_commit_Ok apply_continuity_break_def Let_def result_iffs)
next
  case CRec_WindowSeal
  with assms have "finish l = (Ok (Some m), t)" by (auto split: prod.splits result.splits)
  then show ?thesis by (auto simp: finish_def dest: seal_some_open split: if_splits)
qed

text \<open>The ledger a log builds, and where its window starts while it is not sealed.\<close>

definition log_ledger_ok :: "CaptureWalConfig \<Rightarrow> log_state \<Rightarrow> bool" where
  "log_ledger_ok config st \<longleftrightarrow>
     ledger_ok (fst st) \<and> open_samples (fst st) \<and> cl_hardware_id (fst st) = cwc_hardware_id config \<and>
     cl_boot_epoch (fst st) = cwc_boot_epoch config \<and>
     (cwr_sealed_window_count (snd st) = 0 \<longrightarrow>
        window_start (fst st) = cwc_recovered_cursor config \<and>
        cl_next_window_ordinal (fst st) = cwc_first_window_ordinal config)"

lemma wal_apply_ledger_ok:
  assumes "log_ledger_ok config st" "cwc_boot_epoch config \<noteq> 0" "record_ok r" "wal_apply st r = Some (t, d)"
  shows "log_ledger_ok config (t, d)"
proof -
  obtain l c where st: "st = (l, c)" by (cases st)
  from assms(4) obtain sealed where a: "ledger_append l r = (Ok sealed, t)" and s: "staged_recovery c t (counters_of r) sealed = Ok d"
    by (auto simp: st wal_apply_Some)
  have l: "ledger_ok l" "open_samples l" "cl_boot_epoch l \<noteq> 0" using assms(1,2) by (auto simp: st log_ledger_ok_def)
  have adv: "advances l r sealed t" using ledger_append_result [OF l(1) assms(3)] by (simp add: a append_result_def)
  have k: "contract_kept sealed t" by (rule append_contract [OF l assms(3) a])
  show ?thesis
  proof (cases sealed)
    case None
    with s staged_recovery_sealed(1) have "cwr_sealed_window_count d = cwr_sealed_window_count c" by auto
    with adv None k assms(1) show ?thesis
      by (auto simp: st log_ledger_ok_def advances_def extends_window_def same_stream_def contract_kept_def)
  next
    case (Some m)
    with s staged_recovery_sealed(2) have "cwr_sealed_window_count d \<noteq> 0" by (force simp: unat_eq_iff)
    with adv k assms(1) show ?thesis
      by (auto simp: st log_ledger_ok_def advances_def same_stream_def contract_kept_def)
  qed
qed

lemma log_start_ledger_ok: "log_ledger_ok config (log_start config)"
  by (simp add: log_ledger_ok_def log_start_def ledger_new_def ledger_ok_def open_samples_def window_start_def)

lemma wal_fold_ledger_ok:
  "wal_fold st rs = Some st' \<Longrightarrow> log_ledger_ok config st \<Longrightarrow> cwc_boot_epoch config \<noteq> 0 \<Longrightarrow> list_all record_ok rs \<Longrightarrow>
     log_ledger_ok config st'"
proof (induction rs arbitrary: st)
  case (Cons r rs)
  then show ?case by (auto simp: bind_eq_Some_conv intro: wal_apply_ledger_ok)
qed simp

lemma quiet_snoc:
  assumes "quiet config rs" "list_all record_ok (rs @ [r])" "cwc_boot_epoch config \<noteq> 0"
    "wal_fold (log_start config) (rs @ [r]) = Some st"
  shows "quiet config (rs @ [r]) \<or> (\<exists>m. seals_as config (rs @ [r]) m)"
proof -
  from assms(1) obtain l c where q: "wal_fold (log_start config) rs = Some (l, c)" "cwr_sealed_window_count c = 0"
    by (auto simp: quiet_def)
  with assms(4) obtain t d where st: "st = (t, d)" and w: "wal_apply (l, c) r = Some (t, d)"
    by (cases st) (auto simp: wal_fold_append bind_eq_Some_conv)
  from w obtain sealed where a: "ledger_append l r = (Ok sealed, t)" and s: "staged_recovery c t (counters_of r) sealed = Ok d"
    by (auto simp: wal_apply_Some)
  have lk: "log_ledger_ok config (l, c)" using q(1) log_start_ledger_ok assms(2,3) by (auto intro: wal_fold_ledger_ok)
  then have l: "ledger_ok l" "open_samples l" "cl_boot_epoch l \<noteq> 0" using assms(3) by (auto simp: log_ledger_ok_def)
  have ok: "record_ok r" using assms(2) by simp
  show ?thesis
  proof (cases sealed)
    case None
    with s staged_recovery_sealed(1) have "cwr_sealed_window_count d = cwr_sealed_window_count c" by auto
    with q(2) assms(4) st show ?thesis by (auto simp: quiet_def)
  next
    case (Some m)
    have adv: "seals_window l m t" using ledger_append_result [OF l(1) ok] by (simp add: a append_result_def advances_def Some)
    have "unat (cwr_sealed_window_count d) = 1" "cwr_last_sealed_window d = Some m"
      using s staged_recovery_sealed(2) q(2) by (auto simp: Some)
    moreover have "cwr_durable_cursor d = cl_next_cursor t" using staged_recovery_counts [OF s] by simp
    moreover have "window_start t = cl_next_cursor t" using append_sealed_open a by (simp add: Some window_start_def)
    moreover have "manifest_contract m" using append_contract [OF l ok a] by (simp add: contract_kept_def Some)
    ultimately have "seals_as config (rs @ [r]) m"
      using adv lk q(2) assms(4) by (auto simp: seals_as_def st seals_window_def log_ledger_ok_def unat_eq_iff)
    then show ?thesis by blast
  qed
qed

lemma one_window_cases:
  assumes "one_window config rs" "list_all record_ok rs" "cwc_boot_epoch config \<noteq> 0"
  shows "quiet config rs \<or> (\<exists>m. seals_as config rs m)"
proof (cases rs rule: rev_cases)
  case Nil
  then show ?thesis by (simp add: quiet_def log_start_def recovery_default_def)
next
  case (snoc xs r)
  with assms(1) have "quiet config xs" by (auto simp: one_window_def dest!: spec [of _ "length xs"])
  with snoc assms quiet_snoc [of config xs r] show ?thesis by (auto simp: one_window_def)
qed

lemma seals_as_not_quiet: "seals_as config rs m \<Longrightarrow> \<not> quiet config rs"
  by (auto simp: seals_as_def quiet_def)

lemma seals_as_unique: "seals_as config rs m \<Longrightarrow> seals_as config rs m' \<Longrightarrow> m = m'"
  by (auto simp: seals_as_def)

section \<open>A batch seals with its last record\<close>

definition quiet_from :: "log_state \<Rightarrow> CaptureRecord list \<Rightarrow> bool" where
  "quiet_from st rs \<longleftrightarrow> (\<exists>l c. wal_fold st rs = Some (l, c) \<and> cwr_sealed_window_count c = 0)"

lemma stage_sealed:
  assumes "stage b x = (Ok v, b')"
  shows "\<not> wb_sealed b"
    "cwr_sealed_window_count (wb_recovery b) = 0 \<Longrightarrow> wb_sealed b' \<longleftrightarrow> cwr_sealed_window_count (wb_recovery b') \<noteq> 0"
proof -
  from assms obtain bs plan k where nb: "\<not> wb_sealed b" and p: "stage_planned b bs plan k = (Ok v, b')"
    by (cases x) (auto simp: stage_chunk_def stage_gap_def stage_continuity_break_def ensure_open_window_def result_iffs
        split: if_splits)
  show "\<not> wb_sealed b" by (fact nb)
  from p obtain t sealed where s: "staged_recovery (wb_recovery b) t k sealed = Ok (wb_recovery b')" "wb_sealed b' \<longleftrightarrow> sealed \<noteq> None"
    by (cases "ledger_commit (wb_ledger b) plan") (auto simp: stage_planned_def result_iffs)
  assume z: "cwr_sealed_window_count (wb_recovery b) = 0"
  show "wb_sealed b' \<longleftrightarrow> cwr_sealed_window_count (wb_recovery b') \<noteq> 0"
    using s z staged_recovery_sealed(1) [of "wb_recovery b" t k "wb_recovery b'"]
      staged_recovery_sealed(2) [of "wb_recovery b" t k _ "wb_recovery b'"]
    by (cases sealed) (auto simp: unat_eq_iff)
qed

lemma stage_all_quiet:
  "batch_of s rs b \<Longrightarrow> (wb_sealed b \<longleftrightarrow> cwr_sealed_window_count (wb_recovery b) \<noteq> 0) \<Longrightarrow>
   (\<forall>k<length rs. quiet_from (ws_ledger s, ws_recovery s) (take k rs)) \<Longrightarrow> stage_all b xs = (qs, b') \<Longrightarrow>
   \<forall>k<length (rs @ qs). quiet_from (ws_ledger s, ws_recovery s) (take k (rs @ qs))"
proof (induction xs arbitrary: rs b qs)
  case (Cons x xs)
  obtain res b1 where st: "stage b x = (res, b1)" by (cases "stage b x")
  show ?case
  proof (cases res)
    case (Ok v)
    note q = stage_sealed [OF st [unfolded Ok]]
    have z: "cwr_sealed_window_count (wb_recovery b) = 0" using q(1) Cons.prems(2) by simp
    have b1: "batch_of s (rs @ [staged_as x]) b1" using stage_outcome [OF st] Ok Cons.prems(1) by (auto intro: batch_of_staged)
    have "quiet_from (ws_ledger s, ws_recovery s) rs" using Cons.prems(1) z by (auto simp: quiet_from_def batch_of_def)
    then have n: "\<forall>k<length (rs @ [staged_as x]). quiet_from (ws_ledger s, ws_recovery s) (take k (rs @ [staged_as x]))"
      using Cons.prems(3) by (auto simp: less_Suc_eq)
    obtain rest where "stage_all b1 xs = (rest, b')" "qs = staged_as x # rest"
      using Cons.prems(4) st Ok by (auto split: prod.splits)
    with Cons.IH [OF b1 q(2) [OF z] n] show ?thesis by simp
  next
    case (Err e)
    with st stage_outcome [OF st] Cons.prems show ?thesis by (intro Cons.IH [of rs b qs]) auto
  next
    case Panic
    with st stage_outcome [OF st] Cons.prems show ?thesis by (intro Cons.IH [of rs b qs]) auto
  qed
qed simp

lemma report_of_sealed [simp]:
  "cwr_sealed_window_count (report_of c) = cwr_sealed_window_count c" "cwr_last_sealed_window (report_of c) = cwr_last_sealed_window c"
  "cwr_durable_cursor (report_of c) = cwr_durable_cursor c"
  by (simp_all add: report_of_def)

lemma quiet_from_report: "quiet_from (l, c) rs \<Longrightarrow> quiet_from (l, report_of c) rs"
  unfolding quiet_from_def by (metis report_of_sealed wal_fold_report)

lemma quiet_append:
  assumes "sink_ok config rs ps s" "quiet_from (ws_ledger s, ws_recovery s) qs"
  shows "quiet config (rs @ qs)"
  using assms quiet_from_report [OF assms(2)] by (auto simp: sink_ok_def quiet_def quiet_from_def wal_fold_append)

lemma sink_quiet: "sink_ok config rs ps s \<Longrightarrow> quiet config rs \<longleftrightarrow> cwr_sealed_window_count (ws_recovery s) = 0"
  by (auto simp: sink_ok_def quiet_def)

text \<open>What an operation writes after a log that has not sealed its window is still one window.\<close>

lemma attempted_one_window:
  assumes "sink_ok config rs [] s" "quiet config rs" "one_window config rs" "\<not> ws_poisoned s"
    "wal_fold (log_start config) (rs @ attempted s op) \<noteq> None"
  shows "one_window config (rs @ attempted s op)"
proof -
  have p: "quiet config (take k (rs @ qs))" if "k < length (rs @ qs)" "\<And>j. j < length qs \<Longrightarrow> quiet config (rs @ take j qs)" for k qs
  proof (cases "k < length rs")
    case True
    with assms(3) show ?thesis by (simp add: one_window_def)
  next
    case False
    with that(1) that(2) [of "k - length rs"] show ?thesis by simp
  qed
  have "quiet config (rs @ take j (attempted s op))" if j: "j < length (attempted s op)" for j
  proof (cases op)
    case (WOp_Batch xs io)
    obtain b where b: "begin_batch s = Ok b" using assms(4) by (auto simp: begin_batch_cases)
    obtain qs b' where a: "stage_all b xs = (qs, b')" by (cases "stage_all b xs")
    have "wb_sealed b \<longleftrightarrow> cwr_sealed_window_count (wb_recovery b) \<noteq> 0"
      using b assms(1,2,4) by (auto simp: begin_batch_cases sink_quiet)
    from stage_all_quiet [OF begin_batch_of [OF b] this _ a] have "\<forall>k<length qs. quiet_from (ws_ledger s, ws_recovery s) (take k qs)"
      by simp
    with j a b show ?thesis by (auto simp: WOp_Batch intro!: quiet_append [OF assms(1)])
  next
    case (WOp_Persist x io)
    with j assms(2) show ?thesis by simp
  next
    case (WOp_Finish io)
    with j assms(2) show ?thesis by (simp split: if_splits)
  next
    case (WOp_Crash n)
    with j show ?thesis by simp
  qed
  with p [of _ "attempted s op"] assms(5) show ?thesis by (auto simp: one_window_def)
qed

section \<open>What a directory holds\<close>

text \<open>Exactly the logs \<open>wals\<close>, and manifests only of sealed windows \<open>mans\<close>; other names do not matter.\<close>

definition dir_holds :: "(u64 \<times> bytes) list \<Rightarrow> (u64 \<times> CaptureWindowManifest) list \<Rightarrow> directory \<Rightarrow> bool" where
  "dir_holds wals mans dir \<longleftrightarrow> distinct (map fst dir) \<and> clean_names dir \<and>
     (\<forall>ordinal. map_of dir (wal_path ordinal) = map_of wals ordinal) \<and>
     (\<forall>ordinal content. map_of dir (manifest_path ordinal) = Some content \<longrightarrow>
        (\<exists>m. map_of mans ordinal = Some m \<and> content = manifest_bytes m))"

definition published :: "(u64 \<times> CaptureWindowManifest) list \<Rightarrow> directory \<Rightarrow> bool" where
  "published mans dir \<longleftrightarrow> list_all (\<lambda>(ordinal, m). map_of dir (manifest_path ordinal) = Some (manifest_bytes m)) mans"

lemma clean_names_iff: "clean_names dir \<longleftrightarrow> (\<forall>name\<in>fst ` set dir. segment_ordinal name \<noteq> Err CSE_InvalidSegmentName)"
  by (auto simp: clean_names_def list_all_iff)

lemma clean_update: "clean_names dir \<Longrightarrow> segment_ordinal name = Ok v \<Longrightarrow> clean_names (AList.update name content dir)"
  by (simp add: clean_names_iff dom_update)

lemma clean_delete: "clean_names dir \<Longrightarrow> clean_names (AList.delete name dir)"
  by (auto simp: clean_names_def list_all_iff AList.delete_eq)

lemma update_same: "map_of dir name = Some content \<Longrightarrow> AList.update name content dir = dir"
  by (induction dir) auto

lemmas alist_simps = update_conv' delete_conv' distinct_update distinct_delete

lemma dir_holds_cong:
  "dir_holds wals mans dir \<Longrightarrow> (\<And>ordinal. map_of wals ordinal = map_of wals' ordinal) \<Longrightarrow>
     (\<And>ordinal m. map_of mans ordinal = Some m \<Longrightarrow> map_of mans' ordinal = Some m) \<Longrightarrow> dir_holds wals' mans' dir"
  by (fastforce simp: dir_holds_def)

lemma holds_update_wal:
  "dir_holds wals mans dir \<Longrightarrow> dir_holds ((ordinal, content) # wals) mans (AList.update (wal_path ordinal) content dir)"
  by (auto simp: dir_holds_def alist_simps clean_update [OF _ segment_ordinal_Some [THEN iffD2, OF refl]])

lemma holds_temporary:
  "dir_holds wals mans dir \<Longrightarrow> dir_holds wals mans (AList.update (temporary_path ordinal) content dir)"
  "dir_holds wals mans dir \<Longrightarrow> dir_holds wals mans (AList.delete (temporary_path ordinal) dir)"
  by (auto simp: dir_holds_def alist_simps clean_update [OF _ other_paths_ignored(2)] clean_delete)

lemma holds_manifest:
  "dir_holds wals mans dir \<Longrightarrow> map_of mans ordinal = Some m \<Longrightarrow>
     dir_holds wals mans (AList.update (manifest_path ordinal) (manifest_bytes m) dir)"
  by (auto simp: dir_holds_def alist_simps clean_update [OF _ other_paths_ignored(1)])

lemma holds_manifestD:
  "dir_holds wals mans dir \<Longrightarrow> map_of dir (manifest_path ordinal) = Some content \<Longrightarrow> map_of mans ordinal = Some m \<Longrightarrow>
     content = manifest_bytes m"
  unfolding dir_holds_def by (metis option.inject)

lemma publish_manifest_result:
  assumes "dir_holds wals mans dir" "map_of mans (cwm_window_ordinal m) = Some m" "manifest_contract m"
    "publish_manifest dir m io = (res, dir')"
  shows "dir_holds wals mans dir'" "res = Ok () \<or> io \<noteq> PO_Ok \<and> res = Err CSE_Io"
    "res = Ok () \<Longrightarrow> map_of dir' (manifest_path (cwm_window_ordinal m)) = Some (manifest_bytes m)"
    "map_of dir (manifest_path ordinal) = Some content \<Longrightarrow> map_of dir' (manifest_path ordinal) = Some content"
proof -
  let ?dest = "manifest_path (cwm_window_ordinal m)"
  have r: "(res, dir') = (Ok (), dir)" if "map_of dir ?dest = Some c" for c
  proof -
    have "c = manifest_bytes m" by (rule holds_manifestD [OF assms(1) that assms(2)])
    then have "read_capture_manifest c = Ok m" using assms(3) by (simp add: read_manifest_iff)
    with that assms(4) show ?thesis by (simp add: publish_manifest_def Let_def)
  qed
  let ?moved = "AList.update ?dest (manifest_bytes m) (AList.delete (temporary_path (cwm_window_ordinal m)) dir)"
  have h: "dir_holds wals mans ?moved"
    by (rule holds_manifest [OF holds_temporary(2) [OF assms(1)] assms(2)])
  have k: "map_of ?moved (manifest_path ordinal) = Some content" if "map_of dir (manifest_path ordinal) = Some content" "map_of dir ?dest = None"
    using that by (auto simp: alist_simps)
  have "dir_holds wals mans dir' \<and> (res = Ok () \<or> io \<noteq> PO_Ok \<and> res = Err CSE_Io) \<and>
    (res = Ok () \<longrightarrow> map_of dir' ?dest = Some (manifest_bytes m)) \<and>
    (map_of dir (manifest_path ordinal) = Some content \<longrightarrow> map_of dir' (manifest_path ordinal) = Some content)"
  proof (cases "map_of dir ?dest")
    case None
    with assms(1,4) h k holds_temporary(1) [OF assms(1)] show ?thesis
      by (cases io) (auto simp: publish_manifest_def Let_def encode_manifest_bytes update_conv' delete_conv' simp del: map_of_eq_Some_iff)
  next
    case (Some c)
    with r [OF Some] assms(1) holds_manifestD [OF assms(1) Some assms(2)] show ?thesis by simp
  qed
  then show "dir_holds wals mans dir'" "res = Ok () \<or> io \<noteq> PO_Ok \<and> res = Err CSE_Io"
    "res = Ok () \<Longrightarrow> map_of dir' ?dest = Some (manifest_bytes m)"
    "map_of dir (manifest_path ordinal) = Some content \<Longrightarrow> map_of dir' (manifest_path ordinal) = Some content"
    by blast+
qed

section \<open>The chain of sealed segments\<close>

definition sealed_segment :: "CaptureWalConfig \<Rightarrow> CaptureRecord list \<Rightarrow> CaptureWindowManifest \<Rightarrow> bool" where
  "sealed_segment config rs m \<longleftrightarrow> list_all record_ok rs \<and> seals_as config rs m \<and> one_window config rs \<and>
     length (header_bytes config @ log_bytes rs) < 2 ^ 63"

definition next_config :: "CaptureWalConfig \<Rightarrow> CaptureWindowManifest \<Rightarrow> CaptureWalConfig" where
  "next_config config m = segment_config config (cwm_end_exclusive m) (cwc_first_window_ordinal config + 1)"

type_synonym segments = "(CaptureRecord list \<times> CaptureWindowManifest) list"

text \<open>The configuration of the log behind a list of sealed ones that each start where the one before ended.\<close>

fun chain :: "CaptureWalConfig \<Rightarrow> segments \<Rightarrow> CaptureWalConfig option" where
  "chain config [] = Some config"
| "chain config ((rs, m) # segs) =
     (if sealed_segment config rs m \<and> unat (cwc_first_window_ordinal config) + 1 < 2 ^ 64
      then chain (next_config config m) segs else None)"

fun seg_files :: "CaptureWalConfig \<Rightarrow> segments \<Rightarrow> (u64 \<times> bytes) list" where
  "seg_files config [] = []"
| "seg_files config ((rs, m) # segs) =
     (cwc_first_window_ordinal config, header_bytes config @ log_bytes rs) # seg_files (next_config config m) segs"

definition seg_mans :: "segments \<Rightarrow> (u64 \<times> CaptureWindowManifest) list" where
  "seg_mans segs = map (\<lambda>(rs, m). (cwm_window_ordinal m, m)) segs"

definition seg_log :: "segments \<Rightarrow> CaptureRecord list" where
  "seg_log segs = concat (map fst segs)"

lemma next_config_fields [simp]:
  "cwc_hardware_id (next_config config m) = cwc_hardware_id config" "cwc_boot_epoch (next_config config m) = cwc_boot_epoch config"
  "cwc_window_policy (next_config config m) = cwc_window_policy config"
  "cwc_recovered_cursor (next_config config m) = cwm_end_exclusive m"
  "cwc_first_window_ordinal (next_config config m) = cwc_first_window_ordinal config + 1"
  by (simp_all add: next_config_def segment_config_def)

lemma config_ok_next [simp]: "config_ok (next_config config m) \<longleftrightarrow> config_ok config"
  by (simp add: config_ok_def)

lemma segment_config_segment [simp]: "segment_config (segment_config base c k) c' k' = segment_config base c' k'"
  by (simp add: segment_config_def)

lemma segment_config_next [simp]: "segment_config (next_config config m) c k = segment_config config c k"
  by (simp add: next_config_def)

lemma segment_config_self [simp]: "segment_config base (cwc_recovered_cursor base) (cwc_first_window_ordinal base) = base"
  by (simp add: segment_config_def)

lemma unat_succ: "unat (x :: u64) + 1 < 2 ^ 64 \<Longrightarrow> unat (x + 1) = unat x + 1"
  by (simp add: unat_word_ariths)

lemma chain_append: "chain config (xs @ ys) = Option.bind (chain config xs) (\<lambda>config. chain config ys)"
  by (induction config xs rule: chain.induct) simp_all

lemma seg_files_append:
  "chain config xs = Some config' \<Longrightarrow> seg_files config (xs @ ys) = seg_files config xs @ seg_files config' ys"
  by (induction config xs rule: chain.induct) (auto split: if_splits)

lemma seg_mans_append [simp]: "seg_mans (xs @ ys) = seg_mans xs @ seg_mans ys"
  by (simp add: seg_mans_def)

lemma seg_log_simps [simp]: "seg_log [] = []" "seg_log (xs @ ys) = seg_log xs @ seg_log ys" "seg_log [(rs, m)] = rs"
  by (simp_all add: seg_log_def)

lemma chain_ordinal:
  "chain base segs = Some config \<Longrightarrow> unat (cwc_first_window_ordinal config) = unat (cwc_first_window_ordinal base) + length segs"
  by (induction base segs rule: chain.induct) (auto simp: unat_succ split: if_splits)

lemma chain_config:
  assumes "chain base segs = Some config"
  shows "config_ok config \<longleftrightarrow> config_ok base" "segment_config config c k = segment_config base c k"
  using assms by (induction base segs rule: chain.induct) (auto split: if_splits)

lemma seg_files_ordinals:
  "chain base segs = Some config \<Longrightarrow>
     map unat (map fst (seg_files base segs)) = [unat (cwc_first_window_ordinal base)..<unat (cwc_first_window_ordinal config)]"
proof (induction base segs rule: chain.induct)
  case (2 base rs m segs)
  then have h: "unat (cwc_first_window_ordinal base) + 1 < 2 ^ 64" "chain (next_config base m) segs = Some config"
    "map unat (map fst (seg_files (next_config base m) segs)) =
       [unat (cwc_first_window_ordinal base + 1)..<unat (cwc_first_window_ordinal config)]"
    by (auto split: if_splits)
  then have "unat (cwc_first_window_ordinal base) < unat (cwc_first_window_ordinal config)"
    using chain_ordinal [OF h(2)] by (simp add: unat_succ)
  with h show ?case by (simp add: unat_succ upt_conv_Cons)
qed simp

lemma seg_mans_ordinals: "chain base segs = Some config \<Longrightarrow> map fst (seg_mans segs) = map fst (seg_files base segs)"
proof (induction base segs rule: chain.induct)
  case (2 base rs m segs)
  then show ?case by (auto simp: seg_mans_def sealed_segment_def seals_as_def split: if_splits)
qed (simp add: seg_mans_def)

text \<open>Keys in order are what discovery returns.\<close>

lemma discover_holds:
  assumes "dir_holds wals mans dir" "map unat (map fst wals) = [i..<j]"
  shows "discover_segment_ordinals dir = Ok (map fst wals)"
proof -
  have "distinct (map unat (map fst wals))" "sorted (map unat (map fst wals))" by (simp_all only: assms(2) distinct_upt sorted_upt)
  then have "distinct (map fst wals)" "sorted (map fst wals)"
    using distinct_map [of unat "map fst wals"] by (blast, simp add: sorted_map word_le_nat_alt)
  then have "sorted_list_of_set (set (map fst wals)) = map fst wals"
    by (simp add: sorted_list_of_set.idem_if_sorted_distinct del: set_map)
  moreover have "{ordinal. map_of dir (wal_path ordinal) \<noteq> None} = set (map fst wals)"
    using assms(1) by (simp add: dir_holds_def map_of_eq_None_iff)
  ultimately show ?thesis using assms(1) by (simp add: discover_Ok dir_holds_def)
qed

section \<open>Opening the logs\<close>

lemma fold_report: "wal_fold (log_start config) rs = Some (t, d) \<Longrightarrow> report_of d = d"
proof -
  assume f: "wal_fold (log_start config) rs = Some (t, d)"
  then have "wal_fold (fst (log_start config), report_of (snd (log_start config))) rs = Some (t, report_of d)"
    by (intro wal_fold_report) simp
  moreover have "(fst (log_start config), report_of (snd (log_start config))) = log_start config"
    by (simp add: log_start_def report_of_def recovery_default_def)
  ultimately show ?thesis using f by simp
qed

lemma log_opens:
  assumes "config_ok config" "list_all record_ok rs" "wal_fold (log_start config) rs \<noteq> None"
    "length (header_bytes config @ log_bytes rs) < 2 ^ 63"
  shows "\<exists>s. sink_open (header_bytes config @ log_bytes rs) config = Ok s \<and> sink_ok config rs [] s \<and> \<not> ws_poisoned s \<and>
    wf_content (ws_file s) = header_bytes config @ log_bytes rs"
proof -
  obtain t d where f: "wal_fold (log_start config) rs = Some (t, d)" using assms(3) by auto
  let ?s = "\<lparr>ws_file = \<lparr>wf_content = header_bytes config @ log_bytes rs, wf_position = 64 + length (log_bytes rs)\<rparr>,
    ws_hardware_id = cwc_hardware_id config, ws_boot_epoch = cwc_boot_epoch config, ws_ledger = t, ws_recovery = d,
    ws_durable_len = 64 + length (log_bytes rs), ws_poisoned = False\<rparr>"
  have "sink_ok config rs [] ?s" using assms f fold_report [OF f] by (simp add: sink_ok_def)
  from reopen [OF assms(1) this, of 0] obtain s where s: "sink_open (header_bytes config @ log_bytes rs) config = Ok s"
    "sink_ok config rs [] s" "\<not> ws_poisoned s" by auto
  moreover have "wf_content (ws_file s) = header_bytes config @ log_bytes rs" using s(2) by (auto simp: sink_ok_def)
  ultimately show ?thesis by blast
qed

lemma header_not_empty [simp]: "header_bytes config \<noteq> []" "header_bytes config @ xs \<noteq> []"
  by (metis length_header(2) list.size(3) zero_neq_numeral, metis append_is_Nil_conv length_header(2) list.size(3) zero_neq_numeral)

lemma open_existing:
  assumes "cwc_boot_epoch config \<noteq> 0" "map_of dir (wal_path ordinal) = Some content" "content \<noteq> []" "sink_open content config = Ok s"
  shows "open_wal dir ordinal config io = (Ok s, AList.update (wal_path ordinal) (wf_content (ws_file s)) dir)"
  using assms by (simp add: open_wal_def recover_wal_def Let_def)

text \<open>A log that is created in one piece: a header written in part is the one state nothing recovers from.\<close>

definition untorn :: "CreateOutcome \<Rightarrow> bool" where
  "untorn io \<longleftrightarrow> (case io of CO_HeaderFailed k \<Rightarrow> k = 0 \<or> 64 \<le> k | _ \<Rightarrow> True)"

definition fresh_wal :: "CaptureWalConfig \<Rightarrow> bytes option \<Rightarrow> bool" where
  "fresh_wal config w \<longleftrightarrow> w = None \<or> w = Some [] \<or> w = Some (header_bytes config)"

lemma open_fresh:
  assumes "config_ok config" "untorn io" "dir_holds wals mans dir" "fresh_wal config (map_of wals ordinal)"
    "open_wal dir ordinal config io = (res, dir')"
  shows "(\<exists>s. res = Ok s \<and> sink_ok config [] [] s \<and> \<not> ws_poisoned s \<and> wf_content (ws_file s) = header_bytes config \<and>
      dir_holds ((ordinal, header_bytes config) # wals) mans dir') \<or>
    io \<noteq> CO_Ok \<and> res = Err (CSE_Wal WAL_Io) \<and>
      (dir' = dir \<or> (\<exists>w. fresh_wal config (Some w) \<and> dir_holds ((ordinal, w) # wals) mans dir'))"
proof -
  have "wal_fold (log_start config) [] \<noteq> None" by simp
  from log_opens [OF assms(1) _ this] obtain s where s: "sink_open (header_bytes config) config = Ok s" "sink_ok config [] [] s"
    "\<not> ws_poisoned s" "wf_content (ws_file s) = header_bytes config" by auto
  have b: "cwc_boot_epoch config \<noteq> 0" using assms(1) by (simp add: config_ok_def)
  have d: "map_of dir (wal_path ordinal) = map_of wals ordinal" using assms(3) by (simp add: dir_holds_def)
  have r: "recover_wal d ordinal config (header_bytes config) = (Ok s, AList.update (wal_path ordinal) (header_bytes config) d)" for d
    by (simp add: recover_wal_def s)
  have u: "AList.update k v (AList.update k v d) = AList.update k v d" for k v and d :: directory
    by (simp add: update_same update_conv')
  note h = holds_update_wal [OF assms(3), of ordinal]
  have t: "fresh_wal config (Some (take k (header_bytes config)))" if "k = 0 \<or> 64 \<le> k" for k
    using that by (auto simp: fresh_wal_def)
  show ?thesis
  proof (cases "map_of wals ordinal = Some (header_bytes config)")
    case True
    then have "open_wal dir ordinal config io = (Ok s, AList.update (wal_path ordinal) (header_bytes config) dir)"
      using open_existing [OF b _ _ s(1)] d s(4) by simp
    with assms(5) s h show ?thesis by auto
  next
    case False
    with assms(4) d have "(case map_of dir (wal_path ordinal) of None \<Rightarrow> [] | Some content \<Rightarrow> content) = []"
      by (auto simp: fresh_wal_def)
    with assms(2,5) b s h t r show ?thesis
      by (cases io) (auto simp: open_wal_def write_file_header_bytes u untorn_def fresh_wal_def)
  qed
qed

section \<open>The invariant of a stream\<close>

text \<open>The directory holds the sealed segments \<open>segs\<close> and the current log, and behind a current log that is sealed perhaps
  its manifest and the beginning of the next log, which a rotation that failed left there.\<close>

definition stream_files :: "CaptureWalConfig \<Rightarrow> segments \<Rightarrow> CaptureWalConfig \<Rightarrow> CaptureRecord list \<Rightarrow> bytes \<Rightarrow> directory \<Rightarrow> bool" where
  "stream_files base segs config rs content dir \<longleftrightarrow>
     dir_holds (seg_files base segs @ [(cwc_first_window_ordinal config, content)]) (seg_mans segs) dir \<or>
     (\<exists>m spare. seals_as config rs m \<and> length spare \<le> 1 \<and>
        list_all (\<lambda>(ordinal, w). ordinal = cwc_first_window_ordinal config + 1 \<and> fresh_wal (next_config config m) (Some w)) spare \<and>
        dir_holds (seg_files base segs @ (cwc_first_window_ordinal config, content) # spare)
          (seg_mans segs @ [(cwc_first_window_ordinal config, m)]) dir)"

text \<open>\<open>windows\<close> bounds the windows that can be sealed so far, so that ordinals do not run out.\<close>

definition stream_ok ::
  "nat \<Rightarrow> CaptureWalConfig \<Rightarrow> segments \<Rightarrow> CaptureWalConfig \<Rightarrow> CaptureRecord list \<Rightarrow> CaptureRecord list \<Rightarrow> stream_state \<Rightarrow> bool" where
  "stream_ok windows base segs config rs ps st \<longleftrightarrow>
     config_ok base \<and> chain base segs = Some config \<and> css_base_config (fst st) = base \<and>
     css_current_ordinal (fst st) = cwc_first_window_ordinal config \<and>
     sink_ok config rs ps (css_current (fst st)) \<and> one_window config (rs @ ps) \<and>
     unat (cwc_first_window_ordinal config) + (if quiet config (rs @ ps) then 0 else 1) \<le> windows \<and>
     stream_files base segs config rs (wf_content (ws_file (css_current (fst st)))) (snd st)"

lemma stream_files_quiet:
  "stream_files base segs config rs content dir \<Longrightarrow> quiet config rs \<Longrightarrow>
     dir_holds (seg_files base segs @ [(cwc_first_window_ordinal config, content)]) (seg_mans segs) dir"
  by (auto simp: stream_files_def dest: seals_as_not_quiet)

lemma stream_files_sealed:
  assumes "stream_files base segs config rs content dir" "seals_as config rs m" "chain base segs = Some config"
  obtains spare where "length spare \<le> 1"
    "list_all (\<lambda>(ordinal, w). ordinal = cwc_first_window_ordinal config + 1 \<and> fresh_wal (next_config config m) (Some w)) spare"
    "dir_holds (seg_files base segs @ (cwc_first_window_ordinal config, content) # spare)
       (seg_mans segs @ [(cwc_first_window_ordinal config, m)]) dir"
proof -
  have k: "map_of (seg_mans segs @ [(cwc_first_window_ordinal config, m)]) ordinal = Some x"
    if "map_of (seg_mans segs) ordinal = Some x" for ordinal x
    using that by (simp add: map_add_def)
  from assms(1) show thesis
    unfolding stream_files_def
  proof (elim disjE exE conjE)
    assume h: "dir_holds (seg_files base segs @ [(cwc_first_window_ordinal config, content)]) (seg_mans segs) dir"
    show thesis by (rule that [of "[]"]) (use k in \<open>auto intro: dir_holds_cong [OF h]\<close>)
  next
    fix m' spare
    assume "seals_as config rs m'" "length spare \<le> 1"
      "list_all (\<lambda>(ordinal, w). ordinal = cwc_first_window_ordinal config + 1 \<and> fresh_wal (next_config config m') (Some w)) spare"
      "dir_holds (seg_files base segs @ (cwc_first_window_ordinal config, content) # spare)
        (seg_mans segs @ [(cwc_first_window_ordinal config, m')]) dir"
    with seals_as_unique [OF assms(2)] that show thesis by blast
  qed
qed

text \<open>No ordinal behind the current one is taken, and none before it is used twice.\<close>

lemma files_below:
  assumes "chain base segs = Some config" "ordinal \<in> fst ` set (seg_files base segs)"
  shows "unat ordinal < unat (cwc_first_window_ordinal config)"
proof -
  have "unat ordinal \<in> set (map unat (map fst (seg_files base segs)))" using assms(2) by auto
  then show ?thesis unfolding seg_files_ordinals [OF assms(1)] by simp
qed

lemma map_of_files:
  assumes "chain base segs = Some config" "unat (cwc_first_window_ordinal config) \<le> unat ordinal"
  shows "map_of (seg_files base segs) ordinal = None" "map_of (seg_mans segs) ordinal = None"
proof -
  have "ordinal \<notin> fst ` set (seg_files base segs)" using files_below [OF assms(1)] assms(2) by fastforce
  moreover have "fst ` set (seg_mans segs) = fst ` set (seg_files base segs)"
    using seg_mans_ordinals [OF assms(1)] by (metis set_map)
  ultimately show "map_of (seg_files base segs) ordinal = None" "map_of (seg_mans segs) ordinal = None"
    by (simp_all add: map_of_eq_None_iff)
qed

section \<open>Rotation\<close>

lemma rotate_quiet:
  "stream_ok n base segs config rs ps st \<Longrightarrow> quiet config rs \<Longrightarrow> rotate_if_needed ios (fst st) (snd st) = (Ok (), st)"
  by (auto simp: stream_ok_def rotate_if_needed.simps [of ios] sink_quiet)

lemma sealed_sink:
  assumes "sink_ok config rs ps s" "seals_as config rs m"
  shows "cwr_sealed_window_count (ws_recovery s) = 1" "cwr_last_sealed_window (ws_recovery s) = Some m"
    "cwr_durable_cursor (ws_recovery s) = cwm_end_exclusive m"
  using assms by (auto simp: sink_ok_def seals_as_def)

lemma one_window_pending: "one_window config (rs @ ps) \<Longrightarrow> seals_as config rs m \<Longrightarrow> ps = []"
  by (rule ccontr) (auto simp: one_window_def dest!: spec [of _ "length rs"] dest: seals_as_not_quiet)

lemma quiet_Nil [simp]: "quiet config []" "one_window config []"
  by (simp_all add: quiet_def one_window_def log_start_def recovery_default_def)

lemma stream_sealed_segment:
  assumes "stream_ok n base segs config rs ps st" "seals_as config rs m"
  shows "ps = []" "sealed_segment config rs m"
    "wf_content (ws_file (css_current (fst st))) = header_bytes config @ log_bytes rs"
proof -
  show "ps = []" using assms one_window_pending by (auto simp: stream_ok_def)
  with assms show "sealed_segment config rs m"
    "wf_content (ws_file (css_current (fst st))) = header_bytes config @ log_bytes rs"
    by (auto simp: stream_ok_def sink_ok_def sealed_segment_def)
qed

text \<open>The new log takes the place of the sealed one.\<close>

lemma stream_advances:
  assumes "stream_ok n base segs config rs ps st" "seals_as config rs m" "unat (cwc_first_window_ordinal config) + 1 < 2 ^ 64"
    "sink_ok (next_config config m) [] [] s" "wf_content (ws_file s) = header_bytes (next_config config m)"
    "dir_holds ((cwc_first_window_ordinal config + 1, header_bytes (next_config config m)) # seg_files base segs @
       (cwc_first_window_ordinal config, header_bytes config @ log_bytes rs) # spare) (seg_mans segs @ [(cwc_first_window_ordinal config, m)]) dir"
    "list_all (\<lambda>(ordinal, w). ordinal = cwc_first_window_ordinal config + 1) spare"
  shows "stream_ok n base (segs @ [(rs, m)]) (next_config config m) [] []
    ((fst st)\<lparr>css_current := s, css_current_ordinal := cwc_first_window_ordinal config + 1\<rparr>, dir)"
proof -
  note seg = stream_sealed_segment [OF assms(1,2)]
  let ?k = "cwc_first_window_ordinal config"
  from assms(1) have st: "config_ok base" "chain base segs = Some config" "css_base_config (fst st) = base"
    "unat ?k + 1 \<le> n"
    using seals_as_not_quiet [OF assms(2)] seg(1) by (auto simp: stream_ok_def)
  have c: "chain base (segs @ [(rs, m)]) = Some (next_config config m)"
    using st(2) seg(2) assms(3) by (simp add: chain_append)
  have mo: "cwm_window_ordinal m = ?k" using assms(2) by (simp add: seals_as_def)
  have ne: "?k + 1 \<noteq> ?k" by simp
  have sp: "map_of spare ordinal = None" if "ordinal \<noteq> ?k + 1" for ordinal
    using assms(7) that by (fastforce simp: map_of_eq_None_iff list_all_iff)
  have none: "map_of (seg_files base segs) (?k + 1) = None"
    using map_of_files(1) [OF st(2), of "?k + 1"] assms(3) by (simp add: unat_succ)
  have f: "dir_holds (seg_files base (segs @ [(rs, m)]) @ [(?k + 1, header_bytes (next_config config m))]) (seg_mans (segs @ [(rs, m)])) dir"
    using none sp ne
    by (intro dir_holds_cong [OF assms(6)]) (auto simp: seg_files_append [OF st(2)] seg_mans_def mo map_add_def split: option.splits)
  show ?thesis using st c f assms(4,5) assms(3) by (simp add: stream_ok_def stream_files_def unat_succ)
qed

definition spare_ok :: "CaptureWalConfig \<Rightarrow> CaptureWindowManifest \<Rightarrow> (u64 \<times> bytes) list \<Rightarrow> bool" where
  "spare_ok config m spare \<longleftrightarrow> length spare \<le> 1 \<and>
     list_all (\<lambda>(ordinal, w). ordinal = cwc_first_window_ordinal config + 1 \<and> fresh_wal (next_config config m) (Some w)) spare"

text \<open>The directory of a stream whose current log is sealed.\<close>

definition sealed_dir ::
  "CaptureWalConfig \<Rightarrow> segments \<Rightarrow> CaptureWalConfig \<Rightarrow> CaptureRecord list \<Rightarrow> CaptureWindowManifest \<Rightarrow> (u64 \<times> bytes) list \<Rightarrow>
     directory \<Rightarrow> bool" where
  "sealed_dir base segs config rs m spare dir \<longleftrightarrow> spare_ok config m spare \<and>
     dir_holds (seg_files base segs @ (cwc_first_window_ordinal config, header_bytes config @ log_bytes rs) # spare)
       (seg_mans segs @ [(cwc_first_window_ordinal config, m)]) dir"

lemma sealed_stream_dir:
  assumes "stream_ok n base segs config rs ps (self, dir)" "seals_as config rs m"
  obtains spare where "sealed_dir base segs config rs m spare dir"
proof -
  have "stream_files base segs config rs (header_bytes config @ log_bytes rs) dir" "chain base segs = Some config"
    using assms(1) stream_sealed_segment [OF assms] by (auto simp: stream_ok_def)
  from stream_files_sealed [OF this(1) assms(2) this(2)] show thesis
    using that by (auto simp: sealed_dir_def spare_ok_def)
qed

lemma stream_keeps:
  assumes "stream_ok n base segs config rs ps (self, dir)" "seals_as config rs m" "sealed_dir base segs config rs m spare dir'"
  shows "stream_ok n base segs config rs ps (self, dir')"
  using assms stream_sealed_segment [OF assms(1,2)]
  by (auto simp: stream_ok_def stream_files_def sealed_dir_def spare_ok_def)

lemma publish_sealed:
  assumes "sealed_dir base segs config rs m spare dir" "seals_as config rs m" "chain base segs = Some config"
    "publish_manifest dir m io = (res, dir')"
  shows "sealed_dir base segs config rs m spare dir'" "res = Ok () \<or> io \<noteq> PO_Ok \<and> res = Err CSE_Io"
    "res = Ok () \<Longrightarrow> map_of dir' (manifest_path (cwc_first_window_ordinal config)) = Some (manifest_bytes m)"
    "map_of dir (manifest_path ordinal) = Some content \<Longrightarrow> map_of dir' (manifest_path ordinal) = Some content"
proof -
  have mo: "cwm_window_ordinal m = cwc_first_window_ordinal config" "manifest_contract m" using assms(2) by (simp_all add: seals_as_def)
  have mm: "map_of (seg_mans segs @ [(cwc_first_window_ordinal config, m)]) (cwm_window_ordinal m) = Some m"
    using map_of_files(2) [OF assms(3), of "cwc_first_window_ordinal config"] by (simp add: mo map_add_def)
  have h: "dir_holds (seg_files base segs @ (cwc_first_window_ordinal config, header_bytes config @ log_bytes rs) # spare)
      (seg_mans segs @ [(cwc_first_window_ordinal config, m)]) dir" using assms(1) by (simp add: sealed_dir_def)
  note pr = publish_manifest_result [OF h mm mo(2) assms(4)]
  show "sealed_dir base segs config rs m spare dir'" "res = Ok () \<or> io \<noteq> PO_Ok \<and> res = Err CSE_Io"
    "res = Ok () \<Longrightarrow> map_of dir' (manifest_path (cwc_first_window_ordinal config)) = Some (manifest_bytes m)"
    "map_of dir (manifest_path ordinal) = Some content \<Longrightarrow> map_of dir' (manifest_path ordinal) = Some content"
    using assms(1) pr by (simp_all add: sealed_dir_def mo(1))
qed

text \<open>Opening the log behind a sealed one.\<close>

lemma open_next:
  assumes ok: "stream_ok n base segs config rs ps (self, dir0)" and m: "seals_as config rs m"
    and k: "unat (cwc_first_window_ordinal config) + 1 < 2 ^ 64" and io: "untorn io" and d: "sealed_dir base segs config rs m spare dir"
    and op: "open_wal dir (cwc_first_window_ordinal config + 1) (next_config config m) io = (res, dir')"
  shows "(\<exists>s. res = Ok s \<and> \<not> ws_poisoned s \<and> stream_ok n base (segs @ [(rs, m)]) (next_config config m) [] []
        (self\<lparr>css_current := s, css_current_ordinal := cwc_first_window_ordinal config + 1\<rparr>, dir')) \<or>
    io \<noteq> CO_Ok \<and> res = Err (CSE_Wal WAL_Io) \<and> (\<exists>spare'. sealed_dir base segs config rs m spare' dir')"
proof -
  let ?k = "cwc_first_window_ordinal config"
  let ?wals = "seg_files base segs @ (?k, header_bytes config @ log_bytes rs) # spare"
  let ?mans = "seg_mans segs @ [(?k, m)]"
  have h: "dir_holds ?wals ?mans dir" and sp: "spare_ok config m spare" using d by (simp_all add: sealed_dir_def)
  have st: "config_ok base" "chain base segs = Some config" using ok by (simp_all add: stream_ok_def)
  have none: "map_of (seg_files base segs) (?k + 1) = None" using map_of_files(1) [OF st(2), of "?k + 1"] k by (simp add: unat_succ)
  have fr: "fresh_wal (next_config config m) (map_of ?wals (?k + 1))"
    using sp none by (cases spare) (auto simp: map_add_def fresh_wal_def spare_ok_def)
  have cok: "config_ok (next_config config m)" using st(1) chain_config(1) [OF st(2)] by simp
  from open_fresh [OF cok io h fr op] show ?thesis
  proof (elim disjE exE conjE)
    fix s
    assume s: "res = Ok s" "\<not> ws_poisoned s" "sink_ok (next_config config m) [] [] s"
      "wf_content (ws_file s) = header_bytes (next_config config m)"
      "dir_holds ((?k + 1, header_bytes (next_config config m)) # ?wals) ?mans dir'"
    then show ?thesis
      using stream_advances [OF ok m k s(3-5)] sp by (auto simp: list_all_iff spare_ok_def)
  next
    assume "res = Err (CSE_Wal WAL_Io)" "io \<noteq> CO_Ok" "dir' = dir"
    with d show ?thesis by blast
  next
    fix w
    assume e: "res = Err (CSE_Wal WAL_Io)" "io \<noteq> CO_Ok" "fresh_wal (next_config config m) (Some w)"
      and w: "dir_holds ((?k + 1, w) # ?wals) ?mans dir'"
    have "dir_holds (seg_files base segs @ (?k, header_bytes config @ log_bytes rs) # [(?k + 1, w)]) ?mans dir'"
      using sp none by (intro dir_holds_cong [OF w]) (cases spare; auto simp: map_add_def spare_ok_def split: option.splits)
    with e have "sealed_dir base segs config rs m [(?k + 1, w)] dir'" by (simp add: sealed_dir_def spare_ok_def)
    with e show ?thesis by blast
  qed
qed

lemma rotate_step:
  assumes "sink_ok config rs ps (css_current self)" "seals_as config rs m" "css_base_config self = base"
    "segment_config base (cwm_end_exclusive m) (cwc_first_window_ordinal config + 1) = next_config config m"
    "unat (cwc_first_window_ordinal config) + 1 < 2 ^ 64"
  shows "rotate_if_needed ios self dir =
    (case publish_manifest dir m (fst (next_io ios)) of
       (Ok _, dir) \<Rightarrow>
         (case open_wal dir (cwc_first_window_ordinal config + 1) (next_config config m) (snd (next_io ios)) of
            (Ok sink, dir) \<Rightarrow> rotate_if_needed (tl ios) (self\<lparr>css_current := sink, css_current_ordinal := cwc_first_window_ordinal config + 1\<rparr>) dir
          | (Err e, dir) \<Rightarrow> (Err e, self, dir)
          | (Panic, dir) \<Rightarrow> (Panic, self, dir))
     | (Err e, dir) \<Rightarrow> (Err e, self, dir)
     | (Panic, dir) \<Rightarrow> (Panic, self, dir))"
proof -
  have "checked_add (cwc_first_window_ordinal config) 1 = Some (cwc_first_window_ordinal config + 1)"
    using assms(5) by (simp add: checked_add_Some unat_succ)
  then show ?thesis
    using assms sealed_sink [OF assms(1,2)]
    by (simp add: rotate_if_needed.simps [of ios] validate_segment_manifest_def seals_as_def split: prod.split result.split)
qed

lemma next_io_untorn: "list_all (\<lambda>io. untorn (snd io)) ios \<Longrightarrow> untorn (snd (next_io ios))"
  by (cases ios) (auto simp: next_io_def untorn_def)

lemma rotate_sealed:
  assumes ok: "stream_ok n base segs config rs ps (self, dir)" and m: "seals_as config rs m" and n: "n + 1 < 2 ^ 64"
    and io: "list_all (\<lambda>io. untorn (snd io)) ios" and r: "rotate_if_needed ios self dir = (res, st')"
  shows "res = Ok () \<and> stream_ok n base (segs @ [(rs, m)]) (next_config config m) [] [] st' \<and> \<not> ws_poisoned (css_current (fst st')) \<or>
    ios \<noteq> [] \<and> (\<exists>e. res = Err e) \<and> stream_ok n base segs config rs ps st'"
proof -
  let ?k = "cwc_first_window_ordinal config"
  from ok have st: "chain base segs = Some config" "css_base_config self = base" "sink_ok config rs ps (css_current self)"
    and k: "unat ?k + 1 < 2 ^ 64"
    using seals_as_not_quiet [OF m] stream_sealed_segment(1) [OF ok m] n by (auto simp: stream_ok_def)
  have cfg: "segment_config base (cwm_end_exclusive m) (?k + 1) = next_config config m"
    by (simp add: next_config_def chain_config(2) [OF st(1)])
  note step = rotate_step [OF st(3) m st(2) cfg k, of ios dir]
  obtain spare where d: "sealed_dir base segs config rs m spare dir" by (rule sealed_stream_dir [OF ok m])
  obtain pub dir1 where p: "publish_manifest dir m (fst (next_io ios)) = (pub, dir1)" by (cases "publish_manifest dir m (fst (next_io ios))")
  note pr = publish_sealed [OF d m st(1) p]
  have ios: "ios \<noteq> []" if "fst (next_io ios) \<noteq> PO_Ok \<or> snd (next_io ios) \<noteq> CO_Ok" using that by (auto simp: next_io_def)
  obtain opened dir2 where o: "open_wal dir1 (?k + 1) (next_config config m) (snd (next_io ios)) = (opened, dir2)"
    by (cases "open_wal dir1 (?k + 1) (next_config config m) (snd (next_io ios))")
  show ?thesis
  proof (cases "pub = Ok ()")
    case False
    then have "pub = Err CSE_Io" "ios \<noteq> []" using pr(2) ios by auto
    with r step p stream_keeps [OF ok m pr(1)] show ?thesis by auto
  next
    case True
    from open_next [OF ok m k next_io_untorn [OF io] pr(1) o] show ?thesis
    proof (elim disjE exE conjE)
      fix s
      assume s: "opened = Ok s" "\<not> ws_poisoned s" and adv: "stream_ok n base (segs @ [(rs, m)]) (next_config config m) [] []
        (self\<lparr>css_current := s, css_current_ordinal := ?k + 1\<rparr>, dir2)"
      with r step p o True rotate_quiet [OF adv, of "tl ios"] show ?thesis by auto
    next
      fix spare'
      assume "opened = Err (CSE_Wal WAL_Io)" "snd (next_io ios) \<noteq> CO_Ok" "sealed_dir base segs config rs m spare' dir2"
      with r step p o True ios stream_keeps [OF ok m, of spare' dir2] show ?thesis by auto
    qed
  qed
qed

section \<open>Operations\<close>

definition put_current :: "stream_state \<Rightarrow> CaptureWalSink \<Rightarrow> stream_state" where
  "put_current st s =
     ((fst st)\<lparr>css_current := s\<rparr>, AList.update (wal_path (css_current_ordinal (fst st))) (wf_content (ws_file s)) (snd st))"

lemma on_current_put:
  "on_current f st = (map_err CSE_Wal (fst (f (css_current (fst st)))), put_current st (snd (f (css_current (fst st)))))"
  by (simp add: on_current_def put_current_def split_beta Let_def)

lemma stream_ok_mono: "stream_ok n base segs config rs ps st \<Longrightarrow> n \<le> n' \<Longrightarrow> stream_ok n' base segs config rs ps st"
  by (auto simp: stream_ok_def)

lemma put_current_ok:
  assumes "stream_ok n base segs config rs ps st" "quiet config rs" "sink_ok config rs' ps' s" "one_window config (rs' @ ps')"
  shows "stream_ok (n + 1) base segs config rs' ps' (put_current st s)"
proof -
  let ?k = "cwc_first_window_ordinal config"
  have c: "chain base segs = Some config" "css_current_ordinal (fst st) = ?k" using assms(1) by (simp_all add: stream_ok_def)
  have "dir_holds (seg_files base segs @ [(?k, wf_content (ws_file (css_current (fst st))))]) (seg_mans segs) (snd st)"
    using assms(1,2) by (auto simp: stream_ok_def intro: stream_files_quiet)
  note h = holds_update_wal [OF this, of ?k "wf_content (ws_file s)"]
  have "dir_holds (seg_files base segs @ [(?k, wf_content (ws_file s))]) (seg_mans segs)
      (AList.update (wal_path ?k) (wf_content (ws_file s)) (snd st))"
    using map_of_files(1) [OF c(1), of ?k]
    by (intro dir_holds_cong [OF h]) (auto simp: map_add_def split: option.splits)
  then have "dir_holds (seg_files base segs @ [(?k, wf_content (ws_file s))]) (seg_mans segs) (snd (put_current st s))"
    by (simp add: put_current_def c(2))
  then show ?thesis using assms by (auto simp: stream_ok_def put_current_def stream_files_def)
qed

lemma current_op:
  assumes ok: "stream_ok n base segs config rs ps st" and q: "quiet config rs" and op: "op_ok op" "\<And>k. op \<noteq> WOp_Crash k"
    and s: "s = css_current (fst st)" and p: "perform s op = (res, s')"
  shows "case res of
      Ok _ \<Rightarrow> ps = [] \<and> \<not> ws_poisoned s \<and> \<not> ws_poisoned s' \<and>
        stream_ok (n + 1) base segs config (rs @ attempted s op) [] (put_current st s')
    | Err _ \<Rightarrow> (ws_poisoned s \<or> ps = []) \<and> cwr_record_count (ws_recovery s') = cwr_record_count (ws_recovery s) \<and>
        stream_ok (n + 1) base segs config rs (if \<not> ws_poisoned s \<and> ws_poisoned s' then attempted s op else ps) (put_current st s')
    | Panic \<Rightarrow> False"
proof -
  have k: "sink_ok config rs ps s" "one_window config (rs @ ps)" using ok by (simp_all add: stream_ok_def s)
  have ps: "ps = []" if "\<not> ws_poisoned s" using k(1) that by (simp add: sink_ok_def)
  have "sink_ok config rs [] s" if "\<not> ws_poisoned s" using k(1) ps [OF that] by simp
  note r = perform_result [OF op(1) this p op(2)]
  have w: "one_window config (rs @ attempted s op)"
    if "\<not> ws_poisoned s" "wal_fold (log_start config) (rs @ attempted s op) \<noteq> None"
    using k ps that q by (intro attempted_one_window) simp_all
  show ?thesis
  proof (cases res)
    case (Ok v)
    then have o: "\<not> ws_poisoned s" "\<not> ws_poisoned s'" "sink_ok config (rs @ attempted s op) [] s'" using r by (auto simp: op_result_def)
    then have "one_window config (rs @ attempted s op)" by (intro w) (auto simp: sink_ok_def)
    with o Ok ps put_current_ok [OF ok q o(3)] show ?thesis by simp
  next
    case (Err e)
    then consider "s' = s" | "\<not> ws_poisoned s" "ws_poisoned s'" "sink_ok config rs (attempted s op) s'" using r by (auto simp: op_result_def)
    then show ?thesis
    proof cases
      case 1
      with Err k ps put_current_ok [OF ok q k] show ?thesis by auto
    next
      case 2
      have "wal_fold (log_start config) (rs @ attempted s op) \<noteq> None" using 2(3) by (auto simp: sink_ok_def wal_fold_append)
      moreover have "cwr_record_count (ws_recovery s') = cwr_record_count (ws_recovery s)"
        using sink_ok_count [OF 2(3)] sink_ok_count [OF k(1)] by (simp add: unat_eq_iff)
      ultimately show ?thesis using 2 Err ps put_current_ok [OF ok q 2(3) w] by simp
    qed
  next
    case Panic
    with r show ?thesis by (simp add: op_result_def)
  qed
qed

section \<open>Histories with crashes\<close>

fun stream_perform ::
  "stream_state \<Rightarrow> WalOp \<Rightarrow> segment_io \<Rightarrow> PublishOutcome \<Rightarrow> (stream_state, unit, CaptureSegmentError) outcome" where
  "stream_perform st (WOp_Batch xs io) ios po =
     (let (begun, st) = stream_begin_batch st ios in
      try_with begun st (\<lambda>batch. stream_commit_batch st (snd (stage_all batch xs)) io))"
| "stream_perform st (WOp_Persist (Stage_Chunk h c) io) ios po = stream_persist_chunk st h c ios io"
| "stream_perform st (WOp_Persist (Stage_Gap g) io) ios po = stream_persist_gap st g ios io"
| "stream_perform st (WOp_Persist (Stage_Break b) io) ios po = stream_persist_continuity_break st b ios io"
| "stream_perform st (WOp_Finish io) ios po =
     (let (finished, st) = stream_finish_window st ios io po in (map_ok (\<lambda>_. ()) finished, st))"
| "stream_perform st (WOp_Crash n) ios po = (Ok (), st)"

text \<open>A crash keeps of the current log at least the bytes up to its last barrier, and its name, which its creation made
  durable; sealed logs are durable; every other file, a manifest or a log a failed rotation left among them, may be lost.\<close>

definition crash_directory :: "CaptureSegmentStream \<Rightarrow> nat \<Rightarrow> (string \<Rightarrow> bool) \<Rightarrow> directory \<Rightarrow> directory" where
  "crash_directory self n keep dir =
     map (\<lambda>(name, content). (name, if name = wal_path (css_current_ordinal self)
                                   then take (ws_durable_len (css_current self) + n) content else content))
       (filter (\<lambda>(name, content). keep name \<or>
          (case segment_ordinal name of Ok (Some ordinal) \<Rightarrow> ordinal \<le> css_current_ordinal self | _ \<Rightarrow> False)) dir)"

text \<open>All records of a stream, as the readers of its logs return them in the order of the ordinals.\<close>

fun read_logs :: "directory \<Rightarrow> u64 list \<Rightarrow> (CaptureRecord list, CaptureSegmentError) result" where
  "read_logs dir [] = Ok []"
| "read_logs dir (ordinal # ordinals) =
     and_then (ok_or (map_of dir (wal_path ordinal)) CSE_Io) (\<lambda>content.
     and_then (map_err CSE_Wal (read_file content)) (\<lambda>rs.
     and_then (read_logs dir ordinals) (\<lambda>rest. Ok (rs @ rest))))"

definition read_stream :: "directory \<Rightarrow> (CaptureRecord list, CaptureSegmentError) result" where
  "read_stream dir = and_then (discover_segment_ordinals dir) (read_logs dir)"

datatype StreamOp = SOp WalOp segment_io PublishOutcome | SOp_Crash nat "string \<Rightarrow> bool"

fun stream_op_ok :: "StreamOp \<Rightarrow> bool" where
  "stream_op_ok (SOp op ios po) \<longleftrightarrow> op_ok op \<and> (case op of WOp_Crash n \<Rightarrow> False | _ \<Rightarrow> True) \<and> list_all (\<lambda>io. untorn (snd io)) ios"
| "stream_op_ok (SOp_Crash n keep) \<longleftrightarrow> True"

type_synonym stream_history = "stream_state \<times> CaptureRecord list \<times> CaptureRecord list"

text \<open>The records of the stream: those of the operations that returned success, of a window finished although its manifest
  could not be published, and those a reopening found; and the records of an operation that failed in the middle.\<close>

fun stream_next :: "CaptureWalConfig \<Rightarrow> stream_history \<Rightarrow> StreamOp \<Rightarrow> stream_history option" where
  "stream_next base (st, log, pending) (SOp op ios po) =
     (let before = css_current (fst (snd (rotate_if_needed ios (fst st) (snd st))));
          (res, st') = stream_perform st op ios po;
          current = css_current (fst st');
          grown = (cwr_record_count (ws_recovery current) \<noteq> cwr_record_count (ws_recovery before))
      in case res of
           Panic \<Rightarrow> None
         | Ok _ \<Rightarrow> Some (st', log @ attempted before op, pending)
         | Err _ \<Rightarrow> Some (st', if grown then log @ attempted before op else log,
                           if \<not> ws_poisoned before \<and> ws_poisoned current then attempted before op else pending))"
| "stream_next base (st, log, pending) (SOp_Crash n keep) =
     (case segment_stream_open (crash_directory (fst st) n keep (snd st)) base [] of
        (Ok self, dir) \<Rightarrow> (case read_stream dir of Ok found \<Rightarrow> Some ((self, dir), found, []) | _ \<Rightarrow> None)
      | _ \<Rightarrow> None)"

definition history_ok :: "nat \<Rightarrow> CaptureWalConfig \<Rightarrow> stream_history \<Rightarrow> bool" where
  "history_ok n base h \<longleftrightarrow>
     (case h of (st, log, pending) \<Rightarrow> \<exists>segs config rs. stream_ok n base segs config rs pending st \<and> log = seg_log segs @ rs)"

lemma stream_cases:
  assumes "stream_ok n base segs config rs ps st"
  shows "quiet config rs \<or> (\<exists>m. seals_as config rs m)"
proof -
  have c: "one_window config (rs @ ps)" "list_all record_ok rs" "wal_fold (log_start config) rs \<noteq> None" "config_ok base"
    "chain base segs = Some config" using assms by (auto simp: stream_ok_def sink_ok_def)
  have "one_window config rs" unfolding one_window_def
  proof (intro conjI allI impI c(3))
    fix k assume "k < length rs"
    with c(1) show "quiet config (take k rs)" by (auto simp: one_window_def dest!: spec [of _ k])
  qed
  then show ?thesis using c chain_config(1) [OF c(5)] by (intro one_window_cases) (simp_all add: config_ok_def)
qed

lemma rotate_result:
  assumes "stream_ok n base segs config rs ps st" "n + 1 < 2 ^ 64" "list_all (\<lambda>io. untorn (snd io)) ios"
    "rotate_if_needed ios (fst st) (snd st) = (res, st')"
  shows "(\<exists>segs' config' rs'. res = Ok () \<and> stream_ok n base segs' config' rs' ps st' \<and> quiet config' rs' \<and>
      seg_log segs' @ rs' = seg_log segs @ rs) \<or>
    (\<exists>e. res = Err e) \<and> stream_ok n base segs config rs ps st'"
proof (cases "quiet config rs")
  case True
  with assms rotate_quiet [OF assms(1) True, of ios] show ?thesis by auto
next
  case False
  then obtain m where m: "seals_as config rs m" using stream_cases [OF assms(1)] by blast
  obtain self dir where st: "st = (self, dir)" by (cases st)
  have "ps = []" by (rule stream_sealed_segment(1) [OF assms(1) m])
  with rotate_sealed [OF assms(1) [unfolded st] m assms(2,3), of res st'] assms(4) st show ?thesis
    by (fastforce simp: exI [of _ "segs @ [(rs, m)]"])
qed

lemma stream_perform_refused:
  "rotate_if_needed ios (fst st) (snd st) = (Err e, st') \<Longrightarrow> (\<And>n. op \<noteq> WOp_Crash n) \<Longrightarrow> stream_perform st op ios po = (Err e, st')"
  by (induction st op ios po rule: stream_perform.induct)
    (auto simp: stream_begin_batch_def stream_persist_chunk_def stream_persist_gap_def stream_persist_continuity_break_def
      stream_finish_window_def after_rotation_def)

lemma stream_perform_rotated:
  assumes "rotate_if_needed ios (fst st) (snd st) = (Ok (), st1)" "perform (css_current (fst st1)) op = (res, s)"
    "\<And>n. op \<noteq> WOp_Crash n" "\<And>io. op \<noteq> WOp_Finish io" "stream_ok n base segs config rs ps st1" "quiet config rs"
  shows "stream_perform st op ios po = (map_err CSE_Wal res, put_current st1 s)"
proof (cases op)
  case (WOp_Batch xs io)
  have d: "map_of (snd st1) (wal_path (css_current_ordinal (fst st1))) = Some (wf_content (ws_file (css_current (fst st1))))"
  proof -
    have "dir_holds (seg_files base segs @ [(cwc_first_window_ordinal config, wf_content (ws_file (css_current (fst st1))))]) (seg_mans segs) (snd st1)"
      "chain base segs = Some config" "css_current_ordinal (fst st1) = cwc_first_window_ordinal config"
      using assms(5,6) by (auto simp: stream_ok_def intro: stream_files_quiet)
    then show ?thesis using map_of_files(1) [of base segs config "cwc_first_window_ordinal config"] by (simp add: dir_holds_def map_add_def)
  qed
  show ?thesis
    using assms(1,2) update_same [OF d]
    by (cases "begin_batch (css_current (fst st1))")
      (auto simp: WOp_Batch stream_begin_batch_def after_rotation_def stream_commit_batch_def on_current_put put_current_def)
next
  case (WOp_Persist x io)
  with assms(1,2) show ?thesis
    by (cases x) (simp_all add: stream_persist_chunk_def stream_persist_gap_def stream_persist_continuity_break_def after_rotation_def
        on_current_put)
qed (use assms(3,4) in auto)

lemma finish_window_sealed:
  assumes "finish_window s io = (Ok (Some m), s')" "cwr_sealed_window_count (ws_recovery s) = 0"
  shows "cwr_last_sealed_window (ws_recovery s') = Some m" "cwr_sealed_window_count (ws_recovery s') \<noteq> 0"
    "cwr_record_count (ws_recovery s') \<noteq> cwr_record_count (ws_recovery s)"
proof -
  obtain written s1 where w: "write_and_sync s (wrap_record RK_WindowSeal []) io = (written, s1)"
    by (cases "write_and_sync s (wrap_record RK_WindowSeal []) io")
  from assms(1) w obtain x y where "ws_recovery s' = (ws_recovery s)\<lparr>cwr_record_count := x, cwr_sealed_window_count := y,
      cwr_last_sealed_window := Some m\<rparr>"
    and c: "checked_add (cwr_record_count (ws_recovery s)) 1 = Some x" "checked_add (cwr_sealed_window_count (ws_recovery s)) 1 = Some y"
    by (auto simp: finish_window_def result_iffs Let_def split: prod.splits option.splits)
  moreover have "unat x = unat (cwr_record_count (ws_recovery s)) + 1" "unat y = 1" using c assms(2) by (simp_all add: checked_add_Some)
  ultimately show "cwr_last_sealed_window (ws_recovery s') = Some m" "cwr_sealed_window_count (ws_recovery s') \<noteq> 0"
    "cwr_record_count (ws_recovery s') \<noteq> cwr_record_count (ws_recovery s)"
    by auto
qed

lemma finish_published:
  assumes ok: "stream_ok n base segs config rs ps st" and q: "quiet config rs" and s: "s = css_current (fst st)"
    and f: "finish_window s io = (Ok (Some m), s')"
    and p: "publish_manifest (snd (put_current st s')) m po = (res, dir)"
  shows "(res = Ok () \<or> (\<exists>e. res = Err e)) \<and> stream_ok (n + 1) base segs config (rs @ attempted s (WOp_Finish io)) [] (fst (put_current st s'), dir)"
proof -
  have "perform s (WOp_Finish io) = (Ok (), s')" using f by simp
  from current_op [OF ok q _ _ s this]
  have ok': "stream_ok (n + 1) base segs config (rs @ attempted s (WOp_Finish io)) [] (fst (put_current st s'), snd (put_current st s'))"
    by simp
  have k: "sink_ok config rs ps s" "chain base segs = Some config" using ok by (simp_all add: stream_ok_def s)
  have z: "cwr_sealed_window_count (ws_recovery s) = 0" using q sink_quiet [OF k(1)] by simp
  note fin = finish_window_sealed [OF f z]
  have k': "sink_ok config (rs @ attempted s (WOp_Finish io)) [] s'" using ok' by (simp add: stream_ok_def put_current_def)
  then have "\<not> quiet config (rs @ attempted s (WOp_Finish io))" using fin(2) sink_quiet by blast
  then obtain m' where m': "seals_as config (rs @ attempted s (WOp_Finish io)) m'" using stream_cases [OF ok'] by blast
  then have m: "m' = m" using sealed_sink(2) [OF k' m'] fin(1) by simp
  obtain spare where d: "sealed_dir base segs config (rs @ attempted s (WOp_Finish io)) m' spare (snd (put_current st s'))"
    by (rule sealed_stream_dir [OF ok' m'])
  from publish_sealed [OF d m' k(2) p [folded m]] stream_keeps [OF ok' m'] show ?thesis by blast
qed

lemma stream_perform_current:
  assumes r: "rotate_if_needed ios (fst st) (snd st) = (Ok (), st1)" and p: "perform (css_current (fst st1)) op = (res, s)"
    and op: "\<And>n. op \<noteq> WOp_Crash n" "\<And>io m. op = WOp_Finish io \<Longrightarrow> finish_window (css_current (fst st1)) io \<noteq> (Ok (Some m), s)"
    and ok: "stream_ok n base segs config rs ps st1" "quiet config rs"
  shows "stream_perform st op ios po = (map_err CSE_Wal res, put_current st1 s)"
proof (cases "\<exists>io. op = WOp_Finish io")
  case True
  then obtain io where f: "op = WOp_Finish io" by blast
  obtain fin s1 where w: "finish_window (css_current (fst st1)) io = (fin, s1)" by (cases "finish_window (css_current (fst st1)) io")
  with p f have e: "s1 = s" "res = map_ok (\<lambda>_. ()) fin" by simp_all
  have "fin = Ok None \<or> (\<forall>v. fin \<noteq> Ok v)" using op(2) [OF f] w e(1) by (cases fin) auto
  with w r e show ?thesis
    by (cases fin) (auto simp: f stream_finish_window_def after_rotation_def on_current_put)
next
  case False
  then show ?thesis using stream_perform_rotated [OF r p op(1) _ ok] by blast
qed

lemma stream_next_eq:
  assumes "rotate_if_needed ios (fst st) (snd st) = (r, st1)" "stream_perform st op ios po = (res, st')"
    "s = css_current (fst st1)" "s' = css_current (fst st')"
  shows "stream_next base (st, log, pending) (SOp op ios po) =
    (case res of
       Panic \<Rightarrow> None
     | Ok _ \<Rightarrow> Some (st', log @ attempted s op, pending)
     | Err _ \<Rightarrow> Some (st', if cwr_record_count (ws_recovery s') \<noteq> cwr_record_count (ws_recovery s) then log @ attempted s op else log,
                       if \<not> ws_poisoned s \<and> ws_poisoned s' then attempted s op else pending))"
  by (cases res) (simp_all add: assms Let_def)

declare stream_next.simps(1) [simp del]

lemma history_okI: "stream_ok n base segs config rs pending st \<Longrightarrow> log = seg_log segs @ rs \<Longrightarrow> history_ok n base (st, log, pending)"
  by (auto simp: history_ok_def)

text \<open>An operation on a stream whose current log is open extends the records of the stream.\<close>

lemma stream_next_rotated:
  assumes r: "rotate_if_needed ios (fst st) (snd st) = (Ok (), st1)" and ok: "stream_ok n base segs config rs pending st1"
    and q: "quiet config rs" and o: "op_ok op" "\<And>k. op \<noteq> WOp_Crash k"
  shows "\<exists>h more. stream_next base (st, seg_log segs @ rs, pending) (SOp op ios po) = Some h \<and> history_ok (n + 1) base h \<and>
    fst (snd h) = (seg_log segs @ rs) @ more"
proof -
  let ?s = "css_current (fst st1)"
  obtain pr s' where p: "perform ?s op = (pr, s')" by (cases "perform ?s op")
  note c = current_op [OF ok q o refl p]
  have current: "css_current (fst (put_current st1 s')) = s'" by (simp add: put_current_def)
  show ?thesis
  proof (cases "\<exists>io m. op = WOp_Finish io \<and> finish_window ?s io = (Ok (Some m), s')")
    case True
    then obtain io m where f: "op = WOp_Finish io" "finish_window ?s io = (Ok (Some m), s')" by blast
    obtain pb dir where pb: "publish_manifest (snd (put_current st1 s')) m po = (pb, dir)"
      by (cases "publish_manifest (snd (put_current st1 s')) m po")
    note fp = finish_published [OF ok q refl f(2) pb]
    have "stream_perform st op ios po = (map_ok (\<lambda>_. ()) pb, fst (put_current st1 s'), dir)"
      using r f pb by (cases pb) (simp_all add: stream_finish_window_def after_rotation_def on_current_put)
    note e = stream_next_eq [OF r this refl, of s' base "seg_log segs @ rs" pending, simplified current fst_conv, OF refl]
    have "sink_ok config rs pending ?s" using ok by (simp add: stream_ok_def)
    then have g: "cwr_record_count (ws_recovery s') \<noteq> cwr_record_count (ws_recovery ?s)"
      using finish_window_sealed(3) [OF f(2)] q sink_quiet by blast
    have "pr = Ok ()" using p f by simp
    then have "pending = []" "\<not> ws_poisoned s'" using c by simp_all
    with e g fp have "stream_next base (st, seg_log segs @ rs, pending) (SOp op ios po) =
        Some ((fst (put_current st1 s'), dir), (seg_log segs @ rs) @ attempted ?s op, [])" by auto
    with fp f(1) show ?thesis by (auto intro: history_okI)
  next
    case False
    then have "stream_perform st op ios po = (map_err CSE_Wal pr, put_current st1 s')"
      by (intro stream_perform_current [OF r p o(2) _ ok q]) auto
    note e = stream_next_eq [OF r this refl, of s' base "seg_log segs @ rs" pending, simplified current, OF refl]
    show ?thesis
    proof (cases pr)
      case (Ok v)
      with e c have "stream_next base (st, seg_log segs @ rs, pending) (SOp op ios po) =
          Some (put_current st1 s', (seg_log segs @ rs) @ attempted ?s op, [])"
        "stream_ok (n + 1) base segs config (rs @ attempted ?s op) [] (put_current st1 s')" by simp_all
      then show ?thesis by (auto intro: history_okI)
    next
      case (Err x)
      with e c show ?thesis by (auto intro: history_okI)
    next
      case Panic
      with c show ?thesis by simp
    qed
  qed
qed

lemma stream_next_perform:
  assumes ok: "stream_ok n base segs config rs pending st" and n: "n + 1 < 2 ^ 64" and op: "stream_op_ok (SOp op ios po)"
  shows "\<exists>h more. stream_next base (st, seg_log segs @ rs, pending) (SOp op ios po) = Some h \<and> history_ok (n + 1) base h \<and>
    fst (snd h) = (seg_log segs @ rs) @ more"
proof -
  have o: "op_ok op" "\<And>k. op \<noteq> WOp_Crash k" "list_all (\<lambda>io. untorn (snd io)) ios" using op by (auto split: WalOp.splits)
  obtain res st1 where r: "rotate_if_needed ios (fst st) (snd st) = (res, st1)" by (cases "rotate_if_needed ios (fst st) (snd st)")
  from rotate_result [OF ok n o(3) r] show ?thesis
  proof (elim disjE exE conjE)
    fix segs' config' rs'
    assume res: "res = Ok ()" and ok1: "stream_ok n base segs' config' rs' pending st1" "quiet config' rs'"
      and log: "seg_log segs' @ rs' = seg_log segs @ rs"
    show ?thesis by (rule stream_next_rotated [OF r [unfolded res] ok1 o(1,2), unfolded log])
  next
    fix e
    assume res: "res = Err e" and ok1: "stream_ok n base segs config rs pending st1"
    have "stream_ok (n + 1) base segs config rs pending st1" by (rule stream_ok_mono [OF ok1]) simp
    moreover have "stream_perform st op ios po = (Err e, st1)" by (rule stream_perform_refused [OF r [unfolded res] o(2)])
    ultimately show ?thesis using stream_next_eq [OF r _ refl refl] by (auto intro: history_okI)
  qed
qed

end
