(* ===== verification/Capture_Recovery.thy ===== *)
theory Capture_Recovery
  imports Capture_Stream
begin

text \<open>
  Reopening a segmented capture stream after a crash, histories of any operations and crashes, and the independent validation
  of a sealed segment against its manifest.
\<close>

section \<open>Reopening\<close>

lemma open_step_sealed:
  assumes "open_wal dir k config CO_Ok = (Ok s, dir1)" "k = cwc_first_window_ordinal config"
    "segment_config base (cwc_recovered_cursor config) k = config" "sink_ok config rs ps s" "seals_as config rs m"
    "publish_manifest dir1 m PO_Ok = (Ok (), dir2)" "unat k + 1 < 2 ^ 64"
  shows "open_segments base (k # ordinals) k (cwc_recovered_cursor config) [] dir =
    (if ordinals = [] then
       (let (opened, dir) = open_wal dir2 (k + 1) (segment_config base (cwm_end_exclusive m) (k + 1)) CO_Ok
        in try_with opened dir (\<lambda>sink. (Ok (k + 1, Some sink), dir)))
     else open_segments base ordinals (k + 1) (cwm_end_exclusive m) [] dir2)"
proof -
  have "checked_add k 1 = Some (k + 1)" using assms(7) by (simp add: checked_add_Some unat_succ)
  moreover have "validate_segment_manifest m k (cwc_recovered_cursor config) (cwm_end_exclusive m) = Ok ()"
    using assms(2,5) by (simp add: validate_segment_manifest_def seals_as_def)
  ultimately show ?thesis using assms(1,3,6) sealed_sink [OF assms(4,5)] by (simp add: next_io_def Let_def)
qed

lemma publish_ok:
  assumes "dir_holds wals mans dir" "map_of mans (cwm_window_ordinal m) = Some m" "manifest_contract m"
  obtains dir' where "publish_manifest dir m PO_Ok = (Ok (), dir')" "dir_holds wals mans dir'"
    "map_of dir' (manifest_path (cwm_window_ordinal m)) = Some (manifest_bytes m)"
    "\<And>ordinal content. map_of dir (manifest_path ordinal) = Some content \<Longrightarrow> map_of dir' (manifest_path ordinal) = Some content"
proof -
  obtain res dir' where p: "publish_manifest dir m PO_Ok = (res, dir')" by (cases "publish_manifest dir m PO_Ok")
  note pr = publish_manifest_result [OF assms p]
  then have "res = Ok ()" by simp
  with p pr that show thesis by blast
qed

definition keeps_manifests :: "directory \<Rightarrow> directory \<Rightarrow> bool" where
  "keeps_manifests dir dir' \<longleftrightarrow>
     (\<forall>ordinal content. map_of dir (manifest_path ordinal) = Some content \<longrightarrow> map_of dir' (manifest_path ordinal) = Some content)"

lemma published_kept: "published mans dir \<Longrightarrow> keeps_manifests dir dir' \<Longrightarrow> published mans dir'"
  by (auto simp: published_def keeps_manifests_def list_all_iff)

lemma open_sealed_segments:
  assumes "chain config segs = Some config'" "config_ok config" "\<And>c k. segment_config config c k = segment_config base c k"
    "dir_holds wals mans dir" "\<forall>(ordinal, content)\<in>set (seg_files config segs). map_of wals ordinal = Some content"
    "\<forall>(ordinal, m)\<in>set (seg_mans segs). map_of mans ordinal = Some m" "tail \<noteq> []"
  shows "\<exists>dir'. open_segments base (map fst (seg_files config segs) @ tail) (cwc_first_window_ordinal config)
        (cwc_recovered_cursor config) [] dir =
      open_segments base tail (cwc_first_window_ordinal config') (cwc_recovered_cursor config') [] dir' \<and>
    dir_holds wals mans dir' \<and> published (seg_mans segs) dir' \<and> keeps_manifests dir dir'"
  using assms
proof (induction config segs arbitrary: dir rule: chain.induct)
  case (1 config)
  then show ?case by (auto simp: published_def keeps_manifests_def seg_mans_def)
next
  case (2 config rs m segs)
  let ?k = "cwc_first_window_ordinal config"
  let ?content = "header_bytes config @ log_bytes rs"
  from 2(2) have sg: "sealed_segment config rs m" "unat ?k + 1 < 2 ^ 64" "chain (next_config config m) segs = Some config'"
    by (auto split: if_splits)
  then have sl: "seals_as config rs m" "cwm_window_ordinal m = ?k" "manifest_contract m" by (simp_all add: sealed_segment_def seals_as_def)
  obtain s where s: "sink_open ?content config = Ok s" "sink_ok config rs [] s" "wf_content (ws_file s) = ?content"
    using log_opens [OF 2(3), of rs] sg(1) by (auto simp: sealed_segment_def one_window_def)
  have d: "map_of dir (wal_path ?k) = Some ?content" using 2(5,6) by (simp add: dir_holds_def)
  have b: "cwc_boot_epoch config \<noteq> 0" using 2(3) by (simp add: config_ok_def)
  have o: "open_wal dir ?k config CO_Ok = (Ok s, dir)"
    using open_existing [OF b d _ s(1)] update_same [OF d] s(3) by simp
  have cfg: "segment_config base (cwc_recovered_cursor config) ?k = config" using 2(4) [symmetric] by simp
  have mm: "map_of mans (cwm_window_ordinal m) = Some m" using 2(7) by (simp add: seg_mans_def)
  obtain dir1 where p: "publish_manifest dir m PO_Ok = (Ok (), dir1)" "dir_holds wals mans dir1"
    "map_of dir1 (manifest_path (cwm_window_ordinal m)) = Some (manifest_bytes m)" and kp: "keeps_manifests dir dir1"
    using publish_ok [OF 2(5) mm sl(3)] unfolding keeps_manifests_def by metis
  have step: "open_segments base (?k # ordinals @ tail) ?k (cwc_recovered_cursor config) [] dir =
      open_segments base (ordinals @ tail) (?k + 1) (cwm_end_exclusive m) [] dir1" for ordinals
    using open_step_sealed [OF o refl cfg s(2) sl(1) p(1) sg(2)] 2(8) by simp
  have f: "\<forall>(ordinal, content)\<in>set (seg_files (next_config config m) segs). map_of wals ordinal = Some content"
    "\<forall>(ordinal, m)\<in>set (seg_mans segs). map_of mans ordinal = Some m"
    using 2(6,7) by (auto simp: seg_mans_def)
  obtain dir' where "open_segments base (map fst (seg_files (next_config config m) segs) @ tail) (?k + 1) (cwm_end_exclusive m) [] dir1 =
      open_segments base tail (cwc_first_window_ordinal config') (cwc_recovered_cursor config') [] dir'"
    "dir_holds wals mans dir'" "published (seg_mans segs) dir'" "keeps_manifests dir1 dir'"
    using "2.IH" [OF conjI [OF sg(1,2)] sg(3) _ _ p(2) f 2(8)] 2(3,4) by auto
  with step p(3) kp show ?case
    by (intro exI [of _ dir']) (auto simp: published_def seg_mans_def keeps_manifests_def)
qed

text \<open>What a crash leaves in the directory.\<close>

lemma map_of_map_filter:
  "map_of (map (\<lambda>(a, c). (a, f a c)) (filter (\<lambda>(a, c). Q a) xs)) a = (if Q a then map_option (f a) (map_of xs a) else None)"
  by (induction xs) auto

definition crash_keeps :: "CaptureSegmentStream \<Rightarrow> (string \<Rightarrow> bool) \<Rightarrow> string \<Rightarrow> bool" where
  "crash_keeps self keep name \<longleftrightarrow> keep name \<or>
     (case segment_ordinal name of Ok (Some ordinal) \<Rightarrow> ordinal \<le> css_current_ordinal self | _ \<Rightarrow> False)"

lemma crash_directory_eq:
  "crash_directory self n keep dir =
     map (\<lambda>(name, content). (name, (\<lambda>name content. if name = wal_path (css_current_ordinal self)
            then take (ws_durable_len (css_current self) + n) content else content) name content))
       (filter (\<lambda>(name, content). crash_keeps self keep name) dir)"
  by (simp add: crash_directory_def crash_keeps_def)

lemma map_of_crash:
  "map_of (crash_directory self n keep dir) name =
     (if crash_keeps self keep name
      then map_option (\<lambda>content. if name = wal_path (css_current_ordinal self)
             then take (ws_durable_len (css_current self) + n) content else content) (map_of dir name)
      else None)"
  unfolding crash_directory_eq map_of_map_filter ..

lemma crash_keeps_wal: "crash_keeps self keep (wal_path ordinal) \<longleftrightarrow> keep (wal_path ordinal) \<or> ordinal \<le> css_current_ordinal self"
  using segment_ordinal_Some [of "wal_path ordinal" ordinal] by (simp add: crash_keeps_def)

lemma crash_names:
  assumes "distinct (map fst dir)" "clean_names dir"
  shows "distinct (map fst (crash_directory self n keep dir))" "clean_names (crash_directory self n keep dir)"
proof -
  have e: "map fst (crash_directory self n keep dir) = map fst (filter (\<lambda>(name, content). crash_keeps self keep name) dir)"
    by (simp add: crash_directory_eq comp_def split_beta)
  show "distinct (map fst (crash_directory self n keep dir))" unfolding e using assms(1) by (simp add: distinct_map_filter)
  have "fst ` set (crash_directory self n keep dir) \<subseteq> fst ` set dir" using arg_cong [OF e, of set] by auto
  then show "clean_names (crash_directory self n keep dir)" using assms(2) unfolding clean_names_iff by blast
qed

lemma crash_holds:
  assumes h: "dir_holds (files @ (css_current_ordinal self, content) # spare) mans dir"
    and below: "\<And>ordinal. ordinal \<in> fst ` set files \<Longrightarrow> ordinal < css_current_ordinal self"
    and above: "\<And>ordinal. ordinal \<in> fst ` set spare \<Longrightarrow> css_current_ordinal self < ordinal"
  shows "dir_holds (files @ (css_current_ordinal self, take (ws_durable_len (css_current self) + n) content) #
    filter (\<lambda>(ordinal, w). keep (wal_path ordinal)) spare) mans (crash_directory self n keep dir)"
proof -
  let ?k = "css_current_ordinal self"
  have k: "map_of files ?k = None" using below by (fastforce simp: map_of_eq_None_iff)
  have d: "map_of dir (wal_path ordinal) = map_of (files @ (?k, content) # spare) ordinal" for ordinal using h by (simp add: dir_holds_def)
  have f: "map_of (filter (\<lambda>(ordinal, w). keep (wal_path ordinal)) spare) ordinal = (if keep (wal_path ordinal) then map_of spare ordinal else None)"
    for ordinal by (induction spare) auto
  have "map_of (crash_directory self n keep dir) (wal_path ordinal) = map_of (files @ (?k, take (ws_durable_len (css_current self) + n) content) #
      filter (\<lambda>(ordinal, w). keep (wal_path ordinal)) spare) ordinal" for ordinal
  proof (cases "ordinal < ?k")
    case True
    then have "map_of spare ordinal = None" using above by (fastforce simp: map_of_eq_None_iff)
    with True show ?thesis by (auto simp: map_of_crash crash_keeps_wal d f map_add_def split: option.split)
  next
    case False
    then have "map_of files ordinal = None" using below by (fastforce simp: map_of_eq_None_iff)
    with False show ?thesis by (auto simp: map_of_crash crash_keeps_wal d f map_add_def k option.map_ident)
  qed
  moreover have "\<exists>m. map_of mans ordinal = Some m \<and> c = manifest_bytes m"
    if "map_of (crash_directory self n keep dir) (manifest_path ordinal) = Some c" for ordinal c
  proof -
    have "map_of dir (manifest_path ordinal) = Some c" using that by (auto simp: map_of_crash split: if_splits)
    then show ?thesis using h unfolding dir_holds_def by blast
  qed
  ultimately show ?thesis using h crash_names [of dir self n keep] by (simp add: dir_holds_def)
qed

text \<open>The current log and, behind a sealed one, what a failed rotation left.\<close>

definition current_files ::
  "CaptureWalConfig \<Rightarrow> segments \<Rightarrow> CaptureWalConfig \<Rightarrow> CaptureRecord list \<Rightarrow> (u64 \<times> bytes) list \<Rightarrow>
     (u64 \<times> CaptureWindowManifest) list \<Rightarrow> bool" where
  "current_files base segs config rs spare mans \<longleftrightarrow>
     spare = [] \<and> mans = seg_mans segs \<or>
     (\<exists>m. seals_as config rs m \<and> spare_ok config m spare \<and> mans = seg_mans segs @ [(cwc_first_window_ordinal config, m)])"

lemma stream_files_current:
  assumes "stream_files base segs config rs content dir"
  obtains spare mans where "current_files base segs config rs spare mans"
    "dir_holds (seg_files base segs @ (cwc_first_window_ordinal config, content) # spare) mans dir"
  using assms unfolding stream_files_def current_files_def spare_ok_def by blast

lemma one_window_take:
  assumes "one_window config xs"
  shows "one_window config (take j xs)"
  using assms wal_fold_prefix [of "log_start config" xs j] by (auto simp: one_window_def min_def)

lemma sealed_whole:
  assumes "one_window config (rs @ ps)" "seals_as config (rs @ take j ps) m"
  shows "rs @ take j ps = rs @ ps"
proof (rule ccontr)
  assume "rs @ take j ps \<noteq> rs @ ps"
  then have "length rs + j < length (rs @ ps)" by (simp add: not_le [symmetric])
  then have "quiet config (take (length rs + j) (rs @ ps))" using assms(1) unfolding one_window_def by blast
  with assms(2) show False by (auto dest: seals_as_not_quiet)
qed

lemma recover_wal_keeps: "recover_wal dir ordinal config content = (res, dir') \<Longrightarrow> keeps_manifests dir dir'"
  by (cases "sink_open content config") (auto simp: recover_wal_def keeps_manifests_def update_conv')

lemma keeps_wal_update: "keeps_manifests (AList.update (wal_path ordinal) content dir) dir' \<Longrightarrow> keeps_manifests dir dir'"
  by (simp add: keeps_manifests_def update_conv')

lemma open_wal_keeps: "open_wal dir ordinal config io = (res, dir') \<Longrightarrow> keeps_manifests dir dir'"
  by (cases io) (auto simp: open_wal_def write_file_header_bytes Let_def intro: keeps_wal_update
      dest!: recover_wal_keeps split: if_splits, auto simp: keeps_manifests_def update_conv')

lemma keeps_trans: "keeps_manifests a b \<Longrightarrow> keeps_manifests b c \<Longrightarrow> keeps_manifests a c"
  by (simp add: keeps_manifests_def)

text \<open>The log a crash cut, opened in its place.\<close>

lemma open_current:
  assumes "config_ok config" "chain base segs = Some config" "sink_open content config = Ok s" "content \<noteq> []"
    "dir_holds (seg_files base segs @ (cwc_first_window_ordinal config, content) # spare) mans dir"
  obtains dir' where "open_wal dir (cwc_first_window_ordinal config) config CO_Ok = (Ok s, dir')" "keeps_manifests dir dir'"
    "dir_holds (seg_files base segs @ (cwc_first_window_ordinal config, wf_content (ws_file s)) # spare) mans dir'"
proof -
  let ?k = "cwc_first_window_ordinal config"
  have none: "map_of (seg_files base segs) ?k = None" by (rule map_of_files(1) [OF assms(2) order_refl])
  have d: "map_of dir (wal_path ?k) = Some content" using assms(5) none by (simp add: dir_holds_def map_add_def)
  have b: "cwc_boot_epoch config \<noteq> 0" using assms(1) by (simp add: config_ok_def)
  note o = open_existing [OF b d assms(4,3), of CO_Ok]
  have "dir_holds (seg_files base segs @ (?k, wf_content (ws_file s)) # spare) mans (AList.update (wal_path ?k) (wf_content (ws_file s)) dir)"
    by (rule dir_holds_cong [OF holds_update_wal [OF assms(5)]])
      (auto simp: none map_add_def dest: map_of_SomeD split: option.splits if_splits)
  with o open_wal_keeps [OF o] that show thesis by blast
qed

text \<open>A log that is not sealed stays the current one.\<close>

lemma open_quiet:
  assumes "open_wal dir k config CO_Ok = (Ok s, dir1)" "segment_config base cursor k = config" "sink_ok config rs ps s" "quiet config rs"
    "map_of dir1 (manifest_path k) = None"
  shows "open_segments base [k] k cursor [] dir = (Ok (k, Some s), dir1)"
  using assms sink_quiet [OF assms(3)] by (simp add: next_io_def)

definition opened_stream :: "nat \<Rightarrow> CaptureWalConfig \<Rightarrow> CaptureRecord list \<Rightarrow> (directory, CaptureSegmentStream, CaptureSegmentError) outcome \<Rightarrow> bool" where
  "opened_stream n base log res \<longleftrightarrow>
     (\<exists>self dir segs config rs. res = (Ok self, dir) \<and> stream_ok n base segs config rs [] (self, dir) \<and> quiet config rs \<and>
        \<not> ws_poisoned (css_current self) \<and> published (seg_mans segs) dir \<and> log = seg_log segs @ rs)"

definition as_stream ::
  "CaptureWalConfig \<Rightarrow> (directory, u64 \<times> CaptureWalSink option, CaptureSegmentError) outcome \<Rightarrow>
     (directory, CaptureSegmentStream, CaptureSegmentError) outcome" where
  "as_stream base res =
     (let (opened, dir) = res in try_with opened dir (\<lambda>(expected_ordinal, current).
        try_with (ok_or current CSE_MissingCurrentSegment) dir (\<lambda>current.
          (Ok \<lparr>css_base_config = base, css_current_ordinal = expected_ordinal, css_current = current\<rparr>, dir))))"

lemma as_stream_Ok: "as_stream base (Ok (k, Some s), dir) = (Ok \<lparr>css_base_config = base, css_current_ordinal = k, css_current = s\<rparr>, dir)"
  by (simp add: as_stream_def)

lemma no_manifest:
  assumes "stream_ok n base segs config rs ps (self, dir)" "quiet config rs"
  shows "map_of dir (manifest_path (cwc_first_window_ordinal config)) = None"
proof (rule ccontr)
  let ?k = "cwc_first_window_ordinal config"
  assume "map_of dir (manifest_path ?k) \<noteq> None"
  then obtain c where c: "map_of dir (manifest_path ?k) = Some c" by blast
  have h: "dir_holds (seg_files base segs @ [(?k, wf_content (ws_file (css_current self)))]) (seg_mans segs) dir"
    "chain base segs = Some config"
    using assms by (auto simp: stream_ok_def intro: stream_files_quiet)
  from h(1) c have "\<exists>m. map_of (seg_mans segs) ?k = Some m" unfolding dir_holds_def by blast
  with map_of_files(2) [OF h(2), of ?k] show False by simp
qed

lemma open_tail_quiet:
  assumes ok: "stream_ok n base segs config rs [] (\<lparr>css_base_config = base, css_current_ordinal = cwc_first_window_ordinal config, css_current = s\<rparr>, dir1)"
    and q: "quiet config rs" "\<not> ws_poisoned s" "published (seg_mans segs) dir1"
    and o: "open_wal dir (cwc_first_window_ordinal config) config CO_Ok = (Ok s, dir1)"
  shows "opened_stream n base (seg_log segs @ rs)
    (as_stream base (open_segments base [cwc_first_window_ordinal config] (cwc_first_window_ordinal config) (cwc_recovered_cursor config) [] dir))"
proof -
  have k: "sink_ok config rs [] s" "chain base segs = Some config" using ok by (simp_all add: stream_ok_def)
  have "segment_config base (cwc_recovered_cursor config) (cwc_first_window_ordinal config) = config"
    using chain_config(2) [OF k(2), symmetric] by simp
  from open_quiet [OF o this k(1) q(1) no_manifest [OF ok q(1)]] show ?thesis
    using ok q unfolding opened_stream_def by (auto simp: as_stream_Ok)
qed

lemma open_tail_sealed:
  assumes ok: "stream_ok n base segs config rs [] (\<lparr>css_base_config = base, css_current_ordinal = cwc_first_window_ordinal config, css_current = s\<rparr>, dir1)"
    and m: "seals_as config rs m" and n: "n + 1 < 2 ^ 64" and pub: "published (seg_mans segs) dir1"
    and d: "sealed_dir base segs config rs m spare dir1"
    and o: "open_wal dir (cwc_first_window_ordinal config) config CO_Ok = (Ok s, dir1)"
  shows "opened_stream n base (seg_log segs @ rs)
    (as_stream base (open_segments base (cwc_first_window_ordinal config # map fst spare) (cwc_first_window_ordinal config) (cwc_recovered_cursor config) [] dir))"
proof -
  let ?k = "cwc_first_window_ordinal config" and ?next = "next_config config m"
  have st: "sink_ok config rs [] s" "chain base segs = Some config" and k: "unat ?k + 1 < 2 ^ 64"
    using ok n seals_as_not_quiet [OF m] by (auto simp: stream_ok_def)
  have cfg: "segment_config base (cwc_recovered_cursor config) ?k = config" "segment_config base (cwm_end_exclusive m) (?k + 1) = ?next"
    using chain_config(2) [OF st(2), symmetric] by (simp_all add: next_config_def)
  have mo: "cwm_window_ordinal m = ?k" using m by (simp add: seals_as_def)
  obtain pr dir2 where p: "publish_manifest dir1 m PO_Ok = (pr, dir2)" by (cases "publish_manifest dir1 m PO_Ok")
  note ps = publish_sealed [OF d m st(2) p]
  have pr: "pr = Ok ()" using ps(2) by simp
  obtain opened dir3 where o2: "open_wal dir2 (?k + 1) ?next CO_Ok = (opened, dir3)" by (cases "open_wal dir2 (?k + 1) ?next CO_Ok")
  have "untorn CO_Ok" by (simp add: untorn_def)
  from open_next [OF ok m k this ps(1) o2] obtain s' where s': "opened = Ok s'" "\<not> ws_poisoned s'" and
    ok': "stream_ok n base (segs @ [(rs, m)]) ?next [] [] (\<lparr>css_base_config = base, css_current_ordinal = ?k + 1, css_current = s'\<rparr>, dir3)"
    by auto
  have "keeps_manifests dir1 dir2" using ps(4) by (simp add: keeps_manifests_def)
  with open_wal_keeps [OF o2] have keep: "keeps_manifests dir1 dir3" "keeps_manifests dir2 dir3" by (auto intro: keeps_trans)
  have pub': "published (seg_mans (segs @ [(rs, m)])) dir3"
    using published_kept [OF pub keep(1)] ps(3) [OF pr] keep(2) by (simp add: published_def seg_mans_def mo keeps_manifests_def)
  note step = open_step_sealed [OF o refl cfg(1) st(1) m p [unfolded pr] k]
  from o2 s' have o3: "open_wal dir2 (?k + 1) ?next CO_Ok = (Ok s', dir3)" by simp
  have "open_segments base [?k + 1] (?k + 1) (cwm_end_exclusive m) [] dir2 = (Ok (?k + 1, Some s'), dir3)"
    using o3 cfg(2) ok' no_manifest [OF ok'] by (intro open_quiet [where config = ?next and rs = "[]" and ps = "[]"]) (auto simp: stream_ok_def)
  moreover have "spare = [] \<or> map fst spare = [?k + 1]"
    using d by (cases spare) (auto simp: sealed_dir_def spare_ok_def)
  ultimately have e: "open_segments base (?k # map fst spare) ?k (cwc_recovered_cursor config) [] dir = (Ok (?k + 1, Some s'), dir3)"
    unfolding step cfg(2) using o3 by auto
  show ?thesis unfolding opened_stream_def e as_stream_Ok
    by (rule exI, rule exI, rule exI [of _ "segs @ [(rs, m)]"], rule exI [of _ ?next], rule exI [of _ "[]"])
      (use ok' s'(2) pub' in auto)
qed

lemma seg_files_distinct: "chain base segs = Some config \<Longrightarrow> distinct (map fst (seg_files base segs))"
  using seg_files_ordinals [of base segs config] by (metis distinct_map distinct_upt)

lemma segment_stream_open_logs:
  "discover_segment_ordinals dir = Ok ordinals \<Longrightarrow> ordinals \<noteq> [] \<Longrightarrow> segment_stream_open dir base [] =
     as_stream base (open_segments base ordinals (cwc_first_window_ordinal base) (cwc_recovered_cursor base) [] dir)"
  by (simp add: segment_stream_open_def as_stream_def)

text \<open>The logs behind the sealed segments, whatever of them the crash kept.\<close>

lemma open_all:
  assumes c: "config_ok base" "chain base segs = Some config"
    and d: "dir_holds (seg_files base segs @ (cwc_first_window_ordinal config, content) # spare) mans dir"
    and m: "\<forall>(ordinal, m)\<in>set (seg_mans segs). map_of mans ordinal = Some m"
    and sp: "spare = [] \<or> map fst spare = [cwc_first_window_ordinal config + 1] \<and> unat (cwc_first_window_ordinal config) + 1 < 2 ^ 64"
  obtains dir' where "segment_stream_open dir base [] =
      as_stream base (open_segments base (cwc_first_window_ordinal config # map fst spare) (cwc_first_window_ordinal config)
        (cwc_recovered_cursor config) [] dir')"
    "dir_holds (seg_files base segs @ (cwc_first_window_ordinal config, content) # spare) mans dir'" "published (seg_mans segs) dir'"
proof -
  let ?k = "cwc_first_window_ordinal config"
  let ?wals = "seg_files base segs @ (?k, content) # spare"
  have le: "unat (cwc_first_window_ordinal base) \<le> unat ?k" using chain_ordinal [OF c(2)] by simp
  have sp': "map unat (map fst spare) = [unat ?k + 1..<unat ?k + 1 + length spare]"
    using sp by (cases spare) (auto simp: unat_succ)
  have "map unat (map fst ?wals) = [unat (cwc_first_window_ordinal base)..<unat ?k] @ unat ?k # [unat ?k + 1..<unat ?k + 1 + length spare]"
    using seg_files_ordinals [OF c(2)] sp' by simp
  also have "\<dots> = [unat (cwc_first_window_ordinal base)..<unat ?k + 1 + length spare]"
    using le upt_add_eq_append [of "unat (cwc_first_window_ordinal base)" "unat ?k" "1 + length spare"]
      upt_conv_Cons [of "unat ?k" "unat ?k + (1 + length spare)"] by simp
  finally have disc: "discover_segment_ordinals dir = Ok (map fst ?wals)" by (rule discover_holds [OF d])
  have w: "\<forall>(ordinal, content)\<in>set (seg_files base segs). map_of ?wals ordinal = Some content"
    using seg_files_distinct [OF c(2)] by (auto simp: map_add_def)
  obtain dir' where "open_segments base (map fst (seg_files base segs) @ ?k # map fst spare) (cwc_first_window_ordinal base)
        (cwc_recovered_cursor base) [] dir =
      open_segments base (?k # map fst spare) ?k (cwc_recovered_cursor config) [] dir'"
    "dir_holds ?wals mans dir'" "published (seg_mans segs) dir'"
    using open_sealed_segments [OF c(2,1) refl d w m, of "?k # map fst spare"] by auto
  with segment_stream_open_logs [OF disc] that show thesis by simp
qed

lemma current_mans:
  assumes "chain base segs = Some config" "current_files base segs config rs spare mans"
  shows "\<forall>(ordinal, m)\<in>set (seg_mans segs). map_of mans ordinal = Some m"
  using assms(2) seg_files_distinct [OF assms(1)]
  by (auto simp: current_files_def map_add_def seg_mans_ordinals [OF assms(1), symmetric])

lemma crash_current:
  assumes ok: "stream_ok n base segs config rs ps (self, dir)" and n: "n + 1 < 2 ^ 64"
  obtains spare mans where "current_files base segs config rs spare mans"
    "dir_holds (seg_files base segs @ (cwc_first_window_ordinal config,
       take (ws_durable_len (css_current self) + c) (wf_content (ws_file (css_current self)))) # spare) mans (crash_directory self c keep dir)"
    "spare = [] \<or> map fst spare = [cwc_first_window_ordinal config + 1] \<and> unat (cwc_first_window_ordinal config) + 1 < 2 ^ 64"
proof -
  let ?k = "cwc_first_window_ordinal config"
  have st: "chain base segs = Some config" "css_current_ordinal self = ?k" using ok by (simp_all add: stream_ok_def)
  obtain spare mans where cf: "current_files base segs config rs spare mans"
    and h: "dir_holds (seg_files base segs @ (?k, wf_content (ws_file (css_current self))) # spare) mans dir"
    using ok stream_files_current [of base segs config rs _ dir] by (auto simp: stream_ok_def)
  have sp: "spare = [] \<or> map fst spare = [?k + 1] \<and> unat ?k + 1 < 2 ^ 64"
  proof (cases "spare = []")
    case False
    then obtain m where m: "seals_as config rs m" "spare_ok config m spare" using cf by (auto simp: current_files_def)
    have "unat ?k + 1 \<le> n" using ok seals_as_not_quiet [OF m(1)] stream_sealed_segment(1) [OF ok m(1)] by (simp add: stream_ok_def)
    with n m(2) False show ?thesis by (cases spare) (auto simp: spare_ok_def)
  qed simp
  let ?spare = "filter (\<lambda>(ordinal, w). keep (wal_path ordinal)) spare"
  have dh: "dir_holds (seg_files base segs @ (?k, take (ws_durable_len (css_current self) + c) (wf_content (ws_file (css_current self)))) # ?spare)
      mans (crash_directory self c keep dir)"
    using h files_below [OF st(1)] sp
    by (intro crash_holds [of _ self, unfolded st(2)]) (auto simp: word_less_nat_alt unat_succ)
  have fs: "current_files base segs config rs ?spare mans"
    using cf by (auto simp: current_files_def spare_ok_def list_all_iff intro: order_trans [OF length_filter_le])
  have "?spare = [] \<or> map fst ?spare = [?k + 1] \<and> unat ?k + 1 < 2 ^ 64" using sp by (cases spare) auto
  then show thesis by (rule that [OF fs dh])
qed

lemma reopened_ok:
  assumes ok: "stream_ok n base segs config rs ps (self, dir)" and cf: "current_files base segs config rs spare mans"
    and s: "sink_ok config (rs @ take j ps) [] s"
    and d: "dir_holds (seg_files base segs @ (cwc_first_window_ordinal config, wf_content (ws_file s)) # spare) mans dir'"
  shows "stream_ok n base segs config (rs @ take j ps) []
    (\<lparr>css_base_config = base, css_current_ordinal = cwc_first_window_ordinal config, css_current = s\<rparr>, dir')"
proof -
  from ok have st: "config_ok base" "chain base segs = Some config" "one_window config (rs @ ps)" by (simp_all add: stream_ok_def)
  have w: "one_window config (rs @ take j ps)" using one_window_take [OF st(3), of "length rs + j"] by simp
  have p: "ps = []" if "seals_as config rs m" for m by (rule one_window_pending [OF st(3) that])
  have "stream_files base segs config (rs @ take j ps) (wf_content (ws_file s)) dir'"
    using cf d p unfolding stream_files_def current_files_def spare_ok_def by fastforce
  moreover have "unat (cwc_first_window_ordinal config) + (if quiet config (rs @ take j ps) then 0 else 1) \<le> n"
  proof (cases "quiet config (rs @ take j ps)")
    case False
    have "list_all record_ok (rs @ take j ps)" using s by (simp add: sink_ok_def)
    then obtain m where "seals_as config (rs @ take j ps) m"
      using one_window_cases [OF w] False st(1) chain_config(1) [OF st(2)] by (auto simp: config_ok_def)
    from sealed_whole [OF st(3) this] False ok show ?thesis by (simp add: stream_ok_def)
  qed (use ok in \<open>simp add: stream_ok_def split: if_splits\<close>)
  ultimately show ?thesis using st w s by (simp add: stream_ok_def)
qed

lemma current_sealed_dir:
  assumes ok: "stream_ok n base segs config rs ps (self, dir)" and cf: "current_files base segs config rs spare mans"
    and m: "seals_as config (rs @ take j ps) m"
    and d: "dir_holds (seg_files base segs @ (cwc_first_window_ordinal config, header_bytes config @ log_bytes (rs @ take j ps)) # spare) mans dir'"
  shows "sealed_dir base segs config (rs @ take j ps) m spare dir'"
proof -
  from ok have w: "one_window config (rs @ ps)" by (simp add: stream_ok_def)
  from cf show ?thesis
    unfolding current_files_def
  proof (elim disjE exE conjE)
    assume e: "spare = []" "mans = seg_mans segs"
    show ?thesis using d unfolding sealed_dir_def spare_ok_def e by (auto simp: map_add_def intro: dir_holds_cong)
  next
    fix m'
    assume e: "seals_as config rs m'" "spare_ok config m' spare" "mans = seg_mans segs @ [(cwc_first_window_ordinal config, m')]"
    from one_window_pending [OF w e(1)] have "ps = []" .
    with m e(1) have "m' = m" by (auto intro: seals_as_unique)
    with d e \<open>ps = []\<close> show ?thesis by (simp add: sealed_dir_def)
  qed
qed

lemma reopen_stream:
  assumes ok: "stream_ok n base segs config rs ps (self, dir)" and n: "n + 1 < 2 ^ 64"
  shows "\<exists>j. opened_stream n base ((seg_log segs @ rs) @ take j ps) (segment_stream_open (crash_directory self c keep dir) base [])"
proof -
  let ?k = "cwc_first_window_ordinal config"
  let ?cut = "take (ws_durable_len (css_current self) + c) (wf_content (ws_file (css_current self)))"
  from ok have st: "config_ok base" "chain base segs = Some config"
    and sk: "sink_ok config rs ps (css_current self)" by (simp_all add: stream_ok_def)
  have cok: "config_ok config" using st chain_config(1) by blast
  obtain j s where s: "sink_open ?cut config = Ok s" "sink_ok config (rs @ take j ps) [] s" "\<not> ws_poisoned s"
    using reopen [OF cok sk, of c] by blast
  have content: "wf_content (ws_file s) = header_bytes config @ log_bytes (rs @ take j ps)" using s(2) by (simp add: sink_ok_def)
  have cut: "?cut \<noteq> []" using sk by (auto simp: sink_ok_def)
  obtain spare mans where cf: "current_files base segs config rs spare mans"
    and h: "dir_holds (seg_files base segs @ (?k, ?cut) # spare) mans (crash_directory self c keep dir)"
      "spare = [] \<or> map fst spare = [?k + 1] \<and> unat ?k + 1 < 2 ^ 64"
    by (rule crash_current [OF ok n])
  obtain dir1 where o1: "segment_stream_open (crash_directory self c keep dir) base [] =
      as_stream base (open_segments base (?k # map fst spare) ?k (cwc_recovered_cursor config) [] dir1)"
    and d1: "dir_holds (seg_files base segs @ (?k, ?cut) # spare) mans dir1" "published (seg_mans segs) dir1"
    by (rule open_all [OF st h(1) current_mans [OF st(2) cf] h(2)])
  obtain dir2 where o2: "open_wal dir1 ?k config CO_Ok = (Ok s, dir2)" "keeps_manifests dir1 dir2"
    and d2: "dir_holds (seg_files base segs @ (?k, wf_content (ws_file s)) # spare) mans dir2"
    by (rule open_current [OF cok st(2) s(1) cut d1(1)])
  have pub: "published (seg_mans segs) dir2" by (rule published_kept [OF d1(2) o2(2)])
  note ok2 = reopened_ok [OF ok cf s(2) d2]
  have "opened_stream n base (seg_log segs @ rs @ take j ps) (segment_stream_open (crash_directory self c keep dir) base [])"
  proof (cases "quiet config (rs @ take j ps)")
    case True
    have "spare = []"
      using cf True ok one_window_pending [of config rs ps] by (auto simp: current_files_def stream_ok_def dest: seals_as_not_quiet)
    with open_tail_quiet [OF ok2 True s(3) pub o2(1)] o1 show ?thesis by simp
  next
    case False
    then obtain m where m: "seals_as config (rs @ take j ps) m" using stream_cases [OF ok2] by blast
    show ?thesis
      using open_tail_sealed [OF ok2 m n pub current_sealed_dir [OF ok cf m d2 [unfolded content]] o2(1)] o1 by simp
  qed
  then show ?thesis by auto
qed

section \<open>Reading the logs\<close>

lemma log_reads:
  "config_ok config \<Longrightarrow> list_all record_ok rs \<Longrightarrow> wal_fold (log_start config) rs \<noteq> None \<Longrightarrow>
     length (header_bytes config @ log_bytes rs) < 2 ^ 63 \<Longrightarrow> read_file (header_bytes config @ log_bytes rs) = Ok rs"
  using log_opens [of config rs] sink_ok_reads by metis

lemma sealed_segment_reads: "config_ok config \<Longrightarrow> sealed_segment config rs m \<Longrightarrow> read_file (header_bytes config @ log_bytes rs) = Ok rs"
  by (rule log_reads) (auto simp: sealed_segment_def one_window_def)

lemma read_sealed_logs:
  assumes "chain config segs = Some config'" "config_ok config" "read_logs dir tail = Ok xs"
    "\<forall>(ordinal, content)\<in>set (seg_files config segs). map_of dir (wal_path ordinal) = Some content"
  shows "read_logs dir (map fst (seg_files config segs) @ tail) = Ok (seg_log segs @ xs)"
  using assms
proof (induction config segs rule: chain.induct)
  case (2 config rs m segs)
  then have sg: "sealed_segment config rs m" by (simp split: if_splits)
  from 2 have "read_logs dir (map fst (seg_files (next_config config m) segs) @ tail) = Ok (seg_log segs @ xs)"
    by (auto split: if_splits)
  with 2(5) sealed_segment_reads [OF 2(3) sg] show ?case by (simp add: seg_log_def)
qed simp

lemma read_stream_ok:
  assumes "stream_ok n base segs config rs [] (self, dir)" "quiet config rs"
  shows "read_stream dir = Ok (seg_log segs @ rs)"
proof -
  let ?k = "cwc_first_window_ordinal config" and ?content = "wf_content (ws_file (css_current self))"
  from assms(1) have st: "config_ok base" "chain base segs = Some config" "sink_ok config rs [] (css_current self)" by (simp_all add: stream_ok_def)
  have d: "dir_holds (seg_files base segs @ [(?k, ?content)]) (seg_mans segs) dir"
    using assms by (auto simp: stream_ok_def intro: stream_files_quiet)
  have o: "map unat (map fst (seg_files base segs @ [(?k, ?content)])) = [unat (cwc_first_window_ordinal base)..<unat ?k + 1]"
    using seg_files_ordinals [OF st(2)] chain_ordinal [OF st(2)] by simp
  have f: "\<forall>(ordinal, content)\<in>set (seg_files base segs). map_of dir (wal_path ordinal) = Some content"
    using d seg_files_distinct [OF st(2)] by (auto simp: dir_holds_def map_add_def)
  have "map_of dir (wal_path ?k) = Some ?content"
    using d map_of_files(1) [OF st(2), of ?k] by (simp add: dir_holds_def map_add_def)
  then have "read_logs dir [?k] = Ok rs" using sink_ok_reads [OF _ st(3)] st(1) chain_config(1) [OF st(2)] by simp
  from read_sealed_logs [OF st(2,1) this f] show ?thesis by (simp add: read_stream_def discover_holds [OF d o])
qed

section \<open>Validation of the sealed segments\<close>

lemma segment_replay_append:
  "ledger_append l r = (Ok sealed, t) \<Longrightarrow> segment_replay (cl_hardware_id l) l r = (Ok sealed, t)"
  by (cases r) (auto simp: segment_replay_def split: prod.splits result.splits)

lemma validate_at_end:
  "rd_offset rd = length (rd_file rd) \<Longrightarrow> validate_records rd l reconstructed n = Ok (reconstructed, n)"
  by (simp add: validate_records.simps [of rd] next_record_def)

lemma validate_log:
  assumes "list_all record_ok rs" "rd_file rd = pre @ log_bytes rs" "length (rd_file rd) < 2 ^ 63" "rd_offset rd = length pre"
    "cwh_hardware_id (rd_header rd) = cl_hardware_id l" "cwh_boot_epoch (rd_header rd) = cl_boot_epoch l"
    "wal_fold (l, c) rs = Some (t, d)" "cwr_sealed_window_count c = 0" "\<forall>k<length rs. quiet_from (l, c) (take k rs)"
    "unat n + length rs < 2 ^ 64"
  shows "validate_records rd l None n =
    Ok (if cwr_sealed_window_count d = 0 then None else cwr_last_sealed_window d, n + of_nat (length rs))"
  using assms
proof (induction rs arbitrary: rd pre l c n)
  case Nil
  then show ?case by (simp add: validate_at_end)
next
  case (Cons r rs)
  let ?rd = "rd\<lparr>rd_offset := length pre + length (record_bytes r)\<rparr>"
  from Cons.prems(7) obtain u e where w: "wal_apply (l, c) r = Some (u, e)" and f: "wal_fold (u, e) rs = Some (t, d)"
    by (auto simp: bind_eq_Some_conv)
  from w obtain sealed where a: "ledger_append l r = (Ok sealed, u)" and s: "staged_recovery c u (counters_of r) sealed = Ok e"
    by (auto simp: wal_apply_Some)
  note st = append_stream [OF a]
  have nr: "next_record rd = (Ok (Some r), ?rd)"
    using Cons.prems st by (intro next_record_step [where post = "log_bytes rs"]) simp_all
  have n: "checked_add n 1 = Some (n + 1)" "unat (n + 1) = unat n + 1" using Cons.prems(10) by (simp_all add: checked_add_Some unat_succ)
  have step: "validate_records rd l None n = validate_records ?rd u sealed (n + 1)"
    using nr n segment_replay_append [OF a] Cons.prems(5) by (simp add: validate_records.simps [of rd])
  show ?case
  proof (cases sealed)
    case None
    then have z: "cwr_sealed_window_count e = 0" using s staged_recovery_sealed(1) Cons.prems(8) by fastforce
    have q: "\<forall>k<length rs. quiet_from (u, e) (take k rs)"
    proof (intro allI impI)
      fix k assume "k < length rs"
      then have "quiet_from (l, c) (take (Suc k) (r # rs))" using Cons.prems(9) by (metis Suc_mono length_Cons)
      with w show "quiet_from (u, e) (take k rs)" by (simp add: quiet_from_def)
    qed
    have "validate_records ?rd u None (n + 1) =
        Ok (if cwr_sealed_window_count d = 0 then None else cwr_last_sealed_window d, n + 1 + of_nat (length rs))"
      using Cons.prems st n(2) by (intro Cons.IH [where pre = "pre @ record_bytes r", OF _ _ _ _ _ _ f z q]) simp_all
    with step None show ?thesis by (simp add: add.assoc)
  next
    case (Some m)
    then have z: "cwr_sealed_window_count e \<noteq> 0" "cwr_last_sealed_window e = Some m" using s staged_recovery_sealed(2) by fastforce+
    have "rs = []"
    proof (rule ccontr)
      assume "rs \<noteq> []"
      then have "quiet_from (l, c) (take 1 (r # rs))" using Cons.prems(9) by (metis length_Cons length_greater_0_conv One_nat_def Suc_mono)
      with w z show False by (simp add: quiet_from_def)
    qed
    with f z step Some Cons.prems(2) show ?thesis by (simp add: validate_at_end)
  qed
qed

lemma reader_opens:
  "config_ok config \<Longrightarrow> reader_open (header_bytes config @ xs) =
     Ok \<lparr>rd_file = header_bytes config @ xs, rd_header = header_of config, rd_offset = 64\<rparr>"
  by (simp add: reader_open_def wal_sizes sub_def decode_header_bytes)

lemma validate_sealed_segment:
  assumes "config_ok config" "sealed_segment config rs m"
  shows "validate_capture_segment (header_bytes config @ log_bytes rs) (manifest_bytes m) =
    Ok \<lparr>csv_manifest = m, csv_record_count = of_nat (length rs)\<rparr>"
proof -
  let ?rd = "\<lparr>rd_file = header_bytes config @ log_bytes rs, rd_header = header_of config, rd_offset = 64\<rparr>"
  let ?l = "fst (log_start config)" and ?c = "snd (log_start config)"
  from assms(2) obtain t d where sg: "list_all record_ok rs" "length (rd_file ?rd) < 2 ^ 63" "wal_fold (?l, ?c) rs = Some (t, d)"
    "cwr_sealed_window_count d = 1" "cwr_last_sealed_window d = Some m"
    and q: "\<forall>k<length rs. quiet_from (?l, ?c) (take k rs)"
    and m: "cwm_hardware_id m = cwc_hardware_id config" "cwm_boot_epoch m = cwc_boot_epoch config"
      "cwm_first_cursor m = cwc_recovered_cursor config" "cwm_window_ordinal m = cwc_first_window_ordinal config" "manifest_contract m"
    by (auto simp: sealed_segment_def seals_as_def one_window_def quiet_def quiet_from_def)
  have n: "unat (0 :: u64) + length rs < 2 ^ 64"
    using log_start_counts(2) [of config rs t d] sg(3) unat_u64_bound [of "cwr_record_count d"] by simp
  have c: "cwr_sealed_window_count ?c = 0" "ledger_new (cwc_window_policy config) (cwc_hardware_id config) (cwc_boot_epoch config)
      (cwc_recovered_cursor config) (cwc_first_window_ordinal config) = ?l"
    "cwh_hardware_id (rd_header ?rd) = cl_hardware_id ?l" "cwh_boot_epoch (rd_header ?rd) = cl_boot_epoch ?l"
    by (simp_all add: log_start_def ledger_new_def recovery_default_def header_of_def)
  have "validate_records ?rd ?l None 0 = Ok (Some m, of_nat (length rs))"
    using validate_log [OF sg(1) _ sg(2) _ c(3,4) sg(3) c(1) q n, of "header_bytes config"] sg(4,5) by simp
  moreover have "read_capture_manifest (manifest_bytes m) = Ok m" using m(5) by (simp add: read_manifest_iff)
  ultimately show ?thesis
    using reader_opens [OF assms(1), of "log_bytes rs"] c(2) m by (simp add: validate_capture_segment_def header_of_def)
qed

text \<open>A sealed segment of a directory: its manifest is there, the log passes the validation against it, and the next log
  starts at the cursor where this one ends.\<close>

definition segment_valid :: "directory \<Rightarrow> u64 \<Rightarrow> bool" where
  "segment_valid dir ordinal \<longleftrightarrow>
     (\<exists>wal content v next reader. map_of dir (wal_path ordinal) = Some wal \<and> map_of dir (manifest_path ordinal) = Some content \<and>
        validate_capture_segment wal content = Ok v \<and> cwm_window_ordinal (csv_manifest v) = ordinal \<and>
        map_of dir (wal_path (ordinal + 1)) = Some next \<and> reader_open next = Ok reader \<and>
        cwh_first_cursor (rd_header reader) = cwm_end_exclusive (csv_manifest v))"

lemma chain_segment:
  assumes "chain config segs = Some config'" "config_ok config" "(ordinal, wal) \<in> set (seg_files config segs)"
  shows "\<exists>rs m c next. wal = header_bytes c @ log_bytes rs \<and> sealed_segment c rs m \<and> config_ok c \<and> cwc_first_window_ordinal c = ordinal \<and>
    (ordinal, m) \<in> set (seg_mans segs) \<and>
    (ordinal + 1, header_bytes (next_config c m) @ next) \<in> set (seg_files config segs @ [(cwc_first_window_ordinal config', header_bytes config' @ tail)])"
  using assms
proof (induction config segs rule: chain.induct)
  case (2 config rs m segs)
  let ?k = "cwc_first_window_ordinal config"
  from 2(2) have sg: "sealed_segment config rs m" "unat ?k + 1 < 2 ^ 64" "chain (next_config config m) segs = Some config'"
    by (auto split: if_splits)
  show ?case
  proof (cases "(ordinal, wal) = (?k, header_bytes config @ log_bytes rs)")
    case True
    have "\<exists>next. (?k + 1, header_bytes (next_config config m) @ next) \<in>
        set (seg_files (next_config config m) segs @ [(cwc_first_window_ordinal config', header_bytes config' @ tail)])"
      using sg(3) by (cases segs) auto
    moreover have "(?k, m) \<in> set (seg_mans ((rs, m) # segs))" using sg(1) by (simp add: seg_mans_def sealed_segment_def seals_as_def)
    ultimately show ?thesis using True sg(1) 2(3) by fastforce
  next
    case False
    then have "(ordinal, wal) \<in> set (seg_files (next_config config m) segs)" using 2(4) by auto
    from "2.IH" [OF conjI [OF sg(1,2)] sg(3) _ this] 2(3) show ?thesis by (fastforce simp: seg_mans_def)
  qed
qed simp

lemma sealed_segments_valid:
  assumes "stream_ok n base segs config rs [] (self, dir)" "quiet config rs" "published (seg_mans segs) dir"
    "map_of dir (wal_path ordinal) \<noteq> None" "ordinal \<noteq> css_current_ordinal self"
  shows "segment_valid dir ordinal"
proof -
  let ?k = "cwc_first_window_ordinal config"
  from assms(1) have st: "config_ok base" "chain base segs = Some config" "css_current_ordinal self = ?k"
    "wf_content (ws_file (css_current self)) = header_bytes config @ log_bytes rs" by (auto simp: stream_ok_def sink_ok_def)
  let ?wals = "seg_files base segs @ [(?k, header_bytes config @ log_bytes rs)]"
  have d: "dir_holds ?wals (seg_mans segs) dir"
    using assms(1,2) by (auto simp: stream_ok_def st(4) intro: stream_files_quiet)
  have "distinct (map fst ?wals)"
    using seg_files_distinct [OF st(2)] map_of_files(1) [OF st(2), of ?k] by (simp add: map_of_eq_None_iff)
  then have w: "map_of dir (wal_path ordinal) = Some content \<longleftrightarrow> (ordinal, content) \<in> set ?wals" for ordinal content
    using d by (simp only: dir_holds_def map_of_eq_Some_iff)
  obtain wal where wal: "map_of dir (wal_path ordinal) = Some wal" using assms(4) by blast
  with w assms(5) have "(ordinal, wal) \<in> set (seg_files base segs)" by (auto simp: st(3))
  from chain_segment [OF st(2,1) this, of "log_bytes rs"] obtain xs m c rest where
    c: "wal = header_bytes c @ log_bytes xs" "sealed_segment c xs m" "config_ok c" "cwc_first_window_ordinal c = ordinal"
      "(ordinal, m) \<in> set (seg_mans segs)" "(ordinal + 1, header_bytes (next_config c m) @ rest) \<in> set ?wals" by blast
  have "map_of dir (manifest_path ordinal) = Some (manifest_bytes m)" using assms(3) c(5) by (auto simp: published_def list_all_iff)
  moreover have "map_of dir (wal_path (ordinal + 1)) = Some (header_bytes (next_config c m) @ rest)" using w c(6) by blast
  moreover have "cwm_window_ordinal m = ordinal" using c(2,4) by (simp add: sealed_segment_def seals_as_def)
  ultimately show ?thesis
    using wal validate_sealed_segment [OF c(3,2)] reader_opens [of "next_config c m" rest] c(1,3)
    unfolding segment_valid_def by (simp add: header_of_def)
qed

section \<open>The stream survives crashes\<close>

fun stream_run :: "CaptureWalConfig \<Rightarrow> stream_history \<Rightarrow> StreamOp list \<Rightarrow> stream_history option" where
  "stream_run base h [] = Some h"
| "stream_run base h (op # ops) = Option.bind (stream_next base h op) (\<lambda>h. stream_run base h ops)"

lemma stream_next_ok:
  assumes "history_ok n base h" "n + 1 < 2 ^ 64" "stream_op_ok op"
  shows "\<exists>h' more. stream_next base h op = Some h' \<and> history_ok (n + 1) base h' \<and> fst (snd h') = fst (snd h) @ more"
proof -
  obtain self dir log pending where h: "h = ((self, dir), log, pending)" by (cases h) auto
  with assms(1) obtain segs config rs where ok: "stream_ok n base segs config rs pending (self, dir)" and log: "log = seg_log segs @ rs"
    by (auto simp: history_ok_def)
  show ?thesis
  proof (cases op)
    case (SOp x ios po)
    with stream_next_perform [OF ok assms(2)] assms(3) show ?thesis by (simp add: h log)
  next
    case (SOp_Crash c keep)
    obtain j where "opened_stream n base (log @ take j pending) (segment_stream_open (crash_directory self c keep dir) base [])"
      using reopen_stream [OF ok assms(2)] log by auto
    then obtain self' dir' segs' config' rs' where o: "segment_stream_open (crash_directory self c keep dir) base [] = (Ok self', dir')"
      and ok': "stream_ok n base segs' config' rs' [] (self', dir')" "quiet config' rs'" and log': "log @ take j pending = seg_log segs' @ rs'"
      by (auto simp: opened_stream_def)
    have "stream_next base h op = Some ((self', dir'), log @ take j pending, [])"
      using o read_stream_ok [OF ok'] log' by (simp add: h SOp_Crash)
    moreover have "history_ok (n + 1) base ((self', dir'), log @ take j pending, [])"
      by (rule history_okI [OF stream_ok_mono [OF ok'(1)] log']) simp
    ultimately show ?thesis by (auto simp: h)
  qed
qed

lemma stream_run_ok:
  assumes "history_ok n base h" "n + length ops < 2 ^ 64" "list_all stream_op_ok ops"
  shows "\<exists>h' more. stream_run base h ops = Some h' \<and> history_ok (n + length ops) base h' \<and> fst (snd h') = fst (snd h) @ more"
  using assms
proof (induction ops arbitrary: n h)
  case (Cons op ops)
  from Cons.prems obtain h1 more1 where 1: "stream_next base h op = Some h1" "history_ok (n + 1) base h1" "fst (snd h1) = fst (snd h) @ more1"
    using stream_next_ok [of n base h op] by auto
  from Cons.IH [OF 1(2)] Cons.prems(2,3) obtain h2 more2 where "stream_run base h1 ops = Some h2" "history_ok (n + 1 + length ops) base h2"
    "fst (snd h2) = fst (snd h1) @ more2" by auto
  with 1 show ?case by auto
qed simp

lemma new_stream:
  assumes "config_ok base"
  shows "\<exists>self dir. segment_stream_open [] base [] = (Ok self, dir) \<and>
    history_ok (unat (cwc_first_window_ordinal base)) base ((self, dir), [], [])"
proof -
  let ?k = "cwc_first_window_ordinal base"
  obtain res dir where o: "open_wal [] ?k base CO_Ok = (res, dir)" by (cases "open_wal [] ?k base CO_Ok")
  have "untorn CO_Ok" "dir_holds [] [] []" "fresh_wal base (map_of [] ?k)"
    by (simp_all add: untorn_def dir_holds_def clean_names_def fresh_wal_def)
  from open_fresh [OF assms this o] obtain s where s: "res = Ok s" "sink_ok base [] [] s" "wf_content (ws_file s) = header_bytes base"
    "dir_holds [(?k, header_bytes base)] [] dir" by auto
  have "segment_stream_open [] base [] = (Ok \<lparr>css_base_config = base, css_current_ordinal = ?k, css_current = s\<rparr>, dir)"
    using o s(1) by (simp add: segment_stream_open_def discover_segment_ordinals_def next_io_def)
  moreover have "stream_ok (unat ?k) base [] base [] [] (\<lparr>css_base_config = base, css_current_ordinal = ?k, css_current = s\<rparr>, dir)"
    using assms s by (simp add: stream_ok_def stream_files_def seg_mans_def)
  ultimately show ?thesis by (auto intro: history_okI)
qed


definition example_stream_ops :: "StreamOp list" where
  "example_stream_ops = [SOp (WOp_Persist (Stage_Gap example_wal_gap) WO_SyncFailed) [] PO_Ok, SOp_Crash 30 (\<lambda>_. False)]"

definition example_rotation_ops :: "StreamOp list" where
  "example_rotation_ops = [SOp (WOp_Finish WO_Ok) [] PO_RenameFailed,
     SOp (WOp_Persist (Stage_Gap example_wal_gap) WO_Ok) [(PO_Ok, CO_SyncFailed)] PO_Ok]"


lemma sink_open_torn: "cwc_boot_epoch config \<noteq> 0 \<Longrightarrow> content \<noteq> [] \<Longrightarrow> length content < 64 \<Longrightarrow> sink_open content config = Err WAL_TruncatedFileHeader"
  by (simp add: sink_open_def recover_def wal_sizes)

text \<open>C37. A header that was written in part strands the stream: when the creation of the first log fails inside its 64
  bytes, the opening returns an I/O error, and every later opening refuses the directory it left, although the log holds no
  record that could be lost.\<close>

theorem torn_header_strands_stream:
  assumes "config_ok base" "0 < k" "k < 64"
  shows "\<exists>dir. segment_stream_open [] base [(po, CO_HeaderFailed k)] = (Err (CSE_Wal WAL_Io), dir) \<and>
    (\<forall>ios. segment_stream_open dir base ios = (Err (CSE_Wal WAL_TruncatedFileHeader), dir))"
proof -
  let ?k = "cwc_first_window_ordinal base" and ?torn = "take k (header_bytes base)"
  let ?dir = "[(wal_path ?k, ?torn)]"
  have b: "cwc_boot_epoch base \<noteq> 0" using assms(1) by (simp add: config_ok_def)
  have t: "?torn \<noteq> []" "length ?torn < 64" using assms(2,3) by simp_all
  have d: "discover_segment_ordinals ?dir = Ok [?k]"
    using segment_ordinal_Some [of "wal_path ?k" ?k] by (simp add: discover_segment_ordinals_def)
  have "open_wal ?dir ?k base io = (Err (CSE_Wal WAL_TruncatedFileHeader), ?dir)" for io
    using b t sink_open_torn [OF b t] by (simp add: open_wal_def recover_wal_def)
  then have "segment_stream_open ?dir base ios = (Err (CSE_Wal WAL_TruncatedFileHeader), ?dir)" for ios
    using d by (simp add: segment_stream_open_def)
  moreover have "segment_stream_open [] base [(po, CO_HeaderFailed k)] = (Err (CSE_Wal WAL_Io), ?dir)"
    using b by (simp add: segment_stream_open_def discover_segment_ordinals_def next_io_def open_wal_def write_file_header_bytes)
  ultimately show ?thesis by blast
qed

theorem torn_header_strands_stream_witness:
  "\<exists>dir. segment_stream_open [] example_wal_config [(PO_Ok, CO_HeaderFailed 10)] = (Err (CSE_Wal WAL_Io), dir) \<and>
    segment_stream_open dir example_wal_config [] = (Err (CSE_Wal WAL_TruncatedFileHeader), dir)"
proof -
  have "config_ok example_wal_config" by (simp add: config_ok_def example_wal_config_def)
  then show ?thesis using torn_header_strands_stream [of example_wal_config 10 PO_Ok] by auto
qed

end
