(* ===== verification/Spec2Isabelle.thy ===== *)
theory Spec2Isabelle
  imports Core_Delivery Core_Time Framing_Frame Protocol_Configuration Protocol_Commissioning Protocol_Lifecycle
    Protocol_Time Protocol_Diagnostics Host_Transfer Host_Recovery
    Host_Operation Host_Handshake Host_Scheduler Host_Safe_State Host_Persistence Host_Admission Host_Channel_Recovery
    Host_Runtime_Service Host_Agent_Service Host_Endpoint Host_Safe_State_Wire Capture_Recovery
begin

text \<open>
  \<^bold>\<open>The host of the sensor system, version 2.\<close>

  Nodes sample an accelerometer into a journal and answer a host over a shared RS-485 line. The host (the Rust workspace
  under \<^verbatim>\<open>src/host_v2/crates\<close>) frames requests and answers, pulls the journals, records them durably and only then lets the
  nodes free what was recorded. Its three crates are \<^verbatim>\<open>sensor-core\<close> (data and arithmetic without input and output),
  \<^verbatim>\<open>sensor-protocol\<close> (frames and messages) and \<^verbatim>\<open>sensor-host\<close> (channels, sessions and storage). This development models the
  first two crates completely, and of the third the parts that decide what is sent, what is believed and what is stored.

  \<^bold>\<open>Conventions.\<close> Rust's fixed-width integers are words and its \<open>usize\<close> is a natural number below \<open>2 ^ 64\<close>; unchecked
  arithmetic that would overflow, a slice or index out of range and \<open>expect\<close> on nothing are the outcome \<open>Panic\<close>, \<open>Err\<close> is a
  returned error and \<open>Ok\<close> a value (\<open>Sensor_Prelude\<close>). A method on \<open>&mut self\<close> returns its result and the new state, also when it
  fails half-way: \<open>try_with\<close> is the \<open>?\<close> operator with the state as it is at that point. Structs are records whose fields
  carry a prefix, enums are datatypes with the source's constructors (prefixed where they would clash). Types whose Rust
  fields are private are records with a predicate (\<open>gap_ok\<close>, \<open>axis_ok\<close>, \<open>pull_ok\<close>, ...) that holds of what their constructors
  return. \<open>Sensor_Bytes\<close> holds byte slices and little-endian fields, \<open>Sensor_Contracts\<close> the contracts several components share:
  \<open>wire_code\<close> and \<open>option_code\<close> (enumerations and their codes), \<open>codec\<close> and \<open>strict_codec\<close> (an encoder and a decoder that accepts
  exactly its output and never panics) and the machines with invariants.

  \<^bold>\<open>The theories, the code they model and what they show.\<close>

  \<^item> \<open>Core_Stream\<close> (\<^verbatim>\<open>identity.rs\<close>, \<^verbatim>\<open>sample.rs\<close>, \<^verbatim>\<open>rate.rs\<close>, \<^verbatim>\<open>gap.rs\<close>, \<^verbatim>\<open>continuity.rs\<close>): identities, samples, rates, gaps,
    breaks. \<open>Core_Delivery\<close> (\<^verbatim>\<open>delivery.rs\<close>): the cursors received, durable and released of one stream; accepted records
    enumerate the sequence exactly once, the cursors stay nested and never move back, refusals change nothing.
  \<^item> \<open>Core_Time\<close> (\<^verbatim>\<open>time.rs\<close>): clock observations, anchors and the drift model in integer arithmetic; the recorded uncertainty
    bounds the true error, the model is never damaged, estimates are monotone, exact at anchors and available between them.
  \<^item> \<open>Framing_Crc\<close>, \<open>Framing_Cobs\<close>, \<open>Framing_Frame\<close> (\<^verbatim>\<open>framing.rs\<close>): CRC-32C with its detection of bursts (by linearity over the
    two-element field), byte stuffing in the fixed buffers, frames and the stream decoder; round trips, totality, refinement
    of the buffer-based decoder by one on lists, and resynchronisation after noise.
  \<^item> \<open>Protocol_Application\<close>, \<open>Protocol_Measurement\<close>, \<open>Protocol_Measurement_Wire\<close>, \<open>Protocol_Identity\<close>, \<open>Protocol_Lifecycle\<close>,
    \<open>Protocol_Configuration\<close>, \<open>Protocol_Commissioning\<close>, \<open>Protocol_Time\<close>, \<open>Protocol_Diagnostics\<close> (the files of the same names): every
    message with its validation; each decoder accepts exactly the bytes of valid messages and never panics, and a validated
    answer to a pull always advances the cursors by exactly its range.
  \<^item> \<open>Host_Transaction\<close> (\<^verbatim>\<open>transaction.rs\<close>): one request at a time per channel, with timeouts and quarantine, refining an abstract
    channel in which an accepted answer belongs to the request issued last.
  \<^item> \<open>Host_Session\<close> (\<^verbatim>\<open>node_session.rs\<close>), \<open>Host_Transfer\<close> (\<^verbatim>\<open>measurement_transfer.rs\<close>), \<open>Host_Recovery\<close> (\<^verbatim>\<open>stream_recovery.rs\<close>): the
    session of a node refines an abstract session (\<open>abs_step\<close>) that releases exactly the durable prefix; any bytes end the
    pull they answer; recovery succeeds exactly when capture and node agree.
  \<^item> \<open>Host_Operation\<close> (\<^verbatim>\<open>lifecycle.rs\<close>, \<^verbatim>\<open>configuration.rs\<close>, \<^verbatim>\<open>commissioning.rs\<close>): the locale \<open>retried_operation\<close>, interpreted on all three;
    retries resend the same bytes. \<open>Host_Handshake\<close> (\<^verbatim>\<open>handshake.rs\<close>): admission. \<open>Host_Scheduler\<close> (\<^verbatim>\<open>channel_scheduler.rs\<close>): the
    selection loop is the first candidate of least rank. \<open>Host_Safe_State\<close> (\<^verbatim>\<open>safe_state.rs\<close>, \<^verbatim>\<open>channel_mode.rs\<close>): convergence to a safe
    state ends within a bound computed from its policy, except for nodes that report a fault after every restart, and the plans
    of channel modes keep their order (the locale \<open>ordered_plan\<close>).
  \<^item> \<open>Host_Admission\<close> (\<^verbatim>\<open>channel_admission.rs\<close>): the utilisation of a line in parts per million bounds the exact demand of its nodes
    from above and closely. \<open>Host_Channel_Recovery\<close> (\<^verbatim>\<open>channel_recovery.rs\<close>): every node of a channel resumes from its own capture.
  \<^item> \<open>Host_Runtime\<close> (\<^verbatim>\<open>channel_runtime.rs\<close>): the schedules of the nodes of a channel and every operation on them, with the
    estimate of the time to overflow. \<open>Host_Runtime_Invariant\<close>: histories of calls as the inductive relation \<open>runtime_history\<close>; the
    line is a token with at most one owner, and a schedule is in flight exactly when it owns the line or its record is being
    stored. \<open>Host_Runtime_Service\<close>: an idle line goes to the most urgent work, and a node that answered is served in time.
  \<^item> \<open>Host_Agent\<close> (\<^verbatim>\<open>channel_agent.rs\<close>): the queue of work of a line, the active work with its request and every kind of answer.
    \<open>Host_Agent_Invariant\<close>: histories of calls as the inductive relation \<open>agent_history\<close>; in each the line carries only the request of
    the active work, no call panics and no accepted measurement is lost. \<open>Host_Agent_Service\<close>: identifiers never run out, and a
    frame that arrives between a deadline and the next poll strands the agent.
  \<^item> \<open>Host_Endpoint\<close> (\<^verbatim>\<open>channel_port.rs\<close>, \<^verbatim>\<open>channel_endpoint.rs\<close>): bytes in and out of the device, which is a script of reads and writes.
    Whatever the cuts, the port delivers the frames of the abstract decoder, and every history of an endpoint is one of its agent and
    one of its port with the same frames.
  \<^item> \<open>Host_Safe_State_Wire\<close> (\<^verbatim>\<open>safe_state.rs\<close>, \<^verbatim>\<open>safe_state_group.rs\<close>): the converger over a channel agent. In every history the agent holds
    at most the command of the operation, overdue attempts end, the number of commands is bounded, and a group goes node by node.
  \<^item> \<open>Capture_Window\<close> (\<^verbatim>\<open>capture_window.rs\<close>): the windows of a capture tile its stream. \<open>Capture_Wal\<close> and \<open>Capture_Sink\<close> (\<^verbatim>\<open>capture_wal.rs\<close>):
    record and header bytes, recovery, batches, the sink and the reader; every record that was acknowledged survives every crash.
    \<open>Host_Persistence\<close> (\<^verbatim>\<open>measurement_persistence.rs\<close>): the trait of durable sinks as a record of operations, its laws as the locale
    \<open>durable_sink\<close>, interpreted on the capture log; a pending record becomes durable exactly once.
  \<^item> \<open>Capture_Manifest\<close>, \<open>Capture_Segments\<close> (\<^verbatim>\<open>capture_segments.rs\<close>): the manifests of sealed windows, whose decoder accepts exactly the
    bytes of manifests that keep their contract, and the stream of one sensor boot as a directory of logs, one per window, with
    opening, rotation and the validation of a sealed segment. \<open>Capture_Stream\<close>: the invariant of a stream over its directory, which
    every operation keeps whatever input and output fail. \<open>Capture_Recovery\<close>: what a crash leaves opens again with every record of
    the stream, and every sealed segment passes the validation; a header written in part is the exception, and strands the stream.
  \<^item> This theory: the recorder of a node, that is transfer, log and recovery in any order with crashes, as the inductive
    relation \<open>recorder\<close>; what any pull allowed the node to free is in the log any crash leaves behind.

  \<^bold>\<open>Loops, fuel and bounds.\<close> Loops over lists and counters are structural recursions. The recovery loop of the log and the
  collection of its records are functions whose termination is proved by the distance to the end of the file, and the rotation
  of a stream ends because each turn opens a log of a higher ordinal; no definition uses fuel. Sequences of operations, frames, reports and crashes are lists or derivations of any length.

  \<^bold>\<open>Storage.\<close> A file is its content and the position of the next write. Every write and the barrier after it end as an
  argument of the operation says: success, failure after any part of the bytes, or failure of the barrier; a file of
  \<open>2 ^ 63\<close> bytes cannot be written. A crash keeps the bytes up to the last successful barrier and any prefix of those written
  after it. Reads, opening and truncating succeed. A directory is the list of its files; publishing a manifest and creating a log
  fail at the step an argument names, and a crash may lose any file but the logs up to the current one, whose names the
  creation of a log makes durable.

  \<^bold>\<open>Not modelled.\<close> Threads and queues (\<^verbatim>\<open>channel_worker.rs\<close> and its start-up) and the opening of serial ports, the coordinators
  and executors between sessions and sinks, the repositories of capture files with retention and archive, the logs of time and
  telemetry, installation files (parsed by a third-party library), the operator interface, exports and the command lines, which
  are input and output; the simulation, which is a test double; the Python host, the firmware and the boards, which are not the
  Rust host. Text output (\<open>Display\<close>) and accessors are left out everywhere.
\<close>

section \<open>The recorder of one node\<close>

text \<open>
  Everything the recorder of one node does to its measurement transfer and its capture log, in any order: pulls, answers
  of any bytes, pulls given up, records handed to the log with writes and barriers that may fail, windows finished, and
  crashes that cut the file behind its last durable byte, after which the log is recovered and the session reconciled with
  whatever state the node then reports. \<open>releases\<close> are the cursors the pulls so far allowed the node to free.
\<close>

definition capture_evidence :: "CaptureWalSink \<Rightarrow> CaptureRecoveryEvidence" where
  "capture_evidence s = \<lparr>cre_hardware_id = ws_hardware_id s, cre_boot_epoch = ws_boot_epoch s,
     cre_durable_cursor = cwr_durable_cursor (ws_recovery s)\<rparr>"

inductive recorder ::
  "CaptureWalConfig \<Rightarrow> ExpectedStreamState \<Rightarrow> SequenceCursor list \<Rightarrow> MeasurementTransfer \<Rightarrow> CaptureWalSink \<Rightarrow> bool"
  for config expected where
  start: "\<lbrakk>sink_open [] config = Ok s;
    session_recovered (ex_hardware_id expected) (ex_boot_epoch expected) (cwc_recovered_cursor config) released = Ok n;
    transfer_new node_address max_samples n = Ok t\<rbrakk> \<Longrightarrow> recorder config expected [] t s"
| pull: "\<lbrakk>recorder config expected releases t s; transfer_begin_attempt t timeout = (Ok attempt, t');
    decode_pull_request (ma_payload attempt) = Ok request\<rbrakk> \<Longrightarrow>
    recorder config expected (releases @ [psr_release_before request]) t' s"
| give_up: "\<lbrakk>recorder config expected releases t s; mark_attempt_uncertain t = (res, t')\<rbrakk> \<Longrightarrow>
    recorder config expected releases t' s"
| answer: "\<lbrakk>recorder config expected releases t s; transfer_accept_response t payload = (res, t')\<rbrakk> \<Longrightarrow>
    recorder config expected releases t' s"
| store: "\<lbrakk>recorder config expected releases t s; persist_pending (wal_ops io) t s = (stored, (t', s'))\<rbrakk> \<Longrightarrow>
    recorder config expected releases t' s'"
| finish_window: "\<lbrakk>recorder config expected releases t s; finish_window s io = (finished, s')\<rbrakk> \<Longrightarrow>
    recorder config expected releases t s'"
| restart: "\<lbrakk>recorder config expected releases t s;
    sink_open (take (ws_durable_len s + n) (wf_content (ws_file s))) config = Ok s';
    reconcile_existing_capture expected (capture_evidence s') node = Ok stream;
    transfer_new node_address max_samples (rst_session stream) = Ok t'\<rbrakk> \<Longrightarrow>
    recorder config expected releases t' s'"

text \<open>The session half of the invariant, kept by everything that leaves the log alone.\<close>

definition session_keeps :: "NodeSession \<Rightarrow> NodeSession \<Rightarrow> bool" where
  "session_keeps n n' \<longleftrightarrow> session_ok n' \<and> session_typed n' \<and> dc_durable (ns_cursors n') = dc_durable (ns_cursors n)"

lemma refines_keeps_durable:
  assumes "session_ok n" "session_apply n op = (l, n')" "\<And>e. l \<noteq> L_Durable e"
  shows "session_ok n' \<and> dc_durable (ns_cursors n') = dc_durable (ns_cursors n)"
proof -
  have r: "session_ok n'" "abs_step (abs_of n) l (abs_of n')"
    using session_refines [OF assms(1), of op] assms(2) by (simp_all add: refines_def)
  from r(2) have "as_durable (abs_of n') = as_durable (abs_of n)" by (rule abs_stepE) (use assms(3) in auto)
  with r(1) show ?thesis by (simp add: abs_of_def unat_eq_iff)
qed

lemma labelled_not_durable: "(\<And>x e. f x \<noteq> L_Durable e) \<Longrightarrow> fst (labelled f out) \<noteq> L_Durable e"
  by (cases out; cases "fst out") auto

lemma leave_pull_pending [simp]:
  "ns_pending_chunk (snd (begin_pull n m)) = ns_pending_chunk n"
  "ns_pending_chunk (snd (abandon_pull_for_retry n)) = ns_pending_chunk n"
  "ns_pending_chunk (snd (stream_changed n)) = ns_pending_chunk n"
  "ns_pending_chunk (snd (fail_pull_for_recovery n)) = ns_pending_chunk n"
  "ns_pending_chunk (snd (enter_recovery n e)) = ns_pending_chunk n"
  "ns_pending_chunk (snd (validate_state_for_active_stream n st)) = ns_pending_chunk n"
  by (auto simp: begin_pull_def abandon_pull_for_retry_def stream_changed_def fail_pull_for_recovery_def enter_recovery_def
      validate_state_for_active_stream_def split: try_with_split result.splits)

lemma validated_state_pending:
  "validate_state_for_active_stream n st = (r, n') \<Longrightarrow> ns_pending_chunk n' = ns_pending_chunk n"
  using leave_pull_pending(6) [of n st] by simp

lemma answers_pending:
  "ns_pending_chunk (snd (accept_no_data n st)) = ns_pending_chunk n"
  "ns_pending_chunk (snd (accept_range_unavailable n st)) = ns_pending_chunk n"
  "ns_pending_chunk (snd (accept_gap n g)) = ns_pending_chunk n"
  "ns_pending_chunk (snd (accept_continuity_break n b)) = ns_pending_chunk n"
  "ns_pending_chunk (snd (invalid_release n st)) = ns_pending_chunk n"
  by (auto simp: accept_no_data_def accept_range_unavailable_def accept_gap_def accept_continuity_break_def invalid_release_def
      record_gap_def Let_def with_cursors_def
      split: try_with_split result.splits prod.splits dest: validated_state_pending)

lemma chunk_pending:
  "ns_pending_chunk (snd (accept_wire_chunk n c)) = ns_pending_chunk n \<or>
   ns_pending_chunk (snd (accept_wire_chunk n c)) = Some (PC_Wire c)"
  by (auto simp: accept_wire_chunk_def Let_def with_cursors_def split: try_with_split result.splits)

lemma response_typed:
  assumes "session_typed n" "pull_response_ok r"
  shows "session_typed (snd (session_apply n (response_op r)))"
  using assms chunk_pending [of n]
  by (cases r) (auto simp: session_typed_def answers_pending list_all_iff, metis PendingChunk.inject(2) option.inject)

text \<open>Each call of the transfer that leaves the log alone is one operation of its session.\<close>

lemma answer_keeps:
  assumes "session_ok (mt_session t)" "session_typed (mt_session t)" "transfer_accept_response t payload = (res, t')"
  shows "session_keeps (mt_session t) (mt_session t')"
proof (cases "decode_pull_response payload")
  case (Ok r)
  then have ok: "pull_response_ok r" using pull_response.encode_decode by blast
  have m: "mt_session t' = snd (session_apply (mt_session t) (response_op r))"
    using assms(3) Ok accept_pull_response_session [of t r] by (simp add: transfer_accept_response_def)
  have "fst (session_apply (mt_session t) (response_op r)) \<noteq> L_Durable e" for e
    by (cases r) (auto intro!: labelled_not_durable)
  with refines_keeps_durable [OF assms(1) surjective_pairing, of "response_op r"] response_typed [OF assms(2) ok] m
  show ?thesis by (simp add: session_keeps_def)
next
  case (Err e)
  let ?op = "if e = MWE_RemoteError RS_Busy then S_Abandon else S_FailPull"
  have "mt_session (snd (transfer_accept_response t payload)) = snd (session_apply (mt_session t) ?op)"
    by (simp add: transfer_accept_response_def Err snd_on_session)
  then have m: "mt_session t' = snd (session_apply (mt_session t) ?op)" using assms(3) by simp
  have "fst (session_apply (mt_session t) ?op) \<noteq> L_Durable e" for e
    by (auto intro!: labelled_not_durable)
  with refines_keeps_durable [OF assms(1) surjective_pairing, of ?op] assms(2) m
  show ?thesis by (auto simp: session_keeps_def session_typed_def)
next
  case Panic
  then show ?thesis using pull_response.decode_no_panic by blast
qed

lemma give_up_keeps:
  assumes "session_ok (mt_session t)" "session_typed (mt_session t)" "mark_attempt_uncertain t = (res, t')"
  shows "session_keeps (mt_session t) (mt_session t')"
proof -
  have "mt_session (snd (mark_attempt_uncertain t)) = snd (session_apply (mt_session t) S_Abandon)"
    by (simp add: mark_attempt_uncertain_def snd_on_session)
  then have m: "mt_session t' = snd (session_apply (mt_session t) S_Abandon)" using assms(3) by simp
  have "fst (session_apply (mt_session t) S_Abandon) \<noteq> L_Durable e" for e by (simp add: labelled_not_durable)
  with refines_keeps_durable [OF assms(1) surjective_pairing, of S_Abandon] assms(2) m
  show ?thesis by (simp add: session_keeps_def session_typed_def)
qed

lemma pull_keeps:
  assumes "session_ok (mt_session t)" "session_typed (mt_session t)" "transfer_begin_attempt t timeout = (Ok attempt, t')"
  shows "session_keeps (mt_session t) (mt_session t')"
    "decode_pull_request (ma_payload attempt) = Ok request \<Longrightarrow> psr_release_before request = dc_durable (ns_cursors (mt_session t))"
proof -
  from assms(3) obtain pull n where b: "begin_pull (mt_session t) (mt_max_samples t) = (Ok pull, n)" "mt_session t' = n"
    and e: "encode_pull_request pull = Ok (ma_payload attempt)"
    by (cases "begin_pull (mt_session t) (mt_max_samples t)")
      (auto simp: transfer_begin_attempt_def on_session_def Let_def result_iffs)
  have p: "pull_ok pull" "psr_release_before pull = dc_durable (ns_cursors (mt_session t))"
    using b(1) by (auto simp: begin_pull_def result_iffs pull_samples_request_new_def pull_ok_def split: if_splits)
  have "session_apply (mt_session t) (S_BeginPull (mt_max_samples t)) = (L_Pulled (unat (psr_from pull)) (unat (psr_release_before pull)), n)"
    using b(1) by simp
  from refines_keeps_durable [OF assms(1) this] leave_pull_pending(1) [of "mt_session t" "mt_max_samples t"] assms(2) b
  show "session_keeps (mt_session t) (mt_session t')" by (simp add: session_keeps_def session_typed_def)
  show "psr_release_before request = dc_durable (ns_cursors (mt_session t))"
    if "decode_pull_request (ma_payload attempt) = Ok request"
    using pull_request.decode_encode [OF p(1) e] p(2) that by simp
qed

text \<open>What holds of a recorder at all times.\<close>

definition recorder_ok ::
  "CaptureWalConfig \<Rightarrow> SequenceCursor list \<Rightarrow> MeasurementTransfer \<Rightarrow> CaptureWalSink \<Rightarrow> bool" where
  "recorder_ok config releases t s \<longleftrightarrow>
     (\<exists>rs. wal_sink.in_step config t s rs) \<and> list_all (\<lambda>r. r \<le> dc_durable (ns_cursors (mt_session t))) releases"

lemma recorder_ok_keeps:
  assumes "recorder_ok config releases t s" "session_keeps (mt_session t) (mt_session t')"
  shows "recorder_ok config releases t' s"
  using assms by (auto simp: recorder_ok_def wal_sink.in_step_def session_keeps_def)

lemma recorder_ok_advances:
  assumes "recorder_ok config releases t s" "wal_sink.in_step config t' s' rs"
    "dc_durable (ns_cursors (mt_session t)) \<le> dc_durable (ns_cursors (mt_session t'))"
  shows "recorder_ok config releases t' s'"
  using assms by (auto simp: recorder_ok_def list_all_iff intro: order_trans)

lemma log_end_le: "log_end c rs = Some e \<Longrightarrow> c \<le> e"
  by (induction rs arbitrary: c) (fastforce split: option.splits if_splits)+

lemma finish_recorder_ok:
  assumes "recorder_ok config releases t s" "finish_window s io = (res, s')"
  shows "recorder_ok config releases t s'"
proof -
  obtain rs ps where i: "wal_sink.in_step config t s rs" and k: "sink_ok config rs ps s"
    using assms(1) by (auto simp: recorder_ok_def wal_sink.in_step_def)
  have h: "sink_ok config rs [] s" if "\<not> ws_poisoned s" using k that by (auto simp: sink_ok_def)
  define qs where "qs = (if cl_open (ws_ledger s) = None then [] else [CRec_WindowSeal])"
  have r: "op_result config rs qs s res s'" using finish_window_result [OF h assms(2) qs_def] by simp
  have e: "log_end c (rs @ qs) = log_end c rs" for c
    by (cases "log_end c rs") (simp_all add: qs_def log_end_append)
  have "\<exists>rs'. wal_sink.in_step config t s' rs'"
  proof (cases res)
    case (Ok m)
    with r i e have "wal_sink.in_step config t s' (rs @ qs)" by (auto simp: op_result_def wal_sink.in_step_def)
    then show ?thesis by blast
  next
    case (Err x)
    with r i show ?thesis by (auto simp: op_result_def wal_sink.in_step_def)
  next
    case Panic
    with r show ?thesis by (simp add: op_result_def)
  qed
  with assms(1) show ?thesis by (simp add: recorder_ok_def)
qed

text \<open>The log a crash leaves behind reaches at least as far as the session did.\<close>

lemma crash_recovers:
  assumes "config_ok config" "recorder_ok config releases t s"
    "sink_open (take (ws_durable_len s + n) (wf_content (ws_file s))) config = Ok s'"
  shows "\<exists>rs. sink_ok config rs [] s' \<and> read_file (wf_content (ws_file s')) = Ok rs \<and>
    log_end (unat (cwc_recovered_cursor config)) rs = Some (unat (cwr_durable_cursor (ws_recovery s'))) \<and>
    dc_durable (ns_cursors (mt_session t)) \<le> cwr_durable_cursor (ws_recovery s')"
proof -
  obtain rs ps where i: "log_end (unat (cwc_recovered_cursor config)) rs = Some (unat (dc_durable (ns_cursors (mt_session t))))"
    and k: "sink_ok config rs ps s"
    using assms(2) by (auto simp: recorder_ok_def wal_sink.in_step_def)
  obtain j s1 where "sink_open (take (ws_durable_len s + n) (wf_content (ws_file s))) config = Ok s1"
    and k1: "sink_ok config (rs @ take j ps) [] s1"
    using reopen [OF assms(1) k] by blast
  with assms(3) have k': "sink_ok config (rs @ take j ps) [] s'" by simp
  note e = sink_ok_log_end [OF k']
  with i have "unat (dc_durable (ns_cursors (mt_session t))) \<le> unat (cwr_durable_cursor (ws_recovery s'))"
    by (auto simp: log_end_append dest: log_end_le)
  with e k' sink_ok_reads [OF assms(1) k'] show ?thesis by (auto simp: word_le_nat_alt)
qed

lemma restart_recorder_ok:
  assumes "config_ok config" "recorder_ok config releases t s"
    "sink_open (take (ws_durable_len s + n) (wf_content (ws_file s))) config = Ok s'"
    "reconcile_existing_capture expected (capture_evidence s') node = Ok stream"
    "transfer_new node_address max_samples (rst_session stream) = Ok t'"
  shows "recorder_ok config releases t' s'"
proof -
  obtain rs where rs: "sink_ok config rs [] s'"
    "log_end (unat (cwc_recovered_cursor config)) rs = Some (unat (cwr_durable_cursor (ws_recovery s')))"
    "dc_durable (ns_cursors (mt_session t)) \<le> cwr_durable_cursor (ws_recovery s')"
    using crash_recovers [OF assms(1-3)] by blast
  have n: "reconcilable expected (capture_evidence s') node" "stream = reconciled_stream expected (capture_evidence s') node"
    using assms(4) by (simp_all add: reconcile_iff)
  have m: "mt_session t' = rst_session stream" using assms(5) by (auto simp: transfer_new_def split: if_splits)
  have "session_ok (mt_session t')" "session_typed (mt_session t')"
    "dc_durable (ns_cursors (mt_session t')) = cwr_durable_cursor (ws_recovery s')"
    using reconciled_session_ok [OF n(1)] by (simp_all add: m n(2)) (simp_all add: reconciled_stream_def session_typed_def capture_evidence_def)
  with rs show ?thesis by (intro recorder_ok_advances [OF assms(2)]) (auto simp: wal_sink.in_step_def)
qed

lemma start_recorder_ok:
  assumes "config_ok config" "sink_open [] config = Ok s"
    "session_recovered h e (cwc_recovered_cursor config) released = Ok n" "transfer_new node_address max_samples n = Ok t"
  shows "recorder_ok config [] t s"
proof -
  have k: "sink_ok config [] [] s" using new_sink [OF assms(1)] assms(2) by auto
  have "mt_session t = n" using assms(4) by (auto simp: transfer_new_def split: if_splits)
  moreover have "session_ok n" by (rule session_recovered_ok [OF assms(3)])
  ultimately show ?thesis
    using k assms(3) by (auto simp: recorder_ok_def wal_sink.in_step_def result_iffs session_typed_def intro!: exI [of _ "[]"])
qed

lemma recorder_invariant:
  assumes "config_ok config" "recorder config expected releases t s"
  shows "recorder_ok config releases t s"
  using assms(2)
proof (induction rule: recorder.induct)
  case (start s released n node_address max_samples t)
  then show ?case by (rule start_recorder_ok [OF assms(1)])
next
  case (pull releases t s timeout attempt t' request)
  then have ok: "session_ok (mt_session t)" "session_typed (mt_session t)" by (auto simp: recorder_ok_def wal_sink.in_step_def)
  note p = pull_keeps [OF ok pull(2)]
  have "recorder_ok config releases t' s" by (rule recorder_ok_keeps [OF pull.IH p(1)])
  with p(1) p(2) [OF pull(3)] show ?case by (simp add: recorder_ok_def session_keeps_def)
next
  case (give_up releases t s res t')
  then have "session_keeps (mt_session t) (mt_session t')"
    by (intro give_up_keeps) (auto simp: recorder_ok_def wal_sink.in_step_def)
  then show ?case by (rule recorder_ok_keeps [OF give_up.IH])
next
  case (answer releases t s payload res t')
  then have "session_keeps (mt_session t) (mt_session t')"
    by (intro answer_keeps) (auto simp: recorder_ok_def wal_sink.in_step_def)
  then show ?case by (rule recorder_ok_keeps [OF answer.IH])
next
  case (store releases t s io stored t' s')
  then obtain rs where i: "wal_sink.in_step config t s rs" by (auto simp: recorder_ok_def)
  then have "delivery_ok (ns_cursors (mt_session t))" by (simp add: wal_sink.in_step_def session_ok_def)
  then have le: "dc_durable (ns_cursors (mt_session t)) \<le> dr_end (receipt_for (mt_session t))"
    by (simp add: receipt_for_def delivery_ok_def)
  note p = wal_sink.persist_pending_in_step [OF i store(2)]
  have "\<exists>rs'. wal_sink.in_step config t' s' rs' \<and> dc_durable (ns_cursors (mt_session t)) \<le> dc_durable (ns_cursors (mt_session t'))"
  proof (cases stored)
    case (Ok receipt)
    with p le show ?thesis by auto
  next
    case (Err x)
    with p show ?thesis by auto
  next
    case Panic
    with p show ?thesis by simp
  qed
  then show ?case using recorder_ok_advances [OF store.IH] by blast
next
  case (finish_window releases t s io finished s')
  show ?case by (rule finish_recorder_ok [OF finish_window.IH finish_window(2)])
next
  case (restart releases t s n s' node stream node_address max_samples t')
  show ?case by (rule restart_recorder_ok [OF assms(1) restart.IH restart(2-4)])
qed


definition example_expected :: ExpectedStreamState where
  "example_expected = \<lparr>ex_hardware_id = HardwareId 1 2 3 4 5 6 7 8, ex_boot_epoch = 5, ex_journal_capacity_samples = 4096\<rparr>"

definition example_recorder :: MeasurementTransfer where
  "example_recorder = \<lparr>mt_node_address = 7, mt_max_samples = 32, mt_session = example_start, mt_observed_produced = None,
     mt_persistence_kind = None, mt_recovery_reason = None\<rparr>"

lemma example_recorder_runs:
  "\<exists>t s. config_ok example_capture \<and> recorder example_capture example_expected [10] t s"
proof -
  have c: "config_ok example_capture" by (simp add: config_ok_def example_capture_def)
  obtain s where s: "sink_open [] example_capture = Ok s" using new_sink [OF c] by blast
  have "recorder example_capture example_expected [] example_recorder s"
    by (rule start [OF s, where released = 7 and n = example_start and node_address = 7 and max_samples = 32])
      (use example_start_recovered in \<open>simp_all add: example_expected_def example_capture_def transfer_new_def example_recorder_def\<close>)
  moreover obtain attempt t where a: "transfer_begin_attempt example_recorder 1000 = (Ok attempt, t)"
    "decode_pull_request (ma_payload attempt) = Ok \<lparr>psr_boot_epoch = 5, psr_from = 10, psr_release_before = 10, psr_max_samples = 32\<rparr>"
  proof -
    let ?pull = "\<lparr>psr_boot_epoch = 5, psr_from = 10, psr_release_before = 10, psr_max_samples = 32\<rparr>"
    have p: "pull_ok ?pull" by (simp add: pull_ok_def)
    obtain bs where e: "encode_pull_request ?pull = Ok bs" using pull_request.encode_valid [OF p] by blast
    show thesis
      by (rule that, simp add: example_recorder_def transfer_begin_attempt_def on_session_def example_start_def begin_pull_def
          require_phase_def pull_samples_request_new_def e, simp add: pull_request.decode_encode [OF p e])
  qed
  ultimately have "recorder example_capture example_expected ([] @ [10]) t s"
    using pull [of example_capture example_expected "[]" example_recorder s] by force
  with c show ?thesis by auto
qed


end
